(* ===== verification/Faucet_Prelude.thy ===== *)
theory Faucet_Prelude
  imports Complex_Main "HOL-Library.AList" "HOL-Library.Sublist" "HOL-Library.Product_Lexorder"
    "HOL-Library.List_Lexorder" "HOL-Library.Char_ord" "HOL-Library.Multiset" "HOL-Library.While_Combinator"
    "HOL-Library.Word"
begin

text \<open>
  What the components share.

  A JavaScript Map is an association list: \<^verbatim>\<open>Map.set\<close> keeps the place of a key
  that is present and appends one that is not, \<^verbatim>\<open>Map.delete\<close> drops the entry, and
  iteration runs in insertion order; \<^verbatim>\<open>AList.update\<close> and \<^verbatim>\<open>AList.delete\<close> do
  exactly this.  A Set is the list of its members in insertion order.  BigInt is
  \<^verbatim>\<open>int\<close>, with a division that truncates toward zero.  Texts that
  \<^verbatim>\<open>JSON.stringify\<close> makes of an array of strings are computed and proved injective.
\<close>

named_theorems inv_intro \<open>introduction rules for component invariants\<close>
named_theorems inv_dest \<open>what a component invariant gives\<close>
named_theorems step_simps \<open>evaluation rules of operations\<close>

type_synonym ('k, 'v) jsmap = "('k \<times> 'v) list"

abbreviation js_get :: "('k, 'v) jsmap \<Rightarrow> 'k \<Rightarrow> 'v option" where
  "js_get m k \<equiv> map_of m k"

abbreviation js_set :: "'k \<Rightarrow> 'v \<Rightarrow> ('k, 'v) jsmap \<Rightarrow> ('k, 'v) jsmap" where
  "js_set k v m \<equiv> AList.update k v m"

abbreviation js_delete :: "'k \<Rightarrow> ('k, 'v) jsmap \<Rightarrow> ('k, 'v) jsmap" where
  "js_delete k m \<equiv> AList.delete k m"

abbreviation js_has :: "('k, 'v) jsmap \<Rightarrow> 'k \<Rightarrow> bool" where
  "js_has m k \<equiv> map_of m k \<noteq> None"

abbreviation js_keys :: "('k, 'v) jsmap \<Rightarrow> 'k list" where
  "js_keys m \<equiv> map fst m"

abbreviation js_map_ok :: "('k, 'v) jsmap \<Rightarrow> bool" where
  "js_map_ok m \<equiv> distinct (map fst m)"

declare map_of_eq_Some_iff [simp del] Some_eq_map_of_iff [simp del]

text \<open>\<^verbatim>\<open>Set.add\<close>: a member already present keeps its place.\<close>

definition js_add :: "'a \<Rightarrow> 'a list \<Rightarrow> 'a list" where
  "js_add x xs = (if x \<in> set xs then xs else xs @ [x])"

lemma set_js_add [simp]: "set (js_add x xs) = insert x (set xs)"
  by (auto simp: js_add_def)

lemma distinct_js_add [simp]: "distinct xs \<Longrightarrow> distinct (js_add x xs)"
  by (auto simp: js_add_def)

subsection \<open>Maps\<close>

lemmas js_map_simps = update_conv' delete_conv'

lemma js_get_set [simp]: "js_get (js_set k v m) k' = (if k' = k then Some v else js_get m k')"
  by (simp add: update_conv')

lemma js_get_delete [simp]: "js_get (js_delete k m) k' = (if k' = k then None else js_get m k')"
  by (simp add: delete_conv')

lemma js_map_ok_set [simp]: "js_map_ok m \<Longrightarrow> js_map_ok (js_set k v m)"
  by (rule distinct_update)

lemma js_map_ok_delete [simp]: "js_map_ok m \<Longrightarrow> js_map_ok (js_delete k m)"
  by (rule distinct_delete)

lemma js_get_in_set: "js_map_ok m \<Longrightarrow> (k, v) \<in> set m \<longleftrightarrow> js_get m k = Some v"
  by (simp add: map_of_eq_Some_iff)

lemma js_delete_absent: "js_get m k = None \<Longrightarrow> js_delete k m = m"
  by (simp add: delete_idem map_of_eq_None_iff)

lemma js_set_absent: "js_get m k = None \<Longrightarrow> js_set k v m = m @ [(k, v)]"
  by (induction m) auto

lemma js_delete_fresh_set [simp]: "js_get m k = None \<Longrightarrow> js_delete k (js_set k v m) = m"
  by (induction m) (auto split: if_splits)

lemma js_set_set [simp]: "js_set k v (js_set k w m) = js_set k v m"
  by (induction m) auto

lemma js_set_same: "js_get m k = Some v \<Longrightarrow> js_set k v m = m"
  by (induction m) (auto split: if_splits)

lemma js_set_nonempty [simp]: "js_set k v m \<noteq> []"
  by (cases m) auto

lemma js_delete_empty_iff:
  "js_delete k m = [] \<longleftrightarrow> (\<forall>k'. k' \<noteq> k \<longrightarrow> js_get m k' = None)"
proof -
  have "js_delete k m = [] \<longleftrightarrow> (\<forall>k'. js_get (js_delete k m) k' = None)"
    by (metis list.exhaust map_of.simps(1) map_of_eq_None_iff list.set_intros(1) image_eqI)
  thus ?thesis by auto
qed

lemma js_keys_set: "js_keys (js_set k v m) = (if js_has m k then js_keys m else js_keys m @ [k])"
  by (induction m) auto

subsection \<open>Options and results\<close>

text \<open>A call that may throw: \<^verbatim>\<open>Inl\<close> carries the error, \<^verbatim>\<open>Inr\<close> the value.\<close>

fun try_bind :: "'e + 'a \<Rightarrow> ('a \<Rightarrow> 'e + 'b) \<Rightarrow> 'e + 'b" where
  "try_bind (Inl e) f = Inl e"
| "try_bind (Inr a) f = f a"

lemma try_bind_Inr_iff: "try_bind r f = Inr b \<longleftrightarrow> (\<exists>a. r = Inr a \<and> f a = Inr b)"
  by (cases r) auto

lemma try_bind_Inl_iff: "try_bind r f = Inl e \<longleftrightarrow> r = Inl e \<or> (\<exists>a. r = Inr a \<and> f a = Inl e)"
  by (cases r) auto

fun is_ok :: "'e + 'a \<Rightarrow> bool" where
  "is_ok (Inl _) = False"
| "is_ok (Inr _) = True"

lemma is_ok_iff: "is_ok r \<longleftrightarrow> (\<exists>a. r = Inr a)"
  by (cases r) auto

text \<open>The state after an operation that either throws, before it changed anything,
  or returns the new state.\<close>

fun keep_on_error :: "'s \<Rightarrow> 'e + 's \<Rightarrow> 's" where
  "keep_on_error s (Inl _) = s"
| "keep_on_error s (Inr s') = s'"

subsection \<open>Numbers\<close>

text \<open>BigInt division truncates toward zero; the sources never divide by zero.\<close>

definition bigint_div :: "int \<Rightarrow> int \<Rightarrow> int" where
  "bigint_div a b = sgn a * sgn b * (\<bar>a\<bar> div \<bar>b\<bar>)"

lemma bigint_div_nonneg [simp]: "0 \<le> a \<Longrightarrow> 0 < b \<Longrightarrow> bigint_div a b = a div b"
  by (cases "a = 0") (auto simp: bigint_div_def)

text \<open>\<^verbatim>\<open>Number.MAX_SAFE_INTEGER\<close>\<close>

definition max_safe_integer :: int where
  "max_safe_integer = 9007199254740991"

definition is_safe_integer :: "int \<Rightarrow> bool" where
  "is_safe_integer n \<longleftrightarrow> \<bar>n\<bar> \<le> max_safe_integer"

lemma sum_list_filter_le:
  assumes "\<And>x. x \<in> set xs \<Longrightarrow> (0::int) \<le> f x"
  shows "sum_list (map f (filter P xs)) \<le> sum_list (map f xs)"
  using assms by (induction xs) fastforce+

lemma sum_list_map_nonneg:
  assumes "\<And>x. x \<in> set xs \<Longrightarrow> (0::int) \<le> f x"
  shows "0 \<le> sum_list (map f xs)"
  using assms by (induction xs) auto

subsection \<open>JSON text of an array of strings\<close>

definition hex_digit :: "nat \<Rightarrow> char" where
  "hex_digit n = ''0123456789abcdef'' ! n"

text \<open>How \<^verbatim>\<open>JSON.stringify\<close> writes one character of a string.\<close>

definition json_char :: "char \<Rightarrow> string" where
  "json_char c = (let n = of_char c :: nat in
     if n = 34 then [CHR 92, CHR 34] else if n = 92 then [CHR 92, CHR 92]
     else if n = 8 then [CHR 92, CHR ''b''] else if n = 9 then [CHR 92, CHR ''t'']
     else if n = 10 then [CHR 92, CHR ''n''] else if n = 12 then [CHR 92, CHR ''f'']
     else if n = 13 then [CHR 92, CHR ''r'']
     else if n < 32 then [CHR 92, CHR ''u'', CHR ''0'', CHR ''0'', hex_digit (n div 16), hex_digit (n mod 16)]
     else [c])"

definition json_string :: "string \<Rightarrow> string" where
  "json_string s = [CHR 34] @ concat (map json_char s) @ [CHR 34]"

fun json_items :: "string list \<Rightarrow> string" where
  "json_items [] = []"
| "json_items [s] = json_string s"
| "json_items (s # t # ts) = json_string s @ [CHR '',''] @ json_items (t # ts)"

definition json_array :: "string list \<Rightarrow> string" where
  "json_array ss = [CHR ''[''] @ json_items ss @ [CHR '']'']"

text \<open>Reading one character back shows that no two texts of this kind are confused.\<close>

definition hex_value :: "char \<Rightarrow> nat" where
  "hex_value c = (if (of_char c :: nat) < 58 then of_char c - 48 else of_char c - 87)"

fun json_read_char :: "string \<Rightarrow> nat \<times> string" where
  "json_read_char [] = (0, [])"
| "json_read_char (c # cs) = (if c \<noteq> CHR 92 then (of_char c, cs) else
     case cs of
       [] \<Rightarrow> (0, [])
     | x # r \<Rightarrow>
        if x = CHR ''u'' then (hex_value (r ! 2) * 16 + hex_value (r ! 3), drop 4 r)
        else if x = CHR ''b'' then (8, r) else if x = CHR ''t'' then (9, r)
        else if x = CHR ''n'' then (10, r) else if x = CHR ''f'' then (12, r)
        else if x = CHR ''r'' then (13, r) else (of_char x, r))"

lemma hex_value_digit: "n < 16 \<Longrightarrow> hex_value (hex_digit n) = n"
proof -
  have "\<forall>n<16. hex_value (hex_digit n) = n"
    by (simp add: eval_nat_numeral All_less_Suc hex_value_def hex_digit_def)
  thus "n < 16 \<Longrightarrow> hex_value (hex_digit n) = n" by blast
qed

lemma json_read_plain: "c \<noteq> CHR 92 \<Longrightarrow> json_read_char (c # r) = (of_char c, r)"
  by simp

lemma json_read_control:
  "n < 32 \<Longrightarrow> json_read_char ([CHR 92, CHR ''u'', CHR ''0'', CHR ''0'', hex_digit (n div 16), hex_digit (n mod 16)] @ r)
    = (n, r)"
  by (simp add: hex_value_digit numeral_2_eq_2 numeral_3_eq_3)

lemma json_read_char: "json_read_char (json_char c @ r) = (of_char c, r)"
proof (cases "(of_char c :: nat) < 32")
  case True
  thus ?thesis
    using json_read_control[of "of_char c" r] unfolding json_char_def Let_def
    by (simp del: json_read_char.simps add: json_read_char.simps(2)[of "CHR 92"])
next
  case False
  have "c = CHR 92 \<Longrightarrow> (of_char c :: nat) = 92" by simp
  with False have "(of_char c :: nat) \<noteq> 92 \<Longrightarrow> json_read_char (c # r) = (of_char c, r)"
    by (intro json_read_plain) auto
  with False show ?thesis
    unfolding json_char_def Let_def
    by (simp del: json_read_char.simps add: json_read_char.simps(2)[of "CHR 92"])
qed

lemma json_char_prefix:
  assumes "json_char c @ r = json_char d @ s"
  shows "c = d \<and> r = s"
proof -
  have "(of_char c :: nat, r) = (of_char d, s)"
    unfolding json_read_char[symmetric] assms ..
  thus ?thesis by simp
qed

lemma json_char_head: "json_char c @ r \<noteq> CHR 34 # r'"
proof
  assume "json_char c @ r = CHR 34 # r'"
  moreover have "\<exists>x xs. json_char c = x # xs \<and> x \<noteq> CHR 34"
    by (auto simp: json_char_def Let_def)
  ultimately show False by auto
qed

lemma json_chars_inj:
  "concat (map json_char s) @ CHR 34 # r = concat (map json_char t) @ CHR 34 # r' \<Longrightarrow> s = t \<and> r = r'"
proof (induction s arbitrary: t)
  case Nil
  thus ?case
    by (cases t) (use json_char_head in \<open>auto dest: sym\<close>)
next
  case (Cons c s)
  show ?case
  proof (cases t)
    case Nil
    with Cons.prems show ?thesis
      using json_char_head[of c] by auto
  next
    case (Cons d t')
    with Cons.prems have "json_char c @ (concat (map json_char s) @ CHR 34 # r)
      = json_char d @ (concat (map json_char t') @ CHR 34 # r')" by simp
    from json_char_prefix[OF this] Cons.IH[of t'] Cons show ?thesis by simp
  qed
qed

lemma json_string_prefix: "json_string s @ r = json_string t @ r' \<Longrightarrow> s = t \<and> r = r'"
  using json_chars_inj[of s r t r'] by (simp add: json_string_def)

lemma json_items_inj:
  "json_items ss @ CHR '']'' # r = json_items ts @ CHR '']'' # r' \<Longrightarrow> ss = ts"
proof (induction ss arbitrary: ts rule: json_items.induct)
  case 1
  thus ?case by (cases ts rule: json_items.cases) (auto simp: json_string_def)
next
  case (2 s)
  thus ?case
    by (cases ts rule: json_items.cases) (auto simp: json_string_def dest: json_chars_inj)
next
  case (3 s t us)
  thus ?case
    by (cases ts rule: json_items.cases) (auto dest!: json_string_prefix, auto simp: json_string_def)
qed

lemma json_array_inj: "json_array ss = json_array ts \<Longrightarrow> ss = ts"
  using json_items_inj[of ss "[]" ts "[]"] by (simp add: json_array_def)

lemma json_array_eq [simp]: "json_array ss = json_array ts \<longleftrightarrow> ss = ts"
  using json_array_inj by blast

subsection \<open>Decimal text\<close>

definition digit_char :: "nat \<Rightarrow> char" where
  "digit_char n = char_of (48 + n)"

definition digit_value :: "char \<Rightarrow> nat" where
  "digit_value c = of_char c - 48"

definition is_digit :: "char \<Rightarrow> bool" where
  "is_digit c \<longleftrightarrow> 48 \<le> (of_char c :: nat) \<and> (of_char c :: nat) \<le> 57"

fun dec_nat :: "nat \<Rightarrow> string" where
  "dec_nat n = (if n < 10 then [digit_char n] else dec_nat (n div 10) @ [digit_char (n mod 10)])"

declare dec_nat.simps [simp del]

definition dec_int :: "int \<Rightarrow> string" where
  "dec_int i = (if i < 0 then CHR ''-'' # dec_nat (nat (- i)) else dec_nat (nat i))"

definition dec_value :: "string \<Rightarrow> nat" where
  "dec_value s = foldl (\<lambda>acc c. acc * 10 + digit_value c) 0 s"

text \<open>The pattern \<^verbatim>\<open>/^(0|[1-9][0-9]*)$/\<close> of a canonical decimal.\<close>

fun canonical_decimal :: "string \<Rightarrow> bool" where
  "canonical_decimal [] = False"
| "canonical_decimal (c # cs) =
     (if c = CHR ''0'' then cs = [] else is_digit c \<and> (\<forall>d \<in> set cs. is_digit d))"

lemma of_char_digit: "n < 10 \<Longrightarrow> (of_char (digit_char n) :: nat) = 48 + n"
  by (simp add: digit_char_def)

lemma digit_value_char [simp]: "n < 10 \<Longrightarrow> digit_value (digit_char n) = n"
  by (simp add: digit_value_def of_char_digit)

lemma is_digit_char [simp]: "n < 10 \<Longrightarrow> is_digit (digit_char n)"
  by (simp add: is_digit_def of_char_digit)

lemma digit_char_value [simp]: "is_digit c \<Longrightarrow> digit_char (digit_value c) = c"
  by (simp add: is_digit_def digit_char_def digit_value_def)

lemma digit_value_less: "is_digit c \<Longrightarrow> digit_value c < 10"
  unfolding is_digit_def digit_value_def by linarith

lemma digit_char_zero: "n < 10 \<Longrightarrow> digit_char n = CHR ''0'' \<longleftrightarrow> n = 0"
proof
  assume "n < 10" "digit_char n = CHR ''0''"
  from of_char_digit[OF this(1)] this(2) show "n = 0" by simp
next
  have "digit_char 0 = CHR ''0''" by code_simp
  thus "n = 0 \<Longrightarrow> digit_char n = CHR ''0''" by simp
qed

lemma dec_value_snoc: "dec_value (s @ [c]) = dec_value s * 10 + digit_value c"
  by (simp add: dec_value_def)

lemma dec_value_nat [simp]: "dec_value (dec_nat n) = n"
proof (induction n rule: dec_nat.induct)
  case (1 n)
  show ?case
  proof (cases "n < 10")
    case True
    thus ?thesis by (subst dec_nat.simps) (simp add: dec_value_def)
  next
    case False
    with 1 show ?thesis by (subst dec_nat.simps) (simp add: dec_value_snoc)
  qed
qed

lemma dec_nat_digits: "\<forall>c \<in> set (dec_nat n). is_digit c"
proof (induction n rule: dec_nat.induct)
  case (1 n)
  thus ?case by (subst dec_nat.simps) (auto split: if_splits)
qed

lemma dec_nat_nonempty [simp]: "dec_nat n \<noteq> []"
  by (subst dec_nat.simps) auto

lemma dec_nat_hd: "hd (dec_nat n) = CHR ''0'' \<longleftrightarrow> n = 0"
proof (induction n rule: dec_nat.induct)
  case (1 n)
  show ?case
  proof (cases "n < 10")
    case True
    thus ?thesis by (subst dec_nat.simps) (simp add: digit_char_zero)
  next
    case False
    with 1 show ?thesis by (subst dec_nat.simps) simp
  qed
qed

lemma canonical_dec_nat [simp]: "canonical_decimal (dec_nat n)"
proof (cases "dec_nat n")
  case (Cons c cs)
  show ?thesis
  proof (cases "c = CHR ''0''")
    case True
    hence "n = 0" using dec_nat_hd[of n] Cons by simp
    hence "dec_nat n = [digit_char 0]" by (simp add: dec_nat.simps)
    thus ?thesis using Cons True by simp
  next
    case False
    thus ?thesis using Cons dec_nat_digits[of n] by simp
  qed
qed simp

subsection \<open>Values of JavaScript\<close>

text \<open>A number is NaN, an infinity or a rational (every finite double is one).  Arithmetic
  on finite values is exact; where a source rounds, the model takes the rounding as a
  parameter.\<close>

datatype js_number = NaN | PosInf | NegInf | Fin rat

datatype js_value =
    JUndefined
  | JNull
  | JBool bool
  | JNum js_number
  | JStr string
  | JArr "js_value list"
  | JObj "(string \<times> js_value) list"

fun is_finite :: "js_number \<Rightarrow> bool" where
  "is_finite (Fin _) = True"
| "is_finite _ = False"

fun num_less :: "js_number \<Rightarrow> js_number \<Rightarrow> bool" where
  "num_less NaN _ = False"
| "num_less _ NaN = False"
| "num_less (Fin a) (Fin b) = (a < b)"
| "num_less NegInf y = (y \<noteq> NegInf)"
| "num_less PosInf _ = False"
| "num_less (Fin _) PosInf = True"
| "num_less (Fin _) NegInf = False"

fun safe_integer :: "js_number \<Rightarrow> int option" where
  "safe_integer (Fin q) = (if of_int \<lfloor>q\<rfloor> = q \<and> is_safe_integer \<lfloor>q\<rfloor> then Some \<lfloor>q\<rfloor> else None)"
| "safe_integer _ = None"

fun own_property :: "js_value \<Rightarrow> string \<Rightarrow> js_value" where
  "own_property (JObj o') k = (case map_of o' k of None \<Rightarrow> JUndefined | Some v \<Rightarrow> v)"
| "own_property _ k = JUndefined"

subsection \<open>Strings\<close>

text \<open>\<^verbatim>\<open>s.split(c)\<close> for a one-character separator, and \<^verbatim>\<open>parts.join(c)\<close>.\<close>

fun split_on :: "char \<Rightarrow> string \<Rightarrow> string list" where
  "split_on c [] = [[]]"
| "split_on c (x # xs) = (if x = c then [] # split_on c xs
     else case split_on c xs of [] \<Rightarrow> [[x]] | p # ps \<Rightarrow> (x # p) # ps)"

fun join_with :: "string \<Rightarrow> string list \<Rightarrow> string" where
  "join_with g [] = []"
| "join_with g [s] = s"
| "join_with g (s # t # ts) = s @ g @ join_with g (t # ts)"

lemma split_on_nonempty [simp]: "split_on c s \<noteq> []"
  by (induction s) (auto split: list.splits)

lemma join_split [simp]: "join_with [c] (split_on c s) = s"
proof (induction s)
  case (Cons x xs)
  obtain p ps where ps: "split_on c xs = p # ps" by (cases "split_on c xs") auto
  with Cons show ?case by (cases ps) auto
qed simp

text \<open>\<^verbatim>\<open>xs.slice(0, e)\<close> for an integer end, counted from the back when negative.\<close>

definition js_slice0 :: "int \<Rightarrow> 'a list \<Rightarrow> 'a list" where
  "js_slice0 e xs = (if e < 0 then take (length xs - nat (- e)) xs else take (nat e) xs)"

subsection \<open>BigInt of a value\<close>

definition is_space :: "char \<Rightarrow> bool" where
  "is_space c \<longleftrightarrow> (of_char c :: nat) \<in> {9, 10, 11, 12, 13, 32, 160}"

definition js_trim :: "string \<Rightarrow> string" where
  "js_trim s = rev (dropWhile is_space (rev (dropWhile is_space s)))"

text \<open>Digits of a number in base 2, 8, 10 or 16; \<^verbatim>\<open>None\<close> for another character.\<close>

definition base_digit :: "nat \<Rightarrow> char \<Rightarrow> nat option" where
  "base_digit b c = (let n = of_char c :: nat;
     d = (if 48 \<le> n \<and> n \<le> 57 then n - 48 else if 97 \<le> n \<and> n \<le> 102 then n - 87
          else if 65 \<le> n \<and> n \<le> 70 then n - 55 else b) in
     if d < b then Some d else None)"

fun base_value :: "nat \<Rightarrow> string \<Rightarrow> nat \<Rightarrow> nat option" where
  "base_value b [] acc = Some acc"
| "base_value b (c # cs) acc = (case base_digit b c of None \<Rightarrow> None | Some d \<Rightarrow> base_value b cs (acc * b + d))"

definition digits_value :: "nat \<Rightarrow> string \<Rightarrow> nat option" where
  "digits_value b s = (if s = [] then None else base_value b s 0)"

definition bigint_of_string :: "string \<Rightarrow> int option" where
  "bigint_of_string s = (let t = js_trim s in
     if t = [] then Some 0
     else if take 2 t \<in> {''0x'', ''0X''} then map_option int (digits_value 16 (drop 2 t))
     else if take 2 t \<in> {''0o'', ''0O''} then map_option int (digits_value 8 (drop 2 t))
     else if take 2 t \<in> {''0b'', ''0B''} then map_option int (digits_value 2 (drop 2 t))
     else if hd t = CHR ''-'' then map_option (\<lambda>n. - int n) (digits_value 10 (tl t))
     else if hd t = CHR ''+'' then map_option int (digits_value 10 (tl t))
     else map_option int (digits_value 10 t))"

fun js_bigint :: "js_value \<Rightarrow> int option" where
  "js_bigint (JStr s) = bigint_of_string s"
| "js_bigint (JNum (Fin q)) = (if of_int \<lfloor>q\<rfloor> = q then Some \<lfloor>q\<rfloor> else None)"
| "js_bigint (JBool b) = Some (if b then 1 else 0)"
| "js_bigint _ = None"

lemma base_digit_digit: "is_digit c \<Longrightarrow> base_digit 10 c = Some (digit_value c)"
  using digit_value_less[of c] by (auto simp: base_digit_def is_digit_def digit_value_def Let_def)

lemma base_value_digits:
  "\<forall>c \<in> set s. is_digit c \<Longrightarrow> base_value 10 s acc = Some (foldl (\<lambda>acc c. acc * 10 + digit_value c) acc s)"
  by (induction s arbitrary: acc) (simp_all add: base_digit_digit)

lemma digits_value_dec: "\<forall>c \<in> set s. is_digit c \<Longrightarrow> s \<noteq> [] \<Longrightarrow> digits_value 10 s = Some (dec_value s)"
  by (simp add: digits_value_def base_value_digits dec_value_def)

lemma digit_not_space: "is_digit c \<Longrightarrow> \<not> is_space c"
  by (auto simp: is_digit_def is_space_def)

lemma js_trim_id: "s \<noteq> [] \<Longrightarrow> \<not> is_space (hd s) \<Longrightarrow> \<not> is_space (last s) \<Longrightarrow> js_trim s = s"
proof -
  assume s: "s \<noteq> []" "\<not> is_space (hd s)" "\<not> is_space (last s)"
  have id: "dropWhile is_space t = t" if "t \<noteq> []" "\<not> is_space (hd t)" for t
    using that by (cases t) auto
  have "dropWhile is_space (rev s) = rev s" using s by (intro id) (simp_all add: hd_rev)
  thus "js_trim s = s" using id[of s] s by (simp add: js_trim_def)
qed

lemma bigint_of_digits:
  assumes "\<forall>c \<in> set s. is_digit c" "s \<noteq> []"
  shows "bigint_of_string s = Some (int (dec_value s))"
    and "bigint_of_string (CHR ''-'' # s) = Some (- int (dec_value s))"
proof -
  have nd: "\<not> is_digit CHR ''x''" "\<not> is_digit CHR ''X''" "\<not> is_digit CHR ''o''" "\<not> is_digit CHR ''O''"
    "\<not> is_digit CHR ''b''" "\<not> is_digit CHR ''B''" "\<not> is_digit CHR ''-''" "\<not> is_digit CHR ''+''"
    by (simp_all add: is_digit_def)
  have sp: "\<not> is_space CHR ''-''" by (simp add: is_space_def)
  have last: "\<not> is_space (last s)" and hd: "\<not> is_space (hd s)"
    using assms digit_not_space by simp_all
  have t: "js_trim s = s" "js_trim (CHR ''-'' # s) = CHR ''-'' # s"
    using assms(2) last hd sp by (simp_all add: js_trim_id)
  obtain c cs where s: "s = c # cs" using assms(2) by (cases s) auto
  have "take 2 s \<noteq> [a, b]" if "\<not> is_digit b" for a b
    using assms(1) s that by (cases cs) auto
  moreover have "hd s \<noteq> CHR ''-''" "hd s \<noteq> CHR ''+''" using assms s nd by auto
  ultimately show "bigint_of_string s = Some (int (dec_value s))"
    using nd assms t by (simp add: bigint_of_string_def digits_value_dec)
  show "bigint_of_string (CHR ''-'' # s) = Some (- int (dec_value s))"
    using assms s t(2) by (simp add: bigint_of_string_def digits_value_dec)
qed

lemma bigint_dec_int [simp]: "bigint_of_string (dec_int i) = Some i"
  by (simp add: dec_int_def bigint_of_digits dec_nat_digits)

end
