(* ===== verification/Admission_Interface.thy ===== *)
theory Admission_Interface
  imports Faucet_Prelude
begin

text \<open>
  What the limit modules rely on when they ask the session manager for the earlier
  usage of a subject (\<^verbatim>\<open>SessionManager.getPriorAdmissionUsage\<close>): every holder of a
  subject has a ticket, tickets of one subject are unique, and the list of prior
  sessions of a holder contains every other holder with a lower ticket, and those with
  a higher one exactly when they are past their start.  From these laws alone, a check
  \<^verbatim>\<open>prior < limit\<close> never admits more than \<^verbatim>\<open>limit\<close> holders.
\<close>

locale admission_queue =
  fixes inv :: "'st \<Rightarrow> bool"
    and ticket :: "'st \<Rightarrow> 'sid \<Rightarrow> 'k \<Rightarrow> nat option"
    and waiting :: "'st \<Rightarrow> 'sid \<Rightarrow> bool"
    and prior :: "'st \<Rightarrow> 'sid \<Rightarrow> 'k \<Rightarrow> 'sid list option"
  assumes ticket_unique: "inv s \<Longrightarrow> ticket s a k = Some n \<Longrightarrow> ticket s b k = Some n \<Longrightarrow> a = b"
    and holders_finite: "inv s \<Longrightarrow> finite {a. ticket s a k \<noteq> None}"
    and prior_defined: "inv s \<Longrightarrow> ticket s a k = Some n \<Longrightarrow> prior s a k \<noteq> None"
    and prior_distinct: "inv s \<Longrightarrow> prior s a k = Some ps \<Longrightarrow> distinct ps"
    and prior_members: "inv s \<Longrightarrow> prior s a k = Some ps \<Longrightarrow> ticket s a k = Some n \<Longrightarrow>
      b \<in> set ps \<longleftrightarrow> b \<noteq> a \<and> (\<exists>m. ticket s b k = Some m \<and> (waiting s b \<longrightarrow> m < n))"
begin

definition seniors :: "'st \<Rightarrow> 'k \<Rightarrow> 'sid \<Rightarrow> 'sid set" where
  "seniors s k a = {b. \<exists>m n. ticket s b k = Some m \<and> ticket s a k = Some n \<and> m < n}"

lemma seniors_finite: "inv s \<Longrightarrow> finite (seniors s k a)"
  by (rule finite_subset[OF _ holders_finite[of s k]]) (auto simp: seniors_def)

lemma seniors_are_prior:
  assumes "inv s" "prior s a k = Some ps" "ticket s a k = Some n"
  shows "seniors s k a \<subseteq> set ps"
  using prior_members[OF assms] ticket_unique[OF assms(1)] assms(3)
  unfolding seniors_def by fastforce

lemma seniors_count:
  assumes "inv s" "prior s a k = Some ps" "ticket s a k = Some n"
  shows "card (seniors s k a) \<le> length ps"
  using card_mono[OF _ seniors_are_prior[OF assms]] card_length[of ps] by fastforce

lemma one_of_two_sees_the_other:
  assumes "inv s" "prior s a k = Some ps" "prior s b k = Some qs"
    and "ticket s a k = Some m" "ticket s b k = Some n" "a \<noteq> b"
  shows "a \<in> set qs \<or> b \<in> set ps"
proof -
  have "m \<noteq> n" using ticket_unique[OF assms(1)] assms(4-6) by blast
  thus ?thesis
    using prior_members[OF assms(1,2,4), of b] prior_members[OF assms(1,3,5), of a] assms(4-6)
    by (cases "m < n") simp_all
qed

lemma two_starting_are_ordered:
  assumes "inv s" "prior s a k = Some ps" "prior s b k = Some qs"
    and t: "ticket s a k = Some m" "ticket s b k = Some n" and "a \<noteq> b" "waiting s a" "waiting s b"
  shows "a \<in> set qs \<longleftrightarrow> b \<notin> set ps"
proof -
  have "a \<in> set qs \<longleftrightarrow> m < n"
    unfolding prior_members[OF assms(1,3) t(2)] using assms(6-8) t by simp
  moreover have "b \<in> set ps \<longleftrightarrow> n < m"
    unfolding prior_members[OF assms(1,2) t(1)] using assms(6-8) t by simp
  moreover have "m \<noteq> n" using ticket_unique[OF assms(1)] t assms(6) by blast
  ultimately show ?thesis by auto
qed

text \<open>Counting: holders that each have fewer than \<^verbatim>\<open>limit\<close> seniors are at most \<^verbatim>\<open>limit\<close>.\<close>

lemma holders_with_few_seniors:
  assumes inv: "inv s" and A: "\<And>a. a \<in> A \<Longrightarrow> ticket s a k \<noteq> None \<and> card (seniors s k a) < limit"
  shows "card A \<le> limit"
proof (cases "A = {}")
  case False
  let ?t = "\<lambda>a. the (ticket s a k)"
  have finA: "finite A" using finite_subset[OF _ holders_finite[OF inv, of k]] A by blast
  have inj: "inj_on ?t A"
  proof (rule inj_onI)
    fix a b assume "a \<in> A" "b \<in> A" "?t a = ?t b"
    then obtain n where "ticket s a k = Some n" "ticket s b k = Some n" using A by fastforce
    thus "a = b" by (rule ticket_unique[OF inv])
  qed
  let ?T = "Max (?t ` A)"
  have "?T \<in> ?t ` A" using finA False by (intro Max_in) auto
  then obtain a where a: "a \<in> A" "?T = ?t a" by auto
  have "A - {a} \<subseteq> seniors s k a"
  proof
    fix b assume b: "b \<in> A - {a}"
    hence "?t b \<le> ?t a" using finA a by (metis DiffD1 Max_ge finite_imageI image_eqI)
    moreover have "?t b \<noteq> ?t a" using b a inj by (auto simp: inj_on_def)
    ultimately show "b \<in> seniors s k a"
      using A[of b] A[of a] b a unfolding seniors_def by auto
  qed
  hence "card (A - {a}) \<le> card (seniors s k a)" by (intro card_mono seniors_finite inv)
  thus ?thesis using A[of a] a finA by auto
qed simp

end

end
