(* ===== verification/Admission_Ledger.thy ===== *)
theory Admission_Ledger
  imports Admission_Interface
begin

text \<open>
  \<^verbatim>\<open>src/src/session/AdmissionLedger.ts\<close>: the in-process ledger of admission
  reservations.  A session is bound to subjects (its IP, its target address, an
  authenticated principal, a module's scope); every binding has an order of its own,
  and a session that is checked counts the sessions bound to the same subject that
  are past their start or whose binding is older.  The ledger keeps the bindings
  twice, per session (\<^verbatim>\<open>reservations\<close>) and per subject (\<^verbatim>\<open>subjectIndex\<close>); the
  invariant says that both views agree.
\<close>

subsection \<open>State\<close>

datatype admission_phase = Starting | Running | Committing

datatype admission_subject =
    Ip string
  | Address string
  | Principal string string
  | Scope string string

datatype ceiling_state = Provisional | Settled

record claim_ceiling =
  cc_state :: ceiling_state
  cc_amount :: int

record admission_binding =
  ab_subject :: admission_subject
  ab_order :: nat

record admission_reservation =
  ar_sessionId :: string
  ar_startTime :: int
  ar_phase :: admission_phase
  ar_claimCeiling :: claim_ceiling
  ar_bindings :: "(string, admission_binding) jsmap"

type_synonym subject_index = "(string, (string, nat) jsmap) jsmap"

record ledger =
  reservations :: "(string, admission_reservation) jsmap"
  subjectIndex :: subject_index
  nextBindingOrder :: nat

definition empty_ledger :: ledger where
  "empty_ledger = \<lparr>reservations = [], subjectIndex = [], nextBindingOrder = 0\<rparr>"

datatype ledger_error =
    ReservationExists string
  | MissingReservation string
  | SubjectNotBound
  | ProvisionalAmount
  | UndefinedReservation

record usage_options =
  uo_minStartTime :: "int option"
  uo_excludeSessionIds :: "string list option"

definition no_options :: usage_options where
  "no_options = \<lparr>uo_minStartTime = None, uo_excludeSessionIds = None\<rparr>"

record admission_usage =
  au_count :: nat
  au_amount :: int
  au_sessionIds :: "string list"
  au_amountsBySessionId :: "(string, int) jsmap"
  au_provisionalIds :: "string list"

record admission_totals =
  at_count :: nat
  at_amount :: int
  at_hasProvisional :: bool

record subject_move =
  sm_sessionId :: string
  sm_oldSubject :: admission_subject
  sm_newSubject :: admission_subject
  sm_newSubjectWasBound :: bool

subsection \<open>Helpers\<close>

definition normalizeAmount :: "int \<Rightarrow> int" where
  "normalizeAmount amount = (if amount < 0 then 0 else amount)"

fun getSubjectKey :: "admission_subject \<Rightarrow> string" where
  "getSubjectKey (Ip v) = json_array [''ip'', v]"
| "getSubjectKey (Address v) = json_array [''address'', v]"
| "getSubjectKey (Principal n v) = json_array [''principal'', n, v]"
| "getSubjectKey (Scope n v) = json_array [''scope'', n, v]"

definition requireReservation :: "string \<Rightarrow> ledger \<Rightarrow> ledger_error + admission_reservation" where
  "requireReservation sid L = (case js_get (reservations L) sid of
      None \<Rightarrow> Inl (MissingReservation sid) | Some r \<Rightarrow> Inr r)"

definition put_reservation :: "string \<Rightarrow> admission_reservation \<Rightarrow> ledger \<Rightarrow> ledger" where
  "put_reservation sid r L = L\<lparr>reservations := js_set sid r (reservations L)\<rparr>"

text \<open>\<^verbatim>\<open>indexedSessions.set\<close> in \<^verbatim>\<open>bind\<close>, and \<^verbatim>\<open>removeIndexedSession\<close>.\<close>

definition addIndexedSession :: "string \<Rightarrow> string \<Rightarrow> nat \<Rightarrow> subject_index \<Rightarrow> subject_index" where
  "addIndexedSession key sid order idx =
     js_set key (js_set sid order (case js_get idx key of None \<Rightarrow> [] | Some m \<Rightarrow> m)) idx"

definition removeIndexedSession :: "string \<Rightarrow> string \<Rightarrow> subject_index \<Rightarrow> subject_index" where
  "removeIndexedSession key sid idx = (case js_get idx key of
      None \<Rightarrow> idx
    | Some m \<Rightarrow> (let m' = js_delete sid m in if m' = [] then js_delete key idx else js_set key m' idx))"

subsection \<open>Operations\<close>

definition bind_subject :: "string \<Rightarrow> admission_subject \<Rightarrow> ledger \<Rightarrow> ledger" where
  "bind_subject sid s L = (case js_get (reservations L) sid of
      None \<Rightarrow> L
    | Some r \<Rightarrow>
       (let key = getSubjectKey s in
        if js_has (ar_bindings r) key then L
        else let order = Suc (nextBindingOrder L) in
          \<lparr>reservations = js_set sid (r\<lparr>ar_bindings :=
               js_set key \<lparr>ab_subject = s, ab_order = order\<rparr> (ar_bindings r)\<rparr>) (reservations L),
           subjectIndex = addIndexedSession key sid order (subjectIndex L),
           nextBindingOrder = order\<rparr>))"

definition bind :: "string \<Rightarrow> admission_subject list \<Rightarrow> ledger \<Rightarrow> ledger_error + ledger" where
  "bind sid ss L = try_bind (requireReservation sid L) (\<lambda>_. Inr (fold (bind_subject sid) ss L))"

definition begin_reservation ::
  "string \<Rightarrow> int \<Rightarrow> int \<Rightarrow> admission_subject list \<Rightarrow> bool \<Rightarrow> ledger \<Rightarrow> ledger_error + ledger" where
  "begin_reservation sid startTime claimCeiling ss claimCeilingSettled L =
     (if js_has (reservations L) sid then Inl (ReservationExists sid)
      else bind sid ss (put_reservation sid
        \<lparr>ar_sessionId = sid, ar_startTime = startTime, ar_phase = Starting,
         ar_claimCeiling = \<lparr>cc_state = (if claimCeilingSettled then Settled else Provisional),
                            cc_amount = normalizeAmount claimCeiling\<rparr>,
         ar_bindings = []\<rparr> L))"

text \<open>The inner loop of \<^verbatim>\<open>getPriorUsage\<close> over the sessions indexed under one subject,
  and the outer loop over the subjects.\<close>

fun match_indexed ::
  "ledger \<Rightarrow> usage_options \<Rightarrow> string \<Rightarrow> nat \<Rightarrow> (string \<times> nat) list \<Rightarrow> string list \<Rightarrow> string list" where
  "match_indexed L opts sid ownOrder [] matched = matched"
| "match_indexed L opts sid ownOrder ((other, otherOrder) # rest) matched =
     match_indexed L opts sid ownOrder rest
      (if other = sid \<or> other \<in> set matched then matched
       else if (case uo_excludeSessionIds opts of None \<Rightarrow> False | Some ex \<Rightarrow> other \<in> set ex) then matched
       else case js_get (reservations L) other of
           None \<Rightarrow> matched
         | Some r \<Rightarrow>
            if (case uo_minStartTime opts of None \<Rightarrow> False | Some t \<Rightarrow> ar_startTime r < t) then matched
            else if ar_phase r = Starting \<and> otherOrder \<ge> ownOrder then matched
            else js_add other matched)"

fun match_subjects ::
  "ledger \<Rightarrow> usage_options \<Rightarrow> string \<Rightarrow> admission_reservation \<Rightarrow> admission_subject list \<Rightarrow> string list
    \<Rightarrow> ledger_error + string list" where
  "match_subjects L opts sid own [] matched = Inr matched"
| "match_subjects L opts sid own (s # ss) matched =
     (let key = getSubjectKey s in
      case js_get (ar_bindings own) key of
        None \<Rightarrow> Inl SubjectNotBound
      | Some b \<Rightarrow> match_subjects L opts sid own ss
          (case js_get (subjectIndex L) key of
             None \<Rightarrow> matched
           | Some indexed \<Rightarrow> match_indexed L opts sid (ab_order b) indexed matched))"

text \<open>The second loop, over the matched sessions.  Reading a field of a missing
  reservation would throw; \<^verbatim>\<open>UndefinedReservation\<close> is that exception.\<close>

fun collect_usage :: "ledger \<Rightarrow> string list \<Rightarrow> admission_usage \<Rightarrow> ledger_error + admission_usage" where
  "collect_usage L [] u = Inr u"
| "collect_usage L (m # ms) u = (case js_get (reservations L) m of
      None \<Rightarrow> Inl UndefinedReservation
    | Some r \<Rightarrow> (let c = ar_claimCeiling r in collect_usage L ms
        (u\<lparr>au_amount := au_amount u + cc_amount c,
           au_amountsBySessionId := js_set m (cc_amount c) (au_amountsBySessionId u),
           au_provisionalIds := (if cc_state c = Provisional then js_add m (au_provisionalIds u)
                                 else au_provisionalIds u)\<rparr>)))"

definition getPriorUsage ::
  "string \<Rightarrow> admission_subject list \<Rightarrow> usage_options \<Rightarrow> ledger \<Rightarrow> ledger_error + admission_usage" where
  "getPriorUsage sid ss opts L =
     try_bind (requireReservation sid L) (\<lambda>own.
     try_bind (match_subjects L opts sid own ss []) (\<lambda>matched.
       collect_usage L matched
         \<lparr>au_count = length matched, au_amount = 0, au_sessionIds = matched,
          au_amountsBySessionId = [], au_provisionalIds = []\<rparr>))"

definition markRunning :: "string \<Rightarrow> ledger \<Rightarrow> ledger_error + ledger" where
  "markRunning sid L = try_bind (requireReservation sid L) (\<lambda>r.
     if cc_state (ar_claimCeiling r) \<noteq> Settled then Inl ProvisionalAmount
     else Inr (put_reservation sid (r\<lparr>ar_phase := Running\<rparr>) L))"

definition markCommitting :: "string \<Rightarrow> ledger \<Rightarrow> ledger_error + ledger" where
  "markCommitting sid L = try_bind (requireReservation sid L) (\<lambda>r.
     Inr (put_reservation sid (r\<lparr>ar_phase := Committing\<rparr>) L))"

definition setClaimCeiling :: "string \<Rightarrow> int \<Rightarrow> ledger \<Rightarrow> ledger_error + ledger" where
  "setClaimCeiling sid amount L = try_bind (requireReservation sid L) (\<lambda>r.
     Inr (put_reservation sid
       (r\<lparr>ar_claimCeiling := \<lparr>cc_state = Settled, cc_amount = normalizeAmount amount\<rparr>\<rparr>) L))"

definition reserveClaimCeiling :: "string \<Rightarrow> int \<Rightarrow> ledger \<Rightarrow> ledger_error + ledger" where
  "reserveClaimCeiling sid amount L = try_bind (requireReservation sid L) (\<lambda>r.
     let a = normalizeAmount amount in
     if a > cc_amount (ar_claimCeiling r)
     then Inr (put_reservation sid (r\<lparr>ar_claimCeiling := (ar_claimCeiling r)\<lparr>cc_amount := a\<rparr>\<rparr>) L)
     else Inr L)"

definition removeBinding :: "string \<Rightarrow> admission_subject \<Rightarrow> ledger \<Rightarrow> ledger" where
  "removeBinding sid s L = (case js_get (reservations L) sid of
      None \<Rightarrow> L
    | Some r \<Rightarrow> (let key = getSubjectKey s in
        if js_has (ar_bindings r) key
        then L\<lparr>reservations := js_set sid (r\<lparr>ar_bindings := js_delete key (ar_bindings r)\<rparr>) (reservations L),
               subjectIndex := removeIndexedSession key sid (subjectIndex L)\<rparr>
        else L))"

definition prepareMove ::
  "string \<Rightarrow> admission_subject \<Rightarrow> admission_subject \<Rightarrow> ledger \<Rightarrow> ledger_error + (subject_move \<times> ledger)" where
  "prepareMove sid old new L = try_bind (requireReservation sid L) (\<lambda>r.
     let wasBound = js_has (ar_bindings r) (getSubjectKey new) in
     try_bind (bind sid [new] L) (\<lambda>L'.
       Inr (\<lparr>sm_sessionId = sid, sm_oldSubject = old, sm_newSubject = new,
             sm_newSubjectWasBound = wasBound\<rparr>, L')))"

definition commitMove :: "subject_move \<Rightarrow> ledger \<Rightarrow> ledger" where
  "commitMove mv L =
     (if getSubjectKey (sm_oldSubject mv) \<noteq> getSubjectKey (sm_newSubject mv)
      then removeBinding (sm_sessionId mv) (sm_oldSubject mv) L else L)"

definition abortMove :: "subject_move \<Rightarrow> ledger \<Rightarrow> ledger" where
  "abortMove mv L =
     (if \<not> sm_newSubjectWasBound mv then removeBinding (sm_sessionId mv) (sm_newSubject mv) L else L)"

definition release :: "string \<Rightarrow> ledger \<Rightarrow> ledger" where
  "release sid L = (case js_get (reservations L) sid of
      None \<Rightarrow> L
    | Some r \<Rightarrow>
       L\<lparr>subjectIndex := fold (\<lambda>(k, b). removeIndexedSession (getSubjectKey (ab_subject b)) sid)
            (ar_bindings r) (subjectIndex L),
         reservations := js_delete sid (reservations L)\<rparr>)"

text \<open>\<^verbatim>\<open>excludeCommittedUsage\<close>: the part of a usage that the database does not count yet.\<close>

definition exclude_step ::
  "admission_usage \<Rightarrow> string list \<Rightarrow> string \<times> int \<Rightarrow> admission_totals \<Rightarrow> admission_totals" where
  "exclude_step usage committed e t =
     (if fst e \<in> set committed then t
      else \<lparr>at_count = at_count t + 1, at_amount = at_amount t + snd e,
            at_hasProvisional = (if fst e \<in> set (au_provisionalIds usage) then True else at_hasProvisional t)\<rparr>)"

definition excludeCommittedUsage :: "admission_usage \<Rightarrow> string list \<Rightarrow> admission_totals" where
  "excludeCommittedUsage usage committed =
     fold (exclude_step usage committed) (au_amountsBySessionId usage)
       \<lparr>at_count = 0, at_amount = 0, at_hasProvisional = False\<rparr>"

subsection \<open>The two views of the bindings\<close>

definition idx_get :: "subject_index \<Rightarrow> string \<Rightarrow> string \<Rightarrow> nat option" where
  "idx_get idx key sid = (case js_get idx key of None \<Rightarrow> None | Some m \<Rightarrow> js_get m sid)"

definition idx_ok :: "subject_index \<Rightarrow> bool" where
  "idx_ok idx \<longleftrightarrow> js_map_ok idx \<and> (\<forall>k m. js_get idx k = Some m \<longrightarrow> m \<noteq> [] \<and> js_map_ok m)"

definition bound_order :: "ledger \<Rightarrow> string \<Rightarrow> string \<Rightarrow> nat option" where
  "bound_order L sid key = (case js_get (reservations L) sid of
      None \<Rightarrow> None | Some r \<Rightarrow> map_option ab_order (js_get (ar_bindings r) key))"

definition reservation_ok :: "string \<Rightarrow> admission_reservation \<Rightarrow> bool" where
  "reservation_ok sid r \<longleftrightarrow> ar_sessionId r = sid \<and> js_map_ok (ar_bindings r) \<and>
     0 \<le> cc_amount (ar_claimCeiling r) \<and>
     (\<forall>k b. js_get (ar_bindings r) k = Some b \<longrightarrow> k = getSubjectKey (ab_subject b))"

definition ledger_inv :: "ledger \<Rightarrow> bool" where
  "ledger_inv L \<longleftrightarrow>
     js_map_ok (reservations L) \<and> (\<forall>sid r. js_get (reservations L) sid = Some r \<longrightarrow> reservation_ok sid r) \<and>
     idx_ok (subjectIndex L) \<and>
     (\<forall>key sid. idx_get (subjectIndex L) key sid = bound_order L sid key) \<and>
     (\<forall>sid key n. bound_order L sid key = Some n \<longrightarrow> 0 < n \<and> n \<le> nextBindingOrder L) \<and>
     (\<forall>sid key sid' key' n. bound_order L sid key = Some n \<longrightarrow> bound_order L sid' key' = Some n
        \<longrightarrow> sid = sid' \<and> key = key')"

lemma getSubjectKey_inj: "getSubjectKey s = getSubjectKey t \<longleftrightarrow> s = t"
  by (cases s; cases t) simp_all

lemma idx_okD: "idx_ok idx \<Longrightarrow> js_get idx k = Some m \<Longrightarrow> m \<noteq> [] \<and> js_map_ok m"
  unfolding idx_ok_def by auto

lemma idx_ok_inner: "js_get idx k = Some m \<Longrightarrow> idx_ok idx \<Longrightarrow> js_map_ok m"
  by (simp add: idx_okD)

lemma idx_ok_nonempty: "js_get idx k = Some [] \<Longrightarrow> idx_ok idx \<Longrightarrow> False"
  using idx_okD by blast

lemma idx_okI:
  "js_map_ok idx \<Longrightarrow> (\<And>k m. js_get idx k = Some m \<Longrightarrow> m \<noteq> [] \<and> js_map_ok m) \<Longrightarrow> idx_ok idx"
  unfolding idx_ok_def by auto

lemma idx_ok_keys: "idx_ok idx \<Longrightarrow> js_map_ok idx"
  by (simp add: idx_ok_def)

lemma idx_get_add: "idx_get (addIndexedSession key sid n idx) k s =
    (if k = key \<and> s = sid then Some n else idx_get idx k s)"
  by (auto simp: addIndexedSession_def idx_get_def split: option.splits)

lemma idx_ok_add: "idx_ok idx \<Longrightarrow> idx_ok (addIndexedSession key sid n idx)"
  unfolding addIndexedSession_def
  by (rule idx_okI) (auto dest: idx_okD simp: idx_ok_keys split: option.splits if_splits)

lemma idx_get_remove: "idx_get (removeIndexedSession key sid idx) k s =
    (if k = key \<and> s = sid then None else idx_get idx k s)"
proof (cases "js_get idx key")
  case None
  thus ?thesis by (auto simp: removeIndexedSession_def idx_get_def)
next
  case (Some m)
  thus ?thesis
    by (auto simp: removeIndexedSession_def idx_get_def Let_def js_delete_empty_iff split: option.splits)
qed

lemma idx_ok_remove:
  assumes "idx_ok idx" shows "idx_ok (removeIndexedSession key sid idx)"
proof -
  have ne: "m \<noteq> []" and ok: "js_map_ok m" if "js_get idx k = Some m" for k m
    using that assms idx_okD by blast+
  show ?thesis
    unfolding removeIndexedSession_def Let_def
    by (cases "js_get idx key")
      (use assms in \<open>auto simp: idx_ok_keys ok intro!: idx_okI dest: ne split: if_splits\<close>)
qed

subsection \<open>The invariant is kept\<close>

lemma ledger_invD [inv_dest]:
  assumes "ledger_inv L"
  shows "js_map_ok (reservations L)"
    and "js_get (reservations L) sid = Some r \<Longrightarrow> reservation_ok sid r"
    and "idx_ok (subjectIndex L)"
    and "idx_get (subjectIndex L) key sid = bound_order L sid key"
    and "bound_order L sid key = Some n \<Longrightarrow> 0 < n \<and> n \<le> nextBindingOrder L"
    and "bound_order L sid key = Some n \<Longrightarrow> bound_order L sid' key' = Some n \<Longrightarrow> sid = sid' \<and> key = key'"
  using assms unfolding ledger_inv_def by blast+

lemma ledger_inv_empty: "ledger_inv empty_ledger"
  by (simp add: ledger_inv_def empty_ledger_def idx_ok_def idx_get_def bound_order_def)

lemma bound_order_bind_subject:
  "bound_order (bind_subject sid s L) sid' key =
    (if sid' = sid \<and> key = getSubjectKey s \<and> js_has (reservations L) sid \<and> bound_order L sid key = None
     then Some (Suc (nextBindingOrder L)) else bound_order L sid' key)"
  by (auto simp: bind_subject_def bound_order_def Let_def split: option.splits)

lemma reservation_ok_set_binding:
  "reservation_ok sid r \<Longrightarrow> reservation_ok sid (r\<lparr>ar_bindings :=
     js_set (getSubjectKey s) \<lparr>ab_subject = s, ab_order = n\<rparr> (ar_bindings r)\<rparr>)"
  unfolding reservation_ok_def
  by (auto split: if_splits)

lemma reservation_ok_delete_binding:
  "reservation_ok sid r \<Longrightarrow> reservation_ok sid (r\<lparr>ar_bindings := js_delete key (ar_bindings r)\<rparr>)"
  unfolding reservation_ok_def
  by (auto split: if_splits)

lemma ledger_inv_bind_subject [inv_intro]:
  assumes inv: "ledger_inv L" shows "ledger_inv (bind_subject sid s L)"
proof (cases "js_get (reservations L) sid")
  case None
  with inv show ?thesis by (simp add: bind_subject_def)
next
  case (Some r)
  show ?thesis
  proof (cases "js_get (ar_bindings r) (getSubjectKey s)")
    case None
    let ?L = "bind_subject sid s L"
    note L = Some None bind_subject_def Let_def
    have fresh: "bound_order L sid' key' \<noteq> Some (Suc (nextBindingOrder L))" for sid' key'
      using ledger_invD(5)[OF inv, of sid' key'] by fastforce
    have "js_map_ok (reservations ?L)" "nextBindingOrder ?L = Suc (nextBindingOrder L)"
      "subjectIndex ?L = addIndexedSession (getSubjectKey s) sid (Suc (nextBindingOrder L)) (subjectIndex L)"
      using ledger_invD(1)[OF inv] by (simp_all add: L)
    moreover have "reservation_ok sid' r'" if "js_get (reservations ?L) sid' = Some r'" for sid' r'
      using that ledger_invD(2)[OF inv] reservation_ok_set_binding[OF ledger_invD(2)[OF inv Some]]
      by (auto simp: L split: if_splits)
    moreover have "bound_order L sid (getSubjectKey s) = None" using Some None by (simp add: bound_order_def)
    ultimately show ?thesis
      unfolding ledger_inv_def bound_order_bind_subject
      using inv Some fresh ledger_invD(3-6)[OF inv]
      by (auto simp: idx_ok_add idx_get_add less_Suc_eq_le le_Suc_eq)
  next
    case (Some b)
    with inv \<open>js_get (reservations L) sid = Some r\<close> show ?thesis by (simp add: bind_subject_def Let_def)
  qed
qed

lemma put_reservation_simps [simp]:
  "js_get (reservations (put_reservation sid r L)) sid' =
     (if sid' = sid then Some r else js_get (reservations L) sid')"
  "subjectIndex (put_reservation sid r L) = subjectIndex L"
  "nextBindingOrder (put_reservation sid r L) = nextBindingOrder L"
  by (simp_all add: put_reservation_def)

lemma bound_order_put:
  "bound_order (put_reservation sid r L) sid' key =
     (if sid' = sid then map_option ab_order (js_get (ar_bindings r) key) else bound_order L sid' key)"
  by (simp add: bound_order_def)

text \<open>Replacing a reservation by one with the same bindings.\<close>

lemma ledger_inv_put:
  assumes inv: "ledger_inv L" and r: "js_get (reservations L) sid = Some r"
    and r': "reservation_ok sid r'" "ar_bindings r' = ar_bindings r"
  shows "ledger_inv (put_reservation sid r' L)"
proof -
  have b: "bound_order (put_reservation sid r' L) = bound_order L"
    using r r' by (auto simp: bound_order_put fun_eq_iff bound_order_def)
  have "js_map_ok (reservations (put_reservation sid r' L))"
    using ledger_invD(1)[OF inv] by (simp add: put_reservation_def)
  thus ?thesis
    unfolding ledger_inv_def b using inv r' unfolding ledger_inv_def by auto
qed

lemma ledger_inv_new:
  assumes inv: "ledger_inv L" and "js_get (reservations L) sid = None"
    and "reservation_ok sid r" "ar_bindings r = []"
  shows "ledger_inv (put_reservation sid r L)"
proof -
  have b: "bound_order (put_reservation sid r L) = bound_order L"
    using assms by (auto simp: bound_order_put fun_eq_iff bound_order_def)
  have "js_map_ok (reservations (put_reservation sid r L))"
    using ledger_invD(1)[OF inv] by (simp add: put_reservation_def)
  thus ?thesis
    unfolding ledger_inv_def b using assms unfolding ledger_inv_def by auto
qed

lemma ledger_inv_bind_subjects [inv_intro]: "ledger_inv L \<Longrightarrow> ledger_inv (fold (bind_subject sid) ss L)"
  by (induction ss arbitrary: L) (auto intro: ledger_inv_bind_subject)

lemma requireReservation_Inr: "requireReservation sid L = Inr r \<longleftrightarrow> js_get (reservations L) sid = Some r"
  by (auto simp: requireReservation_def split: option.splits)

lemma normalizeAmount_nonneg [simp]: "0 \<le> normalizeAmount a"
  by (simp add: normalizeAmount_def)

lemma ledger_inv_bind [inv_intro]: "ledger_inv L \<Longrightarrow> bind sid ss L = Inr L' \<Longrightarrow> ledger_inv L'"
  by (auto simp: bind_def try_bind_Inr_iff intro: ledger_inv_bind_subjects)

lemma ledger_inv_begin [inv_intro]:
  assumes inv: "ledger_inv L" and "begin_reservation sid t c ss b L = Inr L'"
  shows "ledger_inv L'"
proof -
  let ?r = "\<lparr>ar_sessionId = sid, ar_startTime = t, ar_phase = Starting,
    ar_claimCeiling = \<lparr>cc_state = (if b then Settled else Provisional), cc_amount = normalizeAmount c\<rparr>,
    ar_bindings = []\<rparr>"
  from assms have "js_get (reservations L) sid = None" "bind sid ss (put_reservation sid ?r L) = Inr L'"
    by (auto simp: begin_reservation_def split: if_splits)
  moreover have "reservation_ok sid ?r" by (simp add: reservation_ok_def)
  ultimately show ?thesis using ledger_inv_bind ledger_inv_new[OF inv, of sid ?r] by auto
qed

lemma reservation_ok_updates:
  "reservation_ok sid r \<Longrightarrow> reservation_ok sid (r\<lparr>ar_phase := p\<rparr>)"
  "reservation_ok sid r \<Longrightarrow> 0 \<le> cc_amount c \<Longrightarrow> reservation_ok sid (r\<lparr>ar_claimCeiling := c\<rparr>)"
  by (simp_all add: reservation_ok_def)

lemma ledger_inv_update:
  assumes "ledger_inv L" "js_get (reservations L) sid = Some r"
  shows "ledger_inv (put_reservation sid (r\<lparr>ar_phase := p\<rparr>) L)"
    and "0 \<le> cc_amount c \<Longrightarrow> ledger_inv (put_reservation sid (r\<lparr>ar_claimCeiling := c\<rparr>) L)"
  using assms by (auto intro!: ledger_inv_put reservation_ok_updates dest: ledger_invD(2))

lemma ledger_inv_phases [inv_intro]:
  assumes "ledger_inv L"
  shows "markRunning sid L = Inr L' \<Longrightarrow> ledger_inv L'"
    and "markCommitting sid L = Inr L' \<Longrightarrow> ledger_inv L'"
    and "setClaimCeiling sid a L = Inr L' \<Longrightarrow> ledger_inv L'"
    and "reserveClaimCeiling sid a L = Inr L' \<Longrightarrow> ledger_inv L'"
  unfolding markRunning_def markCommitting_def setClaimCeiling_def reserveClaimCeiling_def
    try_bind_Inr_iff requireReservation_Inr Let_def
  using assms by (auto split: if_splits intro: ledger_inv_update)

text \<open>Removing one binding, and all of them.\<close>

lemma bound_order_removeBinding:
  "bound_order (removeBinding sid s L) sid' key =
     (if sid' = sid \<and> key = getSubjectKey s then None else bound_order L sid' key)"
  by (auto simp: removeBinding_def bound_order_def Let_def split: option.splits)

lemma ledger_inv_removeBinding [inv_intro]:
  assumes inv: "ledger_inv L" shows "ledger_inv (removeBinding sid s L)"
proof (cases "\<exists>r b. js_get (reservations L) sid = Some r \<and> js_get (ar_bindings r) (getSubjectKey s) = Some b")
  case False
  hence "removeBinding sid s L = L" by (auto simp: removeBinding_def Let_def split: option.splits)
  with inv show ?thesis by simp
next
  case True
  then obtain r b where rb: "js_get (reservations L) sid = Some r" "js_get (ar_bindings r) (getSubjectKey s) = Some b"
    by auto
  let ?L = "removeBinding sid s L"
  note L = rb removeBinding_def Let_def
  have "js_map_ok (reservations ?L)" "nextBindingOrder ?L = nextBindingOrder L"
    "subjectIndex ?L = removeIndexedSession (getSubjectKey s) sid (subjectIndex L)"
    using ledger_invD(1)[OF inv] by (simp_all add: L)
  moreover have "reservation_ok sid' r'" if "js_get (reservations ?L) sid' = Some r'" for sid' r'
    using that ledger_invD(2)[OF inv] reservation_ok_delete_binding[OF ledger_invD(2)[OF inv rb(1)]]
    by (auto simp: L split: if_splits)
  ultimately show ?thesis
    unfolding ledger_inv_def bound_order_removeBinding
    using ledger_invD(3-6)[OF inv] by (auto simp: idx_ok_remove idx_get_remove split: if_splits)
qed

lemma fold_removeIndexed:
  "idx_ok idx \<Longrightarrow> idx_ok (fold (\<lambda>(k, b). removeIndexedSession (getSubjectKey (ab_subject b)) sid) bs idx)"
  "idx_get (fold (\<lambda>(k, b). removeIndexedSession (getSubjectKey (ab_subject b)) sid) bs idx) key sid' =
     (if sid' = sid \<and> key \<in> (\<lambda>(k, b). getSubjectKey (ab_subject b)) ` set bs then None else idx_get idx key sid')"
  by (induction bs arbitrary: idx) (auto simp: idx_ok_remove idx_get_remove)

lemma bound_order_release:
  "bound_order (release sid L) sid' key = (if sid' = sid then None else bound_order L sid' key)"
  by (auto simp: release_def bound_order_def split: option.splits)

lemma release_simps:
  "js_get (reservations (release sid L)) sid' = (if sid' = sid then None else js_get (reservations L) sid')"
  "nextBindingOrder (release sid L) = nextBindingOrder L"
  by (auto simp: release_def split: option.splits)

lemma ledger_inv_release [inv_intro]:
  assumes inv: "ledger_inv L" shows "ledger_inv (release sid L)"
proof (cases "js_get (reservations L) sid")
  case None
  with inv show ?thesis by (simp add: release_def)
next
  case (Some r)
  have keys: "key \<in> (\<lambda>(k, b). getSubjectKey (ab_subject b)) ` set (ar_bindings r)"
    if "bound_order L sid key = Some n" for key n
    using that Some ledger_invD(2)[OF inv Some]
    by (force simp: bound_order_def reservation_ok_def dest: map_of_SomeD)
  have "idx_get (subjectIndex (release sid L)) key sid' = bound_order (release sid L) sid' key" for key sid'
    using keys[of key] ledger_invD(4)[OF inv, of key sid']
    unfolding bound_order_release by (cases "bound_order L sid key") (auto simp: release_def Some fold_removeIndexed)
  moreover have "idx_ok (subjectIndex (release sid L))" "js_map_ok (reservations (release sid L))"
    using ledger_invD(1,3)[OF inv] Some by (simp_all add: release_def fold_removeIndexed)
  ultimately show ?thesis
    unfolding ledger_inv_def release_simps bound_order_release
    using inv unfolding ledger_inv_def by (auto split: if_splits)
qed

lemma ledger_inv_moves [inv_intro]:
  "ledger_inv L \<Longrightarrow> prepareMove sid old new L = Inr (mv, L') \<Longrightarrow> ledger_inv L'"
  "ledger_inv L \<Longrightarrow> ledger_inv (commitMove mv L)"
  "ledger_inv L \<Longrightarrow> ledger_inv (abortMove mv L)"
  by (auto simp: prepareMove_def commitMove_def abortMove_def try_bind_Inr_iff Let_def
      intro: ledger_inv_bind ledger_inv_removeBinding)

subsection \<open>What a check counts\<close>

text \<open>The condition under which \<^verbatim>\<open>getPriorUsage\<close> counts a session for one subject key.\<close>

definition passes_options :: "usage_options \<Rightarrow> string \<Rightarrow> admission_reservation \<Rightarrow> bool" where
  "passes_options opts other r \<longleftrightarrow>
     \<not> (case uo_excludeSessionIds opts of None \<Rightarrow> False | Some ex \<Rightarrow> other \<in> set ex) \<and>
     \<not> (case uo_minStartTime opts of None \<Rightarrow> False | Some t \<Rightarrow> ar_startTime r < t)"

definition counts_for :: "ledger \<Rightarrow> usage_options \<Rightarrow> string \<Rightarrow> nat \<Rightarrow> string \<Rightarrow> nat \<Rightarrow> bool" where
  "counts_for L opts sid own other m \<longleftrightarrow> other \<noteq> sid \<and>
     (\<exists>r. js_get (reservations L) other = Some r \<and> passes_options opts other r \<and>
          (ar_phase r = Starting \<longrightarrow> m < own))"

lemma match_indexed_set:
  "set (match_indexed L opts sid own xs matched) =
     set matched \<union> {other. \<exists>m. (other, m) \<in> set xs \<and> counts_for L opts sid own other m}"
proof (induction L opts sid own xs matched rule: match_indexed.induct)
  case (2 L opts sid own other m rest matched)
  let ?matched' = "if other = sid \<or> other \<in> set matched then matched
       else if (case uo_excludeSessionIds opts of None \<Rightarrow> False | Some ex \<Rightarrow> other \<in> set ex) then matched
       else case js_get (reservations L) other of
           None \<Rightarrow> matched
         | Some r \<Rightarrow>
            if (case uo_minStartTime opts of None \<Rightarrow> False | Some t \<Rightarrow> ar_startTime r < t) then matched
            else if ar_phase r = Starting \<and> m \<ge> own then matched
            else js_add other matched"
  have "set ?matched' = set matched \<union> (if counts_for L opts sid own other m then {other} else {})"
    by (auto simp: counts_for_def passes_options_def not_le split: option.splits)
  with "2.IH" show ?case by (auto split: if_splits)
qed simp

lemma match_indexed_distinct:
  "distinct matched \<Longrightarrow> distinct (match_indexed L opts sid own xs matched)"
  by (induction L opts sid own xs matched rule: match_indexed.induct) (auto split: option.splits)

lemma match_subjects_ok:
  assumes "match_subjects L opts sid r ss matched = Inr ms"
  shows "(distinct matched \<longrightarrow> distinct ms) \<and>
    (\<forall>s \<in> set ss. js_has (ar_bindings r) (getSubjectKey s)) \<and>
    set ms = set matched \<union> {other. \<exists>s \<in> set ss. \<exists>b idx m.
       js_get (ar_bindings r) (getSubjectKey s) = Some b \<and>
       js_get (subjectIndex L) (getSubjectKey s) = Some idx \<and>
       (other, m) \<in> set idx \<and> counts_for L opts sid (ab_order b) other m}"
  using assms
proof (induction ss arbitrary: matched)
  case (Cons s ss)
  then obtain b where b: "js_get (ar_bindings r) (getSubjectKey s) = Some b"
    by (auto simp: Let_def split: option.splits)
  show ?case
  proof (cases "js_get (subjectIndex L) (getSubjectKey s)")
    case None
    with Cons.prems b have "match_subjects L opts sid r ss matched = Inr ms" by (simp add: Let_def)
    from Cons.IH[OF this] b None show ?thesis by auto
  next
    case (Some idx)
    with Cons.prems b
    have "match_subjects L opts sid r ss (match_indexed L opts sid (ab_order b) idx matched) = Inr ms"
      by (simp add: Let_def)
    from Cons.IH[OF this] b Some show ?thesis
      using match_indexed_distinct[of matched L opts sid "ab_order b" idx]
      by (auto simp: match_indexed_set)
  qed
qed simp

lemma match_subjects_total:
  assumes "\<forall>s \<in> set ss. js_has (ar_bindings r) (getSubjectKey s)"
  shows "\<exists>ms. match_subjects L opts sid r ss matched = Inr ms"
  using assms by (induction ss arbitrary: matched) (auto simp: Let_def)

definition ceiling_of :: "ledger \<Rightarrow> string \<Rightarrow> int" where
  "ceiling_of L sid = (case js_get (reservations L) sid of None \<Rightarrow> 0 | Some r \<Rightarrow> cc_amount (ar_claimCeiling r))"

definition is_provisional :: "ledger \<Rightarrow> string \<Rightarrow> bool" where
  "is_provisional L sid = (case js_get (reservations L) sid of None \<Rightarrow> False
     | Some r \<Rightarrow> cc_state (ar_claimCeiling r) = Provisional)"

lemma collect_usage_ok:
  assumes "\<forall>m \<in> set ms. js_has (reservations L) m"
  shows "\<exists>u'. collect_usage L ms u = Inr u' \<and> au_count u' = au_count u \<and> au_sessionIds u' = au_sessionIds u \<and>
     au_amount u' = au_amount u + sum_list (map (ceiling_of L) ms) \<and>
     (\<forall>x. js_get (au_amountsBySessionId u') x =
        (if x \<in> set ms then Some (ceiling_of L x) else js_get (au_amountsBySessionId u) x)) \<and>
     set (au_provisionalIds u') = set (au_provisionalIds u) \<union> {x \<in> set ms. is_provisional L x} \<and>
     (js_map_ok (au_amountsBySessionId u) \<longrightarrow> js_map_ok (au_amountsBySessionId u'))"
  using assms
proof (induction ms arbitrary: u)
  case (Cons m ms)
  then obtain r where r: "js_get (reservations L) m = Some r" by auto
  let ?c = "ar_claimCeiling r"
  let ?u = "u\<lparr>au_amount := au_amount u + cc_amount ?c,
           au_amountsBySessionId := js_set m (cc_amount ?c) (au_amountsBySessionId u),
           au_provisionalIds := (if cc_state ?c = Provisional then js_add m (au_provisionalIds u)
                                 else au_provisionalIds u)\<rparr>"
  have "ceiling_of L m = cc_amount ?c" "is_provisional L m \<longleftrightarrow> cc_state ?c = Provisional"
    using r by (auto simp: ceiling_of_def is_provisional_def)
  with Cons.IH[of ?u] Cons.prems r show ?case by (auto simp: Let_def)
qed simp

lemma bound_order_binding:
  "js_get (reservations L) sid = Some r \<Longrightarrow>
   bound_order L sid key = map_option ab_order (js_get (ar_bindings r) key)"
  by (simp add: bound_order_def)

lemma indexed_entry:
  assumes "ledger_inv L" "js_get (subjectIndex L) key = Some idx"
  shows "(other, m) \<in> set idx \<longleftrightarrow> bound_order L other key = Some m"
proof -
  have "js_map_ok idx" using idx_ok_inner[OF assms(2)] ledger_invD(3)[OF assms(1)] by blast
  hence "(other, m) \<in> set idx \<longleftrightarrow> js_get idx other = Some m" by (rule js_get_in_set)
  also have "\<dots> \<longleftrightarrow> idx_get (subjectIndex L) key other = Some m" by (simp add: idx_get_def assms(2))
  finally show ?thesis by (simp add: ledger_invD(4)[OF assms(1)])
qed

lemma indexed_present:
  assumes "ledger_inv L" "bound_order L other key = Some m"
  shows "\<exists>idx. js_get (subjectIndex L) key = Some idx"
  using ledger_invD(4)[OF assms(1), of key other] assms(2)
  by (auto simp: idx_get_def split: option.splits)

lemma getPriorUsage_members:
  assumes inv: "ledger_inv L" and u: "getPriorUsage sid ss opts L = Inr u"
  shows "distinct (au_sessionIds u)"
    and "au_count u = length (au_sessionIds u)"
    and "set (au_sessionIds u) = {other. \<exists>s \<in> set ss. \<exists>own m.
           bound_order L sid (getSubjectKey s) = Some own \<and>
           bound_order L other (getSubjectKey s) = Some m \<and> counts_for L opts sid own other m}"
    and "au_amount u = (\<Sum>x \<leftarrow> au_sessionIds u. ceiling_of L x)"
    and "js_get (au_amountsBySessionId u) x =
           (if x \<in> set (au_sessionIds u) then Some (ceiling_of L x) else None)"
    and "set (au_provisionalIds u) = {x \<in> set (au_sessionIds u). is_provisional L x}"
    and "\<forall>s \<in> set ss. bound_order L sid (getSubjectKey s) \<noteq> None"
    and "js_map_ok (au_amountsBySessionId u)"
proof -
  from u obtain r ms where r: "js_get (reservations L) sid = Some r"
    and ms: "match_subjects L opts sid r ss [] = Inr ms"
    and c: "collect_usage L ms \<lparr>au_count = length ms, au_amount = 0, au_sessionIds = ms,
          au_amountsBySessionId = [], au_provisionalIds = []\<rparr> = Inr u"
    by (auto simp: getPriorUsage_def try_bind_Inr_iff requireReservation_Inr)
  note M = match_subjects_ok[OF ms, simplified]
  have set_ms: "set ms = {other. \<exists>s \<in> set ss. \<exists>own m.
           bound_order L sid (getSubjectKey s) = Some own \<and>
           bound_order L other (getSubjectKey s) = Some m \<and> counts_for L opts sid own other m}"
    (is "_ = ?S")
  proof (intro equalityI subsetI)
    fix x assume "x \<in> set ms"
    then obtain s b idx m where "s \<in> set ss" "js_get (ar_bindings r) (getSubjectKey s) = Some b"
      "js_get (subjectIndex L) (getSubjectKey s) = Some idx" "(x, m) \<in> set idx"
      "counts_for L opts sid (ab_order b) x m"
      using M by auto
    thus "x \<in> ?S" using indexed_entry[OF inv] bound_order_binding[OF r] by auto
  next
    fix x assume "x \<in> ?S"
    then obtain s own m where x: "s \<in> set ss" "bound_order L sid (getSubjectKey s) = Some own"
      "bound_order L x (getSubjectKey s) = Some m" "counts_for L opts sid own x m" by auto
    from x(2) obtain b where b: "js_get (ar_bindings r) (getSubjectKey s) = Some b" "ab_order b = own"
      using bound_order_binding[OF r] by auto
    obtain idx where idx: "js_get (subjectIndex L) (getSubjectKey s) = Some idx"
      using indexed_present[OF inv x(3)] by auto
    have "(x, m) \<in> set idx" using indexed_entry[OF inv idx] x(3) by simp
    with x b idx M show "x \<in> set ms" by blast
  qed
  have "\<forall>m \<in> set ms. js_has (reservations L) m" unfolding set_ms by (auto simp: counts_for_def)
  note C = collect_usage_ok[OF this, of "\<lparr>au_count = length ms, au_amount = 0, au_sessionIds = ms,
          au_amountsBySessionId = [], au_provisionalIds = []\<rparr>", unfolded c, simplified]
  from M C show "distinct (au_sessionIds u)" "au_count u = length (au_sessionIds u)"
    "au_amount u = (\<Sum>x \<leftarrow> au_sessionIds u. ceiling_of L x)"
    "js_get (au_amountsBySessionId u) x =
       (if x \<in> set (au_sessionIds u) then Some (ceiling_of L x) else None)"
    "set (au_provisionalIds u) = {x \<in> set (au_sessionIds u). is_provisional L x}"
    "js_map_ok (au_amountsBySessionId u)"
    by auto
  show "set (au_sessionIds u) = ?S" using C set_ms by auto
  show "\<forall>s \<in> set ss. bound_order L sid (getSubjectKey s) \<noteq> None"
    using M bound_order_binding[OF r] by auto
qed

lemma getPriorUsage_total:
  assumes inv: "ledger_inv L" and b: "\<forall>s \<in> set ss. bound_order L sid (getSubjectKey s) \<noteq> None"
    and r: "js_has (reservations L) sid"
  shows "\<exists>u. getPriorUsage sid ss opts L = Inr u"
proof -
  from r obtain r where r: "js_get (reservations L) sid = Some r" by auto
  with b have "\<forall>s \<in> set ss. js_has (ar_bindings r) (getSubjectKey s)"
    by (auto simp: bound_order_binding)
  then obtain ms where ms: "match_subjects L opts sid r ss [] = Inr ms" using match_subjects_total by blast
  have "\<forall>m \<in> set ms. js_has (reservations L) m"
    using match_subjects_ok[OF ms] by (auto simp: counts_for_def)
  from collect_usage_ok[OF this, of "\<lparr>au_count = length ms, au_amount = 0, au_sessionIds = ms,
          au_amountsBySessionId = [], au_provisionalIds = []\<rparr>"] r ms show ?thesis
    by (auto simp: getPriorUsage_def requireReservation_def)
qed

text \<open>The totals of \<^verbatim>\<open>excludeCommittedUsage\<close> over the entries it keeps.\<close>

lemma fold_exclude_step:
  "fold (exclude_step usage committed) es t =
     \<lparr>at_count = at_count t + length (filter (\<lambda>e. fst e \<notin> set committed) es),
      at_amount = at_amount t + (\<Sum>e \<leftarrow> filter (\<lambda>e. fst e \<notin> set committed) es. snd e),
      at_hasProvisional = (at_hasProvisional t \<or>
        (\<exists>e \<in> set es. fst e \<notin> set committed \<and> fst e \<in> set (au_provisionalIds usage)))\<rparr>"
  by (induction es arbitrary: t) (auto simp: exclude_step_def)

lemma sum_list_entries:
  assumes "js_map_ok es" "\<And>k v. (k, v) \<in> set es \<Longrightarrow> v = f k"
  shows "(\<Sum>e \<leftarrow> filter (\<lambda>e. P (fst e)) es. snd e) = (\<Sum>k \<in> {k \<in> fst ` set es. P k}. (f k :: int))"
    and "length (filter (\<lambda>e. P (fst e)) es) = card {k \<in> fst ` set es. P k}"
proof -
  have "(\<Sum>e \<leftarrow> filter (\<lambda>e. P (fst e)) es. snd e) = (\<Sum>k \<in> {k \<in> fst ` set es. P k}. f k)
    \<and> length (filter (\<lambda>e. P (fst e)) es) = card {k \<in> fst ` set es. P k}"
    using assms
  proof (induction es)
    case (Cons e es)
    have "finite {k \<in> fst ` set es. P k}" by simp
    moreover have "fst e \<notin> fst ` set es" using Cons.prems by simp
    moreover have "{k \<in> fst ` set (e # es). P k} =
        (if P (fst e) then insert (fst e) {k \<in> fst ` set es. P k} else {k \<in> fst ` set es. P k})" by auto
    moreover have "snd e = f (fst e)" using Cons.prems(2)[of "fst e" "snd e"] by simp
    ultimately show ?case using Cons by simp
  qed simp
  thus "(\<Sum>e \<leftarrow> filter (\<lambda>e. P (fst e)) es. snd e) = (\<Sum>k \<in> {k \<in> fst ` set es. P k}. f k)"
    and "length (filter (\<lambda>e. P (fst e)) es) = card {k \<in> fst ` set es. P k}" by auto
qed

lemma excludeCommittedUsage_totals:
  assumes inv: "ledger_inv L" and u: "getPriorUsage sid ss opts L = Inr u"
    and active_def: "active = set (au_sessionIds u) - set committed"
  shows "at_count (excludeCommittedUsage u committed) = card active"
    and "at_amount (excludeCommittedUsage u committed) = (\<Sum>x \<in> active. ceiling_of L x)"
    and "at_hasProvisional (excludeCommittedUsage u committed) \<longleftrightarrow> (\<exists>x \<in> active. is_provisional L x)"
proof -
  note M = getPriorUsage_members[OF inv u]
  let ?es = "au_amountsBySessionId u"
  have keys: "fst ` set ?es = set (au_sessionIds u)"
    using M(5) by (metis (mono_tags) map_of_eq_None_iff option.simps(3) subsetI subset_antisym)
  have vals: "v = ceiling_of L k" if "(k, v) \<in> set ?es" for k v
    using that M(5)[of k] js_get_in_set[OF M(8), of k v] by (auto split: if_splits)
  have act: "{k \<in> fst ` set ?es. k \<notin> set committed} = active" by (auto simp: keys active_def)
  note S = sum_list_entries[of ?es "ceiling_of L" "\<lambda>k. k \<notin> set committed", OF M(8) vals, unfolded act]
  show "at_count (excludeCommittedUsage u committed) = card active"
    "at_amount (excludeCommittedUsage u committed) = (\<Sum>x \<in> active. ceiling_of L x)"
    using S by (simp_all add: excludeCommittedUsage_def fold_exclude_step)
  have "(\<exists>e \<in> set ?es. fst e \<notin> set committed \<and> fst e \<in> set (au_provisionalIds u)) \<longleftrightarrow>
      (\<exists>x \<in> active. is_provisional L x)"
    (is "(\<exists>e \<in> set ?es. ?P (fst e)) \<longleftrightarrow> _")
  proof -
    have "(\<exists>e \<in> set ?es. ?P (fst e)) \<longleftrightarrow> (\<exists>x \<in> fst ` set ?es. ?P x)" by blast
    thus ?thesis unfolding keys active_def using M(6) by blast
  qed
  thus "at_hasProvisional (excludeCommittedUsage u committed) \<longleftrightarrow> (\<exists>x \<in> active. is_provisional L x)"
    by (simp add: excludeCommittedUsage_def fold_exclude_step)
qed

subsection \<open>The ledger provides the admission interface\<close>

definition ticket :: "ledger \<Rightarrow> string \<Rightarrow> admission_subject \<Rightarrow> nat option" where
  "ticket L sid s = bound_order L sid (getSubjectKey s)"

definition is_starting :: "ledger \<Rightarrow> string \<Rightarrow> bool" where
  "is_starting L sid = (case js_get (reservations L) sid of None \<Rightarrow> False | Some r \<Rightarrow> ar_phase r = Starting)"

definition prior_sessions :: "ledger \<Rightarrow> string \<Rightarrow> admission_subject \<Rightarrow> string list option" where
  "prior_sessions L sid s = (case getPriorUsage sid [s] no_options L of
      Inl _ \<Rightarrow> None | Inr u \<Rightarrow> Some (au_sessionIds u))"

lemma prior_sessions_Some:
  "prior_sessions L sid s = Some ps \<longleftrightarrow> (\<exists>u. getPriorUsage sid [s] no_options L = Inr u \<and> ps = au_sessionIds u)"
  by (auto simp: prior_sessions_def split: sum.splits)

lemma bound_has_reservation: "bound_order L sid key = Some n \<Longrightarrow> js_has (reservations L) sid"
  by (auto simp: bound_order_def split: option.splits)

lemma counts_for_no_options:
  "bound_order L other key = Some m \<Longrightarrow>
   counts_for L no_options sid own other m \<longleftrightarrow> other \<noteq> sid \<and> (is_starting L other \<longrightarrow> m < own)"
  by (auto simp: counts_for_def passes_options_def no_options_def is_starting_def
      dest!: bound_has_reservation)

interpretation aq: admission_queue ledger_inv ticket is_starting prior_sessions
proof unfold_locales
  fix L a b k n assume "ledger_inv L" "ticket L a k = Some n" "ticket L b k = Some n"
  thus "a = b" unfolding ticket_def using ledger_invD(6) by blast
next
  fix L k
  have "{a. ticket L a k \<noteq> None} \<subseteq> set (js_keys (reservations L))"
  proof
    fix a assume "a \<in> {a. ticket L a k \<noteq> None}"
    hence "js_has (reservations L) a" unfolding ticket_def using bound_has_reservation by auto
    thus "a \<in> set (js_keys (reservations L))" by (metis map_of_eq_None_iff set_map)
  qed
  thus "finite {a. ticket L a k \<noteq> None}" using finite_subset by blast
next
  fix L a k n assume "ledger_inv L" "ticket L a k = Some n"
  thus "prior_sessions L a k \<noteq> None"
    using getPriorUsage_total[of L "[k]" a no_options] bound_has_reservation
    by (auto simp: ticket_def prior_sessions_def)
next
  fix L a k ps assume "ledger_inv L" "prior_sessions L a k = Some ps"
  thus "distinct ps" using getPriorUsage_members(1) by (auto simp: prior_sessions_Some)
next
  fix L a k ps n b assume inv: "ledger_inv L" and p: "prior_sessions L a k = Some ps" and t: "ticket L a k = Some n"
  obtain u where u: "getPriorUsage a [k] no_options L = Inr u" "ps = au_sessionIds u"
    using p by (auto simp: prior_sessions_Some)
  show "b \<in> set ps \<longleftrightarrow> b \<noteq> a \<and> (\<exists>m. ticket L b k = Some m \<and> (is_starting L b \<longrightarrow> m < n))"
    using t unfolding u(2) getPriorUsage_members(3)[OF inv u(1)] ticket_def
    by (auto simp: counts_for_no_options)
qed

subsection \<open>Runs\<close>

datatype ledger_op =
    OpBegin string int int "admission_subject list" bool
  | OpBind string "admission_subject list"
  | OpMarkRunning string
  | OpMarkCommitting string
  | OpSetCeiling string int
  | OpReserveCeiling string int
  | OpPrepareMove string admission_subject admission_subject
  | OpCommitMove subject_move
  | OpAbortMove subject_move
  | OpRelease string

text \<open>A call that throws leaves the ledger as it was.\<close>

fun ledger_step :: "ledger_op \<Rightarrow> ledger \<Rightarrow> ledger" where
  "ledger_step (OpBegin sid t c ss settled) L = keep_on_error L (begin_reservation sid t c ss settled L)"
| "ledger_step (OpBind sid ss) L = keep_on_error L (bind sid ss L)"
| "ledger_step (OpMarkRunning sid) L = keep_on_error L (markRunning sid L)"
| "ledger_step (OpMarkCommitting sid) L = keep_on_error L (markCommitting sid L)"
| "ledger_step (OpSetCeiling sid a) L = keep_on_error L (setClaimCeiling sid a L)"
| "ledger_step (OpReserveCeiling sid a) L = keep_on_error L (reserveClaimCeiling sid a L)"
| "ledger_step (OpPrepareMove sid old new) L = (case prepareMove sid old new L of Inl _ \<Rightarrow> L | Inr (mv, L') \<Rightarrow> L')"
| "ledger_step (OpCommitMove mv) L = commitMove mv L"
| "ledger_step (OpAbortMove mv) L = abortMove mv L"
| "ledger_step (OpRelease sid) L = release sid L"

definition run_ledger :: "ledger_op list \<Rightarrow> ledger" where
  "run_ledger ops = fold ledger_step ops empty_ledger"

lemma keep_on_error_inv: "P s \<Longrightarrow> (\<And>s'. r = Inr s' \<Longrightarrow> P s') \<Longrightarrow> P (keep_on_error s r)"
  by (cases r) auto

lemma ledger_inv_step [inv_intro]:
  assumes inv: "ledger_inv L" shows "ledger_inv (ledger_step op L)"
proof -
  have k: "(\<And>L'. r = Inr L' \<Longrightarrow> ledger_inv L') \<Longrightarrow> ledger_inv (keep_on_error L r)" for r :: "ledger_error + ledger"
    using inv by (rule keep_on_error_inv)
  show ?thesis
  proof (cases op)
    case (OpPrepareMove sid old new)
    with inv ledger_inv_moves(1)[OF inv] show ?thesis by (auto split: sum.splits)
  qed (simp_all add: inv ledger_inv_moves(2,3) ledger_inv_release,
       (rule k, erule ledger_inv_begin[OF inv] ledger_inv_bind[OF inv] ledger_inv_phases[OF inv])+)
qed

lemma ledger_inv_steps: "ledger_inv L \<Longrightarrow> ledger_inv (fold ledger_step ops L)"
  by (induction ops arbitrary: L) (auto intro: ledger_inv_step)

lemma ledger_inv_run: "ledger_inv (run_ledger ops)"
  unfolding run_ledger_def by (intro ledger_inv_steps ledger_inv_empty)

subsection \<open>Moves\<close>

lemma remove_fresh_indexed:
  assumes "idx_ok idx" "idx_get idx key sid = None"
  shows "removeIndexedSession key sid (addIndexedSession key sid n idx) = idx"
proof (cases "js_get idx key")
  case None
  thus ?thesis by (simp add: removeIndexedSession_def addIndexedSession_def)
next
  case (Some m)
  with assms have "js_get m sid = None" "m \<noteq> []" using idx_okD by (auto simp: idx_get_def)
  with Some show ?thesis
    by (simp add: removeIndexedSession_def addIndexedSession_def Let_def js_set_same)
qed

lemma move_prepared:
  assumes "prepareMove sid old new L = Inr (mv, L')"
  shows "sm_sessionId mv = sid" "sm_oldSubject mv = old" "sm_newSubject mv = new"
    and "L' = bind_subject sid new L" "js_has (reservations L) sid"
    and "sm_newSubjectWasBound mv \<longleftrightarrow> bound_order L sid (getSubjectKey new) \<noteq> None"
  using assms by (auto simp: prepareMove_def try_bind_Inr_iff requireReservation_Inr Let_def bind_def bound_order_def)

lemma abort_restores:
  assumes inv: "ledger_inv L" and mv: "prepareMove sid old new L = Inr (mv, L')"
  shows "abortMove mv L' = L\<lparr>nextBindingOrder := nextBindingOrder L'\<rparr>"
proof -
  note M = move_prepared[OF mv]
  obtain r where r: "js_get (reservations L) sid = Some r" using M(5) by auto
  show ?thesis
  proof (cases "js_get (ar_bindings r) (getSubjectKey new)")
    case (Some b)
    with r M show ?thesis by (simp add: abortMove_def bound_order_def bind_subject_def Let_def)
  next
    case None
    hence "idx_get (subjectIndex L) (getSubjectKey new) sid = None"
      using r by (simp add: ledger_invD(4)[OF inv] bound_order_def)
    note R = remove_fresh_indexed[OF ledger_invD(3)[OF inv] this]
    from None r M show ?thesis
      by (simp add: abortMove_def bound_order_def bind_subject_def removeBinding_def Let_def R js_set_same)
  qed
qed

lemma commit_moves:
  assumes "prepareMove sid old new L = Inr (mv, L')"
  shows "bound_order (commitMove mv L') sid' key =
    (if sid' = sid \<and> key = getSubjectKey old \<and> old \<noteq> new then None
     else if sid' = sid \<and> key = getSubjectKey new \<and> bound_order L sid key = None then Some (Suc (nextBindingOrder L))
     else bound_order L sid' key)"
proof -
  note M = move_prepared[OF assms]
  show ?thesis
    using M(5) unfolding commitMove_def M(1-4) getSubjectKey_inj
    by (auto simp: bound_order_removeBinding bound_order_bind_subject getSubjectKey_inj)
qed

text \<open>Evaluating a run on concrete subjects: keys are compared as subjects.\<close>

lemmas ledger_eval =
  run_ledger_def empty_ledger_def begin_reservation_def bind_def requireReservation_def bind_subject_def
  put_reservation_def addIndexedSession_def removeIndexedSession_def markRunning_def normalizeAmount_def
  getPriorUsage_def getSubjectKey_inj Let_def no_options_def prepareMove_def js_add_def
declare getSubjectKey.simps [simp del]

subsection \<open>Properties\<close>

text \<open>C5. After any sequence of ledger operations, failing ones included, the ledger's
  two views of the bindings agree: a session is indexed under a subject with the order
  of its own binding exactly when its reservation has that binding, the index holds no
  empty entry, no map holds a key twice, every order was handed out once, and no claim
  ceiling is negative.\<close>

theorem ledger_views_agree: "ledger_inv (run_ledger ops)"
  by (rule ledger_inv_run)

text \<open>C6. What a limit check counts: on every reachable ledger, \<^verbatim>\<open>getPriorUsage\<close> lists, once
  each, exactly the other sessions that share a checked subject and pass the caller's
  filters, and that are past their start or bound to the subject earlier than the
  checked session; the count and the amount are those of this set, and a session is
  flagged provisional exactly when its claim ceiling is.\<close>

theorem prior_usage_exact:
  assumes "getPriorUsage sid ss opts (run_ledger ops) = Inr u"
  shows "distinct (au_sessionIds u)
    \<and> au_count u = card (set (au_sessionIds u))
    \<and> au_amount u = (\<Sum>x \<in> set (au_sessionIds u). ceiling_of (run_ledger ops) x)
    \<and> set (au_sessionIds u) = {other. \<exists>s \<in> set ss. \<exists>own m.
         bound_order (run_ledger ops) sid (getSubjectKey s) = Some own \<and>
         bound_order (run_ledger ops) other (getSubjectKey s) = Some m \<and>
         counts_for (run_ledger ops) opts sid own other m}
    \<and> set (au_provisionalIds u) = {x \<in> set (au_sessionIds u). is_provisional (run_ledger ops) x}"
proof (intro conjI)
  note U = getPriorUsage_members[OF ledger_inv_run assms]
  from U(1) show "distinct (au_sessionIds u)" .
  with U(2) show "au_count u = card (set (au_sessionIds u))" by (simp only: distinct_card)
  from U(1,4) show "au_amount u = (\<Sum>x \<in> set (au_sessionIds u). ceiling_of (run_ledger ops) x)"
    by (simp only: sum_list_distinct_conv_sum_set)
qed (fact getPriorUsage_members(3,6)[OF ledger_inv_run assms])+

theorem prior_usage_exact_witness:
  "\<exists>u. getPriorUsage ''b'' [Ip ''1''] no_options (run_ledger
      [OpBegin ''a'' 10 5 [Ip ''1''] True, OpMarkRunning ''a'', OpBegin ''b'' 11 7 [Ip ''1''] False,
       OpBegin ''c'' 11 7 [Ip ''1''] False]) = Inr u
    \<and> set (au_sessionIds u) = {''a''} \<and> au_count u = card (set (au_sessionIds u))"
proof -
  let ?ops = "[OpBegin ''a'' 10 5 [Ip ''1''] True, OpMarkRunning ''a'', OpBegin ''b'' 11 7 [Ip ''1''] False,
       OpBegin ''c'' 11 7 [Ip ''1''] False]"
  have u: "getPriorUsage ''b'' [Ip ''1''] no_options (run_ledger ?ops) = Inr
    \<lparr>au_count = 1, au_amount = 5, au_sessionIds = [''a''], au_amountsBySessionId = [(''a'', 5)],
     au_provisionalIds = []\<rparr>" (is "_ = Inr ?u") by (simp add: ledger_eval)
  have "au_count ?u = card (set (au_sessionIds ?u))" using prior_usage_exact[OF u] by (elim conjE)
  with u show ?thesis by (intro exI[of _ ?u]) simp
qed

text \<open>C7. An IP change that is refused leaves no trace: preparing a move and aborting it
  gives back the reservations and the index, list for list; only the order counter has
  advanced.  Committed, the session is bound to the new subject and no longer to
  the old one, and no other binding changes.\<close>

theorem move_aborts_or_commits:
  assumes "prepareMove sid old new (run_ledger ops) = Inr (mv, L')"
  shows "abortMove mv L' = (run_ledger ops)\<lparr>nextBindingOrder := nextBindingOrder L'\<rparr>
    \<and> bound_order (commitMove mv L') sid' key =
      (if sid' = sid \<and> key = getSubjectKey old \<and> old \<noteq> new then None
       else if sid' = sid \<and> key = getSubjectKey new \<and> bound_order (run_ledger ops) sid key = None
         then Some (Suc (nextBindingOrder (run_ledger ops)))
       else bound_order (run_ledger ops) sid' key)"
  using abort_restores[OF ledger_inv_run assms] commit_moves[OF assms] by blast

theorem move_aborts_or_commits_witness:
  "\<exists>mv L'. prepareMove ''a'' (Ip ''1'') (Ip ''2'') (run_ledger [OpBegin ''a'' 10 5 [Ip ''1''] True]) = Inr (mv, L')
    \<and> bound_order (commitMove mv L') ''a'' (getSubjectKey (Ip ''1'')) = None
    \<and> bound_order (commitMove mv L') ''a'' (getSubjectKey (Ip ''2'')) = Some 2"
proof -
  let ?ops = "[OpBegin ''a'' 10 5 [Ip ''1''] True]"
  let ?mv = "\<lparr>sm_sessionId = ''a'', sm_oldSubject = Ip ''1'', sm_newSubject = Ip ''2'', sm_newSubjectWasBound = False\<rparr>"
  have p: "prepareMove ''a'' (Ip ''1'') (Ip ''2'') (run_ledger ?ops)
      = Inr (?mv, bind_subject ''a'' (Ip ''2'') (run_ledger ?ops))" by (simp add: ledger_eval)
  have "bound_order (run_ledger ?ops) ''a'' (getSubjectKey (Ip ''2'')) = None"
    "nextBindingOrder (run_ledger ?ops) = 1" by (simp_all add: ledger_eval bound_order_def)
  thus ?thesis
    using p move_aborts_or_commits[OF p, of "''a''"] by (auto simp: getSubjectKey_inj)
qed

end
