(* ===== verification/Limit_Modules.thy ===== *)
theory Limit_Modules
  imports Admission_Ledger
begin

text \<open>
  The modules that decide whether a session may start and how its reward is scaled:
  \<^verbatim>\<open>concurrency-limit\<close>, \<^verbatim>\<open>recurring-limits\<close>, \<^verbatim>\<open>faucet-balance\<close> and \<^verbatim>\<open>whitelist\<close> under
  \<^verbatim>\<open>src/src/modules\<close>, and \<^verbatim>\<open>renderTimespan\<close> of \<^verbatim>\<open>utils/DateUtils.ts\<close> for their
  messages.  The limit checks read the admission ledger; the safety of the concurrency
  limit over all interleavings of starts, IP changes and releases rests on the
  admission interface.
\<close>

subsection \<open>Errors and the part of a session the modules read\<close>

datatype limit_error =
    PublicError string string
  | InternalError string
  | LedgerError ledger_error

record limit_session =
  ls_id :: string
  ls_remoteIp :: string
  ls_targetAddr :: string
  ls_skipModules :: "string list"
  ls_recurringFactor :: "rat option"

record reward_factor =
  rf_factor :: js_number
  rf_module :: string

subsection \<open>renderTimespan\<close>

definition timespan_part :: "int \<Rightarrow> string \<Rightarrow> int \<times> string list \<Rightarrow> int \<times> string list" where
  "timespan_part grp unit st = (let (time, parts) = st in
     if time \<ge> grp then (time - (time div grp) * grp, parts @ [dec_int (time div grp) @ unit])
     else (time, parts))"

definition renderTimespan :: "int \<Rightarrow> nat \<Rightarrow> string" where
  "renderTimespan time maxParts =
     (let maxParts = (if maxParts = 0 then 2 else maxParts);
          (_, resParts) = timespan_part 1 ''sec'' (timespan_part 60 ''min''
            (timespan_part (60 * 60) ''h'' (timespan_part (60 * 60 * 24) ''d'' (time, []))));
          resParts = (if length resParts > maxParts then take maxParts resParts else resParts)
      in join_with '' '' resParts)"

subsection \<open>Concurrency limit\<close>

datatype limit_scope = ScopeIp | ScopeAddress | ScopeIpOrAddress

record concurrency_config =
  cl_limit :: int
  cl_scope :: limit_scope
  cl_messageByAddr :: "string option"
  cl_messageByIP :: "string option"

fun is_boolean :: "js_value \<Rightarrow> bool" where
  "is_boolean (JBool _) = True"
| "is_boolean _ = False"

fun string_or_null :: "js_value \<Rightarrow> bool" where
  "string_or_null (JStr _) = True"
| "string_or_null JNull = True"
| "string_or_null _ = False"

fun string_value :: "js_value \<Rightarrow> string option" where
  "string_value (JStr s) = Some s"
| "string_value _ = None"

fun positive_safe_integer :: "js_value \<Rightarrow> int option" where
  "positive_safe_integer (JNum n) = (case safe_integer n of Some i \<Rightarrow> (if i > 0 then Some i else None) | None \<Rightarrow> None)"
| "positive_safe_integer _ = None"

definition compileConfig :: "js_value \<Rightarrow> string + concurrency_config" where
  "compileConfig c = (let p = own_property c in
     if \<not> is_boolean (p ''enabled'') then Inl ''enabled must be a boolean''
     else case positive_safe_integer (p ''concurrencyLimit'') of
       None \<Rightarrow> Inl ''concurrencyLimit must be a positive safe integer''
     | Some limit \<Rightarrow>
         if \<not> is_boolean (p ''byAddrOnly'') then Inl ''byAddrOnly must be a boolean''
         else if \<not> is_boolean (p ''byIPOnly'') then Inl ''byIPOnly must be a boolean''
         else if p ''byAddrOnly'' = JBool True \<and> p ''byIPOnly'' = JBool True
           then Inl ''byAddrOnly and byIPOnly cannot both be true''
         else if \<not> string_or_null (p ''messageByAddr'') then Inl ''messageByAddr must be a string or null''
         else if \<not> string_or_null (p ''messageByIP'') then Inl ''messageByIP must be a string or null''
         else Inr \<lparr>cl_limit = limit,
                   cl_scope = (if p ''byAddrOnly'' = JBool True then ScopeAddress
                               else if p ''byIPOnly'' = JBool True then ScopeIp else ScopeIpOrAddress),
                   cl_messageByAddr = string_value (p ''messageByAddr''),
                   cl_messageByIP = string_value (p ''messageByIP'')\<rparr>)"

text \<open>\<^verbatim>\<open>config.messageByIP || (...)\<close>: null and the empty string are falsy.\<close>

definition or_default :: "string option \<Rightarrow> string \<Rightarrow> string" where
  "or_default m d = (case m of None \<Rightarrow> d | Some s \<Rightarrow> if s = [] then d else s)"

definition concurrency_checks :: "concurrency_config \<Rightarrow> limit_session \<Rightarrow> (admission_subject \<times> string) list" where
  "concurrency_checks config session =
     (let ipCheck = (Ip (ls_remoteIp session), or_default (cl_messageByIP config)
            (''Only '' @ dec_int (cl_limit config) @ '' concurrent sessions allowed per IP''));
          addressCheck = (Address (ls_targetAddr session), or_default (cl_messageByAddr config)
            (''Only '' @ dec_int (cl_limit config) @ '' concurrent sessions allowed per wallet address''))
      in case cl_scope config of
           ScopeIp \<Rightarrow> [ipCheck] | ScopeAddress \<Rightarrow> [addressCheck] | ScopeIpOrAddress \<Rightarrow> [ipCheck, addressCheck])"

fun concurrency_scan ::
  "ledger \<Rightarrow> string \<Rightarrow> (admission_subject \<times> string) list \<Rightarrow> nat \<Rightarrow> string option \<Rightarrow> ledger_error + (nat \<times> string option)" where
  "concurrency_scan L sid [] n msg = Inr (n, msg)"
| "concurrency_scan L sid ((subject, message) # cs) n msg =
     try_bind (getPriorUsage sid [subject] no_options L) (\<lambda>u.
       if au_count u > n then concurrency_scan L sid cs (au_count u) (Some message)
       else concurrency_scan L sid cs n msg)"

definition concurrency_checkLimit ::
  "concurrency_config option \<Rightarrow> limit_session \<Rightarrow> ledger \<Rightarrow> limit_error + unit" where
  "concurrency_checkLimit compiled session L = (case compiled of
      None \<Rightarrow> Inl (InternalError ''concurrency-limit module is not configured'')
    | Some config \<Rightarrow>
        (case concurrency_scan L (ls_id session) (concurrency_checks config session) 0 None of
           Inl e \<Rightarrow> Inl (LedgerError e)
         | Inr (n, msg) \<Rightarrow>
             if int n \<ge> cl_limit config
             then Inl (PublicError ''CONCURRENCY_LIMIT'' (case msg of None \<Rightarrow> ''null'' | Some m \<Rightarrow> m))
             else Inr ()))"

definition concurrency_processSessionStart ::
  "string \<Rightarrow> concurrency_config option \<Rightarrow> limit_session \<Rightarrow> ledger \<Rightarrow> limit_error + unit" where
  "concurrency_processSessionStart moduleName compiled session L =
     (if moduleName \<in> set (ls_skipModules session) then Inr ()
      else concurrency_checkLimit compiled session L)"

subsection \<open>Recurring limits\<close>

record recurring_limit =
  rl_limitCount :: int
  rl_limitAmount :: int
  rl_duration :: int
  rl_byAddrOnly :: bool
  rl_byIPOnly :: bool
  rl_ip4Subnet :: "int option"
  rl_action :: "string option"
  rl_message :: "string option"
  rl_rewards :: "rat option"

text \<open>The query to \<^verbatim>\<open>FaucetDatabase.getFinishedSessions\<close>: target address, remote IP (with \<^verbatim>\<open>%\<close>
  as a wildcard) and duration; a finished session is its id and its drop amount.\<close>

record finished_query =
  fq_targetAddr :: "string option"
  fq_remoteIp :: "string option"
  fq_duration :: int

type_synonym finished_session = "string \<times> int"

text \<open>\<^verbatim>\<open>/^[0-9.]+$/\<close>\<close>

definition dotted_digits :: "string \<Rightarrow> bool" where
  "dotted_digits s \<longleftrightarrow> s \<noteq> [] \<and> (\<forall>c \<in> set s. is_digit c \<or> c = CHR ''.'')"

text \<open>\<^verbatim>\<open>limit.ip4Subnet / 8\<close> as a slice end: truncated toward zero.\<close>

definition getLimitSubjects :: "limit_session \<Rightarrow> recurring_limit \<Rightarrow> string \<times> admission_subject list" where
  "getLimitSubjects session limit =
     (let ip = ls_remoteIp session;
          (remoteIp, ipSubject) = (case rl_ip4Subnet limit of
             None \<Rightarrow> (ip, Ip ip)
           | Some subnet \<Rightarrow>
              if subnet \<noteq> 0 \<and> dotted_digits ip
              then (let ipParts = js_slice0 (bigint_div subnet 8) (split_on CHR ''.'' ip) in
                if length ipParts < 4
                then (let wild = join_with ''.'' (ipParts @ [''%'']) in
                  (wild, Scope (''recurring-limits.ip4-'' @ dec_int subnet) wild))
                else (ip, Ip ip))
              else (ip, Ip ip));
          address = Address (ls_targetAddr session)
      in (remoteIp,
          if rl_byAddrOnly limit then [address]
          else if rl_byIPOnly limit then [ipSubject]
          else [address, ipSubject]))"

definition finished_query_of :: "limit_session \<Rightarrow> recurring_limit \<Rightarrow> finished_query" where
  "finished_query_of session limit =
     (let remoteIp = fst (getLimitSubjects session limit) in
      if rl_byAddrOnly limit then
        \<lparr>fq_targetAddr = Some (ls_targetAddr session), fq_remoteIp = None, fq_duration = rl_duration limit\<rparr>
      else if rl_byIPOnly limit then
        \<lparr>fq_targetAddr = None, fq_remoteIp = Some remoteIp, fq_duration = rl_duration limit\<rparr>
      else
        \<lparr>fq_targetAddr = Some (ls_targetAddr session), fq_remoteIp = Some remoteIp, fq_duration = rl_duration limit\<rparr>)"

record limit_check =
  lc_limit :: recurring_limit
  lc_query :: finished_query
  lc_priorUsage :: admission_usage

definition prepareLimitCheck ::
  "int \<Rightarrow> limit_session \<Rightarrow> recurring_limit \<Rightarrow> ledger \<Rightarrow> ledger_error + (limit_check \<times> ledger)" where
  "prepareLimitCheck now session limit L =
     (let subjects = snd (getLimitSubjects session limit) in
      try_bind (bind (ls_id session) subjects L) (\<lambda>L'.
      try_bind (getPriorUsage (ls_id session) subjects
          \<lparr>uo_minStartTime = Some (now - rl_duration limit), uo_excludeSessionIds = None\<rparr> L') (\<lambda>u.
        Inr (\<lparr>lc_limit = limit, lc_query = finished_query_of session limit, lc_priorUsage = u\<rparr>, L'))))"

text \<open>\<^verbatim>\<open>limits.map(...)\<close>: the checks are prepared in order before any is evaluated.\<close>

fun prepare_checks ::
  "int \<Rightarrow> limit_session \<Rightarrow> recurring_limit list \<Rightarrow> ledger \<Rightarrow> ledger_error option \<times> limit_check list \<times> ledger" where
  "prepare_checks now session [] L = (None, [], L)"
| "prepare_checks now session (l # ls) L = (case prepareLimitCheck now session l L of
      Inl e \<Rightarrow> (Some e, [], keep_on_error L (bind (ls_id session) (snd (getLimitSubjects session l)) L))
    | Inr (c, L') \<Rightarrow> (let (e, cs, L'') = prepare_checks now session ls L' in (e, c # cs, L'')))"

definition blocks :: "recurring_limit \<Rightarrow> bool" where
  "blocks limit \<longleftrightarrow> (case rl_action limit of None \<Rightarrow> True | Some a \<Rightarrow> a = [] \<or> a = ''block'')"

definition apply_limit_factor :: "recurring_limit \<Rightarrow> limit_session \<Rightarrow> limit_session" where
  "apply_limit_factor limit session = (case rl_rewards limit of
      None \<Rightarrow> session
    | Some r \<Rightarrow> (case ls_recurringFactor session of
          None \<Rightarrow> session\<lparr>ls_recurringFactor := Some r\<rparr>
        | Some c \<Rightarrow> if r < c then session\<lparr>ls_recurringFactor := Some r\<rparr> else session))"

definition recurring_checkLimit ::
  "(int \<Rightarrow> string) \<Rightarrow> limit_session \<Rightarrow> recurring_limit \<Rightarrow> finished_session list \<Rightarrow> admission_usage
    \<Rightarrow> limit_error + limit_session" where
  "recurring_checkLimit readableAmount session limit finished prior =
     (let active = excludeCommittedUsage prior (map fst finished);
          usedCount = length finished + at_count active;
          countApplies = (rl_limitCount limit > 0 \<and> int usedCount \<ge> rl_limitCount limit);
          totalAmount = at_amount active + (\<Sum>f \<leftarrow> finished. snd f);
          amountApplies = (rl_limitAmount limit > 0 \<and>
            (at_hasProvisional active \<or> totalAmount \<ge> rl_limitAmount limit))
      in if countApplies \<and> blocks limit then
           Inl (PublicError ''RECURRING_LIMIT'' (or_default (rl_message limit)
             (''You have already created '' @ dec_nat usedCount @
              (if usedCount > 1 then '' sessions'' else '' session'') @ '' in the last '' @
              renderTimespan (rl_duration limit) 0)))
         else if amountApplies \<and> blocks limit then
           Inl (PublicError ''RECURRING_LIMIT'' (or_default (rl_message limit)
             (if at_hasProvisional active
              then ''Another matching faucet request is still being processed. Please try again.''
              else ''You have already requested '' @ readableAmount totalAmount @ '' in the last '' @
                renderTimespan (rl_duration limit) 0)))
         else if countApplies \<or> amountApplies then Inr (apply_limit_factor limit session)
         else Inr session)"

fun check_limits ::
  "(int \<Rightarrow> string) \<Rightarrow> (finished_query \<Rightarrow> finished_session list) \<Rightarrow> limit_check list \<Rightarrow> limit_session
    \<Rightarrow> limit_error option \<times> limit_session" where
  "check_limits readableAmount db [] session = (None, session)"
| "check_limits readableAmount db (c # cs) session =
     (case recurring_checkLimit readableAmount session (lc_limit c) (db (lc_query c)) (lc_priorUsage c) of
        Inl e \<Rightarrow> (Some e, session)
      | Inr session' \<Rightarrow> check_limits readableAmount db cs session')"

definition recurring_processSessionStart ::
  "string \<Rightarrow> int \<Rightarrow> (int \<Rightarrow> string) \<Rightarrow> (finished_query \<Rightarrow> finished_session list) \<Rightarrow> recurring_limit list
    \<Rightarrow> limit_session \<Rightarrow> ledger \<Rightarrow> limit_error option \<times> limit_session \<times> ledger" where
  "recurring_processSessionStart moduleName now readableAmount db limits session L =
     (if moduleName \<in> set (ls_skipModules session) then (None, session, L)
      else let (e, checks, L') = prepare_checks now session limits L in
        case e of
          Some err \<Rightarrow> (Some (LedgerError err), session, L')
        | None \<Rightarrow> (let (r, session') = check_limits readableAmount db checks session in (r, session', L')))"

definition restoreSessionReservations ::
  "string \<Rightarrow> recurring_limit list \<Rightarrow> limit_session \<Rightarrow> ledger \<Rightarrow> ledger_error + ledger" where
  "restoreSessionReservations moduleName limits session L =
     (if moduleName \<in> set (ls_skipModules session) then Inr L
      else foldl (\<lambda>r limit. try_bind r (bind (ls_id session) (snd (getLimitSubjects session limit)))) (Inr L) limits)"

definition recurring_processRewardFactor ::
  "string \<Rightarrow> limit_session \<Rightarrow> reward_factor list \<Rightarrow> reward_factor list" where
  "recurring_processRewardFactor moduleName session factors =
     (if moduleName \<in> set (ls_skipModules session) then factors
      else let rewardPerc = (case ls_recurringFactor session of None \<Rightarrow> 100 | Some f \<Rightarrow> f) in
        if rewardPerc \<noteq> 100 then factors @ [\<lparr>rf_factor = Fin (rewardPerc / 100), rf_module = moduleName\<rparr>]
        else factors)"

subsection \<open>Tickets are never reissued\<close>

definition no_new_old_tickets :: "ledger \<Rightarrow> ledger \<Rightarrow> bool" where
  "no_new_old_tickets L L' \<longleftrightarrow> nextBindingOrder L \<le> nextBindingOrder L' \<and>
     (\<forall>sid key n. bound_order L' sid key = Some n \<longrightarrow> n \<le> nextBindingOrder L \<longrightarrow> bound_order L sid key = Some n)"

lemma nnot_refl [simp]: "no_new_old_tickets L L"
  by (simp add: no_new_old_tickets_def)

lemma nnot_trans: "no_new_old_tickets L M \<Longrightarrow> no_new_old_tickets M N \<Longrightarrow> no_new_old_tickets L N"
  unfolding no_new_old_tickets_def by (meson le_trans)

lemma nnot_bind_subject: "no_new_old_tickets L (bind_subject sid s L)"
  unfolding no_new_old_tickets_def bound_order_bind_subject
  by (auto simp: bind_subject_def Let_def split: option.splits if_splits)

lemma nnot_bind_subjects: "no_new_old_tickets L (fold (bind_subject sid) ss L)"
  by (induction ss arbitrary: L) (auto intro: nnot_trans[OF nnot_bind_subject])

lemma nnot_put: "js_get (reservations L) sid = Some r \<Longrightarrow> ar_bindings r' = ar_bindings r \<Longrightarrow>
    no_new_old_tickets L (put_reservation sid r' L)"
  by (auto simp: no_new_old_tickets_def bound_order_put bound_order_binding split: if_splits)

lemma nnot_begin: "begin_reservation sid t c ss b L = Inr L' \<Longrightarrow> no_new_old_tickets L L'"
proof -
  let ?r = "\<lparr>ar_sessionId = sid, ar_startTime = t, ar_phase = Starting,
    ar_claimCeiling = \<lparr>cc_state = (if b then Settled else Provisional), cc_amount = normalizeAmount c\<rparr>,
    ar_bindings = []\<rparr>"
  assume "begin_reservation sid t c ss b L = Inr L'"
  hence "L' = fold (bind_subject sid) ss (put_reservation sid ?r L)"
    by (auto simp: begin_reservation_def bind_def try_bind_Inr_iff requireReservation_Inr split: if_splits)
  moreover have "no_new_old_tickets L (put_reservation sid ?r L)"
    by (auto simp: no_new_old_tickets_def bound_order_put split: if_splits)
  ultimately show ?thesis using nnot_trans nnot_bind_subjects by blast
qed

lemma nnot_bind: "bind sid ss L = Inr L' \<Longrightarrow> no_new_old_tickets L L'"
  by (auto simp: bind_def try_bind_Inr_iff nnot_bind_subjects)

lemma nnot_phases:
  "markRunning sid L = Inr L' \<Longrightarrow> no_new_old_tickets L L'"
  "markCommitting sid L = Inr L' \<Longrightarrow> no_new_old_tickets L L'"
  "setClaimCeiling sid a L = Inr L' \<Longrightarrow> no_new_old_tickets L L'"
  "reserveClaimCeiling sid a L = Inr L' \<Longrightarrow> no_new_old_tickets L L'"
  unfolding markRunning_def markCommitting_def setClaimCeiling_def reserveClaimCeiling_def
    try_bind_Inr_iff requireReservation_Inr Let_def
  by (auto split: if_splits intro: nnot_put)

lemma nnot_remove: "no_new_old_tickets L (removeBinding sid s L)"
  unfolding no_new_old_tickets_def bound_order_removeBinding
  by (auto simp: removeBinding_def Let_def split: option.splits if_splits)

lemma nnot_release: "no_new_old_tickets L (release sid L)"
  by (simp add: no_new_old_tickets_def bound_order_release release_simps)

lemma nnot_step: "no_new_old_tickets L (ledger_step op L)"
proof -
  have k: "(\<And>L'. r = Inr L' \<Longrightarrow> no_new_old_tickets L L') \<Longrightarrow> no_new_old_tickets L (keep_on_error L r)"
    for r :: "ledger_error + ledger"
    by (cases r) auto
  show ?thesis
  proof (cases op)
    case (OpPrepareMove sid old new)
    thus ?thesis by (auto split: sum.splits dest!: move_prepared(4) intro: nnot_bind_subject)
  qed (simp_all add: nnot_release commitMove_def abortMove_def nnot_remove,
       (rule k, erule nnot_begin nnot_bind nnot_phases)+)
qed

subsection \<open>The concurrency limit holds\<close>

text \<open>A system of starts, moves, releases and limit checks in any order.  A check that
  passes grants the session its ticket for each subject it checked.\<close>

datatype admission_event = LedgerEvent ledger_op | CheckEvent limit_session

type_synonym grants = "(string \<times> admission_subject \<times> nat) set"

definition granted_by :: "concurrency_config \<Rightarrow> limit_session \<Rightarrow> ledger \<Rightarrow> grants" where
  "granted_by config session L =
     {(ls_id session, s, n) |s n. s \<in> fst ` set (concurrency_checks config session) \<and> ticket L (ls_id session) s = Some n}"

fun admission_event_step :: "concurrency_config \<Rightarrow> admission_event \<Rightarrow> ledger \<times> grants \<Rightarrow> ledger \<times> grants" where
  "admission_event_step config (LedgerEvent op) (L, G) = (ledger_step op L, G)"
| "admission_event_step config (CheckEvent session) (L, G) =
     (case concurrency_checkLimit (Some config) session L of
        Inl _ \<Rightarrow> (L, G) | Inr _ \<Rightarrow> (L, G \<union> granted_by config session L))"

definition run_admissions :: "concurrency_config \<Rightarrow> admission_event list \<Rightarrow> ledger \<times> grants" where
  "run_admissions config evs = fold (admission_event_step config) evs (empty_ledger, {})"

definition admitted :: "ledger \<times> grants \<Rightarrow> admission_subject \<Rightarrow> string set" where
  "admitted S k = {sid. \<exists>n. (sid, k, n) \<in> snd S \<and> ticket (fst S) sid k = Some n}"

definition grants_inv :: "concurrency_config \<Rightarrow> ledger \<times> grants \<Rightarrow> bool" where
  "grants_inv config S \<longleftrightarrow> ledger_inv (fst S) \<and>
     (\<forall>(sid, k, n) \<in> snd S. n \<le> nextBindingOrder (fst S) \<and>
        (ticket (fst S) sid k = Some n \<longrightarrow> int (card (aq.seniors (fst S) k sid)) < cl_limit config))"

lemma concurrency_scan_bound:
  "concurrency_scan L sid cs n msg = Inr (m, msg') \<Longrightarrow>
   n \<le> m \<and> (\<forall>s \<in> fst ` set cs. \<exists>u. getPriorUsage sid [s] no_options L = Inr u \<and> au_count u \<le> m)"
proof (induction L sid cs n msg rule: concurrency_scan.induct)
  case (2 L sid subject message cs n msg)
  from "2.prems" obtain u where u: "getPriorUsage sid [subject] no_options L = Inr u" and
    scan: "(if au_count u > n then concurrency_scan L sid cs (au_count u) (Some message)
       else concurrency_scan L sid cs n msg) = Inr (m, msg')"
    by (auto simp: try_bind_Inr_iff)
  show ?case
  proof (cases "au_count u > n")
    case True
    with "2.IH"(1)[OF True] scan u show ?thesis by auto
  next
    case False
    with "2.IH"(2)[OF False] scan u show ?thesis by auto
  qed
qed simp

lemma check_passed:
  assumes inv: "ledger_inv L" and ok: "concurrency_checkLimit (Some config) session L = Inr ()"
    and s: "s \<in> fst ` set (concurrency_checks config session)" and t: "ticket L (ls_id session) s = Some n"
  shows "int (card (aq.seniors L s (ls_id session))) < cl_limit config"
proof -
  from ok obtain m msg where scan: "concurrency_scan L (ls_id session) (concurrency_checks config session) 0 None
      = Inr (m, msg)" and m: "int m < cl_limit config"
    by (auto simp: concurrency_checkLimit_def split: sum.splits if_splits)
  obtain u where u: "getPriorUsage (ls_id session) [s] no_options L = Inr u" "au_count u \<le> m"
    using concurrency_scan_bound[OF scan] s by blast
  have p: "prior_sessions L (ls_id session) s = Some (au_sessionIds u)" using u by (simp add: prior_sessions_def)
  have "card (aq.seniors L s (ls_id session)) \<le> length (au_sessionIds u)"
    by (rule aq.seniors_count[OF inv p t])
  also have "\<dots> = au_count u" using getPriorUsage_members(2)[OF inv u(1)] by simp
  finally show ?thesis using u m by linarith
qed

lemma seniors_shrink:
  assumes "no_new_old_tickets L L'" "ticket L' sid k = Some n" "n \<le> nextBindingOrder L"
  shows "aq.seniors L' k sid \<subseteq> aq.seniors L k sid"
  using assms unfolding aq.seniors_def no_new_old_tickets_def ticket_def by fastforce

lemma grants_inv_step: "grants_inv config S \<Longrightarrow> grants_inv config (admission_event_step config ev S)"
proof (cases S)
  case (Pair L G)
  assume I: "grants_inv config S"
  hence inv: "ledger_inv L" using Pair by (simp add: grants_inv_def)
  show ?thesis
  proof (cases ev)
    case (LedgerEvent op)
    note N = nnot_step[of L op]
    have "n \<le> nextBindingOrder (ledger_step op L) \<and> (ticket (ledger_step op L) sid k = Some n \<longrightarrow>
        int (card (aq.seniors (ledger_step op L) k sid)) < cl_limit config)" if g: "(sid, k, n) \<in> G" for sid k n
    proof (intro conjI impI)
      have n: "n \<le> nextBindingOrder L" using I g Pair by (auto simp: grants_inv_def)
      thus "n \<le> nextBindingOrder (ledger_step op L)" using N by (simp add: no_new_old_tickets_def)
      assume t: "ticket (ledger_step op L) sid k = Some n"
      hence "ticket L sid k = Some n" using N n by (simp add: no_new_old_tickets_def ticket_def)
      hence "int (card (aq.seniors L k sid)) < cl_limit config" using I g Pair by (auto simp: grants_inv_def)
      moreover have "card (aq.seniors (ledger_step op L) k sid) \<le> card (aq.seniors L k sid)"
        by (intro card_mono aq.seniors_finite inv seniors_shrink[OF N t n])
      ultimately show "int (card (aq.seniors (ledger_step op L) k sid)) < cl_limit config" by linarith
    qed
    with LedgerEvent Pair inv show ?thesis by (auto simp: grants_inv_def ledger_inv_step)
  next
    case (CheckEvent session)
    have "n \<le> nextBindingOrder L" if "ticket L sid k = Some n" for sid k n
      using that ledger_invD(5)[OF inv] by (auto simp: ticket_def)
    moreover have "int (card (aq.seniors L s (ls_id session))) < cl_limit config"
      if "concurrency_checkLimit (Some config) session L = Inr ()" "(s, msg) \<in> set (concurrency_checks config session)"
        "ticket L (ls_id session) s = Some n" for s msg n
      using check_passed[OF inv that(1) _ that(3)] that(2) by force
    ultimately have "grants_inv config (L, G \<union> granted_by config session L)"
      if "concurrency_checkLimit (Some config) session L = Inr ()"
      using I Pair that unfolding grants_inv_def by (auto simp: granted_by_def)
    with CheckEvent Pair I show ?thesis
      by (auto split: sum.splits)
  qed
qed

lemma grants_inv_run: "grants_inv config (run_admissions config evs)"
proof -
  have "grants_inv config S \<Longrightarrow> grants_inv config (fold (admission_event_step config) evs S)" for S
    by (induction evs arbitrary: S) (simp_all del: split_paired_All add: grants_inv_step)
  thus ?thesis unfolding run_admissions_def by (simp add: grants_inv_def ledger_inv_empty)
qed

text \<open>C3. The concurrency limit holds under every interleaving: whatever sequence of session
  starts, bindings, phase changes, IP moves (committed or aborted), releases and limit
  checks has run, the sessions that passed the check and still hold the binding they were
  checked with are, for every IP and every wallet address, at most the configured limit.\<close>

theorem concurrency_limit_safe:
  "card (admitted (run_admissions config evs) k) \<le> nat (cl_limit config)"
proof -
  let ?S = "run_admissions config evs"
  have "ledger_inv (fst ?S)" using grants_inv_run by (simp add: grants_inv_def)
  moreover have "ticket (fst ?S) a k \<noteq> None \<and> card (aq.seniors (fst ?S) k a) < nat (cl_limit config)"
    if "a \<in> admitted ?S k" for a
    using that grants_inv_run[of config evs] by (fastforce simp: grants_inv_def admitted_def)
  ultimately show ?thesis by (rule aq.holders_with_few_seniors)
qed

text \<open>C4. A blocking recurring limit rejects in exactly three cases: \<^verbatim>\<open>limitCount\<close> is positive and the number
  of different sessions, those the database lists and those the ledger adds, reaches it;
  \<^verbatim>\<open>limitAmount\<close> is positive and the recorded drops with the claim ceilings of the sessions
  that only the ledger has reach it; or \<^verbatim>\<open>limitAmount\<close> is positive and the ceiling of such a session is
  not settled, so that the amount is not known.  A session that both list counts once.  The
  database lists a session once, as its id is the primary key of the table, and both limits are integers.\<close>

theorem recurring_limit_exact:
  assumes u: "getPriorUsage sid subjects opts (run_ledger ops) = Inr prior"
    and d: "distinct (map fst finished)" and b: "blocks limit"
  defines "active \<equiv> set (au_sessionIds prior) - fst ` set finished"
  shows "is_ok (recurring_checkLimit readableAmount session limit finished prior) \<longleftrightarrow>
    \<not> (rl_limitCount limit > 0 \<and>
        int (card (fst ` set finished \<union> set (au_sessionIds prior))) \<ge> rl_limitCount limit) \<and>
    \<not> (rl_limitAmount limit > 0 \<and>
        ((\<exists>x \<in> active. is_provisional (run_ledger ops) x) \<or>
         (\<Sum>f \<in> set finished. snd f) + (\<Sum>x \<in> active. ceiling_of (run_ledger ops) x) \<ge> rl_limitAmount limit))"
proof -
  have act: "active = set (au_sessionIds prior) - set (map fst finished)" by (simp add: active_def)
  note E = excludeCommittedUsage_totals[OF ledger_inv_run u act]
  have "fst ` set finished \<union> set (au_sessionIds prior) = set (map fst finished) \<union> active"
    by (auto simp: active_def)
  also have "card \<dots> = length finished + card active"
    using distinct_card[OF d] by (subst card_Un_disjoint) (auto simp: active_def)
  finally have c: "card (fst ` set finished \<union> set (au_sessionIds prior)) = length finished + card active" .
  have "distinct finished" using d by (simp add: distinct_map)
  hence s: "(\<Sum>f \<leftarrow> finished. snd f) = (\<Sum>f \<in> set finished. snd f)"
    by (simp add: sum_list_distinct_conv_sum_set)
  show ?thesis
    unfolding recurring_checkLimit_def Let_def E s c using b by (auto simp: add.commute)
qed

theorem recurring_limit_exact_witness:
  "\<exists>prior. getPriorUsage ''b'' [Ip ''1''] no_options (run_ledger
      [OpBegin ''a'' 10 5 [Ip ''1''] True, OpMarkRunning ''a'', OpBegin ''b'' 11 7 [Ip ''1''] False]) = Inr prior
    \<and> \<not> is_ok (recurring_checkLimit (\<lambda>a. dec_int a) \<lparr>ls_id = ''b'', ls_remoteIp = ''1'', ls_targetAddr = ''x'',
          ls_skipModules = [], ls_recurringFactor = None\<rparr>
        \<lparr>rl_limitCount = 2, rl_limitAmount = 0, rl_duration = 60, rl_byAddrOnly = False, rl_byIPOnly = True,
         rl_ip4Subnet = None, rl_action = None, rl_message = None, rl_rewards = None\<rparr> [(''d'', 3)] prior)"
proof -
  let ?ops = "[OpBegin ''a'' 10 5 [Ip ''1''] True, OpMarkRunning ''a'', OpBegin ''b'' 11 7 [Ip ''1''] False]"
  have u: "getPriorUsage ''b'' [Ip ''1''] no_options (run_ledger ?ops) = Inr
    \<lparr>au_count = 1, au_amount = 5, au_sessionIds = [''a''], au_amountsBySessionId = [(''a'', 5)],
     au_provisionalIds = []\<rparr>" (is "_ = Inr ?u") by (simp add: ledger_eval)
  let ?limit = "\<lparr>rl_limitCount = 2, rl_limitAmount = 0, rl_duration = 60, rl_byAddrOnly = False, rl_byIPOnly = True,
         rl_ip4Subnet = None, rl_action = None, rl_message = None, rl_rewards = None\<rparr>"
  have "distinct (map fst [(''d'', 3::int)])" "blocks ?limit" by (simp_all add: blocks_def)
  from recurring_limit_exact[OF u this] u show ?thesis by (intro exI[of _ ?u]) simp
qed

end
