(* ===== verification/Reward_Modules.thy ===== *)
theory Reward_Modules
  imports Limit_Modules
begin

text \<open>
  The modules that scale a session's reward by the faucet's balance and by a whitelist:
  \<^verbatim>\<open>src/src/modules/faucet-balance/FaucetBalanceModule.ts\<close> and
  \<^verbatim>\<open>src/src/modules/whitelist/WhitelistModule.ts\<close>.  The wallet, the claim queue and the
  database are read through arguments; the one floating-point division is rounded by
  the parameter \<^verbatim>\<open>rnd\<close>; regular expressions and the YAML file are parameters.
\<close>

subsection \<open>Faucet balance: configuration\<close>

record fixed_restriction =
  fr_limit :: int
  fr_rewardPercent :: rat

record balance_restrictions =
  br_fixed :: "fixed_restriction list"
  br_dynamicTarget :: "int option"

fun parseBalanceAmount :: "string \<Rightarrow> js_value \<Rightarrow> string + int" where
  "parseBalanceAmount name (JNum n) = (case safe_integer n of
      Some i \<Rightarrow> (if i < 0
        then Inl (''faucet-balance '' @ name @ '' must be a non-negative safe integer or canonical decimal string'')
        else Inr i)
    | None \<Rightarrow> Inl (''faucet-balance '' @ name @ '' must be a non-negative safe integer or canonical decimal string''))"
| "parseBalanceAmount name (JStr s) = (if canonical_decimal s then Inr (int (dec_value s))
    else Inl (''faucet-balance '' @ name @ '' must be a non-negative safe integer or canonical decimal string''))"
| "parseBalanceAmount name _ =
    Inl (''faucet-balance '' @ name @ '' must be a non-negative safe integer or canonical decimal string'')"

fun percent_value :: "js_value \<Rightarrow> rat option" where
  "percent_value (JNum (Fin q)) = (if q < 0 \<or> q > 100 then None else Some q)"
| "percent_value _ = None"

fun compile_fixed :: "(string \<times> js_value) list \<Rightarrow> string + fixed_restriction list" where
  "compile_fixed [] = Inr []"
| "compile_fixed ((limit, rewardPercent) # es) =
     (if \<not> canonical_decimal limit
      then Inl ''faucet-balance fixedRestriction limits must be canonical non-negative decimal strings''
      else case percent_value rewardPercent of
        None \<Rightarrow> Inl ''faucet-balance fixedRestriction percentages must be finite numbers from 0 to 100''
      | Some p \<Rightarrow> try_bind (compile_fixed es) (\<lambda>rs.
          Inr (\<lparr>fr_limit = int (dec_value limit), fr_rewardPercent = p\<rparr> # rs)))"

fun object_entries :: "js_value \<Rightarrow> (string \<times> js_value) list option" where
  "object_entries JNull = Some []"
| "object_entries JUndefined = Some []"
| "object_entries (JObj es) = Some es"
| "object_entries _ = None"

definition compile_dynamic :: "js_value \<Rightarrow> string + int option" where
  "compile_dynamic v = (case v of
      JNull \<Rightarrow> Inr None
    | JUndefined \<Rightarrow> Inr None
    | JObj es \<Rightarrow> try_bind (parseBalanceAmount ''dynamicRestriction.targetBalance'' (own_property v ''targetBalance''))
        (\<lambda>t. if t \<le> 0 then Inl ''faucet-balance dynamicRestriction.targetBalance must be greater than zero''
             else Inr (Some t))
    | _ \<Rightarrow> Inl ''faucet-balance dynamicRestriction must be an object'')"

definition compileRestrictions :: "js_value \<Rightarrow> string + balance_restrictions" where
  "compileRestrictions config = (case object_entries (own_property config ''fixedRestriction'') of
      None \<Rightarrow> Inl ''faucet-balance fixedRestriction must be an object''
    | Some es \<Rightarrow> try_bind (compile_fixed es) (\<lambda>fixed.
        try_bind (compile_dynamic (own_property config ''dynamicRestriction'')) (\<lambda>dyn.
          Inr \<lparr>br_fixed = sort_key fr_limit fixed, br_dynamicTarget = dyn\<rparr>)))"

subsection \<open>Faucet balance: restriction\<close>

definition getStaticBalanceRestriction :: "fixed_restriction list \<Rightarrow> int \<Rightarrow> rat" where
  "getStaticBalanceRestriction rs balance =
     foldl (\<lambda>acc r. if balance \<le> fr_limit r \<and> fr_rewardPercent r < acc then fr_rewardPercent r else acc) 100 rs"

definition getDynamicBalanceRestriction :: "(rat \<Rightarrow> rat) \<Rightarrow> int \<Rightarrow> int option \<Rightarrow> int \<Rightarrow> rat" where
  "getDynamicBalanceRestriction rnd spareFunds target balance = (case target of
      None \<Rightarrow> 100
    | Some t \<Rightarrow>
       if balance \<ge> t then 100
       else if balance \<le> spareFunds then 0
       else let mineableBalance = balance - spareFunds in
         rnd (of_int (bigint_div (mineableBalance * 100000) t) / 1000))"

record balance_module =
  bm_restriction :: "rat option"
  bm_refresh :: int
  bm_compiled :: balance_restrictions

definition balance_restriction :: "(rat \<Rightarrow> rat) \<Rightarrow> int \<Rightarrow> balance_restrictions \<Rightarrow> int \<Rightarrow> rat" where
  "balance_restriction rnd spareFunds c balance =
     min (getStaticBalanceRestriction (br_fixed c) balance)
         (getDynamicBalanceRestriction rnd spareFunds (br_dynamicTarget c) balance)"

definition refreshBalanceRestriction ::
  "(rat \<Rightarrow> rat) \<Rightarrow> int \<Rightarrow> int \<Rightarrow> int option \<Rightarrow> int \<Rightarrow> int \<Rightarrow> balance_module \<Rightarrow> balance_module" where
  "refreshBalanceRestriction rnd spareFunds now faucetBalance unclaimed queued m =
     (if bm_refresh m > now - 30 then m
      else case faucetBalance of
        None \<Rightarrow> m
      | Some b \<Rightarrow> m\<lparr>bm_refresh := now,
          bm_restriction := Some (balance_restriction rnd spareFunds (bm_compiled m) (b - unclaimed - queued))\<rparr>)"

text \<open>An unset restriction is \<^verbatim>\<open>undefined\<close>, which is not 100 and whose hundredth is NaN.\<close>

definition balance_processRewardFactor ::
  "string \<Rightarrow> limit_session \<Rightarrow> balance_module \<Rightarrow> reward_factor list \<Rightarrow> reward_factor list" where
  "balance_processRewardFactor moduleName session refreshed factors =
     (if moduleName \<in> set (ls_skipModules session) then factors
      else case bm_restriction refreshed of
        None \<Rightarrow> factors @ [\<lparr>rf_factor = NaN, rf_module = moduleName\<rparr>]
      | Some r \<Rightarrow> if r \<noteq> 100 then factors @ [\<lparr>rf_factor = Fin (r / 100), rf_module = moduleName\<rparr>] else factors)"

definition balance_onConfigReload :: "js_value \<Rightarrow> balance_module \<Rightarrow> string + balance_module" where
  "balance_onConfigReload config m = try_bind (compileRestrictions config) (\<lambda>c.
     Inr (m\<lparr>bm_compiled := c, bm_refresh := 0\<rparr>))"

subsection \<open>Whitelist\<close>

record whitelist_entry =
  we_reward :: "rat option"
  we_skipModules :: "string list option"

record whitelist_config =
  wc_patterns :: "(string \<times> whitelist_entry) list"
  wc_yamlFiles :: "string list"
  wc_refresh :: "int option"

record whitelist_module =
  wm_config :: whitelist_config
  wm_entries :: "(string \<times> whitelist_entry) list"
  wm_cachedRefresh :: "int option"

record whitelist_data =
  wd_whitelist :: bool
  wd_skipModules :: "string list"
  wd_factor :: "rat option"

text \<open>\<^verbatim>\<open>yaml file\<close> is what a whitelist file lists, \<^verbatim>\<open>None\<close> when it does not exist.\<close>

definition refreshFromYaml ::
  "(string \<Rightarrow> (string \<times> whitelist_entry) list option) \<Rightarrow> string \<Rightarrow> (string \<times> whitelist_entry) list
    \<Rightarrow> (string \<times> whitelist_entry) list" where
  "refreshFromYaml yaml file entries = (case yaml file of None \<Rightarrow> entries | Some es \<Rightarrow> entries @ es)"

definition refreshCachedWhitelistEntries ::
  "(string \<Rightarrow> (string \<times> whitelist_entry) list option) \<Rightarrow> int \<Rightarrow> bool \<Rightarrow> whitelist_module \<Rightarrow> whitelist_module" where
  "refreshCachedWhitelistEntries yaml now force m =
     (let refresh = (case wc_refresh (wm_config m) of None \<Rightarrow> 30 | Some r \<Rightarrow> r) in
      if (case wm_cachedRefresh m of None \<Rightarrow> False | Some t \<Rightarrow> t > now - refresh) \<and> \<not> force then m
      else m\<lparr>wm_cachedRefresh := Some now,
             wm_entries := fold (refreshFromYaml yaml) (wc_yamlFiles (wm_config m)) (wc_patterns (wm_config m))\<rparr>)"

definition getSessionWhitelistEntry ::
  "(string \<Rightarrow> string \<Rightarrow> bool) \<Rightarrow> string \<Rightarrow> whitelist_module \<Rightarrow> whitelist_entry option" where
  "getSessionWhitelistEntry matches remoteIp refreshed =
     map_option snd (find (\<lambda>(pattern, _). matches pattern remoteIp) (wm_entries refreshed))"

definition whitelist_processSessionStart :: "whitelist_entry option \<Rightarrow> whitelist_data \<Rightarrow> whitelist_data" where
  "whitelist_processSessionStart entry d = (case entry of
      None \<Rightarrow> d
    | Some e \<Rightarrow> d\<lparr>wd_whitelist := True,
        wd_skipModules := (case we_skipModules e of None \<Rightarrow> wd_skipModules d | Some ms \<Rightarrow> ms),
        wd_factor := (case we_reward e of None \<Rightarrow> wd_factor d | Some r \<Rightarrow> Some r)\<rparr>)"

definition whitelist_processRewardFactor ::
  "string \<Rightarrow> whitelist_data \<Rightarrow> reward_factor list \<Rightarrow> reward_factor list" where
  "whitelist_processRewardFactor moduleName d factors =
     (let rewardPerc = (case wd_factor d of None \<Rightarrow> 100 | Some r \<Rightarrow> r) in
      if rewardPerc \<noteq> 100 then factors @ [\<lparr>rf_factor = Fin (rewardPerc / 100), rf_module = moduleName\<rparr>]
      else factors)"

subsection \<open>Lemmas\<close>

abbreviation static_step :: "int \<Rightarrow> rat \<Rightarrow> fixed_restriction \<Rightarrow> rat" where
  "static_step balance acc r \<equiv>
     (if balance \<le> fr_limit r \<and> fr_rewardPercent r < acc then fr_rewardPercent r else acc)"

lemma static_mono: "balance \<le> balance' \<Longrightarrow> acc \<le> acc' \<Longrightarrow>
    foldl (static_step balance) acc rs \<le> foldl (static_step balance') acc' rs"
  by (induction rs arbitrary: acc acc') (auto simp: not_le not_less)

lemma static_range: "(\<And>r. r \<in> set rs \<Longrightarrow> 0 \<le> fr_rewardPercent r) \<Longrightarrow> 0 \<le> acc \<Longrightarrow>
    0 \<le> foldl (static_step balance) acc rs \<and> foldl (static_step balance) acc rs \<le> acc"
  by (induction rs arbitrary: acc) (auto, fastforce)

lemma compile_fixed_percent: "compile_fixed es = Inr rs \<Longrightarrow> r \<in> set rs \<Longrightarrow>
    0 \<le> fr_rewardPercent r \<and> fr_rewardPercent r \<le> 100 \<and> 0 \<le> fr_limit r"
proof (induction es arbitrary: rs)
  case (Cons e es)
  obtain l p where e: "e = (l, p)" by (cases e)
  with Cons.prems(1) obtain q rs' where q: "percent_value p = Some q" and rs': "compile_fixed es = Inr rs'"
    "rs = \<lparr>fr_limit = int (dec_value l), fr_rewardPercent = q\<rparr> # rs'"
    by (auto simp: try_bind_Inr_iff split: if_splits option.splits)
  have "0 \<le> q \<and> q \<le> 100" using q by (cases p rule: percent_value.cases) (auto split: if_splits)
  with rs' Cons show ?case by auto
qed simp

lemma compileRestrictions_ok:
  assumes "compileRestrictions config = Inr c"
  shows "r \<in> set (br_fixed c) \<Longrightarrow> 0 \<le> fr_rewardPercent r"
    and "br_dynamicTarget c = Some t \<Longrightarrow> 0 < t"
  using assms
  by (auto simp: compileRestrictions_def compile_dynamic_def try_bind_Inr_iff
      split: option.splits js_value.splits if_splits dest: compile_fixed_percent)

lemma dynamic_mono:
  assumes "mono rnd" "rnd 0 = 0" "rnd 100 = 100" "0 \<le> spare" "\<And>t. target = Some t \<Longrightarrow> 0 < t" "b \<le> b'"
  shows "0 \<le> getDynamicBalanceRestriction rnd spare target b"
    and "getDynamicBalanceRestriction rnd spare target b \<le> 100"
    and "getDynamicBalanceRestriction rnd spare target b \<le> getDynamicBalanceRestriction rnd spare target b'"
proof -
  have range: "0 \<le> getDynamicBalanceRestriction rnd spare target b \<and>
      getDynamicBalanceRestriction rnd spare target b \<le> 100" for b
  proof (cases target)
    case (Some t)
    have t: "0 < t" using assms(5) Some by simp
    show ?thesis
    proof (cases "b < t \<and> spare < b")
      case True
      let ?k = "(b - spare) * 100000 div t"
      have "?k \<le> t * 100000 div t" using True t assms(4) by (intro zdiv_mono1) auto
      hence k: "0 \<le> ?k" "?k \<le> 100000"
        using True t assms(4) by (auto simp: pos_imp_zdiv_nonneg_iff)
      hence "rnd 0 \<le> rnd (of_int ?k / 1000)" "rnd (of_int ?k / 1000) \<le> rnd 100"
        using assms(1) by (auto intro!: monoD[OF assms(1)])
      thus ?thesis using True Some t assms(2,3) by (simp add: getDynamicBalanceRestriction_def)
    qed (use Some in \<open>auto simp: getDynamicBalanceRestriction_def\<close>)
  qed (simp add: getDynamicBalanceRestriction_def)
  thus "0 \<le> getDynamicBalanceRestriction rnd spare target b"
    "getDynamicBalanceRestriction rnd spare target b \<le> 100" by auto
  show "getDynamicBalanceRestriction rnd spare target b \<le> getDynamicBalanceRestriction rnd spare target b'"
  proof (cases target)
    case (Some t)
    have t: "0 < t" using assms(5) Some by simp
    show ?thesis
    proof (cases "b' < t \<and> spare < b")
      case True
      have "(b - spare) * 100000 div t \<le> (b' - spare) * 100000 div t"
        using t assms(6) by (intro zdiv_mono1) auto
      hence "rnd (of_int ((b - spare) * 100000 div t) / 1000) \<le> rnd (of_int ((b' - spare) * 100000 div t) / 1000)"
        by (intro monoD[OF assms(1)]) (simp add: divide_right_mono)
      thus ?thesis using True Some t assms(6) by (simp add: getDynamicBalanceRestriction_def)
    next
      case False
      thus ?thesis
        using range[of b] range[of b'] Some assms(6) by (auto simp: getDynamicBalanceRestriction_def)
    qed
  qed (simp add: getDynamicBalanceRestriction_def)
qed

text \<open>With any configuration the module accepts, the balance restriction is a percentage
  between 0 and 100, and it never rises when the available balance falls, however the
  division is rounded.\<close>

lemma balance_restriction_monotone:
  assumes "compileRestrictions config = Inr c" "mono rnd" "rnd 0 = 0" "rnd 100 = 100" "0 \<le> spare" "b \<le> b'"
  shows "0 \<le> balance_restriction rnd spare c b \<and> balance_restriction rnd spare c b \<le> 100
    \<and> balance_restriction rnd spare c b \<le> balance_restriction rnd spare c b'"
proof -
  note C = compileRestrictions_ok[OF assms(1)]
  note D = dynamic_mono[where target = "br_dynamicTarget c", OF assms(2-5) C(2) assms(6)]
  have "0 \<le> getStaticBalanceRestriction (br_fixed c) b" "getStaticBalanceRestriction (br_fixed c) b \<le> 100"
    using static_range[OF C(1), of "br_fixed c" 100 b] by (auto simp: getStaticBalanceRestriction_def)
  moreover have "getStaticBalanceRestriction (br_fixed c) b \<le> getStaticBalanceRestriction (br_fixed c) b'"
    unfolding getStaticBalanceRestriction_def by (rule static_mono) (use assms(6) in auto)
  ultimately show ?thesis using D unfolding balance_restriction_def by (auto simp: min_def)
qed

lemma balance_restriction_monotone_at:
  "\<exists>c. compileRestrictions (JObj [(''fixedRestriction'', JObj [(''1000'', JNum (Fin 50))]),
      (''dynamicRestriction'', JObj [(''targetBalance'', JStr ''10000'')])]) = Inr c
    \<and> balance_restriction id 100 c 600 \<le> balance_restriction id 100 c 2000"
proof -
  have c: "compileRestrictions (JObj [(''fixedRestriction'', JObj [(''1000'', JNum (Fin 50))]),
      (''dynamicRestriction'', JObj [(''targetBalance'', JStr ''10000'')])])
    = Inr \<lparr>br_fixed = [\<lparr>fr_limit = 1000, fr_rewardPercent = 50\<rparr>], br_dynamicTarget = Some 10000\<rparr>" (is "_ = Inr ?c")
    by (simp add: compileRestrictions_def compile_dynamic_def dec_value_def digit_value_def is_digit_def)
  have "balance_restriction id 100 ?c 600 \<le> balance_restriction id 100 ?c 2000"
    using balance_restriction_monotone[OF c, of id 100 600 2000] by (simp add: mono_def)
  with c show ?thesis by blast
qed

end

