(* ===== verification/Effects.thy ===== *)
theory Effects
  imports Faucet_Prelude
begin

text \<open>
  Asynchronous methods as state-passing procedures.  A procedure takes the world it
  runs in and returns the value it resolves to (\<^verbatim>\<open>Inr\<close>) or the error it rejects with
  (\<^verbatim>\<open>Inl\<close>), together with the world it leaves, also when it fails.  Methods the code
  serialises through a promise chain run one after another.  Weakest preconditions
  turn a statement about a procedure into one about its steps.
\<close>

type_synonym ('w, 'e, 'a) proc = "'w \<Rightarrow> ('e + 'a) \<times> 'w"

definition p_return :: "'a \<Rightarrow> ('w, 'e, 'a) proc" where
  "p_return a w = (Inr a, w)"

definition p_throw :: "'e \<Rightarrow> ('w, 'e, 'a) proc" where
  "p_throw e w = (Inl e, w)"

definition p_bind :: "('w, 'e, 'a) proc \<Rightarrow> ('a \<Rightarrow> ('w, 'e, 'b) proc) \<Rightarrow> ('w, 'e, 'b) proc" where
  "p_bind m f w = (case m w of (Inl e, w') \<Rightarrow> (Inl e, w') | (Inr a, w') \<Rightarrow> f a w')"

definition p_then :: "('w, 'e, 'a) proc \<Rightarrow> ('w, 'e, 'b) proc \<Rightarrow> ('w, 'e, 'b) proc" where
  "p_then m n = p_bind m (\<lambda>_. n)"

text \<open>\<^verbatim>\<open>try m catch (e) h\<close>\<close>

definition p_catch :: "('w, 'e, 'a) proc \<Rightarrow> ('e \<Rightarrow> ('w, 'f, 'a) proc) \<Rightarrow> ('w, 'f, 'a) proc" where
  "p_catch m h w = (case m w of (Inl e, w') \<Rightarrow> h e w' | (Inr a, w') \<Rightarrow> (Inr a, w'))"

definition p_get :: "('w \<Rightarrow> 'a) \<Rightarrow> ('w, 'e, 'a) proc" where
  "p_get f w = (Inr (f w), w)"

definition p_modify :: "('w \<Rightarrow> 'w) \<Rightarrow> ('w, 'e, unit) proc" where
  "p_modify f w = (Inr (), f w)"

definition p_when :: "bool \<Rightarrow> ('w, 'e, unit) proc \<Rightarrow> ('w, 'e, unit) proc" where
  "p_when b m = (if b then m else p_return ())"

text \<open>A synchronous call that may throw.\<close>

definition p_lift :: "'e + 'a \<Rightarrow> ('w, 'e, 'a) proc" where
  "p_lift r w = (r, w)"

text \<open>A procedure of a part of the world, run in the whole.\<close>

definition p_zoom :: "('w \<Rightarrow> 'v) \<Rightarrow> ('v \<Rightarrow> 'w \<Rightarrow> 'w) \<Rightarrow> ('v, 'e, 'a) proc \<Rightarrow> ('w, 'e, 'a) proc" where
  "p_zoom get put m w = (case m (get w) of (r, v) \<Rightarrow> (r, put v w))"

primrec p_each :: "('a \<Rightarrow> ('w, 'e, unit) proc) \<Rightarrow> 'a list \<Rightarrow> ('w, 'e, unit) proc" where
  "p_each f [] = p_return ()"
| "p_each f (x # xs) = p_bind (f x) (\<lambda>_. p_each f xs)"

definition wp :: "('w, 'e, 'a) proc \<Rightarrow> ('a \<Rightarrow> 'w \<Rightarrow> bool) \<Rightarrow> ('e \<Rightarrow> 'w \<Rightarrow> bool) \<Rightarrow> 'w \<Rightarrow> bool" where
  "wp m Q E w = (case m w of (Inr a, w') \<Rightarrow> Q a w' | (Inl e, w') \<Rightarrow> E e w')"

named_theorems wp_simps \<open>weakest preconditions of the combinators\<close>

lemma wp_return [wp_simps]: "wp (p_return a) Q E = Q a"
  by (simp add: wp_def p_return_def fun_eq_iff)

lemma wp_throw [wp_simps]: "wp (p_throw e) Q E = E e"
  by (simp add: wp_def p_throw_def fun_eq_iff)

lemma wp_bind [wp_simps]: "wp (p_bind m f) Q E = wp m (\<lambda>a. wp (f a) Q E) E"
  by (auto simp: wp_def p_bind_def fun_eq_iff split: prod.splits sum.splits)

lemma wp_then [wp_simps]: "wp (p_then m n) Q E = wp m (\<lambda>_. wp n Q E) E"
  by (simp add: p_then_def wp_bind)

lemma wp_catch [wp_simps]: "wp (p_catch m h) Q E = wp m Q (\<lambda>e. wp (h e) Q E)"
  by (auto simp: wp_def p_catch_def fun_eq_iff split: prod.splits sum.splits)

lemma wp_get [wp_simps]: "wp (p_get f) Q E = (\<lambda>w. Q (f w) w)"
  by (simp add: wp_def p_get_def fun_eq_iff)

lemma wp_modify [wp_simps]: "wp (p_modify f) Q E = (\<lambda>w. Q () (f w))"
  by (simp add: wp_def p_modify_def fun_eq_iff)

lemma wp_when [wp_simps]: "wp (p_when b m) Q E = (if b then wp m Q E else Q ())"
  by (simp add: p_when_def wp_return)

lemma wp_lift [wp_simps]: "wp (p_lift r) Q E = (case r of Inl e \<Rightarrow> E e | Inr a \<Rightarrow> Q a)"
  by (auto simp: wp_def p_lift_def fun_eq_iff split: sum.splits)

lemma wp_zoom [wp_simps]: "wp (p_zoom get put m) Q E = (\<lambda>w. wp m (\<lambda>a v. Q a (put v w)) (\<lambda>e v. E e (put v w)) (get w))"
  by (auto simp: wp_def p_zoom_def fun_eq_iff split: prod.splits sum.splits)

lemma wp_if [wp_simps]: "wp (if b then m else n) Q E = (if b then wp m Q E else wp n Q E)"
  by simp

lemma wp_case_option [wp_simps]:
  "wp (case x of None \<Rightarrow> m | Some a \<Rightarrow> f a) Q E = (case x of None \<Rightarrow> wp m Q E | Some a \<Rightarrow> wp (f a) Q E)"
  by (cases x) auto

lemma wp_mono:
  assumes "wp m Q E w" "\<And>a w'. Q a w' \<Longrightarrow> Q' a w'" "\<And>e w'. E e w' \<Longrightarrow> E' e w'"
  shows "wp m Q' E' w"
  using assms by (auto simp: wp_def split: prod.splits sum.splits)

lemma wp_conj: "wp m Q E w \<Longrightarrow> wp m Q' E' w \<Longrightarrow> wp m (\<lambda>a w. Q a w \<and> Q' a w) (\<lambda>e w. E e w \<and> E' e w) w"
  by (auto simp: wp_def split: prod.splits sum.splits)

lemma wpD_Inr: "wp m Q E w \<Longrightarrow> m w = (Inr a, w') \<Longrightarrow> Q a w'"
  by (simp add: wp_def)

lemma wpD_Inl: "wp m Q E w \<Longrightarrow> m w = (Inl e, w') \<Longrightarrow> E e w'"
  by (simp add: wp_def)

lemma wp_snd: "wp m (\<lambda>_. I) (\<lambda>_. I) w \<Longrightarrow> I (snd (m w))"
  by (auto simp: wp_def split: prod.splits sum.splits)

lemma wpI: "(\<And>a w'. m w = (Inr a, w') \<Longrightarrow> Q a w') \<Longrightarrow> (\<And>e w'. m w = (Inl e, w') \<Longrightarrow> E e w') \<Longrightarrow> wp m Q E w"
  by (auto simp: wp_def split: prod.splits sum.splits)

lemma p_bind_cong:
  "(\<And>a w'. m w = (Inr a, w') \<Longrightarrow> f a w' = f' a w') \<Longrightarrow> p_bind m f w = p_bind m f' w"
  by (auto simp: p_bind_def split: prod.splits sum.splits)

text \<open>An invariant of every step is one of a loop over a list.\<close>

lemma wp_each:
  assumes "\<And>x w. I w \<Longrightarrow> wp (f x) (\<lambda>_. I) (\<lambda>_. I) w" "I w"
  shows "wp (p_each f xs) (\<lambda>_. I) (\<lambda>_. I) w"
  using assms(2)
proof (induction xs arbitrary: w)
  case (Cons x xs)
  show ?case unfolding p_each.simps wp_bind
    by (rule wp_mono[OF assms(1)[OF Cons.prems]]) (use Cons.IH in auto)
qed (simp add: wp_return)

end
