(* ===== verification/Eth_Claim.thy ===== *)
theory Eth_Claim
  imports Effects
begin

text \<open>
  \<^verbatim>\<open>src/src/eth/EthClaim.ts\<close>: the life of a claim transaction as a tagged union, its
  JSON form as the database stores it, and the validator \<^verbatim>\<open>isClaimData\<close> every reader of a
  stored claim goes through.
\<close>

datatype claim_tx_status = QUEUE | PREPARED | PENDING | CONFIRMED | REVERTED | FAILED

fun claim_status_text :: "claim_tx_status \<Rightarrow> string" where
  "claim_status_text QUEUE = ''queue''"
| "claim_status_text PREPARED = ''prepared''"
| "claim_status_text PENDING = ''pending''"
| "claim_status_text CONFIRMED = ''confirmed''"
| "claim_status_text REVERTED = ''reverted''"
| "claim_status_text FAILED = ''failed''"

record signed_tx =
  st_txHash :: string
  st_txHex :: string
  st_txNonce :: int

datatype claim_phase =
    Queued
  | Prepared signed_tx
  | Pending signed_tx
  | Confirmed signed_tx int string
  | Reverted signed_tx int string string
  | Failed string

record eth_claim =
  ec_claimIdx :: int
  ec_claimTime :: int
  ec_phase :: claim_phase

record claim_info =
  ci_session :: string
  ci_target :: string
  ci_amount :: string
  ci_claim :: eth_claim

fun phase_status :: "claim_phase \<Rightarrow> claim_tx_status" where
  "phase_status Queued = QUEUE"
| "phase_status (Prepared _) = PREPARED"
| "phase_status (Pending _) = PENDING"
| "phase_status (Confirmed _ _ _) = CONFIRMED"
| "phase_status (Reverted _ _ _ _) = REVERTED"
| "phase_status (Failed _) = FAILED"

abbreviation claim_status :: "eth_claim \<Rightarrow> claim_tx_status" where
  "claim_status c \<equiv> phase_status (ec_phase c)"

fun phase_signed :: "claim_phase \<Rightarrow> signed_tx option" where
  "phase_signed Queued = None"
| "phase_signed (Prepared t) = Some t"
| "phase_signed (Pending t) = Some t"
| "phase_signed (Confirmed t _ _) = Some t"
| "phase_signed (Reverted t _ _ _) = Some t"
| "phase_signed (Failed _) = None"

definition isActiveSignedClaimData :: "eth_claim \<Rightarrow> bool" where
  "isActiveSignedClaimData c \<longleftrightarrow> claim_status c = PREPARED \<or> claim_status c = PENDING"

subsection \<open>Validation\<close>

definition lower_char :: "char \<Rightarrow> char" where
  "lower_char c = (let n = of_char c :: nat in if 65 \<le> n \<and> n \<le> 90 then char_of (n + 32) else c)"

text \<open>\<^verbatim>\<open>toLowerCase\<close> on the ASCII texts it is used for.\<close>

definition toLowerCase :: "string \<Rightarrow> string" where
  "toLowerCase s = map lower_char s"

definition is_hex :: "char \<Rightarrow> bool" where
  "is_hex c \<longleftrightarrow> is_digit c \<or> (let n = of_char c :: nat in (97 \<le> n \<and> n \<le> 102) \<or> (65 \<le> n \<and> n \<le> 70))"

text \<open>The case-insensitive patterns \<^verbatim>\<open>^0x[0-9a-f]{64}$\<close> and \<^verbatim>\<open>^0x(?:[0-9a-f]{2})+$\<close>.\<close>

definition hex_prefixed :: "string \<Rightarrow> bool" where
  "hex_prefixed s \<longleftrightarrow> length s \<ge> 2 \<and> s ! 0 = CHR ''0'' \<and> (s ! 1 = CHR ''x'' \<or> s ! 1 = CHR ''X'') \<and>
     (\<forall>c \<in> set (drop 2 s). is_hex c)"

definition is_tx_hash :: "string \<Rightarrow> bool" where
  "is_tx_hash s \<longleftrightarrow> hex_prefixed s \<and> length s = 66"

definition is_tx_hex :: "string \<Rightarrow> bool" where
  "is_tx_hex s \<longleftrightarrow> hex_prefixed s \<and> length s > 2 \<and> even (length s)"

fun isNonNegativeSafeInteger :: "js_value \<Rightarrow> bool" where
  "isNonNegativeSafeInteger (JNum n) = (case safe_integer n of None \<Rightarrow> False | Some i \<Rightarrow> i \<ge> 0)"
| "isNonNegativeSafeInteger _ = False"

fun isPositiveSafeInteger :: "js_value \<Rightarrow> bool" where
  "isPositiveSafeInteger (JNum n) = (case safe_integer n of None \<Rightarrow> False | Some i \<Rightarrow> i > 0)"
| "isPositiveSafeInteger _ = False"

definition all_digits :: "string \<Rightarrow> bool" where
  "all_digits s \<longleftrightarrow> s \<noteq> [] \<and> (\<forall>c \<in> set s. is_digit c)"

fun isUnsignedDecimal :: "js_value \<Rightarrow> bool" where
  "isUnsignedDecimal (JStr s) = all_digits s"
| "isUnsignedDecimal _ = False"

fun isNonEmptyString :: "js_value \<Rightarrow> bool" where
  "isNonEmptyString (JStr s) = (s \<noteq> [])"
| "isNonEmptyString _ = False"

definition lacksFields :: "js_value \<Rightarrow> string list \<Rightarrow> bool" where
  "lacksFields claim fs \<longleftrightarrow> (\<forall>f \<in> set fs. own_property claim f = JUndefined)"

definition hasSignedTransaction :: "js_value \<Rightarrow> bool" where
  "hasSignedTransaction claim \<longleftrightarrow>
     (case own_property claim ''txHash'' of JStr h \<Rightarrow> is_tx_hash h | _ \<Rightarrow> False) \<and>
     (case own_property claim ''txHex'' of JStr h \<Rightarrow> is_tx_hex h | _ \<Rightarrow> False) \<and>
     isNonNegativeSafeInteger (own_property claim ''txNonce'')"

fun is_object :: "js_value \<Rightarrow> bool" where
  "is_object (JObj _) = True"
| "is_object (JArr _) = True"
| "is_object _ = False"

definition isClaimData :: "js_value \<Rightarrow> bool" where
  "isClaimData v = (let p = own_property v in
     if \<not> is_object v then False
     else if p ''claimFormat'' \<noteq> JNum (Fin 2) \<or> \<not> isNonNegativeSafeInteger (p ''claimTime'')
        \<or> \<not> isPositiveSafeInteger (p ''claimIdx'') then False
     else if p ''claimStatus'' = JStr ''queue'' then
       lacksFields v [''txHash'', ''txHex'', ''txNonce'', ''txBlock'', ''txFee'', ''txError'']
     else if p ''claimStatus'' = JStr ''prepared'' \<or> p ''claimStatus'' = JStr ''pending'' then
       hasSignedTransaction v \<and> lacksFields v [''txBlock'', ''txFee'', ''txError'']
     else if p ''claimStatus'' = JStr ''confirmed'' then
       hasSignedTransaction v \<and> isNonNegativeSafeInteger (p ''txBlock'') \<and> isUnsignedDecimal (p ''txFee'') \<and>
       p ''txError'' = JUndefined
     else if p ''claimStatus'' = JStr ''reverted'' then
       hasSignedTransaction v \<and> isNonNegativeSafeInteger (p ''txBlock'') \<and> isUnsignedDecimal (p ''txFee'') \<and>
       isNonEmptyString (p ''txError'')
     else if p ''claimStatus'' = JStr ''failed'' then
       isNonEmptyString (p ''txError'') \<and> lacksFields v [''txHash'', ''txHex'', ''txNonce'', ''txBlock'', ''txFee'']
     else False)"

subsection \<open>The stored form\<close>

abbreviation json_int :: "int \<Rightarrow> js_value" where
  "json_int i \<equiv> JNum (Fin (of_int i))"

definition signed_json :: "signed_tx \<Rightarrow> (string \<times> js_value) list" where
  "signed_json t = [(''txHash'', JStr (st_txHash t)), (''txHex'', JStr (st_txHex t)),
     (''txNonce'', json_int (st_txNonce t))]"

fun phase_json :: "claim_phase \<Rightarrow> (string \<times> js_value) list" where
  "phase_json Queued = []"
| "phase_json (Prepared t) = signed_json t"
| "phase_json (Pending t) = signed_json t"
| "phase_json (Confirmed t b f) = signed_json t @ [(''txBlock'', json_int b), (''txFee'', JStr f)]"
| "phase_json (Reverted t b f e) = signed_json t @ [(''txBlock'', json_int b), (''txFee'', JStr f), (''txError'', JStr e)]"
| "phase_json (Failed e) = [(''txError'', JStr e)]"

definition claim_json :: "eth_claim \<Rightarrow> js_value" where
  "claim_json c = JObj ([(''claimFormat'', JNum (Fin 2)), (''claimIdx'', json_int (ec_claimIdx c)),
     (''claimStatus'', JStr (claim_status_text (claim_status c))), (''claimTime'', json_int (ec_claimTime c))]
     @ phase_json (ec_phase c))"

fun get_str :: "js_value \<Rightarrow> string" where
  "get_str (JStr s) = s"
| "get_str _ = []"

fun get_int :: "js_value \<Rightarrow> int" where
  "get_int (JNum (Fin q)) = \<lfloor>q\<rfloor>"
| "get_int _ = 0"

text \<open>What the code sees after the check \<^verbatim>\<open>isClaimData\<close>: the typed claim, or nothing.\<close>

definition claim_of_json :: "js_value \<Rightarrow> eth_claim option" where
  "claim_of_json v = (if \<not> isClaimData v then None else
     let p = own_property v;
         t = \<lparr>st_txHash = get_str (p ''txHash''), st_txHex = get_str (p ''txHex''), st_txNonce = get_int (p ''txNonce'')\<rparr>;
         s = get_str (p ''claimStatus'') in
     Some \<lparr>ec_claimIdx = get_int (p ''claimIdx''), ec_claimTime = get_int (p ''claimTime''),
       ec_phase =
        (if s = ''queue'' then Queued
         else if s = ''prepared'' then Prepared t
         else if s = ''pending'' then Pending t
         else if s = ''confirmed'' then Confirmed t (get_int (p ''txBlock'')) (get_str (p ''txFee''))
         else if s = ''reverted'' then
           Reverted t (get_int (p ''txBlock'')) (get_str (p ''txFee'')) (get_str (p ''txError''))
         else Failed (get_str (p ''txError'')))\<rparr>)"

definition nonneg_safe :: "int \<Rightarrow> bool" where
  "nonneg_safe i \<longleftrightarrow> 0 \<le> i \<and> i \<le> max_safe_integer"

definition signed_ok :: "signed_tx \<Rightarrow> bool" where
  "signed_ok t \<longleftrightarrow> is_tx_hash (st_txHash t) \<and> is_tx_hex (st_txHex t) \<and> nonneg_safe (st_txNonce t)"

fun phase_ok :: "claim_phase \<Rightarrow> bool" where
  "phase_ok Queued = True"
| "phase_ok (Prepared t) = signed_ok t"
| "phase_ok (Pending t) = signed_ok t"
| "phase_ok (Confirmed t b f) = (signed_ok t \<and> nonneg_safe b \<and> all_digits f)"
| "phase_ok (Reverted t b f e) = (signed_ok t \<and> nonneg_safe b \<and> all_digits f \<and> e \<noteq> [])"
| "phase_ok (Failed e) = (e \<noteq> [])"

definition claim_ok :: "eth_claim \<Rightarrow> bool" where
  "claim_ok c \<longleftrightarrow> nonneg_safe (ec_claimTime c) \<and> nonneg_safe (ec_claimIdx c) \<and> ec_claimIdx c > 0 \<and> phase_ok (ec_phase c)"

lemma safe_integer_int [simp]:
  "safe_integer (Fin (of_int i)) = (if is_safe_integer i then Some i else None)"
  by simp

lemma nonneg_safe_json [simp]: "isNonNegativeSafeInteger (json_int i) \<longleftrightarrow> nonneg_safe i"
  by (auto simp: nonneg_safe_def is_safe_integer_def simp del: safe_integer.simps)

lemma positive_safe_json [simp]: "isPositiveSafeInteger (json_int i) \<longleftrightarrow> nonneg_safe i \<and> i > 0"
  by (auto simp: nonneg_safe_def is_safe_integer_def simp del: safe_integer.simps)

declare safe_integer.simps [simp del] isNonNegativeSafeInteger.simps(1) [simp del]
  isPositiveSafeInteger.simps(1) [simp del]

lemma claim_json_valid: "isClaimData (claim_json c) \<longleftrightarrow> claim_ok c"
  unfolding isClaimData_def claim_json_def Let_def claim_ok_def
  by (cases "ec_phase c")
    (auto simp: lacksFields_def hasSignedTransaction_def signed_json_def signed_ok_def)

lemma claim_of_claim_json: "claim_ok c \<Longrightarrow> claim_of_json (claim_json c) = Some c"
proof -
  assume ok: "claim_ok c"
  hence "isClaimData (claim_json c)" by (simp add: claim_json_valid)
  thus ?thesis
    unfolding claim_of_json_def Let_def
    by (cases c; cases "ec_phase c") (auto simp: claim_json_def signed_json_def)
qed

lemma claim_json_inj: "claim_ok c \<Longrightarrow> claim_ok d \<Longrightarrow> claim_json c = claim_json d \<Longrightarrow> c = d"
  by (metis claim_of_claim_json option.inject)

lemma claim_of_json_valid: "claim_of_json v \<noteq> None \<longleftrightarrow> isClaimData v"
  by (simp add: claim_of_json_def Let_def)

text \<open>C25. A stored claim reads back as the claim that was written: exactly the claims with a
  positive index, a non-negative time and well-formed transaction fields for their status
  pass \<^verbatim>\<open>isClaimData\<close> on their stored form, and then every field is recovered.\<close>

theorem claim_roundtrip:
  "claim_of_json (claim_json c) = (if claim_ok c then Some c else None)"
proof (cases "claim_ok c")
  case True
  thus ?thesis by (simp add: claim_of_claim_json)
next
  case False
  thus ?thesis by (simp add: claim_of_json_def claim_json_valid)
qed

end
