(* ===== verification/Faucet_Database.thy ===== *)
theory Faucet_Database
  imports Eth_Claim
begin

text \<open>
  \<^verbatim>\<open>src/src/db/FaucetDatabase.ts\<close>: the sessions table and the key-value table, with one
  definition per statement the class sends to its driver (the SQLite text).  The driver is
  external: each call takes the next entry of a list of faults and either succeeds, or is
  applied and reported as failed (\<^verbatim>\<open>FLost\<close>), or fails without effect (\<^verbatim>\<open>FFail\<close>).
  Everything is proved for every list of faults.
\<close>

subsection \<open>State\<close>

datatype session_status =
    UNKNOWN | STARTING | RUNNING | COMMITTING | CLAIMABLE | CLAIMING | FINISHED | FAILED_SESSION

text \<open>A text column: the JSON text of a value, or a text that is no JSON.\<close>

datatype json_text = JsonText js_value | NotJson string

record session_row =
  sr_sessionId :: string
  sr_status :: session_status
  sr_startTime :: int
  sr_targetAddr :: string
  sr_dropAmount :: string
  sr_remoteIP :: string
  sr_tasks :: json_text
  sr_data :: json_text
  sr_claim :: "json_text option"

record store_data =
  sd_sessionId :: string
  sd_status :: session_status
  sd_startTime :: int
  sd_targetAddr :: string
  sd_dropAmount :: string
  sd_remoteIP :: string
  sd_tasks :: js_value
  sd_data :: js_value
  sd_claim :: js_value

datatype db_fault = FOk | FLost | FFail

datatype db_error = DriverError | UniqueViolation | DbError string

record faucet_db =
  db_sessions :: "session_row list"
  db_kv :: "(string, json_text) jsmap"
  db_faults :: "db_fault list"

type_synonym 'a db_op = "(faucet_db, db_error, 'a) proc"

subsection \<open>The driver\<close>

definition next_fault :: "faucet_db \<Rightarrow> db_fault \<times> faucet_db" where
  "next_fault db = (case db_faults db of [] \<Rightarrow> (FOk, db) | f # fs \<Rightarrow> (f, db\<lparr>db_faults := fs\<rparr>))"

definition db_read :: "(faucet_db \<Rightarrow> 'a) \<Rightarrow> 'a db_op" where
  "db_read q db = (case next_fault db of
      (FOk, db') \<Rightarrow> (Inr (q db'), db') | (_, db') \<Rightarrow> (Inl DriverError, db'))"

text \<open>A write gives its result and the new tables, or a constraint error.\<close>

definition db_write :: "(faucet_db \<Rightarrow> db_error + ('a \<times> faucet_db)) \<Rightarrow> 'a db_op" where
  "db_write q db = (case next_fault db of
      (FFail, db') \<Rightarrow> (Inl DriverError, db')
    | (f, db') \<Rightarrow> (case q db' of
         Inl e \<Rightarrow> (Inl e, db')
       | Inr (a, db'') \<Rightarrow> (if f = FOk then (Inr a, db'') else (Inl DriverError, db''))))"

definition update_where ::
  "(session_row \<Rightarrow> bool) \<Rightarrow> (session_row \<Rightarrow> session_row) \<Rightarrow> faucet_db \<Rightarrow> db_error + (nat \<times> faucet_db)" where
  "update_where p f db = Inr (length (filter p (db_sessions db)),
     db\<lparr>db_sessions := map (\<lambda>r. if p r then f r else r) (db_sessions db)\<rparr>)"

definition delete_where :: "(session_row \<Rightarrow> bool) \<Rightarrow> faucet_db \<Rightarrow> db_error + (nat \<times> faucet_db)" where
  "delete_where p db = Inr (length (filter p (db_sessions db)),
     db\<lparr>db_sessions := filter (\<lambda>r. \<not> p r) (db_sessions db)\<rparr>)"

definition insert_row :: "session_row \<Rightarrow> faucet_db \<Rightarrow> db_error + (unit \<times> faucet_db)" where
  "insert_row r db = (if \<exists>r' \<in> set (db_sessions db). sr_sessionId r' = sr_sessionId r then Inl UniqueViolation
     else Inr ((), db\<lparr>db_sessions := db_sessions db @ [r]\<rparr>))"

subsection \<open>Key-value entries\<close>

definition getKeyValueEntry :: "string \<Rightarrow> json_text option db_op" where
  "getKeyValueEntry key = db_read (\<lambda>db. js_get (db_kv db) key)"

definition setKeyValueEntry :: "string \<Rightarrow> json_text \<Rightarrow> unit db_op" where
  "setKeyValueEntry key value = db_write (\<lambda>db. Inr ((), db\<lparr>db_kv := js_set key value (db_kv db)\<rparr>))"

definition compareAndSetKeyValueEntry :: "string \<Rightarrow> json_text \<Rightarrow> json_text \<Rightarrow> bool db_op" where
  "compareAndSetKeyValueEntry key expected value = db_write (\<lambda>db.
     if js_get (db_kv db) key = Some expected
     then Inr (True, db\<lparr>db_kv := js_set key value (db_kv db)\<rparr>) else Inr (False, db))"

definition deleteKeyValueEntry :: "string \<Rightarrow> unit db_op" where
  "deleteKeyValueEntry key = db_write (\<lambda>db. Inr ((), db\<lparr>db_kv := js_delete key (db_kv db)\<rparr>))"

subsection \<open>Reading sessions\<close>

text \<open>\<^verbatim>\<open>JSON.parse\<close> of a column; \<^verbatim>\<open>row.ClaimData ? JSON.parse(row.ClaimData) : null\<close>.\<close>

fun parse_text :: "json_text \<Rightarrow> db_error + js_value" where
  "parse_text (JsonText v) = Inr v"
| "parse_text (NotJson _) = Inl (DbError ''SyntaxError'')"

definition parse_claim :: "json_text option \<Rightarrow> db_error + js_value" where
  "parse_claim c = (case c of None \<Rightarrow> Inr JNull | Some (NotJson []) \<Rightarrow> Inr JNull | Some t \<Rightarrow> parse_text t)"

definition store_data_of :: "session_row \<Rightarrow> db_error + store_data" where
  "store_data_of r = try_bind (parse_text (sr_tasks r)) (\<lambda>tasks.
     try_bind (parse_text (sr_data r)) (\<lambda>data.
     try_bind (parse_claim (sr_claim r)) (\<lambda>claim.
       Inr \<lparr>sd_sessionId = sr_sessionId r, sd_status = sr_status r, sd_startTime = sr_startTime r,
            sd_targetAddr = sr_targetAddr r, sd_dropAmount = sr_dropAmount r, sd_remoteIP = sr_remoteIP r,
            sd_tasks = tasks, sd_data = data, sd_claim = claim\<rparr>)))"

definition select_row :: "bool \<Rightarrow> session_row \<Rightarrow> db_error + store_data" where
  "select_row skipData r = (if \<not> skipData then store_data_of r
     else try_bind (parse_text (sr_tasks r)) (\<lambda>tasks.
       Inr \<lparr>sd_sessionId = sr_sessionId r, sd_status = sr_status r, sd_startTime = sr_startTime r,
            sd_targetAddr = sr_targetAddr r, sd_dropAmount = sr_dropAmount r, sd_remoteIP = sr_remoteIP r,
            sd_tasks = tasks, sd_data = JUndefined, sd_claim = JUndefined\<rparr>))"

fun collect_rows :: "bool \<Rightarrow> session_row list \<Rightarrow> db_error + store_data list" where
  "collect_rows skipData [] = Inr []"
| "collect_rows skipData (r # rs) =
     try_bind (select_row skipData r) (\<lambda>d. try_bind (collect_rows skipData rs) (\<lambda>ds. Inr (d # ds)))"

definition selectSessions :: "bool \<Rightarrow> (session_row \<Rightarrow> bool) \<Rightarrow> store_data list db_op" where
  "selectSessions skipData p =
     p_bind (db_read (\<lambda>db. filter p (db_sessions db))) (\<lambda>rows. p_lift (collect_rows skipData rows))"

definition getSessions :: "session_status list \<Rightarrow> store_data list db_op" where
  "getSessions states = selectSessions False (\<lambda>r. sr_status r \<in> set states)"

definition getAllSessions :: "int \<Rightarrow> int \<Rightarrow> store_data list db_op" where
  "getAllSessions now timeLimit = selectSessions False (\<lambda>r.
     sr_status r \<notin> {FINISHED, FAILED_SESSION} \<or> sr_startTime r > now - timeLimit)"

definition getTimedOutSessions :: "int \<Rightarrow> int \<Rightarrow> store_data list db_op" where
  "getTimedOutSessions now timeout = selectSessions False (\<lambda>r.
     sr_status r \<notin> {CLAIMING, FINISHED, FAILED_SESSION} \<and> sr_startTime r \<le> now - timeout)"

text \<open>SQL \<^verbatim>\<open>LIKE\<close>: \<^verbatim>\<open>%\<close> for any text, \<^verbatim>\<open>_\<close> for one character, letters compared without case.\<close>

fun sql_like :: "string \<Rightarrow> string \<Rightarrow> bool" where
  "sql_like [] s = (s = [])"
| "sql_like (p # ps) s =
     (if p = CHR ''%'' then (\<exists>n \<le> length s. sql_like ps (drop n s))
      else case s of [] \<Rightarrow> False
        | c # cs \<Rightarrow> (p = CHR ''_'' \<or> lower_char p = lower_char c) \<and> sql_like ps cs)"

definition getFinishedSessions ::
  "int \<Rightarrow> string option \<Rightarrow> string option \<Rightarrow> int \<Rightarrow> bool \<Rightarrow> store_data list db_op" where
  "getFinishedSessions now targetAddr remoteIP timeout skipData =
     (let addr = (case targetAddr of Some a \<Rightarrow> a \<noteq> [] | None \<Rightarrow> False);
          ip = (case remoteIP of Some i \<Rightarrow> i \<noteq> [] | None \<Rightarrow> False) in
      if \<not> addr \<and> \<not> ip then p_throw (DbError ''invalid query'')
      else selectSessions skipData (\<lambda>r.
        ((addr \<and> toLowerCase (sr_targetAddr r) = toLowerCase (the targetAddr)) \<or>
         (ip \<and> sql_like (the remoteIP) (sr_remoteIP r))) \<and>
        sr_startTime r > now - timeout \<and> sr_status r \<in> {CLAIMABLE, CLAIMING, FINISHED}))"

definition getSession :: "string \<Rightarrow> store_data option db_op" where
  "getSession sessionId = p_bind (db_read (\<lambda>db. find (\<lambda>r. sr_sessionId r = sessionId) (db_sessions db)))
     (\<lambda>row. case row of None \<Rightarrow> p_return None
       | Some r \<Rightarrow> p_lift (try_bind (store_data_of r) (\<lambda>d. Inr (Some d))))"

subsection \<open>Writing sessions\<close>

definition claim_text :: "js_value \<Rightarrow> json_text option" where
  "claim_text v = (if is_object v then Some (JsonText v) else None)"

definition set_columns :: "store_data \<Rightarrow> session_row \<Rightarrow> session_row" where
  "set_columns d r = r\<lparr>sr_dropAmount := sd_dropAmount d, sr_remoteIP := sd_remoteIP d,
     sr_tasks := JsonText (sd_tasks d), sr_data := JsonText (sd_data d)\<rparr>"

definition insertRunningSession :: "store_data \<Rightarrow> unit db_op" where
  "insertRunningSession d =
     (if sd_status d \<noteq> RUNNING \<or> sd_claim d \<noteq> JNull
      then p_throw (DbError ''Only an unclaimed running session can be inserted.'')
      else db_write (insert_row \<lparr>sr_sessionId = sd_sessionId d, sr_status = RUNNING, sr_startTime = sd_startTime d,
        sr_targetAddr = sd_targetAddr d, sr_dropAmount = sd_dropAmount d, sr_remoteIP = sd_remoteIP d,
        sr_tasks = JsonText (sd_tasks d), sr_data = JsonText (sd_data d), sr_claim = None\<rparr>))"

definition is_unclaimed :: "string \<Rightarrow> session_status \<Rightarrow> session_row \<Rightarrow> bool" where
  "is_unclaimed sid status r \<longleftrightarrow> sr_sessionId r = sid \<and> sr_status r = status \<and> sr_claim r = None"

definition updateRunningSession :: "store_data \<Rightarrow> bool db_op" where
  "updateRunningSession d =
     (if sd_status d \<noteq> RUNNING \<or> sd_claim d \<noteq> JNull
      then p_throw (DbError ''Only an unclaimed running session can be updated.'')
      else p_bind (db_write (update_where (is_unclaimed (sd_sessionId d) RUNNING) (set_columns d))) (\<lambda>changes.
        if changes = 1 then p_return True
        else p_bind (db_read (\<lambda>db. find (is_unclaimed (sd_sessionId d) RUNNING) (db_sessions db))) (\<lambda>current.
          p_return (current \<noteq> None))))"

definition transitionSession :: "store_data \<Rightarrow> session_status \<Rightarrow> bool db_op" where
  "transitionSession d expectedStatus =
     (if (sd_status d \<noteq> CLAIMABLE \<and> sd_status d \<noteq> FAILED_SESSION) \<or> sd_claim d \<noteq> JNull
      then p_throw (DbError ''Invalid unclaimed session transition.'')
      else p_bind (db_write (update_where (is_unclaimed (sd_sessionId d) expectedStatus)
             (\<lambda>r. (set_columns d r)\<lparr>sr_status := sd_status d\<rparr>))) (\<lambda>changes. p_return (changes = 1)))"

text \<open>\<^verbatim>\<open>{...data, "failed.code": ..., "failed.reason": ...}\<close>\<close>

fun with_fields :: "js_value \<Rightarrow> (string \<times> js_value) list \<Rightarrow> js_value" where
  "with_fields (JObj o') fs = JObj (fold (\<lambda>(k, v). js_set k v) fs o')"
| "with_fields _ fs = JObj (fold (\<lambda>(k, v). js_set k v) fs [])"

definition tryTimeoutSession :: "int \<Rightarrow> store_data \<Rightarrow> int \<Rightarrow> bool db_op" where
  "tryTimeoutSession now d timeout =
     p_bind (db_write (update_where
        (\<lambda>r. sr_sessionId r = sd_sessionId d \<and> sr_status r = sd_status d \<and> sr_startTime r = sd_startTime d
           \<and> sr_startTime r \<le> now - timeout \<and> sr_claim r = None \<and> sr_data r = JsonText (sd_data d))
        (\<lambda>r. r\<lparr>sr_status := FAILED_SESSION, sr_data := JsonText (with_fields (sd_data d)
            [(''failed.code'', JStr ''SESSION_TIMEOUT''), (''failed.reason'', JStr ''Session timed out'')])\<rparr>)))
      (\<lambda>changes. p_return (changes = 1))"

definition updateExisting :: "store_data \<Rightarrow> bool db_op" where
  "updateExisting d =
     (let p = (\<lambda>r. sr_sessionId r = sd_sessionId d \<and> sr_status r = sd_status d \<and> sr_claim r = claim_text (sd_claim d)) in
      p_bind (db_write (update_where p (\<lambda>r. (set_columns d r)\<lparr>sr_startTime := sd_startTime d, sr_targetAddr := sd_targetAddr d\<rparr>)))
       (\<lambda>changes. if changes = 1 then p_return True
         else p_bind (db_read (\<lambda>db. find p (db_sessions db))) (\<lambda>current. p_return (current \<noteq> None))))"

definition session_exists :: "string \<Rightarrow> bool db_op" where
  "session_exists sid = db_read (\<lambda>db. find (\<lambda>r. sr_sessionId r = sid) (db_sessions db) \<noteq> None)"

definition updateSession :: "store_data \<Rightarrow> bool db_op" where
  "updateSession d =
     p_bind (updateExisting d) (\<lambda>ok. if ok then p_return True
       else p_bind (session_exists (sd_sessionId d)) (\<lambda>ex. if ex then p_return False
         else p_catch
           (p_then (db_write (insert_row \<lparr>sr_sessionId = sd_sessionId d, sr_status = sd_status d,
               sr_startTime = sd_startTime d, sr_targetAddr = sd_targetAddr d, sr_dropAmount = sd_dropAmount d,
               sr_remoteIP = sd_remoteIP d, sr_tasks = JsonText (sd_tasks d), sr_data = JsonText (sd_data d),
               sr_claim = claim_text (sd_claim d)\<rparr>)) (p_return True))
           (\<lambda>e. p_bind (updateExisting d) (\<lambda>ok. if ok then p_return True
              else p_bind (session_exists (sd_sessionId d)) (\<lambda>ex. if ex then p_return False else p_throw e)))))"

subsection \<open>Claims\<close>

definition tryCreateClaim :: "string \<Rightarrow> string \<Rightarrow> eth_claim \<Rightarrow> bool db_op" where
  "tryCreateClaim sid amount claim =
     p_bind (db_write (update_where (is_unclaimed sid CLAIMABLE)
        (\<lambda>r. r\<lparr>sr_status := CLAIMING, sr_dropAmount := amount, sr_claim := Some (JsonText (claim_json claim))\<rparr>)))
      (\<lambda>changes. p_return (changes = 1))"

fun status_for_claim :: "claim_tx_status \<Rightarrow> session_status" where
  "status_for_claim CONFIRMED = CLAIMING"
| "status_for_claim REVERTED = FAILED_SESSION"
| "status_for_claim FAILED = FAILED_SESSION"
| "status_for_claim _ = CLAIMING"

definition claiming_with :: "string \<Rightarrow> eth_claim \<Rightarrow> session_row \<Rightarrow> bool" where
  "claiming_with sid claim r \<longleftrightarrow> sr_status r = CLAIMING \<and> sr_sessionId r = sid
     \<and> sr_claim r = Some (JsonText (claim_json claim))"

definition compareAndSetClaim :: "string \<Rightarrow> eth_claim \<Rightarrow> eth_claim \<Rightarrow> bool db_op" where
  "compareAndSetClaim sid expected claim =
     p_bind (db_write (update_where (claiming_with sid expected)
        (\<lambda>r. r\<lparr>sr_status := status_for_claim (claim_status claim), sr_claim := Some (JsonText (claim_json claim))\<rparr>)))
      (\<lambda>changes. p_return (changes = 1))"

definition finalizeConfirmedClaim :: "string \<Rightarrow> eth_claim \<Rightarrow> bool db_op" where
  "finalizeConfirmedClaim sid claim =
     (if claim_status claim \<noteq> CONFIRMED then p_throw (DbError ''Only a confirmed claim can be finalized.'')
      else p_bind (db_write (update_where (claiming_with sid claim) (\<lambda>r. r\<lparr>sr_status := FINISHED\<rparr>)))
        (\<lambda>changes. p_return (changes = 1)))"

subsection \<open>Cleanup\<close>

record cleanup_candidate =
  cd_sessionId :: string
  cd_status :: session_status
  cd_startTime :: int
  cd_targetAddr :: string
  cd_dataJson :: json_text
  cd_claimDataJson :: "json_text option"
  cd_claim :: "eth_claim option"

type_synonym cleanup_guard = "cleanup_candidate \<Rightarrow> bool db_op"

definition hasUnresolvedClaimLiability :: "session_status \<Rightarrow> json_text option \<Rightarrow> bool" where
  "hasUnresolvedClaimLiability status claimJson = (case claimJson of
      None \<Rightarrow> False
    | Some (NotJson _) \<Rightarrow> True
    | Some (JsonText v) \<Rightarrow> (case claim_of_json v of
          None \<Rightarrow> True
        | Some c \<Rightarrow> (case claim_status c of
              CONFIRMED \<Rightarrow> status \<noteq> FINISHED
            | REVERTED \<Rightarrow> status \<noteq> FAILED_SESSION
            | FAILED \<Rightarrow> status \<noteq> FAILED_SESSION
            | _ \<Rightarrow> True)))"

text \<open>\<^verbatim>\<open>passesSessionCleanupGuards\<close>: every default guard, in the version registered at run
  time when there is one, then the other registered guards.\<close>

fun run_guards :: "cleanup_guard list \<Rightarrow> cleanup_guard" where
  "run_guards [] candidate = p_return True"
| "run_guards (g # gs) candidate = p_bind (g candidate) (\<lambda>ok. if ok then run_guards gs candidate else p_return False)"

definition passesSessionCleanupGuards ::
  "(string, cleanup_guard) jsmap \<Rightarrow> (string, cleanup_guard) jsmap \<Rightarrow> cleanup_guard" where
  "passesSessionCleanupGuards defaults runtime =
     run_guards (map (\<lambda>(owner, d). case js_get runtime owner of Some g \<Rightarrow> g | None \<Rightarrow> d) defaults
       @ map snd (filter (\<lambda>(owner, _). \<not> js_has defaults owner) runtime))"

definition exact_row :: "cleanup_candidate \<Rightarrow> session_row \<Rightarrow> bool" where
  "exact_row c r \<longleftrightarrow> sr_sessionId r = cd_sessionId c \<and> sr_status r = cd_status c \<and> sr_startTime r = cd_startTime c
     \<and> sr_targetAddr r = cd_targetAddr c \<and> sr_data r = cd_dataJson c \<and> sr_claim r = cd_claimDataJson c"

definition delete_candidate :: "cleanup_candidate \<Rightarrow> bool db_op" where
  "delete_candidate c =
     p_bind (p_catch (p_bind (db_write (delete_where (exact_row c))) (\<lambda>n. p_return (Inr n))) (\<lambda>e. p_return (Inl e)))
      (\<lambda>outcome.
        if (case outcome of Inr n \<Rightarrow> n > 1 | Inl _ \<Rightarrow> False)
        then p_throw (DbError (''Session cleanup deleted more than one row for '' @ cd_sessionId c))
        else if outcome = Inr 1 then p_return True
        else p_bind (p_catch (session_exists (cd_sessionId c)) (\<lambda>e. case outcome of
                Inl _ \<Rightarrow> p_throw (DbError ''Session cleanup failed and persisted state could not be reconciled.'')
              | Inr _ \<Rightarrow> p_throw e))
          (\<lambda>remaining. if \<not> remaining then p_return True
             else case outcome of Inl e \<Rightarrow> p_throw e | Inr _ \<Rightarrow> p_return False))"

definition cleanupSessionCandidate :: "cleanup_guard \<Rightarrow> cleanup_candidate \<Rightarrow> bool db_op" where
  "cleanupSessionCandidate guards c =
     (if cd_status c \<noteq> FINISHED \<and> cd_status c \<noteq> FAILED_SESSION then p_return False
      else if cd_sessionId c = [] \<or> \<not> is_safe_integer (cd_startTime c)
         \<or> hasUnresolvedClaimLiability (cd_status c) (cd_claimDataJson c) then p_return False
      else let exact = c\<lparr>cd_claim := (case cd_claimDataJson c of Some (JsonText v) \<Rightarrow> claim_of_json v | _ \<Rightarrow> None)\<rparr> in
        p_bind (guards exact) (\<lambda>ok. if ok then delete_candidate exact else p_return False))"

definition SESSION_CLEANUP_BATCH_SIZE :: nat where "SESSION_CLEANUP_BATCH_SIZE = 100"

definition SESSION_CLEANUP_RUN_LIMIT :: nat where "SESSION_CLEANUP_RUN_LIMIT = 1000"

text \<open>The keyset cursor of the last row that was looked at.\<close>

record cleanup_world =
  cw_db :: faucet_db
  cw_cursor :: "(int \<times> string) option"

abbreviation on_db :: "'a db_op \<Rightarrow> (cleanup_world, db_error, 'a) proc" where
  "on_db m \<equiv> p_zoom cw_db (\<lambda>db w. w\<lparr>cw_db := db\<rparr>) m"

definition in_batch :: "int \<Rightarrow> (int \<times> string) option \<Rightarrow> session_row \<Rightarrow> bool" where
  "in_batch cutoff cursor r \<longleftrightarrow> sr_startTime r < cutoff \<and> sr_status r \<in> {FINISHED, FAILED_SESSION} \<and>
     (case cursor of None \<Rightarrow> True
      | Some (t, sid) \<Rightarrow> sr_startTime r > t \<or> (sr_startTime r = t \<and> sr_sessionId r > sid))"

definition selectSessionCleanupBatch :: "int \<Rightarrow> (int \<times> string) option \<Rightarrow> nat \<Rightarrow> session_row list db_op" where
  "selectSessionCleanupBatch cutoff cursor limit = db_read (\<lambda>db.
     take limit (sort_key (\<lambda>r. (sr_startTime r, sr_sessionId r)) (filter (in_batch cutoff cursor) (db_sessions db))))"

definition candidate_of :: "session_row \<Rightarrow> cleanup_candidate" where
  "candidate_of r = \<lparr>cd_sessionId = sr_sessionId r, cd_status = sr_status r, cd_startTime = sr_startTime r,
     cd_targetAddr = sr_targetAddr r, cd_dataJson = sr_data r, cd_claimDataJson = sr_claim r, cd_claim = None\<rparr>"

definition cleanup_row :: "cleanup_guard \<Rightarrow> session_row \<Rightarrow> (cleanup_world, db_error, unit) proc" where
  "cleanup_row guards r =
     (if \<not> is_safe_integer (sr_startTime r)
      then p_throw (DbError ''Session cleanup encountered an invalid keyset key.'')
      else p_bind (on_db (cleanupSessionCandidate guards (candidate_of r))) (\<lambda>_.
        p_modify (\<lambda>w. w\<lparr>cw_cursor := Some (sr_startTime r, sr_sessionId r)\<rparr>)))"

text \<open>The loop of \<^verbatim>\<open>cleanStoreBounded\<close>; \<^verbatim>\<open>fuel\<close> bounds its iterations.\<close>

fun cleanStoreBounded :: "nat \<Rightarrow> cleanup_guard \<Rightarrow> int \<Rightarrow> nat \<Rightarrow> (cleanup_world, db_error, unit) proc" where
  "cleanStoreBounded 0 guards cutoff processed = p_throw (DbError ''out of fuel'')"
| "cleanStoreBounded (Suc fuel) guards cutoff processed =
     (if processed \<ge> SESSION_CLEANUP_RUN_LIMIT then p_return ()
      else let batchLimit = min SESSION_CLEANUP_BATCH_SIZE (SESSION_CLEANUP_RUN_LIMIT - processed) in
        p_bind (p_get cw_cursor) (\<lambda>batchCursor.
        p_bind (on_db (selectSessionCleanupBatch cutoff batchCursor batchLimit)) (\<lambda>candidates.
          if length candidates > batchLimit
          then p_throw (DbError ''Session cleanup query exceeded its requested batch size.'')
          else if candidates = [] then
            p_then (p_modify (\<lambda>w. w\<lparr>cw_cursor := None\<rparr>))
              (if batchCursor \<noteq> None \<and> processed = 0 then cleanStoreBounded fuel guards cutoff processed
               else p_return ())
          else p_then (p_each (cleanup_row guards) candidates)
            (if length candidates < batchLimit then p_modify (\<lambda>w. w\<lparr>cw_cursor := None\<rparr>)
             else cleanStoreBounded fuel guards cutoff (processed + length candidates)))))"

subsection \<open>The claimable amount\<close>

text \<open>The rows the aggregate query returns: one row per decimal position with the sum of
  the digits there, or one row of position 0 that reports an invalid amount, an amount of
  more than 50 digits, or that there is nothing to sum.\<close>

record digit_sum_row =
  ds_position :: nat
  ds_sum :: string
  ds_invalid :: bool
  ds_oversized :: bool

definition digit_at :: "string \<Rightarrow> nat \<Rightarrow> nat" where
  "digit_at s i = (if i < length s then digit_value (rev s ! i) else 0)"

definition digit_sum_rows :: "string list \<Rightarrow> digit_sum_row list" where
  "digit_sum_rows amounts =
     (let invalid = (\<exists>a \<in> set amounts. \<not> all_digits a);
          oversized = (\<exists>a \<in> set amounts. length a > 50);
          maxDigits = fold max (map length amounts) 0 in
      if invalid \<or> oversized \<or> maxDigits = 0
      then [\<lparr>ds_position = 0, ds_sum = dec_nat 0, ds_invalid = invalid, ds_oversized = oversized\<rparr>]
      else map (\<lambda>i. \<lparr>ds_position = Suc i, ds_sum = dec_nat (\<Sum>a \<leftarrow> amounts. digit_at a i),
        ds_invalid = False, ds_oversized = False\<rparr>) [0..<maxDigits])"

fun add_positions :: "digit_sum_row list \<Rightarrow> nat \<Rightarrow> nat \<Rightarrow> nat \<Rightarrow> db_error + nat" where
  "add_positions [] sum_so_far place expected = Inr sum_so_far"
| "add_positions (row # rows) sum_so_far place expected =
     (if ds_oversized row then Inl (DbError ''Claimable DropAmount exceeds the 50-digit storage limit.'')
      else if ds_invalid row then Inl (DbError ''Claimable DropAmount must be a non-empty decimal string.'')
      else if ds_position row = 0 then add_positions rows sum_so_far place expected
      else if ds_position row \<noteq> expected \<or> \<not> all_digits (ds_sum row)
        then Inl (DbError ''Invalid claimable amount aggregate returned by the database.'')
      else add_positions rows (sum_so_far + dec_value (ds_sum row) * place) (place * 10) (expected + 1))"

definition getClaimableAmount :: "nat db_op" where
  "getClaimableAmount =
     p_bind (db_read (\<lambda>db. digit_sum_rows (map sr_dropAmount (filter (\<lambda>r. sr_status r = CLAIMABLE) (db_sessions db)))))
       (\<lambda>rows. p_lift (add_positions rows 0 1 1))"

subsection \<open>Steps of the driver\<close>

lemma next_fault_cases:
  "\<exists>f fs. next_fault db = (f, db\<lparr>db_faults := fs\<rparr>)"
proof (cases "db_faults db")
  case Nil
  hence "next_fault db = (FOk, db\<lparr>db_faults := []\<rparr>)" by (simp add: next_fault_def)
  thus ?thesis by blast
qed (auto simp: next_fault_def)

lemma wp_db_read:
  assumes "\<And>fs. Q (q (db\<lparr>db_faults := fs\<rparr>)) (db\<lparr>db_faults := fs\<rparr>)" "\<And>fs. E DriverError (db\<lparr>db_faults := fs\<rparr>)"
  shows "wp (db_read q) Q E db"
proof -
  obtain f fs where "next_fault db = (f, db\<lparr>db_faults := fs\<rparr>)" using next_fault_cases by blast
  thus ?thesis using assms by (cases f) (auto simp: wp_def db_read_def)
qed

lemma wp_db_write:
  assumes "\<And>fs. case q (db\<lparr>db_faults := fs\<rparr>) of
      Inl e \<Rightarrow> E e (db\<lparr>db_faults := fs\<rparr>) | Inr (a, db') \<Rightarrow> Q a db' \<and> E DriverError db'"
    and "\<And>fs. E DriverError (db\<lparr>db_faults := fs\<rparr>)"
  shows "wp (db_write q) Q E db"
proof -
  obtain f fs where f: "next_fault db = (f, db\<lparr>db_faults := fs\<rparr>)" using next_fault_cases by blast
  have "case q (db\<lparr>db_faults := fs\<rparr>) of
      Inl e \<Rightarrow> E e (db\<lparr>db_faults := fs\<rparr>) | Inr (a, db') \<Rightarrow> Q a db' \<and> E DriverError db'" by (rule assms(1))
  thus ?thesis using f assms(2) by (cases f) (auto simp: wp_def db_write_def split: sum.splits prod.splits)
qed

subsection \<open>The claimable amount is the sum\<close>

lemma dec_value_digits: "dec_value s = (\<Sum>i < length s. digit_at s i * 10 ^ i)"
proof (induction s rule: rev_induct)
  case (snoc c s)
  have "(\<Sum>i < length s. digit_at (s @ [c]) (Suc i) * 10 ^ Suc i) = 10 * (\<Sum>i < length s. digit_at s i * 10 ^ i)"
    unfolding sum_distrib_left by (rule sum.cong) (auto simp: digit_at_def)
  moreover have "digit_at (s @ [c]) 0 = digit_value c" by (simp add: digit_at_def)
  ultimately show ?case
    using snoc by (simp add: dec_value_snoc sum.lessThan_Suc_shift del: sum.lessThan_Suc)
qed (simp add: dec_value_def)

lemma dec_value_digits_upto: "length s \<le> n \<Longrightarrow> dec_value s = (\<Sum>i < n. digit_at s i * 10 ^ i)"
  unfolding dec_value_digits by (rule sum.mono_neutral_left) (auto simp: digit_at_def)

lemma add_positions_upt:
  "add_positions (map (\<lambda>i. \<lparr>ds_position = Suc i, ds_sum = dec_nat (v i), ds_invalid = False, ds_oversized = False\<rparr>) [k..<n])
     acc (10 ^ k) (Suc k) = Inr (acc + (\<Sum>i \<in> {k..<n}. v i * 10 ^ i))"
proof (induction "n - k" arbitrary: k acc)
  case (Suc d)
  have "all_digits (dec_nat (v k))" by (simp add: all_digits_def dec_nat_digits)
  moreover have "[k..<n] = k # [Suc k..<n]" using Suc.hyps(2) by (simp add: upt_conv_Cons)
  moreover have "{k..<n} = insert k {Suc k..<n}" using Suc.hyps(2) by auto
  ultimately show ?case using Suc.hyps(1)[of "Suc k" "acc + v k * 10 ^ k"] Suc.hyps(2)
    by (simp add: mult.commute)
qed simp

lemma fold_max_mono: "m \<le> fold max xs (m :: nat)"
proof (induction xs arbitrary: m)
  case (Cons x xs)
  show ?case using Cons[of "max x m"] by simp
qed simp

lemma fold_max_ge: "x \<in> set xs \<Longrightarrow> x \<le> fold max xs (m :: nat)"
proof (induction xs arbitrary: m)
  case (Cons y ys)
  show ?case using Cons fold_max_mono[of "max y m" ys] by (cases "x = y") auto
qed simp

lemma sum_list_swap: "(\<Sum>a \<leftarrow> xs. \<Sum>i < n. f a i * (c i :: nat)) = (\<Sum>i < n. (\<Sum>a \<leftarrow> xs. f a i) * c i)"
  by (induction xs) (simp_all add: sum.distrib distrib_right)

lemma digit_sums_add_up:
  assumes "\<forall>a \<in> set amounts. all_digits a \<and> length a \<le> 50"
  shows "add_positions (digit_sum_rows amounts) 0 1 1 = Inr (\<Sum>a \<leftarrow> amounts. dec_value a)"
proof -
  let ?n = "fold max (map length amounts) 0"
  have len: "length a \<le> ?n" if "a \<in> set amounts" for a using that by (intro fold_max_ge) auto
  have "(\<Sum>a \<leftarrow> amounts. dec_value a) = (\<Sum>a \<leftarrow> amounts. \<Sum>i < ?n. digit_at a i * 10 ^ i)"
    using dec_value_digits_upto[OF len] by (intro arg_cong[of _ _ sum_list] map_cong) auto
  also have "\<dots> = (\<Sum>i < ?n. (\<Sum>a \<leftarrow> amounts. digit_at a i) * 10 ^ i)" by (rule sum_list_swap)
  finally have total: "(\<Sum>a \<leftarrow> amounts. dec_value a) = (\<Sum>i \<in> {0..<?n}. (\<Sum>a \<leftarrow> amounts. digit_at a i) * 10 ^ i)"
    by (simp add: lessThan_atLeast0)
  have ok: "\<not> (\<exists>a \<in> set amounts. \<not> all_digits a)" "\<not> (\<exists>a \<in> set amounts. length a > 50)"
    using assms by fastforce+
  show ?thesis
  proof (cases "?n = 0")
    case True
    thus ?thesis using ok total by (simp add: digit_sum_rows_def Let_def)
  next
    case False
    thus ?thesis
      using ok add_positions_upt[of "\<lambda>i. \<Sum>a \<leftarrow> amounts. digit_at a i" 0 ?n 0] total
      by (simp add: digit_sum_rows_def Let_def)
  qed
qed

subsection \<open>Status and claim of a session\<close>

fun status_rank :: "session_status \<Rightarrow> nat" where
  "status_rank UNKNOWN = 0"
| "status_rank STARTING = 0"
| "status_rank RUNNING = 1"
| "status_rank COMMITTING = 2"
| "status_rank CLAIMABLE = 3"
| "status_rank CLAIMING = 4"
| "status_rank FINISHED = 5"
| "status_rank FAILED_SESSION = 5"

definition claim_in :: "session_row \<Rightarrow> claim_tx_status set \<Rightarrow> bool" where
  "claim_in r S \<longleftrightarrow> (\<exists>c. claim_ok c \<and> sr_claim r = Some (JsonText (claim_json c)) \<and> claim_status c \<in> S)"

definition row_ok :: "session_row \<Rightarrow> bool" where
  "row_ok r \<longleftrightarrow> (case sr_status r of
      CLAIMING \<Rightarrow> claim_in r {QUEUE, PREPARED, PENDING, CONFIRMED}
    | FINISHED \<Rightarrow> claim_in r {CONFIRMED}
    | FAILED_SESSION \<Rightarrow> sr_claim r = None \<or> claim_in r {REVERTED, FAILED}
    | _ \<Rightarrow> sr_claim r = None)"

definition table_ok :: "faucet_db \<Rightarrow> bool" where
  "table_ok db \<longleftrightarrow> distinct (map sr_sessionId (db_sessions db)) \<and> (\<forall>r \<in> set (db_sessions db). row_ok r)"

text \<open>How a step may change the table: rows keep their place and id, a row's status only
  advances and a final row keeps its status and claim; new rows are appended.\<close>

definition row_step :: "session_row \<Rightarrow> session_row \<Rightarrow> bool" where
  "row_step r r' \<longleftrightarrow> sr_sessionId r' = sr_sessionId r \<and> status_rank (sr_status r) \<le> status_rank (sr_status r') \<and>
     (status_rank (sr_status r) = 5 \<longrightarrow> sr_status r' = sr_status r \<and> sr_claim r' = sr_claim r) \<and>
     (row_ok r \<longrightarrow> row_ok r')"

definition table_step :: "faucet_db \<Rightarrow> faucet_db \<Rightarrow> bool" where
  "table_step db db' \<longleftrightarrow> (\<exists>new. (new = [] \<or> (\<exists>r. new = [r] \<and> row_ok r \<and> sr_sessionId r \<notin> sr_sessionId ` set (db_sessions db)))
     \<and> (\<exists>old. db_sessions db' = old @ new \<and> list_all2 row_step (db_sessions db) old))"

lemma row_step_refl: "row_step r r"
  by (simp add: row_step_def)

lemma table_step_faults [simp]: "table_step (db\<lparr>db_faults := fs\<rparr>) db' \<longleftrightarrow> table_step db db'"
  "table_step db (db'\<lparr>db_faults := fs\<rparr>) \<longleftrightarrow> table_step db db'"
  by (simp_all add: table_step_def)

lemma table_step_cong: "db_sessions db' = db_sessions db'' \<Longrightarrow> table_step db db' \<longleftrightarrow> table_step db db''"
  by (simp add: table_step_def)

lemma table_step_refl: "table_step db db"
  unfolding table_step_def by (intro exI[of _ "[]"]) (simp add: list_all2_refl row_step_refl)

lemma table_step_ok: "table_ok db \<Longrightarrow> table_step db db' \<Longrightarrow> table_ok db'"
proof -
  assume ok: "table_ok db" and st: "table_step db db'"
  then obtain old new where n: "new = [] \<or> (\<exists>r. new = [r] \<and> row_ok r \<and> sr_sessionId r \<notin> sr_sessionId ` set (db_sessions db))"
    and db': "db_sessions db' = old @ new" and l: "list_all2 row_step (db_sessions db) old"
    by (auto simp: table_step_def)
  from l have ids: "map sr_sessionId old = map sr_sessionId (db_sessions db)"
    by (induction rule: list_all2_induct) (auto simp: row_step_def)
  from l ok have "\<forall>r \<in> set old. row_ok r" unfolding table_ok_def
    by (induction rule: list_all2_induct) (auto simp: row_step_def)
  moreover have "sr_sessionId ` set old = sr_sessionId ` set (db_sessions db)"
    using ids by (metis set_map)
  moreover have "distinct (map sr_sessionId old)" using ids ok by (simp add: table_ok_def)
  ultimately show ?thesis using n db' by (auto simp: table_ok_def) (metis image_eqI)
qed

lemma update_where_step:
  assumes "\<And>r. p r \<Longrightarrow> row_step r (f r)"
  shows "update_where p f db = Inr (n, db') \<Longrightarrow> table_step db db'"
proof -
  assume "update_where p f db = Inr (n, db')"
  hence db': "db_sessions db' = map (\<lambda>r. if p r then f r else r) (db_sessions db)"
    by (auto simp: update_where_def)
  have "list_all2 row_step xs (map (\<lambda>r. if p r then f r else r) xs)" for xs
    using assms by (induction xs) (auto simp: row_step_refl)
  thus ?thesis unfolding table_step_def using db' by (intro exI[of _ "[]"]) simp
qed

lemma wp_update_where:
  assumes "\<And>r. p r \<Longrightarrow> row_step r (f r)"
  shows "wp (db_write (update_where p f)) (\<lambda>_. table_step db) (\<lambda>_. table_step db) db"
proof (rule wp_db_write)
  fix fs
  obtain n db' where u: "update_where p f (db\<lparr>db_faults := fs\<rparr>) = Inr (n, db')" by (simp add: update_where_def)
  from update_where_step[OF assms u] u
  show "case update_where p f (db\<lparr>db_faults := fs\<rparr>) of Inl e \<Rightarrow> table_step db (db\<lparr>db_faults := fs\<rparr>)
    | Inr (a, db') \<Rightarrow> table_step db db' \<and> table_step db db'" by simp
qed (simp add: table_step_refl)

lemmas row_step_simps = row_step_def row_ok_def is_unclaimed_def claiming_with_def set_columns_def claim_in_def

lemma claim_of_row: "claim_ok c \<Longrightarrow> claim_ok d \<Longrightarrow> JsonText (claim_json c) = JsonText (claim_json d) \<longleftrightarrow> c = d"
  using claim_json_inj by auto

text \<open>The writes of the class, as callers make them: transitions start from a running
  session, a claim is created queued.\<close>

datatype session_write =
    WInsert store_data
  | WUpdate store_data
  | WTransition store_data
  | WTimeout int store_data int
  | WCreateClaim string string eth_claim
  | WSetClaim string eth_claim eth_claim
  | WFinalize string eth_claim

fun run_write :: "session_write \<Rightarrow> bool db_op" where
  "run_write (WInsert d) = p_then (insertRunningSession d) (p_return True)"
| "run_write (WUpdate d) = updateRunningSession d"
| "run_write (WTransition d) = transitionSession d RUNNING"
| "run_write (WTimeout now d timeout) = tryTimeoutSession now d timeout"
| "run_write (WCreateClaim sid amount c) = tryCreateClaim sid amount c"
| "run_write (WSetClaim sid expected c) = compareAndSetClaim sid expected c"
| "run_write (WFinalize sid c) = finalizeConfirmedClaim sid c"

fun write_ok :: "session_write \<Rightarrow> bool" where
  "write_ok (WCreateClaim _ _ c) = (claim_ok c \<and> claim_status c = QUEUE)"
| "write_ok (WSetClaim _ _ c) = claim_ok c"
| "write_ok (WFinalize _ c) = claim_ok c"
| "write_ok (WTimeout _ d _) = (status_rank (sd_status d) < 5)"
| "write_ok _ = True"

lemma wp_post: "wp m (\<lambda>_. I) (\<lambda>_. I) w \<Longrightarrow> wp (p_bind m (\<lambda>a. p_return (f a))) (\<lambda>_. I) (\<lambda>_. I) w"
  by (simp add: wp_simps)

lemma insert_row_step:
  "row_ok r \<Longrightarrow> wp (db_write (insert_row r)) (\<lambda>_. table_step db) (\<lambda>_. table_step db) db"
proof (rule wp_db_write)
  fix fs assume r: "row_ok r"
  show "case insert_row r (db\<lparr>db_faults := fs\<rparr>) of Inl e \<Rightarrow> table_step db (db\<lparr>db_faults := fs\<rparr>)
    | Inr (a, db') \<Rightarrow> table_step db db' \<and> table_step db db'"
  proof (cases "\<exists>r' \<in> set (db_sessions db). sr_sessionId r' = sr_sessionId r")
    case False
    hence "table_step db (db\<lparr>db_faults := fs, db_sessions := db_sessions db @ [r]\<rparr>)"
      unfolding table_step_def using r
      by (intro exI[of _ "[r]"] conjI exI[of _ "db_sessions db"]) (auto simp: list_all2_refl row_step_refl)
    with False show ?thesis by (simp add: insert_row_def)
  qed (simp add: insert_row_def table_step_refl)
qed (simp add: table_step_refl)

lemma run_write_step:
  assumes "write_ok op"
  shows "wp (run_write op) (\<lambda>_. table_step db) (\<lambda>_. table_step db) db"
proof (cases op)
  case (WInsert d)
  thus ?thesis
    by (auto simp: insertRunningSession_def wp_simps table_step_refl row_ok_def intro!: insert_row_step)
next
  case (WUpdate d)
  have u: "wp (db_write (update_where (is_unclaimed (sd_sessionId d) RUNNING) (set_columns d)))
      (\<lambda>_. table_step db) (\<lambda>_. table_step db) db"
    by (rule wp_update_where) (auto simp: row_step_simps)
  show ?thesis
    unfolding WUpdate run_write.simps updateRunningSession_def
    by (auto simp: wp_simps table_step_refl intro!: wp_mono[OF u] wp_db_read)
next
  case (WTransition d)
  show ?thesis
  proof (cases "(sd_status d \<noteq> CLAIMABLE \<and> sd_status d \<noteq> FAILED_SESSION) \<or> sd_claim d \<noteq> JNull")
    case False
    thus ?thesis unfolding WTransition run_write.simps transitionSession_def
      by (auto intro!: wp_post wp_update_where simp: row_step_simps)
  qed (auto simp: WTransition transitionSession_def wp_simps table_step_refl)
next
  case (WTimeout now d timeout)
  thus ?thesis using assms unfolding WTimeout run_write.simps tryTimeoutSession_def
    by (intro wp_post wp_update_where) (cases "sd_status d"; auto simp: row_step_simps)
next
  case (WCreateClaim sid amount c)
  thus ?thesis using assms unfolding WCreateClaim run_write.simps tryCreateClaim_def
    by (intro wp_post wp_update_where) (auto simp: row_step_simps)
next
  case (WSetClaim sid expected c)
  thus ?thesis using assms unfolding WSetClaim run_write.simps compareAndSetClaim_def
    by (intro wp_post wp_update_where) (cases "claim_status c"; auto simp: row_step_simps)
next
  case (WFinalize sid c)
  thus ?thesis using assms unfolding WFinalize run_write.simps finalizeConfirmedClaim_def
    by (auto simp: wp_simps(2) table_step_refl row_step_simps intro!: wp_post wp_update_where)
qed

subsection \<open>What a cleanup may delete\<close>

text \<open>A guard reads the database and may write tables of its own, not the sessions.\<close>

definition leaves_sessions :: "cleanup_guard \<Rightarrow> bool" where
  "leaves_sessions g \<longleftrightarrow> (\<forall>c db. db_sessions (snd (g c db)) = db_sessions db)"

definition deletable :: "int \<Rightarrow> session_row \<Rightarrow> bool" where
  "deletable cutoff r \<longleftrightarrow> sr_startTime r < cutoff \<and> sr_status r \<in> {FINISHED, FAILED_SESSION} \<and>
     \<not> hasUnresolvedClaimLiability (sr_status r) (sr_claim r)"

text \<open>The table after a cleanup: rows are only dropped, and only deletable ones.\<close>

definition only_deletable_gone :: "int \<Rightarrow> session_row list \<Rightarrow> session_row list \<Rightarrow> bool" where
  "only_deletable_gone cutoff rs rs' \<longleftrightarrow> set rs' \<subseteq> set rs \<and> (\<forall>r \<in> set rs - set rs'. deletable cutoff r)"

lemma gone_refl: "only_deletable_gone cutoff rs rs"
  by (simp add: only_deletable_gone_def)

lemma gone_trans: "only_deletable_gone cutoff rs rs' \<Longrightarrow> only_deletable_gone cutoff rs' rs'' \<Longrightarrow> only_deletable_gone cutoff rs rs''"
  unfolding only_deletable_gone_def by blast

lemma leaves_sessionsD: "leaves_sessions g \<Longrightarrow> wp (g c) (\<lambda>_ db'. db_sessions db' = db_sessions db) (\<lambda>_ db'. db_sessions db' = db_sessions db) db"
  unfolding leaves_sessions_def by (rule wpI) (metis snd_conv)+

abbreviation gone_from :: "int \<Rightarrow> session_row list \<Rightarrow> faucet_db \<Rightarrow> bool" where
  "gone_from cutoff rs db \<equiv> only_deletable_gone cutoff rs (db_sessions db)"

lemma delete_candidate_gone:
  assumes "\<And>r. exact_row c r \<Longrightarrow> deletable cutoff r" "gone_from cutoff rs db"
  shows "wp (delete_candidate c) (\<lambda>_. gone_from cutoff rs) (\<lambda>_. gone_from cutoff rs) db"
proof -
  have del: "gone_from cutoff rs (db\<lparr>db_faults := fs, db_sessions := filter (\<lambda>r. \<not> exact_row c r) (db_sessions db)\<rparr>)" for fs
    using gone_trans[OF assms(2), of "filter (\<lambda>r. \<not> exact_row c r) (db_sessions db)"] assms(1)
    by (auto simp: only_deletable_gone_def)
  have ex: "gone_from cutoff rs db' \<Longrightarrow> wp (session_exists sid) (\<lambda>_. gone_from cutoff rs) (\<lambda>_. gone_from cutoff rs) db'" for sid db'
    unfolding session_exists_def by (rule wp_db_read) auto
  have w: "wp (db_write (delete_where (exact_row c))) (\<lambda>_. gone_from cutoff rs) (\<lambda>_. gone_from cutoff rs) db"
    using del assms(2) by (intro wp_db_write) (auto simp: delete_where_def)
  show ?thesis
    unfolding delete_candidate_def
    by (auto simp: wp_simps split: sum.splits intro!: wp_mono[OF w] wp_mono[OF ex])
qed

lemma cleanupSessionCandidate_gone:
  assumes "leaves_sessions g" "gone_from cutoff rs db" "cd_startTime c < cutoff"
  shows "wp (cleanupSessionCandidate g c) (\<lambda>_. gone_from cutoff rs) (\<lambda>_. gone_from cutoff rs) db"
proof (cases "(cd_status c \<noteq> FINISHED \<and> cd_status c \<noteq> FAILED_SESSION) \<or> cd_sessionId c = [] \<or>
    \<not> is_safe_integer (cd_startTime c) \<or> hasUnresolvedClaimLiability (cd_status c) (cd_claimDataJson c)")
  case True
  thus ?thesis using assms(2) by (auto simp: cleanupSessionCandidate_def wp_simps)
next
  case False
  let ?c = "c\<lparr>cd_claim := (case cd_claimDataJson c of Some (JsonText v) \<Rightarrow> claim_of_json v | _ \<Rightarrow> None)\<rparr>"
  have "deletable cutoff r" if "exact_row ?c r" for r
    using that False assms(3) by (auto simp: exact_row_def deletable_def)
  note D = delete_candidate_gone[OF this]
  have "wp (g ?c) (\<lambda>_. gone_from cutoff rs) (\<lambda>_. gone_from cutoff rs) db"
    by (rule wp_mono[OF leaves_sessionsD[OF assms(1)]]) (use assms(2) in auto)
  thus ?thesis
    using False unfolding cleanupSessionCandidate_def
    by (auto simp: wp_simps Let_def intro: D elim!: wp_mono)
qed

lemma cleanup_row_gone:
  assumes "leaves_sessions g" "gone_from cutoff rs (cw_db w)" "sr_startTime r < cutoff"
  shows "wp (cleanup_row g r) (\<lambda>_ w. gone_from cutoff rs (cw_db w)) (\<lambda>_ w. gone_from cutoff rs (cw_db w)) w"
  using assms cleanupSessionCandidate_gone[OF assms(1,2), of "candidate_of r"]
  by (auto simp: cleanup_row_def wp_simps candidate_of_def)

lemma wp_each_in:
  assumes "\<And>x w. x \<in> set xs \<Longrightarrow> I w \<Longrightarrow> wp (f x) (\<lambda>_. I) (\<lambda>_. I) w" "I w"
  shows "wp (p_each f xs) (\<lambda>_. I) (\<lambda>_. I) w"
  using assms
proof (induction xs arbitrary: w)
  case (Cons x xs)
  have "wp (f x) (\<lambda>_. I) (\<lambda>_. I) w" using Cons.prems by simp
  thus ?case unfolding p_each.simps wp_bind
    by (rule wp_mono) (use Cons in auto)
qed (simp add: wp_return)

lemma select_batch:
  assumes "gone_from cutoff rs db"
  shows "wp (selectSessionCleanupBatch cutoff cursor n)
    (\<lambda>rows db'. gone_from cutoff rs db' \<and> (\<forall>r \<in> set rows. sr_startTime r < cutoff) \<and> length rows \<le> n)
    (\<lambda>_. gone_from cutoff rs) db"
  unfolding selectSessionCleanupBatch_def using assms
  by (intro wp_db_read) (auto dest!: in_set_takeD simp: in_batch_def)

text \<open>The loop ends: an iteration either looks at a row, of which there are at most 1000 in a
  run, or resets the cursor once, or stops.\<close>

definition enough_fuel :: "nat \<Rightarrow> nat \<Rightarrow> (int \<times> string) option \<Rightarrow> bool" where
  "enough_fuel fuel processed cursor \<longleftrightarrow>
     fuel > (SESSION_CLEANUP_RUN_LIMIT - processed) + (if processed = 0 \<and> cursor \<noteq> None then 1 else 0)"

abbreviation cleanup_post :: "int \<Rightarrow> session_row list \<Rightarrow> cleanup_world \<Rightarrow> bool" where
  "cleanup_post cutoff rs w \<equiv> gone_from cutoff rs (cw_db w)"

lemma cleanStoreBounded_gone:
  assumes "leaves_sessions g" "cleanup_post cutoff rs w"
  shows "wp (cleanStoreBounded fuel g cutoff processed) (\<lambda>_. cleanup_post cutoff rs) (\<lambda>_. cleanup_post cutoff rs) w"
  using assms(2)
proof (induction fuel arbitrary: processed w)
  case (Suc fuel)
  have each: "wp (p_each (cleanup_row g) rows) (\<lambda>_. cleanup_post cutoff rs) (\<lambda>_. cleanup_post cutoff rs) w'"
    if "\<forall>r \<in> set rows. sr_startTime r < cutoff" "cleanup_post cutoff rs w'" for rows w'
    using that by (intro wp_each_in cleanup_row_gone assms(1)) auto
  show ?case
    unfolding cleanStoreBounded.simps Let_def wp_simps
    using Suc by (auto simp: wp_simps intro!: wp_mono[OF select_batch] wp_mono[OF each] Suc.IH)
qed (simp add: wp_simps)

lemma cleanStoreBounded_fuel:
  "enough_fuel fuel processed (cw_cursor w) \<Longrightarrow>
   cleanStoreBounded (fuel + k) g cutoff processed w = cleanStoreBounded fuel g cutoff processed w"
proof (induction fuel arbitrary: processed w)
  case (Suc fuel)
  show ?case
  proof (cases "processed \<ge> SESSION_CLEANUP_RUN_LIMIT")
    case False
    have reset: "p_then (p_modify (\<lambda>w. w\<lparr>cw_cursor := None\<rparr>)) (cleanStoreBounded (fuel + k) g cutoff 0) w'
        = p_then (p_modify (\<lambda>w. w\<lparr>cw_cursor := None\<rparr>)) (cleanStoreBounded fuel g cutoff 0) w'"
      if "processed = 0" "cw_cursor w \<noteq> None" for w'
      unfolding p_then_def
      by (rule p_bind_cong) (use Suc that in \<open>auto simp: p_modify_def enough_fuel_def\<close>)
    have next_batch: "cleanStoreBounded (fuel + k) g cutoff (processed + length rows) w'
        = cleanStoreBounded fuel g cutoff (processed + length rows) w'" if "rows \<noteq> []" for rows w'
      using Suc.prems False that by (intro Suc.IH) (cases rows; auto simp: enough_fuel_def)
    have more: "p_then m (cleanStoreBounded (fuel + k) g cutoff (processed + length rows)) w'
        = p_then m (cleanStoreBounded fuel g cutoff (processed + length rows)) w'"
      if "rows \<noteq> []" for rows w' and m :: "(cleanup_world, db_error, unit) proc"
      unfolding p_then_def by (rule p_bind_cong) (rule next_batch[OF that])
    have last: "p_then m (if b then n else cleanStoreBounded (fuel + k) g cutoff (processed + length rows)) w'
        = p_then m (if b then n else cleanStoreBounded fuel g cutoff (processed + length rows)) w'"
      if "rows \<noteq> []" for rows b w' n and m :: "(cleanup_world, db_error, unit) proc"
      using more[OF that] by (cases b) simp_all
    have empty: "p_then (p_modify (\<lambda>w. w\<lparr>cw_cursor := None\<rparr>))
          (if cw_cursor w \<noteq> None \<and> processed = 0 then cleanStoreBounded (fuel + k) g cutoff processed else n) w'
        = p_then (p_modify (\<lambda>w. w\<lparr>cw_cursor := None\<rparr>))
          (if cw_cursor w \<noteq> None \<and> processed = 0 then cleanStoreBounded fuel g cutoff processed else n) w'" for w' n
      using reset by (cases "cw_cursor w \<noteq> None \<and> processed = 0") (simp_all only: if_True if_False refl simp_thms)
    have body: "(if bl < length rows then err
          else if rows = [] then p_then (p_modify (\<lambda>w. w\<lparr>cw_cursor := None\<rparr>))
            (if cw_cursor w \<noteq> None \<and> processed = 0 then cleanStoreBounded (fuel + k) g cutoff processed else p_return ())
          else p_then (p_each (cleanup_row g) rows)
            (if length rows < bl then p_modify (\<lambda>w. w\<lparr>cw_cursor := None\<rparr>)
             else cleanStoreBounded (fuel + k) g cutoff (processed + length rows))) w'
        = (if bl < length rows then err
          else if rows = [] then p_then (p_modify (\<lambda>w. w\<lparr>cw_cursor := None\<rparr>))
            (if cw_cursor w \<noteq> None \<and> processed = 0 then cleanStoreBounded fuel g cutoff processed else p_return ())
          else p_then (p_each (cleanup_row g) rows)
            (if length rows < bl then p_modify (\<lambda>w. w\<lparr>cw_cursor := None\<rparr>)
             else cleanStoreBounded fuel g cutoff (processed + length rows))) w'" for bl rows w' err
      by (cases "bl < length rows"; cases "rows = []"; simp only: if_True if_False refl empty)
        (rule last, assumption)
    show ?thesis
      unfolding cleanStoreBounded.simps add_Suc Let_def if_not_P[OF False]
      by (rule p_bind_cong, simp only: p_get_def prod.inject sum.inject, elim conjE,
          drule sym[of "cw_cursor w"], drule sym[of w], simp only: , rule p_bind_cong, rule body)
  qed simp
qed (simp add: enough_fuel_def)

subsection \<open>Properties\<close>

lemma run_writes_ok:
  "table_ok db \<Longrightarrow> list_all write_ok ops \<Longrightarrow> table_ok (fold (\<lambda>op db. snd (run_write op db)) ops db)"
proof (induction ops arbitrary: db)
  case (Cons op ops)
  have "table_step db (snd (run_write op db))"
    by (rule wp_snd) (use run_write_step Cons.prems in auto)
  with Cons show ?case by (simp add: table_step_ok)
qed simp



lemma run_guards_leave: "(\<And>g. g \<in> set gs \<Longrightarrow> leaves_sessions g) \<Longrightarrow> leaves_sessions (run_guards gs)"
proof (induction gs)
  case (Cons g gs)
  have "leaves_sessions g" "leaves_sessions (run_guards gs)" using Cons by simp_all
  thus ?case by (auto simp: leaves_sessions_def p_bind_def p_return_def split: sum.split prod.split bool.split) (metis snd_conv)+
qed (simp add: leaves_sessions_def p_return_def)

lemma guards_leave:
  assumes "\<And>owner g. (owner, g) \<in> set defaults \<union> set runtime \<Longrightarrow> leaves_sessions g"
  shows "leaves_sessions (passesSessionCleanupGuards defaults runtime)"
proof -
  have d: "leaves_sessions (case js_get runtime owner of Some g \<Rightarrow> g | None \<Rightarrow> d)" if "(owner, d) \<in> set defaults" for owner d
    using assms that by (cases "js_get runtime owner") (auto dest: map_of_SomeD)
  have "leaves_sessions (run_guards (map (\<lambda>(owner, d). case js_get runtime owner of Some g \<Rightarrow> g | None \<Rightarrow> d) defaults
       @ map snd (filter (\<lambda>(owner, _). \<not> js_has defaults owner) runtime)))"
  proof (rule run_guards_leave)
    fix g assume "g \<in> set (map (\<lambda>(owner, d). case js_get runtime owner of Some g \<Rightarrow> g | None \<Rightarrow> d) defaults
       @ map snd (filter (\<lambda>(owner, _). \<not> js_has defaults owner) runtime))"
    then consider owner e where "(owner, e) \<in> set defaults" "g = (case js_get runtime owner of Some g \<Rightarrow> g | None \<Rightarrow> e)"
      | owner where "(owner, g) \<in> set runtime" by auto
    thus "leaves_sessions g" by cases (use d assms in auto)
  qed
  thus ?thesis by (simp add: passesSessionCleanupGuards_def)
qed

text \<open>C21. Cleanup is bounded and only drops what is settled: with guards that do not write the sessions, a run
  of \<^verbatim>\<open>cleanStoreBounded\<close> removes no session that is not finished or failed, that is not
  older than the cutoff, or whose claim is still queued, prepared, pending, unreadable or
  at odds with its status, whatever the driver loses or refuses; and 1002 iterations
  are enough, more fuel changes nothing.\<close>

theorem cleanup_only_settled:
  assumes "leaves_sessions g"
  shows "only_deletable_gone cutoff (db_sessions (cw_db w))
      (db_sessions (cw_db (snd (cleanStoreBounded (Suc (Suc SESSION_CLEANUP_RUN_LIMIT)) g cutoff 0 w))))
    \<and> cleanStoreBounded (Suc (Suc SESSION_CLEANUP_RUN_LIMIT) + k) g cutoff 0 w
      = cleanStoreBounded (Suc (Suc SESSION_CLEANUP_RUN_LIMIT)) g cutoff 0 w"
proof (intro conjI cleanStoreBounded_fuel)
  show "only_deletable_gone cutoff (db_sessions (cw_db w))
      (db_sessions (cw_db (snd (cleanStoreBounded (Suc (Suc SESSION_CLEANUP_RUN_LIMIT)) g cutoff 0 w))))"
    by (rule wp_snd) (rule cleanStoreBounded_gone[OF assms gone_refl])
qed (simp add: enough_fuel_def)

definition old_row :: "string \<Rightarrow> session_status \<Rightarrow> session_row" where
  "old_row sid status = \<lparr>sr_sessionId = sid, sr_status = status, sr_startTime = 5, sr_targetAddr = ''t'', sr_dropAmount = ''0'',
     sr_remoteIP = ''1'', sr_tasks = JsonText (JArr []), sr_data = JsonText (JObj []), sr_claim = None\<rparr>"

definition demo_guards :: cleanup_guard where
  "demo_guards = passesSessionCleanupGuards [(''demo'', \<lambda>c. p_return (cd_sessionId c \<noteq> ''held''))] []"

definition demo_cleanup :: cleanup_world where
  "demo_cleanup = \<lparr>cw_db = \<lparr>db_sessions = [old_row ''gone'' FAILED_SESSION, old_row ''paid'' CLAIMABLE, old_row ''held'' FAILED_SESSION],
     db_kv = [], db_faults = []\<rparr>, cw_cursor = None\<rparr>"

lemma p_bind_value: "m w = (Inr a, w') \<Longrightarrow> p_bind m f w = f a w'"
  by (simp add: p_bind_def)

lemma demo_cleaned: "map sr_sessionId (db_sessions (cw_db (snd (cleanStoreBounded (Suc n) demo_guards 100 0 demo_cleanup)))) = [''paid'', ''held'']"
proof -
  let ?rows = "[old_row ''gone'' FAILED_SESSION, old_row ''held'' FAILED_SESSION]"
  have rows: "on_db (selectSessionCleanupBatch 100 None (min SESSION_CLEANUP_BATCH_SIZE (SESSION_CLEANUP_RUN_LIMIT - 0))) demo_cleanup = (Inr ?rows, demo_cleanup)"
    by code_simp
  have size: "0 < SESSION_CLEANUP_RUN_LIMIT" "length ?rows < min SESSION_CLEANUP_BATCH_SIZE (SESSION_CLEANUP_RUN_LIMIT - 0)" by code_simp+
  have run: "fst (p_each (cleanup_row demo_guards) ?rows demo_cleanup) = Inr ()" by code_simp
  have left: "map sr_sessionId (db_sessions (cw_db (snd (p_each (cleanup_row demo_guards) ?rows demo_cleanup)))) = [''paid'', ''held'']" by code_simp
  obtain w' where w': "p_each (cleanup_row demo_guards) ?rows demo_cleanup = (Inr (), w')" using run by (metis prod.collapse)
  have cursor: "cw_cursor demo_cleanup = None" by (simp add: demo_cleanup_def)
  have cur: "p_get cw_cursor demo_cleanup = (Inr None, demo_cleanup)" by (simp add: p_get_def cursor)
  have small: "length ?rows \<le> min SESSION_CLEANUP_BATCH_SIZE (SESSION_CLEANUP_RUN_LIMIT - 0)" using size(2) by linarith
  have "cleanStoreBounded (Suc n) demo_guards 100 0 demo_cleanup =
      p_then (p_each (cleanup_row demo_guards) ?rows) (p_modify (\<lambda>w. w\<lparr>cw_cursor := None\<rparr>)) demo_cleanup"
    unfolding cleanStoreBounded.simps Let_def if_not_P[OF size(1)[unfolded not_le[symmetric]]] p_bind_value[of "p_get cw_cursor" demo_cleanup None demo_cleanup, OF cur] p_bind_value[of "on_db (selectSessionCleanupBatch 100 None (min SESSION_CLEANUP_BATCH_SIZE (SESSION_CLEANUP_RUN_LIMIT - 0)))" demo_cleanup ?rows demo_cleanup, OF rows]
      if_not_P[OF small[unfolded not_less[symmetric]]] if_P[OF size(2)]
    by simp
  also have "\<dots> = (Inr (), w'\<lparr>cw_cursor := None\<rparr>)" unfolding p_then_def p_bind_value[of "p_each (cleanup_row demo_guards) ?rows" demo_cleanup "()" w', OF w'] by (simp add: p_modify_def)
  finally show ?thesis using w' left by simp
qed

theorem cleanup_only_settled_witness:
  "only_deletable_gone 100 (db_sessions (cw_db demo_cleanup))
      (db_sessions (cw_db (snd (cleanStoreBounded (Suc (Suc SESSION_CLEANUP_RUN_LIMIT)) demo_guards 100 0 demo_cleanup)))) \<and>
   map sr_sessionId (db_sessions (cw_db (snd (cleanStoreBounded (Suc (Suc SESSION_CLEANUP_RUN_LIMIT)) demo_guards 100 0 demo_cleanup)))) = [''paid'', ''held'']"
proof -
  have "leaves_sessions demo_guards" unfolding demo_guards_def
    by (rule guards_leave) (auto simp: leaves_sessions_def p_return_def)
  from cleanup_only_settled[OF this, of 100 demo_cleanup 0] demo_cleaned show ?thesis by blast
qed

text \<open>C22. The claimable amount is exact: summing the digits of every decimal position in SQL and
  recombining them gives the sum of the amounts of all claimable sessions, for any number
  of sessions and up to the 50 digits a column holds.\<close>

theorem claimable_amount_exact:
  assumes "\<forall>r \<in> set (db_sessions db). sr_status r = CLAIMABLE \<longrightarrow>
      all_digits (sr_dropAmount r) \<and> length (sr_dropAmount r) \<le> 50"
    and "db_faults db = []"
  shows "getClaimableAmount db =
    (Inr (\<Sum>r \<leftarrow> filter (\<lambda>r. sr_status r = CLAIMABLE) (db_sessions db). dec_value (sr_dropAmount r)), db)"
proof -
  have "\<forall>a \<in> set (map sr_dropAmount (filter (\<lambda>r. sr_status r = CLAIMABLE) (db_sessions db))). all_digits a \<and> length a \<le> 50"
    using assms(1) by auto
  from digit_sums_add_up[OF this] assms(2) show ?thesis
    by (simp add: getClaimableAmount_def p_bind_def db_read_def next_fault_def p_lift_def comp_def)
qed

theorem claimable_amount_exact_witness:
  "let row = (\<lambda>sid a. \<lparr>sr_sessionId = sid, sr_status = CLAIMABLE, sr_startTime = 0, sr_targetAddr = [], sr_dropAmount = a,
      sr_remoteIP = [], sr_tasks = JsonText (JArr []), sr_data = JsonText (JObj []), sr_claim = None\<rparr>);
     db = \<lparr>db_sessions = [row ''a'' ''995'', row ''b'' ''17''], db_kv = [], db_faults = []\<rparr>
   in fst (getClaimableAmount db) = Inr 1012"
  using claimable_amount_exact[of "let row = (\<lambda>sid a. \<lparr>sr_sessionId = sid, sr_status = CLAIMABLE, sr_startTime = 0,
      sr_targetAddr = [], sr_dropAmount = a, sr_remoteIP = [], sr_tasks = JsonText (JArr []),
      sr_data = JsonText (JObj []), sr_claim = None\<rparr>) in
     \<lparr>db_sessions = [row ''a'' ''995'', row ''b'' ''17''], db_kv = [], db_faults = []\<rparr>"]
  by (simp add: Let_def all_digits_def is_digit_def dec_value_def digit_value_def)

end
