(* ===== verification/Durable_Cell.thy ===== *)
theory Durable_Cell
  imports Faucet_Database
begin

text \<open>
  The write-ownership protocol the two outflow modules share.  A module owns one
  key-value entry.  It is \<^verbatim>\<open>certain\<close> of what is stored there, or, after a write whose
  outcome it could not observe, \<^verbatim>\<open>uncertain\<close> between the previous and the next text, and
  then it reads the entry again before it does anything else.  The locale states what
  reconciling and persisting promise; its lemmas show that a state change wrapped in
  them happens completely or not at all.
\<close>

datatype 'r ownership =
    Certain "json_text option"
  | Uncertain "json_text option" json_text 'r 'r

fun is_certain :: "'r ownership \<Rightarrow> bool" where
  "is_certain (Certain _) = True"
| "is_certain (Uncertain _ _ _ _) = False"

locale durable_cell =
  fixes durable :: "'w \<Rightarrow> json_text option"
    and own :: "'w \<Rightarrow> 'r ownership"
    and runtime :: "'w \<Rightarrow> 'r"
    and ser :: "'r \<Rightarrow> json_text"
    and rollback :: "'r \<Rightarrow> 'w \<Rightarrow> 'w"
    and reconcile :: "('w, 'e, unit) proc"
    and persist :: "'r \<Rightarrow> ('w, 'e, unit) proc"
    and inv :: "'w \<Rightarrow> bool"
  assumes inv_certain: "inv w \<Longrightarrow> own w = Certain d \<Longrightarrow> durable w = d"
    and inv_uncertain: "inv w \<Longrightarrow> own w = Uncertain p n pr nr \<Longrightarrow> (durable w = p \<or> durable w = Some n) \<and> n = ser nr"
    and rollback_runtime: "runtime (rollback r w) = r"
    and rollback_rest: "durable (rollback r w) = durable w" "own (rollback r w) = own w"
    and rollback_inv: "inv w \<Longrightarrow> inv (rollback r w)"
    and reconcile_spec: "inv w \<Longrightarrow> wp reconcile
      (\<lambda>_ w'. inv w' \<and> durable w' = durable w \<and> own w' = Certain (durable w) \<and>
        runtime w' = (case own w of Certain _ \<Rightarrow> runtime w
          | Uncertain p n pr nr \<Rightarrow> if durable w = Some n then nr else pr))
      (\<lambda>_ w'. inv w' \<and> durable w' = durable w \<and> own w' = own w \<and> runtime w' = runtime w) w"
    and persist_spec: "inv w \<Longrightarrow> own w = Certain d \<Longrightarrow> wp (persist pr)
      (\<lambda>_ w'. inv w' \<and> own w' = Certain (Some (ser (runtime w))) \<and> runtime w' = runtime w)
      (\<lambda>_ w'. inv w' \<and> ((own w' = Certain d \<and> (runtime w' = pr \<or> runtime w' = runtime w)) \<or>
        (own w' = Uncertain d (ser (runtime w)) pr (runtime w) \<and> runtime w' = runtime w))) w"
begin

text \<open>The runtime state an operation starts from, once ownership is resolved.\<close>

definition resolved :: "'w \<Rightarrow> 'r" where
  "resolved w = (case own w of Certain _ \<Rightarrow> runtime w
     | Uncertain p n pr nr \<Rightarrow> if durable w = Some n then nr else pr)"

text \<open>\<^verbatim>\<open>runStateOperation\<close> around a change of the runtime state that is persisted and rolled
  back when the write is known to have failed.\<close>

definition transact :: "('w \<Rightarrow> 'w) \<Rightarrow> ('w, 'e, unit) proc" where
  "transact f = p_then reconcile (p_bind (p_get runtime) (\<lambda>pr.
     p_catch (p_then (p_modify f) (persist pr))
       (\<lambda>e. p_bind (p_get (\<lambda>w. is_certain (own w))) (\<lambda>certain.
          p_then (p_when certain (p_modify (rollback pr))) (p_throw e)))))"

text \<open>A change that only touches the runtime state.\<close>

definition runtime_change :: "('w \<Rightarrow> 'w) \<Rightarrow> ('r \<Rightarrow> 'r) \<Rightarrow> bool" where
  "runtime_change f g \<longleftrightarrow> (\<forall>w. is_certain (own w) \<longrightarrow> own (f w) = own w \<and> durable (f w) = durable w \<and> runtime (f w) = g (runtime w)
     \<and> (inv w \<longrightarrow> inv (f w)))"

lemma transact_all_or_nothing:
  assumes "inv w" "runtime_change f g"
  shows "wp (transact f)
    (\<lambda>_ w'. inv w' \<and> runtime w' = g (resolved w) \<and> own w' = Certain (Some (ser (g (resolved w))))
        \<and> durable w' = Some (ser (g (resolved w))))
    (\<lambda>_ w'. inv w' \<and>
       ((own w' = own w \<and> durable w' = durable w \<and> runtime w' = runtime w) \<or>
        (own w' = Certain (durable w) \<and> durable w' = durable w \<and> runtime w' = resolved w) \<or>
        own w' = Uncertain (durable w) (ser (g (resolved w))) (resolved w) (g (resolved w)))) w"
proof -
  let ?E = "\<lambda>w'. inv w' \<and>
       ((own w' = own w \<and> durable w' = durable w \<and> runtime w' = runtime w) \<or>
        (own w' = Certain (durable w) \<and> durable w' = durable w \<and> runtime w' = resolved w) \<or>
        own w' = Uncertain (durable w) (ser (g (resolved w))) (resolved w) (g (resolved w)))"
  have body: "wp (p_catch (p_then (p_modify f) (persist (runtime w')))
       (\<lambda>e. p_bind (p_get (\<lambda>w. is_certain (own w))) (\<lambda>certain.
          p_then (p_when certain (p_modify (rollback (runtime w')))) (p_throw e))))
      (\<lambda>_ w''. inv w'' \<and> runtime w'' = g (resolved w) \<and> own w'' = Certain (Some (ser (g (resolved w))))
        \<and> durable w'' = Some (ser (g (resolved w)))) (\<lambda>_. ?E) w'"
    if I: "inv w'" "own w' = Certain (durable w)" "runtime w' = resolved w" for w'
  proof -
    have f: "inv (f w')" "own (f w') = Certain (durable w)" "runtime (f w') = g (resolved w)"
      using assms(2) I by (auto simp: runtime_change_def)
    show ?thesis
      unfolding wp_simps
      using inv_certain rollback_runtime rollback_rest rollback_inv inv_certain[of _ "durable w"] I(3)
      by (intro wp_mono[OF persist_spec[OF f(1,2)]]) (auto simp: f)
  qed
  show ?thesis
    unfolding transact_def wp_then[of reconcile] wp_bind[of "p_get runtime"] wp_get
    by (rule wp_mono[OF reconcile_spec[OF assms(1), folded resolved_def]]) (use body in blast, blast)
qed

text \<open>Once the entry can be read, an uncertain module adopts what is stored.\<close>

lemma reconcile_adopts_durable:
  assumes "inv w" "own w = Uncertain p n pr nr" "p \<noteq> Some n"
  shows "wp reconcile (\<lambda>_ w'. own w' = Certain (durable w) \<and>
      (durable w = Some n \<longrightarrow> runtime w' = nr) \<and> (durable w = p \<longrightarrow> runtime w' = pr)) (\<lambda>_ _. True) w"
  by (rule wp_mono[OF reconcile_spec[OF assms(1)]]) (use assms in auto)

end

end
