(* ===== verification/Outflow_State.thy ===== *)
theory Outflow_State
  imports Durable_Cell Reward_Modules
begin

text \<open>
  The state of \<^verbatim>\<open>src/src/modules/faucet-outflow/FaucetOutflowModule.ts\<close>: an exact
  rational balance that accrues at the configured rate, the policy it is clamped by, the
  markers of claim fees already accounted, and the text they are stored as.  This theory
  holds the synchronous part; the operations are in \<^verbatim>\<open>Faucet_Outflow\<close>.
\<close>

record outflow_policy =
  pol_amount :: int
  pol_duration :: int
  pol_lowerLimit :: int
  pol_upperLimit :: int

record outflow_state =
  os_num :: int
  os_den :: int
  os_updateTime :: int
  os_rateAmount :: int
  os_rateDuration :: int
  os_fees :: "(string, string) jsmap"

record outflow_runtime =
  rt_state :: outflow_state
  rt_policy :: outflow_policy

subsection \<open>Policy\<close>

definition signed_decimal :: "string \<Rightarrow> bool" where
  "signed_decimal s \<longleftrightarrow> all_digits s \<or> (s \<noteq> [] \<and> hd s = CHR ''-'' \<and> all_digits (tl s))"

fun parseConfigAmount :: "string \<Rightarrow> bool \<Rightarrow> js_value \<Rightarrow> string + int" where
  "parseConfigAmount name sgnd (JNum n) = (case safe_integer n of
      None \<Rightarrow> Inl (''faucet-outflow '' @ name @ '' must be a safe integer or decimal string'')
    | Some i \<Rightarrow> Inr i)"
| "parseConfigAmount name sgnd (JStr s) =
     (if (if sgnd then signed_decimal s else all_digits s)
      then (case bigint_of_string s of Some i \<Rightarrow> Inr i | None \<Rightarrow> Inl ''SyntaxError'')
      else Inl (''faucet-outflow '' @ name @ '' must be an integer decimal string''))"
| "parseConfigAmount name sgnd _ = Inl (''faucet-outflow '' @ name @ '' must be an integer decimal string'')"

definition parsePolicy :: "js_value \<Rightarrow> string + outflow_policy" where
  "parsePolicy config =
     try_bind (parseConfigAmount ''amount'' False (own_property config ''amount'')) (\<lambda>amount.
     try_bind (parseConfigAmount ''lowerLimit'' True (own_property config ''lowerLimit'')) (\<lambda>lower.
     try_bind (parseConfigAmount ''upperLimit'' False (own_property config ''upperLimit'')) (\<lambda>upper.
       if amount \<le> 0 then Inl ''faucet-outflow amount must be greater than zero''
       else if \<not> isPositiveSafeInteger (own_property config ''duration'')
         then Inl ''faucet-outflow duration must be a positive safe integer''
       else if lower > 0 then Inl ''faucet-outflow lowerLimit must be zero or negative''
       else if upper < 0 then Inl ''faucet-outflow upperLimit must be zero or positive''
       else Inr \<lparr>pol_amount = amount, pol_duration = get_int (own_property config ''duration''),
                 pol_lowerLimit = lower, pol_upperLimit = upper\<rparr>)))"

subsection \<open>Arithmetic of the balance\<close>

fun greatestCommonDivisor :: "nat \<Rightarrow> nat \<Rightarrow> nat" where
  "greatestCommonDivisor left right = (if right = 0 then left else greatestCommonDivisor right (left mod right))"

declare greatestCommonDivisor.simps [simp del]

definition normalizeBalance :: "outflow_state \<Rightarrow> outflow_state" where
  "normalizeBalance s =
     (if os_num s = 0 then s\<lparr>os_den := 1\<rparr>
      else let divisor = int (greatestCommonDivisor (nat \<bar>os_num s\<bar>) (nat (os_den s))) in
        s\<lparr>os_num := bigint_div (os_num s) divisor, os_den := bigint_div (os_den s) divisor\<rparr>)"

definition compareBalance :: "outflow_state \<Rightarrow> int \<Rightarrow> int" where
  "compareBalance s value = (let difference = os_num s - value * os_den s in
     if difference < 0 then -1 else if difference > 0 then 1 else 0)"

definition setBalance :: "int \<Rightarrow> outflow_state \<Rightarrow> outflow_state" where
  "setBalance value s = s\<lparr>os_num := value, os_den := 1\<rparr>"

definition settle :: "int \<Rightarrow> outflow_state \<Rightarrow> outflow_state" where
  "settle now s = (let elapsed = now - os_updateTime s in
     if elapsed \<le> 0 then s
     else normalizeBalance (s\<lparr>
       os_num := os_num s * os_rateDuration s + elapsed * os_rateAmount s * os_den s,
       os_den := os_den s * os_rateDuration s,
       os_updateTime := now\<rparr>))"

definition clampUpperLimit :: "outflow_policy \<Rightarrow> outflow_state \<Rightarrow> outflow_state" where
  "clampUpperLimit p s = (if compareBalance s (pol_upperLimit p) > 0 then setBalance (pol_upperLimit p) s else s)"

definition debit :: "int \<Rightarrow> outflow_state \<Rightarrow> outflow_state" where
  "debit amount s = s\<lparr>os_num := os_num s - amount * os_den s\<rparr>"

definition createEmptyState :: "int \<Rightarrow> outflow_policy \<Rightarrow> outflow_state" where
  "createEmptyState now p = \<lparr>os_num = 0, os_den = 1, os_updateTime = now,
     os_rateAmount = pol_amount p, os_rateDuration = pol_duration p, os_fees = []\<rparr>"

text \<open>\<^verbatim>\<open>getOutflowRestriction\<close> on a settled and clamped state.\<close>

definition outflow_restriction :: "(rat \<Rightarrow> rat) \<Rightarrow> outflow_policy \<Rightarrow> outflow_state \<Rightarrow> rat" where
  "outflow_restriction rnd p s =
     (if compareBalance s 0 \<ge> 0 then 100
      else if pol_lowerLimit p = 0 \<or> compareBalance s (pol_lowerLimit p) \<le> 0 then 0
      else let distanceFromLower = os_num s - pol_lowerLimit p * os_den s;
               fullRange = - pol_lowerLimit p * os_den s;
               basisPoints = bigint_div (10000 * distanceFromLower) fullRange in
        rnd (of_int basisPoints / 100))"

subsection \<open>The stored text\<close>

definition getClaimFeeMarkerLimit :: "js_number \<Rightarrow> string + nat" where
  "getClaimFeeMarkerLimit ethMaxPending = (case safe_integer ethMaxPending of
      None \<Rightarrow> Inl ''ethMaxPending must be a non-negative safe integer''
    | Some i \<Rightarrow>
       if i < 0 then Inl ''ethMaxPending must be a non-negative safe integer''
       else let limit = max 1 i * 2 in
         if \<not> is_safe_integer limit then Inl ''ethMaxPending is too large for bounded claim-fee accounting''
         else Inr (nat limit))"

fun parse_markers :: "(string \<times> js_value) list \<Rightarrow> (string, string) jsmap \<Rightarrow> string + (string, string) jsmap" where
  "parse_markers [] markers = Inr markers"
| "parse_markers ((txHash, JStr sessionId) # es) markers =
     (if \<not> is_tx_hash txHash \<or> sessionId = [] \<or> length sessionId > 128
      then Inl ''Invalid persisted faucet outflow claim-fee marker''
      else let normalizedHash = toLowerCase txHash in
        if (case js_get markers normalizedHash of None \<Rightarrow> False | Some s \<Rightarrow> s \<noteq> sessionId)
        then Inl ''Conflicting persisted faucet outflow claim-fee markers''
        else parse_markers es (js_set normalizedHash sessionId markers))"
| "parse_markers (_ # es) markers = Inl ''Invalid persisted faucet outflow claim-fee marker''"

definition parseClaimFeeMarkers :: "nat \<Rightarrow> js_value \<Rightarrow> string + (string, string) jsmap" where
  "parseClaimFeeMarkers limit v = (case v of
      JObj es \<Rightarrow> (if length es > limit then Inl ''Persisted faucet outflow claim-fee marker bound exceeded''
        else parse_markers es [])
    | _ \<Rightarrow> Inl ''Invalid persisted faucet outflow state'')"

fun string_prop :: "js_value \<Rightarrow> string option" where
  "string_prop (JStr s) = Some s"
| "string_prop _ = None"

definition is_signed_decimal :: "js_value \<Rightarrow> bool" where
  "is_signed_decimal v = (case string_prop v of None \<Rightarrow> False | Some s \<Rightarrow> signed_decimal s)"

definition big :: "js_value \<Rightarrow> int" where
  "big v = (case js_bigint v of Some i \<Rightarrow> i | None \<Rightarrow> 0)"

definition parseVersionTwoStateFields :: "js_value \<Rightarrow> string + outflow_state" where
  "parseVersionTwoStateFields v = (let p = own_property v in
     if \<not> is_signed_decimal (p ''balanceNumerator'') \<or> \<not> isUnsignedDecimal (p ''balanceDenominator'')
        \<or> big (p ''balanceDenominator'') = 0 \<or> \<not> isNonNegativeSafeInteger (p ''updateTime'')
        \<or> \<not> isUnsignedDecimal (p ''rateAmount'') \<or> \<not> isPositiveSafeInteger (p ''rateDuration'')
     then Inl ''Invalid persisted faucet outflow state''
     else Inr (normalizeBalance \<lparr>os_num = big (p ''balanceNumerator''), os_den = big (p ''balanceDenominator''),
       os_updateTime = get_int (p ''updateTime''), os_rateAmount = big (p ''rateAmount''),
       os_rateDuration = get_int (p ''rateDuration''), os_fees = []\<rparr>))"

definition parseVersionThreeState :: "nat \<Rightarrow> js_value \<Rightarrow> string + outflow_state" where
  "parseVersionThreeState limit v = try_bind (parseVersionTwoStateFields v) (\<lambda>s.
     try_bind (parseClaimFeeMarkers limit (own_property v ''accountedClaimFees'')) (\<lambda>fees. Inr (s\<lparr>os_fees := fees\<rparr>)))"

fun is_safe_int_value :: "js_value \<Rightarrow> bool" where
  "is_safe_int_value (JNum n) = (safe_integer n \<noteq> None)"
| "is_safe_int_value _ = False"

definition migrateLegacyState :: "int \<Rightarrow> outflow_policy \<Rightarrow> js_value \<Rightarrow> string + outflow_state" where
  "migrateLegacyState now pol v = (let p = own_property v in
     if \<not> is_safe_int_value (p ''trackTime'') \<or> (p ''dustAmount'' \<noteq> JUndefined \<and> \<not> isUnsignedDecimal (p ''dustAmount''))
     then Inl ''Invalid persisted faucet outflow state''
     else let elapsed = now - get_int (p ''trackTime'');
              balance = bigint_div (elapsed * pol_amount pol) (pol_duration pol);
              balance = (if p ''dustAmount'' \<noteq> JUndefined then balance + big (p ''dustAmount'') else balance) in
       Inr \<lparr>os_num = balance, os_den = 1, os_updateTime = now, os_rateAmount = pol_amount pol,
            os_rateDuration = pol_duration pol, os_fees = []\<rparr>)"

fun is_record :: "js_value \<Rightarrow> bool" where
  "is_record (JObj _) = True"
| "is_record _ = False"

definition parsePersistedState :: "nat \<Rightarrow> int \<Rightarrow> outflow_policy \<Rightarrow> json_text \<Rightarrow> string + outflow_state" where
  "parsePersistedState limit now pol text = (case text of
      NotJson _ \<Rightarrow> Inl ''Invalid persisted faucet outflow state''
    | JsonText v \<Rightarrow>
       if \<not> is_record v then Inl ''Invalid persisted faucet outflow state''
       else if own_property v ''version'' = json_int 3 then parseVersionThreeState limit v
       else if own_property v ''version'' = json_int 2 then parseVersionTwoStateFields v
       else if own_property v ''version'' \<noteq> JUndefined then Inl ''Unsupported persisted faucet outflow state version''
       else migrateLegacyState now pol v)"

definition sorted_fees :: "(string, string) jsmap \<Rightarrow> (string, string) jsmap" where
  "sorted_fees fees = map (\<lambda>h. (h, the (js_get fees h))) (sort (js_keys fees))"

definition serializeState :: "outflow_state \<Rightarrow> json_text" where
  "serializeState s = JsonText (JObj
     [(''version'', json_int 3), (''balanceNumerator'', JStr (dec_int (os_num s))),
      (''balanceDenominator'', JStr (dec_int (os_den s))), (''updateTime'', json_int (os_updateTime s)),
      (''rateAmount'', JStr (dec_int (os_rateAmount s))), (''rateDuration'', json_int (os_rateDuration s)),
      (''accountedClaimFees'', JObj (map (\<lambda>(h, s). (h, JStr s)) (sorted_fees (os_fees s))))])"

text \<open>\<^verbatim>\<open>parsePersistedClaimFeeMarkers\<close>, of the cleanup guard.\<close>

definition parsePersistedClaimFeeMarkers :: "nat \<Rightarrow> json_text \<Rightarrow> string + (string, string) jsmap" where
  "parsePersistedClaimFeeMarkers limit text = (case text of
      NotJson _ \<Rightarrow> Inl ''Invalid persisted faucet outflow state''
    | JsonText v \<Rightarrow>
       if \<not> is_record v then Inl ''Invalid persisted faucet outflow state''
       else if own_property v ''version'' = json_int 3
         then parseClaimFeeMarkers limit (own_property v ''accountedClaimFees'')
       else if own_property v ''version'' = JUndefined \<or> own_property v ''version'' = json_int 2 then Inr []
       else Inl ''Unsupported persisted faucet outflow state version'')"

subsection \<open>The balance is an exact rational\<close>

definition balance :: "outflow_state \<Rightarrow> rat" where
  "balance s = Fract (os_num s) (os_den s)"

text \<open>The fraction is in lowest terms.\<close>

definition normal :: "outflow_state \<Rightarrow> bool" where
  "normal s \<longleftrightarrow> os_den s > 0 \<and> (os_num s, os_den s) = quotient_of (balance s)"

lemma greatestCommonDivisor_gcd: "greatestCommonDivisor a b = gcd a b"
proof (induction a b rule: greatestCommonDivisor.induct)
  case (1 a b)
  thus ?case by (subst greatestCommonDivisor.simps) (auto simp: gcd_red_nat[of a b])
qed

lemma normalizeBalance_quotient:
  assumes "os_den s > 0"
  shows "(os_num (normalizeBalance s), os_den (normalizeBalance s)) = quotient_of (balance s)"
proof (cases "os_num s = 0")
  case True
  thus ?thesis using assms by (simp add: normalizeBalance_def balance_def quotient_of_Fract Rat.normalize_def)
next
  case False
  let ?g = "int (greatestCommonDivisor (nat \<bar>os_num s\<bar>) (nat (os_den s)))"
  have g: "?g = gcd (os_num s) (os_den s)"
    using assms unfolding greatestCommonDivisor_gcd gcd_int_def by simp
  have gpos: "?g > 0" unfolding g using False by simp
  have "bigint_div (os_num s) ?g = os_num s div ?g"
  proof (cases "os_num s \<ge> 0")
    case False
    have "?g dvd os_num s" unfolding g by simp
    then obtain k where k: "os_num s = ?g * k" ..
    have "?g * k < 0" using False k by linarith
    hence neg: "k < 0" using gpos by (metis mult_less_0_iff not_less_iff_gr_or_eq)
    have div: "bigint_div (g * k) g = g * k div g" if "g > 0" for g
    proof -
      have "\<bar>g * k\<bar> div \<bar>g\<bar> = - k" using that neg
        by (metis abs_mult abs_of_neg abs_of_pos less_numeral_extra(3) nonzero_mult_div_cancel_left)
      thus ?thesis using that neg by (simp add: bigint_div_def sgn_mult)
    qed
    from div[OF gpos] show ?thesis unfolding k[symmetric] .
  qed (use gpos in simp)
  thus ?thesis
    using assms False gpos g by (simp add: normalizeBalance_def Let_def balance_def quotient_of_Fract Rat.normalize_def)
qed

lemma quotient_Fract: "quotient_of q = (a, b) \<Longrightarrow> Fract a b = q"
  by (metis quotient_of_div Fract_of_int_quotient)

lemma normalizeBalance_simps [simp]:
  assumes "os_den s > 0"
  shows "balance (normalizeBalance s) = balance s" "os_den (normalizeBalance s) > 0" "normal (normalizeBalance s)"
proof -
  note Q = normalizeBalance_quotient[OF assms]
  show b: "balance (normalizeBalance s) = balance s"
    using Q quotient_Fract by (metis balance_def)
  show d: "os_den (normalizeBalance s) > 0" using Q quotient_of_denom_pos by (metis)
  show "normal (normalizeBalance s)" using Q b d by (simp add: normal_def)
qed

lemma normalizeBalance_fields [simp]:
  "os_updateTime (normalizeBalance s) = os_updateTime s" "os_rateAmount (normalizeBalance s) = os_rateAmount s"
  "os_rateDuration (normalizeBalance s) = os_rateDuration s" "os_fees (normalizeBalance s) = os_fees s"
  by (simp_all add: normalizeBalance_def Let_def)

lemma normal_eq: "normal s \<Longrightarrow> normal t \<Longrightarrow> balance s = balance t \<Longrightarrow> os_num s = os_num t \<and> os_den s = os_den t"
  unfolding normal_def by (metis Pair_inject)

lemma normalize_normal: "normal s \<Longrightarrow> normalizeBalance s = s"
proof -
  assume n: "normal s"
  hence d: "os_den s > 0" by (simp add: normal_def)
  have "os_num (normalizeBalance s) = os_num s \<and> os_den (normalizeBalance s) = os_den s"
    by (rule normal_eq[OF normalizeBalance_simps(3)[OF d] n normalizeBalance_simps(1)[OF d]])
  thus "normalizeBalance s = s" by (cases s; cases "normalizeBalance s") (metis normalizeBalance_fields outflow_state.simps(1-6))
qed

lemma settle_fields [simp]:
  "os_rateAmount (settle now s) = os_rateAmount s" "os_rateDuration (settle now s) = os_rateDuration s"
  "os_fees (settle now s) = os_fees s" "os_updateTime (settle now s) = max now (os_updateTime s)"
  by (auto simp: settle_def Let_def)

lemma settle_balance:
  assumes den: "os_den s > 0" and dur: "os_rateDuration s > 0"
  shows "balance (settle now s) =
      balance s + of_int (max 0 (now - os_updateTime s) * os_rateAmount s) / of_int (os_rateDuration s)"
    and "os_den (settle now s) > 0" and "normal s \<Longrightarrow> normal (settle now s)"
proof -
  let ?s = "s\<lparr>os_num := os_num s * os_rateDuration s + (now - os_updateTime s) * os_rateAmount s * os_den s,
       os_den := os_den s * os_rateDuration s, os_updateTime := now\<rparr>"
  have d: "os_den ?s > 0" using den dur by simp
  note N = normalizeBalance_simps[OF d]
  have b: "balance ?s = balance s + of_int ((now - os_updateTime s) * os_rateAmount s) / of_int (os_rateDuration s)"
    using den dur by (simp add: balance_def Fract_of_int_quotient add_divide_distrib)
  have st: "settle now s = (if now - os_updateTime s \<le> 0 then s else normalizeBalance ?s)"
    by (simp add: settle_def Let_def)
  show "os_den (settle now s) > 0" "normal s \<Longrightarrow> normal (settle now s)"
    unfolding st using den N by simp_all
  show "balance (settle now s) =
      balance s + of_int (max 0 (now - os_updateTime s) * os_rateAmount s) / of_int (os_rateDuration s)"
  proof (cases "now - os_updateTime s \<le> 0")
    case False
    thus ?thesis unfolding st using N(1) b by (simp add: max_def)
  qed (simp add: st)
qed

text \<open>C23. The outflow balance accrues without drift: settling is exact rational arithmetic, so
  however often the balance is settled on the way, the state at a later time is the
  same, and it is the old balance plus rate times elapsed time, to the last wei.\<close>

theorem outflow_settle_exact:
  assumes "normal s" "os_rateDuration s > 0"
  shows "settle t2 (settle t1 s) = settle (max t1 t2) s
    \<and> balance (settle t s) = balance s +
        of_int (max 0 (t - os_updateTime s) * os_rateAmount s) / of_int (os_rateDuration s)"
proof (intro conjI)
  have den: "os_den s > 0" using assms(1) by (simp add: normal_def)
  note S = settle_balance[OF den assms(2)]
  show "balance (settle t s) = balance s +
        of_int (max 0 (t - os_updateTime s) * os_rateAmount s) / of_int (os_rateDuration s)" by (rule S)
  let ?l = "settle t2 (settle t1 s)" and ?r = "settle (max t1 t2) s"
  note S2 = settle_balance[where s = "settle t1 s", OF S(2)]
  have "max 0 (t1 - os_updateTime s) + max 0 (t2 - max t1 (os_updateTime s)) = max 0 (max t1 t2 - os_updateTime s)"
    by auto
  hence "of_int (max 0 (t1 - os_updateTime s) * os_rateAmount s) + of_int (max 0 (t2 - max t1 (os_updateTime s)) * os_rateAmount s)
      = (of_int (max 0 (max t1 t2 - os_updateTime s) * os_rateAmount s) :: rat)"
    by (metis distrib_right of_int_add)
  hence "balance ?l = balance ?r"
    using assms(2) S2(1)[of t2] by (simp add: S(1) add_divide_distrib[symmetric] del: of_int_mult)
  moreover have "normal ?l" "normal ?r" using S2(3) S(3) assms by auto
  ultimately have "os_num ?l = os_num ?r \<and> os_den ?l = os_den ?r" by (intro normal_eq)
  moreover have "os_updateTime ?l = os_updateTime ?r" by simp
  ultimately show "?l = ?r" by simp
qed

theorem outflow_settle_exact_witness:
  "let s = \<lparr>os_num = 0, os_den = 1, os_updateTime = 0, os_rateAmount = 1, os_rateDuration = 3, os_fees = []\<rparr> in
   settle 2 (settle 1 s) = settle 2 s \<and> balance (settle 2 s) = 2 / 3"
proof -
  let ?s = "\<lparr>os_num = 0, os_den = 1, os_updateTime = 0, os_rateAmount = 1, os_rateDuration = 3, os_fees = []\<rparr>"
  have n: "normal ?s" by (simp add: normal_def balance_def quotient_of_Fract Rat.normalize_def)
  have "balance ?s = 0" by (simp add: balance_def rat_number_collapse)
  thus ?thesis using outflow_settle_exact[OF n, of 2 1 2] by simp
qed

subsection \<open>Round trip\<close>

definition fees_ok :: "nat \<Rightarrow> (string, string) jsmap \<Rightarrow> bool" where
  "fees_ok limit fees \<longleftrightarrow> js_map_ok fees \<and> length fees \<le> limit \<and>
     (\<forall>(h, sid) \<in> set fees. is_tx_hash h \<and> toLowerCase h = h \<and> sid \<noteq> [] \<and> length sid \<le> 128)"

definition state_ok :: "nat \<Rightarrow> outflow_state \<Rightarrow> bool" where
  "state_ok limit s \<longleftrightarrow> normal s \<and> nonneg_safe (os_updateTime s) \<and> 0 \<le> os_rateAmount s \<and>
     nonneg_safe (os_rateDuration s) \<and> 0 < os_rateDuration s \<and> fees_ok limit (os_fees s)"

lemma sorted_fees_get [simp]: "js_map_ok fees \<Longrightarrow> js_get (sorted_fees fees) h = js_get fees h"
proof -
  have "js_get (map (\<lambda>h. (h, the (js_get fees h))) hs) h = (if h \<in> set hs then Some (the (js_get fees h)) else None)" for hs
    by (induction hs) auto
  moreover have "h \<in> set (js_keys fees) \<longleftrightarrow> js_has fees h" by (metis map_of_eq_None_iff set_map)
  ultimately show ?thesis by (auto simp: sorted_fees_def)
qed

lemma sorted_fees_keys: "js_keys (sorted_fees fees) = sort (js_keys fees)"
  by (simp add: sorted_fees_def comp_def)

lemma sorted_fees_ok: "fees_ok limit fees \<Longrightarrow> fees_ok limit (sorted_fees fees)"
proof -
  assume ok: "fees_ok limit fees"
  hence m: "js_map_ok fees" by (simp add: fees_ok_def)
  have "js_map_ok (sorted_fees fees)" using m by (simp add: sorted_fees_keys)
  moreover have "length (sorted_fees fees) = length fees" by (simp add: sorted_fees_def)
  moreover have "is_tx_hash h \<and> toLowerCase h = h \<and> sid \<noteq> [] \<and> length sid \<le> 128" if "(h, sid) \<in> set (sorted_fees fees)" for h sid
  proof -
    have "js_get fees h = Some sid"
      using that calculation(1) sorted_fees_get[OF m] by (metis js_get_in_set)
    thus ?thesis using ok by (auto simp: fees_ok_def dest: map_of_SomeD)
  qed
  ultimately show ?thesis using ok by (auto simp: fees_ok_def)
qed

lemma parse_markers_append:
  assumes "\<forall>(h, sid) \<in> set es. is_tx_hash h \<and> toLowerCase h = h \<and> sid \<noteq> [] \<and> length sid \<le> 128"
    and "distinct (map fst es)" "\<forall>h \<in> fst ` set es. js_get ms h = None"
  shows "parse_markers (map (\<lambda>(h, s). (h, JStr s)) es) ms = Inr (ms @ es)"
  using assms
proof (induction es arbitrary: ms)
  case (Cons e es)
  obtain h sid where e: "e = (h, sid)" by (cases e)
  have "parse_markers (map (\<lambda>(h, s). (h, JStr s)) es) (ms @ [(h, sid)]) = Inr ((ms @ [(h, sid)]) @ es)"
    using Cons.prems e by (intro Cons.IH) (auto simp: map_add_def split: option.splits)
  moreover have "js_get ms h = None" using Cons.prems e by simp
  ultimately show ?case using Cons.prems e by (simp add: Let_def js_set_absent)
qed simp

lemma parse_fees: "fees_ok limit fees \<Longrightarrow>
    parseClaimFeeMarkers limit (JObj (map (\<lambda>(h, s). (h, JStr s)) (sorted_fees fees))) = Inr (sorted_fees fees)"
  using parse_markers_append[of "sorted_fees fees" "[]"] sorted_fees_ok[of limit fees]
  by (simp add: parseClaimFeeMarkers_def fees_ok_def)

lemma dec_int_digits: "0 \<le> i \<Longrightarrow> all_digits (dec_int i)"
  by (simp add: dec_int_def all_digits_def dec_nat_digits)

lemma dec_int_signed: "signed_decimal (dec_int i)"
  by (simp add: signed_decimal_def dec_int_def all_digits_def dec_nat_digits)

lemma outflow_parse_serialize:
  assumes "state_ok limit s"
  shows "parsePersistedState limit now pol (serializeState s) = Inr (s\<lparr>os_fees := sorted_fees (os_fees s)\<rparr>)"
proof -
  note ok = assms[unfolded state_ok_def]
  have den: "0 < os_den s" using ok by (simp add: normal_def)
  have "normalizeBalance (s\<lparr>os_fees := []\<rparr>) = s\<lparr>os_fees := []\<rparr>"
    using ok by (intro normalize_normal) (simp add: normal_def balance_def)
  moreover have "s\<lparr>os_fees := []\<rparr> = \<lparr>os_num = os_num s, os_den = os_den s, os_updateTime = os_updateTime s,
      os_rateAmount = os_rateAmount s, os_rateDuration = os_rateDuration s, os_fees = []\<rparr>" by simp
  ultimately have "normalizeBalance \<lparr>os_num = os_num s, os_den = os_den s, os_updateTime = os_updateTime s,
      os_rateAmount = os_rateAmount s, os_rateDuration = os_rateDuration s, os_fees = []\<rparr> = s\<lparr>os_fees := []\<rparr>"
    by metis
  thus ?thesis
    using ok den unfolding parsePersistedState_def serializeState_def
    by (simp add: parseVersionThreeState_def parseVersionTwoStateFields_def is_signed_decimal_def
        dec_int_signed dec_int_digits big_def parse_fees)
qed

end
