(* ===== verification/Dynamic_Outflow.thy ===== *)
theory Dynamic_Outflow
  imports Durable_Cell Reward_Modules
begin

text \<open>
  \<^verbatim>\<open>src/src/modules/dynamic-outflow/DynamicOutflowModule.ts\<close>: a budget that accrues at a
  rate derived from the wallet balance, is debited by every reward, and is persisted in
  one key-value entry under the write-ownership protocol.  The clock is read once per
  operation (\<^verbatim>\<open>now\<close>); the wallet, the sessions and the claim queue are arguments.
\<close>

subsection \<open>Configuration\<close>

record dyn_config =
  dc_targetDrainTime :: int
  dc_refreshInterval :: int
  dc_burstWindow :: int
  dc_cutoffWindow :: int

definition durationFields :: "string list" where
  "durationFields = [''targetDrainTime'', ''refreshInterval'', ''burstWindow'', ''cutoffWindow'']"

definition validateDynamicOutflowConfig :: "js_value \<Rightarrow> string + dyn_config" where
  "validateDynamicOutflowConfig config =
     (case find (\<lambda>f. \<not> isPositiveSafeInteger (own_property config f)) durationFields of
        Some f \<Rightarrow> Inl (f @ '' must be a positive safe integer number of seconds'')
      | None \<Rightarrow> Inr \<lparr>dc_targetDrainTime = get_int (own_property config ''targetDrainTime''),
                     dc_refreshInterval = get_int (own_property config ''refreshInterval''),
                     dc_burstWindow = get_int (own_property config ''burstWindow''),
                     dc_cutoffWindow = get_int (own_property config ''cutoffWindow'')\<rparr>)"

subsection \<open>State\<close>

record dyn_runtime =
  dr_budget :: int
  dr_updateTime :: int
  dr_rate :: "int option"
  dr_rateTime :: int

record dyn_world =
  dw_db :: faucet_db
  dw_runtime :: dyn_runtime
  dw_own :: "dyn_runtime ownership"

datatype outflow_error =
    DbFailure db_error
  | UncertainWrite
  | Diverged
  | InvalidState string
  | FuelExhausted

type_synonym 'a dyn_op = "(dyn_world, outflow_error, 'a) proc"

definition DYN_KEY :: string where "DYN_KEY = ''DynamicOutflow.state''"

text \<open>A database call inside the module, with the driver's error wrapped.\<close>

definition dyn_db :: "'a db_op \<Rightarrow> 'a dyn_op" where
  "dyn_db m = p_catch (p_zoom dw_db (\<lambda>db w. w\<lparr>dw_db := db\<rparr>) m) (\<lambda>e. p_throw (DbFailure e))"

definition dyn_serializeState :: "dyn_runtime \<Rightarrow> json_text" where
  "dyn_serializeState r = JsonText (JObj [(''budget'', JStr (dec_int (dr_budget r))), (''updateTime'', json_int (dr_updateTime r))])"

definition dyn_setRuntimeSnapshot :: "dyn_runtime \<Rightarrow> dyn_world \<Rightarrow> dyn_world" where
  "dyn_setRuntimeSnapshot r w = w\<lparr>dw_runtime := r\<rparr>"

definition dyn_set_own :: "dyn_runtime ownership \<Rightarrow> unit dyn_op" where
  "dyn_set_own own = p_modify (\<lambda>w. w\<lparr>dw_own := own\<rparr>)"

subsection \<open>Ownership\<close>

definition dyn_reconcileWriteOwnership :: "unit dyn_op" where
  "dyn_reconcileWriteOwnership = p_bind (p_get dw_own) (\<lambda>own. case own of
      Certain _ \<Rightarrow> p_return ()
    | Uncertain previousJson nextJson previousRuntime nextRuntime \<Rightarrow>
       p_bind (p_catch (dyn_db (getKeyValueEntry DYN_KEY)) (\<lambda>_. p_throw UncertainWrite)) (\<lambda>observedJson.
        if observedJson = Some nextJson then
          p_then (p_modify (dyn_setRuntimeSnapshot nextRuntime)) (dyn_set_own (Certain (Some nextJson)))
        else if observedJson = previousJson then
          p_then (p_modify (dyn_setRuntimeSnapshot previousRuntime)) (dyn_set_own (Certain previousJson))
        else p_throw Diverged))"

definition dyn_persistOutflowState :: "dyn_runtime \<Rightarrow> unit dyn_op" where
  "dyn_persistOutflowState previousRuntime =
     p_then dyn_reconcileWriteOwnership (p_bind (p_get dw_own) (\<lambda>own. case own of
        Uncertain _ _ _ _ \<Rightarrow> p_throw UncertainWrite
      | Certain previousJson \<Rightarrow>
         p_bind (p_get dw_runtime) (\<lambda>nextRuntime.
         let nextJson = dyn_serializeState nextRuntime in
         p_catch (p_then (dyn_db (setKeyValueEntry DYN_KEY nextJson)) (dyn_set_own (Certain (Some nextJson))))
          (\<lambda>writeError.
             p_then (dyn_set_own (Uncertain previousJson nextJson previousRuntime nextRuntime))
             (p_bind (p_catch (dyn_db (getKeyValueEntry DYN_KEY)) (\<lambda>_. p_throw UncertainWrite)) (\<lambda>observedJson.
                if observedJson = Some nextJson then
                  p_then (p_modify (dyn_setRuntimeSnapshot nextRuntime)) (dyn_set_own (Certain (Some nextJson)))
                else if observedJson = previousJson then
                  p_then (p_modify (dyn_setRuntimeSnapshot previousRuntime))
                    (p_then (dyn_set_own (Certain previousJson)) (p_throw writeError))
                else p_throw Diverged))))))"

definition dyn_loadOutflowState :: "int \<Rightarrow> unit dyn_op" where
  "dyn_loadOutflowState now =
     p_then dyn_reconcileWriteOwnership
     (p_bind (dyn_db (getKeyValueEntry DYN_KEY)) (\<lambda>stateJson.
      p_then (dyn_set_own (Certain stateJson))
       (case stateJson of
          None \<Rightarrow> p_modify (\<lambda>w. w\<lparr>dw_runtime := (dw_runtime w)\<lparr>dr_budget := 0, dr_updateTime := now\<rparr>\<rparr>)
        | Some (NotJson t) \<Rightarrow> (if t = []
            then p_modify (\<lambda>w. w\<lparr>dw_runtime := (dw_runtime w)\<lparr>dr_budget := 0, dr_updateTime := now\<rparr>\<rparr>)
            else p_throw (InvalidState ''SyntaxError''))
        | Some (JsonText stateObj) \<Rightarrow> (case js_bigint (own_property stateObj ''budget'') of
            None \<Rightarrow> p_throw (InvalidState ''budget is not a BigInt'')
          | Some budget \<Rightarrow> p_modify (\<lambda>w. w\<lparr>dw_runtime := (dw_runtime w)
              \<lparr>dr_budget := (if budget > 0 then 0 else budget), dr_updateTime := now\<rparr>\<rparr>)))))"

definition dyn_runStateOperation :: "'a dyn_op \<Rightarrow> 'a dyn_op" where
  "dyn_runStateOperation operation = p_then dyn_reconcileWriteOwnership operation"

definition dyn_saveOutflowState :: "unit dyn_op" where
  "dyn_saveOutflowState = dyn_runStateOperation (p_bind (p_get dw_runtime) dyn_persistOutflowState)"

subsection \<open>Budget\<close>

definition accrue_budget :: "dyn_config \<Rightarrow> int \<Rightarrow> dyn_runtime \<Rightarrow> dyn_runtime" where
  "accrue_budget cfg now r =
     (let timeDiff = now - dr_updateTime r in
      if timeDiff \<le> 0 then r
      else case dr_rate r of
        None \<Rightarrow> r\<lparr>dr_updateTime := now\<rparr>
      | Some rate \<Rightarrow>
         (let budget = dr_budget r + rate * timeDiff; upperLimit = rate * dc_burstWindow cfg in
          r\<lparr>dr_updateTime := now, dr_budget := (if budget > upperLimit then upperLimit else budget)\<rparr>))"

definition updateOutflowBudget :: "dyn_config \<Rightarrow> int \<Rightarrow> dyn_world \<Rightarrow> dyn_world" where
  "updateOutflowBudget cfg now w =
     (if \<not> is_certain (dw_own w) then w else w\<lparr>dw_runtime := accrue_budget cfg now (dw_runtime w)\<rparr>)"

text \<open>The catch block of the operations: known failures are rolled back.\<close>

definition dyn_rollback_on_error :: "dyn_runtime \<Rightarrow> unit dyn_op \<Rightarrow> unit dyn_op" where
  "dyn_rollback_on_error previousRuntime m = p_catch m
     (\<lambda>e. p_bind (p_get (\<lambda>w. is_certain (dw_own w))) (\<lambda>certain.
        p_then (p_when certain (p_modify (dyn_setRuntimeSnapshot previousRuntime))) (p_throw e)))"

definition computeOutflowRate ::
  "dyn_config \<Rightarrow> int \<Rightarrow> int option \<Rightarrow> outflow_error + int \<Rightarrow> int \<Rightarrow> int \<Rightarrow> unit dyn_op" where
  "computeOutflowRate cfg now walletBalance unclaimed queued spareFunds = (case walletBalance of
      None \<Rightarrow> p_return ()
    | Some balance \<Rightarrow> p_bind (p_get dw_runtime) (\<lambda>previousRuntime.
        dyn_rollback_on_error previousRuntime
         (p_then (p_modify (updateOutflowBudget cfg now))
          (p_bind (p_lift unclaimed) (\<lambda>u.
           let effective = balance - u - queued - spareFunds;
               effective = (if effective < 0 then 0 else effective) in
           p_then (p_modify (\<lambda>w. w\<lparr>dw_runtime := (dw_runtime w)
               \<lparr>dr_rate := Some (bigint_div effective (dc_targetDrainTime cfg)), dr_rateTime := now\<rparr>\<rparr>))
            (dyn_persistOutflowState previousRuntime))))))"

definition refreshOutflowRate ::
  "dyn_config \<Rightarrow> int \<Rightarrow> int option \<Rightarrow> outflow_error + int \<Rightarrow> int \<Rightarrow> int \<Rightarrow> unit dyn_op" where
  "refreshOutflowRate cfg now walletBalance unclaimed queued spareFunds =
     dyn_runStateOperation (computeOutflowRate cfg now walletBalance unclaimed queued spareFunds)"

definition isRateStale :: "dyn_config \<Rightarrow> int \<Rightarrow> dyn_runtime \<Rightarrow> bool" where
  "isRateStale cfg now r \<longleftrightarrow> now - dr_rateTime r > dc_refreshInterval cfg * 2 + 30"

text \<open>One step, as the state operations queue; see \<^verbatim>\<open>dyn_runStateOperation\<close>.\<close>

definition dyn_processSessionRewarded ::
  "string \<Rightarrow> dyn_config \<Rightarrow> int \<Rightarrow> string list option \<Rightarrow> int \<Rightarrow> unit dyn_op" where
  "dyn_processSessionRewarded moduleName cfg now skipModules amount =
     (if (case skipModules of None \<Rightarrow> False | Some ms \<Rightarrow> moduleName \<in> set ms) then p_return ()
      else if amount \<le> 0 then p_return ()
      else dyn_runStateOperation (p_bind (p_get dw_runtime) (\<lambda>previousRuntime.
        dyn_rollback_on_error previousRuntime
         (p_then (p_modify (\<lambda>w. (updateOutflowBudget cfg now w)\<lparr>dw_runtime :=
              (dw_runtime (updateOutflowBudget cfg now w))
                \<lparr>dr_budget := dr_budget (dw_runtime (updateOutflowBudget cfg now w)) - amount\<rparr>\<rparr>))
           (dyn_persistOutflowState previousRuntime)))))"

text \<open>The factor the rewards are multiplied with, and the module's state after the accrual
  the getter does.\<close>

definition dyn_restriction :: "(rat \<Rightarrow> rat) \<Rightarrow> dyn_config \<Rightarrow> int \<Rightarrow> dyn_runtime \<Rightarrow> rat" where
  "dyn_restriction rnd cfg now r = (case dr_rate r of
      None \<Rightarrow> 0
    | Some rate \<Rightarrow>
        if isRateStale cfg now r then 0
        else if rate = 0 then 0
        else if dr_budget r \<ge> 0 then 1
        else let cutoffBudget = rate * dc_cutoffWindow cfg; overdraft = dr_budget r * -1 in
          if overdraft \<ge> cutoffBudget then 0
          else rnd (of_int (10000 - bigint_div (10000 * overdraft) cutoffBudget) / 10000))"

definition dyn_getOutflowRestriction :: "(rat \<Rightarrow> rat) \<Rightarrow> dyn_config \<Rightarrow> int \<Rightarrow> dyn_world \<Rightarrow> rat \<times> dyn_world" where
  "dyn_getOutflowRestriction rnd cfg now w =
     (if \<not> is_certain (dw_own w) then (0, w)
      else let w' = updateOutflowBudget cfg now w in (dyn_restriction rnd cfg now (dw_runtime w'), w'))"

definition dyn_processSessionRewardFactor ::
  "(rat \<Rightarrow> rat) \<Rightarrow> string \<Rightarrow> dyn_config \<Rightarrow> int \<Rightarrow> string list \<Rightarrow> dyn_world \<Rightarrow> reward_factor list \<Rightarrow> reward_factor list \<times> dyn_world" where
  "dyn_processSessionRewardFactor rnd moduleName cfg now skipModules w factors =
     (if moduleName \<in> set skipModules then (factors, w)
      else let (restriction, w') = dyn_getOutflowRestriction rnd cfg now w in
        (if restriction < 1 then (factors @ [\<lparr>rf_factor = Fin restriction, rf_module = moduleName\<rparr>], w')
         else (factors, w')))"

subsection \<open>The module is a durable cell\<close>

definition dyn_durable :: "dyn_world \<Rightarrow> json_text option" where
  "dyn_durable w = js_get (db_kv (dw_db w)) DYN_KEY"

definition dyn_inv :: "dyn_world \<Rightarrow> bool" where
  "dyn_inv w = (case dw_own w of
      Certain d \<Rightarrow> dyn_durable w = d
    | Uncertain p n pr nr \<Rightarrow> (dyn_durable w = p \<or> dyn_durable w = Some n) \<and> n = dyn_serializeState nr)"

lemma wp_dyn_get:
  assumes "\<And>db. js_get (db_kv db) DYN_KEY = dyn_durable w \<Longrightarrow>
    Q (dyn_durable w) (w\<lparr>dw_db := db\<rparr>) \<and> (\<forall>e. E e (w\<lparr>dw_db := db\<rparr>))"
  shows "wp (dyn_db (getKeyValueEntry DYN_KEY)) Q E w"
  unfolding dyn_db_def getKeyValueEntry_def wp_simps
  by (rule wp_db_read) (use assms in \<open>auto simp: dyn_durable_def\<close>)

lemma wp_dyn_set:
  assumes "\<And>db. js_get (db_kv db) DYN_KEY = Some v \<Longrightarrow> Q () (w\<lparr>dw_db := db\<rparr>) \<and> (\<forall>e. E e (w\<lparr>dw_db := db\<rparr>))"
    and "\<And>db e. js_get (db_kv db) DYN_KEY = dyn_durable w \<Longrightarrow> E e (w\<lparr>dw_db := db\<rparr>)"
  shows "wp (dyn_db (setKeyValueEntry DYN_KEY v)) Q E w"
  unfolding dyn_db_def setKeyValueEntry_def wp_simps
  by (rule wp_db_write) (use assms in \<open>auto simp: dyn_durable_def\<close>)

lemma dyn_reconcile_spec:
  assumes "dyn_inv w"
  shows "wp dyn_reconcileWriteOwnership
    (\<lambda>_ w'. dyn_inv w' \<and> dyn_durable w' = dyn_durable w \<and> dw_own w' = Certain (dyn_durable w) \<and>
        dw_runtime w' = (case dw_own w of Certain _ \<Rightarrow> dw_runtime w
          | Uncertain p n pr nr \<Rightarrow> if dyn_durable w = Some n then nr else pr))
    (\<lambda>_ w'. dyn_inv w' \<and> dyn_durable w' = dyn_durable w \<and> dw_own w' = dw_own w \<and> dw_runtime w' = dw_runtime w) w"
proof (cases "dw_own w")
  case (Certain d)
  thus ?thesis using assms by (auto simp: dyn_reconcileWriteOwnership_def wp_simps dyn_inv_def)
next
  case (Uncertain p n pr nr)
  show ?thesis
    unfolding dyn_reconcileWriteOwnership_def wp_simps Uncertain ownership.case
    by (rule wp_dyn_get)
      (use assms Uncertain in \<open>auto simp: wp_simps dyn_set_own_def dyn_setRuntimeSnapshot_def dyn_inv_def dyn_durable_def\<close>)
qed

lemma dyn_persist_spec:
  assumes inv: "dyn_inv w" and own: "dw_own w = Certain d"
  shows "wp (dyn_persistOutflowState pr)
    (\<lambda>_ w'. dyn_inv w' \<and> dw_own w' = Certain (Some (dyn_serializeState (dw_runtime w))) \<and> dw_runtime w' = dw_runtime w)
    (\<lambda>_ w'. dyn_inv w' \<and> ((dw_own w' = Certain d \<and> (dw_runtime w' = pr \<or> dw_runtime w' = dw_runtime w)) \<or>
      (dw_own w' = Uncertain d (dyn_serializeState (dw_runtime w)) pr (dw_runtime w) \<and> dw_runtime w' = dw_runtime w))) w"
proof -
  let ?n = "dyn_serializeState (dw_runtime w)"
  have d: "dyn_durable w = d" using inv own by (simp add: dyn_inv_def)
  have re: "wp dyn_reconcileWriteOwnership Q E w \<longleftrightarrow> Q () w" for Q E
    by (simp add: dyn_reconcileWriteOwnership_def wp_simps own)
  show ?thesis
    unfolding dyn_persistOutflowState_def Let_def
    by (simp add: wp_simps re own)
      (rule wp_dyn_set;
       auto simp: wp_simps dyn_set_own_def dyn_setRuntimeSnapshot_def dyn_inv_def dyn_durable_def own d[unfolded dyn_durable_def]
         intro!: wp_dyn_get)
qed

interpretation dyn: durable_cell dyn_durable dw_own dw_runtime dyn_serializeState dyn_setRuntimeSnapshot
  dyn_reconcileWriteOwnership dyn_persistOutflowState dyn_inv
proof unfold_locales
  fix w d assume "dyn_inv w" "dw_own w = Certain d"
  thus "dyn_durable w = d" by (simp add: dyn_inv_def)
next
  fix w p n pr nr assume i: "dyn_inv w" and o': "dw_own w = Uncertain p n pr nr"
  from i show "(dyn_durable w = p \<or> dyn_durable w = Some n) \<and> n = dyn_serializeState nr"
    unfolding dyn_inv_def o' ownership.case .
next
  fix w r assume "dyn_inv w"
  thus "dyn_inv (dyn_setRuntimeSnapshot r w)"
    by (simp add: dyn_inv_def dyn_setRuntimeSnapshot_def dyn_durable_def split: ownership.splits)
qed (fact dyn_reconcile_spec dyn_persist_spec | simp add: dyn_setRuntimeSnapshot_def dyn_durable_def)+

definition debit_budget :: "dyn_config \<Rightarrow> int \<Rightarrow> int \<Rightarrow> dyn_runtime \<Rightarrow> dyn_runtime" where
  "debit_budget cfg now amount r = (accrue_budget cfg now r)\<lparr>dr_budget := dr_budget (accrue_budget cfg now r) - amount\<rparr>"

lemma rewarded_transacts:
  "dyn_processSessionRewarded m cfg now None amount = (if amount \<le> 0 then p_return () else
     dyn.transact (\<lambda>w. (updateOutflowBudget cfg now w)\<lparr>dw_runtime := (dw_runtime (updateOutflowBudget cfg now w))
       \<lparr>dr_budget := dr_budget (dw_runtime (updateOutflowBudget cfg now w)) - amount\<rparr>\<rparr>))"
  by (simp add: dyn_processSessionRewarded_def dyn.transact_def dyn_runStateOperation_def dyn_rollback_on_error_def)

lemma debit_runtime_change:
  "dyn.runtime_change (\<lambda>w. (updateOutflowBudget cfg now w)\<lparr>dw_runtime := (dw_runtime (updateOutflowBudget cfg now w))
       \<lparr>dr_budget := dr_budget (dw_runtime (updateOutflowBudget cfg now w)) - amount\<rparr>\<rparr>) (debit_budget cfg now amount)"
  unfolding dyn.runtime_change_def
  by (auto simp: updateOutflowBudget_def dyn_durable_def dyn_inv_def debit_budget_def split: ownership.splits)

text \<open>C19. A reward is debited from the dynamic outflow budget completely or not at all, whatever
  the database driver loses or refuses: when the operation resolves, the stored entry is
  exactly the accrued budget minus the amount; when it rejects, the module either still
  holds the state it had and the entry is unchanged, or it knows that it is uncertain
  between exactly these two entries, and adopts the stored one when it can read again.\<close>

theorem dynamic_reward_all_or_nothing:
  assumes "dyn_inv w" "amount > 0" and r0: "r0 = dyn.resolved w" and r1: "r1 = debit_budget cfg now amount r0"
  shows "case dyn_processSessionRewarded m cfg now None amount w of
      (Inr _, w') \<Rightarrow> dyn_inv w' \<and> dw_runtime w' = r1 \<and> dyn_durable w' = Some (dyn_serializeState r1)
    | (Inl _, w') \<Rightarrow> dyn_inv w' \<and>
        ((dw_own w' = dw_own w \<and> dyn_durable w' = dyn_durable w \<and> dw_runtime w' = dw_runtime w) \<or>
         (dw_own w' = Certain (dyn_durable w) \<and> dyn_durable w' = dyn_durable w \<and> dw_runtime w' = r0) \<or>
         dw_own w' = Uncertain (dyn_durable w) (dyn_serializeState r1) r0 r1)"
  using dyn.transact_all_or_nothing[OF assms(1) debit_runtime_change, of cfg now amount] assms(2)
  unfolding rewarded_transacts r0 r1
  by (auto simp: wp_def split: prod.splits sum.splits)

theorem dynamic_reward_all_or_nothing_witness:
  "let r = \<lparr>dr_budget = 0, dr_updateTime = 0, dr_rate = Some 2, dr_rateTime = 0\<rparr>;
     w = \<lparr>dw_db = \<lparr>db_sessions = [], db_kv = [], db_faults = [FLost, FOk]\<rparr>, dw_runtime = r, dw_own = Certain None\<rparr>;
     cfg = \<lparr>dc_targetDrainTime = 10, dc_refreshInterval = 60, dc_burstWindow = 5, dc_cutoffWindow = 5\<rparr>
   in case dyn_processSessionRewarded ''dynamic-outflow'' cfg 3 None 4 w of
      (Inr _, w') \<Rightarrow> dyn_durable w' = Some (JsonText (JObj [(''budget'', JStr ''2''), (''updateTime'', json_int 3)]))
    | (Inl _, w') \<Rightarrow> False"
proof -
  define r where "r = \<lparr>dr_budget = 0, dr_updateTime = 0, dr_rate = Some 2, dr_rateTime = 0\<rparr>"
  define w where "w = \<lparr>dw_db = \<lparr>db_sessions = [], db_kv = [], db_faults = [FLost, FOk]\<rparr>, dw_runtime = r, dw_own = Certain None\<rparr>"
  define cfg where "cfg = \<lparr>dc_targetDrainTime = 10, dc_refreshInterval = 60, dc_burstWindow = 5, dc_cutoffWindow = 5\<rparr>"
  note defs = r_def w_def cfg_def
  have run: "\<exists>w'. dyn_processSessionRewarded ''dynamic-outflow'' cfg 3 None 4 w = (Inr (), w')"
    by (simp add: defs dyn_processSessionRewarded_def dyn_runStateOperation_def dyn_reconcileWriteOwnership_def p_then_def
        p_bind_def p_get_def p_return_def dyn_rollback_on_error_def p_catch_def p_modify_def dyn_persistOutflowState_def
        Let_def dyn_db_def p_zoom_def setKeyValueEntry_def getKeyValueEntry_def db_write_def db_read_def next_fault_def
        p_throw_def dyn_set_own_def updateOutflowBudget_def accrue_budget_def dyn_serializeState_def DYN_KEY_def)
  have inv: "dyn_inv w" by (simp add: dyn_inv_def w_def dyn_durable_def)
  have "debit_budget cfg 3 4 (dyn.resolved w) = \<lparr>dr_budget = 2, dr_updateTime = 3, dr_rate = Some 2, dr_rateTime = 0\<rparr>"
    by (simp add: defs debit_budget_def accrue_budget_def dyn.resolved_def)
  moreover have "dec_int 2 = ''2''" by code_simp
  ultimately show ?thesis
    using dynamic_reward_all_or_nothing[OF inv _ refl refl, where amount = 4 and now = 3 and cfg = cfg and m = "''dynamic-outflow''"] run
    unfolding r_def[symmetric] cfg_def[symmetric] w_def[symmetric] Let_def by (auto simp: dyn_serializeState_def defs)
qed

subsection \<open>The restriction\<close>

lemma overdraft_share:
  assumes "0 < c" "0 \<le> d" "d < c"
  shows "0 \<le> 10000 * d div c" "10000 * d div c \<le> (10000::int)"
proof -
  have "10000 * d div c \<le> 10000 * c div c" using assms by (intro zdiv_mono1) auto
  thus "10000 * d div c \<le> 10000" using assms by simp
  show "0 \<le> 10000 * d div c" using assms by (simp add: pos_imp_zdiv_nonneg_iff)
qed

text \<open>The dynamic outflow factor lies between 0 and 1, is 0 while ownership is uncertain,
  while the rate is unknown, stale or zero and while the overdraft has reached the cutoff,
  is 1 with a non-negative budget, and never rises when the budget falls.\<close>

lemma dynamic_restriction_bounds:
  assumes "validateDynamicOutflowConfig config = Inr cfg" "mono rnd" "rnd 0 = 0" "rnd 1 = 1"
    and "\<And>rate. dr_rate r = Some rate \<Longrightarrow> 0 \<le> rate" and "b \<le> dr_budget r"
  shows "0 \<le> dyn_restriction rnd cfg now r \<and> dyn_restriction rnd cfg now r \<le> 1
    \<and> dyn_restriction rnd cfg now (r\<lparr>dr_budget := b\<rparr>) \<le> dyn_restriction rnd cfg now r"
proof (cases "dr_rate r")
  case None
  thus ?thesis by (simp add: dyn_restriction_def)
next
  case (Some rate)
  show ?thesis
  proof (cases "isRateStale cfg now r \<or> rate = 0")
    case True
    moreover have "isRateStale cfg now (r\<lparr>dr_budget := b\<rparr>) = isRateStale cfg now r" by (simp add: isRateStale_def)
    ultimately show ?thesis using Some by (auto simp: dyn_restriction_def)
  next
    case False
    have pos: "0 < dc_cutoffWindow cfg"
    proof -
      have "isPositiveSafeInteger (own_property config ''cutoffWindow'')" "dc_cutoffWindow cfg = get_int (own_property config ''cutoffWindow'')"
        using assms(1) by (auto simp: validateDynamicOutflowConfig_def durationFields_def split: if_splits)
      thus ?thesis
        by (cases "own_property config ''cutoffWindow''" rule: get_int.cases)
          (auto simp: isPositiveSafeInteger.simps safe_integer.simps split: if_splits option.splits)
    qed
    hence c: "0 < rate * dc_cutoffWindow cfg" using False assms(5)[OF Some] by simp
    let ?c = "rate * dc_cutoffWindow cfg"
    have st: "isRateStale cfg now (r\<lparr>dr_budget := x\<rparr>) \<longleftrightarrow> False" for x using False by (simp add: isRateStale_def)
    have val: "dyn_restriction rnd cfg now (r\<lparr>dr_budget := x\<rparr>) =
        (if x \<ge> 0 then 1 else if - x \<ge> ?c then 0 else rnd (of_int (10000 - 10000 * (- x) div ?c) / 10000))" for x
      using False Some c st[of x] by (simp add: dyn_restriction_def Let_def)
    have range: "0 \<le> rnd (of_int (10000 - 10000 * (- x) div ?c) / 10000)
        \<and> rnd (of_int (10000 - 10000 * (- x) div ?c) / 10000) \<le> 1" if "x < 0" "- x < ?c" for x
    proof -
      have "0 \<le> 10000 - 10000 * (- x) div ?c" "10000 - 10000 * (- x) div ?c \<le> 10000"
        using overdraft_share[OF c, of "- x"] that by auto
      hence "rnd 0 \<le> rnd (of_int (10000 - 10000 * (- x) div ?c) / 10000)"
        "rnd (of_int (10000 - 10000 * (- x) div ?c) / 10000) \<le> rnd 1"
        by (intro monoD[OF assms(2)]; simp add: divide_le_eq)+
      thus ?thesis using assms(3,4) by simp
    qed
    have mono: "rnd (of_int (10000 - 10000 * (- x) div ?c) / 10000) \<le> rnd (of_int (10000 - 10000 * (- y) div ?c) / 10000)"
      if "x \<le> y" for x y
    proof -
      have "10000 * (- y) div ?c \<le> 10000 * (- x) div ?c" using that c by (intro zdiv_mono1) auto
      thus ?thesis by (intro monoD[OF assms(2)] divide_right_mono) auto
    qed
    have r: "r = r\<lparr>dr_budget := dr_budget r\<rparr>" by simp
    show ?thesis
      using val[of b] val[of "dr_budget r"] range[of b] range[of "dr_budget r"] mono[OF assms(6)] assms(6)
      by (auto simp: not_le)
  qed
qed

lemma dynamic_restriction_bounds_at:
  "\<exists>cfg. validateDynamicOutflowConfig (JObj [(''targetDrainTime'', json_int 100), (''refreshInterval'', json_int 60),
      (''burstWindow'', json_int 10), (''cutoffWindow'', json_int 10)]) = Inr cfg
    \<and> dyn_restriction id cfg 0 \<lparr>dr_budget = -5, dr_updateTime = 0, dr_rate = Some 1, dr_rateTime = 0\<rparr> \<le> 1"
proof -
  let ?cfg = "\<lparr>dc_targetDrainTime = 100, dc_refreshInterval = 60, dc_burstWindow = 10, dc_cutoffWindow = 10\<rparr>"
  have v: "validateDynamicOutflowConfig (JObj [(''targetDrainTime'', json_int 100), (''refreshInterval'', json_int 60),
      (''burstWindow'', json_int 10), (''cutoffWindow'', json_int 10)]) = Inr ?cfg"
    by (simp add: validateDynamicOutflowConfig_def durationFields_def isPositiveSafeInteger.simps safe_integer.simps
        is_safe_integer_def max_safe_integer_def)
  have "dyn_restriction id ?cfg 0 \<lparr>dr_budget = -5, dr_updateTime = 0, dr_rate = Some 1, dr_rateTime = 0\<rparr> \<le> 1"
    using dynamic_restriction_bounds[OF v, of id "\<lparr>dr_budget = -5, dr_updateTime = 0, dr_rate = Some 1, dr_rateTime = 0\<rparr>" "-5" 0]
    by (simp add: mono_def)
  with v show ?thesis by blast
qed

end
