(* ===== verification/Faucet_Outflow.thy ===== *)
theory Faucet_Outflow
  imports Outflow_State Dynamic_Outflow
begin

text \<open>
  The operations of \<^verbatim>\<open>src/src/modules/faucet-outflow/FaucetOutflowModule.ts\<close>: loading and
  persisting the state under the write-ownership protocol, accounting rewards and native
  claim fees, pruning markers and guarding the session cleanup.  Each operation reads the
  clock once (\<^verbatim>\<open>now\<close>); \<^verbatim>\<open>limit\<close> is \<^verbatim>\<open>getClaimFeeMarkerLimit\<close>.
\<close>

record outflow_world =
  ow_db :: faucet_db
  ow_runtime :: outflow_runtime
  ow_own :: "outflow_runtime ownership"
  ow_uncertainFee :: "(string \<times> string) option"

type_synonym 'a outflow_op = "(outflow_world, outflow_error, 'a) proc"

definition OUTFLOW_STATE_KEY :: string where "OUTFLOW_STATE_KEY = ''PoWOutflowLimiter.state''"

abbreviation ow_state :: "outflow_world \<Rightarrow> outflow_state" where "ow_state w \<equiv> rt_state (ow_runtime w)"

abbreviation ow_policy :: "outflow_world \<Rightarrow> outflow_policy" where "ow_policy w \<equiv> rt_policy (ow_runtime w)"

definition out_db :: "'a db_op \<Rightarrow> 'a outflow_op" where
  "out_db m = p_catch (p_zoom ow_db (\<lambda>db w. w\<lparr>ow_db := db\<rparr>) m) (\<lambda>e. p_throw (DbFailure e))"

definition out_lift :: "string + 'a \<Rightarrow> 'a outflow_op" where
  "out_lift r = (case r of Inl e \<Rightarrow> p_throw (InvalidState e) | Inr a \<Rightarrow> p_return a)"

definition set_own :: "outflow_runtime ownership \<Rightarrow> unit outflow_op" where
  "set_own own = p_modify (\<lambda>w. w\<lparr>ow_own := own\<rparr>)"

definition set_state :: "outflow_state \<Rightarrow> outflow_world \<Rightarrow> outflow_world" where
  "set_state s w = w\<lparr>ow_runtime := (ow_runtime w)\<lparr>rt_state := s\<rparr>\<rparr>"

definition setRuntimeSnapshot :: "outflow_runtime \<Rightarrow> outflow_world \<Rightarrow> outflow_world" where
  "setRuntimeSnapshot r w = w\<lparr>ow_runtime := r\<rparr>"

abbreviation get_state_text :: "json_text option outflow_op" where
  "get_state_text \<equiv> out_db (getKeyValueEntry OUTFLOW_STATE_KEY)"

subsection \<open>Ownership\<close>

definition reconcileWriteOwnership :: "unit outflow_op" where
  "reconcileWriteOwnership = p_bind (p_get ow_own) (\<lambda>own. case own of
      Certain _ \<Rightarrow> p_return ()
    | Uncertain previousJson nextJson previousRuntime nextRuntime \<Rightarrow>
       p_bind (p_catch get_state_text (\<lambda>_. p_throw UncertainWrite)) (\<lambda>observedJson.
        if observedJson = Some nextJson then
          p_then (p_modify (setRuntimeSnapshot nextRuntime)) (set_own (Certain (Some nextJson)))
        else if observedJson = previousJson then
          p_then (p_modify (setRuntimeSnapshot previousRuntime)) (set_own (Certain previousJson))
        else p_throw Diverged))"

definition persistOutflowState :: "outflow_runtime \<Rightarrow> unit outflow_op" where
  "persistOutflowState previousRuntime =
     p_then reconcileWriteOwnership (p_bind (p_get ow_own) (\<lambda>own. case own of
        Uncertain _ _ _ _ \<Rightarrow> p_throw UncertainWrite
      | Certain previousJson \<Rightarrow>
         p_bind (p_get ow_uncertainFee) (\<lambda>fee.
         if fee \<noteq> None
         then p_throw (InvalidState ''Faucet outflow persistence is blocked by uncertain claim-fee accounting'')
         else p_bind (p_get ow_runtime) (\<lambda>nextRuntime.
         let nextJson = serializeState (rt_state nextRuntime) in
         p_catch (p_then (out_db (setKeyValueEntry OUTFLOW_STATE_KEY nextJson)) (set_own (Certain (Some nextJson))))
          (\<lambda>writeError.
             p_then (set_own (Uncertain previousJson nextJson previousRuntime nextRuntime))
             (p_bind (p_catch get_state_text (\<lambda>_. p_throw UncertainWrite)) (\<lambda>observedJson.
                if observedJson = Some nextJson then
                  p_then (p_modify (setRuntimeSnapshot nextRuntime)) (set_own (Certain (Some nextJson)))
                else if observedJson = previousJson then
                  p_then (p_modify (setRuntimeSnapshot previousRuntime))
                    (p_then (set_own (Certain previousJson)) (p_throw writeError))
                else p_throw Diverged)))))))"

definition runStateOperation :: "'a outflow_op \<Rightarrow> 'a outflow_op" where
  "runStateOperation operation = p_then reconcileWriteOwnership operation"

definition rollback_on_error :: "outflow_runtime \<Rightarrow> unit outflow_op \<Rightarrow> unit outflow_op" where
  "rollback_on_error previousRuntime m = p_catch m
     (\<lambda>e. p_bind (p_get (\<lambda>w. is_certain (ow_own w))) (\<lambda>certain.
        p_then (p_when certain (p_modify (setRuntimeSnapshot previousRuntime))) (p_throw e)))"

subsection \<open>Balance\<close>

definition settleBalance :: "int \<Rightarrow> outflow_world \<Rightarrow> outflow_world" where
  "settleBalance now w = (if \<not> is_certain (ow_own w) then w else set_state (settle now (ow_state w)) w)"

definition clampBalance :: "outflow_world \<Rightarrow> outflow_world" where
  "clampBalance w = set_state (clampUpperLimit (ow_policy w) (ow_state w)) w"

definition installPolicy :: "int \<Rightarrow> outflow_policy \<Rightarrow> outflow_world \<Rightarrow> outflow_world" where
  "installPolicy now p w = (let w' = settleBalance now w in
     set_state ((ow_state w')\<lparr>os_rateAmount := pol_amount p, os_rateDuration := pol_duration p\<rparr>) w')"

definition enforceBalanceBoundaries :: "int \<Rightarrow> outflow_world \<Rightarrow> outflow_world" where
  "enforceBalanceBoundaries now w = (let w' = clampBalance (settleBalance now w) in
     if compareBalance (ow_state w') (pol_lowerLimit (ow_policy w')) < 0
     then set_state (setBalance (pol_lowerLimit (ow_policy w')) (ow_state w')) w' else w')"

definition getOutflowRestriction :: "(rat \<Rightarrow> rat) \<Rightarrow> int \<Rightarrow> outflow_world \<Rightarrow> rat \<times> outflow_world" where
  "getOutflowRestriction rnd now w =
     (if \<not> is_certain (ow_own w) \<or> ow_uncertainFee w \<noteq> None then (0, w)
      else let w' = clampBalance (settleBalance now w) in (outflow_restriction rnd (ow_policy w') (ow_state w'), w'))"

definition getOutflowBalance :: "int \<Rightarrow> outflow_world \<Rightarrow> int \<times> outflow_world" where
  "getOutflowBalance now w =
     (let w' = (if \<not> is_certain (ow_own w) then w else clampBalance (settleBalance now w)) in
      (bigint_div (os_num (ow_state w')) (os_den (ow_state w')), w'))"

definition processSessionRewardFactor ::
  "(rat \<Rightarrow> rat) \<Rightarrow> string \<Rightarrow> int \<Rightarrow> string list \<Rightarrow> outflow_world \<Rightarrow> reward_factor list \<Rightarrow> reward_factor list \<times> outflow_world" where
  "processSessionRewardFactor rnd moduleName now skipModules w factors =
     (if moduleName \<in> set skipModules then (factors, w)
      else let (restriction, w') = getOutflowRestriction rnd now w in
        (if restriction < 100 then (factors @ [\<lparr>rf_factor = Fin (rnd (restriction / 100)), rf_module = moduleName\<rparr>], w')
         else (factors, w')))"

subsection \<open>Loading and pruning\<close>

definition resolveUncertainClaimFee :: "outflow_state \<Rightarrow> unit outflow_op" where
  "resolveUncertainClaimFee s = p_bind (p_get ow_uncertainFee) (\<lambda>fee. case fee of
      None \<Rightarrow> p_return ()
    | Some (txHash, session) \<Rightarrow>
       if (case js_get (os_fees s) txHash of None \<Rightarrow> False | Some s' \<Rightarrow> s' \<noteq> session)
       then p_throw (InvalidState ''Uncertain claim transaction hash is owned by another session'')
       else p_modify (\<lambda>w. w\<lparr>ow_uncertainFee := None\<rparr>))"

definition loadOutflowStateInternal :: "nat \<Rightarrow> int \<Rightarrow> unit outflow_op" where
  "loadOutflowStateInternal limit now =
     p_bind get_state_text (\<lambda>stateJson.
     p_then (set_own (Certain stateJson))
      (if stateJson = None \<or> stateJson = Some (NotJson [])
       then p_bind (p_get ow_uncertainFee) (\<lambda>fee.
         if fee \<noteq> None
         then p_throw (InvalidState ''Faucet outflow state disappeared during uncertain claim-fee accounting'')
         else p_modify (\<lambda>w. set_state (createEmptyState now (ow_policy w)) w))
       else p_bind (p_get ow_policy) (\<lambda>pol.
         p_bind (out_lift (parsePersistedState limit now pol (the stateJson))) (\<lambda>s.
         p_then (p_modify (set_state s)) (resolveUncertainClaimFee s)))))"

text \<open>\<^verbatim>\<open>isDurablyFinalizedClaim\<close>\<close>

definition isDurablyFinalizedClaim :: "store_data option \<Rightarrow> string \<Rightarrow> bool" where
  "isDurablyFinalizedClaim session txHash = (case session of
      None \<Rightarrow> False
    | Some d \<Rightarrow> sd_status d = FINISHED \<and> (case claim_of_json (sd_claim d) of
          Some c \<Rightarrow> (case ec_phase c of Confirmed t _ _ \<Rightarrow> toLowerCase (st_txHash t) = txHash | _ \<Rightarrow> False)
        | None \<Rightarrow> False))"

text \<open>\<^verbatim>\<open>pruneFinalizedClaimFees\<close> returns the state without the markers it deletes; an error
  leaves the deletions made so far in the object, which its callers discard.\<close>

fun prune_fees :: "(string \<times> string) list \<Rightarrow> outflow_state \<Rightarrow> outflow_state outflow_op" where
  "prune_fees [] s = p_return s"
| "prune_fees ((txHash, sessionId) # es) s =
     p_bind (out_db (getSession sessionId)) (\<lambda>stored.
       prune_fees es (if isDurablyFinalizedClaim stored txHash then s\<lparr>os_fees := js_delete txHash (os_fees s)\<rparr> else s))"

definition pruneFinalizedClaimFees :: "outflow_state \<Rightarrow> outflow_state outflow_op" where
  "pruneFinalizedClaimFees s = prune_fees (os_fees s) s"

definition saveOutflowState :: "unit outflow_op" where
  "saveOutflowState = runStateOperation (p_bind (p_get ow_runtime) (\<lambda>previousRuntime.
     rollback_on_error previousRuntime
       (p_bind (pruneFinalizedClaimFees (rt_state previousRuntime)) (\<lambda>s.
        p_then (p_modify (set_state s)) (persistOutflowState previousRuntime)))))"

definition startOutflow :: "nat \<Rightarrow> int \<Rightarrow> outflow_policy \<Rightarrow> unit outflow_op" where
  "startOutflow limit now pol =
     p_then (p_modify (\<lambda>w. w\<lparr>ow_runtime := (ow_runtime w)\<lparr>rt_policy := pol\<rparr>\<rparr>))
     (runStateOperation (p_then (loadOutflowStateInternal limit now)
       (p_bind (p_get ow_runtime) (\<lambda>previousRuntime.
        p_then (p_modify (\<lambda>w. enforceBalanceBoundaries now (installPolicy now (ow_policy w) w)))
        (p_bind (p_get ow_state) (\<lambda>s. p_bind (pruneFinalizedClaimFees s) (\<lambda>s'.
         p_then (p_modify (set_state s')) (persistOutflowState previousRuntime))))))))"

definition onConfigReload :: "int \<Rightarrow> outflow_policy \<Rightarrow> unit outflow_op" where
  "onConfigReload now nextPolicy = runStateOperation (p_bind (p_get ow_runtime) (\<lambda>previousRuntime.
     rollback_on_error previousRuntime
       (p_then (p_modify (\<lambda>w. enforceBalanceBoundaries now
            ((installPolicy now nextPolicy w)\<lparr>ow_runtime := (ow_runtime (installPolicy now nextPolicy w))\<lparr>rt_policy := nextPolicy\<rparr>\<rparr>)))
        (persistOutflowState previousRuntime))))"

definition charge :: "int \<Rightarrow> int \<Rightarrow> outflow_world \<Rightarrow> outflow_world" where
  "charge now amount w = (let w' = clampBalance (settleBalance now w) in
     set_state (normalizeBalance (debit amount (ow_state w'))) w')"

text \<open>One operation on the state is one step: the queue of state operations keeps others out, but a read of the
  balance that settles it in memory between two awaits is not interleaved here.\<close>

definition updateState :: "string \<Rightarrow> int \<Rightarrow> string list option \<Rightarrow> int \<Rightarrow> unit outflow_op" where
  "updateState moduleName now skipModules minedAmount =
     (if (case skipModules of None \<Rightarrow> False | Some ms \<Rightarrow> moduleName \<in> set ms) then p_return ()
      else if minedAmount < 0 then p_return ()
      else runStateOperation (p_bind (p_get ow_runtime) (\<lambda>previousRuntime.
        rollback_on_error previousRuntime
          (p_then (p_modify (charge now minedAmount)) (persistOutflowState previousRuntime)))))"

subsection \<open>Claim fees\<close>

definition owned_by_claim :: "store_data option \<Rightarrow> eth_claim \<Rightarrow> string \<Rightarrow> bool" where
  "owned_by_claim stored claim txHash = (case stored of
      None \<Rightarrow> False
    | Some d \<Rightarrow> sd_status d = CLAIMING \<and> (case claim_of_json (sd_claim d) of
          Some c \<Rightarrow> (case ec_phase c of Confirmed t _ _ \<Rightarrow> toLowerCase (st_txHash t) = txHash | _ \<Rightarrow> False)
        | None \<Rightarrow> False) \<and> sd_claim d = claim_json claim)"

text \<open>The state a fee is recorded in: settled, clamped, debited and marked.\<close>

definition fee_charged :: "int \<Rightarrow> outflow_policy \<Rightarrow> int \<Rightarrow> string \<Rightarrow> string \<Rightarrow> outflow_state \<Rightarrow> outflow_state" where
  "fee_charged now pol fee txHash session s =
     (let s = debit fee (clampUpperLimit pol (settle now s)) in
      normalizeBalance (s\<lparr>os_fees := js_set txHash session (os_fees s)\<rparr>))"

text \<open>The catch block of the compare-and-set: the write may or may not have happened, and
  the stored state decides.\<close>

definition fee_write_failed ::
  "nat \<Rightarrow> int \<Rightarrow> outflow_policy \<Rightarrow> string \<Rightarrow> string \<Rightarrow> outflow_state \<Rightarrow> outflow_error \<Rightarrow> unit outflow_op" where
  "fee_write_failed limit now pol session txHash previousState e =
     p_then (p_modify (\<lambda>w. (set_state previousState w)\<lparr>ow_uncertainFee := Some (txHash, session)\<rparr>))
     (p_bind (p_catch get_state_text (\<lambda>_. p_throw e)) (\<lambda>observed. case observed of
        None \<Rightarrow> p_throw e
      | Some text \<Rightarrow>
         p_bind (out_lift (parsePersistedState limit now pol text)) (\<lambda>observedState.
         p_then (resolveUncertainClaimFee observedState)
         (p_then (p_modify (set_state observedState))
         (p_then (set_own (Certain (Some text)))
          (case js_get (os_fees observedState) txHash of
             Some owner \<Rightarrow> (if owner = session then p_return ()
               else p_throw (InvalidState ''Claim transaction hash is already owned by another session''))
           | None \<Rightarrow> p_throw e))))))"

text \<open>One iteration of the compare-and-set loop per unit of fuel.\<close>

definition try_compare_and_set :: "json_text \<Rightarrow> json_text \<Rightarrow> (outflow_error + bool) outflow_op" where
  "try_compare_and_set text nextJson =
     p_catch (p_bind (out_db (compareAndSetKeyValueEntry OUTFLOW_STATE_KEY text nextJson)) (\<lambda>b. p_return (Inr b)))
       (\<lambda>e. p_return (Inl e))"

definition charge_fee ::
  "nat \<Rightarrow> int \<Rightarrow> outflow_policy \<Rightarrow> string \<Rightarrow> string \<Rightarrow> int \<Rightarrow> json_text \<Rightarrow> outflow_state \<Rightarrow> unit outflow_op \<Rightarrow> unit outflow_op" where
  "charge_fee limit now pol session txHash txFee text pruned retry =
     (if length (os_fees pruned) \<ge> limit
      then p_throw (InvalidState ''Faucet outflow claim-fee marker bound reached'')
      else p_bind (p_get ow_state) (\<lambda>previousState.
        p_then (p_modify (set_state (fee_charged now pol txFee txHash session pruned)))
        (p_bind (try_compare_and_set text (serializeState (fee_charged now pol txFee txHash session pruned))) (\<lambda>outcome.
          case outcome of
            Inl e \<Rightarrow> fee_write_failed limit now pol session txHash previousState e
          | Inr written \<Rightarrow>
              (if written
               then set_own (Certain (Some (serializeState (fee_charged now pol txFee txHash session pruned))))
               else p_then (p_modify (set_state previousState)) retry)))))"

fun account_fee :: "nat \<Rightarrow> nat \<Rightarrow> int \<Rightarrow> string \<Rightarrow> eth_claim \<Rightarrow> string \<Rightarrow> int \<Rightarrow> unit outflow_op" where
  "account_fee 0 limit now session claim txHash txFee = p_throw FuelExhausted"
| "account_fee (Suc fuel) limit now session claim txHash txFee =
     p_bind get_state_text (\<lambda>persistedJson. case persistedJson of
        None \<Rightarrow> p_throw (InvalidState ''Faucet outflow state disappeared while accounting a claim fee'')
      | Some text \<Rightarrow>
         p_bind (p_get ow_policy) (\<lambda>pol.
         p_bind (out_lift (parsePersistedState limit now pol text)) (\<lambda>persisted.
         p_then (resolveUncertainClaimFee persisted)
         (p_then (set_own (Certain (Some text)))
         (case js_get (os_fees persisted) txHash of
            Some owner \<Rightarrow>
              (if owner \<noteq> session then p_throw (InvalidState ''Claim transaction hash is already owned by another session'')
               else p_modify (set_state persisted))
          | None \<Rightarrow>
             p_bind (out_db (getSession session)) (\<lambda>stored.
             if isDurablyFinalizedClaim stored txHash then p_modify (set_state persisted)
             else if \<not> owned_by_claim stored claim txHash
             then p_throw (InvalidState ''Confirmed claim fee accounting lost durable session ownership'')
             else p_bind (pruneFinalizedClaimFees persisted) (\<lambda>pruned.
             charge_fee limit now pol session txHash txFee text pruned
               (account_fee fuel limit now session claim txHash txFee))))))))"

definition accountConfirmedNativeClaimFee :: "nat \<Rightarrow> nat \<Rightarrow> int \<Rightarrow> claim_info \<Rightarrow> unit outflow_op" where
  "accountConfirmedNativeClaimFee fuel limit now info = (case ec_phase (ci_claim info) of
      Confirmed t _ fee \<Rightarrow>
        account_fee fuel limit now (ci_session info) (ci_claim info) (toLowerCase (st_txHash t)) (int (dec_value fee))
    | _ \<Rightarrow> p_throw (InvalidState ''Cannot account a non-confirmed claim fee''))"

definition processSessionClaimed :: "nat \<Rightarrow> nat \<Rightarrow> int \<Rightarrow> bool \<Rightarrow> claim_info \<Rightarrow> unit outflow_op" where
  "processSessionClaimed fuel limit now native info =
     (if claim_status (ci_claim info) \<noteq> CONFIRMED
      then p_throw (InvalidState ''Faucet outflow received an invalid confirmed claim'')
      else if \<not> native then p_return ()
      else runStateOperation (accountConfirmedNativeClaimFee fuel limit now info))"

text \<open>The cleanup guard: a finalized session whose fee marker is still stored is kept.\<close>

definition canCleanupPersistedClaimFee :: "nat \<Rightarrow> cleanup_guard" where
  "canCleanupPersistedClaimFee limit c = (case (cd_status c, cd_claim c) of
      (FINISHED, Some claim) \<Rightarrow> (case ec_phase claim of
          Confirmed t _ _ \<Rightarrow>
            p_bind (getKeyValueEntry OUTFLOW_STATE_KEY) (\<lambda>stateJson. case stateJson of
              None \<Rightarrow> p_return True
            | Some text \<Rightarrow>
               (case parsePersistedClaimFeeMarkers limit text of
                  Inl e \<Rightarrow> p_throw (DbError e)
                | Inr markers \<Rightarrow>
                   (let txHash = toLowerCase (st_txHash t) in
                    if (case js_get markers txHash of None \<Rightarrow> False | Some s \<Rightarrow> s \<noteq> cd_sessionId c)
                    then p_throw (DbError ''Finalized claim fee marker is owned by another session'')
                    else if \<exists>(h, s) \<in> set markers. s = cd_sessionId c \<and> h \<noteq> txHash
                    then p_throw (DbError ''Finalized session owns a conflicting claim fee marker'')
                    else p_return (js_get markers txHash = None))))
        | _ \<Rightarrow> p_return True)
    | _ \<Rightarrow> p_return True)"

text \<open>It leaves the sessions alone, as the cleanup expects of a guard.\<close>

lemma claim_fee_guard_leaves: "leaves_sessions (canCleanupPersistedClaimFee limit)"
proof -
  let ?same = "\<lambda>db db'. db_sessions db' = db_sessions db"
  have key: "wp (getKeyValueEntry k) (\<lambda>_. ?same db) (\<lambda>_. ?same db) db" for k db
    unfolding getKeyValueEntry_def by (rule wp_db_read) simp_all
  have "wp (canCleanupPersistedClaimFee limit c) (\<lambda>_. ?same db) (\<lambda>_. ?same db) db" for c db
    unfolding canCleanupPersistedClaimFee_def
    by (auto simp: wp_simps split: session_status.split option.split claim_phase.split)
      (rule wp_mono[OF key], auto simp: wp_simps Let_def split: option.split sum.split)
  hence "?same db (snd (canCleanupPersistedClaimFee limit c db))" for c db by (rule wp_snd)
  thus ?thesis by (simp add: leaves_sessions_def)
qed

subsection \<open>The module is a durable cell\<close>

definition durable :: "outflow_world \<Rightarrow> json_text option" where
  "durable w = js_get (db_kv (ow_db w)) OUTFLOW_STATE_KEY"

definition outflow_inv :: "outflow_world \<Rightarrow> bool" where
  "outflow_inv w = (case ow_own w of
      Certain d \<Rightarrow> durable w = d
    | Uncertain p n pr nr \<Rightarrow> (durable w = p \<or> durable w = Some n) \<and> n = serializeState (rt_state nr))"

text \<open>Worlds that differ only in the faults still to come.\<close>

definition same_tables :: "faucet_db \<Rightarrow> faucet_db \<Rightarrow> bool" where
  "same_tables db db' \<longleftrightarrow> db_kv db' = db_kv db \<and> db_sessions db' = db_sessions db"

lemma wp_out_get:
  assumes "\<And>db. same_tables (ow_db w) db \<Longrightarrow> Q (durable w) (w\<lparr>ow_db := db\<rparr>) \<and> (\<forall>e. E e (w\<lparr>ow_db := db\<rparr>))"
  shows "wp get_state_text Q E w"
  unfolding out_db_def getKeyValueEntry_def wp_simps
  by (rule wp_db_read) (use assms in \<open>auto simp: durable_def same_tables_def\<close>)

lemma wp_out_set:
  assumes "\<And>db. db_kv db = js_set OUTFLOW_STATE_KEY v (db_kv (ow_db w)) \<Longrightarrow> db_sessions db = db_sessions (ow_db w) \<Longrightarrow>
      Q () (w\<lparr>ow_db := db\<rparr>) \<and> (\<forall>e. E e (w\<lparr>ow_db := db\<rparr>))"
    and "\<And>db e. same_tables (ow_db w) db \<Longrightarrow> E e (w\<lparr>ow_db := db\<rparr>)"
  shows "wp (out_db (setKeyValueEntry OUTFLOW_STATE_KEY v)) Q E w"
  unfolding out_db_def setKeyValueEntry_def wp_simps
  by (rule wp_db_write) (use assms in \<open>auto simp: same_tables_def\<close>)

lemma outflow_reconcile_spec:
  assumes "outflow_inv w"
  shows "wp reconcileWriteOwnership
    (\<lambda>_ w'. outflow_inv w' \<and> durable w' = durable w \<and> ow_own w' = Certain (durable w) \<and>
        ow_runtime w' = (case ow_own w of Certain _ \<Rightarrow> ow_runtime w
          | Uncertain p n pr nr \<Rightarrow> if durable w = Some n then nr else pr))
    (\<lambda>_ w'. outflow_inv w' \<and> durable w' = durable w \<and> ow_own w' = ow_own w \<and> ow_runtime w' = ow_runtime w) w"
proof (cases "ow_own w")
  case (Certain d)
  thus ?thesis using assms by (auto simp: reconcileWriteOwnership_def wp_simps outflow_inv_def)
next
  case (Uncertain p n pr nr)
  show ?thesis
    unfolding reconcileWriteOwnership_def wp_simps Uncertain ownership.case
    by (rule wp_out_get)
      (use assms Uncertain in \<open>auto simp: wp_simps set_own_def setRuntimeSnapshot_def outflow_inv_def durable_def same_tables_def\<close>)
qed

lemma outflow_persist_spec:
  assumes inv: "outflow_inv w" and own: "ow_own w = Certain d"
  shows "wp (persistOutflowState pr)
    (\<lambda>_ w'. outflow_inv w' \<and> ow_own w' = Certain (Some (serializeState (ow_state w))) \<and> ow_runtime w' = ow_runtime w)
    (\<lambda>_ w'. outflow_inv w' \<and> ((ow_own w' = Certain d \<and> (ow_runtime w' = pr \<or> ow_runtime w' = ow_runtime w)) \<or>
      (ow_own w' = Uncertain d (serializeState (ow_state w)) pr (ow_runtime w) \<and> ow_runtime w' = ow_runtime w))) w"
proof -
  have d: "durable w = d" using inv own by (simp add: outflow_inv_def)
  have re: "wp reconcileWriteOwnership Q E w \<longleftrightarrow> Q () w" for Q E
    by (simp add: reconcileWriteOwnership_def wp_simps own)
  show ?thesis
  proof (cases "ow_uncertainFee w")
    case None
    show ?thesis
      unfolding persistOutflowState_def Let_def
      by (simp add: wp_simps re own None)
        (rule wp_out_set;
         auto simp: wp_simps set_own_def setRuntimeSnapshot_def outflow_inv_def durable_def same_tables_def own d[unfolded durable_def]
           intro!: wp_out_get)
  next
    case (Some fee)
    show ?thesis
      using inv own by (simp add: persistOutflowState_def wp_simps re Some)
  qed
qed

interpretation ocell: durable_cell durable ow_own ow_runtime "\<lambda>r. serializeState (rt_state r)" setRuntimeSnapshot
  reconcileWriteOwnership persistOutflowState outflow_inv
proof unfold_locales
  fix w d assume "outflow_inv w" "ow_own w = Certain d"
  thus "durable w = d" by (simp add: outflow_inv_def)
next
  fix w p n pr nr assume i: "outflow_inv w" and o': "ow_own w = Uncertain p n pr nr"
  from i show "(durable w = p \<or> durable w = Some n) \<and> n = serializeState (rt_state nr)"
    unfolding outflow_inv_def o' ownership.case .
next
  fix w r assume "outflow_inv w"
  thus "outflow_inv (setRuntimeSnapshot r w)"
    by (simp add: outflow_inv_def setRuntimeSnapshot_def durable_def split: ownership.splits)
qed (fact outflow_reconcile_spec outflow_persist_spec | simp add: setRuntimeSnapshot_def durable_def)+

definition charge_runtime :: "int \<Rightarrow> int \<Rightarrow> outflow_runtime \<Rightarrow> outflow_runtime" where
  "charge_runtime now amount r = r\<lparr>rt_state :=
     normalizeBalance (debit amount (clampUpperLimit (rt_policy r) (settle now (rt_state r))))\<rparr>"

lemma charge_change: "ocell.runtime_change (charge now amount) (charge_runtime now amount)"
  unfolding ocell.runtime_change_def
  by (auto simp: charge_def charge_runtime_def clampBalance_def settleBalance_def set_state_def Let_def durable_def
      outflow_inv_def split: ownership.splits)

lemma updateState_transacts:
  "updateState m now None amount = (if amount < 0 then p_return () else ocell.transact (charge now amount))"
  by (simp add: updateState_def ocell.transact_def runStateOperation_def rollback_on_error_def)

text \<open>C18. A mined amount leaves the outflow balance completely or not at all, for every list of
  driver faults: when \<^verbatim>\<open>updateState\<close> resolves, the stored state is the settled and clamped
  balance less exactly the amount; when it rejects, memory and store are as before, or
  the module knows that it is uncertain between the two texts.\<close>

theorem outflow_update_all_or_nothing:
  assumes "outflow_inv w" "amount \<ge> 0" and r0: "r0 = ocell.resolved w" and r1: "r1 = charge_runtime now amount r0"
  shows "case updateState m now None amount w of
      (Inr _, w') \<Rightarrow> outflow_inv w' \<and> ow_runtime w' = r1 \<and> durable w' = Some (serializeState (rt_state r1))
    | (Inl _, w') \<Rightarrow> outflow_inv w' \<and>
        ((ow_own w' = ow_own w \<and> durable w' = durable w \<and> ow_runtime w' = ow_runtime w) \<or>
         (ow_own w' = Certain (durable w) \<and> durable w' = durable w \<and> ow_runtime w' = r0) \<or>
         ow_own w' = Uncertain (durable w) (serializeState (rt_state r1)) r0 r1)"
  using ocell.transact_all_or_nothing[OF assms(1) charge_change, of now amount] assms(2)
  unfolding updateState_transacts r0 r1
  by (auto simp: wp_def split: prod.splits sum.splits)

theorem outflow_update_all_or_nothing_witness:
  "let s = \<lparr>os_num = 0, os_den = 1, os_updateTime = 0, os_rateAmount = 1, os_rateDuration = 1, os_fees = []\<rparr>;
     w = \<lparr>ow_db = \<lparr>db_sessions = [], db_kv = [], db_faults = [FFail, FFail]\<rparr>,
       ow_runtime = \<lparr>rt_state = s, rt_policy = \<lparr>pol_amount = 1, pol_duration = 1, pol_lowerLimit = 0, pol_upperLimit = 5\<rparr>\<rparr>,
       ow_own = Certain None, ow_uncertainFee = None\<rparr>
   in outflow_inv (snd (updateState ''faucet-outflow'' 3 None 4 w))"
proof -
  define w where "w = \<lparr>ow_db = \<lparr>db_sessions = [], db_kv = [], db_faults = [FFail, FFail]\<rparr>,
       ow_runtime = \<lparr>rt_state = \<lparr>os_num = 0, os_den = 1, os_updateTime = 0, os_rateAmount = 1, os_rateDuration = 1, os_fees = []\<rparr>,
         rt_policy = \<lparr>pol_amount = 1, pol_duration = 1, pol_lowerLimit = 0, pol_upperLimit = 5\<rparr>\<rparr>,
       ow_own = Certain None, ow_uncertainFee = None\<rparr>"
  have "outflow_inv w" by (simp add: outflow_inv_def w_def durable_def)
  from outflow_update_all_or_nothing[OF this _ refl refl, where amount = 4 and now = 3 and m = "''faucet-outflow''"]
  have "outflow_inv (snd (updateState ''faucet-outflow'' 3 None 4 w))" by (auto split: prod.splits sum.splits)
  thus ?thesis by (simp add: w_def)
qed

end
