(* ===== verification/Claim_Fees.thy ===== *)
theory Claim_Fees
  imports Faucet_Outflow
begin

text \<open>
  The accounting of native claim fees in \<^verbatim>\<open>Faucet_Outflow\<close>: what a stored state that
  parses looks like, what pruning may remove, and that the compare-and-set debits the
  fee of a confirmed claim at most once.
\<close>

subsection \<open>What parses is well formed\<close>

lemma lower_char_hex: "is_hex c \<Longrightarrow> is_hex (lower_char c) \<and> lower_char (lower_char c) = lower_char c"
  by (auto simp: is_hex_def lower_char_def is_digit_def Let_def)

lemma lower_char_idem [simp]: "lower_char (lower_char c) = lower_char c"
  by (auto simp: lower_char_def Let_def)

lemma toLowerCase_idem [simp]: "toLowerCase (toLowerCase s) = toLowerCase s"
  by (simp add: toLowerCase_def)

lemma tx_hash_lower: "is_tx_hash h \<Longrightarrow> is_tx_hash (toLowerCase h)"
proof -
  assume h: "is_tx_hash h"
  have "lower_char CHR ''0'' = CHR ''0''" "lower_char CHR ''x'' = CHR ''x''" "lower_char CHR ''X'' = CHR ''x''"
    by code_simp+
  thus "is_tx_hash (toLowerCase h)"
    using h by (auto simp: is_tx_hash_def hex_prefixed_def toLowerCase_def drop_map lower_char_hex)
qed

abbreviation marker_ok :: "string \<times> string \<Rightarrow> bool" where
  "marker_ok e \<equiv> is_tx_hash (fst e) \<and> toLowerCase (fst e) = fst e \<and> snd e \<noteq> [] \<and> length (snd e) \<le> 128"

lemma js_set_in: "x \<in> set (js_set k v m) \<Longrightarrow> x = (k, v) \<or> x \<in> set m"
  by (induction m) (auto split: if_splits)

lemma js_set_length: "length (js_set k v m) \<le> Suc (length m)"
  by (induction m) auto

lemma parse_markers_ok:
  assumes "parse_markers es ms = Inr fees" "js_map_ok ms" "\<forall>e \<in> set ms. marker_ok e"
  shows "js_map_ok fees \<and> length fees \<le> length ms + length es \<and> (\<forall>e \<in> set fees. marker_ok e)"
  using assms
proof (induction es ms rule: parse_markers.induct)
  case (2 h sid es ms)
  let ?ms = "js_set (toLowerCase h) sid ms"
  have ok: "is_tx_hash h" "sid \<noteq> []" "length sid \<le> 128" "parse_markers es ?ms = Inr fees"
    using 2(2) by (auto simp: Let_def split: if_splits option.splits)
  have "\<forall>e \<in> set ?ms. marker_ok e"
    using 2(4) ok by (auto dest!: js_set_in intro: tx_hash_lower)
  hence "js_map_ok fees \<and> length fees \<le> length ?ms + length es \<and> (\<forall>e \<in> set fees. marker_ok e)"
    using 2 ok by (auto simp: Let_def split: if_splits option.splits)
  thus ?case using js_set_length[of "toLowerCase h" sid ms] by auto
qed auto

lemma parse_claim_markers_ok: "parseClaimFeeMarkers limit v = Inr fees \<Longrightarrow> fees_ok limit fees"
  using parse_markers_ok[of _ "[]" fees]
  by (fastforce simp: parseClaimFeeMarkers_def fees_ok_def split: js_value.splits if_splits)

definition policy_ok :: "outflow_policy \<Rightarrow> bool" where
  "policy_ok p \<longleftrightarrow> 0 \<le> pol_amount p \<and> nonneg_safe (pol_duration p) \<and> 0 < pol_duration p"

lemma unsigned_big: "isUnsignedDecimal v \<Longrightarrow> 0 \<le> big v"
  by (cases v) (auto simp: big_def bigint_of_digits all_digits_def)

lemma safe_get:
  assumes "isNonNegativeSafeInteger v" shows "nonneg_safe (get_int v)"
proof -
  from assms obtain n where v: "v = JNum n" by (cases v) auto
  from assms show ?thesis unfolding v
    by (cases n) (auto simp: isNonNegativeSafeInteger.simps(1) safe_integer.simps nonneg_safe_def is_safe_integer_def split: if_splits)
qed

lemma positive_safe:
  assumes "isPositiveSafeInteger v" shows "isNonNegativeSafeInteger v" "0 < get_int v"
proof -
  from assms obtain n where v: "v = JNum n" by (cases v) auto
  from assms show "isNonNegativeSafeInteger v" "0 < get_int v" unfolding v
    by (cases n; auto simp: isNonNegativeSafeInteger.simps(1) isPositiveSafeInteger.simps(1) safe_integer.simps split: if_splits)+
qed

lemma version_two_ok: "parseVersionTwoStateFields v = Inr s \<Longrightarrow> fees_ok limit fees \<Longrightarrow> state_ok limit (s\<lparr>os_fees := fees\<rparr>)"
proof -
  assume p: "parseVersionTwoStateFields v = Inr s" and f: "fees_ok limit fees"
  let ?p = "own_property v"
  let ?s = "\<lparr>os_num = big (?p ''balanceNumerator''), os_den = big (?p ''balanceDenominator''),
       os_updateTime = get_int (?p ''updateTime''), os_rateAmount = big (?p ''rateAmount''),
       os_rateDuration = get_int (?p ''rateDuration''), os_fees = []\<rparr>"
  from p have s: "s = normalizeBalance ?s" and c: "isUnsignedDecimal (?p ''balanceDenominator'')" "big (?p ''balanceDenominator'') \<noteq> 0"
      "isNonNegativeSafeInteger (?p ''updateTime'')" "isUnsignedDecimal (?p ''rateAmount'')" "isPositiveSafeInteger (?p ''rateDuration'')"
    by (simp_all add: parseVersionTwoStateFields_def Let_def split: if_splits)
  have "os_den ?s > 0" using unsigned_big[OF c(1)] c(2) by simp
  from normalizeBalance_simps(3)[OF this] have "normal (s\<lparr>os_fees := fees\<rparr>)" by (simp add: s normal_def balance_def)
  thus ?thesis
    using f unsigned_big[OF c(4)] safe_get[OF c(3)] positive_safe[OF c(5)] safe_get[OF positive_safe(1)[OF c(5)]]
    by (simp add: state_ok_def s)
qed

lemma fees_ok_Nil [simp]: "fees_ok limit []"
  by (simp add: fees_ok_def)

lemma parse_state_ok:
  assumes "parsePersistedState limit now pol raw = Inr s" "policy_ok pol" "nonneg_safe now"
  shows "state_ok limit s"
proof -
  from assms(1) obtain v where v: "raw = JsonText v" by (cases raw) (auto simp: parsePersistedState_def)
  from assms(1)[unfolded v parsePersistedState_def]
  consider (three) "parseVersionThreeState limit v = Inr s" | (two) "parseVersionTwoStateFields v = Inr s"
    | (legacy) "migrateLegacyState now pol v = Inr s"
    by (auto split: if_splits)
  thus ?thesis
  proof cases
    case three
    then obtain s2 fees where "parseVersionTwoStateFields v = Inr s2" "s = s2\<lparr>os_fees := fees\<rparr>"
        "parseClaimFeeMarkers limit (own_property v ''accountedClaimFees'') = Inr fees"
      by (auto simp: parseVersionThreeState_def try_bind_Inr_iff)
    thus ?thesis using version_two_ok parse_claim_markers_ok by metis
  next
    case two
    from version_two_ok[OF two fees_ok_Nil] have "state_ok limit (s\<lparr>os_fees := []\<rparr>)" .
    moreover have "os_fees s = []" using two by (auto simp: parseVersionTwoStateFields_def Let_def split: if_splits)
    ultimately show ?thesis by (cases s) simp
  next
    case legacy
    thus ?thesis using assms(2,3)
      by (auto simp: migrateLegacyState_def Let_def state_ok_def policy_ok_def normal_def balance_def
          quotient_of_Fract Rat.normalize_def split: if_splits)
  qed
qed

subsection \<open>Pruning\<close>

definition stored_in :: "faucet_db \<Rightarrow> string \<Rightarrow> store_data option \<Rightarrow> bool" where
  "stored_in db sid stored = (case find (\<lambda>r. sr_sessionId r = sid) (db_sessions db) of
      None \<Rightarrow> stored = None
    | Some r \<Rightarrow> (case store_data_of r of Inl _ \<Rightarrow> False | Inr d \<Rightarrow> stored = Some d))"

definition finalized_in :: "faucet_db \<Rightarrow> string \<Rightarrow> string \<Rightarrow> bool" where
  "finalized_in db sid txHash \<longleftrightarrow> (\<exists>stored. stored_in db sid stored \<and> isDurablyFinalizedClaim stored txHash)"

text \<open>What pruning may leave: the markers of durably finalized claims are gone.\<close>

definition pruned_to :: "faucet_db \<Rightarrow> outflow_state \<Rightarrow> outflow_state \<Rightarrow> bool" where
  "pruned_to db s s' \<longleftrightarrow> (\<exists>gone. s' = s\<lparr>os_fees := filter (\<lambda>e. fst e \<notin> gone) (os_fees s)\<rparr> \<and>
     (\<forall>(h, sid) \<in> set (os_fees s). h \<in> gone \<longrightarrow> finalized_in db sid h))"

lemma wp_out_session:
  assumes "\<And>db stored. same_tables (ow_db w) db \<Longrightarrow> stored_in (ow_db w) sid stored \<Longrightarrow> Q stored (w\<lparr>ow_db := db\<rparr>)"
    and "\<And>db e. same_tables (ow_db w) db \<Longrightarrow> E (DbFailure e) (w\<lparr>ow_db := db\<rparr>)"
  shows "wp (out_db (getSession sid)) Q E w"
  unfolding out_db_def getSession_def wp_simps
  by (rule wp_db_read)
    (use assms in \<open>auto simp: same_tables_def stored_in_def wp_simps split: option.splits sum.splits
       elim: try_bind.elims\<close>)

lemma pruned_refl [simp]: "pruned_to db s s"
  unfolding pruned_to_def by (rule exI[of _ "{}"]) simp

lemma pruned_fees:
  assumes "pruned_to db s s'" "fees_ok limit (os_fees s)"
  shows "fees_ok limit (os_fees s')" "s'\<lparr>os_fees := os_fees s\<rparr> = s"
proof -
  obtain gone where s': "s' = s\<lparr>os_fees := filter (\<lambda>e. fst e \<notin> gone) (os_fees s)\<rparr>"
    using assms(1) by (auto simp: pruned_to_def)
  show "fees_ok limit (os_fees s')" "s'\<lparr>os_fees := os_fees s\<rparr> = s"
    using assms(2) unfolding s'
    by (auto simp: fees_ok_def distinct_map_filter intro: le_trans[OF length_filter_le])
qed

lemma pruned_get_None:
  assumes "pruned_to db s s'" "js_get (os_fees s) h = None" shows "js_get (os_fees s') h = None"
  using assms by (auto simp: pruned_to_def map_of_eq_None_iff)

lemma pruned_delete:
  assumes "pruned_to db s s'" "(h, sid) \<in> set (os_fees s)" "js_map_ok (os_fees s)" "finalized_in db sid h"
  shows "pruned_to db s (s'\<lparr>os_fees := js_delete h (os_fees s')\<rparr>)"
proof -
  obtain gone where s': "s' = s\<lparr>os_fees := filter (\<lambda>e. fst e \<notin> gone) (os_fees s)\<rparr>"
    and f: "\<forall>(h, sid) \<in> set (os_fees s). h \<in> gone \<longrightarrow> finalized_in db sid h"
    using assms(1) by (auto simp: pruned_to_def)
  have "js_delete h (filter (\<lambda>e. fst e \<notin> gone) m) = filter (\<lambda>e. fst e \<notin> insert h gone) m" for m :: "(string, string) jsmap"
    by (auto simp: AList.delete_eq intro!: filter_cong)
  moreover have "\<forall>(h', sid') \<in> set (os_fees s). h' \<in> insert h gone \<longrightarrow> finalized_in db sid' h'"
    using f assms(2-4) by (auto dest: eq_key_imp_eq_value)
  ultimately show ?thesis unfolding pruned_to_def s' by (intro exI[of _ "insert h gone"]) simp
qed

lemma wp_prune_fees:
  assumes "set es \<subseteq> set (os_fees s0)" "js_map_ok (os_fees s0)" "pruned_to (ow_db w) s0 s"
    and "\<And>db s'. same_tables (ow_db w) db \<Longrightarrow> pruned_to (ow_db w) s0 s' \<Longrightarrow> Q s' (w\<lparr>ow_db := db\<rparr>)"
    and "\<And>db e. same_tables (ow_db w) db \<Longrightarrow> E (DbFailure e) (w\<lparr>ow_db := db\<rparr>)"
  shows "wp (prune_fees es s) Q E w"
proof -
  have "wp (prune_fees es s) Q E (w\<lparr>ow_db := db\<rparr>)" if "same_tables (ow_db w) db" for db
    using that assms(1,3)
  proof (induction es arbitrary: s db)
    case Nil
    thus ?case using assms(4) by (simp add: wp_return)
  next
    case (Cons e es)
    obtain h sid where e: "e = (h, sid)" by (cases e)
    show ?case unfolding e prune_fees.simps wp_bind
    proof (rule wp_out_session)
      fix db' stored
      assume d: "same_tables (ow_db (w\<lparr>ow_db := db\<rparr>)) db'" "stored_in (ow_db (w\<lparr>ow_db := db\<rparr>)) sid stored"
      have t: "same_tables (ow_db w) db'" and st: "stored_in (ow_db w) sid stored"
        using d Cons.prems(1) by (auto simp: same_tables_def stored_in_def)
      have "pruned_to (ow_db w) s0 (if isDurablyFinalizedClaim stored h then s\<lparr>os_fees := js_delete h (os_fees s)\<rparr> else s)"
        using Cons.prems(2,3) assms(2) st e by (auto intro!: pruned_delete simp: finalized_in_def)
      from Cons.IH[OF t _ this] Cons.prems(2)
      show "wp (prune_fees es (if isDurablyFinalizedClaim stored h then s\<lparr>os_fees := js_delete h (os_fees s)\<rparr> else s)) Q E
          (w\<lparr>ow_db := db, ow_db := db'\<rparr>)" by simp
    next
      fix db' e' assume "same_tables (ow_db (w\<lparr>ow_db := db\<rparr>)) db'"
      hence "same_tables (ow_db w) db'" using Cons.prems(1) by (simp add: same_tables_def)
      thus "E (DbFailure e') (w\<lparr>ow_db := db, ow_db := db'\<rparr>)" using assms(5) by simp
    qed
  qed
  from this[of "ow_db w"] show ?thesis by (simp add: same_tables_def)
qed

lemma wp_prune:
  assumes "js_map_ok (os_fees s)"
    and "\<And>db s'. same_tables (ow_db w) db \<Longrightarrow> pruned_to (ow_db w) s s' \<Longrightarrow> Q s' (w\<lparr>ow_db := db\<rparr>)"
    and "\<And>db e. same_tables (ow_db w) db \<Longrightarrow> E (DbFailure e) (w\<lparr>ow_db := db\<rparr>)"
  shows "wp (pruneFinalizedClaimFees s) Q E w"
  unfolding pruneFinalizedClaimFees_def
  by (rule wp_prune_fees[where ?s0.0 = s]) (use assms in auto)

lemma wp_out_cas:
  assumes "durable w = Some old"
    and "\<And>db. db_kv db = js_set OUTFLOW_STATE_KEY new (db_kv (ow_db w)) \<Longrightarrow> db_sessions db = db_sessions (ow_db w) \<Longrightarrow>
      Q True (w\<lparr>ow_db := db\<rparr>) \<and> (\<forall>e. E (DbFailure e) (w\<lparr>ow_db := db\<rparr>))"
    and "\<And>db e. same_tables (ow_db w) db \<Longrightarrow> E (DbFailure e) (w\<lparr>ow_db := db\<rparr>)"
  shows "wp (out_db (compareAndSetKeyValueEntry OUTFLOW_STATE_KEY old new)) Q E w"
  unfolding out_db_def compareAndSetKeyValueEntry_def wp_simps
  by (rule wp_db_write) (use assms in \<open>auto simp: same_tables_def durable_def\<close>)

subsection \<open>The charged state\<close>

lemma clamp_balance:
  assumes "os_den s > 0"
  shows "balance (clampUpperLimit p s) = min (balance s) (of_int (pol_upperLimit p))" "os_den (clampUpperLimit p s) > 0"
proof -
  have "compareBalance s u > 0 \<longleftrightarrow> of_int u < balance s" for u
    using assms by (auto simp: compareBalance_def Let_def balance_def Fract_of_int_quotient pos_less_divide_eq simp flip: of_int_mult)
  thus "balance (clampUpperLimit p s) = min (balance s) (of_int (pol_upperLimit p))"
    by (auto simp: clampUpperLimit_def setBalance_def balance_def min_def Fract_of_int_eq)
  show "os_den (clampUpperLimit p s) > 0" using assms by (simp add: clampUpperLimit_def setBalance_def)
qed

lemma clamp_fields [simp]:
  "os_updateTime (clampUpperLimit p s) = os_updateTime s" "os_rateAmount (clampUpperLimit p s) = os_rateAmount s"
  "os_rateDuration (clampUpperLimit p s) = os_rateDuration s" "os_fees (clampUpperLimit p s) = os_fees s"
  by (simp_all add: clampUpperLimit_def setBalance_def)

lemma debit_balance: "os_den s > 0 \<Longrightarrow> balance (debit a s) = balance s - of_int a"
  by (simp add: balance_def debit_def Fract_of_int_quotient diff_divide_distrib)

lemma fees_ok_set:
  assumes "fees_ok limit fees" "length fees < limit" "marker_ok (h, sid)"
  shows "fees_ok limit (js_set h sid fees)"
  using assms js_set_length[of h sid fees] by (fastforce simp: fees_ok_def dest!: js_set_in)

lemma fee_charged_ok:
  assumes "state_ok limit s" "length (os_fees s) < limit" "marker_ok (h, sid)" "nonneg_safe now"
  shows "state_ok limit (fee_charged now pol fee h sid s)"
    and "balance (fee_charged now pol fee h sid s) = min (balance (settle now s)) (of_int (pol_upperLimit pol)) - of_int fee"
    and "os_fees (fee_charged now pol fee h sid s) = js_set h sid (os_fees s)"
proof -
  note ok = assms(1)[unfolded state_ok_def]
  let ?c = "clampUpperLimit pol (settle now s)"
  let ?d = "(debit fee ?c)\<lparr>os_fees := js_set h sid (os_fees s)\<rparr>"
  have den: "os_den s > 0" using ok by (simp add: normal_def)
  note S = settle_balance(2)[OF den, of now] note C = clamp_balance[OF S, of pol]
  have fc: "fee_charged now pol fee h sid s = normalizeBalance ?d"
    by (simp add: fee_charged_def Let_def debit_def)
  have dd: "os_den ?d > 0" using C ok by (simp add: debit_def)
  note N = normalizeBalance_simps[OF dd]
  have "balance ?d = balance (debit fee ?c)" by (simp add: balance_def)
  thus "balance (fee_charged now pol fee h sid s) = min (balance (settle now s)) (of_int (pol_upperLimit pol)) - of_int fee"
    using N(1) C ok by (simp add: fc debit_balance)
  show "os_fees (fee_charged now pol fee h sid s) = js_set h sid (os_fees s)" by (simp add: fc)
  show "state_ok limit (fee_charged now pol fee h sid s)"
    using N(3) ok assms fees_ok_set[of limit "os_fees s" h sid]
    by (auto simp: fc state_ok_def nonneg_safe_def max_def debit_def)
qed

subsection \<open>Accounting a fee\<close>

record fee_args =
  fa_limit :: nat
  fa_now :: int
  fa_policy :: outflow_policy
  fa_session :: string
  fa_claim :: eth_claim
  fa_txHash :: string
  fa_fee :: int

definition fee_args_ok :: "fee_args \<Rightarrow> bool" where
  "fee_args_ok a \<longleftrightarrow> policy_ok (fa_policy a) \<and> nonneg_safe (fa_now a) \<and> marker_ok (fa_txHash a, fa_session a)"

text \<open>The only write: from a text without the marker to the state with the fee debited from the
  settled and clamped balance, and with the marker.\<close>

definition fee_written :: "fee_args \<Rightarrow> faucet_db \<Rightarrow> json_text \<Rightarrow> json_text \<Rightarrow> bool" where
  "fee_written a db old new \<longleftrightarrow> (\<exists>s s' t stored.
     parsePersistedState (fa_limit a) (fa_now a) (fa_policy a) old = Inr s \<and> js_get (os_fees s) (fa_txHash a) = None \<and>
     stored_in db (fa_session a) stored \<and> owned_by_claim stored (fa_claim a) (fa_txHash a) \<and> pruned_to db s s' \<and>
     new = serializeState t \<and> state_ok (fa_limit a) t \<and>
     os_fees t = js_set (fa_txHash a) (fa_session a) (os_fees s') \<and>
     balance t = min (balance (settle (fa_now a) s)) (of_int (pol_upperLimit (fa_policy a))) - of_int (fa_fee a))"

definition fee_settled :: "fee_args \<Rightarrow> outflow_world \<Rightarrow> bool" where
  "fee_settled a w \<longleftrightarrow> finalized_in (ow_db w) (fa_session a) (fa_txHash a) \<or>
     (\<exists>raw s. durable w = Some raw \<and> parsePersistedState (fa_limit a) (fa_now a) (fa_policy a) raw = Inr s \<and>
        js_get (os_fees s) (fa_txHash a) = Some (fa_session a))"

definition fee_effect :: "fee_args \<Rightarrow> outflow_world \<Rightarrow> outflow_world \<Rightarrow> bool" where
  "fee_effect a w w' \<longleftrightarrow> db_sessions (ow_db w') = db_sessions (ow_db w) \<and> ow_policy w' = ow_policy w \<and>
     (durable w' = durable w \<or>
      (\<exists>old new. durable w = Some old \<and> durable w' = Some new \<and> fee_written a (ow_db w) old new))"

lemma fee_written_settled: "fee_written a db old new \<Longrightarrow> durable w = Some new \<Longrightarrow> fee_settled a w"
  unfolding fee_written_def fee_settled_def
  by (elim exE conjE) (auto simp: outflow_parse_serialize state_ok_def fees_ok_def)

text \<open>Steps that leave the tables alone.\<close>

definition quiet :: "outflow_world \<Rightarrow> outflow_world \<Rightarrow> bool" where
  "quiet w w' \<longleftrightarrow> same_tables (ow_db w) (ow_db w') \<and> ow_policy w' = ow_policy w"

lemma quiet_refl [simp]: "quiet w w" and quiet_trans: "quiet w w' \<Longrightarrow> quiet w' w'' \<Longrightarrow> quiet w w''"
  by (auto simp: quiet_def same_tables_def)

lemma quiet_db [simp]: "quiet w (w'\<lparr>ow_db := db\<rparr>) \<longleftrightarrow> same_tables (ow_db w) db \<and> ow_policy w' = ow_policy w"
  by (simp add: quiet_def)

lemma quiet_effect: "quiet w w' \<Longrightarrow> fee_effect a w w'"
  by (simp add: quiet_def fee_effect_def same_tables_def durable_def)

lemma quiet_after: "fee_effect a w w' \<Longrightarrow> quiet w' w'' \<Longrightarrow> fee_effect a w w''"
  by (simp add: quiet_def fee_effect_def same_tables_def durable_def)

lemma fee_effect_quiet: "quiet w v \<Longrightarrow> fee_effect a v w' \<Longrightarrow> fee_effect a w w'"
  by (auto simp: quiet_def fee_effect_def same_tables_def durable_def fee_written_def stored_in_def pruned_to_def
      finalized_in_def)

lemma quiet_durable: "quiet w w' \<Longrightarrow> durable w' = durable w \<and> ow_policy w' = ow_policy w \<and>
    finalized_in (ow_db w') = finalized_in (ow_db w) \<and> stored_in (ow_db w') = stored_in (ow_db w) \<and>
    pruned_to (ow_db w') = pruned_to (ow_db w)"
  by (auto simp: quiet_def same_tables_def durable_def finalized_in_def stored_in_def pruned_to_def fun_eq_iff)

lemma set_state_simps [simp]:
  "ow_db (set_state s w) = ow_db w" "ow_policy (set_state s w) = ow_policy w" "ow_own (set_state s w) = ow_own w"
  "ow_uncertainFee (set_state s w) = ow_uncertainFee w" "ow_state (set_state s w) = s"
  by (simp_all add: set_state_def)

lemma wp_set_state: "wp (p_modify (set_state s)) Q E w \<longleftrightarrow> Q () (set_state s w)"
  by (simp add: wp_modify)

lemma wp_set_own: "wp (set_own own) Q E w \<longleftrightarrow> Q () (w\<lparr>ow_own := own\<rparr>)"
  by (simp add: set_own_def wp_modify)

lemma wp_out_lift: "wp (out_lift r) Q E w \<longleftrightarrow> (case r of Inl e \<Rightarrow> E (InvalidState e) w | Inr x \<Rightarrow> Q x w)"
  by (simp add: out_lift_def wp_simps split: sum.splits)

lemma wp_resolve:
  assumes "\<And>w'. quiet w w' \<Longrightarrow> ow_runtime w' = ow_runtime w \<Longrightarrow> Q () w'" "\<And>e. E (InvalidState e) w"
  shows "wp (resolveUncertainClaimFee s) Q E w"
  unfolding resolveUncertainClaimFee_def wp_simps
  by (auto simp: wp_simps split: option.splits intro!: assms(2) intro: assms(1)) (rule assms(1); simp add: quiet_def same_tables_def)+

lemma wp_get_quiet:
  assumes "\<And>w'. quiet w w' \<Longrightarrow> ow_runtime w' = ow_runtime w \<Longrightarrow> Q (durable w) w'"
    and "\<And>w' e. quiet w w' \<Longrightarrow> ow_runtime w' = ow_runtime w \<Longrightarrow> e \<noteq> FuelExhausted \<Longrightarrow> E e w'"
  shows "wp get_state_text Q E w"
proof -
  let ?w = "\<lambda>fs. w\<lparr>ow_db := ow_db w\<lparr>db_faults := fs\<rparr>\<rparr>"
  have q: "quiet w (?w fs)" "ow_runtime (?w fs) = ow_runtime w" for fs by (simp_all add: quiet_def same_tables_def)
  have "Q (js_get (db_kv (ow_db w)) OUTFLOW_STATE_KEY) (?w fs)" "E (DbFailure DriverError) (?w fs)" for fs
    using assms(1)[OF q] assms(2)[OF q] by (simp_all add: durable_def)
  thus ?thesis unfolding out_db_def getKeyValueEntry_def wp_simps by (intro wp_db_read) simp_all
qed

lemma fee_write_failed_spec:
  assumes pol: "ow_policy w = fa_policy a" and e: "e \<noteq> FuelExhausted"
  shows "wp (fee_write_failed (fa_limit a) (fa_now a) (fa_policy a) (fa_session a) (fa_txHash a) prev e)
    (\<lambda>_ w'. quiet w w' \<and> fee_settled a w') (\<lambda>e' w'. quiet w w' \<and> e' \<noteq> FuelExhausted) w"
proof -
  let ?w = "(set_state prev w)\<lparr>ow_uncertainFee := Some (fa_txHash a, fa_session a)\<rparr>"
  have q: "quiet w ?w" by (simp add: quiet_def same_tables_def)
  show ?thesis unfolding fee_write_failed_def wp_then wp_modify wp_bind wp_catch wp_throw
  proof (rule wp_get_quiet, goal_cases)
    case (1 w1) note w1 = 1(1)
    have q1: "quiet w w1" using q w1 by (rule quiet_trans)
    have d1: "durable ?w = durable w1" using quiet_durable[OF w1] by simp
    show ?case
    proof (cases "durable w1")
      case None
      thus ?thesis using q1 e by (simp add: d1 wp_throw)
    next
      case (Some raw)
      show ?thesis
      proof (cases "parsePersistedState (fa_limit a) (fa_now a) (fa_policy a) raw")
        case (Inl er)
        thus ?thesis using q1 Some by (simp add: d1 wp_bind wp_out_lift)
      next
        case (Inr s)
        have fin: "fee_settled a w2" if "durable w2 = Some raw" "js_get (os_fees s) (fa_txHash a) = Some (fa_session a)" for w2
          using that Inr by (auto simp: fee_settled_def)
        show ?thesis unfolding d1 Some option.case wp_bind wp_out_lift Inr sum.case wp_then
        proof (rule wp_resolve, goal_cases)
          case (1 w2) note w2 = 1(1)
          have q2: "quiet w w2" using q1 w2 by (rule quiet_trans)
          have "durable w2 = Some raw" using quiet_durable[OF w2] Some by simp
          thus ?case
            using q2 e fin[of "(set_state s w2)\<lparr>ow_own := Certain (Some raw)\<rparr>"]
            by (auto simp: wp_set_state wp_set_own wp_simps quiet_def durable_def split: option.splits)
        qed (use q1 in simp)
      qed
    qed
  next
    case (2 w1 e1)
    thus ?case using q e quiet_trans by blast
  qed
qed

lemma settle_fees: "settle now (s\<lparr>os_fees := fees\<rparr>) = (settle now s)\<lparr>os_fees := fees\<rparr>"
  by (simp add: settle_def normalizeBalance_def Let_def)

lemma pruned_state:
  assumes "pruned_to db s s'" "state_ok limit s"
  shows "state_ok limit s'" "balance (settle now s') = balance (settle now s)"
proof -
  obtain fees where s': "s' = s\<lparr>os_fees := fees\<rparr>" using assms(1) by (auto simp: pruned_to_def)
  show "state_ok limit s'"
    using pruned_fees(1)[OF assms(1), of limit] assms(2) by (simp add: s' state_ok_def normal_def balance_def)
  show "balance (settle now s') = balance (settle now s)" by (simp add: s' settle_fees balance_def)
qed

lemma fee_own [simp]: "fee_effect a w (w'\<lparr>ow_own := own\<rparr>) = fee_effect a w w'"
    "fee_settled a (w'\<lparr>ow_own := own\<rparr>) = fee_settled a w'"
    "fee_effect a (w\<lparr>ow_own := own\<rparr>) w' = fee_effect a w w'"
  by (simp_all add: fee_effect_def fee_settled_def durable_def)

lemma charge_fee_spec:
  assumes ok: "fee_args_ok a" and pol: "ow_policy w = fa_policy a" and raw: "durable w = Some raw"
    and s: "parsePersistedState (fa_limit a) (fa_now a) (fa_policy a) raw = Inr s" "js_get (os_fees s) (fa_txHash a) = None"
    and stored: "stored_in (ow_db w) (fa_session a) stored" "owned_by_claim stored (fa_claim a) (fa_txHash a)"
    and pr: "pruned_to (ow_db w) s s'"
  shows "wp (charge_fee (fa_limit a) (fa_now a) (fa_policy a) (fa_session a) (fa_txHash a) (fa_fee a) raw s' retry)
    (\<lambda>_ w'. fee_effect a w w' \<and> fee_settled a w') (\<lambda>e w'. fee_effect a w w' \<and> e \<noteq> FuelExhausted) w"
proof (cases "length (os_fees s') \<ge> fa_limit a")
  case True
  thus ?thesis by (simp add: charge_fee_def wp_throw quiet_effect)
next
  case False
  let ?t = "fee_charged (fa_now a) (fa_policy a) (fa_fee a) (fa_txHash a) (fa_session a) s'"
  let ?w = "set_state ?t w"
  have ok': "policy_ok (fa_policy a)" "nonneg_safe (fa_now a)" "marker_ok (fa_txHash a, fa_session a)"
    using ok by (simp_all add: fee_args_ok_def)
  have "state_ok (fa_limit a) s" by (rule parse_state_ok[OF s(1) ok'(1,2)])
  note so = pruned_state[OF pr this]
  have "length (os_fees s') < fa_limit a" using False by simp
  note F = fee_charged_ok[OF so(1) this ok'(3,2), where pol = "fa_policy a" and fee = "fa_fee a"]
  have new: "fee_written a (ow_db w) raw (serializeState ?t)"
    unfolding fee_written_def
    by (intro exI[of _ s] exI[of _ s'] exI[of _ ?t] exI[of _ stored]) (use s stored pr F so(2) in simp)
  have q: "quiet w ?w" by (simp add: quiet_def same_tables_def)
  have durw: "durable ?w = Some raw" using raw by (simp add: durable_def)
  have written: "fee_effect a w w' \<and> fee_settled a w'"
    if "db_kv (ow_db w') = js_set OUTFLOW_STATE_KEY (serializeState ?t) (db_kv (ow_db w))"
       "db_sessions (ow_db w') = db_sessions (ow_db w)" "ow_policy w' = ow_policy w" for w'
  proof -
    have d: "durable w' = Some (serializeState ?t)" using that by (simp add: durable_def)
    show ?thesis using that raw new d fee_written_settled[OF new d] by (auto simp: fee_effect_def)
  qed
  have failed: "wp (fee_write_failed (fa_limit a) (fa_now a) (fa_policy a) (fa_session a) (fa_txHash a) prev e)
      (\<lambda>_ w'. fee_effect a w w' \<and> fee_settled a w') (\<lambda>e w'. fee_effect a w w' \<and> e \<noteq> FuelExhausted) w'"
    if "fee_effect a w w'" "ow_policy w' = ow_policy w" "e \<noteq> FuelExhausted" for w' prev e
    by (rule wp_mono[OF fee_write_failed_spec]) (use that pol quiet_after in auto)
  have cas: "wp (out_db (compareAndSetKeyValueEntry OUTFLOW_STATE_KEY raw (serializeState ?t)))
      (\<lambda>b w'. b \<and> fee_effect a w w' \<and> fee_settled a w' \<and> ow_policy w' = ow_policy w)
      (\<lambda>e w'. fee_effect a w w' \<and> ow_policy w' = ow_policy w \<and> e \<noteq> FuelExhausted) ?w"
    by (rule wp_out_cas[OF durw]) (use written quiet_effect in \<open>auto simp: quiet_def same_tables_def\<close>)
  show ?thesis
    unfolding charge_fee_def try_compare_and_set_def wp_simps using False
    by (auto intro!: wp_mono[OF cas] failed simp: wp_set_own wp_simps)
qed

lemma fee_unmarked_spec:
  assumes ok: "fee_args_ok a" and pol: "ow_policy w = fa_policy a" and raw: "durable w = Some raw"
    and s: "parsePersistedState (fa_limit a) (fa_now a) (fa_policy a) raw = Inr s" "js_get (os_fees s) (fa_txHash a) = None"
    and q: "quiet w w'" and stored: "stored_in (ow_db w) (fa_session a) stored"
  shows "wp (if isDurablyFinalizedClaim stored (fa_txHash a) then p_modify (set_state s)
      else if \<not> owned_by_claim stored (fa_claim a) (fa_txHash a)
        then p_throw (InvalidState ''Confirmed claim fee accounting lost durable session ownership'')
      else p_bind (pruneFinalizedClaimFees s) (\<lambda>pruned.
        charge_fee (fa_limit a) (fa_now a) (fa_policy a) (fa_session a) (fa_txHash a) (fa_fee a) raw pruned retry))
    (\<lambda>_ w'. fee_effect a w w' \<and> fee_settled a w') (\<lambda>e w'. fee_effect a w w' \<and> e \<noteq> FuelExhausted) w'"
proof -
  have fin: "isDurablyFinalizedClaim stored (fa_txHash a) \<Longrightarrow> fee_settled a (set_state s w')"
    using stored quiet_durable[OF q] by (auto simp: fee_settled_def finalized_in_def)
  have q': "quiet w (set_state s w')" using q by (simp add: quiet_def)
  have m: "js_map_ok (os_fees s)"
    using parse_state_ok[OF s(1)] ok by (auto simp: fee_args_ok_def state_ok_def fees_ok_def)
  have charge: "wp (charge_fee (fa_limit a) (fa_now a) (fa_policy a) (fa_session a) (fa_txHash a) (fa_fee a) raw s' retry)
      (\<lambda>_ w'. fee_effect a w w' \<and> fee_settled a w') (\<lambda>e w'. fee_effect a w w' \<and> e \<noteq> FuelExhausted) v"
    if "quiet w v" "owned_by_claim stored (fa_claim a) (fa_txHash a)" "pruned_to (ow_db w) s s'" for v s'
  proof -
    note Q = quiet_durable[OF that(1)]
    show ?thesis
      by (rule wp_mono[OF charge_fee_spec[OF ok _ _ s]]) (use Q pol raw stored that fee_effect_quiet in auto)
  qed
  have qd: "quiet w (w'\<lparr>ow_db := db\<rparr>)" if "same_tables (ow_db w') db" for db
    by (rule quiet_trans[OF q]) (use that in simp)
  show ?thesis
    by (auto simp: wp_simps q' quiet_effect fin q quiet_durable[OF q] simp del: quiet_db
        intro!: wp_prune[OF m] charge quiet_effect[OF qd] intro: qd)
qed

lemma account_fee_spec:
  assumes ok: "fee_args_ok a" and pol: "ow_policy w = fa_policy a"
  shows "wp (account_fee (Suc fuel) (fa_limit a) (fa_now a) (fa_session a) (fa_claim a) (fa_txHash a) (fa_fee a))
    (\<lambda>_ w'. fee_effect a w w' \<and> fee_settled a w') (\<lambda>e w'. fee_effect a w w' \<and> e \<noteq> FuelExhausted) w"
  unfolding account_fee.simps wp_bind
proof (rule wp_get_quiet, goal_cases)
  case (1 w1)
  note q1 = 1(1)
  have p1: "ow_policy w1 = fa_policy a" using quiet_durable[OF q1] pol by simp
  show ?case
  proof (cases "durable w")
    case None
    thus ?thesis using quiet_effect[OF q1] by (simp add: wp_throw)
  next
    case (Some raw)
    show ?thesis
    proof (cases "parsePersistedState (fa_limit a) (fa_now a) (fa_policy a) raw")
      case (Inl er)
      thus ?thesis using quiet_effect[OF q1] Some p1 by (simp add: wp_bind wp_get wp_out_lift)
    next
      case (Inr s)
      show ?thesis unfolding Some option.case wp_bind wp_get p1 wp_out_lift Inr sum.case wp_then
      proof (rule wp_resolve, goal_cases)
        case (2 e) thus ?case using quiet_effect[OF q1] by simp
      next
        case (1 w2)
        let ?w = "w2\<lparr>ow_own := Certain (Some raw)\<rparr>"
        have q2: "quiet w ?w" using quiet_trans[OF q1 1(1)] by (simp add: quiet_def)
        show ?case
        proof (cases "js_get (os_fees s) (fa_txHash a)")
          case None
          show ?thesis unfolding None option.case wp_set_own wp_bind
          proof (rule wp_out_session, goal_cases)
            case (2 db e) thus ?case using q2 quiet_effect by (simp add: quiet_def same_tables_def)
          next
            case (1 db stored)
            have q3: "quiet w (?w\<lparr>ow_db := db\<rparr>)" by (rule quiet_trans[OF q2]) (use 1(1) in simp)
            have st: "stored_in (ow_db w) (fa_session a) stored" using 1(2) quiet_durable[OF q2] by simp
            show ?case by (rule fee_unmarked_spec[OF ok pol Some Inr None q3 st])
          qed
        next
          case (Some owner)
          have "durable (set_state s ?w) = durable w" using quiet_durable[OF q2] by (simp add: durable_def)
          hence "owner = fa_session a \<Longrightarrow> fee_settled a (set_state s ?w)"
            using Some Inr \<open>durable w = Some raw\<close> by (auto simp: fee_settled_def)
          moreover have "quiet w (set_state s ?w)" using q2 by (simp add: quiet_def)
          ultimately show ?thesis unfolding Some option.case wp_set_own
            using quiet_effect[of w "set_state s ?w" a] quiet_effect[OF q2, of a] by (simp add: wp_simps)
        qed
      qed
    qed
  qed
next
  case (2 w1 e)
  thus ?case by (simp add: quiet_effect)
qed

lemma parse_fees_any_time:
  assumes "parsePersistedState limit now pol raw = Inr s"
  obtains s' where "parsePersistedState limit now' pol raw = Inr s'" "os_fees s' = os_fees s"
  using assms
  by (cases raw) (auto simp: parsePersistedState_def migrateLegacyState_def Let_def split: if_splits)

text \<open>Once settled, accounting the same fee again, at any time, writes nothing.\<close>

lemma fee_settled_final:
  assumes "fee_settled a w" "fee_effect (a\<lparr>fa_now := now'\<rparr>) w w'"
  shows "durable w' = durable w"
proof (rule ccontr)
  assume "durable w' \<noteq> durable w"
  then obtain raw s stored where w: "durable w = Some raw" "parsePersistedState (fa_limit a) now' (fa_policy a) raw = Inr s"
      "js_get (os_fees s) (fa_txHash a) = None" "stored_in (ow_db w) (fa_session a) stored"
      "owned_by_claim stored (fa_claim a) (fa_txHash a)"
    using assms(2) by (auto simp: fee_effect_def fee_written_def)
  have "\<not> finalized_in (ow_db w) (fa_session a) (fa_txHash a)"
    using w(4,5) by (auto simp: finalized_in_def stored_in_def owned_by_claim_def isDurablyFinalizedClaim_def
        split: option.splits sum.splits)
  then obtain s1 where "parsePersistedState (fa_limit a) (fa_now a) (fa_policy a) raw = Inr s1"
      "js_get (os_fees s1) (fa_txHash a) = Some (fa_session a)"
    using assms(1) w(1) by (auto simp: fee_settled_def)
  then obtain s2 where "parsePersistedState (fa_limit a) now' (fa_policy a) raw = Inr s2"
      "js_get (os_fees s2) (fa_txHash a) = Some (fa_session a)"
    by (metis parse_fees_any_time)
  thus False using w(2,3) by simp
qed

definition confirmed_args :: "nat \<Rightarrow> int \<Rightarrow> outflow_policy \<Rightarrow> claim_info \<Rightarrow> signed_tx \<Rightarrow> string \<Rightarrow> fee_args" where
  "confirmed_args limit now pol info t fee = \<lparr>fa_limit = limit, fa_now = now, fa_policy = pol,
     fa_session = ci_session info, fa_claim = ci_claim info, fa_txHash = toLowerCase (st_txHash t), fa_fee = int (dec_value fee)\<rparr>"

lemma confirmed_spec:
  assumes "claim_ok (ci_claim info)" "ec_phase (ci_claim info) = Confirmed t b fee" "ci_session info \<noteq> []"
    "length (ci_session info) \<le> 128" "policy_ok (ow_policy w)" "nonneg_safe now"
  shows "wp (accountConfirmedNativeClaimFee (Suc fuel) limit now info)
    (\<lambda>_ w'. fee_effect (confirmed_args limit now (ow_policy w) info t fee) w w' \<and>
       fee_settled (confirmed_args limit now (ow_policy w) info t fee) w')
    (\<lambda>e w'. fee_effect (confirmed_args limit now (ow_policy w) info t fee) w w' \<and> e \<noteq> FuelExhausted) w"
proof -
  let ?a = "confirmed_args limit now (ow_policy w) info t fee"
  have "fee_args_ok ?a"
    using assms by (auto simp: fee_args_ok_def confirmed_args_def claim_ok_def signed_ok_def intro: tx_hash_lower)
  from account_fee_spec[OF this, of w fuel] show ?thesis
    by (simp add: accountConfirmedNativeClaimFee_def assms(2) confirmed_args_def)
qed

text \<open>C17. The fee of a confirmed claim is debited at most once, for every list of driver
  faults.  The only write replaces a text without the claim's marker by the state whose
  balance is settled, clamped and less exactly the fee, with the marker; it happens only
  while the session durably holds this confirmed claim.  When the accounting resolves, the
  marker is stored or the claim is finalized, and repeating it changes nothing.\<close>

theorem claim_fee_accounted_once:
  assumes "claim_ok (ci_claim info)" "ec_phase (ci_claim info) = Confirmed t b fee" "ci_session info \<noteq> []"
    "length (ci_session info) \<le> 128" "policy_ok (ow_policy w)" "nonneg_safe now" "nonneg_safe now'"
    and a: "a = confirmed_args limit now (ow_policy w) info t fee"
  shows "case accountConfirmedNativeClaimFee (Suc fuel) limit now info w of
      (Inr _, w') \<Rightarrow> fee_effect a w w' \<and> fee_settled a w' \<and>
        durable (snd (accountConfirmedNativeClaimFee (Suc fuel') limit now' info w')) = durable w'
    | (Inl e, w') \<Rightarrow> fee_effect a w w' \<and> e \<noteq> FuelExhausted"
proof -
  have again: "durable (snd (accountConfirmedNativeClaimFee (Suc fuel') limit now' info w')) = durable w'"
    if "fee_effect a w w'" "fee_settled a w'" for w'
  proof -
    have pol: "ow_policy w' = ow_policy w" using that by (simp add: fee_effect_def)
    have "fee_effect (a\<lparr>fa_now := now'\<rparr>) w' (snd (accountConfirmedNativeClaimFee (Suc fuel') limit now' info w'))"
      using confirmed_spec[OF assms(1-4), of w' now' fuel' limit] assms(5,7)
      by (auto simp: wp_def pol a confirmed_args_def split: prod.splits sum.splits)
    thus ?thesis using fee_settled_final that(2) by blast
  qed
  thus ?thesis
    using confirmed_spec[OF assms(1-6), of fuel limit]
    by (auto simp: wp_def a[symmetric] split: prod.splits sum.splits)
qed

theorem claim_fee_accounted_once_witness:
  "let t = \<lparr>st_txHash = ''0x'' @ replicate 64 CHR ''a'', st_txHex = ''0xab'', st_txNonce = 0\<rparr>;
     p = \<lparr>pol_amount = 1, pol_duration = 1, pol_lowerLimit = 0, pol_upperLimit = 5\<rparr>;
     info = \<lparr>ci_session = ''s'', ci_target = ''t'', ci_amount = ''5'',
       ci_claim = \<lparr>ec_claimIdx = 1, ec_claimTime = 1, ec_phase = Confirmed t 7 ''21''\<rparr>\<rparr>;
     w = \<lparr>ow_db = \<lparr>db_sessions = [], db_kv = [(OUTFLOW_STATE_KEY, serializeState (createEmptyState 0 p))], db_faults = [FOk, FFail]\<rparr>,
       ow_runtime = \<lparr>rt_state = createEmptyState 0 p, rt_policy = p\<rparr>, ow_own = Certain None, ow_uncertainFee = None\<rparr>
   in fee_effect (confirmed_args 2 3 p info t ''21'') w (snd (accountConfirmedNativeClaimFee 1 2 3 info w))"
proof -
  define t where "t = \<lparr>st_txHash = ''0x'' @ replicate 64 CHR ''a'', st_txHex = ''0xab'', st_txNonce = 0\<rparr>"
  define p where "p = \<lparr>pol_amount = 1, pol_duration = 1, pol_lowerLimit = 0, pol_upperLimit = 5\<rparr>"
  define info where "info = \<lparr>ci_session = ''s'', ci_target = ''t'', ci_amount = ''5'',
       ci_claim = \<lparr>ec_claimIdx = 1, ec_claimTime = 1, ec_phase = Confirmed t 7 ''21''\<rparr>\<rparr>"
  define w where "w = \<lparr>ow_db = \<lparr>db_sessions = [], db_kv = [(OUTFLOW_STATE_KEY, serializeState (createEmptyState 0 p))], db_faults = [FOk, FFail]\<rparr>,
       ow_runtime = \<lparr>rt_state = createEmptyState 0 p, rt_policy = p\<rparr>, ow_own = Certain None, ow_uncertainFee = None\<rparr>"
  have hex: "is_tx_hash (''0x'' @ replicate 64 CHR ''a'')" "is_tx_hex ''0xab''" "all_digits ''21''" by code_simp+
  have "nonneg_safe 0" "nonneg_safe 1" "nonneg_safe 3" "nonneg_safe 7" by code_simp+
  with hex have "claim_ok (ci_claim info)" "policy_ok (ow_policy w)"
    by (simp_all add: claim_ok_def signed_ok_def policy_ok_def info_def t_def w_def p_def)
  from claim_fee_accounted_once[OF this(1) _ _ _ this(2) \<open>nonneg_safe 3\<close> \<open>nonneg_safe 3\<close> refl,
      where t = t and b = 7 and fee = "''21''" and fuel = 0 and fuel' = 0 and limit = 2]
  have "fee_effect (confirmed_args 2 3 (ow_policy w) info t ''21'') w (snd (accountConfirmedNativeClaimFee 1 2 3 info w))"
    by (auto simp: info_def split: prod.splits sum.splits)
  thus ?thesis by (simp add: w_def info_def p_def t_def Let_def)
qed

end
