(* ===== verification/Action_Hooks.thy ===== *)
theory Action_Hooks
  imports Effects
begin

text \<open>
  The hooks of \<^verbatim>\<open>src/src/modules/ModuleManager.ts\<close>: registration by priority
  (\<^verbatim>\<open>addActionHook\<close>, \<^verbatim>\<open>removeActionHooks\<close>) and their invocation (\<^verbatim>\<open>runActionHooks\<close>), which
  merges the caller's local hooks with the registered ones, runs every hook of one
  priority, and goes on to the next priority only when none of them failed.  The code starts the
  hooks of one priority together and awaits them all.  That loop, with hooks that settle in any
  order, is \<^theory_text>\<open>Hook_Rounds\<close>.  Here it is run in one of its schedules, in which a hook ends before
  the next one of its priority starts: the models of sessions use it, whose hooks of one priority
  either do not wait (the concurrency limit) or keep state that no other one touches (the two outflow
  modules).
\<close>

record 'h hook_registration =
  hr_prio :: int
  hr_module :: string
  hr_name :: string
  hr_hook :: 'h

fun addActionHook :: "'h hook_registration \<Rightarrow> 'h hook_registration list \<Rightarrow> 'h hook_registration list" where
  "addActionHook reg [] = [reg]"
| "addActionHook reg (h # hs) = (if hr_prio h > hr_prio reg then reg # h # hs else h # addActionHook reg hs)"

definition removeActionHooks :: "string \<Rightarrow> 'h hook_registration list \<Rightarrow> 'h hook_registration list" where
  "removeActionHooks owner hooks = filter (\<lambda>h. hr_module h \<noteq> owner) hooks"

type_synonym ('w, 'e) hook = "int \<times> ('w, 'e, unit) proc"

text \<open>\<^verbatim>\<open>Promise.allSettled\<close> of the hooks of one priority.\<close>

fun settle_all :: "('w, 'e) hook list \<Rightarrow> 'e list \<Rightarrow> ('w, 'e, 'e list) proc" where
  "settle_all [] failures = p_return failures"
| "settle_all (h # hs) failures =
     p_bind (p_catch (p_bind (snd h) (\<lambda>_. p_return failures)) (\<lambda>e. p_return (failures @ [e]))) (settle_all hs)"

definition throw_failures :: "('e list \<Rightarrow> 'e) \<Rightarrow> 'e list \<Rightarrow> ('w, 'e, unit) proc" where
  "throw_failures agg failures = (case failures of
      [] \<Rightarrow> p_return () | [e] \<Rightarrow> p_throw e | _ \<Rightarrow> p_throw (agg failures))"

fun loop_prio :: "(int \<times> 'h) list \<Rightarrow> (int \<times> 'h) list \<Rightarrow> int option" where
  "loop_prio [] [] = None"
| "loop_prio (l # ls) [] = Some (fst l)"
| "loop_prio [] (h # hs) = Some (fst h)"
| "loop_prio (l # ls) (h # hs) = Some (if fst l \<le> fst h then fst l else fst h)"

function runActionHooks ::
  "('e list \<Rightarrow> 'e) \<Rightarrow> ('w, 'e) hook list \<Rightarrow> ('w, 'e) hook list \<Rightarrow> ('w, 'e, unit) proc" where
  "runActionHooks agg locals hooks = (case loop_prio locals hooks of
      None \<Rightarrow> p_return ()
    | Some prio \<Rightarrow>
       p_then (p_bind (settle_all (takeWhile (\<lambda>h. fst h = prio) locals @ takeWhile (\<lambda>h. fst h = prio) hooks) [])
           (throw_failures agg))
         (runActionHooks agg (dropWhile (\<lambda>h. fst h = prio) locals) (dropWhile (\<lambda>h. fst h = prio) hooks)))"
  by auto

termination
proof (relation "measure (\<lambda>(agg, locals, hooks). length locals + length hooks)")
  fix agg :: "'e list \<Rightarrow> 'e" and locals hooks :: "('w, 'e) hook list" and prio
  assume p: "loop_prio locals hooks = Some prio"
  have le: "length (dropWhile (\<lambda>h. fst h = prio) xs) \<le> length xs" for xs :: "('w, 'e) hook list"
    by (rule length_dropWhile_le)
  have lt: "length (dropWhile (\<lambda>h. fst h = prio) xs) < length xs" if "xs \<noteq> []" "fst (hd xs) = prio" for xs :: "('w, 'e) hook list"
    using that le[of "tl xs"] by (cases xs) auto
  have "(locals \<noteq> [] \<and> fst (hd locals) = prio) \<or> (hooks \<noteq> [] \<and> fst (hd hooks) = prio)"
    using p by (cases "(locals, hooks)" rule: loop_prio.cases) (auto split: if_splits)
  hence "length (dropWhile (\<lambda>h. fst h = prio) locals) + length (dropWhile (\<lambda>h. fst h = prio) hooks) < length locals + length hooks"
    using le[of locals] le[of hooks] lt[of locals] lt[of hooks] by linarith
  thus "((agg, dropWhile (\<lambda>h. fst h = prio) locals, dropWhile (\<lambda>h. fst h = prio) hooks), (agg, locals, hooks))
      \<in> measure (\<lambda>(agg, locals, hooks). length locals + length hooks)" by simp
qed simp

declare runActionHooks.simps [simp del]

subsection \<open>Registration keeps the order\<close>

lemma addActionHook_set: "set (addActionHook reg hs) = insert reg (set hs)"
  by (induction hs) auto

lemma addActionHook_sorted: "sorted (map hr_prio hs) \<Longrightarrow> sorted (map hr_prio (addActionHook reg hs))"
  by (induction hs) (auto simp: addActionHook_set)

lemma removeActionHooks_sorted: "sorted (map hr_prio hs) \<Longrightarrow> sorted (map hr_prio (removeActionHooks m hs))"
  by (simp add: removeActionHooks_def sorted_filter)

lemma addActionHook_stable:
  assumes "sorted (map hr_prio hs)"
  shows "filter (\<lambda>h. hr_prio h = p) (addActionHook reg hs) = filter (\<lambda>h. hr_prio h = p) hs @ (if hr_prio reg = p then [reg] else [])"
  using assms
proof (induction hs)
  case (Cons h hs)
  have "hr_prio reg < hr_prio h \<Longrightarrow> filter (\<lambda>x. hr_prio x = hr_prio reg) hs = []"
    using Cons.prems by (fastforce simp: filter_empty_conv)
  thus ?case using Cons by auto
qed simp

subsection \<open>The reference order\<close>

text \<open>The hooks of the merged list, one priority after the other.\<close>

fun run_groups :: "('e list \<Rightarrow> 'e) \<Rightarrow> int list \<Rightarrow> ('w, 'e) hook list \<Rightarrow> ('w, 'e, unit) proc" where
  "run_groups agg [] hs = p_return ()"
| "run_groups agg (p # ps) hs =
     p_then (p_bind (settle_all (filter (\<lambda>h. fst h = p) hs) []) (throw_failures agg)) (run_groups agg ps hs)"

lemma sorted_take:
  assumes "sorted (map fst hs)" "\<forall>h \<in> set hs. p \<le> fst h"
  shows "takeWhile (\<lambda>h. fst h = p) hs = filter (\<lambda>h. fst h = p) hs \<and>
    dropWhile (\<lambda>h. fst h = p) hs = filter (\<lambda>h. fst h \<noteq> p) hs"
  using assms
proof (induction hs)
  case (Cons h hs)
  show ?case
  proof (cases "fst h = p")
    case False
    hence "\<forall>x \<in> set hs. fst x \<noteq> p" using Cons.prems by fastforce
    thus ?thesis using False by (simp add: filter_empty_conv filter_id_conv)
  qed (use Cons in simp)
qed simp

lemma loop_prio_Some:
  assumes "sorted (map fst locals)" "sorted (map fst hooks)" "loop_prio locals hooks = Some p"
  shows "p \<in> fst ` set (locals @ hooks)" "\<forall>h \<in> set (locals @ hooks). p \<le> fst h"
  using assms by (cases "(locals, hooks)" rule: loop_prio.cases; auto split: if_splits)+

lemma loop_prio_None: "loop_prio locals hooks = None \<longleftrightarrow> locals = [] \<and> hooks = []"
  by (cases "(locals, hooks)" rule: loop_prio.cases) auto

lemma run_groups_cong:
  assumes "\<And>p. p \<in> set ps \<Longrightarrow> filter (\<lambda>h. fst h = p) hs = filter (\<lambda>h. fst h = p) hs'"
  shows "run_groups agg ps hs = run_groups agg ps hs'"
  using assms by (induction ps) simp_all

text \<open>The merge loop over the local and the registered hooks runs the groups of the merged list.\<close>

lemma groups_run_by_priority:
  assumes "sorted (map fst locals)" "sorted (map fst hooks)"
  shows "runActionHooks agg locals hooks =
    run_groups agg (sorted_list_of_set (fst ` set (locals @ hooks))) (locals @ hooks)"
  using assms
proof (induction agg locals hooks rule: runActionHooks.induct)
  case (1 agg locals hooks)
  show ?case
  proof (cases "loop_prio locals hooks")
    case None
    thus ?thesis by (subst runActionHooks.simps) (simp add: loop_prio_None)
  next
    case (Some p)
    note P = loop_prio_Some[OF 1(2,3) Some]
    have P': "\<forall>h \<in> set locals. p \<le> fst h" "\<forall>h \<in> set hooks. p \<le> fst h" using P(2) by auto
    note L = sorted_take[OF 1(2) P'(1)] and H = sorted_take[OF 1(3) P'(2)]
    let ?f = "filter (\<lambda>h. fst h \<noteq> p)"
    have S: "sorted (map fst (?f locals))" "sorted (map fst (?f hooks))" using 1(2,3) by (simp_all add: sorted_filter)
    let ?ps = "fst ` set (locals @ hooks)" and ?ps' = "fst ` set (?f locals @ ?f hooks)"
    have ps: "?ps = insert p ?ps'" "p \<notin> ?ps'" using P(1) by auto
    have min: "\<forall>q \<in> ?ps'. p \<le> q" using P(2) by auto
    have "sorted_list_of_set ?ps = p # sorted_list_of_set ?ps'"
      unfolding ps(1) using ps(2) min by (subst sorted_list_of_set.fold_insort_key.remove[of _ p])
        (auto simp: insort_is_Cons)
    moreover have "run_groups agg (sorted_list_of_set ?ps') (?f locals @ ?f hooks)
        = run_groups agg (sorted_list_of_set ?ps') (locals @ hooks)"
      by (intro run_groups_cong) (auto intro!: arg_cong2[where f = "(@)"] filter_cong)
    moreover have "runActionHooks agg (?f locals) (?f hooks) = run_groups agg (sorted_list_of_set ?ps') (?f locals @ ?f hooks)"
      using 1(1)[OF Some] S by (simp add: L H)
    ultimately show ?thesis
      by (subst runActionHooks.simps) (simp add: Some L H)
  qed
qed

lemma groups_run_by_priority_at:
  "runActionHooks (\<lambda>es. concat es) [(5, p_modify (\<lambda>w. w @ ''b''))] [(1, p_modify (\<lambda>w. w @ ''a'')), (9, p_modify (\<lambda>w. w @ ''c''))] []
    = (Inr (), ''abc'')"
proof -
  have "sorted_list_of_set {5, 1, 9 :: int} = [1, 5, 9]" by (simp add: sorted_list_of_set_insert_remove)
  thus ?thesis
    by (subst groups_run_by_priority)
      (simp_all add: p_then_def p_bind_def p_catch_def p_return_def p_modify_def throw_failures_def)
qed

end
