(* ===== verification/Faucet_Session.thy ===== *)
theory Faucet_Session
  imports Faucet_Database Admission_Ledger Limit_Modules Action_Hooks
begin

text \<open>
  \<^verbatim>\<open>src/src/session/FaucetSession.ts\<close>: one session from its start to its terminal state, with
  its persistence under driver faults, the rewards, the completion and the failure path.
  The world of a session holds the database, the admission ledger, the manager's flags and
  map of active sessions, and the state of the modules, which only their hooks touch.

  Operations the code puts on the manager's reward queue run one after another, so an
  operation is a procedure on this world; timers are fields that say whether they are set,
  and their callbacks are operations of their own.  The current time is an argument.
\<close>

subsection \<open>State\<close>

record session_task =
  tk_module :: string
  tk_name :: string
  tk_timeout :: int

datatype persistence_state = Absent | Durable | UncertainInsert store_data

datatype failure_state =
    NoFailure
  | Preparing
  | PendingFailure session_status bool store_data
  | FailureComplete

datatype session_error =
    DbErr db_error
  | FaucetErr string string
  | GenericErr string
  | LedgerErr ledger_error
  | Aggregate "session_error list"

datatype completion_state = NotCompleting | Completing | Completed "session_error + unit"

record faucet_session =
  fs_status :: session_status
  fs_sessionId :: string
  fs_startTime :: int
  fs_targetAddr :: "string option"
  fs_dropAmount :: int
  fs_remoteIP :: string
  fs_tasks :: "session_task list"
  fs_data :: "(string, js_value) jsmap"
  fs_isDirty :: bool
  fs_persistence :: persistence_state
  fs_failure :: failure_state
  fs_isDisposed :: bool
  fs_sessionTimer :: "int option"
  fs_saveTimer :: bool
  fs_ipPending :: bool
  fs_completion :: completion_state
  fs_factorDepth :: nat
  fs_cancelReward :: bool
  fs_rollbacks :: "string list"

record 'm session_world =
  sw_db :: faucet_db
  sw_ledger :: ledger
  sw_active :: "string list"
  sw_rewardsOpen :: bool
  sw_admissionOpen :: bool
  sw_modules :: 'm
  sw_session :: faucet_session

type_synonym ('m, 'a) session_op = "('m session_world, session_error, 'a) proc"

definition new_session :: faucet_session where
  "new_session = \<lparr>fs_status = UNKNOWN, fs_sessionId = [], fs_startTime = 0, fs_targetAddr = None, fs_dropAmount = 0,
     fs_remoteIP = [], fs_tasks = [], fs_data = [], fs_isDirty = False, fs_persistence = Absent, fs_failure = NoFailure,
     fs_isDisposed = False, fs_sessionTimer = None, fs_saveTimer = False, fs_ipPending = False, fs_completion = NotCompleting,
     fs_factorDepth = 0, fs_cancelReward = False, fs_rollbacks = []\<rparr>"

text \<open>What a hook asks for while a reward is computed or accounted (\<^verbatim>\<open>setSessionFailed\<close> and
  \<^verbatim>\<open>completeSession\<close> inside a hook only record an intent).\<close>

datatype terminal_intent = NoIntent | CompleteIntent | FailedIntent string string "string option"

text \<open>A hook of the two reward actions reads and extends the list of factors, and reports its
  failure and the terminal calls it made while its context was active.\<close>

type_synonym 'm reward_world = "'m session_world \<times> reward_factor list"

type_synonym 'm reward_hook = "'m reward_world \<Rightarrow> (session_error option \<times> terminal_intent list) \<times> 'm reward_world"

text \<open>The configuration, the address normalisation (\<^verbatim>\<open>node:net\<close> and \<^verbatim>\<open>URL\<close>), the rounding of
  floating-point products, the hooks of the loaded modules and the start rollbacks by owner.\<close>

record 'm session_env =
  se_maxDropAmount :: int
  se_minDropAmount :: int
  se_sessionTimeout :: int
  se_denyNewSessions :: "string option"
  se_modulesReady :: bool
  se_normalizeIp :: "string \<Rightarrow> string option"
  se_round :: "rat \<Rightarrow> js_number"
  se_onStart :: "js_value \<Rightarrow> ('m session_world, session_error) hook list"
  se_onRestore :: "('m session_world, session_error) hook list"
  se_onIpChange :: "('m session_world, session_error) hook list"
  se_onComplete :: "('m session_world, session_error) hook list"
  se_onFactor :: "(int \<times> 'm reward_hook) list"
  se_onRewarded :: "int \<Rightarrow> (int \<times> 'm reward_hook) list"
  se_rollback :: "string \<Rightarrow> ('m, unit) session_op"

subsection \<open>Access to the world\<close>

definition on_db :: "'a db_op \<Rightarrow> ('m, 'a) session_op" where
  "on_db m = p_catch (p_zoom sw_db (\<lambda>db w. w\<lparr>sw_db := db\<rparr>) m) (\<lambda>e. p_throw (DbErr e))"

definition upd :: "(faucet_session \<Rightarrow> faucet_session) \<Rightarrow> 'm session_world \<Rightarrow> 'm session_world" where
  "upd f w = w\<lparr>sw_session := f (sw_session w)\<rparr>"

definition modify :: "(faucet_session \<Rightarrow> faucet_session) \<Rightarrow> ('m, unit) session_op" where
  "modify f = p_modify (upd f)"

definition get_session :: "(faucet_session \<Rightarrow> 'a) \<Rightarrow> ('m, 'a) session_op" where
  "get_session f = p_get (\<lambda>w. f (sw_session w))"

definition on_ledger :: "(ledger \<Rightarrow> ledger_error + ledger) \<Rightarrow> ('m, unit) session_op" where
  "on_ledger f w = (case f (sw_ledger w) of
      Inl e \<Rightarrow> (Inl (LedgerErr e), w) | Inr L \<Rightarrow> (Inr (), w\<lparr>sw_ledger := L\<rparr>))"

definition run_hooks ::
  "('m session_world, session_error) hook list \<Rightarrow> ('m session_world, session_error) hook list \<Rightarrow> ('m, unit) session_op" where
  "run_hooks locals hooks = runActionHooks Aggregate locals hooks"

text \<open>The outcome of a procedure as a value, for handlers that collect errors.\<close>

definition p_try :: "('m, 'a) session_op \<Rightarrow> ('m, session_error + 'a) session_op" where
  "p_try m = p_catch (p_bind m (\<lambda>a. p_return (Inr a))) (\<lambda>e. p_return (Inl e))"

subsection \<open>The session manager's side\<close>

text \<open>\<^verbatim>\<open>notifySessionUpdate\<close>: a running session is active, any other is not.\<close>

definition notify_active :: "string \<Rightarrow> session_status \<Rightarrow> string list \<Rightarrow> string list" where
  "notify_active sid status active = (case status of
      RUNNING \<Rightarrow> js_add sid active | _ \<Rightarrow> removeAll sid active)"

definition notifySessionUpdate :: "('m, unit) session_op" where
  "notifySessionUpdate = p_modify (\<lambda>w. w\<lparr>sw_active :=
     notify_active (fs_sessionId (sw_session w)) (fs_status (sw_session w)) (sw_active w)\<rparr>)"

definition getClaimCeiling :: "'m session_env \<Rightarrow> faucet_session \<Rightarrow> session_error + int" where
  "getClaimCeiling env s = (case js_get (fs_data s) ''overrideMaxDropAmount'' of
      None \<Rightarrow> Inr (se_maxDropAmount env)
    | Some JUndefined \<Rightarrow> Inr (se_maxDropAmount env)
    | Some v \<Rightarrow> (case js_bigint v of Some i \<Rightarrow> Inr i | None \<Rightarrow> Inl (GenericErr ''Cannot convert to a BigInt'')))"

definition beginAdmission :: "'m session_env \<Rightarrow> bool \<Rightarrow> ('m, unit) session_op" where
  "beginAdmission env restored = p_bind (get_session id) (\<lambda>s.
     p_bind (p_lift (getClaimCeiling env s)) (\<lambda>ceiling.
       on_ledger (begin_reservation (fs_sessionId s) (fs_startTime s) ceiling
         (Ip (fs_remoteIP s) # (case fs_targetAddr s of None \<Rightarrow> [] | Some a \<Rightarrow> if a = [] then [] else [Address a]))
         restored)))"

definition releaseAdmission :: "('m, unit) session_op" where
  "releaseAdmission = p_modify (\<lambda>w. w\<lparr>sw_ledger := release (fs_sessionId (sw_session w)) (sw_ledger w)\<rparr>)"

definition with_ledger :: "(string \<Rightarrow> ledger \<Rightarrow> ledger_error + ledger) \<Rightarrow> ('m, unit) session_op" where
  "with_ledger f = p_bind (get_session fs_sessionId) (\<lambda>sid. on_ledger (f sid))"

text \<open>\<^verbatim>\<open>runRewardOperation\<close>: refused once the admission of reward operations is closed.\<close>

definition runRewardOperation :: "('m, 'a) session_op \<Rightarrow> ('m, 'a) session_op" where
  "runRewardOperation operation = p_bind (p_get sw_admissionOpen) (\<lambda>open.
     if open then operation else p_throw (GenericErr ''Reward operation admission is closed.''))"

subsection \<open>The stored form\<close>

text \<open>\<^verbatim>\<open>JSON.parse(JSON.stringify(v))\<close>.\<close>

fun json_clean :: "js_value \<Rightarrow> js_value" where
  "json_clean (JNum n) = (if is_finite n then JNum n else JNull)"
| "json_clean (JArr vs) = JArr (map (\<lambda>v. if v = JUndefined then JNull else json_clean v) vs)"
| "json_clean (JObj fs) = JObj (map (\<lambda>(k, v). (k, json_clean v)) (filter (\<lambda>(k, v). v \<noteq> JUndefined) fs))"
| "json_clean v = v"

definition task_json :: "session_task \<Rightarrow> js_value" where
  "task_json t = JObj [(''module'', JStr (tk_module t)), (''name'', JStr (tk_name t)), (''timeout'', json_int (tk_timeout t))]"

definition task_of_json :: "js_value \<Rightarrow> session_task" where
  "task_of_json v = \<lparr>tk_module = get_str (own_property v ''module''), tk_name = get_str (own_property v ''name''),
     tk_timeout = get_int (own_property v ''timeout'')\<rparr>"

fun tasks_of_json :: "js_value \<Rightarrow> session_task list" where
  "tasks_of_json (JArr vs) = map task_of_json vs"
| "tasks_of_json _ = []"

fun data_of_json :: "js_value \<Rightarrow> (string, js_value) jsmap" where
  "data_of_json (JObj fs) = fs"
| "data_of_json _ = []"

definition getStoreData :: "faucet_session \<Rightarrow> store_data" where
  "getStoreData s = \<lparr>sd_sessionId = fs_sessionId s, sd_status = fs_status s, sd_startTime = fs_startTime s,
     sd_targetAddr = (case fs_targetAddr s of None \<Rightarrow> [] | Some a \<Rightarrow> a), sd_dropAmount = dec_int (fs_dropAmount s),
     sd_remoteIP = fs_remoteIP s, sd_tasks = JArr (map task_json (fs_tasks s)), sd_data = JObj (fs_data s), sd_claim = JNull\<rparr>"

definition getStoreSnapshot :: "faucet_session \<Rightarrow> store_data" where
  "getStoreSnapshot s = (getStoreData s)\<lparr>sd_tasks := json_clean (sd_tasks (getStoreData s)),
     sd_data := json_clean (sd_data (getStoreData s))\<rparr>"

definition sessionDataEquals :: "store_data \<Rightarrow> store_data \<Rightarrow> bool" where
  "sessionDataEquals left right \<longleftrightarrow>
     sd_sessionId left = sd_sessionId right \<and> sd_status left = sd_status right \<and>
     sd_startTime left = sd_startTime right \<and> sd_targetAddr left = sd_targetAddr right \<and>
     sd_dropAmount left = sd_dropAmount right \<and> sd_remoteIP left = sd_remoteIP right \<and>
     json_clean (sd_tasks left) = json_clean (sd_tasks right) \<and>
     json_clean (sd_data left) = json_clean (sd_data right) \<and>
     json_clean (sd_claim left) = json_clean (sd_claim right)"

definition isTerminalStatus :: "session_status \<Rightarrow> bool" where
  "isTerminalStatus status \<longleftrightarrow> status = CLAIMABLE \<or> status = CLAIMING \<or> status = FINISHED \<or> status = FAILED_SESSION"

definition isMatchingTimeout :: "store_data option \<Rightarrow> bool" where
  "isMatchingTimeout session = (case session of None \<Rightarrow> False
    | Some d \<Rightarrow> sd_status d = FAILED_SESSION \<and> sd_claim d = JNull
        \<and> own_property (sd_data d) ''failed.code'' = JStr ''SESSION_TIMEOUT''
        \<and> own_property (sd_data d) ''failed.reason'' = JStr ''Session timed out'')"

definition normalizeRemoteIP :: "'m session_env \<Rightarrow> string \<Rightarrow> session_error + string" where
  "normalizeRemoteIP env ip = (case se_normalizeIp env ip of
      None \<Rightarrow> Inl (FaucetErr ''INVALID_REMOTE_IP'' ''Unable to determine a valid client IP address.'')
    | Some a \<Rightarrow> if a = [] then Inl (FaucetErr ''INVALID_REMOTE_IP'' ''Unable to determine a valid client IP address.'')
        else Inr a)"

definition js_bigint_text :: "string \<Rightarrow> session_error + int" where
  "js_bigint_text s = (case bigint_of_string s of None \<Rightarrow> Inl (GenericErr ''SyntaxError'') | Some i \<Rightarrow> Inr i)"

subsection \<open>Timers\<close>

text \<open>The delay \<^verbatim>\<open>resetSessionTimer\<close> arms the timer with, and whether it arms it.\<close>

definition min_task_timeout :: "int \<Rightarrow> session_task list \<Rightarrow> int" where
  "min_task_timeout now tasks = fold (\<lambda>task m.
     if tk_timeout task > now \<and> (m = 0 \<or> tk_timeout task < m) then tk_timeout task else m) tasks 0"

definition timer_delay :: "int \<Rightarrow> int \<Rightarrow> faucet_session \<Rightarrow> int" where
  "timer_delay sessionTimeout now s =
     (let d = (min (min_task_timeout now (fs_tasks s)) (fs_startTime s + sessionTimeout) - now) + 1 in
      if d < 1 then 1 else d)"

definition resetSessionTimer :: "'m session_env \<Rightarrow> int \<Rightarrow> ('m, unit) session_op" where
  "resetSessionTimer env now = p_modify (\<lambda>w. upd (\<lambda>s. s\<lparr>fs_sessionTimer :=
     (if fs_status s = RUNNING \<and> sw_rewardsOpen w then Some (timer_delay (se_sessionTimeout env) now s) else None)\<rparr>) w)"

definition lazySaveSession :: "('m, unit) session_op" where
  "lazySaveSession = p_modify (\<lambda>w. upd (\<lambda>s. s\<lparr>fs_isDirty := True,
     fs_saveTimer := (if fs_saveTimer s \<or> fs_ipPending s \<or> \<not> sw_rewardsOpen w then fs_saveTimer s else True)\<rparr>) w)"

definition clear_save_timer :: "('m, unit) session_op" where
  "clear_save_timer = modify (\<lambda>s. s\<lparr>fs_saveTimer := False\<rparr>)"

definition quiesceForShutdown :: "('m, unit) session_op" where
  "quiesceForShutdown = modify (\<lambda>s. s\<lparr>fs_sessionTimer := None, fs_saveTimer := False\<rparr>)"

subsection \<open>Reconciling with the stored session\<close>

definition fetch_session :: "('m, store_data option) session_op" where
  "fetch_session = p_bind (get_session fs_sessionId) (\<lambda>sid. on_db (getSession sid))"

definition adopt_terminal :: "'m session_env \<Rightarrow> int \<Rightarrow> store_data \<Rightarrow> ('m, unit) session_op" where
  "adopt_terminal env now d =
     p_then (modify (\<lambda>s. s\<lparr>fs_status := sd_status d, fs_startTime := sd_startTime d,
       fs_targetAddr := Some (toLowerCase (sd_targetAddr d))\<rparr>))
     (p_bind (p_lift (js_bigint_text (sd_dropAmount d))) (\<lambda>amount.
      p_then (modify (\<lambda>s. s\<lparr>fs_dropAmount := amount\<rparr>))
     (p_bind (p_lift (normalizeRemoteIP env (sd_remoteIP d))) (\<lambda>ip.
      p_then (modify (\<lambda>s. s\<lparr>fs_remoteIP := ip, fs_tasks := tasks_of_json (sd_tasks d), fs_data := data_of_json (sd_data d),
        fs_isDirty := False, fs_persistence := Durable, fs_failure := FailureComplete\<rparr>))
      (p_then (resetSessionTimer env now)
      (p_then releaseAdmission
      (p_then notifySessionUpdate
       (modify (\<lambda>s. s\<lparr>fs_isDisposed := True\<rparr>)))))))))"

definition synchronizeTerminalState :: "'m session_env \<Rightarrow> int \<Rightarrow> store_data option \<Rightarrow> ('m, unit) session_op" where
  "synchronizeTerminalState env now observed =
     p_bind (case observed of Some d \<Rightarrow> p_return (Some d) | None \<Rightarrow> fetch_session) (\<lambda>stored. case stored of
        None \<Rightarrow> p_throw (GenericErr ''Session persistence ownership was lost without a terminal database state.'')
      | Some d \<Rightarrow> if \<not> isTerminalStatus (sd_status d)
          then p_throw (GenericErr ''Session persistence ownership was lost without a terminal database state.'')
          else adopt_terminal env now d)"

datatype reconciliation = RecAbsent | RecDurable | RecTerminal

definition reconcileUncertainInsert :: "'m session_env \<Rightarrow> int \<Rightarrow> ('m, reconciliation) session_op" where
  "reconcileUncertainInsert env now = p_bind (get_session fs_persistence) (\<lambda>p. case p of
      UncertainInsert snapshot \<Rightarrow>
        p_bind fetch_session (\<lambda>stored. case stored of
          None \<Rightarrow> p_then (modify (\<lambda>s. s\<lparr>fs_persistence := Absent\<rparr>)) (p_return RecAbsent)
        | Some d \<Rightarrow>
            if sessionDataEquals d snapshot
            then p_then (modify (\<lambda>s. s\<lparr>fs_persistence := Durable\<rparr>)) (p_return RecDurable)
            else if isTerminalStatus (sd_status d)
            then p_then (modify (\<lambda>s. s\<lparr>fs_persistence := Durable\<rparr>))
              (p_then (synchronizeTerminalState env now (Some d)) (p_return RecTerminal))
            else p_throw (GenericErr ''The stored session does not match the uncertain insert.''))
    | _ \<Rightarrow> p_throw (GenericErr ''Session insert reconciliation requires uncertain persistence state.''))"

subsection \<open>Saving a running session\<close>

definition insert_running :: "'m session_env \<Rightarrow> int \<Rightarrow> store_data \<Rightarrow> ('m, unit) session_op" where
  "insert_running env now sessionData =
     p_then (modify (\<lambda>s. s\<lparr>fs_persistence := UncertainInsert sessionData\<rparr>))
     (p_catch (p_then (on_db (insertRunningSession sessionData)) (modify (\<lambda>s. s\<lparr>fs_persistence := Durable\<rparr>)))
       (\<lambda>insertError. p_bind (p_try (reconcileUncertainInsert env now)) (\<lambda>outcome. case outcome of
          Inl e \<Rightarrow> p_throw (Aggregate [insertError, e])
        | Inr RecAbsent \<Rightarrow> p_throw insertError
        | Inr _ \<Rightarrow> p_return ())))"

definition update_running :: "'m session_env \<Rightarrow> int \<Rightarrow> store_data \<Rightarrow> ('m, unit) session_op" where
  "update_running env now sessionData =
     p_bind (on_db (updateRunningSession sessionData)) (\<lambda>ok.
       if ok then p_return ()
       else p_then (modify (\<lambda>s. s\<lparr>fs_isDirty := True\<rparr>)) (synchronizeTerminalState env now None))"

definition persistRunningSession :: "'m session_env \<Rightarrow> int \<Rightarrow> ('m, unit) session_op" where
  "persistRunningSession env now = p_bind (get_session id) (\<lambda>s.
     if \<not> fs_isDirty s \<or> fs_isDisposed s \<or> fs_status s \<noteq> RUNNING then p_return ()
     else let sessionData = getStoreSnapshot s in
       p_then (modify (\<lambda>s. s\<lparr>fs_isDirty := False\<rparr>))
       (p_catch
         (p_bind (case fs_persistence s of UncertainInsert _ \<Rightarrow> reconcileUncertainInsert env now | _ \<Rightarrow> p_return RecAbsent)
           (\<lambda>reconciliation. if reconciliation \<noteq> RecAbsent then p_return ()
             else p_bind (get_session fs_persistence) (\<lambda>p.
               if p = Absent then insert_running env now sessionData else update_running env now sessionData)))
         (\<lambda>e. p_then (modify (\<lambda>s. s\<lparr>fs_isDirty := True\<rparr>)) (p_throw e))))"

subsection \<open>Failing a session\<close>

definition finalizeFailedSession :: "('m, unit) session_op" where
  "finalizeFailedSession =
     p_then (modify (\<lambda>s. s\<lparr>fs_failure := FailureComplete, fs_isDirty := False\<rparr>))
     (p_then releaseAdmission
     (p_then notifySessionUpdate
      (modify (\<lambda>s. s\<lparr>fs_isDisposed := True\<rparr>))))"

text \<open>The rollbacks registered while the session was starting, last first; every one is run, and
  the failures are thrown together.\<close>

fun run_rollbacks :: "'m session_env \<Rightarrow> string list \<Rightarrow> session_error list \<Rightarrow> ('m, unit) session_op" where
  "run_rollbacks env [] failures = (if failures = [] then p_return () else p_throw (Aggregate failures))"
| "run_rollbacks env (owner # owners) failures =
     p_bind (p_try (se_rollback env owner)) (\<lambda>outcome. case outcome of
        Inl e \<Rightarrow> run_rollbacks env owners (failures @ [e])
      | Inr _ \<Rightarrow> run_rollbacks env owners failures)"

fun is_uncertain :: "persistence_state \<Rightarrow> bool" where
  "is_uncertain (UncertainInsert _) = True"
| "is_uncertain _ = False"

definition runStartRollbacks :: "'m session_env \<Rightarrow> ('m, unit) session_op" where
  "runStartRollbacks env = p_bind (get_session id) (\<lambda>s.
     if fs_rollbacks s = [] \<or> fs_failure s \<noteq> FailureComplete \<or> is_uncertain (fs_persistence s) then p_return ()
     else if fs_persistence s = Durable \<and> fs_status s \<noteq> FAILED_SESSION
     then (if isTerminalStatus (fs_status s) then modify (\<lambda>s. s\<lparr>fs_rollbacks := []\<rparr>) else p_return ())
     else p_then (modify (\<lambda>s. s\<lparr>fs_rollbacks := []\<rparr>)) (run_rollbacks env (rev (fs_rollbacks s)) []))"

definition transition_failed :: "'m session_env \<Rightarrow> int \<Rightarrow> session_status \<Rightarrow> store_data \<Rightarrow> ('m, unit) session_op" where
  "transition_failed env now expectedStatus sessionData =
     p_bind (p_try (on_db (transitionSession sessionData expectedStatus))) (\<lambda>transition.
       if transition = Inr True
       then p_then (modify (\<lambda>s. s\<lparr>fs_persistence := Durable\<rparr>)) finalizeFailedSession
       else p_bind (p_catch fetch_session (\<lambda>readError. case transition of
              Inl e \<Rightarrow> p_throw (Aggregate [e, readError]) | Inr _ \<Rightarrow> p_throw readError))
        (\<lambda>stored. case stored of
            Some d \<Rightarrow>
              if sessionDataEquals d sessionData
              then p_then (modify (\<lambda>s. s\<lparr>fs_persistence := Durable\<rparr>)) finalizeFailedSession
              else if isTerminalStatus (sd_status d) then synchronizeTerminalState env now (Some d)
              else (case transition of Inl e \<Rightarrow> p_throw e
                | Inr _ \<Rightarrow> p_throw (GenericErr ''Session persistence ownership was lost before the terminal state became durable.''))
          | None \<Rightarrow> (case transition of Inl e \<Rightarrow> p_throw e
                | Inr _ \<Rightarrow> p_throw (GenericErr ''Session persistence ownership was lost before the terminal state became durable.''))))"

definition persistFailedSession :: "'m session_env \<Rightarrow> int \<Rightarrow> ('m, unit) session_op" where
  "persistFailedSession env now = p_bind (get_session id) (\<lambda>s. case fs_failure s of
      PendingFailure expectedStatus alreadyPersisted sessionData \<Rightarrow>
        if alreadyPersisted \<or> fs_persistence s = Absent
        then p_then (p_when alreadyPersisted (modify (\<lambda>s. s\<lparr>fs_persistence := Durable\<rparr>))) finalizeFailedSession
        else p_bind (if is_uncertain (fs_persistence s) then reconcileUncertainInsert env now else p_return RecDurable)
          (\<lambda>reconciliation. case reconciliation of
              RecTerminal \<Rightarrow> p_return ()
            | RecAbsent \<Rightarrow> finalizeFailedSession
            | RecDurable \<Rightarrow> transition_failed env now expectedStatus sessionData)
    | _ \<Rightarrow> p_return ())"

definition persistSession :: "'m session_env \<Rightarrow> int \<Rightarrow> ('m, unit) session_op" where
  "persistSession env now = p_bind (get_session fs_failure) (\<lambda>f. case f of
      PendingFailure _ _ _ \<Rightarrow> p_then (persistFailedSession env now) (runStartRollbacks env)
    | FailureComplete \<Rightarrow> runStartRollbacks env
    | _ \<Rightarrow> persistRunningSession env now)"

definition saveSession :: "'m session_env \<Rightarrow> int \<Rightarrow> ('m, unit) session_op" where
  "saveSession env now = p_then clear_save_timer (persistSession env now)"

definition failure_data :: "string \<Rightarrow> string \<Rightarrow> string option \<Rightarrow> (string, js_value) jsmap \<Rightarrow> (string, js_value) jsmap" where
  "failure_data code reason stack data =
     (let d = js_set ''failed.reason'' (JStr reason) (js_set ''failed.code'' (JStr code) data) in
      case stack of None \<Rightarrow> js_delete ''failed.stack'' d | Some st \<Rightarrow> js_set ''failed.stack'' (JStr st) d)"

definition prepare_failure ::
  "'m session_env \<Rightarrow> int \<Rightarrow> string \<Rightarrow> string \<Rightarrow> string option \<Rightarrow> bool \<Rightarrow> bool \<Rightarrow> session_status option
    \<Rightarrow> ('m, session_error list) session_op" where
  "prepare_failure env now code reason stack alreadyPersisted runHooks persistedStatus =
     p_bind (get_session fs_status) (\<lambda>oldStatus.
     let expectedStatus = (case persistedStatus of Some st \<Rightarrow> st
           | None \<Rightarrow> if oldStatus = COMMITTING then RUNNING else oldStatus) in
     p_then (modify (\<lambda>s. s\<lparr>fs_failure := Preparing, fs_data := failure_data code reason stack (fs_data s),
        fs_status := FAILED_SESSION, fs_isDirty := True\<rparr>))
     (p_then (resetSessionTimer env now)
     (p_then clear_save_timer
     (p_bind (if runHooks \<and> (oldStatus = RUNNING \<or> oldStatus = COMMITTING) then p_try (run_hooks [] (se_onComplete env)) else p_return (Inr ()))
      (\<lambda>hooks.
       p_then (modify (\<lambda>s. s\<lparr>fs_failure := PendingFailure expectedStatus alreadyPersisted (getStoreSnapshot s)\<rparr>))
        (p_return (case hooks of Inl e \<Rightarrow> [e] | Inr _ \<Rightarrow> [])))))))"

definition collect_error :: "session_error list \<Rightarrow> ('m, unit) session_op \<Rightarrow> ('m, session_error list) session_op" where
  "collect_error errors m = p_bind (p_try m) (\<lambda>outcome.
     p_return (case outcome of Inl e \<Rightarrow> errors @ [e] | Inr _ \<Rightarrow> errors))"

definition finishFailedSession ::
  "'m session_env \<Rightarrow> int \<Rightarrow> string \<Rightarrow> string \<Rightarrow> string option \<Rightarrow> bool \<Rightarrow> bool \<Rightarrow> session_status option \<Rightarrow> ('m, unit) session_op" where
  "finishFailedSession env now code reason stack alreadyPersisted runHooks persistedStatus =
     p_bind (get_session id) (\<lambda>s.
     if fs_isDisposed s then p_return ()
     else p_bind (if fs_failure s = NoFailure
            then prepare_failure env now code reason stack alreadyPersisted runHooks persistedStatus else p_return [])
       (\<lambda>errors. p_bind (collect_error errors (persistFailedSession env now)) (\<lambda>errors.
         p_bind (get_session fs_failure) (\<lambda>f.
         p_bind (if f = FailureComplete then collect_error errors (runStartRollbacks env) else p_return errors) (\<lambda>errors.
           if errors = [] then p_return () else p_throw (Aggregate errors))))))"

subsection \<open>Rewards\<close>

text \<open>The product of the factors, scaled to a whole number of hundred-thousandths; NaN, an
  infinity or a negative factor gives zero.  \<^verbatim>\<open>rnd\<close> rounds the exact result to a double.\<close>

fun num_times :: "(rat \<Rightarrow> js_number) \<Rightarrow> js_number \<Rightarrow> rat \<Rightarrow> js_number" where
  "num_times rnd (Fin p) q = rnd (p * q)"
| "num_times rnd PosInf q = (if q > 0 then PosInf else if q < 0 then NegInf else NaN)"
| "num_times rnd NegInf q = (if q > 0 then NegInf else if q < 0 then PosInf else NaN)"
| "num_times rnd NaN q = NaN"

fun factor_product :: "(rat \<Rightarrow> js_number) \<Rightarrow> reward_factor list \<Rightarrow> js_number \<Rightarrow> js_number option" where
  "factor_product rnd [] p = Some p"
| "factor_product rnd (f # fs) p = (case rf_factor f of
      Fin q \<Rightarrow> if q < 0 then None else factor_product rnd fs (num_times rnd p q)
    | _ \<Rightarrow> None)"

definition scaled_factor :: "(rat \<Rightarrow> js_number) \<Rightarrow> reward_factor list \<Rightarrow> int" where
  "scaled_factor rnd fs = (case factor_product rnd fs (Fin 1) of
      None \<Rightarrow> 0
    | Some p \<Rightarrow> (case num_times rnd p 100000 of
         Fin q \<Rightarrow> if is_safe_integer \<lfloor>q\<rfloor> \<and> \<lfloor>q\<rfloor> \<ge> 0 then \<lfloor>q\<rfloor> else 0
       | _ \<Rightarrow> 0))"

definition reward_amount :: "(rat \<Rightarrow> js_number) \<Rightarrow> reward_factor list \<Rightarrow> int \<Rightarrow> int" where
  "reward_amount rnd fs amount = bigint_div (amount * scaled_factor rnd fs) 100000"

definition factors_json :: "reward_factor list \<Rightarrow> js_value" where
  "factors_json fs = JArr (map (\<lambda>f. JObj [(''factor'', JNum (rf_factor f)), (''module'', JStr (rf_module f))]) fs)"

text \<open>One hook's terminal calls leave one intent; the intents of all hooks leave one intent, in
  which a failure takes precedence over a completion.\<close>

fun record_call :: "terminal_intent \<Rightarrow> terminal_intent \<Rightarrow> terminal_intent" where
  "record_call (FailedIntent c r st) intent = (case intent of FailedIntent _ _ _ \<Rightarrow> intent | _ \<Rightarrow> FailedIntent c r st)"
| "record_call CompleteIntent intent = (if intent = NoIntent then CompleteIntent else intent)"
| "record_call NoIntent intent = intent"

definition context_intent :: "terminal_intent list \<Rightarrow> terminal_intent" where
  "context_intent calls = fold record_call calls NoIntent"

definition collectRewardTerminalIntent :: "terminal_intent list \<Rightarrow> terminal_intent" where
  "collectRewardTerminalIntent contexts = fold record_call contexts NoIntent"

definition runRewardHook ::
  "'m reward_hook \<Rightarrow> ('m reward_world \<times> terminal_intent list, session_error, unit) proc" where
  "runRewardHook hook rw = (case hook (fst rw) of ((failure, calls), w') \<Rightarrow>
     ((case failure of None \<Rightarrow> Inr () | Some e \<Rightarrow> Inl e), (w', snd rw @ [context_intent calls])))"

definition run_reward_hooks :: "(int \<times> 'm reward_hook) list \<Rightarrow> reward_factor list \<Rightarrow>
    ('m, session_error option \<times> reward_factor list \<times> terminal_intent) session_op" where
  "run_reward_hooks hooks factors w =
     (case runActionHooks Aggregate [] (map (\<lambda>(prio, h). (prio, runRewardHook h)) hooks) ((w, factors), []) of
        (r, ((w', factors'), contexts)) \<Rightarrow>
          (Inr ((case r of Inl e \<Rightarrow> Some e | Inr _ \<Rightarrow> None), factors', collectRewardTerminalIntent contexts), w'))"

definition canCommitReward :: "faucet_session \<Rightarrow> bool" where
  "canCommitReward s \<longleftrightarrow> fs_status s = STARTING \<or> fs_status s = RUNNING"

definition canStartReward :: "('m, bool) session_op" where
  "canStartReward = p_get (\<lambda>w. sw_rewardsOpen w \<and> canCommitReward (sw_session w))"

definition applyRewardFactorTerminalIntent ::
  "'m session_env \<Rightarrow> int \<Rightarrow> (bool \<Rightarrow> ('m, unit) session_op) \<Rightarrow> terminal_intent \<Rightarrow> ('m, bool) session_op" where
  "applyRewardFactorTerminalIntent env now finish intent = (case intent of
      NoIntent \<Rightarrow> p_return False
    | CompleteIntent \<Rightarrow> p_bind (get_session fs_completion) (\<lambda>c.
        p_then (p_when (c = NotCompleting) (finish False)) (p_return True))
    | FailedIntent code reason stack \<Rightarrow>
        p_then (finishFailedSession env now code reason stack False True None) (p_return True))"

definition applyRewardTerminalIntent ::
  "'m session_env \<Rightarrow> int \<Rightarrow> (bool \<Rightarrow> ('m, unit) session_op) \<Rightarrow> terminal_intent \<Rightarrow> ('m, unit) session_op" where
  "applyRewardTerminalIntent env now finish intent = (case intent of
      NoIntent \<Rightarrow> p_return ()
    | CompleteIntent \<Rightarrow> finish True
    | FailedIntent code reason stack \<Rightarrow> finishFailedSession env now code reason stack False True None)"

fun error_text :: "session_error \<Rightarrow> string" where
  "error_text (FaucetErr code message) = message"
| "error_text (GenericErr message) = message"
| "error_text _ = ''error''"

definition account_reward ::
  "'m session_env \<Rightarrow> int \<Rightarrow> (bool \<Rightarrow> ('m, unit) session_op) \<Rightarrow> reward_factor list \<Rightarrow> int \<Rightarrow> ('m, int) session_op" where
  "account_reward env now finish factors rewardAmount =
     p_then (modify (\<lambda>s. s\<lparr>fs_dropAmount := (if fs_dropAmount s = -1 then 0 else fs_dropAmount s) + rewardAmount,
       fs_data := js_set ''reward.factors'' (factors_json factors) (fs_data s), fs_isDirty := True\<rparr>))
     (p_bind (run_reward_hooks (se_onRewarded env rewardAmount) factors) (\<lambda>(failure, _, intent). case failure of
        Some e \<Rightarrow> p_then (finishFailedSession env now ''REWARD_ACCOUNTING''
            (''reward accounting failed: '' @ error_text e) None False True None) (p_throw e)
      | None \<Rightarrow> p_then (applyRewardTerminalIntent env now finish intent)
         (p_bind (get_session id) (\<lambda>s.
          p_then (p_when (fs_isDirty s \<and> canCommitReward s) lazySaveSession) (p_return rewardAmount)))))"

definition evaluate_factors :: "'m session_env \<Rightarrow>
    ('m, session_error option \<times> reward_factor list \<times> terminal_intent) session_op" where
  "evaluate_factors env =
     p_then (modify (\<lambda>s. s\<lparr>fs_factorDepth := fs_factorDepth s + 1\<rparr>))
     (p_bind (run_reward_hooks (se_onFactor env) []) (\<lambda>outcome.
      p_then (modify (\<lambda>s. s\<lparr>fs_factorDepth := fs_factorDepth s - 1\<rparr>)) (p_return outcome)))"

text \<open>\<^verbatim>\<open>applyReward\<close>, with the completion it may trigger as an argument.\<close>

definition apply_reward_with ::
  "'m session_env \<Rightarrow> int \<Rightarrow> (bool \<Rightarrow> ('m, unit) session_op) \<Rightarrow> int \<Rightarrow> ('m, int) session_op" where
  "apply_reward_with env now finish amount = p_bind canStartReward (\<lambda>ok.
     if \<not> ok \<or> amount \<le> 0 then p_return 0
     else p_bind (evaluate_factors env) (\<lambda>(failure, factors, intent).
       p_bind (applyRewardFactorTerminalIntent env now finish intent) (\<lambda>terminated. case failure of
           Some e \<Rightarrow> p_throw e
         | None \<Rightarrow> if terminated then p_return 0
             else p_bind canStartReward (\<lambda>ok. p_bind (get_session fs_cancelReward) (\<lambda>cancelled.
               if \<not> ok \<or> cancelled then p_return 0
               else account_reward env now finish factors (reward_amount (se_round env) factors amount))))))"

subsection \<open>Completing a session\<close>

text \<open>The durable transition to claimable: whether this call committed it, or adopted a
  terminal state the database already had.\<close>

definition commit_claimable :: "'m session_env \<Rightarrow> int \<Rightarrow> ('m, bool) session_op" where
  "commit_claimable env now =
     p_then (run_hooks [] (se_onComplete env)) (p_bind (get_session id) (\<lambda>s.
     let claimableData = (getStoreSnapshot s)\<lparr>sd_status := CLAIMABLE\<rparr> in
     p_bind (p_try (on_db (transitionSession claimableData RUNNING))) (\<lambda>transition. case transition of
        Inr transitioned \<Rightarrow> if transitioned then p_return True
          else p_then (synchronizeTerminalState env now None) (p_return False)
      | Inl e \<Rightarrow> p_bind (p_catch fetch_session (\<lambda>readError. p_throw (Aggregate [e, readError]))) (\<lambda>stored. case stored of
          None \<Rightarrow> p_throw e
        | Some d \<Rightarrow> if sessionDataEquals d claimableData then p_return True
            else if isTerminalStatus (sd_status d)
            then p_then (synchronizeTerminalState env now (Some d)) (p_return False)
            else p_throw e))))"

definition claim_committed :: "'m session_env \<Rightarrow> int \<Rightarrow> ('m, unit) session_op" where
  "claim_committed env now =
     p_then (modify (\<lambda>s. s\<lparr>fs_status := CLAIMABLE, fs_isDirty := False, fs_persistence := Durable\<rparr>))
     (p_then (resetSessionTimer env now)
     (p_then releaseAdmission
     (p_then notifySessionUpdate
      (modify (\<lambda>s. s\<lparr>fs_isDisposed := True\<rparr>)))))"

definition commit_session :: "'m session_env \<Rightarrow> int \<Rightarrow> ('m, unit) session_op" where
  "commit_session env now =
     p_then (with_ledger markCommitting)
     (p_then (modify (\<lambda>s. s\<lparr>fs_status := COMMITTING, fs_data := js_set ''close.time'' (json_int now) (fs_data s), fs_isDirty := True\<rparr>))
     (p_then (resetSessionTimer env now)
     (p_then clear_save_timer
     (p_bind (p_catch (commit_claimable env now)
        (\<lambda>e. p_bind (get_session fs_status) (\<lambda>status.
           p_then (finishFailedSession env now ''SESSION_COMPLETE'' (''sessionComplete failed: '' @ error_text e) None False False
             (Some (if status = COMMITTING then RUNNING else CLAIMABLE))) (p_throw e))))
       (\<lambda>committed. if committed then claim_committed env now else p_return ())))))"

definition finish_checked :: "'m session_env \<Rightarrow> int \<Rightarrow> ('m, unit) session_op" where
  "finish_checked env now = p_bind (get_session id) (\<lambda>s.
     if fs_status s \<noteq> RUNNING then p_return ()
     else if fs_dropAmount s < se_minDropAmount env
     then finishFailedSession env now ''AMOUNT_TOO_LOW'' ''drop amount lower than minimum'' None False True None
     else commit_session env now)"

text \<open>\<^verbatim>\<open>finishSession\<close>: a session without any reward gets the default reward first, whose
  hooks may ask for the completion again; \<^verbatim>\<open>fuel\<close> bounds that nesting.\<close>

primrec finish_session :: "nat \<Rightarrow> 'm session_env \<Rightarrow> int \<Rightarrow> bool \<Rightarrow> ('m, unit) session_op" where
  "finish_session 0 env now grantDefaultReward = p_throw (GenericErr ''out of fuel'')"
| "finish_session (Suc fuel) env now grantDefaultReward =
     p_bind (get_session id) (\<lambda>s.
     p_then (if grantDefaultReward \<and> fs_dropAmount s = -1 \<and> fs_factorDepth s = 0
         then p_then (apply_reward_with env now (finish_session fuel env now) (se_maxDropAmount env)) (p_return ())
         else p_return ())
       (finish_checked env now))"

definition FINISH_FUEL :: nat where "FINISH_FUEL = 3"

definition finishSession :: "'m session_env \<Rightarrow> int \<Rightarrow> bool \<Rightarrow> ('m, unit) session_op" where
  "finishSession = finish_session FINISH_FUEL"

definition applyReward :: "'m session_env \<Rightarrow> int \<Rightarrow> int \<Rightarrow> ('m, int) session_op" where
  "applyReward env now = apply_reward_with env now (finishSession env now)"

subsection \<open>Public operations\<close>

definition trackCompletion :: "('m, unit) session_op \<Rightarrow> ('m, unit) session_op" where
  "trackCompletion completion =
     p_then (modify (\<lambda>s. s\<lparr>fs_completion := Completing\<rparr>))
     (p_bind (p_try completion) (\<lambda>outcome.
      p_then (modify (\<lambda>s. s\<lparr>fs_completion := (case outcome of
          Inl e \<Rightarrow> if fs_isDisposed s then Completed (Inl e) else NotCompleting
        | Inr u \<Rightarrow> Completed (Inr u))\<rparr>))
       (p_lift outcome)))"

text \<open>\<^verbatim>\<open>setSessionFailed\<close> and \<^verbatim>\<open>completeSession\<close> outside of reward hooks.  A call while a factor
  evaluation is in progress cancels the reward it is computing.\<close>

definition terminal_operation :: "('m, unit) session_op \<Rightarrow> ('m, unit) session_op" where
  "terminal_operation operation = p_bind (p_get sw_admissionOpen) (\<lambda>accept.
     if \<not> accept then p_return ()
     else p_then (modify (\<lambda>s. if fs_factorDepth s > 0 then s\<lparr>fs_cancelReward := True\<rparr> else s))
       (trackCompletion (runRewardOperation operation)))"

definition setSessionFailed :: "'m session_env \<Rightarrow> int \<Rightarrow> string \<Rightarrow> string \<Rightarrow> string option \<Rightarrow> ('m, unit) session_op" where
  "setSessionFailed env now code reason stack = p_bind (get_session fs_completion) (\<lambda>c. case c of
      Completed outcome \<Rightarrow> p_lift outcome
    | Completing \<Rightarrow> p_return ()
    | NotCompleting \<Rightarrow> terminal_operation (finishFailedSession env now code reason stack False True None))"

definition completeSession :: "'m session_env \<Rightarrow> int \<Rightarrow> ('m, unit) session_op" where
  "completeSession env now = p_bind (get_session id) (\<lambda>s. case fs_completion s of
      Completed outcome \<Rightarrow> p_lift outcome
    | Completing \<Rightarrow> p_return ()
    | NotCompleting \<Rightarrow> if fs_status s \<noteq> RUNNING then p_return ()
        else terminal_operation (finishSession env now True))"

definition expire_tasks :: "int \<Rightarrow> session_task list \<Rightarrow> session_task list" where
  "expire_tasks now tasks = filter (\<lambda>t. \<not> (tk_timeout t > 0 \<and> tk_timeout t < now)) tasks"

definition tryProceedSession :: "'m session_env \<Rightarrow> int \<Rightarrow> ('m, unit) session_op" where
  "tryProceedSession env now = p_bind (get_session id) (\<lambda>s.
     if fs_status s \<noteq> RUNNING then p_return ()
     else if now \<ge> fs_startTime s + se_sessionTimeout env
     then setSessionFailed env now ''SESSION_TIMEOUT'' ''session timeout'' None
     else p_then (modify (\<lambda>s. s\<lparr>fs_tasks := expire_tasks now (fs_tasks s)\<rparr>))
       (if expire_tasks now (fs_tasks s) = [] then completeSession env now else resetSessionTimer env now))"

definition timeout_session :: "'m session_env \<Rightarrow> int \<Rightarrow> int \<Rightarrow> ('m, bool) session_op" where
  "timeout_session env now timeout =
     p_then (saveSession env now) (p_bind (get_session id) (\<lambda>s.
     if fs_status s \<noteq> RUNNING then p_return False
     else p_bind (p_try (on_db (tryTimeoutSession now (getStoreSnapshot s) timeout))) (\<lambda>transition. case transition of
        Inl e \<Rightarrow> p_bind (p_catch fetch_session (\<lambda>readError. p_throw (Aggregate [e, readError]))) (\<lambda>stored.
            if isMatchingTimeout stored
            then p_then (modify (\<lambda>s. s\<lparr>fs_persistence := Durable\<rparr>))
              (p_then (finishFailedSession env now ''SESSION_TIMEOUT'' ''Session timed out'' None True True None) (p_return True))
            else (case stored of
                Some d \<Rightarrow> if isTerminalStatus (sd_status d)
                  then p_then (synchronizeTerminalState env now (Some d)) (p_return False) else p_throw e
              | None \<Rightarrow> p_throw e))
      | Inr False \<Rightarrow> p_bind fetch_session (\<lambda>stored. case stored of
            Some d \<Rightarrow> if sd_status d \<noteq> RUNNING
              then p_then (synchronizeTerminalState env now None) (p_return False) else p_return False
          | None \<Rightarrow> p_return False)
      | Inr True \<Rightarrow> p_then (finishFailedSession env now ''SESSION_TIMEOUT'' ''Session timed out'' None True True None) (p_return True))))"

definition tryApplyTimeout :: "'m session_env \<Rightarrow> int \<Rightarrow> int \<Rightarrow> ('m, bool) session_op" where
  "tryApplyTimeout env now timeout = p_bind (get_session id) (\<lambda>s.
     if (case fs_failure s of PendingFailure _ _ _ \<Rightarrow> True | _ \<Rightarrow> False)
     then p_then (saveSession env now) (p_return False)
     else if fs_completion s \<noteq> NotCompleting \<or> fs_status s \<noteq> RUNNING then p_return False
     else p_then (modify (\<lambda>s. s\<lparr>fs_completion := Completing\<rparr>))
       (p_bind (p_try (timeout_session env now timeout)) (\<lambda>outcome.
        p_then (modify (\<lambda>s. s\<lparr>fs_completion := (if \<not> fs_isDisposed s then NotCompleting
            else Completed (case outcome of Inl e \<Rightarrow> Inl e | Inr _ \<Rightarrow> Inr ()))\<rparr>))
         (p_lift outcome))))"

definition addReward :: "'m session_env \<Rightarrow> int \<Rightarrow> int \<Rightarrow> ('m, int) session_op" where
  "addReward env now amount = p_bind (p_get sw_admissionOpen) (\<lambda>accept.
     if accept then runRewardOperation (applyReward env now amount) else p_return 0)"

definition applyDropAmount :: "'m session_env \<Rightarrow> int \<Rightarrow> int \<Rightarrow> ('m, int) session_op" where
  "applyDropAmount env now amount = p_bind (get_session fs_dropAmount) (\<lambda>drop.
     if drop \<noteq> -1 then p_return 0
     else p_bind canStartReward (\<lambda>ok. if \<not> ok then p_return 0
       else p_then (modify (\<lambda>s. s\<lparr>fs_dropAmount := 0\<rparr>))
         (if amount > 0 then applyReward env now amount
          else p_then lazySaveSession (p_return 0))))"

definition setDropAmount :: "'m session_env \<Rightarrow> int \<Rightarrow> int \<Rightarrow> ('m, int) session_op" where
  "setDropAmount env now amount = p_bind (p_get sw_admissionOpen) (\<lambda>accept.
     if accept then runRewardOperation (applyDropAmount env now amount) else p_return 0)"

definition applyPenalty :: "int \<Rightarrow> ('m, int) session_op" where
  "applyPenalty amount = p_bind canStartReward (\<lambda>ok. if \<not> ok then p_return 0
     else p_then (modify (\<lambda>s. if fs_dropAmount s = -1 then s\<lparr>fs_dropAmount := 0\<rparr> else s))
       (p_bind (get_session fs_dropAmount) (\<lambda>drop.
        let penalty = (if amount > drop then drop else amount) in
        p_then (modify (\<lambda>s. s\<lparr>fs_dropAmount := drop - penalty\<rparr>))
         (p_then lazySaveSession (p_return penalty)))))"

definition subPenalty :: "int \<Rightarrow> ('m, int) session_op" where
  "subPenalty amount = p_bind (p_get sw_admissionOpen) (\<lambda>accept.
     if accept then runRewardOperation (applyPenalty amount) else p_return 0)"

definition getDropAmount :: "faucet_session \<Rightarrow> int" where
  "getDropAmount s = (if fs_dropAmount s < 0 then 0 else fs_dropAmount s)"

definition setSessionData :: "string \<Rightarrow> js_value \<Rightarrow> ('m, unit) session_op" where
  "setSessionData key value = p_then (modify (\<lambda>s. s\<lparr>fs_data := js_set key value (fs_data s)\<rparr>)) lazySaveSession"

definition addBlockingTask :: "'m session_env \<Rightarrow> int \<Rightarrow> string \<Rightarrow> string \<Rightarrow> int \<Rightarrow> ('m, unit) session_op" where
  "addBlockingTask env now moduleName taskName timeLimit =
     p_then (modify (\<lambda>s. s\<lparr>fs_tasks := fs_tasks s @
        [\<lparr>tk_module = moduleName, tk_name = taskName, tk_timeout = (if timeLimit \<noteq> 0 then now + timeLimit else 0)\<rparr>]\<rparr>))
     (resetSessionTimer env now)"

definition resolveBlockingTask :: "'m session_env \<Rightarrow> int \<Rightarrow> string \<Rightarrow> string \<Rightarrow> ('m, unit) session_op" where
  "resolveBlockingTask env now moduleName taskName =
     p_then (modify (\<lambda>s. s\<lparr>fs_tasks := filter (\<lambda>t. \<not> (tk_module t = moduleName \<and> tk_name t = taskName)) (fs_tasks s)\<rparr>))
     (p_then (resetSessionTimer env now) lazySaveSession)"

definition setTargetAddr :: "string \<Rightarrow> ('m, unit) session_op" where
  "setTargetAddr addr = p_bind (get_session fs_targetAddr) (\<lambda>cur.
     let present = (case cur of None \<Rightarrow> False | Some a \<Rightarrow> a \<noteq> []) in
     if present \<and> cur \<noteq> Some (toLowerCase addr)
     then p_throw (FaucetErr ''INVALID_STATE'' ''cannot change target address: already set.'')
     else if present then p_return ()
     else p_then (modify (\<lambda>s. s\<lparr>fs_targetAddr := Some (toLowerCase addr)\<rparr>))
       (with_ledger (\<lambda>sid. bind sid [Address (toLowerCase addr)])))"

definition setMaxDropAmountOverride :: "int \<Rightarrow> ('m, unit) session_op" where
  "setMaxDropAmountOverride amount =
     p_then (setSessionData ''overrideMaxDropAmount'' (JStr (dec_int amount)))
       (with_ledger (\<lambda>sid. reserveClaimCeiling sid amount))"

definition registerStartRollback :: "string \<Rightarrow> ('m, unit) session_op" where
  "registerStartRollback owner = p_bind (get_session id) (\<lambda>s.
     if fs_status s \<noteq> STARTING
     then p_throw (FaucetErr ''INVALID_STATE'' ''Start rollbacks can only be registered while a session is starting.'')
     else if owner = [] then p_throw (GenericErr ''A start rollback requires an owner and callback.'')
     else if owner \<in> set (fs_rollbacks s) then p_throw (GenericErr (''Start rollback owner is already registered: '' @ owner))
     else modify (\<lambda>s. s\<lparr>fs_rollbacks := fs_rollbacks s @ [owner]\<rparr>))"

subsection \<open>Starting, restoring and moving a session\<close>

definition is_hex_address :: "string \<Rightarrow> bool" where
  "is_hex_address a \<longleftrightarrow> length a = 42 \<and> take 2 a = ''0x'' \<and> (\<forall>c \<in> set (drop 2 a). is_hex c)"

definition is_valid_target :: "string \<Rightarrow> bool" where
  "is_valid_target a \<longleftrightarrow> is_hex_address a \<and> \<not> (\<forall>c \<in> set (drop 2 a). c = CHR ''0'')"

definition deny_hook :: "'m session_env \<Rightarrow> ('m, unit) session_op" where
  "deny_hook env = (case se_denyNewSessions env of
      None \<Rightarrow> p_return () | Some message \<Rightarrow> p_throw (FaucetErr ''FAUCET_DISABLED'' message))"

definition target_hook :: "js_value \<Rightarrow> ('m, unit) session_op" where
  "target_hook userInput = p_bind (get_session fs_targetAddr) (\<lambda>cur.
     let present = (case cur of None \<Rightarrow> False | Some a \<Rightarrow> a \<noteq> []);
         target = (if present then Some (the cur) else string_value (own_property userInput ''addr'')) in
     if \<not> present \<and> (userInput = JNull \<or> userInput = JUndefined) then p_throw (GenericErr ''Cannot read properties of null'')
     else case target of
       None \<Rightarrow> p_throw (FaucetErr ''INVALID_ADDR'' ''Missing target address.'')
     | Some a \<Rightarrow> if \<not> is_valid_target a then p_throw (FaucetErr ''INVALID_ADDR'' ''Invalid target address.'')
         else if present then p_return () else setTargetAddr a)"

definition start_local_hooks :: "'m session_env \<Rightarrow> js_value \<Rightarrow> ('m session_world, session_error) hook list" where
  "start_local_hooks env userInput = [(1, deny_hook env), (5, target_hook userInput)]"

definition failStart :: "'m session_env \<Rightarrow> int \<Rightarrow> session_error \<Rightarrow> string \<Rightarrow> string \<Rightarrow> ('m, unit) session_op" where
  "failStart env now error code reason =
     p_bind (p_try (setSessionFailed env now code reason None)) (\<lambda>outcome. case outcome of
        Inl cleanupError \<Rightarrow> p_throw (Aggregate [error, cleanupError]) | Inr _ \<Rightarrow> p_throw error)"

fun start_error :: "session_error \<Rightarrow> string \<times> string" where
  "start_error (FaucetErr code message) = (code, message)"
| "start_error e = (''INTERNAL_ERROR'', ''sessionStart failed: '' @ error_text e)"

definition admit_session :: "'m session_env \<Rightarrow> int \<Rightarrow> js_value \<Rightarrow> ('m, unit) session_op" where
  "admit_session env now userInput =
     p_catch (p_then (beginAdmission env False) (run_hooks (start_local_hooks env userInput) (se_onStart env userInput)))
       (\<lambda>e. failStart env now e (fst (start_error e)) (snd (start_error e)))"

definition settle_ceiling :: "'m session_env \<Rightarrow> ('m, unit) session_op" where
  "settle_ceiling env = p_bind (get_session id) (\<lambda>s.
     p_bind (p_lift (getClaimCeiling env s)) (\<lambda>ceiling. with_ledger (\<lambda>sid. setClaimCeiling sid ceiling)))"

definition activate_session :: "'m session_env \<Rightarrow> int \<Rightarrow> ('m, unit) session_op" where
  "activate_session env now =
     p_catch
       (p_then (settle_ceiling env)
       (p_then (modify (\<lambda>s. s\<lparr>fs_status := RUNNING, fs_isDirty := True\<rparr>))
       (p_then (with_ledger markRunning)
       (p_then notifySessionUpdate
       (p_then (saveSession env now)
       (p_then (modify (\<lambda>s. s\<lparr>fs_rollbacks := []\<rparr>))
        (tryProceedSession env now)))))))
       (\<lambda>e. p_bind (get_session fs_status) (\<lambda>status.
          if status \<noteq> FAILED_SESSION
          then failStart env now e ''INTERNAL_ERROR'' (''session activation failed: '' @ error_text e) else p_throw e))"

definition startSession ::
  "'m session_env \<Rightarrow> int \<Rightarrow> string \<Rightarrow> string \<Rightarrow> js_value \<Rightarrow> (string \<times> js_value) list \<Rightarrow> ('m, unit) session_op" where
  "startSession env now guid remoteIP userInput overrides = p_bind (get_session fs_status) (\<lambda>status.
     if status \<noteq> UNKNOWN then p_throw (FaucetErr ''INVALID_STATE'' ''cannot start session'')
     else if \<not> se_modulesReady env
     then p_throw (FaucetErr ''FAUCET_UNAVAILABLE'' ''The faucet is temporarily unavailable. Please try again shortly.'')
     else p_then (modify (\<lambda>s. s\<lparr>fs_status := STARTING, fs_sessionId := guid, fs_startTime := now\<rparr>))
       (p_bind (p_lift (normalizeRemoteIP env remoteIP)) (\<lambda>ip.
        p_then (modify (\<lambda>s. s\<lparr>fs_remoteIP := ip, fs_dropAmount := -1\<rparr>))
       (p_then (p_each (\<lambda>(key, value). setSessionData key value) overrides)
       (p_then (admit_session env now userInput)
        (p_bind (get_session fs_status) (\<lambda>status.
           if status = FAILED_SESSION then p_return () else activate_session env now)))))))"

definition restoreSession :: "'m session_env \<Rightarrow> int \<Rightarrow> store_data \<Rightarrow> ('m, unit) session_op" where
  "restoreSession env now d =
     p_then (modify (\<lambda>s. s\<lparr>fs_sessionId := sd_sessionId d, fs_status := sd_status d, fs_startTime := sd_startTime d,
       fs_targetAddr := Some (toLowerCase (sd_targetAddr d))\<rparr>))
     (p_bind (p_lift (js_bigint_text (sd_dropAmount d))) (\<lambda>amount.
      p_then (modify (\<lambda>s. s\<lparr>fs_dropAmount := amount\<rparr>))
     (p_bind (p_lift (normalizeRemoteIP env (sd_remoteIP d))) (\<lambda>ip.
      p_then (modify (\<lambda>s. s\<lparr>fs_remoteIP := ip, fs_tasks := tasks_of_json (sd_tasks d), fs_data := data_of_json (sd_data d),
        fs_persistence := Durable\<rparr>))
     (p_then (p_catch
        (p_then (beginAdmission env True) (p_then (run_hooks [] (se_onRestore env)) (with_ledger markRunning)))
        (\<lambda>e. p_then releaseAdmission (p_throw e)))
     (p_then notifySessionUpdate (resetSessionTimer env now)))))))"

definition prepare_ip_move :: "string \<Rightarrow> string \<Rightarrow> ('m, subject_move) session_op" where
  "prepare_ip_move oldIp newIp w = (case prepareMove (fs_sessionId (sw_session w)) (Ip oldIp) (Ip newIp) (sw_ledger w) of
      Inl e \<Rightarrow> (Inl (LedgerErr e), w) | Inr (mv, L) \<Rightarrow> (Inr mv, w\<lparr>sw_ledger := L\<rparr>))"

definition applyRemoteIpUpdate :: "'m session_env \<Rightarrow> int \<Rightarrow> string \<Rightarrow> ('m, unit) session_op" where
  "applyRemoteIpUpdate env now remoteIP = p_bind (get_session fs_remoteIP) (\<lambda>oldRemoteIP.
     if oldRemoteIP = remoteIP then p_return ()
     else p_bind (prepare_ip_move oldRemoteIP remoteIP) (\<lambda>mv.
       p_then (modify (\<lambda>s. s\<lparr>fs_saveTimer := False, fs_ipPending := True, fs_remoteIP := remoteIP, fs_isDirty := True\<rparr>))
       (p_bind (p_try (p_catch
           (p_then (run_hooks [] (se_onIpChange env)) (p_then (saveSession env now)
             (p_modify (\<lambda>w. w\<lparr>sw_ledger := commitMove mv (sw_ledger w)\<rparr>))))
           (\<lambda>e. p_then (modify (\<lambda>s. s\<lparr>fs_remoteIP := oldRemoteIP, fs_isDirty := True\<rparr>))
             (p_then (p_modify (\<lambda>w. w\<lparr>sw_ledger := abortMove mv (sw_ledger w)\<rparr>)) (p_throw e)))))
         (\<lambda>outcome. p_then (modify (\<lambda>s. s\<lparr>fs_ipPending := False\<rparr>))
           (p_bind (get_session fs_isDirty) (\<lambda>dirty.
            p_then (p_when dirty lazySaveSession) (p_lift outcome)))))))"

definition updateRemoteIP :: "'m session_env \<Rightarrow> int \<Rightarrow> string \<Rightarrow> ('m, unit) session_op" where
  "updateRemoteIP env now remoteIP = p_bind (p_lift (normalizeRemoteIP env remoteIP)) (applyRemoteIpUpdate env now)"

end
