(* ===== verification/Session_Rows.thy ===== *)
theory Session_Rows
  imports Faucet_Database
begin

text \<open>
  What the statements of \<^verbatim>\<open>Faucet_Database\<close> do to the row of one session, for every list of
  driver faults: the facts the session and the claim manager build on.
\<close>

definition row_at :: "faucet_db \<Rightarrow> string \<Rightarrow> session_row option" where
  "row_at db sid = find (\<lambda>r. sr_sessionId r = sid) (db_sessions db)"

definition distinct_ids :: "faucet_db \<Rightarrow> bool" where
  "distinct_ids db \<longleftrightarrow> distinct (map sr_sessionId (db_sessions db))"

lemma row_at_faults [simp]: "row_at (db\<lparr>db_faults := fs\<rparr>) sid = row_at db sid"
    "distinct_ids (db\<lparr>db_faults := fs\<rparr>) = distinct_ids db"
    "row_at (db\<lparr>db_kv := kv\<rparr>) sid = row_at db sid" "distinct_ids (db\<lparr>db_kv := kv\<rparr>) = distinct_ids db"
  by (simp_all add: row_at_def distinct_ids_def)

lemma row_at_id: "row_at db sid = Some r \<Longrightarrow> sr_sessionId r = sid \<and> r \<in> set (db_sessions db)"
  by (auto simp: row_at_def find_Some_iff)

lemma find_by_id: "distinct (map sr_sessionId rs) \<Longrightarrow> r \<in> set rs \<Longrightarrow> find (\<lambda>r'. sr_sessionId r' = sr_sessionId r) rs = Some r"
  by (induction rs) force+

lemma row_at_in: "distinct_ids db \<Longrightarrow> r \<in> set (db_sessions db) \<Longrightarrow> row_at db (sr_sessionId r) = Some r"
  by (simp add: distinct_ids_def row_at_def find_by_id)

lemma row_at_None: "row_at db sid = None \<longleftrightarrow> sid \<notin> sr_sessionId ` set (db_sessions db)"
  by (auto simp: row_at_def find_None_iff)

text \<open>An update of rows of one session, and how many rows it changed.\<close>

lemma find_update:
  assumes "\<And>r. p r \<Longrightarrow> sr_sessionId r = sid" "\<And>r. sr_sessionId (f r) = sr_sessionId r"
  shows "find (\<lambda>r. sr_sessionId r = sid) (map (\<lambda>r. if p r then f r else r) rs) =
    map_option (\<lambda>r. if p r then f r else r) (find (\<lambda>r. sr_sessionId r = sid) rs)"
  using assms(2) by (induction rs) auto

lemma count_update:
  assumes "\<And>r. p r \<Longrightarrow> sr_sessionId r = sid" "distinct (map sr_sessionId rs)"
  shows "length (filter p rs) = (case find (\<lambda>r. sr_sessionId r = sid) rs of None \<Rightarrow> 0 | Some r \<Rightarrow> if p r then 1 else 0)"
  using assms(2)
proof (induction rs)
  case (Cons r rs)
  show ?case
  proof (cases "sr_sessionId r = sid")
    case True
    have "\<forall>x \<in> set rs. \<not> p x"
    proof
      fix x assume "x \<in> set rs"
      hence "sr_sessionId x \<noteq> sid" using Cons.prems True by (auto simp: image_iff)
      thus "\<not> p x" using assms(1) by blast
    qed
    hence "filter p rs = []" by (simp add: filter_empty_conv)
    thus ?thesis using True by simp
  next
    case False
    hence "\<not> p r" using assms(1) by blast
    thus ?thesis using False Cons by simp
  qed
qed simp

lemma wp_update_row:
  assumes p: "\<And>r. p r \<Longrightarrow> sr_sessionId r = sid" and f: "\<And>r. sr_sessionId (f r) = sr_sessionId r" and d: "distinct_ids db"
    and same: "\<And>db'. (\<nexists>r. row_at db sid = Some r \<and> p r) \<Longrightarrow> distinct_ids db' \<Longrightarrow> row_at db' sid = row_at db sid \<Longrightarrow> Q 0 db'"
    and upd: "\<And>db' r. row_at db sid = Some r \<Longrightarrow> p r \<Longrightarrow> distinct_ids db' \<Longrightarrow> row_at db' sid = Some (f r) \<Longrightarrow> Q 1 db' \<and> E DriverError db'"
    and err: "\<And>db'. distinct_ids db' \<Longrightarrow> row_at db' sid = row_at db sid \<Longrightarrow> E DriverError db'"
  shows "wp (db_write (update_where p f)) Q E db"
proof (rule wp_db_write)
  fix fs
  let ?db = "db\<lparr>db_faults := fs\<rparr>"
  let ?db' = "?db\<lparr>db_sessions := map (\<lambda>r. if p r then f r else r) (db_sessions ?db)\<rparr>"
  have "map sr_sessionId (map (\<lambda>r. if p r then f r else r) rs) = map sr_sessionId rs" for rs
    using f by (induction rs) auto
  hence dis: "distinct_ids ?db'" using d by (simp add: distinct_ids_def del: map_map)
  have row: "row_at ?db' sid = map_option (\<lambda>r. if p r then f r else r) (row_at db sid)"
    using find_update[of p sid f, OF p f] by (simp add: row_at_def)
  have cnt: "length (filter p (db_sessions db)) = (case row_at db sid of None \<Rightarrow> 0 | Some r \<Rightarrow> if p r then 1 else 0)"
    using count_update[of p sid, OF p] d by (simp add: row_at_def distinct_ids_def)
  show "case update_where p f ?db of Inl e \<Rightarrow> E e ?db | Inr (a, db') \<Rightarrow> Q a db' \<and> E DriverError db'"
  proof (cases "\<exists>r. row_at db sid = Some r \<and> p r")
    case True
    then obtain r where "row_at db sid = Some r" "p r" by blast
    thus ?thesis using upd[of r ?db'] dis row cnt by (simp add: update_where_def)
  next
    case False
    hence "row_at ?db' sid = row_at db sid" using row by (cases "row_at db sid") auto
    thus ?thesis using same[OF False dis] err[OF dis] cnt False
      by (auto simp: update_where_def split: option.splits)
  qed
next
  fix fs show "E DriverError (db\<lparr>db_faults := fs\<rparr>)" by (rule err) (use d in simp_all)
qed

lemma wp_transition:
  assumes d: "distinct_ids db"
    and same: "\<And>db'. distinct_ids db' \<Longrightarrow> row_at db' (sd_sessionId x) = row_at db (sd_sessionId x) \<Longrightarrow> Q False db' \<and> (\<forall>e. E e db')"
    and upd: "\<And>db' r. row_at db (sd_sessionId x) = Some r \<Longrightarrow> distinct_ids db' \<Longrightarrow> sr_status r = expected \<Longrightarrow> sr_claim r = None \<Longrightarrow>
      row_at db' (sd_sessionId x) = Some ((set_columns x r)\<lparr>sr_status := sd_status x\<rparr>) \<Longrightarrow> Q True db' \<and> (\<forall>e. E e db')"
  shows "wp (transitionSession x expected) Q E db"
proof (cases "(sd_status x \<noteq> CLAIMABLE \<and> sd_status x \<noteq> FAILED_SESSION) \<or> sd_claim x \<noteq> JNull")
  case True
  thus ?thesis using same[OF d refl] by (simp add: transitionSession_def wp_simps)
next
  case False
  show ?thesis unfolding transitionSession_def if_not_P[OF False] wp_simps
  proof (rule wp_update_row[where sid = "sd_sessionId x"], goal_cases)
    case (4 db') thus ?case using same by simp
  next
    case (5 db' r)
    thus ?case using upd[OF 5(1,3)] by (simp add: is_unclaimed_def)
  next
    case (6 db') thus ?case using same by blast
  qed (simp_all add: is_unclaimed_def set_columns_def d)
qed

lemma wp_timeout:
  assumes d: "distinct_ids db"
    and same: "\<And>db'. distinct_ids db' \<Longrightarrow> row_at db' (sd_sessionId x) = row_at db (sd_sessionId x) \<Longrightarrow> Q False db' \<and> (\<forall>e. E e db')"
    and upd: "\<And>db' r v. row_at db (sd_sessionId x) = Some r \<Longrightarrow> distinct_ids db' \<Longrightarrow> sr_claim r = None \<Longrightarrow> sr_status r = sd_status x \<Longrightarrow>
      row_at db' (sd_sessionId x) = Some (r\<lparr>sr_status := FAILED_SESSION, sr_data := v\<rparr>) \<Longrightarrow> Q True db' \<and> (\<forall>e. E e db')"
  shows "wp (tryTimeoutSession now x timeout) Q E db"
  unfolding tryTimeoutSession_def wp_simps
proof (rule wp_update_row[where sid = "sd_sessionId x"], goal_cases)
  case (4 db') thus ?case using same by simp
next
  case (5 db' r)
  thus ?case using upd[OF 5(1,3)] by simp
next
  case (6 db') thus ?case using same by blast
qed (simp_all add: d)

lemma find_snoc: "find P (xs @ [x]) = (case find P xs of None \<Rightarrow> (if P x then Some x else None) | Some y \<Rightarrow> Some y)"
  by (induction xs) auto

lemma wp_insert_running:
  assumes d: "distinct_ids db"
    and err: "\<And>db' e. distinct_ids db' \<Longrightarrow> row_at db' (sd_sessionId x) = row_at db (sd_sessionId x) \<Longrightarrow> E e db'"
    and ins: "\<And>db' r. row_at db (sd_sessionId x) = None \<Longrightarrow> distinct_ids db' \<Longrightarrow> row_at db' (sd_sessionId x) = Some r \<Longrightarrow>
      sr_status r = RUNNING \<Longrightarrow> sr_dropAmount r = sd_dropAmount x \<Longrightarrow> sr_remoteIP r = sd_remoteIP x \<Longrightarrow> sr_claim r = None \<Longrightarrow>
      Q () db' \<and> (\<forall>e. E e db')"
  shows "wp (insertRunningSession x) Q E db"
proof -
  let ?r = "\<lparr>sr_sessionId = sd_sessionId x, sr_status = RUNNING, sr_startTime = sd_startTime x,
        sr_targetAddr = sd_targetAddr x, sr_dropAmount = sd_dropAmount x, sr_remoteIP = sd_remoteIP x,
        sr_tasks = JsonText (sd_tasks x), sr_data = JsonText (sd_data x), sr_claim = None\<rparr>"
  have "wp (db_write (insert_row ?r)) Q E db"
  proof (rule wp_db_write)
    fix fs
    let ?db = "db\<lparr>db_faults := fs\<rparr>"
    let ?db' = "?db\<lparr>db_sessions := db_sessions ?db @ [?r]\<rparr>"
    show "case insert_row ?r ?db of Inl e \<Rightarrow> E e ?db | Inr (a, db') \<Rightarrow> Q a db' \<and> E DriverError db'"
    proof (cases "row_at db (sd_sessionId x)")
      case None
      have "row_at ?db' (sd_sessionId x) = Some ?r"
        using None by (simp add: row_at_def find_snoc)
      moreover have "distinct_ids ?db'"
        using d None by (simp add: distinct_ids_def row_at_None)
      ultimately have new: "distinct_ids ?db'" "row_at ?db' (sd_sessionId x) = Some ?r" by simp_all
      from ins[OF None new] None show ?thesis by (auto simp: insert_row_def row_at_None image_iff)
    next
      case (Some r)
      thus ?thesis using err[of ?db] d row_at_id[OF Some] by (auto simp: insert_row_def)
    qed
  next
    fix fs show "E DriverError (db\<lparr>db_faults := fs\<rparr>)" using err d by simp
  qed
  thus ?thesis using err[OF d refl] by (simp add: insertRunningSession_def wp_simps)
qed

lemma wp_update_running:
  assumes d: "distinct_ids db"
    and same: "\<And>db' b. distinct_ids db' \<Longrightarrow> row_at db' (sd_sessionId x) = row_at db (sd_sessionId x) \<Longrightarrow> Q b db' \<and> (\<forall>e. E e db')"
    and upd: "\<And>db' r. row_at db (sd_sessionId x) = Some r \<Longrightarrow> distinct_ids db' \<Longrightarrow> sr_status r = RUNNING \<Longrightarrow> sr_claim r = None \<Longrightarrow>
      row_at db' (sd_sessionId x) = Some (set_columns x r) \<Longrightarrow> Q True db' \<and> (\<forall>e. E e db')"
  shows "wp (updateRunningSession x) Q E db"
proof (cases "sd_status x \<noteq> RUNNING \<or> sd_claim x \<noteq> JNull")
  case True
  thus ?thesis using same[OF d refl] by (simp add: updateRunningSession_def wp_simps)
next
  case False
  show ?thesis unfolding updateRunningSession_def if_not_P[OF False] wp_simps
  proof (rule wp_update_row[where sid = "sd_sessionId x"], goal_cases)
    case (4 db')
    thus ?case using same by (auto intro!: wp_db_read simp: wp_return)
  next
    case (5 db' r)
    thus ?case using upd[OF 5(1,3)] by (simp add: is_unclaimed_def wp_return)
  next
    case (6 db') thus ?case using same by blast
  qed (simp_all add: is_unclaimed_def set_columns_def d)
qed

lemma wp_get_row:
  assumes "\<And>fs. row_at db sid = None \<Longrightarrow> Q None (db\<lparr>db_faults := fs\<rparr>)"
    and "\<And>fs r d. row_at db sid = Some r \<Longrightarrow> store_data_of r = Inr d \<Longrightarrow> Q (Some d) (db\<lparr>db_faults := fs\<rparr>)"
    and "\<And>fs e. E e (db\<lparr>db_faults := fs\<rparr>)"
  shows "wp (getSession sid) Q E db"
  unfolding getSession_def wp_simps
  by (rule wp_db_read)
    (use assms in \<open>auto simp: row_at_def wp_simps split: option.splits sum.splits elim: try_bind.elims\<close>)

end
