(* ===== verification/Session_Safety.thy ===== *)
theory Session_Safety
  imports Faucet_Session Session_Rows
begin

text \<open>
  The safety of a session's persistence: what its memory says and what its row says stay
  consistent under every list of driver faults, for all module hooks that keep to the
  public interface of the session.  The contract of the hooks is the locale
  \<^verbatim>\<open>session_hooks\<close>; one lemma per operation shows that it keeps the invariant
  \<^verbatim>\<open>sess_inv\<close>.
\<close>

subsection \<open>The invariant\<close>

abbreviation own_id :: "'m session_world \<Rightarrow> string" where "own_id w \<equiv> fs_sessionId (sw_session w)"

definition own_row :: "'m session_world \<Rightarrow> session_row option" where
  "own_row w = row_at (sw_db w) (own_id w)"

definition ip_ok :: "'m session_env \<Rightarrow> string \<Rightarrow> bool" where
  "ip_ok env ip \<longleftrightarrow> (\<exists>a. normalizeRemoteIP env ip = Inr a)"

definition amount_ok :: "string \<Rightarrow> bool" where
  "amount_ok s \<longleftrightarrow> bigint_of_string s \<noteq> None"

definition row_valid :: "'m session_env \<Rightarrow> session_row \<Rightarrow> bool" where
  "row_valid env r \<longleftrightarrow> amount_ok (sr_dropAmount r) \<and> ip_ok env (sr_remoteIP r)"

definition data_valid :: "'m session_env \<Rightarrow> store_data \<Rightarrow> bool" where
  "data_valid env d \<longleftrightarrow> amount_ok (sd_dropAmount d) \<and> ip_ok env (sd_remoteIP d)"

text \<open>A disposed session and its row agree: the row is terminal with the session's status and,
  unless it failed, the session's amount, or the session failed before it was ever stored.\<close>

definition terminal_agrees :: "'m session_world \<Rightarrow> bool" where
  "terminal_agrees w \<longleftrightarrow> (case own_row w of
      None \<Rightarrow> fs_status (sw_session w) = FAILED_SESSION
    | Some r \<Rightarrow> isTerminalStatus (sr_status r) \<and> sr_status r = fs_status (sw_session w) \<and>
        (sr_status r \<noteq> FAILED_SESSION \<longrightarrow> bigint_of_string (sr_dropAmount r) = Some (fs_dropAmount (sw_session w))))"

definition pending_ok :: "'m session_env \<Rightarrow> 'm session_world \<Rightarrow> bool" where
  "pending_ok env w \<longleftrightarrow> (\<forall>expected already d. fs_failure (sw_session w) = PendingFailure expected already d \<longrightarrow>
     \<not> fs_isDisposed (sw_session w) \<and> fs_status (sw_session w) = FAILED_SESSION \<and> sd_sessionId d = own_id w \<and> sd_status d = FAILED_SESSION \<and>
     (fs_persistence (sw_session w) \<noteq> Absent \<longrightarrow> data_valid env d) \<and>
     (already \<longrightarrow> (\<exists>r. own_row w = Some r \<and> sr_status r = FAILED_SESSION)))"

definition sess_inv :: "'m session_env \<Rightarrow> 'm session_world \<Rightarrow> bool" where
  "sess_inv env w \<longleftrightarrow> distinct_ids (sw_db w) \<and>
     (\<forall>r. own_row w = Some r \<longrightarrow> row_valid env r) \<and>
     (fs_persistence (sw_session w) = Absent \<longrightarrow> own_row w = None) \<and>
     (fs_persistence (sw_session w) = Durable \<longrightarrow> own_row w \<noteq> None) \<and>
     (fs_persistence (sw_session w) \<noteq> Absent \<or> fs_status (sw_session w) = RUNNING \<longrightarrow> ip_ok env (fs_remoteIP (sw_session w))) \<and>
     (fs_failure (sw_session w) \<noteq> NoFailure \<longrightarrow> isTerminalStatus (fs_status (sw_session w))) \<and>
     pending_ok env w \<and>
     (fs_isDisposed (sw_session w) \<longrightarrow> terminal_agrees w)"

text \<open>What a hook leaves alone: the row of the session and the private fields of its object.\<close>

definition same_core :: "'m session_world \<Rightarrow> 'm session_world \<Rightarrow> bool" where
  "same_core w w' \<longleftrightarrow> (distinct_ids (sw_db w) \<longrightarrow> distinct_ids (sw_db w')) \<and> own_id w' = own_id w \<and> own_row w' = own_row w \<and>
     fs_status (sw_session w') = fs_status (sw_session w) \<and>
     fs_persistence (sw_session w') = fs_persistence (sw_session w) \<and>
     fs_failure (sw_session w') = fs_failure (sw_session w) \<and>
     fs_isDisposed (sw_session w') = fs_isDisposed (sw_session w) \<and>
     fs_remoteIP (sw_session w') = fs_remoteIP (sw_session w) \<and>
     fs_dropAmount (sw_session w') = fs_dropAmount (sw_session w) \<and>
     fs_factorDepth (sw_session w') = fs_factorDepth (sw_session w)"

definition keeps_core :: "('m, 'a) session_op \<Rightarrow> bool" where
  "keeps_core m \<longleftrightarrow> (\<forall>w. wp m (\<lambda>_. same_core w) (\<lambda>_. same_core w) w)"

lemma same_core_refl [simp]: "same_core w w"
  by (simp add: same_core_def)

lemma same_core_trans: "same_core w w' \<Longrightarrow> same_core w' w'' \<Longrightarrow> same_core w w''"
  by (simp add: same_core_def)

lemma same_core_inv:
  assumes c: "same_core w w'" and i: "sess_inv env w"
  shows "sess_inv env w'"
proof -
  have eqs: "own_id w' = own_id w" "own_row w' = own_row w" "fs_status (sw_session w') = fs_status (sw_session w)"
    "fs_persistence (sw_session w') = fs_persistence (sw_session w)" "fs_failure (sw_session w') = fs_failure (sw_session w)"
    "fs_isDisposed (sw_session w') = fs_isDisposed (sw_session w)" "fs_remoteIP (sw_session w') = fs_remoteIP (sw_session w)"
    "fs_dropAmount (sw_session w') = fs_dropAmount (sw_session w)"
    and d: "distinct_ids (sw_db w) \<Longrightarrow> distinct_ids (sw_db w')"
    using c by (simp_all add: same_core_def)
  have dw: "distinct_ids (sw_db w')" using d i unfolding sess_inv_def by blast
  have "pending_ok env w'" using i unfolding sess_inv_def pending_ok_def eqs by blast
  moreover have "terminal_agrees w' = terminal_agrees w" unfolding terminal_agrees_def eqs by (rule refl)
  ultimately show ?thesis using i dw unfolding sess_inv_def eqs by blast
qed

lemma keeps_coreD: "keeps_core m \<Longrightarrow> wp m (\<lambda>_. same_core w) (\<lambda>_. same_core w) w"
  by (simp add: keeps_core_def)

lemma keeps_core_wp:
  assumes "keeps_core m" "\<And>a w'. same_core w w' \<Longrightarrow> Q a w'" "\<And>e w'. same_core w w' \<Longrightarrow> E e w'"
  shows "wp m Q E w"
  by (rule wp_mono[OF keeps_coreD[OF assms(1)]]) (use assms(2,3) in auto)

subsection \<open>Rules for the session's steps\<close>

lemma upd_simps [simp]:
  "sw_db (upd f w) = sw_db w" "sw_session (upd f w) = f (sw_session w)" "sw_ledger (upd f w) = sw_ledger w"
  "sw_active (upd f w) = sw_active w" "sw_rewardsOpen (upd f w) = sw_rewardsOpen w"
  "sw_admissionOpen (upd f w) = sw_admissionOpen w" "sw_modules (upd f w) = sw_modules w"
  by (simp_all add: upd_def)

lemma wp_modify_session [wp_simps]: "wp (modify f) Q E = (\<lambda>w. Q () (upd f w))"
  by (simp add: modify_def wp_modify)

lemma wp_get_session [wp_simps]: "wp (get_session f) Q E = (\<lambda>w. Q (f (sw_session w)) w)"
  by (simp add: get_session_def wp_get)

lemma wp_try [wp_simps]: "wp (p_try m) Q E = wp m (\<lambda>a. Q (Inr a)) (\<lambda>e. Q (Inl e))"
  by (simp add: p_try_def wp_simps)

lemma wp_on_db [wp_simps]:
  "wp (on_db m) Q E = (\<lambda>w. wp m (\<lambda>a db. Q a (w\<lparr>sw_db := db\<rparr>)) (\<lambda>e db. E (DbErr e) (w\<lparr>sw_db := db\<rparr>)) (sw_db w))"
  by (simp add: on_db_def wp_simps)

lemma wp_on_ledger [wp_simps]: "wp (on_ledger f) Q E = (\<lambda>w. case f (sw_ledger w) of
    Inl e \<Rightarrow> E (LedgerErr e) w | Inr L \<Rightarrow> Q () (w\<lparr>sw_ledger := L\<rparr>))"
  by (auto simp: on_ledger_def wp_def fun_eq_iff split: sum.splits)

lemma own_row_upd: "fs_sessionId (f (sw_session w)) = own_id w \<Longrightarrow> own_row (upd f w) = own_row w"
  by (simp add: own_row_def)

lemma own_row_simps [simp]: "own_row (w\<lparr>sw_ledger := L\<rparr>) = own_row w" "own_row (w\<lparr>sw_active := A\<rparr>) = own_row w"
    "own_row (w\<lparr>sw_db := db\<rparr>) = row_at db (own_id w)"
  by (simp_all add: own_row_def)

lemma keeps_core_timer: "keeps_core (resetSessionTimer env now)" "keeps_core lazySaveSession" "keeps_core clear_save_timer"
    "keeps_core releaseAdmission" "keeps_core notifySessionUpdate" "keeps_core (with_ledger g)"
  by (auto simp: keeps_core_def resetSessionTimer_def lazySaveSession_def clear_save_timer_def releaseAdmission_def
      notifySessionUpdate_def with_ledger_def wp_simps same_core_def own_row_upd split: sum.splits)

subsection \<open>The contract of the hooks\<close>

locale session_hooks =
  fixes env :: "'m session_env"
  assumes start_hooks: "h \<in> set (se_onStart env input) \<Longrightarrow> keeps_core (snd h)"
    and restore_hooks: "h \<in> set (se_onRestore env) \<Longrightarrow> keeps_core (snd h)"
    and ip_hooks: "h \<in> set (se_onIpChange env) \<Longrightarrow> keeps_core (snd h)"
    and complete_hooks: "h \<in> set (se_onComplete env) \<Longrightarrow> keeps_core (snd h)"
    and factor_hooks: "k \<in> set (se_onFactor env) \<Longrightarrow> same_core (fst rw) (fst (snd (snd k rw)))"
    and rewarded_hooks: "k \<in> set (se_onRewarded env amount) \<Longrightarrow> same_core (fst rw) (fst (snd (snd k rw)))"
    and rollbacks: "keeps_core (se_rollback env owner)"
    and normal_ip: "se_normalizeIp env ip = Some a \<Longrightarrow> se_normalizeIp env a = Some a"

text \<open>Running hooks that keep the core keeps the core.\<close>

lemma settle_all_keeps:
  assumes "\<And>h. h \<in> set hs \<Longrightarrow> (\<And>w. wp (snd h) (\<lambda>_. R w) (\<lambda>_. R w) w)" "\<And>w. R w w" "\<And>u v w. R u v \<Longrightarrow> R v w \<Longrightarrow> R u w"
  shows "wp (settle_all hs fs) (\<lambda>_. R w) (\<lambda>_. R w) w"
  using assms(1)
proof (induction hs arbitrary: fs w)
  case (Cons h hs)
  show ?case unfolding settle_all.simps wp_simps
    by (rule wp_mono[OF Cons.prems[of h]]) (auto intro!: wp_mono[OF Cons.IH[OF Cons.prems]] intro: assms(3))
qed (simp add: wp_return assms(2))

lemma wp_throw_failures: "(\<And>e. P e w) \<Longrightarrow> Q () w \<Longrightarrow> wp (throw_failures agg fs) Q P w"
  by (simp add: throw_failures_def wp_simps split: list.splits)

lemma runActionHooks_keeps:
  assumes "\<And>h w. h \<in> set (locals @ hooks) \<Longrightarrow> wp (snd h) (\<lambda>_. R w) (\<lambda>_. R w) w" "\<And>w. R w w" "\<And>u v w. R u v \<Longrightarrow> R v w \<Longrightarrow> R u w"
  shows "wp (runActionHooks agg locals hooks) (\<lambda>_. R w) (\<lambda>_. R w) w"
  using assms(1)
proof (induction agg locals hooks arbitrary: w rule: runActionHooks.induct)
  case (1 agg locals hooks)
  show ?case
  proof (cases "loop_prio locals hooks")
    case None
    thus ?thesis by (subst runActionHooks.simps) (simp add: wp_return assms(2))
  next
    case (Some p)
    have now: "\<And>h w. h \<in> set (takeWhile (\<lambda>h. fst h = p) locals @ takeWhile (\<lambda>h. fst h = p) hooks) \<Longrightarrow> wp (snd h) (\<lambda>_. R w) (\<lambda>_. R w) w"
      by (rule 1(2)) (auto dest: set_takeWhileD)
    have rest: "wp (runActionHooks agg (dropWhile (\<lambda>h. fst h = p) locals) (dropWhile (\<lambda>h. fst h = p) hooks)) (\<lambda>_. R w) (\<lambda>_. R w) w" for w
      by (rule 1(1)[OF Some 1(2)]) (auto dest: set_dropWhileD)
    show ?thesis unfolding runActionHooks.simps[of agg locals hooks] Some option.case wp_simps
      by (rule wp_mono[OF settle_all_keeps[where R = R, OF now assms(2,3)]])
        (auto intro!: wp_throw_failures wp_mono[OF rest] intro: assms(3))
  qed
qed

lemma run_hooks_keeps: "(\<And>h. h \<in> set (locals @ hooks) \<Longrightarrow> keeps_core (snd h)) \<Longrightarrow> keeps_core (run_hooks locals hooks)"
  unfolding keeps_core_def run_hooks_def
  by (intro allI runActionHooks_keeps) (auto simp: keeps_core_def intro: same_core_trans)

lemma wp_runRewardHook: "wp (runRewardHook k) Q E rw = (let v = (snd (k (fst rw)), snd rw @ [context_intent (snd (fst (k (fst rw))))]) in
    case fst (fst (k (fst rw))) of None \<Rightarrow> Q () v | Some e \<Rightarrow> E e v)"
  by (simp add: wp_def runRewardHook_def split: prod.splits option.splits)

lemma wp_run_reward_hooks: "wp (run_reward_hooks hooks factors) Q E w =
    wp (runActionHooks Aggregate [] (map (\<lambda>(prio, h). (prio, runRewardHook h)) hooks))
      (\<lambda>_ x. Q (None, snd (fst x), collectRewardTerminalIntent (snd x)) (fst (fst x)))
      (\<lambda>e x. Q (Some e, snd (fst x), collectRewardTerminalIntent (snd x)) (fst (fst x))) ((w, factors), [])"
  by (simp add: wp_def run_reward_hooks_def split: prod.splits sum.splits)

lemma run_reward_hooks_keeps:
  assumes "\<And>h rw. h \<in> set hooks \<Longrightarrow> same_core (fst rw) (fst (snd (snd h rw)))"
  shows "keeps_core (run_reward_hooks hooks factors)"
proof -
  let ?R = "\<lambda>(x :: 'a reward_world \<times> terminal_intent list) y. same_core (fst (fst x)) (fst (fst y))"
  let ?hs = "map (\<lambda>(prio, h). (prio, runRewardHook h)) hooks"
  have "wp (runActionHooks Aggregate [] ?hs) (\<lambda>_. ?R x) (\<lambda>_. ?R x) x" for x
  proof (rule runActionHooks_keeps)
    fix h w assume "h \<in> set ([] @ ?hs)"
    then obtain k where "k \<in> set hooks" "snd h = runRewardHook (snd k)" by auto
    thus "wp (snd h) (\<lambda>_. ?R w) (\<lambda>_. ?R w) w"
      using assms[of k "fst w"] by (simp add: wp_runRewardHook Let_def split: option.split)
  next
    show "?R w w" for w by simp
    show "?R u v \<Longrightarrow> ?R v w \<Longrightarrow> ?R u w" for u v w by (rule same_core_trans)
  qed
  from this[of "((w, factors), [])" for w] show ?thesis
    unfolding keeps_core_def wp_run_reward_hooks by simp
qed

end
