(* ===== verification/Session_Steps.thy ===== *)
theory Session_Steps
  imports Session_Safety
begin

text \<open>
  Every operation of a session keeps the invariant \<^verbatim>\<open>sess_inv\<close>, and none of them touches the
  row or the status of a disposed session.  The two together are the relation
  \<^verbatim>\<open>sess_next\<close> between the world before and after an operation.
\<close>

subsection \<open>The relation between the worlds before and after\<close>

definition sess_next :: "'m session_env \<Rightarrow> 'm session_world \<Rightarrow> 'm session_world \<Rightarrow> bool" where
  "sess_next env w w' \<longleftrightarrow> sess_inv env w' \<and> own_id w' = own_id w \<and>
     (fs_isDisposed (sw_session w) \<longrightarrow> fs_isDisposed (sw_session w') \<and> own_row w' = own_row w \<and>
        fs_status (sw_session w') = fs_status (sw_session w) \<and> fs_dropAmount (sw_session w') = fs_dropAmount (sw_session w)) \<and>
     (fs_persistence (sw_session w) = Absent \<and> fs_status (sw_session w) \<noteq> RUNNING \<longrightarrow>
        fs_persistence (sw_session w') = Absent \<and> fs_status (sw_session w') \<noteq> RUNNING)"

definition keeps :: "'m session_env \<Rightarrow> ('m, 'a) session_op \<Rightarrow> bool" where
  "keeps env m \<longleftrightarrow> (\<forall>w. sess_inv env w \<longrightarrow> wp m (\<lambda>_. sess_next env w) (\<lambda>_. sess_next env w) w)"

lemma sess_next_refl: "sess_inv env w \<Longrightarrow> sess_next env w w"
  by (simp add: sess_next_def)

lemma sess_next_inv: "sess_next env w w' \<Longrightarrow> sess_inv env w'"
  by (simp add: sess_next_def)

lemma sess_next_trans: "sess_next env u v \<Longrightarrow> sess_next env v w \<Longrightarrow> sess_next env u w"
  unfolding sess_next_def by metis

lemma sess_next_core: "same_core w w' \<Longrightarrow> sess_inv env w \<Longrightarrow> sess_next env w w'"
  using same_core_inv[of w w' env] unfolding sess_next_def by (simp add: same_core_def)

lemma keepsI: "(\<And>w. sess_inv env w \<Longrightarrow> wp m (\<lambda>_. sess_next env w) (\<lambda>_. sess_next env w) w) \<Longrightarrow> keeps env m"
  by (simp add: keeps_def)

lemma keepsD: "keeps env m \<Longrightarrow> sess_inv env w \<Longrightarrow> wp m (\<lambda>_. sess_next env w) (\<lambda>_. sess_next env w) w"
  by (simp add: keeps_def)

lemma keeps_from:
  assumes "keeps env m" "sess_next env u w" "\<And>a w'. sess_next env u w' \<Longrightarrow> Q a w'" "\<And>e w'. sess_next env u w' \<Longrightarrow> E e w'"
  shows "wp m Q E w"
  by (rule wp_mono[OF keepsD[OF assms(1) sess_next_inv[OF assms(2)]]]) (use assms(3,4) sess_next_trans[OF assms(2)] in blast)+

named_theorems keeps_intros \<open>operations that keep the invariant\<close>

lemma keeps_core_keeps: "keeps_core m \<Longrightarrow> keeps env m"
  by (intro keepsI wp_mono[OF keeps_coreD]) (auto intro: sess_next_core)

lemma keeps_return [keeps_intros]: "keeps env (p_return a)"
  by (simp add: keeps_def wp_simps sess_next_refl)

lemma keeps_throw [keeps_intros]: "keeps env (p_throw e)"
  by (simp add: keeps_def wp_simps sess_next_refl)

lemma keeps_lift [keeps_intros]: "keeps env (p_lift r)"
  by (simp add: keeps_def wp_simps sess_next_refl split: sum.split)

lemma keeps_bind [keeps_intros]: "keeps env m \<Longrightarrow> (\<And>a. keeps env (f a)) \<Longrightarrow> keeps env (p_bind m f)"
  by (rule keepsI) (auto simp: wp_simps intro!: wp_mono[OF keepsD] intro: sess_next_inv sess_next_trans)

lemma keeps_then [keeps_intros]: "keeps env m \<Longrightarrow> keeps env n \<Longrightarrow> keeps env (p_then m n)"
  unfolding p_then_def by (rule keeps_bind)

lemma keeps_catch [keeps_intros]: "keeps env m \<Longrightarrow> (\<And>e. keeps env (h e)) \<Longrightarrow> keeps env (p_catch m h)"
  by (rule keepsI) (auto simp: wp_simps intro!: wp_mono[OF keepsD] intro: sess_next_inv sess_next_trans)

lemma keeps_try [keeps_intros]: "keeps env m \<Longrightarrow> keeps env (p_try m)"
  unfolding p_try_def by (intro keeps_intros)

lemma keeps_when [keeps_intros]: "keeps env m \<Longrightarrow> keeps env (p_when b m)"
  unfolding p_when_def by (simp add: keeps_intros)

lemma keeps_if [keeps_intros]: "(b \<Longrightarrow> keeps env m) \<Longrightarrow> (\<not> b \<Longrightarrow> keeps env n) \<Longrightarrow> keeps env (if b then m else n)"
  by simp

lemma keeps_get [keeps_intros]: "keeps env (p_get f)" "keeps env (get_session g)"
  by (simp_all add: keeps_def wp_simps sess_next_refl)

lemma keeps_modify [keeps_intros]:
  assumes "\<And>s. fs_sessionId (f s) = fs_sessionId s \<and> fs_status (f s) = fs_status s \<and> fs_persistence (f s) = fs_persistence s \<and>
    fs_failure (f s) = fs_failure s \<and> fs_isDisposed (f s) = fs_isDisposed s \<and> fs_remoteIP (f s) = fs_remoteIP s \<and>
    fs_dropAmount (f s) = fs_dropAmount s"
  shows "keeps env (modify f)"
proof (rule keepsI, simp add: wp_simps)
  fix w assume i: "sess_inv env w"
  have eqs: "own_id (upd f w) = own_id w" "own_row (upd f w) = own_row w" "fs_status (sw_session (upd f w)) = fs_status (sw_session w)"
    "fs_persistence (sw_session (upd f w)) = fs_persistence (sw_session w)" "fs_failure (sw_session (upd f w)) = fs_failure (sw_session w)"
    "fs_isDisposed (sw_session (upd f w)) = fs_isDisposed (sw_session w)" "fs_remoteIP (sw_session (upd f w)) = fs_remoteIP (sw_session w)"
    "fs_dropAmount (sw_session (upd f w)) = fs_dropAmount (sw_session w)" "sw_db (upd f w) = sw_db w"
    using assms by (simp_all add: own_row_def)
  show "sess_next env w (upd f w)" using i unfolding sess_next_def sess_inv_def pending_ok_def terminal_agrees_def eqs by blast
qed

lemma keeps_timer [keeps_intros]: "keeps env (resetSessionTimer env' now)" "keeps env lazySaveSession" "keeps env clear_save_timer"
    "keeps env releaseAdmission" "keeps env notifySessionUpdate" "keeps env (with_ledger g)"
  by (intro keeps_core_keeps keeps_core_timer)+

lemma same_core_faults: "same_core w (w\<lparr>sw_db := (sw_db w)\<lparr>db_faults := fs\<rparr>\<rparr>)"
  by (simp add: same_core_def own_row_def)

lemma wp_fetch:
  assumes "\<And>w'. own_row w = None \<Longrightarrow> same_core w w' \<Longrightarrow> Q None w'"
    and "\<And>w' r d. own_row w = Some r \<Longrightarrow> store_data_of r = Inr d \<Longrightarrow> same_core w w' \<Longrightarrow> Q (Some d) w'"
    and "\<And>w' e. same_core w w' \<Longrightarrow> E e w'"
  shows "wp fetch_session Q E w"
  unfolding fetch_session_def wp_simps
  by (rule wp_get_row) (use assms[unfolded own_row_def] same_core_faults[of w] in blast)+

lemma keeps_fetch [keeps_intros]: "keeps env fetch_session"
  by (rule keepsI, rule wp_fetch) (auto intro: sess_next_core)

subsection \<open>Adopting a terminal row\<close>

lemma not_disposed_running: "sess_inv env w \<Longrightarrow> \<not> isTerminalStatus (fs_status (sw_session w)) \<Longrightarrow> \<not> fs_isDisposed (sw_session w)"
  by (auto simp: sess_inv_def terminal_agrees_def isTerminalStatus_def split: option.splits)

lemma running_not_terminal [simp]: "\<not> isTerminalStatus RUNNING" "\<not> isTerminalStatus COMMITTING" "\<not> isTerminalStatus STARTING"
    "isTerminalStatus FAILED_SESSION" "isTerminalStatus CLAIMABLE"
  by (simp_all add: isTerminalStatus_def)

lemma store_data_fields:
  assumes "store_data_of r = Inr d"
  shows "sd_sessionId d = sr_sessionId r" "sd_status d = sr_status r" "sd_dropAmount d = sr_dropAmount r" "sd_remoteIP d = sr_remoteIP r"
  using assms by (cases "parse_text (sr_tasks r)"; cases "parse_text (sr_data r)"; cases "parse_claim (sr_claim r)"; auto simp: store_data_of_def)+

context session_hooks
begin

lemma normalize_twice: "normalizeRemoteIP env ip = Inr a \<Longrightarrow> ip_ok env a"
  using normal_ip by (auto simp: normalizeRemoteIP_def ip_ok_def split: option.splits if_splits)

lemma wp_adopt:
  assumes i: "sess_inv env w" and nd: "\<not> fs_isDisposed (sw_session w)" and r: "own_row w = Some r" "store_data_of r = Inr d" "isTerminalStatus (sd_status d)"
    and Q: "\<And>w'. sess_next env w w' \<Longrightarrow> fs_isDisposed (sw_session w') \<Longrightarrow> own_row w' = own_row w \<Longrightarrow> Q () w'"
  shows "wp (adopt_terminal env now d) Q E w"
proof -
  note f = store_data_fields[OF r(2)]
  obtain amount ip where a: "bigint_of_string (sd_dropAmount d) = Some amount" and n: "normalizeRemoteIP env (sd_remoteIP d) = Inr ip"
    using i r(1) f unfolding sess_inv_def row_valid_def amount_ok_def ip_ok_def by auto
  show ?thesis
    unfolding adopt_terminal_def wp_simps js_bigint_text_def a n option.case sum.case resetSessionTimer_def releaseAdmission_def notifySessionUpdate_def
  proof (rule Q)
  qed (use i nd r f a normalize_twice[OF n] in \<open>simp_all add: sess_next_def sess_inv_def own_row_def pending_ok_def terminal_agrees_def\<close>)
qed

lemma wp_sync:
  assumes i: "sess_inv env w" and nd: "\<not> fs_isDisposed (sw_session w)"
    and o: "\<And>d. observed = Some d \<Longrightarrow> \<exists>r. own_row w = Some r \<and> store_data_of r = Inr d"
    and Q: "\<And>w'. sess_next env w w' \<Longrightarrow> fs_isDisposed (sw_session w') \<Longrightarrow> Q () w'"
    and E: "\<And>e w'. sess_next env w w' \<Longrightarrow> E e w'"
  shows "wp (synchronizeTerminalState env now observed) Q E w"
proof -
  have adopt: "wp (adopt_terminal env now d) Q E w'" if "same_core w w'" "own_row w = Some r" "store_data_of r = Inr d" "isTerminalStatus (sd_status d)" for w' r d
  proof (rule wp_adopt[OF same_core_inv[OF that(1) i] _ _ that(3,4)])
    show "own_row w' = Some r" "\<not> fs_isDisposed (sw_session w')" using that(1,2) nd by (simp_all add: same_core_def)
  qed (use Q sess_next_trans[OF sess_next_core[OF that(1) i]] in blast)
  show ?thesis
  proof (cases observed)
    case None
    show ?thesis unfolding synchronizeTerminalState_def None wp_simps option.case
      by (rule wp_fetch) (auto simp: wp_simps intro!: adopt E sess_next_core i)
  next
    case (Some d)
    then obtain r where "own_row w = Some r" "store_data_of r = Inr d" using o by blast
    thus ?thesis unfolding synchronizeTerminalState_def Some wp_simps option.case
      by (auto intro!: adopt[OF same_core_refl] E sess_next_refl i)
  qed
qed

lemma wp_reconcile:
  assumes i: "sess_inv env w" and nd: "\<not> fs_isDisposed (sw_session w)"
    and Q: "\<And>a w'. sess_next env w w' \<Longrightarrow> (a = RecAbsent \<Longrightarrow> fs_persistence (sw_session w') = Absent) \<Longrightarrow>
      (a = RecDurable \<Longrightarrow> fs_persistence (sw_session w') = Durable) \<Longrightarrow>
      (a \<noteq> RecTerminal \<Longrightarrow> fs_failure (sw_session w') = fs_failure (sw_session w) \<and> fs_status (sw_session w') = fs_status (sw_session w) \<and>
         fs_isDisposed (sw_session w') = fs_isDisposed (sw_session w) \<and> own_row w' = own_row w) \<Longrightarrow> Q a w'"
    and E: "\<And>e w'. sess_next env w w' \<Longrightarrow> E e w'"
  shows "wp (reconcileUncertainInsert env now) Q E w"
proof (cases "fs_persistence (sw_session w)")
  case (UncertainInsert snapshot)
  let ?p = "\<lambda>p s. s\<lparr>fs_persistence := p\<rparr>"
  have absent: "sess_next env w (upd (?p Absent) w')" if "same_core w w'" "own_row w = None" for w'
    using same_core_inv[OF that(1) i] that nd UncertainInsert
    by (auto simp: same_core_def sess_next_def sess_inv_def pending_ok_def own_row_upd)
  have durable: "sess_next env w (upd (?p Durable) w')" if "same_core w w'" "own_row w = Some r" for w' r
    using same_core_inv[OF that(1) i] that nd UncertainInsert
    by (simp add: same_core_def sess_next_def sess_inv_def pending_ok_def own_row_upd)
  have sync: "wp (synchronizeTerminalState env now (Some d)) (\<lambda>a. Q RecTerminal) E (upd (?p Durable) w')"
    if c: "same_core w w'" and r: "own_row w = Some r" "store_data_of r = Inr d" for w' r d
  proof (rule wp_sync)
    note n = durable[OF c r(1)]
    show "sess_inv env (upd (?p Durable) w')" by (rule sess_next_inv[OF n])
    show "\<not> fs_isDisposed (sw_session (upd (?p Durable) w'))" using c nd by (simp add: same_core_def)
    fix d' assume "Some d = Some d'"
    thus "\<exists>r. own_row (upd (?p Durable) w') = Some r \<and> store_data_of r = Inr d'"
      using c r by (simp add: own_row_upd same_core_def)
  next
    fix w'' assume "sess_next env (upd (?p Durable) w') w''"
    thus "Q RecTerminal w''" by (intro Q) (use sess_next_trans[OF durable[OF c r(1)]] in auto)
  next
    fix e w'' assume "sess_next env (upd (?p Durable) w') w''"
    thus "E e w''" by (intro E) (rule sess_next_trans[OF durable[OF c r(1)]])
  qed
  show ?thesis unfolding reconcileUncertainInsert_def UncertainInsert wp_simps persistence_state.case
  proof (rule wp_fetch, goal_cases)
    case (1 w')
    thus ?case by (auto simp: wp_simps own_row_upd same_core_def intro!: Q absent)
  next
    case (2 w' r d)
    show ?case
      using 2 sync[OF 2(3,1,2)] durable[OF 2(3,1)] by (auto simp: wp_simps own_row_upd same_core_def intro!: Q E sess_next_core i)
  next
    case (3 w' e)
    thus ?case by (intro E sess_next_core i)
  qed
qed (simp_all add: reconcileUncertainInsert_def wp_simps E sess_next_refl i)

end

subsection \<open>Saving a running session\<close>

lemma same_row: "distinct_ids db \<Longrightarrow> row_at db (own_id w) = own_row w \<Longrightarrow> same_core w (w\<lparr>sw_db := db\<rparr>)"
  by (simp add: same_core_def)

lemma next_row:
  assumes i: "sess_inv env w" and nd: "\<not> fs_isDisposed (sw_session w)" and d: "distinct_ids db" and r: "row_at db (own_id w) = Some r" "row_valid env r"
    and p: "fs_persistence (sw_session w) \<noteq> Absent" and f: "fs_failure (sw_session w) = NoFailure \<or> sr_status r = FAILED_SESSION"
  shows "sess_next env w (w\<lparr>sw_db := db\<rparr>)"
  using assms by (auto simp: sess_next_def sess_inv_def pending_ok_def)

lemma next_persistence:
  assumes i: "sess_inv env w" and nd: "\<not> fs_isDisposed (sw_session w)" and p: "fs_persistence (sw_session w) \<noteq> Absent \<or> fs_status (sw_session w) = RUNNING"
    and q: "q \<noteq> Absent" "q = Durable \<Longrightarrow> own_row w \<noteq> None"
  shows "sess_next env w (upd (\<lambda>s. s\<lparr>fs_persistence := q\<rparr>) w)"
  using assms by (auto simp: sess_next_def sess_inv_def pending_ok_def own_row_upd)

lemma snapshot_fields [simp]:
  "sd_sessionId (getStoreSnapshot s) = fs_sessionId s" "sd_status (getStoreSnapshot s) = fs_status s"
  "sd_dropAmount (getStoreSnapshot s) = dec_int (fs_dropAmount s)" "sd_remoteIP (getStoreSnapshot s) = fs_remoteIP s"
  "sd_claim (getStoreSnapshot s) = JNull"
  by (simp_all add: getStoreSnapshot_def getStoreData_def)

lemma amount_ok_dec [simp]: "amount_ok (dec_int i)"
  by (simp add: amount_ok_def)

context session_hooks
begin

lemma keeps_insert:
  assumes i: "sess_inv env w" and nd: "\<not> fs_isDisposed (sw_session w)" and s: "fs_status (sw_session w) = RUNNING"
    and x: "sd_sessionId x = own_id w" "data_valid env x"
  shows "wp (insert_running env now x) (\<lambda>_. sess_next env w) (\<lambda>_. sess_next env w) w"
proof -
  let ?u = "upd (\<lambda>s. s\<lparr>fs_persistence := UncertainInsert x\<rparr>) w"
  have u: "sess_next env w ?u" by (rule next_persistence) (use i nd s in auto)
  have iu: "sess_inv env ?u" "\<not> fs_isDisposed (sw_session ?u)" using sess_next_inv[OF u] nd by simp_all
  have nf: "fs_failure (sw_session ?u) = NoFailure" using i s unfolding sess_inv_def by auto
  have rec: "wp (p_try (reconcileUncertainInsert env now)) (\<lambda>outcome. wp (case outcome of Inl e \<Rightarrow> p_throw (Aggregate [err, e])
        | Inr RecAbsent \<Rightarrow> p_throw err | Inr _ \<Rightarrow> p_return ()) (\<lambda>_. sess_next env w) (\<lambda>_. sess_next env w)) (\<lambda>_. sess_next env w) w'"
    if "sess_next env w w'" "\<not> fs_isDisposed (sw_session w')" for w' err
    unfolding wp_simps
    by (rule wp_reconcile[OF sess_next_inv[OF that(1)] that(2)])
      (auto simp: wp_simps split: reconciliation.split intro: sess_next_trans[OF that(1)])
  show ?thesis unfolding insert_running_def wp_simps
  proof (rule wp_insert_running, goal_cases)
    case 1 thus ?case using iu by (simp add: sess_inv_def)
  next
    case (2 db' e)
    have "same_core ?u (?u\<lparr>sw_db := db'\<rparr>)" by (rule same_row) (use 2 x in \<open>simp_all add: own_row_def\<close>)
    from sess_next_trans[OF u sess_next_core[OF this iu(1)]] show ?case
      using nd by (intro rec[unfolded wp_simps]) simp_all
  next
    case (3 db' r)
    let ?v = "?u\<lparr>sw_db := db'\<rparr>"
    have v: "sess_next env ?u ?v"
      by (rule next_row[OF iu, of _ r]) (use 3 x nf in \<open>simp_all add: row_valid_def data_valid_def\<close>)
    have "sess_next env ?v (upd (\<lambda>s. s\<lparr>fs_persistence := Durable\<rparr>) ?v)"
      by (rule next_persistence) (use sess_next_inv[OF v] nd 3 x in simp_all)
    from sess_next_trans[OF sess_next_trans[OF u v] this] show ?case
      by (intro conjI allI rec[unfolded wp_simps]) (use sess_next_trans[OF u v] nd in simp_all)
  qed
qed

lemma keeps_update:
  assumes i: "sess_inv env w" and nd: "\<not> fs_isDisposed (sw_session w)" and s: "fs_status (sw_session w) = RUNNING"
    and x: "sd_sessionId x = own_id w" "data_valid env x"
  shows "wp (update_running env now x) (\<lambda>_. sess_next env w) (\<lambda>_. sess_next env w) w"
proof -
  have nf: "fs_failure (sw_session w) = NoFailure" using i s unfolding sess_inv_def by auto
  have sync: "wp (p_then (modify (\<lambda>s. s\<lparr>fs_isDirty := True\<rparr>)) (synchronizeTerminalState env now None)) (\<lambda>_. sess_next env w) (\<lambda>_. sess_next env w) w'"
    if "sess_next env w w'" "\<not> fs_isDisposed (sw_session w')" for w'
  proof -
    let ?v = "upd (\<lambda>s. s\<lparr>fs_isDirty := True\<rparr>) w'"
    have "sess_next env w' ?v" using keepsD[OF keeps_modify sess_next_inv[OF that(1)], of "\<lambda>s. s\<lparr>fs_isDirty := True\<rparr>"] by (simp add: wp_simps)
    from sess_next_trans[OF that(1) this] show ?thesis unfolding wp_simps
      by (intro wp_sync) (use that(2) sess_next_inv in \<open>auto elim: sess_next_trans\<close>)
  qed
  have fin: "(b \<longrightarrow> sess_next env w w') \<and> (\<not> b \<longrightarrow> wp (synchronizeTerminalState env now None) (\<lambda>_. sess_next env w) (\<lambda>_. sess_next env w) (upd (\<lambda>s. s\<lparr>fs_isDirty := True\<rparr>) w'))"
    if "sess_next env w w'" "\<not> fs_isDisposed (sw_session w')" for b w'
    using sync[OF that] that by (simp add: wp_simps)
  show ?thesis unfolding update_running_def wp_simps
  proof (rule wp_update_running, goal_cases)
    case 1 thus ?case using i by (simp add: sess_inv_def)
  next
    case (2 db' b)
    have "same_core w (w\<lparr>sw_db := db'\<rparr>)" by (rule same_row) (use 2 x in \<open>simp_all add: own_row_def\<close>)
    hence n: "sess_next env w (w\<lparr>sw_db := db'\<rparr>)" by (rule sess_next_core) (rule i)
    show ?case using fin[OF n, of b] nd n by (auto split: if_splits)
  next
    case (3 db' r)
    have "sess_next env w (w\<lparr>sw_db := db'\<rparr>)"
      by (rule next_row[OF i nd, of _ "set_columns x r"])
        (use 3 x nf i in \<open>auto simp: row_valid_def data_valid_def set_columns_def sess_inv_def own_row_def\<close>)
    thus ?case by simp
  qed
qed

end

end
