(* ===== verification/Session_Failure.thy ===== *)
theory Session_Failure
  imports Session_Steps
begin

text \<open>
  Saving, failing and timing out a session keeps \<^verbatim>\<open>sess_inv\<close>, for every list of driver faults.
\<close>

context session_hooks
begin

lemma keeps_catch_from:
  assumes m: "wp m (\<lambda>_. sess_next env u) (\<lambda>_. sess_next env u) w" and h: "\<And>e. keeps env (h e)"
  shows "wp (p_catch m h) (\<lambda>_. sess_next env u) (\<lambda>_. sess_next env u) w"
  unfolding wp_simps by (rule wp_mono[OF m]) (auto intro: keeps_from[OF h])

lemma keeps_persistRunning [keeps_intros]: "keeps env (persistRunningSession env now)"
proof (rule keepsI)
  fix w assume i: "sess_inv env w"
  show "wp (persistRunningSession env now) (\<lambda>_. sess_next env w) (\<lambda>_. sess_next env w) w"
  proof (cases "\<not> fs_isDirty (sw_session w) \<or> fs_isDisposed (sw_session w) \<or> fs_status (sw_session w) \<noteq> RUNNING")
    case True
    thus ?thesis by (simp add: persistRunningSession_def wp_simps sess_next_refl i)
  next
    case False
    let ?x = "getStoreSnapshot (sw_session w)" and ?u = "upd (\<lambda>s. s\<lparr>fs_isDirty := False\<rparr>) w"
    have u: "sess_next env w ?u"
      using keepsD[OF keeps_modify i, of "\<lambda>s. s\<lparr>fs_isDirty := False\<rparr>"] by (simp add: wp_simps)
    have x: "sd_sessionId ?x = own_id w" "data_valid env ?x"
      using i False by (auto simp: data_valid_def sess_inv_def)
    have store: "wp (p_bind (get_session fs_persistence) (\<lambda>p. if p = Absent then insert_running env now ?x else update_running env now ?x))
        (\<lambda>_. sess_next env w) (\<lambda>_. sess_next env w) w'"
      if n: "sess_next env w w'" "\<not> fs_isDisposed (sw_session w')" "fs_status (sw_session w') = RUNNING" for w'
    proof -
      note j = sess_next_inv[OF n(1)]
      have x': "sd_sessionId ?x = own_id w'" using n(1) x(1) by (simp add: sess_next_def)
      show ?thesis unfolding wp_simps
        by (cases "fs_persistence (sw_session w') = Absent")
          (auto intro!: wp_mono[OF keeps_insert[OF j n(2,3) x' x(2)]] wp_mono[OF keeps_update[OF j n(2,3) x' x(2)]] intro: sess_next_trans[OF n(1)])
    qed
    have body: "wp (p_bind (case fs_persistence (sw_session w) of UncertainInsert _ \<Rightarrow> reconcileUncertainInsert env now | _ \<Rightarrow> p_return RecAbsent)
           (\<lambda>reconciliation. if reconciliation \<noteq> RecAbsent then p_return ()
             else p_bind (get_session fs_persistence) (\<lambda>p. if p = Absent then insert_running env now ?x else update_running env now ?x)))
        (\<lambda>_. sess_next env w) (\<lambda>_. sess_next env w) ?u"
    proof (cases "\<exists>x. fs_persistence (sw_session w) = UncertainInsert x")
      case True
      then obtain y where p: "fs_persistence (sw_session w) = UncertainInsert y" by blast
      show ?thesis unfolding p persistence_state.case wp_bind
        by (rule wp_reconcile[OF sess_next_inv[OF u]])
          (use False u in \<open>auto simp: wp_if wp_return intro!: store intro: sess_next_trans[OF u]\<close>)
    next
      case No: False
      hence "(case fs_persistence (sw_session w) of UncertainInsert _ \<Rightarrow> reconcileUncertainInsert env now | _ \<Rightarrow> p_return RecAbsent) = p_return RecAbsent"
        by (simp split: persistence_state.split)
      thus ?thesis using store[OF u] False by (simp add: wp_bind wp_return)
    qed
    have h: "keeps env (p_then (modify (\<lambda>s. s\<lparr>fs_isDirty := True\<rparr>)) (p_throw e))" for e by (intro keeps_intros) simp
    show ?thesis unfolding persistRunningSession_def wp_bind wp_get_session id_apply if_not_P[OF False] Let_def wp_then wp_modify_session
      by (rule keeps_catch_from[OF body h])
  qed
qed

subsection \<open>Failing a session\<close>

lemma wp_finalize:
  assumes i: "sess_inv env w" and nd: "\<not> fs_isDisposed (sw_session w)" and t: "terminal_agrees w" "fs_status (sw_session w) = FAILED_SESSION"
    and Q: "\<And>w'. sess_next env w w' \<Longrightarrow> fs_isDisposed (sw_session w') \<Longrightarrow> Q () w'"
  shows "wp finalizeFailedSession Q E w"
  unfolding finalizeFailedSession_def wp_simps releaseAdmission_def notifySessionUpdate_def
proof (rule Q)
qed (use i nd t in \<open>simp_all add: sess_next_def sess_inv_def own_row_def pending_ok_def terminal_agrees_def split: option.splits\<close>)

lemma keeps_rollbacks: "keeps env (run_rollbacks env owners failures)"
  by (induction owners arbitrary: failures)
    (auto intro!: keeps_intros keeps_core_keeps[OF rollbacks] split: sum.split)

lemma keeps_runStartRollbacks [keeps_intros]: "keeps env (runStartRollbacks env)"
  unfolding runStartRollbacks_def by (intro keeps_intros keeps_rollbacks) simp_all

lemma keeps_transition_failed:
  assumes i: "sess_inv env w" and s: "fs_failure (sw_session w) = PendingFailure expected already x" and p: "fs_persistence (sw_session w) \<noteq> Absent"
  shows "wp (transition_failed env now expected' x) (\<lambda>_. sess_next env w) (\<lambda>_. sess_next env w) w"
proof -
  have nd: "\<not> fs_isDisposed (sw_session w)" and st: "fs_status (sw_session w) = FAILED_SESSION" and x: "sd_sessionId x = own_id w" "sd_status x = FAILED_SESSION" "data_valid env x"
    using i s p unfolding sess_inv_def pending_ok_def by blast+
  have fin: "wp (p_then (modify (\<lambda>s. s\<lparr>fs_persistence := Durable\<rparr>)) finalizeFailedSession) (\<lambda>_. sess_next env w) (\<lambda>_. sess_next env w) w'"
    if n: "sess_next env w w'" "\<not> fs_isDisposed (sw_session w')" "fs_persistence (sw_session w') \<noteq> Absent" "fs_status (sw_session w') = FAILED_SESSION"
      and r: "own_row w' = Some r" "sr_status r = FAILED_SESSION" for w' r
  proof -
    have m: "sess_next env w' (upd (\<lambda>s. s\<lparr>fs_persistence := Durable\<rparr>) w')"
      by (rule next_persistence) (use n r sess_next_inv[OF n(1)] in auto)
    show ?thesis unfolding wp_simps
      by (rule wp_finalize[OF sess_next_inv[OF m]])
        (use n r m in \<open>auto simp: terminal_agrees_def own_row_upd elim: sess_next_trans\<close>)
  qed
  have again: "wp (p_bind (p_catch fetch_session (h1 :: session_error \<Rightarrow> _)) (\<lambda>stored. case stored of
            Some d \<Rightarrow> if sessionDataEquals d x then p_then (modify (\<lambda>s. s\<lparr>fs_persistence := Durable\<rparr>)) finalizeFailedSession
              else if isTerminalStatus (sd_status d) then synchronizeTerminalState env now (Some d) else p_throw e1
          | None \<Rightarrow> p_throw e1)) (\<lambda>_. sess_next env w) (\<lambda>_. sess_next env w) w'"
    if n: "sess_next env w w'" "\<not> fs_isDisposed (sw_session w')" "fs_persistence (sw_session w') \<noteq> Absent" "fs_status (sw_session w') = FAILED_SESSION"
      and h: "\<And>e. \<exists>e'. h1 e = p_throw e'" for w' h1 e1
    unfolding wp_bind wp_catch
  proof (rule wp_fetch, goal_cases)
    case (1 v)
    thus ?case using sess_next_trans[OF n(1) sess_next_core[OF 1(2) sess_next_inv[OF n(1)]]] by (simp add: wp_simps)
  next
    case (2 v r d)
    have v: "sess_next env w v" by (rule sess_next_trans[OF n(1) sess_next_core[OF 2(3) sess_next_inv[OF n(1)]]])
    have v': "own_row v = Some r" "\<not> fs_isDisposed (sw_session v)" "fs_persistence (sw_session v) \<noteq> Absent" "fs_status (sw_session v) = FAILED_SESSION"
      using 2 n by (simp_all add: same_core_def)
    have "sessionDataEquals d x \<Longrightarrow> sr_status r = FAILED_SESSION"
      using x(2) store_data_fields[OF 2(2)] by (simp add: sessionDataEquals_def)
    from fin[OF v v'(2,3,4,1) this] show ?case using 2(2) v v' unfolding option.case wp_if
      by (auto simp: wp_throw intro!: wp_sync[OF sess_next_inv[OF v]] elim: sess_next_trans)
  next
    case (3 v e)
    thus ?case using sess_next_trans[OF n(1) sess_next_core[OF 3 sess_next_inv[OF n(1)]]] h[of e] by (auto simp: wp_simps)
  qed
  show ?thesis unfolding transition_failed_def
  proof (subst wp_bind, subst wp_try, subst wp_on_db, rule wp_transition, goal_cases)
    case 1 thus ?case using i by (simp add: sess_inv_def)
  next
    case (2 db')
    have "same_core w (w\<lparr>sw_db := db'\<rparr>)" by (rule same_row) (use 2 x in \<open>simp_all add: own_row_def\<close>)
    hence n: "sess_next env w (w\<lparr>sw_db := db'\<rparr>)" by (rule sess_next_core) (rule i)
    show ?case by (simp add: wp_if, simp only: sum.case, intro conjI allI again n, use nd p st in auto)
  next
    case (3 db' r)
    let ?r = "(set_columns x r)\<lparr>sr_status := sd_status x\<rparr>" and ?w = "w\<lparr>sw_db := db'\<rparr>"
    have n: "sess_next env w ?w"
      by (rule next_row[OF i nd, of _ ?r]) (use 3 x p in \<open>simp_all add: row_valid_def data_valid_def set_columns_def\<close>)
    have row: "own_row ?w = Some ?r" using 3 x by (simp add: own_row_def)
    show ?case by (simp add: wp_if, simp only: sum.case, intro conjI allI again n fin[OF n _ _ _ row], use nd p st x in auto)
  qed
qed

lemma keeps_persistFailed [keeps_intros]: "keeps env (persistFailedSession env now)"
proof (rule keepsI)
  fix w assume i: "sess_inv env w"
  show "wp (persistFailedSession env now) (\<lambda>_. sess_next env w) (\<lambda>_. sess_next env w) w"
  proof (cases "\<exists>expected already x. fs_failure (sw_session w) = PendingFailure expected already x")
    case False
    thus ?thesis unfolding persistFailedSession_def wp_bind wp_get_session id_apply
      by (auto split: failure_state.split simp: wp_return sess_next_refl i)
  next
    case True
    then obtain expected already x where f: "fs_failure (sw_session w) = PendingFailure expected already x" by blast
    hence nd: "\<not> fs_isDisposed (sw_session w)" and st: "fs_status (sw_session w) = FAILED_SESSION"
      and already: "already \<Longrightarrow> \<exists>r. own_row w = Some r \<and> sr_status r = FAILED_SESSION"
      and abs: "fs_persistence (sw_session w) = Absent \<Longrightarrow> own_row w = None"
      using i unfolding sess_inv_def pending_ok_def by blast+
    have early: "wp (p_then (p_when already (modify (\<lambda>s. s\<lparr>fs_persistence := Durable\<rparr>))) finalizeFailedSession) (\<lambda>_. sess_next env w) (\<lambda>_. sess_next env w) w"
      if a: "already \<or> fs_persistence (sw_session w) = Absent"
    proof (cases already)
      case True
      then obtain r where r: "own_row w = Some r" "sr_status r = FAILED_SESSION" using already by blast
      have m: "sess_next env w (upd (\<lambda>s. s\<lparr>fs_persistence := Durable\<rparr>) w)"
        by (rule next_persistence) (use i nd r abs in auto)
      show ?thesis unfolding wp_simps if_P[OF True]
        by (rule wp_finalize[OF sess_next_inv[OF m]]) (use st nd r m in \<open>auto simp: terminal_agrees_def own_row_upd elim: sess_next_trans\<close>)
    next
      case False
      thus ?thesis using a abs unfolding wp_simps
        by (auto intro!: wp_finalize[OF i nd] simp: terminal_agrees_def st)
    qed
    have absent: "wp finalizeFailedSession (\<lambda>_. sess_next env w) (\<lambda>_. sess_next env w) w'"
      if n: "sess_next env w w'" and e: "fs_persistence (sw_session w') = Absent" "\<not> fs_isDisposed (sw_session w')" "fs_status (sw_session w') = FAILED_SESSION" for w'
    proof (rule wp_finalize[OF sess_next_inv[OF n]])
      have "own_row w' = None" using sess_next_inv[OF n] e unfolding sess_inv_def by blast
      thus "terminal_agrees w'" using e by (simp add: terminal_agrees_def)
    qed (use e n in \<open>auto elim: sess_next_trans\<close>)
    have trans: "wp (transition_failed env now expected x) (\<lambda>_. sess_next env w) (\<lambda>_. sess_next env w) w'"
      if n: "sess_next env w w'" and e: "fs_failure (sw_session w') = fs_failure (sw_session w)" "fs_persistence (sw_session w') \<noteq> Absent" for w'
      by (rule wp_mono[OF keeps_transition_failed[OF sess_next_inv[OF n]]]) (use e f sess_next_trans[OF n] in auto)
    show ?thesis
    proof (cases "already \<or> fs_persistence (sw_session w) = Absent")
      case True
      thus ?thesis using early unfolding persistFailedSession_def wp_bind wp_get_session id_apply f failure_state.case if_P[OF True] by blast
    next
      case F: False
      show ?thesis unfolding persistFailedSession_def wp_bind wp_get_session id_apply f failure_state.case if_not_P[OF F]
      proof (cases "is_uncertain (fs_persistence (sw_session w))")
        case True
        show "wp (if is_uncertain (fs_persistence (sw_session w)) then reconcileUncertainInsert env now else p_return RecDurable)
          (\<lambda>a. wp (case a of RecAbsent \<Rightarrow> finalizeFailedSession | RecDurable \<Rightarrow> transition_failed env now expected x | RecTerminal \<Rightarrow> p_return ())
            (\<lambda>_. sess_next env w) (\<lambda>_. sess_next env w)) (\<lambda>_. sess_next env w) w"
          unfolding if_P[OF True]
          by (rule wp_reconcile[OF i nd]) (use nd st in \<open>auto simp: wp_return split: reconciliation.split intro!: absent trans\<close>)
      next
        case False
        show "wp (if is_uncertain (fs_persistence (sw_session w)) then reconcileUncertainInsert env now else p_return RecDurable)
          (\<lambda>a. wp (case a of RecAbsent \<Rightarrow> finalizeFailedSession | RecDurable \<Rightarrow> transition_failed env now expected x | RecTerminal \<Rightarrow> p_return ())
            (\<lambda>_. sess_next env w) (\<lambda>_. sess_next env w)) (\<lambda>_. sess_next env w) w"
          unfolding if_not_P[OF False] wp_return reconciliation.case
          by (rule trans[OF sess_next_refl[OF i] refl]) (use F in simp)
      qed
    qed
  qed
qed

lemma keeps_saveSession [keeps_intros]: "keeps env (saveSession env now)"
  unfolding saveSession_def persistSession_def
  by (intro keeps_intros) (auto split: failure_state.split intro!: keeps_intros)

lemma keeps_finishFailed_from:
  assumes i: "sess_inv env w" and already: "already \<Longrightarrow> \<exists>r. own_row w = Some r \<and> sr_status r = FAILED_SESSION"
  shows "wp (finishFailedSession env now code reason stack already runHooks persisted) (\<lambda>_. sess_next env w) (\<lambda>_. sess_next env w) w"
proof -
  have collect: "keeps env (collect_error errors m)" if "keeps env m" for errors m
    unfolding collect_error_def by (intro keeps_intros that)
  have rest: "keeps env (p_bind (collect_error errors (persistFailedSession env now)) (\<lambda>errors.
         p_bind (get_session fs_failure) (\<lambda>f.
         p_bind (if f = FailureComplete then collect_error errors (runStartRollbacks env) else p_return errors) (\<lambda>errors.
           if errors = [] then p_return () else p_throw (Aggregate errors)))))" for errors
    by (intro keeps_intros collect)
  have hooks: "keeps_core (if b then p_try (run_hooks [] (se_onComplete env)) else p_return (Inr ()))" for b
  proof -
    have "keeps_core (run_hooks [] (se_onComplete env))" by (rule run_hooks_keeps) (use complete_hooks in auto)
    thus ?thesis by (simp add: keeps_core_def wp_simps)
  qed
  have prep: "wp (prepare_failure env now code reason stack already runHooks persisted) (\<lambda>_. sess_next env w) (\<lambda>_. sess_next env w) w"
    if nd: "\<not> fs_isDisposed (sw_session w)"
  proof -
    define u where "u = upd (\<lambda>s. s\<lparr>fs_failure := Preparing, fs_data := failure_data code reason stack (fs_data s),
        fs_status := FAILED_SESSION, fs_isDirty := True\<rparr>) w"
    have un: "sess_next env w u" using i nd
      by (auto simp: u_def sess_next_def sess_inv_def pending_ok_def own_row_upd)
    have uf: "own_row u = own_row w" "own_id u = own_id w" "fs_status (sw_session u) = FAILED_SESSION" "\<not> fs_isDisposed (sw_session u)"
      using nd by (simp_all add: u_def own_row_upd)
    have pend: "sess_next env w (upd (\<lambda>s. s\<lparr>fs_failure := PendingFailure e already (getStoreSnapshot s)\<rparr>) v)"
      if c: "same_core u v" for v e
    proof -
      have v: "sess_inv env v" by (rule same_core_inv[OF c sess_next_inv[OF un]])
      have vf: "own_row v = own_row w" "own_id v = own_id w" "fs_status (sw_session v) = FAILED_SESSION" "\<not> fs_isDisposed (sw_session v)"
        using c uf by (simp_all add: same_core_def)
      have vp: "fs_persistence (sw_session v) = fs_persistence (sw_session u)" using c by (simp add: same_core_def)
      have d: "fs_persistence (sw_session v) \<noteq> Absent \<Longrightarrow> data_valid env (getStoreSnapshot (sw_session v))"
        using v by (auto simp: data_valid_def sess_inv_def)
      show ?thesis using v vf d already un nd vp
        by (auto simp: sess_next_def sess_inv_def pending_ok_def own_row_upd)
    qed
    have hooked: "wp (resetSessionTimer env now) (\<lambda>_. wp clear_save_timer (\<lambda>_. wp (if b then p_try (run_hooks [] (se_onComplete env)) else p_return (Inr ()))
        (\<lambda>_ v. sess_next env w (upd (\<lambda>s. s\<lparr>fs_failure := PendingFailure e already (getStoreSnapshot s)\<rparr>) v)) (\<lambda>_. sess_next env w)) (\<lambda>_. sess_next env w)) (\<lambda>_. sess_next env w) u" for b e
      by (intro keeps_core_wp[OF keeps_core_timer(1)] keeps_core_wp[OF keeps_core_timer(3)] keeps_core_wp[OF hooks] pend)
        (auto intro: same_core_trans sess_next_trans[OF un sess_next_core[OF _ sess_next_inv[OF un]]])
    show ?thesis unfolding prepare_failure_def wp_bind wp_get_session Let_def wp_then wp_modify_session wp_return
      by (rule hooked[unfolded u_def])
  qed
  show ?thesis
  proof (cases "fs_isDisposed (sw_session w)")
    case True
    thus ?thesis by (simp add: finishFailedSession_def wp_simps sess_next_refl i)
  next
    case False
    have "wp (if fs_failure (sw_session w) = NoFailure then prepare_failure env now code reason stack already runHooks persisted else p_return [])
        (\<lambda>_. sess_next env w) (\<lambda>_. sess_next env w) w"
      using prep[OF False] by (simp add: wp_return sess_next_refl i)
    thus ?thesis unfolding finishFailedSession_def wp_bind[of "get_session id"] wp_get_session id_apply if_not_P[OF False]
      by (subst wp_bind) (auto elim!: wp_mono intro!: keeps_from[OF rest])
  qed
qed

lemma keeps_finishFailed [keeps_intros]: "keeps env (finishFailedSession env now code reason stack False runHooks persisted)"
  by (intro keepsI keeps_finishFailed_from) simp_all

lemma keeps_collect [keeps_intros]: "keeps env m \<Longrightarrow> keeps env (collect_error errors m)"
  unfolding collect_error_def by (intro keeps_intros)

lemma keeps_trackCompletion [keeps_intros]: "keeps env m \<Longrightarrow> keeps env (trackCompletion m)"
  unfolding trackCompletion_def by (intro keeps_intros) simp_all

lemma keeps_terminal_operation [keeps_intros]: "keeps env m \<Longrightarrow> keeps env (terminal_operation m)"
  unfolding terminal_operation_def runRewardOperation_def by (intro keeps_intros) simp_all

lemma keeps_setSessionFailed [keeps_intros]: "keeps env (setSessionFailed env now code reason stack)"
  unfolding setSessionFailed_def
  by (rule keeps_bind) (auto split: completion_state.split intro!: keeps_intros)

subsection \<open>Timing out a session\<close>

lemma keeps_timeout_session [keeps_intros]: "keeps env (timeout_session env now timeout)"
proof (rule keepsI)
  fix w0 assume i0: "sess_inv env w0"
  let ?I = "\<lambda>_. sess_next env w0"
  let ?finish = "p_then (finishFailedSession env now ''SESSION_TIMEOUT'' ''Session timed out'' None True True None) (p_return True)"
  have finish: "wp ?finish ?I ?I v" if "sess_next env w0 v" "own_row v = Some r" "sr_status r = FAILED_SESSION" for v r
    unfolding wp_simps by (rule wp_mono[OF keeps_finishFailed_from[OF sess_next_inv[OF that(1)]]]) (use that sess_next_trans[OF that(1)] in auto)
  have sync: "wp (p_then (synchronizeTerminalState env now observed) (p_return False)) ?I ?I v"
    if "sess_next env w0 v" "\<not> fs_isDisposed (sw_session v)" "\<And>d. observed = Some d \<Longrightarrow> \<exists>r. own_row v = Some r \<and> store_data_of r = Inr d" for v observed
    unfolding wp_simps by (rule wp_sync[OF sess_next_inv[OF that(1)] that(2,3)]) (auto intro: sess_next_trans[OF that(1)])
  have core: "sess_next env w0 v'" if "sess_next env w0 v" "same_core v v'" for v v'
    by (rule sess_next_trans[OF that(1) sess_next_core[OF that(2) sess_next_inv[OF that(1)]]])
  have uncertain: "wp (p_bind (p_catch fetch_session (\<lambda>readError. p_throw (Aggregate [e, readError]))) (\<lambda>stored.
            if isMatchingTimeout stored then p_then (modify (\<lambda>s. s\<lparr>fs_persistence := Durable\<rparr>)) ?finish
            else (case stored of
                Some d \<Rightarrow> if isTerminalStatus (sd_status d) then p_then (synchronizeTerminalState env now (Some d)) (p_return False) else p_throw e
              | None \<Rightarrow> p_throw e))) ?I ?I v"
    if n: "sess_next env w0 v" "\<not> fs_isDisposed (sw_session v)" "fs_status (sw_session v) = RUNNING" for v e
    unfolding wp_bind wp_catch
  proof (rule wp_fetch, goal_cases)
    case (1 v')
    thus ?case using core[OF n(1)] by (simp add: wp_throw isMatchingTimeout_def)
  next
    case (2 v' r d)
    note c = core[OF n(1) 2(3)]
    have v: "own_row v' = Some r" "\<not> fs_isDisposed (sw_session v')" "fs_status (sw_session v') = RUNNING"
      using 2 n by (simp_all add: same_core_def)
    have m: "sess_next env w0 (upd (\<lambda>s. s\<lparr>fs_persistence := Durable\<rparr>) v')"
      by (rule sess_next_trans[OF c next_persistence[OF sess_next_inv[OF c] v(2)]]) (use v in auto)
    have "isMatchingTimeout (Some d) \<Longrightarrow> sr_status r = FAILED_SESSION"
      using store_data_fields[OF 2(2)] by (simp add: isMatchingTimeout_def)
    hence "isMatchingTimeout (Some d) \<Longrightarrow> wp (p_then (modify (\<lambda>s. s\<lparr>fs_persistence := Durable\<rparr>)) ?finish) ?I ?I v'"
      using finish[OF m, of r] v by (subst wp_then) (simp add: wp_modify_session own_row_upd)
    moreover have "wp (p_then (synchronizeTerminalState env now (Some d)) (p_return False)) ?I ?I v'"
      by (rule sync[OF c v(2)]) (use 2 v in auto)
    ultimately show ?case using c by (simp add: wp_if wp_throw)
  next
    case (3 v' e')
    thus ?case using core[OF n(1)] by (simp add: wp_throw)
  qed
  have refused: "wp (p_bind fetch_session (\<lambda>stored. case stored of
            Some d \<Rightarrow> if sd_status d \<noteq> RUNNING then p_then (synchronizeTerminalState env now None) (p_return False) else p_return False
          | None \<Rightarrow> p_return False)) ?I ?I v"
    if n: "sess_next env w0 v" "\<not> fs_isDisposed (sw_session v)" for v
    unfolding wp_bind
    by (rule wp_fetch) (use core[OF n(1)] n(2) in \<open>auto simp: wp_return wp_if same_core_def intro!: sync\<close>)
  show "wp (timeout_session env now timeout) ?I ?I w0"
    unfolding timeout_session_def wp_then[of "saveSession env now"]
  proof (rule keeps_from[OF keeps_saveSession sess_next_refl[OF i0]])
    fix w assume n: "sess_next env w0 w"
    note i = sess_next_inv[OF n]
    let ?x = "getStoreSnapshot (sw_session w)"
    show "wp (p_bind (get_session id) (\<lambda>s. if fs_status s \<noteq> RUNNING then p_return False
      else p_bind (p_try (on_db (tryTimeoutSession now (getStoreSnapshot s) timeout))) (\<lambda>transition. case transition of
        Inl e \<Rightarrow> p_bind (p_catch fetch_session (\<lambda>readError. p_throw (Aggregate [e, readError]))) (\<lambda>stored.
            if isMatchingTimeout stored then p_then (modify (\<lambda>s. s\<lparr>fs_persistence := Durable\<rparr>)) ?finish
            else (case stored of
                Some d \<Rightarrow> if isTerminalStatus (sd_status d) then p_then (synchronizeTerminalState env now (Some d)) (p_return False) else p_throw e
              | None \<Rightarrow> p_throw e))
      | Inr False \<Rightarrow> p_bind fetch_session (\<lambda>stored. case stored of
            Some d \<Rightarrow> if sd_status d \<noteq> RUNNING then p_then (synchronizeTerminalState env now None) (p_return False) else p_return False
          | None \<Rightarrow> p_return False)
      | Inr True \<Rightarrow> ?finish))) ?I ?I w"
    proof (cases "fs_status (sw_session w) = RUNNING")
      case True
      hence nd: "\<not> fs_isDisposed (sw_session w)" by (intro not_disposed_running[OF i]) simp
      have nf: "fs_failure (sw_session w) = NoFailure" using i True unfolding sess_inv_def by auto
      have F: "\<not> fs_status (sw_session w) \<noteq> RUNNING" using True by simp
      show ?thesis unfolding wp_bind[of "get_session id"] wp_get_session id_apply if_not_P[OF F]
      proof (subst wp_bind, subst wp_try, subst wp_on_db, rule wp_timeout, goal_cases)
        case 1 thus ?case using i by (simp add: sess_inv_def)
      next
        case (2 db')
        have "same_core w (w\<lparr>sw_db := db'\<rparr>)" by (rule same_row) (use 2 in \<open>simp_all add: own_row_def\<close>)
        from core[OF n this] have v: "sess_next env w0 (w\<lparr>sw_db := db'\<rparr>)" .
        show ?case unfolding sum.case bool.case by (intro conjI allI uncertain[OF v] refused[OF v]) (use nd True in simp_all)
      next
        case (3 db' r x)
        have "sess_next env w (w\<lparr>sw_db := db'\<rparr>)"
          by (rule next_row[OF i nd]) (use 3 nf True i in \<open>auto simp: sess_inv_def row_valid_def own_row_def\<close>)
        from sess_next_trans[OF n this] have v: "sess_next env w0 (w\<lparr>sw_db := db'\<rparr>)" .
        show ?case unfolding sum.case bool.case
          by (intro conjI allI uncertain[OF v] finish[OF v, of "r\<lparr>sr_status := FAILED_SESSION, sr_data := x\<rparr>"]) (use nd True 3 in simp_all)
      qed
    qed (simp add: wp_bind wp_get_session wp_return n)
  qed (assumption)
qed

lemma keeps_tryApplyTimeout [keeps_intros]: "keeps env (tryApplyTimeout env now timeout)"
  unfolding tryApplyTimeout_def
  by (rule keeps_bind, intro keeps_intros) (intro keeps_intros; auto)

end

end
