(* ===== verification/Session_Completion.thy ===== *)
theory Session_Completion
  imports Session_Failure
begin

text \<open>
  Rewards, completion and the public operations of a session keep \<^verbatim>\<open>sess_inv\<close>.
\<close>

lemma next_live:
  assumes "sess_inv env w" "\<not> fs_isDisposed (sw_session w)"
    and "\<And>s. fs_sessionId (f s) = fs_sessionId s \<and> fs_status (f s) = fs_status s \<and> fs_persistence (f s) = fs_persistence s \<and>
      fs_failure (f s) = fs_failure s \<and> fs_isDisposed (f s) = fs_isDisposed s \<and> fs_remoteIP (f s) = fs_remoteIP s"
  shows "sess_next env w (upd f w)"
proof -
  have eqs: "own_id (upd f w) = own_id w" "own_row (upd f w) = own_row w" "fs_status (sw_session (upd f w)) = fs_status (sw_session w)"
    "fs_persistence (sw_session (upd f w)) = fs_persistence (sw_session w)" "fs_failure (sw_session (upd f w)) = fs_failure (sw_session w)"
    "fs_isDisposed (sw_session (upd f w)) = fs_isDisposed (sw_session w)" "fs_remoteIP (sw_session (upd f w)) = fs_remoteIP (sw_session w)"
    "sw_db (upd f w) = sw_db w"
    using assms(3) by (simp_all add: own_row_def)
  show ?thesis using assms(1,2) unfolding sess_next_def sess_inv_def pending_ok_def eqs by blast
qed

lemma can_commit_live: "sess_inv env w \<Longrightarrow> canCommitReward (sw_session w) \<Longrightarrow> \<not> fs_isDisposed (sw_session w)"
  by (rule not_disposed_running) (auto simp: canCommitReward_def)

lemma keeps_then_live:
  assumes "sess_inv env w" "\<not> fs_isDisposed (sw_session w)"
    and "\<And>s. fs_sessionId (f s) = fs_sessionId s \<and> fs_status (f s) = fs_status s \<and> fs_persistence (f s) = fs_persistence s \<and>
      fs_failure (f s) = fs_failure s \<and> fs_isDisposed (f s) = fs_isDisposed s \<and> fs_remoteIP (f s) = fs_remoteIP s"
    and "keeps env m"
  shows "wp (p_then (modify f) m) (\<lambda>_. sess_next env w) (\<lambda>_. sess_next env w) w"
  unfolding wp_then wp_modify_session by (rule keeps_from[OF assms(4) next_live[OF assms(1-3)]])

context session_hooks
begin

subsection \<open>Rewards\<close>

lemma keeps_evaluate [keeps_intros]: "keeps env (evaluate_factors env)"
  unfolding evaluate_factors_def
  by (intro keeps_intros keeps_core_keeps[OF run_reward_hooks_keeps] factor_hooks) simp_all

lemma keeps_factor_intent [keeps_intros]: "(\<And>b. keeps env (fin b)) \<Longrightarrow> keeps env (applyRewardFactorTerminalIntent env now fin intent)"
  unfolding applyRewardFactorTerminalIntent_def by (cases intent) (auto intro!: keeps_intros)

lemma keeps_reward_intent [keeps_intros]: "(\<And>b. keeps env (fin b)) \<Longrightarrow> keeps env (applyRewardTerminalIntent env now fin intent)"
  unfolding applyRewardTerminalIntent_def by (cases intent) (auto intro!: keeps_intros)

lemma keeps_account:
  assumes f: "\<And>b. keeps env (fin b)" and i: "sess_inv env w" "\<not> fs_isDisposed (sw_session w)"
  shows "wp (account_reward env now fin factors amount) (\<lambda>_. sess_next env w) (\<lambda>_. sess_next env w) w"
  unfolding account_reward_def
proof (rule keeps_then_live[OF i])
  have hooks: "keeps env (run_reward_hooks (se_onRewarded env amount) factors)"
    by (rule keeps_core_keeps[OF run_reward_hooks_keeps]) (rule rewarded_hooks)
  show "keeps env (p_bind (run_reward_hooks (se_onRewarded env amount) factors) (\<lambda>(failure, _, intent). case failure of
        Some e \<Rightarrow> p_then (finishFailedSession env now ''REWARD_ACCOUNTING''
            (''reward accounting failed: '' @ error_text e) None False True None) (p_throw e)
      | None \<Rightarrow> p_then (applyRewardTerminalIntent env now fin intent)
         (p_bind (get_session id) (\<lambda>s.
          p_then (p_when (fs_isDirty s \<and> canCommitReward s) lazySaveSession) (p_return amount)))))"
    by (rule keeps_bind[OF hooks]) (auto split: prod.split option.split intro!: keeps_intros f)
qed simp

lemma wp_canStart: "wp canStartReward Q E w = Q (sw_rewardsOpen w \<and> canCommitReward (sw_session w)) w"
  by (simp add: canStartReward_def wp_get)

lemma keeps_apply_reward [keeps_intros]:
  assumes f: "\<And>b. keeps env (fin b)"
  shows "keeps env (apply_reward_with env now fin amount)"
proof -
  have account: "keeps env (p_bind canStartReward (\<lambda>ok. p_bind (get_session fs_cancelReward) (\<lambda>cancelled.
      if \<not> ok \<or> cancelled then p_return 0 else account_reward env now fin factors a)))" for factors a
    by (rule keepsI) (auto simp: wp_bind wp_canStart wp_get_session wp_return sess_next_refl intro!: keeps_account f dest: can_commit_live)
  have start: "keeps env canStartReward" unfolding canStartReward_def by (rule keeps_intros)
  have outcome: "keeps env (case outcome of (failure, factors, intent) \<Rightarrow>
      p_bind (applyRewardFactorTerminalIntent env now fin intent) (\<lambda>terminated. case failure of
           Some e \<Rightarrow> p_throw e
         | None \<Rightarrow> if terminated then p_return 0
             else p_bind canStartReward (\<lambda>ok. p_bind (get_session fs_cancelReward) (\<lambda>cancelled.
               if \<not> ok \<or> cancelled then p_return 0
               else account_reward env now fin factors (reward_amount (se_round env) factors amount)))))" for outcome
    by (cases outcome; cases "fst outcome")
      (simp_all only: prod.case option.case fst_conv, (intro keeps_bind keeps_factor_intent f keeps_if keeps_return keeps_throw account)+)
  show ?thesis unfolding apply_reward_with_def
    by (intro keeps_bind[OF start] keeps_if keeps_return keeps_bind[OF keeps_evaluate] outcome)
qed

subsection \<open>Completing a session\<close>

lemma wp_commit_claimable:
  assumes i: "sess_inv env w" and st: "fs_status (sw_session w) = COMMITTING"
  shows "wp (commit_claimable env now) (\<lambda>committed w'. sess_next env w w' \<and>
      (committed \<longrightarrow> \<not> fs_isDisposed (sw_session w') \<and> fs_failure (sw_session w') = NoFailure \<and> ip_ok env (fs_remoteIP (sw_session w')) \<and>
        (\<exists>r. own_row w' = Some r \<and> sr_status r = CLAIMABLE \<and> bigint_of_string (sr_dropAmount r) = Some (fs_dropAmount (sw_session w')))))
    (\<lambda>_. sess_next env w) w"
    (is "wp _ ?Q ?E w")
proof -
  have nd: "\<not> fs_isDisposed (sw_session w)" by (rule not_disposed_running[OF i]) (simp add: st)
  have nf: "fs_failure (sw_session w) = NoFailure" using i st unfolding sess_inv_def by auto
  have core: "sess_next env w v'" if "sess_next env w v" "same_core v v'" for v v'
    by (rule sess_next_trans[OF that(1) sess_next_core[OF that(2) sess_next_inv[OF that(1)]]])
  have sync: "wp (p_then (synchronizeTerminalState env now observed) (p_return False)) ?Q ?E v"
    if "sess_next env w v" "\<not> fs_isDisposed (sw_session v)" "\<And>d. observed = Some d \<Longrightarrow> \<exists>r. own_row v = Some r \<and> store_data_of r = Inr d" for v observed
    unfolding wp_simps by (rule wp_sync[OF sess_next_inv[OF that(1)] that(2,3)]) (auto intro: sess_next_trans[OF that(1)])
  have committed: "?Q True v"
    if n: "sess_next env w v" "\<not> fs_isDisposed (sw_session v)" "fs_failure (sw_session v) = NoFailure"
      and r: "own_row v = Some r" "sr_status r = CLAIMABLE" "sr_dropAmount r = dec_int (fs_dropAmount (sw_session v))" for v r
    using n r sess_next_inv[OF n(1)] by (auto simp: sess_inv_def)
  have hooks: "keeps_core (run_hooks [] (se_onComplete env))" by (rule run_hooks_keeps) (use complete_hooks in auto)
  show ?thesis unfolding commit_claimable_def wp_then[of "run_hooks [] (se_onComplete env)"]
  proof (rule keeps_core_wp[OF hooks])
    show "same_core w v \<Longrightarrow> ?E e v" for e v by (rule core[OF sess_next_refl[OF i]])
  next
    fix v assume c: "same_core w v"
    have n: "sess_next env w v" by (rule core[OF sess_next_refl[OF i] c])
    note iv = sess_next_inv[OF n]
    have v: "\<not> fs_isDisposed (sw_session v)" "fs_failure (sw_session v) = NoFailure" using c nd nf by (simp_all add: same_core_def)
    let ?d = "(getStoreSnapshot (sw_session v))\<lparr>sd_status := CLAIMABLE\<rparr>"
    have uncertain: "wp (p_bind (p_catch fetch_session (\<lambda>readError. p_throw (Aggregate [e, readError]))) (\<lambda>stored. case stored of
          None \<Rightarrow> p_throw e
        | Some d \<Rightarrow> if sessionDataEquals d ?d then p_return True
            else if isTerminalStatus (sd_status d)
            then p_then (synchronizeTerminalState env now (Some d)) (p_return False)
            else p_throw e)) ?Q ?E u"
      if n: "sess_next env w u" and s: "sw_session u = sw_session v" for u e
      unfolding wp_bind wp_catch
    proof (rule wp_fetch, goal_cases)
      case (1 u')
      thus ?case using core[OF n] by (simp add: wp_throw)
    next
      case (2 u' r d)
      note u = core[OF n 2(3)]
      have u': "own_row u' = Some r" "\<not> fs_isDisposed (sw_session u')" "fs_failure (sw_session u') = NoFailure"
        "fs_dropAmount (sw_session u') = fs_dropAmount (sw_session v)"
        using 2 s v by (simp_all add: same_core_def)
      have "sessionDataEquals d ?d \<Longrightarrow> ?Q True u'"
        using committed[OF u u'(2,3,1)] store_data_fields[OF 2(2)] u'(4) by (simp add: sessionDataEquals_def)
      moreover have "wp (p_then (synchronizeTerminalState env now (Some d)) (p_return False)) ?Q ?E u'"
        by (rule sync[OF u u'(2)]) (use 2 u' in auto)
      ultimately show ?case using u unfolding option.case by (simp only: wp_if wp_throw wp_return split: if_split) blast
    next
      case (3 u' e')
      thus ?case using core[OF n] by (simp add: wp_throw)
    qed
    show "wp (p_bind (get_session id) (\<lambda>s. let claimableData = (getStoreSnapshot s)\<lparr>sd_status := CLAIMABLE\<rparr> in
     p_bind (p_try (on_db (transitionSession claimableData RUNNING))) (\<lambda>transition. case transition of
        Inr transitioned \<Rightarrow> if transitioned then p_return True
          else p_then (synchronizeTerminalState env now None) (p_return False)
      | Inl e \<Rightarrow> p_bind (p_catch fetch_session (\<lambda>readError. p_throw (Aggregate [e, readError]))) (\<lambda>stored. case stored of
          None \<Rightarrow> p_throw e
        | Some d \<Rightarrow> if sessionDataEquals d claimableData then p_return True
            else if isTerminalStatus (sd_status d)
            then p_then (synchronizeTerminalState env now (Some d)) (p_return False)
            else p_throw e)))) ?Q ?E v"
      unfolding wp_bind[of "get_session id"] wp_get_session id_apply Let_def
    proof (subst wp_bind, subst wp_try, subst wp_on_db, rule wp_transition, goal_cases)
      case 1 thus ?case using iv by (simp add: sess_inv_def)
    next
      case (2 db')
      have "same_core v (v\<lparr>sw_db := db'\<rparr>)" by (rule same_row) (use 2 in \<open>simp_all add: own_row_def\<close>)
      from core[OF n this] have u: "sess_next env w (v\<lparr>sw_db := db'\<rparr>)" .
      show ?case unfolding sum.case if_False
        by (intro conjI allI uncertain[OF u] sync[OF u]) (use v in simp_all)
    next
      case (3 db' r)
      let ?r = "(set_columns ?d r)\<lparr>sr_status := sd_status ?d\<rparr>"
      have some: "own_row v = Some r" using 3 by (simp add: own_row_def)
      hence p: "fs_persistence (sw_session v) \<noteq> Absent" "ip_ok env (fs_remoteIP (sw_session v))"
        using iv by (auto simp: sess_inv_def)
      have "sess_next env v (v\<lparr>sw_db := db'\<rparr>)"
        by (rule next_row[OF iv v(1), of _ ?r]) (use 3 p v in \<open>simp_all add: row_valid_def set_columns_def\<close>)
      from sess_next_trans[OF n this] have u: "sess_next env w (v\<lparr>sw_db := db'\<rparr>)" .
      have "?Q True (v\<lparr>sw_db := db'\<rparr>)"
        by (rule committed[OF u, of ?r]) (use v 3 in \<open>simp_all add: set_columns_def\<close>)
      thus ?case unfolding sum.case if_True wp_return
        by (intro conjI allI uncertain[OF u]) simp_all
    qed
  qed
qed

lemma keeps_commit:
  assumes i: "sess_inv env w" and st: "fs_status (sw_session w) = RUNNING"
  shows "wp (commit_session env now) (\<lambda>_. sess_next env w) (\<lambda>_. sess_next env w) w"
proof -
  have nd: "\<not> fs_isDisposed (sw_session w)" by (rule not_disposed_running[OF i]) (simp add: st)
  let ?f = "\<lambda>s. s\<lparr>fs_status := COMMITTING, fs_data := js_set ''close.time'' (json_int now) (fs_data s), fs_isDirty := True\<rparr>"
  let ?E = "\<lambda>_. sess_next env w"
  let ?P = "\<lambda>v. sess_next env w v \<and> fs_status (sw_session v) = COMMITTING"
  have core: "?P v'" if "?P v" "same_core v v'" for v v'
  proof
    show "sess_next env w v'" using that sess_next_inv sess_next_core sess_next_trans by blast
    show "fs_status (sw_session v') = COMMITTING" using that by (simp add: same_core_def)
  qed
  have step: "?P (upd ?f v)" if c: "same_core w v" for v
    using same_core_inv[OF c i] c nd st by (auto simp: same_core_def sess_next_def sess_inv_def pending_ok_def own_row_upd)
  have claimed: "sess_next env w v'" if n: "sess_next env w v" and v: "\<not> fs_isDisposed (sw_session v)" "fs_failure (sw_session v) = NoFailure"
      "ip_ok env (fs_remoteIP (sw_session v))" "own_row v = Some r" "sr_status r = CLAIMABLE" "bigint_of_string (sr_dropAmount r) = Some (fs_dropAmount (sw_session v))"
      and v': "own_id v' = own_id v" "sw_db v' = sw_db v" "fs_status (sw_session v') = CLAIMABLE" "fs_persistence (sw_session v') = Durable"
        "fs_failure (sw_session v') = NoFailure" "fs_remoteIP (sw_session v') = fs_remoteIP (sw_session v)" "fs_dropAmount (sw_session v') = fs_dropAmount (sw_session v)"
    for v v' r
    using n v v' nd st sess_next_inv[OF n] by (simp add: sess_next_def sess_inv_def pending_ok_def terminal_agrees_def own_row_def)
  have committed: "wp (claim_committed env now) (\<lambda>_. sess_next env w) (\<lambda>_. sess_next env w) v"
    if n: "sess_next env w v" and v: "\<not> fs_isDisposed (sw_session v)" "fs_failure (sw_session v) = NoFailure"
      "ip_ok env (fs_remoteIP (sw_session v))" "own_row v = Some r" "sr_status r = CLAIMABLE" "bigint_of_string (sr_dropAmount r) = Some (fs_dropAmount (sw_session v))" for v r
    unfolding claim_committed_def wp_simps resetSessionTimer_def releaseAdmission_def notifySessionUpdate_def
    by (rule claimed[OF n v]) (simp_all add: v)
  have handler: "keeps env (p_bind (get_session fs_status) (\<lambda>status.
           p_then (finishFailedSession env now c (r e) None False False (Some (g status))) (p_throw e)))" for c r e g
    by (intro keeps_intros)
  show ?thesis unfolding commit_session_def wp_then wp_modify_session wp_bind[of "p_catch a b" for a b] wp_catch
  proof (rule keeps_core_wp[OF keeps_core_timer(6)])
    fix e v assume "same_core w v" thus "sess_next env w v" by (rule sess_next_core) (rule i)
  next
    fix v assume "same_core w v"
    from step[OF this] have v: "?P (upd ?f v)" .
    show "wp (resetSessionTimer env now) (\<lambda>_. wp clear_save_timer (\<lambda>_. wp (commit_claimable env now)
        (\<lambda>a. wp (if a then claim_committed env now else p_return ()) (\<lambda>_. sess_next env w) (\<lambda>_. sess_next env w))
        (\<lambda>e. wp (p_bind (get_session fs_status) (\<lambda>status.
           p_then (finishFailedSession env now ''SESSION_COMPLETE'' (''sessionComplete failed: '' @ error_text e) None False False
             (Some (if status = COMMITTING then RUNNING else CLAIMABLE))) (p_throw e)))
          (\<lambda>a. wp (if a then claim_committed env now else p_return ()) (\<lambda>_. sess_next env w) (\<lambda>_. sess_next env w)) (\<lambda>_. sess_next env w)))
        (\<lambda>_. sess_next env w)) (\<lambda>_. sess_next env w) (upd ?f v)"
    proof (rule keeps_core_wp[OF keeps_core_timer(1)], goal_cases)
      case (1 _ a)
      show ?case
      proof (rule keeps_core_wp[OF keeps_core_timer(3)], goal_cases)
        case (1 _ b)
        have b: "?P b" by (rule core[OF core[OF v \<open>same_core (upd ?f v) a\<close>] 1])
        show ?case
        proof (rule wp_mono[OF wp_commit_claimable[OF sess_next_inv[of env w b] conjunct2[OF b]]], goal_cases)
          case 1 show ?case using b by blast
        next
          case (2 a w')
          hence w': "sess_next env w w'" using b sess_next_trans by blast
          show ?case
          proof (cases a)
            case True
            with 2 obtain r where "\<not> fs_isDisposed (sw_session w')" "fs_failure (sw_session w') = NoFailure" "ip_ok env (fs_remoteIP (sw_session w'))"
              "own_row w' = Some r" "sr_status r = CLAIMABLE" "bigint_of_string (sr_dropAmount r) = Some (fs_dropAmount (sw_session w'))" by blast
            from committed[OF w' this] show ?thesis using True by simp
          next
            case False
            thus ?thesis using w' by (simp add: wp_return)
          qed
        next
          case (3 e w')
          hence w': "sess_next env w w'" using b sess_next_trans by blast
          show ?case unfolding wp_bind wp_get_session wp_then wp_throw
            by (rule wp_mono[OF keepsD[OF keeps_finishFailed sess_next_inv[OF w']]])
              (auto intro: sess_next_trans[OF w'])
        qed
      next
        case (2 e b)
        show ?case using core[OF core[OF v \<open>same_core (upd ?f v) a\<close>] 2] by blast
      qed
    next
      case (2 e a)
      show ?case using core[OF v 2] by blast
    qed
  qed
qed

lemma keeps_finish_checked [keeps_intros]: "keeps env (finish_checked env now)"
proof (rule keepsI)
  fix w assume i: "sess_inv env w"
  show "wp (finish_checked env now) (\<lambda>_. sess_next env w) (\<lambda>_. sess_next env w) w"
    unfolding finish_checked_def wp_bind wp_get_session id_apply
    by (auto simp: wp_if wp_return sess_next_refl i intro!: keepsD[OF keeps_finishFailed i] keeps_commit[OF i])
qed

lemma keeps_finish_session: "keeps env (finish_session fuel env now grant)"
proof (induction fuel arbitrary: grant)
  case (Suc fuel)
  show ?case unfolding finish_session.simps
    by (intro keeps_bind keeps_then keeps_get keeps_if keeps_return keeps_finish_checked keeps_apply_reward Suc)
qed (simp add: keeps_throw)

lemma keeps_finishSession [keeps_intros]: "keeps env (finishSession env now grant)"
  unfolding finishSession_def by (rule keeps_finish_session)

lemma keeps_applyReward [keeps_intros]: "keeps env (applyReward env now amount)"
  unfolding applyReward_def by (intro keeps_apply_reward keeps_finishSession)

subsection \<open>Public operations\<close>

lemma keeps_completeSession [keeps_intros]: "keeps env (completeSession env now)"
  unfolding completeSession_def
  by (rule keeps_bind) (auto split: completion_state.split intro!: keeps_intros)

lemma keeps_tryProceed [keeps_intros]: "keeps env (tryProceedSession env now)"
  unfolding tryProceedSession_def by (intro keeps_intros) auto

lemma keeps_addReward [keeps_intros]: "keeps env (addReward env now amount)"
  unfolding addReward_def runRewardOperation_def by (intro keeps_intros)

lemma keeps_live_step:
  assumes "\<And>s. fs_sessionId (f s) = fs_sessionId s \<and> fs_status (f s) = fs_status s \<and> fs_persistence (f s) = fs_persistence s \<and>
      fs_failure (f s) = fs_failure s \<and> fs_isDisposed (f s) = fs_isDisposed s \<and> fs_remoteIP (f s) = fs_remoteIP s"
    and "keeps env m"
  shows "keeps env (p_bind canStartReward (\<lambda>ok. if \<not> ok then p_return a else p_then (modify f) m))"
  by (rule keepsI, simp add: wp_bind wp_canStart wp_if wp_return sess_next_refl)
    (use keeps_then_live[OF _ can_commit_live assms] in blast)

lemma keeps_setDropAmount [keeps_intros]: "keeps env (setDropAmount env now amount)"
  unfolding setDropAmount_def runRewardOperation_def applyDropAmount_def
  by (intro keeps_bind keeps_if keeps_get keeps_return keeps_throw keeps_live_step keeps_then keeps_timer keeps_applyReward) simp_all

lemma keeps_subPenalty [keeps_intros]: "keeps env (subPenalty amount)"
proof -
  have "keeps env (applyPenalty amount)"
  proof (rule keepsI, unfold applyPenalty_def wp_bind wp_canStart)
    fix w assume i: "sess_inv env w"
    let ?f = "\<lambda>s. if fs_dropAmount s = -1 then s\<lparr>fs_dropAmount := 0\<rparr> else s"
    show "wp (if \<not> (sw_rewardsOpen w \<and> canCommitReward (sw_session w)) then p_return 0
     else p_then (modify ?f) (p_bind (get_session fs_dropAmount) (\<lambda>drop.
        let penalty = (if amount > drop then drop else amount) in
        p_then (modify (\<lambda>s. s\<lparr>fs_dropAmount := drop - penalty\<rparr>)) (p_then lazySaveSession (p_return penalty)))))
      (\<lambda>_. sess_next env w) (\<lambda>_. sess_next env w) w"
    proof (cases "sw_rewardsOpen w \<and> canCommitReward (sw_session w)")
      case True
      hence nd: "\<not> fs_isDisposed (sw_session w)" using can_commit_live[OF i] by blast
      have u: "sess_next env w (upd ?f w)" by (rule next_live[OF i nd]) simp
      have nd': "\<not> fs_isDisposed (sw_session (upd ?f w))" using nd by simp
      have v: "sess_next env w (upd (\<lambda>s. s\<lparr>fs_dropAmount := d\<rparr>) (upd ?f w))" for d
        by (rule sess_next_trans[OF u next_live[OF sess_next_inv[OF u] nd']]) simp
      have fin: "keeps env (p_then lazySaveSession (p_return n))" for n by (intro keeps_intros)
      show ?thesis using True unfolding Let_def
        by (simp add: wp_bind wp_then[of "modify f" for f] wp_modify_session wp_get_session)
          (auto intro!: keeps_from[OF fin v])
    qed (simp add: wp_return sess_next_refl i)
  qed
  thus ?thesis unfolding subPenalty_def runRewardOperation_def by (intro keeps_bind keeps_if keeps_get keeps_return keeps_throw)
qed

lemma keeps_setSessionData [keeps_intros]: "keeps env (setSessionData key value)"
  unfolding setSessionData_def by (intro keeps_intros) simp

lemma keeps_tasks [keeps_intros]: "keeps env (addBlockingTask env now m n limit)" "keeps env (resolveBlockingTask env now m n)"
  unfolding addBlockingTask_def resolveBlockingTask_def by (auto intro!: keeps_intros)

lemma keeps_setTargetAddr [keeps_intros]: "keeps env (setTargetAddr addr)"
  unfolding setTargetAddr_def Let_def by (intro keeps_intros) auto

lemma keeps_override [keeps_intros]: "keeps env (setMaxDropAmountOverride amount)"
  unfolding setMaxDropAmountOverride_def by (intro keeps_intros)

lemma keeps_registerRollback [keeps_intros]: "keeps env (registerStartRollback owner)"
  unfolding registerStartRollback_def by (intro keeps_intros) auto

lemma keeps_quiesce [keeps_intros]: "keeps env quiesceForShutdown"
  unfolding quiesceForShutdown_def by (intro keeps_intros) simp

lemma keeps_updateRemoteIP [keeps_intros]: "keeps env (updateRemoteIP env now ip)"
proof -
  have hooks: "keeps env (run_hooks [] (se_onIpChange env))"
    by (intro keeps_core_keeps run_hooks_keeps) (use ip_hooks in auto)
  have ledger: "keeps env (p_modify (\<lambda>w. w\<lparr>sw_ledger := g w\<rparr>))"  for g
    by (intro keeps_core_keeps) (simp add: keeps_core_def wp_modify same_core_def)
  have prepare: "keeps env (prepare_ip_move a b)" for a b
    by (intro keeps_core_keeps) (auto simp: keeps_core_def wp_def prepare_ip_move_def same_core_def split: sum.split)
  have ip: "sess_next env w (upd f w)"
    if "sess_inv env w" "fs_persistence (sw_session w) = Absent \<and> fs_status (sw_session w) \<noteq> RUNNING \<or> ip_ok env new"
      and "\<And>s. fs_sessionId (f s) = fs_sessionId s \<and> fs_status (f s) = fs_status s \<and> fs_persistence (f s) = fs_persistence s \<and>
      fs_failure (f s) = fs_failure s \<and> fs_isDisposed (f s) = fs_isDisposed s \<and> fs_dropAmount (f s) = fs_dropAmount s \<and> fs_remoteIP (f s) = new" for w new f
  proof -
    let ?v = "upd f w"
    have eqs: "own_id ?v = own_id w" "own_row ?v = own_row w" "fs_status (sw_session ?v) = fs_status (sw_session w)"
      "fs_persistence (sw_session ?v) = fs_persistence (sw_session w)" "fs_failure (sw_session ?v) = fs_failure (sw_session w)"
      "fs_isDisposed (sw_session ?v) = fs_isDisposed (sw_session w)" "fs_remoteIP (sw_session ?v) = new"
      "fs_dropAmount (sw_session ?v) = fs_dropAmount (sw_session w)" "sw_db ?v = sw_db w"
      using that(3) by (simp_all add: own_row_def)
    show ?thesis using that(1,2) unfolding sess_next_def sess_inv_def pending_ok_def terminal_agrees_def eqs by blast
  qed
  have final: "keeps env (p_then (modify (\<lambda>s. s\<lparr>fs_ipPending := False\<rparr>)) (p_bind (get_session fs_isDirty) (\<lambda>dirty.
            p_then (p_when dirty lazySaveSession) (p_lift outcome))))" for outcome :: "session_error + unit"
    by (intro keeps_intros) simp
  have move: "keeps env (p_then (run_hooks [] (se_onIpChange env)) (p_then (saveSession env now)
             (p_modify (\<lambda>w. w\<lparr>sw_ledger := commitMove mv (sw_ledger w)\<rparr>))))" for mv
    by (intro keeps_then hooks keeps_saveSession ledger)
  have abort: "keeps env (p_then (p_modify (\<lambda>w. w\<lparr>sw_ledger := abortMove mv (sw_ledger w)\<rparr>)) (p_throw e))" for mv e
    by (intro keeps_then ledger keeps_throw)
  have apply_ip: "keeps env (applyRemoteIpUpdate env now new)" if new: "ip_ok env new" for new
  proof (rule keepsI)
    fix w assume i: "sess_inv env w"
    let ?I = "\<lambda>_. sess_next env w"
    let ?old = "fs_remoteIP (sw_session w)"
    have old: "fs_persistence (sw_session v) = Absent \<and> fs_status (sw_session v) \<noteq> RUNNING \<or> ip_ok env ?old" if "sess_next env w v" for v
      using that i unfolding sess_next_def sess_inv_def by blast
    show "wp (applyRemoteIpUpdate env now new) ?I ?I w"
    proof (cases "?old = new")
      case True
      thus ?thesis by (simp add: applyRemoteIpUpdate_def wp_bind wp_get_session wp_return sess_next_refl i)
    next
      case False
      have revert: "wp (p_then (modify (\<lambda>s. s\<lparr>fs_remoteIP := ?old, fs_isDirty := True\<rparr>))
             (p_then (p_modify (\<lambda>w. w\<lparr>sw_ledger := abortMove mv (sw_ledger w)\<rparr>)) (p_throw e)))
          (\<lambda>_. sess_next env w) (\<lambda>_. sess_next env w) v" if "sess_next env w v" for v mv and e :: session_error
        unfolding wp_then[of "modify f" for f] wp_modify_session
        by (rule keeps_from[OF abort sess_next_trans[OF that ip[OF sess_next_inv[OF that] old[OF that]]]]) simp_all
      show ?thesis
        unfolding applyRemoteIpUpdate_def wp_bind[of "get_session f" for f] wp_get_session if_not_P[OF False] wp_bind[of "prepare_ip_move a b" for a b]
      proof (rule keeps_from[OF prepare sess_next_refl[OF i]])
        fix mv v assume n: "sess_next env w v"
        have u: "sess_next env w (upd (\<lambda>s. s\<lparr>fs_saveTimer := False, fs_ipPending := True, fs_remoteIP := new, fs_isDirty := True\<rparr>) v)"
          by (rule sess_next_trans[OF n ip[OF sess_next_inv[OF n], of new]]) (use new in simp_all)
        show "wp (p_then (modify (\<lambda>s. s\<lparr>fs_saveTimer := False, fs_ipPending := True, fs_remoteIP := new, fs_isDirty := True\<rparr>))
       (p_bind (p_try (p_catch
           (p_then (run_hooks [] (se_onIpChange env)) (p_then (saveSession env now)
             (p_modify (\<lambda>w. w\<lparr>sw_ledger := commitMove mv (sw_ledger w)\<rparr>))))
           (\<lambda>e. p_then (modify (\<lambda>s. s\<lparr>fs_remoteIP := ?old, fs_isDirty := True\<rparr>))
             (p_then (p_modify (\<lambda>w. w\<lparr>sw_ledger := abortMove mv (sw_ledger w)\<rparr>)) (p_throw e)))))
         (\<lambda>outcome. p_then (modify (\<lambda>s. s\<lparr>fs_ipPending := False\<rparr>))
           (p_bind (get_session fs_isDirty) (\<lambda>dirty.
            p_then (p_when dirty lazySaveSession) (p_lift outcome)))))) ?I ?I v"
          unfolding wp_then[of "modify f" for f] wp_modify_session wp_bind[of "p_try a" for a] wp_try wp_catch
        proof (rule keeps_from[OF move u], goal_cases)
          case (1 a v') thus ?case by (rule keeps_from[OF final, unfolded wp_then[of "modify f" for f] wp_modify_session])
        next
          case (2 e v') show ?case by (rule wp_mono[OF revert[OF 2, unfolded wp_then[of "modify f" for f] wp_modify_session]]) (auto intro!: keeps_from[OF final, unfolded wp_then[of "modify f" for f] wp_modify_session])
        qed
      qed
    qed
  qed
  show ?thesis unfolding updateRemoteIP_def
    by (cases "normalizeRemoteIP env ip") (auto simp: keeps_def wp_bind wp_lift sess_next_refl intro!: keepsD[OF apply_ip] normalize_twice)
qed

end

end
