(* ===== verification/Session_Durable.thy ===== *)
theory Session_Durable
  imports Session_Completion
begin

text \<open>
  A session from its start through every sequence of public calls: its memory and its row
  agree once it is disposed, and nothing it does later changes either.
\<close>

datatype 'm session_call =
    CallSave
  | CallFail string string "string option"
  | CallTimeout int
  | CallProceed
  | CallComplete
  | CallReward int
  | CallDropAmount int
  | CallPenalty int
  | CallUpdateIp string
  | CallTargetAddr string
  | CallOverride int
  | CallData string js_value
  | CallAddTask string string int
  | CallResolveTask string string
  | CallRollback string
  | CallQuiesce
  | CallGates bool bool
  | CallModules "'m \<Rightarrow> 'm"

definition drop_result :: "('m, 'a) session_op \<Rightarrow> ('m, unit) session_op" where
  "drop_result m = p_then m (p_return ())"

primrec run_call :: "'m session_env \<Rightarrow> int \<Rightarrow> 'm session_call \<Rightarrow> ('m, unit) session_op" where
  "run_call env now CallSave = saveSession env now"
| "run_call env now (CallFail code reason stack) = setSessionFailed env now code reason stack"
| "run_call env now (CallTimeout timeout) = drop_result (tryApplyTimeout env now timeout)"
| "run_call env now CallProceed = tryProceedSession env now"
| "run_call env now CallComplete = completeSession env now"
| "run_call env now (CallReward amount) = drop_result (addReward env now amount)"
| "run_call env now (CallDropAmount amount) = drop_result (setDropAmount env now amount)"
| "run_call env now (CallPenalty amount) = drop_result (subPenalty amount)"
| "run_call env now (CallUpdateIp ip) = updateRemoteIP env now ip"
| "run_call env now (CallTargetAddr addr) = setTargetAddr addr"
| "run_call env now (CallOverride amount) = setMaxDropAmountOverride amount"
| "run_call env now (CallData key value) = setSessionData key value"
| "run_call env now (CallAddTask m n limit) = addBlockingTask env now m n limit"
| "run_call env now (CallResolveTask m n) = resolveBlockingTask env now m n"
| "run_call env now (CallRollback owner) = registerStartRollback owner"
| "run_call env now CallQuiesce = quiesceForShutdown"
| "run_call env now (CallGates rewards admission) = p_modify (\<lambda>w. w\<lparr>sw_rewardsOpen := rewards, sw_admissionOpen := admission\<rparr>)"
| "run_call env now (CallModules f) = p_modify (\<lambda>w. w\<lparr>sw_modules := f (sw_modules w)\<rparr>)"

text \<open>\<^verbatim>\<open>CallGates\<close> is the manager opening or closing its gates, \<^verbatim>\<open>CallModules\<close> the modules' own work
  between the calls (their clock, timers and configuration).  The calls one after the other, at their times; a call that fails is followed by the next.\<close>

primrec run_calls :: "'m session_env \<Rightarrow> (int \<times> 'm session_call) list \<Rightarrow> 'm session_world \<Rightarrow> 'm session_world" where
  "run_calls env [] w = w"
| "run_calls env (c # cs) w = run_calls env cs (snd (run_call env (fst c) (snd c) w))"

lemma core_setData: "keeps_core (setSessionData key value)"
  unfolding keeps_core_def setSessionData_def wp_then wp_modify_session
  by (intro allI keeps_core_wp[OF keeps_core_timer(2)]) (auto simp: same_core_def own_row_upd)

lemma core_target: "keeps_core (setTargetAddr addr)"
  unfolding keeps_core_def setTargetAddr_def wp_bind wp_get_session Let_def wp_if wp_return wp_throw wp_then wp_modify_session
  by (auto simp: same_core_def own_row_upd intro!: keeps_core_wp[OF keeps_core_timer(6)] split: if_splits)

text \<open>While the hooks of the start run.\<close>

definition starting :: "'m session_env \<Rightarrow> 'm session_world \<Rightarrow> bool" where
  "starting env w \<longleftrightarrow> sess_inv env w \<and> fs_status (sw_session w) = STARTING \<and> ip_ok env (fs_remoteIP (sw_session w))"

context session_hooks
begin

lemma keeps_run_call: "keeps env (run_call env now c)"
proof (cases c)
  case (CallGates rewards admission)
  show ?thesis unfolding CallGates run_call.simps
    by (intro keeps_core_keeps) (simp add: keeps_core_def wp_modify same_core_def own_row_def)
next
  case (CallModules f)
  show ?thesis unfolding CallModules run_call.simps
    by (intro keeps_core_keeps) (simp add: keeps_core_def wp_modify same_core_def own_row_def)
qed (auto simp: drop_result_def intro!: keeps_intros)

lemma run_calls_next: "sess_inv env w \<Longrightarrow> sess_next env w (run_calls env cs w)"
proof (induction cs arbitrary: w)
  case (Cons c cs)
  let ?v = "snd (run_call env (fst c) (snd c) w)"
  have n: "sess_next env w ?v" by (rule wp_snd[OF keepsD[OF keeps_run_call Cons.prems]])
  show ?case using sess_next_trans[OF n Cons.IH[OF sess_next_inv[OF n]]] by simp
qed (simp add: sess_next_refl)

text \<open>Starting a session.\<close>

lemma keeps_failStart [keeps_intros]: "keeps env (failStart env now e code reason)"
  unfolding failStart_def
  by (rule keeps_bind) (auto split: sum.split intro!: keeps_intros)

lemma failStart_throws: "sess_inv env w \<Longrightarrow> wp (failStart env now e code reason) (\<lambda>_ _. False) (\<lambda>_. sess_inv env) w"
  unfolding failStart_def wp_bind
  by (rule keeps_from[OF keeps_try[OF keeps_setSessionFailed] sess_next_refl])
    (auto simp: wp_throw sess_next_def split: sum.split)

lemma starting_core: "starting env w \<Longrightarrow> same_core w w' \<Longrightarrow> starting env w'"
  using same_core_inv[of w w' env] by (auto simp: starting_def same_core_def)

lemma core_starting:
  "keeps_core m \<Longrightarrow> starting env w \<Longrightarrow> (\<And>a w'. starting env w' \<Longrightarrow> Q a w') \<Longrightarrow> (\<And>e w'. starting env w' \<Longrightarrow> E e w') \<Longrightarrow> wp m Q E w"
  by (erule keeps_core_wp) (auto dest: starting_core)

lemma core_admission: "keeps_core (beginAdmission env restored)"
  by (auto simp: keeps_core_def beginAdmission_def wp_simps same_core_def split: sum.split)

lemma core_local_hooks: "h \<in> set (start_local_hooks env input) \<Longrightarrow> keeps_core (snd h)"
  using keeps_coreD[OF core_target]
  by (auto simp: start_local_hooks_def deny_hook_def target_hook_def keeps_core_def wp_simps Let_def split: option.split)

lemma wp_admit:
  assumes s: "starting env w"
  shows "wp (admit_session env now input) (\<lambda>_. starting env) (\<lambda>_. sess_inv env) w"
proof -
  have hooks: "keeps_core (run_hooks (start_local_hooks env input) (se_onStart env input))"
    by (rule run_hooks_keeps) (use core_local_hooks start_hooks in auto)
  have h: "wp (failStart env now e c r) (\<lambda>_. starting env) (\<lambda>_. sess_inv env) v" if "starting env v" for v e c r
    by (rule wp_mono[OF failStart_throws]) (use that in \<open>auto simp: starting_def\<close>)
  show ?thesis unfolding admit_session_def wp_catch wp_then
    by (intro core_starting[OF core_admission s] core_starting[OF hooks] h) assumption+
qed

lemma keeps_ceiling_core: "keeps_core (settle_ceiling env)"
  unfolding keeps_core_def settle_ceiling_def wp_bind wp_get_session wp_lift
  by (auto split: sum.split intro!: keeps_core_wp[OF keeps_core_timer(6)])

lemma wp_activate:
  assumes s: "starting env w"
  shows "wp (activate_session env now) (\<lambda>_. sess_inv env) (\<lambda>_. sess_inv env) w"
proof -
  have h: "keeps env (p_bind (get_session fs_status) (\<lambda>status. if status \<noteq> FAILED_SESSION
          then failStart env now e ''INTERNAL_ERROR'' (''session activation failed: '' @ error_text e) else p_throw e))" for e
    by (intro keeps_intros)
  have run: "keeps env (p_then (with_ledger markRunning) (p_then notifySessionUpdate (p_then (saveSession env now)
       (p_then (modify (\<lambda>s. s\<lparr>fs_rollbacks := []\<rparr>)) (tryProceedSession env now)))))"
    by (intro keeps_intros) simp
  have inv: "sess_inv env (upd (\<lambda>s. s\<lparr>fs_status := RUNNING, fs_isDirty := True\<rparr>) v)" if "starting env v" for v
  proof -
    have "\<not> fs_isDisposed (sw_session v)" by (rule not_disposed_running) (use that in \<open>auto simp: starting_def\<close>)
    thus ?thesis using that by (auto simp: starting_def sess_inv_def pending_ok_def own_row_upd)
  qed
  have body: "wp (p_then (settle_ceiling env) (p_then (modify (\<lambda>s. s\<lparr>fs_status := RUNNING, fs_isDirty := True\<rparr>))
       (p_then (with_ledger markRunning) (p_then notifySessionUpdate (p_then (saveSession env now)
       (p_then (modify (\<lambda>s. s\<lparr>fs_rollbacks := []\<rparr>)) (tryProceedSession env now))))))) (\<lambda>_. sess_inv env) (\<lambda>_. sess_inv env) w"
  proof (subst wp_then, rule core_starting[OF keeps_ceiling_core s])
    fix a v assume "starting env v"
    from inv[OF this] show "wp (p_then (modify (\<lambda>s. s\<lparr>fs_status := RUNNING, fs_isDirty := True\<rparr>))
       (p_then (with_ledger markRunning) (p_then notifySessionUpdate (p_then (saveSession env now)
       (p_then (modify (\<lambda>s. s\<lparr>fs_rollbacks := []\<rparr>)) (tryProceedSession env now)))))) (\<lambda>_. sess_inv env) (\<lambda>_. sess_inv env) v"
      unfolding wp_then[of "modify (\<lambda>s. s\<lparr>fs_status := RUNNING, fs_isDirty := True\<rparr>)"] wp_modify_session
      by (intro keeps_from[OF run sess_next_refl]) (auto intro: sess_next_inv)
  qed (simp add: starting_def)
  show ?thesis unfolding activate_session_def wp_catch
    by (rule wp_mono[OF body]) (auto intro!: keeps_from[OF h sess_next_refl] intro: sess_next_inv)
qed

lemma wp_startSession:
  assumes new: "sw_session w = new_session" and fresh: "row_at (sw_db w) guid = None" "row_at (sw_db w) [] = None" "distinct_ids (sw_db w)"
  shows "wp (startSession env now guid ip input overrides) (\<lambda>_ w'. sess_inv env w') (\<lambda>_ w'. sess_inv env w') w"
proof -
  let ?u = "upd (\<lambda>s. s\<lparr>fs_status := STARTING, fs_sessionId := guid, fs_startTime := now\<rparr>) w"
  have u: "sess_inv env ?u" using new fresh
    by (simp add: sess_inv_def own_row_def pending_ok_def new_session_def)
  have v: "starting env (upd (\<lambda>s. s\<lparr>fs_remoteIP := a, fs_dropAmount := -1\<rparr>) ?u)" if "ip_ok env a" for a
    using u that new by (simp add: starting_def sess_inv_def own_row_def pending_ok_def new_session_def)
  have data: "wp (p_each (\<lambda>(key, value). setSessionData key value) overrides) (\<lambda>_. starting env) (\<lambda>_. starting env) x" if "starting env x" for x
    by (rule wp_each) (use that core_starting[OF core_setData] in \<open>auto split: prod.split\<close>)
  have admit: "wp (p_then (p_each (\<lambda>(key, value). setSessionData key value) overrides) (p_then (admit_session env now input)
        (p_bind (get_session fs_status) (\<lambda>status. if status = FAILED_SESSION then p_return () else activate_session env now))))
      (\<lambda>_. sess_inv env) (\<lambda>_. sess_inv env) x" if "starting env x" for x
    unfolding wp_then wp_bind wp_get_session wp_if wp_return
  proof (rule wp_mono[OF data[OF that]], goal_cases)
    case (1 a y) show ?case by (rule wp_mono[OF wp_admit[OF 1]]) (auto simp: starting_def intro: wp_activate)
  qed (simp add: starting_def)
  have s0: "\<not> fs_status (sw_session w) \<noteq> UNKNOWN" using new by (simp add: new_session_def)
  show ?thesis unfolding startSession_def wp_bind[of "get_session fs_status"] wp_get_session if_not_P[OF s0]
  proof (cases "se_modulesReady env", goal_cases)
    case 2
    have "sess_inv env w" using new fresh by (simp add: sess_inv_def own_row_def pending_ok_def new_session_def)
    thus ?case using 2 by (simp add: wp_throw)
  next
    case 1
    have start: "wp (p_bind (p_lift (normalizeRemoteIP env ip)) (\<lambda>ip. p_then (modify (\<lambda>s. s\<lparr>fs_remoteIP := ip, fs_dropAmount := -1\<rparr>))
        (p_then (p_each (\<lambda>(key, value). setSessionData key value) overrides) (p_then (admit_session env now input)
        (p_bind (get_session fs_status) (\<lambda>status. if status = FAILED_SESSION then p_return () else activate_session env now))))))
      (\<lambda>_. sess_inv env) (\<lambda>_. sess_inv env) ?u"
    proof (cases "normalizeRemoteIP env ip")
      case (Inr a)
      show ?thesis unfolding wp_bind[of "p_lift r" for r] wp_lift Inr sum.case wp_then[of "modify f" for f] wp_modify_session
        by (rule admit[OF v[OF normalize_twice[OF Inr]]])
    qed (simp add: wp_bind wp_lift u)
    have R: "\<not> \<not> se_modulesReady env" using 1 by simp
    show ?case unfolding if_not_P[OF R] wp_then[of "modify (\<lambda>s. s\<lparr>fs_status := STARTING, fs_sessionId := guid, fs_startTime := now\<rparr>)"] wp_modify_session
      by (rule start)
  qed
qed

end

end
