(* ===== verification/Ip_Address.thy ===== *)
theory Ip_Address
  imports Faucet_Prelude
begin

text \<open>
  \<^verbatim>\<open>src/src/utils/IPAddress.ts\<close>: the canonical form of a client's address and the choice of
  the address behind trusted proxies.  \<^verbatim>\<open>isIP\<close> of \<^verbatim>\<open>node:net\<close> and the IPv6 host of a \<^verbatim>\<open>URL\<close>
  (parser and serialiser of the WHATWG standard) are defined here as the source uses them.
\<close>

subsection \<open>\<^verbatim>\<open>isIP\<close>\<close>

definition ipv4_octet :: "string \<Rightarrow> nat option" where
  "ipv4_octet g = (if canonical_decimal g \<and> dec_value g \<le> 255 then Some (dec_value g) else None)"

fun all_some :: "'a option list \<Rightarrow> 'a list option" where
  "all_some [] = Some []"
| "all_some (None # xs) = None"
| "all_some (Some x # xs) = map_option ((#) x) (all_some xs)"

definition parse_ipv4 :: "string \<Rightarrow> nat list option" where
  "parse_ipv4 s = (case all_some (map ipv4_octet (split_on CHR ''.'' s)) of
      Some [a, b, c, d] \<Rightarrow> Some [a, b, c, d] | _ \<Rightarrow> None)"

definition is_hex_char :: "char \<Rightarrow> bool" where
  "is_hex_char c \<longleftrightarrow> is_digit c \<or> c \<in> set ''abcdefABCDEF''"

definition hex_char_value :: "char \<Rightarrow> nat" where
  "hex_char_value c = (if is_digit c then digit_value c
     else if of_char c \<ge> (97 :: nat) then of_char c - 87 else of_char c - 55)"

definition parse_hex :: "string \<Rightarrow> nat" where
  "parse_hex s = foldl (\<lambda>n c. n * 16 + hex_char_value c) 0 s"

definition ipv6_group :: "string \<Rightarrow> nat option" where
  "ipv6_group g = (if g \<noteq> [] \<and> length g \<le> 4 \<and> (\<forall>c \<in> set g. is_hex_char c) then Some (parse_hex g) else None)"

text \<open>The last part of an address may be an IPv4 address, which stands for two groups.\<close>

fun ipv6_tail :: "string list \<Rightarrow> nat list option" where
  "ipv6_tail [] = Some []"
| "ipv6_tail [g] = (case parse_ipv4 g of
      Some [a, b, c, d] \<Rightarrow> Some [a * 256 + b, c * 256 + d]
    | _ \<Rightarrow> map_option (\<lambda>n. [n]) (ipv6_group g))"
| "ipv6_tail (g # gs) = (case ipv6_group g of None \<Rightarrow> None | Some n \<Rightarrow> map_option ((#) n) (ipv6_tail gs))"

fun split_double :: "string \<Rightarrow> (string \<times> string) option" where
  "split_double (a # b # cs) = (if a = CHR '':'' \<and> b = CHR '':'' then Some ([], cs)
     else map_option (\<lambda>(l, r). (a # l, r)) (split_double (b # cs)))"
| "split_double _ = None"

definition side_groups :: "string \<Rightarrow> string list" where
  "side_groups s = (if s = [] then [] else split_on CHR '':'' s)"

definition parse_ipv6 :: "string \<Rightarrow> nat list option" where
  "parse_ipv6 s = (case split_double s of
      None \<Rightarrow> (case ipv6_tail (split_on CHR '':'' s) of
        Some gs \<Rightarrow> if length gs = 8 then Some gs else None
      | None \<Rightarrow> None)
    | Some (l, r) \<Rightarrow> (case (all_some (map ipv6_group (side_groups l)), ipv6_tail (side_groups r)) of
        (Some a, Some b) \<Rightarrow> if length a + length b \<le> 7 then Some (a @ replicate (8 - (length a + length b)) 0 @ b) else None
      | _ \<Rightarrow> None))"

subsection \<open>The host name of a URL\<close>

fun hex_nat :: "nat \<Rightarrow> string" where
  "hex_nat n = (if n < 16 then [hex_digit n] else hex_nat (n div 16) @ [hex_digit (n mod 16)])"

declare hex_nat.simps [simp del]

text \<open>The first longest run of at least two zero groups: where it starts and its length.\<close>

fun longest_zeros :: "nat \<Rightarrow> nat list \<Rightarrow> (nat \<times> nat) option" where
  "longest_zeros i [] = None"
| "longest_zeros i (g # gs) =
     (let n = length (takeWhile (\<lambda>x. x = 0) (g # gs)) in
      case longest_zeros (i + 1) gs of
        None \<Rightarrow> if n \<ge> 2 then Some (i, n) else None
      | Some (j, m) \<Rightarrow> if n \<ge> m then Some (i, n) else Some (j, m))"

definition serialize_ipv6 :: "nat list \<Rightarrow> string" where
  "serialize_ipv6 gs = (case longest_zeros 0 gs of
      None \<Rightarrow> join_with '':'' (map hex_nat gs)
    | Some (i, n) \<Rightarrow> join_with '':'' (map hex_nat (take i gs)) @ ''::'' @ join_with '':'' (map hex_nat (drop (i + n) gs)))"

subsection \<open>Normalisation\<close>

text \<open>\<^verbatim>\<open>Number.parseInt\<close> of a group of the host name, which is a hexadecimal number or empty (NaN).\<close>

definition parse_group :: "string \<Rightarrow> nat option" where
  "parse_group g = (let p = takeWhile is_hex_char g in if p = [] then None else Some (parse_hex p))"

definition mappedIpv4Address :: "string \<Rightarrow> string option" where
  "mappedIpv4Address address =
     (if take 7 address \<noteq> ''::ffff:'' then None
      else case split_on CHR '':'' (drop 7 address) of
        [g, h] \<Rightarrow> (case (parse_group g, parse_group h) of
          (Some high, Some low) \<Rightarrow> if high > 65535 \<or> low > 65535 then None
            else Some (join_with ''.'' (map dec_nat [high div 256, high mod 256, low div 256, low mod 256]))
        | _ \<Rightarrow> None)
      | _ \<Rightarrow> None)"

definition normalizeIpAddress :: "string \<Rightarrow> string option" where
  "normalizeIpAddress value = (let address = js_trim value in
     if parse_ipv4 address \<noteq> None then Some address
     else case parse_ipv6 address of
       None \<Rightarrow> None
     | Some gs \<Rightarrow> (case mappedIpv4Address (serialize_ipv6 gs) of
          Some v4 \<Rightarrow> Some v4 | None \<Rightarrow> Some (serialize_ipv6 gs)))"

text \<open>\<^verbatim>\<open>trustedProxyCount\<close> is an integer of the configuration; \<^verbatim>\<open>None\<close> is an absent header.\<close>

definition getTrustedClientIp :: "string \<Rightarrow> string option \<Rightarrow> int \<Rightarrow> string option" where
  "getTrustedClientIp socketAddress forwardedFor trustedProxyCount = (case normalizeIpAddress socketAddress of
      None \<Rightarrow> None
    | Some canonicalSocketAddress \<Rightarrow>
        if trustedProxyCount = 0 then Some canonicalSocketAddress
        else (case forwardedFor of
          None \<Rightarrow> None
        | Some header \<Rightarrow>
            if \<not> is_safe_integer trustedProxyCount \<or> trustedProxyCount < 0 then None
            else (let proxyChain = map normalizeIpAddress (split_on CHR '','' header) in
              if int (length proxyChain) < trustedProxyCount \<or> None \<in> set proxyChain then None
              else proxyChain ! (length proxyChain - nat trustedProxyCount))))"

subsection \<open>Hexadecimal groups\<close>

lemma hex_digit_char: "n < 16 \<Longrightarrow> is_hex_char (hex_digit n) \<and> hex_char_value (hex_digit n) = n \<and> hex_digit n \<noteq> CHR '':'' \<and> hex_digit n \<noteq> CHR ''.''
    \<and> \<not> is_space (hex_digit n)"
proof -
  have "\<forall>n < 16. is_hex_char (hex_digit n) \<and> hex_char_value (hex_digit n) = n \<and> hex_digit n \<noteq> CHR '':'' \<and> hex_digit n \<noteq> CHR ''.''
    \<and> \<not> is_space (hex_digit n)" by code_simp
  thus "n < 16 \<Longrightarrow> ?thesis" by blast
qed

lemma hex_nat_chars: "\<forall>c \<in> set (hex_nat n). is_hex_char c \<and> c \<noteq> CHR '':'' \<and> c \<noteq> CHR ''.'' \<and> \<not> is_space c"
  by (induction n rule: hex_nat.induct) (subst hex_nat.simps, use hex_digit_char in auto)

lemma hex_nat_nonempty [simp]: "hex_nat n \<noteq> []"
  by (subst hex_nat.simps) simp

lemma parse_hex_nat [simp]: "parse_hex (hex_nat n) = n"
proof (induction n rule: hex_nat.induct)
  case (1 n)
  show ?case
  proof (cases "n < 16")
    case True
    thus ?thesis using hex_digit_char[of n] by (subst hex_nat.simps) (simp add: parse_hex_def)
  next
    case False
    have "parse_hex (hex_nat (n div 16) @ [hex_digit (n mod 16)]) = parse_hex (hex_nat (n div 16)) * 16 + n mod 16"
      using hex_digit_char[of "n mod 16"] by (simp add: parse_hex_def)
    thus ?thesis using False 1 by (subst hex_nat.simps) simp
  qed
qed

lemma hex_nat_length: "n < 16 ^ k \<Longrightarrow> 0 < k \<Longrightarrow> length (hex_nat n) \<le> k"
proof (induction n arbitrary: k rule: hex_nat.induct)
  case (1 n)
  show ?case
  proof (cases "n < 16")
    case False
    then obtain j where k: "k = Suc j" "0 < j" using 1(2,3) by (cases k; cases "k - 1") auto
    have "n div 16 < 16 ^ j" using 1(2) k by (simp add: less_mult_imp_div_less)
    thus ?thesis using 1(1)[OF False _ k(2)] False k by (subst hex_nat.simps) simp
  qed (use 1(3) in \<open>subst hex_nat.simps, simp\<close>)
qed

lemma group_hex_nat [simp]: "n < 65536 \<Longrightarrow> ipv6_group (hex_nat n) = Some n"
  using hex_nat_length[of n 4] hex_nat_chars[of n] by (simp add: ipv6_group_def)

subsection \<open>Splitting what was joined\<close>

lemma split_on_free: "c \<notin> set s \<Longrightarrow> split_on c s = [s]"
  by (induction s) auto

lemma split_on_app: "c \<notin> set s \<Longrightarrow> split_on c (s @ c # r) = s # split_on c r"
  by (induction s) auto

lemma split_join: "xs \<noteq> [] \<Longrightarrow> \<forall>x \<in> set xs. c \<notin> set x \<Longrightarrow> split_on c (join_with [c] xs) = xs"
  by (induction "[c]" xs rule: join_with.induct) (simp_all add: split_on_free split_on_app)

lemma all_some_map: "(\<And>x. x \<in> set xs \<Longrightarrow> f x = Some (g x)) \<Longrightarrow> all_some (map f xs) = Some (map g xs)"
  by (induction xs) auto

definition colon_free :: "string list \<Rightarrow> bool" where
  "colon_free xs \<longleftrightarrow> (\<forall>x \<in> set xs. x \<noteq> [] \<and> CHR '':'' \<notin> set x)"

lemma split_double_word: "CHR '':'' \<notin> set s \<Longrightarrow> split_double s = None"
  by (induction s rule: split_double.induct) auto

lemma split_double_word_app:
  "CHR '':'' \<notin> set s \<Longrightarrow> split_double r = None \<Longrightarrow> r \<noteq> [] \<Longrightarrow> hd r \<noteq> CHR '':'' \<Longrightarrow> split_double (s @ CHR '':'' # r) = None"
proof (induction s)
  case Nil
  thus ?case by (cases r) auto
next
  case (Cons a s)
  show ?case using Cons by (cases s) auto
qed

lemma split_double_found:
  "split_double s = None \<Longrightarrow> s = [] \<or> last s \<noteq> CHR '':'' \<Longrightarrow> split_double (s @ ''::'' @ r) = Some (s, r)"
proof (induction s rule: split_double.induct)
  case (1 a b cs)
  thus ?case by (auto split: if_splits)
qed auto

lemma join_colon_free:
  "colon_free xs \<Longrightarrow> split_double (join_with '':'' xs) = None \<and>
    (join_with '':'' xs = [] \<or> last (join_with '':'' xs) \<noteq> CHR '':'' \<and> hd (join_with '':'' xs) \<noteq> CHR '':'')
    \<and> (join_with '':'' xs = [] \<longleftrightarrow> xs = [])"
proof (induction "'':''" xs rule: join_with.induct)
  case (2 s)
  have m: "hd s \<in> set s" "last s \<in> set s" using 2 by (auto simp: colon_free_def)
  have "CHR '':'' \<notin> set s" using 2 by (simp add: colon_free_def)
  hence "hd s \<noteq> CHR '':''" "last s \<noteq> CHR '':''" using m by metis+
  thus ?case using 2 by (auto simp: colon_free_def split_double_word)
next
  case (3 s t ts)
  let ?r = "join_with '':'' (t # ts)"
  have r: "split_double ?r = None" "?r \<noteq> []" "last ?r \<noteq> CHR '':''" "hd ?r \<noteq> CHR '':''"
    using 3 by (auto simp: colon_free_def)
  have s: "CHR '':'' \<notin> set s" "s \<noteq> []" "hd s \<in> set s" using 3 by (auto simp: colon_free_def)
  have "hd s \<noteq> CHR '':''" using s by metis
  thus ?case using split_double_word_app[OF s(1) r(1,2,4)] r s by simp
qed simp

subsection \<open>The host name is read back\<close>

abbreviation groups_ok :: "nat list \<Rightarrow> bool" where
  "groups_ok gs \<equiv> \<forall>g \<in> set gs. g < 65536"

lemma no_ipv4_group: "parse_ipv4 (hex_nat n) = None"
proof -
  have "split_on CHR ''.'' (hex_nat n) = [hex_nat n]" using hex_nat_chars[of n] by (intro split_on_free) auto
  thus ?thesis by (cases "ipv4_octet (hex_nat n)") (simp_all add: parse_ipv4_def)
qed

lemma ipv6_tail_groups: "groups_ok gs \<Longrightarrow> ipv6_tail (map hex_nat gs) = Some gs"
proof (induction gs)
  case (Cons g gs)
  show ?case using Cons by (cases gs) (simp_all add: no_ipv4_group)
qed simp

lemma colon_free_groups: "colon_free (map hex_nat gs)"
  using hex_nat_chars by (fastforce simp: colon_free_def)

lemma side_groups_join: "side_groups (join_with '':'' (map hex_nat gs)) = map hex_nat gs"
  using join_colon_free[OF colon_free_groups[of gs]] split_join[of "map hex_nat gs" "CHR '':''"] hex_nat_chars
  by (auto simp: side_groups_def)

lemma longest_zeros_run:
  "longest_zeros i gs = Some (j, m) \<Longrightarrow> i \<le> j \<and> 2 \<le> m \<and> j - i + m \<le> length gs \<and> (\<forall>k < m. gs ! (j - i + k) = 0)"
proof (induction i gs arbitrary: j m rule: longest_zeros.induct)
  case (2 i g gs)
  let ?n = "length (takeWhile (\<lambda>x. x = 0) (g # gs))"
  have own: "?n \<le> length (g # gs)" "\<forall>k < ?n. (g # gs) ! k = 0"
    using length_takeWhile_le nth_length_takeWhile set_takeWhileD[of _ "\<lambda>x. x = 0" "g # gs"] takeWhile_nth
    by (metis, metis nth_mem)
  show ?case
  proof (cases "longest_zeros (i + 1) gs")
    case None
    thus ?thesis using 2(2) own by (auto simp: Let_def split: if_splits)
  next
    case (Some jm)
    obtain j' m' where jm: "longest_zeros (i + 1) gs = Some (j', m')" using Some by (cases jm) auto
    have IH: "i + 1 \<le> j' \<and> 2 \<le> m' \<and> j' - (i + 1) + m' \<le> length gs \<and> (\<forall>k < m'. gs ! (j' - (i + 1) + k) = 0)"
      by (rule 2(1)[OF refl jm])
    show ?thesis
    proof (cases "?n \<ge> m'")
      case True
      hence "j = i" "m = ?n" using 2(2) jm by (simp_all add: Let_def)
      thus ?thesis using own IH True by auto
    next
      case False
      hence "j = j'" "m = m'" using 2(2) jm by (simp_all add: Let_def)
      moreover have "(g # gs) ! (j' - i + k) = gs ! (j' - (i + 1) + k)" for k
      proof -
        have "j' - i + k = Suc (j' - (i + 1) + k)" using conjunct1[OF IH] by arith
        thus ?thesis by simp
      qed
      ultimately show ?thesis using IH by auto
    qed
  qed
qed simp

text \<open>The parser of \<^verbatim>\<open>isIP\<close> and of the host name reads back what the serialiser writes.\<close>

lemma parse_serialize:
  assumes "length gs = 8" "groups_ok gs"
  shows "parse_ipv6 (serialize_ipv6 gs) = Some gs"
proof (cases "longest_zeros 0 gs")
  case None
  have ne: "map hex_nat gs \<noteq> []" using assms(1) by auto
  have "split_on CHR '':'' (join_with '':'' (map hex_nat gs)) = map hex_nat gs"
    by (rule split_join[OF ne]) (use hex_nat_chars in auto)
  thus ?thesis using None assms join_colon_free[OF colon_free_groups[of gs]] ipv6_tail_groups[OF assms(2)]
    by (simp add: parse_ipv6_def serialize_ipv6_def)
next
  case (Some jm)
  then obtain i m where im: "longest_zeros 0 gs = Some (i, m)" by (cases jm) auto
  have run: "2 \<le> m" "i + m \<le> 8" "\<forall>k < m. gs ! (i + k) = 0" using longest_zeros_run[OF im] assms(1) by auto
  let ?l = "take i gs" and ?r = "drop (i + m) gs"
  have l: "length ?l = i" "length ?r = 8 - (i + m)" "groups_ok ?l" "groups_ok ?r"
    using run assms by (auto dest: in_set_takeD in_set_dropD)
  have "gs = ?l @ replicate m 0 @ ?r"
  proof (rule nth_equalityI)
    show "length gs = length (?l @ replicate m 0 @ ?r)" using run assms(1) by simp
    fix k assume "k < length gs"
    thus "gs ! k = (?l @ replicate m 0 @ ?r) ! k"
      using run assms(1) l run(3)[rule_format, of "k - i"] by (auto simp: nth_append)
  qed
  moreover have "split_double (serialize_ipv6 gs) = Some (join_with '':'' (map hex_nat ?l), join_with '':'' (map hex_nat ?r))"
    using split_double_found[of "join_with '':'' (map hex_nat ?l)" "join_with '':'' (map hex_nat ?r)"]
      join_colon_free[OF colon_free_groups[of ?l]] im unfolding serialize_ipv6_def by auto
  moreover have "all_some (map ipv6_group (map hex_nat ?l)) = Some (map (\<lambda>g. g) ?l)"
    using l(3) all_some_map[of "?l" "\<lambda>g. ipv6_group (hex_nat g)" "\<lambda>g. g"] by (simp add: comp_def)
  ultimately show ?thesis
    using l run ipv6_tail_groups[OF l(4)] by (simp add: parse_ipv6_def side_groups_join)
qed

lemma all_some_Some: "all_some os = Some xs \<Longrightarrow> os = map Some xs"
  by (induction os arbitrary: xs rule: all_some.induct) auto

lemma parse_hex_bound: "\<forall>c \<in> set s. is_hex_char c \<Longrightarrow> parse_hex s < 16 ^ length s"
proof (induction s rule: rev_induct)
  case (snoc c s)
  have v: "hex_char_value c < 16"
  proof -
    have c: "is_hex_char c" using snoc.prems by simp
    show ?thesis
    proof (cases "is_digit c")
      case True
      thus ?thesis using digit_value_less[of c] by (simp add: hex_char_value_def)
    next
      case False
      hence "c \<in> set ''abcdefABCDEF''" using c by (simp add: is_hex_char_def)
      thus ?thesis using False by (auto simp: hex_char_value_def)
    qed
  qed
  have "parse_hex (s @ [c]) = parse_hex s * 16 + hex_char_value c" by (simp add: parse_hex_def)
  also have "\<dots> < 16 ^ length s * 16" using v snoc by simp
  finally show ?case by simp
qed (simp add: parse_hex_def)

lemma ipv6_group_bound: "ipv6_group g = Some n \<Longrightarrow> n < 65536"
proof -
  assume g: "ipv6_group g = Some n"
  hence "n = parse_hex g" "length g \<le> 4" "\<forall>c \<in> set g. is_hex_char c" by (auto simp: ipv6_group_def split: if_splits)
  hence "n < 16 ^ length g" "16 ^ length g \<le> (16 ^ 4 :: nat)" using parse_hex_bound power_increasing[of "length g" 4 "16 :: nat"] by auto
  thus ?thesis by simp
qed

lemma ipv4_octets: "parse_ipv4 s = Some gs \<Longrightarrow> length gs = 4 \<and> (\<forall>g \<in> set gs. g < 256)"
proof -
  assume p: "parse_ipv4 s = Some gs"
  then obtain a b c d where gs: "gs = [a, b, c, d]" "all_some (map ipv4_octet (split_on CHR ''.'' s)) = Some [a, b, c, d]"
    by (auto simp: parse_ipv4_def split: option.splits list.splits)
  have "set (map ipv4_octet (split_on CHR ''.'' s)) = Some ` set gs" using all_some_Some[OF gs(2)] gs(1) by simp
  hence "g \<in> set gs \<Longrightarrow> \<exists>x. ipv4_octet x = Some g" for g by (metis imageE imageI set_map)
  hence "g \<in> set gs \<Longrightarrow> g < 256" for g by (fastforce simp: ipv4_octet_def split: if_splits)
  thus ?thesis using gs by simp
qed

lemma ipv6_tail_bound: "ipv6_tail ps = Some gs \<Longrightarrow> groups_ok gs"
proof (induction ps arbitrary: gs rule: ipv6_tail.induct)
  case (2 g)
  thus ?case using ipv4_octets[of g] ipv6_group_bound[of g] by (fastforce split: option.splits list.splits)
qed (auto dest: ipv6_group_bound split: option.splits)

lemma parse_ipv6_groups: "parse_ipv6 s = Some gs \<Longrightarrow> length gs = 8 \<and> groups_ok gs"
proof -
  assume p: "parse_ipv6 s = Some gs"
  have sides: "groups_ok a" if "all_some (map ipv6_group ps) = Some a" for ps a
  proof -
    have "set (map ipv6_group ps) = Some ` set a" using all_some_Some[OF that] by simp
    hence "g \<in> set a \<Longrightarrow> \<exists>x. ipv6_group x = Some g" for g by (metis imageE imageI set_map)
    thus ?thesis using ipv6_group_bound by blast
  qed
  show ?thesis using p
    by (auto simp: parse_ipv6_def split: option.splits prod.splits if_splits) (use ipv6_tail_bound sides in blast)+
qed

subsection \<open>Normal forms\<close>

lemma join_with_set: "set (join_with g xs) \<subseteq> \<Union> (set ` set xs) \<union> set g"
  by (induction g xs rule: join_with.induct) auto

lemma canonical_digits: "canonical_decimal g \<Longrightarrow> \<forall>c \<in> set g. is_digit c"
  by (cases g) (auto simp: is_digit_def split: if_splits)

lemma ipv4_chars: "parse_ipv4 s = Some gs \<Longrightarrow> \<forall>c \<in> set s. is_digit c \<or> c = CHR ''.''"
proof
  fix c assume p: "parse_ipv4 s = Some gs" and c: "c \<in> set s"
  let ?ps = "split_on CHR ''.'' s"
  obtain vs where "all_some (map ipv4_octet ?ps) = Some vs" using p by (auto simp: parse_ipv4_def split: option.splits)
  hence "map ipv4_octet ?ps = map Some vs" by (rule all_some_Some)
  hence "set (map ipv4_octet ?ps) = Some ` set vs" by simp
  hence "x \<in> set ?ps \<Longrightarrow> \<exists>v. ipv4_octet x = Some v" for x by (metis imageE imageI set_map)
  hence d: "x \<in> set ?ps \<Longrightarrow> \<forall>c \<in> set x. is_digit c" for x
    by (intro canonical_digits) (fastforce simp: ipv4_octet_def split: if_splits)
  have "c \<in> \<Union> (set ` set ?ps) \<union> {CHR ''.''}" using join_with_set[of "[CHR ''.'']" ?ps] c by auto
  thus "is_digit c \<or> c = CHR ''.''" using d by auto
qed

lemma join_with_hd_last: "\<forall>x \<in> set xs. x \<noteq> [] \<Longrightarrow> xs \<noteq> [] \<Longrightarrow>
    join_with g xs \<noteq> [] \<and> hd (join_with g xs) = hd (hd xs) \<and> last (join_with g xs) = last (last xs)"
  by (induction g xs rule: join_with.induct) (auto simp: hd_append)

lemma trim_no_space: "s \<noteq> [] \<Longrightarrow> \<forall>c \<in> set s. \<not> is_space c \<Longrightarrow> js_trim s = s"
  by (rule js_trim_id) auto

lemma serialize_chars:
  "\<forall>c \<in> set (serialize_ipv6 gs). \<not> is_space c" "length gs = 8 \<Longrightarrow> CHR '':'' \<in> set (serialize_ipv6 gs)"
proof -
  have colon: "\<not> is_space CHR '':''" by (simp add: is_space_def)
  have j: "\<not> is_space c" if "c \<in> set (join_with '':'' (map hex_nat hs))" for c hs
  proof -
    have "c \<in> \<Union> (set ` set (map hex_nat hs)) \<union> set '':''" using that join_with_set by blast
    thus ?thesis using hex_nat_chars colon by auto
  qed
  show "\<forall>c \<in> set (serialize_ipv6 gs). \<not> is_space c"
  proof (cases "longest_zeros 0 gs")
    case None
    thus ?thesis using j by (simp add: serialize_ipv6_def)
  next
    case (Some im)
    have "x \<in> set (serialize_ipv6 gs) \<Longrightarrow> x = CHR '':'' \<or> (\<exists>hs. x \<in> set (join_with '':'' (map hex_nat hs)))" for x
      using Some by (cases im) (auto simp: serialize_ipv6_def)
    thus ?thesis using j colon by blast
  qed
  assume "length gs = 8"
  then obtain a b r where gs: "gs = a # b # r" by (cases gs; cases "tl gs") auto
  show "CHR '':'' \<in> set (serialize_ipv6 gs)"
  proof (cases "longest_zeros 0 gs")
    case None
    have "CHR '':'' \<in> set (join_with '':'' (hex_nat a # hex_nat b # map hex_nat r))" by simp
    thus ?thesis using None gs by (simp add: serialize_ipv6_def del: longest_zeros.simps)
  next
    case (Some im)
    thus ?thesis by (cases im) (simp add: serialize_ipv6_def)
  qed
qed

lemma colon_not_ipv4: "CHR '':'' \<in> set s \<Longrightarrow> parse_ipv4 s = None"
  using ipv4_chars[of s] by (cases "parse_ipv4 s") (auto simp: is_digit_def)

definition dotted :: "nat list \<Rightarrow> string" where
  "dotted gs = join_with ''.'' (map dec_nat gs)"

lemma dotted_ipv4:
  assumes "length gs = 4" "\<forall>g \<in> set gs. g < 256"
  shows "parse_ipv4 (dotted gs) = Some gs" "js_trim (dotted gs) = dotted gs"
proof -
  have free: "CHR ''.'' \<notin> set (dec_nat n)" for n using dec_nat_digits[of n] by (auto simp: is_digit_def)
  have ne: "gs \<noteq> []" using assms(1) by auto
  have "split_on CHR ''.'' (dotted gs) = map dec_nat gs" unfolding dotted_def
    by (rule split_join) (use ne free in auto)
  moreover have "all_some (map ipv4_octet (map dec_nat gs)) = Some gs"
  proof -
    have "ipv4_octet (dec_nat g) = Some g" if "g \<in> set gs" for g
      using that assms(2) by (auto simp: ipv4_octet_def)
    thus ?thesis using all_some_map[of gs "\<lambda>n. ipv4_octet (dec_nat n)" "\<lambda>n. n"] by (simp add: comp_def)
  qed
  moreover obtain a b c d where "gs = [a, b, c, d]"
    using assms(1) by (auto simp: length_Suc_conv numeral_eq_Suc)
  ultimately show p: "parse_ipv4 (dotted gs) = Some gs" by (simp add: parse_ipv4_def)
  have "dotted gs \<noteq> []" unfolding dotted_def using join_with_hd_last[of "map dec_nat gs" "''.''"] ne by auto
  thus "js_trim (dotted gs) = dotted gs" using ipv4_chars[OF p] by (intro trim_no_space) (auto simp: is_digit_def is_space_def)
qed

lemma mapped_dotted: "mappedIpv4Address s = Some v \<Longrightarrow> \<exists>gs. v = dotted gs \<and> length gs = 4 \<and> (\<forall>g \<in> set gs. g < 256)"
proof -
  assume m: "mappedIpv4Address s = Some v"
  obtain h l where "h \<le> 65535" "l \<le> 65535" "v = dotted [h div 256, h mod 256, l div 256, l mod 256]"
    using m unfolding dotted_def
    by (auto simp: mappedIpv4Address_def not_less simp del: join_with.simps list.map split: if_splits list.splits option.splits)
  moreover have "h div 256 < 256" "l div 256 < 256" using calculation by auto
  ultimately show ?thesis by (intro exI[of _ "[h div 256, h mod 256, l div 256, l mod 256]"]) auto
qed

lemma normalize_trimmed: "parse_ipv4 s \<noteq> None \<Longrightarrow> js_trim s = s \<Longrightarrow> normalizeIpAddress s = Some s"
  by (simp add: normalizeIpAddress_def)

lemma trim_idem: "js_trim (js_trim s) = js_trim s"
proof -
  let ?t = "dropWhile is_space s"
  have "js_trim s \<noteq> [] \<Longrightarrow> \<not> is_space (last (js_trim s))" unfolding js_trim_def
    by (metis hd_dropWhile hd_rev last_rev rev_is_Nil_conv rev_rev_ident dropWhile_eq_Nil_conv)
  moreover have "js_trim s \<noteq> [] \<Longrightarrow> \<not> is_space (hd (js_trim s))"
  proof -
    assume ne: "js_trim s \<noteq> []"
    obtain r where "?t = js_trim s @ r" unfolding js_trim_def
      by (metis rev_append rev_rev_ident takeWhile_dropWhile_id)
    hence "hd (js_trim s) = hd ?t" "?t \<noteq> []" using ne by auto
    thus "\<not> is_space (hd (js_trim s))" using hd_dropWhile by metis
  qed
  ultimately show ?thesis by (cases "js_trim s = []") (simp_all add: js_trim_id, simp add: js_trim_def)
qed

lemma ip_normalize_normal:
  assumes "normalizeIpAddress s = Some a"
  shows "normalizeIpAddress a = Some a \<and>
      ((\<exists>gs. parse_ipv4 a = Some gs) \<or> (\<exists>gs. parse_ipv6 a = Some gs \<and> a = serialize_ipv6 gs))"
proof (cases "parse_ipv4 (js_trim s)")
  case (Some gs)
  hence "a = js_trim s" using assms by (simp add: normalizeIpAddress_def)
  thus ?thesis using Some normalize_trimmed[of a] trim_idem by auto
next
  case None
  obtain gs where gs: "parse_ipv6 (js_trim s) = Some gs"
    using assms None by (auto simp: normalizeIpAddress_def split: option.splits)
  have ok: "length gs = 8" "groups_ok gs" using parse_ipv6_groups[OF gs] by auto
  let ?h = "serialize_ipv6 gs"
  show ?thesis
  proof (cases "mappedIpv4Address ?h")
    case (Some v)
    hence "a = v" using assms None gs by (simp add: normalizeIpAddress_def)
    then obtain os where "a = dotted os" "length os = 4" "\<forall>g \<in> set os. g < 256" using mapped_dotted[OF Some] by blast
    thus ?thesis using dotted_ipv4[of os] normalize_trimmed[of a] by auto
  next
    case no: None
    hence a: "a = ?h" using assms None gs by (simp add: normalizeIpAddress_def)
    have t: "js_trim ?h = ?h" using serialize_chars(1)[of gs] serialize_chars(2)[OF ok(1)] by (intro trim_no_space) auto
    have p: "parse_ipv4 ?h = None" "parse_ipv6 ?h = Some gs"
      using colon_not_ipv4[OF serialize_chars(2)[OF ok(1)]] parse_serialize[OF ok] by auto
    show ?thesis using a t p no by (simp add: normalizeIpAddress_def)
  qed
qed

lemma ipv4_not_ipv6: "parse_ipv6 s = Some gs \<Longrightarrow> parse_ipv4 s = None"
proof (rule ccontr)
  assume p: "parse_ipv6 s = Some gs" and "parse_ipv4 s \<noteq> None"
  then obtain os where os: "parse_ipv4 s = Some os" by blast
  hence c: "CHR '':'' \<notin> set s" using ipv4_chars[OF os] by (auto simp: is_digit_def)
  obtain a b c d where "os = [a, b, c, d]" using ipv4_octets[OF os] by (auto simp: length_Suc_conv numeral_eq_Suc)
  thus False using p os by (simp add: parse_ipv6_def split_double_word[OF c] split_on_free[OF c])
qed


text \<open>C29. The address behind trusted proxies is the socket's address or the header's entry at the
  configured distance from its end: entries a client puts in front of the header cannot
  choose it, they can at most make the request be refused.\<close>

theorem trusted_ip_not_spoofable:
  assumes "getTrustedClientIp sock (Some header) n = Some ip" "n \<noteq> 0"
  shows "getTrustedClientIp sock (Some (forged @ '','' @ header)) n \<in> {Some ip, None} \<and>
    normalizeIpAddress (split_on CHR '','' header ! (length (split_on CHR '','' header) - nat n)) = Some ip \<and>
    normalizeIpAddress ip = Some ip"
proof -
  let ?c = "map normalizeIpAddress (split_on CHR '','' header)" and ?f = "map normalizeIpAddress (split_on CHR '','' (forged @ '','' @ header))"
  have split: "split_on CHR '','' (xs @ CHR '','' # ys) = split_on CHR '','' xs @ split_on CHR '','' ys" for xs ys
    by (induction xs) (auto split: list.splits)
  obtain k where k: "n = int k" "0 < k" "k \<le> length ?c" "None \<notin> set ?c" "?c ! (length ?c - k) = Some ip"
    "is_safe_integer n" "normalizeIpAddress sock \<noteq> None"
    using assms by (cases n) (auto simp: getTrustedClientIp_def Let_def split: option.splits if_splits)
  have f: "?f = map normalizeIpAddress (split_on CHR '','' forged) @ ?c" by (simp add: split)
  have "length (map normalizeIpAddress (split_on CHR '','' forged)) \<le> length ?f - k"
    "length ?f - k - length (map normalizeIpAddress (split_on CHR '','' forged)) = length ?c - k"
    using k(3) unfolding f by simp_all
  hence "?f ! (length ?f - k) = ?c ! (length ?c - k)" unfolding f nth_append by auto
  hence "getTrustedClientIp sock (Some (forged @ '','' @ header)) n \<in> {Some ip, None}"
    using k by (auto simp: getTrustedClientIp_def Let_def split: option.splits)
  moreover have "Some ip \<in> set ?c" using k(2,3,5) by (metis diff_less length_greater_0_conv less_le_trans nth_mem)
  moreover have "normalizeIpAddress (split_on CHR '','' header ! (length (split_on CHR '','' header) - nat n)) = Some ip"
    using k by simp
  ultimately show ?thesis using ip_normalize_normal by auto
qed

lemma normalize_examples: "normalizeIpAddress ''10.0.0.1'' = Some ''10.0.0.1''" "normalizeIpAddress ''6.6.6.6'' = Some ''6.6.6.6''"
    "normalizeIpAddress '' 2.2.2.2'' = Some ''2.2.2.2''"
proof -
  have t: "js_trim ''10.0.0.1'' = ''10.0.0.1''" "js_trim ''6.6.6.6'' = ''6.6.6.6''" "js_trim '' 2.2.2.2'' = ''2.2.2.2''" by code_simp+
  have p: "parse_ipv4 ''10.0.0.1'' = Some [10, 0, 0, 1]" "parse_ipv4 ''6.6.6.6'' = Some [6, 6, 6, 6]" "parse_ipv4 ''2.2.2.2'' = Some [2, 2, 2, 2]"
    by code_simp+
  show "normalizeIpAddress ''10.0.0.1'' = Some ''10.0.0.1''" "normalizeIpAddress ''6.6.6.6'' = Some ''6.6.6.6''"
    "normalizeIpAddress '' 2.2.2.2'' = Some ''2.2.2.2''" by (simp_all add: normalizeIpAddress_def t p)
qed


lemma trusted_ip_not_spoofable_witness:
  "getTrustedClientIp ''10.0.0.1'' (Some ''6.6.6.6, 2.2.2.2'') 1 \<in> {Some ''2.2.2.2'', None}"
proof -
  have "getTrustedClientIp ''10.0.0.1'' (Some '' 2.2.2.2'') 1 = Some ''2.2.2.2''"
    using normalize_examples by (simp add: getTrustedClientIp_def is_safe_integer_def max_safe_integer_def)
  from trusted_ip_not_spoofable[OF this, of "''6.6.6.6''"] show ?thesis by simp
qed

end
