(* ===== verification/Session_Modules.thy ===== *)
theory Session_Modules
  imports Session_Durable Ip_Address Faucet_Outflow
begin

text \<open>
  The environment of a session made of the modelled modules: the admission limits, the two
  outflow modules and the address normalisation.  The modules share the database and the
  admission ledger with the session, and the clock they read is part of their state.  They
  fulfil the contract \<^verbatim>\<open>session_hooks\<close>, so the theorems on sessions hold for them.
\<close>

subsection \<open>The hooks\<close>

record faucet_modules =
  fm_clock :: int
  fm_concurrency :: "concurrency_config option"
  fm_recurring :: "recurring_limit list"
  fm_outflow :: outflow_world
  fm_dynConfig :: dyn_config
  fm_dynamic :: dyn_world

text \<open>What the limit modules read of a session.\<close>

fun json_strings :: "js_value \<Rightarrow> string list" where
  "json_strings (JArr vs) = concat (map (\<lambda>v. case string_value v of None \<Rightarrow> [] | Some s \<Rightarrow> [s]) vs)"
| "json_strings _ = []"

definition skip_modules :: "faucet_session \<Rightarrow> string list" where
  "skip_modules s = (case js_get (fs_data s) ''skip.modules'' of None \<Rightarrow> [] | Some v \<Rightarrow> json_strings v)"

fun number_value :: "js_value \<Rightarrow> rat option" where
  "number_value (JNum (Fin q)) = Some q"
| "number_value _ = None"

definition limit_view :: "faucet_session \<Rightarrow> limit_session" where
  "limit_view s = \<lparr>ls_id = fs_sessionId s, ls_remoteIp = fs_remoteIP s,
     ls_targetAddr = (case fs_targetAddr s of None \<Rightarrow> [] | Some a \<Rightarrow> a), ls_skipModules = skip_modules s,
     ls_recurringFactor = (case js_get (fs_data s) ''recurring-limits.factor'' of None \<Rightarrow> None | Some v \<Rightarrow> number_value v)\<rparr>"

fun limit_failure :: "limit_error \<Rightarrow> session_error" where
  "limit_failure (PublicError code message) = FaucetErr code message"
| "limit_failure (InternalError message) = GenericErr message"
| "limit_failure (LedgerError e) = LedgerErr e"

fun outflow_failure :: "outflow_error \<Rightarrow> session_error" where
  "outflow_failure (DbFailure e) = DbErr e"
| "outflow_failure UncertainWrite = GenericErr ''outflow write is uncertain''"
| "outflow_failure Diverged = GenericErr ''outflow state diverged''"
| "outflow_failure (InvalidState message) = GenericErr message"
| "outflow_failure FuelExhausted = GenericErr ''outflow compare-and-set did not settle''"

definition concurrency_hook :: "(faucet_modules, unit) session_op" where
  "concurrency_hook w = (case concurrency_processSessionStart ''concurrency-limit'' (fm_concurrency (sw_modules w))
       (limit_view (sw_session w)) (sw_ledger w) of
     Inl e \<Rightarrow> (Inl (limit_failure e), w) | Inr _ \<Rightarrow> (Inr (), w))"

text \<open>The finished sessions of every prepared check, then the checks in order.\<close>

primrec finished_sessions :: "int \<Rightarrow> limit_check list \<Rightarrow> (faucet_modules, store_data list list) session_op" where
  "finished_sessions now [] = p_return []"
| "finished_sessions now (c # cs) = (let q = lc_query c in
     p_bind (on_db (getFinishedSessions now (fq_targetAddr q) (fq_remoteIp q) (fq_duration q) True)) (\<lambda>ds.
     p_bind (finished_sessions now cs) (\<lambda>dss. p_return (ds # dss))))"

definition finished_amount :: "store_data \<Rightarrow> finished_session" where
  "finished_amount d = (sd_sessionId d, (case bigint_of_string (sd_dropAmount d) of None \<Rightarrow> 0 | Some i \<Rightarrow> i))"

primrec recurring_check_all ::
  "(int \<Rightarrow> string) \<Rightarrow> (limit_check \<times> store_data list) list \<Rightarrow> (faucet_modules, unit) session_op" where
  "recurring_check_all readableAmount [] = p_return ()"
| "recurring_check_all readableAmount (x # xs) =
     p_bind (get_session limit_view) (\<lambda>session.
     case recurring_checkLimit readableAmount session (lc_limit (fst x)) (map finished_amount (snd x)) (lc_priorUsage (fst x)) of
       Inl e \<Rightarrow> p_throw (limit_failure e)
     | Inr session' \<Rightarrow>
        p_then (if ls_recurringFactor session' = ls_recurringFactor session then p_return ()
            else setSessionData ''recurring-limits.factor'' (JNum (case ls_recurringFactor session' of None \<Rightarrow> NaN | Some q \<Rightarrow> Fin q)))
          (recurring_check_all readableAmount xs))"

definition recurring_hook :: "(int \<Rightarrow> string) \<Rightarrow> (faucet_modules, unit) session_op" where
  "recurring_hook readableAmount = p_bind (p_get id) (\<lambda>w.
     if ''recurring-limits'' \<in> set (skip_modules (sw_session w)) then p_return ()
     else case prepare_checks (fm_clock (sw_modules w)) (limit_view (sw_session w)) (fm_recurring (sw_modules w)) (sw_ledger w) of
       (failure, checks, L) \<Rightarrow>
         p_then (p_modify (\<lambda>w. w\<lparr>sw_ledger := L\<rparr>))
          (case failure of
             Some e \<Rightarrow> p_throw (LedgerErr e)
           | None \<Rightarrow> p_bind (finished_sessions (fm_clock (sw_modules w)) checks) (\<lambda>dss.
               recurring_check_all readableAmount (zip checks dss))))"

definition recurring_restore_hook :: "(faucet_modules, unit) session_op" where
  "recurring_restore_hook w = (case restoreSessionReservations ''recurring-limits'' (fm_recurring (sw_modules w))
       (limit_view (sw_session w)) (sw_ledger w) of
     Inl e \<Rightarrow> (Inl (LedgerErr e), w) | Inr L \<Rightarrow> (Inr (), w\<lparr>sw_ledger := L\<rparr>))"

text \<open>A hook of a module that keeps its own world, run on the session's database.\<close>

definition outflow_view :: "faucet_modules session_world \<Rightarrow> outflow_world" where
  "outflow_view w = (fm_outflow (sw_modules w))\<lparr>ow_db := sw_db w\<rparr>"

definition put_outflow :: "outflow_world \<Rightarrow> faucet_modules session_world \<Rightarrow> faucet_modules session_world" where
  "put_outflow o' w = w\<lparr>sw_db := ow_db o', sw_modules := (sw_modules w)\<lparr>fm_outflow := o'\<rparr>\<rparr>"

definition dynamic_view :: "faucet_modules session_world \<Rightarrow> dyn_world" where
  "dynamic_view w = (fm_dynamic (sw_modules w))\<lparr>dw_db := sw_db w\<rparr>"

definition put_dynamic :: "dyn_world \<Rightarrow> faucet_modules session_world \<Rightarrow> faucet_modules session_world" where
  "put_dynamic d w = w\<lparr>sw_db := dw_db d, sw_modules := (sw_modules w)\<lparr>fm_dynamic := d\<rparr>\<rparr>"

fun hook_failure :: "outflow_error + unit \<Rightarrow> session_error option" where
  "hook_failure (Inl e) = Some (outflow_failure e)"
| "hook_failure (Inr _) = None"

definition outflow_rewarded_hook :: "int \<Rightarrow> faucet_modules reward_hook" where
  "outflow_rewarded_hook amount rw = (case rw of (w, factors) \<Rightarrow>
     (case updateState ''faucet-outflow'' (fm_clock (sw_modules w)) (Some (skip_modules (sw_session w))) amount (outflow_view w) of
        (r, o') \<Rightarrow> ((hook_failure r, []), (put_outflow o' w, factors))))"

definition outflow_factor_hook :: "(rat \<Rightarrow> rat) \<Rightarrow> faucet_modules reward_hook" where
  "outflow_factor_hook rnd rw = (case rw of (w, factors) \<Rightarrow>
     (case processSessionRewardFactor rnd ''faucet-outflow'' (fm_clock (sw_modules w)) (skip_modules (sw_session w)) (outflow_view w) factors of
        (factors', o') \<Rightarrow> ((None, []), (put_outflow o' w, factors'))))"

definition dynamic_rewarded_hook :: "int \<Rightarrow> faucet_modules reward_hook" where
  "dynamic_rewarded_hook amount rw = (case rw of (w, factors) \<Rightarrow>
     (case dyn_processSessionRewarded ''dynamic-outflow'' (fm_dynConfig (sw_modules w)) (fm_clock (sw_modules w))
         (Some (skip_modules (sw_session w))) amount (dynamic_view w) of
        (r, d) \<Rightarrow> ((hook_failure r, []), (put_dynamic d w, factors))))"

definition dynamic_factor_hook :: "(rat \<Rightarrow> rat) \<Rightarrow> faucet_modules reward_hook" where
  "dynamic_factor_hook rnd rw = (case rw of (w, factors) \<Rightarrow>
     (case dyn_processSessionRewardFactor rnd ''dynamic-outflow'' (fm_dynConfig (sw_modules w)) (fm_clock (sw_modules w))
         (skip_modules (sw_session w)) (dynamic_view w) factors of
        (factors', d) \<Rightarrow> ((None, []), (put_dynamic d w, factors'))))"

definition recurring_factor_hook :: "faucet_modules reward_hook" where
  "recurring_factor_hook rw = ((None, []),
     (fst rw, recurring_processRewardFactor ''recurring-limits'' (limit_view (sw_session (fst rw))) (snd rw)))"

subsection \<open>The environment\<close>

record session_config =
  sc_maxDropAmount :: int
  sc_minDropAmount :: int
  sc_sessionTimeout :: int
  sc_denyNewSessions :: "string option"
  sc_modulesReady :: bool

text \<open>\<^verbatim>\<open>rnd\<close> rounds an exact result to the next double, \<^verbatim>\<open>readable\<close> renders an amount.  None of these
  modules has a SessionComplete hook; the theorems that depend on such hooks of other modules take them as an argument.\<close>

definition module_env :: "(rat \<Rightarrow> rat) \<Rightarrow> (int \<Rightarrow> string) \<Rightarrow> session_config \<Rightarrow> faucet_modules session_env" where
  "module_env rnd readable cfg = \<lparr>se_maxDropAmount = sc_maxDropAmount cfg, se_minDropAmount = sc_minDropAmount cfg,
     se_sessionTimeout = sc_sessionTimeout cfg, se_denyNewSessions = sc_denyNewSessions cfg, se_modulesReady = sc_modulesReady cfg,
     se_normalizeIp = normalizeIpAddress, se_round = (\<lambda>q. Fin (rnd q)),
     se_onStart = (\<lambda>_. [(7, concurrency_hook), (7, recurring_hook readable)]),
     se_onRestore = [(7, recurring_restore_hook)],
     se_onIpChange = [(6, concurrency_hook)],
     se_onComplete = [],
     se_onFactor = [(5, dynamic_factor_hook rnd), (5, outflow_factor_hook rnd), (6, recurring_factor_hook)],
     se_onRewarded = (\<lambda>amount. [(5, dynamic_rewarded_hook amount), (5, outflow_rewarded_hook amount)]),
     se_rollback = (\<lambda>_. p_return ())\<rparr>"

subsection \<open>The modules keep the contract\<close>

lemma keeps_db_core:
  assumes "db_sessions db = db_sessions (sw_db w)"
  shows "same_core w (w\<lparr>sw_db := db, sw_modules := m\<rparr>)"
  using assms by (simp add: same_core_def distinct_ids_def own_row_def row_at_def)

definition preserves :: "('w \<Rightarrow> 'b) \<Rightarrow> ('w, 'e, 'a) proc \<Rightarrow> bool" where
  "preserves f m \<longleftrightarrow> (\<forall>w. wp m (\<lambda>_ w'. f w' = f w) (\<lambda>_ w'. f w' = f w) w)"

named_theorems preserves_intros \<open>procedures that leave a view of the world alone\<close>

lemma preservesD: "preserves f m \<Longrightarrow> wp m (\<lambda>_ w'. f w' = f w) (\<lambda>_ w'. f w' = f w) w"
  by (simp add: preserves_def)

lemma preserves_simple [preserves_intros]: "preserves f (p_return a)" "preserves f (p_throw e)" "preserves f (p_get g)" "preserves f (p_lift r)"
  by (auto simp: preserves_def wp_simps split: sum.split)

lemma preserves_modify [preserves_intros]: "(\<And>w. f (g w) = f w) \<Longrightarrow> preserves f (p_modify g)"
  by (simp add: preserves_def wp_simps)

lemma preserves_bind [preserves_intros]: "preserves f m \<Longrightarrow> (\<And>a. preserves f (g a)) \<Longrightarrow> preserves f (p_bind m g)"
  unfolding preserves_def wp_bind by (intro allI, rule wp_mono) (fastforce intro: wp_mono)+

lemma preserves_then [preserves_intros]: "preserves f m \<Longrightarrow> preserves f n \<Longrightarrow> preserves f (p_then m n)"
  unfolding p_then_def by (rule preserves_bind)

lemma preserves_catch [preserves_intros]: "preserves f m \<Longrightarrow> (\<And>e. preserves f (h e)) \<Longrightarrow> preserves f (p_catch m h)"
  unfolding preserves_def wp_catch by (intro allI, rule wp_mono) (fastforce intro: wp_mono)+

lemma preserves_when [preserves_intros]: "preserves f m \<Longrightarrow> preserves f (p_when b m)"
  unfolding p_when_def by (simp add: preserves_intros)

lemma preserves_if [preserves_intros]: "(b \<Longrightarrow> preserves f m) \<Longrightarrow> (\<not> b \<Longrightarrow> preserves f n) \<Longrightarrow> preserves f (if b then m else n)"
  by simp

lemma preserves_out_db [preserves_intros]:
  assumes "preserves db_sessions m"
  shows "preserves (\<lambda>w. db_sessions (ow_db w)) (out_db m)"
  unfolding preserves_def out_db_def wp_simps
  by (intro allI wp_mono[OF preservesD[OF assms]]) auto

lemma preserves_dyn_db [preserves_intros]:
  assumes "preserves db_sessions m"
  shows "preserves (\<lambda>w. db_sessions (dw_db w)) (dyn_db m)"
  unfolding preserves_def dyn_db_def wp_simps
  by (intro allI wp_mono[OF preservesD[OF assms]]) auto

lemma preserves_kv [preserves_intros]: "preserves db_sessions (getKeyValueEntry k)" "preserves db_sessions (setKeyValueEntry k v)"
  unfolding preserves_def getKeyValueEntry_def setKeyValueEntry_def
  by (auto intro!: wp_db_read wp_db_write)

abbreviation out_rows :: "outflow_world \<Rightarrow> session_row list" where "out_rows w \<equiv> db_sessions (ow_db w)"

abbreviation dyn_rows :: "dyn_world \<Rightarrow> session_row list" where "dyn_rows w \<equiv> db_sessions (dw_db w)"

lemma preserves_reconcile [preserves_intros]: "preserves out_rows reconcileWriteOwnership"
  unfolding reconcileWriteOwnership_def
  by (rule preserves_bind) (auto intro!: preserves_intros simp: set_own_def setRuntimeSnapshot_def split: ownership.split)

lemma preserves_persist [preserves_intros]: "preserves out_rows (persistOutflowState r)"
  unfolding persistOutflowState_def Let_def
  by (intro preserves_then preserves_bind preserves_reconcile)
    (auto intro!: preserves_intros simp: set_own_def setRuntimeSnapshot_def split: ownership.split)

lemma charge_rows: "out_rows (charge now amount w) = out_rows w"
  by (simp add: charge_def clampBalance_def settleBalance_def set_state_def Let_def)

lemma preserves_updateState [preserves_intros]: "preserves out_rows (updateState m now skip amount)"
  unfolding updateState_def runStateOperation_def rollback_on_error_def
  by (auto intro!: preserves_intros simp: charge_rows setRuntimeSnapshot_def)

lemma factor_rows: "out_rows (snd (processSessionRewardFactor rnd m now skip w fs)) = out_rows w"
  by (simp add: processSessionRewardFactor_def getOutflowRestriction_def clampBalance_def settleBalance_def set_state_def Let_def split: prod.split)

lemma preserves_dyn_reconcile [preserves_intros]: "preserves dyn_rows dyn_reconcileWriteOwnership"
  unfolding dyn_reconcileWriteOwnership_def
  by (rule preserves_bind) (auto intro!: preserves_intros simp: dyn_set_own_def dyn_setRuntimeSnapshot_def split: ownership.split)

lemma preserves_dyn_persist [preserves_intros]: "preserves dyn_rows (dyn_persistOutflowState r)"
  unfolding dyn_persistOutflowState_def Let_def
  by (intro preserves_then preserves_bind preserves_dyn_reconcile)
    (auto intro!: preserves_intros simp: dyn_set_own_def dyn_setRuntimeSnapshot_def split: ownership.split)

lemma dyn_budget_rows: "dyn_rows (updateOutflowBudget cfg now w) = dyn_rows w"
  by (simp add: updateOutflowBudget_def)

lemma preserves_dyn_rewarded [preserves_intros]: "preserves dyn_rows (dyn_processSessionRewarded m cfg now skip amount)"
  unfolding dyn_processSessionRewarded_def dyn_runStateOperation_def dyn_rollback_on_error_def
  by (auto intro!: preserves_intros simp: dyn_budget_rows dyn_setRuntimeSnapshot_def)

lemma dyn_factor_rows: "dyn_rows (snd (dyn_processSessionRewardFactor rnd m cfg now skip w fs)) = dyn_rows w"
  by (simp add: dyn_processSessionRewardFactor_def dyn_getOutflowRestriction_def dyn_budget_rows Let_def split: prod.split)

lemma preserves_snd: "preserves f m \<Longrightarrow> f (snd (m w)) = f w"
  using wp_snd[OF preservesD[of f m w]] by blast

lemma concurrency_core: "keeps_core concurrency_hook"
  by (auto simp: keeps_core_def wp_def concurrency_hook_def split: sum.split)

lemma restore_core: "keeps_core recurring_restore_hook"
  by (auto simp: keeps_core_def wp_def recurring_restore_hook_def same_core_def split: sum.split)

lemma core_bind: "keeps_core m \<Longrightarrow> (\<And>a. keeps_core (f a)) \<Longrightarrow> keeps_core (p_bind m f)"
  unfolding keeps_core_def wp_bind
  by (intro allI, rule wp_mono) (auto intro!: wp_mono[OF keeps_coreD] intro: same_core_trans simp: keeps_core_def)

lemma core_simple: "keeps_core (p_return a)" "keeps_core (p_throw e)" "keeps_core (p_get g)" "keeps_core (get_session h)"
  by (simp_all add: keeps_core_def wp_simps)

lemma core_finished: "keeps_core (finished_sessions now cs)"
proof (induction cs)
  case (Cons c cs)
  have read: "preserves db_sessions (db_read q)" for q :: "faucet_db \<Rightarrow> 'x"
    unfolding preserves_def by (auto intro!: wp_db_read)
  have "preserves db_sessions (getFinishedSessions n a i d True)" for n a i d
    unfolding getFinishedSessions_def selectSessions_def Let_def
    by (intro preserves_if preserves_bind preserves_simple read)
  hence "keeps_core (on_db (getFinishedSessions n a i d True))" for n a i d
    unfolding keeps_core_def wp_on_db
    by (intro allI wp_mono[OF preservesD[of db_sessions]]) (auto simp: same_core_def distinct_ids_def own_row_def row_at_def)
  thus ?case by (simp add: Let_def) (intro core_bind core_simple Cons)
qed (simp add: core_simple)

lemma core_check_all: "keeps_core (recurring_check_all readable xs)"
proof (induction xs)
  case (Cons x xs)
  have step: "keeps_core (case r of Inl e \<Rightarrow> p_throw (limit_failure e) | Inr session' \<Rightarrow>
        p_then (if ls_recurringFactor session' = f then p_return () else setSessionData k (v session'))
          (recurring_check_all readable xs))" for r f k v
    using Cons by (auto simp: p_then_def core_simple intro!: core_bind core_setData split: sum.split)
  show ?case unfolding recurring_check_all.simps by (intro core_bind core_simple step)
qed (simp add: core_simple)

lemma recurring_core: "keeps_core (recurring_hook readable)"
proof -
  have ledger: "keeps_core (p_modify (\<lambda>w. w\<lparr>sw_ledger := L\<rparr>))" for L
    by (simp add: keeps_core_def wp_modify same_core_def)
  show ?thesis unfolding recurring_hook_def
    by (auto simp: p_then_def core_simple split: prod.split option.split intro!: core_bind ledger core_finished core_check_all)
qed

lemma outflow_hook_core: "same_core (fst rw) (fst (snd (outflow_rewarded_hook amount rw)))"
proof -
  obtain w fs where rw: "rw = (w, fs)" by (cases rw)
  have "db_sessions (ow_db (snd (updateState m now skip amount (outflow_view w)))) = db_sessions (sw_db w)" for m now skip
    using preserves_snd[OF preserves_updateState] by (simp add: outflow_view_def)
  thus ?thesis unfolding rw outflow_rewarded_hook_def put_outflow_def
    by (auto intro!: keeps_db_core split: prod.split) (metis snd_conv)
qed

lemma dynamic_hook_core: "same_core (fst rw) (fst (snd (dynamic_rewarded_hook amount rw)))"
proof -
  obtain w fs where rw: "rw = (w, fs)" by (cases rw)
  have "db_sessions (dw_db (snd (dyn_processSessionRewarded m cfg now skip amount (dynamic_view w)))) = db_sessions (sw_db w)" for m cfg now skip
    using preserves_snd[OF preserves_dyn_rewarded] by (simp add: dynamic_view_def)
  thus ?thesis unfolding rw dynamic_rewarded_hook_def put_dynamic_def
    by (auto intro!: keeps_db_core split: prod.split) (metis snd_conv)
qed

lemma outflow_factor_core: "same_core (fst rw) (fst (snd (outflow_factor_hook rnd rw)))"
proof -
  obtain w fs where rw: "rw = (w, fs)" by (cases rw)
  have "db_sessions (ow_db (snd (processSessionRewardFactor rnd m now skip (outflow_view w) fs))) = db_sessions (sw_db w)" for m now skip
    by (simp add: factor_rows) (simp add: outflow_view_def)
  thus ?thesis unfolding rw outflow_factor_hook_def put_outflow_def
    by (auto intro!: keeps_db_core split: prod.split) (metis snd_conv)
qed

lemma dynamic_factor_core: "same_core (fst rw) (fst (snd (dynamic_factor_hook rnd rw)))"
proof -
  obtain w fs where rw: "rw = (w, fs)" by (cases rw)
  have "db_sessions (dw_db (snd (dyn_processSessionRewardFactor rnd m cfg now skip (dynamic_view w) fs))) = db_sessions (sw_db w)" for m cfg now skip
    by (simp add: dyn_factor_rows) (simp add: dynamic_view_def)
  thus ?thesis unfolding rw dynamic_factor_hook_def put_dynamic_def
    by (auto intro!: keeps_db_core split: prod.split) (metis snd_conv)
qed

interpretation faucet: session_hooks "module_env rnd readable cfg" for rnd readable cfg
proof
  fix h input assume "h \<in> set (se_onStart (module_env rnd readable cfg) input)"
  thus "keeps_core (snd h)" by (auto simp: module_env_def concurrency_core recurring_core)
next
  fix h assume "h \<in> set (se_onRestore (module_env rnd readable cfg))"
  thus "keeps_core (snd h)" by (auto simp: module_env_def restore_core)
next
  fix h assume "h \<in> set (se_onIpChange (module_env rnd readable cfg))"
  thus "keeps_core (snd h)" by (auto simp: module_env_def concurrency_core)
next
  fix h assume "h \<in> set (se_onComplete (module_env rnd readable cfg))"
  thus "keeps_core (snd h)" by (auto simp: module_env_def)
next
  fix k rw assume "k \<in> set (se_onFactor (module_env rnd readable cfg))"
  thus "same_core (fst rw) (fst (snd (snd k rw)))"
    by (auto simp: module_env_def dynamic_factor_core outflow_factor_core recurring_factor_hook_def)
next
  fix k rw amount assume "k \<in> set (se_onRewarded (module_env rnd readable cfg) amount)"
  thus "same_core (fst rw) (fst (snd (snd k rw)))"
    by (auto simp: module_env_def dynamic_hook_core outflow_hook_core)
next
  fix owner show "keeps_core (se_rollback (module_env rnd readable cfg) owner)"
    by (simp add: module_env_def core_simple)
next
  fix ip a assume "se_normalizeIp (module_env rnd readable cfg) ip = Some a"
  thus "se_normalizeIp (module_env rnd readable cfg) a = Some a"
    using ip_normalize_normal by (simp add: module_env_def)
qed

subsection \<open>Sessions of the faucet\<close>

text \<open>C1. The state of a session is durable: after its start and any public calls, under every list
  of driver faults, a disposed session agrees with its row (the row is terminal with the same
  status and, unless it failed, the same amount; a session without a row failed), and no
  later call changes its row, its status or its amount.\<close>

theorem session_state_durable:
  assumes "env = module_env rnd readable cfg"
    and "sw_session w = new_session" "distinct_ids (sw_db w)" "row_at (sw_db w) guid = None" "row_at (sw_db w) [] = None"
    and "before = run_calls env calls (snd (startSession env now guid ip input overrides w))"
    and "fs_isDisposed (sw_session before)" "later = run_calls env rest before"
  shows "terminal_agrees before \<and> fs_isDisposed (sw_session later) \<and> own_id later = own_id before \<and> own_row later = own_row before \<and>
    fs_status (sw_session later) = fs_status (sw_session before) \<and> fs_dropAmount (sw_session later) = fs_dropAmount (sw_session before)"
proof -
  have "sess_inv env (snd (startSession env now guid ip input overrides w))"
    unfolding assms(1) by (rule wp_snd[OF faucet.wp_startSession]) (use assms in auto)
  hence inv: "sess_inv env before" unfolding assms(1,6) by (rule sess_next_inv[OF faucet.run_calls_next])
  have "sess_next env before later" unfolding assms(8) using inv unfolding assms(1) by (rule faucet.run_calls_next)
  thus ?thesis using inv assms(7) by (simp add: sess_next_def sess_inv_def)
qed

definition demo_config :: session_config where
  "demo_config = \<lparr>sc_maxDropAmount = 100, sc_minDropAmount = 10, sc_sessionTimeout = 3600,
     sc_denyNewSessions = Some ''closed'', sc_modulesReady = True\<rparr>"

definition demo_modules :: faucet_modules where
  "demo_modules = (let policy = \<lparr>pol_amount = 1000, pol_duration = 3600, pol_lowerLimit = -1000, pol_upperLimit = 1000\<rparr>;
       empty = \<lparr>db_sessions = [], db_kv = [], db_faults = []\<rparr> in
     \<lparr>fm_clock = 5, fm_concurrency = None, fm_recurring = [],
      fm_outflow = \<lparr>ow_db = empty, ow_runtime = \<lparr>rt_state = createEmptyState 5 policy, rt_policy = policy\<rparr>,
        ow_own = Certain None, ow_uncertainFee = None\<rparr>,
      fm_dynConfig = \<lparr>dc_targetDrainTime = 86400, dc_refreshInterval = 60, dc_burstWindow = 600, dc_cutoffWindow = 600\<rparr>,
      fm_dynamic = \<lparr>dw_db = empty, dw_runtime = \<lparr>dr_budget = 0, dr_updateTime = 5, dr_rate = None, dr_rateTime = 0\<rparr>, dw_own = Certain None\<rparr>\<rparr>)"

definition demo_world :: "faucet_modules \<Rightarrow> faucet_modules session_world" where
  "demo_world m = \<lparr>sw_db = \<lparr>db_sessions = [], db_kv = [], db_faults = []\<rparr>, sw_ledger = empty_ledger, sw_active = [], sw_rewardsOpen = True,
     sw_admissionOpen = True, sw_modules = m, sw_session = new_session\<rparr>"

lemmas run_defs = p_bind_def p_then_def p_return_def p_throw_def p_catch_def p_get_def p_modify_def p_when_def p_lift_def p_try_def
  get_session_def modify_def upd_def

lemma denied_start: "fs_isDisposed (sw_session (snd (startSession (module_env id dec_int demo_config) 5 ''s1'' ''10.0.0.1'' JNull [] (demo_world m))))"
proof -
  let ?E = "module_env id dec_int demo_config"
  have ip: "normalizeRemoteIP ?E ''10.0.0.1'' = Inr ''10.0.0.1''"
    by (simp add: normalizeRemoteIP_def module_env_def normalize_examples)
  have deny: "run_hooks (start_local_hooks ?E JNull) (se_onStart ?E JNull) w = (Inl (FaucetErr ''FAUCET_DISABLED'' ''closed''), w)" for w
    unfolding run_hooks_def start_local_hooks_def
    by (subst runActionHooks.simps) (simp add: module_env_def demo_config_def deny_hook_def run_defs throw_failures_def)
  have fail: "fs_isDisposed (sw_session (snd (failStart ?E 5 e c r w)))"
    if "fs_status (sw_session w) = STARTING" "fs_persistence (sw_session w) = Absent" "fs_failure (sw_session w) = NoFailure"
      "fs_completion (sw_session w) = NotCompleting" "sw_admissionOpen w" "\<not> fs_isDisposed (sw_session w)"
      "fs_rollbacks (sw_session w) = []" "fs_factorDepth (sw_session w) = 0" for e c r w
    using that
    by (simp add: failStart_def setSessionFailed_def terminal_operation_def trackCompletion_def runRewardOperation_def
        finishFailedSession_def prepare_failure_def persistFailedSession_def finalizeFailedSession_def collect_error_def run_defs runStartRollbacks_def
        resetSessionTimer_def clear_save_timer_def releaseAdmission_def notifySessionUpdate_def Let_def split: prod.split sum.split)
  let ?u = "upd (\<lambda>s. s\<lparr>fs_remoteIP := ''10.0.0.1'', fs_dropAmount := -1\<rparr>)
      (upd (\<lambda>s. s\<lparr>fs_status := STARTING, fs_sessionId := ''s1'', fs_startTime := 5\<rparr>) (demo_world m))"
  have adm: "\<exists>L. beginAdmission ?E False ?u = (Inr (), ?u\<lparr>sw_ledger := L\<rparr>)"
    by (auto simp: beginAdmission_def run_defs getClaimCeiling_def on_ledger_def demo_world_def new_session_def module_env_def
        begin_reservation_def empty_ledger_def demo_config_def normalizeAmount_def Let_def Admission_Ledger.bind_def requireReservation_def put_reservation_def split: sum.split)
  then obtain L where L: "beginAdmission ?E False ?u = (Inr (), ?u\<lparr>sw_ledger := L\<rparr>)" by blast
  have "admit_session ?E 5 JNull ?u = failStart ?E 5 (FaucetErr ''FAUCET_DISABLED'' ''closed'') ''FAUCET_DISABLED'' ''closed'' (?u\<lparr>sw_ledger := L\<rparr>)"
    unfolding admit_session_def p_then_def p_catch_def p_bind_def L deny by simp
  moreover have "fs_isDisposed (sw_session (snd (failStart ?E 5 e c r (?u\<lparr>sw_ledger := L\<rparr>))))" for e c r
    by (rule fail) (simp_all add: demo_world_def new_session_def)
  moreover have "\<exists>x v. failStart ?E 5 e c r w = (Inl x, v)" for e c r w
    by (auto simp: failStart_def run_defs split: prod.split sum.split)
  ultimately obtain x v where v: "admit_session ?E 5 JNull ?u = (Inl x, v)" "fs_isDisposed (sw_session v)" by (metis snd_conv)
  have s: "fs_status (sw_session (demo_world m)) = UNKNOWN" "se_modulesReady ?E"
    by (simp_all add: demo_world_def new_session_def module_env_def demo_config_def)
  have "startSession ?E 5 ''s1'' ''10.0.0.1'' JNull [] (demo_world m) = (Inl x, v)"
    using v(1) by (simp add: startSession_def p_then_def p_bind_def get_session_def p_get_def s modify_def p_modify_def p_lift_def ip p_return_def)
  thus ?thesis using v(2) by simp
qed

lemma session_state_durable_witness:
  "let env = module_env id dec_int demo_config;
     v = snd (startSession env 5 ''s1'' ''10.0.0.1'' JNull [] (demo_world demo_modules)) in
   fs_isDisposed (sw_session v) \<and> terminal_agrees v \<and> fs_isDisposed (sw_session (run_calls env [(6, CallReward 7), (7, CallComplete)] v))"
proof -
  let ?E = "module_env id dec_int demo_config" and ?w = "demo_world demo_modules"
  let ?v = "snd (startSession ?E 5 ''s1'' ''10.0.0.1'' JNull [] ?w)"
  have fresh: "sw_session ?w = new_session" "distinct_ids (sw_db ?w)" "row_at (sw_db ?w) ''s1'' = None" "row_at (sw_db ?w) [] = None"
    by (simp_all add: demo_world_def distinct_ids_def row_at_def)
  have "?v = run_calls ?E [] ?v" by simp
  from session_state_durable[OF refl fresh this denied_start refl]
  have "terminal_agrees ?v \<and> fs_isDisposed (sw_session (run_calls ?E [(6, CallReward 7), (7, CallComplete)] ?v))" by blast
  thus ?thesis using denied_start by (simp add: Let_def)
qed

end
