(* ===== verification/Session_Rewards.thy ===== *)
theory Session_Rewards
  imports Session_Modules
begin

text \<open>
  What a session earns and when it can be claimed: the bounds of a reward, the bound on the
  nesting of \<^verbatim>\<open>finishSession\<close>, and the completion of a session when the driver does not fail.
\<close>

subsection \<open>Bounds of a reward\<close>

text \<open>Rounding that keeps to the bounds of the exact result, as IEEE rounding does for bounds that
  are doubles.\<close>

definition rounds_within :: "(rat \<Rightarrow> rat) \<Rightarrow> bool" where
  "rounds_within rnd \<longleftrightarrow> (\<forall>q. (0 \<le> q \<longrightarrow> 0 \<le> rnd q) \<and> (q \<le> 1 \<longrightarrow> rnd q \<le> 1) \<and> (q \<le> 100000 \<longrightarrow> rnd q \<le> 100000))"

lemma rounds_id: "rounds_within id"
  by (simp add: rounds_within_def)

lemma factor_product_bounds:
  assumes "rounds_within rnd" "0 \<le> p" "p \<le> 1" "\<forall>f \<in> set fs. \<exists>q. rf_factor f = Fin q \<and> q \<le> 1"
    and "factor_product (\<lambda>q. Fin (rnd q)) fs (Fin p) = Some r"
  shows "\<exists>q. r = Fin q \<and> 0 \<le> q \<and> q \<le> 1"
  using assms(2-)
proof (induction fs arbitrary: p)
  case (Cons f fs)
  obtain q where q: "rf_factor f = Fin q" "q \<le> 1" using Cons.prems(3) by auto
  have "0 \<le> q" using Cons.prems(4) q by (simp split: if_splits)
  hence pq: "0 \<le> p * q" "p * q \<le> 1" using Cons.prems(1,2) q by (simp_all add: mult_le_one)
  have "0 \<le> rnd (p * q)" "rnd (p * q) \<le> 1" using assms(1) pq unfolding rounds_within_def by blast+
  thus ?case using Cons.IH[of "rnd (p * q)"] Cons.prems(3,4) q \<open>0 \<le> q\<close> by simp
qed auto

definition invalid_factor :: "reward_factor \<Rightarrow> bool" where
  "invalid_factor f = (case rf_factor f of Fin q \<Rightarrow> q < 0 | _ \<Rightarrow> True)"

lemma scaled_factor_nonneg: "0 \<le> scaled_factor rnd fs"
  by (simp add: scaled_factor_def split: option.split js_number.split)

lemma scaled_factor_invalid:
  "\<exists>f \<in> set fs. invalid_factor f \<Longrightarrow> scaled_factor rnd fs = 0"
proof -
  have "\<exists>f \<in> set fs. invalid_factor f \<Longrightarrow> factor_product rnd fs p = None" for p
    by (induction fs arbitrary: p) (auto simp: invalid_factor_def split: js_number.splits)
  thus "\<exists>f \<in> set fs. invalid_factor f \<Longrightarrow> scaled_factor rnd fs = 0"
    by (simp add: scaled_factor_def)
qed

text \<open>Rewards never exceed what was mined: whatever factors the modules push, the reward of a
  non-negative amount is not negative, it is zero when a factor is negative, infinite or
  NaN, and with factors of at most one it is at most the amount.\<close>

lemma reward_bounded:
  assumes "rounds_within rnd" "0 \<le> amount"
  shows "0 \<le> reward_amount (\<lambda>q. Fin (rnd q)) fs amount \<and>
    ((\<exists>f \<in> set fs. invalid_factor f) \<longrightarrow> reward_amount (\<lambda>q. Fin (rnd q)) fs amount = 0) \<and>
    ((\<forall>f \<in> set fs. \<exists>q. rf_factor f = Fin q \<and> q \<le> 1) \<longrightarrow> reward_amount (\<lambda>q. Fin (rnd q)) fs amount \<le> amount)"
proof (intro conjI impI)
  let ?R = "\<lambda>q. Fin (rnd q)"
  show "0 \<le> reward_amount ?R fs amount"
    using scaled_factor_nonneg[of ?R fs] assms(2) by (simp add: reward_amount_def pos_imp_zdiv_nonneg_iff)
  show "reward_amount ?R fs amount = 0" if "\<exists>f \<in> set fs. invalid_factor f"
    using scaled_factor_invalid[OF that, of ?R] by (simp add: reward_amount_def)
  assume small: "\<forall>f \<in> set fs. \<exists>q. rf_factor f = Fin q \<and> q \<le> 1"
  have "scaled_factor ?R fs \<le> 100000"
  proof (cases "factor_product ?R fs (Fin 1)")
    case (Some r)
    then obtain q where q: "r = Fin q" "0 \<le> q" "q \<le> 1" using factor_product_bounds[OF assms(1) _ _ small, of 1] by auto
    have "rnd (q * 100000) \<le> 100000" using assms(1) q unfolding rounds_within_def by (metis mult_left_le_one_le mult_nonneg_nonneg zero_le_numeral)
    hence "\<lfloor>rnd (q * 100000)\<rfloor> \<le> 100000" by (simp add: floor_le_iff)
    thus ?thesis using Some q by (simp add: scaled_factor_def)
  qed (simp add: scaled_factor_def)
  hence "amount * scaled_factor ?R fs \<le> amount * 100000" using assms(2) by (intro mult_left_mono) auto
  moreover have "0 \<le> amount * scaled_factor ?R fs" using scaled_factor_nonneg[of ?R fs] assms(2) by simp
  ultimately show "reward_amount ?R fs amount \<le> amount" by (simp add: reward_amount_def)
qed

lemma reward_bounded_at:
  "reward_amount (\<lambda>q. Fin (id q)) [\<lparr>rf_factor = Fin (1/2), rf_module = ''a''\<rparr>, \<lparr>rf_factor = NaN, rf_module = ''b''\<rparr>] 7 = 0"
  using reward_bounded[OF rounds_id, of 7 "[\<lparr>rf_factor = Fin (1/2), rf_module = ''a''\<rparr>, \<lparr>rf_factor = NaN, rf_module = ''b''\<rparr>]"]
  by (simp add: invalid_factor_def)

subsection \<open>The nesting of \<^verbatim>\<open>finishSession\<close>\<close>

context session_hooks
begin

lemma account_cong:
  assumes "\<And>w. fs_dropAmount (sw_session w) \<noteq> -1 \<Longrightarrow> F True w = G True w" and a: "0 \<le> amount" and d: "-1 \<le> fs_dropAmount (sw_session w)"
  shows "account_reward env now F factors amount w = account_reward env now G factors amount w"
proof -
  let ?f = "\<lambda>s. s\<lparr>fs_dropAmount := (if fs_dropAmount s = -1 then 0 else fs_dropAmount s) + amount,
       fs_data := js_set ''reward.factors'' (factors_json factors) (fs_data s), fs_isDirty := True\<rparr>"
  have drop: "fs_dropAmount (sw_session (upd ?f w)) \<noteq> -1" using a d by simp
  have core: "keeps_core (run_reward_hooks (se_onRewarded env amount) factors)"
    by (rule run_reward_hooks_keeps) (rule rewarded_hooks)
  have same: "applyRewardTerminalIntent env now F intent v = applyRewardTerminalIntent env now G intent v"
    if "same_core (upd ?f w) v" for v intent
  proof -
    have "fs_dropAmount (sw_session v) \<noteq> -1" using that drop by (simp add: same_core_def)
    thus ?thesis using assms(1) by (cases intent) (simp_all add: applyRewardTerminalIntent_def)
  qed
  show ?thesis unfolding account_reward_def p_then_def[of "modify ?f"]
  proof (rule p_bind_cong)
    fix u v assume "modify ?f w = (Inr u, v)"
    hence v: "v = upd ?f w" by (simp add: modify_def p_modify_def)
    show "p_bind (run_reward_hooks (se_onRewarded env amount) factors) (\<lambda>(failure, _, intent). case failure of
        Some e \<Rightarrow> p_then (finishFailedSession env now ''REWARD_ACCOUNTING'' (''reward accounting failed: '' @ error_text e) None False True None) (p_throw e)
      | None \<Rightarrow> p_then (applyRewardTerminalIntent env now F intent)
         (p_bind (get_session id) (\<lambda>s. p_then (p_when (fs_isDirty s \<and> canCommitReward s) lazySaveSession) (p_return amount)))) v
      = p_bind (run_reward_hooks (se_onRewarded env amount) factors) (\<lambda>(failure, _, intent). case failure of
        Some e \<Rightarrow> p_then (finishFailedSession env now ''REWARD_ACCOUNTING'' (''reward accounting failed: '' @ error_text e) None False True None) (p_throw e)
      | None \<Rightarrow> p_then (applyRewardTerminalIntent env now G intent)
         (p_bind (get_session id) (\<lambda>s. p_then (p_when (fs_isDirty s \<and> canCommitReward s) lazySaveSession) (p_return amount)))) v"
    proof (rule p_bind_cong)
      fix o' v' assume "run_reward_hooks (se_onRewarded env amount) factors v = (Inr o', v')"
      hence "same_core (upd ?f w) v'" using wpD_Inr[OF keeps_coreD[OF core, of v]] v by blast
      note same[OF this]
      thus "(case o' of (failure, _, intent) \<Rightarrow> case failure of
        Some e \<Rightarrow> p_then (finishFailedSession env now ''REWARD_ACCOUNTING'' (''reward accounting failed: '' @ error_text e) None False True None) (p_throw e)
      | None \<Rightarrow> p_then (applyRewardTerminalIntent env now F intent)
         (p_bind (get_session id) (\<lambda>s. p_then (p_when (fs_isDirty s \<and> canCommitReward s) lazySaveSession) (p_return amount)))) v'
       = (case o' of (failure, _, intent) \<Rightarrow> case failure of
        Some e \<Rightarrow> p_then (finishFailedSession env now ''REWARD_ACCOUNTING'' (''reward accounting failed: '' @ error_text e) None False True None) (p_throw e)
      | None \<Rightarrow> p_then (applyRewardTerminalIntent env now G intent)
         (p_bind (get_session id) (\<lambda>s. p_then (p_when (fs_isDirty s \<and> canCommitReward s) lazySaveSession) (p_return amount)))) v'"
        by (auto simp: p_then_def p_bind_def split: prod.split option.split)
    qed
  qed
qed

lemma core_evaluate:
  "wp (evaluate_factors env) (\<lambda>_ v. fs_dropAmount (sw_session v) = fs_dropAmount (sw_session w)) (\<lambda>_ _. True) w"
proof -
  have core: "keeps_core (run_reward_hooks (se_onFactor env) [])"
    by (rule run_reward_hooks_keeps) (rule factor_hooks)
  show ?thesis unfolding evaluate_factors_def wp_then wp_bind wp_modify_session wp_return
    by (rule keeps_core_wp[OF core]) (auto simp: same_core_def)
qed

lemma apply_reward_cong:
  assumes F: "F False = G False" "\<And>w. fs_dropAmount (sw_session w) \<noteq> -1 \<Longrightarrow> F True w = G True w" and d: "-1 \<le> fs_dropAmount (sw_session w)"
  shows "apply_reward_with env now F amount w = apply_reward_with env now G amount w"
  unfolding apply_reward_with_def
proof (rule p_bind_cong)
  fix ok v assume "canStartReward w = (Inr ok, v)"
  hence v: "v = w" by (simp add: canStartReward_def p_get_def)
  have account: "p_bind canStartReward (\<lambda>ok. p_bind (get_session fs_cancelReward) (\<lambda>cancelled.
      if \<not> ok \<or> cancelled then p_return 0 else account_reward env now F fs (reward_amount (se_round env) fs amount))) u
    = p_bind canStartReward (\<lambda>ok. p_bind (get_session fs_cancelReward) (\<lambda>cancelled.
      if \<not> ok \<or> cancelled then p_return 0 else account_reward env now G fs (reward_amount (se_round env) fs amount))) u"
    if "-1 \<le> fs_dropAmount (sw_session u)" "0 < amount" for u fs
  proof -
    have "0 \<le> reward_amount (se_round env) fs amount"
      using that(2) scaled_factor_nonneg[of "se_round env" fs] by (simp add: reward_amount_def pos_imp_zdiv_nonneg_iff)
    from account_cong[where F = F and G = G, OF F(2) this that(1)] show ?thesis
      by (auto simp: p_bind_def canStartReward_def get_session_def p_get_def)
  qed
  have step: "(case outcome of (failure, factors, intent) \<Rightarrow> p_bind (applyRewardFactorTerminalIntent env now F intent) (\<lambda>terminated. case failure of
           Some e \<Rightarrow> p_throw e
         | None \<Rightarrow> if terminated then p_return 0
             else p_bind canStartReward (\<lambda>ok. p_bind (get_session fs_cancelReward) (\<lambda>cancelled.
               if \<not> ok \<or> cancelled then p_return 0 else account_reward env now F factors (reward_amount (se_round env) factors amount))))) u
    = (case outcome of (failure, factors, intent) \<Rightarrow> p_bind (applyRewardFactorTerminalIntent env now G intent) (\<lambda>terminated. case failure of
           Some e \<Rightarrow> p_throw e
         | None \<Rightarrow> if terminated then p_return 0
             else p_bind canStartReward (\<lambda>ok. p_bind (get_session fs_cancelReward) (\<lambda>cancelled.
               if \<not> ok \<or> cancelled then p_return 0 else account_reward env now G factors (reward_amount (se_round env) factors amount))))) u"
    if u: "-1 \<le> fs_dropAmount (sw_session u)" "0 < amount" for outcome u
  proof (cases outcome)
    case (fields failure factors intent)
    show ?thesis
    proof (cases intent)
      case NoIntent
      show ?thesis unfolding fields prod.case NoIntent applyRewardFactorTerminalIntent_def terminal_intent.case
        using account[OF u] by (cases failure) (simp_all add: p_bind_def p_return_def)
    next
      case CompleteIntent
      have t: "applyRewardFactorTerminalIntent env now F intent = applyRewardFactorTerminalIntent env now G intent"
        by (simp add: CompleteIntent applyRewardFactorTerminalIntent_def F(1))
      have r: "applyRewardFactorTerminalIntent env now G intent u = (Inr b, x) \<Longrightarrow> b" for b x
        by (auto simp: CompleteIntent applyRewardFactorTerminalIntent_def p_bind_def p_then_def p_return_def get_session_def p_get_def
            split: prod.splits sum.splits)
      show ?thesis unfolding fields prod.case t by (rule p_bind_cong) (use r in \<open>auto split: option.split\<close>)
    next
      case (FailedIntent c rs st)
      have t: "applyRewardFactorTerminalIntent env now F intent = applyRewardFactorTerminalIntent env now G intent"
        by (simp add: FailedIntent applyRewardFactorTerminalIntent_def)
      have r: "applyRewardFactorTerminalIntent env now G intent u = (Inr b, x) \<Longrightarrow> b" for b x
        by (auto simp: FailedIntent applyRewardFactorTerminalIntent_def p_bind_def p_then_def p_return_def split: prod.splits sum.splits)
      show ?thesis unfolding fields prod.case t by (rule p_bind_cong) (use r in \<open>auto split: option.split\<close>)
    qed
  qed
  show "(if \<not> ok \<or> amount \<le> 0 then p_return 0 else p_bind (evaluate_factors env) (\<lambda>(failure, factors, intent).
      p_bind (applyRewardFactorTerminalIntent env now F intent) (\<lambda>terminated. case failure of
           Some e \<Rightarrow> p_throw e
         | None \<Rightarrow> if terminated then p_return 0
             else p_bind canStartReward (\<lambda>ok. p_bind (get_session fs_cancelReward) (\<lambda>cancelled.
               if \<not> ok \<or> cancelled then p_return 0 else account_reward env now F factors (reward_amount (se_round env) factors amount)))))) v
   = (if \<not> ok \<or> amount \<le> 0 then p_return 0 else p_bind (evaluate_factors env) (\<lambda>(failure, factors, intent).
      p_bind (applyRewardFactorTerminalIntent env now G intent) (\<lambda>terminated. case failure of
           Some e \<Rightarrow> p_throw e
         | None \<Rightarrow> if terminated then p_return 0
             else p_bind canStartReward (\<lambda>ok. p_bind (get_session fs_cancelReward) (\<lambda>cancelled.
               if \<not> ok \<or> cancelled then p_return 0 else account_reward env now G factors (reward_amount (se_round env) factors amount)))))) v"
  proof (cases "\<not> ok \<or> amount \<le> 0")
    case False
    hence a: "0 < amount" by simp
    show ?thesis unfolding if_not_P[OF False]
    proof (rule p_bind_cong)
      fix outcome u assume "evaluate_factors env v = (Inr outcome, u)"
      hence "fs_dropAmount (sw_session u) = fs_dropAmount (sw_session w)" using wpD_Inr[OF core_evaluate[of v]] v by blast
      thus "(case outcome of (failure, factors, intent) \<Rightarrow> p_bind (applyRewardFactorTerminalIntent env now F intent) (\<lambda>terminated. case failure of
           Some e \<Rightarrow> p_throw e
         | None \<Rightarrow> if terminated then p_return 0
             else p_bind canStartReward (\<lambda>ok. p_bind (get_session fs_cancelReward) (\<lambda>cancelled.
               if \<not> ok \<or> cancelled then p_return 0 else account_reward env now F factors (reward_amount (se_round env) factors amount))))) u
        = (case outcome of (failure, factors, intent) \<Rightarrow> p_bind (applyRewardFactorTerminalIntent env now G intent) (\<lambda>terminated. case failure of
           Some e \<Rightarrow> p_throw e
         | None \<Rightarrow> if terminated then p_return 0
             else p_bind canStartReward (\<lambda>ok. p_bind (get_session fs_cancelReward) (\<lambda>cancelled.
               if \<not> ok \<or> cancelled then p_return 0 else account_reward env now G factors (reward_amount (se_round env) factors amount))))) u"
        using d by (intro step a) simp
    qed
  qed simp
qed

lemma finish_depth: "finish_session (Suc (Suc n)) env now grant w = finish_session 2 env now grant w"
proof -
  have plain: "finish_session (Suc k) env now g v = finish_session 1 env now g v" if "\<not> g \<or> fs_dropAmount (sw_session v) \<noteq> -1" for k g v
    using that by (auto simp: p_bind_def get_session_def p_get_def)
  have f: "finish_session (Suc n) env now False = finish_session 1 env now False" by (rule ext) (simp add: plain)
  have "apply_reward_with env now (finish_session (Suc n) env now) (se_maxDropAmount env) w
      = apply_reward_with env now (finish_session 1 env now) (se_maxDropAmount env) w" if "fs_dropAmount (sw_session w) = -1"
  proof (rule apply_reward_cong[where F = "finish_session (Suc n) env now" and G = "finish_session 1 env now", OF f])
    show "fs_dropAmount (sw_session v) \<noteq> -1 \<Longrightarrow> finish_session (Suc n) env now True v = finish_session 1 env now True v" for v
      by (intro plain disjI2)
  qed (use that in simp)
  thus ?thesis unfolding numeral_2_eq_2
    by (simp add: p_bind_def p_then_def get_session_def p_get_def)
qed

end

text \<open>The nesting of \<^verbatim>\<open>finishSession\<close> is bounded: a completion may grant the default reward, whose
  hooks may ask for the completion again, and that inner completion never recurses.  So
  every amount of fuel from two on gives the same run.\<close>

lemma finish_session_bounded:
  assumes "2 \<le> fuel"
  shows "finish_session fuel (module_env rnd readable cfg) now grant w = finishSession (module_env rnd readable cfg) now grant w"
proof -
  obtain n where n: "fuel = Suc (Suc n)" using assms by (metis Suc_le_D numeral_2_eq_2 Suc_le_mono)
  have "FINISH_FUEL = Suc (Suc 1)" by (simp add: FINISH_FUEL_def)
  thus ?thesis unfolding finishSession_def n using faucet.finish_depth by metis
qed

lemma finish_session_bounded_at:
  "finish_session 50 (module_env id dec_int demo_config) 5 True (demo_world demo_modules) = finishSession (module_env id dec_int demo_config) 5 True (demo_world demo_modules)"
  by (rule finish_session_bounded) simp

subsection \<open>Completing a session\<close>

lemma wp_transition_ok:
  assumes db: "db_faults db = []" "distinct_ids db" "row_at db (sd_sessionId x) = Some r" "sr_status r = expected" "sr_claim r = None"
    and x: "sd_status x = CLAIMABLE" "sd_claim x = JNull"
    and Q: "\<And>db'. row_at db' (sd_sessionId x) = Some ((set_columns x r)\<lparr>sr_status := CLAIMABLE\<rparr>) \<Longrightarrow> Q True db'"
  shows "wp (transitionSession x expected) Q E db"
proof -
  let ?p = "is_unclaimed (sd_sessionId x) expected" and ?f = "\<lambda>r. (set_columns x r)\<lparr>sr_status := CLAIMABLE\<rparr>"
  let ?db' = "db\<lparr>db_sessions := map (\<lambda>r. if ?p r then ?f r else r) (db_sessions db)\<rparr>"
  have p: "?p r" using db row_at_id[OF db(3)] by (simp add: is_unclaimed_def)
  have "row_at ?db' (sd_sessionId x) = Some (?f r)"
    using find_update[of ?p "sd_sessionId x" ?f] db(3) p by (simp add: row_at_def is_unclaimed_def set_columns_def)
  moreover have "length (filter ?p (db_sessions db)) = 1"
    using count_update[of ?p "sd_sessionId x" "db_sessions db"] db(2,3) p by (simp add: row_at_def distinct_ids_def is_unclaimed_def)
  ultimately show ?thesis
    using Q[of ?db'] x db(1) by (simp add: transitionSession_def wp_simps wp_def db_write_def next_fault_def update_where_def)
qed

text \<open>C27. A mined session can be claimed.  Let a session be running, with no completion begun, with an amount that is set and
  reaches the minimum, with a reservation in the ledger, while admissions are open; let its row be running and carry no
  claim, let the driver not fail, and let the SessionComplete hooks of all modules return and write the state of modules only.
  Then \<^verbatim>\<open>completeSession\<close> returns, and the session's row is claimable with exactly that amount, its admission is released and
  it is no longer active.\<close>

theorem complete_session_claimable:
  assumes env: "env = (module_env rnd readable cfg)\<lparr>se_onComplete := hs\<rparr>"
    and complete_hooks: "\<forall>u. \<exists>m. run_hooks [] hs u = (Inr (), u\<lparr>sw_modules := m\<rparr>)"
    and s: "s = sw_session w" "fs_status s = RUNNING" "fs_completion s = NotCompleting"
    and amount: "fs_dropAmount s \<noteq> -1" "sc_minDropAmount cfg \<le> fs_dropAmount s"
    and db: "db_faults (sw_db w) = []" "distinct_ids (sw_db w)" "own_row w = Some r" "sr_status r = RUNNING" "sr_claim r = None"
    and w: "sw_admissionOpen w" "js_has (reservations (sw_ledger w)) (own_id w)"
  shows "\<exists>w' r'. completeSession env now w = (Inr (), w') \<and> fs_status (sw_session w') = CLAIMABLE \<and> fs_isDisposed (sw_session w') \<and>
    own_row w' = Some r' \<and> sr_status r' = CLAIMABLE \<and> sr_dropAmount r' = dec_int (fs_dropAmount s) \<and>
    \<not> js_has (reservations (sw_ledger w')) (own_id w) \<and> own_id w \<notin> set (sw_active w')"
proof -
  let ?Q = "\<lambda>w'. fs_status (sw_session w') = CLAIMABLE \<and> fs_isDisposed (sw_session w') \<and>
    (\<exists>r'. own_row w' = Some r' \<and> sr_status r' = CLAIMABLE \<and> sr_dropAmount r' = dec_int (fs_dropAmount s)) \<and>
    \<not> js_has (reservations (sw_ledger w')) (own_id w) \<and> own_id w \<notin> set (sw_active w')"
  obtain L where L: "markCommitting (own_id w) (sw_ledger w) = Inr L"
    using w(2) by (auto simp: markCommitting_def requireReservation_def split: option.splits)
  obtain m where m: "\<And>u. run_hooks [] hs u = (Inr (), u\<lparr>sw_modules := m u\<rparr>)" using complete_hooks by metis
  have hooks: "run_hooks [] (se_onComplete env) = p_modify (\<lambda>u. u\<lparr>sw_modules := m u\<rparr>)"
    by (rule ext) (simp add: env m p_modify_def)
  let ?f = "\<lambda>s. if fs_factorDepth s > 0 then s\<lparr>fs_cancelReward := True\<rparr> else s"
  have row: "row_at (sw_db w) (own_id w) = Some r" using db(3) by (simp add: own_row_def)
  have commit: "wp (commit_session env now) (\<lambda>_. ?Q) (\<lambda>_ _. False) u"
    if u: "sw_db u = sw_db w" "sw_ledger u = sw_ledger w" "own_id u = own_id w" "fs_dropAmount (sw_session u) = fs_dropAmount s"
      "fs_status (sw_session u) = RUNNING" for u
    unfolding commit_session_def commit_claimable_def hooks wp_simps with_ledger_def resetSessionTimer_def clear_save_timer_def
      claim_committed_def releaseAdmission_def notifySessionUpdate_def Let_def id_apply
    using u L
    by (simp add: wp_simps)
      (rule wp_transition_ok[OF _ _ _ db(4,5)],
        insert row db(1,2), auto simp: wp_simps own_row_def set_columns_def notify_active_def js_map_simps release_def split: option.splits)
  have fin: "wp (finishSession env now True) (\<lambda>_. ?Q) (\<lambda>_ _. False) u"
    if u: "sw_db u = sw_db w" "sw_ledger u = sw_ledger w" "own_id u = own_id w" "fs_dropAmount (sw_session u) = fs_dropAmount s"
      "fs_status (sw_session u) = RUNNING" for u
    using commit[OF u] u amount
    by (simp add: finishSession_def FINISH_FUEL_def numeral_3_eq_3 finish_checked_def wp_simps env module_env_def)
  have keep: "?Q (upd (\<lambda>s. s\<lparr>fs_completion := c s\<rparr>) u)" if "?Q u" for u c
    using that by (simp add: own_row_upd)
  have "wp (completeSession env now) (\<lambda>_. ?Q) (\<lambda>_ _. False) w"
    unfolding completeSession_def terminal_operation_def trackCompletion_def runRewardOperation_def wp_simps id_apply s(1)[symmetric] s(3) completion_state.case
    using s w
    by (simp add: wp_simps) (rule wp_mono[OF fin], auto simp: own_row_upd)
  thus ?thesis by (auto simp: wp_def split: prod.splits sum.splits)
qed

definition mined_row :: session_row where
  "mined_row = \<lparr>sr_sessionId = ''s1'', sr_status = RUNNING, sr_startTime = 1, sr_targetAddr = ''0x1'', sr_dropAmount = ''40'',
     sr_remoteIP = ''10.0.0.1'', sr_tasks = JsonText (JArr []), sr_data = JsonText (JObj []), sr_claim = None\<rparr>"

definition mined_world :: "faucet_modules \<Rightarrow> faucet_modules session_world" where
  "mined_world m = \<lparr>sw_db = \<lparr>db_sessions = [mined_row], db_kv = [], db_faults = []\<rparr>,
     sw_ledger = put_reservation ''s1'' \<lparr>ar_sessionId = ''s1'', ar_startTime = 1, ar_phase = Running,
       ar_claimCeiling = \<lparr>cc_state = Settled, cc_amount = 100\<rparr>, ar_bindings = []\<rparr> empty_ledger,
     sw_active = [''s1''], sw_rewardsOpen = True, sw_admissionOpen = True, sw_modules = m,
     sw_session = new_session\<lparr>fs_sessionId := ''s1'', fs_status := RUNNING, fs_dropAmount := 50, fs_remoteIP := ''10.0.0.1'',
       fs_persistence := Durable\<rparr>\<rparr>"

definition reset_hook :: "(faucet_modules session_world, session_error) hook" where
  "reset_hook = (5, p_modify (\<lambda>w. w\<lparr>sw_modules := demo_modules\<rparr>))"

lemma complete_session_claimable_witness:
  "\<exists>w' r'. completeSession ((module_env id dec_int demo_config)\<lparr>se_onComplete := [reset_hook]\<rparr>) 5 (mined_world demo_modules) = (Inr (), w') \<and> own_row w' = Some r' \<and>
    sr_status r' = CLAIMABLE \<and> sr_dropAmount r' = dec_int 50"
proof -
  have w: "fs_status (sw_session (mined_world demo_modules)) = RUNNING" "fs_completion (sw_session (mined_world demo_modules)) = NotCompleting"
    "fs_dropAmount (sw_session (mined_world demo_modules)) \<noteq> -1" "sc_minDropAmount demo_config \<le> fs_dropAmount (sw_session (mined_world demo_modules))"
    "db_faults (sw_db (mined_world demo_modules)) = []" "distinct_ids (sw_db (mined_world demo_modules))" "own_row (mined_world demo_modules) = Some mined_row"
    "sr_status mined_row = RUNNING" "sr_claim mined_row = None" "sw_admissionOpen (mined_world demo_modules)"
    "js_has (reservations (sw_ledger (mined_world demo_modules))) (own_id (mined_world demo_modules))" "fs_dropAmount (sw_session (mined_world demo_modules)) = 50"
    by (simp_all add: mined_world_def new_session_def demo_config_def distinct_ids_def own_row_def row_at_def mined_row_def put_reservation_def)
  have hook: "\<forall>u. \<exists>m. run_hooks [] [reset_hook] u = (Inr (), u\<lparr>sw_modules := m\<rparr>)"
    unfolding run_hooks_def reset_hook_def
    by (subst runActionHooks.simps, subst runActionHooks.simps)
      (auto simp: p_then_def p_bind_def p_catch_def p_return_def p_modify_def throw_failures_def)
  from complete_session_claimable[OF refl hook refl w(1-11), of id dec_int 5] show ?thesis unfolding w(12) by blast
qed

end
