(* ===== verification/Faucet_Status.thy ===== *)
theory Faucet_Status
  imports Eth_Claim
begin

text \<open>
  \<^verbatim>\<open>src/src/services/FaucetStatus.ts\<close>: the status lines of the faucet, by key for the ones the
  services set and from a local file for the operator's, and which of them a client sees; with
  the placeholders of \<^verbatim>\<open>src/src/utils/StringUtils.ts\<close> and the version order of
  \<^verbatim>\<open>src/src/utils/VersionCompare.ts\<close> the filters use.
\<close>

subsection \<open>Texts\<close>

text \<open>\<^verbatim>\<open>format.replace(/{(\d+)}/g, ...)\<close>: \<^verbatim>\<open>args[0]\<close> is the format itself.\<close>

definition placeholder :: "string \<Rightarrow> (nat \<times> string) option" where
  "placeholder s = (let ds = takeWhile is_digit s; r = dropWhile is_digit s in
     if ds \<noteq> [] \<and> r \<noteq> [] \<and> hd r = CHR ''}'' then Some (dec_value ds, tl r) else None)"

lemma placeholder_shorter: "placeholder s = Some (n, r) \<Longrightarrow> length r < length s"
proof -
  assume "placeholder s = Some (n, r)"
  hence r: "r = tl (dropWhile is_digit s)" "dropWhile is_digit s \<noteq> []"
    by (auto simp: placeholder_def Let_def split: if_splits)
  have "length (dropWhile is_digit s) \<le> length s" by (rule length_dropWhile_le)
  thus ?thesis using r by (cases "dropWhile is_digit s") auto
qed

function format_from :: "string list \<Rightarrow> string \<Rightarrow> string" where
  "format_from args [] = []"
| "format_from args (c # cs) =
     (if c = CHR ''{'' then
        (case placeholder cs of
           None \<Rightarrow> c # format_from args cs
         | Some (n, r) \<Rightarrow> (if n < length args then args ! n else c # takeWhile is_digit cs @ ''}'') @ format_from args r)
      else c # format_from args cs)"
  by pat_completeness auto
termination
  by (relation "measure (\<lambda>(args, s). length s)") (auto dest: placeholder_shorter)

definition strFormatPlaceholder :: "string \<Rightarrow> string list \<Rightarrow> string" where
  "strFormatPlaceholder format args = format_from (format # args) format"

function strPadLeft :: "string \<Rightarrow> nat \<Rightarrow> char \<Rightarrow> string" where
  "strPadLeft str len pad = (if length str < len then strPadLeft (pad # str) len pad else str)"
  by pat_completeness auto
termination by (relation "measure (\<lambda>(s, n, p). n - length s)") auto

function strPadRight :: "string \<Rightarrow> nat \<Rightarrow> char \<Rightarrow> string" where
  "strPadRight str len pad = (if length str < len then strPadRight (str @ [pad]) len pad else str)"
  by pat_completeness auto
termination by (relation "measure (\<lambda>(s, n, p). n - length s)") auto

declare strPadLeft.simps [simp del] strPadRight.simps [simp del]

subsection \<open>Status lines of the services\<close>

datatype status_level = LevelInfo | LevelWarning | LevelError

record status_filter =
  sf_session :: "bool option"
  sf_country :: "string list option"
  sf_hosting :: "bool option"
  sf_proxy :: "bool option"
  sf_ltVersion :: "string option"
  sf_gtHashrate :: "int option"

record status_entry =
  se_key :: "string option"
  se_level :: "status_level option"
  se_prio :: int
  se_text :: string
  se_blocks :: bool
  se_filter :: "status_filter option"

type_synonym status_table = "(string, status_entry) jsmap"

text \<open>\<^verbatim>\<open>setFaucetStatus\<close> keeps the level of an entry whose text did not change; an absent text
  deletes the entry.  The result is the entry the caller may mark as blocking.\<close>

definition setFaucetStatus :: "string \<Rightarrow> string option \<Rightarrow> status_level option \<Rightarrow> status_table \<Rightarrow> status_entry option \<times> status_table" where
  "setFaucetStatus key statusText statusLevel t =
     (let t' = (case statusText of
         Some (c # cs) \<Rightarrow>
           (case js_get t key of
              Some e \<Rightarrow> if se_text e = c # cs then t
                else js_set key \<lparr>se_key = Some key, se_level = statusLevel, se_prio = 10, se_text = c # cs, se_blocks = False, se_filter = None\<rparr> t
            | None \<Rightarrow> js_set key \<lparr>se_key = Some key, se_level = statusLevel, se_prio = 10, se_text = c # cs, se_blocks = False, se_filter = None\<rparr> t)
       | _ \<Rightarrow> js_delete key t)
      in (js_get t' key, t'))"

end
