(* ===== verification/Wallet_Manager.thy ===== *)
theory Wallet_Manager
  imports Faucet_Status
begin

text \<open>
  \<^verbatim>\<open>src/src/eth/EthWalletManager.ts\<close>: the balance and nonce the faucet believes its wallet
  has, the reservations of signed claim transactions, and the checks every stored
  transaction goes through.  Hashing, signing and the RLP codec are third-party code and
  arguments of the definitions; the answers of the RPC are arguments too.
\<close>

subsection \<open>State\<close>

record wallet_state =
  ws_ready :: bool
  ws_nonce :: int
  ws_balance :: int
  ws_nativeBalance :: int

record claim_reservation =
  cr_nonce :: int
  cr_faucetAmount :: int
  cr_maximumFee :: int

datatype settlement_outcome = Transferred | RevertedTx

datatype coin_type = NATIVE | ERC20

datatype message_option = MsgOff | MsgDefault | MsgText string

text \<open>\<^verbatim>\<open>wc_token\<close> is the token state: its contract and the encoding of a transfer.\<close>

record wallet_config =
  wc_walletAddr :: string
  wc_token :: "(string \<times> (string \<Rightarrow> int \<Rightarrow> string)) option"
  wc_spareFundsAmount :: int
  wc_legacyTx :: bool
  wc_txGasLimit :: int
  wc_txMaxFee :: int
  wc_txPrioFee :: int
  wc_noFundsBalance :: int
  wc_lowFundsBalance :: int
  wc_rpcConnectionError :: message_option
  wc_noFundsError :: message_option
  wc_lowFundsWarning :: message_option
  wc_readable :: "int \<Rightarrow> string"

record wallet =
  wm_state :: wallet_state
  wm_reserved :: "(string, claim_reservation) jsmap"
  wm_status :: status_table

abbreviation wm_balance :: "wallet \<Rightarrow> int" where "wm_balance w \<equiv> ws_balance (wm_state w)"

abbreviation wm_native :: "wallet \<Rightarrow> int" where "wm_native w \<equiv> ws_nativeBalance (wm_state w)"

abbreviation wm_nonce :: "wallet \<Rightarrow> int" where "wm_nonce w \<equiv> ws_nonce (wm_state w)"

text \<open>The fields of a transaction before it is signed, and what the parser reads of a signed one.\<close>

datatype tx_fee = LegacyFee int | MarketFee int int

record tx_fields =
  tf_nonce :: int
  tf_gasLimit :: int
  tf_fee :: tx_fee
  tf_to :: string
  tf_value :: int
  tf_data :: string

record parsed_tx =
  pt_signed :: bool
  pt_nonce :: int
  pt_sender :: string
  pt_value :: int
  pt_gasLimit :: int
  pt_maxFeePerGas :: "int option"
  pt_gasPrice :: "int option"

text \<open>\<^verbatim>\<open>tc_encode\<close> creates, signs and serialises a transaction to hexadecimal digits, or throws;
  \<^verbatim>\<open>tc_decode\<close> is \<^verbatim>\<open>createTxFromRLP\<close>.\<close>

record tx_codec =
  tc_keccak256 :: "string \<Rightarrow> string"
  tc_encode :: "tx_fields \<Rightarrow> string option"
  tc_decode :: "string \<Rightarrow> parsed_tx option"

subsection \<open>Status\<close>

definition message_of :: "message_option \<Rightarrow> string \<Rightarrow> string list \<Rightarrow> string option" where
  "message_of m fallback args = (case m of
      MsgOff \<Rightarrow> None | MsgDefault \<Rightarrow> Some (strFormatPlaceholder fallback args)
    | MsgText [] \<Rightarrow> None | MsgText s \<Rightarrow> Some (strFormatPlaceholder s args))"

definition wallet_message :: "wallet_config \<Rightarrow> wallet_state \<Rightarrow> (string \<times> status_level \<times> bool) option" where
  "wallet_message cfg s =
     (let rpc = (if ws_ready s then None else message_of (wc_rpcConnectionError cfg) ''The faucet could not connect to the network RPC'' []);
          noFunds = (if ws_balance s \<le> wc_noFundsBalance cfg \<or> ws_nativeBalance s \<le> wc_txGasLimit cfg * wc_txMaxFee cfg
             then message_of (wc_noFundsError cfg) ''The faucet is out of funds!'' [] else None);
          low = (if ws_balance s \<le> wc_lowFundsBalance cfg
             then message_of (wc_lowFundsWarning cfg) ''The faucet is running out of funds! Faucet Balance: {1}''
               [wc_readable cfg (ws_balance s)] else None) in
      case rpc of Some m \<Rightarrow> Some (m, LevelError, False)
      | None \<Rightarrow> (case noFunds of Some m \<Rightarrow> Some (m, LevelError, True)
        | None \<Rightarrow> (case low of Some m \<Rightarrow> Some (m, LevelWarning, False) | None \<Rightarrow> None)))"

definition updateFaucetStatus :: "wallet_config \<Rightarrow> wallet \<Rightarrow> wallet" where
  "updateFaucetStatus cfg w =
     (let m = wallet_message cfg (wm_state w);
          (entry, t) = setFaucetStatus ''wallet'' (map_option fst m) (map_option (fst \<circ> snd) m) (wm_status w) in
      w\<lparr>wm_status := (case entry of None \<Rightarrow> t
        | Some e \<Rightarrow> js_set ''wallet'' (e\<lparr>se_blocks := (case m of Some (_, _, b) \<Rightarrow> b | None \<Rightarrow> False)\<rparr>) t)\<rparr>)"

subsection \<open>Signed transactions\<close>

definition parseClaimTransaction :: "wallet_config \<Rightarrow> tx_codec \<Rightarrow> signed_tx \<Rightarrow> string + parsed_tx" where
  "parseClaimTransaction cfg codec t =
     (if \<not> is_safe_integer (st_txNonce t) \<or> st_txNonce t < 0 \<or> \<not> is_tx_hex (st_txHex t) \<or> \<not> is_tx_hash (st_txHash t)
      then Inl ''Invalid signed claim transaction''
      else if toLowerCase (tc_keccak256 codec (st_txHex t)) \<noteq> toLowerCase (st_txHash t)
      then Inl ''Stored claim transaction hash does not match its signed bytes''
      else case tc_decode codec (st_txHex t) of
        None \<Rightarrow> Inl ''Stored claim transaction bytes are invalid''
      | Some p \<Rightarrow>
          if \<not> pt_signed p \<or> pt_nonce p \<noteq> st_txNonce t then Inl ''Stored claim transaction nonce does not match its signed bytes''
          else if toLowerCase (pt_sender p) \<noteq> toLowerCase (wc_walletAddr cfg)
          then Inl ''Stored claim transaction was not signed by the faucet wallet''
          else if pt_maxFeePerGas p = None \<and> pt_gasPrice p = None then Inl ''Stored claim transaction uses an unsupported fee model''
          else Inr p)"

definition getClaimReservation :: "wallet_config \<Rightarrow> tx_codec \<Rightarrow> signed_tx \<Rightarrow> int \<Rightarrow> string + claim_reservation" where
  "getClaimReservation cfg codec t amount =
     (if amount < 0 then Inl ''Invalid claim amount''
      else case parseClaimTransaction cfg codec t of
        Inl e \<Rightarrow> Inl e
      | Inr p \<Rightarrow> Inr \<lparr>cr_nonce = st_txNonce t, cr_faucetAmount = amount,
          cr_maximumFee = pt_gasLimit p * (case pt_maxFeePerGas p of Some f \<Rightarrow> f | None \<Rightarrow> the (pt_gasPrice p))\<rparr>)"

definition getClaimCoinType :: "wallet_config \<Rightarrow> tx_codec \<Rightarrow> signed_tx \<Rightarrow> string + coin_type" where
  "getClaimCoinType cfg codec t = (case parseClaimTransaction cfg codec t of
     Inl e \<Rightarrow> Inl e | Inr p \<Rightarrow> Inr (if pt_value p > 0 then NATIVE else ERC20))"

text \<open>\<^verbatim>\<open>gasPrice\<close> is the node's answer to \<^verbatim>\<open>getGasPrice\<close>, \<^verbatim>\<open>None\<close> when the call failed.\<close>

definition tx_fees :: "wallet_config \<Rightarrow> int option \<Rightarrow> string + tx_fee" where
  "tx_fees cfg gasPrice = (if wc_legacyTx cfg then (case gasPrice of
        None \<Rightarrow> Inl ''RPC error''
      | Some g \<Rightarrow> (let g' = g + wc_txPrioFee cfg in
          Inr (LegacyFee (if wc_txMaxFee cfg > 0 \<and> g' > wc_txMaxFee cfg then wc_txMaxFee cfg else g'))))
     else Inr (MarketFee (wc_txPrioFee cfg) (wc_txMaxFee cfg)))"

definition buildEthTx :: "wallet_config \<Rightarrow> tx_codec \<Rightarrow> int option \<Rightarrow> string \<Rightarrow> int \<Rightarrow> int \<Rightarrow> string option \<Rightarrow> int option \<Rightarrow> string + string" where
  "buildEthTx cfg codec gasPrice target amount nonce data gasLimit =
     try_bind (tx_fees cfg gasPrice) (\<lambda>fee.
       let target' = (if take 2 target = ''0X'' then ''0x'' @ drop 2 target else target) in
       case tc_encode codec \<lparr>tf_nonce = nonce,
           tf_gasLimit = (case gasLimit of Some l \<Rightarrow> if l = 0 then wc_txGasLimit cfg else l | None \<Rightarrow> wc_txGasLimit cfg),
           tf_fee = fee, tf_to = target', tf_value = amount,
           tf_data = (case data of Some (c # cs) \<Rightarrow> c # cs | _ \<Rightarrow> ''0x'')\<rparr> of
         None \<Rightarrow> Inl ''invalid transaction'' | Some hex \<Rightarrow> Inr hex)"

text \<open>The nonce is read when the preparation starts; the gas price may arrive later.\<close>

definition prepare_with_nonce :: "wallet_config \<Rightarrow> tx_codec \<Rightarrow> int option \<Rightarrow> string \<Rightarrow> int \<Rightarrow> int \<Rightarrow> string + signed_tx" where
  "prepare_with_nonce cfg codec gasPrice target amount txNonce =
     try_bind (case wc_token cfg of
         Some (contract, transferData) \<Rightarrow> buildEthTx cfg codec gasPrice contract 0 txNonce (Some (transferData target amount)) None
       | None \<Rightarrow> buildEthTx cfg codec gasPrice target amount txNonce None None) (\<lambda>hex.
       let txHex = ''0x'' @ hex in
       Inr \<lparr>st_txHash = tc_keccak256 codec txHex, st_txHex = txHex, st_txNonce = txNonce\<rparr>)"

definition prepareClaimTx :: "wallet_config \<Rightarrow> tx_codec \<Rightarrow> int option \<Rightarrow> string \<Rightarrow> int \<Rightarrow> wallet \<Rightarrow> string + signed_tx" where
  "prepareClaimTx cfg codec gasPrice target amount w = prepare_with_nonce cfg codec gasPrice target amount (wm_nonce w)"

subsection \<open>Reservations\<close>

definition faucet_cost :: "wallet_config \<Rightarrow> claim_reservation \<Rightarrow> int" where
  "faucet_cost cfg r = cr_faucetAmount r + (if wc_token cfg \<noteq> None then 0 else cr_maximumFee r)"

definition native_cost :: "wallet_config \<Rightarrow> claim_reservation \<Rightarrow> int" where
  "native_cost cfg r = cr_maximumFee r + (if wc_token cfg \<noteq> None then 0 else cr_faucetAmount r)"

definition canReserveClaimTx :: "wallet_config \<Rightarrow> tx_codec \<Rightarrow> signed_tx \<Rightarrow> int \<Rightarrow> wallet \<Rightarrow> string + bool" where
  "canReserveClaimTx cfg codec t amount w = (case getClaimReservation cfg codec t amount of
     Inl e \<Rightarrow> Inl e
   | Inr r \<Rightarrow> Inr (wm_balance w - wc_spareFundsAmount cfg \<ge> faucet_cost cfg r \<and> wm_native w \<ge> native_cost cfg r))"

definition applyClaimReservation :: "wallet_config \<Rightarrow> claim_reservation \<Rightarrow> int \<Rightarrow> wallet_state \<Rightarrow> wallet_state" where
  "applyClaimReservation cfg r direction s =
     (let s1 = s\<lparr>ws_balance := ws_balance s + direction * cr_faucetAmount r,
                 ws_nativeBalance := ws_nativeBalance s + direction * cr_maximumFee r\<rparr> in
      if wc_token cfg \<noteq> None then s1
      else s1\<lparr>ws_balance := ws_balance s1 + direction * cr_maximumFee r,
              ws_nativeBalance := ws_nativeBalance s1 + direction * cr_faucetAmount r\<rparr>)"

definition reserveClaimTx :: "wallet_config \<Rightarrow> tx_codec \<Rightarrow> signed_tx \<Rightarrow> int \<Rightarrow> wallet \<Rightarrow> string + wallet" where
  "reserveClaimTx cfg codec t amount w = (case getClaimReservation cfg codec t amount of
     Inl e \<Rightarrow> Inl e
   | Inr r \<Rightarrow> (let hash = toLowerCase (st_txHash t) in
       if js_has (wm_reserved w) hash then Inr w
       else (let s = (wm_state w)\<lparr>ws_nonce := max (wm_nonce w) (st_txNonce t + 1)\<rparr> in
         Inr (updateFaucetStatus cfg (w\<lparr>wm_reserved := js_set hash r (wm_reserved w), wm_state := applyClaimReservation cfg r (-1) s\<rparr>)))))"

definition cancelClaimTx :: "wallet_config \<Rightarrow> signed_tx \<Rightarrow> wallet \<Rightarrow> wallet" where
  "cancelClaimTx cfg t w = (let hash = toLowerCase (st_txHash t) in
     case js_get (wm_reserved w) hash of
       None \<Rightarrow> w
     | Some r \<Rightarrow> updateFaucetStatus cfg (w\<lparr>wm_reserved := js_delete hash (wm_reserved w), wm_state := applyClaimReservation cfg r 1 (wm_state w)\<rparr>))"

definition settle_reservation :: "wallet_config \<Rightarrow> claim_reservation \<Rightarrow> settlement_outcome \<Rightarrow> int \<Rightarrow> wallet_state \<Rightarrow> wallet_state" where
  "settle_reservation cfg r outcome fee s =
     (let feeAdjustment = cr_maximumFee r - fee;
          s1 = s\<lparr>ws_nativeBalance := ws_nativeBalance s + feeAdjustment\<rparr> in
      if wc_token cfg \<noteq> None
      then (if outcome = RevertedTx then s1\<lparr>ws_balance := ws_balance s1 + cr_faucetAmount r\<rparr> else s1)
      else (let s2 = s1\<lparr>ws_balance := ws_balance s1 + feeAdjustment\<rparr> in
        if outcome = RevertedTx
        then s2\<lparr>ws_balance := ws_balance s2 + cr_faucetAmount r, ws_nativeBalance := ws_nativeBalance s2 + cr_faucetAmount r\<rparr>
        else s2))"

definition releaseClaimTx :: "wallet_config \<Rightarrow> signed_tx \<Rightarrow> settlement_outcome \<Rightarrow> int \<Rightarrow> wallet \<Rightarrow> string + wallet" where
  "releaseClaimTx cfg t outcome fee w =
     (if fee < 0 then Inl ''Invalid claim settlement fee''
      else (let hash = toLowerCase (st_txHash t) in
        case js_get (wm_reserved w) hash of
          None \<Rightarrow> Inr w
        | Some r \<Rightarrow> Inr (updateFaucetStatus cfg (w\<lparr>wm_reserved := js_delete hash (wm_reserved w),
            wm_state := settle_reservation cfg r outcome fee (wm_state w)\<rparr>))))"

subsection \<open>The state of the wallet on the chain\<close>

text \<open>\<^verbatim>\<open>None\<close>: a call failed; \<^verbatim>\<open>Some (native, token, txCount)\<close>: the answers of the node.\<close>

definition apply_reservations :: "wallet_config \<Rightarrow> (string, claim_reservation) jsmap \<Rightarrow> wallet_state \<Rightarrow> wallet_state" where
  "apply_reservations cfg rs s = fold (\<lambda>(h, r) s.
     applyClaimReservation cfg r (-1) (s\<lparr>ws_nonce := max (ws_nonce s) (cr_nonce r + 1)\<rparr>)) rs s"

definition loadWalletState :: "wallet_config \<Rightarrow> (int \<times> int \<times> int) option \<Rightarrow> wallet \<Rightarrow> wallet" where
  "loadWalletState cfg answer w = updateFaucetStatus cfg (case answer of
     Some (native, token, txCount) \<Rightarrow> w\<lparr>wm_state := apply_reservations cfg (wm_reserved w)
        \<lparr>ws_ready = True, ws_nonce = txCount, ws_balance = (if wc_token cfg \<noteq> None then token else native), ws_nativeBalance = native\<rparr>\<rparr>
   | None \<Rightarrow> w\<lparr>wm_state := \<lparr>ws_ready = False, ws_nonce = 0, ws_balance = 0, ws_nativeBalance = 0\<rparr>\<rparr>)"

text \<open>\<^verbatim>\<open>broadcastClaimTx\<close> accepts only the hash of the transaction as the answer of the pool.\<close>

definition broadcastClaimTx :: "wallet_config \<Rightarrow> tx_codec \<Rightarrow> string option \<Rightarrow> signed_tx \<Rightarrow> string + unit" where
  "broadcastClaimTx cfg codec answer t = (case parseClaimTransaction cfg codec t of
     Inl e \<Rightarrow> Inl e
   | Inr _ \<Rightarrow> (case answer of
       None \<Rightarrow> Inl ''RPC error''
     | Some rpcHash \<Rightarrow> if toLowerCase rpcHash = toLowerCase (st_txHash t) then Inr ()
         else Inl ''RPC returned a transaction hash that does not match the signed claim transaction''))"

text \<open>\<^verbatim>\<open>sendCustomTx\<close>: the nonce advances when the pool took the transaction.  It is one step here: the
  source reads the nonce and increments it on two sides of an await.\<close>

definition sendCustomTx :: "wallet_config \<Rightarrow> tx_codec \<Rightarrow> int option \<Rightarrow> string option \<Rightarrow> string \<Rightarrow> int \<Rightarrow> string option \<Rightarrow> int option \<Rightarrow>
    wallet \<Rightarrow> (string + string) \<times> wallet" where
  "sendCustomTx cfg codec gasPrice answer target amount data gasLimit w =
     (case buildEthTx cfg codec gasPrice target amount (wm_nonce w) data gasLimit of
        Inl e \<Rightarrow> (Inl e, w)
      | Inr hex \<Rightarrow> (case answer of
          None \<Rightarrow> (Inl ''RPC error'', w)
        | Some txHash \<Rightarrow> (Inr txHash, w\<lparr>wm_state := (wm_state w)\<lparr>ws_nonce := wm_nonce w + 1\<rparr>\<rparr>)))"

definition custom_tx_mined :: "wallet_config \<Rightarrow> int \<Rightarrow> wallet \<Rightarrow> wallet" where
  "custom_tx_mined cfg txfee w = w\<lparr>wm_state := (wm_state w)\<lparr>ws_nativeBalance := wm_native w - txfee,
     ws_balance := (if wc_token cfg \<noteq> None then wm_balance w else wm_balance w - txfee)\<rparr>\<rparr>"

subsection \<open>The books of the wallet\<close>

text \<open>What the faucet believes the chain holds: the free balance and everything reserved.\<close>

definition reserved_faucet :: "wallet_config \<Rightarrow> wallet \<Rightarrow> int" where
  "reserved_faucet cfg w = sum_list (map (faucet_cost cfg \<circ> snd) (wm_reserved w))"

definition reserved_native :: "wallet_config \<Rightarrow> wallet \<Rightarrow> int" where
  "reserved_native cfg w = sum_list (map (native_cost cfg \<circ> snd) (wm_reserved w))"

definition books :: "wallet_config \<Rightarrow> wallet \<Rightarrow> int \<times> int" where
  "books cfg w = (wm_balance w + reserved_faucet cfg w, wm_native w + reserved_native cfg w)"

datatype wallet_op =
    OpReserve signed_tx int
  | OpCancel signed_tx
  | OpRelease signed_tx settlement_outcome int
  | OpLoad "(int \<times> int \<times> int) option"
  | OpCustom "int option" "string option" string int "string option" "int option"
  | OpMined int

primrec run_op :: "wallet_config \<Rightarrow> tx_codec \<Rightarrow> wallet_op \<Rightarrow> wallet \<Rightarrow> wallet" where
  "run_op cfg codec (OpReserve t amount) w = keep_on_error w (reserveClaimTx cfg codec t amount w)"
| "run_op cfg codec (OpCancel t) w = cancelClaimTx cfg t w"
| "run_op cfg codec (OpRelease t outcome fee) w = keep_on_error w (releaseClaimTx cfg t outcome fee w)"
| "run_op cfg codec (OpLoad answer) w = loadWalletState cfg answer w"
| "run_op cfg codec (OpCustom g a target amount data limit) w = snd (sendCustomTx cfg codec g a target amount data limit w)"
| "run_op cfg codec (OpMined fee) w = custom_tx_mined cfg fee w"

text \<open>What an operation does to the books: only the chain and a settled transaction change them.\<close>

fun book_op :: "wallet_config \<Rightarrow> (string, claim_reservation) jsmap \<Rightarrow> wallet_op \<Rightarrow> int \<times> int \<Rightarrow> int \<times> int" where
  "book_op cfg rs (OpRelease t outcome fee) (b, n) = (case js_get rs (toLowerCase (st_txHash t)) of
     Some r \<Rightarrow> if fee < 0 then (b, n) else
       (let moved = (if outcome = Transferred then cr_faucetAmount r else 0) in
        if wc_token cfg \<noteq> None then (b - moved, n - fee) else (b - moved - fee, n - moved - fee))
   | None \<Rightarrow> (b, n))"
| "book_op cfg rs (OpLoad (Some (native, token, _))) _ = (if wc_token cfg \<noteq> None then token else native, native)"
| "book_op cfg rs (OpLoad None) _ = (sum_list (map (faucet_cost cfg \<circ> snd) rs), sum_list (map (native_cost cfg \<circ> snd) rs))"
| "book_op cfg rs (OpMined fee) (b, n) = (if wc_token cfg \<noteq> None then b else b - fee, n - fee)"
| "book_op cfg rs _ bn = bn"

definition wallet_inv :: "wallet \<Rightarrow> bool" where
  "wallet_inv w \<longleftrightarrow> js_map_ok (wm_reserved w) \<and> (ws_ready (wm_state w) \<longrightarrow> (\<forall>(h, r) \<in> set (wm_reserved w). cr_nonce r < wm_nonce w))"

lemma status_fields [simp]:
  "wm_state (updateFaucetStatus cfg w) = wm_state w" "wm_reserved (updateFaucetStatus cfg w) = wm_reserved w"
  by (simp_all add: updateFaucetStatus_def Let_def split: prod.split)

lemma apply_fields [simp]:
  "ws_ready (applyClaimReservation cfg r d s) = ws_ready s" "ws_nonce (applyClaimReservation cfg r d s) = ws_nonce s"
  "ws_balance (applyClaimReservation cfg r d s) = ws_balance s + d * faucet_cost cfg r"
  "ws_nativeBalance (applyClaimReservation cfg r d s) = ws_nativeBalance s + d * native_cost cfg r"
  by (simp_all add: applyClaimReservation_def faucet_cost_def native_cost_def Let_def algebra_simps)

lemma settlement_fields [simp]:
  "ws_ready (settle_reservation cfg r outcome fee s) = ws_ready s" "ws_nonce (settle_reservation cfg r outcome fee s) = ws_nonce s"
  by (simp_all add: settle_reservation_def Let_def)

lemma settle_balances:
  "ws_balance (settle_reservation cfg r outcome fee s) = ws_balance s + faucet_cost cfg r
     - (if outcome = Transferred then cr_faucetAmount r else 0) - (if wc_token cfg \<noteq> None then 0 else fee)"
  "ws_nativeBalance (settle_reservation cfg r outcome fee s) = ws_nativeBalance s + native_cost cfg r
     - (if wc_token cfg = None \<and> outcome = Transferred then cr_faucetAmount r else 0) - fee"
  unfolding settle_reservation_def faucet_cost_def native_cost_def Let_def
  by (cases outcome; cases "wc_token cfg = None"; simp only: if_True if_False settlement_outcome.simps simp_thms; simp)+

lemma sum_delete:
  assumes "js_map_ok m" "js_get m k = Some v"
  shows "sum_list (map (f \<circ> snd) (js_delete k m)) = sum_list (map (f \<circ> snd) m) - (f v :: int)"
  using assms
proof (induction m)
  case (Cons x m)
  obtain h r where x: "x = (h, r)" by (cases x)
  show ?case
  proof (cases "h = k")
    case True
    hence "js_get m k = None" using Cons.prems(1) by (simp add: x map_of_eq_None_iff)
    thus ?thesis using Cons.prems(2) True by (simp add: x js_delete_absent)
  next
    case False
    hence "js_get m k = Some v" "js_map_ok m" using Cons.prems by (simp_all add: x)
    thus ?thesis using Cons.IH False by (simp add: x)
  qed
qed simp

lemma apply_reservations_fields:
  "ws_ready (apply_reservations cfg rs s) = ws_ready s"
  "ws_balance (apply_reservations cfg rs s) = ws_balance s - sum_list (map (faucet_cost cfg \<circ> snd) rs)"
  "ws_nativeBalance (apply_reservations cfg rs s) = ws_nativeBalance s - sum_list (map (native_cost cfg \<circ> snd) rs)"
  unfolding apply_reservations_def by (induction rs arbitrary: s) (auto simp: algebra_simps)

lemma apply_reservations_nonce:
  "ws_nonce s \<le> ws_nonce (apply_reservations cfg rs s) \<and> (\<forall>(h, r) \<in> set rs. cr_nonce r < ws_nonce (apply_reservations cfg rs s))"
  unfolding apply_reservations_def
proof (induction rs arbitrary: s)
  case (Cons x rs)
  obtain h r where x: "x = (h, r)" by (cases x)
  let ?s = "applyClaimReservation cfg r (-1) (s\<lparr>ws_nonce := max (ws_nonce s) (cr_nonce r + 1)\<rparr>)"
  show ?case using Cons.IH[of ?s] unfolding x by (auto simp: max_def split: if_splits)
qed simp

lemma reservation_nonce: "getClaimReservation cfg codec t amount = Inr r \<Longrightarrow> cr_nonce r = st_txNonce t \<and> cr_faucetAmount r = amount \<and> 0 \<le> amount"
  by (auto simp: getClaimReservation_def split: if_splits sum.splits)

lemma in_delete: "x \<in> set (js_delete k m) \<Longrightarrow> x \<in> set m"
  by (induction m) (auto split: if_splits)

lemma reserve_new:
  assumes "reserveClaimTx cfg codec t amount w = Inr w'" "\<not> js_has (wm_reserved w) (toLowerCase (st_txHash t))"
  obtains r where "getClaimReservation cfg codec t amount = Inr r" "wm_reserved w' = wm_reserved w @ [(toLowerCase (st_txHash t), r)]"
    "wm_balance w' = wm_balance w - faucet_cost cfg r" "wm_native w' = wm_native w - native_cost cfg r"
    "wm_nonce w' = max (wm_nonce w) (st_txNonce t + 1)" "ws_ready (wm_state w') = ws_ready (wm_state w)"
  using assms by (auto simp: reserveClaimTx_def Let_def js_set_absent split: sum.splits)

lemma reserve_cases:
  "keep_on_error w (reserveClaimTx cfg codec t amount w) = w \<or>
   (\<exists>r w'. \<not> js_has (wm_reserved w) (toLowerCase (st_txHash t)) \<and> reserveClaimTx cfg codec t amount w = Inr w' \<and>
     keep_on_error w (reserveClaimTx cfg codec t amount w) = w' \<and> cr_nonce r = st_txNonce t \<and>
     wm_reserved w' = wm_reserved w @ [(toLowerCase (st_txHash t), r)] \<and>
     wm_balance w' = wm_balance w - faucet_cost cfg r \<and> wm_native w' = wm_native w - native_cost cfg r \<and>
     wm_nonce w' = max (wm_nonce w) (st_txNonce t + 1) \<and> ws_ready (wm_state w') = ws_ready (wm_state w))"
proof (cases "reserveClaimTx cfg codec t amount w")
  case (Inr w')
  show ?thesis
  proof (cases "js_has (wm_reserved w) (toLowerCase (st_txHash t))")
    case True
    thus ?thesis using Inr by (auto simp: reserveClaimTx_def Let_def split: sum.splits)
  next
    case False
    show ?thesis by (rule reserve_new[OF Inr False]) (use False Inr reservation_nonce in auto)
  qed
qed simp

lemma books_simps:
  "books cfg (w\<lparr>wm_state := s\<rparr>) = (ws_balance s + reserved_faucet cfg w, ws_nativeBalance s + reserved_native cfg w)"
  by (simp add: books_def reserved_faucet_def reserved_native_def)

lemma wallet_step:
  assumes "wallet_inv w"
  shows "wallet_inv (run_op cfg codec op w) \<and> books cfg (run_op cfg codec op w) = book_op cfg (wm_reserved w) op (books cfg w)"
proof (cases op)
  case (OpReserve t amount)
  show ?thesis using reserve_cases[of w cfg codec t amount] assms unfolding OpReserve run_op.simps book_op.simps
    by (elim disjE exE) (auto simp: wallet_inv_def books_def reserved_faucet_def reserved_native_def map_of_eq_None_iff max_def)
next
  case (OpCancel t)
  show ?thesis using assms unfolding OpCancel
    by (auto simp: cancelClaimTx_def Let_def wallet_inv_def books_def reserved_faucet_def reserved_native_def sum_delete
        dest!: in_delete split: option.split)
next
  case (OpRelease t outcome fee)
  show ?thesis using assms unfolding OpRelease
    by (auto simp: releaseClaimTx_def Let_def wallet_inv_def books_def reserved_faucet_def reserved_native_def sum_delete settle_balances
        dest!: in_delete split: option.split)
next
  case (OpLoad answer)
  have n: "(h, r) \<in> set (wm_reserved w) \<Longrightarrow> cr_nonce r < ws_nonce (apply_reservations cfg (wm_reserved w) s)" for h r s
    using apply_reservations_nonce[of s cfg "wm_reserved w"] by auto
  show ?thesis using assms unfolding OpLoad
    by (cases answer) (auto simp: loadWalletState_def wallet_inv_def books_def reserved_faucet_def reserved_native_def
        apply_reservations_fields intro!: n)
next
  case (OpCustom g a target amount data limit)
  show ?thesis using assms unfolding OpCustom
    by (auto simp: sendCustomTx_def wallet_inv_def books_def reserved_faucet_def reserved_native_def split: sum.splits option.splits)
next
  case (OpMined fee)
  show ?thesis using assms unfolding OpMined
    by (auto simp: custom_tx_mined_def wallet_inv_def books_def reserved_faucet_def reserved_native_def)
qed

primrec book_run :: "wallet_config \<Rightarrow> tx_codec \<Rightarrow> wallet_op list \<Rightarrow> wallet \<Rightarrow> int \<times> int \<Rightarrow> int \<times> int" where
  "book_run cfg codec [] w bn = bn"
| "book_run cfg codec (op # ops) w bn = book_run cfg codec ops (run_op cfg codec op w) (book_op cfg (wm_reserved w) op bn)"

text \<open>C30. The wallet's books are exact.  Whatever sequence of reservations, cancellations, releases,
  refreshes and refill transactions runs, free balance plus reserved costs is what the chain
  reported less what settled transactions really spent, no reservation is counted twice, and
  every reserved nonce stays below the nonce of the next transaction.\<close>

theorem wallet_books_exact:
  assumes "wallet_inv w"
  shows "wallet_inv (fold (run_op cfg codec) ops w) \<and>
    books cfg (fold (run_op cfg codec) ops w) = book_run cfg codec ops w (books cfg w)"
  using assms
proof (induction ops arbitrary: w)
  case (Cons op ops)
  show ?case using Cons.IH[of "run_op cfg codec op w"] wallet_step[OF Cons.prems, of cfg codec op] by simp
qed simp

text \<open>A reservation the wallet grants never touches the funds it has to spare, and a native
  balance that covers the fees stays non-negative.\<close>

lemma reservation_keeps_spare_funds:
  assumes "canReserveClaimTx cfg codec t amount w = Inr True" "\<not> js_has (wm_reserved w) (toLowerCase (st_txHash t))"
  shows "\<exists>w'. reserveClaimTx cfg codec t amount w = Inr w' \<and> wc_spareFundsAmount cfg \<le> wm_balance w' \<and> 0 \<le> wm_native w' \<and>
    st_txNonce t < wm_nonce w' \<and> books cfg w' = books cfg w"
proof -
  obtain r where r: "getClaimReservation cfg codec t amount = Inr r"
    "faucet_cost cfg r \<le> wm_balance w - wc_spareFundsAmount cfg" "native_cost cfg r \<le> wm_native w"
    using assms(1) by (auto simp: canReserveClaimTx_def split: sum.splits)
  then obtain w' where w': "reserveClaimTx cfg codec t amount w = Inr w'"
    using assms(2) by (auto simp: reserveClaimTx_def Let_def)
  show ?thesis
    by (rule reserve_new[OF w' assms(2)]) (use r w' in \<open>auto simp: books_def reserved_faucet_def reserved_native_def\<close>)
qed

subsection \<open>A prepared transaction\<close>

text \<open>What the libraries document: a hash is 32 bytes, and parsing a serialised transaction gives
  back the fields it was made of, signed by the wallet's key.\<close>

definition fee_per_gas :: "tx_fee \<Rightarrow> int" where
  "fee_per_gas f = (case f of LegacyFee g \<Rightarrow> g | MarketFee _ m \<Rightarrow> m)"

definition codec_ok :: "wallet_config \<Rightarrow> tx_codec \<Rightarrow> bool" where
  "codec_ok cfg codec \<longleftrightarrow> (\<forall>h. is_tx_hash (tc_keccak256 codec h)) \<and>
     (\<forall>f hex. tc_encode codec f = Some hex \<longrightarrow> is_tx_hex (''0x'' @ hex) \<and>
        tc_decode codec (''0x'' @ hex) = Some \<lparr>pt_signed = True, pt_nonce = tf_nonce f, pt_sender = wc_walletAddr cfg,
          pt_value = tf_value f, pt_gasLimit = tf_gasLimit f,
          pt_maxFeePerGas = (case tf_fee f of MarketFee _ m \<Rightarrow> Some m | LegacyFee _ \<Rightarrow> None),
          pt_gasPrice = (case tf_fee f of LegacyFee g \<Rightarrow> Some g | MarketFee _ _ \<Rightarrow> None)\<rparr>)"

lemma build_parses:
  assumes c: "codec_ok cfg codec" and b: "buildEthTx cfg codec gasPrice target amount nonce data limit = Inr hex"
    and n: "0 \<le> nonce" "is_safe_integer nonce"
  shows "\<exists>fee. tx_fees cfg gasPrice = Inr fee \<and>
    (\<forall>t. t = \<lparr>st_txHash = tc_keccak256 codec (''0x'' @ hex), st_txHex = ''0x'' @ hex, st_txNonce = nonce\<rparr> \<longrightarrow>
      (\<exists>p. parseClaimTransaction cfg codec t = Inr p \<and> pt_value p = amount \<and> pt_nonce p = nonce \<and>
        (limit = None \<longrightarrow> pt_gasLimit p = wc_txGasLimit cfg) \<and>
        (case pt_maxFeePerGas p of Some f \<Rightarrow> f | None \<Rightarrow> the (pt_gasPrice p)) = fee_per_gas fee))"
proof -
  obtain fee f where f: "tx_fees cfg gasPrice = Inr fee" "tc_encode codec f = Some hex" "tf_nonce f = nonce" "tf_value f = amount" "tf_fee f = fee"
    "limit = None \<longrightarrow> tf_gasLimit f = wc_txGasLimit cfg"
    using b by (auto simp: buildEthTx_def try_bind_Inr_iff Let_def split: option.splits)
  note d = c[unfolded codec_ok_def, THEN conjunct2, rule_format, OF f(2)] c[unfolded codec_ok_def, THEN conjunct1, rule_format]
  show ?thesis using d f n by (cases fee) (auto simp: parseClaimTransaction_def fee_per_gas_def)
qed

text \<open>C32. What the wallet prepares it can always take up again: a prepared claim transaction passes
  the checks of a stored one, it is recognised as native or token payment, and its
  reservation has the wallet's nonce, the amount and the full gas limit at the signed fee.\<close>

theorem prepared_claim_reservable:
  assumes "codec_ok cfg codec" "prepareClaimTx cfg codec gasPrice target amount w = Inr t"
    and "0 \<le> wm_nonce w" "is_safe_integer (wm_nonce w)" "0 < amount"
  shows "\<exists>fee. tx_fees cfg gasPrice = Inr fee \<and>
    getClaimReservation cfg codec t amount = Inr \<lparr>cr_nonce = wm_nonce w, cr_faucetAmount = amount,
      cr_maximumFee = wc_txGasLimit cfg * fee_per_gas fee\<rparr> \<and>
    getClaimCoinType cfg codec t = Inr (if wc_token cfg = None then NATIVE else ERC20)"
proof (cases "wc_token cfg")
  case None
  then obtain hex where "buildEthTx cfg codec gasPrice target amount (wm_nonce w) None None = Inr hex"
    "t = \<lparr>st_txHash = tc_keccak256 codec (''0x'' @ hex), st_txHex = ''0x'' @ hex, st_txNonce = wm_nonce w\<rparr>"
    using assms(2) by (auto simp: prepareClaimTx_def prepare_with_nonce_def Let_def try_bind_Inr_iff)
  thus ?thesis using build_parses[OF assms(1) _ assms(3,4)] None assms(5)
    by (fastforce simp: getClaimReservation_def getClaimCoinType_def)
next
  case (Some c)
  then obtain d hex where "buildEthTx cfg codec gasPrice (fst c) 0 (wm_nonce w) (Some d) None = Inr hex"
    "t = \<lparr>st_txHash = tc_keccak256 codec (''0x'' @ hex), st_txHex = ''0x'' @ hex, st_txNonce = wm_nonce w\<rparr>"
    using assms(2) by (cases c) (auto simp: prepareClaimTx_def prepare_with_nonce_def Let_def try_bind_Inr_iff)
  thus ?thesis using build_parses[OF assms(1) _ assms(3,4)] Some assms(5)
    by (fastforce simp: getClaimReservation_def getClaimCoinType_def)
qed

subsection \<open>A wallet\<close>

definition demo_wallet_config :: wallet_config where
  "demo_wallet_config = \<lparr>wc_walletAddr = ''0xfaucet'', wc_token = None, wc_spareFundsAmount = 100, wc_legacyTx = False,
     wc_txGasLimit = 21, wc_txMaxFee = 10, wc_txPrioFee = 2, wc_noFundsBalance = 0, wc_lowFundsBalance = 50,
     wc_rpcConnectionError = MsgDefault, wc_noFundsError = MsgOff, wc_lowFundsWarning = MsgOff, wc_readable = dec_int\<rparr>"

definition demo_fields :: tx_fields where
  "demo_fields = \<lparr>tf_nonce = 7, tf_gasLimit = 21, tf_fee = MarketFee 2 10, tf_to = ''0x01'', tf_value = 500, tf_data = ''0x''\<rparr>"

definition demo_codec :: tx_codec where
  "demo_codec = \<lparr>tc_keccak256 = (\<lambda>_. ''0x'' @ replicate 64 CHR ''a''),
     tc_encode = (\<lambda>f. if f = demo_fields then Some ''02'' else None),
     tc_decode = (\<lambda>_. Some \<lparr>pt_signed = True, pt_nonce = 7, pt_sender = ''0xfaucet'', pt_value = 500, pt_gasLimit = 21,
        pt_maxFeePerGas = Some 10, pt_gasPrice = None\<rparr>)\<rparr>"

definition demo_wallet :: wallet where
  "demo_wallet = \<lparr>wm_state = \<lparr>ws_ready = True, ws_nonce = 7, ws_balance = 1000, ws_nativeBalance = 1000\<rparr>, wm_reserved = [], wm_status = []\<rparr>"

definition demo_tx :: signed_tx where
  "demo_tx = \<lparr>st_txHash = ''0x'' @ replicate 64 CHR ''a'', st_txHex = ''0x02'', st_txNonce = 7\<rparr>"

lemma demo_codec_ok: "codec_ok demo_wallet_config demo_codec"
  by (auto simp: codec_ok_def demo_codec_def demo_wallet_config_def demo_fields_def is_tx_hash_def is_tx_hex_def hex_prefixed_def
      is_hex_def is_digit_def split: if_splits)

lemma demo_prepare: "prepareClaimTx demo_wallet_config demo_codec None ''0x01'' 500 demo_wallet = Inr demo_tx"
  by (simp add: prepareClaimTx_def prepare_with_nonce_def buildEthTx_def tx_fees_def demo_wallet_config_def demo_codec_def demo_fields_def demo_wallet_def demo_tx_def)

lemma prepared_claim_reservable_witness:
  "getClaimReservation demo_wallet_config demo_codec demo_tx 500 = Inr \<lparr>cr_nonce = 7, cr_faucetAmount = 500, cr_maximumFee = 210\<rparr>"
  using prepared_claim_reservable[OF demo_codec_ok demo_prepare]
  by (simp add: demo_wallet_def is_safe_integer_def max_safe_integer_def tx_fees_def demo_wallet_config_def fee_per_gas_def)

lemma demo_reservation: "getClaimReservation demo_wallet_config demo_codec demo_tx 500 = Inr \<lparr>cr_nonce = 7, cr_faucetAmount = 500, cr_maximumFee = 210\<rparr>"
  by (simp add: getClaimReservation_def parseClaimTransaction_def demo_tx_def demo_codec_def demo_wallet_config_def is_safe_integer_def
      max_safe_integer_def is_tx_hash_def is_tx_hex_def hex_prefixed_def is_hex_def is_digit_def)

lemma reservation_keeps_spare_funds_at:
  "\<exists>w'. reserveClaimTx demo_wallet_config demo_codec demo_tx 500 demo_wallet = Inr w' \<and> 100 \<le> wm_balance w'"
proof -
  have "canReserveClaimTx demo_wallet_config demo_codec demo_tx 500 demo_wallet = Inr True"
    by (simp add: canReserveClaimTx_def demo_reservation) (simp add: faucet_cost_def native_cost_def demo_wallet_def demo_wallet_config_def)
  from reservation_keeps_spare_funds[OF this] show ?thesis by (auto simp: demo_wallet_def demo_wallet_config_def)
qed

lemma wallet_books_exact_witness:
  "books demo_wallet_config (fold (run_op demo_wallet_config demo_codec) [OpReserve demo_tx 500, OpRelease demo_tx Transferred 200] demo_wallet) = (300, 300)"
proof -
  have i: "wallet_inv demo_wallet" by (simp add: wallet_inv_def demo_wallet_def)
  let ?w = "run_op demo_wallet_config demo_codec (OpReserve demo_tx 500) demo_wallet"
  have "wm_reserved ?w = [(toLowerCase (st_txHash demo_tx), \<lparr>cr_nonce = 7, cr_faucetAmount = 500, cr_maximumFee = 210\<rparr>)]"
    by (simp add: reserveClaimTx_def demo_reservation Let_def) (simp add: demo_wallet_def)
  hence "book_run demo_wallet_config demo_codec [OpReserve demo_tx 500, OpRelease demo_tx Transferred 200] demo_wallet
      (books demo_wallet_config demo_wallet) = (300, 300)"
    by (simp del: run_op.simps add: books_def reserved_faucet_def reserved_native_def) (simp add: demo_wallet_def demo_wallet_config_def)
  thus ?thesis using wallet_books_exact[OF i, of demo_wallet_config demo_codec "[OpReserve demo_tx 500, OpRelease demo_tx Transferred 200]"]
    by simp
qed

end
