(* ===== verification/Claim_Manager.thy ===== *)
theory Claim_Manager
  imports Wallet_Manager Session_Rows
begin

text \<open>
  \<^verbatim>\<open>src/src/eth/EthClaimManager.ts\<close>: the payout engine.  Every asynchronous method is cut at
  its awaits into tasks; a task runs to its next await and leaves what continues it.  The
  scheduler may resume any waiting task with any answer of the network, so every
  interleaving of the queue, the broadcasts, the receipt watches and the completions is a
  run of the model.  A database request takes effect when it is issued, and its result is
  delivered later.  \<^verbatim>\<open>EthClaimInfo\<close> objects are shared between the maps, the queue and the
  tasks: they live in a store, and the code's \<^verbatim>\<open>===\<close> compares their addresses.
\<close>

subsection \<open>State\<close>

type_synonym ref = nat

datatype receipt = Receipt bool nat nat

datatype transition_next =
    AfterPrepared
  | AfterFailed
  | AfterPending
  | AfterTerminal receipt nat

datatype transition_stage =
    CasCall
  | CasDone "db_error + bool"
  | FetchDone "db_error option" "db_error + store_data option"

datatype claim_task =
    QueueLoop
  | QueuePrepare ref int
  | QueueTail
  | QueueRefill
  | Transition transition_next ref eth_claim eth_claim transition_stage
  | Rebroadcast ref
  | BroadcastSent ref signed_tx
  | AwaitReceipt ref
  | ReceiptWatch ref signed_tx
  | Settle ref receipt nat
  | Completion ref
  | CompletionHooks ref
  | Finalize ref
  | FinalizeDone ref "db_error + bool"
  | FinalizeFetched ref "db_error + store_data option"
  | CreateHooks store_data string
  | CreateDone claim_info "db_error + bool"

text \<open>\<^verbatim>\<open>cw_sent\<close> and \<^verbatim>\<open>cw_accounted\<close> are history: the transactions handed to the network, and
  the sessions whose confirmation hooks have succeeded.\<close>

record claim_world =
  cw_initialized :: bool
  cw_objects :: "claim_info list"
  cw_dict :: "(string, ref) jsmap"
  cw_queue :: "ref list"
  cw_pending :: "(string, ref) jsmap"
  cw_history :: "(int, ref) jsmap"
  cw_completions :: "string list"
  cw_queueTask :: bool
  cw_lastIdx :: int
  cw_lastProcessed :: int
  cw_lastConfirmed :: int
  cw_db :: faucet_db
  cw_wallet :: wallet
  cw_tasks :: "claim_task list"
  cw_sent :: "(string \<times> signed_tx) list"
  cw_accounted :: "string list"

record claim_env =
  ce_wallet :: wallet_config
  ce_codec :: tx_codec
  ce_maxPending :: int
  ce_queueNoFunds :: bool
  ce_minDropAmount :: int
  ce_maxDropAmount :: int

definition claim_obj :: "claim_world \<Rightarrow> ref \<Rightarrow> claim_info" where
  "claim_obj w ref = cw_objects w ! ref"

abbreviation obj_session :: "claim_world \<Rightarrow> ref \<Rightarrow> string" where
  "obj_session w ref \<equiv> ci_session (claim_obj w ref)"

abbreviation obj_claim :: "claim_world \<Rightarrow> ref \<Rightarrow> eth_claim" where
  "obj_claim w ref \<equiv> ci_claim (claim_obj w ref)"

definition set_claim :: "ref \<Rightarrow> eth_claim \<Rightarrow> claim_world \<Rightarrow> claim_world" where
  "set_claim ref c w = w\<lparr>cw_objects := (cw_objects w)[ref := (claim_obj w ref)\<lparr>ci_claim := c\<rparr>]\<rparr>"

definition new_claim :: "claim_info \<Rightarrow> claim_world \<Rightarrow> ref \<times> claim_world" where
  "new_claim info w = (length (cw_objects w), w\<lparr>cw_objects := cw_objects w @ [info]\<rparr>)"

definition spawn :: "claim_task \<Rightarrow> claim_world \<Rightarrow> claim_world" where
  "spawn t w = w\<lparr>cw_tasks := cw_tasks w @ [t]\<rparr>"

text \<open>A database request, its effect now and its result for the task that waits.\<close>

definition request :: "'a db_op \<Rightarrow> (db_error + 'a \<Rightarrow> claim_task) \<Rightarrow> claim_world \<Rightarrow> claim_world" where
  "request m k w = (case m (cw_db w) of (r, db) \<Rightarrow> spawn (k r) (w\<lparr>cw_db := db\<rparr>))"

definition with_phase :: "eth_claim \<Rightarrow> claim_phase \<Rightarrow> eth_claim" where
  "with_phase c ph = c\<lparr>ec_phase := ph\<rparr>"

definition obj_amount :: "claim_world \<Rightarrow> ref \<Rightarrow> int option" where
  "obj_amount w ref = bigint_of_string (ci_amount (claim_obj w ref))"

subsection \<open>Settling\<close>

definition startClaimReconciliation :: "ref \<Rightarrow> claim_world \<Rightarrow> claim_world" where
  "startClaimReconciliation ref w = (if cw_initialized w then spawn (AwaitReceipt ref) (spawn (Rebroadcast ref) w) else w)"

text \<open>\<^verbatim>\<open>getConfirmedClaimCompletion\<close> joins the completion of the session when there is one.\<close>

definition getConfirmedClaimCompletion :: "ref \<Rightarrow> claim_world \<Rightarrow> claim_world" where
  "getConfirmedClaimCompletion ref w = (if obj_session w ref \<in> set (cw_completions w) then w
     else spawn (Completion ref) (w\<lparr>cw_completions := cw_completions w @ [obj_session w ref]\<rparr>))"

definition end_completion :: "ref \<Rightarrow> claim_world \<Rightarrow> claim_world" where
  "end_completion ref w = w\<lparr>cw_completions := filter (\<lambda>s. s \<noteq> obj_session w ref) (cw_completions w)\<rparr>"

fun settled_tx :: "claim_phase \<Rightarrow> (signed_tx \<times> settlement_outcome \<times> string) option" where
  "settled_tx (Confirmed t b f) = Some (t, Transferred, f)"
| "settled_tx (Reverted t b f e) = Some (t, RevertedTx, f)"
| "settled_tx _ = None"

text \<open>\<^verbatim>\<open>finishClaimReconciliation\<close>; the flag tells that releasing the reservation threw.\<close>

definition finishClaimReconciliation :: "claim_env \<Rightarrow> ref \<Rightarrow> eth_claim \<Rightarrow> claim_world \<Rightarrow> bool \<times> claim_world" where
  "finishClaimReconciliation env ref terminal w = (case settled_tx (ec_phase terminal) of
      None \<Rightarrow> (True, w)
    | Some (t, outcome, fee) \<Rightarrow>
       (let session = obj_session w ref;
            w1 = (if js_get (cw_pending w) (st_txHash t) = Some ref then w\<lparr>cw_pending := js_delete (st_txHash t) (cw_pending w)\<rparr> else w);
            w2 = (if js_get (cw_dict w1) session = Some ref then w1\<lparr>cw_dict := js_delete session (cw_dict w1)\<rparr> else w1) in
        case bigint_of_string fee of
          None \<Rightarrow> (True, w2)
        | Some f \<Rightarrow> (case releaseClaimTx (ce_wallet env) t outcome f (cw_wallet w2) of
            Inl e \<Rightarrow> (True, w2)
          | Inr wallet \<Rightarrow> (False, w2\<lparr>cw_wallet := wallet,
              cw_lastConfirmed := (if outcome = Transferred then ec_claimIdx terminal else cw_lastConfirmed w2),
              cw_history := js_set (st_txNonce t) ref (cw_history w2)\<rparr>))))"

definition reconcileObservedTerminal :: "claim_env \<Rightarrow> ref \<Rightarrow> eth_claim \<Rightarrow> claim_world \<Rightarrow> bool \<times> claim_world" where
  "reconcileObservedTerminal env ref c w =
     (let session = obj_session w ref; ownsClaim = (js_get (cw_dict w) session = Some ref) in
      case ec_phase c of
        Confirmed t b f \<Rightarrow> (False, if ownsClaim then getConfirmedClaimCompletion ref w else w)
      | Reverted t b f e \<Rightarrow> (if ownsClaim \<or> js_get (cw_pending w) (st_txHash t) = Some ref
          then finishClaimReconciliation env ref c w else (False, w))
      | Failed e \<Rightarrow> (False, if ownsClaim then w\<lparr>cw_dict := js_delete session (cw_dict w),
            cw_queue := filter (\<lambda>r. r \<noteq> ref) (cw_queue w)\<rparr> else w)
      | _ \<Rightarrow> (False, w))"

subsection \<open>\<^verbatim>\<open>transitionClaim\<close>\<close>

datatype transition_result = Returned bool | Threw

text \<open>What the callers do with the result, up to their next await.\<close>

definition prepared_result :: "claim_env \<Rightarrow> ref \<Rightarrow> eth_claim \<Rightarrow> transition_result \<Rightarrow> claim_world \<Rightarrow> claim_world" where
  "prepared_result env ref prepared r w = (case phase_signed (ec_phase prepared) of
      None \<Rightarrow> w
    | Some t \<Rightarrow> (case r of
        Returned True \<Rightarrow> (if \<not> cw_initialized w then spawn QueueTail w
          else spawn QueueLoop (startClaimReconciliation ref (w\<lparr>cw_pending := js_set (st_txHash t) ref (cw_pending w)\<rparr>)))
      | Returned False \<Rightarrow> spawn QueueLoop (w\<lparr>cw_wallet := cancelClaimTx (ce_wallet env) t (cw_wallet w)\<rparr>)
      | Threw \<Rightarrow> w\<lparr>cw_wallet := cancelClaimTx (ce_wallet env) t (cw_wallet w), cw_queueTask := False\<rparr>))"

definition failed_result :: "ref \<Rightarrow> transition_result \<Rightarrow> claim_world \<Rightarrow> claim_world" where
  "failed_result ref r w = (case r of
      Returned True \<Rightarrow> spawn QueueLoop (w\<lparr>cw_dict := js_delete (obj_session w ref) (cw_dict w)\<rparr>)
    | Returned False \<Rightarrow> spawn QueueLoop w
    | Threw \<Rightarrow> w\<lparr>cw_queueTask := False\<rparr>)"

definition pending_result :: "ref \<Rightarrow> transition_result \<Rightarrow> claim_world \<Rightarrow> claim_world" where
  "pending_result ref r w = (case r of
      Returned _ \<Rightarrow> w
    | Threw \<Rightarrow> if cw_initialized w then spawn (Rebroadcast ref) w else w)"

definition terminal_result :: "claim_env \<Rightarrow> ref \<Rightarrow> receipt \<Rightarrow> nat \<Rightarrow> eth_claim \<Rightarrow> transition_result \<Rightarrow> claim_world \<Rightarrow> claim_world" where
  "terminal_result env ref rc attempt terminal r w = (case r of
      Returned True \<Rightarrow>
        (if claim_status terminal = CONFIRMED then getConfirmedClaimCompletion ref w
         else (case finishClaimReconciliation env ref terminal w of
            (threw, w') \<Rightarrow> if threw \<and> cw_initialized w' then spawn (AwaitReceipt ref) w' else w'))
    | Returned False \<Rightarrow> spawn (Settle ref rc (attempt + 1)) w
    | Threw \<Rightarrow> if cw_initialized w then spawn (AwaitReceipt ref) w else w)"

definition transition_done :: "claim_env \<Rightarrow> transition_next \<Rightarrow> ref \<Rightarrow> eth_claim \<Rightarrow> transition_result \<Rightarrow> claim_world \<Rightarrow> claim_world" where
  "transition_done env k ref claim r w = (case k of
      AfterPrepared \<Rightarrow> prepared_result env ref claim r w
    | AfterFailed \<Rightarrow> failed_result ref r w
    | AfterPending \<Rightarrow> pending_result ref r w
    | AfterTerminal rc attempt \<Rightarrow> terminal_result env ref rc attempt claim r w)"

text \<open>The claim the database holds now, compared as JSON texts.\<close>

definition transition_observed ::
  "claim_env \<Rightarrow> transition_next \<Rightarrow> ref \<Rightarrow> eth_claim \<Rightarrow> eth_claim \<Rightarrow> db_error option \<Rightarrow> store_data option \<Rightarrow> claim_world \<Rightarrow> claim_world" where
  "transition_observed env k ref expected claim transitionError stored w =
     (let failed = (\<lambda>w. transition_done env k ref claim (if transitionError = None then Returned False else Threw) w) in
      case stored of
        None \<Rightarrow> failed w
      | Some sd \<Rightarrow> (case claim_of_json (sd_claim sd) of
          None \<Rightarrow> failed w
        | Some storedClaim \<Rightarrow>
            (let w1 = set_claim ref storedClaim w in
             if sd_claim sd = claim_json claim \<and> \<not> (claim_status claim = CONFIRMED \<and> sd_status sd = FINISHED)
             then transition_done env k ref claim (Returned True) w1
             else if sd_status sd = CLAIMING \<and> sd_claim sd = claim_json expected
             then spawn (Transition k ref expected claim CasCall) w1
             else (case reconcileObservedTerminal env ref storedClaim w1 of
                (threw, w2) \<Rightarrow> if threw then transition_done env k ref claim Threw w2 else failed w2))))"

definition transitionClaim ::
  "claim_env \<Rightarrow> transition_next \<Rightarrow> ref \<Rightarrow> eth_claim \<Rightarrow> eth_claim \<Rightarrow> transition_stage \<Rightarrow> claim_world \<Rightarrow> claim_world" where
  "transitionClaim env k ref expected claim stage w = (case stage of
      CasCall \<Rightarrow>
        (if \<not> cw_initialized w then transition_done env k ref claim (Returned False) w
         else request (compareAndSetClaim (obj_session w ref) expected claim)
           (\<lambda>r. Transition k ref expected claim (CasDone r)) w)
    | CasDone (Inr True) \<Rightarrow> transition_done env k ref claim (Returned True) (set_claim ref claim w)
    | CasDone r \<Rightarrow> request (getSession (obj_session w ref))
        (\<lambda>f. Transition k ref expected claim (FetchDone (case r of Inl e \<Rightarrow> Some e | Inr _ \<Rightarrow> None) f)) w
    | FetchDone err (Inl e) \<Rightarrow>
        (if \<not> cw_initialized w then transition_done env k ref claim (Returned False) w
         else spawn (Transition k ref expected claim CasCall) w)
    | FetchDone err (Inr stored) \<Rightarrow> transition_observed env k ref expected claim err stored w)"

subsection \<open>The queue\<close>

text \<open>\<^verbatim>\<open>failQueuedClaim\<close>, up to its transition.\<close>

definition failQueuedClaim :: "ref \<Rightarrow> string \<Rightarrow> claim_world \<Rightarrow> claim_world" where
  "failQueuedClaim ref message w = (let c = obj_claim w ref in
     if claim_status c \<noteq> QUEUE then spawn QueueLoop w
     else spawn (Transition AfterFailed ref c (with_phase c (Failed message)) CasCall) w)"

definition processQueueTx :: "ref \<Rightarrow> claim_world \<Rightarrow> claim_world" where
  "processQueueTx ref w =
     (if claim_status (obj_claim w ref) \<noteq> QUEUE then spawn QueueLoop w
      else if \<not> ws_ready (wm_state (cw_wallet w)) then failQueuedClaim ref ''Network RPC is currently unreachable.'' w
      else if obj_amount w ref = None then failQueuedClaim ref ''Transaction preparation failed: SyntaxError'' w
      else spawn (QueuePrepare ref (wm_nonce (cw_wallet w))) w)"

text \<open>\<^verbatim>\<open>gasPrice\<close> is the node's answer; a shutdown rejects the wait.\<close>

definition processQueueTx_prepared :: "claim_env \<Rightarrow> int option \<Rightarrow> ref \<Rightarrow> int \<Rightarrow> claim_world \<Rightarrow> claim_world" where
  "processQueueTx_prepared env gasPrice ref txNonce w =
     (if \<not> cw_initialized w then spawn QueueTail w
      else case obj_amount w ref of
        None \<Rightarrow> w\<lparr>cw_queueTask := False\<rparr>
      | Some amount \<Rightarrow>
        (case prepare_with_nonce (ce_wallet env) (ce_codec env) gasPrice (ci_target (claim_obj w ref)) amount txNonce of
          Inl e \<Rightarrow> failQueuedClaim ref (''Transaction preparation failed: '' @ e) w
        | Inr t \<Rightarrow> (case canReserveClaimTx (ce_wallet env) (ce_codec env) t amount (cw_wallet w) of
            Inl e \<Rightarrow> w\<lparr>cw_queueTask := False\<rparr>
          | Inr False \<Rightarrow> failQueuedClaim ref ''Faucet wallet is out of funds.'' w
          | Inr True \<Rightarrow> (case reserveClaimTx (ce_wallet env) (ce_codec env) t amount (cw_wallet w) of
              Inl e \<Rightarrow> w\<lparr>cw_queueTask := False\<rparr>
            | Inr wallet \<Rightarrow> (let c = obj_claim w ref in
                spawn (Transition AfterPrepared ref c (with_phase c (Prepared t)) CasCall) (w\<lparr>cw_wallet := wallet\<rparr>))))))"

text \<open>The head of the loop of \<^verbatim>\<open>processQueueInternal\<close>.\<close>

definition lacks_funds :: "claim_env \<Rightarrow> wallet \<Rightarrow> int \<Rightarrow> bool" where
  "lacks_funds env wallet amount \<longleftrightarrow> \<not> ws_ready (wm_state wallet) \<or>
     wm_balance wallet - wc_spareFundsAmount (ce_wallet env) < amount \<or>
     wm_native wallet \<le> wc_txGasLimit (ce_wallet env) * wc_txMaxFee (ce_wallet env)"

definition processQueue_loop :: "claim_env \<Rightarrow> claim_world \<Rightarrow> claim_world" where
  "processQueue_loop env w = (case cw_queue w of
      [] \<Rightarrow> spawn QueueTail w
    | ref # rest \<Rightarrow>
       (let process = processQueueTx ref (w\<lparr>cw_queue := rest, cw_lastProcessed := ec_claimIdx (obj_claim w ref)\<rparr>) in
        if \<not> cw_initialized w \<or> int (length (cw_pending w)) \<ge> ce_maxPending env then spawn QueueTail w
        else if ce_queueNoFunds env then
          (if \<not> ws_ready (wm_state (cw_wallet w)) then spawn QueueTail w
           else case obj_amount w ref of
             None \<Rightarrow> w\<lparr>cw_queueTask := False\<rparr>
           | Some amount \<Rightarrow> if lacks_funds env (cw_wallet w) amount then spawn QueueTail w else process)
        else process))"

text \<open>After the loop: a refresh of the wallet when nothing is pending (\<^verbatim>\<open>refresh\<close>: it is due, with
  the answer of the node), then the refill transaction of \<^verbatim>\<open>EthWalletRefill\<close>.\<close>

definition processQueue_tail :: "claim_env \<Rightarrow> (int \<times> int \<times> int) option option \<Rightarrow> claim_world \<Rightarrow> claim_world" where
  "processQueue_tail env refresh w =
     (if \<not> cw_initialized w then w\<lparr>cw_queueTask := False\<rparr>
      else (case refresh of
        Some answer \<Rightarrow> if cw_pending w = [] then spawn QueueRefill (w\<lparr>cw_wallet := loadWalletState (ce_wallet env) answer (cw_wallet w)\<rparr>)
          else spawn QueueRefill w
      | None \<Rightarrow> spawn QueueRefill w))"

fun refill_op :: "wallet_op \<Rightarrow> bool" where
  "refill_op (OpLoad _) = True"
| "refill_op (OpCustom _ _ _ _ _ _) = True"
| "refill_op (OpMined _) = True"
| "refill_op _ = False"

definition processQueue_refill :: "claim_env \<Rightarrow> wallet_op list \<Rightarrow> claim_world \<Rightarrow> claim_world" where
  "processQueue_refill env ops w = w\<lparr>cw_queueTask := False,
     cw_wallet := fold (run_op (ce_wallet env) (ce_codec env)) (filter refill_op ops) (cw_wallet w)\<rparr>"

subsection \<open>Broadcast and receipt\<close>

text \<open>The head of the loops of \<^verbatim>\<open>rebroadcastClaim\<close> and \<^verbatim>\<open>awaitTxReceipt\<close>: the claim is still this
  object's and has an unsettled signed transaction.\<close>

definition unsettled_tx :: "claim_world \<Rightarrow> ref \<Rightarrow> signed_tx option" where
  "unsettled_tx w ref = (if cw_initialized w \<and> js_get (cw_dict w) (obj_session w ref) = Some ref \<and> isActiveSignedClaimData (obj_claim w ref)
     then phase_signed (ec_phase (obj_claim w ref)) else None)"

definition rebroadcastClaim :: "claim_env \<Rightarrow> ref \<Rightarrow> claim_world \<Rightarrow> claim_world" where
  "rebroadcastClaim env ref w = (case unsettled_tx w ref of
      None \<Rightarrow> w
    | Some t \<Rightarrow> (case parseClaimTransaction (ce_wallet env) (ce_codec env) t of
        Inl e \<Rightarrow> spawn (Rebroadcast ref) w
      | Inr _ \<Rightarrow> spawn (BroadcastSent ref t) (w\<lparr>cw_sent := cw_sent w @ [(obj_session w ref, t)]\<rparr>)))"

definition rebroadcast_answered :: "claim_env \<Rightarrow> string option \<Rightarrow> ref \<Rightarrow> signed_tx \<Rightarrow> claim_world \<Rightarrow> claim_world" where
  "rebroadcast_answered env answer ref t w =
     (if \<not> cw_initialized w then w
      else case broadcastClaimTx (ce_wallet env) (ce_codec env) answer t of
        Inl e \<Rightarrow> spawn (Rebroadcast ref) w
      | Inr _ \<Rightarrow> (let c = obj_claim w ref in
          case ec_phase c of
            Prepared t' \<Rightarrow> spawn (Transition AfterPending ref c (with_phase c (Pending t')) CasCall) w
          | _ \<Rightarrow> w))"

definition awaitTxReceipt :: "claim_env \<Rightarrow> ref \<Rightarrow> claim_world \<Rightarrow> claim_world" where
  "awaitTxReceipt env ref w = (case unsettled_tx w ref of
      None \<Rightarrow> w
    | Some t \<Rightarrow> (case parseClaimTransaction (ce_wallet env) (ce_codec env) t of
        Inl e \<Rightarrow> spawn (AwaitReceipt ref) w
      | Inr _ \<Rightarrow> spawn (ReceiptWatch ref t) w))"

definition receipt_answered :: "receipt option \<Rightarrow> ref \<Rightarrow> claim_world \<Rightarrow> claim_world" where
  "receipt_answered answer ref w =
     (if \<not> cw_initialized w then w
      else case answer of None \<Rightarrow> spawn (AwaitReceipt ref) w | Some rc \<Rightarrow> spawn (Settle ref rc 0) w)"

fun terminal_phase :: "receipt \<Rightarrow> signed_tx \<Rightarrow> claim_phase" where
  "terminal_phase (Receipt True block fee) t = Confirmed t (int block) (dec_nat fee)"
| "terminal_phase (Receipt False block fee) t = Reverted t (int block) (dec_nat fee) ''Transaction reverted''"

definition SETTLE_ATTEMPTS :: nat where "SETTLE_ATTEMPTS = 3"

definition settleClaim :: "ref \<Rightarrow> receipt \<Rightarrow> nat \<Rightarrow> claim_world \<Rightarrow> claim_world" where
  "settleClaim ref rc attempt w = (let c = obj_claim w ref in
     if attempt \<ge> SETTLE_ATTEMPTS \<or> \<not> isActiveSignedClaimData c then w
     else case phase_signed (ec_phase c) of
       None \<Rightarrow> w
     | Some t \<Rightarrow> spawn (Transition (AfterTerminal rc attempt) ref c (with_phase c (terminal_phase rc t)) CasCall) w)"

subsection \<open>Completion of a confirmed claim\<close>

definition completeConfirmedClaim :: "ref \<Rightarrow> claim_world \<Rightarrow> claim_world" where
  "completeConfirmedClaim ref w =
     (if cw_initialized w \<and> claim_status (obj_claim w ref) = CONFIRMED then spawn (CompletionHooks ref) w else end_completion ref w)"

definition completion_hooks_done :: "bool \<Rightarrow> ref \<Rightarrow> claim_world \<Rightarrow> claim_world" where
  "completion_hooks_done ok ref w =
     (let w1 = (if ok then w\<lparr>cw_accounted := cw_accounted w @ [obj_session w ref]\<rparr> else w) in
      if \<not> cw_initialized w1 then end_completion ref w1
      else if ok then spawn (Finalize ref) w1 else spawn (Completion ref) w1)"

definition claim_finalized :: "claim_env \<Rightarrow> ref \<Rightarrow> claim_world \<Rightarrow> claim_world" where
  "claim_finalized env ref w = (case finishClaimReconciliation env ref (obj_claim w ref) w of
     (threw, w') \<Rightarrow> if threw \<and> cw_initialized w' then spawn (Completion ref) w' else end_completion ref w')"

definition finalizeConfirmedClaimTx :: "ref \<Rightarrow> claim_world \<Rightarrow> claim_world" where
  "finalizeConfirmedClaimTx ref w =
     (if cw_initialized w \<and> claim_status (obj_claim w ref) = CONFIRMED
      then request (finalizeConfirmedClaim (obj_session w ref) (obj_claim w ref)) (FinalizeDone ref) w
      else end_completion ref w)"

definition finalize_done :: "claim_env \<Rightarrow> ref \<Rightarrow> db_error + bool \<Rightarrow> claim_world \<Rightarrow> claim_world" where
  "finalize_done env ref r w = (case r of
      Inr True \<Rightarrow> claim_finalized env ref w
    | _ \<Rightarrow> request (getSession (obj_session w ref)) (FinalizeFetched ref) w)"

definition finalize_fetched :: "claim_env \<Rightarrow> ref \<Rightarrow> db_error + store_data option \<Rightarrow> claim_world \<Rightarrow> claim_world" where
  "finalize_fetched env ref f w = (case f of
      Inl e \<Rightarrow> if \<not> cw_initialized w then end_completion ref w else spawn (Finalize ref) w
    | Inr None \<Rightarrow> end_completion ref w
    | Inr (Some sd) \<Rightarrow> (case claim_of_json (sd_claim sd) of
        None \<Rightarrow> end_completion ref w
      | Some storedClaim \<Rightarrow>
         (let w1 = set_claim ref storedClaim w in
          if sd_status sd = FINISHED \<and> claim_status storedClaim = CONFIRMED then claim_finalized env ref w1
          else if sd_status sd = CLAIMING \<and> claim_status storedClaim = CONFIRMED then spawn (Finalize ref) w1
          else (case reconcileObservedTerminal env ref storedClaim w1 of
            (threw, w2) \<Rightarrow> if threw \<and> cw_initialized w2 then spawn (Completion ref) w2 else end_completion ref w2))))"

subsection \<open>Creating a claim\<close>

datatype claim_error = ClaimError string string | ClaimException

fun session_status_text :: "session_status \<Rightarrow> string" where
  "session_status_text UNKNOWN = ''unknown''"
| "session_status_text STARTING = ''starting''"
| "session_status_text RUNNING = ''running''"
| "session_status_text COMMITTING = ''committing''"
| "session_status_text CLAIMABLE = ''claimable''"
| "session_status_text CLAIMING = ''claiming''"
| "session_status_text FINISHED = ''finished''"
| "session_status_text FAILED_SESSION = ''failed''"

text \<open>The checks of \<^verbatim>\<open>createSessionClaimInternal\<close> and the amount it pays; \<^verbatim>\<open>ClaimException\<close> is the
  error of the language on a text that is no integer and on data that is no object.\<close>

definition js_truthy :: "js_value \<Rightarrow> bool" where
  "js_truthy v = (case v of JUndefined \<Rightarrow> False | JNull \<Rightarrow> False | JBool b \<Rightarrow> b | JStr s \<Rightarrow> s \<noteq> []
     | JNum (Fin q) \<Rightarrow> q \<noteq> 0 | JNum NaN \<Rightarrow> False | _ \<Rightarrow> True)"

definition check_claimable :: "claim_env \<Rightarrow> store_data \<Rightarrow> claim_error + string" where
  "check_claimable env sd =
     (if sd_status sd \<noteq> CLAIMABLE then Inl (ClaimError ''NOT_CLAIMABLE''
       (''cannot claim session: not claimable (state: '' @ session_status_text (sd_status sd) @ '')''))
      else case bigint_of_string (sd_dropAmount sd) of
        None \<Rightarrow> Inl ClaimException
      | Some dropAmount \<Rightarrow>
         if dropAmount < ce_minDropAmount env then Inl (ClaimError ''AMOUNT_TOO_LOW'' ''drop amount lower than minimum'')
         else if sd_data sd = JNull \<or> sd_data sd = JUndefined then Inl ClaimException
         else (let override = own_property (sd_data sd) ''overrideMaxDropAmount'' in
           case (if js_truthy override then js_bigint override else Some (ce_maxDropAmount env)) of
             None \<Rightarrow> Inl ClaimException
           | Some maxDropAmount \<Rightarrow> Inr (if dropAmount > maxDropAmount then dec_int maxDropAmount else sd_dropAmount sd)))"

definition createSessionClaim :: "claim_env \<Rightarrow> store_data \<Rightarrow> claim_world \<Rightarrow> claim_error + claim_world" where
  "createSessionClaim env sd w =
     (if \<not> cw_initialized w then Inl (ClaimError ''SHUTTING_DOWN'' ''cannot claim session: faucet is shutting down'')
      else try_bind (check_claimable env sd) (\<lambda>amount. Inr (spawn (CreateHooks sd amount) w)))"

text \<open>After the \<^verbatim>\<open>SessionClaim\<close> hooks; \<^verbatim>\<open>ok\<close> tells that none threw.\<close>

definition create_hooks_done :: "bool \<Rightarrow> int \<Rightarrow> store_data \<Rightarrow> string \<Rightarrow> claim_world \<Rightarrow> claim_world" where
  "create_hooks_done ok now sd amount w =
     (if \<not> ok \<or> \<not> cw_initialized w \<or> js_has (cw_dict w) (sd_sessionId sd) then w
      else (let claim = \<lparr>ec_claimIdx = cw_lastIdx w, ec_claimTime = now, ec_phase = Queued\<rparr>;
                info = \<lparr>ci_session = sd_sessionId sd, ci_target = sd_targetAddr sd, ci_amount = amount, ci_claim = claim\<rparr> in
        request (tryCreateClaim (sd_sessionId sd) amount claim) (CreateDone info) (w\<lparr>cw_lastIdx := cw_lastIdx w + 1\<rparr>)))"

definition create_done :: "claim_info \<Rightarrow> db_error + bool \<Rightarrow> claim_world \<Rightarrow> claim_world" where
  "create_done info r w = (case r of
      Inr True \<Rightarrow> (case new_claim info w of (ref, w1) \<Rightarrow>
        w1\<lparr>cw_queue := cw_queue w1 @ [ref], cw_dict := js_set (ci_session info) ref (cw_dict w1)\<rparr>)
    | _ \<Rightarrow> w)"

subsection \<open>Restart\<close>

definition resetRuntimeState :: "claim_world \<Rightarrow> claim_world" where
  "resetRuntimeState w = w\<lparr>cw_dict := [], cw_queue := [], cw_pending := [], cw_history := [], cw_completions := [],
     cw_queueTask := False, cw_lastIdx := 1, cw_lastProcessed := 0, cw_lastConfirmed := 0\<rparr>"

definition getStoredClaimIdx :: "js_value \<Rightarrow> int" where
  "getStoredClaimIdx claim = (if is_object claim \<and> isPositiveSafeInteger (own_property claim ''claimIdx'')
     then get_int (own_property claim ''claimIdx'') else 0)"

definition restore_claim :: "claim_env \<Rightarrow> store_data \<Rightarrow> claim_world \<Rightarrow> claim_world" where
  "restore_claim env sd w = (case claim_of_json (sd_claim sd) of
      None \<Rightarrow> w
    | Some c \<Rightarrow>
       (case new_claim \<lparr>ci_session = sd_sessionId sd, ci_target = sd_targetAddr sd, ci_amount = sd_dropAmount sd, ci_claim = c\<rparr> w of
        (ref, w1) \<Rightarrow>
         (let w2 = w1\<lparr>cw_dict := js_set (sd_sessionId sd) ref (cw_dict w1)\<rparr> in
          case ec_phase c of
            Queued \<Rightarrow> w2\<lparr>cw_queue := cw_queue w2 @ [ref]\<rparr>
          | Confirmed t b f \<Rightarrow> w2
          | Reverted t b f e \<Rightarrow> w1
          | Failed e \<Rightarrow> w1
          | _ \<Rightarrow> (case (phase_signed (ec_phase c), bigint_of_string (sd_dropAmount sd)) of
              (Some t, Some amount) \<Rightarrow>
                (case reserveClaimTx (ce_wallet env) (ce_codec env) t amount (cw_wallet w1) of
                  Inl e \<Rightarrow> w1
                | Inr wallet \<Rightarrow> startClaimReconciliation ref
                    (w2\<lparr>cw_wallet := wallet, cw_pending := js_set (st_txHash t) ref (cw_pending w2)\<rparr>))
            | _ \<Rightarrow> w1))))"

definition confirmed_refs :: "claim_world \<Rightarrow> ref list" where
  "confirmed_refs w = filter (\<lambda>ref. claim_status (obj_claim w ref) = CONFIRMED) (map snd (cw_dict w))"

definition initialize_claims :: "claim_env \<Rightarrow> store_data list \<Rightarrow> claim_world \<Rightarrow> claim_world" where
  "initialize_claims env stored w =
     (let maxQueueIdx = fold (\<lambda>sd m. max m (getStoredClaimIdx (sd_claim sd))) stored 0;
          w1 = fold (restore_claim env) stored w;
          w2 = w1\<lparr>cw_queue := sort_key (\<lambda>ref. ec_claimIdx (obj_claim w1 ref)) (cw_queue w1), cw_lastIdx := maxQueueIdx + 1\<rparr> in
      fold getConfirmedClaimCompletion (confirmed_refs w2) w2)"

definition initialize :: "claim_env \<Rightarrow> claim_world \<Rightarrow> claim_world" where
  "initialize env w = (if cw_initialized w then w
     else (let w1 = (resetRuntimeState w)\<lparr>cw_initialized := True\<rparr> in
       case getSessions [CLAIMING] (cw_db w1) of
         (Inl e, db) \<Rightarrow> w1\<lparr>cw_db := db\<rparr>
       | (Inr stored, db) \<Rightarrow> initialize_claims env stored (w1\<lparr>cw_db := db\<rparr>)))"

subsection \<open>The system\<close>

text \<open>What a task may be given when it resumes: an answer of the network or the modules.\<close>

record claim_answer =
  an_gasPrice :: "int option"
  an_hash :: "string option"
  an_receipt :: "receipt option"
  an_ok :: bool
  an_now :: int
  an_refresh :: "(int \<times> int \<times> int) option option"
  an_refill :: "wallet_op list"

fun resume :: "claim_env \<Rightarrow> claim_answer \<Rightarrow> claim_task \<Rightarrow> claim_world \<Rightarrow> claim_world" where
  "resume env a QueueLoop w = processQueue_loop env w"
| "resume env a (QueuePrepare ref nonce) w = processQueueTx_prepared env (an_gasPrice a) ref nonce w"
| "resume env a QueueTail w = processQueue_tail env (an_refresh a) w"
| "resume env a QueueRefill w = processQueue_refill env (an_refill a) w"
| "resume env a (Transition k ref expected claim stage) w = transitionClaim env k ref expected claim stage w"
| "resume env a (Rebroadcast ref) w = rebroadcastClaim env ref w"
| "resume env a (BroadcastSent ref t) w = rebroadcast_answered env (an_hash a) ref t w"
| "resume env a (AwaitReceipt ref) w = awaitTxReceipt env ref w"
| "resume env a (ReceiptWatch ref t) w = receipt_answered (an_receipt a) ref w"
| "resume env a (Settle ref rc attempt) w = settleClaim ref rc attempt w"
| "resume env a (Completion ref) w = completeConfirmedClaim ref w"
| "resume env a (CompletionHooks ref) w = completion_hooks_done (an_ok a) ref w"
| "resume env a (Finalize ref) w = finalizeConfirmedClaimTx ref w"
| "resume env a (FinalizeDone ref r) w = finalize_done env ref r w"
| "resume env a (FinalizeFetched ref f) w = finalize_fetched env ref f w"
| "resume env a (CreateHooks sd amount) w = create_hooks_done (an_ok a) (an_now a) sd amount w"
| "resume env a (CreateDone info r) w = create_done info r w"

text \<open>Everything that can happen: a task resumes, the queue timer fires, a client claims a session it
  just read, another service writes a session, the driver is given faults, the manager is
  disposed and started again, or the process dies and a new one starts with a new wallet.\<close>

datatype claim_event =
    Resume nat claim_answer
  | ProcessQueue
  | CreateClaim string
  | HistoryTimer int
  | OtherWrite session_write
  | Faults "db_fault list"
  | Dispose
  | Initialize
  | Crash wallet

fun other_write :: "session_write \<Rightarrow> bool" where
  "other_write (WCreateClaim _ _ _) = False"
| "other_write (WSetClaim _ _ _) = False"
| "other_write (WFinalize _ _) = False"
| "other_write (WTimeout _ d _) = (status_rank (sd_status d) < 5)"
| "other_write _ = True"

primrec claim_event_step :: "claim_env \<Rightarrow> claim_event \<Rightarrow> claim_world \<Rightarrow> claim_world" where
  "claim_event_step env (Resume i a) w =
     (if i < length (cw_tasks w)
      then resume env a (cw_tasks w ! i) (w\<lparr>cw_tasks := take i (cw_tasks w) @ drop (Suc i) (cw_tasks w)\<rparr>) else w)"
| "claim_event_step env ProcessQueue w =
     (if \<not> cw_initialized w \<or> cw_queueTask w then w else spawn QueueLoop (w\<lparr>cw_queueTask := True\<rparr>))"
| "claim_event_step env (CreateClaim sid) w = (case getSession sid (cw_db w) of
     (Inr (Some sd), db) \<Rightarrow> keep_on_error (w\<lparr>cw_db := db\<rparr>) (createSessionClaim env sd (w\<lparr>cw_db := db\<rparr>))
   | (_, db) \<Rightarrow> w\<lparr>cw_db := db\<rparr>)"
| "claim_event_step env (HistoryTimer nonce) w = w\<lparr>cw_history := js_delete nonce (cw_history w)\<rparr>"
| "claim_event_step env (OtherWrite x) w = (if other_write x then w\<lparr>cw_db := snd (run_write x (cw_db w))\<rparr> else w)"
| "claim_event_step env (Faults fs) w = w\<lparr>cw_db := (cw_db w)\<lparr>db_faults := fs\<rparr>\<rparr>"
| "claim_event_step env Dispose w = w\<lparr>cw_initialized := False\<rparr>"
| "claim_event_step env Initialize w = (if cw_tasks w = [] then initialize env w else w)"
| "claim_event_step env (Crash wallet) w = (resetRuntimeState w)\<lparr>cw_initialized := False, cw_objects := [], cw_tasks := [],
     cw_wallet := wallet\<rparr>"

text \<open>Answers the network can give: a receipt's block number is a safe integer, and time is positive.\<close>

fun event_ok :: "claim_event \<Rightarrow> bool" where
  "event_ok (Resume i a) = (nonneg_safe (an_now a) \<and> (case an_receipt a of Some (Receipt _ block _) \<Rightarrow> nonneg_safe (int block) | None \<Rightarrow> True))"
| "event_ok (Crash wallet) = (wm_reserved wallet = [])"
| "event_ok _ = True"

definition initial_claims :: "claim_world \<Rightarrow> bool" where
  "initial_claims w \<longleftrightarrow> \<not> cw_initialized w \<and> cw_objects w = [] \<and> cw_tasks w = [] \<and> cw_sent w = [] \<and> cw_accounted w = [] \<and>
     cw_dict w = [] \<and> cw_queue w = [] \<and> cw_pending w = [] \<and> cw_completions w = [] \<and> \<not> cw_queueTask w \<and> cw_lastIdx w = 1"

text \<open>Claim indices stay safe integers: fewer than \<^verbatim>\<open>2 ^ 53\<close> claims are ever made.\<close>

inductive claim_reachable :: "claim_env \<Rightarrow> claim_world \<Rightarrow> claim_world \<Rightarrow> bool" for env w0 where
  start: "claim_reachable env w0 w0"
| step: "claim_reachable env w0 w \<Longrightarrow> event_ok ev \<Longrightarrow> nonneg_safe (cw_lastIdx w) \<Longrightarrow> claim_reachable env w0 (claim_event_step env ev w)"

end
