(* ===== verification/Claim_Rows.thy ===== *)
theory Claim_Rows
  imports Claim_Manager
begin

text \<open>
  How the writes of the services move the claim of every row: it only advances, it keeps the
  signed transaction it once has, and a row that has a claim keeps its target and amount.
\<close>

subsection \<open>The order of claims\<close>

fun phase_rank :: "claim_phase \<Rightarrow> nat" where
  "phase_rank Queued = 0"
| "phase_rank (Prepared _) = 1"
| "phase_rank (Pending _) = 2"
| "phase_rank _ = 3"

abbreviation claim_tx :: "eth_claim \<Rightarrow> signed_tx option" where
  "claim_tx c \<equiv> phase_signed (ec_phase c)"

definition claim_le :: "eth_claim \<Rightarrow> eth_claim \<Rightarrow> bool" where
  "claim_le a b \<longleftrightarrow> a = b \<or> (ec_claimIdx a = ec_claimIdx b \<and> ec_claimTime a = ec_claimTime b \<and>
     phase_rank (ec_phase a) < phase_rank (ec_phase b) \<and> (\<forall>t. claim_tx a = Some t \<longrightarrow> claim_tx b = Some t))"

lemma claim_le_refl [simp]: "claim_le c c"
  by (simp add: claim_le_def)

lemma claim_le_trans: "claim_le a b \<Longrightarrow> claim_le b c \<Longrightarrow> claim_le a c"
  by (auto simp: claim_le_def)

lemma claim_le_tx: "claim_le a b \<Longrightarrow> claim_tx a = Some t \<Longrightarrow> claim_tx b = Some t"
  by (auto simp: claim_le_def)

lemma claim_le_antisym: "claim_le a b \<Longrightarrow> claim_le b a \<Longrightarrow> a = b"
  by (auto simp: claim_le_def)

lemma claim_le_with_phase:
  "phase_rank (ec_phase c) < phase_rank ph \<Longrightarrow> (\<And>t. claim_tx c = Some t \<Longrightarrow> phase_signed ph = Some t) \<Longrightarrow> claim_le c (with_phase c ph)"
  by (simp add: claim_le_def with_phase_def)

subsection \<open>Rows\<close>

definition row_claim :: "session_row \<Rightarrow> eth_claim option" where
  "row_claim r = (case sr_claim r of Some (JsonText v) \<Rightarrow> claim_of_json v | _ \<Rightarrow> None)"

definition paid_for :: "claim_env \<Rightarrow> session_row \<Rightarrow> signed_tx \<Rightarrow> bool" where
  "paid_for env r t \<longleftrightarrow> (\<exists>amount gasPrice nonce. bigint_of_string (sr_dropAmount r) = Some amount \<and>
     prepare_with_nonce (ce_wallet env) (ce_codec env) gasPrice (sr_targetAddr r) amount nonce = Inr t)"

definition row_good :: "claim_env \<Rightarrow> session_row \<Rightarrow> bool" where
  "row_good env r \<longleftrightarrow> (\<forall>c t. row_claim r = Some c \<longrightarrow> claim_tx c = Some t \<longrightarrow> paid_for env r t)"

definition db_inv :: "claim_env \<Rightarrow> faucet_db \<Rightarrow> bool" where
  "db_inv env db \<longleftrightarrow> table_ok db \<and> (\<forall>s r. row_at db s = Some r \<longrightarrow> row_good env r)"

definition row_next :: "session_row \<Rightarrow> session_row \<Rightarrow> bool" where
  "row_next r r' \<longleftrightarrow> sr_targetAddr r' = sr_targetAddr r \<and>
     (\<forall>c. row_claim r = Some c \<longrightarrow> sr_dropAmount r' = sr_dropAmount r \<and> (\<exists>c'. row_claim r' = Some c' \<and> claim_le c c'))"

definition claims_next :: "claim_env \<Rightarrow> faucet_db \<Rightarrow> faucet_db \<Rightarrow> bool" where
  "claims_next env db db' \<longleftrightarrow> db_inv env db' \<and> (\<forall>s r. row_at db s = Some r \<longrightarrow> (\<exists>r'. row_at db' s = Some r' \<and> row_next r r'))"

lemma row_claim_json [simp]: "claim_ok c \<Longrightarrow> sr_claim r = Some (JsonText (claim_json c)) \<Longrightarrow> row_claim r = Some c"
  by (simp add: row_claim_def claim_of_claim_json)

lemma row_claim_None: "row_ok r \<Longrightarrow> row_claim r = None \<longleftrightarrow> sr_claim r = None"
  unfolding row_ok_def claim_in_def row_claim_def
  by (cases "sr_status r") (auto simp: claim_of_claim_json)

lemma row_claim_Some: "row_ok r \<Longrightarrow> row_claim r = Some c \<longleftrightarrow> sr_claim r = Some (JsonText (claim_json c)) \<and> claim_ok c"
proof
  assume r: "row_ok r" "row_claim r = Some c"
  hence "sr_claim r \<noteq> None" using row_claim_None[OF r(1)] by simp
  then obtain d where "claim_ok d" "sr_claim r = Some (JsonText (claim_json d))"
    using r(1) unfolding row_ok_def claim_in_def by (cases "sr_status r") auto
  thus "sr_claim r = Some (JsonText (claim_json c)) \<and> claim_ok c" using r(2) by simp
qed simp

lemma row_next_refl [simp]: "row_next r r"
  by (simp add: row_next_def)

lemma row_next_trans: "row_next a b \<Longrightarrow> row_next b c \<Longrightarrow> row_next a c"
  unfolding row_next_def by (metis claim_le_trans)

lemma claims_next_refl: "db_inv env db \<Longrightarrow> claims_next env db db"
  by (auto simp: claims_next_def)

lemma claims_next_trans: "claims_next env a b \<Longrightarrow> claims_next env b c \<Longrightarrow> claims_next env a c"
  unfolding claims_next_def by (metis row_next_trans)

lemma claims_next_inv: "claims_next env db db' \<Longrightarrow> db_inv env db'"
  by (simp add: claims_next_def)

lemma db_inv_distinct: "db_inv env db \<Longrightarrow> distinct_ids db"
  by (simp add: db_inv_def table_ok_def distinct_ids_def)

lemma db_inv_row: "db_inv env db \<Longrightarrow> row_at db s = Some r \<Longrightarrow> row_ok r \<and> row_good env r"
  using row_at_id by (auto simp: db_inv_def table_ok_def)

lemma db_inv_faults [simp]: "db_inv env (db\<lparr>db_faults := fs\<rparr>) = db_inv env db"
  by (simp add: db_inv_def table_ok_def)

lemma claims_next_faults [simp]: "claims_next env db (db'\<lparr>db_faults := fs\<rparr>) = claims_next env db db'"
  by (simp add: claims_next_def)

subsection \<open>Updates\<close>

lemma update_next:
  assumes inv: "db_inv env db" and id: "\<And>r. sr_sessionId (f r) = sr_sessionId r"
    and step: "\<And>r. p r \<Longrightarrow> row_ok r \<Longrightarrow> row_good env r \<Longrightarrow> row_next r (f r) \<and> row_ok (f r) \<and> row_good env (f r)"
  shows "claims_next env db (db\<lparr>db_sessions := map (\<lambda>r. if p r then f r else r) (db_sessions db)\<rparr>)"
proof -
  let ?g = "\<lambda>r. if p r then f r else r" and ?db' = "db\<lparr>db_sessions := map (\<lambda>r. if p r then f r else r) (db_sessions db)\<rparr>"
  have ids: "map sr_sessionId (map ?g rs) = map sr_sessionId rs" for rs using id by (induction rs) auto
  have row: "row_at ?db' s = map_option ?g (row_at db s)" for s
  proof -
    have "find (\<lambda>r. sr_sessionId r = s) (map ?g rs) = map_option ?g (find (\<lambda>r. sr_sessionId r = s) rs)" for rs
      using id by (induction rs) auto
    thus ?thesis by (simp add: row_at_def)
  qed
  have g: "row_next r (?g r) \<and> row_ok (?g r) \<and> row_good env (?g r)" if "row_at db s = Some r" for s r
    using step db_inv_row[OF inv that] by simp
  have "table_ok ?db'"
  proof -
    have "row_ok (?g r)" if "r \<in> set (db_sessions db)" for r
      using g row_at_in[OF db_inv_distinct[OF inv] that] by blast
    hence "\<forall>r \<in> set (map ?g (db_sessions db)). row_ok r" unfolding set_map by blast
    moreover have "distinct (map sr_sessionId (map ?g (db_sessions db)))" unfolding ids using inv by (simp add: db_inv_def table_ok_def)
    ultimately show ?thesis by (simp add: table_ok_def del: map_map set_map)
  qed
  moreover have "row_good env r" if "row_at ?db' s = Some r" for s r
    using that g unfolding row by (cases "row_at db s") auto
  ultimately show ?thesis using g row by (auto simp: claims_next_def db_inv_def)
qed

lemma wp_claim_write:
  assumes inv: "db_inv env db" and p: "\<And>r. p r \<Longrightarrow> sr_sessionId r = sid" and id: "\<And>r. sr_sessionId (f r) = sr_sessionId r"
    and step: "\<And>r. p r \<Longrightarrow> row_ok r \<Longrightarrow> row_good env r \<Longrightarrow> row_at db sid = Some r \<Longrightarrow> row_next r (f r) \<and> row_ok (f r) \<and> row_good env (f r)"
  shows "wp (db_write (update_where p f))
    (\<lambda>n db'. claims_next env db db' \<and> (n = 1 \<longrightarrow> (\<exists>r. row_at db sid = Some r \<and> p r \<and> row_at db' sid = Some (f r))))
    (\<lambda>_. claims_next env db) db"
proof (rule wp_db_write)
  fix fs
  let ?db = "db\<lparr>db_faults := fs\<rparr>" and ?p = "\<lambda>r. p r \<and> row_at db sid = Some r"
  let ?g = "\<lambda>r. if p r then f r else r"
  have same: "map ?g (db_sessions db) = map (\<lambda>r. if ?p r then f r else r) (db_sessions db)"
    using p row_at_in[OF db_inv_distinct[OF inv]] by (intro map_cong refl) metis
  have "claims_next env ?db (?db\<lparr>db_sessions := map (\<lambda>r. if ?p r then f r else r) (db_sessions ?db)\<rparr>)"
    by (rule update_next) (use inv id step in auto)
  hence "claims_next env ?db (?db\<lparr>db_sessions := map ?g (db_sessions db)\<rparr>)" unfolding same by simp
  hence nxt: "claims_next env db (?db\<lparr>db_sessions := map ?g (db_sessions db)\<rparr>)" by (simp add: claims_next_def)
  have row: "row_at (?db\<lparr>db_sessions := map ?g (db_sessions db)\<rparr>) sid = map_option ?g (row_at db sid)"
    using find_update[of p sid f, OF p id] by (simp add: row_at_def)
  have "length (filter p (db_sessions db)) = (case row_at db sid of None \<Rightarrow> 0 | Some r \<Rightarrow> if p r then 1 else 0)"
    using count_update[of p sid, OF p] db_inv_distinct[OF inv] by (simp add: row_at_def distinct_ids_def)
  thus "case update_where p f ?db of Inl e \<Rightarrow> claims_next env db ?db | Inr (a, db') \<Rightarrow>
      (claims_next env db db' \<and> (a = 1 \<longrightarrow> (\<exists>r. row_at db sid = Some r \<and> p r \<and> row_at db' sid = Some (f r)))) \<and> claims_next env db db'"
    using nxt row by (auto simp: update_where_def split: option.splits if_splits)
next
  fix fs show "claims_next env db (db\<lparr>db_faults := fs\<rparr>)" using claims_next_refl[OF inv] by simp
qed

lemma row_good_None: "row_claim r = None \<Longrightarrow> row_good env r"
  by (simp add: row_good_def)

lemma paid_for_cong: "sr_targetAddr r' = sr_targetAddr r \<Longrightarrow> sr_dropAmount r' = sr_dropAmount r \<Longrightarrow> paid_for env r' t = paid_for env r t"
  by (simp add: paid_for_def)

lemma claiming_with_row: "claim_ok c \<Longrightarrow> claiming_with sid c r \<Longrightarrow> sr_sessionId r = sid \<and> sr_status r = CLAIMING \<and> row_claim r = Some c"
  by (simp add: claiming_with_def)

lemma wp_compareAndSet:
  assumes inv: "db_inv env db" and e: "claim_ok e" and c: "claim_ok c" and le: "claim_le e c" "e \<noteq> c"
    and paid: "\<And>r t. row_at db sid = Some r \<Longrightarrow> row_claim r = Some e \<Longrightarrow> claim_tx c = Some t \<Longrightarrow> claim_tx e = None \<Longrightarrow> paid_for env r t"
  shows "wp (compareAndSetClaim sid e c)
    (\<lambda>b db'. claims_next env db db' \<and> (b \<longrightarrow> (\<exists>r. row_at db' sid = Some r \<and> row_claim r = Some c)))
    (\<lambda>_. claims_next env db) db"
  unfolding compareAndSetClaim_def wp_simps
proof (rule wp_mono[OF wp_claim_write[where sid = sid, OF inv]], goal_cases)
  case (1 r) thus ?case by (simp add: claiming_with_def)
next
  case (2 r) show ?case by simp
next
  case (3 r)
  let ?r = "r\<lparr>sr_status := status_for_claim (claim_status c), sr_claim := Some (JsonText (claim_json c))\<rparr>"
  have r: "row_claim r = Some e" using claiming_with_row[OF e 3(1)] by simp
  have r': "row_claim ?r = Some c" using c by simp
  have "claim_status c \<noteq> QUEUE" using le by (cases "ec_phase c") (auto simp: claim_le_def)
  hence "row_ok ?r" using c unfolding row_ok_def claim_in_def by (cases "claim_status c") auto
  moreover have "paid_for env ?r t" if "claim_tx c = Some t" for t
  proof (cases "claim_tx e")
    case None
    thus ?thesis using paid[OF 3(4) r that] by (simp add: paid_for_def)
  next
    case (Some u)
    hence "t = u" using claim_le_tx[OF le(1)] that by simp
    thus ?thesis using 3(3) r Some by (simp add: row_good_def paid_for_def)
  qed
  ultimately show ?case using r r' le(1) by (simp add: row_next_def row_good_def)
next
  case (4 a w')
  have b: "row_claim (x\<lparr>sr_status := s, sr_claim := Some (JsonText (claim_json c))\<rparr>) = Some c" for x s using c by simp
  show ?case using 4 b by blast
qed

lemma wp_tryCreate:
  assumes inv: "db_inv env db" and c: "claim_ok c" "claim_status c = QUEUE"
  shows "wp (tryCreateClaim sid amount c)
    (\<lambda>b db'. claims_next env db db' \<and> (b \<longrightarrow> (\<exists>r0 r. row_at db sid = Some r0 \<and> row_at db' sid = Some r \<and> row_claim r = Some c \<and>
        sr_dropAmount r = amount \<and> sr_targetAddr r = sr_targetAddr r0)))
    (\<lambda>_. claims_next env db) db"
  unfolding tryCreateClaim_def wp_simps
proof (rule wp_mono[OF wp_claim_write[where sid = sid, OF inv]], goal_cases)
  case (1 r) thus ?case by (simp add: is_unclaimed_def)
next
  case (2 r) show ?case by simp
next
  case (3 r)
  let ?r = "r\<lparr>sr_status := CLAIMING, sr_dropAmount := amount, sr_claim := Some (JsonText (claim_json c))\<rparr>"
  have r: "row_claim r = None" using 3 row_claim_None by (simp add: is_unclaimed_def)
  have r': "row_claim ?r = Some c" using c by simp
  have q: "ec_phase c = Queued" using c(2) by (cases "ec_phase c") auto
  have "row_ok ?r" using c unfolding row_ok_def claim_in_def by auto
  thus ?case using r r' q by (simp add: row_next_def row_good_def)
next
  case (4 a w')
  have b: "row_claim (x\<lparr>sr_status := s, sr_dropAmount := y, sr_claim := Some (JsonText (claim_json c))\<rparr>) = Some c" for x y s using c by simp
  show ?case
  proof (intro conjI impI)
    assume "a = 1"
    then obtain r where r: "row_at db sid = Some r"
      "row_at w' sid = Some (r\<lparr>sr_status := CLAIMING, sr_dropAmount := amount, sr_claim := Some (JsonText (claim_json c))\<rparr>)"
      using 4 by blast
    show "\<exists>r0 r. row_at db sid = Some r0 \<and> row_at w' sid = Some r \<and> row_claim r = Some c \<and>
        sr_dropAmount r = amount \<and> sr_targetAddr r = sr_targetAddr r0"
      by (intro exI conjI, rule r(1), rule r(2), rule b) simp_all
  qed (use 4 in blast)
qed

lemma wp_finalize_claim:
  assumes inv: "db_inv env db" and c: "claim_ok c"
  shows "wp (finalizeConfirmedClaim sid c)
    (\<lambda>b db'. claims_next env db db') (\<lambda>_. claims_next env db) db"
proof (cases "claim_status c = CONFIRMED")
  case True
  hence b: "(claim_status c \<noteq> CONFIRMED) = False" by simp
  show ?thesis unfolding finalizeConfirmedClaim_def b if_False wp_simps
  proof (rule wp_mono[OF wp_claim_write[where sid = sid, OF inv]], goal_cases)
    case (1 r) thus ?case by (simp add: claiming_with_def)
  next
    case (3 r)
    have r: "row_claim r = Some c" "sr_claim r = Some (JsonText (claim_json c))" using claiming_with_row[OF c 3(1)] 3(1) by (simp_all add: claiming_with_def)
    have r': "row_claim (r\<lparr>sr_status := FINISHED\<rparr>) = Some c" using r(2) c by simp
    have "row_ok (r\<lparr>sr_status := FINISHED\<rparr>)" using r(2) c True unfolding row_ok_def claim_in_def by auto
    thus ?case using r(1) r' 3(3) by (simp add: row_next_def row_good_def paid_for_def)
  qed simp_all
next
  case False
  thus ?thesis by (simp add: finalizeConfirmedClaim_def wp_simps claims_next_refl[OF inv])
qed

subsection \<open>The other services\<close>

lemma wp_unclaimed_write:
  assumes inv: "db_inv env db" and p: "\<And>r. p r \<Longrightarrow> sr_sessionId r = sid \<and> sr_claim r = None"
    and f: "\<And>r. sr_sessionId (f r) = sr_sessionId r \<and> sr_claim (f r) = sr_claim r \<and> sr_targetAddr (f r) = sr_targetAddr r"
    and st: "\<And>r. p r \<Longrightarrow> sr_status (f r) \<noteq> CLAIMING \<and> sr_status (f r) \<noteq> FINISHED"
  shows "wp (db_write (update_where p f)) (\<lambda>_. claims_next env db) (\<lambda>_. claims_next env db) db"
proof (rule wp_mono[OF wp_claim_write[where sid = sid, OF inv]], goal_cases)
  case (3 r)
  have c: "sr_claim (f r) = None" "row_claim (f r) = None" "row_claim r = None" using p[OF 3(1)] f[of r] by (simp_all add: row_claim_def)
  have "row_ok (f r)" using c(1) st[OF 3(1)] unfolding row_ok_def by (cases "sr_status (f r)") auto
  thus ?case using c f[of r] by (simp add: row_next_def row_good_def)
qed (use p f in auto)

lemma insert_next:
  assumes inv: "db_inv env db" and r: "sr_claim r = None" "sr_status r = RUNNING"
  shows "wp (db_write (insert_row r)) (\<lambda>_. claims_next env db) (\<lambda>_. claims_next env db) db"
proof (rule wp_db_write)
  fix fs
  let ?db = "db\<lparr>db_faults := fs\<rparr>" and ?db' = "db\<lparr>db_faults := fs, db_sessions := db_sessions db @ [r]\<rparr>"
  have refl: "claims_next env db ?db" using claims_next_refl[OF inv] by simp
  show "case insert_row r ?db of Inl e \<Rightarrow> claims_next env db ?db | Inr (a, db') \<Rightarrow> claims_next env db db' \<and> claims_next env db db'"
  proof (cases "\<exists>r' \<in> set (db_sessions db). sr_sessionId r' = sr_sessionId r")
    case True
    thus ?thesis using refl by (auto simp: insert_row_def)
  next
    case False
    have row: "row_at ?db' s = (case row_at db s of None \<Rightarrow> if sr_sessionId r = s then Some r else None | Some x \<Rightarrow> Some x)" for s
      by (simp add: row_at_def find_snoc)
    have "row_claim r = None" using r by (simp add: row_claim_def)
    hence "row_good env r" by (rule row_good_None)
    moreover have "table_ok ?db'" using inv False r by (auto simp: db_inv_def table_ok_def row_ok_def)
    ultimately have "claims_next env db ?db'"
      using inv row by (auto simp: claims_next_def db_inv_def split: option.splits if_splits)
    thus ?thesis using False by (auto simp: insert_row_def)
  qed
next
  fix fs show "claims_next env db (db\<lparr>db_faults := fs\<rparr>)" using claims_next_refl[OF inv] by simp
qed

lemma other_write_next:
  assumes inv: "db_inv env db" and x: "other_write x"
  shows "claims_next env db (snd (run_write x db))"
proof -
  note refl = claims_next_refl[OF inv]
  have "wp (run_write x) (\<lambda>_. claims_next env db) (\<lambda>_. claims_next env db) db"
  proof (cases x)
    case (WInsert d)
    show ?thesis unfolding WInsert run_write.simps insertRunningSession_def wp_simps
      by (auto intro!: insert_next[OF inv] simp: refl)
  next
    case (WUpdate d)
    have u: "wp (db_write (update_where (is_unclaimed (sd_sessionId d) RUNNING) (set_columns d)))
        (\<lambda>_. claims_next env db) (\<lambda>_. claims_next env db) db"
      by (rule wp_unclaimed_write[where sid = "sd_sessionId d", OF inv]) (auto simp: is_unclaimed_def set_columns_def)
    show ?thesis unfolding WUpdate run_write.simps updateRunningSession_def wp_simps
      by (auto simp: refl intro!: wp_mono[OF u] wp_db_read)
  next
    case (WTransition d)
    show ?thesis
    proof (cases "(sd_status d \<noteq> CLAIMABLE \<and> sd_status d \<noteq> FAILED_SESSION) \<or> sd_claim d \<noteq> JNull")
      case True
      thus ?thesis by (simp add: WTransition transitionSession_def wp_simps refl)
    next
      case False
      show ?thesis unfolding WTransition run_write.simps transitionSession_def if_not_P[OF False] wp_simps
        by (rule wp_unclaimed_write[where sid = "sd_sessionId d", OF inv]) (use False in \<open>auto simp: is_unclaimed_def set_columns_def\<close>)
    qed
  next
    case (WTimeout now d timeout)
    show ?thesis unfolding WTimeout run_write.simps tryTimeoutSession_def wp_simps
      by (rule wp_unclaimed_write[where sid = "sd_sessionId d", OF inv]) auto
  qed (use x in simp_all)
  thus ?thesis by (rule wp_snd)
qed

lemma getSession_next: "db_inv env db \<Longrightarrow> wp (getSession sid)
    (\<lambda>x db'. claims_next env db db' \<and> (\<forall>sd. x = Some sd \<longrightarrow> (\<exists>r. row_at db sid = Some r \<and> row_at db' sid = Some r \<and> store_data_of r = Inr sd)))
    (\<lambda>_. claims_next env db) db"
  by (rule wp_get_row) (auto simp: claims_next_refl)

text \<open>A session read from the table, and the claim it shows.\<close>

lemma store_data_claim:
  assumes "row_ok r" "store_data_of r = Inr sd"
  shows "sd_sessionId sd = sr_sessionId r \<and> sd_targetAddr sd = sr_targetAddr r \<and> sd_dropAmount sd = sr_dropAmount r \<and>
    sd_status sd = sr_status r \<and> (\<forall>c. claim_of_json (sd_claim sd) = Some c \<longrightarrow> row_claim r = Some c \<and> claim_ok c \<and> sd_claim sd = claim_json c)"
proof -
  have f: "sd_sessionId sd = sr_sessionId r" "sd_targetAddr sd = sr_targetAddr r" "sd_dropAmount sd = sr_dropAmount r" "sd_status sd = sr_status r"
    "parse_claim (sr_claim r) = Inr (sd_claim sd)"
    using assms(2) by (auto simp: store_data_of_def try_bind_Inr_iff)
  have "row_claim r = Some c \<and> claim_ok c \<and> sd_claim sd = claim_json c" if "claim_of_json (sd_claim sd) = Some c" for c
  proof (cases "sr_claim r")
    case None
    hence "sd_claim sd = JNull" using f(5) by (simp add: parse_claim_def)
    thus ?thesis using that by (simp add: claim_of_json_def isClaimData_def Let_def)
  next
    case (Some t)
    then obtain d where d: "row_claim r = Some d" using row_claim_None[OF assms(1)] by fastforce
    hence "sr_claim r = Some (JsonText (claim_json d))" "claim_ok d" using row_claim_Some[OF assms(1)] by simp_all
    hence "sd_claim sd = claim_json d" using f(5) by (simp add: parse_claim_def)
    thus ?thesis using that \<open>claim_ok d\<close> d by (simp add: claim_of_claim_json)
  qed
  thus ?thesis using f by blast
qed

end
