(* ===== verification/Claim_Safety.thy ===== *)
theory Claim_Safety
  imports Claim_Rows
begin

text \<open>
  The invariant of the payout engine, for every interleaving of its tasks, every list of driver
  faults, every answer of the network, disposals, restarts and crashes: what an object or a
  task believes about a claim is never ahead of the row, and everything handed to the
  network is the transaction the row records.
\<close>

subsection \<open>The invariant\<close>

definition behind :: "faucet_db \<Rightarrow> string \<Rightarrow> eth_claim \<Rightarrow> bool" where
  "behind db s c \<longleftrightarrow> (\<exists>r c'. row_at db s = Some r \<and> row_claim r = Some c' \<and> claim_le c c')"

definition info_ok :: "faucet_db \<Rightarrow> claim_info \<Rightarrow> bool" where
  "info_ok db info \<longleftrightarrow> claim_ok (ci_claim info) \<and> (\<exists>r c'. row_at db (ci_session info) = Some r \<and> row_claim r = Some c' \<and>
     claim_le (ci_claim info) c' \<and> sr_targetAddr r = ci_target info \<and> sr_dropAmount r = ci_amount info)"

fun read_ok :: "faucet_db \<Rightarrow> string \<Rightarrow> nat \<Rightarrow> db_error + store_data option \<Rightarrow> bool" where
  "read_ok db s n (Inr (Some sd)) = (\<forall>c. claim_of_json (sd_claim sd) = Some c \<longrightarrow>
     claim_ok c \<and> sd_claim sd = claim_json c \<and> behind db s c \<and> n \<le> phase_rank (ec_phase c))"
| "read_ok db s n _ = True"

definition pays :: "claim_env \<Rightarrow> claim_info \<Rightarrow> signed_tx \<Rightarrow> bool" where
  "pays env info t \<longleftrightarrow> (\<exists>amount gasPrice nonce. bigint_of_string (ci_amount info) = Some amount \<and>
     prepare_with_nonce (ce_wallet env) (ce_codec env) gasPrice (ci_target info) amount nonce = Inr t)"

fun receipt_ok :: "receipt \<Rightarrow> bool" where
  "receipt_ok (Receipt _ block _) = nonneg_safe (int block)"

fun next_ok :: "transition_next \<Rightarrow> bool" where
  "next_ok (AfterTerminal rc _) = receipt_ok rc"
| "next_ok _ = True"

fun stage_ok :: "faucet_db \<Rightarrow> string \<Rightarrow> eth_claim \<Rightarrow> eth_claim \<Rightarrow> transition_stage \<Rightarrow> bool" where
  "stage_ok db s e c CasCall = True"
| "stage_ok db s e c (CasDone r) = (r = Inr True \<longrightarrow> behind db s c)"
| "stage_ok db s e c (FetchDone _ f) = read_ok db s (phase_rank (ec_phase e)) f"

text \<open>The transitions of the queue start from a queued claim, the others from a signed one.\<close>

fun of_queue :: "transition_next \<Rightarrow> bool" where
  "of_queue AfterPrepared = True"
| "of_queue AfterFailed = True"
| "of_queue _ = False"

fun task_ok :: "claim_env \<Rightarrow> faucet_db \<Rightarrow> claim_info list \<Rightarrow> claim_task \<Rightarrow> bool" where
  "task_ok env db os (Transition k ref e c st) = (ref < length os \<and> claim_ok e \<and> claim_ok c \<and> claim_le e c \<and> e \<noteq> c \<and>
     behind db (ci_session (os ! ref)) e \<and> (\<forall>t. claim_tx c = Some t \<longrightarrow> claim_tx e = None \<longrightarrow> pays env (os ! ref) t) \<and>
     next_ok k \<and> (of_queue k \<longleftrightarrow> phase_rank (ec_phase e) = 0) \<and> stage_ok db (ci_session (os ! ref)) e c st)"
| "task_ok env db os (QueuePrepare ref _) = (ref < length os)"
| "task_ok env db os (Rebroadcast ref) = (ref < length os)"
| "task_ok env db os (BroadcastSent ref _) = (ref < length os)"
| "task_ok env db os (AwaitReceipt ref) = (ref < length os)"
| "task_ok env db os (ReceiptWatch ref _) = (ref < length os)"
| "task_ok env db os (Settle ref rc _) = (ref < length os \<and> receipt_ok rc)"
| "task_ok env db os (Completion ref) = (ref < length os)"
| "task_ok env db os (CompletionHooks ref) = (ref < length os)"
| "task_ok env db os (Finalize ref) = (ref < length os)"
| "task_ok env db os (FinalizeDone ref _) = (ref < length os)"
| "task_ok env db os (FinalizeFetched ref f) = (ref < length os \<and> read_ok db (ci_session (os ! ref)) 1 f)"
| "task_ok env db os (CreateHooks sd _) = (\<exists>r. row_at db (sd_sessionId sd) = Some r \<and> sr_targetAddr r = sd_targetAddr sd)"
| "task_ok env db os (CreateDone info r) = (r = Inr True \<longrightarrow> info_ok db info)"
| "task_ok env db os _ = True"

definition sent_ok :: "faucet_db \<Rightarrow> string \<times> signed_tx \<Rightarrow> bool" where
  "sent_ok db st \<longleftrightarrow> (\<exists>r c. row_at db (fst st) = Some r \<and> row_claim r = Some c \<and> claim_tx c = Some (snd st))"

definition claim_inv :: "claim_env \<Rightarrow> claim_world \<Rightarrow> bool" where
  "claim_inv env w \<longleftrightarrow> db_inv env (cw_db w) \<and>
     (\<forall>info \<in> set (cw_objects w). info_ok (cw_db w) info) \<and>
     (\<forall>t \<in> set (cw_tasks w). task_ok env (cw_db w) (cw_objects w) t) \<and>
     (\<forall>(s, ref) \<in> set (cw_dict w). ref < length (cw_objects w)) \<and>
     (\<forall>ref \<in> set (cw_queue w). ref < length (cw_objects w)) \<and>
     (\<forall>st \<in> set (cw_sent w). sent_ok (cw_db w) st) \<and> 1 \<le> cw_lastIdx w"

lemma behind_next: "claims_next env db db' \<Longrightarrow> behind db s c \<Longrightarrow> behind db' s c"
  unfolding claims_next_def behind_def row_next_def by (meson claim_le_trans)

lemma info_next: "claims_next env db db' \<Longrightarrow> info_ok db info \<Longrightarrow> info_ok db' info"
proof -
  assume n: "claims_next env db db'" "info_ok db info"
  then obtain r c' where r: "row_at db (ci_session info) = Some r" "row_claim r = Some c'" "claim_le (ci_claim info) c'"
    "sr_targetAddr r = ci_target info" "sr_dropAmount r = ci_amount info" "claim_ok (ci_claim info)"
    by (auto simp: info_ok_def)
  then obtain r' where "row_at db' (ci_session info) = Some r'" "row_next r r'" using n(1) by (auto simp: claims_next_def)
  thus "info_ok db' info" using r unfolding info_ok_def row_next_def by (metis claim_le_trans)
qed

lemma read_next: "claims_next env db db' \<Longrightarrow> read_ok db s n f \<Longrightarrow> read_ok db' s n f"
  by (cases "(db, s, n, f)" rule: read_ok.cases) (auto dest: behind_next)

lemma stage_next: "claims_next env db db' \<Longrightarrow> stage_ok db s e c st \<Longrightarrow> stage_ok db' s e c st"
  by (cases st) (auto dest: behind_next read_next)

lemma sent_next: "claims_next env db db' \<Longrightarrow> sent_ok db st \<Longrightarrow> sent_ok db' st"
  unfolding claims_next_def sent_ok_def row_next_def by (meson claim_le_tx)

lemma task_next: "claims_next env db db' \<Longrightarrow> task_ok env db os t \<Longrightarrow> task_ok env db' os t"
proof (cases t)
  case (CreateHooks sd amount)
  assume "claims_next env db db'" "task_ok env db os t"
  thus ?thesis unfolding CreateHooks claims_next_def row_next_def by (metis task_ok.simps(13))
qed (auto dest: behind_next stage_next read_next info_next)

text \<open>A task depends only on what is fixed of an object.\<close>

definition static :: "claim_info \<Rightarrow> string \<times> string \<times> string" where
  "static info = (ci_session info, ci_target info, ci_amount info)"

lemma static_nth:
  assumes "map static os = map static os'" "i < length os"
  shows "ci_session (os ! i) = ci_session (os' ! i) \<and> ci_target (os ! i) = ci_target (os' ! i) \<and> ci_amount (os ! i) = ci_amount (os' ! i)"
proof -
  have "length os = length os'" using assms(1) by (metis length_map)
  hence "static (os ! i) = static (os' ! i)" using assms by (metis nth_map)
  thus ?thesis by (simp add: static_def)
qed

lemma task_static: "map static os = map static os' \<Longrightarrow> task_ok env db os t \<Longrightarrow> task_ok env db os' t"
proof -
  assume s: "map static os = map static os'" "task_ok env db os t"
  have l: "length os' = length os" using s(1) by (metis length_map)
  show ?thesis using s(2) l static_nth[OF s(1)] by (cases t) (auto simp: pays_def)
qed

lemma task_append: "task_ok env db os t \<Longrightarrow> task_ok env db (os @ xs) t"
  by (cases t) (auto simp: nth_append)

subsection \<open>Elementary steps\<close>

named_theorems cinv \<open>steps that keep the invariant\<close>

abbreviation tok :: "claim_env \<Rightarrow> claim_world \<Rightarrow> claim_task \<Rightarrow> bool" where
  "tok env w t \<equiv> task_ok env (cw_db w) (cw_objects w) t"

lemma spawn_fields [simp]:
  "cw_db (spawn t w) = cw_db w" "cw_objects (spawn t w) = cw_objects w" "cw_tasks (spawn t w) = cw_tasks w @ [t]"
  "cw_initialized (spawn t w) = cw_initialized w" "cw_dict (spawn t w) = cw_dict w" "cw_queue (spawn t w) = cw_queue w"
  "cw_pending (spawn t w) = cw_pending w" "cw_sent (spawn t w) = cw_sent w" "cw_lastIdx (spawn t w) = cw_lastIdx w"
  "cw_accounted (spawn t w) = cw_accounted w" "cw_wallet (spawn t w) = cw_wallet w" "cw_completions (spawn t w) = cw_completions w"
  "claim_obj (spawn t w) = claim_obj w" "cw_queueTask (spawn t w) = cw_queueTask w"
  by (simp_all add: spawn_def claim_obj_def fun_eq_iff)

lemma set_claim_fields [simp]:
  "cw_db (set_claim ref c w) = cw_db w" "length (cw_objects (set_claim ref c w)) = length (cw_objects w)"
  "cw_tasks (set_claim ref c w) = cw_tasks w" "cw_initialized (set_claim ref c w) = cw_initialized w"
  "cw_dict (set_claim ref c w) = cw_dict w" "cw_queue (set_claim ref c w) = cw_queue w" "cw_pending (set_claim ref c w) = cw_pending w"
  "cw_sent (set_claim ref c w) = cw_sent w" "cw_lastIdx (set_claim ref c w) = cw_lastIdx w" "cw_accounted (set_claim ref c w) = cw_accounted w"
  "map static (cw_objects (set_claim ref c w)) = map static (cw_objects w)"
  "cw_wallet (set_claim ref c w) = cw_wallet w" "cw_completions (set_claim ref c w) = cw_completions w" "cw_queueTask (set_claim ref c w) = cw_queueTask w"
proof -
  show "map static (cw_objects (set_claim ref c w)) = map static (cw_objects w)"
  proof (cases "ref < length (cw_objects w)")
    case True
    thus ?thesis by (auto simp: set_claim_def map_update claim_obj_def static_def intro!: list_update_same_conv[THEN iffD2])
  qed (simp add: set_claim_def not_less list_update_beyond)
qed (simp_all add: set_claim_def)

lemma obj_set_claim [simp]:
  "obj_session (set_claim ref c w) r = obj_session w r" "ref < length (cw_objects w) \<Longrightarrow> obj_claim (set_claim ref c w) ref = c"
proof -
  show "obj_session (set_claim ref c w) r = obj_session w r"
    by (cases "r = ref"; cases "ref < length (cw_objects w)") (simp_all add: set_claim_def claim_obj_def not_less list_update_beyond)
qed (simp add: set_claim_def claim_obj_def)

lemma tok_set_claim [simp]: "tok env (set_claim ref c w) t = tok env w t"
  using task_static[of "cw_objects w" "cw_objects (set_claim ref c w)" env "cw_db w" t]
    task_static[of "cw_objects (set_claim ref c w)" "cw_objects w" env "cw_db w" t] by auto

lemma claim_inv_fields [simp]:
  "claim_inv env (w\<lparr>cw_wallet := x1\<rparr>) = claim_inv env w" "claim_inv env (w\<lparr>cw_history := x2\<rparr>) = claim_inv env w"
  "claim_inv env (w\<lparr>cw_completions := x3\<rparr>) = claim_inv env w" "claim_inv env (w\<lparr>cw_queueTask := x4\<rparr>) = claim_inv env w"
  "claim_inv env (w\<lparr>cw_lastProcessed := x5\<rparr>) = claim_inv env w" "claim_inv env (w\<lparr>cw_lastConfirmed := x6\<rparr>) = claim_inv env w"
  "claim_inv env (w\<lparr>cw_accounted := x7\<rparr>) = claim_inv env w" "claim_inv env (w\<lparr>cw_pending := x8\<rparr>) = claim_inv env w"
  "claim_inv env (w\<lparr>cw_initialized := x9\<rparr>) = claim_inv env w"
  by (simp_all add: claim_inv_def)

lemma inv_spawn [cinv]: "claim_inv env w \<Longrightarrow> tok env w t \<Longrightarrow> claim_inv env (spawn t w)"
  by (auto simp: claim_inv_def)

lemma inv_dict_delete [cinv]: "claim_inv env w \<Longrightarrow> claim_inv env (w\<lparr>cw_dict := js_delete s (cw_dict w)\<rparr>)"
  by (auto simp: claim_inv_def dest: in_delete)

lemma in_set: "x \<in> set (js_set k v m) \<Longrightarrow> x = (k, v) \<or> x \<in> set m"
  by (induction m) (auto split: if_splits)

lemma inv_dict_set [cinv]: "claim_inv env w \<Longrightarrow> ref < length (cw_objects w) \<Longrightarrow> claim_inv env (w\<lparr>cw_dict := js_set s ref (cw_dict w)\<rparr>)"
  by (auto simp: claim_inv_def dest: in_set)

lemma inv_queue [cinv]: "claim_inv env w \<Longrightarrow> \<forall>ref \<in> set q. ref < length (cw_objects w) \<Longrightarrow> claim_inv env (w\<lparr>cw_queue := q\<rparr>)"
  by (auto simp: claim_inv_def)

lemma inv_queue_ref: "claim_inv env w \<Longrightarrow> ref \<in> set (cw_queue w) \<Longrightarrow> ref < length (cw_objects w)"
  by (auto simp: claim_inv_def)

lemma inv_dict_ref: "claim_inv env w \<Longrightarrow> js_get (cw_dict w) s = Some ref \<Longrightarrow> ref < length (cw_objects w)"
  by (auto simp: claim_inv_def dest: map_of_SomeD)

lemma inv_object: "claim_inv env w \<Longrightarrow> ref < length (cw_objects w) \<Longrightarrow> info_ok (cw_db w) (claim_obj w ref)"
  by (auto simp: claim_inv_def claim_obj_def)

lemma inv_claim: "claim_inv env w \<Longrightarrow> ref < length (cw_objects w) \<Longrightarrow> claim_ok (obj_claim w ref) \<and> behind (cw_db w) (obj_session w ref) (obj_claim w ref)"
  using inv_object by (fastforce simp: info_ok_def behind_def)

lemma inv_set_claim [cinv]:
  assumes "claim_inv env w" "ref < length (cw_objects w)" "claim_ok c" "behind (cw_db w) (obj_session w ref) c"
  shows "claim_inv env (set_claim ref c w)"
proof -
  have "info_ok (cw_db w) ((claim_obj w ref)\<lparr>ci_claim := c\<rparr>)"
    using inv_object[OF assms(1,2)] assms(3,4) by (auto simp: info_ok_def behind_def)
  hence "info_ok (cw_db w) info" if "info \<in> set (cw_objects (set_claim ref c w))" for info
    using that assms(1) by (auto simp: claim_inv_def set_claim_def dest!: set_update_subset_insert[THEN subsetD])
  moreover have "task_ok env (cw_db w) (cw_objects (set_claim ref c w)) t = tok env w t" for t
    using tok_set_claim[of env ref c w t] by simp
  ultimately show ?thesis using assms(1) by (simp add: claim_inv_def)
qed

lemma inv_db:
  assumes "claim_inv env w" "claims_next env (cw_db w) db"
  shows "claim_inv env (w\<lparr>cw_db := db\<rparr>)"
  using assms claims_next_inv[OF assms(2)] info_next[OF assms(2)] task_next[OF assms(2)] sent_next[OF assms(2)]
  by (simp add: claim_inv_def)

lemma inv_request [cinv]:
  assumes "claim_inv env w"
    and "wp m (\<lambda>a db. claims_next env (cw_db w) db \<and> task_ok env db (cw_objects w) (k (Inr a)))
      (\<lambda>e db. claims_next env (cw_db w) db \<and> task_ok env db (cw_objects w) (k (Inl e))) (cw_db w)"
  shows "claim_inv env (request m k w)"
proof -
  obtain r db where m: "m (cw_db w) = (r, db)" by (cases "m (cw_db w)")
  have "claims_next env (cw_db w) db \<and> task_ok env db (cw_objects w) (k r)" using assms(2) m by (cases r) (auto simp: wp_def)
  thus ?thesis using inv_spawn[OF inv_db[OF assms(1)]] by (simp add: request_def m)
qed

lemma inv_new_claim:
  assumes "claim_inv env w" "info_ok (cw_db w) info" "new_claim info w = (ref, w')"
  shows "claim_inv env w' \<and> ref = length (cw_objects w) \<and> cw_objects w' = cw_objects w @ [info] \<and> cw_db w' = cw_db w \<and>
    cw_dict w' = cw_dict w \<and> cw_queue w' = cw_queue w \<and> cw_wallet w' = cw_wallet w \<and> cw_pending w' = cw_pending w \<and> cw_initialized w' = cw_initialized w"
  using assms by (auto simp: new_claim_def claim_inv_def less_Suc_eq intro!: task_append)

subsection \<open>The operations\<close>

lemma reconciliation_fields [simp]:
  "cw_db (startClaimReconciliation ref w) = cw_db w" "cw_objects (startClaimReconciliation ref w) = cw_objects w"
  "cw_db (getConfirmedClaimCompletion ref w) = cw_db w" "cw_objects (getConfirmedClaimCompletion ref w) = cw_objects w"
  "cw_initialized (getConfirmedClaimCompletion ref w) = cw_initialized w"
  "cw_db (end_completion ref w) = cw_db w" "cw_objects (end_completion ref w) = cw_objects w"
  by (simp_all add: startClaimReconciliation_def getConfirmedClaimCompletion_def end_completion_def)

lemma inv_startReconciliation [cinv]: "claim_inv env w \<Longrightarrow> ref < length (cw_objects w) \<Longrightarrow> claim_inv env (startClaimReconciliation ref w)"
  by (simp add: startClaimReconciliation_def cinv)

lemma inv_completion [cinv]: "claim_inv env w \<Longrightarrow> ref < length (cw_objects w) \<Longrightarrow> claim_inv env (getConfirmedClaimCompletion ref w)"
  by (simp add: getConfirmedClaimCompletion_def cinv)

lemma inv_end_completion [cinv]: "claim_inv env w \<Longrightarrow> claim_inv env (end_completion ref w)"
  by (simp add: end_completion_def)

lemma inv_finish:
  assumes "finishClaimReconciliation env ref c w = (b, w')" "claim_inv env w"
  shows "claim_inv env w' \<and> cw_db w' = cw_db w \<and> cw_objects w' = cw_objects w \<and> cw_tasks w' = cw_tasks w \<and> cw_initialized w' = cw_initialized w"
  using assms by (auto simp: finishClaimReconciliation_def Let_def split: option.splits prod.splits if_splits sum.splits intro!: cinv
      inv_dict_delete[of env "w\<lparr>cw_pending := p\<rparr>" for p, simplified])

lemma inv_reconcile:
  assumes "reconcileObservedTerminal env ref c w = (b, w')" "claim_inv env w" "ref < length (cw_objects w)"
  shows "claim_inv env w' \<and> cw_db w' = cw_db w \<and> cw_objects w' = cw_objects w \<and> cw_initialized w' = cw_initialized w"
proof -
  have "claim_inv env (w\<lparr>cw_dict := js_delete s (cw_dict w), cw_queue := filter (\<lambda>r. r \<noteq> ref) (cw_queue w)\<rparr>)" for s
    using inv_queue[OF inv_dict_delete[OF assms(2)], of "filter (\<lambda>r. r \<noteq> ref) (cw_queue w)" s] inv_queue_ref[OF assms(2)] by auto
  thus ?thesis using assms inv_completion[OF assms(2,3)] inv_finish[of env ref c w b w']
    by (auto simp: reconcileObservedTerminal_def Let_def split: claim_phase.splits if_splits)
qed

lemma inv_transition_done:
  assumes "claim_inv env w" "ref < length (cw_objects w)" "next_ok k"
  shows "claim_inv env (transition_done env k ref c r w)"
proof (cases k)
  case AfterPrepared
  show ?thesis using assms
    by (auto simp: AfterPrepared transition_done_def prepared_result_def split: option.split transition_result.split bool.split intro!: cinv)
next
  case AfterFailed
  show ?thesis using assms
    by (auto simp: AfterFailed transition_done_def failed_result_def split: transition_result.split bool.split intro!: cinv)
next
  case AfterPending
  show ?thesis using assms
    by (auto simp: AfterPending transition_done_def pending_result_def split: transition_result.split intro!: cinv)
next
  case (AfterTerminal rc attempt)
  obtain b w' where f: "finishClaimReconciliation env ref c w = (b, w')" by (cases "finishClaimReconciliation env ref c w")
  show ?thesis using assms inv_finish[OF f assms(1)]
    by (auto simp: AfterTerminal transition_done_def terminal_result_def f split: transition_result.split bool.split intro!: cinv)
qed

lemma inv_observed:
  assumes inv: "claim_inv env w" and t: "tok env w (Transition k ref e c (FetchDone err (Inr stored)))"
  shows "claim_inv env (transition_observed env k ref e c err stored w)"
proof -
  have ref: "ref < length (cw_objects w)" and k: "next_ok k" using t by simp_all
  show ?thesis
  proof (cases stored)
    case None
    thus ?thesis using inv_transition_done[OF inv ref k] by (simp add: transition_observed_def Let_def)
  next
    case (Some sd)
    show ?thesis
    proof (cases "claim_of_json (sd_claim sd)")
      case None
      thus ?thesis using inv_transition_done[OF inv ref k] Some by (simp add: transition_observed_def Let_def)
    next
      case (Some d)
      hence d: "claim_ok d" "behind (cw_db w) (obj_session w ref) d" using t \<open>stored = Some sd\<close> by (auto simp: claim_obj_def)
      let ?w = "set_claim ref d w"
      have i: "claim_inv env ?w" "ref < length (cw_objects ?w)" using inv_set_claim[OF inv ref d] ref by simp_all
      have retry: "claim_inv env (spawn (Transition k ref e c CasCall) ?w)"
        using t by (intro inv_spawn i(1), unfold tok_set_claim) simp
      obtain b w2 where r: "reconcileObservedTerminal env ref d ?w = (b, w2)" by (cases "reconcileObservedTerminal env ref d ?w")
      note w2 = inv_reconcile[OF r i]
      have "ref < length (cw_objects w2)" using w2 i(2) by simp
      hence "claim_inv env (transition_done env k ref c x w2)" for x using inv_transition_done[OF _ _ k] w2 by blast
      thus ?thesis using inv_transition_done[OF i k] retry r Some \<open>stored = Some sd\<close>
        by (simp add: transition_observed_def Let_def)
    qed
  qed
qed

lemma getSession_read:
  assumes "db_inv env db" and low: "behind db sid e"
  shows "wp (getSession sid)
    (\<lambda>a db'. claims_next env db db' \<and> read_ok db' sid (phase_rank (ec_phase e)) (Inr a))
    (\<lambda>x db'. claims_next env db db' \<and> read_ok db' sid (phase_rank (ec_phase e)) (Inl x)) db"
proof (rule wp_mono[OF getSession_next[OF assms(1)]], goal_cases)
  case (1 a db')
  show ?case
  proof (cases a)
    case (Some sd)
    then obtain r where r: "row_at db sid = Some r" "row_at db' sid = Some r" "store_data_of r = Inr sd" using 1 by blast
    have "row_ok r" using db_inv_row[OF assms(1) r(1)] by simp
    moreover have "phase_rank (ec_phase e) \<le> phase_rank (ec_phase c)" if "row_claim r = Some c" for c
      using low that r(1) by (auto simp: behind_def claim_le_def)
    ultimately show ?thesis using store_data_claim[OF _ r(3)] 1 Some r(2) by (auto simp: behind_def)
  qed (use 1 in simp)
qed simp

lemma inv_transition:
  assumes inv: "claim_inv env w" and t: "tok env w (Transition k ref e c st)"
  shows "claim_inv env (transitionClaim env k ref e c st w)"
proof -
  have ref: "ref < length (cw_objects w)" and k: "next_ok k" using t by simp_all
  have db: "db_inv env (cw_db w)" using inv by (simp add: claim_inv_def)
  have low: "behind (cw_db w) (obj_session w ref) e" using t by (simp add: claim_obj_def)
  note done' = inv_transition_done[OF inv ref k]
  have again: "task_ok env db' (cw_objects w) (Transition k ref e c st')"
    if "claims_next env (cw_db w) db'" "stage_ok db' (obj_session w ref) e c st'" for st' db'
    using t that behind_next[OF that(1)] by (simp add: claim_obj_def)
  show ?thesis
  proof (cases st)
    case CasCall
    have paid: "paid_for env r u" if "row_at (cw_db w) (obj_session w ref) = Some r" "claim_tx c = Some u" "claim_tx e = None" for r u
    proof -
      have "pays env (claim_obj w ref) u" using t that(2,3) by (simp add: claim_obj_def)
      moreover have "sr_targetAddr r = ci_target (claim_obj w ref)" "sr_dropAmount r = ci_amount (claim_obj w ref)"
        using inv_object[OF inv ref] that(1) by (auto simp: info_ok_def)
      ultimately show ?thesis by (simp add: paid_for_def pays_def)
    qed
    have cas: "wp (compareAndSetClaim (obj_session w ref) e c)
        (\<lambda>b db'. claims_next env (cw_db w) db' \<and> (b \<longrightarrow> (\<exists>r. row_at db' (obj_session w ref) = Some r \<and> row_claim r = Some c)))
        (\<lambda>_. claims_next env (cw_db w)) (cw_db w)"
      using t paid by (intro wp_compareAndSet[OF db]) auto
    have "claim_inv env (request (compareAndSetClaim (obj_session w ref) e c) (\<lambda>r. Transition k ref e c (CasDone r)) w)"
    proof (rule inv_request[OF inv], rule wp_mono[OF cas], goal_cases)
      case (1 b db')
      hence "stage_ok db' (obj_session w ref) e c (CasDone (Inr b))" by (auto simp: behind_def)
      thus ?case using again 1 by blast
    next
      case (2 x db')
      have "stage_ok db' (obj_session w ref) e c (CasDone (Inl x))" by simp
      thus ?case using again 2 by blast
    qed
    thus ?thesis using done' by (simp add: CasCall transitionClaim_def)
  next
    case (CasDone r)
    have fetch: "claim_inv env (request (getSession (obj_session w ref)) (\<lambda>f. Transition k ref e c (FetchDone err f)) w)" for err
    proof (rule inv_request[OF inv], rule wp_mono[OF getSession_read[OF db low]], goal_cases)
      case (1 a db')
      hence "stage_ok db' (obj_session w ref) e c (FetchDone err (Inr a))" by simp
      thus ?case using again 1 by blast
    next
      case (2 x db')
      hence "stage_ok db' (obj_session w ref) e c (FetchDone err (Inl x))" by simp
      thus ?case using again 2 by blast
    qed
    have "claim_inv env (set_claim ref c w)" if "r = Inr True"
      using t that CasDone by (intro inv_set_claim[OF inv ref]) (auto simp: claim_obj_def)
    thus ?thesis using fetch inv_transition_done[of env "set_claim ref c w" ref k c] ref k
      by (auto simp: CasDone transitionClaim_def split: sum.split bool.split)
  next
    case (FetchDone err f)
    show ?thesis
    proof (cases f)
      case (Inl x)
      thus ?thesis using done' again[OF claims_next_refl[OF db], of CasCall] inv
        by (auto simp: FetchDone transitionClaim_def intro!: inv_spawn)
    next
      case (Inr stored)
      thus ?thesis using inv_observed[OF inv, of k ref e c err stored] t by (simp add: FetchDone transitionClaim_def)
    qed
  qed
qed

lemma claim_obj_fields [simp]:
  "claim_obj (w\<lparr>cw_wallet := x1\<rparr>) = claim_obj w" "claim_obj (w\<lparr>cw_lastProcessed := x2\<rparr>) = claim_obj w"
  "claim_obj (w\<lparr>cw_queue := x3\<rparr>) = claim_obj w" "claim_obj (w\<lparr>cw_accounted := x4\<rparr>) = claim_obj w"
  "claim_obj (w\<lparr>cw_sent := x5\<rparr>) = claim_obj w" "claim_obj (w\<lparr>cw_dict := x6\<rparr>) = claim_obj w"
  "claim_obj (w\<lparr>cw_tasks := x7\<rparr>) = claim_obj w" "claim_obj (w\<lparr>cw_db := x8\<rparr>) = claim_obj w"
  "claim_obj (w\<lparr>cw_pending := x9\<rparr>) = claim_obj w" "claim_obj (w\<lparr>cw_initialized := x10\<rparr>) = claim_obj w"
  "claim_obj (w\<lparr>cw_completions := x11\<rparr>) = claim_obj w" "claim_obj (w\<lparr>cw_queueTask := x12\<rparr>) = claim_obj w"
  by (simp_all add: claim_obj_def fun_eq_iff)

lemma inv_start_transition:
  assumes inv: "claim_inv env w" and ref: "ref < length (cw_objects w)" and ph: "phase_ok ph"
    and rank: "phase_rank (ec_phase (obj_claim w ref)) < phase_rank ph"
    and keep: "\<And>t. claim_tx (obj_claim w ref) = Some t \<Longrightarrow> phase_signed ph = Some t"
    and pay: "\<And>t. phase_signed ph = Some t \<Longrightarrow> claim_tx (obj_claim w ref) = None \<Longrightarrow> pays env (claim_obj w ref) t"
    and k: "next_ok k" "of_queue k \<longleftrightarrow> phase_rank (ec_phase (obj_claim w ref)) = 0"
  shows "claim_inv env (spawn (Transition k ref (obj_claim w ref) (with_phase (obj_claim w ref) ph) CasCall) w)"
proof (rule inv_spawn[OF inv])
  let ?c = "obj_claim w ref"
  note c = inv_claim[OF inv ref]
  have "claim_ok (with_phase ?c ph)" using c ph by (simp add: claim_ok_def with_phase_def)
  moreover have "claim_le ?c (with_phase ?c ph)" by (rule claim_le_with_phase[OF rank keep])
  moreover have "?c \<noteq> with_phase ?c ph" using rank by (metis with_phase_def eth_claim.select_convs(3) eth_claim.surjective eth_claim.update_convs(3) less_irrefl)
  ultimately show "tok env w (Transition k ref ?c (with_phase ?c ph) CasCall)"
    using c ref pay k by (simp add: claim_obj_def with_phase_def)
qed

lemma queued_phase: "claim_status c = QUEUE \<longleftrightarrow> ec_phase c = Queued"
  by (cases "ec_phase c") auto

lemma inv_failQueued [cinv]:
  "claim_inv env w \<Longrightarrow> ref < length (cw_objects w) \<Longrightarrow> message \<noteq> [] \<Longrightarrow> claim_inv env (failQueuedClaim ref message w)"
  unfolding failQueuedClaim_def Let_def queued_phase
  using inv_start_transition[of env w ref "Failed message" AfterFailed] inv_spawn[of env w QueueLoop] by auto

lemma inv_processQueueTx [cinv]:
  "claim_inv env w \<Longrightarrow> ref < length (cw_objects w) \<Longrightarrow> claim_inv env (processQueueTx ref w)"
  by (simp add: processQueueTx_def cinv)

lemma parse_signed_ok: "parseClaimTransaction cfg codec t = Inr p \<Longrightarrow> signed_ok t"
  by (auto simp: parseClaimTransaction_def signed_ok_def nonneg_safe_def is_safe_integer_def split: if_splits)

lemma inv_prepared:
  assumes inv: "claim_inv env w" and ref: "ref < length (cw_objects w)" and q: "claim_status (obj_claim w ref) = QUEUE"
  shows "claim_inv env (processQueueTx_prepared env g ref nonce w)"
proof -
  have "claim_inv env (spawn (Transition AfterPrepared ref (obj_claim w ref) (with_phase (obj_claim w ref) (Prepared t)) CasCall) (w\<lparr>cw_wallet := x\<rparr>))"
    if "prepare_with_nonce (ce_wallet env) (ce_codec env) g (ci_target (claim_obj w ref)) amount nonce = Inr t" "obj_amount w ref = Some amount"
      "canReserveClaimTx (ce_wallet env) (ce_codec env) t amount (cw_wallet w) = Inr b" for t amount b x
  proof -
    have "signed_ok t" using that(3) by (auto simp: canReserveClaimTx_def getClaimReservation_def split: sum.splits if_splits intro: parse_signed_ok)
    moreover have "pays env (claim_obj w ref) t" using that(1,2) by (auto simp: pays_def obj_amount_def)
    ultimately show ?thesis using q ref inv_start_transition[of env "w\<lparr>cw_wallet := x\<rparr>" ref "Prepared t" AfterPrepared] inv
      by (simp add: queued_phase)
  qed
  thus ?thesis using assms
    by (auto simp: processQueueTx_prepared_def Let_def split: option.split sum.split bool.split intro!: cinv)
qed

lemma inv_queue_loop: "claim_inv env w \<Longrightarrow> claim_inv env (processQueue_loop env w)"
proof (cases "cw_queue w")
  case (Cons ref rest)
  assume inv: "claim_inv env w"
  have ref: "ref < length (cw_objects w)" "\<forall>r \<in> set rest. r < length (cw_objects w)" using inv_queue_ref[OF inv] Cons by auto
  have "claim_inv env (processQueueTx ref (w\<lparr>cw_queue := rest, cw_lastProcessed := n\<rparr>))" for n
    using inv_queue[OF inv ref(2)] ref by (intro inv_processQueueTx) simp_all
  thus ?thesis using inv Cons by (auto simp: processQueue_loop_def Let_def split: option.split intro!: cinv)
qed (simp add: processQueue_loop_def cinv)

lemma unsettled_facts:
  "unsettled_tx w ref = Some t \<Longrightarrow> cw_initialized w \<and> js_get (cw_dict w) (obj_session w ref) = Some ref \<and>
     isActiveSignedClaimData (obj_claim w ref) \<and> claim_tx (obj_claim w ref) = Some t"
  by (simp add: unsettled_tx_def split: if_splits)

lemma active_phase: "isActiveSignedClaimData c \<longleftrightarrow> (\<exists>t. ec_phase c = Prepared t \<or> ec_phase c = Pending t)"
  by (cases "ec_phase c") (auto simp: isActiveSignedClaimData_def)

lemma inv_sent: "claim_inv env w \<Longrightarrow> sent_ok (cw_db w) st \<Longrightarrow> claim_inv env (w\<lparr>cw_sent := cw_sent w @ [st]\<rparr>)"
  by (auto simp: claim_inv_def)

lemma inv_rebroadcast: "claim_inv env w \<Longrightarrow> ref < length (cw_objects w) \<Longrightarrow> claim_inv env (rebroadcastClaim env ref w)"
proof (cases "unsettled_tx w ref")
  case (Some t)
  assume inv: "claim_inv env w" and ref: "ref < length (cw_objects w)"
  have "sent_ok (cw_db w) (obj_session w ref, t)"
    using unsettled_facts[OF Some] inv_claim[OF inv ref] by (auto simp: sent_ok_def behind_def dest: claim_le_tx)
  from inv_sent[OF inv this] ref inv Some show ?thesis
    by (auto simp: rebroadcastClaim_def split: sum.split intro!: inv_spawn)
qed (simp add: rebroadcastClaim_def)

lemma inv_rebroadcast_answered: "claim_inv env w \<Longrightarrow> ref < length (cw_objects w) \<Longrightarrow> claim_inv env (rebroadcast_answered env a ref t w)"
proof -
  assume inv: "claim_inv env w" and ref: "ref < length (cw_objects w)"
  have "claim_inv env (spawn (Transition AfterPending ref (obj_claim w ref) (with_phase (obj_claim w ref) (Pending t')) CasCall) w)"
    if "ec_phase (obj_claim w ref) = Prepared t'" for t'
    using inv_claim[OF inv ref] that by (intro inv_start_transition[OF inv ref]) (auto simp: claim_ok_def)
  thus ?thesis using inv_spawn[OF inv, of "Rebroadcast ref"] inv ref
    by (auto simp: rebroadcast_answered_def Let_def split: sum.split claim_phase.split)
qed

lemma inv_await: "claim_inv env w \<Longrightarrow> ref < length (cw_objects w) \<Longrightarrow> claim_inv env (awaitTxReceipt env ref w)"
  by (auto simp: awaitTxReceipt_def split: option.split sum.split intro!: inv_spawn)

lemma inv_receipt: "claim_inv env w \<Longrightarrow> ref < length (cw_objects w) \<Longrightarrow> (\<And>rc. a = Some rc \<Longrightarrow> receipt_ok rc) \<Longrightarrow> claim_inv env (receipt_answered a ref w)"
  by (auto simp: receipt_answered_def split: option.split intro!: inv_spawn)

lemma fee_digits: "all_digits (dec_nat n)"
  using dec_nat_digits by (simp add: all_digits_def)

lemma inv_settle: "claim_inv env w \<Longrightarrow> ref < length (cw_objects w) \<Longrightarrow> receipt_ok rc \<Longrightarrow> claim_inv env (settleClaim ref rc n w)"
proof -
  assume inv: "claim_inv env w" and ref: "ref < length (cw_objects w)" and rc: "receipt_ok rc"
  have "claim_inv env (spawn (Transition (AfterTerminal rc n) ref (obj_claim w ref) (with_phase (obj_claim w ref) (terminal_phase rc t)) CasCall) w)"
    if "isActiveSignedClaimData (obj_claim w ref)" "claim_tx (obj_claim w ref) = Some t" for t
  proof -
    obtain ok block fee where r: "rc = Receipt ok block fee" by (cases rc)
    have s: "signed_ok t" using inv_claim[OF inv ref] that by (auto simp: active_phase claim_ok_def)
    show ?thesis
      by (rule inv_start_transition[OF inv ref]) (use that s rc in \<open>cases ok; auto simp: r active_phase fee_digits\<close>)+
  qed
  thus ?thesis using inv by (auto simp: settleClaim_def Let_def split: option.split)
qed

lemma inv_complete: "claim_inv env w \<Longrightarrow> ref < length (cw_objects w) \<Longrightarrow> claim_inv env (completeConfirmedClaim ref w)"
  by (auto simp: completeConfirmedClaim_def intro!: cinv)

lemma inv_hooks_done: "claim_inv env w \<Longrightarrow> ref < length (cw_objects w) \<Longrightarrow> claim_inv env (completion_hooks_done ok ref w)"
  by (auto simp: completion_hooks_done_def Let_def intro!: cinv)

lemma inv_finalized: "claim_inv env w \<Longrightarrow> ref < length (cw_objects w) \<Longrightarrow> claim_inv env (claim_finalized env ref w)"
proof -
  assume inv: "claim_inv env w" and ref: "ref < length (cw_objects w)"
  obtain b w' where f: "finishClaimReconciliation env ref (obj_claim w ref) w = (b, w')" by (cases "finishClaimReconciliation env ref (obj_claim w ref) w")
  show ?thesis using inv_finish[OF f inv] ref by (auto simp: claim_finalized_def f intro!: cinv)
qed

lemma inv_finalize: "claim_inv env w \<Longrightarrow> ref < length (cw_objects w) \<Longrightarrow> claim_inv env (finalizeConfirmedClaimTx ref w)"
proof -
  assume inv: "claim_inv env w" and ref: "ref < length (cw_objects w)"
  have db: "db_inv env (cw_db w)" using inv by (simp add: claim_inv_def)
  have "claim_inv env (request (finalizeConfirmedClaim (obj_session w ref) (obj_claim w ref)) (FinalizeDone ref) w)"
    by (rule inv_request[OF inv], rule wp_mono[OF wp_finalize_claim[OF db]]) (use inv_claim[OF inv ref] ref in auto)
  thus ?thesis using inv_end_completion[OF inv] by (simp add: finalizeConfirmedClaimTx_def)
qed

lemma inv_finalize_done:
  assumes inv: "claim_inv env w" and ref: "ref < length (cw_objects w)" and rank: "1 \<le> phase_rank (ec_phase (obj_claim w ref))"
  shows "claim_inv env (finalize_done env ref r w)"
proof -
  have db: "db_inv env (cw_db w)" using inv by (simp add: claim_inv_def)
  have low: "behind (cw_db w) (obj_session w ref) (obj_claim w ref)" using inv_claim[OF inv ref] by simp
  have mono: "read_ok db s n f \<Longrightarrow> 1 \<le> n \<Longrightarrow> read_ok db s (Suc 0) f" for db s n f
    by (cases "(db, s, n, f)" rule: read_ok.cases) auto
  have "claim_inv env (request (getSession (obj_session w ref)) (FinalizeFetched ref) w)"
    by (rule inv_request[OF inv], rule wp_mono[OF getSession_read[OF db low]]) (use ref rank mono in \<open>auto simp: claim_obj_def\<close>)
  thus ?thesis using inv_finalized[OF inv ref] by (auto simp: finalize_done_def split: sum.split bool.split)
qed

lemma inv_finalize_fetched:
  assumes inv: "claim_inv env w" and ref: "ref < length (cw_objects w)" and f: "read_ok (cw_db w) (obj_session w ref) 1 f"
  shows "claim_inv env (finalize_fetched env ref f w)"
proof (cases f)
  case (Inl e)
  thus ?thesis using inv ref by (auto simp: finalize_fetched_def intro!: cinv)
next
  case (Inr stored)
  show ?thesis
  proof (cases stored)
    case None
    thus ?thesis using Inr inv by (simp add: finalize_fetched_def cinv)
  next
    case (Some sd)
    show ?thesis
    proof (cases "claim_of_json (sd_claim sd)")
      case None
      thus ?thesis using Inr Some inv by (simp add: finalize_fetched_def cinv)
    next
      case (Some d)
      let ?w = "set_claim ref d w"
      have i: "claim_inv env ?w" "ref < length (cw_objects ?w)"
        using inv_set_claim[OF inv ref, of d] f Some Inr \<open>stored = _\<close> ref by simp_all
      obtain b w2 where r: "reconcileObservedTerminal env ref d ?w = (b, w2)" by (cases "reconcileObservedTerminal env ref d ?w")
      have w2: "claim_inv env w2" "ref < length (cw_objects w2)" using inv_reconcile[OF r i] i(2) by simp_all
      have "claim_inv env (spawn (Finalize ref) ?w)" "claim_inv env (spawn (Completion ref) w2)" "claim_inv env (end_completion ref w2)"
        using i w2 by (auto intro!: cinv)
      thus ?thesis using inv_finalized[OF i] Inr Some \<open>stored = _\<close> r by (simp add: finalize_fetched_def Let_def)
    qed
  qed
qed

subsection \<open>Creating and restoring claims\<close>

lemma inv_lastIdx: "claim_inv env w \<Longrightarrow> 1 \<le> n \<Longrightarrow> claim_inv env (w\<lparr>cw_lastIdx := n\<rparr>)"
  by (simp add: claim_inv_def)

lemma inv_create_hooks:
  assumes inv: "claim_inv env w" and t: "tok env w (CreateHooks sd amount)" and n: "nonneg_safe (cw_lastIdx w)" "nonneg_safe now"
  shows "claim_inv env (create_hooks_done ok now sd amount w)"
proof -
  let ?c = "\<lparr>ec_claimIdx = cw_lastIdx w, ec_claimTime = now, ec_phase = Queued\<rparr>"
  let ?i = "\<lparr>ci_session = sd_sessionId sd, ci_target = sd_targetAddr sd, ci_amount = amount, ci_claim = ?c\<rparr>"
  let ?w = "w\<lparr>cw_lastIdx := cw_lastIdx w + 1\<rparr>"
  have idx: "1 \<le> cw_lastIdx w" using inv by (simp add: claim_inv_def)
  have c: "claim_ok ?c" "claim_status ?c = QUEUE" using idx n by (simp_all add: claim_ok_def)
  have inv': "claim_inv env ?w" using inv_lastIdx[OF inv, of "cw_lastIdx w + 1"] idx by simp
  hence db: "db_inv env (cw_db ?w)" by (simp add: claim_inv_def)
  obtain r0 where r0: "row_at (cw_db w) (sd_sessionId sd) = Some r0" "sr_targetAddr r0 = sd_targetAddr sd" using t by auto
  have "claim_inv env (request (tryCreateClaim (sd_sessionId sd) amount ?c) (CreateDone ?i) ?w)"
  proof (rule inv_request[OF inv'], rule wp_mono[OF wp_tryCreate[OF db c]], goal_cases)
    case (1 b db')
    have "info_ok db' ?i" if b: "b"
    proof -
      obtain r where "row_at db' (sd_sessionId sd) = Some r" "row_claim r = Some ?c" "sr_dropAmount r = amount" "sr_targetAddr r = sr_targetAddr r0"
        using 1 b r0(1) by auto
      thus ?thesis using c r0(2) by (auto simp: info_ok_def)
    qed
    thus ?case using 1 by auto
  qed simp
  thus ?thesis using inv by (simp add: create_hooks_done_def Let_def)
qed

lemma inv_create_done:
  assumes inv: "claim_inv env w" and t: "tok env w (CreateDone info r)"
  shows "claim_inv env (create_done info r w)"
proof (cases "r = Inr True")
  case True
  obtain ref w1 where n: "new_claim info w = (ref, w1)" by (cases "new_claim info w")
  have "info_ok (cw_db w) info" using t True by simp
  note w1 = inv_new_claim[OF inv this n]
  have "claim_inv env (w1\<lparr>cw_queue := cw_queue w1 @ [ref]\<rparr>)"
    using w1 inv_queue_ref[of env w1] by (intro inv_queue) auto
  from inv_dict_set[OF this, of ref "ci_session info"] show ?thesis using w1 True n by (simp add: create_done_def)
next
  case False
  thus ?thesis using inv by (auto simp: create_done_def split: sum.split bool.split)
qed

lemma inv_create_session:
  assumes inv: "claim_inv env w" and r: "row_at (cw_db w) (sd_sessionId sd) = Some r" "sr_targetAddr r = sd_targetAddr sd"
    and c: "createSessionClaim env sd w = Inr w'"
  shows "claim_inv env w'"
  using c inv r by (auto simp: createSessionClaim_def try_bind_Inr_iff split: if_splits intro!: inv_spawn)

definition stored_in :: "faucet_db \<Rightarrow> store_data \<Rightarrow> bool" where
  "stored_in db sd \<longleftrightarrow> (\<exists>r. row_at db (sd_sessionId sd) = Some r \<and> store_data_of r = Inr sd)"

lemma stored_info:
  assumes "db_inv env db" "stored_in db sd" "claim_of_json (sd_claim sd) = Some c"
  shows "info_ok db \<lparr>ci_session = sd_sessionId sd, ci_target = sd_targetAddr sd, ci_amount = sd_dropAmount sd, ci_claim = c\<rparr>"
proof -
  obtain r where r: "row_at db (sd_sessionId sd) = Some r" "store_data_of r = Inr sd" using assms(2) by (auto simp: stored_in_def)
  have "row_ok r" using db_inv_row[OF assms(1) r(1)] by simp
  from store_data_claim[OF this r(2)] r(1) assms(3) show ?thesis by (auto simp: info_ok_def)
qed

lemma inv_restore:
  assumes inv: "claim_inv env w" and sd: "stored_in (cw_db w) sd"
  shows "claim_inv env (restore_claim env sd w) \<and> cw_db (restore_claim env sd w) = cw_db w \<and>
    cw_initialized (restore_claim env sd w) = cw_initialized w"
proof (cases "claim_of_json (sd_claim sd)")
  case None
  thus ?thesis using inv by (simp add: restore_claim_def)
next
  case (Some c)
  let ?i = "\<lparr>ci_session = sd_sessionId sd, ci_target = sd_targetAddr sd, ci_amount = sd_dropAmount sd, ci_claim = c\<rparr>"
  obtain ref w1 where n: "new_claim ?i w = (ref, w1)" by (cases "new_claim ?i w")
  have db: "db_inv env (cw_db w)" using inv by (simp add: claim_inv_def)
  note w1 = inv_new_claim[OF inv stored_info[OF db sd Some] n]
  have ref: "ref < length (cw_objects w1)" using w1 by simp
  let ?w2 = "w1\<lparr>cw_dict := js_set (sd_sessionId sd) ref (cw_dict w1)\<rparr>"
  have w2: "claim_inv env ?w2" using inv_dict_set[OF _ ref] w1 by blast
  have q: "claim_inv env (?w2\<lparr>cw_queue := cw_queue ?w2 @ [ref]\<rparr>)"
    using ref inv_queue_ref[of env w1] w1 by (intro inv_queue[OF w2]) auto
  have rec: "claim_inv env (startClaimReconciliation ref (?w2\<lparr>cw_wallet := x, cw_pending := p\<rparr>)) \<and>
      cw_initialized (startClaimReconciliation ref (?w2\<lparr>cw_wallet := x, cw_pending := p\<rparr>)) = cw_initialized w" for x p
    using w2 ref w1 by (auto simp: startClaimReconciliation_def intro!: inv_spawn)
  show ?thesis using w1 w2 q rec Some n
    by (auto simp: restore_claim_def Let_def split: claim_phase.split option.split sum.split)
qed

lemma inv_fold:
  assumes "\<And>x w. x \<in> set xs \<Longrightarrow> P w \<Longrightarrow> P (f x w)" "P w"
  shows "P (fold f xs w)"
  using assms by (induction xs arbitrary: w) auto

lemma collect_stored:
  "collect_rows False rs = Inr ds \<Longrightarrow> sd \<in> set ds \<Longrightarrow> \<exists>r \<in> set rs. store_data_of r = Inr sd"
  by (induction rs arbitrary: ds) (auto simp: try_bind_Inr_iff select_row_def)

lemma store_data_id: "store_data_of r = Inr sd \<Longrightarrow> sd_sessionId sd = sr_sessionId r"
  by (auto simp: store_data_of_def try_bind_Inr_iff)

lemma getSessions_next:
  assumes inv: "db_inv env db"
  shows "wp (getSessions S) (\<lambda>ds db'. claims_next env db db' \<and> (\<forall>sd \<in> set ds. stored_in db' sd)) (\<lambda>_. claims_next env db) db"
proof -
  have "stored_in (db\<lparr>db_faults := fs\<rparr>) sd" if c: "collect_rows False (filter p (db_sessions db)) = Inr ds" "sd \<in> set ds" for fs ds sd p
  proof -
    obtain r where r: "r \<in> set (db_sessions db)" "store_data_of r = Inr sd" using collect_stored[OF c] by auto
    thus ?thesis using row_at_in[OF db_inv_distinct[OF inv] r(1)] store_data_id[OF r(2)] by (auto simp: stored_in_def)
  qed
  thus ?thesis unfolding getSessions_def selectSessions_def wp_simps
    by (intro wp_db_read) (auto simp: wp_simps claims_next_refl[OF inv] split: sum.split)
qed

lemma inv_reset: "claim_inv env w \<Longrightarrow> claim_inv env (resetRuntimeState w)"
  by (simp add: claim_inv_def resetRuntimeState_def)

lemma inv_initialize_claims:
  assumes "claim_inv env w" "\<forall>sd \<in> set stored. stored_in (cw_db w) sd"
  shows "claim_inv env (initialize_claims env stored w)"
proof -
  let ?P = "\<lambda>v. claim_inv env v \<and> cw_db v = cw_db w"
  have w1: "?P (fold (restore_claim env) stored w)"
    by (rule inv_fold[of stored ?P]) (use assms inv_restore in auto)
  let ?w1 = "fold (restore_claim env) stored w"
  let ?w2 = "?w1\<lparr>cw_queue := sort_key (\<lambda>ref. ec_claimIdx (obj_claim ?w1 ref)) (cw_queue ?w1),
    cw_lastIdx := fold (\<lambda>sd m. max m (getStoredClaimIdx (sd_claim sd))) stored 0 + 1\<rparr>"
  have nn: "0 \<le> m \<Longrightarrow> 0 \<le> fold (\<lambda>sd m. max m (getStoredClaimIdx (sd_claim sd))) xs m" for m xs
    by (induction xs arbitrary: m) auto
  have "1 \<le> fold (\<lambda>sd m. max m (getStoredClaimIdx (sd_claim sd))) stored 0 + 1" using nn[OF order_refl, of stored] by linarith
  moreover have "claim_inv env (?w1\<lparr>cw_queue := sort_key f (cw_queue ?w1)\<rparr>)" for f :: "nat \<Rightarrow> int"
    using w1 inv_queue_ref[of env ?w1] by (intro inv_queue) auto
  ultimately have w2: "claim_inv env ?w2" using inv_lastIdx by simp
  let ?Q = "\<lambda>v. claim_inv env v \<and> cw_objects v = cw_objects ?w2"
  have "?Q (fold getConfirmedClaimCompletion (confirmed_refs ?w2) ?w2)"
  proof (rule inv_fold[of _ ?Q])
    fix ref v assume r: "ref \<in> set (confirmed_refs ?w2)" and v: "?Q v"
    have "ref < length (cw_objects ?w2)" using r w2 by (auto simp: confirmed_refs_def claim_inv_def)
    thus "?Q (getConfirmedClaimCompletion ref v)" using v by (auto intro: inv_completion)
  qed (use w2 in simp)
  thus ?thesis by (simp add: initialize_claims_def Let_def)
qed

lemma inv_initialize:
  assumes inv: "claim_inv env w"
  shows "claim_inv env (initialize env w)"
proof -
  let ?w = "(resetRuntimeState w)\<lparr>cw_initialized := True\<rparr>"
  have w: "claim_inv env ?w" using inv_reset[OF inv] by simp
  hence db: "db_inv env (cw_db ?w)" by (simp add: claim_inv_def)
  obtain r db' where r: "getSessions [CLAIMING] (cw_db ?w) = (r, db')" by (cases "getSessions [CLAIMING] (cw_db ?w)")
  have n: "claims_next env (cw_db ?w) db' \<and> (\<forall>ds. r = Inr ds \<longrightarrow> (\<forall>sd \<in> set ds. stored_in db' sd))"
    using getSessions_next[OF db, of "[CLAIMING]"] r by (cases r) (auto simp: wp_def)
  have "claim_inv env (?w\<lparr>cw_db := db'\<rparr>)" using inv_db[OF w] n by blast
  thus ?thesis using inv n r inv_initialize_claims[of env "?w\<lparr>cw_db := db'\<rparr>"]
    by (auto simp: initialize_def Let_def simp del: claim_inv_fields split: sum.split)
qed

end
