(* ===== verification/Claim_Schedule.thy ===== *)
theory Claim_Schedule
  imports Claim_Safety
begin

text \<open>
  Who may be working on a claim: at most one task belongs to the queue, and only when
  \<^verbatim>\<open>queueTask\<close> is set; a task of the queue that holds a claim finds it queued, and every other
  task that works on a claim finds it beyond the queue.
\<close>

abbreviation obj_rank :: "claim_world \<Rightarrow> ref \<Rightarrow> nat" where
  "obj_rank w ref \<equiv> phase_rank (ec_phase (obj_claim w ref))"

fun worker_ref :: "claim_task \<Rightarrow> ref option" where
  "worker_ref (Rebroadcast ref) = Some ref"
| "worker_ref (BroadcastSent ref _) = Some ref"
| "worker_ref (AwaitReceipt ref) = Some ref"
| "worker_ref (ReceiptWatch ref _) = Some ref"
| "worker_ref (Settle ref _ _) = Some ref"
| "worker_ref (Completion ref) = Some ref"
| "worker_ref (CompletionHooks ref) = Some ref"
| "worker_ref (Finalize ref) = Some ref"
| "worker_ref (FinalizeDone ref _) = Some ref"
| "worker_ref (FinalizeFetched ref _) = Some ref"
| "worker_ref (Transition k ref _ _ _) = (if of_queue k then None else Some ref)"
| "worker_ref _ = None"

fun queue_ref :: "claim_task \<Rightarrow> ref option" where
  "queue_ref (QueuePrepare ref _) = Some ref"
| "queue_ref (Transition k ref _ _ _) = (if of_queue k then Some ref else None)"
| "queue_ref _ = None"

fun queue_task :: "claim_task \<Rightarrow> bool" where
  "queue_task QueueLoop = True"
| "queue_task (QueuePrepare _ _) = True"
| "queue_task QueueTail = True"
| "queue_task QueueRefill = True"
| "queue_task (Transition k _ _ _ _) = of_queue k"
| "queue_task _ = False"

definition task_rank_ok :: "claim_world \<Rightarrow> claim_task \<Rightarrow> bool" where
  "task_rank_ok w t \<longleftrightarrow> (\<forall>ref. worker_ref t = Some ref \<longrightarrow> 1 \<le> obj_rank w ref) \<and> (\<forall>ref. queue_ref t = Some ref \<longrightarrow> obj_rank w ref = 0)"

definition sched_inv :: "claim_world \<Rightarrow> bool" where
  "sched_inv w \<longleftrightarrow> length (filter queue_task (cw_tasks w)) \<le> (if cw_queueTask w then 1 else 0) \<and> (\<forall>t \<in> set (cw_tasks w). task_rank_ok w t)"

text \<open>The world of a queue task that runs: no other task is of the queue.\<close>

definition queue_runs :: "claim_world \<Rightarrow> bool" where
  "queue_runs w \<longleftrightarrow> sched_inv w \<and> cw_queueTask w \<and> filter queue_task (cw_tasks w) = []"

named_theorems sched \<open>steps of a task that is not of the queue\<close>
named_theorems qsched \<open>steps of the task of the queue\<close>

lemma rank_ok_spawn [simp]: "task_rank_ok (spawn t w) = task_rank_ok w"
  by (simp add: task_rank_ok_def fun_eq_iff)

lemma rank_ok_simps [simp]:
  "task_rank_ok w QueueLoop" "task_rank_ok w QueueTail" "task_rank_ok w QueueRefill" "task_rank_ok w (CreateHooks sd x)" "task_rank_ok w (CreateDone i r)"
  "task_rank_ok w (QueuePrepare ref nonce) \<longleftrightarrow> obj_rank w ref = 0"
  "task_rank_ok w (Transition k ref e c st) \<longleftrightarrow> (if of_queue k then obj_rank w ref = 0 else 1 \<le> obj_rank w ref)"
  "task_rank_ok w (Rebroadcast ref) \<longleftrightarrow> 1 \<le> obj_rank w ref" "task_rank_ok w (BroadcastSent ref t) \<longleftrightarrow> 1 \<le> obj_rank w ref"
  "task_rank_ok w (AwaitReceipt ref) \<longleftrightarrow> 1 \<le> obj_rank w ref" "task_rank_ok w (ReceiptWatch ref t) \<longleftrightarrow> 1 \<le> obj_rank w ref"
  "task_rank_ok w (Settle ref rc n) \<longleftrightarrow> 1 \<le> obj_rank w ref" "task_rank_ok w (Completion ref) \<longleftrightarrow> 1 \<le> obj_rank w ref"
  "task_rank_ok w (CompletionHooks ref) \<longleftrightarrow> 1 \<le> obj_rank w ref" "task_rank_ok w (Finalize ref) \<longleftrightarrow> 1 \<le> obj_rank w ref"
  "task_rank_ok w (FinalizeDone ref x') \<longleftrightarrow> 1 \<le> obj_rank w ref" "task_rank_ok w (FinalizeFetched ref f) \<longleftrightarrow> 1 \<le> obj_rank w ref"
  by (auto simp: task_rank_ok_def)

lemma sched_worker [sched]: "sched_inv w \<Longrightarrow> \<not> queue_task t \<Longrightarrow> task_rank_ok w t \<Longrightarrow> sched_inv (spawn t w)"
  by (simp add: sched_inv_def)

lemma sched_queue [qsched]: "queue_runs w \<Longrightarrow> task_rank_ok w t \<Longrightarrow> sched_inv (spawn t w)"
  by (simp add: sched_inv_def queue_runs_def)

lemma queue_runs_sched: "queue_runs w \<Longrightarrow> sched_inv w"
  by (simp add: queue_runs_def)

lemma runs_worker [qsched]: "queue_runs w \<Longrightarrow> \<not> queue_task t \<Longrightarrow> task_rank_ok w t \<Longrightarrow> queue_runs (spawn t w)"
  by (simp add: queue_runs_def sched_inv_def)

lemma sched_cong:
  assumes "cw_tasks w' = cw_tasks w" "cw_queueTask w' = cw_queueTask w" "claim_obj w' = claim_obj w"
  shows "sched_inv w' = sched_inv w \<and> queue_runs w' = queue_runs w"
  by (simp add: sched_inv_def queue_runs_def task_rank_ok_def assms)

lemma sched_fields [simp]:
  "sched_inv (w\<lparr>cw_wallet := x1\<rparr>) = sched_inv w" "queue_runs (w\<lparr>cw_wallet := x1\<rparr>) = queue_runs w"
  "sched_inv (w\<lparr>cw_pending := x2\<rparr>) = sched_inv w" "queue_runs (w\<lparr>cw_pending := x2\<rparr>) = queue_runs w"
  "sched_inv (w\<lparr>cw_dict := x3\<rparr>) = sched_inv w" "queue_runs (w\<lparr>cw_dict := x3\<rparr>) = queue_runs w"
  "sched_inv (w\<lparr>cw_db := x4\<rparr>) = sched_inv w" "queue_runs (w\<lparr>cw_db := x4\<rparr>) = queue_runs w"
  "sched_inv (w\<lparr>cw_queue := x5\<rparr>) = sched_inv w" "queue_runs (w\<lparr>cw_queue := x5\<rparr>) = queue_runs w"
  "sched_inv (w\<lparr>cw_lastProcessed := x6\<rparr>) = sched_inv w" "queue_runs (w\<lparr>cw_lastProcessed := x6\<rparr>) = queue_runs w"
  "sched_inv (w\<lparr>cw_completions := x7\<rparr>) = sched_inv w" "queue_runs (w\<lparr>cw_completions := x7\<rparr>) = queue_runs w"
  "sched_inv (w\<lparr>cw_sent := x8\<rparr>) = sched_inv w" "sched_inv (w\<lparr>cw_accounted := x9\<rparr>) = sched_inv w"
  "sched_inv (w\<lparr>cw_lastIdx := x10\<rparr>) = sched_inv w" "sched_inv (w\<lparr>cw_history := x11\<rparr>) = sched_inv w"
  "sched_inv (w\<lparr>cw_initialized := x12\<rparr>) = sched_inv w"
  by (simp_all add: sched_inv_def queue_runs_def task_rank_ok_def claim_obj_def)

lemma sched_end [qsched]: "queue_runs w \<Longrightarrow> sched_inv (w\<lparr>cw_queueTask := False\<rparr>)"
  by (simp add: queue_runs_def sched_inv_def task_rank_ok_def)

lemma obj_other: "r \<noteq> ref \<Longrightarrow> obj_claim (set_claim ref c w) r = obj_claim w r"
  by (simp add: set_claim_def claim_obj_def)

text \<open>A claim beyond the queue stays beyond it; a queued one may change when no queue task holds it.\<close>

lemma sched_set_worker [sched]:
  assumes "sched_inv w" "ref < length (cw_objects w)" "1 \<le> obj_rank w ref" "1 \<le> phase_rank (ec_phase c)"
  shows "sched_inv (set_claim ref c w)"
proof -
  have "task_rank_ok (set_claim ref c w) t" if "task_rank_ok w t" for t
    unfolding task_rank_ok_def
  proof (intro conjI allI impI)
    fix x assume "worker_ref t = Some x"
    hence "1 \<le> obj_rank w x" using that by (simp add: task_rank_ok_def)
    thus "1 \<le> obj_rank (set_claim ref c w) x" using assms(2,4) by (cases "x = ref") (simp_all add: obj_other)
  next
    fix x assume "queue_ref t = Some x"
    hence "obj_rank w x = 0" using that by (simp add: task_rank_ok_def)
    thus "obj_rank (set_claim ref c w) x = 0" using assms(3) by (cases "x = ref") (simp_all add: obj_other)
  qed
  thus ?thesis using assms(1) by (simp add: sched_inv_def)
qed

lemma runs_set_claim [qsched]:
  assumes "queue_runs w" "ref < length (cw_objects w)" "obj_rank w ref = 0 \<or> 1 \<le> phase_rank (ec_phase c)"
  shows "queue_runs (set_claim ref c w)"
proof -
  have none: "\<not> queue_task t" if "t \<in> set (cw_tasks w)" for t using that assms(1) by (auto simp: queue_runs_def filter_empty_conv)
  have q: "queue_ref t = None" if "\<not> queue_task t" for t using that by (cases t) auto
  have "task_rank_ok (set_claim ref c w) t" if t: "t \<in> set (cw_tasks w)" for t
  proof -
    have r: "task_rank_ok w t" using t assms(1) by (auto simp: queue_runs_def sched_inv_def)
    show ?thesis unfolding task_rank_ok_def
    proof (intro conjI allI impI)
      fix x assume x: "worker_ref t = Some x"
      hence "1 \<le> obj_rank w x" using r by (simp add: task_rank_ok_def)
      thus "1 \<le> obj_rank (set_claim ref c w) x" using assms(2,3) by (cases "x = ref") (auto simp: obj_other)
    qed (use q[OF none[OF t]] in simp)
  qed
  thus ?thesis using assms(1) by (simp add: queue_runs_def sched_inv_def)
qed

lemma finish_same:
  assumes "finishClaimReconciliation env ref c w = (b, w')"
  shows "cw_tasks w' = cw_tasks w \<and> cw_queueTask w' = cw_queueTask w \<and> claim_obj w' = claim_obj w"
  using assms by (auto simp: finishClaimReconciliation_def Let_def claim_obj_def fun_eq_iff split: option.splits if_splits sum.splits)

lemma sched_completion [sched]:
  "sched_inv w \<Longrightarrow> 1 \<le> obj_rank w ref \<Longrightarrow> sched_inv (getConfirmedClaimCompletion ref w)"
  "queue_runs w \<Longrightarrow> 1 \<le> obj_rank w ref \<Longrightarrow> queue_runs (getConfirmedClaimCompletion ref w)"
  by (auto simp: getConfirmedClaimCompletion_def intro!: sched) (auto intro!: qsched)

lemma sched_reconciliation [sched]:
  "sched_inv w \<Longrightarrow> 1 \<le> obj_rank w ref \<Longrightarrow> sched_inv (startClaimReconciliation ref w)"
  "queue_runs w \<Longrightarrow> 1 \<le> obj_rank w ref \<Longrightarrow> queue_runs (startClaimReconciliation ref w)"
  by (auto simp: startClaimReconciliation_def intro!: sched) (auto intro!: qsched)

lemma reconcile_same:
  assumes "reconcileObservedTerminal env ref c w = (b, w')" "obj_claim w ref = c"
  shows "(sched_inv w \<longrightarrow> sched_inv w') \<and> (queue_runs w \<longrightarrow> queue_runs w') \<and> claim_obj w' = claim_obj w"
proof -
  have conf: "claim_obj (getConfirmedClaimCompletion ref w) = claim_obj w"
    by (simp add: getConfirmedClaimCompletion_def)
  have fin: "(sched_inv w \<longrightarrow> sched_inv v) \<and> (queue_runs w \<longrightarrow> queue_runs v) \<and> claim_obj v = claim_obj w"
    if "finishClaimReconciliation env ref c w = (x, v)" for x v
    using finish_same[OF that] sched_cong[of v w] by simp
  show ?thesis
  proof (cases "ec_phase c")
    case (Confirmed t n f)
    hence "1 \<le> obj_rank w ref" using assms(2) by simp
    thus ?thesis using assms(1) Confirmed conf sched_completion[of w ref]
      by (auto simp: reconcileObservedTerminal_def Let_def split: if_splits)
  next
    case (Reverted t n f e)
    show ?thesis
    proof (cases "js_get (cw_dict w) (obj_session w ref) = Some ref \<or> js_get (cw_pending w) (st_txHash t) = Some ref")
      case True
      thus ?thesis using assms(1) Reverted by (intro fin) (simp add: reconcileObservedTerminal_def Let_def)
    next
      case False
      thus ?thesis using assms(1) Reverted by (simp add: reconcileObservedTerminal_def Let_def)
    qed
  qed (use assms(1) in \<open>auto simp: reconcileObservedTerminal_def Let_def split: if_splits\<close>)
qed

lemma sched_worker_done:
  assumes "sched_inv w" "1 \<le> obj_rank w ref" "\<not> of_queue k"
  shows "sched_inv (transition_done env k ref c r w)"
proof (cases k)
  case AfterPending
  show ?thesis using assms
    by (auto simp: AfterPending transition_done_def pending_result_def split: transition_result.split intro!: sched)
next
  case (AfterTerminal rc attempt)
  obtain b w' where f: "finishClaimReconciliation env ref c w = (b, w')" by (cases "finishClaimReconciliation env ref c w")
  have w': "sched_inv w'" "1 \<le> obj_rank w' ref" using finish_same[OF f] sched_cong[of w' w] assms by simp_all
  show ?thesis using assms w'
    by (auto simp: AfterTerminal transition_done_def terminal_result_def f split: transition_result.split bool.split intro!: sched)
qed (use assms in simp_all)

lemma sched_queue_done:
  assumes "queue_runs w" "of_queue k" "r = Returned True \<Longrightarrow> k = AfterPrepared \<Longrightarrow> 1 \<le> obj_rank w ref"
  shows "sched_inv (transition_done env k ref c r w)"
proof (cases k)
  case AfterPrepared
  have run: "queue_runs (startClaimReconciliation ref (w\<lparr>cw_pending := p\<rparr>))" if "r = Returned True" for p
    using assms(1) assms(3)[OF that AfterPrepared] by (intro sched_reconciliation) simp_all
  show ?thesis using assms(1) run sched_end[OF assms(1)]
    by (auto simp: AfterPrepared transition_done_def prepared_result_def sched_inv_def queue_runs_def task_rank_ok_def claim_obj_def
        split: option.split transition_result.split bool.split)
next
  case AfterFailed
  show ?thesis using sched_queue[OF assms(1), of QueueLoop] sched_end[OF assms(1)] assms(1)
    by (auto simp: AfterFailed transition_done_def failed_result_def split: transition_result.split bool.split intro!: sched_queue)
qed (use assms in simp_all)

lemma sched_queue_fail:
  assumes "queue_runs w" "of_queue k"
  shows "sched_inv (transition_done env k ref c (Returned False) w)" "sched_inv (transition_done env k ref c Threw w)"
  by (rule sched_queue_done[OF assms]; simp)+

text \<open>A claim read back, compared with what the transition expects or writes.\<close>

lemma read_claim:
  assumes "read_ok db s n (Inr (Some sd))" "claim_of_json (sd_claim sd) = Some d"
  shows "claim_ok d \<and> n \<le> phase_rank (ec_phase d) \<and> behind db s d \<and> (claim_ok c \<longrightarrow> sd_claim sd = claim_json c \<longleftrightarrow> d = c)"
proof -
  have d: "claim_ok d" "n \<le> phase_rank (ec_phase d)" "behind db s d" "sd_claim sd = claim_json d"
    using assms by simp_all
  thus ?thesis using claim_json_inj[OF d(1), of c] by metis
qed

lemma rank_after:
  assumes "claim_le e c" "e \<noteq> c" shows "1 \<le> phase_rank (ec_phase c)"
  using assms by (auto simp: claim_le_def)

lemma sched_observed_worker:
  assumes "sched_inv w" "1 \<le> obj_rank w ref" "\<not> of_queue k" and t: "tok env w (Transition k ref e c (FetchDone err (Inr stored)))"
  shows "sched_inv (transition_observed env k ref e c err stored w)"
proof (cases "\<exists>sd d. stored = Some sd \<and> claim_of_json (sd_claim sd) = Some d")
  case False
  thus ?thesis using sched_worker_done[OF assms(1-3)] by (auto simp: transition_observed_def Let_def split: option.split)
next
  case True
  then obtain sd d where sd: "stored = Some sd" "claim_of_json (sd_claim sd) = Some d" by blast
  have ref: "ref < length (cw_objects w)" using t by simp
  have ro: "read_ok (cw_db w) (obj_session w ref) (phase_rank (ec_phase e)) (Inr (Some sd))" and e: "1 \<le> phase_rank (ec_phase e)"
    using t sd(1) assms(3) by (simp_all add: claim_obj_def)
  have rank: "1 \<le> phase_rank (ec_phase d)" using conjunct1[OF conjunct2[OF read_claim[OF ro sd(2)]]] e by simp
  let ?w = "set_claim ref d w"
  have w: "sched_inv ?w" "1 \<le> obj_rank ?w ref" using sched_set_worker[OF assms(1) ref assms(2) rank] rank ref by simp_all
  obtain b w2 where r: "reconcileObservedTerminal env ref d ?w = (b, w2)" by (cases "reconcileObservedTerminal env ref d ?w")
  have o: "obj_claim ?w ref = d" using ref by simp
  have w2: "sched_inv w2" "1 \<le> obj_rank w2 ref" using reconcile_same[OF r o] w by simp_all
  have "sched_inv (spawn (Transition k ref e c CasCall) ?w)" using w assms(3) by (intro sched_worker) simp_all
  thus ?thesis using sched_worker_done[OF w assms(3)] sched_worker_done[OF w2 assms(3)] sd r
    by (simp add: transition_observed_def Let_def)
qed

lemma sched_observed_queue:
  assumes "queue_runs w" "obj_rank w ref = 0" "of_queue k" and t: "tok env w (Transition k ref e c (FetchDone err (Inr stored)))"
  shows "sched_inv (transition_observed env k ref e c err stored w)"
proof (cases "\<exists>sd d. stored = Some sd \<and> claim_of_json (sd_claim sd) = Some d")
  case False
  thus ?thesis using sched_queue_fail[OF assms(1,3)] by (auto simp: transition_observed_def Let_def split: option.split)
next
  case True
  then obtain sd d where sd: "stored = Some sd" "claim_of_json (sd_claim sd) = Some d" by blast
  have ref: "ref < length (cw_objects w)" using t by simp
  have e: "phase_rank (ec_phase e) = 0" "claim_ok e" "claim_ok c" "claim_le e c" "e \<noteq> c" using t assms(3) by simp_all
  have ro: "read_ok (cw_db w) (obj_session w ref) (phase_rank (ec_phase e)) (Inr (Some sd))"
    using t sd(1) by (simp add: claim_obj_def)
  have eq: "sd_claim sd = claim_json e \<longleftrightarrow> d = e" "sd_claim sd = claim_json c \<longleftrightarrow> d = c"
    using read_claim[OF ro sd(2)] e(2,3) by blast+
  let ?w = "set_claim ref d w"
  have w: "queue_runs ?w" using runs_set_claim[OF assms(1) ref] assms(2) by simp
  have o: "obj_claim ?w ref = d" using ref by simp
  obtain b w2 where r: "reconcileObservedTerminal env ref d ?w = (b, w2)" by (cases "reconcileObservedTerminal env ref d ?w")
  have w2: "queue_runs w2" using reconcile_same[OF r o] w by simp
  have "sched_inv (spawn (Transition k ref e c CasCall) ?w)" if "d = e" using w assms(3) that e(1) o by (intro sched_queue) simp_all
  moreover have "sched_inv (transition_done env k ref c (Returned True) ?w)" if "d = c"
    using sched_queue_done[OF w assms(3)] rank_after[OF e(4,5)] that o by simp
  ultimately show ?thesis using sched_queue_fail[OF w2 assms(3)] sd r eq
    by (simp add: transition_observed_def Let_def)
qed

lemma request_worker [sched]:
  "sched_inv w \<Longrightarrow> (\<And>r. \<not> queue_task (k r) \<and> task_rank_ok w (k r)) \<Longrightarrow> sched_inv (request m k w)"
proof -
  assume a: "sched_inv w" "\<And>r. \<not> queue_task (k r) \<and> task_rank_ok w (k r)"
  have "task_rank_ok (w\<lparr>cw_db := db\<rparr>) t = task_rank_ok w t" for db t by (simp add: task_rank_ok_def)
  thus ?thesis using a by (auto simp: request_def split: prod.split intro!: sched_worker)
qed

lemma request_queue [qsched]:
  "queue_runs w \<Longrightarrow> (\<And>r. task_rank_ok w (k r)) \<Longrightarrow> sched_inv (request m k w)"
proof -
  assume a: "queue_runs w" "\<And>r. task_rank_ok w (k r)"
  have "task_rank_ok (w\<lparr>cw_db := db\<rparr>) t = task_rank_ok w t" for db t by (simp add: task_rank_ok_def)
  thus ?thesis using a by (auto simp: request_def split: prod.split intro!: sched_queue)
qed

lemma sched_transition_worker:
  assumes "sched_inv w" "1 \<le> obj_rank w ref" "\<not> of_queue k" and t: "tok env w (Transition k ref e c st)"
  shows "sched_inv (transitionClaim env k ref e c st w)"
proof (cases st)
  case CasCall
  thus ?thesis using assms(1-3) sched_worker_done[OF assms(1-3)] by (auto simp: transitionClaim_def intro!: request_worker)
next
  case (CasDone r)
  have ref: "ref < length (cw_objects w)" and c: "1 \<le> phase_rank (ec_phase c)" using t rank_after by auto
  have "sched_inv (set_claim ref c w)" "1 \<le> obj_rank (set_claim ref c w) ref" using sched_set_worker[OF assms(1) ref assms(2) c] ref c by simp_all
  from sched_worker_done[OF this assms(3)] show ?thesis using assms(1-3) CasDone
    by (auto simp: transitionClaim_def split: sum.split bool.split intro!: request_worker)
next
  case (FetchDone err f)
  thus ?thesis using sched_worker_done[OF assms(1-3)] sched_observed_worker[OF assms(1-3)] t assms(1-3)
    by (cases f) (auto simp: transitionClaim_def intro!: sched_worker)
qed

lemma sched_transition_queue:
  assumes "queue_runs w" "obj_rank w ref = 0" "of_queue k" and t: "tok env w (Transition k ref e c st)"
  shows "sched_inv (transitionClaim env k ref e c st w)"
proof (cases st)
  case CasCall
  thus ?thesis using assms(1-3) sched_queue_fail[OF assms(1,3)] by (auto simp: transitionClaim_def intro!: request_queue)
next
  case (CasDone r)
  have ref: "ref < length (cw_objects w)" and c: "1 \<le> phase_rank (ec_phase c)" using t rank_after by auto
  have "queue_runs (set_claim ref c w)" "1 \<le> obj_rank (set_claim ref c w) ref" using runs_set_claim[OF assms(1) ref] c ref by simp_all
  from sched_queue_done[OF this(1) assms(3)] this(2) show ?thesis using assms(1-3) CasDone
    by (auto simp: transitionClaim_def split: sum.split bool.split intro!: request_queue)
next
  case (FetchDone err f)
  thus ?thesis using sched_queue_fail[OF assms(1,3)] sched_observed_queue[OF assms(1-3)] t assms(1-3)
    by (cases f) (auto simp: transitionClaim_def intro!: sched_queue)
qed

lemma sched_failQueued: "queue_runs w \<Longrightarrow> sched_inv (failQueuedClaim ref message w)"
  by (auto simp: failQueuedClaim_def Let_def queued_phase intro!: qsched)

lemma sched_processQueueTx: "queue_runs w \<Longrightarrow> sched_inv (processQueueTx ref w)"
  using sched_queue[of w "QueuePrepare ref (wm_nonce (cw_wallet w))"] sched_queue[of w QueueLoop] sched_failQueued[of w ref]
  by (simp add: processQueueTx_def queued_phase)

lemma sched_processQueueTx_prepared:
  assumes "queue_runs w" "obj_rank w ref = 0" shows "sched_inv (processQueueTx_prepared env g ref n w)"
proof -
  have "sched_inv (spawn (Transition AfterPrepared ref c x CasCall) (w\<lparr>cw_wallet := y\<rparr>))" for c x y
    using assms by (intro sched_queue) simp_all
  thus ?thesis using assms(1) sched_failQueued[OF assms(1)]
    by (auto simp: processQueueTx_prepared_def Let_def split: option.split sum.split bool.split intro!: sched_queue sched_end)
qed

lemma sched_queue_loop: "queue_runs w \<Longrightarrow> sched_inv (processQueue_loop env w)"
proof -
  assume q: "queue_runs w"
  have "sched_inv (processQueueTx ref (w\<lparr>cw_queue := x, cw_lastProcessed := n\<rparr>))" for ref x n
    using q by (intro sched_processQueueTx) simp
  thus ?thesis using q by (auto simp: processQueue_loop_def Let_def split: list.split option.split intro!: sched_queue sched_end)
qed

lemma sched_queue_tail: "queue_runs w \<Longrightarrow> sched_inv (processQueue_tail env r w)"
  by (auto simp: processQueue_tail_def split: option.split intro!: sched_queue sched_end)

lemma sched_queue_refill: "queue_runs w \<Longrightarrow> sched_inv (processQueue_refill env ops w)"
  using sched_end[of w] by (simp add: processQueue_refill_def sched_inv_def task_rank_ok_def claim_obj_def)

lemma sched_rebroadcast: "sched_inv w \<Longrightarrow> 1 \<le> obj_rank w ref \<Longrightarrow> sched_inv (rebroadcastClaim env ref w)"
  by (auto simp: rebroadcastClaim_def split: option.split sum.split intro!: sched_worker)

lemma sched_rebroadcast_answered: "sched_inv w \<Longrightarrow> 1 \<le> obj_rank w ref \<Longrightarrow> sched_inv (rebroadcast_answered env a ref t w)"
  by (auto simp: rebroadcast_answered_def Let_def split: sum.split claim_phase.split intro!: sched_worker)

lemma sched_await: "sched_inv w \<Longrightarrow> 1 \<le> obj_rank w ref \<Longrightarrow> sched_inv (awaitTxReceipt env ref w)"
  by (auto simp: awaitTxReceipt_def split: option.split sum.split intro!: sched_worker)

lemma sched_receipt: "sched_inv w \<Longrightarrow> 1 \<le> obj_rank w ref \<Longrightarrow> sched_inv (receipt_answered a ref w)"
  by (auto simp: receipt_answered_def split: option.split intro!: sched_worker)

lemma sched_settle: "sched_inv w \<Longrightarrow> 1 \<le> obj_rank w ref \<Longrightarrow> sched_inv (settleClaim ref rc n w)"
  by (auto simp: settleClaim_def Let_def split: option.split intro!: sched_worker)

lemma sched_end_completion [sched]: "sched_inv w \<Longrightarrow> sched_inv (end_completion ref w)"
  by (simp add: end_completion_def)

lemma sched_complete: "sched_inv w \<Longrightarrow> 1 \<le> obj_rank w ref \<Longrightarrow> sched_inv (completeConfirmedClaim ref w)"
  by (auto simp: completeConfirmedClaim_def intro!: sched)

lemma sched_hooks_done: "sched_inv w \<Longrightarrow> 1 \<le> obj_rank w ref \<Longrightarrow> sched_inv (completion_hooks_done ok ref w)"
  by (auto simp: completion_hooks_done_def Let_def intro!: sched)

lemma sched_finalized: "sched_inv w \<Longrightarrow> 1 \<le> obj_rank w ref \<Longrightarrow> sched_inv (claim_finalized env ref w)"
proof -
  assume a: "sched_inv w" "1 \<le> obj_rank w ref"
  obtain b w' where f: "finishClaimReconciliation env ref (obj_claim w ref) w = (b, w')" by (cases "finishClaimReconciliation env ref (obj_claim w ref) w")
  have "sched_inv w'" "1 \<le> obj_rank w' ref" using finish_same[OF f] sched_cong[of w' w] a by simp_all
  thus ?thesis by (auto simp: claim_finalized_def f intro!: sched)
qed

lemma sched_finalize: "sched_inv w \<Longrightarrow> 1 \<le> obj_rank w ref \<Longrightarrow> sched_inv (finalizeConfirmedClaimTx ref w)"
  by (auto simp: finalizeConfirmedClaimTx_def intro!: sched)

lemma sched_finalize_done: "sched_inv w \<Longrightarrow> 1 \<le> obj_rank w ref \<Longrightarrow> sched_inv (finalize_done env ref r w)"
  using sched_finalized[of w ref env] by (auto simp: finalize_done_def split: sum.split bool.split intro!: request_worker)

lemma sched_finalize_fetched:
  assumes "sched_inv w" "1 \<le> obj_rank w ref" and ref: "ref < length (cw_objects w)" and f: "read_ok (cw_db w) (obj_session w ref) 1 f"
  shows "sched_inv (finalize_fetched env ref f w)"
proof (cases "\<exists>sd d. f = Inr (Some sd) \<and> claim_of_json (sd_claim sd) = Some d")
  case False
  thus ?thesis using assms(1,2) by (auto simp: finalize_fetched_def split: sum.split option.split intro!: sched)
next
  case True
  then obtain sd d where sd: "f = Inr (Some sd)" "claim_of_json (sd_claim sd) = Some d" by blast
  have rank: "1 \<le> phase_rank (ec_phase d)"
    using conjunct1[OF conjunct2[OF read_claim[OF f[unfolded sd(1)] sd(2)]]] .
  let ?w = "set_claim ref d w"
  have w: "sched_inv ?w" "1 \<le> obj_rank ?w ref" using sched_set_worker[OF assms(1) ref assms(2) rank] rank ref by simp_all
  obtain b w2 where r: "reconcileObservedTerminal env ref d ?w = (b, w2)" by (cases "reconcileObservedTerminal env ref d ?w")
  have o: "obj_claim ?w ref = d" using ref by simp
  have w2: "sched_inv w2" "1 \<le> obj_rank w2 ref" using reconcile_same[OF r o] w by simp_all
  have "sched_inv (spawn (Finalize ref) ?w)" "sched_inv (spawn (Completion ref) w2)" "sched_inv (end_completion ref w2)"
    using w w2 by (auto intro!: sched)
  thus ?thesis using sched_finalized[OF w] sd r by (simp add: finalize_fetched_def Let_def)
qed

lemma sched_create_hooks: "sched_inv w \<Longrightarrow> sched_inv (create_hooks_done ok now sd amount w)"
  by (auto simp: create_hooks_done_def Let_def intro!: request_worker)

subsection \<open>New objects\<close>

lemma task_refs:
  "tok env w t \<Longrightarrow> worker_ref t = Some ref \<or> queue_ref t = Some ref \<Longrightarrow> ref < length (cw_objects w)"
  by (cases t) (auto split: if_splits)

lemma sched_new_claim:
  assumes inv: "claim_inv env w" and s: "sched_inv w" and n: "new_claim info w = (ref, w1)"
  shows "sched_inv w1 \<and> obj_claim w1 ref = ci_claim info \<and> cw_tasks w1 = cw_tasks w \<and> cw_queueTask w1 = cw_queueTask w"
proof -
  have old: "obj_claim w1 r = obj_claim w r" if "r < length (cw_objects w)" for r
    using n that by (auto simp: new_claim_def claim_obj_def nth_append)
  have "task_rank_ok w1 t" if t: "t \<in> set (cw_tasks w)" for t
  proof -
    have "tok env w t" "task_rank_ok w t" using t inv s by (simp_all add: claim_inv_def sched_inv_def)
    thus ?thesis using old task_refs[of env w t] by (auto simp: task_rank_ok_def)
  qed
  thus ?thesis using s n by (auto simp: sched_inv_def new_claim_def claim_obj_def)
qed

lemma sched_create_done: "claim_inv env w \<Longrightarrow> sched_inv w \<Longrightarrow> sched_inv (create_done info r w)"
  using sched_new_claim[of env w info]
  by (auto simp: create_done_def split: sum.split bool.split prod.split)

lemma sched_restore:
  assumes inv: "claim_inv env w" and s: "sched_inv w"
  shows "sched_inv (restore_claim env sd w)"
proof (cases "claim_of_json (sd_claim sd)")
  case None
  thus ?thesis using s by (simp add: restore_claim_def)
next
  case (Some c)
  let ?i = "\<lparr>ci_session = sd_sessionId sd, ci_target = sd_targetAddr sd, ci_amount = sd_dropAmount sd, ci_claim = c\<rparr>"
  obtain ref w1 where n: "new_claim ?i w = (ref, w1)" by (cases "new_claim ?i w")
  note w1 = sched_new_claim[OF inv s n]
  have "sched_inv (startClaimReconciliation ref (w1\<lparr>cw_dict := x, cw_wallet := y, cw_pending := z\<rparr>))" if "1 \<le> phase_rank (ec_phase c)" for x y z
    using w1 that by (intro sched_reconciliation) simp_all
  thus ?thesis using w1 Some n
    by (auto simp: restore_claim_def Let_def split: claim_phase.split option.split sum.split)
qed

lemma sched_initialize_claims:
  assumes "claim_inv env w" "\<forall>sd \<in> set stored. stored_in (cw_db w) sd" "sched_inv w"
  shows "sched_inv (initialize_claims env stored w)"
proof -
  let ?P = "\<lambda>v. claim_inv env v \<and> cw_db v = cw_db w \<and> sched_inv v"
  have w1: "?P (fold (restore_claim env) stored w)"
    by (rule inv_fold[of stored ?P]) (use assms inv_restore sched_restore in auto)
  let ?w1 = "fold (restore_claim env) stored w"
  let ?w2 = "?w1\<lparr>cw_queue := sort_key (\<lambda>ref. ec_claimIdx (obj_claim ?w1 ref)) (cw_queue ?w1),
    cw_lastIdx := fold (\<lambda>sd m. max m (getStoredClaimIdx (sd_claim sd))) stored 0 + 1\<rparr>"
  let ?Q = "\<lambda>v. sched_inv v \<and> claim_obj v = claim_obj ?w2"
  have "?Q (fold getConfirmedClaimCompletion (confirmed_refs ?w2) ?w2)"
  proof (rule inv_fold[of _ ?Q])
    fix ref v assume r: "ref \<in> set (confirmed_refs ?w2)" and v: "?Q v"
    have "claim_status (obj_claim ?w2 ref) = CONFIRMED" using r by (simp add: confirmed_refs_def)
    hence "1 \<le> obj_rank v ref" using v by (cases "ec_phase (obj_claim ?w2 ref)") simp_all
    thus "?Q (getConfirmedClaimCompletion ref v)" using v sched_completion(1)[of v ref]
      by (simp add: getConfirmedClaimCompletion_def)
  qed (use w1 in simp)
  thus ?thesis by (simp add: initialize_claims_def Let_def)
qed

lemma sched_initialize:
  assumes inv: "claim_inv env w" and t: "cw_tasks w = []" and s: "sched_inv w"
  shows "sched_inv (initialize env w)"
proof -
  let ?w = "(resetRuntimeState w)\<lparr>cw_initialized := True\<rparr>"
  have w: "claim_inv env ?w" using inv_reset[OF inv] by simp
  hence db: "db_inv env (cw_db ?w)" by (simp add: claim_inv_def)
  obtain r db' where r: "getSessions [CLAIMING] (cw_db ?w) = (r, db')" by (cases "getSessions [CLAIMING] (cw_db ?w)")
  have n: "claims_next env (cw_db ?w) db' \<and> (\<forall>ds. r = Inr ds \<longrightarrow> (\<forall>sd \<in> set ds. stored_in db' sd))"
    using getSessions_next[OF db, of "[CLAIMING]"] r by (cases r) (auto simp: wp_def)
  have i: "claim_inv env (?w\<lparr>cw_db := db'\<rparr>)" using inv_db[OF w] n by blast
  have e: "sched_inv (?w\<lparr>cw_db := db'\<rparr>)" using t by (simp add: sched_inv_def resetRuntimeState_def)
  have "sched_inv (initialize_claims env ds (?w\<lparr>cw_db := db'\<rparr>))" if "r = Inr ds" for ds
    by (rule sched_initialize_claims[OF i _ e]) (use n that in simp)
  thus ?thesis using s e r by (auto simp: initialize_def Let_def simp del: sched_fields split: sum.split)
qed

subsection \<open>Both invariants\<close>

definition payout_inv :: "claim_env \<Rightarrow> claim_world \<Rightarrow> bool" where
  "payout_inv env w \<longleftrightarrow> claim_inv env w \<and> sched_inv w"

lemma resume_inv:
  assumes inv: "claim_inv env w" and t: "tok env w t" and s: "sched_inv (spawn t w)"
    and a: "nonneg_safe (an_now a)" "\<And>rc. an_receipt a = Some rc \<Longrightarrow> receipt_ok rc" and idx: "nonneg_safe (cw_lastIdx w)"
  shows "payout_inv env (resume env a t w)"
proof -
  have sw: "sched_inv w" and rk: "task_rank_ok w t" using s by (auto simp: sched_inv_def split: if_splits)
  have q: "queue_runs w" if "queue_task t" using s that by (auto simp: sched_inv_def queue_runs_def split: if_splits)
  show ?thesis unfolding payout_inv_def
  proof (cases t)
    case QueueLoop
    thus "claim_inv env (resume env a t w) \<and> sched_inv (resume env a t w)"
      using inv_queue_loop[OF inv] sched_queue_loop[OF q] by simp
  next
    case (QueuePrepare ref n)
    hence r: "obj_rank w ref = 0" and l: "ref < length (cw_objects w)" using rk t by simp_all
    hence "claim_status (obj_claim w ref) = QUEUE" by (cases "ec_phase (obj_claim w ref)") simp_all
    thus "claim_inv env (resume env a t w) \<and> sched_inv (resume env a t w)"
      using inv_prepared[OF inv l] sched_processQueueTx_prepared[OF q r] QueuePrepare by simp
  next
    case QueueTail
    thus "claim_inv env (resume env a t w) \<and> sched_inv (resume env a t w)"
      using inv sched_queue_tail[OF q] by (auto simp: processQueue_tail_def split: option.split intro!: cinv)
  next
    case QueueRefill
    thus "claim_inv env (resume env a t w) \<and> sched_inv (resume env a t w)"
      using inv sched_queue_refill[OF q] by (simp add: processQueue_refill_def)
  next
    case (Transition k ref e c st)
    show "claim_inv env (resume env a t w) \<and> sched_inv (resume env a t w)"
    proof (cases "of_queue k")
      case True
      thus ?thesis using inv_transition[OF inv, of k ref e c st] sched_transition_queue[OF q _ True, of ref env e c st] t rk Transition by simp
    next
      case False
      thus ?thesis using inv_transition[OF inv, of k ref e c st] sched_transition_worker[OF sw _ False, of ref env e c st] t rk Transition by simp
    qed
  next
    case (Rebroadcast ref)
    thus "claim_inv env (resume env a t w) \<and> sched_inv (resume env a t w)"
      using inv_rebroadcast[OF inv] sched_rebroadcast[OF sw] t rk by simp
  next
    case (BroadcastSent ref x)
    thus "claim_inv env (resume env a t w) \<and> sched_inv (resume env a t w)"
      using inv_rebroadcast_answered[OF inv] sched_rebroadcast_answered[OF sw] t rk by simp
  next
    case (AwaitReceipt ref)
    thus "claim_inv env (resume env a t w) \<and> sched_inv (resume env a t w)"
      using inv_await[OF inv] sched_await[OF sw] t rk by simp
  next
    case (ReceiptWatch ref x)
    thus "claim_inv env (resume env a t w) \<and> sched_inv (resume env a t w)"
      using inv_receipt[OF inv _ a(2)] sched_receipt[OF sw] t rk by simp
  next
    case (Settle ref rc n)
    thus "claim_inv env (resume env a t w) \<and> sched_inv (resume env a t w)"
      using inv_settle[OF inv] sched_settle[OF sw] t rk by simp
  next
    case (Completion ref)
    thus "claim_inv env (resume env a t w) \<and> sched_inv (resume env a t w)"
      using inv_complete[OF inv] sched_complete[OF sw] t rk by simp
  next
    case (CompletionHooks ref)
    thus "claim_inv env (resume env a t w) \<and> sched_inv (resume env a t w)"
      using inv_hooks_done[OF inv] sched_hooks_done[OF sw] t rk by simp
  next
    case (Finalize ref)
    thus "claim_inv env (resume env a t w) \<and> sched_inv (resume env a t w)"
      using inv_finalize[OF inv] sched_finalize[OF sw] t rk by simp
  next
    case (FinalizeDone ref r)
    thus "claim_inv env (resume env a t w) \<and> sched_inv (resume env a t w)"
      using inv_finalize_done[OF inv] sched_finalize_done[OF sw] t rk by simp
  next
    case (FinalizeFetched ref f)
    thus "claim_inv env (resume env a t w) \<and> sched_inv (resume env a t w)"
      using inv_finalize_fetched[OF inv] sched_finalize_fetched[OF sw, of ref f env] t rk by (simp add: claim_obj_def)
  next
    case (CreateHooks sd amount)
    thus "claim_inv env (resume env a t w) \<and> sched_inv (resume env a t w)"
      using inv_create_hooks[OF inv _ idx a(1)] sched_create_hooks[OF sw] t by simp
  next
    case (CreateDone info r)
    thus "claim_inv env (resume env a t w) \<and> sched_inv (resume env a t w)"
      using inv_create_done[OF inv] sched_create_done[OF inv sw] t by simp
  qed
qed

end
