(* ===== verification/Claim_Payout.thy ===== *)
theory Claim_Payout
  imports Claim_Schedule
begin

text \<open>
  What the payout engine guarantees in every reachable state: a session is paid with one
  signed transaction at most, the one its row records for its target and amount.
\<close>

subsection \<open>Events keep the invariant\<close>

lemma resume_removed:
  assumes inv: "payout_inv env w" and i: "i < length (cw_tasks w)"
  defines "v \<equiv> w\<lparr>cw_tasks := take i (cw_tasks w) @ drop (Suc i) (cw_tasks w)\<rparr>"
  shows "claim_inv env v \<and> tok env v (cw_tasks w ! i) \<and> sched_inv (spawn (cw_tasks w ! i) v)"
proof -
  let ?xs = "cw_tasks w" and ?ys = "take i (cw_tasks w) @ drop (Suc i) (cw_tasks w)"
  have split: "?xs = take i ?xs @ ?xs ! i # drop (Suc i) ?xs" using i by (rule id_take_nth_drop)
  have set: "set ?xs = insert (?xs ! i) (set ?ys)" using arg_cong[OF split, of set] by auto
  have len: "length (filter queue_task ?xs) = length (filter queue_task (?ys @ [?xs ! i]))"
    using arg_cong[OF split, of "\<lambda>l. length (filter queue_task l)"] by simp
  have c: "claim_inv env w" "sched_inv w" using inv by (simp_all add: payout_inv_def)
  have "tok env w t" if "t \<in> set ?xs" for t using c(1) that by (simp add: claim_inv_def)
  hence "claim_inv env v \<and> tok env v (?xs ! i)" using c(1) set by (simp add: claim_inv_def v_def)
  moreover have "task_rank_ok v t = task_rank_ok w t" for t by (simp add: task_rank_ok_def v_def)
  hence "sched_inv (spawn (?xs ! i) v)" using c(2) set len by (auto simp: sched_inv_def v_def)
  ultimately show ?thesis by blast
qed

lemma inv_create_event:
  assumes inv: "payout_inv env w"
  shows "payout_inv env (claim_event_step env (CreateClaim sid) w)"
proof -
  have c: "claim_inv env w" "sched_inv w" using inv by (simp_all add: payout_inv_def)
  hence db: "db_inv env (cw_db w)" by (simp add: claim_inv_def)
  obtain r db' where g: "getSession sid (cw_db w) = (r, db')" by (cases "getSession sid (cw_db w)")
  have n: "claims_next env (cw_db w) db' \<and> (\<forall>sd. r = Inr (Some sd) \<longrightarrow> (\<exists>x. row_at (cw_db w) sid = Some x \<and> row_at db' sid = Some x \<and> store_data_of x = Inr sd))"
    using getSession_next[OF db, of sid] g by (cases r) (auto simp: wp_def)
  let ?w = "w\<lparr>cw_db := db'\<rparr>"
  have w: "claim_inv env ?w" "sched_inv ?w" using inv_db[OF c(1)] n c(2) by simp_all
  have "payout_inv env (keep_on_error ?w (createSessionClaim env sd ?w))" if sd: "r = Inr (Some sd)" for sd
  proof (cases "createSessionClaim env sd ?w")
    case (Inr w')
    obtain x where x: "row_at (cw_db w) sid = Some x" "row_at db' sid = Some x" "store_data_of x = Inr sd" using n sd by blast
    have "row_ok x" using db_inv_row[OF db x(1)] by simp
    from store_data_claim[OF this x(3)] have "sd_sessionId sd = sid" "sd_targetAddr sd = sr_targetAddr x" using row_at_id[OF x(1)] by simp_all
    hence "claim_inv env w'" using inv_create_session[OF w(1) _ _ Inr] x(2) by simp
    moreover have "sched_inv w'" using Inr w(2) by (auto simp: createSessionClaim_def try_bind_Inr_iff split: if_splits intro!: sched_worker)
    ultimately show ?thesis using Inr by (simp add: payout_inv_def)
  qed (use w in \<open>simp add: payout_inv_def\<close>)
  thus ?thesis using g w by (auto simp: payout_inv_def split: sum.split option.split)
qed

lemma event_inv:
  assumes inv: "payout_inv env w" and ev: "event_ok ev" and idx: "nonneg_safe (cw_lastIdx w)"
  shows "payout_inv env (claim_event_step env ev w)"
proof -
  have c: "claim_inv env w" "sched_inv w" using inv by (simp_all add: payout_inv_def)
  hence db: "db_inv env (cw_db w)" by (simp add: claim_inv_def)
  show ?thesis
  proof (cases ev)
    case (Resume i a)
    show ?thesis
    proof (cases "i < length (cw_tasks w)")
      case True
      have "nonneg_safe (an_now a)" "\<And>rc. an_receipt a = Some rc \<Longrightarrow> receipt_ok rc"
        using ev Resume by (auto split: receipt.splits)
      thus ?thesis using resume_inv[of env _ "cw_tasks w ! i" a] resume_removed[OF inv True] idx Resume True by simp
    qed (use inv Resume in simp)
  next
    case ProcessQueue
    have "claim_inv env (spawn QueueLoop (w\<lparr>cw_queueTask := True\<rparr>))" using c(1) by (intro inv_spawn) simp_all
    moreover have "sched_inv (spawn QueueLoop (w\<lparr>cw_queueTask := True\<rparr>))" if "\<not> cw_queueTask w"
      using c(2) that by (simp add: sched_inv_def task_rank_ok_def claim_obj_def)
    ultimately show ?thesis using c ProcessQueue by (auto simp: payout_inv_def)
  next
    case (CreateClaim sid)
    thus ?thesis using inv_create_event[OF inv] by simp
  next
    case (OtherWrite x)
    thus ?thesis using c inv_db[OF c(1) other_write_next[OF db]] by (simp add: payout_inv_def)
  next
    case (Faults fs)
    have "claims_next env (cw_db w) ((cw_db w)\<lparr>db_faults := fs\<rparr>)" using claims_next_refl[OF db] by simp
    thus ?thesis using c inv_db[OF c(1)] Faults by (simp add: payout_inv_def)
  next
    case Initialize
    thus ?thesis using c inv_initialize[OF c(1)] sched_initialize[OF c(1) _ c(2)] by (simp add: payout_inv_def)
  next
    case (Crash x)
    thus ?thesis using c(1) by (auto simp: payout_inv_def claim_inv_def sched_inv_def resetRuntimeState_def)
  qed (use c in \<open>simp_all add: payout_inv_def\<close>)
qed

lemma initial_inv: "initial_claims w \<Longrightarrow> db_inv env (cw_db w) \<Longrightarrow> payout_inv env w"
  by (simp add: initial_claims_def payout_inv_def claim_inv_def sched_inv_def)

lemma reachable_inv:
  "claim_reachable env w0 w \<Longrightarrow> initial_claims w0 \<Longrightarrow> db_inv env (cw_db w0) \<Longrightarrow> payout_inv env w"
  by (induction rule: claim_reachable.induct) (auto intro: initial_inv event_inv)

text \<open>C8. No session is paid twice.  In every state the payout engine can reach, under every
  interleaving of its tasks and the other services, every list of driver faults, every answer of
  the network, and across disposals, restarts and crashes: all transactions handed to the
  network for a session are the same signed bytes, they are the ones its row records, and they
  were made for the target and the amount of that row.\<close>

theorem claims_paid_once:
  assumes "initial_claims w0" "db_inv env (cw_db w0)" "claim_reachable env w0 w"
  shows "\<forall>s t. (s, t) \<in> set (cw_sent w) \<longrightarrow>
    (\<exists>r c. row_at (cw_db w) s = Some r \<and> row_claim r = Some c \<and> claim_tx c = Some t \<and> paid_for env r t) \<and>
    (\<forall>t'. (s, t') \<in> set (cw_sent w) \<longrightarrow> t' = t)"
proof (intro allI impI)
  fix s t assume st: "(s, t) \<in> set (cw_sent w)"
  have inv: "claim_inv env w" using reachable_inv[OF assms(3,1,2)] by (simp add: payout_inv_def)
  hence ok: "sent_ok (cw_db w) (s, x)" if "(s, x) \<in> set (cw_sent w)" for x using that by (auto simp: claim_inv_def)
  obtain r c where r: "row_at (cw_db w) s = Some r" "row_claim r = Some c" "claim_tx c = Some t"
    using ok[OF st] by (auto simp: sent_ok_def)
  have "db_inv env (cw_db w)" using inv by (simp add: claim_inv_def)
  hence "paid_for env r t" using db_inv_row r by (auto simp: row_good_def)
  moreover have "t' = t" if "(s, t') \<in> set (cw_sent w)" for t' using ok[OF that] r by (auto simp: sent_ok_def)
  ultimately show "(\<exists>r c. row_at (cw_db w) s = Some r \<and> row_claim r = Some c \<and> claim_tx c = Some t \<and> paid_for env r t) \<and>
    (\<forall>t'. (s, t') \<in> set (cw_sent w) \<longrightarrow> t' = t)" using r by blast
qed

subsection \<open>A payout\<close>

primrec run_events :: "claim_env \<Rightarrow> claim_event list \<Rightarrow> claim_world \<Rightarrow> claim_world option" where
  "run_events env [] w = Some w"
| "run_events env (ev # evs) w = (if event_ok ev \<and> nonneg_safe (cw_lastIdx w) then run_events env evs (claim_event_step env ev w) else None)"

lemma run_events_reachable: "claim_reachable env w0 w \<Longrightarrow> run_events env evs w = Some w' \<Longrightarrow> claim_reachable env w0 w'"
  by (induction evs arbitrary: w) (auto split: if_splits intro: claim_reachable.step)

definition demo_claim_env :: claim_env where
  "demo_claim_env = \<lparr>ce_wallet = demo_wallet_config, ce_codec = demo_codec, ce_maxPending = 10, ce_queueNoFunds = False,
     ce_minDropAmount = 10, ce_maxDropAmount = 1000\<rparr>"

definition claimable_row :: session_row where
  "claimable_row = \<lparr>sr_sessionId = ''s1'', sr_status = CLAIMABLE, sr_startTime = 1, sr_targetAddr = ''0x01'', sr_dropAmount = ''500'',
     sr_remoteIP = ''10.0.0.1'', sr_tasks = JsonText (JArr []), sr_data = JsonText (JObj []), sr_claim = None\<rparr>"

definition demo_claim_world :: claim_world where
  "demo_claim_world = \<lparr>cw_initialized = False, cw_objects = [], cw_dict = [], cw_queue = [], cw_pending = [], cw_history = [],
     cw_completions = [], cw_queueTask = False, cw_lastIdx = 1, cw_lastProcessed = 0, cw_lastConfirmed = 0,
     cw_db = \<lparr>db_sessions = [claimable_row], db_kv = [], db_faults = []\<rparr>, cw_wallet = demo_wallet,
     cw_tasks = [], cw_sent = [], cw_accounted = []\<rparr>"

definition answered :: claim_answer where
  "answered = \<lparr>an_gasPrice = None, an_hash = Some (st_txHash demo_tx), an_receipt = Some (Receipt True 9 200), an_ok = True, an_now = 5,
     an_refresh = None, an_refill = []\<rparr>"

definition demo_events :: "claim_event list" where
  "demo_events = [Initialize, CreateClaim ''s1'', Resume 0 answered, Resume 0 answered, ProcessQueue, Resume 0 answered,
     Resume 0 answered, Resume 0 answered, Resume 0 answered, Resume 0 answered]"

lemma demo_run: "map_option cw_sent (run_events demo_claim_env demo_events demo_claim_world) = Some [(''s1'', demo_tx)]"
  by code_simp

lemma demo_initial: "initial_claims demo_claim_world" "db_inv demo_claim_env (cw_db demo_claim_world)"
  by (auto simp: initial_claims_def demo_claim_world_def db_inv_def table_ok_def row_ok_def claimable_row_def row_good_def
      row_claim_def row_at_def split: if_splits)

theorem claims_paid_once_witness:
  "\<exists>w r c. claim_reachable demo_claim_env demo_claim_world w \<and> cw_sent w = [(''s1'', demo_tx)] \<and>
     row_at (cw_db w) ''s1'' = Some r \<and> row_claim r = Some c \<and> claim_tx c = Some demo_tx \<and> paid_for demo_claim_env r demo_tx"
proof -
  obtain w where w: "run_events demo_claim_env demo_events demo_claim_world = Some w" "cw_sent w = [(''s1'', demo_tx)]"
    using demo_run by auto
  have "claim_reachable demo_claim_env demo_claim_world w" using run_events_reachable[OF claim_reachable.start w(1)] .
  thus ?thesis using claims_paid_once[OF demo_initial] w(2) by fastforce
qed

end
