(* ===== verification/Claim_Accounting.thy ===== *)
theory Claim_Accounting
  imports Claim_Payout
begin

text \<open>
  Confirmation is accounted before it is final: \<^verbatim>\<open>completeConfirmedClaim\<close> runs the
  \<^verbatim>\<open>SessionClaimed\<close> hooks, which charge the fee to the outflow budget, and only a success lets
  the session become finished.
\<close>

subsection \<open>Finished rows\<close>

definition fin_in :: "string set \<Rightarrow> faucet_db \<Rightarrow> bool" where
  "fin_in S db \<longleftrightarrow> (\<forall>r \<in> set (db_sessions db). sr_status r = FINISHED \<longrightarrow> sr_sessionId r \<in> S)"

abbreviation fin_kept :: "'a db_op \<Rightarrow> bool" where
  "fin_kept m \<equiv> (\<forall>S db. fin_in S db \<longrightarrow> wp m (\<lambda>_. fin_in S) (\<lambda>_. fin_in S) db)"

lemma fin_in_faults [simp]: "fin_in S (db\<lparr>db_faults := fs\<rparr>) = fin_in S db"
  by (simp add: fin_in_def)

lemma fin_update:
  assumes "fin_in S db" "\<And>r. p r \<Longrightarrow> sr_sessionId (f r) = sr_sessionId r"
    "\<And>r. p r \<Longrightarrow> sr_status (f r) = FINISHED \<Longrightarrow> sr_status r = FINISHED \<or> sr_sessionId r \<in> S"
  shows "wp (db_write (update_where p f)) (\<lambda>_. fin_in S) (\<lambda>_. fin_in S) db"
proof -
  have "sr_sessionId x \<in> S" if "x \<in> set (db_sessions db)" "sr_status x = FINISHED" for x
    using assms(1) that by (simp add: fin_in_def)
  hence "sr_sessionId (f x) \<in> S" if "x \<in> set (db_sessions db)" "p x" "sr_status (f x) = FINISHED" for x
    using assms(2,3)[of x] that by metis
  thus ?thesis using assms(1) by (intro wp_db_write) (auto simp: update_where_def fin_in_def)
qed

lemma fin_insert:
  "fin_in S db \<Longrightarrow> sr_status r \<noteq> FINISHED \<Longrightarrow> wp (db_write (insert_row r)) (\<lambda>_. fin_in S) (\<lambda>_. fin_in S) db"
  by (rule wp_db_write) (auto simp: insert_row_def fin_in_def)

lemma fin_read: "fin_in S db \<Longrightarrow> wp (db_read q) (\<lambda>_. fin_in S) (\<lambda>_. fin_in S) db"
  by (rule wp_db_read) auto

lemma fin_getSession: "fin_kept (getSession sid)"
  unfolding getSession_def wp_simps by (intro allI impI wp_mono[OF fin_read]) (auto simp: wp_simps split: option.splits sum.splits)

lemma fin_getSessions: "fin_kept (getSessions S')"
  unfolding getSessions_def selectSessions_def wp_simps by (intro allI impI wp_mono[OF fin_read]) (auto simp: wp_simps split: sum.splits)

lemma fin_compareAndSet: "fin_kept (compareAndSetClaim sid e c)"
proof -
  have "status_for_claim s \<noteq> FINISHED" for s by (cases s) simp_all
  thus ?thesis unfolding compareAndSetClaim_def wp_simps by (auto intro!: fin_update)
qed

lemma fin_tryCreate: "fin_kept (tryCreateClaim sid amount c)"
  unfolding tryCreateClaim_def wp_simps by (auto intro!: fin_update)

lemma fin_finalize: "fin_in S db \<Longrightarrow> sid \<in> S \<Longrightarrow> wp (finalizeConfirmedClaim sid c) (\<lambda>_. fin_in S) (\<lambda>_. fin_in S) db"
  unfolding finalizeConfirmedClaim_def wp_simps by (auto intro!: fin_update simp: claiming_with_def)

lemma fin_other: "other_write x \<Longrightarrow> fin_kept (run_write x)"
proof (intro allI impI)
  fix S db assume x: "other_write x" and S: "fin_in S db"
  show "wp (run_write x) (\<lambda>_. fin_in S) (\<lambda>_. fin_in S) db"
  proof (cases x)
    case (WInsert d)
    show ?thesis using S unfolding WInsert run_write.simps insertRunningSession_def wp_simps by (auto intro!: fin_insert)
  next
    case (WUpdate d)
    have u: "wp (db_write (update_where (is_unclaimed (sd_sessionId d) RUNNING) (set_columns d))) (\<lambda>_. fin_in S) (\<lambda>_. fin_in S) db"
      by (rule fin_update[OF S]) (auto simp: is_unclaimed_def set_columns_def)
    show ?thesis using S unfolding WUpdate run_write.simps updateRunningSession_def wp_simps
      by (auto intro!: wp_mono[OF u] fin_read)
  next
    case (WTransition d)
    have u: "sd_status d \<noteq> FINISHED \<Longrightarrow> wp (db_write (update_where (is_unclaimed (sd_sessionId d) RUNNING) (\<lambda>r. (set_columns d r)\<lparr>sr_status := sd_status d\<rparr>)))
        (\<lambda>_. fin_in S) (\<lambda>_. fin_in S) db"
      by (rule fin_update[OF S]) (auto simp: is_unclaimed_def set_columns_def)
    show ?thesis using S u unfolding WTransition run_write.simps transitionSession_def wp_simps by auto
  next
    case (WTimeout now d timeout)
    show ?thesis unfolding WTimeout run_write.simps tryTimeoutSession_def wp_simps
      by (rule fin_update[OF S]) auto
  qed (use x in simp_all)
qed

subsection \<open>Steps that do not finalize\<close>

fun finalize_ref :: "claim_task \<Rightarrow> ref option" where
  "finalize_ref (Finalize ref) = Some ref"
| "finalize_ref (FinalizeDone ref _) = Some ref"
| "finalize_ref (FinalizeFetched ref _) = Some ref"
| "finalize_ref _ = None"

definition calm :: "claim_world \<Rightarrow> claim_world \<Rightarrow> bool" where
  "calm w w' \<longleftrightarrow> cw_accounted w' = cw_accounted w \<and> (\<forall>t \<in> set (cw_tasks w'). t \<in> set (cw_tasks w) \<or> finalize_ref t = None) \<and>
     length (cw_objects w) \<le> length (cw_objects w') \<and> (\<forall>ref < length (cw_objects w). obj_session w' ref = obj_session w ref) \<and>
     (\<forall>S. fin_in S (cw_db w) \<longrightarrow> fin_in S (cw_db w'))"

named_theorems calm

lemma calm_refl [calm]: "calm w w"
  by (simp add: calm_def)

lemma calm_trans:
  assumes "calm u v" "calm v w"
  shows "calm u w"
proof -
  have "t \<in> set (cw_tasks u) \<or> finalize_ref t = None" if "t \<in> set (cw_tasks w)" for t
    using assms(1)[unfolded calm_def] assms(2)[unfolded calm_def] that by metis
  moreover have "obj_session w ref = obj_session u ref" if "ref < length (cw_objects u)" for ref
    using assms that unfolding calm_def by simp
  ultimately show ?thesis using assms unfolding calm_def by simp
qed

lemma calm_fields [simp]:
  "calm u (w\<lparr>cw_wallet := x1\<rparr>) = calm u w" "calm u (w\<lparr>cw_pending := x2\<rparr>) = calm u w" "calm u (w\<lparr>cw_dict := x3\<rparr>) = calm u w"
  "calm u (w\<lparr>cw_queue := x4\<rparr>) = calm u w" "calm u (w\<lparr>cw_history := x5\<rparr>) = calm u w" "calm u (w\<lparr>cw_completions := x6\<rparr>) = calm u w"
  "calm u (w\<lparr>cw_queueTask := x7\<rparr>) = calm u w" "calm u (w\<lparr>cw_lastIdx := x8\<rparr>) = calm u w" "calm u (w\<lparr>cw_lastProcessed := x9\<rparr>) = calm u w"
  "calm u (w\<lparr>cw_lastConfirmed := x10\<rparr>) = calm u w" "calm u (w\<lparr>cw_sent := x11\<rparr>) = calm u w" "calm u (w\<lparr>cw_initialized := x12\<rparr>) = calm u w"
  by (simp_all add: calm_def claim_obj_def)

lemma calm_spawn [calm]: "calm u w \<Longrightarrow> finalize_ref t = None \<Longrightarrow> calm u (spawn t w)"
  by (auto simp: calm_def)

lemma calm_set_claim [calm]: "calm u w \<Longrightarrow> calm u (set_claim ref c w)"
  by (simp add: calm_def)

lemma calm_db: "calm u w \<Longrightarrow> (\<And>S. fin_in S (cw_db w) \<Longrightarrow> fin_in S db) \<Longrightarrow> calm u (w\<lparr>cw_db := db\<rparr>)"
  by (simp add: calm_def claim_obj_def)

lemma calm_request [calm]:
  assumes "calm u w" "fin_kept m" "\<And>r. finalize_ref (k r) = None"
  shows "calm u (request m k w)"
proof -
  obtain r db where m: "m (cw_db w) = (r, db)" by (cases "m (cw_db w)")
  have "fin_in S db" if "fin_in S (cw_db w)" for S
    using assms(2) that m wp_snd[of m "fin_in S" "cw_db w"] by auto
  thus ?thesis using assms(3) by (auto simp: request_def m intro!: calm_spawn calm_db[OF assms(1)])
qed

lemma calm_completion [calm]: "calm u w \<Longrightarrow> calm u (getConfirmedClaimCompletion ref w)" "calm u w \<Longrightarrow> calm u (end_completion ref w)"
    "calm u w \<Longrightarrow> calm u (startClaimReconciliation ref w)"
  by (auto simp: getConfirmedClaimCompletion_def end_completion_def startClaimReconciliation_def intro!: calm_spawn)

lemma calm_finish: "finishClaimReconciliation env ref c w = (b, w') \<Longrightarrow> calm u w \<Longrightarrow> calm u w'"
  by (auto simp: finishClaimReconciliation_def Let_def split: option.splits if_splits sum.splits)

lemma calm_reconcile: "reconcileObservedTerminal env ref c w = (b, w') \<Longrightarrow> calm u w \<Longrightarrow> calm u w'"
  by (auto simp: reconcileObservedTerminal_def Let_def split: claim_phase.splits if_splits intro: calm_finish calm_completion)

lemma calm_done [calm]: "calm u w \<Longrightarrow> calm u (transition_done env k ref c r w)"
proof (cases k)
  case (AfterTerminal rc n)
  assume u: "calm u w"
  obtain b w' where f: "finishClaimReconciliation env ref c w = (b, w')" by (cases "finishClaimReconciliation env ref c w")
  show ?thesis using u calm_finish[OF f u]
    by (auto simp: AfterTerminal transition_done_def terminal_result_def f split: transition_result.split bool.split intro!: calm)
qed (auto simp: transition_done_def prepared_result_def failed_result_def pending_result_def
    split: option.split transition_result.split bool.split intro!: calm)

lemma calm_observed [calm]: "calm u w \<Longrightarrow> calm u (transition_observed env k ref e c err stored w)"
proof (cases "\<exists>sd d. stored = Some sd \<and> claim_of_json (sd_claim sd) = Some d")
  case True
  assume u: "calm u w"
  from True obtain sd d where sd: "stored = Some sd" "claim_of_json (sd_claim sd) = Some d" by blast
  obtain b w2 where r: "reconcileObservedTerminal env ref d (set_claim ref d w) = (b, w2)"
    by (cases "reconcileObservedTerminal env ref d (set_claim ref d w)")
  have "calm u w2" using calm_reconcile[OF r] calm_set_claim[OF u] by blast
  thus ?thesis using u sd r by (auto simp: transition_observed_def Let_def intro!: calm)
next
  case False
  thus "calm u w \<Longrightarrow> ?thesis" by (auto simp: transition_observed_def Let_def split: option.split intro!: calm)
qed

lemma calm_transition [calm]: "calm u w \<Longrightarrow> calm u (transitionClaim env k ref e c st w)"
  using fin_compareAndSet fin_getSession
  by (auto simp: transitionClaim_def split: transition_stage.split sum.split bool.split intro!: calm)

lemma calm_queue [calm]: "calm u w \<Longrightarrow> calm u (failQueuedClaim ref msg w)" "calm u w \<Longrightarrow> calm u (processQueueTx ref w)"
    "calm u w \<Longrightarrow> calm u (processQueue_tail env x w)" "calm u w \<Longrightarrow> calm u (processQueue_refill env ops w)"
  by (auto simp: failQueuedClaim_def processQueueTx_def processQueue_tail_def processQueue_refill_def Let_def split: option.split intro!: calm_spawn)

lemma calm_prepared [calm]: "calm u w \<Longrightarrow> calm u (processQueueTx_prepared env g ref n w)"
  by (auto simp: processQueueTx_prepared_def Let_def split: option.split sum.split bool.split intro!: calm)

lemma calm_loop [calm]: "calm u w \<Longrightarrow> calm u (processQueue_loop env w)"
  by (auto simp: processQueue_loop_def Let_def split: list.split option.split intro!: calm)

lemma calm_workers [calm]: "calm u w \<Longrightarrow> calm u (rebroadcastClaim env ref w)" "calm u w \<Longrightarrow> calm u (rebroadcast_answered env h ref t w)"
    "calm u w \<Longrightarrow> calm u (awaitTxReceipt env ref w)" "calm u w \<Longrightarrow> calm u (receipt_answered x ref w)"
    "calm u w \<Longrightarrow> calm u (settleClaim ref rc n w)" "calm u w \<Longrightarrow> calm u (completeConfirmedClaim ref w)"
  by (auto simp: rebroadcastClaim_def rebroadcast_answered_def awaitTxReceipt_def receipt_answered_def settleClaim_def completeConfirmedClaim_def Let_def
      split: option.split sum.split claim_phase.split intro!: calm)

lemma calm_finalized [calm]: "calm u w \<Longrightarrow> calm u (claim_finalized env ref w)"
  by (auto simp: claim_finalized_def split: prod.split intro!: calm intro: calm_finish)

lemma calm_new: "calm u w \<Longrightarrow> new_claim info w = (ref, w') \<Longrightarrow> calm u w'"
  by (auto simp: calm_def new_claim_def claim_obj_def nth_append)

lemma calm_create [calm]: "calm u w \<Longrightarrow> calm u (create_hooks_done ok now sd amount w)" "calm u w \<Longrightarrow> calm u (create_done info r w)"
  using fin_tryCreate calm_new[of u w info]
  by (auto simp: create_hooks_done_def create_done_def Let_def split: sum.split bool.split prod.split intro!: calm_request)

subsection \<open>Accounting\<close>

definition acct_ok :: "string set \<Rightarrow> claim_world \<Rightarrow> bool" where
  "acct_ok S w \<longleftrightarrow> fin_in (S \<union> set (cw_accounted w)) (cw_db w) \<and>
     (\<forall>t \<in> set (cw_tasks w). \<forall>ref. finalize_ref t = Some ref \<longrightarrow> ref < length (cw_objects w) \<and> obj_session w ref \<in> set (cw_accounted w))"

lemma acct_calm:
  assumes "acct_ok S w" "calm w w'"
  shows "acct_ok S w'"
proof -
  have c: "cw_accounted w' = cw_accounted w" "\<And>t. t \<in> set (cw_tasks w') \<Longrightarrow> t \<in> set (cw_tasks w) \<or> finalize_ref t = None"
    "length (cw_objects w) \<le> length (cw_objects w')" "\<And>ref. ref < length (cw_objects w) \<Longrightarrow> obj_session w' ref = obj_session w ref"
    "\<And>S. fin_in S (cw_db w) \<Longrightarrow> fin_in S (cw_db w')" using assms(2) by (auto simp: calm_def)
  have "ref < length (cw_objects w') \<and> obj_session w' ref \<in> set (cw_accounted w')" if "t \<in> set (cw_tasks w')" "finalize_ref t = Some ref" for t ref
  proof -
    have "t \<in> set (cw_tasks w)" using c(2)[OF that(1)] that(2) by simp
    hence "ref < length (cw_objects w)" "obj_session w ref \<in> set (cw_accounted w)" using assms(1) that(2) by (auto simp: acct_ok_def)
    thus ?thesis using c by simp
  qed
  thus ?thesis using assms(1) c by (auto simp: acct_ok_def)
qed

lemma acct_spawn: "acct_ok S w \<Longrightarrow> ref < length (cw_objects w) \<Longrightarrow> obj_session w ref \<in> set (cw_accounted w) \<Longrightarrow>
    finalize_ref t = Some ref \<or> finalize_ref t = None \<Longrightarrow> acct_ok S (spawn t w)"
  by (auto simp: acct_ok_def)

lemma acct_request:
  assumes "acct_ok S w" "ref < length (cw_objects w)" "obj_session w ref \<in> set (cw_accounted w)"
    "wp m (\<lambda>_. fin_in (S \<union> set (cw_accounted w))) (\<lambda>_. fin_in (S \<union> set (cw_accounted w))) (cw_db w)" "\<And>r. finalize_ref (k r) = Some ref"
  shows "acct_ok S (request m k w)"
proof -
  obtain r db where m: "m (cw_db w) = (r, db)" by (cases "m (cw_db w)")
  have "fin_in (S \<union> set (cw_accounted w)) db" using wp_snd[OF assms(4)] m by simp
  hence "acct_ok S (w\<lparr>cw_db := db\<rparr>)" using assms(1) by (simp add: acct_ok_def claim_obj_def)
  thus ?thesis using assms(2,3,5) by (auto simp: request_def m claim_obj_def intro!: acct_spawn)
qed

lemma acct_finalize:
  assumes "acct_ok S w" "ref < length (cw_objects w)" "obj_session w ref \<in> set (cw_accounted w)"
  shows "acct_ok S (finalizeConfirmedClaimTx ref w)" "acct_ok S (finalize_done env ref r w)" "acct_ok S (finalize_fetched env ref f w)"
proof -
  have c: "acct_ok S w'" if "calm w w'" for w' using acct_calm[OF assms(1) that] .
  have db: "fin_in (S \<union> set (cw_accounted w)) (cw_db w)" using assms(1) by (simp add: acct_ok_def)
  show "acct_ok S (finalizeConfirmedClaimTx ref w)"
  proof (cases "cw_initialized w \<and> claim_status (obj_claim w ref) = CONFIRMED")
    case True
    have "acct_ok S (request (finalizeConfirmedClaim (obj_session w ref) (obj_claim w ref)) (FinalizeDone ref) w)"
      by (rule acct_request[OF assms(1-3) fin_finalize[OF db]]) (use assms(3) in simp_all)
    thus ?thesis using True by (simp add: finalizeConfirmedClaimTx_def)
  qed (auto simp: finalizeConfirmedClaimTx_def intro!: c calm)
  show "acct_ok S (finalize_done env ref r w)"
  proof (cases "r = Inr True")
    case False
    have "acct_ok S (request (getSession (obj_session w ref)) (FinalizeFetched ref) w)"
      by (rule acct_request[OF assms(1-3)]) (use fin_getSession db in simp_all)
    thus ?thesis using False by (auto simp: finalize_done_def split: sum.split bool.split)
  qed (auto simp: finalize_done_def intro!: c calm)
  show "acct_ok S (finalize_fetched env ref f w)"
  proof (cases "\<exists>sd d. f = Inr (Some sd) \<and> claim_of_json (sd_claim sd) = Some d")
    case False
    have "acct_ok S (spawn (Finalize ref) w)" by (rule acct_spawn[OF assms]) simp
    thus ?thesis using False by (auto simp: finalize_fetched_def split: sum.split option.split intro!: c[OF calm_completion(2)] calm_refl)
  next
    case True
    then obtain sd d where sd: "f = Inr (Some sd)" "claim_of_json (sd_claim sd) = Some d" by blast
    have w1: "calm w (set_claim ref d w)" by (intro calm)
    obtain b w2 where r: "reconcileObservedTerminal env ref d (set_claim ref d w) = (b, w2)"
      by (cases "reconcileObservedTerminal env ref d (set_claim ref d w)")
    have w2: "calm w w2" using calm_reconcile[OF r w1] .
    have f: "acct_ok S (spawn (Finalize ref) (set_claim ref d w))"
      by (rule acct_spawn) (use c[OF w1] assms w1 in \<open>simp_all add: calm_def\<close>)
    show ?thesis using sd r f w1 w2 by (auto simp: finalize_fetched_def Let_def intro!: c calm)
  qed
qed

lemma acct_hooks:
  assumes "acct_ok S w" "ref < length (cw_objects w)"
  shows "acct_ok S (completion_hooks_done ok ref w)"
proof (cases ok)
  case True
  let ?w = "w\<lparr>cw_accounted := cw_accounted w @ [obj_session w ref]\<rparr>"
  have w: "acct_ok S ?w" using assms(1) by (auto simp: acct_ok_def fin_in_def claim_obj_def)
  have "acct_ok S (spawn (Finalize ref) ?w)" using w assms(2) by (intro acct_spawn) (simp_all add: claim_obj_def)
  moreover have "acct_ok S (end_completion ref ?w)" by (rule acct_calm[OF w]) (intro calm)
  ultimately show ?thesis using True by (simp add: completion_hooks_done_def Let_def)
next
  case False
  show ?thesis by (rule acct_calm[OF assms(1)]) (use False in \<open>auto simp: completion_hooks_done_def Let_def intro!: calm\<close>)
qed

lemma acct_resume:
  assumes "acct_ok S w" "tok env w t" "\<And>ref. finalize_ref t = Some ref \<Longrightarrow> obj_session w ref \<in> set (cw_accounted w)"
  shows "acct_ok S (resume env a t w)"
proof -
  have c: "acct_ok S w'" if "calm w w'" for w' using acct_calm[OF assms(1) that] .
  show ?thesis
  proof (cases t)
    case (CompletionHooks ref)
    thus ?thesis using acct_hooks[OF assms(1)] assms(2) by simp
  next
    case (Finalize ref)
    thus ?thesis using acct_finalize(1)[OF assms(1)] assms(2,3) by simp
  next
    case (FinalizeDone ref r)
    thus ?thesis using acct_finalize(2)[OF assms(1)] assms(2,3) by simp
  next
    case (FinalizeFetched ref f)
    thus ?thesis using acct_finalize(3)[OF assms(1)] assms(2,3) by simp
  qed (auto intro!: c calm)
qed

subsection \<open>Every reachable state\<close>

lemma calm_fold: "(\<And>x w. calm u w \<Longrightarrow> calm u (f x w)) \<Longrightarrow> calm u w \<Longrightarrow> calm u (fold f xs w)"
  by (induction xs arbitrary: w) auto

lemma calm_restore: "calm u w \<Longrightarrow> calm u (restore_claim env sd w)"
  using calm_new[of u w]
  by (auto simp: restore_claim_def Let_def split: option.split claim_phase.split prod.split sum.split intro!: calm)

lemma calm_initialize: "calm w (initialize env w)"
proof -
  have r: "calm w ((resetRuntimeState w)\<lparr>cw_initialized := True\<rparr>)" by (auto simp: resetRuntimeState_def intro: calm)
  have "calm u (initialize_claims env stored v)" if "calm u v" for u stored v
    unfolding initialize_claims_def Let_def using that by (auto intro!: calm_fold calm calm_restore)
  moreover have "fin_in S (snd (getSessions [CLAIMING] (cw_db w)))" if "fin_in S (cw_db w)" for S
    using wp_snd[of "getSessions [CLAIMING]" "fin_in S" "cw_db w"] fin_getSessions that by blast
  ultimately show ?thesis using r calm_db[OF r] by (auto simp: initialize_def Let_def resetRuntimeState_def split: prod.split sum.split intro: calm_refl)
qed

lemma acct_event:
  assumes a: "acct_ok S w" and inv: "payout_inv env w"
  shows "acct_ok S (claim_event_step env ev w)"
proof -
  have c: "acct_ok S w'" if "calm w w'" for w' using acct_calm[OF a that] .
  show ?thesis
  proof (cases ev)
    case (Resume i x)
    show ?thesis
    proof (cases "i < length (cw_tasks w)")
      case True
      let ?v = "w\<lparr>cw_tasks := take i (cw_tasks w) @ drop (Suc i) (cw_tasks w)\<rparr>"
      have sub: "set (cw_tasks ?v) \<subseteq> set (cw_tasks w)" by (auto dest: in_set_takeD in_set_dropD)
      have v: "acct_ok S ?v" using a sub unfolding acct_ok_def by (auto simp: claim_obj_def)
      have "obj_session ?v ref \<in> set (cw_accounted ?v)" if "finalize_ref (cw_tasks w ! i) = Some ref" for ref
        using a True that nth_mem[OF True] by (auto simp: acct_ok_def claim_obj_def)
      thus ?thesis using acct_resume[OF v] resume_removed[OF inv True] Resume True by simp
    qed (use a Resume in simp)
  next
    case (CreateClaim sid)
    have db: "calm w (w\<lparr>cw_db := snd (getSession sid (cw_db w))\<rparr>)"
      using fin_getSession wp_snd[of "getSession sid"] by (intro calm_db calm_refl) blast
    have "calm u (keep_on_error v (createSessionClaim env sd v))" if "calm u v" for u sd v
    proof (cases "createSessionClaim env sd v")
      case (Inr v')
      thus ?thesis using that by (auto simp: createSessionClaim_def try_bind_Inr_iff split: if_splits intro!: calm)
    qed (use that in simp)
    thus ?thesis using CreateClaim db by (auto split: prod.split sum.split option.split intro!: c)
  next
    case (OtherWrite x)
    have "calm w (w\<lparr>cw_db := snd (run_write x (cw_db w))\<rparr>)" if "other_write x"
      using fin_other[OF that] wp_snd[of "run_write x"] by (intro calm_db calm_refl) blast
    thus ?thesis using OtherWrite a by (auto intro!: c)
  next
    case Initialize
    thus ?thesis using a calm_initialize by (auto intro!: c)
  next
    case (Crash wallet)
    thus ?thesis using a by (simp add: acct_ok_def resetRuntimeState_def)
  qed (auto intro!: c calm intro: calm_db)
qed

lemma acct_reachable:
  "claim_reachable env w0 w \<Longrightarrow> initial_claims w0 \<Longrightarrow> db_inv env (cw_db w0) \<Longrightarrow> fin_in S (cw_db w0) \<Longrightarrow> acct_ok S w"
proof (induction rule: claim_reachable.induct)
  case start
  thus ?case by (simp add: acct_ok_def initial_claims_def)
next
  case (step w ev)
  thus ?case using acct_event reachable_inv by blast
qed

text \<open>C9. Nothing is finished before it is accounted.  In every state the payout engine can
  reach, under every interleaving, fault and restart, a session that has become finished since
  the start is one whose confirmation hooks, which charge the fee to the outflow budget, have
  succeeded.\<close>

theorem finished_after_accounting:
  assumes "initial_claims w0" "db_inv env (cw_db w0)" "claim_reachable env w0 w"
  shows "\<forall>r \<in> set (db_sessions (cw_db w)). sr_status r = FINISHED \<longrightarrow> sr_sessionId r \<in> set (cw_accounted w) \<or>
    (\<exists>r0 \<in> set (db_sessions (cw_db w0)). sr_status r0 = FINISHED \<and> sr_sessionId r0 = sr_sessionId r)"
proof (intro ballI impI)
  let ?S = "sr_sessionId ` {r \<in> set (db_sessions (cw_db w0)). sr_status r = FINISHED}"
  fix r assume r: "r \<in> set (db_sessions (cw_db w))" "sr_status r = FINISHED"
  have "fin_in ?S (cw_db w0)" by (auto simp: fin_in_def)
  hence "fin_in (?S \<union> set (cw_accounted w)) (cw_db w)"
    using acct_reachable[OF assms(3,1,2)] by (simp add: acct_ok_def)
  hence "sr_sessionId r \<in> ?S \<or> sr_sessionId r \<in> set (cw_accounted w)" using r by (simp only: fin_in_def Un_iff)
  thus "sr_sessionId r \<in> set (cw_accounted w) \<or>
    (\<exists>r0 \<in> set (db_sessions (cw_db w0)). sr_status r0 = FINISHED \<and> sr_sessionId r0 = sr_sessionId r)"
  proof (elim disjE imageE)
    fix r0 assume "sr_sessionId r = sr_sessionId r0" "r0 \<in> {r \<in> set (db_sessions (cw_db w0)). sr_status r = FINISHED}"
    thus ?thesis by (intro disjI2 bexI[of _ r0]) simp_all
  qed simp
qed

text \<open>The payout of the demonstration, followed to its end: broadcast, receipt, settlement, hooks.\<close>

definition demo_finish :: "claim_event list" where
  "demo_finish = demo_events @ [Resume 0 answered, Resume 2 answered, Resume 2 answered, Resume 2 answered, Resume 2 answered,
     Resume 2 answered, Resume 2 answered, Resume 2 answered, Resume 2 answered]"

lemma demo_finish_run: "map_option (\<lambda>w. (map sr_status (db_sessions (cw_db w)), cw_accounted w))
    (run_events demo_claim_env demo_finish demo_claim_world) = Some ([FINISHED], [''s1''])"
  by code_simp

theorem finished_after_accounting_witness:
  "\<exists>w. claim_reachable demo_claim_env demo_claim_world w \<and> map sr_status (db_sessions (cw_db w)) = [FINISHED] \<and>
     (\<forall>r \<in> set (db_sessions (cw_db w)). sr_sessionId r = ''s1'')"
proof -
  obtain w where w: "run_events demo_claim_env demo_finish demo_claim_world = Some w"
    "map sr_status (db_sessions (cw_db w)) = [FINISHED]" "cw_accounted w = [''s1'']"
    using demo_finish_run by auto
  have r: "claim_reachable demo_claim_env demo_claim_world w" using run_events_reachable[OF claim_reachable.start w(1)] .
  have "sr_sessionId r = ''s1''" if "r \<in> set (db_sessions (cw_db w))" for r
  proof -
    have "sr_status r \<in> set (map sr_status (db_sessions (cw_db w)))" using that by simp
    hence "sr_status r = FINISHED" unfolding w(2) by simp
    thus ?thesis using finished_after_accounting[OF demo_initial r] that w(3)
      by (auto simp: demo_claim_world_def claimable_row_def)
  qed
  thus ?thesis using r w(2) by (intro exI[of _ w] conjI ballI) simp_all
qed

end
