(* ===== verification/Voucher_DB.thy ===== *)
theory Voucher_DB
  imports Faucet_Session
begin

text \<open>
  \<^verbatim>\<open>src/src/modules/voucher/VoucherDB.ts\<close>: voucher codes, their leases by starting sessions,
  their consumption by completed ones, and the receipts that let a failed session's voucher be
  used again.  The SQLite statements are data; each runs atomically.  Other clients of the
  database run arbitrary statements before every statement of an operation, and every
  statement may be lost or fail, so the operations are proved under every interleaving at the
  granularity of a statement.  Digests are arguments of the definitions.
\<close>

subsection \<open>Rows\<close>

datatype voucher_state = AVAILABLE | LEASED | CONSUMED

record cleanup_columns =
  cc_voucherCode :: "string option"
  cc_sessionId :: "string option"
  cc_startTime :: "int option"
  cc_targetAddr :: "string option"
  cc_status :: "session_status option"
  cc_expectedState :: "voucher_state option"
  cc_dataHash :: "string option"
  cc_claimDataHash :: "string option"

definition no_cleanup :: cleanup_columns where
  "no_cleanup = \<lparr>cc_voucherCode = None, cc_sessionId = None, cc_startTime = None, cc_targetAddr = None,
     cc_status = None, cc_expectedState = None, cc_dataHash = None, cc_claimDataHash = None\<rparr>"

record voucher_row =
  vr_Code :: string
  vr_DropAmount :: string
  vr_SessionId :: "string option"
  vr_TargetAddr :: "string option"
  vr_StartTime :: "int option"
  vr_cleanup :: cleanup_columns

text \<open>\<^verbatim>\<open>IVoucher\<close>, by its state.\<close>

datatype voucher_hold = Available | Leased string int | Consumed string int string

record voucher =
  vo_code :: string
  vo_dropAmount :: string
  vo_hold :: voucher_hold

fun hold_state :: "voucher_hold \<Rightarrow> voucher_state" where
  "hold_state Available = AVAILABLE"
| "hold_state (Leased _ _) = LEASED"
| "hold_state (Consumed _ _ _) = CONSUMED"

record cleanup_receipt =
  re_voucherCode :: string
  re_sessionId :: string
  re_startTime :: int
  re_targetAddr :: string
  re_status :: session_status
  re_expectedState :: voucher_state
  re_dataHash :: string
  re_claimDataHash :: string

datatype receipt_kind = NoReceipt | HasReceipt cleanup_receipt

datatype reservation_snapshot = SnapMissing | SnapInvalid | SnapValid voucher receipt_kind

text \<open>\<^verbatim>\<open>PersistedVoucherBinding\<close> and \<^verbatim>\<open>CleanupClaimDataSnapshot\<close>.\<close>

record voucher_binding =
  vb_voucherCode :: "string option"
  vb_targetAddr :: string
  vb_dataJson :: json_text
  vb_dataHash :: string

record claim_snapshot =
  cs_claimDataJson :: "json_text option"
  cs_claimDataHash :: string
  cs_claim :: "eth_claim option"

text \<open>The digests, the driver's report of a deadlock, the schema version of the module, and the
  other cleanup guards.\<close>

record voucher_env =
  ve_dataHash :: "json_text \<Rightarrow> string"
  ve_claimHash :: "json_text option \<Rightarrow> string"
  ve_deadlock :: "db_error \<Rightarrow> bool"
  ve_schemaVersion :: "int option"
  ve_guard :: cleanup_guard

subsection \<open>Decoding\<close>

definition isValidOwner :: "string \<Rightarrow> bool" where
  "isValidOwner s \<longleftrightarrow> s \<noteq> []"

definition is_digest :: "string \<Rightarrow> bool" where
  "is_digest s \<longleftrightarrow> length s = 64 \<and> (\<forall>c \<in> set s. c \<in> set ''0123456789abcdef'')"

definition decodeCleanupClaimData :: "voucher_env \<Rightarrow> session_status \<Rightarrow> json_text option \<Rightarrow> claim_snapshot option" where
  "decodeCleanupClaimData env status claimDataJson =
     (if status \<noteq> FAILED_SESSION \<and> status \<noteq> FINISHED then None
      else case claimDataJson of
        None \<Rightarrow> Some \<lparr>cs_claimDataJson = None, cs_claimDataHash = ve_claimHash env None, cs_claim = None\<rparr>
      | Some (NotJson _) \<Rightarrow> None
      | Some (JsonText v) \<Rightarrow> (case claim_of_json v of
          None \<Rightarrow> None
        | Some c \<Rightarrow> if claim_status c \<in> (if status = FAILED_SESSION then {FAILED, REVERTED} else {CONFIRMED})
            then Some \<lparr>cs_claimDataJson = claimDataJson, cs_claimDataHash = ve_claimHash env claimDataJson, cs_claim = Some c\<rparr>
            else None))"

definition decodePersistedVoucherBinding :: "voucher_env \<Rightarrow> string \<Rightarrow> json_text \<Rightarrow> voucher_binding option" where
  "decodePersistedVoucherBinding env targetAddr dataJson =
     (if \<not> is_valid_target targetAddr then None
      else case dataJson of
        NotJson _ \<Rightarrow> None
      | JsonText v \<Rightarrow> (case v of
          JObj fields' \<Rightarrow>
            (let b = \<lparr>vb_voucherCode = None, vb_targetAddr = targetAddr, vb_dataJson = dataJson, vb_dataHash = ve_dataHash env dataJson\<rparr> in
             case map_of fields' ''voucherCode'' of
               None \<Rightarrow> Some b
             | Some (JStr (c # cs)) \<Rightarrow> Some (b\<lparr>vb_voucherCode := Some (c # cs)\<rparr>)
             | Some _ \<Rightarrow> None)
        | _ \<Rightarrow> None))"

definition decodeCleanupReceipt :: "voucher_row \<Rightarrow> receipt_kind option" where
  "decodeCleanupReceipt r = (let cc = vr_cleanup r in
     if cc = no_cleanup then Some NoReceipt
     else case (cc_voucherCode cc, cc_sessionId cc, cc_startTime cc, cc_targetAddr cc) of
       (Some code, Some sid, Some start, Some target) \<Rightarrow>
         (case (cc_status cc, cc_expectedState cc, cc_dataHash cc, cc_claimDataHash cc) of
           (Some status, Some state, Some dataHash, Some claimDataHash) \<Rightarrow>
             if code \<noteq> [] \<and> code = vr_Code r \<and> isValidOwner sid \<and> is_safe_integer start \<and> is_valid_target target
                \<and> (status = FAILED_SESSION \<or> status = FINISHED) \<and> (state = LEASED \<or> state = CONSUMED)
                \<and> is_digest dataHash \<and> is_digest claimDataHash
             then Some (HasReceipt \<lparr>re_voucherCode = code, re_sessionId = sid, re_startTime = start, re_targetAddr = target,
               re_status = status, re_expectedState = state, re_dataHash = dataHash, re_claimDataHash = claimDataHash\<rparr>)
             else None
         | _ \<Rightarrow> None)
     | _ \<Rightarrow> None)"

definition voucherFromRow :: "voucher_row \<Rightarrow> db_error + voucher" where
  "voucherFromRow r =
     (let v = (\<lambda>h. \<lparr>vo_code = vr_Code r, vo_dropAmount = vr_DropAmount r, vo_hold = h\<rparr>) in
      if vr_Code r = [] then Inl (DbError ''Voucher row has invalid persisted data.'')
      else case vr_SessionId r of
        None \<Rightarrow> if vr_TargetAddr r \<noteq> None \<or> vr_StartTime r \<noteq> None
          then Inl (DbError ''Voucher row has contradictory available-state data.'') else Inr (v Available)
      | Some sid \<Rightarrow> (case vr_StartTime r of
          None \<Rightarrow> Inl (DbError ''Voucher row has invalid reservation ownership data.'')
        | Some start \<Rightarrow>
            if \<not> isValidOwner sid \<or> \<not> is_safe_integer start
            then Inl (DbError ''Voucher row has invalid reservation ownership data.'')
            else case vr_TargetAddr r of
              None \<Rightarrow> Inr (v (Leased sid start))
            | Some target \<Rightarrow> if \<not> is_valid_target target then Inl (DbError ''Voucher row has an invalid consumed target.'')
                else Inr (v (Consumed sid start target))))"

definition isValidReceiptVoucherPair :: "voucher \<Rightarrow> receipt_kind \<Rightarrow> bool" where
  "isValidReceiptVoucherPair v rc = (case rc of
      NoReceipt \<Rightarrow> True
    | HasReceipt re \<Rightarrow>
        if re_status re = FAILED_SESSION then vo_hold v = Available
        else vo_hold v = Consumed (re_sessionId re) (re_startTime re) (re_targetAddr re))"

definition isExactLeaseReservation :: "reservation_snapshot \<Rightarrow> string \<Rightarrow> string \<Rightarrow> int \<Rightarrow> bool" where
  "isExactLeaseReservation snap code sid start = (case snap of
      SnapValid v NoReceipt \<Rightarrow> vo_hold v = Leased sid start \<and> vo_code v = code
    | _ \<Rightarrow> False)"

definition matchesCleanupReceipt ::
  "receipt_kind \<Rightarrow> string \<Rightarrow> cleanup_candidate \<Rightarrow> voucher_binding \<Rightarrow> claim_snapshot \<Rightarrow> voucher_state \<Rightarrow> bool" where
  "matchesCleanupReceipt rc code c b cs expected = (case rc of
      NoReceipt \<Rightarrow> False
    | HasReceipt re \<Rightarrow> re = \<lparr>re_voucherCode = code, re_sessionId = cd_sessionId c, re_startTime = cd_startTime c,
        re_targetAddr = vb_targetAddr b, re_status = cd_status c, re_expectedState = expected,
        re_dataHash = vb_dataHash b, re_claimDataHash = cs_claimDataHash cs\<rparr>)"

subsection \<open>Statements\<close>

text \<open>\<^verbatim>\<open>EXISTS (SELECT 1 FROM Sessions WHERE ...)\<close> with its bound values.\<close>

record session_key =
  sk_sessionId :: string
  sk_status :: session_status
  sk_startTime :: int
  sk_targetAddr :: string
  sk_data :: json_text
  sk_claimData :: "json_text option"

definition key_matches :: "session_key \<Rightarrow> session_row \<Rightarrow> bool" where
  "key_matches k r \<longleftrightarrow> sr_sessionId r = sk_sessionId k \<and> sr_status r = sk_status k \<and> sr_startTime r = sk_startTime k
     \<and> sr_targetAddr r = sk_targetAddr k \<and> sr_data r = sk_data k \<and> sr_claim r = sk_claimData k"

definition session_key_of :: "cleanup_candidate \<Rightarrow> voucher_binding \<Rightarrow> claim_snapshot \<Rightarrow> session_key" where
  "session_key_of c b cs = \<lparr>sk_sessionId = cd_sessionId c, sk_status = cd_status c, sk_startTime = cd_startTime c,
     sk_targetAddr = vb_targetAddr b, sk_data = vb_dataJson b, sk_claimData = cs_claimDataJson cs\<rparr>"

definition receipt_columns ::
  "string \<Rightarrow> cleanup_candidate \<Rightarrow> voucher_binding \<Rightarrow> claim_snapshot \<Rightarrow> voucher_state \<Rightarrow> cleanup_columns" where
  "receipt_columns code c b cs state = \<lparr>cc_voucherCode = Some code, cc_sessionId = Some (cd_sessionId c),
     cc_startTime = Some (cd_startTime c), cc_targetAddr = Some (vb_targetAddr b), cc_status = Some (cd_status c),
     cc_expectedState = Some state, cc_dataHash = Some (vb_dataHash b), cc_claimDataHash = Some (cs_claimDataHash cs)\<rparr>"

definition columns_of_receipt :: "receipt_kind \<Rightarrow> cleanup_columns" where
  "columns_of_receipt rc = (case rc of
      NoReceipt \<Rightarrow> no_cleanup
    | HasReceipt re \<Rightarrow> \<lparr>cc_voucherCode = Some (re_voucherCode re), cc_sessionId = Some (re_sessionId re),
        cc_startTime = Some (re_startTime re), cc_targetAddr = Some (re_targetAddr re), cc_status = Some (re_status re),
        cc_expectedState = Some (re_expectedState re), cc_dataHash = Some (re_dataHash re),
        cc_claimDataHash = Some (re_claimDataHash re)\<rparr>)"

datatype voucher_stmt =
    SLease string string int cleanup_columns
  | SRelease string string int
  | SConsume string string string int
  | SFree cleanup_columns string string "string option" int session_key
  | SConfirm cleanup_columns string string string int session_key
  | SConsumeFinished string cleanup_columns string string int session_key
  | SReconcile
  | SInsert string string
  | SSession session_write
  | SDelete cleanup_candidate

text \<open>\<^verbatim>\<open>vw_others\<close> holds what other clients run before each statement; \<^verbatim>\<open>vw_failed\<close> and \<^verbatim>\<open>vw_won\<close>
  are history: the sessions that were ever failed, and the consumptions that were granted.\<close>

record voucher_world =
  vw_store :: faucet_db
  vw_rows :: "voucher_row list"
  vw_others :: "voucher_stmt list list"
  vw_failed :: "string list"
  vw_won :: "(string \<times> string) list"

type_synonym 'a voucher_op = "(voucher_world, db_error, 'a) proc"

definition update_vouchers :: "(voucher_row \<Rightarrow> bool) \<Rightarrow> (voucher_row \<Rightarrow> voucher_row) \<Rightarrow> voucher_world \<Rightarrow> db_error + (nat \<times> voucher_world)" where
  "update_vouchers p f w = Inr (length (filter p (vw_rows w)), w\<lparr>vw_rows := map (\<lambda>r. if p r then f r else r) (vw_rows w)\<rparr>)"

definition session_present :: "voucher_world \<Rightarrow> string \<Rightarrow> bool" where
  "session_present w sid \<longleftrightarrow> (\<exists>r \<in> set (db_sessions (vw_store w)). sr_sessionId r = sid)"

definition owns_voucher :: "voucher_world \<Rightarrow> string \<Rightarrow> bool" where
  "owns_voucher w sid \<longleftrightarrow> (\<exists>r \<in> set (vw_rows w). vr_SessionId r = Some sid)"

definition session_exact :: "voucher_world \<Rightarrow> session_key \<Rightarrow> bool" where
  "session_exact w k \<longleftrightarrow> (\<exists>r \<in> set (db_sessions (vw_store w)). key_matches k r)"

fun run_stmt :: "voucher_stmt \<Rightarrow> voucher_world \<Rightarrow> db_error + (nat \<times> voucher_world)" where
  "run_stmt (SLease code sid start cols) w = update_vouchers (\<lambda>r. vr_Code r = code \<and> vr_SessionId r = None \<and> vr_TargetAddr r = None
       \<and> vr_StartTime r = None \<and> vr_cleanup r = cols
       \<and> (case cc_sessionId cols of None \<Rightarrow> True | Some owner \<Rightarrow> \<not> session_present w owner \<and> \<not> owns_voucher w owner)
       \<and> \<not> owns_voucher w sid \<and> \<not> session_present w sid)
     (\<lambda>r. r\<lparr>vr_SessionId := Some sid, vr_TargetAddr := None, vr_StartTime := Some start, vr_cleanup := no_cleanup\<rparr>) w"
| "run_stmt (SRelease code sid start) w = update_vouchers (\<lambda>r. vr_Code r = code \<and> vr_SessionId r = Some sid \<and> vr_TargetAddr r = None
       \<and> vr_StartTime r = Some start \<and> vr_cleanup r = no_cleanup)
     (\<lambda>r. r\<lparr>vr_SessionId := None, vr_TargetAddr := None, vr_StartTime := None\<rparr>) w"
| "run_stmt (SConsume target code sid start) w = update_vouchers (\<lambda>r. vr_Code r = code \<and> vr_SessionId r = Some sid
       \<and> vr_TargetAddr r = None \<and> vr_StartTime r = Some start \<and> vr_cleanup r = no_cleanup)
     (\<lambda>r. r\<lparr>vr_TargetAddr := Some target\<rparr>) w"
| "run_stmt (SFree cols code sid target start k) w = update_vouchers (\<lambda>r. vr_Code r = code \<and> vr_SessionId r = Some sid
       \<and> vr_TargetAddr r = target \<and> vr_StartTime r = Some start \<and> session_exact w k)
     (\<lambda>r. r\<lparr>vr_SessionId := None, vr_TargetAddr := None, vr_StartTime := None, vr_cleanup := cols\<rparr>) w"
| "run_stmt (SConfirm cols code sid target start k) w = update_vouchers (\<lambda>r. vr_Code r = code \<and> vr_SessionId r = Some sid
       \<and> vr_TargetAddr r = Some target \<and> vr_StartTime r = Some start \<and> session_exact w k)
     (\<lambda>r. r\<lparr>vr_cleanup := cols\<rparr>) w"
| "run_stmt (SConsumeFinished target cols code sid start k) w = update_vouchers (\<lambda>r. vr_Code r = code \<and> vr_SessionId r = Some sid
       \<and> vr_TargetAddr r = None \<and> vr_StartTime r = Some start \<and> session_exact w k)
     (\<lambda>r. r\<lparr>vr_TargetAddr := Some target, vr_cleanup := cols\<rparr>) w"
| "run_stmt SReconcile w = update_vouchers (\<lambda>r. (case vr_SessionId r of None \<Rightarrow> False | Some sid \<Rightarrow> sid \<noteq> [] \<and> \<not> session_present w sid)
       \<and> vr_TargetAddr r = None \<and> (case vr_StartTime r of None \<Rightarrow> False | Some start \<Rightarrow> is_safe_integer start) \<and> vr_cleanup r = no_cleanup)
     (\<lambda>r. r\<lparr>vr_SessionId := None, vr_TargetAddr := None, vr_StartTime := None\<rparr>) w"
| "run_stmt (SInsert code amount) w = (if \<exists>r \<in> set (vw_rows w). vr_Code r = code then Inl UniqueViolation
     else Inr (1, w\<lparr>vw_rows := vw_rows w @ [\<lparr>vr_Code = code, vr_DropAmount = amount, vr_SessionId = None, vr_TargetAddr = None,
       vr_StartTime = None, vr_cleanup = no_cleanup\<rparr>]\<rparr>))"
| "run_stmt (SSession x) w = Inr (1, w\<lparr>vw_store := (snd (run_write x ((vw_store w)\<lparr>db_faults := []\<rparr>)))\<lparr>db_faults := db_faults (vw_store w)\<rparr>\<rparr>)"
| "run_stmt (SDelete c) w = Inr (1, w\<lparr>vw_store := (vw_store w)\<lparr>db_sessions := filter (\<lambda>r. \<not> exact_row c r) (db_sessions (vw_store w))\<rparr>\<rparr>)"

definition note_failed :: "voucher_world \<Rightarrow> voucher_world" where
  "note_failed w = w\<lparr>vw_failed := vw_failed w @ map sr_sessionId (filter (\<lambda>r. sr_status r = FAILED_SESSION) (db_sessions (vw_store w)))\<rparr>"

definition exec_stmt :: "voucher_stmt \<Rightarrow> voucher_world \<Rightarrow> voucher_world" where
  "exec_stmt s w = (case run_stmt s (note_failed w) of Inl e \<Rightarrow> note_failed w | Inr (n, w') \<Rightarrow> note_failed w')"

definition interfere :: "voucher_world \<Rightarrow> voucher_world" where
  "interfere w = (case vw_others w of [] \<Rightarrow> note_failed w | ss # rest \<Rightarrow> note_failed (fold exec_stmt ss (w\<lparr>vw_others := rest\<rparr>)))"

definition v_yield :: "unit voucher_op" where
  "v_yield w = (Inr (), interfere w)"

definition with_faults :: "db_fault list \<Rightarrow> voucher_world \<Rightarrow> voucher_world" where
  "with_faults fs w = w\<lparr>vw_store := (vw_store w)\<lparr>db_faults := fs\<rparr>\<rparr>"

definition v_read :: "(voucher_world \<Rightarrow> 'a) \<Rightarrow> 'a voucher_op" where
  "v_read q w = (let w1 = interfere w in case next_fault (vw_store w1) of
      (FOk, db) \<Rightarrow> (Inr (q (w1\<lparr>vw_store := db\<rparr>)), w1\<lparr>vw_store := db\<rparr>) | (_, db) \<Rightarrow> (Inl DriverError, w1\<lparr>vw_store := db\<rparr>))"

definition v_write :: "voucher_stmt \<Rightarrow> nat voucher_op" where
  "v_write s w = (let w1 = interfere w in case next_fault (vw_store w1) of
      (FFail, db) \<Rightarrow> (Inl DriverError, w1\<lparr>vw_store := db\<rparr>)
    | (f, db) \<Rightarrow> (case run_stmt s (w1\<lparr>vw_store := db\<rparr>) of
         Inl e \<Rightarrow> (Inl e, w1\<lparr>vw_store := db\<rparr>)
       | Inr (n, w2) \<Rightarrow> (if f = FOk then Inr n else Inl DriverError, note_failed w2)))"

subsection \<open>Reading vouchers\<close>

definition getVoucher :: "string \<Rightarrow> voucher option voucher_op" where
  "getVoucher code = p_bind (v_read (\<lambda>w. find (\<lambda>r. vr_Code r = code) (vw_rows w))) (\<lambda>row. case row of
     None \<Rightarrow> p_return None | Some r \<Rightarrow> p_bind (p_lift (voucherFromRow r)) (\<lambda>v. p_return (Some v)))"

definition snapshot_of :: "voucher_row \<Rightarrow> db_error + reservation_snapshot" where
  "snapshot_of r = (case decodeCleanupReceipt r of
      None \<Rightarrow> Inr SnapInvalid
    | Some rc \<Rightarrow> try_bind (voucherFromRow r) (\<lambda>v. Inr (if isValidReceiptVoucherPair v rc then SnapValid v rc else SnapInvalid)))"

definition getReservationSnapshot :: "string \<Rightarrow> reservation_snapshot voucher_op" where
  "getReservationSnapshot code = p_bind (v_read (\<lambda>w. find (\<lambda>r. vr_Code r = code) (vw_rows w))) (\<lambda>row. case row of
     None \<Rightarrow> p_return SnapMissing | Some r \<Rightarrow> p_lift (snapshot_of r))"

text \<open>At most two rows are read; a row without a code makes the result unusable.\<close>

definition getVoucherCodesForSession :: "string \<Rightarrow> string list option voucher_op" where
  "getVoucherCodesForSession sid = p_bind (v_read (\<lambda>w. take 2 (map vr_Code (filter (\<lambda>r. vr_SessionId r = Some sid) (vw_rows w)))))
     (\<lambda>codes. p_return (if \<forall>c \<in> set codes. c \<noteq> [] then Some codes else None))"

definition hasPersistedSession :: "string \<Rightarrow> bool voucher_op" where
  "hasPersistedSession sid = v_read (\<lambda>w. session_present w sid)"

definition failed_snapshot :: "voucher_env \<Rightarrow> session_row \<Rightarrow> (voucher_binding \<times> claim_snapshot \<times> cleanup_candidate) option" where
  "failed_snapshot env r =
     (case (decodeCleanupClaimData env FAILED_SESSION (sr_claim r), decodePersistedVoucherBinding env (sr_targetAddr r) (sr_data r)) of
       (Some cs, Some b) \<Rightarrow> Some (b, cs, \<lparr>cd_sessionId = sr_sessionId r, cd_status = FAILED_SESSION, cd_startTime = sr_startTime r,
         cd_targetAddr = vb_targetAddr b, cd_dataJson = vb_dataJson b, cd_claimDataJson = cs_claimDataJson cs, cd_claim = cs_claim cs\<rparr>)
     | _ \<Rightarrow> None)"

definition getFailedSessionReservationSnapshot ::
  "voucher_env \<Rightarrow> string \<Rightarrow> int \<Rightarrow> (voucher_binding \<times> claim_snapshot \<times> cleanup_candidate) option voucher_op" where
  "getFailedSessionReservationSnapshot env sid start =
     p_bind (v_read (\<lambda>w. find (\<lambda>r. sr_sessionId r = sid \<and> sr_status r = FAILED_SESSION \<and> sr_startTime r = start) (db_sessions (vw_store w))))
       (\<lambda>row. p_return (case row of None \<Rightarrow> None | Some r \<Rightarrow> failed_snapshot env r))"

subsection \<open>Writes and what they left\<close>

definition v_try :: "'a voucher_op \<Rightarrow> (db_error + 'a) voucher_op" where
  "v_try m = p_catch (p_bind m (\<lambda>a. p_return (Inr a))) (\<lambda>e. p_return (Inl e))"

text \<open>What follows a write: its count decides, else the row is read; a second error is reported
  together with the first (\<^verbatim>\<open>AggregateError\<close>).\<close>

definition reconcile_write :: "string \<Rightarrow> string \<Rightarrow> bool voucher_op \<Rightarrow> db_error + nat \<Rightarrow> (db_error + bool) voucher_op" where
  "reconcile_write too_many aggregate post outcome =
     (if (case outcome of Inr n \<Rightarrow> n > 1 | Inl _ \<Rightarrow> False) then p_throw (DbError too_many)
      else if outcome = Inr 1 then p_return (Inr True)
      else p_bind (p_catch post (\<lambda>e. case outcome of Inl _ \<Rightarrow> p_throw (DbError aggregate) | Inr _ \<Rightarrow> p_throw e))
        (\<lambda>found. p_return (if found then Inr True else case outcome of Inl e \<Rightarrow> Inl e | Inr _ \<Rightarrow> Inr False)))"

fun runReservationCas :: "voucher_env \<Rightarrow> string \<Rightarrow> string \<Rightarrow> int \<Rightarrow> voucher_stmt \<Rightarrow> nat \<Rightarrow> bool voucher_op" where
  "runReservationCas env code sid start update 0 = p_return False"
| "runReservationCas env code sid start update (Suc more') =
     p_bind (v_try (v_write update)) (\<lambda>outcome.
     p_bind (reconcile_write ''Voucher reservation changed more than one row.''
         ''Voucher reservation failed and persisted state could not be reconciled.''
         (p_bind (getReservationSnapshot code) (\<lambda>snap. p_return (isExactLeaseReservation snap code sid start))) outcome) (\<lambda>res.
       case res of
         Inr b \<Rightarrow> p_return b
       | Inl e \<Rightarrow> if more' = 1 \<and> ve_deadlock env e then runReservationCas env code sid start update more' else p_throw e))"

definition runStateTransition :: "voucher_stmt \<Rightarrow> bool voucher_op \<Rightarrow> bool voucher_op" where
  "runStateTransition update hasExactPostState =
     p_bind (v_try (v_write update)) (\<lambda>outcome.
     p_bind (reconcile_write ''Voucher state transition changed more than one row.''
         ''Voucher state transition failed and persisted state could not be reconciled.'' hasExactPostState outcome) p_lift)"

definition insertVoucher :: "string \<Rightarrow> string \<Rightarrow> unit voucher_op" where
  "insertVoucher code amount = p_bind (v_try (v_write (SInsert code amount))) (\<lambda>outcome. case outcome of
      Inr _ \<Rightarrow> p_return ()
    | Inl e \<Rightarrow> p_bind (p_catch (v_read (\<lambda>w. \<exists>r \<in> set (vw_rows w). vr_Code r = code))
          (\<lambda>_. p_throw (DbError ''Voucher insert failed and collision status could not be checked.'')))
        (\<lambda>existing. p_throw (if existing then DbError ''Voucher code already exists.'' else e)))"

subsection \<open>Leases\<close>

definition releaseLease :: "string \<Rightarrow> string \<Rightarrow> bool voucher_op" where
  "releaseLease code sid = p_bind (getReservationSnapshot code) (\<lambda>snap. case snap of
      SnapValid v NoReceipt \<Rightarrow> (case vo_hold v of
          Leased owner start \<Rightarrow> if owner \<noteq> sid then p_return False
            else runStateTransition (SRelease code sid start) (p_bind (getReservationSnapshot code) (\<lambda>current. p_return (
              current = SnapValid (v\<lparr>vo_hold := Available\<rparr>) NoReceipt)))
        | _ \<Rightarrow> p_return False)
    | _ \<Rightarrow> p_return False)"

definition consumeLease :: "string \<Rightarrow> string \<Rightarrow> string \<Rightarrow> bool voucher_op" where
  "consumeLease code sid target =
     (if \<not> is_valid_target target then p_return False
      else p_bind (getReservationSnapshot code) (\<lambda>snap. case snap of
        SnapValid v NoReceipt \<Rightarrow> (case vo_hold v of
            Consumed owner start t \<Rightarrow> p_return (owner = sid \<and> t = target)
          | Leased owner start \<Rightarrow> if owner \<noteq> sid then p_return False
              else runStateTransition (SConsume target code sid start) (p_bind (getReservationSnapshot code) (\<lambda>current. p_return (
                current = SnapValid (v\<lparr>vo_hold := Consumed sid start target\<rparr>) NoReceipt)))
          | Available \<Rightarrow> p_return False)
      | _ \<Rightarrow> p_return False))"

definition releaseVoucher :: "string \<Rightarrow> string \<Rightarrow> bool voucher_op" where
  "releaseVoucher = releaseLease"

definition consumeVoucher :: "string \<Rightarrow> string \<Rightarrow> string \<Rightarrow> bool voucher_op" where
  "consumeVoucher = consumeLease"

definition reconcileOrphanedLeases :: "nat voucher_op" where
  "reconcileOrphanedLeases = v_write SReconcile"

subsection \<open>Cleanup of finished and failed sessions\<close>

definition isValidCleanupReceiptReplay ::
  "voucher \<Rightarrow> receipt_kind \<Rightarrow> cleanup_candidate \<Rightarrow> voucher_binding \<Rightarrow> string \<Rightarrow> claim_snapshot \<Rightarrow> voucher_state \<Rightarrow> bool voucher_op" where
  "isValidCleanupReceiptReplay v rc c b code cs expected =
     (if rc = NoReceipt \<or> \<not> isValidReceiptVoucherPair v rc \<or> \<not> matchesCleanupReceipt rc code c b cs expected then p_return False
      else p_bind (getVoucherCodesForSession (cd_sessionId c)) (\<lambda>owned. case owned of
          None \<Rightarrow> p_return False
        | Some codes \<Rightarrow> p_return (
            if cd_status c = FAILED_SESSION then vo_hold v = Available \<and> codes = []
            else vo_hold v = Consumed (cd_sessionId c) (cd_startTime c) (vb_targetAddr b) \<and> codes = [code])))"

text \<open>The three writes of a cleanup are followed by the same check of the row.\<close>

definition settle_receipt ::
  "voucher_stmt \<Rightarrow> voucher \<Rightarrow> cleanup_candidate \<Rightarrow> voucher_binding \<Rightarrow> string \<Rightarrow> claim_snapshot \<Rightarrow> bool voucher_op" where
  "settle_receipt update v c b code cs = p_bind (v_write update) (\<lambda>_.
     p_bind (getReservationSnapshot (vo_code v)) (\<lambda>snap. case snap of
       SnapValid current rc \<Rightarrow> isValidCleanupReceiptReplay current rc c b code cs (hold_state (vo_hold v))
     | _ \<Rightarrow> p_return False))"

definition releaseFailedReservation ::
  "voucher \<Rightarrow> cleanup_candidate \<Rightarrow> voucher_binding \<Rightarrow> string \<Rightarrow> claim_snapshot \<Rightarrow> bool voucher_op" where
  "releaseFailedReservation v c b code cs =
     (let cols = receipt_columns (vo_code v) c b cs (hold_state (vo_hold v)); k = session_key_of c b cs in
      case vo_hold v of
        Leased owner start \<Rightarrow> settle_receipt (SFree cols (vo_code v) owner None start k) v c b code cs
      | Consumed owner start target \<Rightarrow> settle_receipt (SFree cols (vo_code v) owner (Some target) start k) v c b code cs
      | Available \<Rightarrow> p_return False)"

definition confirmFinishedReservation ::
  "voucher \<Rightarrow> cleanup_candidate \<Rightarrow> voucher_binding \<Rightarrow> string \<Rightarrow> claim_snapshot \<Rightarrow> bool voucher_op" where
  "confirmFinishedReservation v c b code cs = (case vo_hold v of
      Consumed owner start target \<Rightarrow>
        if target \<noteq> vb_targetAddr b then p_return False
        else settle_receipt (SConfirm (receipt_columns (vo_code v) c b cs CONSUMED) (vo_code v) owner target start (session_key_of c b cs)) v c b code cs
    | _ \<Rightarrow> p_return False)"

definition consumeFinishedReservation ::
  "voucher \<Rightarrow> cleanup_candidate \<Rightarrow> voucher_binding \<Rightarrow> string \<Rightarrow> claim_snapshot \<Rightarrow> bool voucher_op" where
  "consumeFinishedReservation v c b code cs = (case vo_hold v of
      Leased owner start \<Rightarrow> settle_receipt (SConsumeFinished (vb_targetAddr b) (receipt_columns (vo_code v) c b cs LEASED)
          (vo_code v) owner start (session_key_of c b cs)) v c b code cs
    | _ \<Rightarrow> confirmFinishedReservation v c b code cs)"

definition prepare_owned ::
  "string \<Rightarrow> cleanup_candidate \<Rightarrow> voucher_binding \<Rightarrow> claim_snapshot \<Rightarrow> voucher \<Rightarrow> bool voucher_op" where
  "prepare_owned code c b cs v = p_bind (getVoucherCodesForSession (cd_sessionId c)) (\<lambda>owned.
     if owned \<noteq> Some [code] \<or> (case vo_hold v of
          Available \<Rightarrow> True
        | Leased owner start \<Rightarrow> owner \<noteq> cd_sessionId c \<or> start \<noteq> cd_startTime c
        | Consumed owner start target \<Rightarrow> owner \<noteq> cd_sessionId c \<or> start \<noteq> cd_startTime c \<or> target \<noteq> vb_targetAddr b)
     then p_return False
     else if cd_status c = FAILED_SESSION then releaseFailedReservation v c b code cs
     else consumeFinishedReservation v c b code cs)"

definition owns_none :: "string \<Rightarrow> bool voucher_op" where
  "owns_none sid = p_bind (getVoucherCodesForSession sid) (\<lambda>owned. p_return (owned = Some []))"

definition prepareSessionCleanup :: "voucher_env \<Rightarrow> cleanup_candidate \<Rightarrow> bool voucher_op" where
  "prepareSessionCleanup env c =
     (if cd_status c \<noteq> FAILED_SESSION \<and> cd_status c \<noteq> FINISHED then p_return True
      else p_bind (v_read (\<lambda>_. ve_schemaVersion env)) (\<lambda>schema. case schema of
        None \<Rightarrow> p_return True
      | Some version \<Rightarrow>
          (case (decodePersistedVoucherBinding env (cd_targetAddr c) (cd_dataJson c),
                 decodeCleanupClaimData env (cd_status c) (cd_claimDataJson c)) of
            (Some b, Some cs) \<Rightarrow>
              if \<not> is_safe_integer version \<or> version < 1 then p_return False
              else if version = 1 then (if vb_voucherCode b \<noteq> None then p_return False else owns_none (cd_sessionId c))
              else if version < 3 then p_return False
              else (case vb_voucherCode b of
                None \<Rightarrow> owns_none (cd_sessionId c)
              | Some code \<Rightarrow> p_bind (getReservationSnapshot code) (\<lambda>snap. case snap of
                    SnapValid v (HasReceipt re) \<Rightarrow> isValidCleanupReceiptReplay v (HasReceipt re) c b code cs (re_expectedState re)
                  | SnapValid v NoReceipt \<Rightarrow> prepare_owned code c b cs v
                  | _ \<Rightarrow> p_return False))
          | _ \<Rightarrow> p_return False)))"

abbreviation on_store :: "'a db_op \<Rightarrow> 'a voucher_op" where
  "on_store m \<equiv> p_zoom vw_store (\<lambda>db w. w\<lparr>vw_store := db\<rparr>) m"

text \<open>\<^verbatim>\<open>FaucetDatabase.cleanupSessionCandidate\<close> with the guards that are registered: this module's
  and the others.\<close>

definition voucher_guards :: "voucher_env \<Rightarrow> cleanup_candidate \<Rightarrow> bool voucher_op" where
  "voucher_guards env c = p_bind (prepareSessionCleanup env c) (\<lambda>ok. if ok then on_store (ve_guard env c) else p_return False)"

definition cleanup_session :: "voucher_env \<Rightarrow> cleanup_candidate \<Rightarrow> bool voucher_op" where
  "cleanup_session env c =
     (if cd_status c \<noteq> FINISHED \<and> cd_status c \<noteq> FAILED_SESSION then p_return False
      else if cd_sessionId c = [] \<or> \<not> is_safe_integer (cd_startTime c)
         \<or> hasUnresolvedClaimLiability (cd_status c) (cd_claimDataJson c) then p_return False
      else let exact = c\<lparr>cd_claim := (case cd_claimDataJson c of Some (JsonText v) \<Rightarrow> claim_of_json v | _ \<Rightarrow> None)\<rparr> in
        p_bind (voucher_guards env exact) (\<lambda>ok. if ok then p_then v_yield (on_store (delete_candidate exact)) else p_return False))"

subsection \<open>Reserving\<close>

definition finishFailedReceiptCleanup :: "voucher_env \<Rightarrow> voucher \<Rightarrow> cleanup_receipt \<Rightarrow> bool voucher_op" where
  "finishFailedReceiptCleanup env v re =
     (if re_status re \<noteq> FAILED_SESSION then p_return False
      else p_bind (getFailedSessionReservationSnapshot env (re_sessionId re) (re_startTime re)) (\<lambda>failed. case failed of
          None \<Rightarrow> p_bind (hasPersistedSession (re_sessionId re)) (\<lambda>present. p_return (\<not> present))
        | Some (b, cs, c) \<Rightarrow>
            if vb_voucherCode b \<noteq> Some (vo_code v) then p_return False
            else p_bind (isValidCleanupReceiptReplay v (HasReceipt re) c b (vo_code v) cs (re_expectedState re))
              (\<lambda>ok. if ok then cleanup_session env c else p_return False)))"

definition reserve_available :: "voucher_env \<Rightarrow> string \<Rightarrow> int \<Rightarrow> voucher \<Rightarrow> receipt_kind \<Rightarrow> bool voucher_op" where
  "reserve_available env sid start v rc =
     p_bind (case rc of
         NoReceipt \<Rightarrow> p_return True
       | HasReceipt re \<Rightarrow> p_bind (getVoucherCodesForSession (re_sessionId re)) (\<lambda>owned.
           if re_status re \<noteq> FAILED_SESSION \<or> owned \<noteq> Some [] then p_return False
           else finishFailedReceiptCleanup env v re))
       (\<lambda>ok. if \<not> ok then p_return False
         else runReservationCas env (vo_code v) sid start (SLease (vo_code v) sid start (columns_of_receipt rc)) 2)"

text \<open>The voucher of a failed session is freed, its session cleaned up.\<close>

definition reclaim_failed :: "voucher_env \<Rightarrow> voucher \<Rightarrow> string \<Rightarrow> int \<Rightarrow> string option \<Rightarrow> bool voucher_op" where
  "reclaim_failed env v owner ownerStart ownerTarget =
     p_bind (getFailedSessionReservationSnapshot env owner ownerStart) (\<lambda>failed. case failed of
       None \<Rightarrow> p_return False
     | Some (b, cs, c) \<Rightarrow>
         if vb_voucherCode b \<noteq> Some (vo_code v) \<or> (ownerTarget \<noteq> None \<and> ownerTarget \<noteq> Some (vb_targetAddr b)) then p_return False
         else p_bind (getVoucherCodesForSession owner) (\<lambda>owned.
           if owned \<noteq> Some [vo_code v] then p_return False
           else p_bind (releaseFailedReservation v c b (vo_code v) cs) (\<lambda>ok.
             if ok then cleanup_session env c else p_return False)))"

text \<open>\<^verbatim>\<open>again\<close> is the call of the method on itself after the reclaim.\<close>

definition reserve_owned :: "bool voucher_op \<Rightarrow> voucher_env \<Rightarrow> string \<Rightarrow> int \<Rightarrow> voucher \<Rightarrow> receipt_kind \<Rightarrow> bool voucher_op" where
  "reserve_owned again env sid start v rc = (case vo_hold v of
      Available \<Rightarrow> reserve_available env sid start v rc
    | Leased owner ownerStart \<Rightarrow>
        if rc \<noteq> NoReceipt then p_return False
        else p_bind (reclaim_failed env v owner ownerStart None) (\<lambda>ok. if ok then again else p_return False)
    | Consumed owner ownerStart target \<Rightarrow>
        if rc \<noteq> NoReceipt then p_return False
        else p_bind (reclaim_failed env v owner ownerStart (Some target)) (\<lambda>ok. if ok then again else p_return False))"

definition reserve_snapshot ::
  "bool voucher_op \<Rightarrow> voucher_env \<Rightarrow> string \<Rightarrow> string \<Rightarrow> int \<Rightarrow> reservation_snapshot \<Rightarrow> bool voucher_op" where
  "reserve_snapshot again env code sid start snap =
     (if isExactLeaseReservation snap code sid start then p_return True
      else case snap of
        SnapValid v rc \<Rightarrow>
          if vo_code v \<noteq> code then p_return False
          else p_bind (getVoucherCodesForSession sid) (\<lambda>requested.
            if requested \<noteq> Some [] then p_return False
            else p_bind (hasPersistedSession sid) (\<lambda>present.
              if present then p_return False else reserve_owned again env sid start v rc))
      | _ \<Rightarrow> p_return False)"

text \<open>The recursion, with \<^verbatim>\<open>z\<close> at its depth limit.\<close>

primrec reserve_from :: "bool voucher_op \<Rightarrow> nat \<Rightarrow> voucher_env \<Rightarrow> string \<Rightarrow> string \<Rightarrow> int \<Rightarrow> bool voucher_op" where
  "reserve_from z 0 env code sid start = z"
| "reserve_from z (Suc fuel) env code sid start =
     (if \<not> isValidOwner sid \<or> \<not> is_safe_integer start then p_return False
      else p_bind (getReservationSnapshot code) (reserve_snapshot (reserve_from z fuel env code sid start) env code sid start))"

definition reserveVoucher :: "nat \<Rightarrow> voucher_env \<Rightarrow> string \<Rightarrow> string \<Rightarrow> int \<Rightarrow> bool voucher_op" where
  "reserveVoucher = reserve_from (p_throw (DbError ''out of fuel''))"

end
