(* ===== verification/Voucher_Rules.thy ===== *)
theory Voucher_Rules
  imports Voucher_DB
begin

text \<open>
  Proof rules for the operations of \<^verbatim>\<open>VoucherDB\<close>.  The interface \<^verbatim>\<open>voucher_invariant\<close> is what a
  predicate must satisfy to survive every statement of the cleanup, whatever runs between the
  statements; \<^verbatim>\<open>voucher_invariant_all\<close> adds the statements of the other operations.  Inside it
  every operation is proved once.
\<close>

definition kept_by :: "(voucher_world \<Rightarrow> bool) \<Rightarrow> 'a voucher_op \<Rightarrow> ('a \<Rightarrow> bool) \<Rightarrow> bool" where
  "kept_by J m P \<longleftrightarrow> (\<forall>w. J w \<longrightarrow> wp m (\<lambda>a w'. J w' \<and> P a) (\<lambda>_. J) w)"

abbreviation keeps_J :: "(voucher_world \<Rightarrow> bool) \<Rightarrow> 'a voucher_op \<Rightarrow> bool" where
  "keeps_J J m \<equiv> kept_by J m (\<lambda>_. True)"

named_theorems vkeeps

lemma kept_return: "P a \<Longrightarrow> kept_by J (p_return a) P"
  by (simp add: kept_by_def wp_simps)

lemma kept_simple [vkeeps]: "keeps_J J (p_return a)" "keeps_J J (p_throw e)" "keeps_J J (p_lift r)"
  by (auto simp: kept_by_def wp_simps split: sum.split)

lemma kept_bind:
  assumes "kept_by J m P" "\<And>a. P a \<Longrightarrow> kept_by J (f a) R"
  shows "kept_by J (p_bind m f) R"
  unfolding kept_by_def wp_bind
proof (intro allI impI)
  fix w assume "J w"
  hence m: "wp m (\<lambda>a w'. J w' \<and> P a) (\<lambda>_. J) w" using assms(1) by (simp add: kept_by_def)
  show "wp m (\<lambda>a. wp (f a) (\<lambda>a w'. J w' \<and> R a) (\<lambda>_. J)) (\<lambda>_. J) w"
    by (rule wp_mono[OF m]) (use assms(2) in \<open>auto simp: kept_by_def\<close>)
qed

lemma vkeeps_bind [vkeeps]: "keeps_J J m \<Longrightarrow> (\<And>a. keeps_J J (f a)) \<Longrightarrow> keeps_J J (p_bind m f)"
  by (rule kept_bind) simp_all

lemma vkeeps_then [vkeeps]: "keeps_J J m \<Longrightarrow> keeps_J J n \<Longrightarrow> keeps_J J (p_then m n)"
  unfolding p_then_def by (rule vkeeps_bind)

lemma vkeeps_catch [vkeeps]:
  assumes "keeps_J J m" "\<And>e. keeps_J J (h e)"
  shows "keeps_J J (p_catch m h)"
  unfolding kept_by_def wp_catch
proof (intro allI impI)
  fix w assume "J w"
  hence m: "wp m (\<lambda>a w'. J w' \<and> True) (\<lambda>_. J) w" using assms(1) by (simp add: kept_by_def)
  show "wp m (\<lambda>a w'. J w' \<and> True) (\<lambda>e. wp (h e) (\<lambda>a w'. J w' \<and> True) (\<lambda>_. J)) w"
    by (rule wp_mono[OF m]) (use assms(2) in \<open>auto simp: kept_by_def\<close>)
qed

lemma vkeeps_try [vkeeps]: "keeps_J J m \<Longrightarrow> keeps_J J (v_try m)"
  unfolding v_try_def by (intro vkeeps)

lemma kept_weaken: "kept_by J m P \<Longrightarrow> keeps_J J m"
  unfolding kept_by_def by (blast intro: wp_mono)

lemma keeps_reconcile [vkeeps]: "keeps_J J post \<Longrightarrow> keeps_J J (reconcile_write a b post outcome)"
  unfolding reconcile_write_def by (auto intro!: vkeeps split: sum.split)

lemma keeps_snd: "keeps_J J m \<Longrightarrow> J w \<Longrightarrow> J (snd (m w))"
  unfolding kept_by_def by (intro wp_snd[of m J]) simp

text \<open>A statement frees a voucher only for a failed session that holds it.\<close>

fun stmt_ok :: "voucher_stmt \<Rightarrow> bool" where
  "stmt_ok (SFree cols code sid target start k) = (sk_status k = FAILED_SESSION \<and> sk_sessionId k = sid)"
| "stmt_ok _ = True"

fun cleanup_stmt :: "voucher_stmt \<Rightarrow> bool" where
  "cleanup_stmt (SFree _ _ _ _ _ _) = True"
| "cleanup_stmt (SConfirm _ _ _ _ _ _) = True"
| "cleanup_stmt (SConsumeFinished _ _ _ _ _ _) = True"
| "cleanup_stmt _ = False"

definition frees :: "voucher \<Rightarrow> cleanup_candidate \<Rightarrow> bool" where
  "frees v c \<longleftrightarrow> cd_status c = FAILED_SESSION \<and> (case vo_hold v of
     Available \<Rightarrow> True | Leased owner _ \<Rightarrow> owner = cd_sessionId c | Consumed owner _ _ \<Rightarrow> owner = cd_sessionId c)"

definition failed_of :: "string \<Rightarrow> (voucher_binding \<times> claim_snapshot \<times> cleanup_candidate) option \<Rightarrow> bool" where
  "failed_of sid f \<longleftrightarrow> (\<forall>b cs c. f = Some (b, cs, c) \<longrightarrow> cd_sessionId c = sid \<and> cd_status c = FAILED_SESSION)"

subsection \<open>The cleanup\<close>

locale voucher_invariant =
  fixes J :: "voucher_world \<Rightarrow> bool"
  assumes J_interfere: "J w \<Longrightarrow> J (interfere w)"
    and J_store: "J w \<Longrightarrow> J (w\<lparr>vw_store := db\<rparr>)"
    and J_cleanup: "J w \<Longrightarrow> cleanup_stmt s \<Longrightarrow> stmt_ok s \<Longrightarrow> run_stmt s w = Inr (n, w') \<Longrightarrow> J (note_failed w')"
begin

lemma wp_read:
  assumes "J w" "\<And>w1. J w1 \<Longrightarrow> Q (q w1) w1" "\<And>w1. J w1 \<Longrightarrow> E DriverError w1"
  shows "wp (v_read q) Q E w"
  using assms J_interfere J_store by (auto simp: wp_def v_read_def Let_def split: prod.split db_fault.split)

lemma kept_read: "(\<And>w. P (q w)) \<Longrightarrow> kept_by J (v_read q) P"
  unfolding kept_by_def by (intro allI impI wp_read) auto

lemma keeps_read [vkeeps]: "keeps_J J (v_read q)"
  by (rule kept_read) simp

lemma keeps_write_if:
  assumes "\<And>w n w'. J w \<Longrightarrow> run_stmt s w = Inr (n, w') \<Longrightarrow> J (note_failed w')"
  shows "keeps_J J (v_write s)"
proof -
  have "J w \<Longrightarrow> run_stmt s ((interfere w)\<lparr>vw_store := db\<rparr>) = Inr (n, w') \<Longrightarrow> J (note_failed w')" for w db n w'
    using assms J_store[OF J_interfere] by blast
  thus ?thesis using J_interfere J_store
    by (auto simp: kept_by_def wp_def v_write_def Let_def split: prod.split db_fault.split sum.split)
qed

lemma keeps_write_cleanup [vkeeps]: "cleanup_stmt s \<Longrightarrow> stmt_ok s \<Longrightarrow> keeps_J J (v_write s)"
  using J_cleanup by (intro keeps_write_if)

lemma keeps_yield [vkeeps]: "keeps_J J v_yield"
  using J_interfere by (simp add: kept_by_def wp_def v_yield_def)

lemma keeps_on_store [vkeeps]: "keeps_J J (on_store m)"
  using J_store by (auto simp: kept_by_def wp_zoom wp_def split: prod.splits sum.splits)

lemma keeps_snapshot [vkeeps]: "keeps_J J (getReservationSnapshot code)"
  unfolding getReservationSnapshot_def by (intro vkeeps) (auto intro: vkeeps split: option.split)

lemma keeps_codes [vkeeps]: "keeps_J J (getVoucherCodesForSession sid)" "keeps_J J (hasPersistedSession sid)" "keeps_J J (owns_none sid)"
  unfolding owns_none_def getVoucherCodesForSession_def hasPersistedSession_def by (intro vkeeps)+

lemma keeps_replay [vkeeps]: "keeps_J J (isValidCleanupReceiptReplay v rc c b code cs expected)"
  unfolding isValidCleanupReceiptReplay_def by (auto intro!: vkeeps split: option.split)

lemma keeps_settle [vkeeps]: "cleanup_stmt s \<Longrightarrow> stmt_ok s \<Longrightarrow> keeps_J J (settle_receipt s v c b code cs)"
  unfolding settle_receipt_def by (auto intro!: vkeeps split: reservation_snapshot.split)

lemma keeps_free [vkeeps]: "frees v c \<Longrightarrow> keeps_J J (releaseFailedReservation v c b code cs)"
  unfolding releaseFailedReservation_def Let_def frees_def
  by (cases "vo_hold v") (auto intro!: vkeeps simp: session_key_of_def)

lemma keeps_confirm [vkeeps]: "keeps_J J (confirmFinishedReservation v c b code cs)" "keeps_J J (consumeFinishedReservation v c b code cs)"
  unfolding consumeFinishedReservation_def confirmFinishedReservation_def by (auto intro!: vkeeps split: voucher_hold.split)

lemma keeps_owned [vkeeps]: "keeps_J J (prepare_owned code c b cs v)"
  unfolding prepare_owned_def by (intro vkeeps) (auto intro!: vkeeps simp: frees_def split: voucher_hold.split)

lemma keeps_prepare [vkeeps]: "keeps_J J (prepareSessionCleanup env c)"
proof -
  have "keeps_J J (case snap of
      SnapValid v (HasReceipt re) \<Rightarrow> isValidCleanupReceiptReplay v (HasReceipt re) c b code cs (re_expectedState re)
    | SnapValid v NoReceipt \<Rightarrow> prepare_owned code c b cs v | _ \<Rightarrow> p_return False)" for snap b code cs
    by (auto intro!: vkeeps split: reservation_snapshot.split receipt_kind.split)
  hence "keeps_J J (p_bind (getReservationSnapshot code) (\<lambda>snap. case snap of
      SnapValid v (HasReceipt re) \<Rightarrow> isValidCleanupReceiptReplay v (HasReceipt re) c b code cs (re_expectedState re)
    | SnapValid v NoReceipt \<Rightarrow> prepare_owned code c b cs v | _ \<Rightarrow> p_return False))" for code b cs
    by (intro vkeeps_bind keeps_snapshot)
  thus ?thesis unfolding prepareSessionCleanup_def by (auto intro!: vkeeps split: option.split)
qed

lemma keeps_cleanup [vkeeps]: "keeps_J J (cleanup_session env c)"
  unfolding cleanup_session_def voucher_guards_def Let_def by (auto intro!: vkeeps)

lemma kept_failed: "kept_by J (getFailedSessionReservationSnapshot env sid start) (failed_of sid)"
  unfolding getFailedSessionReservationSnapshot_def
proof (rule kept_bind)
  let ?q = "\<lambda>w. find (\<lambda>r. sr_sessionId r = sid \<and> sr_status r = FAILED_SESSION \<and> sr_startTime r = start) (db_sessions (vw_store w))"
  show "kept_by J (v_read ?q) (\<lambda>row. \<forall>r. row = Some r \<longrightarrow> sr_sessionId r = sid)"
    by (rule kept_read) (auto simp: find_Some_iff)
qed (auto intro!: kept_return simp: failed_of_def failed_snapshot_def split: option.splits)

lemma keeps_failed [vkeeps]: "keeps_J J (getFailedSessionReservationSnapshot env sid start)"
  using kept_failed by (rule kept_weaken)

lemma keeps_finish [vkeeps]: "keeps_J J (finishFailedReceiptCleanup env v re)"
  unfolding finishFailedReceiptCleanup_def by (auto intro!: vkeeps split: option.split)

lemma keeps_reclaim [vkeeps]:
  assumes "case vo_hold v of Available \<Rightarrow> False | Leased o' _ \<Rightarrow> o' = owner | Consumed o' _ _ \<Rightarrow> o' = owner"
  shows "keeps_J J (reclaim_failed env v owner start target)"
  unfolding reclaim_failed_def
proof (rule kept_bind[OF kept_failed])
  fix f assume f: "failed_of owner f"
  have "frees v c" if "f = Some (b, cs, c)" for b cs c
    using assms f that by (auto simp: frees_def failed_of_def split: voucher_hold.splits)
  thus "keeps_J J (case f of None \<Rightarrow> p_return False | Some (b, cs, c) \<Rightarrow>
      if vb_voucherCode b \<noteq> Some (vo_code v) \<or> (target \<noteq> None \<and> target \<noteq> Some (vb_targetAddr b)) then p_return False
      else p_bind (getVoucherCodesForSession owner) (\<lambda>owned.
        if owned \<noteq> Some [vo_code v] then p_return False
        else p_bind (releaseFailedReservation v c b (vo_code v) cs) (\<lambda>ok. if ok then cleanup_session env c else p_return False)))"
    by (cases f) (auto intro!: vkeeps)
qed

end

subsection \<open>The other operations\<close>

locale voucher_invariant_all = voucher_invariant +
  assumes J_stmt: "J w \<Longrightarrow> stmt_ok s \<Longrightarrow> run_stmt s w = Inr (n, w') \<Longrightarrow> J (note_failed w')"
begin

lemma keeps_write [vkeeps]: "stmt_ok s \<Longrightarrow> keeps_J J (v_write s)"
  using J_stmt by (intro keeps_write_if)

lemma keeps_transition [vkeeps]: "stmt_ok s \<Longrightarrow> keeps_J J post \<Longrightarrow> keeps_J J (runStateTransition s post)"
  unfolding runStateTransition_def by (intro vkeeps)

lemma keeps_cas [vkeeps]: "stmt_ok s \<Longrightarrow> keeps_J J (runReservationCas env code sid start s n)"
  by (induction n) (auto intro!: vkeeps split: sum.split)

lemma keeps_insert [vkeeps]: "keeps_J J (insertVoucher code amount)"
  unfolding insertVoucher_def by (intro vkeeps) (auto intro!: vkeeps split: sum.split)

lemma vkeeps_get [vkeeps]: "keeps_J J (getVoucher code)"
  unfolding getVoucher_def by (intro vkeeps) (auto intro!: vkeeps split: option.split)

lemma keeps_release [vkeeps]: "keeps_J J (releaseLease code sid)"
  unfolding releaseLease_def
  by (intro vkeeps) (auto intro!: vkeeps split: reservation_snapshot.split receipt_kind.split voucher_hold.split)

lemma keeps_consume [vkeeps]: "keeps_J J (consumeLease code sid target)"
  unfolding consumeLease_def
  by (auto intro!: vkeeps split: reservation_snapshot.split receipt_kind.split voucher_hold.split)

lemma keeps_orphans [vkeeps]: "keeps_J J reconcileOrphanedLeases"
  unfolding reconcileOrphanedLeases_def by (intro vkeeps) simp

lemma keeps_reserve_available [vkeeps]: "keeps_J J (reserve_available env sid start v rc)"
  unfolding reserve_available_def by (auto intro!: vkeeps split: receipt_kind.split)

lemma keeps_reserve_owned [vkeeps]: "keeps_J J again \<Longrightarrow> keeps_J J (reserve_owned again env sid start v rc)"
  unfolding reserve_owned_def by (auto intro!: vkeeps split: voucher_hold.split)

lemma keeps_reserve_snapshot [vkeeps]: "keeps_J J again \<Longrightarrow> keeps_J J (reserve_snapshot again env code sid start snap)"
  unfolding reserve_snapshot_def by (auto intro!: vkeeps split: reservation_snapshot.split)

lemma keeps_reserve [vkeeps]: "keeps_J J (reserveVoucher fuel env code sid start)"
  unfolding reserveVoucher_def by (induction fuel) (auto intro!: vkeeps)

end

end
