(* ===== verification/Voucher_Safety.thy ===== *)
theory Voucher_Safety
  imports Voucher_Rules
begin

text \<open>
  A voucher pays one session.  Every statement, and so every operation under every
  interleaving, keeps codes unique, lets no session hold two vouchers, and takes a consumed
  voucher only from a session that failed.
\<close>

subsection \<open>What every statement keeps\<close>

definition owner_unique :: "voucher_row list \<Rightarrow> bool" where
  "owner_unique rs \<longleftrightarrow> (\<forall>r1 \<in> set rs. \<forall>r2 \<in> set rs. vr_SessionId r1 \<noteq> None \<longrightarrow> vr_SessionId r1 = vr_SessionId r2 \<longrightarrow> vr_Code r1 = vr_Code r2)"

definition v_inv :: "voucher_world \<Rightarrow> bool" where
  "v_inv w \<longleftrightarrow> distinct (map vr_Code (vw_rows w)) \<and> owner_unique (vw_rows w) \<and> (\<forall>ss \<in> set (vw_others w). \<forall>s \<in> set ss. stmt_ok s)"

lemma owner_uniqueI:
  "(\<And>r1 r2 s. r1 \<in> set rs \<Longrightarrow> r2 \<in> set rs \<Longrightarrow> vr_SessionId r1 = Some s \<Longrightarrow> vr_SessionId r2 = Some s \<Longrightarrow> vr_Code r1 = vr_Code r2) \<Longrightarrow> owner_unique rs"
  unfolding owner_unique_def by (metis not_None_eq)

lemma owner_uniqueD:
  "owner_unique rs \<Longrightarrow> r1 \<in> set rs \<Longrightarrow> r2 \<in> set rs \<Longrightarrow> vr_SessionId r1 = Some s \<Longrightarrow> vr_SessionId r2 = Some s \<Longrightarrow> vr_Code r1 = vr_Code r2"
  unfolding owner_unique_def by (metis option.distinct(1))

lemma v_inv_owner: "v_inv w \<Longrightarrow> r1 \<in> set (vw_rows w) \<Longrightarrow> r2 \<in> set (vw_rows w) \<Longrightarrow>
    vr_SessionId r1 = Some sid \<Longrightarrow> vr_SessionId r2 = Some sid \<Longrightarrow> vr_Code r1 = vr_Code r2"
  using owner_uniqueD v_inv_def by blast

lemma v_inv_code: "v_inv w \<Longrightarrow> r1 \<in> set (vw_rows w) \<Longrightarrow> r2 \<in> set (vw_rows w) \<Longrightarrow> vr_Code r1 = vr_Code r2 \<Longrightarrow> r1 = r2"
  unfolding v_inv_def distinct_map by (elim conjE) (erule inj_onD)

lemma v_inv_others: "v_inv w \<Longrightarrow> vw_others w = ss # rest \<Longrightarrow> v_inv (w\<lparr>vw_others := rest\<rparr>) \<and> (\<forall>s \<in> set ss. stmt_ok s)"
  by (simp add: v_inv_def)

definition row_kept :: "string list \<Rightarrow> voucher_row \<Rightarrow> voucher_row \<Rightarrow> bool" where
  "row_kept failed r r' \<longleftrightarrow> vr_Code r' = vr_Code r \<and> vr_DropAmount r' = vr_DropAmount r \<and>
     (\<forall>s t. vr_SessionId r = Some s \<longrightarrow> vr_TargetAddr r = Some t \<longrightarrow>
        (vr_SessionId r' = Some s \<and> vr_TargetAddr r' = Some t) \<or> s \<in> set failed)"

definition vnext :: "voucher_world \<Rightarrow> voucher_world \<Rightarrow> bool" where
  "vnext w w' \<longleftrightarrow> v_inv w' \<and> set (vw_failed w) \<subseteq> set (vw_failed w') \<and> vw_won w' = vw_won w \<and>
     (\<forall>r \<in> set (vw_rows w). \<exists>r' \<in> set (vw_rows w'). row_kept (vw_failed w') r r')"

lemma row_kept_refl: "row_kept F r r"
  by (simp add: row_kept_def)

lemma row_kept_trans: "row_kept F r r' \<Longrightarrow> set F \<subseteq> set F' \<Longrightarrow> row_kept F' r' r'' \<Longrightarrow> row_kept F' r r''"
  unfolding row_kept_def by (metis subsetD)

lemma vnext_refl: "v_inv w \<Longrightarrow> vnext w w"
  using row_kept_refl by (auto simp: vnext_def)

lemma vnext_trans: "vnext u v \<Longrightarrow> vnext v w \<Longrightarrow> vnext u w"
  unfolding vnext_def by (smt (verit) order_trans row_kept_trans)

lemma vnext_inv: "vnext w w' \<Longrightarrow> v_inv w'"
  by (simp add: vnext_def)

text \<open>The rows of the sessions are nobody's business here.\<close>

lemma v_inv_store [simp]: "v_inv (w\<lparr>vw_store := db\<rparr>) = v_inv w" "v_inv (w\<lparr>vw_failed := F\<rparr>) = v_inv w"
    "v_inv (w\<lparr>vw_won := x\<rparr>) = v_inv w"
  by (simp_all add: v_inv_def)

lemma vnext_store [simp]: "vnext u (w\<lparr>vw_store := db\<rparr>) = vnext u w"
  by (simp add: vnext_def)

lemma vnext_note: "v_inv w \<Longrightarrow> vnext w (note_failed w)"
  using row_kept_refl by (auto simp: vnext_def note_failed_def)

lemma vnext_rows:
  assumes "v_inv (w\<lparr>vw_rows := rs\<rparr>)" "\<And>r. r \<in> set (vw_rows w) \<Longrightarrow> \<exists>r' \<in> set rs. row_kept (vw_failed (note_failed w)) r r'"
  shows "vnext w (note_failed (w\<lparr>vw_rows := rs\<rparr>))"
  using assms by (auto simp: vnext_def note_failed_def)

lemma vouchers_update:
  assumes inv: "v_inv w" and u: "update_vouchers p f w = Inr (n, w')"
    and f: "\<And>r. p r \<Longrightarrow> vr_Code (f r) = vr_Code r \<and> row_kept (vw_failed (note_failed w)) r (f r)"
    and own: "\<And>r. p r \<Longrightarrow> vr_SessionId (f r) = None \<or> vr_SessionId (f r) = vr_SessionId r \<or>
      (vr_Code r = code \<and> vr_SessionId (f r) = Some sid \<and> \<not> owns_voucher w sid)"
  shows "vnext w (note_failed w')"
proof -
  let ?g = "\<lambda>r. if p r then f r else r"
  have w': "w' = w\<lparr>vw_rows := map ?g (vw_rows w)\<rparr>" using u by (simp add: update_vouchers_def)
  have code: "vr_Code (?g r) = vr_Code r" for r using f by simp
  have sess: "vr_SessionId (?g r) = None \<or> vr_SessionId (?g r) = vr_SessionId r \<or>
      (vr_Code r = code \<and> vr_SessionId (?g r) = Some sid \<and> \<not> owns_voucher w sid)" for r using own by simp
  have same: "vr_Code (?g r1) = vr_Code (?g r2)"
    if r: "r1 \<in> set (vw_rows w)" "r2 \<in> set (vw_rows w)" "vr_SessionId (?g r1) = Some s" "vr_SessionId (?g r2) = Some s" for r1 r2 s
  proof -
    have "vr_SessionId r1 = Some s \<or> (vr_Code r1 = code \<and> s = sid \<and> \<not> owns_voucher w sid)"
      "vr_SessionId r2 = Some s \<or> (vr_Code r2 = code \<and> s = sid \<and> \<not> owns_voucher w sid)"
      using sess[of r1] sess[of r2] r(3,4) by force+
    moreover have "\<not> owns_voucher w s" if "s = sid" "\<not> owns_voucher w sid" using that by simp
    hence "vr_SessionId r1 \<noteq> Some s \<and> vr_SessionId r2 \<noteq> Some s" if "s = sid" "\<not> owns_voucher w sid"
      using that r(1,2) unfolding owns_voucher_def by blast
    ultimately have "vr_Code r1 = vr_Code r2"
      by (cases "s = sid \<and> \<not> owns_voucher w sid") (use v_inv_owner[OF inv r(1,2)] in simp_all)
    thus ?thesis unfolding code .
  qed
  have "owner_unique (map ?g (vw_rows w))"
  proof (rule owner_uniqueI)
    fix x y s assume x: "x \<in> set (map ?g (vw_rows w))" and y: "y \<in> set (map ?g (vw_rows w))" and o: "vr_SessionId x = Some s" "vr_SessionId y = Some s"
    obtain r1 where 1: "r1 \<in> set (vw_rows w)" "x = ?g r1" using x unfolding set_map image_iff by blast
    obtain r2 where 2: "r2 \<in> set (vw_rows w)" "y = ?g r2" using y unfolding set_map image_iff by blast
    show "vr_Code x = vr_Code y" using same[OF 1(1) 2(1)] o unfolding 1(2) 2(2) .
  qed
  moreover have "map vr_Code (map ?g (vw_rows w)) = map vr_Code (vw_rows w)" unfolding map_map comp_def code ..
  ultimately have "v_inv (w\<lparr>vw_rows := map ?g (vw_rows w)\<rparr>)" using inv by (simp add: v_inv_def del: map_map)
  moreover have "\<exists>r' \<in> set (map ?g (vw_rows w)). row_kept (vw_failed (note_failed w)) r r'" if "r \<in> set (vw_rows w)" for r
  proof -
    have "row_kept (vw_failed (note_failed w)) r (?g r)" using f row_kept_refl by simp
    thus ?thesis using imageI[OF that, of ?g] unfolding set_map by (rule bexI)
  qed
  ultimately show ?thesis unfolding w' by (rule vnext_rows)
qed

lemma failed_noted: "session_exact w k \<Longrightarrow> sk_status k = FAILED_SESSION \<Longrightarrow> sk_sessionId k \<in> set (vw_failed (note_failed w))"
proof -
  assume k: "session_exact w k" "sk_status k = FAILED_SESSION"
  then obtain r where "r \<in> set (db_sessions (vw_store w))" "sr_sessionId r = sk_sessionId k" "sr_status r = FAILED_SESSION"
    by (auto simp: session_exact_def key_matches_def)
  hence "sk_sessionId k \<in> sr_sessionId ` set (filter (\<lambda>r. sr_status r = FAILED_SESSION) (db_sessions (vw_store w)))"
    by (intro image_eqI[of _ _ r]) simp_all
  thus ?thesis by (simp add: note_failed_def)
qed

lemma stmt_next:
  assumes inv: "v_inv w" and ok: "stmt_ok s" and run: "run_stmt s w = Inr (n, w')"
  shows "vnext w (note_failed w')"
proof (cases s)
  case (SLease code sid start cols)
  show ?thesis by (rule vouchers_update[OF inv run[unfolded SLease run_stmt.simps], of code sid]) (auto simp: row_kept_def)
next
  case (SRelease code sid start)
  show ?thesis by (rule vouchers_update[OF inv run[unfolded SRelease run_stmt.simps]]) (auto simp: row_kept_def)
next
  case (SConsume target code sid start)
  show ?thesis by (rule vouchers_update[OF inv run[unfolded SConsume run_stmt.simps]]) (auto simp: row_kept_def)
next
  case (SFree cols code sid target start k)
  show ?thesis
    by (rule vouchers_update[OF inv run[unfolded SFree run_stmt.simps]])
      (use ok failed_noted[of w k] in \<open>auto simp: SFree row_kept_def\<close>)
next
  case (SConfirm cols code sid target start k)
  show ?thesis by (rule vouchers_update[OF inv run[unfolded SConfirm run_stmt.simps]]) (auto simp: row_kept_def)
next
  case (SConsumeFinished target cols code sid start k)
  show ?thesis by (rule vouchers_update[OF inv run[unfolded SConsumeFinished run_stmt.simps]]) (auto simp: row_kept_def)
next
  case SReconcile
  show ?thesis by (rule vouchers_update[OF inv run[unfolded SReconcile run_stmt.simps]]) (auto simp: row_kept_def)
next
  case (SInsert code amount)
  hence w': "w' = w\<lparr>vw_rows := vw_rows w @ [\<lparr>vr_Code = code, vr_DropAmount = amount, vr_SessionId = None, vr_TargetAddr = None,
       vr_StartTime = None, vr_cleanup = no_cleanup\<rparr>]\<rparr>" and new: "\<not> (\<exists>r \<in> set (vw_rows w). vr_Code r = code)"
    using run by (auto split: if_splits)
  let ?n = "\<lparr>vr_Code = code, vr_DropAmount = amount, vr_SessionId = None, vr_TargetAddr = None,
       vr_StartTime = None, vr_cleanup = no_cleanup\<rparr>"
  have "owner_unique (vw_rows w @ [?n])"
  proof (rule owner_uniqueI)
    fix r1 r2 s assume r: "r1 \<in> set (vw_rows w @ [?n])" "r2 \<in> set (vw_rows w @ [?n])" "vr_SessionId r1 = Some s" "vr_SessionId r2 = Some s"
    hence "r1 \<in> set (vw_rows w)" "r2 \<in> set (vw_rows w)" by auto
    thus "vr_Code r1 = vr_Code r2" using v_inv_owner[OF inv] r(3,4) by blast
  qed
  moreover have "code \<notin> vr_Code ` set (vw_rows w)" using new by blast
  ultimately have "v_inv (w\<lparr>vw_rows := vw_rows w @ [?n]\<rparr>)" using inv by (simp add: v_inv_def)
  thus ?thesis unfolding w' using row_kept_refl by (intro vnext_rows) auto
next
  case (SSession x)
  thus ?thesis using run vnext_note[of w'] inv row_kept_refl by (auto simp: vnext_def note_failed_def)
next
  case (SDelete c)
  thus ?thesis using run vnext_note[of w'] inv row_kept_refl by (auto simp: vnext_def note_failed_def)
qed

lemma exec_next: "v_inv w \<Longrightarrow> stmt_ok s \<Longrightarrow> vnext w (exec_stmt s w)"
  using stmt_next[of "note_failed w" s] vnext_note[of w] vnext_trans vnext_inv
  by (auto simp: exec_stmt_def split: sum.splits)

lemma fold_next: "v_inv w \<Longrightarrow> \<forall>s \<in> set ss. stmt_ok s \<Longrightarrow> vnext w (fold exec_stmt ss w)"
proof (induction ss arbitrary: w)
  case (Cons s ss)
  have "vnext w (exec_stmt s w)" using exec_next Cons.prems by simp
  moreover have "vnext (exec_stmt s w) (fold exec_stmt ss (exec_stmt s w))" using Cons.IH Cons.prems(2) vnext_inv[OF calculation] by simp
  ultimately show ?case using vnext_trans by simp
qed (simp add: vnext_refl)

lemma interfere_next: "v_inv w \<Longrightarrow> vnext w (interfere w)"
proof (cases "vw_others w")
  case Nil
  thus "v_inv w \<Longrightarrow> ?thesis" using vnext_note by (simp add: interfere_def)
next
  case (Cons ss rest)
  assume inv: "v_inv w"
  let ?w = "w\<lparr>vw_others := rest\<rparr>"
  have w: "v_inv ?w" and ss: "\<forall>s \<in> set ss. stmt_ok s" using v_inv_others[OF inv Cons] by simp_all
  have f: "vnext ?w (fold exec_stmt ss ?w)" using fold_next[OF w ss] .
  have "vnext ?w (interfere w)" using vnext_trans[OF f vnext_note[OF vnext_inv[OF f]]] Cons by (simp add: interfere_def)
  thus ?thesis by (simp add: vnext_def)
qed

subsection \<open>The driver\<close>

lemma next_store: "next_fault (vw_store w) = (f, db) \<Longrightarrow> \<exists>fs. w\<lparr>vw_store := db\<rparr> = with_faults fs w"
  using next_fault_cases[of "vw_store w"] by (auto simp: with_faults_def)

lemma wp_v_read:
  assumes "v_inv w" "\<And>w1. vnext w w1 \<Longrightarrow> Q (q w1) w1" "\<And>w1. vnext w w1 \<Longrightarrow> E DriverError w1"
  shows "wp (v_read q) Q E w"
  using assms(2,3) interfere_next[OF assms(1)]
  by (auto simp: wp_def v_read_def Let_def split: prod.splits db_fault.splits)

lemma wp_v_write:
  assumes inv: "v_inv w" and ok: "stmt_ok s"
    and Q: "\<And>w1 n w2. vnext w w1 \<Longrightarrow> run_stmt s w1 = Inr (n, w2) \<Longrightarrow> vnext w (note_failed w2) \<Longrightarrow> Q n (note_failed w2)"
    and E: "\<And>e w1. vnext w w1 \<Longrightarrow> E e w1"
  shows "wp (v_write s) Q E w"
proof -
  have i: "vnext w (interfere w)" by (rule interfere_next[OF inv])
  have r: "vnext w (note_failed w2)" if "run_stmt s ((interfere w)\<lparr>vw_store := db\<rparr>) = Inr (n, w2)" for db n w2
    using stmt_next[OF _ ok that] vnext_inv[OF i] vnext_trans[OF i] by (metis vnext_store v_inv_store(1) vnext_refl vnext_trans)
  have q: "Q n (note_failed w2) \<and> E DriverError (note_failed w2)" if "run_stmt s ((interfere w)\<lparr>vw_store := db\<rparr>) = Inr (n, w2)" for db n w2
    using Q[OF _ that r[OF that]] E[OF r[OF that]] i by simp
  have e: "E x ((interfere w)\<lparr>vw_store := db\<rparr>)" for x db using E i by simp
  show ?thesis using q e
    by (auto simp: wp_def v_write_def Let_def split: prod.split db_fault.split sum.split)
qed

text \<open>Everything that follows a well-formed world is an invariant of every operation.\<close>

lemma vnext_stmt: "vnext w0 w \<Longrightarrow> stmt_ok s \<Longrightarrow> run_stmt s w = Inr (n, w') \<Longrightarrow> vnext w0 (note_failed w')"
  using stmt_next[OF vnext_inv] vnext_trans by blast

lemma vnext_interfere: "vnext w0 w \<Longrightarrow> vnext w0 (interfere w)"
  using interfere_next[OF vnext_inv] vnext_trans by blast

interpretation vn: voucher_invariant_all "vnext w0" for w0
  by unfold_locales (auto simp del: run_stmt.simps intro: vnext_interfere vnext_stmt)

subsection \<open>A granted consumption\<close>

definition redeemed :: "voucher_world \<Rightarrow> string \<Rightarrow> string \<Rightarrow> bool" where
  "redeemed w code sid \<longleftrightarrow> (\<exists>r \<in> set (vw_rows w). vr_Code r = code \<and> vr_SessionId r = Some sid \<and> vr_TargetAddr r \<noteq> None)"

definition granted :: "voucher_world \<Rightarrow> string \<Rightarrow> string \<Rightarrow> bool" where
  "granted w code sid \<longleftrightarrow> redeemed w code sid \<or> sid \<in> set (vw_failed w)"

lemma granted_next: "vnext w w' \<Longrightarrow> granted w code sid \<Longrightarrow> granted w' code sid"
proof -
  assume n: "vnext w w'" and g: "granted w code sid"
  show ?thesis
  proof (cases "sid \<in> set (vw_failed w)")
    case False
    then obtain r t where r: "r \<in> set (vw_rows w)" "vr_Code r = code" "vr_SessionId r = Some sid" "vr_TargetAddr r = Some t"
      using g by (auto simp: granted_def redeemed_def)
    obtain r' where r': "r' \<in> set (vw_rows w')" "row_kept (vw_failed w') r r'" using n r(1) unfolding vnext_def by blast
    thus ?thesis using r unfolding granted_def redeemed_def row_kept_def by force
  qed (use n in \<open>auto simp: vnext_def granted_def\<close>)
qed

lemma granted_note [simp]: "redeemed w code sid \<Longrightarrow> granted (note_failed w) code sid"
  by (simp add: granted_def redeemed_def note_failed_def)

text \<open>Who is granted a code takes it: whoever had been granted it before has failed by then.\<close>

definition taken :: "voucher_world \<Rightarrow> voucher_world \<Rightarrow> string \<Rightarrow> string \<Rightarrow> bool" where
  "taken w w' code sid \<longleftrightarrow> granted w' code sid \<and> (\<forall>s. granted w code s \<longrightarrow> s = sid \<or> s \<in> set (vw_failed w'))"

lemma redeemed_one: "v_inv w \<Longrightarrow> redeemed w code s1 \<Longrightarrow> redeemed w code s2 \<Longrightarrow> s1 = s2"
  unfolding redeemed_def using v_inv_code by (metis option.inject)

lemma redeemed_taken:
  assumes "vnext w w'" "redeemed w' code sid"
  shows "taken w w' code sid"
proof -
  have "s = sid \<or> s \<in> set (vw_failed w')" if "granted w code s" for s
    using granted_next[OF assms(1) that] redeemed_one[OF vnext_inv[OF assms(1)] _ assms(2)] by (auto simp: granted_def)
  thus ?thesis using assms(2) by (simp add: taken_def granted_def)
qed

lemma taken_earlier: "vnext w w1 \<Longrightarrow> taken w1 w2 code sid \<Longrightarrow> taken w w2 code sid"
  using granted_next by (auto simp: taken_def)

lemma taken_later: "taken w w1 code sid \<Longrightarrow> vnext w1 w2 \<Longrightarrow> taken w w2 code sid"
  using granted_next by (auto simp: taken_def vnext_def)

lemma snapshot_consumed:
  assumes "find (\<lambda>r. vr_Code r = code) (vw_rows w) = Some r" "snapshot_of r = Inr (SnapValid v NoReceipt)" "vo_hold v = Consumed sid start t"
  shows "redeemed w code sid"
proof -
  have r: "r \<in> set (vw_rows w)" "vr_Code r = code" using assms(1) by (auto simp: find_Some_iff)
  have "voucherFromRow r = Inr v" using assms(2) by (auto simp: snapshot_of_def try_bind_Inr_iff split: option.splits if_splits)
  hence "vr_SessionId r = Some sid \<and> vr_TargetAddr r = Some t" using assms(3)
    by (auto simp: voucherFromRow_def Let_def split: if_splits option.splits)
  thus ?thesis using r by (auto simp: redeemed_def)
qed

lemma wp_snapshot:
  assumes "v_inv w"
  shows "wp (getReservationSnapshot code) (\<lambda>snap w'. vnext w w' \<and>
      (\<forall>v sid start t. snap = SnapValid v NoReceipt \<longrightarrow> vo_hold v = Consumed sid start t \<longrightarrow> taken w w' code sid)) (\<lambda>_. vnext w) w"
  unfolding getReservationSnapshot_def wp_simps
  by (rule wp_v_read[OF assms]) (auto simp: wp_simps intro: redeemed_taken dest: snapshot_consumed split: option.split sum.split)

lemma consume_changed:
  assumes "run_stmt (SConsume target code sid start) w = Inr (1, w')"
  shows "redeemed w' code sid"
proof -
  let ?p = "\<lambda>r. vr_Code r = code \<and> vr_SessionId r = Some sid \<and> vr_TargetAddr r = None \<and> vr_StartTime r = Some start \<and> vr_cleanup r = no_cleanup"
  have "length (filter ?p (vw_rows w)) = 1" using assms by (simp add: update_vouchers_def)
  then obtain r where r: "r \<in> set (filter ?p (vw_rows w))" by (cases "filter ?p (vw_rows w)") auto
  have "w' = w\<lparr>vw_rows := map (\<lambda>r. if ?p r then r\<lparr>vr_TargetAddr := Some target\<rparr> else r) (vw_rows w)\<rparr>"
    using assms by (simp add: update_vouchers_def)
  hence "r\<lparr>vr_TargetAddr := Some target\<rparr> \<in> set (vw_rows w')" using r by force
  thus ?thesis using r unfolding redeemed_def by (intro bexI) auto
qed

lemma wp_consume_write:
  assumes "v_inv w"
  shows "wp (v_try (v_write (SConsume target code sid start)))
    (\<lambda>outcome w'. vnext w w' \<and> (outcome = Inr 1 \<longrightarrow> taken w w' code sid)) (\<lambda>_. vnext w) w"
  unfolding v_try_def wp_simps
proof (rule wp_v_write[OF assms])
  fix w1 n w2 assume w: "vnext w w1" "run_stmt (SConsume target code sid start) w1 = Inr (n, w2)" "vnext w (note_failed w2)"
  have "taken w (note_failed w2) code sid" if "n = 1"
    using consume_changed[OF w(2)[unfolded that]] redeemed_taken[OF w(3)] by (simp add: redeemed_def note_failed_def)
  thus "vnext w (note_failed w2) \<and> (Inr n = (Inr 1 :: db_error + nat) \<longrightarrow> taken w (note_failed w2) code sid)" using w(3) by blast
qed simp_all

lemma wp_consume:
  assumes "v_inv w"
  shows "wp (consumeLease code sid target) (\<lambda>ok w'. vnext w w' \<and> (ok \<longrightarrow> taken w w' code sid)) (\<lambda>_. vnext w) w"
proof -
  have post: "wp (p_bind (getReservationSnapshot code) (\<lambda>current. p_return (current = SnapValid (v\<lparr>vo_hold := Consumed sid start target\<rparr>) NoReceipt)))
      (\<lambda>ok w2. vnext w w2 \<and> (ok \<longrightarrow> taken w w2 code sid)) (\<lambda>_. vnext w) w1" if "vnext w w1" for v start w1
    unfolding wp_simps by (rule wp_mono[OF wp_snapshot[OF vnext_inv[OF that]]]) (use vnext_trans[OF that] taken_earlier[OF that] in auto)
  have "wp (runStateTransition (SConsume target code sid start)
      (p_bind (getReservationSnapshot code) (\<lambda>current. p_return (current = SnapValid (v\<lparr>vo_hold := Consumed sid start target\<rparr>) NoReceipt))))
      (\<lambda>ok w2. vnext w w2 \<and> (ok \<longrightarrow> taken w w2 code sid)) (\<lambda>_. vnext w) w1" if w1: "vnext w w1" for v start w1
    unfolding runStateTransition_def wp_bind
  proof (rule wp_mono[OF wp_consume_write[OF vnext_inv[OF w1]]])
    fix outcome :: "db_error + nat" and w2 assume w2: "vnext w1 w2 \<and> (outcome = Inr 1 \<longrightarrow> taken w1 w2 code sid)"
    have n: "vnext w w2" using w2 vnext_trans[OF w1] by blast
    have g: "outcome = Inr 1 \<longrightarrow> taken w w2 code sid" using w2 taken_earlier[OF w1] by blast
    show "wp (reconcile_write ''Voucher state transition changed more than one row.''
         ''Voucher state transition failed and persisted state could not be reconciled.''
         (p_bind (getReservationSnapshot code) (\<lambda>current. p_return (current = SnapValid (v\<lparr>vo_hold := Consumed sid start target\<rparr>) NoReceipt))) outcome)
        (\<lambda>a. wp (p_lift a) (\<lambda>ok w2. vnext w w2 \<and> (ok \<longrightarrow> taken w w2 code sid)) (\<lambda>_. vnext w)) (\<lambda>_. vnext w) w2"
      unfolding reconcile_write_def using n g
      by (auto simp: wp_simps split: sum.split intro!: wp_mono[OF post[OF n, unfolded wp_simps]])
  qed (use vnext_trans[OF w1] in blast)
  note tr = this
  show ?thesis
  proof (cases "is_valid_target target")
    case True
    have "wp (case snap of SnapValid v NoReceipt \<Rightarrow> (case vo_hold v of
            Consumed owner start t \<Rightarrow> p_return (owner = sid \<and> t = target)
          | Leased owner start \<Rightarrow> if owner \<noteq> sid then p_return False
              else runStateTransition (SConsume target code sid start) (p_bind (getReservationSnapshot code) (\<lambda>current. p_return (
                current = SnapValid (v\<lparr>vo_hold := Consumed sid start target\<rparr>) NoReceipt)))
          | Available \<Rightarrow> p_return False) | _ \<Rightarrow> p_return False)
        (\<lambda>ok w'. vnext w w' \<and> (ok \<longrightarrow> taken w w' code sid)) (\<lambda>_. vnext w) w1"
      if w1: "vnext w w1" and s: "\<forall>v sid start t. snap = SnapValid v NoReceipt \<longrightarrow> vo_hold v = Consumed sid start t \<longrightarrow> taken w w1 code sid" for snap w1
      using w1 s tr[OF w1] by (auto simp: wp_simps split: reservation_snapshot.split receipt_kind.split voucher_hold.split)
    thus ?thesis using True unfolding consumeLease_def by (auto simp: wp_bind intro!: wp_mono[OF wp_snapshot[OF assms]])
  qed (use assms in \<open>simp add: consumeLease_def wp_simps vnext_refl\<close>)
qed

subsection \<open>Clients\<close>

datatype voucher_event =
    VInsert string string
  | VGet string
  | VReserve nat string string int
  | VRelease string string
  | VConsume string string string
  | VOrphans
  | VCleanup cleanup_candidate
  | VStmts "voucher_stmt list"
  | VOthers "voucher_stmt list list"
  | VFaults "db_fault list"

fun event_stmts_ok :: "voucher_event \<Rightarrow> bool" where
  "event_stmts_ok (VStmts ss) = (\<forall>s \<in> set ss. stmt_ok s)"
| "event_stmts_ok (VOthers sss) = (\<forall>ss \<in> set sss. \<forall>s \<in> set ss. stmt_ok s)"
| "event_stmts_ok _ = True"

primrec voucher_event_step :: "voucher_env \<Rightarrow> voucher_event \<Rightarrow> voucher_world \<Rightarrow> voucher_world" where
  "voucher_event_step env (VInsert code amount) w = snd (insertVoucher code amount w)"
| "voucher_event_step env (VGet code) w = snd (getVoucher code w)"
| "voucher_event_step env (VReserve fuel code sid start) w = snd (reserveVoucher fuel env code sid start w)"
| "voucher_event_step env (VRelease code sid) w = snd (releaseVoucher code sid w)"
| "voucher_event_step env (VConsume code sid target) w = (case consumeVoucher code sid target w of
     (Inr True, w') \<Rightarrow> w'\<lparr>vw_won := vw_won w' @ [(code, sid)]\<rparr> | (_, w') \<Rightarrow> w')"
| "voucher_event_step env VOrphans w = snd (reconcileOrphanedLeases w)"
| "voucher_event_step env (VCleanup c) w = snd (cleanup_session env c w)"
| "voucher_event_step env (VStmts ss) w = fold exec_stmt ss w"
| "voucher_event_step env (VOthers sss) w = w\<lparr>vw_others := sss\<rparr>"
| "voucher_event_step env (VFaults fs) w = with_faults fs w"

text \<open>Winners of the same code: each of them failed before the next one won.\<close>

definition won_in_turn :: "voucher_world \<Rightarrow> bool" where
  "won_in_turn w \<longleftrightarrow> (\<forall>i j. i < j \<longrightarrow> j < length (vw_won w) \<longrightarrow> fst (vw_won w ! i) = fst (vw_won w ! j) \<longrightarrow>
     snd (vw_won w ! i) = snd (vw_won w ! j) \<or> snd (vw_won w ! i) \<in> set (vw_failed w))"

definition won_ok :: "voucher_world \<Rightarrow> bool" where
  "won_ok w \<longleftrightarrow> v_inv w \<and> won_in_turn w \<and> (\<forall>(code, sid) \<in> set (vw_won w). granted w code sid)"

lemma turn_next: "won_in_turn w \<Longrightarrow> vnext w w' \<Longrightarrow> won_in_turn w'"
  unfolding won_in_turn_def vnext_def by (metis subsetD)

lemma won_next: "won_ok w \<Longrightarrow> vnext w w' \<Longrightarrow> won_ok w'"
  unfolding won_ok_def using granted_next[of w w'] vnext_inv[of w w'] turn_next[of w w'] by (fastforce simp: vnext_def)

lemma won_turn: "won_ok w \<Longrightarrow> i < length (vw_won w) \<Longrightarrow> granted w (fst (vw_won w ! i)) (snd (vw_won w ! i))"
  unfolding won_ok_def by (metis case_prod_beta nth_mem)

lemma event_won:
  assumes ok: "won_ok w" and ev: "event_stmts_ok ev"
  shows "won_ok (voucher_event_step env ev w)"
proof -
  have inv: "v_inv w" using ok by (simp add: won_ok_def)
  have safe: "won_ok (snd (m w))" if "keeps_J (vnext w) m" for m :: "'a voucher_op"
    using won_next[OF ok keeps_snd[OF that vnext_refl[OF inv]]] .
  have turn: "won_in_turn (w\<lparr>vw_others := x\<rparr>) = won_in_turn w" "won_in_turn (with_faults fs w) = won_in_turn w" for x fs
    by (simp_all add: won_in_turn_def with_faults_def)
  have same: "granted (w\<lparr>vw_others := x\<rparr>) c s = granted w c s" "granted (with_faults fs w) c s = granted w c s" for x fs c s
    by (simp_all add: granted_def redeemed_def with_faults_def)
  show ?thesis
  proof (cases ev)
    case (VConsume code sid target)
    obtain r w' where c: "consumeVoucher code sid target w = (r, w')" by (cases "consumeVoucher code sid target w")
    have n: "vnext w w' \<and> (r = Inr True \<longrightarrow> taken w w' code sid)"
      using wp_consume[OF inv, of code sid target] c by (auto simp: consumeVoucher_def wp_def split: sum.splits)
    have g: "granted (w'\<lparr>vw_won := x\<rparr>) c s = granted w' c s" for x c s by (simp add: granted_def redeemed_def)
    have w': "won_ok w'" using won_next[OF ok] n by blast
    show ?thesis
    proof (cases "r = Inr True")
      case True
      hence tk: "taken w w' code sid" using n by blast
      have "vw_won w' = vw_won w" using n by (simp add: vnext_def)
      hence "won_in_turn (w'\<lparr>vw_won := vw_won w' @ [(code, sid)]\<rparr>)"
        using w' tk won_turn[OF ok] unfolding won_ok_def won_in_turn_def taken_def
        by (auto simp: nth_append less_Suc_eq)
      thus ?thesis using True w' tk c VConsume g by (auto simp: won_ok_def taken_def)
    qed (use w' c VConsume in \<open>auto split: sum.split bool.split\<close>)
  next
    case (VStmts ss)
    thus ?thesis using won_next[OF ok fold_next[OF inv]] ev by simp
  next
    case (VOthers sss)
    thus ?thesis using ok ev same turn by (auto simp: won_ok_def v_inv_def)
  next
    case (VFaults fs)
    thus ?thesis using ok same turn by (auto simp: won_ok_def with_faults_def)
  qed (auto simp: releaseVoucher_def intro!: safe vkeeps)
qed

lemma events_won: "won_ok w \<Longrightarrow> \<forall>ev \<in> set evs. event_stmts_ok ev \<Longrightarrow> won_ok (fold (voucher_event_step env) evs w)"
  by (induction evs arbitrary: w) (auto intro: event_won)

text \<open>C10. A voucher pays one session at a time.  Whatever sequence of reservations, releases, consumptions,
  cleanups and reconciliations runs, with any statements of other clients between any two
  statements and any faults of the driver: codes stay unique, no session holds two vouchers, and
  when a code was consumed for one session and later for another one, the first of the two has failed by
  the time the second consumption returns.  So among the sessions a code was consumed for, only the last
  one can be a session that never failed.\<close>

theorem voucher_pays_one_session:
  fixes env :: voucher_env
  assumes "v_inv w" "vw_won w = []" "\<forall>ev \<in> set evs. event_stmts_ok ev"
  defines "w' \<equiv> fold (voucher_event_step env) evs w"
  shows "distinct (map vr_Code (vw_rows w')) \<and> owner_unique (vw_rows w') \<and>
    (\<forall>i j. i < j \<longrightarrow> j < length (vw_won w') \<longrightarrow> fst (vw_won w' ! i) = fst (vw_won w' ! j) \<longrightarrow>
       snd (vw_won w' ! i) = snd (vw_won w' ! j) \<or> snd (vw_won w' ! i) \<in> set (vw_failed w'))"
proof -
  have "won_ok w" using assms(1,2) by (simp add: won_ok_def won_in_turn_def)
  hence "won_ok w'" using events_won assms(3) by (simp add: w'_def)
  thus ?thesis by (auto simp: won_ok_def won_in_turn_def v_inv_def)
qed

subsection \<open>A run\<close>

definition demo_voucher_env :: voucher_env where
  "demo_voucher_env = \<lparr>ve_dataHash = (\<lambda>_. replicate 64 CHR ''a''), ve_claimHash = (\<lambda>_. replicate 64 CHR ''b''),
     ve_deadlock = (\<lambda>_. False), ve_schemaVersion = Some 3, ve_guard = (\<lambda>_. p_return True)\<rparr>"

definition demo_vouchers :: voucher_world where
  "demo_vouchers = \<lparr>vw_store = \<lparr>db_sessions = [], db_kv = [], db_faults = []\<rparr>, vw_rows = [], vw_others = [], vw_failed = [], vw_won = []\<rparr>"

definition demo_target :: string where
  "demo_target = ''0x'' @ replicate 40 CHR ''1''"

definition demo_session :: "string \<Rightarrow> store_data" where
  "demo_session sid = \<lparr>sd_sessionId = sid, sd_status = RUNNING, sd_startTime = 1, sd_targetAddr = demo_target, sd_dropAmount = ''5'',
     sd_remoteIP = ''10.0.0.1'', sd_tasks = JArr [], sd_data = JObj [(''voucherCode'', JStr ''AB'')], sd_claim = JNull\<rparr>"

text \<open>The first session consumes the voucher, the answer is lost, and it fails later; the second one
  reclaims and consumes it.\<close>

definition demo_voucher_events :: "voucher_event list" where
  "demo_voucher_events = [VInsert ''AB'' ''5'', VReserve 2 ''AB'' ''s1'' 1, VStmts [SSession (WInsert (demo_session ''s1''))],
     VFaults [FOk, FLost], VConsume ''AB'' ''s1'' demo_target, VReserve 2 ''AB'' ''s2'' 2,
     VStmts [SSession (WTransition ((demo_session ''s1'')\<lparr>sd_status := FAILED_SESSION\<rparr>))],
     VReserve 2 ''AB'' ''s2'' 2, VConsume ''AB'' ''s2'' demo_target]"

lemma demo_voucher_run: "vw_won (fold (voucher_event_step demo_voucher_env) demo_voucher_events demo_vouchers) = [(''AB'', ''s1''), (''AB'', ''s2'')]"
  by code_simp

theorem voucher_pays_one_session_witness:
  "vw_won (fold (voucher_event_step demo_voucher_env) demo_voucher_events demo_vouchers) = [(''AB'', ''s1''), (''AB'', ''s2'')] \<and>
   ''s1'' \<in> set (vw_failed (fold (voucher_event_step demo_voucher_env) demo_voucher_events demo_vouchers))"
proof -
  let ?w = "fold (voucher_event_step demo_voucher_env) demo_voucher_events demo_vouchers"
  have "v_inv demo_vouchers" "vw_won demo_vouchers = []" by (simp_all add: v_inv_def owner_unique_def demo_vouchers_def)
  moreover have "\<forall>ev \<in> set demo_voucher_events. event_stmts_ok ev" by (simp add: demo_voucher_events_def)
  ultimately have "\<forall>i j. i < j \<longrightarrow> j < length (vw_won ?w) \<longrightarrow> fst (vw_won ?w ! i) = fst (vw_won ?w ! j) \<longrightarrow>
       snd (vw_won ?w ! i) = snd (vw_won ?w ! j) \<or> snd (vw_won ?w ! i) \<in> set (vw_failed ?w)"
    using voucher_pays_one_session[of demo_vouchers demo_voucher_events demo_voucher_env] by blast
  from this[rule_format, of 0 1] show ?thesis using demo_voucher_run by simp
qed

end
