(* ===== verification/Voucher_Reserve.thy ===== *)
theory Voucher_Reserve
  imports Voucher_Safety
begin

text \<open>
  \<^verbatim>\<open>reserveVoucher\<close> calls itself after it freed the voucher of a failed session.  Every other
  call needs another client to have acted in between, so the recursion is never deeper than
  what other clients do, plus two.
\<close>

lemma p_bind_kept:
  assumes "kept_by J m P" "J w" "\<And>a w'. J w' \<Longrightarrow> P a \<Longrightarrow> f a w' = f' a w'"
  shows "p_bind m f w = p_bind m f' w"
proof (rule p_bind_cong)
  fix a w' assume "m w = (Inr a, w')"
  hence "J w' \<and> P a" using assms(1,2) by (auto simp: kept_by_def wp_def)
  thus "f a w' = f' a w'" using assms(3) by blast
qed

lemma p_bind_wp:
  assumes "wp m Q E w" "\<And>a w'. Q a w' \<Longrightarrow> f a w' = f' a w'"
  shows "p_bind m f w = p_bind m f' w"
  by (rule p_bind_cong) (use assms in \<open>auto simp: wp_def\<close>)

text \<open>What both recursion depths need: \<^verbatim>\<open>J\<close> holds up to the reclaim, which leaves \<^verbatim>\<open>R\<close>.\<close>

definition holds_for :: "voucher \<Rightarrow> string \<Rightarrow> bool" where
  "holds_for v owner \<longleftrightarrow> (case vo_hold v of Available \<Rightarrow> False | Leased o' _ \<Rightarrow> o' = owner | Consumed o' _ _ \<Rightarrow> o' = owner)"

context voucher_invariant
begin

lemma reserve_owned_cong:
  assumes w: "J w"
    and reclaim: "\<And>owner start target. holds_for v owner \<Longrightarrow>
      wp (reclaim_failed env v owner start target) (\<lambda>ok w'. ok \<longrightarrow> R w') (\<lambda>_ _. True) w"
    and again: "\<And>w'. R w' \<Longrightarrow> again w' = again' w'"
  shows "reserve_owned again env sid start v rc w = reserve_owned again' env sid start v rc w"
proof -
  have "p_bind (reclaim_failed env v owner st target) (\<lambda>ok. if ok then again else p_return False) w =
      p_bind (reclaim_failed env v owner st target) (\<lambda>ok. if ok then again' else p_return False) w" if "holds_for v owner" for owner st target
    by (rule p_bind_wp[OF reclaim[OF that]]) (use again in simp)
  thus ?thesis by (simp add: reserve_owned_def holds_for_def split: voucher_hold.split)
qed

lemma reserve_snapshot_cong:
  assumes w: "J w"
    and reclaim: "\<And>v rc owner start target w'. J w' \<Longrightarrow> snap = SnapValid v rc \<Longrightarrow> vo_code v = code \<Longrightarrow> holds_for v owner \<Longrightarrow>
      wp (reclaim_failed env v owner start target) (\<lambda>ok w'. ok \<longrightarrow> R w') (\<lambda>_ _. True) w'"
    and again: "\<And>w'. R w' \<Longrightarrow> again w' = again' w'"
  shows "reserve_snapshot again env code sid start snap w = reserve_snapshot again' env code sid start snap w"
proof (cases snap)
  case (SnapValid v rc)
  have o: "reserve_owned again env sid start v rc w' = reserve_owned again' env sid start v rc w'" if "J w'" "vo_code v = code" for w'
    by (rule reserve_owned_cong[where R = R, OF that(1) reclaim[OF that(1) SnapValid that(2)] again])
  have "p_bind (hasPersistedSession sid) (\<lambda>present. if present then p_return False else reserve_owned again env sid start v rc) w' =
      p_bind (hasPersistedSession sid) (\<lambda>present. if present then p_return False else reserve_owned again' env sid start v rc) w'"
    if "J w'" "vo_code v = code" for w'
    by (rule p_bind_kept[OF keeps_codes(2) that(1)]) (simp add: o that(2))
  hence "p_bind (getVoucherCodesForSession sid) (\<lambda>requested. if requested \<noteq> Some [] then p_return False
        else p_bind (hasPersistedSession sid) (\<lambda>present. if present then p_return False else reserve_owned again env sid start v rc)) w =
      p_bind (getVoucherCodesForSession sid) (\<lambda>requested. if requested \<noteq> Some [] then p_return False
        else p_bind (hasPersistedSession sid) (\<lambda>present. if present then p_return False else reserve_owned again' env sid start v rc)) w"
    if "vo_code v = code"
    by (intro p_bind_kept[OF keeps_codes(1) w]) (simp add: that)
  thus ?thesis by (simp add: reserve_snapshot_def SnapValid)
qed (simp_all add: reserve_snapshot_def)

end

subsection \<open>Without interference\<close>

definition quiet :: "voucher_world \<Rightarrow> bool" where
  "quiet w \<longleftrightarrow> v_inv w \<and> vw_others w = []"

definition free_code :: "string \<Rightarrow> voucher_world \<Rightarrow> bool" where
  "free_code code w \<longleftrightarrow> quiet w \<and> (\<forall>r \<in> set (vw_rows w). vr_Code r = code \<longrightarrow> vr_SessionId r = None)"

lemma stmt_others: "run_stmt s w = Inr (n, w') \<Longrightarrow> vw_others w' = vw_others w"
  by (cases s) (auto simp: update_vouchers_def split: if_splits)

lemma note_others [simp]: "vw_others (note_failed w) = vw_others w" "vw_rows (note_failed w) = vw_rows w"
  by (simp_all add: note_failed_def)

lemma exec_others: "vw_others (exec_stmt s w) = vw_others w"
  by (auto simp: exec_stmt_def dest: stmt_others split: sum.split)

lemma fold_others: "vw_others (fold exec_stmt ss w) = vw_others w"
  by (induction ss arbitrary: w) (simp_all add: exec_others)

lemma interfere_others: "vw_others (interfere w) = tl (vw_others w)"
  by (simp add: interfere_def fold_others split: list.split)

lemma quiet_interfere: "quiet w \<Longrightarrow> interfere w = note_failed w"
  by (simp add: quiet_def interfere_def)

lemma v_inv_note: "v_inv w \<Longrightarrow> v_inv (note_failed w)"
  using vnext_inv[OF vnext_note] .

interpretation qt: voucher_invariant_all quiet
proof unfold_locales
  show "quiet w \<Longrightarrow> quiet (interfere w)" for w using quiet_interfere v_inv_note by (simp add: quiet_def)
  show "quiet w \<Longrightarrow> quiet (w\<lparr>vw_store := db\<rparr>)" for w db by (simp add: quiet_def)
qed (auto simp: quiet_def simp del: run_stmt.simps dest: stmt_others vnext_inv[OF stmt_next])

interpretation fc: voucher_invariant "free_code code" for code
proof unfold_locales
  show "free_code code w \<Longrightarrow> free_code code (interfere w)" for w
    using quiet_interfere v_inv_note by (simp add: free_code_def quiet_def)
  show "free_code code w \<Longrightarrow> free_code code (w\<lparr>vw_store := db\<rparr>)" for w db by (simp add: free_code_def quiet_def)
  show "free_code code w \<Longrightarrow> cleanup_stmt s \<Longrightarrow> stmt_ok s \<Longrightarrow> run_stmt s w = Inr (n, w') \<Longrightarrow> free_code code (note_failed w')" for w s n w'
  proof -
    assume w: "free_code code w" and s: "cleanup_stmt s" "stmt_ok s" and r: "run_stmt s w = Inr (n, w')"
    have "quiet (note_failed w')" using qt.J_stmt[OF _ s(2) r] w by (simp add: free_code_def)
    moreover have "vr_SessionId x = None" if "x \<in> set (vw_rows w')" "vr_Code x = code" for x
      using w r s(1) that by (cases s) (auto simp: free_code_def update_vouchers_def split: if_splits)
    ultimately show ?thesis by (simp add: free_code_def)
  qed
qed

lemma row_free:
  assumes "quiet w" "find (\<lambda>r. vr_Code r = code) (vw_rows w) = Some r" "vr_SessionId r = None"
  shows "free_code code w"
proof -
  have r: "r \<in> set (vw_rows w)" "vr_Code r = code" using assms(2) by (auto simp: find_Some_iff)
  have inv: "v_inv w" using assms(1) by (simp add: quiet_def)
  have "x = r" if "x \<in> set (vw_rows w)" "vr_Code x = code" for x using v_inv_code[OF inv that(1) r(1)] that(2) r(2) by simp
  thus ?thesis using assms(1,3) by (auto simp: free_code_def)
qed

lemma snapshot_row: "snapshot_of r = Inr (SnapValid v rc) \<Longrightarrow> vo_hold v = Available \<longleftrightarrow> vr_SessionId r = None"
  by (auto simp: snapshot_of_def try_bind_Inr_iff voucherFromRow_def Let_def split: option.splits if_splits)

lemma wp_snapshot_free:
  assumes "quiet w"
  shows "wp (getReservationSnapshot code) (\<lambda>snap w'. quiet w' \<and>
    (\<forall>v rc. snap = SnapValid v rc \<longrightarrow> vo_hold v = Available \<longrightarrow> free_code code w')) (\<lambda>_ _. True) w"
  unfolding getReservationSnapshot_def wp_bind
proof (rule qt.wp_read[OF assms])
  fix w1 assume w1: "quiet w1"
  show "wp (case find (\<lambda>r. vr_Code r = code) (vw_rows w1) of None \<Rightarrow> p_return SnapMissing | Some r \<Rightarrow> p_lift (snapshot_of r))
    (\<lambda>snap w'. quiet w' \<and> (\<forall>v rc. snap = SnapValid v rc \<longrightarrow> vo_hold v = Available \<longrightarrow> free_code code w')) (\<lambda>_ _. True) w1"
  proof (cases "find (\<lambda>r. vr_Code r = code) (vw_rows w1)")
    case (Some r)
    have "free_code code w1" if "snapshot_of r = Inr (SnapValid v rc)" "vo_hold v = Available" for v rc
      using row_free[OF w1 Some] snapshot_row[OF that(1)] that(2) by simp
    thus ?thesis using w1 Some by (auto simp: wp_simps split: sum.split)
  qed (use w1 in \<open>simp add: wp_simps\<close>)
qed simp

lemma free_code_snapshot:
  assumes "free_code code w"
  shows "wp (getReservationSnapshot code) (\<lambda>snap w'. free_code code w' \<and>
    (\<forall>v rc owner. snap = SnapValid v rc \<longrightarrow> \<not> holds_for v owner)) (\<lambda>_ _. True) w"
  unfolding getReservationSnapshot_def wp_bind
proof (rule fc.wp_read[OF assms])
  fix w1 assume w1: "free_code code w1"
  show "wp (case find (\<lambda>r. vr_Code r = code) (vw_rows w1) of None \<Rightarrow> p_return SnapMissing | Some r \<Rightarrow> p_lift (snapshot_of r))
    (\<lambda>snap w'. free_code code w' \<and> (\<forall>v rc owner. snap = SnapValid v rc \<longrightarrow> \<not> holds_for v owner)) (\<lambda>_ _. True) w1"
  proof (cases "find (\<lambda>r. vr_Code r = code) (vw_rows w1)")
    case (Some r)
    hence "vr_SessionId r = None" using w1 by (auto simp: find_Some_iff free_code_def)
    hence "\<not> holds_for v owner" if "snapshot_of r = Inr (SnapValid v rc)" for v rc owner
      using snapshot_row[OF that] by (simp add: holds_for_def)
    thus ?thesis using w1 Some by (auto simp: wp_simps split: sum.split)
  qed (use w1 in \<open>simp add: wp_simps\<close>)
qed simp

text \<open>A reclaim that succeeded left the voucher free.\<close>

lemma settle_frees:
  assumes w: "quiet w" and s: "cleanup_stmt s" "stmt_ok s" and c: "cd_status c = FAILED_SESSION"
  shows "wp (settle_receipt s v c b code cs) (\<lambda>ok w'. ok \<longrightarrow> free_code (vo_code v) w') (\<lambda>_ _. True) w"
proof -
  have replay: "wp (isValidCleanupReceiptReplay current rc c b code cs st) (\<lambda>ok w'. ok \<longrightarrow> free_code (vo_code v) w') (\<lambda>_ _. True) w1"
    if a: "vo_hold current = Available \<longrightarrow> free_code (vo_code v) w1" for current rc st w1
  proof (cases "vo_hold current = Available")
    case True
    have "keeps_J (free_code (vo_code v)) (isValidCleanupReceiptReplay current rc c b code cs st)" by (rule fc.keeps_replay)
    thus ?thesis using a True by (auto simp: kept_by_def elim!: wp_mono allE[of _ w1])
  qed (use c in \<open>auto simp: isValidCleanupReceiptReplay_def wp_def p_bind_def p_return_def split: sum.split prod.split option.split\<close>)
  have "keeps_J quiet (v_write s)" using s by (intro qt.keeps_write_cleanup)
  hence wr: "wp (v_write s) (\<lambda>_ w'. quiet w' \<and> True) (\<lambda>_. quiet) w" using w by (simp add: kept_by_def)
  show ?thesis unfolding settle_receipt_def wp_bind
  proof (rule wp_mono[OF wr])
    fix n w1 assume "quiet w1 \<and> True"
    hence w1: "quiet w1" by simp
    show "wp (getReservationSnapshot (vo_code v)) (\<lambda>snap. wp (case snap of
        SnapValid current rc \<Rightarrow> isValidCleanupReceiptReplay current rc c b code cs (hold_state (vo_hold v)) | _ \<Rightarrow> p_return False)
      (\<lambda>ok w'. ok \<longrightarrow> free_code (vo_code v) w') (\<lambda>_ _. True)) (\<lambda>_ _. True) w1"
      by (rule wp_mono[OF wp_snapshot_free[OF w1]]) (auto simp: wp_simps intro!: replay split: reservation_snapshot.split)
  qed simp
qed

lemma release_frees:
  assumes "quiet w" "frees v c"
  shows "wp (releaseFailedReservation v c b code cs) (\<lambda>ok w'. ok \<longrightarrow> free_code (vo_code v) w') (\<lambda>_ _. True) w"
  using assms unfolding releaseFailedReservation_def Let_def frees_def
  by (cases "vo_hold v") (auto simp: wp_simps session_key_of_def intro!: settle_frees)

lemma reclaim_frees:
  assumes w: "quiet w" and v: "holds_for v owner"
  shows "wp (reclaim_failed env v owner start target) (\<lambda>ok w'. ok \<longrightarrow> free_code (vo_code v) w') (\<lambda>_ _. True) w"
proof -
  let ?Q = "\<lambda>ok w'. ok \<longrightarrow> free_code (vo_code v) w'"
  have cl0: "wp (cleanup_session env c) (\<lambda>ok w'. free_code (vo_code v) w' \<and> True) (\<lambda>_. free_code (vo_code v)) w2"
    if "free_code (vo_code v) w2" for c w2
    using fc.keeps_cleanup[of "vo_code v" env c] that by (simp add: kept_by_def)
  have cl: "wp (cleanup_session env c) ?Q (\<lambda>_ _. True) w2" if "free_code (vo_code v) w2" for c w2
    by (rule wp_mono[of "cleanup_session env c" "\<lambda>ok w'. free_code (vo_code v) w' \<and> True"]) (use that cl0 in auto)
  have rel: "wp (p_bind (releaseFailedReservation v c b (vo_code v) cs) (\<lambda>ok. if ok then cleanup_session env c else p_return False)) ?Q (\<lambda>_ _. True) w1"
    if "quiet w1" "frees v c" for b cs c w1
    unfolding wp_bind by (rule wp_mono[OF release_frees[OF that]]) (auto simp: wp_simps intro: cl)
  have own: "wp (p_bind (getVoucherCodesForSession owner) (\<lambda>owned. if owned \<noteq> Some [vo_code v] then p_return False
        else p_bind (releaseFailedReservation v c b (vo_code v) cs) (\<lambda>ok. if ok then cleanup_session env c else p_return False))) ?Q (\<lambda>_ _. True) w1"
    if "quiet w1" "frees v c" for b cs c w1
  proof -
    have "wp (getVoucherCodesForSession owner) (\<lambda>_ w'. quiet w' \<and> True) (\<lambda>_. quiet) w1"
      using qt.keeps_codes(1) that(1) by (simp add: kept_by_def)
    thus ?thesis unfolding wp_bind by (rule wp_mono) (use rel[OF _ that(2)] in \<open>auto simp: wp_return wp_bind\<close>)
  qed
  have "wp (getFailedSessionReservationSnapshot env owner start) (\<lambda>f w'. quiet w' \<and> failed_of owner f) (\<lambda>_. quiet) w"
    using qt.kept_failed w by (simp add: kept_by_def)
  thus ?thesis unfolding reclaim_failed_def wp_bind
  proof (rule wp_mono)
    fix f w1 assume f: "quiet w1 \<and> failed_of owner f"
    have "frees v c" if "f = Some (b, cs, c)" for b cs c
      using v f that by (auto simp: frees_def failed_of_def holds_for_def split: voucher_hold.splits)
    thus "wp (case f of None \<Rightarrow> p_return False | Some (b, cs, c) \<Rightarrow>
        if vb_voucherCode b \<noteq> Some (vo_code v) \<or> (target \<noteq> None \<and> target \<noteq> Some (vb_targetAddr b)) then p_return False
        else p_bind (getVoucherCodesForSession owner) (\<lambda>owned. if owned \<noteq> Some [vo_code v] then p_return False
          else p_bind (releaseFailedReservation v c b (vo_code v) cs) (\<lambda>ok. if ok then cleanup_session env c else p_return False)))
        ?Q (\<lambda>_ _. True) w1"
      using f own by (auto simp: wp_return split: option.split)
  qed simp
qed

lemma reserve_free: "free_code code w \<Longrightarrow> reserve_from z (Suc n) env code sid start w = reserve_from z' (Suc n') env code sid start w"
proof -
  assume w: "free_code code w"
  have "p_bind (getReservationSnapshot code) (reserve_snapshot a env code sid start) w =
      p_bind (getReservationSnapshot code) (reserve_snapshot a' env code sid start) w" for a a'
  proof (rule p_bind_wp[OF free_code_snapshot[OF w]])
    fix snap w' assume s: "free_code code w' \<and> (\<forall>v rc owner. snap = SnapValid v rc \<longrightarrow> \<not> holds_for v owner)"
    show "reserve_snapshot a env code sid start snap w' = reserve_snapshot a' env code sid start snap w'"
      by (rule fc.reserve_snapshot_cong[of code, where R = "\<lambda>_. False"]) (use s in auto)
  qed
  thus ?thesis by simp
qed

lemma reserve_from_cong:
  "p_bind (getReservationSnapshot code) (reserve_snapshot (reserve_from z m env code sid start) env code sid start) w =
   p_bind (getReservationSnapshot code) (reserve_snapshot (reserve_from z' m' env code sid start) env code sid start) w \<Longrightarrow>
   reserve_from z (Suc m) env code sid start w = reserve_from z' (Suc m') env code sid start w"
  by simp

lemma reserve_quiet:
  assumes w: "quiet w"
  shows "reserve_from z (Suc (Suc n)) env code sid start w = reserve_from z' (Suc (Suc n')) env code sid start w"
proof -
  have "reserve_snapshot (reserve_from z (Suc n) env code sid start) env code sid start snap w' =
      reserve_snapshot (reserve_from z' (Suc n') env code sid start) env code sid start snap w'" if "quiet w'" for snap w'
    by (rule qt.reserve_snapshot_cong[where R = "free_code code", OF that _ reserve_free]) (use reclaim_frees in blast)
  hence "p_bind (getReservationSnapshot code) (reserve_snapshot (reserve_from z (Suc n) env code sid start) env code sid start) w =
      p_bind (getReservationSnapshot code) (reserve_snapshot (reserve_from z' (Suc n') env code sid start) env code sid start) w"
    by (intro p_bind_kept[OF qt.keeps_snapshot w])
  thus ?thesis by (rule reserve_from_cong)
qed

subsection \<open>With interference\<close>

definition busy :: "nat \<Rightarrow> voucher_world \<Rightarrow> bool" where
  "busy k w \<longleftrightarrow> v_inv w \<and> length (vw_others w) \<le> k"

interpretation bs: voucher_invariant_all "busy k" for k
proof unfold_locales
  show "busy k w \<Longrightarrow> busy k (interfere w)" for w
    using vnext_inv[OF interfere_next] by (auto simp: busy_def interfere_others)
  show "busy k w \<Longrightarrow> busy k (w\<lparr>vw_store := db\<rparr>)" for w db by (simp add: busy_def)
qed (auto simp: busy_def simp del: run_stmt.simps dest: stmt_others vnext_inv[OF stmt_next])

lemma snapshot_others:
  assumes "busy (Suc k) w"
  shows "wp (getReservationSnapshot code) (\<lambda>_. busy k) (\<lambda>_ _. True) w"
proof -
  have "busy k (interfere w)" using assms vnext_inv[OF interfere_next] by (auto simp: busy_def interfere_others)
  hence "busy k ((interfere w)\<lparr>vw_store := db\<rparr>)" for db by (simp add: busy_def)
  thus ?thesis unfolding getReservationSnapshot_def wp_bind
    by (auto simp: wp_def v_read_def Let_def p_return_def p_lift_def split: prod.split db_fault.split option.split sum.split)
qed

lemma reserve_stable: "busy k w \<Longrightarrow> reserve_from z (k + 2 + n) env code sid start w = reserve_from z' (k + 2 + n') env code sid start w"
proof (induction k arbitrary: w n n')
  case 0
  hence "quiet w" by (simp add: busy_def quiet_def)
  from reserve_quiet[OF this] show ?case by (simp del: reserve_from.simps)
next
  case (Suc k)
  have "reserve_snapshot (reserve_from z (k + 2 + n) env code sid start) env code sid start snap w' =
      reserve_snapshot (reserve_from z' (k + 2 + n') env code sid start) env code sid start snap w'" if w': "busy k w'" for snap w'
  proof (rule bs.reserve_snapshot_cong[where R = "busy k", OF w' _ Suc.IH])
    fix v rc owner st target w1 assume w1: "busy k w1" "holds_for v owner"
    have "wp (reclaim_failed env v owner st target) (\<lambda>_ w'. busy k w' \<and> True) (\<lambda>_. busy k) w1"
      using bs.keeps_reclaim w1 by (simp add: kept_by_def holds_for_def)
    thus "wp (reclaim_failed env v owner st target) (\<lambda>ok w'. ok \<longrightarrow> busy k w') (\<lambda>_ _. True) w1" by (rule wp_mono) auto
  qed
  hence "p_bind (getReservationSnapshot code) (reserve_snapshot (reserve_from z (k + 2 + n) env code sid start) env code sid start) w =
      p_bind (getReservationSnapshot code) (reserve_snapshot (reserve_from z' (k + 2 + n') env code sid start) env code sid start) w"
    by (intro p_bind_wp[OF snapshot_others[OF Suc.prems]])
  thus ?case unfolding add_Suc by (rule reserve_from_cong)
qed

text \<open>C33. Reserving a voucher returns, and calls itself a bounded number of times.  When other clients act
  before at most \<^verbatim>\<open>k\<close> of its statements, the method calls itself at most \<^verbatim>\<open>k + 1\<close> times, once when
  nobody else acts, whatever they do and whatever the driver loses: a run that may make \<^verbatim>\<open>k + 2\<close> calls in
  all has the outcome of a run that may make any larger number, and none of them depends on \<^verbatim>\<open>z\<close>, which
  stands for whatever happens when the number is used up.\<close>

theorem reserve_voucher_returns:
  assumes "v_inv w" "fuel \<ge> length (vw_others w) + 2"
  shows "reserve_from z fuel env code sid start w = reserveVoucher (length (vw_others w) + 2) env code sid start w"
proof -
  obtain n where "fuel = length (vw_others w) + 2 + n" using assms(2) le_Suc_ex by blast
  thus ?thesis using reserve_stable[of "length (vw_others w)" w z n env code sid start "p_throw (DbError ''out of fuel'')" 0] assms(1)
    by (simp add: busy_def reserveVoucher_def)
qed

lemma reserve_voucher_returns_witness:
  "fst (reserve_from (p_return False) 7 demo_voucher_env ''AB'' ''s2'' 2 (fold (voucher_event_step demo_voucher_env) (take 7 demo_voucher_events) demo_vouchers)) = Inr True"
proof -
  let ?w = "fold (voucher_event_step demo_voucher_env) (take 7 demo_voucher_events) demo_vouchers"
  have r: "distinct (map vr_Code (vw_rows ?w)) \<and> map vr_SessionId (vw_rows ?w) = [Some ''s1''] \<and> vw_others ?w = []
      \<and> fst (reserveVoucher 2 demo_voucher_env ''AB'' ''s2'' 2 ?w) = Inr True" by code_simp
  then obtain r where "vw_rows ?w = [r]" by auto
  hence "v_inv ?w" using r by (simp add: v_inv_def owner_unique_def)
  thus ?thesis using reserve_voucher_returns[of ?w 7 "p_return False" demo_voucher_env "''AB''" "''s2''" 2] r by (simp add: numeral_2_eq_2)
qed

end
