(* ===== verification/Public_Errors.thy ===== *)
theory Public_Errors
  imports Faucet_Session
begin

text \<open>
  \<^verbatim>\<open>src/src/webserv/PublicErrors.ts\<close>: what a client is told of an error.  Every code a client may
  see has a policy: a fixed text, and for some codes the text of the error itself, with data that
  is projected to the fields a client may see.
\<close>

subsection \<open>Policies\<close>

definition PUBLIC_INTERNAL_ERROR_CODE :: string where
  "PUBLIC_INTERNAL_ERROR_CODE = ''INTERNAL_ERROR''"

definition PUBLIC_INTERNAL_ERROR_MESSAGE :: string where
  "PUBLIC_INTERNAL_ERROR_MESSAGE = ''An internal error occurred.''"

datatype public_data = PublicAddress string | PublicIpInfo string bool bool

record client_failure =
  cf_failedCode :: string
  cf_failedReason :: string
  cf_failedData :: "public_data option"

datatype projection = NoProjection | AddressData | IpInfoData

record public_policy =
  pp_fallback :: string
  pp_allowDynamicMessage :: bool
  pp_projectData :: projection

definition isValidPublicAddress :: "js_value \<Rightarrow> string option" where
  "isValidPublicAddress v = (case v of JStr a \<Rightarrow> if is_valid_target a then Some a else None | _ \<Rightarrow> None)"

text \<open>\<^verbatim>\<open>None\<close> is the invalid projection.\<close>

fun isRecord :: "js_value \<Rightarrow> bool" where
  "isRecord (JObj _) = True"
| "isRecord _ = False"

definition projectAddressData :: "js_value \<Rightarrow> public_data option option" where
  "projectAddressData v = (if \<not> isRecord v then None else case isValidPublicAddress (own_property v ''address'') of
      None \<Rightarrow> None | Some a \<Rightarrow> Some (Some (PublicAddress a)))"

definition projectIpInfoData :: "js_value \<Rightarrow> public_data option option" where
  "projectIpInfoData v = (if v = JUndefined then Some None
     else if \<not> isRecord v then None
     else case (isValidPublicAddress (own_property v ''address''), own_property v ''ipflags'') of
       (Some a, JArr [JBool b, JBool c]) \<Rightarrow> Some (Some (PublicIpInfo a b c))
     | _ \<Rightarrow> None)"

definition PUBLIC_ERROR_POLICIES :: "(string \<times> public_policy) list" where
  "PUBLIC_ERROR_POLICIES =
  [
   (''AMOUNT_TOO_LOW'', \<lparr>pp_fallback = ''drop amount lower than minimum'', pp_allowDynamicMessage = False, pp_projectData = NoProjection\<rparr>),
   (''AUTHENTICATOOR_CONCURRENCY_LIMIT'', \<lparr>pp_fallback = ''Concurrent session limit reached for this authenticated user.'', pp_allowDynamicMessage = True, pp_projectData = NoProjection\<rparr>),
   (''AUTHENTICATOOR_LIMIT'', \<lparr>pp_fallback = ''Authenticated-user faucet limit reached.'', pp_allowDynamicMessage = True, pp_projectData = NoProjection\<rparr>),
   (''AUTHENTICATOOR_REQUIRED'', \<lparr>pp_fallback = ''You need to authenticate to use this faucet.'', pp_allowDynamicMessage = False, pp_projectData = NoProjection\<rparr>),
   (''AUTHENTICATOOR_TOKEN'', \<lparr>pp_fallback = ''Invalid authenticatoor login token.'', pp_allowDynamicMessage = False, pp_projectData = NoProjection\<rparr>),
   (''BALANCE_ERROR'', \<lparr>pp_fallback = ''Could not get wallet balance.'', pp_allowDynamicMessage = False, pp_projectData = NoProjection\<rparr>),
   (''BALANCE_LIMIT'', \<lparr>pp_fallback = ''This wallet exceeds the faucet balance limit.'', pp_allowDynamicMessage = True, pp_projectData = NoProjection\<rparr>),
   (''CONCURRENCY_LIMIT'', \<lparr>pp_fallback = ''Concurrent session limit reached.'', pp_allowDynamicMessage = True, pp_projectData = NoProjection\<rparr>),
   (''CONTRACT_ADDR'', \<lparr>pp_fallback = ''Cannot start session for a contract address.'', pp_allowDynamicMessage = False, pp_projectData = NoProjection\<rparr>),
   (''CONTRACT_LIMIT'', \<lparr>pp_fallback = ''Could not check contract status of wallet.'', pp_allowDynamicMessage = False, pp_projectData = NoProjection\<rparr>),
   (''FAUCET_EMPTY'', \<lparr>pp_fallback = ''The faucet is empty. Wait for it to be refilled and try again'', pp_allowDynamicMessage = True, pp_projectData = NoProjection\<rparr>),
   (''FAUCET_DISABLED'', \<lparr>pp_fallback = ''The faucet is currently not allowing new sessions.'', pp_allowDynamicMessage = True, pp_projectData = NoProjection\<rparr>),
   (''FAUCET_UNAVAILABLE'', \<lparr>pp_fallback = ''The faucet is temporarily unavailable. Please try again shortly.'', pp_allowDynamicMessage = False, pp_projectData = NoProjection\<rparr>),
   (''GITHUB_CHECK'', \<lparr>pp_fallback = ''Your github account does not meet the minimum requirements.'', pp_allowDynamicMessage = True, pp_projectData = NoProjection\<rparr>),
   (''GITHUB_LIMIT'', \<lparr>pp_fallback = ''GitHub account faucet limit reached.'', pp_allowDynamicMessage = True, pp_projectData = NoProjection\<rparr>),
   (''INVALID_ADDR'', \<lparr>pp_fallback = ''Invalid target address.'', pp_allowDynamicMessage = False, pp_projectData = NoProjection\<rparr>),
   (''INVALID_CAPTCHA'', \<lparr>pp_fallback = ''captcha check failed: invalid token'', pp_allowDynamicMessage = False, pp_projectData = NoProjection\<rparr>),
   (''INVALID_ENSNAME'', \<lparr>pp_fallback = ''Could not resolve ENS Name.'', pp_allowDynamicMessage = False, pp_projectData = NoProjection\<rparr>),
   (''INVALID_IPINFO'', \<lparr>pp_fallback = ''Error while checking your IP.'', pp_allowDynamicMessage = False, pp_projectData = NoProjection\<rparr>),
   (''INVALID_REMOTE_IP'', \<lparr>pp_fallback = ''Unable to determine a valid client IP address.'', pp_allowDynamicMessage = False, pp_projectData = NoProjection\<rparr>),
   (''IPINFO_RESTRICTION'', \<lparr>pp_fallback = ''IP Blocked.'', pp_allowDynamicMessage = True, pp_projectData = IpInfoData\<rparr>),
   (''MAINNET_BALANCE_CHECK'', \<lparr>pp_fallback = ''Could not get balance of mainnet wallet.'', pp_allowDynamicMessage = False, pp_projectData = NoProjection\<rparr>),
   (''MAINNET_BALANCE_LIMIT'', \<lparr>pp_fallback = ''This wallet does not meet the mainnet balance requirement.'', pp_allowDynamicMessage = True, pp_projectData = NoProjection\<rparr>),
   (''MAINNET_TXCOUNT_CHECK'', \<lparr>pp_fallback = ''Could not get tx-count of mainnet wallet.'', pp_allowDynamicMessage = False, pp_projectData = NoProjection\<rparr>),
   (''MAINNET_TXCOUNT_LIMIT'', \<lparr>pp_fallback = ''This wallet does not meet the mainnet transaction-count requirement.'', pp_allowDynamicMessage = True, pp_projectData = NoProjection\<rparr>),
   (''NOT_CLAIMABLE'', \<lparr>pp_fallback = ''cannot claim session: not claimable'', pp_allowDynamicMessage = False, pp_projectData = NoProjection\<rparr>),
   (''PASSPORT_CHECK_FAILED'', \<lparr>pp_fallback = ''Could not verify Gitcoin Passport. Please try again shortly.'', pp_allowDynamicMessage = False, pp_projectData = NoProjection\<rparr>),
   (''PASSPORT_SCORE'', \<lparr>pp_fallback = ''Your wallet does not meet the minimum passport score.'', pp_allowDynamicMessage = True, pp_projectData = AddressData\<rparr>),
   (''RACE_CLAIMING'', \<lparr>pp_fallback = ''cannot claim session: already claiming'', pp_allowDynamicMessage = False, pp_projectData = NoProjection\<rparr>),
   (''RECURRING_LIMIT'', \<lparr>pp_fallback = ''Faucet request limit reached.'', pp_allowDynamicMessage = True, pp_projectData = NoProjection\<rparr>),
   (''REQUIRE_ENSNAME'', \<lparr>pp_fallback = ''Only ENS Names allowed.'', pp_allowDynamicMessage = False, pp_projectData = NoProjection\<rparr>),
   (''RESTRICTION'', \<lparr>pp_fallback = ''IP Blocked.'', pp_allowDynamicMessage = False, pp_projectData = NoProjection\<rparr>),
   (''SESSION_TIMEOUT'', \<lparr>pp_fallback = ''Session timed out'', pp_allowDynamicMessage = False, pp_projectData = NoProjection\<rparr>),
   (''SHUTTING_DOWN'', \<lparr>pp_fallback = ''cannot claim session: faucet is shutting down'', pp_allowDynamicMessage = False, pp_projectData = NoProjection\<rparr>),
   (''SLASHED'', \<lparr>pp_fallback = ''invalid PoW verification result'', pp_allowDynamicMessage = False, pp_projectData = NoProjection\<rparr>),
   (''STAKE_CHECK_FAILED'', \<lparr>pp_fallback = ''Could not verify staked HYPE. Please try again in a few minutes.'', pp_allowDynamicMessage = False, pp_projectData = NoProjection\<rparr>),
   (''STAKE_REQUIRED'', \<lparr>pp_fallback = ''Your wallet does not meet the minimum staked HYPE requirement.'', pp_allowDynamicMessage = True, pp_projectData = AddressData\<rparr>),
   (''VOUCHER_INVALID'', \<lparr>pp_fallback = ''The provided voucher code is not valid.'', pp_allowDynamicMessage = False, pp_projectData = NoProjection\<rparr>),
   (''VOUCHER_REQUIRED'', \<lparr>pp_fallback = ''A valid voucher code is required.'', pp_allowDynamicMessage = False, pp_projectData = NoProjection\<rparr>),
   (''VOUCHER_USED'', \<lparr>pp_fallback = ''This voucher code has already been used.'', pp_allowDynamicMessage = False, pp_projectData = NoProjection\<rparr>),
   (''ZUPASS_CONCURRENCY_LIMIT'', \<lparr>pp_fallback = ''Concurrent session limit reached for this ticket holder.'', pp_allowDynamicMessage = True, pp_projectData = NoProjection\<rparr>),
   (''ZUPASS_LIMIT'', \<lparr>pp_fallback = ''Ticket-holder faucet limit reached.'', pp_allowDynamicMessage = True, pp_projectData = NoProjection\<rparr>),
   (''ZUPASS_REQUIRED'', \<lparr>pp_fallback = ''You need to authenticate with your zupass account to use this faucet.'', pp_allowDynamicMessage = False, pp_projectData = NoProjection\<rparr>),
   (''ZUPASS_TOKEN'', \<lparr>pp_fallback = ''Invalid zupass login token'', pp_allowDynamicMessage = False, pp_projectData = NoProjection\<rparr>)]"

definition isPublicErrorCode :: "string \<Rightarrow> public_policy option" where
  "isPublicErrorCode code = map_of PUBLIC_ERROR_POLICIES code"

subsection \<open>Errors\<close>

text \<open>An exception: any value, a \<^verbatim>\<open>FaucetError\<close>, or a \<^verbatim>\<open>PublicFaucetError\<close> with its data.\<close>

datatype web_error = OtherError string | FaucetFailure string string | PublicFailure string string js_value

definition is_control :: "char \<Rightarrow> bool" where
  "is_control c \<longleftrightarrow> (let n = of_char c :: nat in n \<le> 31 \<or> (127 \<le> n \<and> n \<le> 159))"

definition isValidDynamicMessage :: "string \<Rightarrow> bool" where
  "isValidDynamicMessage m \<longleftrightarrow> m \<noteq> [] \<and> length m \<le> 512 \<and> js_trim m \<noteq> [] \<and> \<not> (\<exists>c \<in> set m. is_control c)"

definition internalFailure :: client_failure where
  "internalFailure = \<lparr>cf_failedCode = PUBLIC_INTERNAL_ERROR_CODE, cf_failedReason = PUBLIC_INTERNAL_ERROR_MESSAGE, cf_failedData = None\<rparr>"

definition project_public :: "projection \<Rightarrow> js_value \<Rightarrow> public_data option option" where
  "project_public p v = (case p of
      AddressData \<Rightarrow> projectAddressData v
    | IpInfoData \<Rightarrow> projectIpInfoData v
    | NoProjection \<Rightarrow> if v = JUndefined then Some None else None)"

text \<open>The answer, and whether the error was logged as unexpected.\<close>

definition toClientFailure :: "web_error \<Rightarrow> bool \<Rightarrow> client_failure \<times> bool" where
  "toClientFailure error allowPublicData = (case error of
      OtherError _ \<Rightarrow> (internalFailure, True)
    | FaucetFailure code _ \<Rightarrow> (case isPublicErrorCode code of
        None \<Rightarrow> (internalFailure, True)
      | Some policy \<Rightarrow> (\<lparr>cf_failedCode = code, cf_failedReason = pp_fallback policy, cf_failedData = None\<rparr>, False))
    | PublicFailure code message publicData \<Rightarrow> (case isPublicErrorCode code of
        None \<Rightarrow> (internalFailure, True)
      | Some policy \<Rightarrow>
          if \<not> pp_allowDynamicMessage policy \<or> \<not> isValidDynamicMessage message then (internalFailure, True)
          else (case project_public (pp_projectData policy) publicData of
            None \<Rightarrow> (internalFailure, True)
          | Some data' \<Rightarrow> (\<lparr>cf_failedCode = code, cf_failedReason = message,
              cf_failedData = (if allowPublicData then data' else None)\<rparr>, False))))"

definition toStoredClientFailure :: "string option \<Rightarrow> client_failure" where
  "toStoredClientFailure code = (case code of
      None \<Rightarrow> internalFailure
    | Some c \<Rightarrow> (case isPublicErrorCode c of
        None \<Rightarrow> internalFailure
      | Some policy \<Rightarrow> \<lparr>cf_failedCode = c, cf_failedReason = pp_fallback policy, cf_failedData = None\<rparr>))"

definition getPublicClaimError :: "js_value \<Rightarrow> string option" where
  "getPublicClaimError status = (if status = JStr ''failed'' then Some ''Claim processing failed.''
     else if status = JStr ''reverted'' then Some ''Transaction reverted.'' else None)"

subsection \<open>What an answer can hold\<close>

fun data_allowed :: "projection \<Rightarrow> public_data option \<Rightarrow> bool" where
  "data_allowed p None = True"
| "data_allowed AddressData (Some (PublicAddress a)) = is_valid_target a"
| "data_allowed IpInfoData (Some (PublicIpInfo a _ _)) = is_valid_target a"
| "data_allowed _ (Some _) = False"

text \<open>The type of an answer: a known code with a text a client may see and data of its kind, or the
  internal failure.\<close>

definition client_failure_ok :: "client_failure \<Rightarrow> bool" where
  "client_failure_ok f \<longleftrightarrow> isValidDynamicMessage (cf_failedReason f) \<and>
     (case isPublicErrorCode (cf_failedCode f) of
        None \<Rightarrow> f = internalFailure
      | Some policy \<Rightarrow> (cf_failedReason f = pp_fallback policy \<or> pp_allowDynamicMessage policy)
          \<and> data_allowed (pp_projectData policy) (cf_failedData f))"

lemma policies_displayable: "\<forall>p \<in> set PUBLIC_ERROR_POLICIES. isValidDynamicMessage (pp_fallback (snd p))"
  by code_simp

lemma fallback_displayable: "isPublicErrorCode code = Some policy \<Longrightarrow> isValidDynamicMessage (pp_fallback policy)"
  using policies_displayable map_of_SomeD[of PUBLIC_ERROR_POLICIES code policy] by (fastforce simp: isPublicErrorCode_def)

lemma internal_ok [simp]: "client_failure_ok internalFailure"
proof -
  have "isPublicErrorCode PUBLIC_INTERNAL_ERROR_CODE = None" "isValidDynamicMessage PUBLIC_INTERNAL_ERROR_MESSAGE" by code_simp+
  thus ?thesis by (simp add: client_failure_ok_def internalFailure_def)
qed

lemma internal_code: "isPublicErrorCode code = Some policy \<Longrightarrow> code \<noteq> PUBLIC_INTERNAL_ERROR_CODE"
proof -
  have "isPublicErrorCode PUBLIC_INTERNAL_ERROR_CODE = None" by code_simp
  thus "isPublicErrorCode code = Some policy \<Longrightarrow> ?thesis" by auto
qed

lemma project_allowed: "project_public p v = Some d \<Longrightarrow> data_allowed p d"
  by (cases p) (auto simp: project_public_def projectAddressData_def projectIpInfoData_def isValidPublicAddress_def
     split: if_splits option.splits js_value.splits list.splits)

lemma known_failure_ok:
  assumes "isPublicErrorCode code = Some policy" "isValidDynamicMessage reason"
    "reason = pp_fallback policy \<or> pp_allowDynamicMessage policy" "data_allowed (pp_projectData policy) d"
  shows "client_failure_ok \<lparr>cf_failedCode = code, cf_failedReason = reason, cf_failedData = d\<rparr>"
  using assms by (auto simp: client_failure_ok_def)

lemma stored_failure_ok: "client_failure_ok (toStoredClientFailure code)"
  by (auto simp: toStoredClientFailure_def fallback_displayable intro!: known_failure_ok split: option.splits)

text \<open>C34. What a client is told is well typed, whatever was thrown: a known code with its fixed
  text, or with a printable text of at most 512 characters where its policy takes one, and with
  data of the kind its policy projects, holding a valid address; or the internal failure.  Data
  is only given where the caller allows it.\<close>

theorem client_failure_well_typed:
  "client_failure_ok (fst (toClientFailure error allow)) \<and> client_failure_ok (toStoredClientFailure code) \<and>
   cf_failedData (fst (toClientFailure error False)) = None \<and> cf_failedData (toStoredClientFailure code) = None"
proof -
  have "client_failure_ok (fst (toClientFailure error allow))"
    by (auto simp: toClientFailure_def fallback_displayable project_allowed intro!: known_failure_ok split: web_error.splits option.splits)
  moreover have "cf_failedData (fst (toClientFailure error False)) = None"
    by (auto simp: toClientFailure_def internalFailure_def split: web_error.splits option.splits)
  moreover have "cf_failedData (toStoredClientFailure code) = None"
    by (auto simp: toStoredClientFailure_def internalFailure_def split: option.splits)
  ultimately show ?thesis using stored_failure_ok by blast
qed

subsection \<open>What is told now and later\<close>

text \<open>A session error as the web layer sees it; \<^verbatim>\<open>public\<close> holds the data of the errors that are public.\<close>

fun web_error_of :: "(string \<Rightarrow> js_value option) \<Rightarrow> session_error \<Rightarrow> web_error" where
  "web_error_of public (FaucetErr code message) = (case public code of
     None \<Rightarrow> FaucetFailure code message | Some d \<Rightarrow> PublicFailure code message d)"
| "web_error_of public e = OtherError (error_text e)"

text \<open>C35. The text of an error never decides what a client is told, unless the error is a public
  one: a session whose start failed is answered at once exactly as it is answered later from its
  row, which holds the code only.  A public error is told with its own text or as the internal
  failure, under its own code; whatever is told as internal is logged, and nothing else is.\<close>

theorem failure_told_by_code:
  "(public (fst (start_error e)) = None \<longrightarrow>
      fst (toClientFailure (web_error_of public e) allow) = toStoredClientFailure (Some (fst (start_error e)))) \<and>
   (cf_failedCode (fst (toClientFailure (web_error_of public e) allow)) \<in> {fst (start_error e), PUBLIC_INTERNAL_ERROR_CODE}) \<and>
   (snd (toClientFailure (web_error_of public e) allow) \<longleftrightarrow> fst (toClientFailure (web_error_of public e) allow) = internalFailure)"
proof -
  have internal: "isPublicErrorCode ''INTERNAL_ERROR'' = None" by code_simp
  have differ: "\<lparr>cf_failedCode = code, cf_failedReason = r, cf_failedData = d\<rparr> \<noteq> internalFailure"
    if "isPublicErrorCode code = Some policy" for code policy r d
    using internal_code[OF that] by (simp add: internalFailure_def)
  have "toStoredClientFailure (Some ''INTERNAL_ERROR'') = internalFailure" by (simp add: toStoredClientFailure_def internal)
  thus ?thesis using differ
    by (cases e) (auto simp: toClientFailure_def toStoredClientFailure_def internalFailure_def PUBLIC_INTERNAL_ERROR_CODE_def
      split: option.splits)
qed

theorem failure_told_by_code_witness:
  "fst (toClientFailure (web_error_of (\<lambda>_. None) (FaucetErr ''VOUCHER_USED'' ''code AB'')) True) = toStoredClientFailure (Some ''VOUCHER_USED'')"
  using failure_told_by_code[of "\<lambda>_. None" "FaucetErr ''VOUCHER_USED'' ''code AB''" True] by simp

end
