(* ===== verification/Web_Api.thy ===== *)
theory Web_Api
  imports Public_Errors Claim_Manager Ip_Address
begin

text \<open>
  \<^verbatim>\<open>src/src/webserv/FaucetWebApi.ts\<close>: how a request of the HTTP API is parsed, limited and
  dispatched, and what a client is told about a session.  An object that the code uses as a map
  also has the properties of \<^verbatim>\<open>Object.prototype\<close>; a lookup tells which kind it found.
\<close>

subsection \<open>Objects used as maps\<close>

datatype 'v slot = Own 'v | Inherited | Missing

definition OBJECT_PROTOTYPE :: "string list" where
  "OBJECT_PROTOTYPE = [''constructor'', ''__proto__'', ''hasOwnProperty'', ''isPrototypeOf'', ''propertyIsEnumerable'',
     ''toLocaleString'', ''toString'', ''valueOf'', ''__defineGetter__'', ''__defineSetter__'', ''__lookupGetter__'', ''__lookupSetter__'']"

definition obj_lookup :: "(string, 'v) jsmap \<Rightarrow> string \<Rightarrow> 'v slot" where
  "obj_lookup m k = (case js_get m k of Some v \<Rightarrow> Own v | None \<Rightarrow> if k \<in> set OBJECT_PROTOTYPE then Inherited else Missing)"

subsection \<open>Parsing a request\<close>

datatype query_value = QueryFlag | QueryText string

record api_url =
  au_path :: "string list"
  au_query :: "(string, query_value) jsmap"

definition parse_query :: "string \<Rightarrow> (string, query_value) jsmap" where
  "parse_query q = fold (\<lambda>query m. case take 2 (split_on CHR ''='' query) of
       [k] \<Rightarrow> if k = ''__proto__'' then m else js_set k QueryFlag m
     | [k, v] \<Rightarrow> if k = ''__proto__'' then m else js_set k (QueryText v) m
     | _ \<Rightarrow> m) (split_on CHR ''&'' q) []"

text \<open>The pattern \<^verbatim>\<open>^/api/([^/?]+)(?:\?([^#]*))?$\<close>.\<close>

definition url_name :: "string \<Rightarrow> string" where
  "url_name url = takeWhile (\<lambda>c. c \<noteq> CHR ''/'' \<and> c \<noteq> CHR ''?'') (drop 5 url)"

definition url_rest :: "string \<Rightarrow> string" where
  "url_rest url = dropWhile (\<lambda>c. c \<noteq> CHR ''/'' \<and> c \<noteq> CHR ''?'') (drop 5 url)"

definition parseApiUrl :: "string \<Rightarrow> api_url option" where
  "parseApiUrl url =
     (if take 5 url \<noteq> ''/api/'' then None
      else let name = url_name url in
        if name = [] then None
        else case url_rest url of
          [] \<Rightarrow> Some \<lparr>au_path = [name], au_query = []\<rparr>
        | c # q \<Rightarrow> if c = CHR ''?'' \<and> CHR ''#'' \<notin> set q
            then Some \<lparr>au_path = [name], au_query = (if q = [] then [] else parse_query q)\<rparr> else None)"

subsection \<open>Endpoints\<close>

text \<open>The options of an endpoint that a module registered; a computed limit is what the callback
  returns.\<close>

datatype endpoint_limit = NoLimitOption | LimitOption js_number

text \<open>What the code makes of a limit; \<^verbatim>\<open>LimitUnusable\<close> is the value that is no number.\<close>

datatype body_limit = NoBodyLimit | BodyLimit int | LimitUnusable

type_synonym endpoints = "(string, endpoint_limit) jsmap"

definition registerApiEndpoint :: "string \<Rightarrow> endpoint_limit \<Rightarrow> endpoints \<Rightarrow> endpoints" where
  "registerApiEndpoint endpoint limit m = js_set (toLowerCase endpoint) limit m"

definition removeApiEndpoint :: "string \<Rightarrow> endpoints \<Rightarrow> endpoints" where
  "removeApiEndpoint endpoint m = js_delete (toLowerCase endpoint) m"

definition BUILT_IN_BODY_LIMITS :: "(string, int) jsmap" where
  "BUILT_IN_BODY_LIMITS = [(''startsession'', 64 * 1024), (''claimreward'', 64 * 1024)]"

datatype web_exception = TypeError

definition built_in_limit :: "string \<Rightarrow> body_limit" where
  "built_in_limit name = (case obj_lookup BUILT_IN_BODY_LIMITS name of Own n \<Rightarrow> BodyLimit n | Inherited \<Rightarrow> LimitUnusable | Missing \<Rightarrow> NoBodyLimit)"

text \<open>The endpoint names are looked up as they come; an inherited property has no options, and
  reading them throws.\<close>

definition getApiRequestBodyLimit :: "endpoints \<Rightarrow> string \<Rightarrow> web_exception + body_limit" where
  "getApiRequestBodyLimit apiEndpoints url = (case parseApiUrl url of
      None \<Rightarrow> Inr NoBodyLimit
    | Some u \<Rightarrow> (case au_path u of
        [] \<Rightarrow> Inr NoBodyLimit
      | p # _ \<Rightarrow> (let endpointName = toLowerCase p in
         case obj_lookup apiEndpoints endpointName of
           Inherited \<Rightarrow> Inl TypeError
         | Own (LimitOption n) \<Rightarrow> (case safe_integer n of
             Some i \<Rightarrow> Inr (if i > 0 then BodyLimit i else built_in_limit endpointName)
           | None \<Rightarrow> Inr (built_in_limit endpointName))
         | _ \<Rightarrow> Inr (built_in_limit endpointName))))"

text \<open>Which handler a request reaches, with the parameters taken from its URL.\<close>

datatype api_call =
    CallVersion | CallMaxReward
  | CallConfig "query_value option" "query_value option"
  | CallStartSession "query_value option"
  | CallSession "query_value option"
  | CallClaimReward
  | CallSessionStatus "query_value option" bool
  | CallQueueStatus | CallFaucetStatus
  | CallModule string
  | CallNotFound
  | CallThrows

definition onApiRequest :: "endpoints \<Rightarrow> string \<Rightarrow> api_call" where
  "onApiRequest apiEndpoints url = (case parseApiUrl url of
      None \<Rightarrow> CallNotFound
    | Some u \<Rightarrow> (case au_path u of
        [p] \<Rightarrow> (let name = toLowerCase p; query = js_get (au_query u) in
          if name = ''getversion'' then CallVersion
          else if name = ''getmaxreward'' then CallMaxReward
          else if name = ''getfaucetconfig'' then CallConfig (query ''cliver'') (query ''session'')
          else if name = ''startsession'' then CallStartSession (query ''cliver'')
          else if name = ''getsession'' then CallSession (query ''session'')
          else if name = ''claimreward'' then CallClaimReward
          else if name = ''getsessionstatus'' then CallSessionStatus (query ''session'') (query ''details'' = Some (QueryText ''true''))
          else if name = ''getqueuestatus'' then CallQueueStatus
          else if name = ''getfaucetstatus'' then CallFaucetStatus
          else case obj_lookup apiEndpoints name of Own _ \<Rightarrow> CallModule name | Inherited \<Rightarrow> CallThrows | Missing \<Rightarrow> CallNotFound)
      | _ \<Rightarrow> CallNotFound))"

definition getRemoteAddr :: "string \<Rightarrow> string option \<Rightarrow> int \<Rightarrow> web_error + string" where
  "getRemoteAddr socketAddress forwardedFor httpProxyCount = (case getTrustedClientIp socketAddress forwardedFor httpProxyCount of
      None \<Rightarrow> Inl (FaucetFailure ''INVALID_REMOTE_IP'' ''Unable to determine a valid client IP address.'')
    | Some a \<Rightarrow> if a = [] then Inl (FaucetFailure ''INVALID_REMOTE_IP'' ''Unable to determine a valid client IP address.'') else Inr a)"

subsection \<open>The view of a session\<close>

definition getFiniteNumber :: "js_value \<Rightarrow> js_value" where
  "getFiniteNumber v = (case v of JNum (Fin q) \<Rightarrow> v | _ \<Rightarrow> JUndefined)"

definition getString :: "js_value \<Rightarrow> js_value" where
  "getString v = (case v of JStr s \<Rightarrow> v | _ \<Rightarrow> JUndefined)"

definition getPassportScore :: "js_value \<Rightarrow> js_value" where
  "getPassportScore v = (if getFiniteNumber v \<noteq> JUndefined then getFiniteNumber v
     else if \<not> is_object v then JUndefined else getFiniteNumber (own_property v ''score''))"

definition valid_factor :: "js_value \<Rightarrow> bool" where
  "valid_factor v \<longleftrightarrow> is_object v \<and> getFiniteNumber (own_property v ''factor'') \<noteq> JUndefined
     \<and> getString (own_property v ''module'') \<noteq> JUndefined
     \<and> (own_property v ''name'' = JUndefined \<or> getString (own_property v ''name'') \<noteq> JUndefined)"

definition public_factor :: "js_value \<Rightarrow> js_value" where
  "public_factor v = JObj ([(''factor'', own_property v ''factor''), (''module'', own_property v ''module'')]
     @ (if own_property v ''name'' = JUndefined then [] else [(''name'', own_property v ''name'')]))"

definition public_claim_error :: "js_value \<Rightarrow> js_value" where
  "public_claim_error status = (case getPublicClaimError status of None \<Rightarrow> JUndefined | Some m \<Rightarrow> JStr m)"

definition claim_details :: "js_value \<Rightarrow> js_value" where
  "claim_details claim = (let p = own_property claim in
     if \<not> js_truthy claim then JUndefined
     else JObj [(''index'', p ''claimIdx''), (''status'', p ''claimStatus''), (''time'', p ''claimTime''),
       (''hash'', getString (p ''txHash'')), (''nonce'', getFiniteNumber (p ''txNonce'')), (''block'', getFiniteNumber (p ''txBlock'')),
       (''fee'', getString (p ''txFee'')), (''error'', public_claim_error (p ''claimStatus''))])"

definition buildPublicSessionDetails :: "store_data \<Rightarrow> js_value" where
  "buildPublicSessionDetails sd =
     (let data' = own_property (sd_data sd);
          lastNonce = getFiniteNumber (data' ''pow.lastNonce'');
          hashrate = getFiniteNumber (data' ''pow.hashrate'');
          idleTime = getFiniteNumber (data' ''pow.idleTime'') in
      JObj [(''clientVersion'', getString (data' ''cliver'')), (''closeTime'', getFiniteNumber (data' ''close.time'')),
        (''proofOfWork'', if lastNonce \<noteq> JUndefined \<or> hashrate \<noteq> JUndefined \<or> idleTime \<noteq> JUndefined
            then JObj [(''lastNonce'', lastNonce), (''hashrate'', hashrate), (''idleTime'', idleTime)] else JUndefined),
        (''rewardFactors'', case data' ''reward.factors'' of JArr vs \<Rightarrow> JArr (map public_factor (filter valid_factor vs)) | _ \<Rightarrow> JUndefined),
        (''passportScore'', getPassportScore (data' ''passport.score'')),
        (''claim'', claim_details (sd_claim sd))])"

definition failure_json :: "client_failure \<Rightarrow> (string \<times> js_value) list" where
  "failure_json f = [(''failedCode'', JStr (cf_failedCode f)), (''failedReason'', JStr (cf_failedReason f))]
     @ (case cf_failedData f of None \<Rightarrow> []
        | Some (PublicAddress a) \<Rightarrow> [(''failedData'', JObj [(''address'', JStr a)])]
        | Some (PublicIpInfo a b c) \<Rightarrow> [(''failedData'', JObj [(''address'', JStr a), (''ipflags'', JArr [JBool b, JBool c])])])"

definition getSessionStatus :: "store_data \<Rightarrow> bool \<Rightarrow> js_value" where
  "getSessionStatus sd details = JObj (
     [(''session'', JStr (sd_sessionId sd)), (''status'', JStr (session_status_text (sd_status sd))), (''start'', json_int (sd_startTime sd)),
      (''tasks'', sd_tasks sd), (''balance'', JStr (sd_dropAmount sd)), (''target'', JStr (sd_targetAddr sd))]
     @ (if sd_status sd = FAILED_SESSION \<and> js_truthy (sd_data sd)
        then failure_json (toStoredClientFailure (string_value (own_property (sd_data sd) ''failed.code''))) else [])
     @ (if js_truthy (sd_claim sd) then (let p = own_property (sd_claim sd) in
         [(''claimIdx'', p ''claimIdx''), (''claimStatus'', p ''claimStatus''), (''claimBlock'', p ''txBlock''),
          (''claimHash'', p ''txHash''), (''claimMessage'', public_claim_error (p ''claimStatus''))]) else [])
     @ (if details then [(''details'', buildPublicSessionDetails sd)] else []))"

subsection \<open>Handlers\<close>

datatype reply = ReplyJson js_value | ReplyStatus int string | ReplyError

text \<open>\<^verbatim>\<open>SessionManager.getSessionData\<close> over the stored form of the sessions in memory.\<close>

definition getSessionData :: "(string, store_data) jsmap \<Rightarrow> string \<Rightarrow> (web_exception + store_data option) db_op" where
  "getSessionData faucetSessions sessionId = (case obj_lookup faucetSessions sessionId of
      Own sd \<Rightarrow> p_return (Inr (Some sd))
    | Inherited \<Rightarrow> p_return (Inl TypeError)
    | Missing \<Rightarrow> p_bind (getSession sessionId) (\<lambda>r. p_return (Inr r)))"

text \<open>A handler that throws is answered with status 500 by the server.\<close>

definition answered :: "reply db_op \<Rightarrow> reply db_op" where
  "answered m = p_catch m (\<lambda>_. p_return ReplyError)"

definition onGetSessionStatus :: "(string, store_data) jsmap \<Rightarrow> string \<Rightarrow> bool \<Rightarrow> reply db_op" where
  "onGetSessionStatus faucetSessions sessionId details =
     (if sessionId = [] then p_return (ReplyStatus 404 ''Session not found'')
      else answered (p_bind (getSessionData faucetSessions sessionId) (\<lambda>r. p_return (case r of
         Inl _ \<Rightarrow> ReplyError
       | Inr None \<Rightarrow> ReplyStatus 404 ''Session not found''
       | Inr (Some sd) \<Rightarrow> ReplyJson (getSessionStatus sd details)))))"

definition failed_reply :: "client_failure \<Rightarrow> reply" where
  "failed_reply f = ReplyJson (JObj ((''status'', JStr ''failed'') # failure_json f))"

definition session_not_found :: reply where
  "session_not_found = failed_reply \<lparr>cf_failedCode = ''INVALID_SESSION'', cf_failedReason = ''Session not found.'', cf_failedData = None\<rparr>"

text \<open>\<^verbatim>\<open>create\<close> is \<^verbatim>\<open>createSessionClaim\<close>, which also updates the data it is given; \<^verbatim>\<open>bound\<close> is what the
  driver answers when a value that is no string is bound.\<close>

definition onClaimReward ::
  "(js_value \<Rightarrow> store_data option db_op) \<Rightarrow> (store_data \<Rightarrow> web_error + store_data) \<Rightarrow> (string, store_data) jsmap
    \<Rightarrow> string \<Rightarrow> json_text \<Rightarrow> reply db_op" where
  "onClaimReward bound create faucetSessions method body =
     (if method \<noteq> ''POST'' then p_return (ReplyStatus 405 ''Method Not Allowed'')
      else case body of
        NotJson _ \<Rightarrow> p_return ReplyError
      | JsonText userInput \<Rightarrow>
         if \<not> js_truthy userInput \<or> \<not> js_truthy (own_property userInput ''session'') then p_return session_not_found
         else answered (p_bind (case own_property userInput ''session'' of
               JStr sid \<Rightarrow> getSessionData faucetSessions sid
             | v \<Rightarrow> p_bind (bound v) (\<lambda>r. p_return (Inr r))) (\<lambda>r. p_return (case r of
           Inl _ \<Rightarrow> ReplyError
         | Inr None \<Rightarrow> session_not_found
         | Inr (Some sd) \<Rightarrow> (case create sd of
             Inl e \<Rightarrow> failed_reply (fst (toClientFailure e False))
           | Inr sd' \<Rightarrow> ReplyJson (getSessionStatus sd' False))))))"

subsection \<open>What a client learns of a session\<close>

definition PUBLIC_DATA_KEYS :: "string list" where
  "PUBLIC_DATA_KEYS = [''failed.code'', ''cliver'', ''close.time'', ''pow.lastNonce'', ''pow.hashrate'', ''pow.idleTime'',
     ''reward.factors'', ''passport.score'']"

definition PUBLIC_CLAIM_KEYS :: "string list" where
  "PUBLIC_CLAIM_KEYS = [''claimIdx'', ''claimStatus'', ''claimTime'', ''txHash'', ''txNonce'', ''txBlock'', ''txFee'']"

definition restrict_to :: "string list \<Rightarrow> js_value \<Rightarrow> js_value" where
  "restrict_to ks v = (case v of JObj fs \<Rightarrow> JObj (filter (\<lambda>f. fst f \<in> set ks) fs) | _ \<Rightarrow> v)"

definition public_part :: "store_data \<Rightarrow> store_data" where
  "public_part sd = sd\<lparr>sd_remoteIP := [], sd_data := restrict_to PUBLIC_DATA_KEYS (sd_data sd),
     sd_claim := restrict_to PUBLIC_CLAIM_KEYS (sd_claim sd)\<rparr>"

lemma map_of_filter_keys: "k \<in> K \<Longrightarrow> map_of (filter (\<lambda>f. fst f \<in> K) fs) k = map_of fs k"
  by (induction fs) auto

lemma own_restrict: "k \<in> set ks \<Longrightarrow> own_property (restrict_to ks v) k = own_property v k"
  by (cases v) (auto simp: restrict_to_def map_of_filter_keys)

lemma truthy_restrict [simp]: "js_truthy (restrict_to ks v) = js_truthy v"
  by (cases v) (auto simp: restrict_to_def js_truthy_def)

lemma public_data_keys:
  "own_property (sd_data (public_part sd)) ''failed.code'' = own_property (sd_data sd) ''failed.code''"
  "own_property (sd_data (public_part sd)) ''cliver'' = own_property (sd_data sd) ''cliver''"
  "own_property (sd_data (public_part sd)) ''close.time'' = own_property (sd_data sd) ''close.time''"
  "own_property (sd_data (public_part sd)) ''pow.lastNonce'' = own_property (sd_data sd) ''pow.lastNonce''"
  "own_property (sd_data (public_part sd)) ''pow.hashrate'' = own_property (sd_data sd) ''pow.hashrate''"
  "own_property (sd_data (public_part sd)) ''pow.idleTime'' = own_property (sd_data sd) ''pow.idleTime''"
  "own_property (sd_data (public_part sd)) ''reward.factors'' = own_property (sd_data sd) ''reward.factors''"
  "own_property (sd_data (public_part sd)) ''passport.score'' = own_property (sd_data sd) ''passport.score''"
  by (simp_all add: public_part_def own_restrict PUBLIC_DATA_KEYS_def)

lemma public_claim_keys:
  "own_property (sd_claim (public_part sd)) ''claimIdx'' = own_property (sd_claim sd) ''claimIdx''"
  "own_property (sd_claim (public_part sd)) ''claimStatus'' = own_property (sd_claim sd) ''claimStatus''"
  "own_property (sd_claim (public_part sd)) ''claimTime'' = own_property (sd_claim sd) ''claimTime''"
  "own_property (sd_claim (public_part sd)) ''txHash'' = own_property (sd_claim sd) ''txHash''"
  "own_property (sd_claim (public_part sd)) ''txNonce'' = own_property (sd_claim sd) ''txNonce''"
  "own_property (sd_claim (public_part sd)) ''txBlock'' = own_property (sd_claim sd) ''txBlock''"
  "own_property (sd_claim (public_part sd)) ''txFee'' = own_property (sd_claim sd) ''txFee''"
  by (simp_all add: public_part_def own_restrict PUBLIC_CLAIM_KEYS_def)

lemma public_part_fields [simp]:
  "sd_sessionId (public_part sd) = sd_sessionId sd" "sd_status (public_part sd) = sd_status sd"
  "sd_startTime (public_part sd) = sd_startTime sd" "sd_tasks (public_part sd) = sd_tasks sd"
  "sd_dropAmount (public_part sd) = sd_dropAmount sd" "sd_targetAddr (public_part sd) = sd_targetAddr sd"
  "js_truthy (sd_data (public_part sd)) = js_truthy (sd_data sd)" "js_truthy (sd_claim (public_part sd)) = js_truthy (sd_claim sd)"
  by (simp_all add: public_part_def)

lemma claim_details_public: "claim_details (sd_claim (public_part sd)) = claim_details (sd_claim sd)"
  by (simp add: claim_details_def public_claim_keys Let_def)

lemma details_public: "buildPublicSessionDetails (public_part sd) = buildPublicSessionDetails sd"
  by (simp add: buildPublicSessionDetails_def claim_details_public public_data_keys Let_def)


end
