(* ===== verification/Http_Server.thy ===== *)
theory Http_Server
  imports Web_Api
begin

text \<open>
  \<^verbatim>\<open>src/src/webserv/FaucetHttpServer.ts\<close>: a request from its first line to the point where it is
  handed to the API or refused, and the headers of an answer.  The events of a request are
  delivered one by one; what it causes is recorded in \<^verbatim>\<open>hs_actions\<close>.
\<close>

subsection \<open>Receiving a request\<close>

record http_request =
  rq_method :: string
  rq_url :: string
  rq_contentLength :: "string option"
  rq_origin :: "string option"

datatype request_phase = Receiving | Routed | Rejected | Aborted | FailedRequest

datatype http_action = Respond int string | Route "string option"

record http_state =
  hs_phase :: request_phase
  hs_parts :: "string list"
  hs_size :: int
  hs_actions :: "http_action list"

datatype http_event = DataEvent string | EndEvent | AbortedEvent | TransportError bool

definition received :: http_state where
  "received = \<lparr>hs_phase = Receiving, hs_parts = [], hs_size = 0, hs_actions = []\<rparr>"

definition finishRequest :: "request_phase \<Rightarrow> http_action list \<Rightarrow> http_state \<Rightarrow> http_state" where
  "finishRequest nextState action s = (if hs_phase s \<noteq> Receiving then s
     else s\<lparr>hs_phase := nextState, hs_parts := [], hs_size := 0, hs_actions := hs_actions s @ action\<rparr>)"

definition rejectRequest :: "int \<Rightarrow> string \<Rightarrow> http_state \<Rightarrow> http_state" where
  "rejectRequest code reason = finishRequest Rejected [Respond code reason]"

definition MAX_BODY_SIZE :: int where
  "MAX_BODY_SIZE = 1024 * 1024 * 10"

definition isAllowedHttpMethod :: "string \<Rightarrow> bool" where
  "isAllowedHttpMethod m \<longleftrightarrow> m = ''GET'' \<or> m = ''HEAD'' \<or> m = ''POST'' \<or> m = ''OPTIONS''"

definition isApiRequest :: "string \<Rightarrow> bool" where
  "isApiRequest url \<longleftrightarrow> toLowerCase (take 5 url) = ''/api/''"

definition getContentLength :: "string option \<Rightarrow> int option" where
  "getContentLength header = (case header of
      None \<Rightarrow> None
    | Some v \<Rightarrow> if all_digits v \<and> is_safe_integer (int (dec_value v)) then Some (int (dec_value v)) else None)"

text \<open>The size a body may have; nothing is larger than a limit that is no number.\<close>

fun max_body_size :: "body_limit \<Rightarrow> int option" where
  "max_body_size NoBodyLimit = Some MAX_BODY_SIZE"
| "max_body_size (BodyLimit n) = Some n"
| "max_body_size LimitUnusable = None"

definition exceeds :: "int \<Rightarrow> int option \<Rightarrow> bool" where
  "exceeds n limit = (case limit of None \<Rightarrow> False | Some m \<Rightarrow> n > m)"

text \<open>The listener of the \<^verbatim>\<open>request\<close> event; the size limit belongs to the listeners it installs.  The
  answers and the routing it decides on are recorded as actions; what these actions do, and
  whether they throw, is not part of this model.\<close>

definition onHttpRequest :: "endpoints \<Rightarrow> http_request \<Rightarrow> web_exception + (int option \<times> http_state)" where
  "onHttpRequest apiEndpoints rq =
     (if \<not> isAllowedHttpMethod (rq_method rq) then Inr (None, rejectRequest 405 ''Method Not Allowed'' received)
      else if rq_method rq = ''POST'' \<and> \<not> isApiRequest (rq_url rq) then Inr (None, rejectRequest 405 ''Method Not Allowed'' received)
      else if rq_method rq \<noteq> ''POST'' then Inr (None, finishRequest Routed [Route None] received)
      else try_bind (getApiRequestBodyLimit apiEndpoints (rq_url rq)) (\<lambda>endpointLimit.
        let maxBodySize = max_body_size endpointLimit in
        if (case getContentLength (rq_contentLength rq) of None \<Rightarrow> False | Some n \<Rightarrow> exceeds n maxBodySize)
        then Inr (maxBodySize, rejectRequest 413 ''Payload Too Large'' received)
        else Inr (maxBodySize, received)))"

fun http_step :: "int option \<Rightarrow> http_event \<Rightarrow> http_state \<Rightarrow> http_state" where
  "http_step maxBodySize (DataEvent chunk) s =
     (if hs_phase s \<noteq> Receiving then s
      else let size = hs_size s + int (length chunk) in
        if exceeds size maxBodySize then rejectRequest 413 ''Payload Too Large'' (s\<lparr>hs_size := size\<rparr>)
        else s\<lparr>hs_size := size, hs_parts := hs_parts s @ [chunk]\<rparr>)"
| "http_step maxBodySize EndEvent s =
     (if hs_phase s \<noteq> Receiving then s else finishRequest Routed [Route (Some (concat (hs_parts s)))] s)"
| "http_step maxBodySize AbortedEvent s = finishRequest Aborted [] s"
| "http_step maxBodySize (TransportError expectedPeerReset) s = finishRequest (if expectedPeerReset then Aborted else FailedRequest) [] s"

subsection \<open>Headers\<close>

type_synonym headers = "(string, string) jsmap"

definition BASE_RESPONSE_HEADERS :: headers where
  "BASE_RESPONSE_HEADERS = [
     (''Content-Security-Policy'', ''frame-ancestors '' @ [CHR 39] @ ''none'' @ [CHR 39] @ ''; base-uri '' @ [CHR 39] @ ''self'' @ [CHR 39]
        @ ''; object-src '' @ [CHR 39] @ ''none'' @ [CHR 39]),
     (''Permissions-Policy'', ''camera=(), microphone=(), geolocation=(), payment=(), usb=()''),
     (''Referrer-Policy'', ''no-referrer''), (''X-Content-Type-Options'', ''nosniff''), (''X-Frame-Options'', ''DENY'')]"

text \<open>The pattern \<^verbatim>\<open>^/api/(?:getSessionStatus|getQueueStatus|getFaucetStatus)(?:\?[^#]*)?$\<close>, without case.\<close>

definition url_query_ok :: "string \<Rightarrow> bool" where
  "url_query_ok rest = (case rest of [] \<Rightarrow> True | c # q \<Rightarrow> c = CHR ''?'' \<and> CHR ''#'' \<notin> set q)"

definition is_status_url :: "string \<Rightarrow> bool" where
  "is_status_url url \<longleftrightarrow> (\<exists>name \<in> {''/api/getsessionstatus'', ''/api/getqueuestatus'', ''/api/getfaucetstatus''}.
     toLowerCase (take (length name) url) = name \<and> url_query_ok (drop (length name) url))"

definition getCorsHeaders :: "string list \<Rightarrow> string option \<Rightarrow> headers" where
  "getCorsHeaders corsAllowOrigin origin = (case find (\<lambda>allowed. allowed = ''*'' \<or> Some allowed = origin) corsAllowOrigin of
      None \<Rightarrow> []
    | Some rspAllowOrigin \<Rightarrow> if rspAllowOrigin = [] then [] else
        [(''Access-Control-Allow-Origin'', rspAllowOrigin), (''Access-Control-Allow-Methods'', ''GET, HEAD, POST''),
         (''Access-Control-Allow-Headers'', ''Authorization, Content-Type'')])"

text \<open>\<^verbatim>\<open>Object.assign\<close>\<close>

definition assign :: "headers \<Rightarrow> headers \<Rightarrow> headers" where
  "assign target source = fold (\<lambda>(k, v). js_set k v) source target"

definition getResponseHeaders :: "string list \<Rightarrow> http_request \<Rightarrow> headers \<Rightarrow> headers" where
  "getResponseHeaders corsAllowOrigin rq headers' =
     (let privacyHeaders = (if is_status_url (rq_url rq) then [(''Cache-Control'', ''no-store'')] else []) in
      fold (\<lambda>source target. assign target source)
        [BASE_RESPONSE_HEADERS, headers', privacyHeaders, getCorsHeaders corsAllowOrigin (rq_origin rq)] [])"

subsection \<open>Every request has one outcome, within its limit\<close>

definition data_of :: "http_event list \<Rightarrow> string" where
  "data_of evs = concat (map (\<lambda>ev. case ev of DataEvent c \<Rightarrow> c | _ \<Rightarrow> []) evs)"

lemma data_of_snoc: "data_of (evs @ [ev]) = data_of evs @ (case ev of DataEvent c \<Rightarrow> c | _ \<Rightarrow> [])"
  by (simp add: data_of_def)

text \<open>While the request is received, what is held is all that came and is within the limit; after
  that nothing is held.  A body that was handed on is what came before an end of the request.\<close>

definition http_inv :: "int option \<Rightarrow> http_event list \<Rightarrow> http_state \<Rightarrow> bool" where
  "http_inv limit evs s \<longleftrightarrow> (if hs_phase s = Receiving
     then hs_actions s = [] \<and> concat (hs_parts s) = data_of evs \<and> hs_size s = int (length (data_of evs)) \<and> \<not> exceeds (hs_size s) limit
     else hs_parts s = [] \<and> length (hs_actions s) \<le> 1 \<and> (\<forall>body. Route (Some body) \<in> set (hs_actions s) \<longrightarrow>
       (\<exists>pre post. evs = pre @ EndEvent # post \<and> body = data_of pre) \<and> \<not> exceeds (int (length body)) limit))"

lemma exceeds_zero [simp]: "exceeds 0 (max_body_size l) \<longleftrightarrow> (case l of BodyLimit n \<Rightarrow> n < 0 | _ \<Rightarrow> False)"
  by (cases l) (simp_all add: exceeds_def MAX_BODY_SIZE_def)

lemma http_step_inv: "http_inv limit evs s \<Longrightarrow> http_inv limit (evs @ [ev]) (http_step limit ev s)"
proof (cases "hs_phase s = Receiving")
  case True
  assume inv: "http_inv limit evs s"
  show ?thesis
  proof (cases ev)
    case (DataEvent c)
    thus ?thesis using True inv
      by (simp add: http_inv_def data_of_snoc rejectRequest_def finishRequest_def Let_def)
  next
    case EndEvent
    thus ?thesis using True inv by (auto simp: http_inv_def data_of_snoc finishRequest_def)
  qed (use True inv in \<open>auto simp: http_inv_def finishRequest_def\<close>)
next
  case False
  assume inv: "http_inv limit evs s"
  have "http_step limit ev s = s" using False by (cases ev) (simp_all add: finishRequest_def)
  thus ?thesis using False inv unfolding http_inv_def by (auto 4 4)
qed

lemma http_run_inv: "http_inv limit evs s \<Longrightarrow> http_inv limit (evs @ evs') (fold (http_step limit) evs' s)"
proof (induction evs' arbitrary: evs s)
  case (Cons ev evs')
  show ?case using Cons.IH[OF http_step_inv[OF Cons.prems, of ev]] by simp
qed simp

lemma limit_positive: "getApiRequestBodyLimit endpoints url = Inr l \<Longrightarrow> \<not> exceeds 0 (max_body_size l)"
  by (auto simp: getApiRequestBodyLimit_def Let_def built_in_limit_def obj_lookup_def BUILT_IN_BODY_LIMITS_def
     split: option.splits list.splits slot.splits endpoint_limit.splits if_splits)

lemma accepted_inv: "onHttpRequest endpoints rq = Inr (limit, s) \<Longrightarrow> http_inv limit [] s"
  using limit_positive[of endpoints "rq_url rq"]
  by (auto simp: onHttpRequest_def http_inv_def rejectRequest_def finishRequest_def received_def data_of_def try_bind_Inr_iff Let_def
     split: if_splits option.splits simp del: exceeds_zero)

text \<open>C37. A request has at most one outcome, and the server never holds more of its body than the
  limit allows: a body is handed on only after the end of the request, it is all that came until
  then, and it is within the limit of its endpoint.  This holds for every order and number of
  events, before and after the outcome.\<close>

theorem request_answered_once:
  fixes evs :: "http_event list"
  assumes "onHttpRequest endpoints rq = Inr (limit, s)"
  defines "s' \<equiv> fold (http_step limit) evs s"
  shows "length (hs_actions s') \<le> 1 \<and> \<not> exceeds (int (length (concat (hs_parts s')))) limit \<and>
    (\<forall>body. Route (Some body) \<in> set (hs_actions s') \<longrightarrow>
      (\<exists>pre post. evs = pre @ EndEvent # post \<and> body = data_of pre) \<and> \<not> exceeds (int (length body)) limit)"
proof -
  have inv: "http_inv limit evs s'" using http_run_inv[OF accepted_inv[OF assms(1)], of evs] by (simp add: s'_def)
  have "\<not> exceeds 0 limit" using assms(1) limit_positive[of endpoints "rq_url rq"]
    by (auto simp: onHttpRequest_def try_bind_Inr_iff Let_def exceeds_def split: if_splits simp del: exceeds_zero)
  thus ?thesis using inv by (auto simp: http_inv_def split: if_splits)
qed

theorem request_answered_once_witness:
  "length (hs_actions (fold (http_step (Some 65536)) [DataEvent ''{'', DataEvent ''}'', EndEvent, DataEvent ''x'', AbortedEvent] received)) \<le> 1"
proof -
  have "onHttpRequest [] \<lparr>rq_method = ''POST'', rq_url = ''/api/startSession?cliver=1'', rq_contentLength = Some ''2'', rq_origin = None\<rparr>
      = Inr (Some 65536, received)" by code_simp
  thus ?thesis using request_answered_once by blast
qed

subsection \<open>Which requests throw\<close>

lemma lower_lower [simp]: "toLowerCase (toLowerCase s) = toLowerCase s"
proof -
  have "lower_char (lower_char c) = lower_char c" for c
  proof (cases "65 \<le> (of_char c :: nat) \<and> (of_char c :: nat) \<le> 90")
    case True
    hence "(of_char (char_of ((of_char c :: nat) + 32)) :: nat) = of_char c + 32" by simp
    thus ?thesis using True by (simp add: lower_char_def Let_def)
  qed (auto simp: lower_char_def Let_def)
  thus ?thesis by (simp add: toLowerCase_def)
qed

lemma inherited_lower: "toLowerCase s \<in> set OBJECT_PROTOTYPE \<longleftrightarrow> toLowerCase s \<in> {''constructor'', ''__proto__''}"
proof -
  have "\<forall>k \<in> set OBJECT_PROTOTYPE. toLowerCase k = k \<longrightarrow> k \<in> {''constructor'', ''__proto__''}"
    "\<forall>k \<in> {''constructor'', ''__proto__''}. k \<in> set OBJECT_PROTOTYPE" by code_simp+
  thus ?thesis by (metis lower_lower)
qed

lemma parsed_url: "parseApiUrl url = Some u \<Longrightarrow> take 5 url = ''/api/'' \<and> url_name url \<noteq> [] \<and> au_path u = [url_name url] \<and> url_query_ok (url_rest url)"
  unfolding parseApiUrl_def Let_def url_query_ok_def by (simp split: if_splits list.splits) fastforce+

lemma parsed_path: "parseApiUrl url = Some u \<Longrightarrow> \<exists>p. p \<noteq> [] \<and> au_path u = [p]"
  using parsed_url by blast

lemma body_limit_throws: "getApiRequestBodyLimit endpoints url = Inl e \<longleftrightarrow> (case parseApiUrl url of None \<Rightarrow> False
    | Some u \<Rightarrow> (let name = toLowerCase (hd (au_path u)) in name \<in> {''constructor'', ''__proto__''} \<and> js_get endpoints name = None))"
proof (cases "parseApiUrl url")
  case (Some u)
  obtain p where "au_path u = [p]" using parsed_path[OF Some] by blast
  moreover have "e = TypeError" by (cases e)
  ultimately show ?thesis using Some inherited_lower[of p]
    by (simp add: getApiRequestBodyLimit_def obj_lookup_def Let_def split: option.splits endpoint_limit.splits)
qed (simp add: getApiRequestBodyLimit_def)

text \<open>C38. Up to the point where it answers a request, routes it or waits for its body, the listener
  of a request throws exactly on a POST to an API path whose name, in lower case, is \<^verbatim>\<open>constructor\<close> or
  \<^verbatim>\<open>__proto__\<close> and is no registered endpoint: the lookup of the body limit then meets a property that
  every object inherits.  The other inherited names have capitals, which the lookup lowers.  Exceptions of
  the calls that send an answer, route the request or serve a file are outside this model.\<close>

theorem request_throws_iff:
  "(\<exists>e. onHttpRequest endpoints rq = Inl e) \<longleftrightarrow> rq_method rq = ''POST'' \<and> isApiRequest (rq_url rq) \<and>
     (case parseApiUrl (rq_url rq) of None \<Rightarrow> False
      | Some u \<Rightarrow> (let name = toLowerCase (hd (au_path u)) in name \<in> {''constructor'', ''__proto__''} \<and> js_get endpoints name = None))"
proof -
  have "(\<exists>e. onHttpRequest endpoints rq = Inl e) \<longleftrightarrow> rq_method rq = ''POST'' \<and> isApiRequest (rq_url rq) \<and>
      (\<exists>e. getApiRequestBodyLimit endpoints (rq_url rq) = Inl e)"
    by (auto simp: onHttpRequest_def isAllowedHttpMethod_def try_bind_Inl_iff Let_def split: option.splits)
  thus ?thesis by (simp add: body_limit_throws)
qed

lemma constructor_request_throws:
  "onHttpRequest [(''voucher'', NoLimitOption)] \<lparr>rq_method = ''POST'', rq_url = ''/api/constructor'', rq_contentLength = None, rq_origin = None\<rparr>
     = Inl TypeError"
  by code_simp

subsection \<open>Answers about the status are not stored\<close>

lemma js_get_assign: "js_get (assign target source) k = (case js_get (rev source) k of None \<Rightarrow> js_get target k | Some v \<Rightarrow> Some v)"
proof (induction source arbitrary: target)
  case (Cons kv source)
  thus ?case by (cases kv) (auto simp: assign_def map_add_def split: option.splits)
qed (simp add: assign_def)

lemma status_url: "parseApiUrl url = Some u \<Longrightarrow> toLowerCase (hd (au_path u)) \<in> {''getsessionstatus'', ''getqueuestatus'', ''getfaucetstatus''}
    \<Longrightarrow> is_status_url url"
proof -
  assume u: "parseApiUrl url = Some u" and name: "toLowerCase (hd (au_path u)) \<in> {''getsessionstatus'', ''getqueuestatus'', ''getfaucetstatus''}"
  define p where "p = url_name url"
  have p: "take 5 url = ''/api/''" "url_query_ok (url_rest url)" "hd (au_path u) = p"
    using parsed_url[OF u] by (simp_all add: p_def)
  have "drop 5 url = p @ url_rest url" by (simp add: p_def url_name_def url_rest_def)
  hence url: "url = ''/api/'' @ p @ url_rest url" using p(1) by (metis append_take_drop_id)
  define full where "full = ''/api/'' @ toLowerCase p"
  have lower: "lower_char CHR ''/'' = CHR ''/''" "lower_char CHR ''a'' = CHR ''a''" "lower_char CHR ''p'' = CHR ''p''"
    "lower_char CHR ''i'' = CHR ''i''" by code_simp+
  have len: "length full = length (''/api/'' @ p)" by (simp add: full_def toLowerCase_def)
  have "toLowerCase (take (length full) url) = full" 
    by (subst url) (simp add: len, simp add: full_def toLowerCase_def lower)
  moreover have "drop (length full) url = url_rest url" by (subst url) (simp add: len)
  moreover have "full \<in> {''/api/getsessionstatus'', ''/api/getqueuestatus'', ''/api/getfaucetstatus''}"
    using name p(3) by (auto simp: full_def)
  ultimately show ?thesis using p(2) unfolding is_status_url_def by metis
qed

lemma status_call_url:
  assumes "onApiRequest endpoints url \<in> {CallQueueStatus, CallFaucetStatus} \<or> (\<exists>s d. onApiRequest endpoints url = CallSessionStatus s d)"
  shows "is_status_url url"
proof -
  obtain u where u: "parseApiUrl url = Some u" using assms by (cases "parseApiUrl url") (auto simp: onApiRequest_def)
  obtain p where p: "au_path u = [p]" using parsed_path[OF u] by blast
  have "toLowerCase p \<in> {''getsessionstatus'', ''getqueuestatus'', ''getfaucetstatus''}"
    using assms u p by (auto simp: onApiRequest_def Let_def split: if_splits slot.splits)
  thus ?thesis using status_url[OF u] p by simp
qed

text \<open>Whatever the handler, the configuration and the spelling of the path: the answer to a request
  that reaches a status handler forbids that it is stored, no header of a handler can lift this,
  and a foreign origin is named in an answer only if the configuration lists it or lists all.\<close>

lemma status_answers_not_stored:
  assumes "onApiRequest endpoints (rq_url rq) \<in> {CallQueueStatus, CallFaucetStatus} \<or> (\<exists>s d. onApiRequest endpoints (rq_url rq) = CallSessionStatus s d)"
  shows "js_get (getResponseHeaders cors rq hs) ''Cache-Control'' = Some ''no-store'' \<and>
    (\<forall>a. js_get (getCorsHeaders cors (rq_origin rq)) ''Access-Control-Allow-Origin'' = Some a \<longrightarrow>
       a \<in> set cors \<and> (a = ''*'' \<or> rq_origin rq = Some a))"
proof
  have cors: "js_get (rev (getCorsHeaders cors (rq_origin rq))) ''Cache-Control'' = None"
    by (auto simp: getCorsHeaders_def split: option.splits)
  show "js_get (getResponseHeaders cors rq hs) ''Cache-Control'' = Some ''no-store''"
    using status_call_url[OF assms] cors by (simp add: getResponseHeaders_def js_get_assign)
next
  show "\<forall>a. js_get (getCorsHeaders cors (rq_origin rq)) ''Access-Control-Allow-Origin'' = Some a \<longrightarrow>
       a \<in> set cors \<and> (a = ''*'' \<or> rq_origin rq = Some a)"
    by (auto simp: getCorsHeaders_def find_Some_iff in_set_conv_nth split: option.splits if_splits)
qed

lemma status_answers_not_stored_at:
  "js_get (getResponseHeaders [''*''] \<lparr>rq_method = ''GET'', rq_url = ''/api/GetSessionStatus?session=a'', rq_contentLength = None, rq_origin = None\<rparr>
     [(''Cache-Control'', ''max-age=60'')]) ''Cache-Control'' = Some ''no-store''"
proof -
  define rq where "rq = \<lparr>rq_method = ''GET'', rq_url = ''/api/GetSessionStatus?session=a'', rq_contentLength = None, rq_origin = None\<rparr>"
  have "onApiRequest [] (rq_url rq) = CallSessionStatus (Some (QueryText ''a'')) False" unfolding rq_def by code_simp
  thus ?thesis using status_answers_not_stored unfolding rq_def by blast
qed

end
