(* ===== verification/Pow_Validator.thy ===== *)
theory Pow_Validator
  imports Faucet_Prelude
begin

text \<open>
  \<^verbatim>\<open>src/src/modules/pow/validator/PoWValidator.ts\<close>: the queue of share validations in front of one
  worker thread.  Sessions take turns, each has a share of the worker's time, and a worker that
  fails or is too slow is replaced.  A handler is one atomic step; \<^verbatim>\<open>vs_now\<close> is the clock it
  reads.  The worker and the promises appear as the messages posted and the results settled.
\<close>

subsection \<open>State\<close>

record validate_request =
  vq_shareId :: string
  vq_nonce :: int
  vq_data :: string
  vq_preimage :: string
  vq_difficulty :: int

record validator_limits =
  vl_maxGlobalPending :: int
  vl_maxSessionPending :: int
  vl_maxSessionDutyCyclePercent :: int
  vl_timeoutMs :: rat

record pending_validation =
  pv_session :: string
  pv_generation :: nat
  pv_duty :: int
  pv_request :: validate_request

datatype validator_state = StartingV nat | ReadyV nat | RestartingV nat | FailedV "nat option" | DisposedV

datatype lifecycle_op = TerminateAndStart nat | TerminateOnly nat

datatype validation_result = ResolvedV bool | RejectedV

record validator =
  vs_pending :: "(string, pending_validation) jsmap"
  vs_pendingBySession :: "(string, int) jsmap"
  vs_queued :: "(string, string list) jsmap"
  vs_scheduling :: "string list"
  vs_readyAt :: "(string, rat) jsmap"
  vs_active :: "string option"
  vs_startedAt :: "rat option"
  vs_timer :: bool
  vs_state :: validator_state
  vs_nextGeneration :: nat
  vs_lifecycle :: "lifecycle_op list"
  vs_attached :: "nat list"
  vs_now :: rat
  vs_posted :: "(nat \<times> validate_request) list"
  vs_results :: "(string \<times> validation_result) list"

datatype admission = Accepted | RejectedAdmission string

subsection \<open>Generations\<close>

fun getActiveGeneration :: "validator_state \<Rightarrow> nat option" where
  "getActiveGeneration (StartingV g) = Some g"
| "getActiveGeneration (ReadyV g) = Some g"
| "getActiveGeneration (RestartingV g) = Some g"
| "getActiveGeneration _ = None"

fun getOwnedGeneration :: "validator_state \<Rightarrow> nat option" where
  "getOwnedGeneration (FailedV g) = g"
| "getOwnedGeneration s = getActiveGeneration s"

fun is_restarting :: "validator_state \<Rightarrow> bool" where
  "is_restarting (RestartingV _) = True"
| "is_restarting _ = False"

definition isCurrentGeneration :: "nat \<Rightarrow> validator \<Rightarrow> bool" where
  "isCurrentGeneration g s \<longleftrightarrow> getActiveGeneration (vs_state s) = Some g"

definition startGeneration :: "validator \<Rightarrow> validator" where
  "startGeneration s = (if vs_state s = DisposedV then s
     else let g = vs_nextGeneration s + 1 in
       s\<lparr>vs_nextGeneration := g, vs_attached := vs_attached s @ [g], vs_state := StartingV g\<rparr>)"

definition removeGenerationListeners :: "nat \<Rightarrow> validator \<Rightarrow> validator" where
  "removeGenerationListeners g s = s\<lparr>vs_attached := filter (\<lambda>x. x \<noteq> g) (vs_attached s)\<rparr>"

subsection \<open>Settling a validation\<close>

definition getSessionDispatchReadyAt :: "string \<Rightarrow> validator \<Rightarrow> rat \<times> validator" where
  "getSessionDispatchReadyAt sid s = (let readyAt = (case js_get (vs_readyAt s) sid of None \<Rightarrow> 0 | Some t \<Rightarrow> t) in
     if readyAt \<le> vs_now s then (0, s\<lparr>vs_readyAt := js_delete sid (vs_readyAt s)\<rparr>) else (readyAt, s))"

text \<open>The cooldown of a session after its share was worked on.\<close>

definition cooldown :: "rat \<Rightarrow> int \<Rightarrow> rat" where
  "cooldown elapsed duty = of_int \<lceil>max 1 elapsed * (100 - of_int duty) / of_int duty\<rceil>"

definition recordActiveSessionWork :: "string \<Rightarrow> pending_validation \<Rightarrow> validator \<Rightarrow> validator" where
  "recordActiveSessionWork shareId v s = (case vs_startedAt s of
      None \<Rightarrow> s
    | Some started \<Rightarrow> if vs_active s \<noteq> Some shareId then s
        else let current = (case js_get (vs_readyAt s) (pv_session v) of None \<Rightarrow> 0 | Some t \<Rightarrow> t);
                 until = vs_now s + cooldown (vs_now s - started) (pv_duty v) in
          s\<lparr>vs_readyAt := js_set (pv_session v) (max current until) (vs_readyAt s), vs_startedAt := None\<rparr>)"

definition releaseScheduledValidation :: "string \<Rightarrow> string \<Rightarrow> validator \<Rightarrow> validator" where
  "releaseScheduledValidation sid shareId s =
     (if vs_active s = Some shareId
      then let s1 = s\<lparr>vs_active := None\<rparr> in
        if (case js_get (vs_queued s) sid of None \<Rightarrow> False | Some q \<Rightarrow> q \<noteq> []) \<and> sid \<notin> set (vs_scheduling s)
        then s1\<lparr>vs_scheduling := vs_scheduling s @ [sid]\<rparr> else s1
      else case js_get (vs_queued s) sid of
        None \<Rightarrow> s
      | Some q \<Rightarrow> (let q' = remove1 shareId q in
          if q' = [] then s\<lparr>vs_queued := js_delete sid (vs_queued s), vs_scheduling := remove1 sid (vs_scheduling s)\<rparr>
          else s\<lparr>vs_queued := js_set sid q' (vs_queued s)\<rparr>))"

definition releaseValidation :: "string \<Rightarrow> validator \<Rightarrow> validator" where
  "releaseValidation shareId s = (case js_get (vs_pending s) shareId of
      None \<Rightarrow> s
    | Some v \<Rightarrow> (let s1 = recordActiveSessionWork shareId v s;
                    s2 = s1\<lparr>vs_pending := js_delete shareId (vs_pending s1)\<rparr>;
                    s3 = releaseScheduledValidation (pv_session v) shareId s2;
                    sessionPending = (case js_get (vs_pendingBySession s3) (pv_session v) of None \<Rightarrow> 1 | Some n \<Rightarrow> n) - 1 in
        if sessionPending > 0 then s3\<lparr>vs_pendingBySession := js_set (pv_session v) sessionPending (vs_pendingBySession s3)\<rparr>
        else s3\<lparr>vs_pendingBySession := js_delete (pv_session v) (vs_pendingBySession s3)\<rparr>))"

definition settle_result :: "string \<Rightarrow> validation_result \<Rightarrow> validator \<Rightarrow> validator" where
  "settle_result shareId r s = s\<lparr>vs_results := vs_results s @ [(shareId, r)]\<rparr>"

definition rejectValidation :: "string \<Rightarrow> validator \<Rightarrow> validator" where
  "rejectValidation shareId s = (if \<not> js_has (vs_pending s) shareId then s
     else settle_result shareId RejectedV (releaseValidation shareId s))"

definition rejectAll :: "validator \<Rightarrow> validator" where
  "rejectAll s = (fold rejectValidation (js_keys (vs_pending s)) (s\<lparr>vs_timer := False\<rparr>))
     \<lparr>vs_active := None, vs_startedAt := None, vs_queued := [], vs_scheduling := []\<rparr>"

definition requestRestart :: "nat \<Rightarrow> validator \<Rightarrow> validator" where
  "requestRestart g s =
     (if \<not> isCurrentGeneration g s \<or> is_restarting (vs_state s) then s
      else let s1 = removeGenerationListeners g (rejectAll (s\<lparr>vs_state := RestartingV g\<rparr>)) in
        s1\<lparr>vs_lifecycle := vs_lifecycle s1 @ [TerminateAndStart g]\<rparr>)"

subsection \<open>Dispatching\<close>

text \<open>One turn over the sessions that wait; \<^verbatim>\<open>posts\<close> tells whether the worker takes the message.\<close>

primrec dispatch_loop :: "bool \<Rightarrow> nat \<Rightarrow> bool \<Rightarrow> validator \<Rightarrow> validator" where
  "dispatch_loop posts 0 earliest s = (if earliest then s\<lparr>vs_timer := True\<rparr> else s)"
| "dispatch_loop posts (Suc n) earliest s = (case vs_scheduling s of
      [] \<Rightarrow> dispatch_loop posts n earliest s
    | sid # rest \<Rightarrow> (let s1 = s\<lparr>vs_scheduling := rest\<rparr> in
        case js_get (vs_queued s) sid of
          None \<Rightarrow> dispatch_loop posts n earliest s1
        | Some [] \<Rightarrow> dispatch_loop posts n earliest s1
        | Some (shareId # q) \<Rightarrow>
           (case getSessionDispatchReadyAt sid s1 of (readyAt, s2) \<Rightarrow>
             if readyAt > vs_now s then dispatch_loop posts n True (s2\<lparr>vs_scheduling := rest @ [sid]\<rparr>)
             else (let s3 = s2\<lparr>vs_queued := (if q = [] then js_delete sid (vs_queued s2) else js_set sid q (vs_queued s2))\<rparr> in
               case js_get (vs_pending s) shareId of
                 None \<Rightarrow> dispatch_loop posts n earliest s3
               | Some v \<Rightarrow> (let s4 = s3\<lparr>vs_active := Some shareId, vs_startedAt := Some (vs_now s)\<rparr> in
                   case vs_state s of
                     ReadyV g \<Rightarrow> if posts then s4\<lparr>vs_posted := vs_posted s4 @ [(g, pv_request v)]\<rparr> else requestRestart g s4
                   | _ \<Rightarrow> s4)))))"

definition dispatchNextValidation :: "bool \<Rightarrow> validator \<Rightarrow> validator" where
  "dispatchNextValidation posts s = (case vs_state s of
      ReadyV g \<Rightarrow> if vs_active s \<noteq> None then s
        else dispatch_loop posts (length (vs_scheduling s)) False (s\<lparr>vs_timer := False\<rparr>)
    | _ \<Rightarrow> s)"

definition active_session :: "validator \<Rightarrow> string option" where
  "active_session s = (case vs_active s of None \<Rightarrow> None | Some a \<Rightarrow> map_option pv_session (js_get (vs_pending s) a))"

definition enqueueValidation :: "string \<Rightarrow> string \<Rightarrow> validator \<Rightarrow> validator" where
  "enqueueValidation sid shareId s =
     (let q = (case js_get (vs_queued s) sid of None \<Rightarrow> [] | Some q \<Rightarrow> q) in
      s\<lparr>vs_queued := js_set sid (q @ [shareId]) (vs_queued s),
        vs_scheduling := (if active_session s \<noteq> Some sid \<and> sid \<notin> set (vs_scheduling s) then vs_scheduling s @ [sid] else vs_scheduling s)\<rparr>)"

subsection \<open>Operations\<close>

definition isValidRequest :: "string \<Rightarrow> validate_request \<Rightarrow> validator_limits \<Rightarrow> bool" where
  "isValidRequest sid rq l \<longleftrightarrow> sid \<noteq> [] \<and> vq_shareId rq \<noteq> [] \<and> is_safe_integer (vq_nonce rq) \<and> vq_nonce rq \<ge> 0
     \<and> is_safe_integer (vq_difficulty rq) \<and> vq_difficulty rq \<ge> 0
     \<and> is_safe_integer (vl_maxGlobalPending l) \<and> vl_maxGlobalPending l > 0
     \<and> is_safe_integer (vl_maxSessionPending l) \<and> vl_maxSessionPending l > 0
     \<and> vl_maxSessionPending l < vl_maxGlobalPending l
     \<and> is_safe_integer (vl_maxSessionDutyCyclePercent l) \<and> vl_maxSessionDutyCyclePercent l > 0 \<and> vl_maxSessionDutyCyclePercent l \<le> 50
     \<and> vl_timeoutMs l > 0"

definition session_pending :: "validator \<Rightarrow> string \<Rightarrow> int" where
  "session_pending s sid = (case js_get (vs_pendingBySession s) sid of None \<Rightarrow> 0 | Some n \<Rightarrow> n)"

definition tryValidateShare :: "bool \<Rightarrow> string \<Rightarrow> validate_request \<Rightarrow> validator_limits \<Rightarrow> validator \<Rightarrow> admission \<times> validator" where
  "tryValidateShare posts sid rq l s =
     (if \<not> isValidRequest sid rq l then (RejectedAdmission ''invalid-policy'', s)
      else case vs_state s of
        ReadyV g \<Rightarrow> (case getSessionDispatchReadyAt sid s of (readyAt, s) \<Rightarrow>
          if readyAt > vs_now s then (RejectedAdmission ''session-rate'', s)
          else if int (length (vs_pending s)) \<ge> vl_maxGlobalPending l then (RejectedAdmission ''global-capacity'', s)
          else if session_pending s sid \<ge> vl_maxSessionPending l then (RejectedAdmission ''session-capacity'', s)
          else if js_has (vs_pending s) (vq_shareId rq) then (RejectedAdmission ''invalid-policy'', s)
          else (Accepted, dispatchNextValidation posts (enqueueValidation sid (vq_shareId rq)
            (s\<lparr>vs_pending := js_set (vq_shareId rq) \<lparr>pv_session = sid, pv_generation = g, pv_duty = vl_maxSessionDutyCyclePercent l, pv_request = rq\<rparr> (vs_pending s),
               vs_pendingBySession := js_set sid (session_pending s sid + 1) (vs_pendingBySession s)\<rparr>))))
      | _ \<Rightarrow> (RejectedAdmission ''unavailable'', s))"

definition cancelValidation :: "bool \<Rightarrow> string \<Rightarrow> validator \<Rightarrow> validator" where
  "cancelValidation posts shareId s = (case js_get (vs_pending s) shareId of
      None \<Rightarrow> s
    | Some v \<Rightarrow>
        if getActiveGeneration (vs_state s) = Some (pv_generation v) \<and> vs_active s = Some shareId
        then requestRestart (pv_generation v) s
        else dispatchNextValidation posts (rejectValidation shareId s))"

definition cancelSession :: "bool \<Rightarrow> string \<Rightarrow> validator \<Rightarrow> validator" where
  "cancelSession posts sid s =
     (let owned = map fst (filter (\<lambda>(_, v). pv_session v = sid) (vs_pending s));
          forget = (\<lambda>s. s\<lparr>vs_readyAt := js_delete sid (vs_readyAt s)\<rparr>) in
      if owned = [] then forget s
      else let active = (case vs_active s of None \<Rightarrow> None | Some a \<Rightarrow> js_get (vs_pending s) a) in
        forget (case active of
          Some v \<Rightarrow> if pv_session v = sid \<and> getActiveGeneration (vs_state s) = Some (pv_generation v)
            then requestRestart (pv_generation v) s
            else dispatchNextValidation posts (fold rejectValidation owned s)
        | None \<Rightarrow> dispatchNextValidation posts (fold rejectValidation owned s)))"

definition dispose :: "validator \<Rightarrow> validator" where
  "dispose s = (if vs_state s = DisposedV then s
     else let generation = getOwnedGeneration (vs_state s);
              s1 = (rejectAll (s\<lparr>vs_timer := False, vs_state := DisposedV\<rparr>))\<lparr>vs_readyAt := []\<rparr> in
       (case generation of None \<Rightarrow> s1 | Some g \<Rightarrow> (removeGenerationListeners g s1)\<lparr>vs_lifecycle := vs_lifecycle s1 @ [TerminateOnly g]\<rparr>))"

subsection \<open>Events of the worker and the timers\<close>

datatype worker_message = InitMessage | ValidatedMessage string bool | ErrorMessage string | OtherMessage

definition onWorkerReady :: "bool \<Rightarrow> nat \<Rightarrow> validator \<Rightarrow> validator" where
  "onWorkerReady posts g s = (if vs_state s \<noteq> StartingV g then s
     else dispatchNextValidation posts (s\<lparr>vs_state := ReadyV g\<rparr>))"

definition awaited :: "nat \<Rightarrow> string \<Rightarrow> validator \<Rightarrow> bool" where
  "awaited g shareId s \<longleftrightarrow> vs_state s = ReadyV g \<and> vs_active s = Some shareId \<and>
     (case js_get (vs_pending s) shareId of None \<Rightarrow> False | Some v \<Rightarrow> pv_generation v = g)"

definition onWorkerValidated :: "bool \<Rightarrow> nat \<Rightarrow> string \<Rightarrow> bool \<Rightarrow> validator \<Rightarrow> validator" where
  "onWorkerValidated posts g shareId valid s = (if \<not> awaited g shareId s then s
     else dispatchNextValidation posts (settle_result shareId (ResolvedV valid) (releaseValidation shareId s)))"

definition onWorkerValidationError :: "bool \<Rightarrow> nat \<Rightarrow> string \<Rightarrow> validator \<Rightarrow> validator" where
  "onWorkerValidationError posts g shareId s = (if \<not> awaited g shareId s then s
     else dispatchNextValidation posts (rejectValidation shareId s))"

definition onWorkerMessage :: "bool \<Rightarrow> nat \<Rightarrow> worker_message \<Rightarrow> validator \<Rightarrow> validator" where
  "onWorkerMessage posts g m s = (if g \<notin> set (vs_attached s) \<or> \<not> isCurrentGeneration g s then s
     else case m of
       InitMessage \<Rightarrow> onWorkerReady posts g s
     | ValidatedMessage shareId valid \<Rightarrow> onWorkerValidated posts g shareId valid s
     | ErrorMessage shareId \<Rightarrow> onWorkerValidationError posts g shareId s
     | OtherMessage \<Rightarrow> s)"

definition onWorkerFailure :: "nat \<Rightarrow> validator \<Rightarrow> validator" where
  "onWorkerFailure g s = (if \<not> isCurrentGeneration g s \<or> is_restarting (vs_state s) then s else requestRestart g s)"

definition onValidationTimeout :: "bool \<Rightarrow> string \<Rightarrow> nat \<Rightarrow> validator \<Rightarrow> validator" where
  "onValidationTimeout posts shareId g s = (case js_get (vs_pending s) shareId of
      None \<Rightarrow> s
    | Some v \<Rightarrow> if pv_generation v \<noteq> g then s
        else if getActiveGeneration (vs_state s) = Some g \<and> vs_active s = Some shareId then requestRestart g s
        else dispatchNextValidation posts (rejectValidation shareId s))"

text \<open>The operations queued behind \<^verbatim>\<open>lifecycleTail\<close> run one after the other.\<close>

definition run_lifecycle :: "bool \<Rightarrow> bool \<Rightarrow> validator \<Rightarrow> validator" where
  "run_lifecycle terminated started s = (case vs_lifecycle s of
      [] \<Rightarrow> s
    | TerminateOnly g # rest \<Rightarrow> s\<lparr>vs_lifecycle := rest\<rparr>
    | TerminateAndStart g # rest \<Rightarrow> (let s1 = s\<lparr>vs_lifecycle := rest\<rparr> in
        if vs_state s \<noteq> RestartingV g then s1
        else if \<not> terminated then s1\<lparr>vs_state := FailedV (Some g)\<rparr>
        else if started then startGeneration s1 else s1\<lparr>vs_state := FailedV None\<rparr>))"

datatype validator_event =
    TryValidate string validate_request validator_limits
  | CancelShare string | CancelOfSession string
  | WorkerSays nat worker_message | WorkerFails nat | InitTimeout nat
  | ShareTimeout string nat | DispatchTimer | Lifecycle bool bool | Dispose | ClockTick rat

fun validator_step :: "bool \<times> validator_event \<Rightarrow> validator \<Rightarrow> validator" where
  "validator_step (posts, TryValidate sid rq l) s = snd (tryValidateShare posts sid rq l s)"
| "validator_step (posts, CancelShare shareId) s = cancelValidation posts shareId s"
| "validator_step (posts, CancelOfSession sid) s = cancelSession posts sid s"
| "validator_step (posts, WorkerSays g m) s = onWorkerMessage posts g m s"
| "validator_step (posts, WorkerFails g) s = (if g \<in> set (vs_attached s) then onWorkerFailure g s else s)"
| "validator_step (posts, InitTimeout g) s = (if vs_state s = StartingV g then onWorkerFailure g s else s)"
| "validator_step (posts, ShareTimeout shareId g) s = onValidationTimeout posts shareId g s"
| "validator_step (posts, DispatchTimer) s = (if vs_timer s then dispatchNextValidation posts (s\<lparr>vs_timer := False\<rparr>) else s)"
| "validator_step (posts, Lifecycle terminated started) s = run_lifecycle terminated started s"
| "validator_step (posts, Dispose) s = dispose s"
| "validator_step (posts, ClockTick d) s = s\<lparr>vs_now := vs_now s + max 0 d\<rparr>"

definition new_validator :: validator where
  "new_validator = startGeneration \<lparr>vs_pending = [], vs_pendingBySession = [], vs_queued = [], vs_scheduling = [], vs_readyAt = [],
     vs_active = None, vs_startedAt = None, vs_timer = False, vs_state = FailedV None, vs_nextGeneration = 0, vs_lifecycle = [],
     vs_attached = [], vs_now = 0, vs_posted = [], vs_results = []\<rparr>"

end
