(* ===== verification/Pow_Scheduling.thy ===== *)
theory Pow_Scheduling
  imports Pow_Validator
begin

text \<open>
  The validation queue never loses a share: the invariant of its maps, and what every event keeps.
\<close>

subsection \<open>The invariant\<close>

definition session_count :: "validator \<Rightarrow> string \<Rightarrow> nat" where
  "session_count s sid = length (filter (\<lambda>(_, v). pv_session v = sid) (vs_pending s))"

definition queued_in :: "validator \<Rightarrow> string \<Rightarrow> string \<Rightarrow> bool" where
  "queued_in s sid x \<longleftrightarrow> (\<exists>q. js_get (vs_queued s) sid = Some q \<and> x \<in> set q)"

definition waits_in :: "validator \<Rightarrow> string \<Rightarrow> string \<Rightarrow> bool" where
  "waits_in s sid x \<longleftrightarrow> (\<exists>v. js_get (vs_pending s) x = Some v \<and> pv_session v = sid) \<and> vs_active s \<noteq> Some x"

definition queues_ok :: "validator \<Rightarrow> bool" where
  "queues_ok s \<longleftrightarrow> (\<forall>sid q. js_get (vs_queued s) sid = Some q \<longrightarrow> q \<noteq> [] \<and> distinct q)"

definition counts_ok :: "validator \<Rightarrow> bool" where
  "counts_ok s \<longleftrightarrow> (\<forall>sid. js_get (vs_pendingBySession s) sid = (if session_count s sid = 0 then None else Some (int (session_count s sid))))"

definition turns_ok :: "validator \<Rightarrow> bool" where
  "turns_ok s \<longleftrightarrow> (\<forall>sid. sid \<in> set (vs_scheduling s) \<longleftrightarrow> js_has (vs_queued s) sid \<and> active_session s \<noteq> Some sid)"

definition core_inv :: "validator \<Rightarrow> bool" where
  "core_inv s \<longleftrightarrow> js_map_ok (vs_pending s) \<and> distinct (vs_scheduling s) \<and> queues_ok s \<and> (\<forall>sid x. queued_in s sid x \<longleftrightarrow> waits_in s sid x)
     \<and> turns_ok s \<and> (\<forall>x. vs_active s = Some x \<longrightarrow> js_has (vs_pending s) x) \<and> counts_ok s"

definition posted_ok :: "validator \<Rightarrow> bool" where
  "posted_ok s \<longleftrightarrow> (\<forall>x v. js_get (vs_pending s) x = Some v \<longrightarrow> vs_state s = ReadyV (pv_generation v) \<and> vq_shareId (pv_request v) = x \<and>
     (vs_active s = Some x \<longrightarrow> (pv_generation v, pv_request v) \<in> set (vs_posted s)))"

text \<open>When the worker is ready and idle and a session waits, the dispatch timer is armed.\<close>

definition work_ok :: "validator \<Rightarrow> bool" where
  "work_ok s \<longleftrightarrow> ((\<exists>g. vs_state s = ReadyV g) \<and> vs_active s = None \<and> vs_scheduling s \<noteq> [] \<longrightarrow> vs_timer s)"

definition validator_inv :: "validator \<Rightarrow> bool" where
  "validator_inv s \<longleftrightarrow> core_inv s \<and> posted_ok s \<and> work_ok s"

subsection \<open>Counting\<close>

lemma count_delete:
  "js_map_ok m \<Longrightarrow> js_get m k = Some v \<Longrightarrow>
    length (filter P (js_delete k m)) = length (filter P m) - (if P (k, v) then 1 else 0)"
proof (induction m)
  case (Cons kv m)
  obtain k' v' where kv: "kv = (k', v')" by (cases kv)
  show ?case
  proof (cases "k' = k")
    case True
    hence "js_get m k = None" using Cons.prems kv by (simp add: map_of_eq_None_iff)
    thus ?thesis using True kv Cons.prems by (simp add: js_delete_absent)
  next
    case False
    hence ih: "length (filter P (js_delete k m)) = length (filter P m) - (if P (k, v) then 1 else 0)" using Cons kv by simp
    have "P (k, v) \<Longrightarrow> length (filter P m) > 0"
      using Cons.prems False kv by (auto simp: js_get_in_set[symmetric] filter_empty_conv)
    thus ?thesis using False kv ih by auto
  qed
qed simp

lemma count_positive: "js_map_ok (vs_pending s) \<Longrightarrow> js_get (vs_pending s) x = Some v \<Longrightarrow> session_count s (pv_session v) > 0"
  by (auto simp: session_count_def filter_empty_conv js_get_in_set[symmetric])

lemma session_pending_count: "counts_ok s \<Longrightarrow> session_pending s sid = int (session_count s sid)"
  by (simp add: counts_ok_def session_pending_def)

subsection \<open>Releasing\<close>

lemma record_fields [simp]:
  "vs_pending (recordActiveSessionWork x v s) = vs_pending s" "vs_queued (recordActiveSessionWork x v s) = vs_queued s"
  "vs_scheduling (recordActiveSessionWork x v s) = vs_scheduling s" "vs_active (recordActiveSessionWork x v s) = vs_active s"
  "vs_pendingBySession (recordActiveSessionWork x v s) = vs_pendingBySession s" "vs_state (recordActiveSessionWork x v s) = vs_state s"
  "vs_posted (recordActiveSessionWork x v s) = vs_posted s" "vs_timer (recordActiveSessionWork x v s) = vs_timer s"
  "vs_results (recordActiveSessionWork x v s) = vs_results s"
  by (simp_all add: recordActiveSessionWork_def Let_def split: option.splits)

lemma scheduled_fields [simp]:
  "vs_pending (releaseScheduledValidation sid x s) = vs_pending s" "vs_state (releaseScheduledValidation sid x s) = vs_state s"
  "vs_pendingBySession (releaseScheduledValidation sid x s) = vs_pendingBySession s"
  "vs_posted (releaseScheduledValidation sid x s) = vs_posted s" "vs_timer (releaseScheduledValidation sid x s) = vs_timer s"
  "vs_results (releaseScheduledValidation sid x s) = vs_results s"
  "vs_active (releaseScheduledValidation sid x s) = (if vs_active s = Some x then None else vs_active s)"
  by (simp_all add: releaseScheduledValidation_def Let_def split: option.splits)

lemma release_fields:
  "vs_state (releaseValidation x s) = vs_state s" "vs_posted (releaseValidation x s) = vs_posted s"
  "vs_timer (releaseValidation x s) = vs_timer s" "vs_results (releaseValidation x s) = vs_results s"
  "vs_pending (releaseValidation x s) = js_delete x (vs_pending s)"
  "js_has (vs_pending s) x \<Longrightarrow> vs_active (releaseValidation x s) = (if vs_active s = Some x then None else vs_active s)"
  by (auto simp: releaseValidation_def Let_def js_delete_absent split: option.splits)

lemma release_counts: "js_map_ok (vs_pending s) \<Longrightarrow> counts_ok s \<Longrightarrow> counts_ok (releaseValidation x s)"
proof (cases "js_get (vs_pending s) x")
  case (Some v)
  assume ok: "js_map_ok (vs_pending s)" "counts_ok s"
  define c where "c = session_count s (pv_session v)"
  have c: "c > 0" using count_positive[OF ok(1) Some] by (simp add: c_def)
  have "session_count (releaseValidation x s) sid = session_count s sid - (if pv_session v = sid then 1 else 0)" for sid
    using count_delete[OF ok(1) Some, of "\<lambda>(_, v). pv_session v = sid"] by (simp add: session_count_def release_fields)
  moreover have "vs_pendingBySession (releaseValidation x s) = (if c > 1
      then js_set (pv_session v) (int c - 1) (vs_pendingBySession s) else js_delete (pv_session v) (vs_pendingBySession s))"
    using ok(2) c by (simp add: releaseValidation_def Some Let_def counts_ok_def c_def)
  ultimately show ?thesis using ok(2) c by (auto simp: counts_ok_def c_def)
qed (simp add: releaseValidation_def)

lemma queue_filled: "queues_ok s \<Longrightarrow> js_get (vs_queued s) sid = Some q \<Longrightarrow> q \<noteq> [] \<and> distinct q"
  unfolding queues_ok_def by blast

lemma queues_okI: "(\<And>sid q. js_get (vs_queued s) sid = Some q \<Longrightarrow> q \<noteq> [] \<and> distinct q) \<Longrightarrow> queues_ok s"
  unfolding queues_ok_def by blast

lemma queues_same: "vs_queued s' = vs_queued s \<Longrightarrow> queues_ok s' = queues_ok s"
  by (simp add: queues_ok_def)

lemma queued_in_eq: "queued_in s sid y \<longleftrightarrow> (case js_get (vs_queued s) sid of None \<Rightarrow> False | Some q \<Rightarrow> y \<in> set q)"
  by (simp add: queued_in_def split: option.split)

lemma turns_iff: "turns_ok s \<Longrightarrow> sid \<in> set (vs_scheduling s) \<longleftrightarrow> js_has (vs_queued s) sid \<and> active_session s \<noteq> Some sid"
  unfolding turns_ok_def by blast

lemma turns_okI: "(\<And>sid. sid \<in> set (vs_scheduling s) \<longleftrightarrow> js_has (vs_queued s) sid \<and> active_session s \<noteq> Some sid) \<Longrightarrow> turns_ok s"
  unfolding turns_ok_def by blast

lemma release_core:
  assumes inv: "core_inv s" and x: "js_get (vs_pending s) x = Some v"
  shows "core_inv (releaseValidation x s)"
proof -
  let ?s = "releaseValidation x s" and ?sid = "pv_session v"
  have ok: "js_map_ok (vs_pending s)" "distinct (vs_scheduling s)" "queues_ok s" "turns_ok s" "counts_ok s"
    and q: "\<And>sid y. queued_in s sid y \<longleftrightarrow> waits_in s sid y" and act: "\<And>y. vs_active s = Some y \<Longrightarrow> js_has (vs_pending s) y"
    using inv by (auto simp: core_inv_def)
  have counts: "counts_ok ?s" using release_counts ok by blast
  have pend: "vs_pending ?s = js_delete x (vs_pending s)" by (simp add: release_fields)
  have active: "vs_active ?s = (if vs_active s = Some x then None else vs_active s)" using x by (simp add: release_fields)
  show ?thesis
  proof (cases "vs_active s = Some x")
    case True
    have queued: "vs_queued ?s = vs_queued s"
      using x True by (simp add: releaseValidation_def releaseScheduledValidation_def Let_def)
    have session: "active_session s = Some ?sid" using True x by (simp add: active_session_def)
    hence "?sid \<notin> set (vs_scheduling s)" using turns_iff[OF ok(4), of ?sid] by simp
    have filled: "(case js_get (vs_queued s) ?sid of None \<Rightarrow> False | Some q \<Rightarrow> q \<noteq> []) \<longleftrightarrow> js_has (vs_queued s) ?sid"
    proof (cases "js_get (vs_queued s) ?sid")
      case (Some q')
      thus ?thesis using queue_filled[OF ok(3) Some] by simp
    qed simp
    have sched: "vs_scheduling ?s = (if js_has (vs_queued s) ?sid then vs_scheduling s @ [?sid] else vs_scheduling s)"
      using x True \<open>?sid \<notin> _\<close> by (simp add: releaseValidation_def releaseScheduledValidation_def Let_def filled)
    have none: "active_session ?s = None" using active True by (simp add: active_session_def)
    have "queued_in ?s sid y \<longleftrightarrow> waits_in ?s sid y" for sid y
      using q[of sid y] True by (auto simp: queued_in_def waits_in_def queued pend active)
    moreover have "turns_ok ?s"
    proof (rule turns_okI)
      fix sid show "sid \<in> set (vs_scheduling ?s) \<longleftrightarrow> js_has (vs_queued ?s) sid \<and> active_session ?s \<noteq> Some sid"
        using turns_iff[OF ok(4), of sid] session by (cases "sid = ?sid") (simp_all add: none sched queued)
    qed
    ultimately show ?thesis using ok(1-3) counts \<open>?sid \<notin> _\<close> True
      by (simp add: core_inv_def pend sched queues_same[OF queued] active)
  next
    case False
    obtain qs where qs: "js_get (vs_queued s) ?sid = Some qs" "x \<in> set qs"
      using q[of ?sid x] x False by (auto simp: queued_in_def waits_in_def)
    have dq: "distinct qs" "qs \<noteq> []" using queue_filled[OF ok(3) qs(1)] by simp_all
    let ?q = "remove1 x qs"
    have queued: "vs_queued ?s = (if ?q = [] then js_delete ?sid (vs_queued s) else js_set ?sid ?q (vs_queued s))"
      and sched: "vs_scheduling ?s = (if ?q = [] then remove1 ?sid (vs_scheduling s) else vs_scheduling s)"
      using x False qs(1) by (auto simp: releaseValidation_def releaseScheduledValidation_def Let_def)
    have session: "active_session ?s = active_session s"
      using active False pend by (auto simp: active_session_def split: option.splits)
    have "queued_in ?s sid y \<longleftrightarrow> queued_in s sid y \<and> y \<noteq> x" for sid y
    proof (cases "sid = ?sid")
      case True
      have "queued_in ?s ?sid y \<longleftrightarrow> y \<in> set ?q" by (cases "?q = []") (simp_all add: queued_in_eq queued)
      moreover have "queued_in s ?sid y \<longleftrightarrow> y \<in> set qs" by (simp add: queued_in_eq qs(1))
      moreover have "set ?q = set qs - {x}" using dq(1) by simp
      ultimately show ?thesis using True by simp
    next
      case False
      have "\<not> queued_in s sid x" using q[of sid x] x False by (auto simp: waits_in_def)
      moreover have "queued_in ?s sid y \<longleftrightarrow> queued_in s sid y" using False by (simp add: queued_in_eq queued)
      ultimately show ?thesis by blast
    qed
    moreover have "waits_in ?s sid y \<longleftrightarrow> waits_in s sid y \<and> y \<noteq> x" for sid y
      using False by (auto simp: waits_in_def pend active)
    moreover have "turns_ok ?s"
    proof (rule turns_okI)
      fix sid show "sid \<in> set (vs_scheduling ?s) \<longleftrightarrow> js_has (vs_queued ?s) sid \<and> active_session ?s \<noteq> Some sid"
        using turns_iff[OF ok(4), of sid] ok(2) qs(1) by (cases "sid = ?sid") (simp_all add: session queued sched)
    qed
    moreover have "queues_ok ?s"
    proof (rule queues_okI)
      fix sid q' assume "js_get (vs_queued ?s) sid = Some q'"
      thus "q' \<noteq> [] \<and> distinct q'" using queue_filled[OF ok(3), of sid q'] dq
        by (cases "sid = ?sid"; cases "?q = []") (simp_all add: queued, metis distinct_remove1)
    qed
    moreover have "js_has (vs_pending ?s) y" if "vs_active ?s = Some y" for y
      using act[of y] that False by (auto simp: active pend split: if_splits)
    ultimately show ?thesis using q ok counts by (auto simp: core_inv_def pend sched)
  qed
qed

lemma same_views:
  assumes "vs_pending s' = vs_pending s" "vs_queued s' = vs_queued s" "vs_active s' = vs_active s"
  shows "active_session s' = active_session s" "queued_in s' = queued_in s" "waits_in s' = waits_in s" "queues_ok s' = queues_ok s"
    "session_count s' = session_count s"
  using assms by (simp_all add: active_session_def queued_in_def waits_in_def queues_ok_def session_count_def fun_eq_iff split: option.split)

lemma core_cong:
  assumes "vs_pending s' = vs_pending s" "vs_pendingBySession s' = vs_pendingBySession s" "vs_queued s' = vs_queued s"
    "vs_scheduling s' = vs_scheduling s" "vs_active s' = vs_active s"
  shows "core_inv s' = core_inv s"
  using assms same_views[of s' s] by (simp add: core_inv_def counts_ok_def turns_ok_def)

lemma core_updates [simp]:
  "core_inv (s\<lparr>vs_readyAt := m\<rparr>) = core_inv s" "core_inv (s\<lparr>vs_timer := b\<rparr>) = core_inv s"
  "core_inv (s\<lparr>vs_results := r\<rparr>) = core_inv s" "core_inv (s\<lparr>vs_posted := p\<rparr>) = core_inv s"
  "core_inv (s\<lparr>vs_state := st\<rparr>) = core_inv s" "core_inv (s\<lparr>vs_lifecycle := l\<rparr>) = core_inv s"
  "core_inv (s\<lparr>vs_attached := a\<rparr>) = core_inv s" "core_inv (s\<lparr>vs_now := n\<rparr>) = core_inv s"
  "core_inv (s\<lparr>vs_startedAt := t\<rparr>) = core_inv s" "core_inv (s\<lparr>vs_nextGeneration := g\<rparr>) = core_inv s"
  by (rule core_cong; simp)+

subsection \<open>Rejecting\<close>

lemma reject_fields [simp]:
  "vs_pending (rejectValidation x s) = js_delete x (vs_pending s)" "vs_state (rejectValidation x s) = vs_state s"
  "vs_posted (rejectValidation x s) = vs_posted s" "vs_timer (rejectValidation x s) = vs_timer s"
  by (simp_all add: rejectValidation_def settle_result_def release_fields js_delete_absent)

lemma reject_core: "core_inv s \<Longrightarrow> core_inv (rejectValidation x s)"
  using release_core[of s x] by (cases "js_get (vs_pending s) x") (simp_all add: rejectValidation_def settle_result_def)

lemma reject_active: "vs_active (rejectValidation x s) = vs_active s \<or> vs_active (rejectValidation x s) = None"
  by (simp add: rejectValidation_def settle_result_def release_fields)

lemma posted_mono:
  assumes "posted_ok s" "vs_state s' = vs_state s" "vs_posted s' = vs_posted s"
    "\<And>x v. js_get (vs_pending s') x = Some v \<Longrightarrow> js_get (vs_pending s) x = Some v" "\<And>x. vs_active s' = Some x \<Longrightarrow> vs_active s = Some x"
  shows "posted_ok s'"
  using assms unfolding posted_ok_def by metis

lemma reject_posted: "posted_ok s \<Longrightarrow> posted_ok (rejectValidation x s)"
  by (rule posted_mono) (use reject_active[of x s] in \<open>auto split: if_splits\<close>)

lemma fold_reject:
  "core_inv s \<Longrightarrow> core_inv (fold rejectValidation xs s) \<and> vs_state (fold rejectValidation xs s) = vs_state s \<and>
     vs_pending (fold rejectValidation xs s) = filter (\<lambda>kv. fst kv \<notin> set xs) (vs_pending s)"
proof (induction xs arbitrary: s)
  case Nil
  thus ?case by (simp add: filter_True)
next
  case (Cons x xs)
  have "filter (\<lambda>kv. fst kv \<notin> set xs) (js_delete x m) = filter (\<lambda>kv. fst kv \<notin> set (x # xs)) m" for m :: "(string, pending_validation) jsmap"
    by (induction m) auto
  thus ?case using Cons.IH[OF reject_core[OF Cons.prems, of x]] by simp
qed

lemma fold_reject_posted: "posted_ok s \<Longrightarrow> posted_ok (fold rejectValidation xs s)"
  by (induction xs arbitrary: s) (simp_all add: reject_posted)

lemma rejectAll_fields:
  assumes "core_inv s"
  shows "core_inv (rejectAll s)" "vs_pending (rejectAll s) = []" "vs_state (rejectAll s) = vs_state s" "vs_scheduling (rejectAll s) = []"
proof -
  let ?r = "fold rejectValidation (js_keys (vs_pending s)) (s\<lparr>vs_timer := False\<rparr>)"
  have r: "core_inv ?r" "vs_state ?r = vs_state s" "vs_pending ?r = filter (\<lambda>kv. fst kv \<notin> fst ` set (vs_pending s)) (vs_pending s)"
    using fold_reject[of "s\<lparr>vs_timer := False\<rparr>" "js_keys (vs_pending s)"] assms by simp_all
  have none: "vs_pending ?r = []" unfolding r(3) by (rule filter_False) auto
  thus "vs_pending (rejectAll s) = []" "vs_state (rejectAll s) = vs_state s" "vs_scheduling (rejectAll s) = []"
    using r(2) by (simp_all add: rejectAll_def)
  have "counts_ok ?r" using r(1) by (simp add: core_inv_def)
  thus "core_inv (rejectAll s)" using none
    by (simp add: rejectAll_def core_inv_def counts_ok_def session_count_def queues_ok_def queued_in_def waits_in_def turns_ok_def)
qed

lemma restart_inv:
  assumes "core_inv s" "vs_state s = ReadyV g \<or> vs_state s = StartingV g"
  shows "validator_inv (requestRestart g s)" "vs_state (requestRestart g s) = RestartingV g" "vs_pending (requestRestart g s) = []"
proof -
  have core: "core_inv (s\<lparr>vs_state := RestartingV g\<rparr>)" using assms(1) by simp
  have eq: "requestRestart g s = (let s1 = removeGenerationListeners g (rejectAll (s\<lparr>vs_state := RestartingV g\<rparr>)) in
      s1\<lparr>vs_lifecycle := vs_lifecycle s1 @ [TerminateAndStart g]\<rparr>)"
    using assms(2) by (auto simp: requestRestart_def isCurrentGeneration_def)
  show "vs_state (requestRestart g s) = RestartingV g" "vs_pending (requestRestart g s) = []"
    using rejectAll_fields[OF core] by (simp_all add: eq removeGenerationListeners_def Let_def)
  thus "validator_inv (requestRestart g s)" using rejectAll_fields(1)[OF core]
    by (simp add: validator_inv_def posted_ok_def work_ok_def eq removeGenerationListeners_def Let_def)
qed

subsection \<open>Dispatching\<close>

lemma ready_at_fields:
  "getSessionDispatchReadyAt sid s = (t, s2) \<Longrightarrow> \<exists>m. s2 = s\<lparr>vs_readyAt := m\<rparr>"
  by (rule exI[of _ "vs_readyAt s2"]) (auto simp: getSessionDispatchReadyAt_def Let_def split: if_splits)

lemma requeue_core:
  assumes "core_inv s" "vs_scheduling s = sid # rest"
  shows "core_inv (s\<lparr>vs_scheduling := rest @ [sid]\<rparr>)"
proof -
  let ?s = "s\<lparr>vs_scheduling := rest @ [sid]\<rparr>"
  have "turns_ok ?s = turns_ok s" using assms(2) same_views[of ?s s] by (simp add: turns_ok_def disj_commute)
  moreover have "counts_ok ?s = counts_ok s" using same_views[of ?s s] by (simp add: counts_ok_def)
  ultimately show ?thesis using assms same_views[of ?s s] by (simp add: core_inv_def)
qed

lemma dispatch_core:
  assumes inv: "core_inv s" and active: "vs_active s = None" and sched: "vs_scheduling s = sid # rest" and q: "js_get (vs_queued s) sid = Some (x # q)"
  shows "\<exists>v. js_get (vs_pending s) x = Some v \<and> core_inv (s\<lparr>vs_scheduling := rest,
    vs_queued := (if q = [] then js_delete sid (vs_queued s) else js_set sid q (vs_queued s)), vs_active := Some x\<rparr>)" (is "\<exists>v. _ \<and> core_inv ?s")
proof -
  have ok: "js_map_ok (vs_pending s)" "distinct (vs_scheduling s)" "queues_ok s" "turns_ok s" "counts_ok s"
    and waits: "\<And>sid y. queued_in s sid y \<longleftrightarrow> waits_in s sid y"
    using inv by (auto simp: core_inv_def)
  have dq: "x \<notin> set q" "distinct q" using queue_filled[OF ok(3) q] by simp_all
  have "queued_in s sid x" using q by (simp add: queued_in_eq)
  then obtain v where v: "js_get (vs_pending s) x = Some v" "pv_session v = sid" using waits by (auto simp: waits_in_def)
  have session: "active_session ?s = Some sid" using v by (simp add: active_session_def)
  have none: "active_session s = None" using active by (simp add: active_session_def)
  have "turns_ok ?s"
  proof (rule turns_okI)
    fix y show "y \<in> set (vs_scheduling ?s) \<longleftrightarrow> js_has (vs_queued ?s) y \<and> active_session ?s \<noteq> Some y"
      unfolding session using turns_iff[OF ok(4), of y] ok(2) sched none by (cases "y = sid") simp_all
  qed
  moreover have "queues_ok ?s"
  proof (rule queues_okI)
    fix y q' assume "js_get (vs_queued ?s) y = Some q'"
    thus "q' \<noteq> [] \<and> distinct q'" using queue_filled[OF ok(3), of y q'] dq by (cases "y = sid"; cases "q = []") simp_all
  qed
  moreover have "queued_in ?s y z \<longleftrightarrow> waits_in ?s y z" for y z
  proof -
    have "queued_in ?s y z \<longleftrightarrow> queued_in s y z \<and> z \<noteq> x"
    proof (cases "y = sid")
      case True
      thus ?thesis using q dq by (cases "q = []") (auto simp: queued_in_eq)
    next
      case False
      have "\<not> queued_in s y x" using waits[of y x] v False by (auto simp: waits_in_def)
      moreover have "queued_in ?s y z \<longleftrightarrow> queued_in s y z" using False by (simp add: queued_in_eq)
      ultimately show ?thesis by blast
    qed
    thus ?thesis using waits[of y z] active by (auto simp: waits_in_def)
  qed
  moreover have "counts_ok ?s" using ok(5) by (simp add: counts_ok_def session_count_def)
  ultimately have "core_inv ?s" using ok v(1) sched by (simp add: core_inv_def)
  thus ?thesis using v(1) by blast
qed

lemma dispatch_loop_inv:
  assumes "core_inv s" "posted_ok s" "vs_state s = ReadyV g" "vs_active s = None" "\<not> e \<Longrightarrow> length (vs_scheduling s) \<le> n"
  shows "validator_inv (dispatch_loop posts n e s)"
  using assms
proof (induction n arbitrary: s e)
  case 0
  thus ?case by (cases e) (simp_all add: validator_inv_def work_ok_def posted_ok_def)
next
  case (Suc n)
  show ?case
  proof (cases "vs_scheduling s")
    case Nil
    thus ?thesis using Suc by simp
  next
    case (Cons sid rest)
    have turn: "js_has (vs_queued s) sid"
      using turns_iff[of s sid] Suc.prems(1) Cons by (simp add: core_inv_def)
    then obtain qs where qs: "js_get (vs_queued s) sid = Some qs" by blast
    moreover have "qs \<noteq> []" using queue_filled[of s sid qs] qs Suc.prems(1) by (simp add: core_inv_def)
    ultimately obtain x q where q: "js_get (vs_queued s) sid = Some (x # q)" by (cases qs) auto
    obtain v where v: "js_get (vs_pending s) x = Some v" and core: "core_inv (s\<lparr>vs_scheduling := rest,
        vs_queued := (if q = [] then js_delete sid (vs_queued s) else js_set sid q (vs_queued s)), vs_active := Some x\<rparr>)"
      using dispatch_core[OF Suc.prems(1,4) Cons q] by blast
    obtain t s2 where ready: "getSessionDispatchReadyAt sid (s\<lparr>vs_scheduling := rest\<rparr>) = (t, s2)" by fastforce
    then obtain m where s2: "s2 = s\<lparr>vs_scheduling := rest, vs_readyAt := m\<rparr>" using ready_at_fields by blast
    show ?thesis
    proof (cases "t > vs_now s")
      case True
      let ?s' = "s2\<lparr>vs_scheduling := rest @ [sid]\<rparr>"
      have "core_inv ?s'" using requeue_core[OF Suc.prems(1) Cons] 
        by (subst core_cong[of ?s' "s\<lparr>vs_scheduling := rest @ [sid]\<rparr>"]) (simp_all add: s2)
      moreover have "posted_ok ?s'" using Suc.prems(2) by (simp add: posted_ok_def s2)
      ultimately have "validator_inv (dispatch_loop posts n True ?s')" using Suc.prems(3,4) by (intro Suc.IH) (simp_all add: s2)
      thus ?thesis using True ready q Cons by simp
    next
      case False
      let ?s4 = "s2\<lparr>vs_queued := (if q = [] then js_delete sid (vs_queued s2) else js_set sid q (vs_queued s2)),
        vs_active := Some x, vs_startedAt := Some (vs_now s)\<rparr>"
      have "core_inv ?s4" using core by (subst core_cong[of ?s4 "s\<lparr>vs_scheduling := rest,
        vs_queued := (if q = [] then js_delete sid (vs_queued s) else js_set sid q (vs_queued s)), vs_active := Some x\<rparr>"]) (simp_all add: s2)
      moreover have step: "dispatch_loop posts (Suc n) e s = (if posts then ?s4\<lparr>vs_posted := vs_posted ?s4 @ [(g, pv_request v)]\<rparr> else requestRestart g ?s4)"
        using False ready q Cons v Suc.prems(3) by (simp add: Let_def)
      moreover have "posted_ok (?s4\<lparr>vs_posted := vs_posted ?s4 @ [(g, pv_request v)]\<rparr>)"
        using Suc.prems(2,3) v by (auto simp: posted_ok_def s2)
      ultimately show ?thesis using restart_inv(1)[of ?s4 g] Suc.prems(3) unfolding step
        by (simp add: validator_inv_def work_ok_def s2)
    qed
  qed
qed

lemma dispatch_inv:
  assumes "core_inv s" "posted_ok s"
  shows "validator_inv (dispatchNextValidation posts s)"
proof (cases "\<exists>g. vs_state s = ReadyV g \<and> vs_active s = None")
  case True
  then obtain g where g: "vs_state s = ReadyV g" "vs_active s = None" by blast
  have "posted_ok (s\<lparr>vs_timer := False\<rparr>)" using assms(2) by (simp add: posted_ok_def)
  hence "validator_inv (dispatch_loop posts (length (vs_scheduling s)) False (s\<lparr>vs_timer := False\<rparr>))"
    using assms(1) g by (intro dispatch_loop_inv[of _ g]) simp_all
  thus ?thesis using g by (simp add: dispatchNextValidation_def)
next
  case False
  hence "dispatchNextValidation posts s = s" by (auto simp: dispatchNextValidation_def split: validator_state.split)
  thus ?thesis using assms False by (auto simp: validator_inv_def work_ok_def)
qed

subsection \<open>Every event keeps the invariant\<close>

lemma release_posted: "posted_ok s \<Longrightarrow> posted_ok (releaseValidation x s)"
proof (cases "js_get (vs_pending s) x")
  case (Some v)
  show "posted_ok s \<Longrightarrow> ?thesis" by (rule posted_mono) (use Some in \<open>auto simp: release_fields split: if_splits\<close>)
qed (simp add: releaseValidation_def)

lemma settle_inv: "core_inv s \<Longrightarrow> posted_ok s \<Longrightarrow> core_inv (settle_result x r (releaseValidation x s)) \<and> posted_ok (settle_result x r (releaseValidation x s))"
  using release_core[of s x] release_posted[of s x]
  by (cases "js_get (vs_pending s) x") (simp_all add: settle_result_def posted_ok_def releaseValidation_def)

lemma try_core:
  fixes sid :: string and d :: int
  assumes inv: "core_inv s" and posted: "posted_ok s" and state: "vs_state s = ReadyV g"
    and new: "js_get (vs_pending s) (vq_shareId rq) = None"
  defines "s' \<equiv> enqueueValidation sid (vq_shareId rq)
    (s\<lparr>vs_pending := js_set (vq_shareId rq) \<lparr>pv_session = sid, pv_generation = g, pv_duty = d, pv_request = rq\<rparr> (vs_pending s),
       vs_pendingBySession := js_set sid (session_pending s sid + 1) (vs_pendingBySession s)\<rparr>)"
  shows "core_inv s' \<and> posted_ok s'"
proof
  let ?x = "vq_shareId rq"
  have ok: "js_map_ok (vs_pending s)" "distinct (vs_scheduling s)" "queues_ok s" "turns_ok s" "counts_ok s"
    and waits: "\<And>sid y. queued_in s sid y \<longleftrightarrow> waits_in s sid y" and act: "\<And>y. vs_active s = Some y \<Longrightarrow> js_has (vs_pending s) y"
    using inv by (auto simp: core_inv_def)
  have x: "vs_active s \<noteq> Some ?x" using act[of ?x] new by auto
  have pend: "vs_pending s' = js_set ?x \<lparr>pv_session = sid, pv_generation = g, pv_duty = d, pv_request = rq\<rparr> (vs_pending s)"
    and active: "vs_active s' = vs_active s" and state': "vs_state s' = vs_state s" "vs_posted s' = vs_posted s"
    and count: "vs_pendingBySession s' = js_set sid (session_pending s sid + 1) (vs_pendingBySession s)"
    by (simp_all add: s'_def enqueueValidation_def Let_def)
  have session: "active_session s' = active_session s"
    using x by (simp add: active_session_def active pend split: option.split)
  have sched: "vs_scheduling s' = (if active_session s \<noteq> Some sid \<and> sid \<notin> set (vs_scheduling s) then vs_scheduling s @ [sid] else vs_scheduling s)"
  proof -
    let ?s1 = "s\<lparr>vs_pending := js_set ?x \<lparr>pv_session = sid, pv_generation = g, pv_duty = d, pv_request = rq\<rparr> (vs_pending s),
       vs_pendingBySession := js_set sid (session_pending s sid + 1) (vs_pendingBySession s)\<rparr>"
    have "active_session ?s1 = active_session s" using x by (simp add: active_session_def split: option.split)
    thus ?thesis by (simp add: s'_def enqueueValidation_def Let_def)
  qed
  define q where "q = (case js_get (vs_queued s) sid of None \<Rightarrow> [] | Some q \<Rightarrow> q)"
  have queued: "vs_queued s' = js_set sid (q @ [?x]) (vs_queued s)" by (simp add: s'_def enqueueValidation_def Let_def q_def)
  have inq: "queued_in s sid y \<longleftrightarrow> y \<in> set q" for y by (simp add: queued_in_eq q_def split: option.split)
  have fresh: "\<not> queued_in s sid' ?x" for sid' using waits[of sid' ?x] new by (simp add: waits_in_def)
  have dq: "distinct q"
  proof (cases "js_get (vs_queued s) sid")
    case (Some q0)
    thus ?thesis using queue_filled[OF ok(3) Some] by (simp add: q_def)
  qed (simp add: q_def)
  have "queued_in s' sid' y \<longleftrightarrow> queued_in s sid' y \<or> (sid' = sid \<and> y = ?x)" for sid' y
    using inq[of y] by (cases "sid' = sid") (auto simp: queued_in_eq queued)
  moreover have "waits_in s' sid' y \<longleftrightarrow> waits_in s sid' y \<or> (sid' = sid \<and> y = ?x)" for sid' y
    using x new by (auto simp: waits_in_def pend active)
  moreover have "queues_ok s'"
  proof (rule queues_okI)
    fix y q' assume "js_get (vs_queued s') y = Some q'"
    thus "q' \<noteq> [] \<and> distinct q'" using queue_filled[OF ok(3), of y q'] dq fresh[of sid] inq[of ?x] by (cases "y = sid") (auto simp: queued)
  qed
  moreover have "turns_ok s'"
  proof (rule turns_okI)
    fix y show "y \<in> set (vs_scheduling s') \<longleftrightarrow> js_has (vs_queued s') y \<and> active_session s' \<noteq> Some y"
      using turns_iff[OF ok(4), of y] by (cases "y = sid") (auto simp: sched queued session)
  qed
  moreover have "counts_ok s'"
  proof -
    have "session_count s' y = session_count s y + (if y = sid then 1 else 0)" for y
      using new by (simp add: session_count_def pend js_set_absent)
    thus ?thesis using ok(5) session_pending_count[OF ok(5), of sid] by (simp add: counts_ok_def count)
  qed
  moreover have "js_has (vs_pending s') y" if "vs_active s' = Some y" for y using act[of y] that by (auto simp: active pend)
  ultimately show "core_inv s'" using ok waits by (simp add: core_inv_def pend sched)
  show "posted_ok s'" using posted state x by (auto simp: posted_ok_def pend active state')
qed

lemma try_inv: "validator_inv s \<Longrightarrow> validator_inv (snd (tryValidateShare posts sid rq l s))"
proof -
  assume inv: "validator_inv s"
  obtain t s2 where ready: "getSessionDispatchReadyAt sid s = (t, s2)" by fastforce
  then obtain m where s2: "s2 = s\<lparr>vs_readyAt := m\<rparr>" using ready_at_fields by blast
  have inv2: "validator_inv s2" using inv by (simp add: s2 validator_inv_def posted_ok_def work_ok_def)
  show ?thesis
  proof (cases "vs_state s")
    case (ReadyV g)
    define s3 where "s3 = enqueueValidation sid (vq_shareId rq)
      (s2\<lparr>vs_pending := js_set (vq_shareId rq) \<lparr>pv_session = sid, pv_generation = g, pv_duty = vl_maxSessionDutyCyclePercent l, pv_request = rq\<rparr> (vs_pending s2),
         vs_pendingBySession := js_set sid (session_pending s2 sid + 1) (vs_pendingBySession s2)\<rparr>)"
    have "validator_inv (dispatchNextValidation posts s3)" if "js_get (vs_pending s2) (vq_shareId rq) = None"
      using try_core[of s2 g rq sid "vl_maxSessionDutyCyclePercent l"] inv2 that ReadyV dispatch_inv
      unfolding s3_def by (simp add: validator_inv_def s2)
    thus ?thesis using inv inv2 ReadyV ready by (auto simp: tryValidateShare_def s3_def Let_def)
  qed (use inv in \<open>simp_all add: tryValidateShare_def\<close>)
qed

lemma cancel_inv:
  assumes "validator_inv s"
  shows "validator_inv (cancelValidation posts x s)" "validator_inv (onValidationTimeout posts x g s)" "validator_inv (cancelSession posts sid s)"
proof -
  have core: "core_inv s" "posted_ok s" using assms by (simp_all add: validator_inv_def)
  have restart: "validator_inv (requestRestart (pv_generation v) s)" if "js_get (vs_pending s) y = Some v" for y v
    using restart_inv(1)[OF core(1), of "pv_generation v"] core(2) that by (simp add: posted_ok_def)
  have reject: "validator_inv (dispatchNextValidation posts (rejectValidation y s))" for y
    using dispatch_inv reject_core reject_posted core by blast
  show "validator_inv (cancelValidation posts x s)"
    using assms restart reject by (auto simp: cancelValidation_def split: option.split)
  show "validator_inv (onValidationTimeout posts x g s)"
    using assms restart reject by (auto simp: onValidationTimeout_def split: option.split)
  have rejects: "validator_inv (dispatchNextValidation posts (fold rejectValidation ys s))" for ys
    using dispatch_inv fold_reject fold_reject_posted core by blast
  have forget: "validator_inv (s'\<lparr>vs_readyAt := m\<rparr>)" if "validator_inv s'" for s' m
    using that by (simp add: validator_inv_def posted_ok_def work_ok_def)
  show "validator_inv (cancelSession posts sid s)"
    using assms restart rejects forget by (auto simp: cancelSession_def Let_def split: option.split)
qed

lemma message_inv: "validator_inv s \<Longrightarrow> validator_inv (onWorkerMessage posts g m s)"
proof -
  assume inv: "validator_inv s"
  hence core: "core_inv s" "posted_ok s" by (simp_all add: validator_inv_def)
  have "posted_ok (s\<lparr>vs_state := ReadyV g\<rparr>)" if "vs_state s = StartingV g"
    using core(2) that by (simp add: posted_ok_def)
  hence "validator_inv (onWorkerReady posts g s)" using inv core dispatch_inv by (auto simp: onWorkerReady_def)
  moreover have "validator_inv (onWorkerValidated posts g x b s)" for x b
    using inv dispatch_inv settle_inv[OF core] by (simp add: onWorkerValidated_def)
  moreover have "validator_inv (onWorkerValidationError posts g x s)" for x
    using inv dispatch_inv reject_core[OF core(1)] reject_posted[OF core(2)] by (simp add: onWorkerValidationError_def)
  ultimately show ?thesis using inv by (simp add: onWorkerMessage_def split: worker_message.split)
qed

lemma failure_inv: "validator_inv s \<Longrightarrow> validator_inv (onWorkerFailure g s)"
proof -
  assume inv: "validator_inv s"
  show ?thesis
  proof (cases "vs_state s = ReadyV g \<or> vs_state s = StartingV g")
    case True
    thus ?thesis using restart_inv(1) inv by (auto simp: onWorkerFailure_def isCurrentGeneration_def validator_inv_def)
  next
    case False
    hence "onWorkerFailure g s = s"
      by (cases "vs_state s") (auto simp: onWorkerFailure_def isCurrentGeneration_def)
    thus ?thesis using inv by simp
  qed
qed

lemma no_pending:
  assumes "validator_inv s" "\<not> (\<exists>g. vs_state s = ReadyV g)"
  shows "js_get (vs_pending s) x = None" "vs_pending s = []"
proof -
  show none: "js_get (vs_pending s) x = None" for x
    using assms by (cases "js_get (vs_pending s) x") (auto simp: validator_inv_def posted_ok_def)
  show "vs_pending s = []" using none[of "fst (hd (vs_pending s))"] by (cases "vs_pending s") auto
qed

lemma lifecycle_inv: "validator_inv s \<Longrightarrow> validator_inv (run_lifecycle a b s)"
proof -
  assume inv: "validator_inv s"
  show ?thesis
  proof (cases "\<exists>g. vs_state s = RestartingV g")
    case True
    have "vs_pending s = []" using no_pending(2)[OF inv] True by auto
    thus ?thesis using inv True
      by (auto simp: run_lifecycle_def startGeneration_def validator_inv_def posted_ok_def work_ok_def Let_def split: list.split lifecycle_op.split)
  next
    case False
    thus ?thesis using inv
      by (auto simp: run_lifecycle_def validator_inv_def posted_ok_def work_ok_def Let_def split: list.split lifecycle_op.split)
  qed
qed

lemma dispose_inv: "validator_inv s \<Longrightarrow> validator_inv (dispose s)"
proof -
  assume inv: "validator_inv s"
  have core: "core_inv (s\<lparr>vs_timer := False, vs_state := DisposedV\<rparr>)" using inv by (simp add: validator_inv_def)
  show ?thesis using inv rejectAll_fields[OF core]
    by (cases "vs_state s = DisposedV") (simp_all add: dispose_def Let_def removeGenerationListeners_def validator_inv_def posted_ok_def work_ok_def split: option.split)
qed

lemma step_inv: "validator_inv s \<Longrightarrow> validator_inv (validator_step ev s)"
proof (induction ev s rule: validator_step.induct)
  case (8 posts s)
  hence "core_inv (s\<lparr>vs_timer := False\<rparr>)" "posted_ok (s\<lparr>vs_timer := False\<rparr>)" by (simp_all add: validator_inv_def posted_ok_def)
  thus ?case using 8 dispatch_inv by simp
next
  case (11 posts d s)
  thus ?case by (simp add: validator_inv_def posted_ok_def work_ok_def)
qed (simp_all add: try_inv cancel_inv message_inv failure_inv lifecycle_inv dispose_inv)

lemma new_inv: "validator_inv new_validator"
  by (simp add: new_validator_def startGeneration_def validator_inv_def core_inv_def posted_ok_def work_ok_def queues_ok_def queued_in_def
    waits_in_def turns_ok_def counts_ok_def session_count_def Let_def)

lemma run_inv: "validator_inv s \<Longrightarrow> validator_inv (fold validator_step evs s)"
  by (induction evs arbitrary: s) (simp_all add: step_inv)

end
