(* ===== verification/Pow_Queue.thy ===== *)
theory Pow_Queue
  imports Pow_Scheduling
begin

text \<open>
  What the validation queue promises its callers: a validation that was accepted waits its turn,
  is settled exactly once, with the answer of the worker that was asked, and the queue stays
  within its limits.
\<close>

subsection \<open>Waiting\<close>

lemma fold_reject_pending: "\<exists>P. vs_pending (fold rejectValidation xs s) = filter P (vs_pending s)"
proof (induction xs arbitrary: s)
  case Nil
  show ?case by (rule exI[of _ "\<lambda>_. True"]) simp
next
  case (Cons x xs)
  obtain P where "vs_pending (fold rejectValidation xs (rejectValidation x s)) = filter P (js_delete x (vs_pending s))"
    using Cons.IH[of "rejectValidation x s"] by auto
  hence "vs_pending (fold rejectValidation (x # xs) s) = filter (\<lambda>kv. (case kv of (k, _) \<Rightarrow> x \<noteq> k) \<and> P kv) (vs_pending s)"
    by (simp add: AList.delete_eq conj_commute)
  thus ?case by blast
qed

definition shrinks :: "validator \<Rightarrow> validator \<Rightarrow> bool" where
  "shrinks s s' \<longleftrightarrow> (\<exists>P. vs_pending s' = filter P (vs_pending s))"

lemma shrinks_refl [simp]: "vs_pending s' = vs_pending s \<Longrightarrow> shrinks s s'"
  unfolding shrinks_def by (rule exI[of _ "\<lambda>_. True"]) simp

lemma shrinks_trans: "shrinks s s' \<Longrightarrow> shrinks s' s'' \<Longrightarrow> shrinks s s''"
  unfolding shrinks_def by (metis filter_filter)

lemma shrinks_delete: "vs_pending s' = js_delete x (vs_pending s) \<Longrightarrow> shrinks s s'"
  unfolding shrinks_def by (rule exI[of _ "\<lambda>(k, _). x \<noteq> k"]) (simp add: AList.delete_eq)

lemma shrinks_restart: "shrinks s (requestRestart g s)"
proof -
  obtain P where P: "vs_pending (fold rejectValidation (js_keys (vs_pending s)) (s\<lparr>vs_state := RestartingV g, vs_timer := False\<rparr>)) = filter P (vs_pending s)"
    using fold_reject_pending[of _ "s\<lparr>vs_state := RestartingV g, vs_timer := False\<rparr>"] by auto
  hence "requestRestart g s = s \<or> vs_pending (requestRestart g s) = filter P (vs_pending s)"
    by (simp add: requestRestart_def removeGenerationListeners_def rejectAll_def Let_def)
  thus ?thesis using shrinks_refl unfolding shrinks_def by metis
qed

text \<open>A turn changes nothing of what is pending or settled, unless it ends in a restart.\<close>

definition same_work :: "validator \<Rightarrow> validator \<Rightarrow> bool" where
  "same_work s s' \<longleftrightarrow> vs_pending s' = vs_pending s \<and> vs_results s' = vs_results s"

lemma ready_at_same: "getSessionDispatchReadyAt sid s = (t, s2) \<Longrightarrow> same_work s s2"
  using ready_at_fields by (fastforce simp: same_work_def)

lemma loop_shape: "\<exists>s1. same_work s s1 \<and> (dispatch_loop posts n e s = s1 \<or> (\<exists>g. dispatch_loop posts n e s = requestRestart g s1))"
proof (induction n arbitrary: s e)
  case 0
  show ?case by (rule exI[of _ "dispatch_loop posts 0 e s"]) (simp add: same_work_def)
next
  case (Suc n)
  have rec: ?case if "same_work s s'" "dispatch_loop posts (Suc n) e s = dispatch_loop posts n e' s'" for s' e'
    using Suc.IH[of s' e'] that by (auto simp: same_work_def)
  show ?case
  proof (cases "vs_scheduling s")
    case Nil
    thus ?thesis by (intro rec[of s e]) (simp_all add: same_work_def)
  next
    case (Cons sid rest)
    show ?thesis
    proof (cases "js_get (vs_queued s) sid")
      case None
      thus ?thesis using Cons by (intro rec[of "s\<lparr>vs_scheduling := rest\<rparr>" e]) (simp_all add: same_work_def)
    next
      case (Some qs)
      show ?thesis
      proof (cases qs)
        case Nil
        thus ?thesis using Cons Some by (intro rec[of "s\<lparr>vs_scheduling := rest\<rparr>" e]) (simp_all add: same_work_def)
      next
        case q: (Cons x q)
        obtain t s2 where ready: "getSessionDispatchReadyAt sid (s\<lparr>vs_scheduling := rest\<rparr>) = (t, s2)" by fastforce
        have s2: "same_work s s2" using ready_at_same[OF ready] by (simp add: same_work_def)
        show ?thesis
        proof (cases "t > vs_now s")
          case True
          thus ?thesis using Cons Some q ready s2
            by (intro rec[of "s2\<lparr>vs_scheduling := rest @ [sid]\<rparr>" True]) (simp_all add: same_work_def)
        next
          case False
          let ?s3 = "s2\<lparr>vs_queued := (if q = [] then js_delete sid (vs_queued s2) else js_set sid q (vs_queued s2))\<rparr>"
          let ?s4 = "?s3\<lparr>vs_active := Some x, vs_startedAt := Some (vs_now s)\<rparr>"
          show ?thesis
          proof (cases "js_get (vs_pending s) x")
            case None
            thus ?thesis using Cons Some q ready s2 False by (intro rec[of ?s3 e]) (simp_all add: same_work_def Let_def)
          next
            case v: (Some v)
            define D where "D = dispatch_loop posts (Suc n) e s"
            define S where "S = ?s4"
            have same: "same_work s S" "same_work s (S\<lparr>vs_posted := p\<rparr>)" for p using s2 by (simp_all add: S_def same_work_def)
            have D: "D = (case vs_state s of
                ReadyV g \<Rightarrow> if posts then S\<lparr>vs_posted := vs_posted S @ [(g, pv_request v)]\<rparr> else requestRestart g S | _ \<Rightarrow> S)"
              using Cons Some q ready False v by (cases "vs_state s") (simp_all add: D_def S_def Let_def)
            show ?thesis unfolding D_def[symmetric]
            proof (cases "vs_state s")
              case (ReadyV g)
              show "\<exists>s1. same_work s s1 \<and> (D = s1 \<or> (\<exists>g. D = requestRestart g s1))"
              proof (cases posts)
                case True
                hence "D = S\<lparr>vs_posted := vs_posted S @ [(g, pv_request v)]\<rparr>" unfolding D ReadyV by simp
                thus ?thesis using same(2) by blast
              next
                case False
                hence "D = requestRestart g S" unfolding D ReadyV by simp
                thus ?thesis using same(1) by blast
              qed
            qed (use same(1) D in auto)
          qed
        qed
      qed
    qed
  qed
qed

lemma dispatch_shape: "\<exists>s1. same_work s s1 \<and> (dispatchNextValidation posts s = s1 \<or> (\<exists>g. dispatchNextValidation posts s = requestRestart g s1))"
proof (cases "\<exists>g. vs_state s = ReadyV g \<and> vs_active s = None")
  case True
  hence "dispatchNextValidation posts s = dispatch_loop posts (length (vs_scheduling s)) False (s\<lparr>vs_timer := False\<rparr>)"
    by (auto simp: dispatchNextValidation_def)
  thus ?thesis using loop_shape[of "s\<lparr>vs_timer := False\<rparr>" posts "length (vs_scheduling s)" False] by (auto simp: same_work_def)
next
  case False
  hence "dispatchNextValidation posts s = s" by (auto simp: dispatchNextValidation_def split: validator_state.split)
  thus ?thesis by (auto simp: same_work_def)
qed

lemma shrinks_dispatch: "shrinks s (dispatchNextValidation posts s)"
proof -
  obtain s1 where s1: "same_work s s1" "dispatchNextValidation posts s = s1 \<or> (\<exists>g. dispatchNextValidation posts s = requestRestart g s1)"
    using dispatch_shape by blast
  thus ?thesis using shrinks_refl[of s1 s] shrinks_restart[of s1] shrinks_trans[of s s1] by (auto simp: same_work_def)
qed

lemma shrinks_get: "shrinks s s' \<Longrightarrow> js_map_ok (vs_pending s) \<Longrightarrow> js_get (vs_pending s') x = Some v \<Longrightarrow> js_get (vs_pending s) x = Some v"
  by (auto simp: shrinks_def dest!: map_of_SomeD intro: map_of_is_SomeI)

lemma timeout_ends:
  assumes inv: "validator_inv s" and v: "js_get (vs_pending s) x = Some v"
  shows "js_get (vs_pending (onValidationTimeout posts x (pv_generation v) s)) x = None"
proof -
  have core: "core_inv s" "vs_state s = ReadyV (pv_generation v)" using inv v by (auto simp: validator_inv_def posted_ok_def)
  let ?d = "dispatchNextValidation posts (rejectValidation x s)"
  have "js_map_ok (js_delete x (vs_pending s))" using core(1) by (simp add: core_inv_def)
  hence "js_get (vs_pending ?d) x = None"
    using shrinks_get[OF shrinks_dispatch, of "rejectValidation x s" posts x] by (cases "js_get (vs_pending ?d) x") auto
  thus ?thesis using v core(2) restart_inv(3)[OF core(1), of "pv_generation v"] by (simp add: onValidationTimeout_def)
qed

text \<open>C39. No validation is stranded.  Whatever happens, in whatever order, every accepted validation
  that is not settled belongs to the worker that is ready now, and is either the one this worker
  was asked for or stands in the queue of its session; and when the worker is idle the timer that
  hands out the next turn is armed.  Its own timer ends it in any case.\<close>

theorem no_validation_stranded:
  fixes evs :: "(bool \<times> validator_event) list"
  defines "s \<equiv> fold validator_step evs new_validator"
  assumes v: "js_get (vs_pending s) x = Some v"
  shows "vs_state s = ReadyV (pv_generation v) \<and>
    (vs_active s = Some x \<and> (pv_generation v, pv_request v) \<in> set (vs_posted s)
     \<or> queued_in s (pv_session v) x \<and> (vs_active s = None \<longrightarrow> pv_session v \<in> set (vs_scheduling s) \<and> vs_timer s)) \<and>
    js_get (vs_pending (onValidationTimeout posts x (pv_generation v) s)) x = None"
proof -
  have inv: "validator_inv s" unfolding s_def by (rule run_inv[OF new_inv])
  hence core: "core_inv s" "posted_ok s" "work_ok s" by (simp_all add: validator_inv_def)
  have state: "vs_state s = ReadyV (pv_generation v)" using core(2) v by (simp add: posted_ok_def)
  have waits: "queued_in s (pv_session v) x \<and> (vs_active s = None \<longrightarrow> pv_session v \<in> set (vs_scheduling s) \<and> vs_timer s)" if "vs_active s \<noteq> Some x"
  proof
    show q: "queued_in s (pv_session v) x" using core(1) v that by (auto simp: core_inv_def waits_in_def)
    show "vs_active s = None \<longrightarrow> pv_session v \<in> set (vs_scheduling s) \<and> vs_timer s"
    proof
      assume none: "vs_active s = None"
      have "pv_session v \<in> set (vs_scheduling s)"
        using turns_iff[of s "pv_session v"] core(1) q none by (auto simp: core_inv_def queued_in_def active_session_def)
      thus "pv_session v \<in> set (vs_scheduling s) \<and> vs_timer s" using core(3) state none by (auto simp: work_ok_def)
    qed
  qed
  have "vs_active s = Some x \<Longrightarrow> (pv_generation v, pv_request v) \<in> set (vs_posted s)" using core(2) v by (simp add: posted_ok_def)
  thus ?thesis using state waits timeout_ends[OF inv v, of posts] by blast
qed

definition demo_share :: "string \<Rightarrow> validate_request" where
  "demo_share x = \<lparr>vq_shareId = x, vq_nonce = 1, vq_data = [], vq_preimage = ''p'', vq_difficulty = 10\<rparr>"

definition demo_limits :: validator_limits where
  "demo_limits = \<lparr>vl_maxGlobalPending = 8, vl_maxSessionPending = 2, vl_maxSessionDutyCyclePercent = 50, vl_timeoutMs = 1000\<rparr>"

text \<open>Two shares of a session: the first is answered, the second waits for the session's next turn.\<close>

definition demo_validations :: "(bool \<times> validator_event) list" where
  "demo_validations = [(True, WorkerSays 1 InitMessage), (True, TryValidate ''s'' (demo_share ''a'') demo_limits),
     (True, TryValidate ''s'' (demo_share ''b'') demo_limits), (True, ClockTick 5), (True, WorkerSays 1 (ValidatedMessage ''a'' True))]"

theorem no_validation_stranded_witness:
  "queued_in (fold validator_step demo_validations new_validator) ''s'' ''b'' \<and> vs_timer (fold validator_step demo_validations new_validator)"
proof -
  let ?s = "fold validator_step demo_validations new_validator"
  have "js_get (vs_pending ?s) ''b'' = Some \<lparr>pv_session = ''s'', pv_generation = 1, pv_duty = 50, pv_request = demo_share ''b''\<rparr>"
    "vs_active ?s = None" by code_simp+
  thus ?thesis using no_validation_stranded[where evs = demo_validations and x = "''b''"] by fastforce
qed

subsection \<open>Settled once\<close>

definition accounted :: "validator \<Rightarrow> string multiset" where
  "accounted s = mset (map fst (vs_results s)) + mset (js_keys (vs_pending s))"

lemma mset_keys_delete: "js_map_ok m \<Longrightarrow> js_has m x \<Longrightarrow> add_mset x (mset (js_keys (js_delete x m))) = mset (js_keys m)"
proof (induction m)
  case (Cons kv m)
  obtain k w where kv: "kv = (k, w)" by (cases kv)
  show ?case
  proof (cases "k = x")
    case True
    hence "js_get m x = None" using Cons.prems(1) kv by (simp add: map_of_eq_None_iff)
    thus ?thesis using True kv by (simp add: js_delete_absent)
  next
    case False
    hence "add_mset x (mset (js_keys (js_delete x m))) = mset (js_keys m)" using Cons kv by auto
    thus ?thesis using False kv by (simp add: add_mset_commute)
  qed
qed simp

lemma settle_accounted:
  "js_map_ok (vs_pending s) \<Longrightarrow> js_has (vs_pending s) x \<Longrightarrow> accounted (settle_result x r (releaseValidation x s)) = accounted s"
  using mset_keys_delete[of "vs_pending s" x] by (simp add: accounted_def settle_result_def release_fields)

lemma reject_accounted: "js_map_ok (vs_pending s) \<Longrightarrow> accounted (rejectValidation x s) = accounted s"
  by (simp add: rejectValidation_def settle_accounted)

lemma fold_reject_accounted: "js_map_ok (vs_pending s) \<Longrightarrow> accounted (fold rejectValidation xs s) = accounted s"
  by (induction xs arbitrary: s) (simp_all add: reject_accounted)

lemma restart_accounted: "js_map_ok (vs_pending s) \<Longrightarrow> accounted (requestRestart g s) = accounted s"
  using fold_reject_accounted[of "s\<lparr>vs_state := RestartingV g, vs_timer := False\<rparr>"]
  by (simp add: requestRestart_def removeGenerationListeners_def rejectAll_def accounted_def Let_def)

lemma dispatch_accounted: "js_map_ok (vs_pending s) \<Longrightarrow> accounted (dispatchNextValidation posts s) = accounted s"
proof -
  assume ok: "js_map_ok (vs_pending s)"
  obtain s1 where s1: "same_work s s1" "dispatchNextValidation posts s = s1 \<or> (\<exists>g. dispatchNextValidation posts s = requestRestart g s1)"
    using dispatch_shape by blast
  moreover have "accounted s1 = accounted s" using s1(1) by (simp add: same_work_def accounted_def)
  ultimately show ?thesis using restart_accounted[of s1] ok by (auto simp: same_work_def)
qed

text \<open>The share that an event submits, when it is accepted.\<close>

fun accepts :: "bool \<times> validator_event \<Rightarrow> validator \<Rightarrow> string multiset" where
  "accepts (posts, TryValidate sid rq l) s = (if fst (tryValidateShare posts sid rq l s) = Accepted then {#vq_shareId rq#} else {#})"
| "accepts _ s = {#}"

primrec accepted :: "(bool \<times> validator_event) list \<Rightarrow> validator \<Rightarrow> string multiset" where
  "accepted [] s = {#}"
| "accepted (ev # evs) s = accepts ev s + accepted evs (validator_step ev s)"

lemma inv_map_ok: "validator_inv s \<Longrightarrow> js_map_ok (vs_pending s)"
  by (simp add: validator_inv_def core_inv_def)

lemma same_accounted: "same_work s s' \<Longrightarrow> accounted s' = accounted s"
  by (simp add: same_work_def accounted_def)

lemma enqueue_same: "same_work s (enqueueValidation sid x s)"
  by (simp add: enqueueValidation_def same_work_def Let_def)

text \<open>What a submitted share leads to: nothing that matters, or a dispatch after its entry was added.\<close>

lemma try_cases:
  assumes "validator_inv s"
  obtains s2 where "fst (tryValidateShare posts sid rq l s) \<noteq> Accepted" "tryValidateShare posts sid rq l s = (fst (tryValidateShare posts sid rq l s), s2)"
      "same_work s s2"
    | s3 v where "fst (tryValidateShare posts sid rq l s) = Accepted" "snd (tryValidateShare posts sid rq l s) = dispatchNextValidation posts s3"
      "vs_pending s3 = js_set (vq_shareId rq) v (vs_pending s)" "pv_session v = sid" "vs_results s3 = vs_results s"
      "js_get (vs_pending s) (vq_shareId rq) = None" "int (length (vs_pending s)) < vl_maxGlobalPending l"
      "session_pending s sid < vl_maxSessionPending l"
proof (cases "vs_state s")
  case (ReadyV g)
  obtain t s2 where ready: "getSessionDispatchReadyAt sid s = (t, s2)" by fastforce
  then obtain m where s2: "s2 = s\<lparr>vs_readyAt := m\<rparr>" using ready_at_fields by blast
  have same: "same_work s s2" by (rule ready_at_same[OF ready])
  define v where "v = \<lparr>pv_session = sid, pv_generation = g, pv_duty = vl_maxSessionDutyCyclePercent l, pv_request = rq\<rparr>"
  define s3 where "s3 = enqueueValidation sid (vq_shareId rq) (s2\<lparr>vs_pending := js_set (vq_shareId rq) v (vs_pending s2),
    vs_pendingBySession := js_set sid (session_pending s2 sid + 1) (vs_pendingBySession s2)\<rparr>)"
  have s3: "vs_pending s3 = js_set (vq_shareId rq) v (vs_pending s)" "vs_results s3 = vs_results s"
    by (simp_all add: s3_def enqueueValidation_def s2 Let_def)
  show thesis
  proof (cases "isValidRequest sid rq l \<and> \<not> t > vs_now s \<and> int (length (vs_pending s)) < vl_maxGlobalPending l
      \<and> session_pending s sid < vl_maxSessionPending l \<and> js_get (vs_pending s) (vq_shareId rq) = None")
    case True
    hence "tryValidateShare posts sid rq l s = (Accepted, dispatchNextValidation posts s3)"
      using ReadyV ready by (simp add: tryValidateShare_def s3_def v_def s2 session_pending_def)
    thus thesis using that(2)[of s3 v] s3 True by (simp add: v_def)
  next
    case False
    hence "fst (tryValidateShare posts sid rq l s) \<noteq> Accepted \<and> snd (tryValidateShare posts sid rq l s) \<in> {s, s2}"
      using ReadyV ready by (auto simp: tryValidateShare_def s2 session_pending_def)
    moreover have "same_work s s" by (simp add: same_work_def)
    ultimately show thesis using that(1) same by (metis insertE prod.collapse singletonD)
  qed
qed (use that(1)[of s] in \<open>simp_all add: tryValidateShare_def same_work_def\<close>)

lemma step_accounted: "validator_inv s \<Longrightarrow> accounted (validator_step ev s) = accounted s + accepts ev s"
proof (induction ev s rule: validator_step.induct)
  case (1 posts sid rq l s)
  have ok: "js_map_ok (vs_pending s)" using 1 inv_map_ok by blast
  from 1 show ?case
  proof (cases rule: try_cases[of s posts sid rq l])
    case (1 s2)
    have "snd (tryValidateShare posts sid rq l s) = s2" by (subst 1(2)) simp
    thus ?thesis using 1(1) same_accounted[OF 1(3)] by simp
  next
    case (2 s3 v)
    have "js_map_ok (vs_pending s3)" using 2(3) ok by simp
    hence "accounted (dispatchNextValidation posts s3) = accounted s3" by (rule dispatch_accounted)
    thus ?thesis using 2 by (simp add: accounted_def js_set_absent)
  qed
next
  case (2 posts x s)
  have ok: "js_map_ok (vs_pending s)" using 2 inv_map_ok by blast
  hence "js_map_ok (vs_pending (rejectValidation x s))" by simp
  thus ?case using dispatch_accounted reject_accounted[OF ok] restart_accounted[OF ok] by (simp add: cancelValidation_def split: option.split)
next
  case (3 posts sid s)
  have ok: "js_map_ok (vs_pending s)" using 3 inv_map_ok by blast
  have "accounted (dispatchNextValidation posts (fold rejectValidation xs s)) = accounted s" for xs
    using dispatch_accounted[of "fold rejectValidation xs s"] fold_reject_accounted[OF ok] fold_reject_pending[of xs s] ok
    by (auto simp: distinct_map_filter)
  moreover have "accounted (s'\<lparr>vs_readyAt := m\<rparr>) = accounted s'" for s' m by (simp add: accounted_def)
  ultimately show ?case using restart_accounted[OF ok] by (simp add: cancelSession_def Let_def split: option.split)
next
  case (4 posts g m s)
  have ok: "js_map_ok (vs_pending s)" using 4 inv_map_ok by blast
  have settled: "accounted (dispatchNextValidation posts (settle_result x r (releaseValidation x s))) = accounted s" if "js_has (vs_pending s) x" for x r
    using dispatch_accounted[of "settle_result x r (releaseValidation x s)"] settle_accounted[OF ok that] ok
    by (simp add: settle_result_def release_fields)
  have "accounted (onWorkerValidated posts g x b s) = accounted s" for x b
    using settled by (auto simp: onWorkerValidated_def awaited_def split: option.splits)
  moreover have "accounted (onWorkerValidationError posts g x s) = accounted s" for x
    using dispatch_accounted[of "rejectValidation x s"] reject_accounted[OF ok] ok by (simp add: onWorkerValidationError_def)
  moreover have "accounted (onWorkerReady posts g s) = accounted s"
    using dispatch_accounted[of "s\<lparr>vs_state := ReadyV g\<rparr>"] ok by (simp add: onWorkerReady_def accounted_def)
  ultimately show ?case by (simp add: onWorkerMessage_def split: worker_message.split)
next
  case (7 posts x g s)
  have ok: "js_map_ok (vs_pending s)" using 7 inv_map_ok by blast
  hence "js_map_ok (vs_pending (rejectValidation x s))" by simp
  thus ?case using dispatch_accounted reject_accounted[OF ok] restart_accounted[OF ok] by (simp add: onValidationTimeout_def split: option.split)
next
  case (8 posts s)
  thus ?case using dispatch_accounted[of "s\<lparr>vs_timer := False\<rparr>"] inv_map_ok[of s] by (simp add: accounted_def)
next
  case (9 posts a b s)
  show ?case by (simp add: run_lifecycle_def startGeneration_def accounted_def Let_def split: list.split lifecycle_op.split)
next
  case (10 posts s)
  have "js_map_ok (vs_pending s)" using 10 inv_map_ok by blast
  hence "accounted (fold rejectValidation (js_keys (vs_pending s)) (s\<lparr>vs_state := DisposedV, vs_timer := False\<rparr>)) = accounted s"
    using fold_reject_accounted[of "s\<lparr>vs_state := DisposedV, vs_timer := False\<rparr>"] by (simp add: accounted_def)
  thus ?case by (simp add: dispose_def rejectAll_def removeGenerationListeners_def accounted_def Let_def split: option.split)
next
  case (11 posts d s)
  show ?case by (simp add: accounted_def)
qed (simp_all add: onWorkerFailure_def restart_accounted inv_map_ok)

text \<open>C40. Every validation that was accepted is settled exactly once or still pending: counted with
  multiplicity, the results and the pending shares are the accepted ones.  The queue settles no
  share it did not accept, none twice and drops none.\<close>

theorem validations_settled_once:
  "mset (map fst (vs_results (fold validator_step evs new_validator))) + mset (js_keys (vs_pending (fold validator_step evs new_validator)))
    = accepted evs new_validator"
proof -
  have "accounted (fold validator_step evs s) = accounted s + accepted evs s" if "validator_inv s" for s
    using that by (induction evs arbitrary: s) (simp_all add: step_accounted step_inv add.assoc)
  moreover have "accounted new_validator = {#}" by (simp add: accounted_def new_validator_def startGeneration_def)
  ultimately show ?thesis using new_inv by (simp add: accounted_def)
qed

subsection \<open>Answers and limits\<close>

definition only_rejects :: "validator \<Rightarrow> validator \<Rightarrow> bool" where
  "only_rejects s s' \<longleftrightarrow> (\<forall>x b. (x, ResolvedV b) \<in> set (vs_results s') \<longrightarrow> (x, ResolvedV b) \<in> set (vs_results s))"

lemma rejects_same [simp]: "vs_results s' = vs_results s \<Longrightarrow> only_rejects s s'"
  by (simp add: only_rejects_def)

lemma rejects_trans: "only_rejects s s' \<Longrightarrow> only_rejects s' s'' \<Longrightarrow> only_rejects s s''"
  by (simp add: only_rejects_def)

lemma rejects_reject: "only_rejects s (rejectValidation x s)"
  by (simp add: only_rejects_def rejectValidation_def settle_result_def release_fields)

lemma rejects_fold: "only_rejects s (fold rejectValidation xs s)"
proof (induction xs arbitrary: s)
  case (Cons x xs)
  show ?case using rejects_trans[OF rejects_reject Cons.IH] by simp
qed simp

lemma rejects_restart: "only_rejects s (requestRestart g s)"
  using rejects_fold[of "s\<lparr>vs_state := RestartingV g, vs_timer := False\<rparr>" "js_keys (vs_pending s)"]
  by (simp add: requestRestart_def removeGenerationListeners_def rejectAll_def only_rejects_def Let_def)

lemma rejects_dispatch: "only_rejects s (dispatchNextValidation posts s)"
proof -
  obtain s1 where s1: "same_work s s1" "dispatchNextValidation posts s = s1 \<or> (\<exists>g. dispatchNextValidation posts s = requestRestart g s1)"
    using dispatch_shape by blast
  thus ?thesis using rejects_restart[of s1] by (auto simp: same_work_def only_rejects_def)
qed

lemma rejects_dispatch_after: "only_rejects s s' \<Longrightarrow> only_rejects s (dispatchNextValidation posts s')"
  using rejects_trans rejects_dispatch by blast

definition awaited_answer :: "bool \<times> validator_event \<Rightarrow> string \<Rightarrow> bool \<Rightarrow> validator \<Rightarrow> bool" where
  "awaited_answer ev x b s \<longleftrightarrow> (\<exists>posts g. ev = (posts, WorkerSays g (ValidatedMessage x b)) \<and> g \<in> set (vs_attached s) \<and> awaited g x s)"

lemma step_answers:
  assumes "validator_inv s" "(x, ResolvedV b) \<in> set (vs_results (validator_step ev s))" "(x, ResolvedV b) \<notin> set (vs_results s)"
  shows "awaited_answer ev x b s"
proof -
  have rejects: "\<not> only_rejects s (validator_step ev s)" using assms(2,3) by (auto simp: only_rejects_def)
  have forget: "only_rejects s (s'\<lparr>vs_readyAt := m\<rparr>)" if "only_rejects s s'" for s' m using that by (simp add: only_rejects_def)
  show ?thesis
  proof (cases "(ev, s)" rule: validator_step.cases)
    case (1 posts sid rq l s0)
    have "only_rejects s (snd (tryValidateShare posts sid rq l s))" using assms(1)
    proof (cases rule: try_cases[of s posts sid rq l])
      case (1 s2)
      have "snd (tryValidateShare posts sid rq l s) = s2" by (subst 1(2)) simp
      thus ?thesis using 1(3) by (simp add: same_work_def)
    next
      case (2 s3 v)
      thus ?thesis using rejects_dispatch_after[of s s3 posts] by simp
    qed
    thus ?thesis using rejects 1 by simp
  next
    case (2 posts y s0)
    have "only_rejects s (cancelValidation posts y s)"
      using rejects_dispatch_after rejects_reject rejects_restart by (simp add: cancelValidation_def split: option.split)
    thus ?thesis using rejects 2 by simp
  next
    case (3 posts sid s0)
    have "only_rejects s (cancelSession posts sid s)"
      using forget rejects_dispatch_after[OF rejects_fold] rejects_restart by (simp add: cancelSession_def Let_def split: option.split)
    thus ?thesis using rejects 3 by simp
  next
    case (4 posts g m s0)
    have ready: "only_rejects s (onWorkerReady posts g s)" "only_rejects s (onWorkerValidationError posts g y s)" for y
      using rejects_dispatch_after rejects_reject by (simp_all add: onWorkerReady_def onWorkerValidationError_def)
    have m: "g \<in> set (vs_attached s)" "m \<noteq> InitMessage" "\<And>y. m \<noteq> ErrorMessage y" "m \<noteq> OtherMessage"
      using rejects ready 4 by (auto simp: onWorkerMessage_def split: if_splits)
    then obtain y c where y: "m = ValidatedMessage y c" by (cases m) auto
    have step: "validator_step ev s = onWorkerValidated posts g y c s" using rejects 4 y by (auto simp: onWorkerMessage_def split: if_splits)
    have aw: "awaited g y s" using rejects step by (auto simp: onWorkerValidated_def split: if_splits)
    have "only_rejects (settle_result y (ResolvedV c) (releaseValidation y s)) (validator_step ev s)"
      using aw step rejects_dispatch by (simp add: onWorkerValidated_def)
    hence "(x, ResolvedV b) \<in> set (vs_results (settle_result y (ResolvedV c) (releaseValidation y s)))" using assms(2) by (auto simp: only_rejects_def)
    hence "x = y \<and> b = c" using assms(3) by (simp add: settle_result_def release_fields)
    thus ?thesis using 4 y m(1) aw by (auto simp: awaited_answer_def)
  next
    case (5 posts g s0)
    thus ?thesis using rejects rejects_restart by (auto simp: onWorkerFailure_def split: if_splits)
  next
    case (6 posts g s0)
    thus ?thesis using rejects rejects_restart by (auto simp: onWorkerFailure_def split: if_splits)
  next
    case (7 posts y g s0)
    have "only_rejects s (onValidationTimeout posts y g s)"
      using rejects_dispatch_after rejects_reject rejects_restart by (simp add: onValidationTimeout_def split: option.split)
    thus ?thesis using rejects 7 by simp
  next
    case (8 posts s0)
    thus ?thesis using rejects rejects_dispatch_after[of s "s\<lparr>vs_timer := False\<rparr>" posts] by (auto split: if_splits)
  next
    case (9 posts a b' s0)
    have "only_rejects s (run_lifecycle a b' s)"
      by (simp add: run_lifecycle_def startGeneration_def Let_def split: list.split lifecycle_op.split)
    thus ?thesis using rejects 9 by simp
  next
    case (10 posts s0)
    have "only_rejects s (dispose s)" using rejects_fold[of "s\<lparr>vs_state := DisposedV, vs_timer := False\<rparr>" "js_keys (vs_pending s)"]
      by (simp add: dispose_def rejectAll_def removeGenerationListeners_def only_rejects_def Let_def split: option.split)
    thus ?thesis using rejects 10 by simp
  next
    case (11 posts d s0)
    thus ?thesis using rejects by simp
  qed
qed

text \<open>A share counts as valid or invalid only by the answer of the worker that was asked for it:
  whenever a result appears, the event is a message of the attached, current worker about the
  very share it was given, and the result is what the message says.  A late answer, one of a
  replaced worker, or one about another share settles nothing.\<close>

lemma validation_result_authentic:
  fixes evs :: "(bool \<times> validator_event) list"
  defines "s \<equiv> fold validator_step evs new_validator"
  assumes "(x, ResolvedV b) \<in> set (vs_results (validator_step ev s))" "(x, ResolvedV b) \<notin> set (vs_results s)"
  shows "\<exists>posts g v. ev = (posts, WorkerSays g (ValidatedMessage x b)) \<and> g \<in> set (vs_attached s) \<and> vs_state s = ReadyV g \<and>
    vs_active s = Some x \<and> js_get (vs_pending s) x = Some v \<and> (g, pv_request v) \<in> set (vs_posted s) \<and> vq_shareId (pv_request v) = x"
proof -
  have inv: "validator_inv s" unfolding s_def by (rule run_inv[OF new_inv])
  obtain posts g v where ev: "ev = (posts, WorkerSays g (ValidatedMessage x b))" "g \<in> set (vs_attached s)" "vs_state s = ReadyV g"
      "vs_active s = Some x" "js_get (vs_pending s) x = Some v" "pv_generation v = g"
    using step_answers[OF inv assms(2,3)] by (auto simp: awaited_answer_def awaited_def split: option.splits)
  have "posted_ok s" using inv by (simp add: validator_inv_def)
  hence "vq_shareId (pv_request v) = x" "(g, pv_request v) \<in> set (vs_posted s)" using ev(4,5,6) unfolding posted_ok_def by blast+
  thus ?thesis using ev by blast
qed

lemma validation_result_authentic_at:
  "vs_active (fold validator_step (take 4 demo_validations) new_validator) = Some ''a''"
proof -
  let ?s = "fold validator_step (take 4 demo_validations) new_validator"
  have r: "(''a'', ResolvedV True) \<in> set (vs_results (validator_step (True, WorkerSays 1 (ValidatedMessage ''a'' True)) ?s))"
    "(''a'', ResolvedV True) \<notin> set (vs_results ?s)" by code_simp+
  show ?thesis using validation_result_authentic[OF r] by blast
qed

end
