(* ===== verification/Pow_Session.thy ===== *)
theory Pow_Session
  imports Pow_Queue
begin

text \<open>
  The mining worker process, first part: its state, and \<^verbatim>\<open>modules/pow/PoWSession.ts\<close>.  Session and
  share objects are referred to by number, in the order of their creation, because an object may
  outlive its entry in a map.  Promises are the continuations that wait behind them; a settled
  promise queues its continuations as tasks, which run in any order.  Reports of properties to the
  main process (\<^verbatim>\<open>getDirtyProps\<close>) and messages to the browser are output only and left out; sending
  to the main process does not throw.
\<close>

subsection \<open>Configuration\<close>

text \<open>\<^verbatim>\<open>percentageToBasisPoints\<close> reads the text of a number; \<^verbatim>\<open>in_range\<close> is its check that the number
  is finite and between 0 and 100.\<close>

definition exponent_value :: "string \<Rightarrow> int" where
  "exponent_value s = (case s of [] \<Rightarrow> 0
     | c # r \<Rightarrow> if c = CHR ''-'' then - int (dec_value r) else if c = CHR ''+'' then int (dec_value r) else int (dec_value s))"

definition strip_zeros :: "string \<Rightarrow> string" where
  "strip_zeros s = (case dropWhile (\<lambda>c. c = CHR ''0'') s of [] \<Rightarrow> ''0'' | r \<Rightarrow> r)"

definition zeros :: "nat \<Rightarrow> string" where
  "zeros n = replicate n (CHR ''0'')"

definition drop_end :: "nat \<Rightarrow> string \<Rightarrow> string" where
  "drop_end n s = (case take (length s - n) s of [] \<Rightarrow> ''0'' | r \<Rightarrow> r)"

definition scaled_digits :: "string \<Rightarrow> int \<Rightarrow> string option" where
  "scaled_digits digits places =
     (let digits = (if places < 0 then digits @ zeros (nat (- places)) else digits); places = max 0 places in
      if places > 2 then
        (let excess = nat (places - 2) in
         if excess \<le> length digits \<and> drop (length digits - excess) digits = zeros excess then Some (drop_end excess digits) else None)
      else Some (digits @ zeros (nat (2 - places))))"

definition percentageToBasisPoints :: "bool \<Rightarrow> string \<Rightarrow> int option" where
  "percentageToBasisPoints in_range txt =
     (if \<not> in_range then None
      else let parts = split_on (CHR ''e'') txt; mantissa = split_on (CHR ''.'') (hd parts);
               exponent = (case tl parts of [] \<Rightarrow> 0 | x # _ \<Rightarrow> exponent_value x);
               fraction = (case tl mantissa of [] \<Rightarrow> [] | x # _ \<Rightarrow> x) in
        (case scaled_digits (strip_zeros (hd mantissa @ fraction)) (int (length fraction) - exponent) of
           None \<Rightarrow> None
         | Some digits \<Rightarrow> let basisPoints = int (dec_value digits) in if basisPoints > 10000 then None else Some basisPoints))"

text \<open>The percentages of a checked configuration are kept in basis points.\<close>

definition applyPoWPercentage :: "int \<Rightarrow> int \<Rightarrow> int" where
  "applyPoWPercentage amount basisPoints = bigint_div (amount * basisPoints) 10000"

record pow_policy =
  pp_powShareReward :: int
  pp_powDifficulty :: int
  pp_powIdleTimeout :: rat
  pp_powHashrateHardLimit :: rat
  pp_params :: string
  pp_verifyLocalMaxQueue :: int
  pp_verifyLocalMaxPendingPerSession :: int
  pp_verifyLocalMaxSessionDutyCyclePercent :: int
  pp_verifyLocalTimeout :: rat
  pp_verifyMinerPeerCount :: int
  pp_verifyMinerPercent :: rat
  pp_verifyMinerIndividuals :: int
  pp_verifyMinerMaxPending :: int
  pp_verifyMinerMaxMissed :: int
  pp_verifyMinerRewardPerc :: int
  pp_verifyMinerMissPenaltyPerc :: int

subsection \<open>State of the worker process\<close>

text \<open>\<^verbatim>\<open>holdBenignCloseForSecurityDecision\<close> returns a closure that works once; it is named by the share
  that holds it and by its role there, and kept as the session it belongs to.  A disposed session
  gives a closure that does nothing, kept as \<^term>\<open>None\<close>.\<close>

datatype guard_name = SubmitterOf nat | VerifierOf nat string

type_synonym close_guard = "nat option"

text \<open>What runs when a reward is acknowledged or a session is closed.\<close>

datatype waiter =
    ShareRewarded nat
  | ShareSlashed nat
  | VerifierSlashed nat string close_guard
  | VerifierRewarded nat string close_guard
  | PenaltyApplied nat string close_guard
  | ClientClosed

record session_close =
  sc_type :: string
  sc_reason :: string
  sc_sent :: "string option"

datatype close_promise = ClosePending "waiter list" | CloseResolved

record pow_session =
  so_id :: string
  so_client :: "nat option"
  so_missed :: int
  so_pendingVerifications :: int
  so_balance :: int
  so_rewardCounter :: nat
  so_rewards :: "(nat, waiter) jsmap"
  so_close :: "session_close option"
  so_closing :: close_promise
  so_decisions :: int
  so_held :: "guard_name list"
  so_disposed :: bool
  so_lastNonce :: int
  so_shareCount :: int
  so_startTime :: int
  so_preimage :: string
  so_idleTimer :: bool

datatype telemetry = TelemetryIdle | TelemetryOpen | TelemetryClosed

datatype telemetry_close = Complete | TelemetryTimeout | ValidationFailed

datatype settlement = Undecided | Settling | Settled | Cancelled

datatype share_outcome = ShareValid int | ShareInvalid | ShareFailed

record verify_wait =
  vw_verifier :: string
  vw_session :: "nat option"
  vw_valid :: bool
  vw_guard :: "close_guard option"

record pow_share =
  sh_id :: string
  sh_session :: nat
  sh_nonce :: int
  sh_data :: string
  sh_policy :: pow_policy
  sh_policyId :: string
  sh_minerCount :: int
  sh_pendingIds :: "string list"
  sh_responded :: "string list"
  sh_guards :: "(string, close_guard) jsmap"
  sh_telemetry :: telemetry
  sh_settlement :: settlement
  sh_local :: "bool option option"
  sh_waiting :: "verify_wait list"
  sh_result :: "share_outcome option"
  sh_submitterGuard :: "close_guard option"

datatype pow_task =
    RewardAnswer nat waiter int int
  | Resume waiter "int option"
  | LocalKnown nat verify_wait "bool option"
  | StartPenalty nat int nat string "close_guard option"
  | ClientTold nat

datatype pow_message =
    RewardMessage nat nat int string
  | AbortMessage nat string string

record pow_world =
  pw_object :: "nat \<Rightarrow> pow_session"
  pw_objects :: nat
  pw_sessions :: "(string, nat) jsmap"
  pw_share :: "nat \<Rightarrow> pow_share"
  pw_shares :: nat
  pw_verifying :: "(string, nat) jsmap"
  pw_awaiting :: "(nat, nat) jsmap"
  pw_validator :: validator
  pw_config :: pow_policy
  pw_tasks :: "pow_task list"
  pw_sent :: "pow_message list"
  pw_clients :: nat
  pw_shutdown :: bool

definition upd_object :: "nat \<Rightarrow> (pow_session \<Rightarrow> pow_session) \<Rightarrow> pow_world \<Rightarrow> pow_world" where
  "upd_object r f w = w\<lparr>pw_object := (pw_object w)(r := f (pw_object w r))\<rparr>"

definition upd_share :: "nat \<Rightarrow> (pow_share \<Rightarrow> pow_share) \<Rightarrow> pow_world \<Rightarrow> pow_world" where
  "upd_share k f w = w\<lparr>pw_share := (pw_share w)(k := f (pw_share w k))\<rparr>"

definition queue_tasks :: "pow_task list \<Rightarrow> pow_world \<Rightarrow> pow_world" where
  "queue_tasks ts w = w\<lparr>pw_tasks := pw_tasks w @ ts\<rparr>"

definition post_main :: "pow_message \<Rightarrow> pow_world \<Rightarrow> pow_world" where
  "post_main m w = w\<lparr>pw_sent := pw_sent w @ [m]\<rparr>"

subsection \<open>Rewards\<close>

definition rejectReward :: "nat \<Rightarrow> nat \<Rightarrow> pow_world \<Rightarrow> pow_world" where
  "rejectReward r q w = (case js_get (so_rewards (pw_object w r)) q of
      None \<Rightarrow> w
    | Some k \<Rightarrow> queue_tasks [Resume k None] (upd_object r (\<lambda>s. s\<lparr>so_rewards := js_delete q (so_rewards s)\<rparr>) w))"

definition processReward :: "nat \<Rightarrow> nat \<Rightarrow> int \<Rightarrow> int \<Rightarrow> pow_world \<Rightarrow> pow_world" where
  "processReward r q amount balance w = (case js_get (so_rewards (pw_object w r)) q of
      None \<Rightarrow> w
    | Some k \<Rightarrow> queue_tasks [RewardAnswer r k amount balance] (upd_object r (\<lambda>s. s\<lparr>so_rewards := js_delete q (so_rewards s)\<rparr>) w))"

definition addPowReward :: "nat \<Rightarrow> int \<Rightarrow> string \<Rightarrow> waiter \<Rightarrow> pow_world \<Rightarrow> pow_world" where
  "addPowReward r amount type k w =
     (if so_disposed (pw_object w r) then queue_tasks [Resume k None] w
      else let q = so_rewardCounter (pw_object w r) in
        post_main (RewardMessage r q amount type)
          (upd_object r (\<lambda>s. s\<lparr>so_rewardCounter := q + 1, so_rewards := js_set q k (so_rewards s)\<rparr>) w))"

definition subPowPenalty :: "nat \<Rightarrow> int \<Rightarrow> string \<Rightarrow> waiter \<Rightarrow> pow_world \<Rightarrow> pow_world" where
  "subPowPenalty r amount type k w = addPowReward r (amount * (-1)) type k w"

subsection \<open>Closing\<close>

definition trySendSessionClose :: "nat \<Rightarrow> pow_world \<Rightarrow> pow_world" where
  "trySendSessionClose r w = (let s = pw_object w r in
     case so_close s of
       None \<Rightarrow> w
     | Some c \<Rightarrow>
         if so_disposed s \<or> sc_sent c = Some (sc_type c) \<or> (sc_type c \<noteq> ''slashed'' \<and> so_decisions s > 0) then w
         else upd_object r (\<lambda>s. s\<lparr>so_close := Some (c\<lparr>sc_sent := Some (sc_type c)\<rparr>)\<rparr>)
           (post_main (AbortMessage r (sc_type c) (sc_reason c)) w))"

definition await_close :: "nat \<Rightarrow> waiter \<Rightarrow> pow_world \<Rightarrow> pow_world" where
  "await_close r k w = (case so_closing (pw_object w r) of
      CloseResolved \<Rightarrow> queue_tasks [Resume k (Some 0)] w
    | ClosePending ks \<Rightarrow> upd_object r (\<lambda>s. s\<lparr>so_closing := ClosePending (ks @ [k])\<rparr>) w)"

definition requested_close :: "string \<Rightarrow> string \<Rightarrow> session_close option \<Rightarrow> session_close" where
  "requested_close type reason pending = (case pending of
      None \<Rightarrow> \<lparr>sc_type = type, sc_reason = reason, sc_sent = None\<rparr>
    | Some c \<Rightarrow> if type = ''slashed'' \<and> sc_type c \<noteq> ''slashed'' then c\<lparr>sc_type := type, sc_reason := reason\<rparr> else c)"

definition closePowSession :: "nat \<Rightarrow> string \<Rightarrow> string \<Rightarrow> waiter \<Rightarrow> pow_world \<Rightarrow> pow_world" where
  "closePowSession r type reason k w =
     (if so_disposed (pw_object w r) then queue_tasks [Resume k (Some 0)] w
      else await_close r k (trySendSessionClose r
        (upd_object r (\<lambda>s. s\<lparr>so_close := Some (requested_close type reason (so_close s))\<rparr>) w)))"

definition slashSession :: "nat \<Rightarrow> string \<Rightarrow> waiter \<Rightarrow> pow_world \<Rightarrow> pow_world" where
  "slashSession r reason k w = closePowSession r ''slashed'' reason k w"

text \<open>The promise of \<^verbatim>\<open>sessionCloseDfd\<close> exists only after a request to close.\<close>

definition resolve_close :: "nat \<Rightarrow> pow_world \<Rightarrow> pow_world" where
  "resolve_close r w = (case so_close (pw_object w r) of
      None \<Rightarrow> w
    | Some _ \<Rightarrow> (case so_closing (pw_object w r) of
        CloseResolved \<Rightarrow> w
      | ClosePending ks \<Rightarrow> queue_tasks (map (\<lambda>k. Resume k (Some 0)) ks) (upd_object r (\<lambda>s. s\<lparr>so_closing := CloseResolved\<rparr>) w)))"

definition processSessionClose :: "nat \<Rightarrow> pow_world \<Rightarrow> pow_world" where
  "processSessionClose r w = resolve_close r w"

definition disposePowSession :: "nat \<Rightarrow> pow_world \<Rightarrow> pow_world" where
  "disposePowSession r w =
     (if so_disposed (pw_object w r) then w
      else resolve_close r (fold (rejectReward r) (js_keys (so_rewards (pw_object w r)))
        (upd_object r (\<lambda>s. s\<lparr>so_disposed := True\<rparr>) w)))"

definition holdBenignClose :: "nat \<Rightarrow> guard_name \<Rightarrow> pow_world \<Rightarrow> close_guard \<times> pow_world" where
  "holdBenignClose r g w =
     (if so_disposed (pw_object w r) then (None, w)
      else (Some r, upd_object r (\<lambda>s. s\<lparr>so_decisions := so_decisions s + 1, so_held := so_held s @ [g]\<rparr>) w))"

definition releaseGuard :: "guard_name \<Rightarrow> close_guard \<Rightarrow> pow_world \<Rightarrow> pow_world" where
  "releaseGuard g cg w = (case cg of
      None \<Rightarrow> w
    | Some r \<Rightarrow> if g \<notin> set (so_held (pw_object w r)) then w
        else trySendSessionClose r (upd_object r (\<lambda>s. s\<lparr>so_decisions := max 0 (so_decisions s - 1), so_held := remove1 g (so_held s)\<rparr>) w))"

definition release_taken :: "guard_name \<Rightarrow> close_guard option \<Rightarrow> pow_world \<Rightarrow> pow_world" where
  "release_taken g cg w = (case cg of None \<Rightarrow> w | Some c \<Rightarrow> releaseGuard g c w)"

end
