(* ===== verification/Pow_Share.thy ===== *)
theory Pow_Share
  imports Pow_Session
begin

text \<open>
  The mining worker process, second part: \<^verbatim>\<open>PoWShareVerification.ts\<close> (a share is validated here and,
  for telemetry, by other miners), what \<^verbatim>\<open>PoWClient.ts\<close> does with the messages of a miner, and
  \<^verbatim>\<open>PoWServerWorker.ts\<close>.  A handler runs to its first await in one step.  Identifiers and random
  choices are arguments of the step that draws them.
\<close>

subsection \<open>Verification of a share\<close>

definition tryRelease :: "nat \<Rightarrow> pow_world \<Rightarrow> pow_world" where
  "tryRelease k w = (let s = pw_share w k in
     if (sh_settlement s = Settled \<or> sh_settlement s = Cancelled) \<and> sh_telemetry s \<noteq> TelemetryOpen
     then w\<lparr>pw_verifying := js_delete (sh_id s) (pw_verifying w)\<rparr> else w)"

definition releaseSubmitterGuard :: "nat \<Rightarrow> pow_world \<Rightarrow> pow_world" where
  "releaseSubmitterGuard k w = (let release = sh_submitterGuard (pw_share w k) in
     release_taken (SubmitterOf k) release (upd_share k (\<lambda>s. s\<lparr>sh_submitterGuard := None\<rparr>) w))"

definition takeVerifierCloseGuard :: "nat \<Rightarrow> string \<Rightarrow> pow_world \<Rightarrow> close_guard option \<times> pow_world" where
  "takeVerifierCloseGuard k v w =
     (js_get (sh_guards (pw_share w k)) v, upd_share k (\<lambda>s. s\<lparr>sh_guards := js_delete v (sh_guards s)\<rparr>) w)"

definition release_verifier :: "nat \<Rightarrow> string \<Rightarrow> pow_world \<Rightarrow> pow_world" where
  "release_verifier k v w = (case takeVerifierCloseGuard k v w of (g, w') \<Rightarrow> release_taken (VerifierOf k v) g w')"

definition releaseAllVerifierCloseGuards :: "nat \<Rightarrow> pow_world \<Rightarrow> pow_world" where
  "releaseAllVerifierCloseGuards k w = fold (release_verifier k) (js_keys (sh_guards (pw_share w k))) w"

definition settleVerifierMissPenalty :: "nat \<Rightarrow> int \<Rightarrow> nat \<Rightarrow> string \<Rightarrow> close_guard option \<Rightarrow> pow_world \<Rightarrow> pow_world" where
  "settleVerifierMissPenalty r penalty k v g w = queue_tasks [StartPenalty r penalty k v g] w"

definition missPenalty :: "pow_policy \<Rightarrow> int" where
  "missPenalty p = applyPoWPercentage (pp_powShareReward p) (pp_verifyMinerMissPenaltyPerc p)"

definition close_verifier :: "telemetry_close \<Rightarrow> nat \<Rightarrow> string \<Rightarrow> pow_world \<Rightarrow> pow_world" where
  "close_verifier reason k v w = (case js_get (pw_sessions w) v of
      None \<Rightarrow> w
    | Some r \<Rightarrow> let w1 = upd_object r (\<lambda>s. s\<lparr>so_pendingVerifications := so_pendingVerifications s - 1\<rparr>) w in
        if reason \<noteq> TelemetryTimeout then w1
        else case takeVerifierCloseGuard k v (upd_object r (\<lambda>s. s\<lparr>so_missed := so_missed s + 1\<rparr>) w1) of
          (g, w2) \<Rightarrow> settleVerifierMissPenalty r (missPenalty (sh_policy (pw_share w k))) k v g w2)"

definition closePeerTelemetry :: "telemetry_close \<Rightarrow> nat \<Rightarrow> pow_world \<Rightarrow> pow_world" where
  "closePeerTelemetry reason k w =
     (if sh_telemetry (pw_share w k) \<noteq> TelemetryOpen then w
      else let w1 = upd_share k (\<lambda>s. s\<lparr>sh_telemetry := TelemetryClosed\<rparr>) w;
               w2 = fold (close_verifier reason k) (sh_pendingIds (pw_share w k)) w1;
               w3 = upd_share k (\<lambda>s. s\<lparr>sh_pendingIds := []\<rparr>) w2 in
        tryRelease k (releaseAllVerifierCloseGuards k w3))"

definition resolve_local :: "nat \<Rightarrow> bool option \<Rightarrow> pow_world \<Rightarrow> pow_world" where
  "resolve_local k v w = (if sh_local (pw_share w k) \<noteq> None then w
     else queue_tasks (map (\<lambda>vw. LocalKnown k vw v) (sh_waiting (pw_share w k)))
       (upd_share k (\<lambda>s. s\<lparr>sh_local := Some v, sh_waiting := []\<rparr>) w))"

definition resolve_result :: "nat \<Rightarrow> share_outcome \<Rightarrow> pow_world \<Rightarrow> pow_world" where
  "resolve_result k out w = (if sh_result (pw_share w k) \<noteq> None then w
     else queue_tasks [ClientTold k] (upd_share k (\<lambda>s. s\<lparr>sh_result := Some out\<rparr>) w))"

definition settleShare :: "nat \<Rightarrow> bool \<Rightarrow> pow_world \<Rightarrow> pow_world" where
  "settleShare k isValid w = (let s = pw_share w k in
     if sh_settlement s \<noteq> Undecided then w
     else let w1 = resolve_local k (Some isValid) (upd_share k (\<lambda>s. s\<lparr>sh_settlement := Settling\<rparr>) w) in
       if isValid then addPowReward (sh_session s) (pp_powShareReward (sh_policy s)) ''share'' (ShareRewarded k) w1
       else slashSession (sh_session s) ''invalid PoW result hash'' (ShareSlashed k) w1)"

definition finishSettlement :: "nat \<Rightarrow> pow_world \<Rightarrow> pow_world" where
  "finishSettlement k w = (if sh_settlement (pw_share w k) \<noteq> Cancelled
     then upd_share k (\<lambda>s. s\<lparr>sh_settlement := Settled\<rparr>) w else w)"

text \<open>The rest of \<^verbatim>\<open>settleShare\<close> after its await.\<close>

definition settled_share :: "nat \<Rightarrow> share_outcome \<Rightarrow> pow_world \<Rightarrow> pow_world" where
  "settled_share k out w = releaseSubmitterGuard k (tryRelease k (finishSettlement k (resolve_result k out w)))"

definition failVerification :: "nat \<Rightarrow> pow_world \<Rightarrow> pow_world" where
  "failVerification k w = (if sh_settlement (pw_share w k) \<noteq> Undecided then w
     else let w1 = resolve_local k None (upd_share k (\<lambda>s. s\<lparr>sh_settlement := Settled\<rparr>) w) in
       releaseSubmitterGuard k (tryRelease k (resolve_result k ShareFailed (closePeerTelemetry ValidationFailed k w1))))"

definition cancelShare :: "nat \<Rightarrow> pow_world \<Rightarrow> pow_world" where
  "cancelShare k w = (if sh_settlement (pw_share w k) = Settled \<or> sh_settlement (pw_share w k) = Cancelled then w
     else let w1 = resolve_local k None (upd_share k (\<lambda>s. s\<lparr>sh_settlement := Cancelled\<rparr>) w) in
       releaseSubmitterGuard k (tryRelease k (resolve_result k ShareFailed (closePeerTelemetry ValidationFailed k w1))))"

definition cancelVerifier :: "string \<Rightarrow> nat \<Rightarrow> pow_world \<Rightarrow> pow_world" where
  "cancelVerifier v k w =
     (if sh_telemetry (pw_share w k) \<noteq> TelemetryOpen \<or> v \<notin> set (sh_pendingIds (pw_share w k)) then w
      else case takeVerifierCloseGuard k v (upd_share k (\<lambda>s. s\<lparr>sh_pendingIds := remove1 v (sh_pendingIds s)\<rparr>) w) of
        (g, w1) \<Rightarrow>
          (let w2 = upd_share k (\<lambda>s. s\<lparr>sh_minerCount := sh_minerCount s - 1\<rparr>) w1;
               w3 = (case js_get (pw_sessions w2) v of
                 None \<Rightarrow> w2
               | Some r \<Rightarrow> upd_object r (\<lambda>s. s\<lparr>so_pendingVerifications := max 0 (so_pendingVerifications s - 1)\<rparr>) w2);
               w4 = (if sh_pendingIds (pw_share w3 k) = [] then closePeerTelemetry Complete k w3 else w3) in
           release_taken (VerifierOf k v) g w4))"

definition cancelShares :: "string \<Rightarrow> pow_world \<Rightarrow> pow_world" where
  "cancelShares sid w = fold (\<lambda>k w. if so_id (pw_object w (sh_session (pw_share w k))) = sid then cancelShare k w
     else cancelVerifier sid k w) (map snd (pw_verifying w)) w"

definition cancelAll :: "pow_world \<Rightarrow> pow_world" where
  "cancelAll w = fold cancelShare (map snd (pw_verifying w)) w"

subsection \<open>Telemetry by other miners\<close>

text \<open>The active clients are the sessions that have one: a client is the active client of its own
  session only.\<close>

definition getActiveClients :: "pow_world \<Rightarrow> nat list" where
  "getActiveClients w = filter (\<lambda>r. so_client (pw_object w r) \<noteq> None) (map snd (pw_sessions w))"

definition getVerifierSessions :: "nat \<Rightarrow> pow_world \<Rightarrow> nat list" where
  "getVerifierSessions k w = (let p = sh_policy (pw_share w k) in
     filter (\<lambda>r. r \<noteq> sh_session (pw_share w k) \<and> so_balance (pw_object w r) \<ge> missPenalty p
       \<and> so_missed (pw_object w r) < pp_verifyMinerMaxMissed p
       \<and> so_pendingVerifications (pw_object w r) < pp_verifyMinerMaxPending p) (getActiveClients w))"

definition ask_verifier :: "nat \<Rightarrow> nat \<Rightarrow> pow_world \<Rightarrow> pow_world" where
  "ask_verifier k r w = (let v = so_id (pw_object w r) in
     case holdBenignClose r (VerifierOf k v) w of (g, w1) \<Rightarrow>
       upd_object r (\<lambda>s. s\<lparr>so_pendingVerifications := so_pendingVerifications s + 1\<rparr>)
         (upd_share k (\<lambda>s. s\<lparr>sh_guards := js_set v g (sh_guards s), sh_pendingIds := js_add v (sh_pendingIds s)\<rparr>) w1))"

text \<open>A pick is a random number and whether the message to the miner could be sent.\<close>

primrec ask_verifiers :: "nat \<Rightarrow> nat \<Rightarrow> (nat \<times> bool) list \<Rightarrow> nat list \<Rightarrow> pow_world \<Rightarrow> bool \<times> pow_world" where
  "ask_verifiers k 0 picks rs w = (True, w)"
| "ask_verifiers k (Suc n) picks rs w =
     (let (p, sent) = (case picks of [] \<Rightarrow> (0, True) | x # _ \<Rightarrow> x); i = p mod length rs; w' = ask_verifier k (rs ! i) w in
      if sent then ask_verifiers k n (tl picks) (take i rs @ drop (Suc i) rs) w' else (False, w'))"

definition startPeerTelemetry :: "nat \<Rightarrow> rat \<Rightarrow> (nat \<times> bool) list \<Rightarrow> pow_world \<Rightarrow> bool \<times> pow_world" where
  "startPeerTelemetry k dice picks w =
     (let p = sh_policy (pw_share w k); rs = getVerifierSessions k w;
          shouldVerify = (pp_verifyMinerPercent p > 0 \<and> int (length rs) \<ge> pp_verifyMinerPeerCount p \<and> dice < pp_verifyMinerPercent p);
          verifierCount = min (nat (max 0 (pp_verifyMinerIndividuals p))) (length rs) in
      if \<not> shouldVerify \<or> verifierCount = 0 then (True, upd_share k (\<lambda>s. s\<lparr>sh_telemetry := TelemetryClosed\<rparr>) w)
      else ask_verifiers k verifierCount picks rs
        (upd_share k (\<lambda>s. s\<lparr>sh_telemetry := TelemetryOpen, sh_minerCount := int verifierCount\<rparr>) w))"

definition validation_request :: "nat \<Rightarrow> pow_world \<Rightarrow> validate_request" where
  "validation_request k w = (let s = pw_share w k in
     \<lparr>vq_shareId = sh_id s, vq_nonce = sh_nonce s, vq_data = sh_data s, vq_preimage = so_preimage (pw_object w (sh_session s)),
      vq_difficulty = pp_powDifficulty (sh_policy s)\<rparr>)"

definition validation_limits :: "pow_policy \<Rightarrow> validator_limits" where
  "validation_limits p = \<lparr>vl_maxGlobalPending = pp_verifyLocalMaxQueue p, vl_maxSessionPending = pp_verifyLocalMaxPendingPerSession p,
     vl_maxSessionDutyCyclePercent = pp_verifyLocalMaxSessionDutyCyclePercent p, vl_timeoutMs = pp_verifyLocalTimeout p * 1000\<rparr>"

text \<open>\<^verbatim>\<open>startVerification\<close>: the session is not closed in a benign way until the share is decided.\<close>

definition begin_verification :: "nat \<Rightarrow> pow_world \<Rightarrow> pow_world" where
  "begin_verification k w = (case holdBenignClose (sh_session (pw_share w k)) (SubmitterOf k) w of
     (g, w0) \<Rightarrow> upd_share k (\<lambda>s. s\<lparr>sh_submitterGuard := Some g\<rparr>) w0)"

text \<open>A share that is not admitted is settled at once.\<close>

definition refuse_share :: "nat \<Rightarrow> pow_world \<Rightarrow> pow_world" where
  "refuse_share k w = releaseSubmitterGuard k (resolve_result k ShareFailed (resolve_local k None
     (upd_share k (\<lambda>s. s\<lparr>sh_settlement := Settled\<rparr>)
       (w\<lparr>pw_verifying := js_delete (sh_id (pw_share w k)) (pw_verifying w)\<rparr>))))"

definition startVerification :: "bool \<Rightarrow> rat \<Rightarrow> (nat \<times> bool) list \<Rightarrow> nat \<Rightarrow> pow_world \<Rightarrow> pow_world" where
  "startVerification posts dice picks k w =
     (let w1 = begin_verification k w; seen = length (vs_results (pw_validator w1)) in
      case tryValidateShare posts (so_id (pw_object w1 (sh_session (pw_share w1 k)))) (validation_request k w1)
             (validation_limits (sh_policy (pw_share w1 k))) (pw_validator w1) of (adm, v) \<Rightarrow>
       (let w2 = w1\<lparr>pw_validator := v\<rparr> in
        case adm of
          RejectedAdmission _ \<Rightarrow> refuse_share k w2
        | Accepted \<Rightarrow>
            (case startPeerTelemetry k dice picks (w2\<lparr>pw_awaiting := js_set k seen (pw_awaiting w2)\<rparr>) of (ok, w3) \<Rightarrow>
              if ok then w3
              else failVerification k (w3\<lparr>pw_validator := cancelValidation posts (sh_id (pw_share w3 k)) (pw_validator w3)\<rparr>))))"

text \<open>The answer of a verifier up to the await of the local result, and what follows it.\<close>

definition processVerificationResult :: "nat \<Rightarrow> string \<Rightarrow> string \<Rightarrow> bool \<Rightarrow> pow_world \<Rightarrow> pow_world" where
  "processVerificationResult k v policyId isValid w = (let s = pw_share w k in
     if sh_telemetry s \<noteq> TelemetryOpen \<or> policyId \<noteq> sh_policyId s \<or> v \<notin> set (sh_pendingIds s) then w
     else case takeVerifierCloseGuard k v (upd_share k (\<lambda>s. s\<lparr>sh_pendingIds := remove1 v (sh_pendingIds s), sh_responded := js_add v (sh_responded s)\<rparr>) w) of
       (g, w1) \<Rightarrow>
         (let verifier = js_get (pw_sessions w1) v;
              w2 = (case verifier of None \<Rightarrow> w1
                | Some r \<Rightarrow> upd_object r (\<lambda>s. s\<lparr>so_pendingVerifications := so_pendingVerifications s - 1\<rparr>) w1);
              w3 = (if sh_pendingIds (pw_share w2 k) = [] then closePeerTelemetry Complete k w2 else w2);
              vw = \<lparr>vw_verifier = v, vw_session = verifier, vw_valid = isValid, vw_guard = g\<rparr> in
          case sh_local (pw_share w3 k) of
            None \<Rightarrow> upd_share k (\<lambda>s. s\<lparr>sh_waiting := sh_waiting s @ [vw]\<rparr>) w3
          | Some v \<Rightarrow> queue_tasks [LocalKnown k vw v] w3))"

definition verification_known :: "nat \<Rightarrow> verify_wait \<Rightarrow> bool option \<Rightarrow> pow_world \<Rightarrow> pow_world" where
  "verification_known k vw local w =
     (let reward = applyPoWPercentage (pp_powShareReward (sh_policy (pw_share w k))) (pp_verifyMinerRewardPerc (sh_policy (pw_share w k)));
          guard = (case vw_guard vw of None \<Rightarrow> None | Some g \<Rightarrow> g);
          finally_release = releaseGuard (VerifierOf k (vw_verifier vw)) guard w in
      case local of
        None \<Rightarrow> finally_release
      | Some valid \<Rightarrow>
          if vw_valid vw \<noteq> valid then
            (case vw_session vw of
               None \<Rightarrow> finally_release
             | Some r \<Rightarrow> slashSession r ''invalid PoW verification result'' (VerifierSlashed k (vw_verifier vw) guard) w)
          else if \<not> valid then finally_release
          else case vw_session vw of
            None \<Rightarrow> finally_release
          | Some r \<Rightarrow> if reward = 0 then finally_release
              else addPowReward r reward ''verify'' (VerifierRewarded k (vw_verifier vw) guard) w)"

subsection \<open>Messages of a miner\<close>

definition isSafeNonce :: "int \<Rightarrow> bool" where
  "isSafeNonce n \<longleftrightarrow> is_safe_integer n \<and> n \<ge> 0"

definition nonceLimit :: "pow_policy \<Rightarrow> int \<Rightarrow> int" where
  "nonceLimit p sessionAge = min max_safe_integer \<lfloor>of_int (sessionAge + 30) * pp_powHashrateHardLimit p\<rfloor>"

definition new_share :: "string \<Rightarrow> string \<Rightarrow> nat \<Rightarrow> int \<Rightarrow> string \<Rightarrow> pow_policy \<Rightarrow> pow_share" where
  "new_share shareId policyId r nonce data p =
     \<lparr>sh_id = shareId, sh_session = r, sh_nonce = nonce, sh_data = data, sh_policy = p, sh_policyId = policyId, sh_minerCount = 0,
      sh_pendingIds = [], sh_responded = [], sh_guards = [], sh_telemetry = TelemetryIdle, sh_settlement = Undecided, sh_local = None,
      sh_waiting = [], sh_result = None, sh_submitterGuard = None\<rparr>"

text \<open>The nonce and data of a message that passes the checks of \<^verbatim>\<open>onCliFoundShare\<close>.\<close>

definition accepted_share :: "pow_policy \<Rightarrow> pow_session \<Rightarrow> int \<Rightarrow> js_value \<Rightarrow> (int \<times> string) option" where
  "accepted_share p s now msg =
     (case msg of
        JObj _ \<Rightarrow>
          if own_property msg ''params'' \<noteq> JStr (pp_params p) then None
          else (case own_property msg ''nonce'' of
            JNum x \<Rightarrow> (case safe_integer x of
              None \<Rightarrow> None
            | Some nonce \<Rightarrow>
                let data = own_property msg ''data''; age = max 0 (now - so_startTime s) in
                if nonce < 0 then None
                else if (case data of JUndefined \<Rightarrow> False | JStr _ \<Rightarrow> False | _ \<Rightarrow> True) then None
                else if \<not> isSafeNonce (so_lastNonce s) then None
                else if nonce \<le> so_lastNonce s then None
                else if pp_powHashrateHardLimit p > 0 \<and> nonce > nonceLimit p age then None
                else Some (nonce, case data of JStr t \<Rightarrow> t | _ \<Rightarrow> []))
          | _ \<Rightarrow> None)
      | _ \<Rightarrow> None)"

record found_share =
  fd_message :: js_value
  fd_time :: int
  fd_shareId :: string
  fd_policyId :: string
  fd_dice :: rat
  fd_picks :: "(nat \<times> bool) list"

definition onCliFoundShare :: "bool \<Rightarrow> nat \<Rightarrow> found_share \<Rightarrow> pow_world \<Rightarrow> pow_world" where
  "onCliFoundShare posts r f w = (case accepted_share (pw_config w) (pw_object w r) (fd_time f) (fd_message f) of
      None \<Rightarrow> w
    | Some (nonce, data) \<Rightarrow>
        (let k = pw_shares w; w1 = upd_object r (\<lambda>s. s\<lparr>so_lastNonce := nonce, so_missed := 0\<rparr>) w;
             w2 = upd_share k (\<lambda>_. new_share (fd_shareId f) (fd_policyId f) r nonce data (pw_config w)) w1 in
         startVerification posts (fd_dice f) (fd_picks f) k
           (w2\<lparr>pw_shares := k + 1, pw_verifying := js_set (fd_shareId f) k (pw_verifying w2)\<rparr>)))"

definition onCliVerifyResult :: "nat \<Rightarrow> js_value \<Rightarrow> pow_world \<Rightarrow> pow_world" where
  "onCliVerifyResult r msg w =
     (case (msg, own_property msg ''shareId'', own_property msg ''policyId'', own_property msg ''isValid'') of
        (JObj _, JStr shareId, JStr policyId, JBool isValid) \<Rightarrow>
          if shareId = [] \<or> policyId = [] then w
          else (case js_get (pw_verifying w) shareId of
            None \<Rightarrow> w
          | Some k \<Rightarrow> processVerificationResult k (so_id (pw_object w r)) policyId isValid w)
      | _ \<Rightarrow> w)"

definition onCliCloseSession :: "nat \<Rightarrow> pow_world \<Rightarrow> pow_world" where
  "onCliCloseSession r w = closePowSession r ''closed'' [] ClientClosed w"

end
