(* ===== verification/Pow_Worker.thy ===== *)
theory Pow_Worker
  imports Pow_Share
begin

text \<open>
  The mining worker process, last part: \<^verbatim>\<open>PoWServerWorker.ts\<close> and the events that drive the
  process, in any order: messages of the main process, of the miners and of the validation worker,
  timers, and the continuations of settled promises.
\<close>

subsection \<open>Sessions of the worker\<close>

record session_data =
  nd_balance :: int
  nd_lastNonce :: int
  nd_shareCount :: int
  nd_startTime :: int
  nd_preimage :: string

definition new_pow_session :: "string \<Rightarrow> session_data \<Rightarrow> pow_session" where
  "new_pow_session sid d =
     \<lparr>so_id = sid, so_client = None, so_missed = 0, so_pendingVerifications = 0, so_balance = nd_balance d, so_rewardCounter = 0,
      so_rewards = [], so_close = None, so_closing = ClosePending [], so_decisions = 0, so_held = [], so_disposed = False,
      so_lastNonce = nd_lastNonce d, so_shareCount = nd_shareCount d, so_startTime = nd_startTime d, so_preimage = nd_preimage d,
      so_idleTimer = False\<rparr>"

definition resetSessionIdleTimer :: "nat \<Rightarrow> pow_world \<Rightarrow> pow_world" where
  "resetSessionIdleTimer r w = upd_object r (\<lambda>s.
     if so_client s \<noteq> None then s\<lparr>so_idleTimer := False\<rparr>
     else if \<not> so_idleTimer s \<and> pp_powIdleTimeout (pw_config w) \<noteq> 0 then s\<lparr>so_idleTimer := True\<rparr> else s) w"

definition onPoWRegisterSession :: "string \<Rightarrow> session_data \<Rightarrow> pow_world \<Rightarrow> pow_world" where
  "onPoWRegisterSession sid d w = (let r = pw_objects w in
     resetSessionIdleTimer r (upd_object r (\<lambda>_. new_pow_session sid d)
       (w\<lparr>pw_objects := r + 1, pw_sessions := js_set sid r (pw_sessions w)\<rparr>)))"

definition onClientDisconnected :: "nat \<Rightarrow> nat \<Rightarrow> pow_world \<Rightarrow> pow_world" where
  "onClientDisconnected r c w =
     (if js_get (pw_sessions w) (so_id (pw_object w r)) \<noteq> Some r \<or> so_client (pw_object w r) \<noteq> Some c then w
      else resetSessionIdleTimer r (upd_object r (\<lambda>s. s\<lparr>so_client := None\<rparr>) w))"

text \<open>\<^verbatim>\<open>killClient\<close> of the active client, and \<^verbatim>\<open>activeClient = null\<close>.\<close>

definition drop_client :: "nat \<Rightarrow> pow_world \<Rightarrow> pow_world" where
  "drop_client r w = (case so_client (pw_object w r) of
      None \<Rightarrow> w
    | Some c \<Rightarrow> upd_object r (\<lambda>s. s\<lparr>so_client := None\<rparr>) (onClientDisconnected r c w))"

definition clearSessionIdleTimer :: "nat \<Rightarrow> pow_world \<Rightarrow> pow_world" where
  "clearSessionIdleTimer r w = upd_object r (\<lambda>s. s\<lparr>so_idleTimer := False\<rparr>) w"

definition onPoWDestroySession :: "bool \<Rightarrow> string \<Rightarrow> pow_world \<Rightarrow> pow_world" where
  "onPoWDestroySession posts sid w = (case js_get (pw_sessions w) sid of
      None \<Rightarrow> w
    | Some r \<Rightarrow>
        (let w1 = disposePowSession r w;
             w2 = cancelShares sid (w1\<lparr>pw_validator := cancelSession posts sid (pw_validator w1)\<rparr>);
             w3 = clearSessionIdleTimer r (drop_client r w2) in
         w3\<lparr>pw_sessions := js_delete sid (pw_sessions w3)\<rparr>))"

definition onPoWConnection :: "string \<Rightarrow> pow_world \<Rightarrow> pow_world" where
  "onPoWConnection sid w = (case js_get (pw_sessions w) sid of
      None \<Rightarrow> w
    | Some r \<Rightarrow> (let w1 = drop_client r w; c = pw_clients w1 in
        resetSessionIdleTimer r (upd_object r (\<lambda>s. s\<lparr>so_client := Some c\<rparr>) (w1\<lparr>pw_clients := c + 1\<rparr>))))"

definition on_idle_timeout :: "nat \<Rightarrow> pow_world \<Rightarrow> pow_world" where
  "on_idle_timeout r w = (if \<not> so_idleTimer (pw_object w r) then w
     else closePowSession r ''timeout'' [] ClientClosed (upd_object r (\<lambda>s. s\<lparr>so_idleTimer := False\<rparr>) w))"

definition onPoWSessionClose :: "string \<Rightarrow> pow_world \<Rightarrow> pow_world" where
  "onPoWSessionClose sid w = (case js_get (pw_sessions w) sid of None \<Rightarrow> w | Some r \<Rightarrow> processSessionClose r w)"

text \<open>An acknowledgement carries decimal text, which \<^verbatim>\<open>isIpcBigInt\<close> checks.\<close>

definition isIpcBigInt :: "string \<Rightarrow> bool" where
  "isIpcBigInt t \<longleftrightarrow> length t \<le> 128 \<and>
     (case t of [] \<Rightarrow> False | c # r \<Rightarrow> if c = CHR ''-'' then r \<noteq> [] \<and> list_all is_digit r else list_all is_digit t)"

definition ipc_value :: "string \<Rightarrow> int" where
  "ipc_value t = (case t of [] \<Rightarrow> 0 | c # r \<Rightarrow> if c = CHR ''-'' then - int (dec_value r) else int (dec_value t))"

definition onPoWSessionRewardError :: "string \<Rightarrow> nat \<Rightarrow> pow_world \<Rightarrow> pow_world" where
  "onPoWSessionRewardError sid q w = (case js_get (pw_sessions w) sid of None \<Rightarrow> w | Some r \<Rightarrow> rejectReward r q w)"

definition onPoWSessionReward :: "string \<Rightarrow> nat \<Rightarrow> string \<Rightarrow> string \<Rightarrow> pow_world \<Rightarrow> pow_world" where
  "onPoWSessionReward sid q amount balance w =
     (if \<not> isIpcBigInt amount \<or> \<not> isIpcBigInt balance then onPoWSessionRewardError sid q w
      else case js_get (pw_sessions w) sid of None \<Rightarrow> w | Some r \<Rightarrow> processReward r q (ipc_value amount) (ipc_value balance) w)"

definition shutdown_session :: "nat \<Rightarrow> pow_world \<Rightarrow> pow_world" where
  "shutdown_session r w = disposePowSession r (clearSessionIdleTimer r (drop_client r w))"

definition onPoWShutdown :: "pow_world \<Rightarrow> pow_world" where
  "onPoWShutdown w = (if pw_shutdown w then w
     else let w1 = fold shutdown_session (map snd (pw_sessions w)) (w\<lparr>pw_shutdown := True, pw_validator := dispose (pw_validator w)\<rparr>) in
       cancelAll (w1\<lparr>pw_sessions := []\<rparr>))"

subsection \<open>Continuations\<close>

text \<open>\<^verbatim>\<open>stored\<close> tells whether the file of relevant results could be written.\<close>

definition resume_waiter :: "bool \<Rightarrow> waiter \<Rightarrow> int option \<Rightarrow> pow_world \<Rightarrow> pow_world" where
  "resume_waiter stored k result w = (case k of
      ShareRewarded s \<Rightarrow> settled_share s (case result of Some reward \<Rightarrow> if stored then ShareValid reward else ShareFailed | None \<Rightarrow> ShareFailed) w
    | ShareSlashed s \<Rightarrow> settled_share s (if result = None then ShareFailed else ShareInvalid) w
    | VerifierSlashed k v g \<Rightarrow> releaseGuard (VerifierOf k v) g w
    | VerifierRewarded k v g \<Rightarrow> releaseGuard (VerifierOf k v) g w
    | PenaltyApplied k v g \<Rightarrow> releaseGuard (VerifierOf k v) g w
    | ClientClosed \<Rightarrow> w)"

definition client_told :: "nat \<Rightarrow> pow_world \<Rightarrow> pow_world" where
  "client_told k w = (case sh_result (pw_share w k) of
      Some (ShareValid _) \<Rightarrow> upd_object (sh_session (pw_share w k)) (\<lambda>s. s\<lparr>so_shareCount := so_shareCount s + 1\<rparr>) w
    | _ \<Rightarrow> w)"

definition run_task :: "bool \<Rightarrow> pow_task \<Rightarrow> pow_world \<Rightarrow> pow_world" where
  "run_task stored t w = (case t of
      RewardAnswer r k amount balance \<Rightarrow> queue_tasks [Resume k (Some amount)] (upd_object r (\<lambda>s. s\<lparr>so_balance := balance\<rparr>) w)
    | Resume k result \<Rightarrow> resume_waiter stored k result w
    | LocalKnown k vw local \<Rightarrow> verification_known k vw local w
    | StartPenalty r penalty k v g \<Rightarrow> subPowPenalty r penalty ''verify'' (PenaltyApplied k v (case g of None \<Rightarrow> None | Some g \<Rightarrow> g)) w
    | ClientTold k \<Rightarrow> client_told k w)"

text \<open>The promise of the validator: the first result of the share after its admission.\<close>

definition deliver_validation :: "nat \<Rightarrow> pow_world \<Rightarrow> pow_world" where
  "deliver_validation k w = (case js_get (pw_awaiting w) k of
      None \<Rightarrow> w
    | Some seen \<Rightarrow> (case map_of (drop seen (vs_results (pw_validator w))) (sh_id (pw_share w k)) of
        None \<Rightarrow> w
      | Some res \<Rightarrow> (let w1 = w\<lparr>pw_awaiting := js_delete k (pw_awaiting w)\<rparr> in
          case res of ResolvedV valid \<Rightarrow> settleShare k valid w1 | RejectedV \<Rightarrow> failVerification k w1)))"

subsection \<open>Events\<close>

datatype pow_event =
    UpdateConfig pow_policy
  | RegisterSession string session_data
  | DestroySession string
  | Connected string
  | Disconnected nat nat
  | SessionClosed string
  | RewardAcknowledged string nat string string
  | RewardRefused string nat
  | IdleTimeout nat
  | FoundShare nat found_share
  | VerifyResult nat js_value
  | CloseAsked nat
  | RewardTimeout nat nat
  | TelemetryTimedOut nat
  | ValidatorEvent validator_event
  | ValidationKnown nat
  | RunTask nat bool
  | Shutdown

fun validator_input :: "validator_event \<Rightarrow> bool" where
  "validator_input (TryValidate _ _ _) = False"
| "validator_input (CancelShare _) = False"
| "validator_input (CancelOfSession _) = False"
| "validator_input Dispose = False"
| "validator_input _ = True"

text \<open>\<^verbatim>\<open>posts\<close> tells whether the validation worker takes a message in this step.  Only a client that was
  connected, hence an object that exists, sends messages.\<close>

fun pow_step :: "bool \<times> pow_event \<Rightarrow> pow_world \<Rightarrow> pow_world" where
  "pow_step (posts, UpdateConfig p) w = w\<lparr>pw_config := p\<rparr>"
| "pow_step (posts, RegisterSession sid d) w = onPoWRegisterSession sid d w"
| "pow_step (posts, DestroySession sid) w = onPoWDestroySession posts sid w"
| "pow_step (posts, Connected sid) w = onPoWConnection sid w"
| "pow_step (posts, Disconnected r c) w = onClientDisconnected r c w"
| "pow_step (posts, SessionClosed sid) w = onPoWSessionClose sid w"
| "pow_step (posts, RewardAcknowledged sid q amount balance) w = onPoWSessionReward sid q amount balance w"
| "pow_step (posts, RewardRefused sid q) w = onPoWSessionRewardError sid q w"
| "pow_step (posts, IdleTimeout r) w = (if r < pw_objects w then on_idle_timeout r w else w)"
| "pow_step (posts, FoundShare r f) w = (if r < pw_objects w then onCliFoundShare posts r f w else w)"
| "pow_step (posts, VerifyResult r msg) w = (if r < pw_objects w then onCliVerifyResult r msg w else w)"
| "pow_step (posts, CloseAsked r) w = (if r < pw_objects w then onCliCloseSession r w else w)"
| "pow_step (posts, RewardTimeout r q) w = (if r < pw_objects w then rejectReward r q w else w)"
| "pow_step (posts, TelemetryTimedOut k) w = (if k < pw_shares w then closePeerTelemetry TelemetryTimeout k w else w)"
| "pow_step (posts, ValidatorEvent e) w = (if validator_input e then w\<lparr>pw_validator := validator_step (posts, e) (pw_validator w)\<rparr> else w)"
| "pow_step (posts, ValidationKnown k) w = deliver_validation k w"
| "pow_step (posts, RunTask n stored) w = (if n < length (pw_tasks w)
     then run_task stored (pw_tasks w ! n) (w\<lparr>pw_tasks := take n (pw_tasks w) @ drop (Suc n) (pw_tasks w)\<rparr>) else w)"
| "pow_step (posts, Shutdown) w = onPoWShutdown w"

text \<open>An object that is not created yet counts as disposed.\<close>

definition pow_start :: "pow_policy \<Rightarrow> pow_world" where
  "pow_start p = \<lparr>pw_object = (\<lambda>_. new_pow_session [] \<lparr>nd_balance = 0, nd_lastNonce = 0, nd_shareCount = 0, nd_startTime = 0, nd_preimage = []\<rparr>\<lparr>so_disposed := True\<rparr>),
     pw_objects = 0, pw_sessions = [], pw_share = (\<lambda>_. new_share [] [] 0 0 [] p), pw_shares = 0, pw_verifying = [], pw_awaiting = [],
     pw_validator = new_validator, pw_config = p, pw_tasks = [], pw_sent = [], pw_clients = 0, pw_shutdown = False\<rparr>"

definition pow_run :: "(bool \<times> pow_event) list \<Rightarrow> pow_world \<Rightarrow> pow_world" where
  "pow_run es w = fold pow_step es w"

end
