(* ===== verification/Pow_Rules.thy ===== *)
theory Pow_Rules
  imports Pow_Worker
begin

text \<open>
  Invariants of the mining worker process.  Everything it does is made of a few writes; an
  invariant that survives these survives every event.  The first locale is about the writes of
  peer telemetry, the second about all of them.
\<close>

lemmas world_defs = upd_object_def upd_share_def queue_tasks_def post_main_def

definition object_core :: "pow_session \<Rightarrow> string \<times> session_close option \<times> int \<times> guard_name list \<times> bool \<times> int" where
  "object_core s = (so_id s, so_close s, so_decisions s, so_held s, so_disposed s, so_lastNonce s)"

definition share_core :: "pow_share \<Rightarrow> string \<times> nat \<times> int \<times> pow_policy \<times> settlement \<times> bool option option \<times> close_guard option" where
  "share_core s = (sh_id s, sh_session s, sh_nonce s, sh_policy s, sh_settlement s, sh_local s, sh_submitterGuard s)"

lemmas core_defs = object_core_def share_core_def

subsection \<open>Telemetry\<close>

locale telemetry_invariant =
  fixes I :: "pow_world \<Rightarrow> bool"
  assumes tasks: "I w \<Longrightarrow> I (w\<lparr>pw_tasks := ts\<rparr>)"
    and object_upd: "(\<And>s. object_core (f s) = object_core s) \<Longrightarrow> I w \<Longrightarrow> I (upd_object r f w)"
    and share_upd: "(\<And>s. share_core (g s) = share_core s) \<Longrightarrow> I w \<Longrightarrow> I (upd_share k g w)"
    and verifying: "I w \<Longrightarrow> I (w\<lparr>pw_verifying := m\<rparr>)"
    and try_send: "I w \<Longrightarrow> I (trySendSessionClose r w)"
    and hold: "I w \<Longrightarrow> I (snd (holdBenignClose r (VerifierOf k v) w))"
    and release: "I w \<Longrightarrow> I (releaseGuard (VerifierOf k v) c w)"
begin

lemma queue: "I w \<Longrightarrow> I (queue_tasks ts w)"
  by (simp add: queue_tasks_def tasks)

lemma folds: "(\<And>x w. I w \<Longrightarrow> I (h x w)) \<Longrightarrow> I w \<Longrightarrow> I (fold h xs w)"
  by (induction xs arbitrary: w) auto

lemma try_release: "I w \<Longrightarrow> I (tryRelease k w)"
  by (simp add: tryRelease_def Let_def verifying)

lemma take_guard: "takeVerifierCloseGuard k v w = (g, w') \<Longrightarrow> I w \<Longrightarrow> I w'"
  by (auto simp: takeVerifierCloseGuard_def core_defs intro: share_upd)

lemma if_keep: "I w \<Longrightarrow> I w' \<Longrightarrow> I (if c then w else w')"
  by simp

lemma taken: "I w \<Longrightarrow> I (release_taken (VerifierOf k v) c w)"
  by (simp add: release_taken_def release split: option.split)

lemma release_one: "I w \<Longrightarrow> I (release_verifier k v w)"
  by (auto simp: release_verifier_def split: prod.split intro: taken take_guard)

lemma release_all: "I w \<Longrightarrow> I (releaseAllVerifierCloseGuards k w)"
  by (simp add: releaseAllVerifierCloseGuards_def folds release_one)

lemma close_one: "I w \<Longrightarrow> I (close_verifier reason k v w)"
proof (cases "js_get (pw_sessions w) v")
  case (Some r)
  assume w: "I w"
  let ?w1 = "upd_object r (\<lambda>s. s\<lparr>so_pendingVerifications := so_pendingVerifications s - 1\<rparr>) w"
  have w1: "I ?w1" by (rule object_upd[OF _ w]) (simp add: core_defs)
  have "I (upd_object r (\<lambda>s. s\<lparr>so_missed := so_missed s + 1\<rparr>) ?w1)" by (rule object_upd[OF _ w1]) (simp add: core_defs)
  with w1 Some show ?thesis
    by (auto simp: close_verifier_def settleVerifierMissPenalty_def Let_def split: prod.split intro: queue take_guard)
qed (simp add: close_verifier_def)

lemma close_telemetry: "I w \<Longrightarrow> I (closePeerTelemetry reason k w)"
  by (simp add: closePeerTelemetry_def Let_def try_release release_all share_upd folds close_one core_defs)

lemma result: "I w \<Longrightarrow> I (resolve_result k out w)"
  by (simp add: resolve_result_def queue share_upd core_defs)

lemma drop_pending:
  assumes "I w"
  shows "I (case js_get (pw_sessions w) v of None \<Rightarrow> w
     | Some r \<Rightarrow> upd_object r (\<lambda>s. s\<lparr>so_pendingVerifications := h (so_pendingVerifications s)\<rparr>) w)"
  using assms by (simp add: object_upd core_defs split: option.split)

lemma close_if: "I w \<Longrightarrow> I (if c then closePeerTelemetry reason k w else w)"
  by (simp add: close_telemetry)

lemma cancel_verifier: "I w \<Longrightarrow> I (cancelVerifier v k w)"
  unfolding cancelVerifier_def takeVerifierCloseGuard_def Let_def prod.case
  by (rule if_keep, assumption, rule taken, rule close_if, rule drop_pending, (rule share_upd, simp add: core_defs)+)

lemma verification: "I w \<Longrightarrow> I (processVerificationResult k v p b w)"
proof -
  assume w: "I w"
  let ?u = "upd_share k (\<lambda>s. s\<lparr>sh_guards := js_delete v (sh_guards s)\<rparr>)
    (upd_share k (\<lambda>s. s\<lparr>sh_pendingIds := remove1 v (sh_pendingIds s), sh_responded := js_add v (sh_responded s)\<rparr>) w)"
  have u: "I ?u" using w by (simp add: share_upd core_defs)
  have after: "I (case sh_local (pw_share x k) of None \<Rightarrow> upd_share k (\<lambda>s. s\<lparr>sh_waiting := sh_waiting s @ [vw]\<rparr>) x
      | Some v \<Rightarrow> queue_tasks [LocalKnown k vw v] x)" if "I x" for x vw
    using that by (simp add: share_upd queue core_defs split: option.split)
  show ?thesis unfolding processVerificationResult_def takeVerifierCloseGuard_def Let_def prod.case
    by (rule if_keep[OF w], rule after, rule close_if, rule drop_pending[OF u])
qed

lemma verify_result: "I w \<Longrightarrow> I (onCliVerifyResult r msg w)"
  by (simp add: onCliVerifyResult_def verification split: option.split js_value.split)

lemma ask: "I w \<Longrightarrow> I (ask_verifier k r w)"
  using hold[of w r k "so_id (pw_object w r)"]
  by (auto simp: ask_verifier_def core_defs Let_def split: prod.split intro!: object_upd share_upd)

lemma asks: "I w \<Longrightarrow> I (snd (ask_verifiers k n picks rs w))"
  by (induction n arbitrary: picks rs w) (simp_all add: ask Let_def split: prod.split)

lemma telemetry: "I w \<Longrightarrow> I (snd (startPeerTelemetry k dice picks w))"
  by (simp add: startPeerTelemetry_def Let_def asks share_upd core_defs)

lemma reject: "I w \<Longrightarrow> I (rejectReward r q w)"
  by (simp add: rejectReward_def queue object_upd core_defs split: option.split)

lemma process_reward: "I w \<Longrightarrow> I (processReward r q a b w)"
  by (simp add: processReward_def queue object_upd core_defs split: option.split)

lemma await: "I w \<Longrightarrow> I (await_close r k w)"
  by (simp add: await_close_def queue object_upd core_defs split: close_promise.split)

lemma resolve_closing: "I w \<Longrightarrow> I (resolve_close r w)"
  by (simp add: resolve_close_def queue object_upd core_defs split: option.split close_promise.split)

lemma idle_timer: "I w \<Longrightarrow> I (resetSessionIdleTimer r w)" "I w \<Longrightarrow> I (clearSessionIdleTimer r w)"
  by (simp_all add: resetSessionIdleTimer_def clearSessionIdleTimer_def object_upd core_defs)

lemma disconnected: "I w \<Longrightarrow> I (onClientDisconnected r c w)"
  by (simp add: onClientDisconnected_def idle_timer object_upd core_defs)

lemma client_dropped: "I w \<Longrightarrow> I (drop_client r w)"
  by (simp add: drop_client_def disconnected object_upd core_defs split: option.split)

lemma told: "I w \<Longrightarrow> I (client_told k w)"
  by (simp add: client_told_def object_upd core_defs split: option.split share_outcome.split)

end

text \<open>Telemetry does not touch what a share is or whether it is decided.\<close>

definition share_cores :: "pow_world \<Rightarrow> nat \<Rightarrow> string \<times> nat \<times> int \<times> pow_policy \<times> settlement \<times> bool option option \<times> close_guard option" where
  "share_cores w k = share_core (pw_share w k)"

lemma send_shares [simp]: "pw_share (trySendSessionClose r w) = pw_share w"
  by (simp add: trySendSessionClose_def world_defs Let_def split: option.split)

lemma release_shares [simp]: "pw_share (releaseGuard g c w) = pw_share w"
  by (simp add: releaseGuard_def world_defs split: option.split)

lemma hold_shares [simp]: "pw_share (snd (holdBenignClose r g w)) = pw_share w"
  by (simp add: holdBenignClose_def world_defs)

interpretation cores: telemetry_invariant "\<lambda>w. share_cores w = c" for c
  by unfold_locales (auto simp: share_cores_def world_defs fun_eq_iff)

lemma upd_share_at [simp]: "pw_share (upd_share k f w) j = (if j = k then f (pw_share w k) else pw_share w j)"
  by (simp add: upd_share_def)

lemma share_coresD: "share_cores w' = share_cores w \<Longrightarrow> sh_settlement (pw_share w' k) = sh_settlement (pw_share w k)"
  unfolding share_cores_def share_core_def fun_eq_iff by (metis prod.inject)

lemma telemetry_settlement [simp]:
  "sh_settlement (pw_share (closePeerTelemetry reason j w) k) = sh_settlement (pw_share w k)"
  "sh_settlement (pw_share (resolve_result j out w) k) = sh_settlement (pw_share w k)"
  "sh_settlement (pw_share (tryRelease j w) k) = sh_settlement (pw_share w k)"
  by (auto intro!: share_coresD intro: cores.close_telemetry cores.result cores.try_release)

lemma resolved_settlement [simp]: "sh_settlement (pw_share (resolve_local j v w) k) = sh_settlement (pw_share w k)"
  by (simp add: resolve_local_def world_defs)

subsection \<open>All writes\<close>

text \<open>What \<^term>\<open>onCliFoundShare\<close> has done when it asks the validator.\<close>

definition submitted :: "nat \<Rightarrow> int \<Rightarrow> string \<Rightarrow> found_share \<Rightarrow> pow_world \<Rightarrow> pow_world" where
  "submitted r nonce data f w = (let k = pw_shares w;
     w2 = upd_share k (\<lambda>_. new_share (fd_shareId f) (fd_policyId f) r nonce data (pw_config w))
       (upd_object r (\<lambda>s. s\<lparr>so_lastNonce := nonce, so_missed := 0\<rparr>) w) in
     w2\<lparr>pw_shares := k + 1, pw_verifying := js_set (fd_shareId f) k (pw_verifying w2)\<rparr>)"

lemma found_submitted: "accepted_share (pw_config w) (pw_object w r) (fd_time f) (fd_message f) = Some (nonce, data) \<Longrightarrow>
  onCliFoundShare posts r f w = startVerification posts (fd_dice f) (fd_picks f) (pw_shares w) (submitted r nonce data f w)"
  by (simp add: onCliFoundShare_def submitted_def Let_def)

locale pow_invariant = telemetry_invariant +
  assumes request: "\<not> so_disposed (pw_object w r) \<Longrightarrow> I w \<Longrightarrow> I (trySendSessionClose r (upd_object r (\<lambda>s. s\<lparr>so_close := Some (requested_close t reason (so_close s))\<rparr>) w))"
    and disposal: "I w \<Longrightarrow> I (upd_object r (\<lambda>s. s\<lparr>so_disposed := True\<rparr>) w)"
    and reward: "t \<noteq> ''share'' \<Longrightarrow> I w \<Longrightarrow> I (addPowReward r a t x w)"
    and decide: "st = Settled \<or> st = Cancelled \<Longrightarrow> I w \<Longrightarrow> I (resolve_local k None (upd_share k (\<lambda>s. s\<lparr>sh_settlement := st\<rparr>) w))"
    and finish: "I w \<Longrightarrow> I (finishSettlement k w)"
    and release_submitter: "sh_settlement (pw_share w k) \<in> {Settled, Cancelled} \<Longrightarrow> I w \<Longrightarrow> I (releaseSubmitterGuard k w)"
    and settle: "js_get (pw_awaiting w) k = Some n \<Longrightarrow> map_of (drop n (vs_results (pw_validator w))) (sh_id (pw_share w k)) = Some (ResolvedV b) \<Longrightarrow>
      I w \<Longrightarrow> I (settleShare k b (w\<lparr>pw_awaiting := js_delete k (pw_awaiting w)\<rparr>))"
    and awaiting_delete: "I w \<Longrightarrow> I (w\<lparr>pw_awaiting := js_delete k (pw_awaiting w)\<rparr>)"
    and awaiting_set: "k < pw_shares w \<Longrightarrow> I w \<Longrightarrow> I (w\<lparr>pw_awaiting := js_set k n (pw_awaiting w)\<rparr>)"
    and validator: "I w \<Longrightarrow> I (w\<lparr>pw_validator := validator_step e (pw_validator w)\<rparr>)"
    and register: "I w \<Longrightarrow> I (onPoWRegisterSession sid d w)"
    and sessions: "I w \<Longrightarrow> I (w\<lparr>pw_sessions := m\<rparr>)"
    and environment: "I w \<Longrightarrow> I (w\<lparr>pw_config := p\<rparr>)" "I w \<Longrightarrow> I (w\<lparr>pw_clients := c\<rparr>)" "I w \<Longrightarrow> I (w\<lparr>pw_shutdown := z\<rparr>)"
    and submit: "r < pw_objects w \<Longrightarrow> so_lastNonce (pw_object w r) < nonce \<Longrightarrow> I w \<Longrightarrow>
      I (begin_verification (pw_shares w) (submitted r nonce data f w))"
begin

lemma close: "I w \<Longrightarrow> I (closePowSession r t reason k w)"
  by (simp add: closePowSession_def queue await request)

lemma dispose_session: "I w \<Longrightarrow> I (disposePowSession r w)"
  by (simp add: disposePowSession_def resolve_closing folds reject disposal)

lemma undecided: "I w \<Longrightarrow> I (releaseSubmitterGuard k (tryRelease k (resolve_result k out (closePeerTelemetry reason k
    (resolve_local k None (upd_share k (\<lambda>s. s\<lparr>sh_settlement := st\<rparr>) w))))))" if "st = Settled \<or> st = Cancelled"
  using that by (auto intro!: release_submitter try_release result close_telemetry decide)

lemma fail: "I w \<Longrightarrow> I (failVerification k w)"
  by (simp add: failVerification_def Let_def undecided)

lemma cancel: "I w \<Longrightarrow> I (cancelShare k w)"
  by (simp add: cancelShare_def Let_def undecided)

lemma settled: "I w \<Longrightarrow> I (settled_share k out w)"
  unfolding settled_share_def
  by (intro release_submitter try_release result finish) (auto simp: finishSettlement_def)

lemma cancel_shares: "I w \<Longrightarrow> I (cancelShares sid w)"
  by (simp add: cancelShares_def folds cancel cancel_verifier)

lemma cancel_all: "I w \<Longrightarrow> I (cancelAll w)"
  by (simp add: cancelAll_def folds cancel)

lemma known: "I w \<Longrightarrow> I (verification_known k vw l w)"
  by (simp add: verification_known_def slashSession_def Let_def release close reward split: option.split)

lemma resumed: "I w \<Longrightarrow> I (resume_waiter stored x res w)"
  by (simp add: resume_waiter_def settled release split: waiter.split)

lemma task: "I w \<Longrightarrow> I (run_task stored t w)"
  by (simp add: run_task_def subPowPenalty_def queue resumed known reward told object_upd core_defs split: pow_task.split)

lemma refused: "I w \<Longrightarrow> I (refuse_share k w)"
proof -
  assume "I w"
  hence "I (w\<lparr>pw_verifying := js_delete (sh_id (pw_share w k)) (pw_verifying w)\<rparr>)" by (rule verifying)
  thus ?thesis unfolding refuse_share_def by (auto intro!: release_submitter result decide)
qed

lemma deliver: "I w \<Longrightarrow> I (deliver_validation k w)"
  using settle[of w k] fail awaiting_delete
  by (auto simp: deliver_validation_def Let_def split: option.split validation_result.split)

lemma cancel_validation: "I w \<Longrightarrow> I (w\<lparr>pw_validator := cancelValidation posts x (pw_validator w)\<rparr>)"
  using validator[of w "(posts, CancelShare x)"] by simp

lemma started:
  assumes w: "I w" and k: "k < pw_shares w"
  shows "I (let seen = length (vs_results (pw_validator w)) in
      case tryValidateShare posts sid rq l (pw_validator w) of (adm, v) \<Rightarrow>
       (let w2 = w\<lparr>pw_validator := v\<rparr> in
        case adm of
          RejectedAdmission _ \<Rightarrow> refuse_share k w2
        | Accepted \<Rightarrow>
            (case startPeerTelemetry k dice picks (w2\<lparr>pw_awaiting := js_set k seen (pw_awaiting w2)\<rparr>) of (ok, w3) \<Rightarrow>
              if ok then w3
              else failVerification k (w3\<lparr>pw_validator := cancelValidation posts (sh_id (pw_share w3 k)) (pw_validator w3)\<rparr>))))"
proof -
  obtain adm v where v: "tryValidateShare posts sid rq l (pw_validator w) = (adm, v)" by fastforce
  hence w2: "I (w\<lparr>pw_validator := v\<rparr>)" using validator[OF w, of "(posts, TryValidate sid rq l)"] by simp
  have "I (w\<lparr>pw_validator := v, pw_awaiting := js_set k n (pw_awaiting w)\<rparr>)" for n
    using awaiting_set[of k "w\<lparr>pw_validator := v\<rparr>" n] k w2 by simp
  note tel = telemetry[OF this]
  show ?thesis
  proof (cases adm)
    case Accepted
    obtain ok w3 where w3: "startPeerTelemetry k dice picks
        (w\<lparr>pw_validator := v, pw_awaiting := js_set k (length (vs_results (pw_validator w))) (pw_awaiting w)\<rparr>) = (ok, w3)" by fastforce
    hence "I w3" using tel[of k dice picks "length (vs_results (pw_validator w))"] by simp
    thus ?thesis using v w3 Accepted fail[OF cancel_validation] by (simp add: Let_def)
  qed (use v refused[OF w2] in \<open>simp add: Let_def\<close>)
qed

lemma verification_started:
  "I (begin_verification k w) \<Longrightarrow> k < pw_shares (begin_verification k w) \<Longrightarrow> I (startVerification posts dice picks k w)"
  unfolding startVerification_def Let_def by (rule started[unfolded Let_def])

lemma found: "I w \<Longrightarrow> r < pw_objects w \<Longrightarrow> I (onCliFoundShare posts r f w)"
proof (cases "accepted_share (pw_config w) (pw_object w r) (fd_time f) (fd_message f)")
  case (Some nd)
  assume w: "I w" and r: "r < pw_objects w"
  obtain nonce data where nd: "nd = (nonce, data)" by fastforce
  have "so_lastNonce (pw_object w r) < nonce"
    using Some nd by (auto simp: accepted_share_def Let_def split: js_value.splits if_splits option.splits)
  hence b: "I (begin_verification (pw_shares w) (submitted r nonce data f w))" by (rule submit[OF r _ w])
  have "pw_shares (begin_verification (pw_shares w) (submitted r nonce data f w)) = pw_shares w + 1"
    by (simp add: begin_verification_def holdBenignClose_def submitted_def world_defs Let_def)
  hence "pw_shares w < pw_shares (begin_verification (pw_shares w) (submitted r nonce data f w))" by simp
  from verification_started[OF b this] found_submitted[of w r f nonce data] Some nd show ?thesis by simp
qed (simp add: onCliFoundShare_def)

lemma destroy: "I w \<Longrightarrow> I (onPoWDestroySession posts sid w)"
proof (cases "js_get (pw_sessions w) sid")
  case (Some r)
  assume "I w"
  hence "I (disposePowSession r w)" by (rule dispose_session)
  from validator[OF this, of "(posts, CancelOfSession sid)"] Some show ?thesis
    by (simp add: onPoWDestroySession_def Let_def sessions idle_timer client_dropped cancel_shares)
qed (simp add: onPoWDestroySession_def)

lemma connect: "I w \<Longrightarrow> I (onPoWConnection sid w)"
  by (simp add: onPoWConnection_def Let_def idle_timer object_upd core_defs environment client_dropped split: option.split)

lemma acknowledged: "I w \<Longrightarrow> I (onPoWSessionReward sid q a b w)"
  by (simp add: onPoWSessionReward_def onPoWSessionRewardError_def reject process_reward split: option.split)

lemma refusal: "I w \<Longrightarrow> I (onPoWSessionRewardError sid q w)"
  by (simp add: onPoWSessionRewardError_def reject split: option.split)

lemma shutdown_one: "I w \<Longrightarrow> I (shutdown_session r w)"
  by (simp add: shutdown_session_def dispose_session idle_timer client_dropped)

lemma shutdown: "I w \<Longrightarrow> I (onPoWShutdown w)"
proof -
  assume "I w"
  from validator[OF environment(3)[OF this, of True], of "(True, Dispose)"]
  have "I (w\<lparr>pw_shutdown := True, pw_validator := dispose (pw_validator w)\<rparr>)" by simp
  from folds[of shutdown_session, OF shutdown_one this] \<open>I w\<close> show ?thesis
    by (simp add: onPoWShutdown_def Let_def cancel_all sessions)
qed

lemma step: "I w \<Longrightarrow> I (pow_step e w)"
proof (cases "(e, w)" rule: pow_step.cases)
  case (15 posts v w')
  assume "I w"
  thus ?thesis using 15 validator[of w "(posts, v)"] by simp
qed (simp_all add: environment register destroy connect disconnected onPoWSessionClose_def processSessionClose_def resolve_closing
  acknowledged refusal on_idle_timeout_def close object_upd core_defs found verify_result onCliCloseSession_def reject close_telemetry
  deliver task tasks shutdown split: option.split)

lemma run: "I w \<Longrightarrow> I (pow_run es w)"
  unfolding pow_run_def by (rule folds[OF step])

end

end
