(* ===== verification/Pow_Earned.thy ===== *)
theory Pow_Earned
  imports Pow_Rules
begin

text \<open>
  What a miner earns: the rewards for shares that the worker process asks for are those of shares
  which the validation worker has found valid, one for each, and no two shares of a session have
  the same nonce.
\<close>

subsection \<open>The validator never takes a result back\<close>

definition grows :: "validator \<Rightarrow> validator \<Rightarrow> bool" where
  "grows s s' \<longleftrightarrow> set (vs_results s) \<subseteq> set (vs_results s')"

lemma grows_same [simp]: "vs_results s' = vs_results s \<Longrightarrow> grows s s'"
  by (simp add: grows_def)

lemma grows_trans: "grows s s' \<Longrightarrow> grows s' s'' \<Longrightarrow> grows s s''"
  by (auto simp: grows_def)

lemma grows_reject: "grows s (rejectValidation x s)"
  by (auto simp: grows_def rejectValidation_def settle_result_def release_fields)

lemma grows_fold: "grows s (fold rejectValidation xs s)"
proof (induction xs arbitrary: s)
  case (Cons x xs)
  show ?case using grows_trans[OF grows_reject Cons.IH] by simp
qed simp

lemma grows_all: "grows s (rejectAll s)"
  using grows_fold[of "s\<lparr>vs_timer := False\<rparr>" "js_keys (vs_pending s)"] by (simp add: rejectAll_def grows_def)

lemma grows_restart: "grows s (requestRestart g s)"
  using grows_all[of "s\<lparr>vs_state := RestartingV g\<rparr>"] by (simp add: requestRestart_def removeGenerationListeners_def grows_def Let_def)

lemma grows_dispatch: "grows s (dispatchNextValidation posts s)"
proof -
  obtain s1 where "same_work s s1" "dispatchNextValidation posts s = s1 \<or> (\<exists>g. dispatchNextValidation posts s = requestRestart g s1)"
    using dispatch_shape by blast
  thus ?thesis using grows_restart[of s1] unfolding same_work_def grows_def by (metis order_refl)
qed

lemma grows_dispatch_after: "grows s s' \<Longrightarrow> grows s (dispatchNextValidation posts s')"
  using grows_trans grows_dispatch by blast

lemma grows_try: "grows s (snd (tryValidateShare posts sid rq l s))"
proof -
  have enq: "vs_results (enqueueValidation a b s') = vs_results s'" for a b s' by (simp add: enqueueValidation_def Let_def)
  have "vs_results (snd (getSessionDispatchReadyAt sid s)) = vs_results s" by (simp add: getSessionDispatchReadyAt_def Let_def)
  thus ?thesis using enq
    by (auto simp: tryValidateShare_def Let_def split: validator_state.split prod.split intro!: grows_dispatch_after)
qed

lemma step_grows: "grows s (validator_step e s)"
proof (cases "(e, s)" rule: validator_step.cases)
  case (2 posts y s0)
  thus ?thesis using grows_dispatch_after grows_reject grows_restart by (auto simp: cancelValidation_def split: option.split)
next
  case (3 posts sid s0)
  have forget: "grows s (s'\<lparr>vs_readyAt := m\<rparr>)" if "grows s s'" for s' m using that by (simp add: grows_def)
  show ?thesis using 3 forget grows_dispatch_after[OF grows_fold] grows_restart by (simp add: cancelSession_def Let_def split: option.split)
next
  case (4 posts g m s0)
  have "grows s (settle_result x r (releaseValidation x s))" for x r by (auto simp: grows_def settle_result_def release_fields)
  thus ?thesis using 4 grows_dispatch_after grows_reject
    by (auto simp: onWorkerMessage_def onWorkerReady_def onWorkerValidated_def onWorkerValidationError_def split: worker_message.split)
next
  case (7 posts y g s0)
  thus ?thesis using grows_dispatch_after grows_reject grows_restart by (simp add: onValidationTimeout_def split: option.split)
next
  case (8 posts s0)
  thus ?thesis using grows_dispatch_after[of s "s\<lparr>vs_timer := False\<rparr>" posts] by simp
next
  case (9 posts a b' s0)
  thus ?thesis by (simp add: run_lifecycle_def startGeneration_def Let_def split: list.split lifecycle_op.split)
next
  case (10 posts s0)
  have "grows s (rejectAll (s\<lparr>vs_timer := False, vs_state := DisposedV\<rparr>))" using grows_all[of "s\<lparr>vs_timer := False, vs_state := DisposedV\<rparr>"] by (simp add: grows_def)
  thus ?thesis using 10 by (simp add: dispose_def removeGenerationListeners_def grows_def Let_def split: option.split)
qed (use grows_restart grows_try in \<open>auto simp: onWorkerFailure_def\<close>)

subsection \<open>The invariant\<close>

fun share_amount :: "nat \<Rightarrow> pow_message \<Rightarrow> int list" where
  "share_amount r (RewardMessage r' q a t) = (if r' = r \<and> t = ''share'' then [a] else [])"
| "share_amount r (AbortMessage _ _ _) = []"

definition requested_rewards :: "nat \<Rightarrow> pow_world \<Rightarrow> int multiset" where
  "requested_rewards r w = mset (concat (map (share_amount r) (pw_sent w)))"

definition valid_shares :: "nat \<Rightarrow> pow_world \<Rightarrow> nat set" where
  "valid_shares r w = {k. k < pw_shares w \<and> sh_session (pw_share w k) = r \<and> sh_local (pw_share w k) = Some (Some True)}"

definition share_reward :: "pow_world \<Rightarrow> nat \<Rightarrow> int" where
  "share_reward w k = pp_powShareReward (sh_policy (pw_share w k))"

definition earned_rewards :: "nat \<Rightarrow> pow_world \<Rightarrow> int multiset" where
  "earned_rewards r w = image_mset (share_reward w) (mset_set (valid_shares r w))"

definition nonces_rise :: "pow_world \<Rightarrow> bool" where
  "nonces_rise w \<longleftrightarrow>
     (\<forall>k j. k < j \<longrightarrow> j < pw_shares w \<longrightarrow> sh_session (pw_share w k) = sh_session (pw_share w j) \<longrightarrow> sh_nonce (pw_share w k) < sh_nonce (pw_share w j)) \<and>
     (\<forall>k < pw_shares w. sh_session (pw_share w k) < pw_objects w \<and> sh_nonce (pw_share w k) \<le> so_lastNonce (pw_object w (sh_session (pw_share w k))))"

definition awaits_result :: "pow_world \<Rightarrow> nat \<Rightarrow> bool" where
  "awaits_result w k \<longleftrightarrow> js_has (pw_awaiting w) k"

definition locals_true :: "pow_world \<Rightarrow> bool" where
  "locals_true w \<longleftrightarrow> (\<forall>k. sh_settlement (pw_share w k) = Undecided \<longrightarrow> sh_local (pw_share w k) = None) \<and>
     (\<forall>k b. sh_local (pw_share w k) = Some (Some b) \<longrightarrow> (sh_id (pw_share w k), ResolvedV b) \<in> set (vs_results (pw_validator w))) \<and>
     (\<forall>k. awaits_result w k \<longrightarrow> k < pw_shares w)"

definition earned :: "pow_world \<Rightarrow> bool" where
  "earned w \<longleftrightarrow> locals_true w \<and> nonces_rise w \<and> (\<forall>r. requested_rewards r w \<subseteq># earned_rewards r w)"

definition share_ident :: "pow_share \<Rightarrow> string \<times> nat \<times> int \<times> pow_policy" where
  "share_ident s = (sh_id s, sh_session s, sh_nonce s, sh_policy s)"

definition evolves :: "pow_world \<Rightarrow> pow_world \<Rightarrow> bool" where
  "evolves w w' \<longleftrightarrow> pw_shares w' = pw_shares w \<and> pw_objects w' = pw_objects w \<and> grows (pw_validator w) (pw_validator w') \<and>
     (\<forall>k. awaits_result w' k \<longrightarrow> awaits_result w k) \<and>
     (\<forall>k. share_ident (pw_share w' k) = share_ident (pw_share w k)) \<and>
     (\<forall>k. sh_local (pw_share w' k) = sh_local (pw_share w k) \<or> sh_local (pw_share w k) = None \<and> sh_local (pw_share w' k) = Some None) \<and>
     (\<forall>k. sh_settlement (pw_share w' k) = Undecided \<longrightarrow> sh_settlement (pw_share w k) = Undecided \<and> sh_local (pw_share w' k) = sh_local (pw_share w k)) \<and>
     (\<forall>r. so_lastNonce (pw_object w' r) = so_lastNonce (pw_object w r)) \<and>
     (\<forall>r. requested_rewards r w' = requested_rewards r w)"

lemma evolves_ident:
  assumes "evolves w w'"
  shows "sh_id (pw_share w' k) = sh_id (pw_share w k)" "sh_session (pw_share w' k) = sh_session (pw_share w k)"
    "sh_nonce (pw_share w' k) = sh_nonce (pw_share w k)" "sh_policy (pw_share w' k) = sh_policy (pw_share w k)"
  using assms unfolding evolves_def share_ident_def by auto

lemma evolves_local: "evolves w w' \<Longrightarrow> sh_local (pw_share w' k) = Some (Some b) \<longleftrightarrow> sh_local (pw_share w k) = Some (Some b)"
  unfolding evolves_def by (metis option.inject option.distinct(1))

lemma evolves_earned_rewards: "evolves w w' \<Longrightarrow> earned_rewards r w' = earned_rewards r w"
proof -
  assume e: "evolves w w'"
  have "valid_shares r w' = valid_shares r w" using evolves_local[OF e] evolves_ident[OF e] e by (simp add: valid_shares_def evolves_def)
  moreover have "share_reward w' = share_reward w" using evolves_ident[OF e] by (simp add: share_reward_def fun_eq_iff)
  ultimately show ?thesis by (simp add: earned_rewards_def)
qed

lemma earned_evolves:
  assumes e: "evolves w w'" and w: "earned w"
  shows "earned w'"
proof -
  have l: "locals_true w'"
    using w e evolves_local[OF e] evolves_ident(1)[OF e] unfolding earned_def locals_true_def evolves_def grows_def by (metis subsetD)
  have "nonces_rise w'" using w e evolves_ident[OF e] by (simp add: earned_def nonces_rise_def evolves_def)
  thus ?thesis using l w e evolves_earned_rewards[OF e] by (simp add: earned_def evolves_def)
qed

subsection \<open>Every write keeps it\<close>

lemma rewards_post [simp]:
  "requested_rewards r (w\<lparr>pw_sent := pw_sent w @ [m]\<rparr>) = requested_rewards r w + mset (share_amount r m)"
  by (simp add: requested_rewards_def)

lemmas evolve_simps = evolves_def share_ident_def requested_rewards_def awaits_result_def

lemma evolves_refl [simp]: "evolves w w"
  by (simp add: evolves_def)

lemma evolves_object:
  assumes "\<And>s. so_lastNonce (f s) = so_lastNonce s"
  shows "evolves w (upd_object r f w)"
  using assms by (simp add: evolve_simps upd_object_def)

lemma evolves_send: "evolves w (trySendSessionClose r w)"
proof (cases "so_close (pw_object w r)")
  case (Some c)
  thus ?thesis by (simp add: evolve_simps trySendSessionClose_def world_defs requested_rewards_def Let_def)
qed (simp add: trySendSessionClose_def)

lemma evolves_trans:
  assumes "evolves w w'" "evolves w' w''"
  shows "evolves w w''"
proof -
  have "grows (pw_validator w) (pw_validator w'')" using assms grows_trans unfolding evolves_def by blast
  moreover have "sh_local (pw_share w'' k) = sh_local (pw_share w k) \<or> sh_local (pw_share w k) = None \<and> sh_local (pw_share w'' k) = Some None" for k
    using assms unfolding evolves_def by metis
  ultimately show ?thesis using assms unfolding evolves_def by simp
qed

lemma evolves_share:
  assumes "\<And>s. share_core (g s) = share_core s"
  shows "evolves w (upd_share k g w)"
  using assms by (simp add: evolve_simps share_core_def upd_share_def)

lemma evolves_release: "evolves w (releaseGuard g c w)"
  unfolding releaseGuard_def
  by (auto split: option.split intro: evolves_trans[OF evolves_object evolves_send])

lemma evolves_hold: "evolves w (snd (holdBenignClose r g w))"
  by (simp add: holdBenignClose_def evolves_object)

lemma evolves_reward: "t \<noteq> ''share'' \<Longrightarrow> evolves w (addPowReward r a t x w)"
  by (simp add: evolve_simps addPowReward_def world_defs requested_rewards_def Let_def)

lemma evolves_decide: "st \<noteq> Undecided \<Longrightarrow> evolves w (resolve_local k None (upd_share k (\<lambda>s. s\<lparr>sh_settlement := st\<rparr>) w))"
  by (simp add: evolve_simps resolve_local_def world_defs)

lemma evolves_close: "evolves w (closePowSession r t reason k w)"
proof -
  let ?w = "upd_object r (\<lambda>s. s\<lparr>so_close := Some (requested_close t reason (so_close s))\<rparr>) w"
  have "evolves ?w (await_close r k (trySendSessionClose r ?w))"
  proof (rule evolves_trans[OF evolves_send])
    show "evolves (trySendSessionClose r ?w) (await_close r k (trySendSessionClose r ?w))"
      by (cases "so_closing (pw_object (trySendSessionClose r ?w) r)") (simp_all add: await_close_def queue_tasks_def evolve_simps upd_object_def)
  qed
  from evolves_trans[OF evolves_object this] show ?thesis
    by (simp add: closePowSession_def queue_tasks_def evolve_simps)
qed

lemma evolves_submitter: "evolves w (releaseSubmitterGuard k w)"
proof -
  have "evolves w (upd_share k (\<lambda>s. s\<lparr>sh_submitterGuard := None\<rparr>) w)"
    by (simp add: evolve_simps upd_share_def)
  from evolves_trans[OF this] show ?thesis
    by (auto simp: releaseSubmitterGuard_def release_taken_def Let_def evolves_release split: option.split)
qed

text \<open>The validator's answer: the share counts as valid before its reward is asked for.\<close>

lemma answered:
  fixes k w b
  defines "w' \<equiv> resolve_local k (Some b) (upd_share k (\<lambda>s. s\<lparr>sh_settlement := Settling\<rparr>) w)"
  assumes w: "earned w" and u: "sh_settlement (pw_share w k) = Undecided" and k: "k < pw_shares w"
    and b: "(sh_id (pw_share w k), ResolvedV b) \<in> set (vs_results (pw_validator w))"
  shows "earned w'" "b \<Longrightarrow> add_mset (share_reward w' k) (requested_rewards (sh_session (pw_share w k)) w') \<subseteq># earned_rewards (sh_session (pw_share w k)) w'"
proof -
  have l: "sh_local (pw_share w k) = None" using w u by (simp add: earned_def locals_true_def)
  have w': "pw_shares w' = pw_shares w" "pw_objects w' = pw_objects w" "pw_object w' = pw_object w" "pw_validator w' = pw_validator w"
      "pw_awaiting w' = pw_awaiting w" "\<And>r. requested_rewards r w' = requested_rewards r w"
      "\<And>j. share_ident (pw_share w' j) = share_ident (pw_share w j)"
      "\<And>j. sh_settlement (pw_share w' j) = (if j = k then Settling else sh_settlement (pw_share w j))"
      "\<And>j. sh_local (pw_share w' j) = (if j = k then Some (Some b) else sh_local (pw_share w j))"
    using l by (simp_all add: w'_def resolve_local_def world_defs share_ident_def requested_rewards_def)
  have i: "sh_id (pw_share w' j) = sh_id (pw_share w j)" "sh_session (pw_share w' j) = sh_session (pw_share w j)"
      "sh_nonce (pw_share w' j) = sh_nonce (pw_share w j)" "sh_policy (pw_share w' j) = sh_policy (pw_share w j)" for j
    using w'(7)[of j] by (simp_all add: share_ident_def)
  have fin: "finite (valid_shares r w)" for r by (simp add: valid_shares_def)
  have new: "k \<notin> valid_shares r w" for r using l by (simp add: valid_shares_def)
  have r: "share_reward w' = share_reward w" using i by (simp add: share_reward_def fun_eq_iff)
  have v: "valid_shares r w' = (if b \<and> r = sh_session (pw_share w k) then insert k (valid_shares r w) else valid_shares r w)" for r
    using k l i w' by (auto simp: valid_shares_def)
  have e: "earned_rewards r w' = (if b \<and> r = sh_session (pw_share w k) then add_mset (share_reward w k) (earned_rewards r w) else earned_rewards r w)" for r
    using fin new by (simp add: earned_rewards_def v r)
  have sub: "requested_rewards r w \<subseteq># earned_rewards r w" for r using w by (simp add: earned_def)
  have "awaits_result w' = awaits_result w" using w'(5) by (simp add: awaits_result_def fun_eq_iff)
  hence "locals_true w'" using w b w' i by (auto simp: earned_def locals_true_def)
  moreover have "nonces_rise w'" using w w' i by (simp add: earned_def nonces_rise_def)
  moreover have "requested_rewards r w' \<subseteq># earned_rewards r w'" for r
    using sub[of r] e[of r] w'(6)[of r] subset_mset.order_trans[OF sub[of r] mset_subset_eq_add_right] by (cases "b \<and> r = sh_session (pw_share w k)") (auto intro: subset_mset.order_trans)
  ultimately show "earned w'" by (simp add: earned_def)
  show "b \<Longrightarrow> add_mset (share_reward w' k) (requested_rewards (sh_session (pw_share w k)) w') \<subseteq># earned_rewards (sh_session (pw_share w k)) w'"
    using sub e w'(6) r by simp
qed

lemma requested:
  assumes w: "earned w" and s: "add_mset a (requested_rewards r w) \<subseteq># earned_rewards r w"
  shows "earned (addPowReward r a ''share'' x w)"
proof (cases "so_disposed (pw_object w r)")
  case True
  hence "evolves w (addPowReward r a ''share'' x w)" by (simp add: addPowReward_def queue_tasks_def evolve_simps)
  thus ?thesis using w by (rule earned_evolves)
next
  case False
  define w1 where "w1 = upd_object r (\<lambda>s. s\<lparr>so_rewardCounter := so_rewardCounter (pw_object w r) + 1,
    so_rewards := js_set (so_rewardCounter (pw_object w r)) x (so_rewards s)\<rparr>) w"
  let ?m = "RewardMessage r (so_rewardCounter (pw_object w r)) a ''share''"
  have ev: "evolves w w1" unfolding w1_def by (rule evolves_object) simp
  have e1: "earned w1" by (rule earned_evolves[OF ev w])
  have same: "requested_rewards q w1 = requested_rewards q w" "earned_rewards q w1 = earned_rewards q w" for q
    using ev evolves_earned_rewards[OF ev] by (simp_all add: evolves_def)
  have "requested_rewards q (w1\<lparr>pw_sent := pw_sent w1 @ [?m]\<rparr>) \<subseteq># earned_rewards q w1" for q
    using s w same[of q] by (auto simp: earned_def)
  moreover have "earned_rewards q (w1\<lparr>pw_sent := pw_sent w1 @ [?m]\<rparr>) = earned_rewards q w1" for q
    by (simp add: earned_rewards_def valid_shares_def share_reward_def[abs_def])
  moreover have "locals_true (w1\<lparr>pw_sent := pw_sent w1 @ [?m]\<rparr>)" "nonces_rise (w1\<lparr>pw_sent := pw_sent w1 @ [?m]\<rparr>)"
    using e1 by (simp_all add: earned_def locals_true_def nonces_rise_def awaits_result_def)
  ultimately have "earned (w1\<lparr>pw_sent := pw_sent w1 @ [?m]\<rparr>)" by (simp add: earned_def)
  thus ?thesis using False by (simp add: addPowReward_def post_main_def w1_def Let_def)
qed

lemma settle_earned:
  assumes a: "js_get (pw_awaiting w) k = Some n" and m: "map_of (drop n (vs_results (pw_validator w))) (sh_id (pw_share w k)) = Some (ResolvedV b)"
    and w: "earned w"
  shows "earned (settleShare k b (w\<lparr>pw_awaiting := js_delete k (pw_awaiting w)\<rparr>))"
proof -
  define w0 where "w0 = w\<lparr>pw_awaiting := js_delete k (pw_awaiting w)\<rparr>"
  have w0: "earned w0" unfolding w0_def by (rule earned_evolves[OF _ w]) (simp add: evolve_simps)
  have k: "k < pw_shares w0" using w a by (simp add: w0_def earned_def locals_true_def awaits_result_def)
  have b: "(sh_id (pw_share w0 k), ResolvedV b) \<in> set (vs_results (pw_validator w0))"
    using map_of_SomeD[OF m] by (auto simp: w0_def dest: in_set_dropD)
  define w1 where "w1 = resolve_local k (Some b) (upd_share k (\<lambda>s. s\<lparr>sh_settlement := Settling\<rparr>) w0)"
  have "earned (settleShare k b w0)"
  proof (cases "sh_settlement (pw_share w0 k) = Undecided")
    case True
    note ans = answered[OF w0 True k b, folded w1_def]
    have pol: "share_reward w1 k = pp_powShareReward (sh_policy (pw_share w0 k))"
      by (simp add: w1_def resolve_local_def world_defs share_reward_def)
    have "settleShare k b w0 = (if b then addPowReward (sh_session (pw_share w0 k)) (pp_powShareReward (sh_policy (pw_share w0 k))) ''share'' (ShareRewarded k) w1
        else slashSession (sh_session (pw_share w0 k)) ''invalid PoW result hash'' (ShareSlashed k) w1)"
      using True by (simp add: settleShare_def w1_def Let_def)
    thus ?thesis using ans pol requested[OF ans(1)] earned_evolves[OF evolves_close ans(1)] by (simp add: slashSession_def)
  qed (use w0 in \<open>simp add: settleShare_def Let_def\<close>)
  thus ?thesis by (simp add: w0_def)
qed

lemma register_earned: "earned w \<Longrightarrow> earned (onPoWRegisterSession sid d w)"
proof -
  assume w: "earned w"
  define w' where "w' = onPoWRegisterSession sid d w"
  have w': "pw_shares w' = pw_shares w" "pw_share w' = pw_share w" "pw_objects w' = pw_objects w + 1" "pw_validator w' = pw_validator w"
      "pw_awaiting w' = pw_awaiting w" "pw_sent w' = pw_sent w" "r \<noteq> pw_objects w \<Longrightarrow> pw_object w' r = pw_object w r" for r
    by (simp_all add: w'_def onPoWRegisterSession_def resetSessionIdleTimer_def upd_object_def Let_def)
  have "locals_true w'" using w w' by (simp add: earned_def locals_true_def awaits_result_def)
  moreover have "nonces_rise w'" using w w' by (auto simp: earned_def nonces_rise_def less_Suc_eq)
  moreover have "requested_rewards r w' = requested_rewards r w" "earned_rewards r w' = earned_rewards r w" for r
    using w' by (simp_all add: requested_rewards_def earned_rewards_def valid_shares_def share_reward_def[abs_def])
  ultimately show ?thesis using w by (simp add: earned_def w'_def)
qed

lemma submit_earned:
  assumes r: "r < pw_objects w" and n: "so_lastNonce (pw_object w r) < nonce" and w: "earned w"
  shows "earned (submitted r nonce data f w)"
proof -
  define w' where "w' = submitted r nonce data f w"
  let ?s = "new_share (fd_shareId f) (fd_policyId f) r nonce data (pw_config w)"
  have w': "pw_shares w' = pw_shares w + 1" "pw_share w' = (pw_share w)(pw_shares w := ?s)" "pw_objects w' = pw_objects w"
      "pw_validator w' = pw_validator w" "pw_awaiting w' = pw_awaiting w" "pw_sent w' = pw_sent w"
      "so_lastNonce (pw_object w' q) = (if q = r then nonce else so_lastNonce (pw_object w q))" for q
    by (simp_all add: w'_def submitted_def world_defs Let_def)
  have s: "sh_session ?s = r" "sh_nonce ?s = nonce" "sh_local ?s = None" by (simp_all add: new_share_def)
  have "locals_true w'" using w w' s by (auto simp: earned_def locals_true_def awaits_result_def less_Suc_eq)
  moreover have "nonces_rise w'"
    using w w' s r n unfolding earned_def nonces_rise_def by (fastforce simp: less_Suc_eq)
  moreover have "earned_rewards q w' = earned_rewards q w" for q
  proof -
    have v: "valid_shares q w' = valid_shares q w" using w' s by (auto simp: valid_shares_def less_Suc_eq)
    have "k \<in> valid_shares q w \<Longrightarrow> share_reward w' k = share_reward w k" for k using w' by (simp add: share_reward_def valid_shares_def)
    thus ?thesis unfolding earned_rewards_def v by (intro image_mset_cong) (simp add: valid_shares_def)
  qed
  moreover have "requested_rewards q w' = requested_rewards q w" for q using w' by (simp add: requested_rewards_def)
  ultimately show ?thesis using w by (simp add: earned_def w'_def)
qed

lemma begin_evolves: "evolves w (begin_verification k w)"
proof -
  have "evolves w' (upd_share k (\<lambda>s. s\<lparr>sh_submitterGuard := g\<rparr>) w')" for w' g
    by (simp add: evolve_simps upd_share_def)
  thus ?thesis using evolves_hold[of w "sh_session (pw_share w k)" "SubmitterOf k"]
    by (auto simp: begin_verification_def split: prod.split intro: evolves_trans)
qed

lemma core_nonce: "object_core s = object_core s' \<Longrightarrow> so_lastNonce s = so_lastNonce s'"
  by (simp add: object_core_def)

interpretation ev: pow_invariant earned
proof unfold_locales
  fix w :: pow_world and f :: "pow_session \<Rightarrow> pow_session" and g :: "pow_share \<Rightarrow> pow_share" and k r n :: nat
  assume w: "earned w"
  note keep = earned_evolves[OF _ w]
  show "earned (w\<lparr>pw_tasks := ts\<rparr>)" "earned (w\<lparr>pw_verifying := m\<rparr>)" "earned (w\<lparr>pw_sessions := m\<rparr>)" "earned (w\<lparr>pw_config := p\<rparr>)"
    "earned (w\<lparr>pw_clients := c\<rparr>)" "earned (w\<lparr>pw_shutdown := z\<rparr>)" "earned (w\<lparr>pw_awaiting := js_delete k (pw_awaiting w)\<rparr>)" for ts m p c z
    by (rule keep, simp add: evolve_simps)+
  show "(\<And>s. object_core (f s) = object_core s) \<Longrightarrow> earned (upd_object r f w)" by (rule keep, rule evolves_object, rule core_nonce)
  show "(\<And>s. share_core (g s) = share_core s) \<Longrightarrow> earned (upd_share k g w)" by (rule keep, rule evolves_share)
  show "earned (trySendSessionClose r w)" by (rule keep, rule evolves_send)
  show "earned (snd (holdBenignClose r (VerifierOf k v) w))" for v by (rule keep, rule evolves_hold)
  show "earned (releaseGuard (VerifierOf k v) c w)" for v c by (rule keep, rule evolves_release)
  show "\<not> so_disposed (pw_object w r) \<Longrightarrow> earned (trySendSessionClose r (upd_object r (\<lambda>s. s\<lparr>so_close := Some (requested_close t reason (so_close s))\<rparr>) w))" for t reason
    by (rule keep, rule evolves_trans[OF evolves_object evolves_send]) simp
  show "earned (upd_object r (\<lambda>s. s\<lparr>so_disposed := True\<rparr>) w)" by (rule keep, rule evolves_object) simp
  show "t \<noteq> ''share'' \<Longrightarrow> earned (addPowReward r a t x w)" for t a x by (rule keep, rule evolves_reward)
  show "st = Settled \<or> st = Cancelled \<Longrightarrow> earned (resolve_local k None (upd_share k (\<lambda>s. s\<lparr>sh_settlement := st\<rparr>) w))" for st
    by (rule keep, rule evolves_decide) auto
  show "earned (finishSettlement k w)" by (rule keep) (simp add: finishSettlement_def evolve_simps upd_share_def)
  show "sh_settlement (pw_share w k) \<in> {Settled, Cancelled} \<Longrightarrow> earned (releaseSubmitterGuard k w)" by (rule keep, rule evolves_submitter)
  show "k < pw_shares w \<Longrightarrow> earned (w\<lparr>pw_awaiting := js_set k n (pw_awaiting w)\<rparr>)"
    using w by (auto simp: earned_def locals_true_def nonces_rise_def awaits_result_def requested_rewards_def earned_rewards_def valid_shares_def share_reward_def[abs_def])
  show "earned (w\<lparr>pw_validator := validator_step e (pw_validator w)\<rparr>)" for e by (rule keep) (simp add: evolve_simps step_grows)
qed (auto intro: settle_earned register_earned submit_earned earned_evolves[OF begin_evolves])

subsection \<open>The validator of the worker process\<close>

text \<open>The worker process uses its validator only through the operations of \<^theory_text>\<open>Pow_Validator\<close>, so what
  \<^theory_text>\<open>Pow_Queue\<close> shows of every sequence of them holds here.\<close>

definition validator_run :: "pow_world \<Rightarrow> bool" where
  "validator_run w \<longleftrightarrow> (\<exists>vs. pw_validator w = fold validator_step vs new_validator)"

lemma validator_unchanged:
  "pw_validator (trySendSessionClose r w) = pw_validator w" "pw_validator (upd_object r f w) = pw_validator w"
  "pw_validator (upd_share k g w) = pw_validator w" "pw_validator (addPowReward r a t x w) = pw_validator w"
  "pw_validator (resolve_local k v w) = pw_validator w" "pw_validator (snd (holdBenignClose r z w)) = pw_validator w"
  "pw_validator (await_close r x w) = pw_validator w" "pw_validator (queue_tasks ts w) = pw_validator w"
  by (simp_all add: trySendSessionClose_def addPowReward_def resolve_local_def holdBenignClose_def await_close_def world_defs Let_def
    split: option.split close_promise.split)

lemma validator_unchanged_close:
  "pw_validator (releaseGuard z c w) = pw_validator w" "pw_validator (finishSettlement k w) = pw_validator w"
  "pw_validator (closePowSession r t reason x w) = pw_validator w" "pw_validator (onPoWRegisterSession sid d w) = pw_validator w"
  "pw_validator (submitted r nonce data f w) = pw_validator w"
  by (simp_all add: releaseGuard_def finishSettlement_def closePowSession_def onPoWRegisterSession_def resetSessionIdleTimer_def submitted_def
    validator_unchanged Let_def split: option.split)

lemma validator_unchanged_settle:
  "pw_validator (releaseSubmitterGuard k w) = pw_validator w" "pw_validator (settleShare k b w) = pw_validator w"
  by (simp_all add: releaseSubmitterGuard_def release_taken_def settleShare_def slashSession_def
    validator_unchanged validator_unchanged_close Let_def split: option.split)

lemma validator_begin: "pw_validator (begin_verification k w) = pw_validator w"
  using validator_unchanged(6)[of "sh_session (pw_share w k)" "SubmitterOf k" w]
  by (auto simp: begin_verification_def validator_unchanged(3) split: prod.split)

lemma validator_run_step: "validator_run w \<Longrightarrow> validator_run (w\<lparr>pw_validator := validator_step e (pw_validator w)\<rparr>)"
proof -
  assume "validator_run w"
  then obtain vs where "pw_validator w = fold validator_step vs new_validator" by (auto simp: validator_run_def)
  hence "validator_step e (pw_validator w) = fold validator_step (vs @ [e]) new_validator" by simp
  thus ?thesis unfolding validator_run_def by (metis pow_world.select_convs(8) pow_world.surjective pow_world.update_convs(8))
qed

interpretation vr: pow_invariant validator_run
  by unfold_locales
    (simp_all add: validator_run_step, simp_all add: validator_run_def validator_unchanged validator_unchanged_close validator_unchanged_settle validator_begin)

subsection \<open>Earned rewards\<close>

lemma start_earned: "earned (pow_start p)" "validator_run (pow_start p)"
  by (simp_all add: earned_def locals_true_def nonces_rise_def awaits_result_def requested_rewards_def pow_start_def new_share_def
    validator_run_def exI[of _ "[]"])

definition demo_policy :: pow_policy where
  "demo_policy = \<lparr>pp_powShareReward = 1000, pp_powDifficulty = 11, pp_powIdleTimeout = 1800, pp_powHashrateHardLimit = 0, pp_params = ''p'',
     pp_verifyLocalMaxQueue = 100, pp_verifyLocalMaxPendingPerSession = 4, pp_verifyLocalMaxSessionDutyCyclePercent = 25,
     pp_verifyLocalTimeout = 30, pp_verifyMinerPeerCount = 1, pp_verifyMinerPercent = 75, pp_verifyMinerIndividuals = 2,
     pp_verifyMinerMaxPending = 5, pp_verifyMinerMaxMissed = 10, pp_verifyMinerRewardPerc = 1500, pp_verifyMinerMissPenaltyPerc = 1000\<rparr>"

definition demo_found :: "rat \<Rightarrow> string \<Rightarrow> found_share" where
  "demo_found nonce shareId = \<lparr>fd_message = JObj [(''params'', JStr ''p''), (''nonce'', JNum (Fin nonce))], fd_time = 100, fd_shareId = shareId,
     fd_policyId = ''q'', fd_dice = 80, fd_picks = []\<rparr>"

definition demo_mining :: "(bool \<times> pow_event) list" where
  "demo_mining = map (Pair True)
    [ValidatorEvent (WorkerSays 1 InitMessage),
     RegisterSession ''s'' \<lparr>nd_balance = 0, nd_lastNonce = 0, nd_shareCount = 0, nd_startTime = 0, nd_preimage = ''i''\<rparr>, Connected ''s'',
     FoundShare 0 (demo_found 5 ''x''), FoundShare 0 (demo_found 5 ''y''),
     ValidatorEvent (WorkerSays 1 (ValidatedMessage ''x'' True)), ValidationKnown 0, ValidationKnown 0]"

text \<open>C11. A miner earns only what it has mined.  Whatever miners, the main process and the validation
  worker send, in whatever order: the share rewards the worker process asks for on behalf of a
  session are, counted with multiplicity, among the rewards set for its shares that the validation
  worker found valid, each at the price in force when it was submitted; no two shares of a session
  have the same nonce, so no work is paid twice; and the validator is only ever used through its
  own operations.\<close>

theorem share_rewards_earned:
  fixes es :: "(bool \<times> pow_event) list" and p :: pow_policy and r :: nat
  defines "w \<equiv> pow_run es (pow_start p)"
  shows "requested_rewards r w \<subseteq># image_mset (\<lambda>k. pp_powShareReward (sh_policy (pw_share w k))) (mset_set (valid_shares r w)) \<and>
    (\<forall>k \<in> valid_shares r w. (sh_id (pw_share w k), ResolvedV True) \<in> set (vs_results (pw_validator w))) \<and>
    inj_on (\<lambda>k. sh_nonce (pw_share w k)) {k. k < pw_shares w \<and> sh_session (pw_share w k) = r} \<and>
    (\<exists>vs. pw_validator w = fold validator_step vs new_validator)"
proof -
  have w: "earned w" unfolding w_def by (rule ev.run[OF start_earned(1)])
  have "validator_run w" unfolding w_def by (rule vr.run[OF start_earned(2)])
  moreover have "inj_on (\<lambda>k. sh_nonce (pw_share w k)) {k. k < pw_shares w \<and> sh_session (pw_share w k) = r}"
    using w unfolding earned_def nonces_rise_def inj_on_def by (metis (mono_tags, lifting) mem_Collect_eq nat_neq_iff order_less_irrefl)
  ultimately show ?thesis using w
    by (simp add: earned_def earned_rewards_def share_reward_def[abs_def] locals_true_def validator_run_def) (simp add: valid_shares_def)
qed

theorem share_rewards_earned_witness:
  "requested_rewards 0 (pow_run demo_mining (pow_start demo_policy)) = {#1000#} \<and>
   (''x'', ResolvedV True) \<in> set (vs_results (pw_validator (pow_run demo_mining (pow_start demo_policy))))"
proof -
  let ?w = "pow_run demo_mining (pow_start demo_policy)"
  have "pw_sent ?w = [RewardMessage 0 0 1000 ''share'']" by code_simp
  hence "requested_rewards 0 ?w = {#1000#}" by (simp add: requested_rewards_def)
  moreover have "pw_shares ?w = 1" "sh_session (pw_share ?w 0) = 0" "sh_local (pw_share ?w 0) = Some (Some True)" "sh_id (pw_share ?w 0) = ''x''"
    by code_simp+
  hence "0 \<in> valid_shares 0 ?w" "sh_id (pw_share ?w 0) = ''x''" by (simp_all add: valid_shares_def)
  ultimately show ?thesis using share_rewards_earned[where es = demo_mining and p = demo_policy and r = 0] by metis
qed

end
