(* ===== verification/Pow_Closing.thy ===== *)
theory Pow_Closing
  imports Pow_Earned
begin

text \<open>
  How a mining session is closed: a benign close waits until every share of the session is decided,
  a slash never waits, and the main process is told of each once at most.
\<close>

subsection \<open>The invariant\<close>

fun close_type :: "nat \<Rightarrow> pow_message \<Rightarrow> string list" where
  "close_type r (AbortMessage r' t reason) = (if r' = r then [t] else [])"
| "close_type r (RewardMessage _ _ _ _) = []"

definition closes_sent :: "nat \<Rightarrow> pow_world \<Rightarrow> string list" where
  "closes_sent r w = concat (map (close_type r) (pw_sent w))"

definition slashed_log :: "string list \<Rightarrow> bool" where
  "slashed_log ts \<longleftrightarrow> ts = [''slashed''] \<or> (\<exists>b. b \<noteq> ''slashed'' \<and> ts = [b, ''slashed''])"

definition close_log :: "session_close option \<Rightarrow> string list \<Rightarrow> bool" where
  "close_log close ts \<longleftrightarrow> (case close of
      None \<Rightarrow> ts = []
    | Some c \<Rightarrow> (case sc_sent c of
        None \<Rightarrow> ts = []
      | Some t \<Rightarrow> if t = ''slashed'' then sc_type c = ''slashed'' \<and> slashed_log ts
          else ts = [t] \<and> (sc_type c = t \<or> sc_type c = ''slashed'')))"

definition slash_prompt :: "pow_session \<Rightarrow> bool" where
  "slash_prompt s \<longleftrightarrow> so_disposed s \<or> (case so_close s of None \<Rightarrow> True
     | Some c \<Rightarrow> sc_type c = ''slashed'' \<longrightarrow> sc_sent c = Some ''slashed'')"

definition logs_ok :: "pow_world \<Rightarrow> bool" where
  "logs_ok w \<longleftrightarrow> (\<forall>r. close_log (so_close (pw_object w r)) (closes_sent r w))"

definition slashes_prompt :: "pow_world \<Rightarrow> bool" where
  "slashes_prompt w \<longleftrightarrow> (\<forall>r. slash_prompt (pw_object w r))"

definition undecided_share :: "pow_world \<Rightarrow> nat \<Rightarrow> bool" where
  "undecided_share w k \<longleftrightarrow> k < pw_shares w \<and> sh_settlement (pw_share w k) \<noteq> Settled \<and> sh_settlement (pw_share w k) \<noteq> Cancelled"

definition share_guarded :: "pow_world \<Rightarrow> nat \<Rightarrow> bool" where
  "share_guarded w k \<longleftrightarrow> (let r = sh_session (pw_share w k) in
     so_disposed (pw_object w r) \<or> SubmitterOf k \<in> set (so_held (pw_object w r)) \<and> sh_submitterGuard (pw_share w k) = Some (Some r))"

definition guards_ok :: "pow_world \<Rightarrow> bool" where
  "guards_ok w \<longleftrightarrow> (\<forall>r. so_decisions (pw_object w r) = int (length (so_held (pw_object w r)))) \<and>
     (\<forall>k. undecided_share w k \<longrightarrow> share_guarded w k) \<and> (\<forall>k < pw_shares w. sh_session (pw_share w k) < pw_objects w)"

definition absent_objects :: "pow_world \<Rightarrow> bool" where
  "absent_objects w \<longleftrightarrow> (\<forall>r \<ge> pw_objects w. so_disposed (pw_object w r) \<and> so_close (pw_object w r) = None \<and> so_held (pw_object w r) = [])"

text \<open>The shares submitted until the session counted \<^verbatim>\<open>n\<close> shares are decided when it is closed in a benign way.\<close>

definition waits_ok :: "nat \<Rightarrow> nat set \<Rightarrow> pow_world \<Rightarrow> bool" where
  "waits_ok n R w \<longleftrightarrow> n \<le> pw_shares w \<and>
     (\<forall>k < n. sh_session (pw_share w k) \<in> R \<longrightarrow> undecided_share w k \<longrightarrow> (\<forall>t \<in> set (closes_sent (sh_session (pw_share w k)) w). t = ''slashed''))"

definition closing :: "nat \<Rightarrow> nat set \<Rightarrow> pow_world \<Rightarrow> bool" where
  "closing n R w \<longleftrightarrow> logs_ok w \<and> slashes_prompt w \<and> absent_objects w \<and> guards_ok w \<and> waits_ok n R w"

subsection \<open>Writes that close nothing\<close>

definition quiet_object :: "pow_session \<Rightarrow> pow_session \<Rightarrow> bool" where
  "quiet_object s s' \<longleftrightarrow> so_close s' = so_close s \<and> so_decisions s' = so_decisions s \<and> so_held s' = so_held s \<and> so_disposed s' = so_disposed s"

definition quiet_share :: "pow_share \<Rightarrow> pow_share \<Rightarrow> bool" where
  "quiet_share s s' \<longleftrightarrow> sh_session s' = sh_session s \<and>
     (sh_settlement s' = Settled \<or> sh_settlement s' = Cancelled \<or>
      sh_settlement s \<noteq> Settled \<and> sh_settlement s \<noteq> Cancelled \<and> sh_submitterGuard s' = sh_submitterGuard s)"

definition quiet_step :: "pow_world \<Rightarrow> pow_world \<Rightarrow> bool" where
  "quiet_step w w' \<longleftrightarrow> pw_shares w' = pw_shares w \<and> pw_objects w' = pw_objects w \<and> (\<forall>r. closes_sent r w' = closes_sent r w) \<and>
     (\<forall>r. quiet_object (pw_object w r) (pw_object w' r)) \<and> (\<forall>k. quiet_share (pw_share w k) (pw_share w' k))"

lemma quiet_same [simp]: "quiet_object s s" "quiet_share x x"
  by (auto simp: quiet_object_def quiet_share_def)

lemma closing_quiet:
  assumes q: "quiet_step w w'" and w: "closing n R w"
  shows "closing n R w'"
proof -
  have o: "so_close (pw_object w' r) = so_close (pw_object w r)" "so_decisions (pw_object w' r) = so_decisions (pw_object w r)"
      "so_held (pw_object w' r) = so_held (pw_object w r)" "so_disposed (pw_object w' r) = so_disposed (pw_object w r)"
      "closes_sent r w' = closes_sent r w" "pw_shares w' = pw_shares w" "pw_objects w' = pw_objects w"
      "sh_session (pw_share w' k) = sh_session (pw_share w k)" for r k
    using q by (simp_all add: quiet_step_def quiet_object_def quiet_share_def)
  have u: "undecided_share w k" "sh_submitterGuard (pw_share w' k) = sh_submitterGuard (pw_share w k)" if "undecided_share w' k" for k
    using q that unfolding quiet_step_def quiet_share_def undecided_share_def by metis+
  have "share_guarded w' k" if "undecided_share w' k" for k
    using w u[OF that] o by (simp add: closing_def guards_ok_def share_guarded_def Let_def)
  moreover have "slashes_prompt w'" using w o by (simp add: closing_def slashes_prompt_def slash_prompt_def)
  ultimately show ?thesis using w u o by (simp add: closing_def logs_ok_def guards_ok_def waits_ok_def absent_objects_def)
qed

lemma quiet_object_upd: "(\<And>s. quiet_object s (f s)) \<Longrightarrow> quiet_step w (upd_object r f w)"
  by (simp add: quiet_step_def upd_object_def closes_sent_def)

lemma quiet_share_upd: "quiet_share (pw_share w k) (g (pw_share w k)) \<Longrightarrow> quiet_step w (upd_share k g w)"
  by (simp add: quiet_step_def upd_share_def closes_sent_def)

lemma quiet_core: "object_core (f s) = object_core s \<Longrightarrow> quiet_object s (f s)" "share_core (g x) = share_core x \<Longrightarrow> quiet_share x (g x)"
  by (auto simp: quiet_object_def quiet_share_def core_defs)

subsection \<open>Sending a close\<close>

lemma closes_post [simp]: "closes_sent r (post_main m w) = closes_sent r w @ close_type r m"
  by (simp add: closes_sent_def post_main_def)

lemma closes_upd [simp]: "closes_sent r (upd_object q f w) = closes_sent r w" "closes_sent r (upd_share k g w) = closes_sent r w"
  by (simp_all add: closes_sent_def world_defs)

lemma free_session:
  assumes "guards_ok w" "so_decisions (pw_object w r) \<le> 0" "\<not> so_disposed (pw_object w r)" "undecided_share w k"
  shows "sh_session (pw_share w k) \<noteq> r"
  using assms by (auto simp: guards_ok_def share_guarded_def Let_def)

lemma sent_log: "close_log (Some c) ts \<Longrightarrow> sc_sent c \<noteq> Some (sc_type c) \<Longrightarrow> close_log (Some (c\<lparr>sc_sent := Some (sc_type c)\<rparr>)) (ts @ [sc_type c])"
  by (auto simp: close_log_def slashed_log_def split: option.splits if_splits)

lemma send_closing:
  assumes l: "logs_ok w" and p: "\<And>q. q \<noteq> r \<Longrightarrow> slash_prompt (pw_object w q)" and a: "absent_objects w" and g: "guards_ok w" and n: "waits_ok n R w"
  shows "closing n R (trySendSessionClose r w)"
proof (cases "so_close (pw_object w r)")
  case None
  hence "slash_prompt (pw_object w q)" for q using p by (cases "q = r") (simp_all add: slash_prompt_def)
  thus ?thesis using None l a g n by (simp add: trySendSessionClose_def closing_def slashes_prompt_def)
next
  case (Some c)
  show ?thesis
  proof (cases "so_disposed (pw_object w r) \<or> sc_sent c = Some (sc_type c) \<or> (sc_type c \<noteq> ''slashed'' \<and> so_decisions (pw_object w r) > 0)")
    case True
    hence "slash_prompt (pw_object w q)" for q using p Some by (cases "q = r") (auto simp: slash_prompt_def)
    thus ?thesis using True Some l a g n by (simp add: trySendSessionClose_def closing_def slashes_prompt_def)
  next
    case False
    define w' where "w' = upd_object r (\<lambda>s. s\<lparr>so_close := Some (c\<lparr>sc_sent := Some (sc_type c)\<rparr>)\<rparr>) (post_main (AbortMessage r (sc_type c) (sc_reason c)) w)"
    have send: "trySendSessionClose r w = w'" using False Some by (auto simp: trySendSessionClose_def w'_def Let_def)
    have w': "pw_object w' = (pw_object w)(r := pw_object w r\<lparr>so_close := Some (c\<lparr>sc_sent := Some (sc_type c)\<rparr>)\<rparr>)"
        "pw_share w' = pw_share w" "pw_shares w' = pw_shares w" "pw_objects w' = pw_objects w"
        "closes_sent q w' = closes_sent q w @ (if q = r then [sc_type c] else [])" for q
      by (simp_all add: w'_def) (simp_all add: upd_object_def post_main_def)
    have "close_log (Some c) (closes_sent r w)" using l Some unfolding logs_ok_def by metis
    hence logs: "logs_ok w'" using l w' False sent_log by (simp add: logs_ok_def)
    have absent: "absent_objects w'" using a w' False by (auto simp: absent_objects_def)
    have prompt: "slashes_prompt w'" using p w' by (simp add: slashes_prompt_def slash_prompt_def)
    have o: "so_decisions (pw_object w' q) = so_decisions (pw_object w q)" "so_held (pw_object w' q) = so_held (pw_object w q)"
        "so_disposed (pw_object w' q) = so_disposed (pw_object w q)" for q by (simp_all add: w'(1))
    hence "guards_ok w'" using g w'(2-4) o by (simp add: guards_ok_def undecided_share_def share_guarded_def Let_def)
    moreover have free: "sc_type c = ''slashed'' \<or> sh_session (pw_share w k) \<noteq> r" if "undecided_share w k" for k
      using free_session[OF g _ _ that, of r] False by linarith
    hence "t = ''slashed''" if "k < n" "sh_session (pw_share w' k) \<in> R" "undecided_share w' k" "t \<in> set (closes_sent (sh_session (pw_share w' k)) w')" for k t
    proof -
      have u: "undecided_share w k" using that(3) w'(2,3) by (simp add: undecided_share_def)
      have "\<forall>t \<in> set (closes_sent (sh_session (pw_share w k)) w). t = ''slashed''" using n that(1,2) u w'(2) by (simp add: waits_ok_def)
      moreover have "t \<in> set (closes_sent (sh_session (pw_share w k)) w) \<or> sh_session (pw_share w k) = r \<and> t = sc_type c"
        using that(4) w'(2,5) by (simp split: if_splits) blast
      ultimately show ?thesis using free[OF u] by blast
    qed
    hence "waits_ok n R w'" using n w'(3) by (simp add: waits_ok_def)
    ultimately show ?thesis using logs prompt absent by (simp add: closing_def send)
  qed
qed

subsection \<open>Guards\<close>

lemma waits_object: "waits_ok n R (upd_object r f w) = waits_ok n R w"
  by (simp add: waits_ok_def undecided_share_def) (simp add: upd_object_def)

lemma logs_object:
  assumes "\<And>s. so_close (f s) = so_close s"
  shows "logs_ok (upd_object r f w) = logs_ok w"
proof -
  have "so_close (pw_object (upd_object r f w) q) = so_close (pw_object w q)" for q using assms by (simp add: upd_object_def)
  thus ?thesis by (simp add: logs_ok_def)
qed

lemma prompt_object: "(\<And>s. slash_prompt s \<Longrightarrow> slash_prompt (f s)) \<Longrightarrow> slashes_prompt w \<Longrightarrow> slashes_prompt (upd_object r f w)"
  by (simp add: slashes_prompt_def upd_object_def)

lemma hold_closing:
  assumes w: "closing n R w"
  shows "closing n R (snd (holdBenignClose r g w))"
proof (cases "so_disposed (pw_object w r)")
  case False
  let ?f = "\<lambda>s. s\<lparr>so_decisions := so_decisions s + 1, so_held := so_held s @ [g]\<rparr>"
  have "so_decisions (pw_object w r) = int (length (so_held (pw_object w r)))" using w by (simp add: closing_def guards_ok_def)
  hence "guards_ok (upd_object r ?f w)" using w
    by (auto simp: closing_def guards_ok_def undecided_share_def share_guarded_def upd_object_def Let_def)
  moreover have "slashes_prompt (upd_object r ?f w)" using w by (intro prompt_object) (simp_all add: closing_def slash_prompt_def)
  moreover have "logs_ok (upd_object r ?f w)" "waits_ok n R (upd_object r ?f w)"
    using w by (simp_all add: closing_def logs_object waits_object)
  moreover have "absent_objects (upd_object r ?f w)" using w False by (auto simp: closing_def absent_objects_def upd_object_def)
  ultimately show ?thesis using False by (simp add: holdBenignClose_def closing_def)
qed (use w in \<open>simp add: holdBenignClose_def\<close>)

lemma remove_length: "x \<in> set xs \<Longrightarrow> max 0 (int (length xs) - 1) = int (length (remove1 x xs))"
proof -
  assume x: "x \<in> set xs"
  hence "0 < length xs" by (rule length_pos_if_in_set)
  thus ?thesis using x by (cases "length xs") (simp_all add: length_remove1)
qed

text \<open>Releasing a guard that no undecided share relies on.\<close>

lemma release_closing:
  assumes w: "closing n R w"
    and free: "\<And>k. g = SubmitterOf k \<Longrightarrow> \<not> undecided_share w k"
  shows "closing n R (releaseGuard g c w)"
proof (cases "c = None \<or> g \<notin> set (so_held (pw_object w (the c)))")
  case True
  thus ?thesis using w by (auto simp: releaseGuard_def split: option.split)
next
  case False
  then obtain r where r: "c = Some r" "g \<in> set (so_held (pw_object w r))" by auto
  let ?f = "\<lambda>s. s\<lparr>so_decisions := max 0 (so_decisions s - 1), so_held := remove1 g (so_held s)\<rparr>"
  have d: "so_decisions (pw_object w q) = int (length (so_held (pw_object w q)))" for q using w by (simp add: closing_def guards_ok_def)
  have "guards_ok (upd_object r ?f w)"
  proof -
    have dec: "so_decisions (pw_object (upd_object r ?f w) q) = int (length (so_held (pw_object (upd_object r ?f w) q)))" for q
      using d r(2) by (simp add: upd_object_def remove_length)
    have "share_guarded (upd_object r ?f w) k" if u: "undecided_share w k" for k
    proof -
      have "share_guarded w k" using w u by (simp add: closing_def guards_ok_def)
      moreover have "g \<noteq> SubmitterOf k" using free u by blast
      ultimately show ?thesis by (auto simp: share_guarded_def upd_object_def Let_def in_set_remove1)
    qed
    thus ?thesis using w dec by (simp add: closing_def guards_ok_def undecided_share_def) (simp add: upd_object_def)
  qed
  moreover have "slashes_prompt (upd_object r ?f w)" using w by (intro prompt_object) (simp_all add: closing_def slash_prompt_def)
  moreover have "logs_ok (upd_object r ?f w)" "waits_ok n R (upd_object r ?f w)"
    using w by (simp_all add: closing_def logs_object waits_object)
  moreover have "absent_objects (upd_object r ?f w)" using w r(2) by (auto simp: closing_def absent_objects_def upd_object_def)
  ultimately have "closing n R (trySendSessionClose r (upd_object r ?f w))"
    by (intro send_closing) (simp_all add: slashes_prompt_def)
  thus ?thesis using r by (simp add: releaseGuard_def)
qed

lemma submitter_closing:
  assumes w: "closing n R w" and d: "sh_settlement (pw_share w k) \<in> {Settled, Cancelled}"
  shows "closing n R (releaseSubmitterGuard k w)"
proof -
  let ?w = "upd_share k (\<lambda>s. s\<lparr>sh_submitterGuard := None\<rparr>) w"
  have "closing n R ?w" by (rule closing_quiet[OF quiet_share_upd w]) (use d in \<open>auto simp: quiet_share_def\<close>)
  moreover have "\<not> undecided_share ?w k" using d by (auto simp: undecided_share_def)
  ultimately have "closing n R (releaseGuard (SubmitterOf k) c ?w)" for c by (intro release_closing) auto
  thus ?thesis using \<open>closing n R ?w\<close> by (simp add: releaseSubmitterGuard_def release_taken_def Let_def split: option.split)
qed

subsection \<open>Every write keeps it\<close>

lemma request_closing:
  assumes d: "\<not> so_disposed (pw_object w r)" and w: "closing n R w"
  shows "closing n R (trySendSessionClose r (upd_object r (\<lambda>s. s\<lparr>so_close := Some (requested_close t reason (so_close s))\<rparr>) w))"
proof (rule send_closing)
  let ?f = "\<lambda>s :: pow_session. s\<lparr>so_close := Some (requested_close t reason (so_close s))\<rparr>"
  have l: "close_log (so_close (pw_object w q)) (closes_sent q w)" for q using w by (simp add: closing_def logs_ok_def)
  have "close_log (Some (requested_close t reason c)) ts" if "close_log c ts" for c ts
    using that by (auto simp: requested_close_def close_log_def split: option.splits if_splits)
  from this[OF l] show "logs_ok (upd_object r ?f w)" using l by (simp add: logs_ok_def) (simp add: upd_object_def)
  show "slash_prompt (pw_object (upd_object r ?f w) q)" if "q \<noteq> r" for q
    using w that by (simp add: closing_def slashes_prompt_def upd_object_def)
  show "guards_ok (upd_object r ?f w)" using w
    by (auto simp: closing_def guards_ok_def undecided_share_def share_guarded_def upd_object_def Let_def)
  show "waits_ok n R (upd_object r ?f w)" using w by (simp add: closing_def waits_object)
  show "absent_objects (upd_object r ?f w)" using w d by (auto simp: closing_def absent_objects_def upd_object_def)
qed

lemma disposal_closing:
  assumes w: "closing n R w"
  shows "closing n R (upd_object r (\<lambda>s. s\<lparr>so_disposed := True\<rparr>) w)"
proof -
  let ?w = "upd_object r (\<lambda>s. s\<lparr>so_disposed := True\<rparr>) w"
  have "guards_ok ?w" using w by (auto simp: closing_def guards_ok_def undecided_share_def share_guarded_def upd_object_def Let_def)
  moreover have "slashes_prompt ?w" using w by (intro prompt_object) (simp_all add: closing_def slash_prompt_def)
  moreover have "absent_objects ?w" using w by (simp add: closing_def absent_objects_def upd_object_def)
  ultimately show ?thesis using w by (simp add: closing_def logs_object waits_object)
qed

lemma register_closing:
  assumes w: "closing n R w"
  shows "closing n R (onPoWRegisterSession sid d w)"
proof -
  define w' where "w' = onPoWRegisterSession sid d w"
  have w': "pw_shares w' = pw_shares w" "pw_share w' = pw_share w" "pw_objects w' = pw_objects w + 1" "pw_sent w' = pw_sent w"
      "q \<noteq> pw_objects w \<Longrightarrow> pw_object w' q = pw_object w q" "so_close (pw_object w' (pw_objects w)) = None"
      "so_decisions (pw_object w' (pw_objects w)) = 0" "so_held (pw_object w' (pw_objects w)) = []" for q
    by (simp_all add: w'_def onPoWRegisterSession_def resetSessionIdleTimer_def new_pow_session_def upd_object_def Let_def)
  have c: "closes_sent q w' = closes_sent q w" for q using w'(4) by (simp add: closes_sent_def)
  have a: "closes_sent q w = []" if "q \<ge> pw_objects w" for q
  proof -
    have "so_close (pw_object w q) = None" using w that by (simp add: closing_def absent_objects_def)
    moreover have "close_log (so_close (pw_object w q)) (closes_sent q w)" using w by (simp add: closing_def logs_ok_def)
    ultimately show ?thesis by (simp add: close_log_def)
  qed
  have cases: "P (pw_object w' q)" if "P (pw_object w' (pw_objects w))" "P (pw_object w q)" for P q
    using that w'(5)[of q] by (cases "q = pw_objects w") simp_all
  have "close_log (so_close (pw_object w' q)) (closes_sent q w')" for q
    using w w'(5)[of q] w'(6) a[of q] c by (cases "q = pw_objects w") (simp_all add: closing_def logs_ok_def close_log_def)
  hence "logs_ok w'" by (simp add: logs_ok_def)
  moreover have "slashes_prompt w'" unfolding slashes_prompt_def
    by (rule allI, rule cases) (use w w'(6) in \<open>simp_all add: closing_def slashes_prompt_def slash_prompt_def\<close>)
  moreover have "absent_objects w'" using w w'(3,5) by (simp add: closing_def absent_objects_def)
  moreover have "guards_ok w'"
  proof -
    have "so_decisions (pw_object w' q) = int (length (so_held (pw_object w' q)))" for q
      by (rule cases) (use w w'(7,8) in \<open>simp_all add: closing_def guards_ok_def\<close>)
    moreover have "pw_object w' (sh_session (pw_share w k)) = pw_object w (sh_session (pw_share w k))" if "k < pw_shares w" for k
      using w that by (intro w'(5)) (auto simp: closing_def guards_ok_def)
    ultimately show ?thesis using w w'(1-3) by (auto simp: closing_def guards_ok_def undecided_share_def share_guarded_def Let_def)
  qed
  moreover have "waits_ok n R w'" using w w'(1,2) c by (simp add: closing_def waits_ok_def undecided_share_def)
  ultimately show ?thesis by (simp add: closing_def w'_def)
qed

lemma submit_closing:
  assumes r: "r < pw_objects w" and w: "closing n R w"
  shows "closing n R (begin_verification (pw_shares w) (submitted r nonce data f w))"
proof -
  let ?k = "pw_shares w"
  let ?d = "so_disposed (pw_object w r)"
  define w' where "w' = begin_verification ?k (submitted r nonce data f w)"
  have w': "pw_shares w' = ?k + 1" "pw_objects w' = pw_objects w" "\<And>q. closes_sent q w' = closes_sent q w"
      "\<And>k. k \<noteq> ?k \<Longrightarrow> pw_share w' k = pw_share w k" "sh_session (pw_share w' ?k) = r" "sh_submitterGuard (pw_share w' ?k) = Some (if ?d then None else Some r)"
      "\<And>q. so_disposed (pw_object w' q) = so_disposed (pw_object w q)" "\<And>q. so_close (pw_object w' q) = so_close (pw_object w q)"
      "\<And>q. so_held (pw_object w' q) = (if q = r \<and> \<not> ?d then so_held (pw_object w q) @ [SubmitterOf ?k] else so_held (pw_object w q))"
      "\<And>q. so_decisions (pw_object w' q) = (if q = r \<and> \<not> ?d then so_decisions (pw_object w q) + 1 else so_decisions (pw_object w q))"
    by (simp_all add: w'_def begin_verification_def holdBenignClose_def submitted_def new_share_def Let_def closes_sent_def world_defs)
  have u: "undecided_share w k" if "undecided_share w' k" "k \<noteq> ?k" for k using that w'(1,4) by (simp add: undecided_share_def less_Suc_eq)
  have "share_guarded w' k" if "undecided_share w' k" for k
  proof (cases "k = ?k")
    case True
    thus ?thesis using w' by (simp add: share_guarded_def Let_def)
  next
    case False
    hence "share_guarded w k" using w u[OF that] by (simp add: closing_def guards_ok_def)
    thus ?thesis using w' False by (auto simp: share_guarded_def Let_def)
  qed
  moreover have "sh_session (pw_share w' k) < pw_objects w'" if "k < pw_shares w'" for k
    using that w w' r by (cases "k = ?k") (auto simp: closing_def guards_ok_def)
  ultimately have "guards_ok w'" using w w' by (simp add: closing_def guards_ok_def)
  moreover have "logs_ok w'" using w w' by (simp add: closing_def logs_ok_def)
  moreover have "slashes_prompt w'" using w w' by (simp add: closing_def slashes_prompt_def slash_prompt_def)
  moreover have "absent_objects w'" using w w' r by (simp add: closing_def absent_objects_def)
  moreover have "waits_ok n R w'" using w w' u by (simp add: closing_def waits_ok_def)
  ultimately show ?thesis by (simp add: closing_def w'_def)
qed

lemma quiet_tasks: "quiet_step w (queue_tasks ts w)"
  by (simp add: queue_tasks_def quiet_step_def closes_sent_def)

lemma quiet_await: "quiet_step w (await_close r x w)"
proof (cases "so_closing (pw_object w r)")
  case (ClosePending ks)
  have "quiet_step w (upd_object r (\<lambda>s. s\<lparr>so_closing := ClosePending (ks @ [x])\<rparr>) w)"
    by (rule quiet_object_upd) (simp add: quiet_object_def)
  thus ?thesis using ClosePending by (simp add: await_close_def)
qed (simp add: await_close_def quiet_tasks)

lemma quiet_reward: "quiet_step w (addPowReward r a t x w)"
  by (simp add: addPowReward_def quiet_step_def quiet_object_def closes_sent_def world_defs Let_def)

lemma quiet_resolve: "quiet_share (pw_share w k) (g (pw_share w k)) \<Longrightarrow> quiet_step w (resolve_local k v (upd_share k g w))"
  by (auto simp: quiet_step_def resolve_local_def closes_sent_def quiet_share_def world_defs)

lemma close_closing: "closing n R w \<Longrightarrow> closing n R (closePowSession r t reason x w)"
  using closing_quiet[OF quiet_await request_closing] closing_quiet[OF quiet_tasks] by (simp add: closePowSession_def)

lemma settle_closing:
  assumes w: "closing n R w"
  shows "closing n R (settleShare k b w)"
proof (cases "sh_settlement (pw_share w k) = Undecided")
  case True
  define w1 where "w1 = resolve_local k (Some b) (upd_share k (\<lambda>s. s\<lparr>sh_settlement := Settling\<rparr>) w)"
  have "closing n R w1" unfolding w1_def
    by (rule closing_quiet[OF quiet_resolve w]) (use True in \<open>auto simp: quiet_share_def\<close>)
  moreover have "settleShare k b w = (if b then addPowReward (sh_session (pw_share w k)) (pp_powShareReward (sh_policy (pw_share w k))) ''share'' (ShareRewarded k) w1
      else closePowSession (sh_session (pw_share w k)) ''slashed'' ''invalid PoW result hash'' (ShareSlashed k) w1)"
    using True by (simp add: settleShare_def slashSession_def w1_def Let_def)
  ultimately show ?thesis using closing_quiet[OF quiet_reward] close_closing by simp
qed (use w in \<open>simp add: settleShare_def Let_def\<close>)

interpretation cl: pow_invariant "closing n R" for n R
proof unfold_locales
  fix w :: pow_world and f :: "pow_session \<Rightarrow> pow_session" and g :: "pow_share \<Rightarrow> pow_share" and k r m :: nat
  assume w: "closing n R w"
  note keep = closing_quiet[OF _ w]
  show "closing n R (w\<lparr>pw_tasks := ts\<rparr>)" "closing n R (w\<lparr>pw_verifying := m\<rparr>)" "closing n R (w\<lparr>pw_sessions := m\<rparr>)"
    "closing n R (w\<lparr>pw_config := p\<rparr>)" "closing n R (w\<lparr>pw_clients := c\<rparr>)" "closing n R (w\<lparr>pw_shutdown := z\<rparr>)"
    "closing n R (w\<lparr>pw_awaiting := js_delete k (pw_awaiting w)\<rparr>)" "closing n R (w\<lparr>pw_awaiting := js_set k m' (pw_awaiting w)\<rparr>)"
    "closing n R (w\<lparr>pw_validator := v\<rparr>)" for ts m p c z m' v
    by (rule keep, simp add: quiet_step_def closes_sent_def)+
  show "(\<And>s. object_core (f s) = object_core s) \<Longrightarrow> closing n R (upd_object r f w)" by (rule keep, rule quiet_object_upd, rule quiet_core)
  show "(\<And>s. share_core (g s) = share_core s) \<Longrightarrow> closing n R (upd_share k g w)" by (rule keep, rule quiet_share_upd, rule quiet_core)
  show "closing n R (trySendSessionClose r w)" using w by (intro send_closing) (simp_all add: closing_def slashes_prompt_def)
  show "closing n R (snd (holdBenignClose r (VerifierOf k v) w))" for v using w by (rule hold_closing)
  show "closing n R (releaseGuard (VerifierOf k v) c w)" for v c using w by (rule release_closing) simp
  show "\<not> so_disposed (pw_object w r) \<Longrightarrow>
      closing n R (trySendSessionClose r (upd_object r (\<lambda>s. s\<lparr>so_close := Some (requested_close t reason (so_close s))\<rparr>) w))" for t reason
    using w by (rule request_closing[rotated])
  show "closing n R (upd_object r (\<lambda>s. s\<lparr>so_disposed := True\<rparr>) w)" using w by (rule disposal_closing)
  show "t \<noteq> ''share'' \<Longrightarrow> closing n R (addPowReward r a t x w)" for t a x by (rule keep, rule quiet_reward)
  show "st = Settled \<or> st = Cancelled \<Longrightarrow> closing n R (resolve_local k None (upd_share k (\<lambda>s. s\<lparr>sh_settlement := st\<rparr>) w))" for st
    by (rule keep, rule quiet_resolve) (auto simp: quiet_share_def)
  show "closing n R (finishSettlement k w)" using w
    by (auto simp: finishSettlement_def quiet_share_def intro!: keep quiet_share_upd)
  show "sh_settlement (pw_share w k) \<in> {Settled, Cancelled} \<Longrightarrow> closing n R (releaseSubmitterGuard k w)"
    using w by (rule submitter_closing)
  show "closing n R (settleShare k b (w\<lparr>pw_awaiting := js_delete k (pw_awaiting w)\<rparr>))" for b
    by (rule settle_closing, rule keep, simp add: quiet_step_def closes_sent_def)
  show "closing n R (onPoWRegisterSession sid d w)" for sid d using w by (rule register_closing)
  show "r < pw_objects w \<Longrightarrow> closing n R (begin_verification (pw_shares w) (submitted r nonce data h w))" for nonce data h
    using w by (rule submit_closing[rotated])
qed

subsection \<open>The protocol\<close>

lemma start_closing: "closing 0 {} (pow_start p)"
  by (simp add: closing_def logs_ok_def slashes_prompt_def slash_prompt_def absent_objects_def guards_ok_def waits_ok_def close_log_def closes_sent_def
    undecided_share_def pow_start_def new_pow_session_def)

definition demo_closing :: "(bool \<times> pow_event) list" where
  "demo_closing = map (Pair True)
    [ValidatorEvent (WorkerSays 1 InitMessage),
     RegisterSession ''s'' \<lparr>nd_balance = 0, nd_lastNonce = 0, nd_shareCount = 0, nd_startTime = 0, nd_preimage = ''i''\<rparr>, Connected ''s'',
     FoundShare 0 (demo_found 5 ''x''), CloseAsked 0]"

definition demo_settling :: "(bool \<times> pow_event) list" where
  "demo_settling = map (Pair True)
    [ValidatorEvent (WorkerSays 1 (ValidatedMessage ''x'' True)), ValidationKnown 0, RewardAcknowledged ''s'' 0 ''1000'' ''1000'',
     RunTask 0 True, RunTask 0 True]"

text \<open>C12. Closing waits for the shares, a slash does not.  For every sequence of events: the main process is
  told at most one benign close of a session and at most one slash after it; a session that is
  to be slashed, and is not disposed, has been reported as slashed; and when a benign close is
  sent, every share of the session submitted before is decided, so that a client cannot escape
  the slash for a bad share by closing its session first.\<close>

theorem close_waits_for_shares:
  fixes es1 es2 :: "(bool \<times> pow_event) list" and p :: pow_policy and r :: nat
  defines "w0 \<equiv> pow_run es1 (pow_start p)" and "w \<equiv> pow_run (es1 @ es2) (pow_start p)"
  shows "(closes_sent r w = [] \<or> (\<exists>t. closes_sent r w = [t]) \<or> (\<exists>t. t \<noteq> ''slashed'' \<and> closes_sent r w = [t, ''slashed''])) \<and>
    (\<forall>c. so_close (pw_object w r) = Some c \<and> sc_type c = ''slashed'' \<and> \<not> so_disposed (pw_object w r) \<longrightarrow> ''slashed'' \<in> set (closes_sent r w)) \<and>
    (\<forall>t k. closes_sent r w0 = [] \<and> t \<in> set (closes_sent r w) \<and> t \<noteq> ''slashed'' \<and> k < pw_shares w0 \<and> sh_session (pw_share w k) = r \<longrightarrow>
      sh_settlement (pw_share w k) = Settled \<or> sh_settlement (pw_share w k) = Cancelled)"
proof -
  let ?R = "{q. closes_sent q w0 = []}"
  have run: "w = pow_run es2 w0" by (simp add: w_def w0_def pow_run_def)
  have w0: "closing 0 {} w0" unfolding w0_def by (rule cl.run[OF start_closing])
  hence "closing (pw_shares w0) ?R w0" by (simp add: closing_def waits_ok_def)
  hence w: "closing (pw_shares w0) ?R w" unfolding run by (rule cl.run)
  hence l: "close_log (so_close (pw_object w r)) (closes_sent r w)" "slash_prompt (pw_object w r)" by (simp_all add: closing_def logs_ok_def slashes_prompt_def)
  have "closes_sent r w = [] \<or> (\<exists>t. closes_sent r w = [t]) \<or> (\<exists>t. t \<noteq> ''slashed'' \<and> closes_sent r w = [t, ''slashed''])"
    using l(1) unfolding close_log_def slashed_log_def by (simp split: option.splits if_splits) blast
  moreover have "''slashed'' \<in> set (closes_sent r w)"
    if "so_close (pw_object w r) = Some c" "sc_type c = ''slashed''" "\<not> so_disposed (pw_object w r)" for c
  proof -
    have "sc_sent c = Some ''slashed''" using l(2) that by (simp add: slash_prompt_def)
    hence "slashed_log (closes_sent r w)" using l(1) that(1) by (simp add: close_log_def)
    thus ?thesis unfolding slashed_log_def by force
  qed
  moreover have "sh_settlement (pw_share w k) = Settled \<or> sh_settlement (pw_share w k) = Cancelled"
    if "closes_sent r w0 = []" "t \<in> set (closes_sent r w)" "t \<noteq> ''slashed''" "k < pw_shares w0" "sh_session (pw_share w k) = r" for t k
  proof -
    have n: "k < pw_shares w" "\<not> undecided_share w k"
      using w that by (auto simp: closing_def waits_ok_def)
    thus ?thesis by (simp add: undecided_share_def)
  qed
  ultimately show ?thesis by blast
qed

theorem close_waits_for_shares_witness:
  "closes_sent 0 (pow_run demo_closing (pow_start demo_policy)) = [] \<and>
   closes_sent 0 (pow_run (demo_closing @ demo_settling) (pow_start demo_policy)) = [''closed''] \<and>
   sh_settlement (pw_share (pow_run (demo_closing @ demo_settling) (pow_start demo_policy)) 0) = Settled"
proof -
  let ?before = "pow_run demo_closing (pow_start demo_policy)" and ?w = "pow_run (demo_closing @ demo_settling) (pow_start demo_policy)"
  have s0: "pw_sent ?before = []" by code_simp
  have s: "pw_sent ?w = [RewardMessage 0 0 1000 ''share'', AbortMessage 0 ''closed'' []]" by code_simp
  have c: "closes_sent 0 ?before = []" "''closed'' \<in> set (closes_sent 0 ?w)" "closes_sent 0 ?w = [''closed'']" using s0 s by (simp_all add: closes_sent_def)
  have k1: "0 < pw_shares ?before" by code_simp
  have k2: "sh_session (pw_share ?w 0) = 0" by code_simp
  have k3: "sh_settlement (pw_share ?w 0) \<noteq> Cancelled" by code_simp
  have "sh_settlement (pw_share ?w 0) = Settled \<or> sh_settlement (pw_share ?w 0) = Cancelled"
    using close_waits_for_shares[where ?es1.0 = demo_closing and ?es2.0 = demo_settling and p = demo_policy and r = 0] c(1,2) k1 k2 by blast
  thus ?thesis using c k3 by blast
qed

end
