(* ===== verification/Github_Auth.thy ===== *)
theory Github_Auth
  imports Faucet_Prelude
begin

text \<open>
  \<^verbatim>\<open>src/src/modules/github/GithubAuthState.ts\<close>: the states of logins with GitHub.  A state is issued to a
  browser, consumed by the callback, completed with the result of the login and, when the client is
  on another origin, fetched from there.  The clock and the random states are arguments, the hash
  of the browser binding is a parameter, the result of a login is a type.
\<close>

subsection \<open>State\<close>

record auth_origins =
  ao_callbackOrigin :: string
  ao_clientOrigin :: string
  ao_sameOrigin :: bool

datatype browser_binding = SameOriginBinding | CookieBinding string

datatype 'r auth_phase = Issued | Processing | Complete 'r

record 'r auth_state =
  as_state :: string
  as_expiresAt :: int
  as_context :: auth_origins
  as_owner :: string
  as_binding :: browser_binding
  as_phase :: "'r auth_phase"

record auth_limits =
  al_maxPending :: int
  al_maxPendingPerOwner :: int
  al_lifetimeSeconds :: int

record 'r auth_store =
  au_states :: "(string, 'r auth_state) jsmap"
  au_counts :: "(string, int) jsmap"

text \<open>The checks of the constructor.\<close>

definition auth_limits_ok :: "auth_limits \<Rightarrow> bool" where
  "auth_limits_ok l \<longleftrightarrow> is_safe_integer (al_maxPending l) \<and> al_maxPending l \<ge> 1 \<and>
     is_safe_integer (al_maxPendingPerOwner l) \<and> al_maxPendingPerOwner l \<ge> 1 \<and>
     is_safe_integer (al_lifetimeSeconds l) \<and> al_lifetimeSeconds l \<ge> 1"

definition lower_hex :: "char \<Rightarrow> bool" where
  "lower_hex c \<longleftrightarrow> is_digit c \<or> (let n = of_char c :: nat in 97 \<le> n \<and> n \<le> 102)"

text \<open>\<^verbatim>\<open>GITHUB_AUTH_STATE_PATTERN\<close> and \<^verbatim>\<open>GITHUB_AUTH_BROWSER_BINDING_PATTERN\<close>.\<close>

definition is_auth_token :: "string \<Rightarrow> bool" where
  "is_auth_token s \<longleftrightarrow> length s = 64 \<and> list_all lower_hex s"

definition currentTime :: "int \<Rightarrow> int option" where
  "currentTime now = (if is_safe_integer now \<and> now \<ge> 0 then Some now else None)"

definition matchesBrowserBinding :: "(string \<Rightarrow> string) \<Rightarrow> 'r auth_state \<Rightarrow> string option \<Rightarrow> bool" where
  "matchesBrowserBinding digest c binding = (case as_binding c of
      SameOriginBinding \<Rightarrow> True
    | CookieBinding d \<Rightarrow> (case binding of None \<Rightarrow> False | Some b \<Rightarrow> is_auth_token b \<and> digest b = d))"

subsection \<open>Operations\<close>

definition owner_count :: "'r auth_store \<Rightarrow> string \<Rightarrow> int" where
  "owner_count s ip = (case js_get (au_counts s) ip of None \<Rightarrow> 0 | Some n \<Rightarrow> n)"

definition delete_state :: "string \<Rightarrow> 'r auth_store \<Rightarrow> 'r auth_store" where
  "delete_state x s = (case js_get (au_states s) x of
      None \<Rightarrow> s
    | Some c \<Rightarrow> (let n = owner_count s (as_owner c) in
        s\<lparr>au_states := js_delete x (au_states s),
          au_counts := (if n \<le> 1 then js_delete (as_owner c) (au_counts s) else js_set (as_owner c) (n - 1) (au_counts s))\<rparr>))"

text \<open>A map is iterated in the order of insertion; an entry deleted on the way does not disturb it.\<close>

definition pruneExpired :: "int \<Rightarrow> 'r auth_store \<Rightarrow> 'r auth_store" where
  "pruneExpired now s = fold (\<lambda>(x, c) s. if now \<ge> as_expiresAt c then delete_state x s else s) (au_states s) s"

text \<open>Three attempts at a state that is well formed and new.\<close>

definition fresh_state :: "'r auth_store \<Rightarrow> string list \<Rightarrow> string option" where
  "fresh_state s attempts = find (\<lambda>x. is_auth_token x \<and> \<not> js_has (au_states s) x) (take 3 attempts)"

definition issue :: "(string \<Rightarrow> string) \<Rightarrow> auth_limits \<Rightarrow> auth_origins \<Rightarrow> string \<Rightarrow> string option \<Rightarrow> int \<Rightarrow> string list \<Rightarrow>
    'r auth_store \<Rightarrow> 'r auth_state option \<times> 'r auth_store" where
  "issue digest l ctx ownerIp binding now attempts s =
     (if ownerIp = [] then (None, s)
      else case (if ao_sameOrigin ctx then Some SameOriginBinding
                 else case binding of None \<Rightarrow> None | Some b \<Rightarrow> if is_auth_token b then Some (CookieBinding (digest b)) else None) of
        None \<Rightarrow> (None, s)
      | Some stored \<Rightarrow> (case currentTime now of
          None \<Rightarrow> (None, s)
        | Some now \<Rightarrow> (let s = pruneExpired now s in
            if int (length (au_states s)) \<ge> al_maxPending l then (None, s)
            else let count = owner_count s ownerIp in
              if count \<ge> al_maxPendingPerOwner l then (None, s)
              else case fresh_state s attempts of
                None \<Rightarrow> (None, s)
              | Some x \<Rightarrow> (let c = \<lparr>as_state = x, as_expiresAt = now + al_lifetimeSeconds l, as_context = ctx, as_owner = ownerIp,
                                   as_binding = stored, as_phase = Issued\<rparr> in
                  (Some c, s\<lparr>au_states := js_set x c (au_states s), au_counts := js_set ownerIp (count + 1) (au_counts s)\<rparr>)))))"

datatype 'a consumption = AcceptedC 'a | PendingC | RejectedC string

definition consume :: "(string \<Rightarrow> string) \<Rightarrow> auth_limits \<Rightarrow> string \<Rightarrow> auth_origins \<Rightarrow> string option \<Rightarrow> int \<Rightarrow>
    'r auth_store \<Rightarrow> string consumption option \<times> 'r auth_store" where
  "consume digest l x ctx binding now s =
     (if \<not> is_auth_token x then (Some (RejectedC ''invalid''), s)
      else case js_get (au_states s) x of
        None \<Rightarrow> (Some (RejectedC ''unknown''), s)
      | Some c \<Rightarrow> (case currentTime now of
          None \<Rightarrow> (None, s)
        | Some now \<Rightarrow>
            if now \<ge> as_expiresAt c then (Some (RejectedC ''expired''), delete_state x s)
            else if as_context c \<noteq> ctx then (Some (RejectedC ''context''), s)
            else if \<not> matchesBrowserBinding digest c binding then (Some (RejectedC ''binding''), s)
            else (case as_phase c of
              Issued \<Rightarrow> (Some (AcceptedC (as_owner c)),
                s\<lparr>au_states := js_set x (c\<lparr>as_expiresAt := now + al_lifetimeSeconds l, as_phase := Processing\<rparr>) (au_states s)\<rparr>)
            | _ \<Rightarrow> (Some (RejectedC ''used''), s))))"

definition complete :: "auth_limits \<Rightarrow> string \<Rightarrow> 'r \<Rightarrow> int \<Rightarrow> 'r auth_store \<Rightarrow> bool option \<times> 'r auth_store" where
  "complete l x res now s = (case js_get (au_states s) x of
      None \<Rightarrow> (Some False, s)
    | Some c \<Rightarrow> (case as_phase c of
        Processing \<Rightarrow> (case currentTime now of
          None \<Rightarrow> (None, s)
        | Some now \<Rightarrow>
            if now \<ge> as_expiresAt c then (Some False, delete_state x s)
            else if ao_sameOrigin (as_context c) then (Some True, delete_state x s)
            else (Some True, s\<lparr>au_states := js_set x (c\<lparr>as_expiresAt := now + al_lifetimeSeconds l, as_phase := Complete res\<rparr>) (au_states s)\<rparr>))
      | _ \<Rightarrow> (Some False, s)))"

definition consumeResult :: "(string \<Rightarrow> string) \<Rightarrow> string \<Rightarrow> auth_origins \<Rightarrow> string option \<Rightarrow> int \<Rightarrow>
    'r auth_store \<Rightarrow> 'r consumption option \<times> 'r auth_store" where
  "consumeResult digest x ctx binding now s =
     (if \<not> is_auth_token x then (Some (RejectedC ''invalid''), s)
      else case js_get (au_states s) x of
        None \<Rightarrow> (Some (RejectedC ''unknown''), s)
      | Some c \<Rightarrow> (case currentTime now of
          None \<Rightarrow> (None, s)
        | Some now \<Rightarrow>
            if now \<ge> as_expiresAt c then (Some (RejectedC ''expired''), delete_state x s)
            else if as_context c \<noteq> ctx then (Some (RejectedC ''context''), s)
            else if \<not> matchesBrowserBinding digest c binding then (Some (RejectedC ''binding''), s)
            else (case as_phase c of
              Complete res \<Rightarrow> (Some (AcceptedC res), delete_state x s)
            | _ \<Rightarrow> (Some PendingC, s))))"

definition clear_states :: "'r auth_store \<Rightarrow> 'r auth_store" where
  "clear_states s = s\<lparr>au_states := [], au_counts := []\<rparr>"

subsection \<open>Runs\<close>

datatype 'r auth_event =
    IssueE auth_origins string "string option" int "string list"
  | ConsumeE string auth_origins "string option" int
  | CompleteE string 'r int
  | ResultE string auth_origins "string option" int
  | ClearE

text \<open>What a login is bound to: its state, the origins it was started for, and the hash of the
  browser's binding, if the client is on another origin.\<close>

type_synonym login = "string \<times> auth_origins \<times> string option"

definition presented :: "(string \<Rightarrow> string) \<Rightarrow> string \<Rightarrow> auth_origins \<Rightarrow> string option \<Rightarrow> login" where
  "presented digest x ctx binding = (x, ctx, if ao_sameOrigin ctx then None else map_option digest binding)"

datatype 'r auth_output = IssuedO login | ConsumedO login | CompletedO string 'r | ResultO login 'r | NothingO

fun auth_step :: "(string \<Rightarrow> string) \<Rightarrow> auth_limits \<Rightarrow> 'r auth_event \<Rightarrow> 'r auth_store \<Rightarrow> 'r auth_output \<times> 'r auth_store" where
  "auth_step digest l (IssueE ctx ip b now attempts) s = (case issue digest l ctx ip b now attempts s of
      (Some c, s') \<Rightarrow> (IssuedO (presented digest (as_state c) ctx b), s') | (None, s') \<Rightarrow> (NothingO, s'))"
| "auth_step digest l (ConsumeE x ctx b now) s = (case consume digest l x ctx b now s of
      (Some (AcceptedC _), s') \<Rightarrow> (ConsumedO (presented digest x ctx b), s') | (_, s') \<Rightarrow> (NothingO, s'))"
| "auth_step digest l (CompleteE x res now) s = (case complete l x res now s of
      (Some True, s') \<Rightarrow> (CompletedO x res, s') | (_, s') \<Rightarrow> (NothingO, s'))"
| "auth_step digest l (ResultE x ctx b now) s = (case consumeResult digest x ctx b now s of
      (Some (AcceptedC res), s') \<Rightarrow> (ResultO (presented digest x ctx b) res, s') | (_, s') \<Rightarrow> (NothingO, s'))"
| "auth_step digest l ClearE s = (NothingO, clear_states s)"

primrec auth_run :: "(string \<Rightarrow> string) \<Rightarrow> auth_limits \<Rightarrow> 'r auth_event list \<Rightarrow> 'r auth_store \<Rightarrow> 'r auth_output list \<times> 'r auth_store" where
  "auth_run digest l [] s = ([], s)"
| "auth_run digest l (e # es) s = (case auth_step digest l e s of (out, s1) \<Rightarrow>
     (case auth_run digest l es s1 of (outs, s2) \<Rightarrow> (out # outs, s2)))"

definition empty_store :: "'r auth_store" where
  "empty_store = \<lparr>au_states = [], au_counts = []\<rparr>"

subsection \<open>What a store holds\<close>

text \<open>What the states of a store weigh, for a weight of one state.\<close>

definition weight :: "('r auth_state \<Rightarrow> 'a list) \<Rightarrow> 'r auth_store \<Rightarrow> 'a multiset" where
  "weight f s = mset (concat (map (\<lambda>(_, c). f c) (au_states s)))"

lemma weight_take:
  "js_map_ok m \<Longrightarrow> js_get m x = Some c \<Longrightarrow>
   mset (concat (map (\<lambda>(_, c). f c) m)) = mset (f c) + mset (concat (map (\<lambda>(_, c). f c) (js_delete x m)))"
proof (induction m)
  case (Cons yc m)
  obtain y d where yc: "yc = (y, d)" by fastforce
  show ?case
  proof (cases "y = x")
    case True
    thus ?thesis using Cons.prems yc js_delete_absent[of m x] by (auto simp: map_of_eq_None_iff)
  next
    case False
    thus ?thesis using Cons yc by simp
  qed
qed simp

lemma weight_put:
  "js_map_ok m \<Longrightarrow> mset (concat (map (\<lambda>(_, c). f c) (js_set x c m))) = mset (f c) + mset (concat (map (\<lambda>(_, c). f c) (js_delete x m)))"
proof (induction m)
  case (Cons yc m)
  obtain y d where yc: "yc = (y, d)" by fastforce
  show ?case
  proof (cases "y = x")
    case True
    thus ?thesis using Cons.prems yc js_delete_absent[of m x] by (auto simp: map_of_eq_None_iff)
  next
    case False
    thus ?thesis using Cons yc by simp
  qed
qed simp

lemma weight_delete: "js_map_ok (au_states s) \<Longrightarrow> js_get (au_states s) x = Some c \<Longrightarrow> weight f s = mset (f c) + weight f (delete_state x s)"
  using weight_take[of "au_states s" x c f] by (simp add: weight_def delete_state_def Let_def)

lemma weight_set:
  assumes "js_map_ok (au_states s)" "js_get (au_states s) x = Some c"
  shows "weight f (s\<lparr>au_states := js_set x c' (au_states s)\<rparr>) + mset (f c) = weight f s + mset (f c')"
  using weight_take[OF assms, of f] weight_put[OF assms(1), of f x c'] by (simp add: weight_def)

lemma weight_new:
  assumes "js_map_ok (au_states s)" "js_get (au_states s) x = None"
  shows "weight f (s\<lparr>au_states := js_set x c (au_states s), au_counts := m\<rparr>) = weight f s + mset (f c)"
  using weight_put[OF assms(1), of f x c] js_delete_absent[OF assms(2)] by (simp add: weight_def)

definition entry_ok :: "string \<Rightarrow> 'r auth_state \<Rightarrow> bool" where
  "entry_ok x c \<longleftrightarrow> as_state c = x \<and> (as_binding c = SameOriginBinding \<longleftrightarrow> ao_sameOrigin (as_context c))"

definition owned :: "string \<Rightarrow> 'r auth_state \<Rightarrow> unit list" where
  "owned ip c = (if as_owner c = ip then [()] else [])"

definition states_ok :: "auth_limits \<Rightarrow> 'r auth_store \<Rightarrow> bool" where
  "states_ok l s \<longleftrightarrow> js_map_ok (au_states s) \<and> (\<forall>xc \<in> set (au_states s). entry_ok (fst xc) (snd xc)) \<and>
     (\<forall>ip. owner_count s ip = int (size (weight (owned ip) s))) \<and>
     int (length (au_states s)) \<le> al_maxPending l \<and> (\<forall>ip. owner_count s ip \<le> al_maxPendingPerOwner l)"

lemma entry_at: "states_ok l s \<Longrightarrow> js_get (au_states s) x = Some c \<Longrightarrow> entry_ok x c"
  unfolding states_ok_def by (metis fst_conv map_of_SomeD snd_conv)

lemma delete_length: "js_map_ok m \<Longrightarrow> length (js_delete x m) \<le> length m"
  by (simp add: AList.delete_eq)

lemma delete_ok:
  assumes s: "states_ok l s"
  shows "states_ok l (delete_state x s)"
proof (cases "js_get (au_states s) x")
  case (Some c)
  let ?s = "delete_state x s"
  have m: "js_map_ok (au_states s)" using s by (simp add: states_ok_def)
  have w: "int (size (weight (owned ip) ?s)) = owner_count s ip - (if as_owner c = ip then 1 else 0)" for ip
    using weight_delete[OF m Some, of "owned ip"] s by (simp add: states_ok_def owned_def)
  have states: "au_states ?s = js_delete x (au_states s)" using Some by (simp add: delete_state_def Let_def)
  have n: "owner_count ?s ip = owner_count s ip - (if as_owner c = ip then 1 else 0)" for ip
  proof (cases "as_owner c = ip \<and> owner_count s (as_owner c) \<le> 1")
    case True
    hence "owner_count ?s ip = 0" using Some by (auto simp: delete_state_def owner_count_def Let_def)
    moreover have "owner_count s ip - 1 \<ge> 0" using w[of ip] True by simp
    ultimately show ?thesis using True by auto
  next
    case False
    thus ?thesis using Some by (auto simp: delete_state_def owner_count_def Let_def)
  qed
  have "set (au_states ?s) \<subseteq> set (au_states s)" unfolding states by (auto simp: AList.delete_eq)
  moreover have "owner_count ?s ip \<le> al_maxPendingPerOwner l" for ip
    using n[of ip] s by (simp add: states_ok_def) (smt (verit))
  ultimately show ?thesis using s n w m delete_length[OF m, of x]
    by (simp add: states_ok_def states) (metis (no_types) of_nat_le_iff order_trans subsetD)
qed (use s in \<open>simp add: delete_state_def\<close>)

lemma prune_ok: "states_ok l s \<Longrightarrow> states_ok l (pruneExpired now s)"
proof -
  have "states_ok l s \<Longrightarrow> states_ok l (fold (\<lambda>(x, c) s. if now \<ge> as_expiresAt c then delete_state x s else s) xcs s)" for xcs
    by (induction xcs arbitrary: s) (auto simp: delete_ok)
  thus "states_ok l s \<Longrightarrow> ?thesis" by (simp add: pruneExpired_def)
qed

lemma put_subset: "set (js_set x c m) \<subseteq> insert (x, c) (set m)"
  by (induction m) auto

lemma put_length: "length (js_set x c m) = (if x \<in> fst ` set m then length m else length m + 1)"
  by (induction m) auto

lemma set_ok:
  assumes s: "states_ok l s" and c: "js_get (au_states s) x = Some c"
    and c': "as_state c' = as_state c" "as_binding c' = as_binding c" "as_context c' = as_context c" "as_owner c' = as_owner c"
  shows "states_ok l (s\<lparr>au_states := js_set x c' (au_states s)\<rparr>)"
proof -
  have m: "js_map_ok (au_states s)" using s by (simp add: states_ok_def)
  have "weight (owned ip) (s\<lparr>au_states := js_set x c' (au_states s)\<rparr>) = weight (owned ip) s" for ip
    using weight_set[OF m c, of "owned ip" c'] c'(4) by (simp add: owned_def)
  moreover have "length (js_set x c' (au_states s)) = length (au_states s)"
  proof -
    have "x \<in> fst ` set (au_states s)" using map_of_SomeD[OF c] by force
    thus ?thesis by (simp add: put_length)
  qed
  moreover have "entry_ok x c'" using entry_at[OF s c] c' by (simp add: entry_ok_def)
  moreover have "set (js_set x c' (au_states s)) \<subseteq> insert (x, c') (set (au_states s))" by (rule put_subset)
  ultimately show ?thesis using s m by (auto simp: states_ok_def owner_count_def)
qed

lemma new_ok:
  assumes s: "states_ok l s" and x: "js_get (au_states s) x = None" and c: "entry_ok x c"
    and n: "int (length (au_states s)) < al_maxPending l" "owner_count s (as_owner c) < al_maxPendingPerOwner l"
  shows "states_ok l (s\<lparr>au_states := js_set x c (au_states s), au_counts := js_set (as_owner c) (owner_count s (as_owner c) + 1) (au_counts s)\<rparr>)"
    (is "states_ok l ?s")
proof -
  have m: "js_map_ok (au_states s)" using s by (simp add: states_ok_def)
  have n': "owner_count ?s ip = owner_count s ip + (if as_owner c = ip then 1 else 0)" for ip by (auto simp: owner_count_def)
  have w: "weight (owned ip) ?s = weight (owned ip) s + mset (owned ip c)" for ip by (rule weight_new[OF m x])
  have "x \<notin> fst ` set (au_states s)" using x by (simp add: map_of_eq_None_iff)
  hence len: "length (au_states ?s) = length (au_states s) + 1" by (simp add: put_length)
  have "owner_count ?s ip = int (size (weight (owned ip) ?s))" for ip using n'[of ip] w[of ip] s by (simp add: states_ok_def owned_def)
  moreover have "owner_count ?s ip \<le> al_maxPendingPerOwner l" for ip
  proof (cases "as_owner c = ip")
    case True
    thus ?thesis using n'[of ip] n(2) by simp
  next
    case False
    have "owner_count s ip \<le> al_maxPendingPerOwner l" using s unfolding states_ok_def by blast
    thus ?thesis using n'[of ip] False by presburger
  qed
  moreover have "\<forall>xc \<in> set (au_states ?s). entry_ok (fst xc) (snd xc)" using s c put_subset[of x c "au_states s"] by (fastforce simp: states_ok_def)
  ultimately show ?thesis using m len n(1) by (simp add: states_ok_def)
qed

lemma fresh_new: "fresh_state s attempts = Some x \<Longrightarrow> js_get (au_states s) x = None"
  unfolding fresh_state_def find_Some_iff by auto

text \<open>A state that is issued is new to the pruned store.\<close>

lemma issue_cases:
  assumes "issue digest l ctx ip b now attempts s = (res, s')"
  obtains (refused) "res = None" "s' = s \<or> s' = pruneExpired now s"
  | (issued) x c where "res = Some c" "s' = (pruneExpired now s)\<lparr>au_states := js_set x c (au_states (pruneExpired now s)),
        au_counts := js_set ip (owner_count (pruneExpired now s) ip + 1) (au_counts (pruneExpired now s))\<rparr>"
      "js_get (au_states (pruneExpired now s)) x = None" "as_owner c = ip" "entry_ok x c" "as_context c = ctx" "as_phase c = Issued"
      "as_binding c = (if ao_sameOrigin ctx then SameOriginBinding else CookieBinding (digest (the b)))" "ao_sameOrigin ctx \<or> b \<noteq> None"
      "int (length (au_states (pruneExpired now s))) < al_maxPending l" "owner_count (pruneExpired now s) ip < al_maxPendingPerOwner l"
proof (cases res)
  case None
  have "s' = s \<or> s' = pruneExpired now s" using assms None
    by (auto simp: issue_def Let_def currentTime_def split: if_splits option.splits)
  thus ?thesis using None refused by blast
next
  case (Some c)
  show ?thesis
  proof (rule issued[of c "as_state c"])
  qed (use assms Some fresh_new in \<open>auto simp: issue_def Let_def currentTime_def entry_ok_def split: if_splits option.splits\<close>)
qed

lemma issue_ok:
  assumes s: "states_ok l s" and run: "issue digest l ctx ip b now attempts s = (res, s')"
  shows "states_ok l s'"
  using run
proof (cases rule: issue_cases)
  case refused
  thus ?thesis using s prune_ok[OF s] by metis
next
  case (issued x c)
  show ?thesis
    unfolding issued(2) issued(4)[symmetric]
    by (rule new_ok[OF prune_ok[OF s] issued(3,5)]) (use issued in simp_all)
qed

lemma phase_ok:
  "states_ok l s \<Longrightarrow> js_get (au_states s) x = Some c \<Longrightarrow>
   states_ok l (s\<lparr>au_states := js_set x (c\<lparr>as_expiresAt := e, as_phase := p\<rparr>) (au_states s)\<rparr>)"
  by (rule set_ok) simp_all

text \<open>A state moves from one phase to the next in place, or it is deleted.\<close>

lemma consume_cases:
  assumes run: "consume digest l x ctx b now s = (res, s')"
  obtains (rejected) "\<forall>ip. res \<noteq> Some (AcceptedC ip)" "s' = s \<or> s' = delete_state x s"
  | (accepted) c e where "js_get (au_states s) x = Some c" "res = Some (AcceptedC (as_owner c))" "as_phase c = Issued"
      "as_context c = ctx" "matchesBrowserBinding digest c b"
      "s' = s\<lparr>au_states := js_set x (c\<lparr>as_expiresAt := e, as_phase := Processing\<rparr>) (au_states s)\<rparr>"
proof (cases "\<exists>ip. res = Some (AcceptedC ip)")
  case False
  hence "s' = s \<or> s' = delete_state x s" using run
    by (auto simp: consume_def split: if_splits option.splits auth_phase.splits)
  thus ?thesis using False rejected by blast
next
  case True
  show ?thesis
    by (rule accepted[of "the (js_get (au_states s) x)" "now + al_lifetimeSeconds l"])
      (use True run in \<open>auto simp: consume_def currentTime_def split: if_splits option.splits auth_phase.splits\<close>)
qed

lemma complete_cases:
  assumes run: "complete l x r now s = (res, s')"
  obtains (refused) "res \<noteq> Some True" "s' = s \<or> s' = delete_state x s"
  | (same) "res = Some True" "s' = delete_state x s"
  | (kept) c e where "js_get (au_states s) x = Some c" "res = Some True" "as_phase c = Processing"
      "s' = s\<lparr>au_states := js_set x (c\<lparr>as_expiresAt := e, as_phase := Complete r\<rparr>) (au_states s)\<rparr>"
proof (cases "res = Some True")
  case False
  hence "s' = s \<or> s' = delete_state x s" using run
    by (auto simp: complete_def split: if_splits option.splits auth_phase.splits)
  thus ?thesis using False refused by blast
next
  case True
  show ?thesis
  proof (cases "s' = delete_state x s")
    case False
    show ?thesis
      by (rule kept[of "the (js_get (au_states s) x)" "now + al_lifetimeSeconds l"])
        (use True False run in \<open>auto simp: complete_def currentTime_def split: if_splits option.splits auth_phase.splits\<close>)
  qed (rule same[OF True])
qed

lemma result_cases:
  assumes run: "consumeResult digest x ctx b now s = (res, s')"
  obtains (rejected) "\<forall>r. res \<noteq> Some (AcceptedC r)" "s' = s \<or> s' = delete_state x s"
  | (accepted) c r where "js_get (au_states s) x = Some c" "res = Some (AcceptedC r)" "as_phase c = Complete r"
      "as_context c = ctx" "matchesBrowserBinding digest c b" "s' = delete_state x s"
proof (cases "\<exists>r. res = Some (AcceptedC r)")
  case False
  hence "s' = s \<or> s' = delete_state x s" using run
    by (auto simp: consumeResult_def split: if_splits option.splits auth_phase.splits)
  thus ?thesis using False rejected by blast
next
  case True
  then obtain r where r: "res = Some (AcceptedC r)" by blast
  show ?thesis
    by (rule accepted[of "the (js_get (au_states s) x)" r])
      (use r run in \<open>auto simp: consumeResult_def currentTime_def split: if_splits option.splits auth_phase.splits\<close>)
qed

lemma step_ok:
  assumes s: "states_ok l s" and l: "auth_limits_ok l"
  shows "states_ok l (snd (auth_step digest l e s))"
proof (cases e)
  case (IssueE ctx ip b now attempts)
  thus ?thesis using issue_ok[OF s] by (auto split: prod.split option.split)
next
  case (ConsumeE x ctx b now)
  obtain res s' where run: "consume digest l x ctx b now s = (res, s')" by fastforce
  have "states_ok l s'" using run
    by (rule consume_cases) (use s delete_ok[OF s] phase_ok[OF s] in \<open>metis\<close>)+
  thus ?thesis using ConsumeE run by (auto split: option.split consumption.split)
next
  case (CompleteE x r now)
  obtain res s' where run: "complete l x r now s = (res, s')" by fastforce
  have "states_ok l s'" using run
    by (rule complete_cases) (use s delete_ok[OF s] phase_ok[OF s] in \<open>metis\<close>)+
  thus ?thesis using CompleteE run by (auto split: option.split bool.split)
next
  case (ResultE x ctx b now)
  obtain res s' where run: "consumeResult digest x ctx b now s = (res, s')" by fastforce
  have "states_ok l s'" using run
    by (rule result_cases) (use s delete_ok[OF s] phase_ok[OF s] in \<open>metis\<close>)+
  thus ?thesis using ResultE run by (auto split: option.split consumption.split)
next
  case ClearE
  have "states_ok l (clear_states s)" using l by (simp add: states_ok_def clear_states_def owner_count_def weight_def auth_limits_ok_def)
  thus ?thesis using ClearE by simp
qed

subsection \<open>Every login once\<close>

text \<open>The login a state is for, and what is due for a state in each phase.\<close>

definition login_of :: "'r auth_state \<Rightarrow> login" where
  "login_of c = (as_state c, as_context c, case as_binding c of SameOriginBinding \<Rightarrow> None | CookieBinding d \<Rightarrow> Some d)"

definition unconsumed :: "'r auth_state \<Rightarrow> login list" where
  "unconsumed c = (if as_phase c = Issued then [login_of c] else [])"

definition unanswered :: "'r auth_state \<Rightarrow> login list" where
  "unanswered c = (if as_phase c = Issued then [] else [login_of c])"

definition unfetched :: "'r auth_state \<Rightarrow> (string \<times> 'r) list" where
  "unfetched c = (case as_phase c of Complete r \<Rightarrow> [(as_state c, r)] | _ \<Rightarrow> [])"

text \<open>The outputs of a run, by their kind.\<close>

fun issued_in :: "'r auth_output \<Rightarrow> login list" where "issued_in (IssuedO a) = [a]" | "issued_in _ = []"
fun consumed_in :: "'r auth_output \<Rightarrow> login list" where "consumed_in (ConsumedO a) = [a]" | "consumed_in _ = []"
fun answered_in :: "'r auth_output \<Rightarrow> login list" where "answered_in (ResultO a r) = [a]" | "answered_in _ = []"
fun completed_in :: "'r auth_output \<Rightarrow> (string \<times> 'r) list" where "completed_in (CompletedO x r) = [(x, r)]" | "completed_in _ = []"
fun fetched_in :: "'r auth_output \<Rightarrow> (string \<times> 'r) list" where "fetched_in (ResultO a r) = [(fst a, r)]" | "fetched_in _ = []"

definition all_of :: "('r auth_output \<Rightarrow> 'a list) \<Rightarrow> 'r auth_output list \<Rightarrow> 'a multiset" where
  "all_of f outs = mset (concat (map f outs))"

lemma all_of_Cons: "all_of f (out # outs) = mset (f out) + all_of f outs"
  by (simp add: all_of_def)

text \<open>What comes out was due or came in.\<close>

definition balanced :: "('r auth_output \<Rightarrow> 'a list) \<Rightarrow> ('r auth_output \<Rightarrow> 'a list) \<Rightarrow> ('r auth_state \<Rightarrow> 'a list) \<Rightarrow>
    'r auth_store \<Rightarrow> 'r auth_output \<Rightarrow> 'r auth_store \<Rightarrow> bool" where
  "balanced into from due s out s' \<longleftrightarrow> mset (from out) + weight due s' \<subseteq># mset (into out) + weight due s"

definition accounts :: "'r auth_store \<Rightarrow> 'r auth_output \<Rightarrow> 'r auth_store \<Rightarrow> bool" where
  "accounts s out s' \<longleftrightarrow> balanced issued_in consumed_in unconsumed s out s' \<and>
     balanced consumed_in answered_in unanswered s out s' \<and> balanced completed_in fetched_in unfetched s out s'"

lemma ok_map: "states_ok l s \<Longrightarrow> js_map_ok (au_states s)"
  by (simp add: states_ok_def)

lemma weight_delete_le: "states_ok l s \<Longrightarrow> weight f (delete_state x s) \<subseteq># weight f s"
  by (cases "js_get (au_states s) x") (simp_all add: delete_state_def[of _ s] ok_map weight_delete[of s x _ f])

lemma weight_prune_le: "states_ok l s \<Longrightarrow> weight f (pruneExpired now s) \<subseteq># weight f s"
proof -
  have "states_ok l s \<Longrightarrow> weight f (fold (\<lambda>(x, c) s. if now \<ge> as_expiresAt c then delete_state x s else s) xcs s) \<subseteq># weight f s" for xcs
  proof (induction xcs arbitrary: s)
    case (Cons xc xcs)
    obtain x c where "xc = (x, c)" by fastforce
    thus ?case using Cons.IH[OF Cons.prems] Cons.IH[OF delete_ok[OF Cons.prems]] weight_delete_le[OF Cons.prems]
      by (auto intro: subset_mset.order_trans)
  qed simp
  thus "states_ok l s \<Longrightarrow> ?thesis" by (simp add: pruneExpired_def)
qed

lemma balanced_less:
  "states_ok l s \<Longrightarrow> s' = s \<or> s' = delete_state x s \<or> s' = pruneExpired now s \<Longrightarrow> from out = [] \<Longrightarrow> balanced into from due s out s'"
  using weight_delete_le[of l s due x] weight_prune_le[of l s due now]
  by (auto simp: balanced_def intro: subset_mset.order_trans subset_mset.add_increasing)

lemma accounts_less: "states_ok l s \<Longrightarrow> s' = s \<or> s' = delete_state x s \<or> s' = pruneExpired now s \<Longrightarrow> accounts s NothingO s'"
  unfolding accounts_def by (intro conjI balanced_less) simp_all

lemma balanced_delete:
  assumes "states_ok l s" "js_get (au_states s) x = Some c" "mset (from out) \<subseteq># mset (due c)"
  shows "balanced into from due s out (delete_state x s)"
  using assms(3) weight_delete[OF ok_map[OF assms(1)] assms(2), of due]
  by (simp add: balanced_def subset_mset.add_increasing)

lemma balanced_set:
  assumes "states_ok l s" "js_get (au_states s) x = Some c" "mset (from out) + mset (due c') \<subseteq># mset (into out) + mset (due c)"
  shows "balanced into from due s out (s\<lparr>au_states := js_set x c' (au_states s)\<rparr>)"
proof -
  let ?w = "weight due (s\<lparr>au_states := js_set x c' (au_states s)\<rparr>)"
  have "?w + mset (due c) = weight due s + mset (due c')" by (rule weight_set[OF ok_map[OF assms(1)] assms(2)])
  hence "mset (from out) + ?w + mset (due c) = weight due s + (mset (from out) + mset (due c'))" by (simp add: add.assoc add.left_commute)
  also have "\<dots> \<subseteq># weight due s + (mset (into out) + mset (due c))" using assms(3) by simp
  finally show ?thesis by (simp add: balanced_def ac_simps)
qed

text \<open>The browser that matches is the one the login is bound to.\<close>

lemma presented_login:
  "states_ok l s \<Longrightarrow> js_get (au_states s) x = Some c \<Longrightarrow> matchesBrowserBinding digest c b \<Longrightarrow>
   presented digest x (as_context c) b = login_of c"
  using entry_at[of l s x c]
  by (auto simp: presented_def login_of_def entry_ok_def matchesBrowserBinding_def split: browser_binding.splits option.splits)

lemma issue_accounts:
  assumes s: "states_ok l s" and run: "issue digest l ctx ip b now attempts s = (Some c, s')"
  shows "accounts s (IssuedO (presented digest (as_state c) ctx b)) s'"
  using run
proof (cases rule: issue_cases)
  case (issued x c')
  have c: "c' = c" "as_state c = x" using issued by (auto simp: entry_ok_def)
  have login: "presented digest x ctx b = login_of c" using issued c by (auto simp: presented_def login_of_def)
  have w: "weight unconsumed s' = weight unconsumed (pruneExpired now s) + {#login_of c#}"
    "weight unanswered s' = weight unanswered (pruneExpired now s)" "weight unfetched s' = weight unfetched (pruneExpired now s)"
    unfolding issued(2) weight_new[OF ok_map[OF prune_ok[OF s]] issued(3)] using c issued(7)
    by (simp_all add: unconsumed_def unanswered_def unfetched_def)
  show ?thesis using w weight_prune_le[OF s, of unconsumed now] weight_prune_le[OF s, of unanswered now] weight_prune_le[OF s, of unfetched now]
    by (simp add: accounts_def balanced_def c(2) login)
qed simp

lemma consume_accounts:
  assumes s: "states_ok l s" and run: "consume digest l x ctx b now s = (Some (AcceptedC ip), s')"
  shows "accounts s (ConsumedO (presented digest x ctx b)) s'"
  using run
proof (cases rule: consume_cases)
  case (accepted c e)
  have "presented digest x ctx b = login_of c" using presented_login[OF s accepted(1,5)] accepted(4) by simp
  thus ?thesis unfolding accounts_def accepted(6)
    by (intro conjI balanced_set[OF s accepted(1)])
      (simp_all add: accepted(3) unconsumed_def unanswered_def unfetched_def login_of_def)
qed simp

lemma complete_accounts:
  assumes s: "states_ok l s" and run: "complete l x r now s = (Some True, s')"
  shows "accounts s (CompletedO x r) s'"
  using run
proof (cases rule: complete_cases)
  case same
  show ?thesis unfolding accounts_def
    by (intro conjI balanced_less[OF s, where x = x]) (use same in simp_all)
next
  case (kept c e)
  show ?thesis unfolding accounts_def kept(4)
    using entry_at[OF s kept(1)]
    by (intro conjI balanced_set[OF s kept(1)])
      (simp_all add: kept(3) unconsumed_def unanswered_def unfetched_def login_of_def entry_ok_def)
qed simp

lemma result_accounts:
  assumes s: "states_ok l s" and run: "consumeResult digest x ctx b now s = (Some (AcceptedC r), s')"
  shows "accounts s (ResultO (presented digest x ctx b) r) s'"
  using run
proof (cases rule: result_cases)
  case (accepted c r')
  have login: "presented digest x ctx b = login_of c" using presented_login[OF s accepted(1,5)] accepted(4) by simp
  show ?thesis unfolding accounts_def accepted(6)
    using entry_at[OF s accepted(1)] accepted(2)
    by (intro conjI balanced_delete[OF s accepted(1)])
      (simp_all add: login accepted(3) unconsumed_def unanswered_def unfetched_def login_of_def entry_ok_def)
qed simp

lemma step_accounts:
  assumes s: "states_ok l s"
  shows "accounts s (fst (auth_step digest l e s)) (snd (auth_step digest l e s))"
proof (cases e)
  case (IssueE ctx ip b now attempts)
  obtain res s' where run: "issue digest l ctx ip b now attempts s = (res, s')" by fastforce
  have "accounts s NothingO s'" if "res = None"
    using run by (rule issue_cases) (use that accounts_less[OF s] in \<open>blast\<close>)+
  thus ?thesis using IssueE run issue_accounts[OF s] by (cases res) auto
next
  case (ConsumeE x ctx b now)
  obtain res s' where run: "consume digest l x ctx b now s = (res, s')" by fastforce
  have "accounts s NothingO s'" if "\<forall>ip. res \<noteq> Some (AcceptedC ip)"
    using run by (rule consume_cases) (use that accounts_less[OF s] in \<open>blast\<close>)+
  thus ?thesis using ConsumeE run consume_accounts[OF s] by (auto split: option.split consumption.split)
next
  case (CompleteE x r now)
  obtain res s' where run: "complete l x r now s = (res, s')" by fastforce
  have "accounts s NothingO s'" if "res \<noteq> Some True"
    using run by (rule complete_cases) (use that accounts_less[OF s] in \<open>blast\<close>)+
  thus ?thesis using CompleteE run complete_accounts[OF s] by (auto split: option.split bool.split)
next
  case (ResultE x ctx b now)
  obtain res s' where run: "consumeResult digest x ctx b now s = (res, s')" by fastforce
  have "accounts s NothingO s'" if "\<forall>r. res \<noteq> Some (AcceptedC r)"
    using run by (rule result_cases) (use that accounts_less[OF s] in \<open>blast\<close>)+
  thus ?thesis using ResultE run result_accounts[OF s] by (auto split: option.split consumption.split)
next
  case ClearE
  thus ?thesis by (simp add: accounts_def balanced_def weight_def clear_states_def)
qed

lemma empty_ok: "auth_limits_ok l \<Longrightarrow> states_ok l empty_store"
  by (simp add: states_ok_def empty_store_def owner_count_def weight_def auth_limits_ok_def)

lemma run_ok:
  assumes "auth_limits_ok l"
  shows "states_ok l s \<Longrightarrow> states_ok l (snd (auth_run digest l es s))"
proof (induction es arbitrary: s)
  case (Cons e es)
  obtain a s1 where one: "auth_step digest l e s = (a, s1)" by fastforce
  have "states_ok l s1" using step_ok[OF Cons.prems assms, of digest e] one by simp
  thus ?case using Cons.IH[of s1] one by (auto split: prod.split)
qed simp

lemma balanced_run:
  assumes "\<And>s e. states_ok l s \<Longrightarrow> balanced into out due s (fst (auth_step digest l e s)) (snd (auth_step digest l e s))"
    "states_ok l s" "auth_limits_ok l"
  shows "all_of out (fst (auth_run digest l es s)) + weight due (snd (auth_run digest l es s)) \<subseteq>#
     all_of into (fst (auth_run digest l es s)) + weight due s"
  using assms(2)
proof (induction es arbitrary: s)
  case (Cons e es)
  obtain a s1 where one: "auth_step digest l e s = (a, s1)" by fastforce
  obtain outs s2 where rest: "auth_run digest l es s1 = (outs, s2)" by fastforce
  have later: "all_of out outs + weight due s2 \<subseteq># all_of into outs + weight due s1"
    using Cons.IH[of s1] step_ok[OF Cons.prems assms(3), of digest e] one rest by simp
  have now: "mset (out a) + weight due s1 \<subseteq># mset (into a) + weight due s"
    using assms(1)[OF Cons.prems, of e] one by (simp add: balanced_def)
  have "mset (out a) + (all_of out outs + weight due s2) \<subseteq># mset (out a) + (all_of into outs + weight due s1)" using later by simp
  also have "\<dots> = all_of into outs + (mset (out a) + weight due s1)" by (simp add: ac_simps)
  also have "\<dots> \<subseteq># all_of into outs + (mset (into a) + weight due s)" using now by simp
  finally show ?case using one rest by (simp add: all_of_Cons ac_simps)
qed (simp add: all_of_def)

lemma balanced_empty:
  assumes "\<And>s e. states_ok l s \<Longrightarrow> balanced into out due s (fst (auth_step digest l e s)) (snd (auth_step digest l e s))" "auth_limits_ok l"
  shows "all_of out (fst (auth_run digest l es empty_store)) \<subseteq># all_of into (fst (auth_run digest l es empty_store))"
proof -
  have "weight due empty_store = {#}" by (simp add: weight_def empty_store_def)
  thus ?thesis using balanced_run[OF assms(1) empty_ok[OF assms(2)] assms(2), where es = es]
    by (metis add.right_neutral mset_subset_eq_add_left subset_mset.order_trans)
qed


definition demo_origins :: auth_origins where
  "demo_origins = \<lparr>ao_callbackOrigin = ''https://a'', ao_clientOrigin = ''https://b'', ao_sameOrigin = False\<rparr>"

definition demo_token :: string where
  "demo_token = replicate 64 (CHR ''a'')"

definition auth_demo_limits :: auth_limits where
  "auth_demo_limits = \<lparr>al_maxPending = 2, al_maxPendingPerOwner = 1, al_lifetimeSeconds = 300\<rparr>"

text \<open>A login that is called back twice, completed and fetched twice.\<close>

definition demo_logins :: "nat auth_event list" where
  "demo_logins = [IssueE demo_origins ''1.2.3.4'' (Some demo_token) 100 [demo_token], IssueE demo_origins ''1.2.3.4'' (Some demo_token) 100 [],
     ConsumeE demo_token demo_origins None 101, ConsumeE demo_token demo_origins (Some demo_token) 102,
     ConsumeE demo_token demo_origins (Some demo_token) 103, CompleteE demo_token 7 104,
     ResultE demo_token demo_origins (Some demo_token) 105, ResultE demo_token demo_origins (Some demo_token) 106]"

lemma demo_outputs:
  "fst (auth_run id auth_demo_limits demo_logins empty_store) =
   (let a = (demo_token, demo_origins, Some demo_token) in
     [IssuedO a, NothingO, NothingO, ConsumedO a, NothingO, CompletedO demo_token 7, ResultO a 7, NothingO])"
  by code_simp

lemma auth_demo_limits_ok: "auth_limits_ok auth_demo_limits"
  by code_simp


text \<open>C31. The states of logins stay within their limits: after every sequence of events the store holds at most
  \<^verbatim>\<open>maxPending\<close> states, no two with the same name, and at most \<^verbatim>\<open>maxPendingPerOwner\<close> of them belong to one client
  address, whatever is issued, used, completed, fetched or expires.\<close>

theorem auth_capacity:
  assumes "auth_limits_ok l"
  shows "let states = au_states (snd (auth_run digest l es empty_store)) in
    distinct (map fst states) \<and> int (length states) \<le> al_maxPending l \<and>
    (\<forall>ip. int (length (filter (\<lambda>(_, c). as_owner c = ip) states)) \<le> al_maxPendingPerOwner l)"
proof -
  let ?s = "snd (auth_run digest l es empty_store)"
  have ok: "states_ok l ?s" by (rule run_ok[OF assms empty_ok[OF assms]])
  have "int (length (filter (\<lambda>(_, c). as_owner c = ip) (au_states ?s))) \<le> al_maxPendingPerOwner l" for ip
  proof -
    have "length (concat (map (\<lambda>(_, c). owned ip c) xcs)) = length (filter (\<lambda>(_, c). as_owner c = ip) xcs)" for xcs :: "(string \<times> 'a auth_state) list"
      by (induction xcs) (auto simp: owned_def)
    hence "int (length (filter (\<lambda>(_, c). as_owner c = ip) (au_states ?s))) = owner_count ?s ip"
      using ok by (simp add: weight_def states_ok_def)
    moreover have "owner_count ?s ip \<le> al_maxPendingPerOwner l" using ok unfolding states_ok_def by blast
    ultimately show ?thesis by simp
  qed
  thus ?thesis using ok by (simp add: states_ok_def Let_def)
qed

theorem auth_capacity_witness:
  "let states = au_states (snd (auth_run id auth_demo_limits (take 2 demo_logins) empty_store)) in
    map fst states = [demo_token] \<and> (\<forall>ip. int (length (filter (\<lambda>(_, c). as_owner c = ip) states)) \<le> 1)"
proof -
  have "map fst (au_states (snd (auth_run id auth_demo_limits (take 2 demo_logins) empty_store))) = [demo_token]" by code_simp
  moreover have "al_maxPendingPerOwner auth_demo_limits = 1" by code_simp
  ultimately show ?thesis using auth_capacity[OF auth_demo_limits_ok, of id "take 2 demo_logins"] by (simp only: Let_def simp_thms)
qed

end
