(* ===== verification/Async_Work.thy ===== *)
theory Async_Work
  imports Faucet_Prelude
begin

text \<open>
  \<^verbatim>\<open>src/src/utils/BoundedAsyncWork.ts\<close>: asynchronous work on a runtime that can be replaced (the
  resolvers and workers of the modules).  A generation is a runtime with the operations in flight on
  it; one generation at a time is current.  Generations and operations are referred to by number.
  What outside code does (an operation settles, a disposer settles, a timer fires, a caller starts,
  replaces or stops) is an event, and the events may come in any order.
\<close>

subsection \<open>State\<close>

record work_limits =
  wl_maxInflight :: int
  wl_timeoutMs :: int

datatype work_error = CapacityError | InvalidatedError | TimeoutError | ReentrancyError | OtherError string

record generation =
  g_limits :: work_limits
  g_accepting :: bool
  g_active :: "nat list"
  g_invalidated :: bool
  g_disposer :: bool
  g_drain :: bool

text \<open>An operation: what its controller was aborted with, and which of its promise and its
  cancellation settled first.\<close>

record 'v work_op =
  o_gen :: nat
  o_expiresAt :: int
  o_aborted :: "work_error option"
  o_race :: "(work_error + 'v) option"
  o_delivered :: bool

datatype lifecycle_call = ReplaceCall work_limits "string option" bool | StopCall

text \<open>Where the lifecycle operation in progress waits: for the failed disposal it retries, for the
  disposal and then the operations of the generation it drains (with the replacement, if it has
  one), for the disposal of a replacement it cannot use, or for its own end.\<close>

datatype lifecycle_phase =
    RetryDispose nat lifecycle_call
  | DrainDispose nat "nat option"
  | DrainSettle nat "nat option" bool
  | StagedDispose nat
  | ChangedDispose nat
  | LifecycleEnd "string option"

datatype 'v work_output =
    Created nat
  | DisposeCalled nat
  | DisposeSettled nat bool
  | Refused work_error
  | Delivered nat "work_error + 'v"
  | LifecycleResult "string option"

record 'v work_state =
  bw_gens :: "generation list"
  bw_ops :: "'v work_op list"
  bw_current :: "nat option"
  bw_lifecycle :: "lifecycle_phase option"
  bw_waiting :: "lifecycle_call list"
  bw_failed :: "nat option"
  bw_log :: "'v work_output list"

definition new_work :: "'v work_state" where
  "new_work = \<lparr>bw_gens = [], bw_ops = [], bw_current = None, bw_lifecycle = None, bw_waiting = [], bw_failed = None, bw_log = []\<rparr>"

definition put_out :: "'v work_output \<Rightarrow> 'v work_state \<Rightarrow> 'v work_state" where
  "put_out out w = w\<lparr>bw_log := bw_log w @ [out]\<rparr>"

definition upd_gen :: "nat \<Rightarrow> (generation \<Rightarrow> generation) \<Rightarrow> 'v work_state \<Rightarrow> 'v work_state" where
  "upd_gen g f w = w\<lparr>bw_gens := (bw_gens w)[g := f (bw_gens w ! g)]\<rparr>"

definition upd_op :: "nat \<Rightarrow> ('v work_op \<Rightarrow> 'v work_op) \<Rightarrow> 'v work_state \<Rightarrow> 'v work_state" where
  "upd_op i f w = w\<lparr>bw_ops := (bw_ops w)[i := f (bw_ops w ! i)]\<rparr>"

subsection \<open>Generations\<close>

definition validateLimits :: "work_limits \<Rightarrow> string option" where
  "validateLimits l =
     (if \<not> is_safe_integer (wl_maxInflight l) \<or> wl_maxInflight l < 1 \<or> wl_maxInflight l > 64
      then Some ''asynchronous work maxInflight must be an integer between 1 and 64''
      else if \<not> is_safe_integer (wl_timeoutMs l) \<or> wl_timeoutMs l < 1 \<or> wl_timeoutMs l > 120000
      then Some ''asynchronous work timeoutMs must be an integer between 1 and 120000''
      else None)"

text \<open>\<^verbatim>\<open>stage\<close>; the factory returns a runtime or throws.\<close>

definition stage :: "work_limits \<Rightarrow> string option \<Rightarrow> bool \<Rightarrow> 'v work_state \<Rightarrow> (string + nat) \<times> 'v work_state" where
  "stage l factory disposer w = (case validateLimits l of
      Some e \<Rightarrow> (Inl e, w)
    | None \<Rightarrow> (case factory of
        Some e \<Rightarrow> (Inl e, w)
      | None \<Rightarrow> (let g = length (bw_gens w) in
          (Inr g, put_out (Created g)
            (w\<lparr>bw_gens := bw_gens w @ [\<lparr>g_limits = l, g_accepting = False, g_active = [], g_invalidated = False, g_disposer = disposer, g_drain = False\<rparr>]\<rparr>)))))"

definition activate :: "nat \<Rightarrow> 'v work_state \<Rightarrow> 'v work_state" where
  "activate g w = (upd_gen g (\<lambda>G. G\<lparr>g_accepting := True\<rparr>) w)\<lparr>bw_current := Some g\<rparr>"

definition startWork :: "bool \<Rightarrow> work_limits \<Rightarrow> string option \<Rightarrow> bool \<Rightarrow> 'v work_state \<Rightarrow> 'v work_state" where
  "startWork inside l factory disposer w =
     (if inside then put_out (Refused ReentrancyError) w
      else if bw_current w \<noteq> None \<or> bw_lifecycle w \<noteq> None \<or> bw_failed w \<noteq> None
      then put_out (Refused (OtherError ''cannot start asynchronous work while another generation is present'')) w
      else case stage l factory disposer w of
        (Inl e, w) \<Rightarrow> put_out (Refused (OtherError e)) w
      | (Inr g, w) \<Rightarrow> activate g w)"

subsection \<open>Operations\<close>

text \<open>\<^verbatim>\<open>cancel\<close> of \<^verbatim>\<open>run\<close>: the first reason counts, and it settles the race if the operation did not.\<close>

definition cancel_op :: "work_error \<Rightarrow> 'v work_op \<Rightarrow> 'v work_op" where
  "cancel_op e p = (if o_aborted p \<noteq> None then p
     else p\<lparr>o_aborted := Some e, o_race := (case o_race p of None \<Rightarrow> Some (Inl e) | r \<Rightarrow> r)\<rparr>)"

definition run_work :: "int \<Rightarrow> 'v work_state \<Rightarrow> 'v work_state" where
  "run_work now w = (case bw_current w of
      None \<Rightarrow> put_out (Refused InvalidatedError) w
    | Some g \<Rightarrow> (let G = bw_gens w ! g in
        if \<not> g_accepting G then put_out (Refused InvalidatedError) w
        else if int (length (g_active G)) \<ge> wl_maxInflight (g_limits G) then put_out (Refused CapacityError) w
        else let i = length (bw_ops w);
                 p = \<lparr>o_gen = g, o_expiresAt = now + wl_timeoutMs (g_limits G), o_aborted = None, o_race = None, o_delivered = False\<rparr>;
                 p = (if g_invalidated G then cancel_op InvalidatedError p else p)
          in upd_gen g (\<lambda>G. G\<lparr>g_active := g_active G @ [i]\<rparr>) (w\<lparr>bw_ops := bw_ops w @ [p]\<rparr>)))"

text \<open>The operation settles: it is no longer in flight, and its result counts unless it was cancelled.\<close>

definition operation_settled :: "nat \<Rightarrow> work_error + 'v \<Rightarrow> 'v work_state \<Rightarrow> 'v work_state" where
  "operation_settled i res w =
     (if i < length (bw_ops w) \<and> i \<in> set (g_active (bw_gens w ! o_gen (bw_ops w ! i)))
      then upd_gen (o_gen (bw_ops w ! i)) (\<lambda>G. G\<lparr>g_active := removeAll i (g_active G)\<rparr>)
        (upd_op i (\<lambda>p. p\<lparr>o_race := (case o_race p of None \<Rightarrow> Some res | r \<Rightarrow> r)\<rparr>) w)
      else w)"

definition operation_timeout :: "nat \<Rightarrow> 'v work_state \<Rightarrow> 'v work_state" where
  "operation_timeout i w = (if i < length (bw_ops w) \<and> \<not> o_delivered (bw_ops w ! i) then upd_op i (cancel_op TimeoutError) w else w)"

definition assertGenerationCurrent :: "nat \<Rightarrow> 'v work_state \<Rightarrow> work_error option" where
  "assertGenerationCurrent g w = (if bw_current w \<noteq> Some g \<or> \<not> g_accepting (bw_gens w ! g) then Some InvalidatedError else None)"

text \<open>\<^verbatim>\<open>context.assertActive\<close>: the error it throws.\<close>

definition assertActive :: "nat \<Rightarrow> int \<Rightarrow> 'v work_state \<Rightarrow> work_error option \<times> 'v work_state" where
  "assertActive i now w = (let
      w = (if o_aborted (bw_ops w ! i) = None \<and> now \<ge> o_expiresAt (bw_ops w ! i) then upd_op i (cancel_op TimeoutError) w else w)
    in (case o_aborted (bw_ops w ! i) of
          Some e \<Rightarrow> Some e
        | None \<Rightarrow> assertGenerationCurrent (o_gen (bw_ops w ! i)) w, w))"

text \<open>The caller of \<^verbatim>\<open>run\<close> is told the result.\<close>

definition deliver :: "nat \<Rightarrow> int \<Rightarrow> 'v work_state \<Rightarrow> 'v work_state" where
  "deliver i now w =
     (if i < length (bw_ops w) \<and> \<not> o_delivered (bw_ops w ! i)
      then case o_race (bw_ops w ! i) of
          None \<Rightarrow> w
        | Some res \<Rightarrow> (case assertActive i now w of (thrown, w) \<Rightarrow>
            put_out (Delivered i (case thrown of Some e \<Rightarrow> Inl e | None \<Rightarrow> res)) (upd_op i (\<lambda>p. p\<lparr>o_delivered := True\<rparr>) w))
      else w)"

subsection \<open>Lifecycle\<close>

definition lifecycle_at :: "lifecycle_phase \<Rightarrow> 'v work_state \<Rightarrow> 'v work_state" where
  "lifecycle_at p w = w\<lparr>bw_lifecycle := Some p\<rparr>"

definition begin_dispose :: "nat \<Rightarrow> lifecycle_phase \<Rightarrow> 'v work_state \<Rightarrow> 'v work_state" where
  "begin_dispose g p w = lifecycle_at p (put_out (DisposeCalled g) w)"

text \<open>What follows the drain in \<^verbatim>\<open>replaceGeneration\<close> and \<^verbatim>\<open>stopCurrent\<close>.\<close>

definition drained :: "nat \<Rightarrow> nat option \<Rightarrow> 'v work_state \<Rightarrow> 'v work_state" where
  "drained g staged w = (case staged of
      None \<Rightarrow> lifecycle_at (LifecycleEnd None) (if bw_current w = Some g then w\<lparr>bw_current := None\<rparr> else w)
    | Some s \<Rightarrow>
        if bw_current w \<noteq> Some g then begin_dispose s (ChangedDispose s) w
        else lifecycle_at (LifecycleEnd None) (activate s w))"

definition drain_failed :: "nat \<Rightarrow> nat option \<Rightarrow> 'v work_state \<Rightarrow> 'v work_state" where
  "drain_failed g staged w = (let w = upd_gen g (\<lambda>G. G\<lparr>g_drain := False\<rparr>) w in case staged of
      None \<Rightarrow> lifecycle_at (LifecycleEnd (Some ''disposer'')) w
    | Some s \<Rightarrow> begin_dispose s (StagedDispose s) w)"

text \<open>\<^verbatim>\<open>drain\<close>; a drain that is found is one that succeeded, since one in progress belongs to the
  lifecycle operation in progress, of which there is one.\<close>

definition drain :: "nat \<Rightarrow> nat option \<Rightarrow> 'v work_state \<Rightarrow> 'v work_state" where
  "drain g staged w =
     (if g_drain (bw_gens w ! g) then drained g staged w
      else let w = upd_gen g (\<lambda>G. G\<lparr>g_accepting := False, g_invalidated := True, g_drain := True\<rparr>) w;
               w = w\<lparr>bw_ops := map (\<lambda>p. if o_gen p = g \<and> \<not> o_delivered p then cancel_op InvalidatedError p else p) (bw_ops w)\<rparr>
        in begin_dispose g (DrainDispose g staged) w)"

definition perform_call :: "lifecycle_call \<Rightarrow> 'v work_state \<Rightarrow> 'v work_state" where
  "perform_call call w = (case call of
      StopCall \<Rightarrow> (case bw_current w of
          None \<Rightarrow> lifecycle_at (LifecycleEnd None) w
        | Some g \<Rightarrow> drain g None w)
    | ReplaceCall l factory disposer \<Rightarrow> (case stage l factory disposer w of
          (Inl e, w) \<Rightarrow> lifecycle_at (LifecycleEnd (Some e)) w
        | (Inr s, w) \<Rightarrow> (case bw_current w of
            None \<Rightarrow> lifecycle_at (LifecycleEnd None) (activate s w)
          | Some g \<Rightarrow> drain g (Some s) w)))"

definition runAfterFailedStagedCleanup :: "lifecycle_call \<Rightarrow> 'v work_state \<Rightarrow> 'v work_state" where
  "runAfterFailedStagedCleanup call w = (case bw_failed w of
      None \<Rightarrow> perform_call call w
    | Some f \<Rightarrow> begin_dispose f (RetryDispose f call) w)"

text \<open>A call that finds a lifecycle operation in progress waits for its end and tries again.\<close>

definition runLifecycle :: "lifecycle_call \<Rightarrow> 'v work_state \<Rightarrow> 'v work_state" where
  "runLifecycle call w = (if bw_lifecycle w \<noteq> None then w\<lparr>bw_waiting := bw_waiting w @ [call]\<rparr>
     else runAfterFailedStagedCleanup call w)"

definition lifecycle_call_made :: "bool \<Rightarrow> lifecycle_call \<Rightarrow> 'v work_state \<Rightarrow> 'v work_state" where
  "lifecycle_call_made inside call w = (if inside then put_out (Refused ReentrancyError) w else runLifecycle call w)"

definition resume_call :: "nat \<Rightarrow> 'v work_state \<Rightarrow> 'v work_state" where
  "resume_call i w = (if i < length (bw_waiting w) \<and> bw_lifecycle w = None
     then runLifecycle (bw_waiting w ! i) (w\<lparr>bw_waiting := take i (bw_waiting w) @ drop (Suc i) (bw_waiting w)\<rparr>) else w)"

text \<open>The disposer that is awaited settles; without a disposer nothing can fail.\<close>

definition disposal_settled :: "bool \<Rightarrow> 'v work_state \<Rightarrow> 'v work_state" where
  "disposal_settled res w = (case bw_lifecycle w of
      Some (RetryDispose f call) \<Rightarrow> (let ok = (res \<or> \<not> g_disposer (bw_gens w ! f)); w = put_out (DisposeSettled f ok) w in
        if ok then perform_call call (if bw_failed w = Some f then w\<lparr>bw_failed := None\<rparr> else w)
        else lifecycle_at (LifecycleEnd (Some ''failed to drain the previous runtime and dispose its staged replacement'')) w)
    | Some (DrainDispose g staged) \<Rightarrow> (let ok = (res \<or> \<not> g_disposer (bw_gens w ! g)) in
        lifecycle_at (DrainSettle g staged (\<not> ok)) (put_out (DisposeSettled g ok) w))
    | Some (StagedDispose s) \<Rightarrow> (let ok = (res \<or> \<not> g_disposer (bw_gens w ! s)); w = put_out (DisposeSettled s ok) w in
        if ok then lifecycle_at (LifecycleEnd (Some ''disposer'')) w
        else lifecycle_at (LifecycleEnd (Some ''failed to drain the previous runtime and dispose its staged replacement'')) (w\<lparr>bw_failed := Some s\<rparr>))
    | Some (ChangedDispose s) \<Rightarrow> (let ok = (res \<or> \<not> g_disposer (bw_gens w ! s)) in
        lifecycle_at (LifecycleEnd (Some (if ok then ''asynchronous work generation changed during replacement'' else ''disposer'')))
          (put_out (DisposeSettled s ok) w))
    | _ \<Rightarrow> w)"

text \<open>\<^verbatim>\<open>Promise.allSettled\<close> over the operations that were in flight.\<close>

definition operations_settled :: "'v work_state \<Rightarrow> 'v work_state" where
  "operations_settled w = (case bw_lifecycle w of
      Some (DrainSettle g staged failed) \<Rightarrow>
        if g_active (bw_gens w ! g) \<noteq> [] then w else if failed then drain_failed g staged w else drained g staged w
    | _ \<Rightarrow> w)"

definition lifecycle_ends :: "'v work_state \<Rightarrow> 'v work_state" where
  "lifecycle_ends w = (case bw_lifecycle w of
      Some (LifecycleEnd res) \<Rightarrow> put_out (LifecycleResult res) (w\<lparr>bw_lifecycle := None\<rparr>)
    | _ \<Rightarrow> w)"

definition getInflightCount :: "'v work_state \<Rightarrow> nat" where
  "getInflightCount w = (case bw_current w of None \<Rightarrow> 0 | Some g \<Rightarrow> length (g_active (bw_gens w ! g)))"

definition currentMatches :: "(nat \<Rightarrow> bool) \<Rightarrow> 'v work_state \<Rightarrow> bool" where
  "currentMatches matches w = (case bw_current w of None \<Rightarrow> False | Some g \<Rightarrow> g_accepting (bw_gens w ! g) \<and> matches g)"

subsection \<open>Runs\<close>

datatype 'v work_event =
    StartW bool work_limits "string option" bool
  | RunW int
  | SettleW nat "work_error + 'v"
  | TimeoutW nat
  | AssertW nat int
  | DeliverW nat int
  | CallW bool lifecycle_call
  | ResumeW nat
  | DisposedW bool
  | SettledW
  | EndW

fun work_step :: "'v work_event \<Rightarrow> 'v work_state \<Rightarrow> 'v work_state" where
  "work_step (StartW inside l factory disposer) w = startWork inside l factory disposer w"
| "work_step (RunW now) w = run_work now w"
| "work_step (SettleW i res) w = operation_settled i res w"
| "work_step (TimeoutW i) w = operation_timeout i w"
| "work_step (AssertW i now) w = (if i < length (bw_ops w) then snd (assertActive i now w) else w)"
| "work_step (DeliverW i now) w = deliver i now w"
| "work_step (CallW inside call) w = lifecycle_call_made inside call w"
| "work_step (ResumeW i) w = resume_call i w"
| "work_step (DisposedW res) w = disposal_settled res w"
| "work_step SettledW w = operations_settled w"
| "work_step EndW w = lifecycle_ends w"

definition work_run :: "'v work_event list \<Rightarrow> 'v work_state \<Rightarrow> 'v work_state" where
  "work_run es w = fold work_step es w"

subsection \<open>One generation at a time\<close>

text \<open>The replacement that the lifecycle operation holds, the generation it drains, and the one it
  has disposed of while operations are still in flight on it.\<close>

definition staged_in :: "lifecycle_phase option \<Rightarrow> nat option" where
  "staged_in p = (case p of Some (DrainDispose g s) \<Rightarrow> s | Some (DrainSettle g s b) \<Rightarrow> s | Some (StagedDispose s) \<Rightarrow> Some s
     | Some (ChangedDispose s) \<Rightarrow> Some s | _ \<Rightarrow> None)"

definition drained_in :: "lifecycle_phase option \<Rightarrow> nat option" where
  "drained_in p = (case p of Some (DrainDispose g s) \<Rightarrow> Some g | Some (DrainSettle g s b) \<Rightarrow> Some g | _ \<Rightarrow> None)"

definition settled_in :: "lifecycle_phase option \<Rightarrow> nat option" where
  "settled_in p = (case p of Some (DrainSettle g s False) \<Rightarrow> Some g | _ \<Rightarrow> None)"

definition disposals :: "nat \<Rightarrow> 'v work_output list \<Rightarrow> nat" where
  "disposals g outs = length (filter (\<lambda>out. out = DisposeSettled g True) outs)"

definition held :: "nat option \<Rightarrow> nat option \<Rightarrow> lifecycle_phase option \<Rightarrow> nat option \<Rightarrow> nat \<Rightarrow> bool" where
  "held x cur life failed g \<longleftrightarrow> cur = Some g \<or> staged_in life = Some g \<or> failed = Some g \<or> x = Some g"

text \<open>A generation that was made is current, staged by the lifecycle operation or kept for another
  attempt at its disposal, and nothing else, or it was disposed of, once.  \<open>x\<close> is a replacement between its making
  and its first use.\<close>

definition gens_ok :: "nat option \<Rightarrow> nat \<Rightarrow> nat option \<Rightarrow> lifecycle_phase option \<Rightarrow> nat option \<Rightarrow> (nat \<Rightarrow> nat) \<Rightarrow> bool" where
  "gens_ok x n cur life failed disposed \<longleftrightarrow>
     (\<forall>g. held x cur life failed g \<longrightarrow> g < n) \<and>
     (\<forall>g. disposed g = (if g < n \<and> (\<not> held x cur life failed g \<or> settled_in life = Some g) then 1 else 0)) \<and>
     (\<forall>s. staged_in life = Some s \<longrightarrow> cur \<noteq> Some s \<and> failed = None) \<and>
     (\<forall>s. x = Some s \<longrightarrow> cur \<noteq> Some s \<and> staged_in life = None \<and> drained_in life = None \<and> failed = None) \<and>
     (\<forall>s. failed = Some s \<longrightarrow> cur \<noteq> Some s \<and> drained_in life = None) \<and>
     (\<forall>g. drained_in life = Some g \<longrightarrow> cur = Some g) \<and>
     (\<forall>f call. life = Some (RetryDispose f call) \<longrightarrow> failed = Some f) \<and> (\<forall>s. life \<noteq> Some (ChangedDispose s))"

text \<open>Only the current generation has operations in flight, and not more than its limit.\<close>

definition active_ok :: "nat option \<Rightarrow> nat option \<Rightarrow> (nat \<Rightarrow> nat option) \<Rightarrow> nat \<Rightarrow> nat \<Rightarrow> generation \<Rightarrow> bool" where
  "active_ok cur draining gen_of disposed g G \<longleftrightarrow> validateLimits (g_limits G) = None \<and> int (length (g_active G)) \<le> wl_maxInflight (g_limits G) \<and>
     distinct (g_active G) \<and> (\<forall>i \<in> set (g_active G). gen_of i = Some g) \<and> (g_active G \<noteq> [] \<longrightarrow> cur = Some g) \<and>
     (g_accepting G \<longrightarrow> cur = Some g \<and> \<not> g_drain G \<and> \<not> g_invalidated G) \<and> (cur = Some g \<longrightarrow> g_drain G = (draining = Some g)) \<and>
     (cur \<noteq> Some g \<and> (g_drain G \<or> g_invalidated G) \<longrightarrow> disposed > 0)"

definition gen_of :: "'v work_op list \<Rightarrow> nat \<Rightarrow> nat option" where
  "gen_of ops i = (if i < length ops then Some (o_gen (ops ! i)) else None)"

definition async_ok :: "nat option \<Rightarrow> 'v work_state \<Rightarrow> bool" where
  "async_ok x w \<longleftrightarrow>
     gens_ok x (length (bw_gens w)) (bw_current w) (bw_lifecycle w) (bw_failed w) (\<lambda>g. disposals g (bw_log w)) \<and>
     (\<forall>g < length (bw_gens w). active_ok (bw_current w) (drained_in (bw_lifecycle w)) (gen_of (bw_ops w)) (disposals g (bw_log w)) g (bw_gens w ! g))"

lemmas phase_views = staged_in_def drained_in_def settled_in_def

lemma disposals_log [simp]:
  "disposals g (outs @ [out]) = (if out = DisposeSettled g True then disposals g outs + 1 else disposals g outs)"
  by (simp add: disposals_def)

lemma new_work_ok: "async_ok None new_work"
  by (simp add: async_ok_def gens_ok_def held_def new_work_def phase_views disposals_def)

text \<open>Writes that do not touch the generations.\<close>

lemma async_ok_cong:
  assumes "async_ok x w" "bw_gens w' = bw_gens w" "bw_current w' = bw_current w" "bw_lifecycle w' = bw_lifecycle w" "bw_failed w' = bw_failed w"
    "\<And>g. disposals g (bw_log w') = disposals g (bw_log w)" "gen_of (bw_ops w') = gen_of (bw_ops w)"
  shows "async_ok x w'"
  using assms by (simp add: async_ok_def)

lemma gen_of_upd: "o_gen (f (w ! i)) = o_gen (w ! i) \<Longrightarrow> gen_of (w[i := f (w ! i)]) = gen_of w"
  by (rule ext) (cases "i < length w", auto simp: gen_of_def nth_list_update list_update_beyond not_less)

lemma gen_of_map: "(\<And>p. o_gen (f p) = o_gen p) \<Longrightarrow> gen_of (map f ops) = gen_of ops"
  by (rule ext) (simp add: gen_of_def)

lemma cancel_gen [simp]: "o_gen (cancel_op e p) = o_gen p"
  by (simp add: cancel_op_def)

lemma out_ok: "async_ok x w \<Longrightarrow> (\<And>g. out \<noteq> DisposeSettled g True) \<Longrightarrow> async_ok x (put_out out w)"
  by (erule async_ok_cong) (simp_all add: put_out_def)

lemma op_ok: "async_ok x w \<Longrightarrow> (\<And>p. o_gen (f p) = o_gen p) \<Longrightarrow> async_ok x (upd_op i f w)"
  by (erule async_ok_cong) (simp_all add: upd_op_def gen_of_upd)

lemma assert_ok: "async_ok x w \<Longrightarrow> async_ok x (snd (assertActive i now w))"
  by (simp add: assertActive_def Let_def op_ok)

lemma deliver_ok: "async_ok x w \<Longrightarrow> async_ok x (deliver i now w)"
  using assert_ok[of x w i now] by (auto simp: deliver_def split: option.split prod.split intro!: out_ok op_ok)

lemma timeout_ok: "async_ok x w \<Longrightarrow> async_ok x (operation_timeout i w)"
  by (simp add: operation_timeout_def op_ok)

text \<open>A write of one generation.\<close>

lemma gen_ok:
  assumes "async_ok x w" "bw_gens w' = (bw_gens w)[g := G]" "bw_current w' = bw_current w" "bw_lifecycle w' = bw_lifecycle w"
    "bw_failed w' = bw_failed w" "bw_log w' = bw_log w" "\<And>i k. gen_of (bw_ops w) i = Some k \<Longrightarrow> gen_of (bw_ops w') i = Some k"
    "g < length (bw_gens w) \<Longrightarrow> active_ok (bw_current w) (drained_in (bw_lifecycle w)) (gen_of (bw_ops w')) (disposals g (bw_log w)) g G"
  shows "async_ok x w'"
proof -
  have "active_ok c d (gen_of (bw_ops w')) n h H" if "active_ok c d (gen_of (bw_ops w)) n h H" for c d n h H
    using that assms(7) by (simp add: active_ok_def)
  hence "active_ok (bw_current w) (drained_in (bw_lifecycle w)) (gen_of (bw_ops w')) (disposals h (bw_log w)) h ((bw_gens w)[g := G] ! h)" if "h < length (bw_gens w)" for h
    using that assms(1,8) by (cases "h = g") (simp_all add: async_ok_def)
  thus ?thesis using assms(1-6) by (simp add: async_ok_def)
qed

lemma gen_at: "async_ok x w \<Longrightarrow> g < length (bw_gens w) \<Longrightarrow> active_ok (bw_current w) (drained_in (bw_lifecycle w)) (gen_of (bw_ops w)) (disposals g (bw_log w)) g (bw_gens w ! g)"
  by (simp add: async_ok_def)

lemma current_less: "async_ok x w \<Longrightarrow> bw_current w = Some g \<Longrightarrow> g < length (bw_gens w)"
  by (simp add: async_ok_def gens_ok_def held_def)

lemma run_op_ok:
  assumes w: "async_ok None w"
  shows "async_ok None (run_work now w)"
proof (cases "\<exists>g. bw_current w = Some g \<and> g_accepting (bw_gens w ! g) \<and> int (length (g_active (bw_gens w ! g))) < wl_maxInflight (g_limits (bw_gens w ! g))")
  case True
  then obtain g where g: "bw_current w = Some g" "g_accepting (bw_gens w ! g)" "int (length (g_active (bw_gens w ! g))) < wl_maxInflight (g_limits (bw_gens w ! g))"
    by blast
  let ?G = "bw_gens w ! g" and ?i = "length (bw_ops w)"
  obtain p where run: "run_work now w = upd_gen g (\<lambda>G. G\<lparr>g_active := g_active G @ [?i]\<rparr>) (w\<lparr>bw_ops := bw_ops w @ [p]\<rparr>)" and p: "o_gen p = g"
    using g by (cases "g_invalidated ?G") (simp_all add: run_work_def Let_def)
  have fresh: "gen_of (bw_ops w @ [p]) i = (if i = ?i then Some g else gen_of (bw_ops w) i)" for i
    using p by (auto simp: gen_of_def nth_append)
  have "gen_of (bw_ops w) ?i = None" by (simp add: gen_of_def)
  hence old: "gen_of (bw_ops w) i = Some k \<Longrightarrow> i \<noteq> ?i" for i k by auto
  have "active_ok (bw_current w) (drained_in (bw_lifecycle w)) (gen_of (bw_ops w @ [p])) (disposals g (bw_log w)) g (?G\<lparr>g_active := g_active ?G @ [?i]\<rparr>)"
    using gen_at[OF w current_less[OF w g(1)]] g old by (auto simp: active_ok_def fresh)
  thus ?thesis unfolding run upd_gen_def
    by (intro gen_ok[OF w, where g = g]) (use old in \<open>auto simp: fresh\<close>)
next
  case False
  thus ?thesis using w by (auto simp: run_work_def Let_def not_le intro!: out_ok split: option.split)
qed

lemma settled_ok:
  assumes w: "async_ok None w"
  shows "async_ok None (operation_settled i res w)"
proof (cases "i < length (bw_ops w) \<and> i \<in> set (g_active (bw_gens w ! o_gen (bw_ops w ! i)))")
  case True
  let ?g = "o_gen (bw_ops w ! i)" and ?f = "\<lambda>p. p\<lparr>o_race := (case o_race p of None \<Rightarrow> Some res | r \<Rightarrow> r)\<rparr>"
  have ops: "gen_of ((bw_ops w)[i := ?f (bw_ops w ! i)]) = gen_of (bw_ops w)" by (rule gen_of_upd) simp
  have "active_ok c d h n g (G\<lparr>g_active := removeAll i (g_active G)\<rparr>)" if "active_ok c d h n g G" for c d h n g G
  proof -
    have "int (length (removeAll i (g_active G))) \<le> wl_maxInflight (g_limits G)"
      using that unfolding active_ok_def by (meson length_removeAll_less_eq of_nat_mono order_trans)
    moreover have "removeAll i (g_active G) \<noteq> [] \<Longrightarrow> g_active G \<noteq> []" by auto
    ultimately show ?thesis using that by (auto simp: active_ok_def distinct_removeAll)
  qed
  thus ?thesis using True gen_at[OF w, of ?g] ops
    by (simp add: operation_settled_def upd_gen_def upd_op_def) (rule gen_ok[OF w, where g = ?g and G = "(bw_gens w ! ?g)\<lparr>g_active := removeAll i (g_active (bw_gens w ! ?g))\<rparr>"]; simp)
qed (use w in \<open>auto simp: operation_settled_def\<close>)

text \<open>A step of the lifecycle operation that leaves the generations alone.\<close>

lemma at_phase_ok:
  assumes "async_ok x w" "bw_gens w' = bw_gens w" "bw_current w' = bw_current w" "gen_of (bw_ops w') = gen_of (bw_ops w)"
    "drained_in (bw_lifecycle w') = drained_in (bw_lifecycle w)" "\<And>g. disposals g (bw_log w) \<le> disposals g (bw_log w')"
    "gens_ok y (length (bw_gens w)) (bw_current w) (bw_lifecycle w') (bw_failed w') (\<lambda>g. disposals g (bw_log w'))"
  shows "async_ok y w'"
proof -
  have "active_ok c d h m g G" if "active_ok c d h n g G" "n \<le> m" for c d h n m g G using that by (auto simp: active_ok_def)
  thus ?thesis using assms by (auto simp: async_ok_def)
qed

lemma settled_drained: "settled_in p = Some g \<Longrightarrow> drained_in p = Some g"
  by (auto simp: phase_views split: option.splits lifecycle_phase.splits bool.splits)

lemma gens_heldD: "gens_ok x n c p f d \<Longrightarrow> held x c p f g \<Longrightarrow> g < n"
  and gens_disposedD: "gens_ok x n c p f d \<Longrightarrow> d g = (if g < n \<and> (\<not> held x c p f g \<or> settled_in p = Some g) then 1 else 0)"
  and gens_stagedD: "gens_ok x n c p f d \<Longrightarrow> staged_in p = Some s \<Longrightarrow> c \<noteq> Some s \<and> f = None"
  and gens_newD: "gens_ok (Some s) n c p f d \<Longrightarrow> c \<noteq> Some s \<and> staged_in p = None \<and> drained_in p = None \<and> f = None"
  and gens_failedD: "gens_ok x n c p (Some s) d \<Longrightarrow> c \<noteq> Some s \<and> drained_in p = None"
  and gens_drainedD: "gens_ok x n c p f d \<Longrightarrow> drained_in p = Some g \<Longrightarrow> c = Some g"
  by (simp_all add: gens_ok_def)

lemma gens_settledD: "gens_ok x n c p f d \<Longrightarrow> settled_in p = Some g \<Longrightarrow> c = Some g"
  by (meson settled_drained gens_drainedD)

lemma limits_range: "validateLimits l = None \<Longrightarrow> 1 \<le> wl_maxInflight l \<and> wl_maxInflight l \<le> 64"
  by (auto simp: validateLimits_def split: if_splits)

lemma stage_ok:
  assumes w: "async_ok None w" "bw_failed w = None" "staged_in (bw_lifecycle w) = None" "drained_in (bw_lifecycle w) = None"
    and run: "stage l factory disposer w = (res, w')"
  shows "(\<exists>e. res = Inl e \<and> w' = w) \<or> (\<exists>s. res = Inr s \<and> async_ok (Some s) w' \<and> bw_current w' = bw_current w \<and>
    bw_lifecycle w' = bw_lifecycle w \<and> bw_failed w' = None)"
proof (cases "validateLimits l = None \<and> factory = None")
  case True
  let ?s = "length (bw_gens w)"
  let ?G = "\<lparr>g_limits = l, g_accepting = False, g_active = [], g_invalidated = False, g_disposer = disposer, g_drain = False\<rparr>"
  have w': "res = Inr ?s" "w' = put_out (Created ?s) (w\<lparr>bw_gens := bw_gens w @ [?G]\<rparr>)"
    using run True by (auto simp: stage_def Let_def)
  have g: "gens_ok None ?s (bw_current w) (bw_lifecycle w) None (\<lambda>g. disposals g (bw_log w))" using w by (simp add: async_ok_def)
  have none: "\<not> held None (bw_current w) (bw_lifecycle w) None ?s" using gens_heldD[OF g] by blast
  have "settled_in (bw_lifecycle w) \<noteq> Some h" for h using settled_drained[of "bw_lifecycle w" h] w(4) by auto
  hence "gens_ok (Some ?s) (Suc ?s) (bw_current w) (bw_lifecycle w) None (\<lambda>g. disposals g (bw_log w))"
    using g none w(3,4) unfolding gens_ok_def by (auto simp: held_def less_Suc_eq)
  moreover have "active_ok (bw_current w) (drained_in (bw_lifecycle w)) (gen_of (bw_ops w)) n ?s ?G" for n
    using True none w(4) limits_range[of l] by (auto simp: active_ok_def held_def)
  ultimately show ?thesis using w w' by (auto simp: async_ok_def put_out_def nth_append less_Suc_eq)
qed (use run in \<open>auto simp: stage_def split: option.splits\<close>)

lemma at_rest:
  assumes "p = None \<or> (\<exists>e. p = Some (LifecycleEnd e))"
  shows "staged_in p = None" "drained_in p = None" "settled_in p = None" "\<forall>f call. p \<noteq> Some (RetryDispose f call)" "\<forall>s. p \<noteq> Some (ChangedDispose s)"
  using assms by (auto simp: phase_views)

text \<open>A replacement becomes current: there is no other, or the other one is drained.\<close>

lemma activate_ok:
  assumes w: "async_ok x w" and x: "x = Some s \<and> bw_current w = None \<or>
      x = None \<and> staged_in (bw_lifecycle w) = Some s \<and> bw_current w = Some g \<and> g_active (bw_gens w ! g) = [] \<and>
      \<not> g_accepting (bw_gens w ! g) \<and> settled_in (bw_lifecycle w) = Some g"
    and rest: "p = None \<or> (\<exists>e. p = Some (LifecycleEnd e))"
  shows "async_ok None ((activate s w)\<lparr>bw_lifecycle := p\<rparr>)"
proof -
  note p = at_rest[OF rest]
  let ?n = "length (bw_gens w)" and ?d = "\<lambda>g. disposals g (bw_log w)"
  have g: "gens_ok x ?n (bw_current w) (bw_lifecycle w) (bw_failed w) ?d" using w by (simp add: async_ok_def)
  have held: "held x (bw_current w) (bw_lifecycle w) (bw_failed w) s" using x by (auto simp: held_def)
  have s: "s < ?n" "bw_current w \<noteq> Some s" "bw_failed w = None"
    using gens_heldD[OF g held] x g gens_stagedD[OF g] gens_newD by auto
  have "?d s = 0" using gens_disposedD[OF g, of s] held s(2) gens_settledD[OF g, of s] by auto
  hence S: "g_drain (bw_gens w ! s) = False" "g_invalidated (bw_gens w ! s) = False" "g_active (bw_gens w ! s) = []"
    using gen_at[OF w s(1)] s(2) by (auto simp: active_ok_def)
  have old: "held x (bw_current w) (bw_lifecycle w) (bw_failed w) h \<and> settled_in (bw_lifecycle w) \<noteq> Some h \<longleftrightarrow> h = s" for h
    using x s gens_newD[of s ?n "bw_current w" "bw_lifecycle w" "bw_failed w" ?d] g gens_settledD[OF g, of h] settled_drained[of "bw_lifecycle w" h]
    by (auto simp: held_def)
  have gens: "gens_ok None ?n (Some s) p (bw_failed w) ?d"
    using gens_disposedD[OF g] old s p unfolding gens_ok_def by (auto simp: held_def)
  have "active_ok (Some s) None (gen_of (bw_ops w)) (disposals h (bw_log w)) h ((bw_gens w)[s := (bw_gens w ! s)\<lparr>g_accepting := True\<rparr>] ! h)"
    if h: "h < ?n" for h
  proof (cases "h = s")
    case True
    thus ?thesis using gen_at[OF w h] S s(1) by (simp add: active_ok_def)
  next
    case False
    have "?d h = 1" using gens_disposedD[OF g, of h] old[of h] False h by auto
    moreover have "g_active (bw_gens w ! h) = [] \<and> \<not> g_accepting (bw_gens w ! h)" using gen_at[OF w h] x by (auto simp: active_ok_def)
    ultimately show ?thesis using gen_at[OF w h] False by (simp add: active_ok_def)
  qed
  thus ?thesis using gens p by (simp add: async_ok_def activate_def upd_gen_def)
qed

text \<open>The current generation is stopped.\<close>

lemma stopped_ok:
  assumes w: "async_ok None w" and x: "bw_current w = Some g" "g_active (bw_gens w ! g) = []" "\<not> g_accepting (bw_gens w ! g)"
      "settled_in (bw_lifecycle w) = Some g" "staged_in (bw_lifecycle w) = None"
    and rest: "p = None \<or> (\<exists>e. p = Some (LifecycleEnd e))"
  shows "async_ok None (w\<lparr>bw_current := None, bw_lifecycle := p\<rparr>)"
proof -
  note p = at_rest[OF rest]
  let ?n = "length (bw_gens w)" and ?d = "\<lambda>g. disposals g (bw_log w)"
  have g: "gens_ok None ?n (bw_current w) (bw_lifecycle w) (bw_failed w) ?d" using w by (simp add: async_ok_def)
  have f: "bw_failed w = None" using gens_failedD[of None ?n "bw_current w" "bw_lifecycle w" _ ?d] g settled_drained[OF x(4)] by (cases "bw_failed w") auto
  have one: "?d h = (if h < ?n then 1 else 0)" for h
    using gens_disposedD[OF g, of h] x(1,4,5) f by (auto simp: held_def)
  hence "gens_ok None ?n None p (bw_failed w) ?d" using p f unfolding gens_ok_def by (auto simp: held_def)
  moreover have "active_ok None None (gen_of (bw_ops w)) (disposals h (bw_log w)) h (bw_gens w ! h)" if h: "h < ?n" for h
    using gen_at[OF w h] x one[of h] h by (cases "h = g") (auto simp: active_ok_def)
  ultimately show ?thesis using p by (simp add: async_ok_def)
qed

lemma end_views [simp]:
  "staged_in (Some (LifecycleEnd e)) = None" "drained_in (Some (LifecycleEnd e)) = None" "settled_in (Some (LifecycleEnd e)) = None"
  by (simp_all add: phase_views)

lemma drained_ok:
  assumes w: "async_ok None w" and l: "bw_lifecycle w = Some (DrainSettle g staged False)" and a: "g_active (bw_gens w ! g) = []"
  shows "async_ok None (drained g staged w)"
proof -
  have v: "drained_in (bw_lifecycle w) = Some g" "settled_in (bw_lifecycle w) = Some g" "staged_in (bw_lifecycle w) = staged"
    using l by (simp_all add: phase_views)
  have cur: "bw_current w = Some g" using w v(1) unfolding async_ok_def by (meson gens_drainedD)
  have acc: "\<not> g_accepting (bw_gens w ! g)" using gen_at[OF w current_less[OF w cur]] cur v(1) by (auto simp: active_ok_def)
  show ?thesis
  proof (cases staged)
    case None
    thus ?thesis using stopped_ok[OF w cur a acc v(2), of "Some (LifecycleEnd None)"] v(3) cur
      by (simp add: drained_def lifecycle_at_def)
  next
    case (Some s)
    thus ?thesis using activate_ok[OF w, of s g "Some (LifecycleEnd None)"] v cur acc a
      by (simp add: drained_def lifecycle_at_def)
  qed
qed

text \<open>A drain that failed leaves the generation current, for another attempt.\<close>

lemma drain_failed_ok:
  assumes w: "async_ok None w" and l: "bw_lifecycle w = Some (DrainSettle g staged True)"
  shows "async_ok None (drain_failed g staged w)"
proof -
  let ?n = "length (bw_gens w)" and ?d = "\<lambda>g. disposals g (bw_log w)"
  have v: "drained_in (bw_lifecycle w) = Some g" "settled_in (bw_lifecycle w) = None" "staged_in (bw_lifecycle w) = staged"
    using l by (simp_all add: phase_views)
  have g: "gens_ok None ?n (bw_current w) (bw_lifecycle w) (bw_failed w) ?d" using w by (simp add: async_ok_def)
  have cur: "bw_current w = Some g" using gens_drainedD[OF g v(1)] .
  let ?p = "Some (case staged of None \<Rightarrow> LifecycleEnd (Some ''disposer'') | Some s \<Rightarrow> StagedDispose s)"
  have p: "staged_in ?p = staged" "drained_in ?p = None" "settled_in ?p = None" by (simp_all add: phase_views split: option.split)
  have "gens_ok None ?n (bw_current w) ?p (bw_failed w) ?d"
    using g v p unfolding gens_ok_def by (auto simp: held_def split: option.splits)
  moreover have "active_ok (bw_current w) None (gen_of (bw_ops w)) (disposals h (bw_log w)) h ((bw_gens w)[g := (bw_gens w ! g)\<lparr>g_drain := False\<rparr>] ! h)"
    if h: "h < ?n" for h
    using gen_at[OF w h] cur v(1) h by (cases "h = g") (auto simp: active_ok_def)
  ultimately show ?thesis using p
    by (cases staged) (simp_all add: drain_failed_def Let_def async_ok_def lifecycle_at_def begin_dispose_def put_out_def upd_gen_def)
qed

text \<open>A drain begins.\<close>

lemma drain_ok:
  assumes w: "async_ok x w" and cur: "bw_current w = Some g" and l: "drained_in (bw_lifecycle w) = None" "staged_in (bw_lifecycle w) = None" "bw_failed w = None"
  shows "async_ok None (drain g x w)"
proof -
  let ?n = "length (bw_gens w)" and ?d = "\<lambda>g. disposals g (bw_log w)"
  have g: "gens_ok x ?n (bw_current w) (bw_lifecycle w) (bw_failed w) ?d" using w by (simp add: async_ok_def)
  have no: "\<not> g_drain (bw_gens w ! g)" using gen_at[OF w current_less[OF w cur]] cur l(1) by (simp add: active_ok_def)
  let ?ops = "map (\<lambda>p. if o_gen p = g \<and> \<not> o_delivered p then cancel_op InvalidatedError p else p) (bw_ops w)"
  let ?p = "Some (DrainDispose g x)"
  have p: "staged_in ?p = x" "drained_in ?p = Some g" "settled_in ?p = None" by (simp_all add: phase_views)
  have ops: "gen_of ?ops = gen_of (bw_ops w)" by (rule gen_of_map) simp
  have none: "settled_in (bw_lifecycle w) \<noteq> Some h" for h using settled_drained[of "bw_lifecycle w" h] l(1) by auto
  have "gens_ok None ?n (bw_current w) ?p (bw_failed w) ?d"
    using g l cur p none unfolding gens_ok_def by (auto simp: held_def)
  moreover have "active_ok (bw_current w) (Some g) (gen_of (bw_ops w)) (disposals h (bw_log w)) h
      ((bw_gens w)[g := (bw_gens w ! g)\<lparr>g_accepting := False, g_invalidated := True, g_drain := True\<rparr>] ! h)"
    if h: "h < ?n" for h
    using gen_at[OF w h] cur l(1) h by (cases "h = g") (auto simp: active_ok_def)
  ultimately show ?thesis using no p ops
    by (simp add: drain_def Let_def async_ok_def lifecycle_at_def begin_dispose_def put_out_def upd_gen_def)
qed

lemma none_views [simp]: "staged_in None = None" "drained_in None = None" "settled_in None = None"
  by (simp_all add: phase_views)

lemma perform_call_ok:
  assumes w: "async_ok None w" "bw_failed w = None" "bw_lifecycle w = None"
  shows "async_ok None (perform_call call w)"
proof (cases call)
  case StopCall
  show ?thesis
  proof (cases "bw_current w")
    case None
    have "async_ok None (lifecycle_at (LifecycleEnd None) w)"
      by (rule at_phase_ok[OF w(1)]) (use w in \<open>simp_all add: lifecycle_at_def async_ok_def gens_ok_def held_def\<close>)
    thus ?thesis using StopCall None by (simp add: perform_call_def)
  next
    case (Some g)
    thus ?thesis using StopCall drain_ok[OF w(1) Some] w by (simp add: perform_call_def)
  qed
next
  case (ReplaceCall l factory disposer)
  obtain res w' where run: "stage l factory disposer w = (res, w')" by fastforce
  have v: "staged_in (bw_lifecycle w) = None" "drained_in (bw_lifecycle w) = None" using w(3) by simp_all
  from stage_ok[OF w(1,2) v run] show ?thesis
  proof (elim disjE exE conjE)
    fix e assume e: "res = Inl e" "w' = w"
    have "async_ok None (lifecycle_at (LifecycleEnd (Some e)) w)"
      by (rule at_phase_ok[OF w(1)]) (use w in \<open>simp_all add: lifecycle_at_def async_ok_def gens_ok_def held_def\<close>)
    thus ?thesis using ReplaceCall run e by (simp add: perform_call_def)
  next
    fix s assume s: "res = Inr s" "async_ok (Some s) w'" "bw_current w' = bw_current w" "bw_lifecycle w' = bw_lifecycle w" "bw_failed w' = None"
    show ?thesis
    proof (cases "bw_current w")
      case None
      thus ?thesis using ReplaceCall run s activate_ok[OF s(2), of s _ "Some (LifecycleEnd None)"]
        by (simp add: perform_call_def lifecycle_at_def)
    next
      case (Some g)
      thus ?thesis using ReplaceCall run s drain_ok[OF s(2), of g] v by (simp add: perform_call_def)
    qed
  qed
qed

lemma perform_call_phase: "perform_call call (w\<lparr>bw_lifecycle := p\<rparr>) = perform_call call w"
  by (simp add: perform_call_def stage_def drain_def drained_def begin_dispose_def lifecycle_at_def activate_def upd_gen_def put_out_def Let_def
      split: lifecycle_call.split option.split)

text \<open>An awaited disposal settles.\<close>

lemma disposal_ok:
  assumes w: "async_ok None w"
  shows "async_ok None (disposal_settled res w)"
proof (cases "bw_lifecycle w")
  case (Some p)
  let ?n = "length (bw_gens w)" and ?d = "\<lambda>g. disposals g (bw_log w)"
  have g: "gens_ok None ?n (bw_current w) (Some p) (bw_failed w) ?d" using w Some by (simp add: async_ok_def)
  show ?thesis
  proof (cases p)
    case (RetryDispose f call)
    have f: "bw_failed w = Some f" using g RetryDispose by (simp add: gens_ok_def)
    have "gens_ok None ?n (bw_current w) None None (\<lambda>h. disposals h (bw_log w @ [DisposeSettled f True]))"
      using g f RetryDispose unfolding gens_ok_def by (auto simp: held_def phase_views)
    hence "async_ok None (w\<lparr>bw_log := bw_log w @ [DisposeSettled f True], bw_failed := None, bw_lifecycle := None\<rparr>)"
      by (intro at_phase_ok[OF w]) (simp_all add: Some RetryDispose phase_views)
    hence ok: "async_ok None (perform_call call (w\<lparr>bw_log := bw_log w @ [DisposeSettled f True], bw_failed := None, bw_lifecycle := None\<rparr>))"
      by (rule perform_call_ok) simp_all
    have "gens_ok None ?n (bw_current w) (Some (LifecycleEnd e)) (bw_failed w) ?d" for e
      using g f RetryDispose unfolding gens_ok_def by (auto simp: held_def phase_views)
    hence bad: "async_ok None (lifecycle_at (LifecycleEnd e) (put_out (DisposeSettled f False) w))" for e
      by (intro at_phase_ok[OF w]) (simp_all add: Some RetryDispose phase_views lifecycle_at_def put_out_def)
    show ?thesis
    proof (cases "res \<or> \<not> g_disposer (bw_gens w ! f)")
      case True
      have "disposal_settled res w = perform_call call (w\<lparr>bw_log := bw_log w @ [DisposeSettled f True], bw_failed := None\<rparr>)"
        using True Some RetryDispose f by (simp add: disposal_settled_def Let_def put_out_def)
      thus ?thesis using ok perform_call_phase[where call = call and p = None and w = "w\<lparr>bw_log := bw_log w @ [DisposeSettled f True], bw_failed := None\<rparr>"] by simp
    qed (use Some RetryDispose bad in \<open>simp add: disposal_settled_def Let_def\<close>)
  next
    case (DrainDispose h staged)
    have "gens_ok None ?n (bw_current w) (Some (DrainSettle h staged (\<not> ok))) (bw_failed w) (\<lambda>i. disposals i (bw_log w @ [DisposeSettled h ok]))" for ok
      using g DrainDispose unfolding gens_ok_def by (cases ok) (auto simp: held_def phase_views)
    hence "async_ok None (lifecycle_at (DrainSettle h staged (\<not> ok)) (put_out (DisposeSettled h ok) w))" for ok
      by (intro at_phase_ok[OF w]) (simp_all add: Some DrainDispose phase_views lifecycle_at_def put_out_def)
    from this[of "res \<or> \<not> g_disposer (bw_gens w ! h)"] show ?thesis using Some DrainDispose by (simp add: disposal_settled_def Let_def)
  next
    case (StagedDispose s)
    have "gens_ok None ?n (bw_current w) (Some (LifecycleEnd e)) None (\<lambda>i. disposals i (bw_log w @ [DisposeSettled s True]))"
      "gens_ok None ?n (bw_current w) (Some (LifecycleEnd e)) (Some s) (\<lambda>i. disposals i (bw_log w @ [DisposeSettled s False]))" for e
      using g StagedDispose unfolding gens_ok_def by (auto simp: held_def phase_views)
    hence "async_ok None (lifecycle_at (LifecycleEnd e) (put_out (DisposeSettled s True) w))"
      "async_ok None (lifecycle_at (LifecycleEnd e) ((put_out (DisposeSettled s False) w)\<lparr>bw_failed := Some s\<rparr>))" for e
      using gens_stagedD[OF g, of s] StagedDispose
      by (intro at_phase_ok[OF w]; simp add: Some StagedDispose phase_views lifecycle_at_def put_out_def)+
    thus ?thesis using Some StagedDispose by (simp add: disposal_settled_def Let_def)
  next
    case (ChangedDispose s)
    thus ?thesis using g by (simp add: gens_ok_def)
  qed (use w Some in \<open>simp_all add: disposal_settled_def\<close>)
qed (use w in \<open>simp add: disposal_settled_def\<close>)

lemma lifecycle_ok:
  assumes w: "async_ok None w"
  shows "async_ok None (runLifecycle call w)"
proof (cases "bw_lifecycle w")
  case None
  show ?thesis
  proof (cases "bw_failed w")
    case (Some f)
    have "gens_ok None (length (bw_gens w)) (bw_current w) (Some (RetryDispose f call)) (Some f) (\<lambda>g. disposals g (bw_log w))"
      using w None Some unfolding async_ok_def gens_ok_def by (simp add: held_def phase_views)
    hence "async_ok None (begin_dispose f (RetryDispose f call) w)"
      by (intro at_phase_ok[OF w]) (simp_all add: None Some phase_views begin_dispose_def lifecycle_at_def put_out_def)
    thus ?thesis using None Some by (simp add: runLifecycle_def runAfterFailedStagedCleanup_def)
  qed (use perform_call_ok[OF w] None in \<open>simp add: runLifecycle_def runAfterFailedStagedCleanup_def\<close>)
qed (simp add: runLifecycle_def async_ok_cong[OF w])

lemma start_ok:
  assumes w: "async_ok None w"
  shows "async_ok None (startWork inside l factory disposer w)"
proof (cases "inside \<or> bw_current w \<noteq> None \<or> bw_lifecycle w \<noteq> None \<or> bw_failed w \<noteq> None")
  case True
  thus ?thesis using w by (auto simp: startWork_def intro!: out_ok)
next
  case False
  obtain res w' where run: "stage l factory disposer w = (res, w')" by fastforce
  have "bw_failed w = None" "staged_in (bw_lifecycle w) = None" "drained_in (bw_lifecycle w) = None" using False by simp_all
  from stage_ok[OF w this run] show ?thesis
  proof (elim disjE exE conjE)
    fix s assume s: "res = Inr s" "async_ok (Some s) w'" "bw_current w' = bw_current w" "bw_lifecycle w' = bw_lifecycle w"
    have "(activate s w')\<lparr>bw_lifecycle := None\<rparr> = activate s w'" using False s by (simp add: activate_def upd_gen_def)
    thus ?thesis using False s run activate_ok[OF s(2), of s _ None] by (simp add: startWork_def)
  qed (use False w run in \<open>simp add: startWork_def out_ok\<close>)
qed

lemma settled_drain_ok:
  assumes w: "async_ok None w"
  shows "async_ok None (operations_settled w)"
  using w drained_ok[OF w] drain_failed_ok[OF w]
  by (auto simp: operations_settled_def split: option.split lifecycle_phase.split)

lemma ends_ok:
  assumes w: "async_ok None w"
  shows "async_ok None (lifecycle_ends w)"
proof (cases "\<exists>e. bw_lifecycle w = Some (LifecycleEnd e)")
  case True
  then obtain e where e: "bw_lifecycle w = Some (LifecycleEnd e)" by blast
  have "async_ok None (put_out (LifecycleResult e) (w\<lparr>bw_lifecycle := None\<rparr>))"
    by (rule at_phase_ok[OF w]) (use w e in \<open>simp_all add: put_out_def async_ok_def gens_ok_def held_def\<close>)
  thus ?thesis using e by (simp add: lifecycle_ends_def)
qed (use w in \<open>auto simp: lifecycle_ends_def split: option.split lifecycle_phase.split\<close>)

lemma work_step_ok: "async_ok None w \<Longrightarrow> async_ok None (work_step e w)"
  by (cases e) (auto simp: start_ok run_op_ok settled_ok timeout_ok assert_ok deliver_ok disposal_ok settled_drain_ok ends_ok
      lifecycle_call_made_def resume_call_def intro!: lifecycle_ok out_ok elim!: async_ok_cong)

lemma work_run_ok: "async_ok None w \<Longrightarrow> async_ok None (work_run es w)"
  unfolding work_run_def by (induction es arbitrary: w) (simp_all add: work_step_ok)

subsection \<open>Results\<close>

definition deliveries :: "nat \<Rightarrow> 'v work_output list \<Rightarrow> nat" where
  "deliveries i outs = length (filter (\<lambda>out. case out of Delivered j r \<Rightarrow> j = i | _ \<Rightarrow> False) outs)"

lemma deliveries_log: "deliveries i (outs @ [out]) = deliveries i outs + (case out of Delivered j r \<Rightarrow> if j = i then 1 else 0 | _ \<Rightarrow> 0)"
  by (simp add: deliveries_def split: work_output.split)

text \<open>An operation that is told a value was settled with it; it is told once.\<close>

definition op_ok_at :: "'v work_event list \<Rightarrow> 'v work_state \<Rightarrow> nat \<Rightarrow> bool" where
  "op_ok_at es w i \<longleftrightarrow> deliveries i (bw_log w) = (if i < length (bw_ops w) \<and> o_delivered (bw_ops w ! i) then 1 else 0) \<and>
     (\<forall>v. i < length (bw_ops w) \<and> o_race (bw_ops w ! i) = Some (Inr v) \<longrightarrow> SettleW i (Inr v) \<in> set es)"

text \<open>A step that settles and delivers nothing, though it may cancel.\<close>

definition silent :: "'v work_state \<Rightarrow> 'v work_state \<Rightarrow> bool" where
  "silent w w' \<longleftrightarrow> length (bw_ops w') = length (bw_ops w) \<and> (\<forall>i. deliveries i (bw_log w') = deliveries i (bw_log w)) \<and>
     (\<forall>i < length (bw_ops w). o_delivered (bw_ops w' ! i) = o_delivered (bw_ops w ! i) \<and>
        (\<forall>v. o_race (bw_ops w' ! i) = Some (Inr v) \<longrightarrow> o_race (bw_ops w ! i) = Some (Inr v)))"

lemma silent_refl: "silent w w"
  by (simp add: silent_def)

lemma silent_trans: "silent w w' \<Longrightarrow> silent w' w'' \<Longrightarrow> silent w w''"
  by (simp add: silent_def)

lemma silent_same: "bw_ops w' = bw_ops w \<Longrightarrow> bw_log w' = bw_log w \<Longrightarrow> silent w w'"
  by (simp add: silent_def)

lemma silent_out: "(\<And>i r. out \<noteq> Delivered i r) \<Longrightarrow> silent w (put_out out w)"
  by (simp add: silent_def put_out_def deliveries_log split: work_output.split)

lemma silent_ok: "silent w w' \<Longrightarrow> op_ok_at es w i \<Longrightarrow> op_ok_at (es @ [e]) w' i"
  by (auto simp: silent_def op_ok_at_def)

lemma cancel_delivered [simp]: "o_delivered (cancel_op e p) = o_delivered p"
  by (simp add: cancel_op_def)

lemma cancel_race: "o_race (cancel_op e p) = Some (Inr v) \<Longrightarrow> o_race p = Some (Inr v)"
  by (auto simp: cancel_op_def split: if_splits option.splits)

lemma silent_cancel: "silent w (upd_op i (cancel_op e) w)"
  by (cases "i < length (bw_ops w)") (auto simp: silent_def upd_op_def nth_list_update list_update_beyond dest: cancel_race)

lemma silent_assert: "silent w (snd (assertActive i now w))"
  by (simp add: assertActive_def Let_def silent_cancel silent_refl)

lemma silent_phase: "silent w (lifecycle_at p w)" and silent_dispose: "silent w (begin_dispose g p w)"
  and silent_gen: "silent w (upd_gen g f w)" and silent_activate: "silent w (activate g w)"
  by (auto simp: lifecycle_at_def begin_dispose_def upd_gen_def activate_def put_out_def silent_def deliveries_log)

lemma silent_stage: "silent w (snd (stage l factory disposer w))"
  by (auto simp: stage_def Let_def put_out_def silent_def deliveries_log split: option.split)

lemma silent_drained: "silent w (drained g s w)"
  by (auto simp: drained_def lifecycle_at_def begin_dispose_def activate_def upd_gen_def put_out_def silent_def deliveries_log split: option.split)

lemma silent_drain_failed: "silent w (drain_failed g s w)"
  by (auto simp: drain_failed_def Let_def lifecycle_at_def begin_dispose_def upd_gen_def put_out_def silent_def deliveries_log split: option.split)

lemma silent_drain: "silent w (drain g s w)"
proof -
  have ops: "silent w (w\<lparr>bw_ops := map (\<lambda>p. if o_gen p = g \<and> \<not> o_delivered p then cancel_op InvalidatedError p else p) (bw_ops w)\<rparr>)"
    for w :: "'v work_state" by (auto simp: silent_def dest: cancel_race)
  show ?thesis unfolding drain_def Let_def
    by (auto intro!: silent_drained silent_trans[OF silent_trans[OF silent_gen ops] silent_dispose])
qed

lemma silent_call: "silent w (perform_call call w)"
proof (cases call)
  case (ReplaceCall l factory disposer)
  obtain res w' where run: "stage l factory disposer w = (res, w')" by fastforce
  have w': "silent w w'" using silent_stage[of w l factory disposer] run by simp
  show ?thesis
  proof (cases res)
    case (Inl e)
    show ?thesis using ReplaceCall run Inl silent_trans[OF w' silent_phase] by (simp add: perform_call_def)
  next
    case (Inr s)
    have "silent w (lifecycle_at p (activate s w'))" for p by (rule silent_trans[OF w' silent_trans[OF silent_activate silent_phase]])
    thus ?thesis using ReplaceCall run Inr silent_trans[OF w' silent_drain] by (cases "bw_current w'") (simp_all add: perform_call_def)
  qed
next
  case StopCall
  thus ?thesis by (cases "bw_current w") (simp_all add: perform_call_def silent_phase silent_drain)
qed

lemma silent_lifecycle: "silent w (runLifecycle call w)"
  by (auto simp: runLifecycle_def runAfterFailedStagedCleanup_def silent_call silent_dispose silent_same split: option.split)

lemma silent_start: "silent w (startWork inside l factory disposer w)"
proof -
  obtain res w' where run: "stage l factory disposer w = (res, w')" by fastforce
  have w': "silent w w'" using silent_stage[of w l factory disposer] run by simp
  have "silent w (put_out (Refused e) w)" "silent w (put_out (Refused e) w')" for e
    by (simp add: silent_out) (rule silent_trans[OF w' silent_out], simp)
  moreover have "silent w (activate s w')" for s by (rule silent_trans[OF w' silent_activate])
  ultimately show ?thesis using run by (cases res) (simp_all add: startWork_def)
qed

lemma silent_disposal: "silent w (disposal_settled res w)"
proof -
  have "silent w (lifecycle_at p (put_out (DisposeSettled g ok) w))" for p g ok
    by (rule silent_trans[OF silent_out silent_phase]) simp
  moreover have "silent w (lifecycle_at p ((put_out (DisposeSettled g ok) w)\<lparr>bw_failed := f\<rparr>))" for p g ok f
    by (rule silent_trans[OF silent_trans[OF silent_out silent_same] silent_phase]) simp_all
  moreover have "silent w (perform_call call (put_out (DisposeSettled g ok) w))"
    "silent w (perform_call call ((put_out (DisposeSettled g ok) w)\<lparr>bw_failed := f\<rparr>))" for call g ok f
    by (rule silent_trans[OF silent_out silent_call] silent_trans[OF silent_trans[OF silent_out silent_same] silent_call]; simp)+
  ultimately show ?thesis by (auto simp: disposal_settled_def Let_def silent_refl split: option.split lifecycle_phase.split)
qed

lemma silent_ends: "silent w (operations_settled w)" "silent w (lifecycle_ends w)"
  by (auto simp: operations_settled_def lifecycle_ends_def silent_refl silent_drained silent_drain_failed
      split: option.split lifecycle_phase.split intro: silent_trans[OF silent_same silent_out])

lemma op_ok_run:
  assumes "\<And>i. op_ok_at es w i"
  shows "op_ok_at (es @ [e]) (run_work now w) i"
proof -
  have refused: "op_ok_at (es @ [e]) (put_out (Refused r) w) i" for r by (rule silent_ok[OF silent_out assms]) simp
  have new: "op_ok_at (es @ [e]) (upd_gen g f (w\<lparr>bw_ops := bw_ops w @ [p]\<rparr>)) i"
    if "\<not> o_delivered p" "\<forall>v. o_race p \<noteq> Some (Inr v)" for g f p
    using assms[of i] that by (auto simp: op_ok_at_def upd_gen_def nth_append)
  show ?thesis by (auto simp: run_work_def Let_def refused cancel_op_def intro!: new split: option.split)
qed

lemma op_ok_settled: "op_ok_at es w i \<Longrightarrow> op_ok_at (es @ [SettleW j res]) (operation_settled j res w) i"
  by (cases "j < length (bw_ops w)")
    (auto simp: op_ok_at_def operation_settled_def upd_gen_def upd_op_def nth_list_update split: option.splits)

text \<open>What \<^verbatim>\<open>deliver\<close> does, when it does something.\<close>

lemma deliver_cases:
  obtains (nothing) "deliver j now w = w"
  | (told) res thrown w1 where "j < length (bw_ops w)" "\<not> o_delivered (bw_ops w ! j)" "o_race (bw_ops w ! j) = Some res"
      "assertActive j now w = (thrown, w1)" "silent w w1"
      "deliver j now w = put_out (Delivered j (case thrown of Some e \<Rightarrow> Inl e | None \<Rightarrow> res)) (upd_op j (\<lambda>p. p\<lparr>o_delivered := True\<rparr>) w1)"
proof (cases "j < length (bw_ops w) \<and> \<not> o_delivered (bw_ops w ! j) \<and> o_race (bw_ops w ! j) \<noteq> None")
  case True
  then obtain res where "o_race (bw_ops w ! j) = Some res" by blast
  moreover obtain thrown w1 where "assertActive j now w = (thrown, w1)" by fastforce
  ultimately show ?thesis using True told silent_assert[of w j now] by (simp add: deliver_def)
next
  case False
  hence "deliver j now w = w" by (auto simp: deliver_def)
  thus ?thesis by (rule nothing)
qed

lemma op_ok_deliver:
  assumes "op_ok_at es w i"
  shows "op_ok_at (es @ [e]) (deliver j now w) i"
proof (cases rule: deliver_cases[of j now w])
  case nothing
  thus ?thesis using assms by (auto simp: op_ok_at_def)
next
  case (told res thrown w1)
  have "op_ok_at (es @ [e]) w1 i" by (rule silent_ok[OF told(5) assms])
  moreover have "j < length (bw_ops w1)" "\<not> o_delivered (bw_ops w1 ! j)" using told by (simp_all add: silent_def)
  ultimately show ?thesis unfolding told(6)
    by (cases "i = j") (simp_all add: op_ok_at_def put_out_def upd_op_def deliveries_log nth_list_update)
qed

lemma silent_step:
  assumes "\<And>now. e \<noteq> RunW now" "\<And>i res. e \<noteq> SettleW i res" "\<And>i now. e \<noteq> DeliverW i now"
  shows "silent w (work_step e w)"
proof (cases e)
  case (ResumeW i)
  have "silent w (runLifecycle call (w\<lparr>bw_waiting := ws\<rparr>))" for call ws
    by (rule silent_trans[OF silent_same silent_lifecycle]) simp_all
  thus ?thesis using ResumeW by (simp add: resume_call_def silent_refl)
qed (use assms in \<open>simp_all add: silent_start operation_timeout_def silent_cancel silent_assert silent_refl lifecycle_call_made_def silent_out
  silent_lifecycle silent_disposal silent_ends\<close>)

lemma op_ok_step: "(\<And>i. op_ok_at es w i) \<Longrightarrow> op_ok_at (es @ [e]) (work_step e w) i"
  by (cases e) (auto simp: op_ok_run op_ok_settled op_ok_deliver intro: silent_ok[OF silent_step] simp del: work_step.simps(1,4,5,7-11))

lemma work_run_snoc: "work_run (es @ [e]) w = work_step e (work_run es w)"
  by (simp add: work_run_def)

lemma op_ok_reachable: "op_ok_at es (work_run es new_work) i"
proof (induction es arbitrary: i rule: rev_induct)
  case Nil
  show ?case by (simp add: op_ok_at_def work_run_def new_work_def deliveries_def)
next
  case (snoc e es)
  show ?case unfolding work_run_snoc by (rule op_ok_step) (rule snoc)
qed

text \<open>C13. One runtime at a time, and none is lost: for every sequence of starts, calls, settlements, timeouts and disposals, a
  generation that accepts operations or still has some in flight is the current one, with no more of them than its limit, which
  is at most 64; and every runtime that was made is current, staged by the lifecycle operation in progress or kept for another
  attempt at its disposal and was not yet disposed of, or it was disposed of successfully once (the one being drained may be
  disposed of already while its operations settle).\<close>

theorem work_generations_exclusive:
  "let w = work_run es new_work in \<forall>g < length (bw_gens w).
     (g_accepting (bw_gens w ! g) \<or> g_active (bw_gens w ! g) \<noteq> [] \<longrightarrow> bw_current w = Some g) \<and>
     int (length (g_active (bw_gens w ! g))) \<le> wl_maxInflight (g_limits (bw_gens w ! g)) \<and> wl_maxInflight (g_limits (bw_gens w ! g)) \<le> 64 \<and>
     disposals g (bw_log w) = (if held None (bw_current w) (bw_lifecycle w) (bw_failed w) g \<and> settled_in (bw_lifecycle w) \<noteq> Some g then 0 else 1)"
proof -
  let ?w = "work_run es new_work"
  have w: "async_ok None ?w" by (rule work_run_ok[OF new_work_ok])
  have g: "gens_ok None (length (bw_gens ?w)) (bw_current ?w) (bw_lifecycle ?w) (bw_failed ?w) (\<lambda>g. disposals g (bw_log ?w))"
    using w by (simp add: async_ok_def)
  show ?thesis unfolding Let_def
  proof (intro allI impI)
    fix h assume h: "h < length (bw_gens ?w)"
    show "(g_accepting (bw_gens ?w ! h) \<or> g_active (bw_gens ?w ! h) \<noteq> [] \<longrightarrow> bw_current ?w = Some h) \<and>
     int (length (g_active (bw_gens ?w ! h))) \<le> wl_maxInflight (g_limits (bw_gens ?w ! h)) \<and> wl_maxInflight (g_limits (bw_gens ?w ! h)) \<le> 64 \<and>
     disposals h (bw_log ?w) = (if held None (bw_current ?w) (bw_lifecycle ?w) (bw_failed ?w) h \<and> settled_in (bw_lifecycle ?w) \<noteq> Some h then 0 else 1)"
      using gen_at[OF w h] limits_range[of "g_limits (bw_gens ?w ! h)"] gens_disposedD[OF g, of h] h by (auto simp: active_ok_def)
  qed
qed

text \<open>A caller is told the value of its own operation, once, and only while the runtime it ran on is the current one: when a step
  of a reachable state tells the caller of operation \<^verbatim>\<open>i\<close> a value, that value is what the operation was settled with, the caller was
  told nothing before, the deadline has not passed, the operation was not cancelled, and its generation is current and accepts work.\<close>

lemma work_result_authentic:
  assumes "bw_log (work_step e (work_run es new_work)) = bw_log (work_run es new_work) @ [Delivered i (Inr v)]"
  shows "let w = work_run es new_work; p = bw_ops w ! i in SettleW i (Inr v) \<in> set es \<and> deliveries i (bw_log w) = 0 \<and>
    (\<exists>now. e = DeliverW i now \<and> now < o_expiresAt p) \<and> o_aborted p = None \<and> bw_current w = Some (o_gen p) \<and> g_accepting (bw_gens w ! o_gen p)"
proof -
  let ?w = "work_run es new_work" and ?p = "bw_ops (work_run es new_work) ! i"
  have "deliveries i (bw_log (work_step e ?w)) = Suc (deliveries i (bw_log ?w))" using assms by (simp add: deliveries_log)
  hence "\<not> silent ?w (work_step e ?w)" by (auto simp: silent_def)
  moreover have "bw_log (run_work now ?w) \<noteq> bw_log ?w @ [Delivered i (Inr v)]" "bw_log (operation_settled j res ?w) \<noteq> bw_log ?w @ [Delivered i (Inr v)]"
    for now j res by (auto simp: run_work_def operation_settled_def Let_def put_out_def upd_gen_def upd_op_def split: option.split)
  ultimately obtain j now where e: "e = DeliverW j now" using assms silent_step[of e ?w] by (metis work_step.simps(2,3))
  show ?thesis
  proof (cases rule: deliver_cases[of j now ?w])
    case nothing
    thus ?thesis using assms e by simp
  next
    case (told res thrown w1)
    have "bw_log w1 = bw_log ?w" using told(4) by (auto simp: assertActive_def Let_def upd_op_def split: if_splits)
    hence out: "j = i" "(case thrown of Some e \<Rightarrow> Inl e | None \<Rightarrow> res) = Inr v"
      using assms e told(6) by (simp_all add: put_out_def upd_op_def)
    hence res: "thrown = None" "res = Inr v" by (simp_all split: option.splits)
    hence "o_aborted ?p = None \<and> now < o_expiresAt ?p \<and> assertGenerationCurrent (o_gen ?p) ?w = None"
      using told(1,4) out(1) by (auto simp: assertActive_def Let_def upd_op_def cancel_op_def split: if_splits option.splits)
    moreover have "SettleW i (Inr v) \<in> set es" "deliveries i (bw_log ?w) = 0"
      using op_ok_reachable[of es i] told(1-3) out(1) res(2) by (auto simp: op_ok_at_def)
    ultimately show ?thesis using e out(1) by (auto simp: Let_def assertGenerationCurrent_def split: if_splits)
  qed
qed

text \<open>A runtime is replaced while an operation is in flight on it; the operation ends and is not told, the next one is.\<close>

definition demo_work_limits :: work_limits where
  "demo_work_limits = \<lparr>wl_maxInflight = 1, wl_timeoutMs = 1000\<rparr>"

definition demo_work :: "nat work_event list" where
  "demo_work = [StartW False demo_work_limits None True, RunW 0, CallW False (ReplaceCall demo_work_limits None True), DisposedW True,
     SettledW, SettleW 0 (Inr 5), SettledW, EndW, RunW 10, DeliverW 0 20, SettleW 1 (Inr 7)]"

theorem work_generations_exclusive_witness:
  "let w = work_run demo_work new_work in bw_current w = Some 1 \<and> length (bw_gens w) = 2 \<and> g_active (bw_gens w ! 0) = [] \<and> disposals 0 (bw_log w) = 1"
proof -
  have "length (bw_gens (work_run demo_work new_work)) = 2" "bw_current (work_run demo_work new_work) = Some 1"
      "held None (bw_current (work_run demo_work new_work)) (bw_lifecycle (work_run demo_work new_work)) (bw_failed (work_run demo_work new_work)) 0 = False"
    by code_simp+
  thus ?thesis using work_generations_exclusive[of demo_work] unfolding Let_def by fastforce
qed

lemma work_result_authentic_at:
  "SettleW 1 (Inr 7) \<in> set demo_work \<and> bw_current (work_run demo_work new_work) = Some (o_gen (bw_ops (work_run demo_work new_work) ! 1))"
proof -
  have "bw_log (work_step (DeliverW 1 30) (work_run demo_work new_work)) = bw_log (work_run demo_work new_work) @ [Delivered 1 (Inr 7)]"
    by code_simp
  from work_result_authentic[OF this] show ?thesis by (simp add: Let_def)
qed

end
