(* ===== verification/Process_Shutdown.thy ===== *)
theory Process_Shutdown
  imports Faucet_Prelude
begin

text \<open>
  The shutdown of the faucet: \<^verbatim>\<open>performShutdown\<close> of \<^verbatim>\<open>src/src/common/FaucetProcess.ts\<close> with the gates and
  the work in flight of \<^verbatim>\<open>src/src/session/SessionManager.ts\<close> (reward operations, session starts,
  timeout sweeps) and of \<^verbatim>\<open>src/src/modules/ModuleManager.ts\<close> (loads, hooks).  Work is referred to by
  number; what it does is its own, when it begins and ends are events.
\<close>

subsection \<open>Session manager\<close>

datatype op_status = OpWaiting | OpRunning | OpOver

record session_gates =
  sm_initialized :: bool
  sm_rewardsOpen :: bool
  sm_admissionOpen :: bool
  sm_startsOpen :: bool
  sm_timer :: bool
  sm_ops :: "op_status list"
  sm_starting :: "nat list"
  sm_timeouts :: "nat list"

definition new_session_gates :: session_gates where
  "new_session_gates = \<lparr>sm_initialized = False, sm_rewardsOpen = True, sm_admissionOpen = True, sm_startsOpen = True,
     sm_timer = False, sm_ops = [], sm_starting = [], sm_timeouts = []\<rparr>"

text \<open>\<^verbatim>\<open>initialize\<close> up to its first await, and its end, when the sessions are restored.\<close>

definition initialize_sessions :: "session_gates \<Rightarrow> session_gates" where
  "initialize_sessions s = (if sm_initialized s then s
     else s\<lparr>sm_initialized := True, sm_rewardsOpen := True, sm_admissionOpen := True, sm_startsOpen := True\<rparr>)"

definition sessions_restored :: "session_gates \<Rightarrow> session_gates" where
  "sessions_restored s = s\<lparr>sm_timer := True\<rparr>"

text \<open>\<^verbatim>\<open>runRewardOperation\<close>: an operation begins when the one admitted before it is over.\<close>

definition admit_operation :: "session_gates \<Rightarrow> session_gates" where
  "admit_operation s = (if sm_admissionOpen s then s\<lparr>sm_ops := sm_ops s @ [OpWaiting]\<rparr> else s)"

definition operation_begins :: "nat \<Rightarrow> session_gates \<Rightarrow> session_gates" where
  "operation_begins i s = (if i < length (sm_ops s) \<and> sm_ops s ! i = OpWaiting \<and> (i = 0 \<or> sm_ops s ! (i - 1) = OpOver)
     then s\<lparr>sm_ops := (sm_ops s)[i := OpRunning]\<rparr> else s)"

definition operation_ends :: "nat \<Rightarrow> session_gates \<Rightarrow> session_gates" where
  "operation_ends i s = (if i < length (sm_ops s) \<and> sm_ops s ! i = OpRunning then s\<lparr>sm_ops := (sm_ops s)[i := OpOver]\<rparr> else s)"

text \<open>The promise \<^verbatim>\<open>rewardOperation\<close>: the last operation admitted is over.\<close>

definition operations_done :: "session_gates \<Rightarrow> bool" where
  "operations_done s \<longleftrightarrow> sm_ops s = [] \<or> last (sm_ops s) = OpOver"

definition start_session :: "nat \<Rightarrow> session_gates \<Rightarrow> session_gates" where
  "start_session k s = (if sm_startsOpen s then s\<lparr>sm_starting := sm_starting s @ [k]\<rparr> else s)"

definition process_timeouts :: "nat \<Rightarrow> session_gates \<Rightarrow> session_gates" where
  "process_timeouts k s = (if sm_rewardsOpen s then s\<lparr>sm_timeouts := sm_timeouts s @ [k]\<rparr> else s)"

definition cleanup_tick :: "nat \<Rightarrow> session_gates \<Rightarrow> session_gates" where
  "cleanup_tick k s = (if sm_timer s then process_timeouts k s else s)"

definition stopRewardOperations :: "session_gates \<Rightarrow> session_gates" where
  "stopRewardOperations s = s\<lparr>sm_rewardsOpen := False, sm_startsOpen := False, sm_timer := False\<rparr>"

definition producers_done :: "session_gates \<Rightarrow> bool" where
  "producers_done s \<longleftrightarrow> sm_timeouts s = [] \<and> sm_starting s = []"

definition close_reward_admission :: "session_gates \<Rightarrow> session_gates" where
  "close_reward_admission s = s\<lparr>sm_admissionOpen := False\<rparr>"

subsection \<open>Module manager\<close>

datatype module_admission = AdmissionClosed | AdmissionLoading | AdmissionReady | AdmissionFailed

record module_gates =
  mm_initialized :: bool
  mm_generation :: nat
  mm_admission :: module_admission
  mm_loads :: "nat list"
  mm_ordinaryOpen :: bool
  mm_terminalOpen :: bool
  mm_hookOps :: "nat list"
  mm_ordinaryOps :: "nat list"

datatype hook_action = ClientConfig | SessionStart | SessionRestore | SessionInfo | SessionRewardFactor | SessionRewarded
  | SessionIpChange | SessionComplete | SessionClaim | SessionClaimed | SessionClose | RewardProducerStop

definition isTerminalHookAction :: "hook_action \<Rightarrow> bool" where
  "isTerminalHookAction a \<longleftrightarrow> a = SessionRewardFactor \<or> a = SessionRewarded \<or> a = SessionComplete"

text \<open>The gate of \<^verbatim>\<open>processActionHooks\<close>.  This is the manager that has the modules; one that is asked for after its
  disposal is a new one, without hooks.\<close>

definition processActionHooks :: "nat \<Rightarrow> hook_action \<Rightarrow> module_gates \<Rightarrow> module_gates" where
  "processActionHooks k a m =
     (if a = RewardProducerStop \<or> \<not> mm_terminalOpen m \<or> (\<not> isTerminalHookAction a \<and> \<not> mm_ordinaryOpen m) then m
      else m\<lparr>mm_hookOps := mm_hookOps m @ [k], mm_ordinaryOps := (if isTerminalHookAction a then mm_ordinaryOps m else mm_ordinaryOps m @ [k])\<rparr>)"

definition hook_ends :: "nat \<Rightarrow> module_gates \<Rightarrow> module_gates" where
  "hook_ends k m = m\<lparr>mm_hookOps := removeAll k (mm_hookOps m), mm_ordinaryOps := removeAll k (mm_ordinaryOps m)\<rparr>"

text \<open>Loads follow one another; the result of the last one that was asked for decides the admission.\<close>

definition queueLoad :: "module_gates \<Rightarrow> module_gates" where
  "queueLoad m = m\<lparr>mm_generation := mm_generation m + 1, mm_admission := AdmissionLoading, mm_loads := mm_loads m @ [mm_generation m + 1]\<rparr>"

definition request_load :: "module_gates \<Rightarrow> module_gates" where
  "request_load m = (if mm_initialized m then queueLoad m else m)"

definition load_ends :: "bool \<Rightarrow> module_gates \<Rightarrow> module_gates" where
  "load_ends ok m = (case mm_loads m of
      [] \<Rightarrow> m
    | g # gs \<Rightarrow> (let m = m\<lparr>mm_loads := gs\<rparr> in
        if mm_initialized m \<and> g = mm_generation m then m\<lparr>mm_admission := (if ok then AdmissionReady else AdmissionFailed)\<rparr> else m))"

definition assertSessionAdmissionReady :: "module_gates \<Rightarrow> bool" where
  "assertSessionAdmissionReady m \<longleftrightarrow> mm_admission m = AdmissionReady"

definition closeAdmission :: "module_gates \<Rightarrow> module_gates" where
  "closeAdmission m = m\<lparr>mm_generation := mm_generation m + 1, mm_admission := AdmissionClosed\<rparr>"

definition closeHookAdmission :: "module_gates \<Rightarrow> module_gates" where
  "closeHookAdmission m = m\<lparr>mm_ordinaryOpen := False, mm_terminalOpen := False\<rparr>"

definition loading_modules :: module_gates where
  "loading_modules = queueLoad \<lparr>mm_initialized = True, mm_generation = 0, mm_admission = AdmissionClosed, mm_loads = [], mm_ordinaryOpen = True,
     mm_terminalOpen = True, mm_hookOps = [], mm_ordinaryOps = []\<rparr>"

subsection \<open>Process\<close>

text \<open>What \<^verbatim>\<open>performShutdown\<close> waits for: the HTTP server; the claim manager; the pending loads, the hooks that stop
  the producers and the ordinary hooks (\<^verbatim>\<open>quiesceRewardProducers\<close>); the starts and timeout sweeps; the reward
  operations; all hooks, the loads and the modules (\<^verbatim>\<open>dispose\<close> of the module manager); the sessions that are saved; the other
  services; the database.\<close>

datatype shutdown_phase = Serving | HttpStops | ClaimsDrain | LoadsDrain | ProducersStop | OrdinaryHooksDrain | SessionProducersDrain
  | RewardsDrain | HooksDrain | ModuleLoadsDrain | ModulesStop | SessionsSave | ServicesDispose | DatabaseCloses | Exited

record faucet_process =
  fp_sessions :: session_gates
  fp_modules :: module_gates
  fp_phase :: shutdown_phase

text \<open>One step of \<^verbatim>\<open>performShutdown\<close>; each step of the source is in a \<^verbatim>\<open>try\<close>, so that a failure of what is awaited
  does not keep the next one from its turn.\<close>

definition shutdown_step :: "faucet_process \<Rightarrow> faucet_process" where
  "shutdown_step p = (let s = fp_sessions p; m = fp_modules p in case fp_phase p of
      Serving \<Rightarrow> p
    | HttpStops \<Rightarrow> p\<lparr>fp_sessions := stopRewardOperations s, fp_phase := ClaimsDrain\<rparr>
    | ClaimsDrain \<Rightarrow> p\<lparr>fp_modules := closeAdmission (m\<lparr>mm_initialized := False\<rparr>), fp_phase := LoadsDrain\<rparr>
    | LoadsDrain \<Rightarrow> if mm_loads m = [] then p\<lparr>fp_phase := ProducersStop\<rparr> else p
    | ProducersStop \<Rightarrow> p\<lparr>fp_modules := m\<lparr>mm_ordinaryOpen := False\<rparr>, fp_phase := OrdinaryHooksDrain\<rparr>
    | OrdinaryHooksDrain \<Rightarrow> if mm_ordinaryOps m = [] then p\<lparr>fp_phase := SessionProducersDrain\<rparr> else p
    | SessionProducersDrain \<Rightarrow> if producers_done s then p\<lparr>fp_sessions := close_reward_admission s, fp_phase := RewardsDrain\<rparr> else p
    | RewardsDrain \<Rightarrow> if operations_done s then p\<lparr>fp_modules := closeAdmission (closeHookAdmission m), fp_phase := HooksDrain\<rparr> else p
    | HooksDrain \<Rightarrow> if mm_hookOps m = [] then p\<lparr>fp_phase := ModuleLoadsDrain\<rparr> else p
    | ModuleLoadsDrain \<Rightarrow> if mm_loads m = [] then p\<lparr>fp_phase := ModulesStop\<rparr> else p
    | ModulesStop \<Rightarrow> p\<lparr>fp_phase := SessionsSave\<rparr>
    | SessionsSave \<Rightarrow> p\<lparr>fp_sessions := stopRewardOperations s, fp_phase := ServicesDispose\<rparr>
    | ServicesDispose \<Rightarrow> if producers_done s \<and> operations_done s
        then p\<lparr>fp_sessions := (close_reward_admission s)\<lparr>sm_initialized := False\<rparr>, fp_phase := DatabaseCloses\<rparr> else p
    | DatabaseCloses \<Rightarrow> p\<lparr>fp_phase := Exited\<rparr>
    | Exited \<Rightarrow> p)"

definition request_shutdown :: "faucet_process \<Rightarrow> faucet_process" where
  "request_shutdown p = (if fp_phase p = Serving then p\<lparr>fp_phase := HttpStops\<rparr> else p)"

datatype process_event =
    InitializeP | RestoredP | StartP nat | StartEndsP nat | TickP nat | SweepP nat | SweepEndsP nat
  | AdmitP | BeginP nat | EndP nat | HookP nat hook_action | HookEndsP nat | LoadP | LoadEndsP bool | ShutdownP | ShutdownStepP

definition on_sessions :: "(session_gates \<Rightarrow> session_gates) \<Rightarrow> faucet_process \<Rightarrow> faucet_process" where
  "on_sessions f p = p\<lparr>fp_sessions := f (fp_sessions p)\<rparr>"

definition on_modules :: "(module_gates \<Rightarrow> module_gates) \<Rightarrow> faucet_process \<Rightarrow> faucet_process" where
  "on_modules f p = p\<lparr>fp_modules := f (fp_modules p)\<rparr>"

fun process_step :: "process_event \<Rightarrow> faucet_process \<Rightarrow> faucet_process" where
  "process_step InitializeP p = on_sessions initialize_sessions p"
| "process_step RestoredP p = on_sessions sessions_restored p"
| "process_step (StartP k) p = on_sessions (start_session k) p"
| "process_step (StartEndsP k) p = on_sessions (\<lambda>s. s\<lparr>sm_starting := removeAll k (sm_starting s)\<rparr>) p"
| "process_step (TickP k) p = on_sessions (cleanup_tick k) p"
| "process_step (SweepP k) p = on_sessions (process_timeouts k) p"
| "process_step (SweepEndsP k) p = on_sessions (\<lambda>s. s\<lparr>sm_timeouts := removeAll k (sm_timeouts s)\<rparr>) p"
| "process_step AdmitP p = on_sessions admit_operation p"
| "process_step (BeginP i) p = on_sessions (operation_begins i) p"
| "process_step (EndP i) p = on_sessions (operation_ends i) p"
| "process_step (HookP k a) p = on_modules (processActionHooks k a) p"
| "process_step (HookEndsP k) p = on_modules (hook_ends k) p"
| "process_step LoadP p = on_modules request_load p"
| "process_step (LoadEndsP ok) p = on_modules (load_ends ok) p"
| "process_step ShutdownP p = request_shutdown p"
| "process_step ShutdownStepP p = shutdown_step p"

definition process_run :: "process_event list \<Rightarrow> faucet_process \<Rightarrow> faucet_process" where
  "process_run es p = fold process_step es p"

text \<open>The process while its modules load, and when the session manager has been initialized.\<close>

definition booting_process :: faucet_process where
  "booting_process = \<lparr>fp_sessions = new_session_gates, fp_modules = loading_modules, fp_phase = Serving\<rparr>"

definition started_process :: faucet_process where
  "started_process = process_step InitializeP booting_process"

subsection \<open>Reward operations run one after the other\<close>

definition ops_in_order :: "op_status list \<Rightarrow> bool" where
  "ops_in_order ops \<longleftrightarrow> (\<forall>j < length ops. \<forall>i < j. ops ! j \<noteq> OpWaiting \<longrightarrow> ops ! i = OpOver)"

lemma order_last:
  assumes "ops_in_order ops" "ops \<noteq> []" "last ops = OpOver" "x \<in> set ops"
  shows "x = OpOver"
proof -
  obtain i where i: "i < length ops" "x = ops ! i" using assms(4) by (auto simp: in_set_conv_nth)
  have "ops ! (length ops - 1) = OpOver" using assms(2,3) by (simp add: last_conv_nth)
  moreover have "ops ! i = OpOver" if "i < length ops - 1"
    using assms(1) that calculation unfolding ops_in_order_def by (metis diff_less length_greater_0_conv less_one op_status.distinct(3) assms(2))
  ultimately show ?thesis using i by (cases "i = length ops - 1") auto
qed

lemma order_admit: "ops_in_order ops \<Longrightarrow> ops_in_order (ops @ [OpWaiting])"
  by (auto simp: ops_in_order_def nth_append)

lemma order_begin:
  assumes "ops_in_order ops" "i < length ops" "ops ! i = OpWaiting" "i = 0 \<or> ops ! (i - 1) = OpOver"
  shows "ops_in_order (ops[i := OpRunning])"
proof -
  have before: "ops ! k = OpOver" if "k < i" for k
  proof (cases "k = i - 1")
    case False
    hence "k < i - 1" "i - 1 < length ops" "ops ! (i - 1) = OpOver" using that assms by auto
    thus ?thesis using assms(1) unfolding ops_in_order_def by (metis op_status.distinct(3))
  qed (use assms that in auto)
  have after: "ops ! j = OpWaiting" if "i < j" "j < length ops" for j
    using assms(1,3) that unfolding ops_in_order_def by (metis op_status.distinct(3))
  show ?thesis unfolding ops_in_order_def
  proof (intro allI impI)
    fix j k assume j: "j < length (ops[i := OpRunning])" "k < j" "ops[i := OpRunning] ! j \<noteq> OpWaiting"
    hence "j \<le> i" using after[of j] by (cases "i < j") auto
    thus "ops[i := OpRunning] ! k = OpOver" using before[of k] j(2) by simp
  qed
qed

lemma order_end: "ops_in_order ops \<Longrightarrow> i < length ops \<Longrightarrow> ops ! i = OpRunning \<Longrightarrow> ops_in_order (ops[i := OpOver])"
  unfolding ops_in_order_def by (auto simp: nth_list_update)

lemma sessions_in_order:
  assumes "ops_in_order (sm_ops (fp_sessions p))"
  shows "ops_in_order (sm_ops (fp_sessions (process_step e p)))"
proof (cases e)
  case (BeginP i)
  thus ?thesis using assms order_begin[OF assms, of i] by (auto simp: on_sessions_def operation_begins_def)
next
  case (EndP i)
  thus ?thesis using assms order_end[OF assms, of i] by (auto simp: on_sessions_def operation_ends_def)
next
  case AdmitP
  thus ?thesis using assms order_admit[OF assms] by (auto simp: on_sessions_def admit_operation_def)
qed (use assms in \<open>auto simp: on_sessions_def on_modules_def initialize_sessions_def sessions_restored_def start_session_def cleanup_tick_def
  process_timeouts_def request_shutdown_def shutdown_step_def Let_def stopRewardOperations_def close_reward_admission_def split: shutdown_phase.split\<close>)

lemma run_in_order: "ops_in_order (sm_ops (fp_sessions p)) \<Longrightarrow> ops_in_order (sm_ops (fp_sessions (process_run es p)))"
  unfolding process_run_def by (induction es arbitrary: p) (simp_all add: sessions_in_order)

subsection \<open>Quiet before the sessions are saved\<close>

fun shutdown_rank :: "shutdown_phase \<Rightarrow> nat" where
  "shutdown_rank Serving = 0" | "shutdown_rank HttpStops = 1" | "shutdown_rank ClaimsDrain = 2" | "shutdown_rank LoadsDrain = 3"
| "shutdown_rank ProducersStop = 4" | "shutdown_rank OrdinaryHooksDrain = 5" | "shutdown_rank SessionProducersDrain = 6" | "shutdown_rank RewardsDrain = 7"
| "shutdown_rank HooksDrain = 8" | "shutdown_rank ModuleLoadsDrain = 9" | "shutdown_rank ModulesStop = 10" | "shutdown_rank SessionsSave = 11"
| "shutdown_rank ServicesDispose = 12" | "shutdown_rank DatabaseCloses = 13" | "shutdown_rank Exited = 14"

definition sessions_stopped :: "nat \<Rightarrow> session_gates \<Rightarrow> bool" where
  "sessions_stopped n s \<longleftrightarrow> ops_in_order (sm_ops s) \<and> (n < 13 \<longrightarrow> sm_initialized s) \<and>
     (n \<ge> 2 \<longrightarrow> \<not> sm_rewardsOpen s \<and> \<not> sm_startsOpen s) \<and>
     (n \<ge> 7 \<longrightarrow> sm_starting s = [] \<and> sm_timeouts s = [] \<and> \<not> sm_admissionOpen s) \<and> (n \<ge> 8 \<longrightarrow> (\<forall>x \<in> set (sm_ops s). x = OpOver))"

definition modules_stopped :: "nat \<Rightarrow> module_gates \<Rightarrow> bool" where
  "modules_stopped n m \<longleftrightarrow> (n \<ge> 3 \<longrightarrow> \<not> mm_initialized m \<and> mm_admission m = AdmissionClosed) \<and> (n \<ge> 4 \<longrightarrow> mm_loads m = []) \<and> (n \<ge> 5 \<longrightarrow> \<not> mm_ordinaryOpen m) \<and>
     (n \<ge> 6 \<longrightarrow> mm_ordinaryOps m = []) \<and> (n \<ge> 8 \<longrightarrow> \<not> mm_terminalOpen m) \<and> (n \<ge> 9 \<longrightarrow> mm_hookOps m = [])"

definition stopped :: "faucet_process \<Rightarrow> bool" where
  "stopped p \<longleftrightarrow> sessions_stopped (shutdown_rank (fp_phase p)) (fp_sessions p) \<and> modules_stopped (shutdown_rank (fp_phase p)) (fp_modules p)"

lemma done_all_over: "ops_in_order (sm_ops s) \<Longrightarrow> operations_done s \<Longrightarrow> x \<in> set (sm_ops s) \<Longrightarrow> x = OpOver"
  by (metis empty_iff empty_set operations_done_def order_last)

lemma shutdown_step_stopped: "stopped p \<Longrightarrow> stopped (shutdown_step p)"
  by (cases "fp_phase p")
    (auto simp: shutdown_step_def Let_def stopped_def sessions_stopped_def modules_stopped_def stopRewardOperations_def close_reward_admission_def
      closeAdmission_def closeHookAdmission_def producers_done_def dest: done_all_over)

lemma modules_event_stopped:
  "modules_stopped n m \<Longrightarrow> modules_stopped n (processActionHooks k a m)" "modules_stopped n m \<Longrightarrow> modules_stopped n (hook_ends k m)"
  "modules_stopped n m \<Longrightarrow> modules_stopped n (request_load m)" "modules_stopped n m \<Longrightarrow> modules_stopped n (load_ends ok m)"
  by (auto simp: modules_stopped_def processActionHooks_def hook_ends_def request_load_def queueLoad_def load_ends_def Let_def split: list.split)

lemma sessions_event_stopped:
  assumes "sessions_stopped n s"
  shows "n < 13 \<Longrightarrow> sessions_stopped n (initialize_sessions s)" "sessions_stopped n (sessions_restored s)" "sessions_stopped n (start_session k s)"
    "sessions_stopped n (s\<lparr>sm_starting := removeAll k (sm_starting s)\<rparr>)" "sessions_stopped n (cleanup_tick k s)" "sessions_stopped n (process_timeouts k s)"
    "sessions_stopped n (s\<lparr>sm_timeouts := removeAll k (sm_timeouts s)\<rparr>)" "sessions_stopped n (admit_operation s)"
  using assms by (auto simp: sessions_stopped_def initialize_sessions_def sessions_restored_def start_session_def cleanup_tick_def process_timeouts_def
      admit_operation_def order_admit)

lemma sessions_ops_stopped:
  assumes "sessions_stopped n s"
  shows "sessions_stopped n (operation_begins i s)" "sessions_stopped n (operation_ends i s)"
proof -
  have over: "sm_ops s ! i = OpOver" if "n \<ge> 8" "i < length (sm_ops s)" using assms that by (auto simp: sessions_stopped_def)
  hence none: "n < 8" if "i < length (sm_ops s)" "sm_ops s ! i \<noteq> OpOver" using that by (meson not_le)
  show "sessions_stopped n (operation_begins i s)"
    using assms none order_begin[of "sm_ops s" i] by (auto simp: sessions_stopped_def operation_begins_def)
  show "sessions_stopped n (operation_ends i s)"
    using assms none order_end[of "sm_ops s" i] by (auto simp: sessions_stopped_def operation_ends_def)
qed

lemma request_stopped: "stopped p \<Longrightarrow> stopped (request_shutdown p)"
  by (auto simp: stopped_def request_shutdown_def sessions_stopped_def modules_stopped_def)

lemma process_step_stopped: "stopped p \<Longrightarrow> e \<noteq> InitializeP \<Longrightarrow> stopped (process_step e p)"
  by (cases e) (simp_all add: shutdown_step_stopped request_stopped, simp_all add: stopped_def on_sessions_def on_modules_def
      sessions_event_stopped sessions_ops_stopped modules_event_stopped)

lemma process_run_stopped: "stopped p \<Longrightarrow> InitializeP \<notin> set es \<Longrightarrow> stopped (process_run es p)"
  unfolding process_run_def by (induction es arbitrary: p) (simp_all add: process_step_stopped[OF _ not_sym])

lemma started_stopped: "stopped started_process"
  by (simp add: stopped_def started_process_def booting_process_def on_sessions_def new_session_gates_def initialize_sessions_def
      sessions_stopped_def modules_stopped_def ops_in_order_def)

text \<open>C2. A shutdown saves the sessions only when nothing can change them any more: from a process whose session manager
  has been initialized, under every order of requests, timers, hooks, loads and operations and whatever the steps of the shutdown wait for,
  when the sessions are saved no session is being started, no timeout sweep, reward operation, hook or load is in
  flight, and none of them can begin.\<close>

theorem shutdown_quiet_before_save:
  assumes "InitializeP \<notin> set es" "fp_phase (process_run es started_process) \<in> {SessionsSave, ServicesDispose, DatabaseCloses, Exited}"
  shows "let s = fp_sessions (process_run es started_process); m = fp_modules (process_run es started_process) in
    sm_starting s = [] \<and> sm_timeouts s = [] \<and> (\<forall>x \<in> set (sm_ops s). x = OpOver) \<and> mm_hookOps m = [] \<and> mm_loads m = [] \<and>
    start_session k s = s \<and> process_timeouts k s = s \<and> admit_operation s = s \<and> processActionHooks k a m = m \<and> request_load m = m \<and>
    \<not> assertSessionAdmissionReady m"
proof -
  have p: "stopped (process_run es started_process)" by (rule process_run_stopped[OF started_stopped assms(1)])
  have n: "11 \<le> shutdown_rank (fp_phase (process_run es started_process))" using assms(2) by auto
  show ?thesis using p n
    by (simp add: Let_def stopped_def sessions_stopped_def modules_stopped_def start_session_def process_timeouts_def admit_operation_def
        processActionHooks_def request_load_def assertSessionAdmissionReady_def)
qed

definition demo_shutdown :: "process_event list" where
  "demo_shutdown = [LoadEndsP True, RestoredP, StartP 1, AdmitP, BeginP 0, AdmitP, HookP 1 SessionStart, ShutdownP, ShutdownStepP, ShutdownStepP,
     ShutdownStepP, StartP 2, ShutdownStepP, ShutdownStepP, HookEndsP 1, ShutdownStepP, StartEndsP 1, ShutdownStepP, AdmitP, EndP 0, BeginP 1,
     EndP 1, ShutdownStepP, ShutdownStepP, ShutdownStepP, ShutdownStepP]"

theorem shutdown_quiet_before_save_witness:
  "fp_phase (process_run demo_shutdown started_process) = SessionsSave \<and> sm_starting (fp_sessions (process_run demo_shutdown started_process)) = [] \<and>
   mm_hookOps (fp_modules (process_run demo_shutdown started_process)) = []"
proof -
  have p: "fp_phase (process_run demo_shutdown started_process) = SessionsSave" by code_simp
  have "InitializeP \<notin> set demo_shutdown" by code_simp
  from shutdown_quiet_before_save[OF this, of 0 ClientConfig] p show ?thesis by (simp add: Let_def)
qed

text \<open>A shutdown that is asked for while the process starts is not safe in this way: the session manager opens again what
  the shutdown has closed.\<close>

lemma shutdown_during_start:
  "\<exists>es. (let p = process_run es booting_process in fp_phase p = SessionsSave \<and> sm_starting (fp_sessions p) \<noteq> [] \<and> sm_timeouts (fp_sessions p) \<noteq> [])"
proof
  show "let p = process_run ([ShutdownP, LoadEndsP True] @ replicate 5 ShutdownStepP @ [InitializeP] @ replicate 5 ShutdownStepP @ [StartP 1, SweepP 1]) booting_process in
    fp_phase p = SessionsSave \<and> sm_starting (fp_sessions p) \<noteq> [] \<and> sm_timeouts (fp_sessions p) \<noteq> []"
    by code_simp
qed

text \<open>Reward operations run one at a time, in the order in which they were admitted: in every state the process can
  reach, also one in which it is started or shut down, an operation that has begun is preceded by operations that are over only.\<close>

lemma reward_operations_serial:
  assumes "i < j" "j < length (sm_ops (fp_sessions (process_run es booting_process)))"
    "sm_ops (fp_sessions (process_run es booting_process)) ! j \<noteq> OpWaiting"
  shows "sm_ops (fp_sessions (process_run es booting_process)) ! i = OpOver"
proof -
  have "ops_in_order (sm_ops (fp_sessions booting_process))" by (simp add: booting_process_def new_session_gates_def ops_in_order_def)
  thus ?thesis using run_in_order[of booting_process es] assms by (simp add: ops_in_order_def)
qed

lemma reward_operations_serial_at:
  "sm_ops (fp_sessions (process_run [InitializeP, AdmitP, AdmitP, BeginP 1, BeginP 0, EndP 0, BeginP 1] booting_process)) ! 0 = OpOver"
proof -
  have "sm_ops (fp_sessions (process_run [InitializeP, AdmitP, AdmitP, BeginP 1, BeginP 0, EndP 0, BeginP 1] booting_process)) = [OpOver, OpRunning]"
    by code_simp
  thus ?thesis using reward_operations_serial[of 0 1 "[InitializeP, AdmitP, AdmitP, BeginP 1, BeginP 0, EndP 0, BeginP 1]"] by simp
qed

end
