(* ===== verification/Module_Loading.thy ===== *)
theory Module_Loading
  imports Faucet_Prelude
begin

text \<open>
  The life of a module (\<^verbatim>\<open>src/src/modules/BaseModule.ts\<close>) and the loading of the configured modules
  (\<^verbatim>\<open>src/src/modules/ModuleManager.ts\<close>).  Loads run one after the other.  What a module's own
  methods do (start, stop, reload, go on after the restore of the state) is whether they throw; of
  its hooks the model keeps whether any are registered.
\<close>

subsection \<open>Modules\<close>

datatype module_error = ThrownE string | StateE string string | AggregateE "module_error list"

datatype module_kind = DisabledM | StartingM | EnabledM bool | StoppingM bool | CleanupM bool

record 'c base_module =
  bm_kind :: module_kind
  bm_config :: "'c option"
  bm_hooked :: bool

definition new_module :: "'c base_module" where
  "new_module = \<lparr>bm_kind = DisabledM, bm_config = None, bm_hooked = False\<rparr>"

definition isEnabled :: "'c base_module \<Rightarrow> bool" where
  "isEnabled m \<longleftrightarrow> (case bm_kind m of EnabledM r \<Rightarrow> True | CleanupM r \<Rightarrow> True | _ \<Rightarrow> False)"

definition requiresCleanup :: "'c base_module \<Rightarrow> bool" where
  "requiresCleanup m \<longleftrightarrow> (case bm_kind m of CleanupM r \<Rightarrow> True | _ \<Rightarrow> False)"

text \<open>Each method returns the error it throws, if any, and the module.  An outcome is the error a method of the module
  throws; a start that fails may have registered hooks.\<close>

definition enableModule :: "string option \<Rightarrow> string option \<Rightarrow> 'c base_module \<Rightarrow> module_error option \<times> 'c base_module" where
  "enableModule start stop m = (if bm_kind m \<noteq> DisabledM then (Some (StateE ''cannot enable module'' ''''), m)
     else case start of
       None \<Rightarrow> (None, m\<lparr>bm_kind := EnabledM False, bm_hooked := True\<rparr>)
     | Some e \<Rightarrow> (case stop of
         None \<Rightarrow> (Some (ThrownE e), m\<lparr>bm_kind := DisabledM, bm_hooked := False\<rparr>)
       | Some e' \<Rightarrow> (Some (AggregateE [ThrownE e, ThrownE e']), m\<lparr>bm_kind := CleanupM False, bm_hooked := False\<rparr>)))"

definition disableModule :: "string option \<Rightarrow> 'c base_module \<Rightarrow> module_error option \<times> 'c base_module" where
  "disableModule stop m = (case (case bm_kind m of EnabledM r \<Rightarrow> Some r | CleanupM r \<Rightarrow> Some r | _ \<Rightarrow> None) of
      None \<Rightarrow> (Some (StateE ''cannot disable module'' ''''), m)
    | Some r \<Rightarrow> (case stop of
        None \<Rightarrow> (None, m\<lparr>bm_kind := DisabledM, bm_hooked := False\<rparr>)
      | Some e \<Rightarrow> (Some (ThrownE e), m\<lparr>bm_kind := CleanupM r, bm_hooked := False\<rparr>)))"

text \<open>\<^verbatim>\<open>setModuleConfig\<close>; \<open>next\<close> is the configuration over the module's defaults.\<close>

definition setModuleConfig :: "'c \<Rightarrow> string option \<Rightarrow> string option \<Rightarrow> 'c base_module \<Rightarrow> module_error option \<times> 'c base_module" where
  "setModuleConfig nextConfig reload restore m = (case bm_kind m of
      DisabledM \<Rightarrow> (None, m\<lparr>bm_config := Some nextConfig\<rparr>)
    | EnabledM r \<Rightarrow> (case reload of
        None \<Rightarrow> (None, m\<lparr>bm_config := Some nextConfig\<rparr>)
      | Some e \<Rightarrow> (case restore of
          None \<Rightarrow> (Some (ThrownE e), m)
        | Some e' \<Rightarrow> (Some (AggregateE [ThrownE e, ThrownE e']), m\<lparr>bm_kind := CleanupM r, bm_hooked := False\<rparr>)))
    | _ \<Rightarrow> (Some (StateE ''cannot configure module'' ''''), m))"

definition activateAfterStateRestore :: "string option \<Rightarrow> 'c base_module \<Rightarrow> module_error option \<times> 'c base_module" where
  "activateAfterStateRestore outcome m = (case bm_kind m of
      EnabledM True \<Rightarrow> (None, m)
    | EnabledM False \<Rightarrow> (case outcome of
        None \<Rightarrow> (None, m\<lparr>bm_kind := EnabledM True\<rparr>)
      | Some e \<Rightarrow> (Some (ThrownE e), m\<lparr>bm_kind := CleanupM False, bm_hooked := False\<rparr>))
    | _ \<Rightarrow> (Some (StateE ''cannot activate module'' ''''), m))"

subsection \<open>Loading\<close>

text \<open>What the methods of one module throw during a load, and whether the state is restored when its turn is over.\<close>

record module_calls =
  mc_cleanup :: "string option"
  mc_reload :: "string option"
  mc_restore :: "string option"
  mc_start :: "string option"
  mc_rollback :: "string option"
  mc_activate :: "string option"
  mc_ready :: bool

record module_failure =
  mf_module :: string
  mf_operation :: string
  mf_error :: module_error

text \<open>The \<^verbatim>\<open>try\<close> block of a configured module: each call is made when the ones before it threw nothing.\<close>

definition and_then :: "module_error option \<times> 'm \<Rightarrow> ('m \<Rightarrow> module_error option \<times> 'm) \<Rightarrow> module_error option \<times> 'm" where
  "and_then r f = (case r of (Some e, m) \<Rightarrow> (Some e, m) | (None, m) \<Rightarrow> f m)"

definition load_module :: "module_calls \<Rightarrow> 'c \<Rightarrow> 'c base_module \<Rightarrow> module_error option \<times> 'c base_module" where
  "load_module calls nextConfig m =
     and_then (and_then (and_then
       (if requiresCleanup m then disableModule (mc_cleanup calls) m else (None, m))
       (setModuleConfig nextConfig (mc_reload calls) (mc_restore calls)))
       (\<lambda>m. if isEnabled m then (None, m) else enableModule (mc_start calls) (mc_rollback calls) m))
       (\<lambda>m. if mc_ready calls then activateAfterStateRestore (mc_activate calls) m else (None, m))"

record 'c load_state =
  ls_loaded :: "(string, 'c base_module) jsmap"
  ls_rest :: "(string, 'c base_module) jsmap"
  ls_failures :: "module_failure list"

text \<open>\<^verbatim>\<open>known\<close> is whether there is a class for the name; \<^verbatim>\<open>defaults\<close> lays a configuration over the module's own.\<close>

definition found_module :: "(string \<Rightarrow> bool) \<Rightarrow> string \<Rightarrow> 'c load_state \<Rightarrow> 'c base_module option" where
  "found_module known name s = (case js_get (ls_rest s) name of
      Some m \<Rightarrow> Some m
    | None \<Rightarrow> if known name then Some new_module else None)"

definition load_configured :: "(string \<Rightarrow> bool) \<Rightarrow> (string \<Rightarrow> 'c \<Rightarrow> 'c) \<Rightarrow> (string \<Rightarrow> module_calls) \<Rightarrow> string \<times> bool \<times> 'c \<Rightarrow> 'c load_state \<Rightarrow> 'c load_state" where
  "load_configured known defaults calls entry s = (case entry of (name, enabled, c) \<Rightarrow>
     if \<not> enabled then s
     else (case found_module known name s of
         None \<Rightarrow> s
       | Some m \<Rightarrow> (case load_module (calls name) (defaults name c) m of (thrown, m') \<Rightarrow>
           s\<lparr>ls_loaded := js_set name m' (ls_loaded s), ls_rest := js_delete name (ls_rest s),
             ls_failures := ls_failures s @ (case thrown of None \<Rightarrow> []
               | Some e \<Rightarrow> [\<lparr>mf_module = name, mf_operation = (if isEnabled m' then ''reload'' else ''start''), mf_error = e\<rparr>])\<rparr>)))"

text \<open>A module that is stopped is forgotten, unless its stop throws.\<close>

definition unload :: "(string \<Rightarrow> module_calls) \<Rightarrow> string \<times> 'c base_module \<Rightarrow> 'c load_state \<Rightarrow> 'c load_state" where
  "unload calls entry s = (case entry of (name, m) \<Rightarrow>
     if \<not> isEnabled m then s\<lparr>ls_loaded := js_delete name (ls_loaded s)\<rparr>
     else (case disableModule (mc_cleanup (calls name)) m of
         (None, m') \<Rightarrow> s\<lparr>ls_loaded := js_delete name (ls_loaded s)\<rparr>
       | (Some e, m') \<Rightarrow> s\<lparr>ls_loaded := js_set name m' (ls_loaded s), ls_failures := ls_failures s @ [\<lparr>mf_module = name, mf_operation = ''stop'', mf_error = e\<rparr>]\<rparr>))"

definition loadModules :: "(string \<Rightarrow> bool) \<Rightarrow> (string \<Rightarrow> 'c \<Rightarrow> 'c) \<Rightarrow> (string \<Rightarrow> module_calls) \<Rightarrow> (string \<times> bool \<times> 'c) list \<Rightarrow>
    (string, 'c base_module) jsmap \<Rightarrow> module_failure list \<times> (string, 'c base_module) jsmap" where
  "loadModules known defaults calls cfg loaded = (let
      s = fold (load_configured known defaults calls) cfg \<lparr>ls_loaded = loaded, ls_rest = loaded, ls_failures = []\<rparr>;
      s = fold (unload calls) (ls_rest s) s
    in (ls_failures s, ls_loaded s))"

definition activate_module :: "(string \<Rightarrow> module_calls) \<Rightarrow> string \<times> 'c base_module \<Rightarrow> 'c load_state \<Rightarrow> 'c load_state" where
  "activate_module calls entry s = (case entry of (name, m) \<Rightarrow>
     if \<not> isEnabled m \<or> requiresCleanup m then s
     else (case activateAfterStateRestore (mc_activate (calls name)) m of (thrown, m') \<Rightarrow>
       s\<lparr>ls_loaded := js_set name m' (ls_loaded s), ls_failures := ls_failures s @ (case thrown of None \<Rightarrow> []
           | Some e \<Rightarrow> [\<lparr>mf_module = name, mf_operation = ''activate after state restore'', mf_error = e\<rparr>])\<rparr>))"

definition activateLoadedModules :: "(string \<Rightarrow> module_calls) \<Rightarrow> (string, 'c base_module) jsmap \<Rightarrow> module_failure list \<times> (string, 'c base_module) jsmap" where
  "activateLoadedModules calls loaded = (let
      s = fold (activate_module calls) loaded \<lparr>ls_loaded = loaded, ls_rest = [], ls_failures = []\<rparr> in (ls_failures s, ls_loaded s))"

text \<open>The loops of \<^verbatim>\<open>dispose\<close> and of an \<^verbatim>\<open>initialize\<close> that failed.\<close>

definition stopModules :: "(string \<Rightarrow> module_calls) \<Rightarrow> (string, 'c base_module) jsmap \<Rightarrow> module_failure list \<times> (string, 'c base_module) jsmap" where
  "stopModules calls loaded = (let
      s = fold (unload calls) loaded \<lparr>ls_loaded = loaded, ls_rest = [], ls_failures = []\<rparr> in (ls_failures s, ls_loaded s))"

datatype 'c module_event =
    LoadM "(string \<times> bool \<times> 'c) list" "string \<Rightarrow> module_calls"
  | ActivateM "string \<Rightarrow> module_calls"
  | StopM "string \<Rightarrow> module_calls"

fun module_step :: "(string \<Rightarrow> bool) \<Rightarrow> (string \<Rightarrow> 'c \<Rightarrow> 'c) \<Rightarrow> 'c module_event \<Rightarrow> (string, 'c base_module) jsmap \<Rightarrow> (string, 'c base_module) jsmap" where
  "module_step known defaults (LoadM cfg calls) loaded = snd (loadModules known defaults calls cfg loaded)"
| "module_step known defaults (ActivateM calls) loaded = snd (activateLoadedModules calls loaded)"
| "module_step known defaults (StopM calls) loaded = snd (stopModules calls loaded)"

definition module_run :: "(string \<Rightarrow> bool) \<Rightarrow> (string \<Rightarrow> 'c \<Rightarrow> 'c) \<Rightarrow> 'c module_event list \<Rightarrow> (string, 'c base_module) jsmap" where
  "module_run known defaults es = fold (module_step known defaults) es []"

subsection \<open>Modules between loads\<close>

text \<open>Between loads a module is disabled, enabled or waits for another attempt to stop it, and it has hooks exactly if it is enabled.\<close>

definition settled_module :: "'c base_module \<Rightarrow> bool" where
  "settled_module m \<longleftrightarrow> (case bm_kind m of StartingM \<Rightarrow> False | StoppingM r \<Rightarrow> False | EnabledM r \<Rightarrow> bm_hooked m | _ \<Rightarrow> \<not> bm_hooked m)"

definition modules_settled :: "(string \<Rightarrow> bool) \<Rightarrow> (string, 'c base_module) jsmap \<Rightarrow> bool" where
  "modules_settled known loaded \<longleftrightarrow> js_map_ok loaded \<and> (\<forall>name m. js_get loaded name = Some m \<longrightarrow> known name \<and> settled_module m)"

text \<open>A module as a load wants it.\<close>

definition loaded_as :: "bool \<Rightarrow> 'c \<Rightarrow> 'c base_module \<Rightarrow> bool" where
  "loaded_as ready c m \<longleftrightarrow> (\<exists>r. bm_kind m = EnabledM r \<and> (ready \<longrightarrow> r)) \<and> bm_config m = Some c \<and> bm_hooked m"

lemmas module_ops = enableModule_def disableModule_def setModuleConfig_def activateAfterStateRestore_def isEnabled_def requiresCleanup_def

lemma new_settled [simp]: "settled_module new_module"
  by (simp add: settled_module_def new_module_def)

lemma ops_settled:
  assumes "settled_module m"
  shows "settled_module (snd (enableModule a b m))" "settled_module (snd (disableModule a m))"
    "settled_module (snd (setModuleConfig c a b m))" "settled_module (snd (activateAfterStateRestore a m))"
  using assms by (auto simp: module_ops settled_module_def split: module_kind.splits option.splits bool.splits)

lemma and_then_settled: "settled_module (snd r) \<Longrightarrow> (\<And>m. settled_module m \<Longrightarrow> settled_module (snd (f m))) \<Longrightarrow> settled_module (snd (and_then r f))"
  by (cases r) (auto simp: and_then_def split: option.split)

lemma load_settled: "settled_module m \<Longrightarrow> settled_module (snd (load_module calls c m))"
  unfolding load_module_def by (intro and_then_settled) (auto simp: ops_settled)

lemma and_then_None: "fst (and_then r f) = None \<longleftrightarrow> fst r = None \<and> fst (f (snd r)) = None"
  by (cases r) (auto simp: and_then_def split: option.split)

lemma and_then_snd: "fst r = None \<Longrightarrow> and_then r f = f (snd r)"
  by (cases r) (simp add: and_then_def)

lemma loaded_any [simp]: "loaded_as False c m \<longleftrightarrow> (\<exists>r. bm_kind m = EnabledM r) \<and> bm_config m = Some c \<and> bm_hooked m"
  by (simp add: loaded_as_def)

lemma enable_exact: "bm_kind m = DisabledM \<Longrightarrow> fst (enableModule a b m) = None \<Longrightarrow> snd (enableModule a b m) = m\<lparr>bm_kind := EnabledM False, bm_hooked := True\<rparr>"
  by (simp add: enableModule_def split: option.splits)

lemma activate_exact:
  "loaded_as False c m \<Longrightarrow> fst (activateAfterStateRestore a m) = None \<Longrightarrow> loaded_as True c (snd (activateAfterStateRestore a m))"
  by (auto simp: loaded_as_def activateAfterStateRestore_def split: module_kind.splits option.splits bool.splits)

text \<open>What a module is before it is activated.\<close>

lemma ready_exact:
  assumes m: "settled_module m"
    and ok: "fst (and_then (and_then (if requiresCleanup m then disableModule a m else (None, m)) (setModuleConfig c b d))
       (\<lambda>m. if isEnabled m then (None, m) else enableModule e f m)) = None"
  shows "loaded_as False c (snd (and_then (and_then (if requiresCleanup m then disableModule a m else (None, m)) (setModuleConfig c b d))
       (\<lambda>m. if isEnabled m then (None, m) else enableModule e f m)))"
proof (cases "bm_kind m")
  case DisabledM
  thus ?thesis using ok by (auto simp: and_then_def requiresCleanup_def setModuleConfig_def isEnabled_def enable_exact)
next
  case (EnabledM r)
  hence "bm_hooked m" using m by (simp add: settled_module_def)
  thus ?thesis using EnabledM ok by (simp add: and_then_def requiresCleanup_def setModuleConfig_def isEnabled_def split: option.splits)
next
  case (CleanupM r)
  show ?thesis
  proof (cases a)
    case None
    thus ?thesis using CleanupM ok
      by (auto simp: and_then_def requiresCleanup_def disableModule_def setModuleConfig_def isEnabled_def enable_exact)
  next
    case (Some x)
    thus ?thesis using CleanupM ok by (simp add: and_then_def requiresCleanup_def disableModule_def)
  qed
qed (use m in \<open>simp_all add: settled_module_def\<close>)

lemma load_exact:
  assumes m: "settled_module m" and ok: "fst (load_module calls c m) = None"
  shows "loaded_as (mc_ready calls) c (snd (load_module calls c m))"
proof -
  let ?r = "and_then (and_then (if requiresCleanup m then disableModule (mc_cleanup calls) m else (None, m))
    (setModuleConfig c (mc_reload calls) (mc_restore calls))) (\<lambda>m. if isEnabled m then (None, m) else enableModule (mc_start calls) (mc_rollback calls) m)"
  have load: "load_module calls c m = and_then ?r (\<lambda>m. if mc_ready calls then activateAfterStateRestore (mc_activate calls) m else (None, m))"
    by (simp only: load_module_def)
  have r: "fst ?r = None" using ok unfolding load and_then_None by blast
  have exact: "loaded_as False c (snd ?r)" by (rule ready_exact[OF m r])
  show ?thesis
  proof (cases "mc_ready calls")
    case True
    have "fst (activateAfterStateRestore (mc_activate calls) (snd ?r)) = None" using ok True unfolding load and_then_None by simp
    from activate_exact[OF exact this] show ?thesis unfolding load and_then_snd[OF r] using True by simp
  next
    case False
    thus ?thesis using exact unfolding load and_then_snd[OF r] by simp
  qed
qed

subsection \<open>Loads\<close>

abbreviation names :: "(string \<times> 'b) list \<Rightarrow> string set" where
  "names xs \<equiv> fst ` set xs"

lemma configured_other:
  "\<forall>c. (n, True, c) \<notin> set cfg \<Longrightarrow> js_get (ls_loaded (fold (load_configured known defaults calls) cfg s)) n = js_get (ls_loaded s) n \<and>
   js_get (ls_rest (fold (load_configured known defaults calls) cfg s)) n = js_get (ls_rest s) n"
  by (induction cfg arbitrary: s) (auto simp: load_configured_def split: option.split prod.split)

lemma configured_failures: "set (ls_failures s) \<subseteq> set (ls_failures (fold (load_configured known defaults calls) cfg s))"
proof (induction cfg arbitrary: s)
  case (Cons e cfg)
  have "set (ls_failures s) \<subseteq> set (ls_failures (load_configured known defaults calls e s))"
    by (auto simp: load_configured_def split: option.split prod.split)
  thus ?case using Cons.IH by fastforce
qed simp

lemma configured_entry:
  assumes "distinct (map fst cfg)" "(n, True, c) \<in> set cfg" "found_module known n s = Some m" "load_module (calls n) (defaults n c) m = (thrown, m')"
  shows "let s' = fold (load_configured known defaults calls) cfg s in js_get (ls_loaded s') n = Some m' \<and> js_get (ls_rest s') n = None \<and>
    (thrown \<noteq> None \<longrightarrow> (\<exists>f \<in> set (ls_failures s'). mf_module f = n))"
  using assms(1-3)
proof (induction cfg arbitrary: s)
  case (Cons e cfg)
  let ?s = "load_configured known defaults calls e s"
  show ?case
  proof (cases "e = (n, True, c)")
    case True
    have "js_get (ls_loaded ?s) n = Some m' \<and> js_get (ls_rest ?s) n = None \<and> (thrown \<noteq> None \<longrightarrow> (\<exists>f \<in> set (ls_failures ?s). mf_module f = n))"
      using True Cons.prems(3) assms(4) by (auto simp: load_configured_def split: option.splits)
    moreover have "\<forall>c. (n, True, c) \<notin> set cfg" using Cons.prems(1) True by force
    ultimately show ?thesis using configured_other[of n cfg known defaults calls ?s] configured_failures[of ?s known defaults calls cfg]
      by (auto simp: Let_def)
  next
    case False
    hence e1: "(n, True, c) \<in> set cfg" using Cons.prems by simp
    moreover have "fst e \<notin> names cfg" using Cons.prems(1) by simp
    ultimately have e: "(n, True, c) \<in> set cfg" "fst e \<noteq> n" by (auto simp: image_iff)
    have "js_get (ls_rest ?s) n = js_get (ls_rest s) n" using e(2) by (auto simp: load_configured_def split: option.split prod.split)
    hence "found_module known n ?s = Some m" using Cons.prems(3) by (simp add: found_module_def)
    thus ?thesis using Cons.IH[of ?s] Cons.prems(1) e(1) by simp
  qed
qed simp

lemma settled_tail:
  assumes "modules_settled known ((n, m) # xs)"
  shows "known n \<and> settled_module m \<and> modules_settled known xs"
proof -
  have n: "n \<notin> names xs" using assms by (simp add: modules_settled_def)
  have at: "known k \<and> settled_module a" if "js_get ((n, m) # xs) k = Some a" for k a
    using assms that unfolding modules_settled_def by blast
  have "known k \<and> settled_module a" if "js_get xs k = Some a" for k a
  proof -
    have "k \<noteq> n" using n map_of_SomeD[OF that] by force
    thus ?thesis using at[of k a] that by simp
  qed
  thus ?thesis using at[of n m] assms by (simp add: modules_settled_def)
qed

lemma configured_settled:
  "modules_settled known (ls_loaded s) \<Longrightarrow> modules_settled known (ls_rest s) \<Longrightarrow>
   modules_settled known (ls_loaded (fold (load_configured known defaults calls) cfg s)) \<and>
   modules_settled known (ls_rest (fold (load_configured known defaults calls) cfg s))"
proof (induction cfg arbitrary: s)
  case (Cons e cfg)
  obtain n en c where e: "e = (n, en, c)" by (cases e)
  let ?s = "load_configured known defaults calls e s"
  have "modules_settled known (ls_loaded ?s) \<and> modules_settled known (ls_rest ?s)"
  proof (cases "en \<and> found_module known n s \<noteq> None")
    case True
    then obtain m where m: "found_module known n s = Some m" by blast
    have "known n \<and> settled_module m" using m Cons.prems(2) by (auto simp: found_module_def modules_settled_def split: option.splits if_splits)
    moreover from this have "settled_module (snd (load_module (calls n) (defaults n c) m))" by (simp add: load_settled)
    ultimately show ?thesis using Cons.prems m True e by (auto simp: load_configured_def modules_settled_def split: prod.split)
  next
    case False
    thus ?thesis using Cons.prems e by (auto simp: load_configured_def)
  qed
  thus ?case using Cons.IH by simp
qed simp

lemma unload_other: "n \<notin> names xs \<Longrightarrow> js_get (ls_loaded (fold (unload calls) xs s)) n = js_get (ls_loaded s) n"
  by (induction xs arbitrary: s) (auto simp: unload_def split: option.split prod.split)

lemma unload_failures: "set (ls_failures s) \<subseteq> set (ls_failures (fold (unload calls) xs s))"
proof (induction xs arbitrary: s)
  case (Cons e xs)
  have "set (ls_failures s) \<subseteq> set (ls_failures (unload calls e s))" by (auto simp: unload_def split: option.split prod.split)
  thus ?case using Cons.IH by fastforce
qed simp

lemma unload_entry:
  assumes "js_map_ok xs" "(n, m) \<in> set xs"
  shows "js_get (ls_loaded (fold (unload calls) xs s)) n = None \<or>
    (\<exists>m'. js_get (ls_loaded (fold (unload calls) xs s)) n = Some m' \<and> requiresCleanup m' \<and> (\<exists>f \<in> set (ls_failures (fold (unload calls) xs s)). mf_module f = n))"
  using assms
proof (induction xs arbitrary: s)
  case (Cons e xs)
  let ?s = "unload calls e s"
  show ?case
  proof (cases "e = (n, m)")
    case True
    have "js_get (ls_loaded ?s) n = None \<or>
      (\<exists>m'. js_get (ls_loaded ?s) n = Some m' \<and> requiresCleanup m' \<and> (\<exists>f \<in> set (ls_failures ?s). mf_module f = n))"
      using True by (auto simp: unload_def disableModule_def isEnabled_def requiresCleanup_def split: option.splits module_kind.splits)
    moreover have "n \<notin> names xs" using Cons.prems(1) True by simp
    ultimately show ?thesis using unload_other[of n xs calls ?s] unload_failures[of ?s calls xs] by auto
  next
    case False
    thus ?thesis using Cons.IH[of ?s] Cons.prems by simp
  qed
qed simp

lemma unload_settled: "modules_settled known (ls_loaded s) \<Longrightarrow> modules_settled known xs \<Longrightarrow> modules_settled known (ls_loaded (fold (unload calls) xs s))"
proof (induction xs arbitrary: s)
  case (Cons e xs)
  obtain n m where e: "e = (n, m)" by fastforce
  have m: "known n \<and> settled_module m" using settled_tail[OF Cons.prems(2)[unfolded e]] by simp
  hence "settled_module (snd (disableModule (mc_cleanup (calls n)) m))" by (simp add: ops_settled)
  hence s: "modules_settled known (ls_loaded (unload calls e s))"
    using Cons.prems(1) e m by (auto simp: unload_def modules_settled_def split: prod.split option.split)
  thus ?case using Cons.IH[OF s] settled_tail[OF Cons.prems(2)[unfolded e]] by simp
qed simp

lemma activate_settled: "modules_settled known (ls_loaded s) \<Longrightarrow> modules_settled known xs \<Longrightarrow> modules_settled known (ls_loaded (fold (activate_module calls) xs s))"
proof (induction xs arbitrary: s)
  case (Cons e xs)
  obtain n m where e: "e = (n, m)" by fastforce
  have m: "known n \<and> settled_module m" using settled_tail[OF Cons.prems(2)[unfolded e]] by simp
  hence "settled_module (snd (activateAfterStateRestore (mc_activate (calls n)) m))" by (simp add: ops_settled)
  hence s: "modules_settled known (ls_loaded (activate_module calls e s))"
    using Cons.prems(1) e m by (auto simp: activate_module_def modules_settled_def split: prod.split option.split)
  thus ?case using Cons.IH[OF s] settled_tail[OF Cons.prems(2)[unfolded e]] by simp
qed simp

lemma loaded_settled:
  assumes "modules_settled known loaded"
  shows "modules_settled known (snd (loadModules known defaults calls cfg loaded))"
proof -
  let ?s = "fold (load_configured known defaults calls) cfg \<lparr>ls_loaded = loaded, ls_rest = loaded, ls_failures = []\<rparr>"
  have "modules_settled known (ls_loaded ?s) \<and> modules_settled known (ls_rest ?s)"
    by (rule configured_settled) (use assms in simp_all)
  hence "modules_settled known (ls_loaded (fold (unload calls) (ls_rest ?s) ?s))" by (blast intro: unload_settled)
  thus ?thesis unfolding loadModules_def Let_def by simp
qed

lemma module_step_settled:
  assumes L: "modules_settled known loaded"
  shows "modules_settled known (module_step known defaults e loaded)"
proof (cases e)
  case (LoadM cfg calls)
  show ?thesis unfolding LoadM module_step.simps by (rule loaded_settled[OF L])
next
  case (ActivateM calls)
  show ?thesis unfolding ActivateM module_step.simps activateLoadedModules_def Let_def snd_conv
    by (rule activate_settled) (use L in simp_all)
next
  case (StopM calls)
  show ?thesis unfolding StopM module_step.simps stopModules_def Let_def snd_conv
    by (rule unload_settled) (use L in simp_all)
qed

lemma module_run_settled: "modules_settled known (module_run known defaults es)"
proof -
  have "modules_settled known loaded \<Longrightarrow> modules_settled known (fold (module_step known defaults) es loaded)" for loaded
  proof (induction es arbitrary: loaded)
    case (Cons e es)
    show ?case unfolding fold_Cons o_apply by (rule Cons.IH[OF module_step_settled[OF Cons.prems]])
  qed simp
  moreover have "modules_settled known []" by (simp add: modules_settled_def)
  ultimately show ?thesis unfolding module_run_def by blast
qed

text \<open>C14. A load does what the configuration says, one module at a time.  Whatever was loaded, activated and stopped before and
  whichever of the modules' methods throw: afterwards a module that is configured, enabled and known is enabled with this configuration
  and its hooks, or its failure is reported; every other module is gone, or its failure is reported and it is kept for another
  attempt to stop it; no module is half started or stopped; and a module has hooks exactly if it is enabled.\<close>

theorem module_load_exact:
  assumes "distinct (map fst cfg)"
  shows "let before = module_run known defaults es; (failures, loaded) = loadModules known defaults calls cfg before in
    modules_settled known loaded \<and>
    (\<forall>name c. (name, True, c) \<in> set cfg \<and> known name \<longrightarrow> (\<exists>f \<in> set failures. mf_module f = name) \<or>
       (\<exists>m. js_get loaded name = Some m \<and> loaded_as (mc_ready (calls name)) (defaults name c) m)) \<and>
    (\<forall>name. (\<forall>c. (name, True, c) \<notin> set cfg) \<longrightarrow> js_get loaded name = None \<or>
       (\<exists>m. js_get loaded name = Some m \<and> requiresCleanup m \<and> (\<exists>f \<in> set failures. mf_module f = name)))"
proof -
  let ?L = "module_run known defaults es"
  let ?init = "\<lparr>ls_loaded = ?L, ls_rest = ?L, ls_failures = []\<rparr>"
  let ?s = "fold (load_configured known defaults calls) cfg ?init"
  let ?t = "fold (unload calls) (ls_rest ?s) ?s"
  have L: "modules_settled known ?L" by (rule module_run_settled)
  have s: "modules_settled known (ls_loaded ?s) \<and> modules_settled known (ls_rest ?s)" by (rule configured_settled) (use L in simp_all)
  have t: "modules_settled known (ls_loaded ?t)" using s by (blast intro: unload_settled)
  have wanted: "(\<exists>f \<in> set (ls_failures ?t). mf_module f = n) \<or> (\<exists>m. js_get (ls_loaded ?t) n = Some m \<and> loaded_as (mc_ready (calls n)) (defaults n c) m)"
    if n: "(n, True, c) \<in> set cfg" "known n" for n c
  proof -
    have "found_module known n ?init \<noteq> None" using n(2) by (simp add: found_module_def split: option.split)
    then obtain m where m: "found_module known n ?init = Some m" by blast
    have "settled_module m" using m L by (auto simp: found_module_def modules_settled_def split: option.splits if_splits)
    moreover obtain thrown m' where load: "load_module (calls n) (defaults n c) m = (thrown, m')" by fastforce
    ultimately have "thrown = None \<Longrightarrow> loaded_as (mc_ready (calls n)) (defaults n c) m'" using load_exact[of m "calls n" "defaults n c"] by simp
    moreover have e: "js_get (ls_loaded ?s) n = Some m'" "js_get (ls_rest ?s) n = None" "thrown \<noteq> None \<longrightarrow> (\<exists>f \<in> set (ls_failures ?s). mf_module f = n)"
      using configured_entry[where calls = calls and defaults = defaults, OF assms n(1) m load] by (simp_all add: Let_def)
    moreover have "n \<notin> names (ls_rest ?s)" using e(2) by (simp add: map_of_eq_None_iff)
    ultimately show ?thesis using unload_other[of n "ls_rest ?s" calls ?s] unload_failures[of ?s calls "ls_rest ?s"] by auto
  qed
  have gone: "js_get (ls_loaded ?t) n = None \<or> (\<exists>m. js_get (ls_loaded ?t) n = Some m \<and> requiresCleanup m \<and> (\<exists>f \<in> set (ls_failures ?t). mf_module f = n))"
    if n: "\<forall>c. (n, True, c) \<notin> set cfg" for n
  proof -
    have same: "js_get (ls_loaded ?s) n = js_get ?L n" "js_get (ls_rest ?s) n = js_get ?L n"
      using configured_other[OF n, of known defaults calls ?init] by simp_all
    show ?thesis
    proof (cases "js_get ?L n")
      case None
      hence "js_get (ls_rest ?s) n = None" using same(2) by simp
      hence "n \<notin> names (ls_rest ?s)" by (rule map_of_eq_None_iff[THEN iffD1])
      thus ?thesis using unload_other[of n "ls_rest ?s" calls ?s] same(1) None by simp
    next
      case (Some m)
      hence "(n, m) \<in> set (ls_rest ?s)" using same(2) by (simp add: map_of_SomeD)
      moreover have "js_map_ok (ls_rest ?s)" using s by (simp add: modules_settled_def)
      ultimately show ?thesis using unload_entry[of "ls_rest ?s" n m calls ?s] by blast
    qed
  qed
  show ?thesis using t wanted gone unfolding loadModules_def Let_def by auto
qed

definition demo_calls :: "bool \<Rightarrow> module_calls" where
  "demo_calls bad = \<lparr>mc_cleanup = (if bad then Some ''stuck'' else None), mc_reload = None, mc_restore = None, mc_start = None, mc_rollback = None,
     mc_activate = None, mc_ready = True\<rparr>"

text \<open>A module is reloaded, another one is taken out of the configuration and cannot be stopped.\<close>

theorem module_load_exact_witness:
  "\<exists>m. js_get (snd (loadModules (\<lambda>_. True) (\<lambda>_ c. c) (\<lambda>n. demo_calls (n = ''b'')) [(''a'', True, 2::int)]
      (module_run (\<lambda>_. True) (\<lambda>_ c. c) [LoadM [(''a'', True, 1), (''b'', True, 1)] (\<lambda>_. demo_calls False)]))) ''a'' = Some m \<and> loaded_as True 2 m"
proof -
  let ?r = "loadModules (\<lambda>_. True) (\<lambda>_ c. c) (\<lambda>n. demo_calls (n = ''b'')) [(''a'', True, 2::int)]
      (module_run (\<lambda>_. True) (\<lambda>_ c. c) [LoadM [(''a'', True, 1), (''b'', True, 1)] (\<lambda>_. demo_calls False)])"
  have f: "map mf_module (fst ?r) = [''b'']" by code_simp
  obtain failures loaded where r: "?r = (failures, loaded)" by fastforce
  have "distinct (map fst [(''a'', True, 2::int)])" by simp
  from module_load_exact[OF this, of "\<lambda>_. True" "\<lambda>_ c. c" "[LoadM [(''a'', True, 1), (''b'', True, 1)] (\<lambda>_. demo_calls False)]" "\<lambda>n. demo_calls (n = ''b'')"]
  have "(\<exists>f \<in> set failures. mf_module f = ''a'') \<or> (\<exists>m. js_get loaded ''a'' = Some m \<and> loaded_as (mc_ready (demo_calls False)) 2 m)"
    unfolding Let_def r prod.case by force
  moreover have "\<not> (\<exists>f \<in> set failures. mf_module f = ''a'')"
  proof
    assume "\<exists>f \<in> set failures. mf_module f = ''a''"
    hence "''a'' \<in> set (map mf_module (fst ?r))" using r by force
    thus False unfolding f by simp
  qed
  ultimately show ?thesis unfolding r by (simp only: demo_calls_def module_calls.simps snd_conv simp_thms)
qed

end
