(* ===== verification/Wallet_Refill.thy ===== *)
theory Wallet_Refill
  imports Faucet_Prelude
begin

text \<open>
  \<^verbatim>\<open>src/src/eth/EthWalletRefill.ts\<close>: the wallet is refilled from a vault contract when its balance,
  less what is promised to sessions, falls below a trigger, and what is above an overflow balance is
  deposited there.  The method is cut at its awaits; the answers of the database, the contract and
  the wallet are events, with the clock where the code reads it.
\<close>

subsection \<open>State\<close>

text \<open>Amounts as the source reads them with \<^verbatim>\<open>BigInt\<close>; an absent or empty entry is \<^verbatim>\<open>None\<close>.\<close>

record refill_config =
  rc_cooldownTime :: int
  rc_overflowBalance :: "int option"
  rc_triggerBalance :: int
  rc_requestAmount :: int
  rc_allowanceFn :: bool
  rc_checkContractBalance :: bool
  rc_contractDustBalance :: "int option"

datatype refill_action = RefillAction | OverflowAction

text \<open>What \<^verbatim>\<open>tryRefillWallet\<close> waits for: the unclaimed balance, the allowance, the balance of the contract, the
  transaction being sent, its receipt.\<close>

datatype refill_phase = IdleR | BalanceR | AllowanceR int | ContractR int | SendR refill_action int | ReceiptR

text \<open>A time of 0 is that of a field not yet set, as in the source.\<close>

record refill_state =
  rs_lastRefill :: int
  rs_lastTry :: int
  rs_phase :: refill_phase
  rs_sent :: "(int \<times> refill_action \<times> int) list"

definition new_refill :: refill_state where
  "new_refill = \<lparr>rs_lastRefill = 0, rs_lastTry = 0, rs_phase = IdleR, rs_sent = []\<rparr>"

definition at_phase :: "refill_phase \<Rightarrow> refill_state \<Rightarrow> refill_state" where
  "at_phase p r = r\<lparr>rs_phase := p\<rparr>"

subsection \<open>Steps\<close>

text \<open>\<^verbatim>\<open>processWalletRefill\<close>: one attempt at a time, one a minute, and none during the cooldown.\<close>

definition processWalletRefill :: "refill_config option \<Rightarrow> int \<Rightarrow> refill_state \<Rightarrow> refill_state" where
  "processWalletRefill cfg now r = (if rs_phase r \<noteq> IdleR then r
     else case cfg of
       None \<Rightarrow> r
     | Some c \<Rightarrow>
         if rs_lastTry r \<noteq> 0 \<and> now - rs_lastTry r < 60 then r
         else if rs_lastRefill r \<noteq> 0 \<and> rc_cooldownTime c \<noteq> 0 \<and> now - rs_lastRefill r < rc_cooldownTime c then r
         else at_phase BalanceR (r\<lparr>rs_lastTry := now\<rparr>))"

definition refill_action_of :: "refill_config \<Rightarrow> int \<Rightarrow> refill_action option" where
  "refill_action_of c walletBalance =
     (if (case rc_overflowBalance c of None \<Rightarrow> False | Some b \<Rightarrow> walletBalance > b) then Some OverflowAction
      else if walletBalance < rc_triggerBalance c then Some RefillAction
      else None)"

text \<open>\<^verbatim>\<open>refillWallet\<close> up to its first await.\<close>

definition check_contract :: "refill_config \<Rightarrow> int \<Rightarrow> refill_phase" where
  "check_contract c amount = (if rc_checkContractBalance c then ContractR amount else SendR RefillAction amount)"

definition refillWallet :: "refill_config \<Rightarrow> refill_phase" where
  "refillWallet c = (if rc_allowanceFn c then AllowanceR (rc_requestAmount c) else check_contract c (rc_requestAmount c))"

text \<open>The unclaimed balance is read; \<^verbatim>\<open>None\<close> is a failure.\<close>

definition balance_read :: "refill_config \<Rightarrow> int \<Rightarrow> int option \<Rightarrow> int \<Rightarrow> refill_state \<Rightarrow> refill_state" where
  "balance_read c balance unclaimed queued r = (if rs_phase r \<noteq> BalanceR then r
     else case unclaimed of
       None \<Rightarrow> at_phase IdleR r
     | Some u \<Rightarrow> (let walletBalance = balance - u - queued in
         case refill_action_of c walletBalance of
           None \<Rightarrow> at_phase IdleR r
         | Some RefillAction \<Rightarrow> at_phase (refillWallet c) r
         | Some OverflowAction \<Rightarrow> at_phase (SendR OverflowAction (walletBalance - the (rc_overflowBalance c))) r))"

definition allowance_read :: "refill_config \<Rightarrow> int option \<Rightarrow> refill_state \<Rightarrow> refill_state" where
  "allowance_read c allowance r = (case rs_phase r of
      AllowanceR amount \<Rightarrow> (case allowance of
          None \<Rightarrow> at_phase IdleR r
        | Some a \<Rightarrow> if a = 0 then at_phase IdleR r
            else at_phase (check_contract c (if amount > a then a else amount)) r)
    | _ \<Rightarrow> r)"

definition dust_balance :: "refill_config \<Rightarrow> int" where
  "dust_balance c = (case rc_contractDustBalance c of None \<Rightarrow> 1000000000 | Some d \<Rightarrow> d)"

definition contract_read :: "refill_config \<Rightarrow> int option \<Rightarrow> refill_state \<Rightarrow> refill_state" where
  "contract_read c contractBalance r = (case rs_phase r of
      ContractR amount \<Rightarrow> (case contractBalance of
          None \<Rightarrow> at_phase IdleR r
        | Some b \<Rightarrow> if b \<le> dust_balance c then at_phase IdleR r
            else at_phase (SendR RefillAction (if amount > b then b else amount)) r)
    | _ \<Rightarrow> r)"

definition transaction_sent :: "bool \<Rightarrow> int \<Rightarrow> refill_state \<Rightarrow> refill_state" where
  "transaction_sent ok now r = (case rs_phase r of
      SendR action amount \<Rightarrow>
        if ok then at_phase ReceiptR (r\<lparr>rs_lastRefill := now, rs_sent := rs_sent r @ [(now, action, amount)]\<rparr>)
        else at_phase IdleR r
    | _ \<Rightarrow> r)"

definition receipt_known :: "refill_state \<Rightarrow> refill_state" where
  "receipt_known r = (if rs_phase r = ReceiptR then at_phase IdleR r else r)"

definition getFaucetRefillCooldown :: "refill_config option \<Rightarrow> int \<Rightarrow> refill_state \<Rightarrow> int" where
  "getFaucetRefillCooldown cfg now r = (case cfg of
      None \<Rightarrow> 0
    | Some c \<Rightarrow> if rc_cooldownTime c = 0 \<or> rs_lastRefill r = 0 then 0
        else let cooldown = rc_cooldownTime c - (now - rs_lastRefill r) in if cooldown < 0 then 0 else cooldown)"

datatype refill_event = ProcessR int | BalanceReadR int "int option" int | AllowanceReadR "int option" | ContractReadR "int option"
  | SentR bool int | ReceiptKnownR

fun refill_step :: "refill_config \<Rightarrow> refill_event \<Rightarrow> refill_state \<Rightarrow> refill_state" where
  "refill_step c (ProcessR now) r = processWalletRefill (Some c) now r"
| "refill_step c (BalanceReadR balance unclaimed queued) r = balance_read c balance unclaimed queued r"
| "refill_step c (AllowanceReadR a) r = allowance_read c a r"
| "refill_step c (ContractReadR b) r = contract_read c b r"
| "refill_step c (SentR ok now) r = transaction_sent ok now r"
| "refill_step c ReceiptKnownR r = receipt_known r"

definition refill_run :: "refill_config \<Rightarrow> refill_event list \<Rightarrow> refill_state" where
  "refill_run c es = fold (refill_step c) es new_refill"

subsection \<open>Refills are spaced and bounded\<close>

text \<open>The times the clock showed, in the order of the events.\<close>

fun times_of :: "refill_event list \<Rightarrow> int list" where
  "times_of [] = []"
| "times_of (ProcessR now # es) = now # times_of es"
| "times_of (SentR ok now # es) = now # times_of es"
| "times_of (_ # es) = times_of es"

definition amount_ok :: "refill_config \<Rightarrow> refill_action \<Rightarrow> int \<Rightarrow> bool" where
  "amount_ok c action amount \<longleftrightarrow> (case action of RefillAction \<Rightarrow> amount \<le> rc_requestAmount c | OverflowAction \<Rightarrow> 0 < amount)"

definition phase_amount_ok :: "refill_config \<Rightarrow> refill_phase \<Rightarrow> bool" where
  "phase_amount_ok c p \<longleftrightarrow> (case p of AllowanceR a \<Rightarrow> amount_ok c RefillAction a | ContractR a \<Rightarrow> amount_ok c RefillAction a
     | SendR action a \<Rightarrow> amount_ok c action a | _ \<Rightarrow> True)"

definition refill_ok :: "refill_config \<Rightarrow> int \<Rightarrow> refill_state \<Rightarrow> bool" where
  "refill_ok c now r \<longleftrightarrow> rs_lastTry r \<le> now \<and> rs_lastRefill r \<le> now \<and> (\<forall>x \<in> set (rs_sent r). fst x \<le> rs_lastRefill r) \<and>
     (rs_sent r \<noteq> [] \<longrightarrow> 0 < rs_lastRefill r) \<and>
     (rs_phase r \<noteq> IdleR \<and> rs_phase r \<noteq> ReceiptR \<and> rs_sent r \<noteq> [] \<longrightarrow> rs_lastRefill r + rc_cooldownTime c \<le> rs_lastTry r) \<and>
     sorted_wrt (\<lambda>a b. fst a + rc_cooldownTime c \<le> fst b) (rs_sent r) \<and>
     (\<forall>x \<in> set (rs_sent r). amount_ok c (fst (snd x)) (snd (snd x))) \<and> phase_amount_ok c (rs_phase r)"

lemmas refill_ops = at_phase_def phase_amount_ok_def amount_ok_def

lemma process_refill_ok:
  assumes "refill_ok c now r" "now \<le> t"
  shows "refill_ok c t (processWalletRefill (Some c) t r)"
  using assms by (auto simp: refill_ok_def processWalletRefill_def refill_ops)

lemma action_balance: "refill_action_of c w = Some OverflowAction \<Longrightarrow> the (rc_overflowBalance c) < w"
  by (auto simp: refill_action_of_def split: if_splits option.splits)

lemma balance_refill_ok:
  assumes "refill_ok c now r"
  shows "refill_ok c now (balance_read c b u q r)"
  using assms action_balance[of c]
  by (auto simp: refill_ok_def balance_read_def Let_def refill_ops refillWallet_def check_contract_def split: option.split refill_action.split)

lemma allowance_refill_ok: "refill_ok c now r \<Longrightarrow> refill_ok c now (allowance_read c a r)"
  by (cases "rs_phase r") (auto simp: refill_ok_def allowance_read_def refill_ops check_contract_def split: option.split)

lemma contract_refill_ok: "refill_ok c now r \<Longrightarrow> refill_ok c now (contract_read c a r)"
  by (cases "rs_phase r") (auto simp: refill_ok_def contract_read_def refill_ops split: option.split)

lemma sent_refill_ok:
  assumes r: "refill_ok c now r" and t: "now \<le> t" "0 < t"
  shows "refill_ok c t (transaction_sent ok t r)"
proof (cases "rs_phase r")
  case (SendR action amount)
  have "fst x + rc_cooldownTime c \<le> t" if "x \<in> set (rs_sent r)" for x
    using r t that SendR by (force simp: refill_ok_def)
  thus ?thesis using r t SendR by (cases action) (auto simp: refill_ok_def transaction_sent_def refill_ops sorted_wrt_append)
qed (use r t in \<open>auto simp: refill_ok_def transaction_sent_def\<close>)

lemma receipt_refill_ok: "refill_ok c now r \<Longrightarrow> refill_ok c now (receipt_known r)"
  by (auto simp: refill_ok_def receipt_known_def refill_ops)

lemma run_refill_ok:
  "refill_ok c now r \<Longrightarrow> sorted (now # times_of es) \<Longrightarrow> 0 \<le> now \<Longrightarrow> 0 \<notin> set (times_of es) \<Longrightarrow> \<exists>t. refill_ok c t (fold (refill_step c) es r)"
proof (induction es arbitrary: now r)
  case (Cons e es)
  show ?case
  proof (cases e)
    case (ProcessR t)
    thus ?thesis using Cons.IH[of t "processWalletRefill (Some c) t r"] process_refill_ok[OF Cons.prems(1)] Cons.prems by simp
  next
    case (SentR ok t)
    hence "0 < t" using Cons.prems by simp
    thus ?thesis using SentR Cons.IH[of t "transaction_sent ok t r"] sent_refill_ok[OF Cons.prems(1)] Cons.prems by simp
  next
    case (BalanceReadR b u q)
    show ?thesis using Cons.IH[OF balance_refill_ok[OF Cons.prems(1)]] Cons.prems BalanceReadR by simp
  next
    case (AllowanceReadR a)
    show ?thesis using Cons.IH[OF allowance_refill_ok[OF Cons.prems(1)]] Cons.prems AllowanceReadR by simp
  next
    case (ContractReadR a)
    show ?thesis using Cons.IH[OF contract_refill_ok[OF Cons.prems(1)]] Cons.prems ContractReadR by simp
  next
    case ReceiptKnownR
    show ?thesis using Cons.IH[OF receipt_refill_ok[OF Cons.prems(1)]] Cons.prems ReceiptKnownR by simp
  qed
qed auto

text \<open>With a clock that does not go back, whatever the database, the contract and the network answer and in whatever order: two
  transactions with the vault are at least the cooldown apart, a refill asks for no more than the configured amount, and
  a deposit takes only what is above the overflow balance.\<close>

lemma refills_spaced:
  assumes "sorted (times_of es)" "\<forall>t \<in> set (times_of es). 0 < t"
  shows "sorted_wrt (\<lambda>a b. fst a + rc_cooldownTime c \<le> fst b) (rs_sent (refill_run c es)) \<and>
    (\<forall>x \<in> set (rs_sent (refill_run c es)). amount_ok c (fst (snd x)) (snd (snd x)))"
proof -
  have "refill_ok c 0 new_refill" by (simp add: refill_ok_def new_refill_def refill_ops)
  moreover have "sorted (0 # times_of es)" "0 \<notin> set (times_of es)" using assms by fastforce+
  ultimately obtain t where "refill_ok c t (refill_run c es)" using run_refill_ok[of c 0 new_refill es] by (auto simp: refill_run_def)
  thus ?thesis by (simp add: refill_ok_def)
qed

definition demo_refill_config :: refill_config where
  "demo_refill_config = \<lparr>rc_cooldownTime = 100, rc_overflowBalance = Some 1000, rc_triggerBalance = 50, rc_requestAmount = 500, rc_allowanceFn = True,
     rc_checkContractBalance = False, rc_contractDustBalance = None\<rparr>"

definition demo_refills :: "refill_event list" where
  "demo_refills = [ProcessR 10, BalanceReadR 40 (Some 10) 0, AllowanceReadR (Some 300), SentR True 12, ReceiptKnownR, ProcessR 90,
     BalanceReadR 2000 (Some 10) 0, ProcessR 115, BalanceReadR 2000 (Some 10) 0, SentR True 117]"

lemma refills_spaced_at:
  "rs_sent (refill_run demo_refill_config demo_refills) = [(12, RefillAction, 300), (117, OverflowAction, 990)] \<and>
   sorted_wrt (\<lambda>a b. fst a + 100 \<le> fst b) (rs_sent (refill_run demo_refill_config demo_refills))"
proof -
  have "rs_sent (refill_run demo_refill_config demo_refills) = [(12, RefillAction, 300), (117, OverflowAction, 990)]" by code_simp
  moreover have "times_of demo_refills = [10, 12, 90, 115, 117]" by code_simp
  moreover have "rc_cooldownTime demo_refill_config = 100" by code_simp
  ultimately show ?thesis using refills_spaced[of demo_refills demo_refill_config] by simp
qed

end
