(* ===== verification/Stake_Ownership.thy ===== *)
theory Stake_Ownership
  imports Eth_Claim
begin

text \<open>
  Proving the ownership of a staking wallet:
  \<^verbatim>\<open>src/src/modules/hyperliquid-stake/HyperliquidStakeOwnership.ts\<close> and the challenge, verification and
  reward factor of \<^verbatim>\<open>HyperliquidStakeModule.ts\<close>.  A verification is cut at its awaits (the stake
  lookup, its turn among the reward operations, the saves of the session); saves may fail, or fail after
  taking effect, and the process may restart from the stored sessions.  The recovery of a signer from a
  signature, the text of a date and the numbers of the configuration are parameters.
\<close>

subsection \<open>Challenges\<close>

record stake_challenge =
  ch_id :: string
  ch_session :: string
  ch_address :: string
  ch_message :: string
  ch_expiresAt :: int

definition MAX_PENDING_CHALLENGES :: nat where
  "MAX_PENDING_CHALLENGES = 10000"

definition buildStakeOwnershipMessage :: "(int \<Rightarrow> string) \<Rightarrow> string \<Rightarrow> string \<Rightarrow> string \<Rightarrow> int \<Rightarrow> string" where
  "buildStakeOwnershipMessage isoText sessionId address challengeId expiresAt =
     join_with [CHR 0x0A] [''HyperFaucet wallet verification'', '''', ''Address: '' @ toLowerCase address, ''Session: '' @ sessionId,
       ''Challenge: '' @ challengeId, ''Expires: '' @ isoText (expiresAt * 1000), '''',
       ''Signing proves you own this mining wallet. It does not authorize a transaction.'']"

text \<open>\<^verbatim>\<open>issue\<close>: a session has one challenge; the oldest ones make room.\<close>

definition issue_challenge :: "(int \<Rightarrow> string) \<Rightarrow> string \<Rightarrow> string \<Rightarrow> string \<Rightarrow> int \<Rightarrow> (string, stake_challenge) jsmap \<Rightarrow>
    stake_challenge \<times> (string, stake_challenge) jsmap" where
  "issue_challenge isoText challengeId sessionId address expiresAt m = (let
      c = \<lparr>ch_id = challengeId, ch_session = sessionId, ch_address = toLowerCase address,
           ch_message = buildStakeOwnershipMessage isoText sessionId address challengeId expiresAt, ch_expiresAt = expiresAt\<rparr>;
      m = js_delete sessionId m;
      m = drop (length m + 1 - MAX_PENDING_CHALLENGES) m
    in (c, js_set sessionId c m))"

datatype stake_claim = ClaimedS stake_challenge | ExpiredS | MissingS

definition claim_challenge :: "string \<Rightarrow> string \<Rightarrow> int \<Rightarrow> (string, stake_challenge) jsmap \<Rightarrow> stake_claim \<times> (string, stake_challenge) jsmap" where
  "claim_challenge sessionId challengeId now m = (case js_get m sessionId of
      None \<Rightarrow> (MissingS, m)
    | Some c \<Rightarrow> if ch_id c \<noteq> challengeId then (MissingS, m)
        else if now \<ge> ch_expiresAt c then (ExpiredS, js_delete sessionId m)
        else (ClaimedS c, js_delete sessionId m))"

subsection \<open>Signatures\<close>

definition is_signature :: "string \<Rightarrow> bool" where
  "is_signature s \<longleftrightarrow> hex_prefixed s \<and> length s = 132"

definition is_challenge_id :: "string \<Rightarrow> bool" where
  "is_challenge_id s \<longleftrightarrow> length s = 64 \<and> list_all is_hex s"

text \<open>\<^verbatim>\<open>recover\<close> is \<^verbatim>\<open>eth.accounts.recover\<close>, \<^verbatim>\<open>None\<close> when it throws.\<close>

definition recoverStakeOwnershipSigner :: "(string \<Rightarrow> string \<Rightarrow> string option) \<Rightarrow> string \<Rightarrow> string \<Rightarrow> string option" where
  "recoverStakeOwnershipSigner recover message signature =
     (if \<not> is_signature signature then None
      else let recoveryByte = toLowerCase (drop 130 signature) in
        if recoveryByte = ''00'' then map_option toLowerCase (recover message (take 130 signature @ ''1b''))
        else if recoveryByte = ''01'' then map_option toLowerCase (recover message (take 130 signature @ ''1c''))
        else if recoveryByte \<noteq> ''1b'' \<and> recoveryByte \<noteq> ''1c'' then None
        else map_option toLowerCase (recover message signature))"

subsection \<open>Sessions\<close>

record stake_info =
  si_address :: string
  si_delegated :: js_number
  si_totalDelegated :: js_number
  si_stakedUsd :: js_number
  si_tokenPrice :: js_number
  si_time :: int
  si_error :: "string option"

definition lookup_failed :: "stake_info \<Rightarrow> bool" where
  "lookup_failed i = (case si_error i of Some e \<Rightarrow> e \<noteq> [] | None \<Rightarrow> False)"

datatype ownership_state = PendingO | ActiveO

record ownership_marker =
  om_state :: ownership_state
  om_challengeId :: string
  om_address :: string
  om_verifiedAt :: int

record stake_session =
  ss_running :: bool
  ss_target :: string
  ss_startTime :: int
  ss_remoteIP :: string
  ss_skipped :: bool
  ss_ownership :: "ownership_marker option"
  ss_data :: "stake_info option"
  ss_refresh :: int

definition isSessionOwnershipVerified :: "stake_session \<Rightarrow> bool" where
  "isSessionOwnershipVerified s = (case ss_ownership s of
      None \<Rightarrow> False
    | Some m \<Rightarrow> om_state m = ActiveO \<and> om_address m = toLowerCase (ss_target s))"

record stake_config =
  sc_timeout :: int
  sc_lookupLimit :: int
  sc_stakeCacheTime :: rat
  sc_refreshCooldown :: rat
  sc_requiredStakeUsd :: rat
  sc_failOnApiError :: bool
  sc_boostFactor :: "(string \<times> rat) list"

definition isStakeInfoFresh :: "stake_config \<Rightarrow> int \<Rightarrow> stake_info \<Rightarrow> bool" where
  "isStakeInfoFresh cfg now i \<longleftrightarrow> is_safe_integer (si_time i) \<and> of_int (si_time i) > of_int now - sc_stakeCacheTime cfg"

text \<open>\<^verbatim>\<open>getStakeBoost\<close>: a tier is the number of its key, and its factor is looked up under the text of that
  number.\<close>

definition staked_usd :: "stake_info \<Rightarrow> rat" where
  "staked_usd i = (case si_stakedUsd i of Fin q \<Rightarrow> if q \<ge> 0 then q else 0 | _ \<Rightarrow> 0)"

record stake_boost =
  sb_factor :: rat
  sb_stakedUsd :: rat
  sb_next :: "(rat \<times> rat option) option"

definition getStakeBoost :: "(string \<Rightarrow> rat) \<Rightarrow> (rat \<Rightarrow> string) \<Rightarrow> stake_config \<Rightarrow> stake_info option \<Rightarrow> stake_boost" where
  "getStakeBoost numOf textOf cfg info = (let staked = (case info of Some i \<Rightarrow> staked_usd i | None \<Rightarrow> 0);
     (factor, next_tier) = fold (\<lambda>tier (factor, next_tier).
       if staked \<ge> tier then ((case js_get (sc_boostFactor cfg) (textOf tier) of Some f \<Rightarrow> if f > factor then f else factor | None \<Rightarrow> factor), next_tier)
       else if next_tier = None then (factor, Some (tier, js_get (sc_boostFactor cfg) (textOf tier)))
       else (factor, next_tier))
     (sort (map (numOf \<circ> fst) (sc_boostFactor cfg))) (1, None)
   in \<lparr>sb_factor = factor, sb_stakedUsd = staked, sb_next = next_tier\<rparr>)"

definition stakeRewardFactor :: "(string \<Rightarrow> rat) \<Rightarrow> (rat \<Rightarrow> string) \<Rightarrow> stake_config \<Rightarrow> int \<Rightarrow> stake_session \<Rightarrow> rat option" where
  "stakeRewardFactor numOf textOf cfg now s =
     (if ss_skipped s \<or> \<not> isSessionOwnershipVerified s then None
      else case ss_data s of
        None \<Rightarrow> None
      | Some i \<Rightarrow> if lookup_failed i \<or> \<not> isStakeInfoFresh cfg now i then None
          else let f = sb_factor (getStakeBoost numOf textOf cfg (Some i)) in if f \<noteq> 1 then Some f else None)"

text \<open>\<^verbatim>\<open>getSessionStakeResponse\<close>: what a client is told, with no factor before the wallet is proved.\<close>

record stake_response =
  sr_address :: string
  sr_info :: "stake_info option"
  sr_boost :: stake_boost
  sr_verified :: bool

definition getSessionStakeResponse :: "(string \<Rightarrow> rat) \<Rightarrow> (rat \<Rightarrow> string) \<Rightarrow> stake_config \<Rightarrow> int \<Rightarrow> stake_session \<Rightarrow> stake_response" where
  "getSessionStakeResponse numOf textOf cfg now s = (let
     fresh = (case ss_data s of Some i \<Rightarrow> if \<not> lookup_failed i \<and> isStakeInfoFresh cfg now i then Some i else None | None \<Rightarrow> None);
     verified = isSessionOwnershipVerified s; available = getStakeBoost numOf textOf cfg fresh
   in \<lparr>sr_address = toLowerCase (ss_target s), sr_info = ss_data s,
       sr_boost = (if verified then available else available\<lparr>sb_factor := 1\<rparr>), sr_verified = verified\<rparr>)"

definition getSessionRefreshAt :: "stake_config \<Rightarrow> stake_session \<Rightarrow> rat" where
  "getSessionRefreshAt cfg s = (if ss_refresh s > 0 then of_int (ss_refresh s) + sc_refreshCooldown cfg else 0)"

subsection \<open>Verification\<close>

text \<open>Where a verification waits: for the stake lookup, for its turn among the reward operations, for the save of the pending
  marker, of the active one, and of the pending one again.\<close>

datatype verify_phase = LookupV | TurnV | SavePendingV | SaveActiveV | SaveAgainV

record verification =
  vf_session :: string
  vf_challenge :: stake_challenge
  vf_stake :: "stake_info option"
  vf_marker :: ownership_marker
  vf_phase :: verify_phase

datatype stake_output =
    IssuedC stake_challenge
  | ClaimedC stake_challenge
  | ProvedC stake_challenge string
  | Answer string

record stake_world =
  sw_sessions :: "(string, stake_session) jsmap"
  sw_rows :: "(string, stake_session) jsmap"
  sw_challenges :: "(string, stake_challenge) jsmap"
  sw_counters :: "(string, int \<times> int) jsmap"
  sw_verifications :: "verification list"
  sw_refreshes :: "(string \<times> int) list"
  sw_log :: "stake_output list"

definition told :: "stake_output \<Rightarrow> stake_world \<Rightarrow> stake_world" where
  "told out w = w\<lparr>sw_log := sw_log w @ [out]\<rparr>"

definition getRunningSession :: "string \<Rightarrow> stake_world \<Rightarrow> stake_session option" where
  "getRunningSession sessionId w = (case js_get (sw_sessions w) sessionId of
      None \<Rightarrow> None
    | Some s \<Rightarrow> if ss_running s then Some s else None)"

definition upd_session :: "string \<Rightarrow> (stake_session \<Rightarrow> stake_session) \<Rightarrow> stake_world \<Rightarrow> stake_world" where
  "upd_session sessionId f w = (case js_get (sw_sessions w) sessionId of
      None \<Rightarrow> w
    | Some s \<Rightarrow> w\<lparr>sw_sessions := js_set sessionId (f s) (sw_sessions w)\<rparr>)"

text \<open>\<^verbatim>\<open>consumeLiveLookupBudget\<close>: a counter for each address and minute; the oldest ones make room.\<close>

definition MAX_LOOKUP_COUNTERS :: nat where
  "MAX_LOOKUP_COUNTERS = 10000"

fun evict :: "(string \<times> 'a) list \<Rightarrow> (string \<times> 'a) list" where
  "evict [] = []"
| "evict ((ip, counter) # m) = (if length m + 1 \<ge> MAX_LOOKUP_COUNTERS \<and> ip \<noteq> [] then evict m else (ip, counter) # m)"

definition consumeLiveLookupBudget :: "stake_config \<Rightarrow> string \<Rightarrow> int \<Rightarrow> stake_world \<Rightarrow> bool \<times> stake_world" where
  "consumeLiveLookupBudget cfg ip now w = (if sc_lookupLimit cfg \<le> 0 then (True, w)
     else let m = sw_counters w;
              (start, used, m) = (case js_get m ip of
                  Some (start, used) \<Rightarrow> if now - start \<ge> 60 then (now, 0, evict (js_delete ip m)) else (start, used, m)
                | None \<Rightarrow> (now, 0, evict m))
       in if used \<ge> sc_lookupLimit cfg then (False, w\<lparr>sw_counters := js_set ip (start, used) m\<rparr>)
          else (True, w\<lparr>sw_counters := js_set ip (start, used + 1) m\<rparr>))"

definition OWNERSHIP_CHALLENGE_TTL_SECONDS :: int where
  "OWNERSHIP_CHALLENGE_TTL_SECONDS = 300"

text \<open>\<^verbatim>\<open>processGetStakeChallenge\<close>, with a random identifier.\<close>

definition processGetStakeChallenge :: "(int \<Rightarrow> string) \<Rightarrow> stake_config \<Rightarrow> string \<Rightarrow> string \<Rightarrow> int \<Rightarrow> stake_world \<Rightarrow> stake_world" where
  "processGetStakeChallenge isoText cfg sessionId challengeId now w =
     (case (if sessionId = [] \<or> length sessionId > 128 then None else getRunningSession sessionId w) of
        None \<Rightarrow> told (Answer ''INVALID_SESSION'') w
      | Some s \<Rightarrow>
          if ss_skipped s then told (Answer ''BOOST_UNAVAILABLE'') w
          else if isSessionOwnershipVerified s then told (Answer ''verified'') w
          else let expiresAt = min (now + OWNERSHIP_CHALLENGE_TTL_SECONDS) (ss_startTime s + sc_timeout cfg) in
            if expiresAt \<le> now then told (Answer ''INVALID_SESSION'') w
            else (case issue_challenge isoText challengeId sessionId (ss_target s) expiresAt (sw_challenges w) of
              (c, m) \<Rightarrow> told (IssuedC c) (w\<lparr>sw_challenges := m\<rparr>)))"

text \<open>\<^verbatim>\<open>processVerifyStakeOwnership\<close> up to its first await: the challenge is taken, the signature checked, and the stake
  found in the cache (\<open>cached\<close>), refused for lack of budget, or looked up.\<close>

definition pending_marker :: "stake_challenge \<Rightarrow> int \<Rightarrow> ownership_marker" where
  "pending_marker c now = \<lparr>om_state = PendingO, om_challengeId = ch_id c, om_address = ch_address c, om_verifiedAt = now\<rparr>"

definition begin_stake_check :: "stake_config \<Rightarrow> string \<Rightarrow> stake_challenge \<Rightarrow> string \<Rightarrow> stake_info option \<Rightarrow> int \<Rightarrow> stake_world \<Rightarrow> stake_world" where
  "begin_stake_check cfg sessionId c ip cached now w = (let
      waiting = (\<lambda>stake phase w. w\<lparr>sw_verifications := sw_verifications w @
        [\<lparr>vf_session = sessionId, vf_challenge = c, vf_stake = stake, vf_marker = pending_marker c now, vf_phase = phase\<rparr>]\<rparr>)
    in case cached of
        Some i \<Rightarrow> waiting (Some i) TurnV w
      | None \<Rightarrow> (case consumeLiveLookupBudget cfg ip now w of
          (True, w) \<Rightarrow> waiting None LookupV w
        | (False, w) \<Rightarrow> waiting None TurnV w))"

definition processVerifyStakeOwnership :: "(string \<Rightarrow> string \<Rightarrow> string option) \<Rightarrow> stake_config \<Rightarrow> string \<Rightarrow> string \<Rightarrow> string \<Rightarrow> stake_info option \<Rightarrow> int \<Rightarrow>
    stake_world \<Rightarrow> stake_world" where
  "processVerifyStakeOwnership recover cfg sessionId challengeId signature cached now w =
     (if sessionId = [] \<or> length sessionId > 128 \<or> \<not> is_challenge_id challengeId \<or> \<not> is_signature signature then told (Answer ''INVALID_REQUEST'') w
      else case getRunningSession sessionId w of
        None \<Rightarrow> told (Answer ''INVALID_SESSION'') w
      | Some s \<Rightarrow>
          if isSessionOwnershipVerified s then told (Answer ''verified'') w
          else (case claim_challenge sessionId challengeId now (sw_challenges w) of
            (MissingS, m) \<Rightarrow> told (Answer ''CHALLENGE_NOT_FOUND'') (w\<lparr>sw_challenges := m\<rparr>)
          | (ExpiredS, m) \<Rightarrow> told (Answer ''CHALLENGE_EXPIRED'') (w\<lparr>sw_challenges := m\<rparr>)
          | (ClaimedS c, m) \<Rightarrow> (let w = told (ClaimedC c) (w\<lparr>sw_challenges := m\<rparr>); target = toLowerCase (ss_target s) in
              if ch_session c \<noteq> sessionId \<or> ch_address c \<noteq> target then told (Answer ''CHALLENGE_MISMATCH'') w
              else (case recoverStakeOwnershipSigner recover (ch_message c) signature of
                None \<Rightarrow> told (Answer ''INVALID_SIGNATURE'') w
              | Some signer \<Rightarrow>
                  if signer = [] then told (Answer ''INVALID_SIGNATURE'') w
                  else if signer \<noteq> target then told (Answer ''SIGNER_MISMATCH'') w
                  else begin_stake_check cfg sessionId c (ss_remoteIP s) cached now (told (ProvedC c signature) w)))))"

definition upd_verification :: "nat \<Rightarrow> (verification \<Rightarrow> verification) \<Rightarrow> stake_world \<Rightarrow> stake_world" where
  "upd_verification i f w = w\<lparr>sw_verifications := (sw_verifications w)[i := f (sw_verifications w ! i)]\<rparr>"

definition end_verification :: "nat \<Rightarrow> string \<Rightarrow> stake_world \<Rightarrow> stake_world" where
  "end_verification i answer w = told (Answer answer)
     (w\<lparr>sw_verifications := take i (sw_verifications w) @ drop (Suc i) (sw_verifications w)\<rparr>)"

definition at_verify :: "nat \<Rightarrow> verify_phase \<Rightarrow> stake_world \<Rightarrow> bool" where
  "at_verify i p w \<longleftrightarrow> i < length (sw_verifications w) \<and> vf_phase (sw_verifications w ! i) = p"

definition lookup_settled :: "nat \<Rightarrow> stake_info option \<Rightarrow> stake_world \<Rightarrow> stake_world" where
  "lookup_settled i stake w = (if at_verify i LookupV w then upd_verification i (\<lambda>v. v\<lparr>vf_stake := stake, vf_phase := TurnV\<rparr>) w else w)"

text \<open>The reward operation; \<open>admitted\<close> is whether its queue still takes it.\<close>

definition verification_turn :: "nat \<Rightarrow> bool \<Rightarrow> int \<Rightarrow> stake_world \<Rightarrow> stake_world" where
  "verification_turn i admitted now w = (if \<not> at_verify i TurnV w then w
     else let v = sw_verifications w ! i; c = vf_challenge v; sid = vf_session v in
       if \<not> admitted then end_verification i ''OWNERSHIP_SAVE_FAILED'' w
       else (case js_get (sw_sessions w) sid of
         None \<Rightarrow> end_verification i ''INVALID_SESSION'' w
       | Some s \<Rightarrow>
           if \<not> ss_running s \<or> toLowerCase (ss_target s) \<noteq> ch_address c then end_verification i ''INVALID_SESSION'' w
           else if now \<ge> ch_expiresAt c then end_verification i ''CHALLENGE_EXPIRED'' w
           else let marker = pending_marker c now in
             upd_verification i (\<lambda>v. v\<lparr>vf_marker := marker, vf_phase := SavePendingV\<rparr>)
               (upd_session sid (\<lambda>s. s\<lparr>ss_ownership := Some marker, ss_data := vf_stake v,
                  ss_refresh := (if vf_stake v = None then 0 else now)\<rparr>) w)))"

text \<open>A save writes the session as it is; a save that fails may have written it.\<close>

definition write_row :: "bool \<Rightarrow> string \<Rightarrow> stake_world \<Rightarrow> stake_world" where
  "write_row written sid w = (case js_get (sw_sessions w) sid of
      Some s \<Rightarrow> if written then w\<lparr>sw_rows := js_set sid s (sw_rows w)\<rparr> else w
    | None \<Rightarrow> w)"

definition save_settled :: "nat \<Rightarrow> bool \<Rightarrow> bool \<Rightarrow> stake_world \<Rightarrow> stake_world" where
  "save_settled i ok written w = (if i \<ge> length (sw_verifications w) then w
     else let v = sw_verifications w ! i; sid = vf_session v; w' = write_row (ok \<or> written) sid w in
       case vf_phase v of
         SavePendingV \<Rightarrow> (if ok then upd_verification i (\<lambda>v. v\<lparr>vf_phase := SaveActiveV\<rparr>)
             (upd_session sid (\<lambda>s. s\<lparr>ss_ownership := Some ((vf_marker v)\<lparr>om_state := ActiveO\<rparr>)\<rparr>) w')
           else end_verification i ''OWNERSHIP_SAVE_FAILED'' w')
       | SaveActiveV \<Rightarrow> (if ok then end_verification i ''verified'' w'
           else upd_verification i (\<lambda>v. v\<lparr>vf_phase := SaveAgainV\<rparr>) (upd_session sid (\<lambda>s. s\<lparr>ss_ownership := Some (vf_marker v)\<rparr>) w'))
       | SaveAgainV \<Rightarrow> end_verification i ''OWNERSHIP_SAVE_FAILED'' w'
       | _ \<Rightarrow> w)"

definition clear_challenges :: "stake_world \<Rightarrow> stake_world" where
  "clear_challenges w = w\<lparr>sw_challenges := [], sw_counters := []\<rparr>"

subsection \<open>Session start and refresh\<close>

text \<open>\<^verbatim>\<open>handleSessionLookupFailure\<close>; \<^verbatim>\<open>None\<close> is the error \<^verbatim>\<open>STAKE_CHECK_FAILED\<close>.\<close>

definition handleSessionLookupFailure :: "stake_config \<Rightarrow> string \<Rightarrow> bool \<Rightarrow> int \<Rightarrow> stake_info option" where
  "handleSessionLookupFailure cfg targetAddr invalidated now =
     (if invalidated \<or> sc_failOnApiError cfg \<or> sc_requiredStakeUsd cfg > 0 then None
      else Some \<lparr>si_address = toLowerCase targetAddr, si_delegated = Fin 0, si_totalDelegated = Fin 0, si_stakedUsd = Fin 0, si_tokenPrice = Fin 0,
        si_time = now, si_error = Some ''Stake lookup unavailable''\<rparr>)"

text \<open>\<^verbatim>\<open>processSessionStart\<close>: \<open>found\<close> is the answer of the lookup, or whether it failed by being invalidated.\<close>

definition stake_processSessionStart :: "stake_config \<Rightarrow> stake_session \<Rightarrow> stake_info option \<Rightarrow> bool + stake_info \<Rightarrow> int \<Rightarrow> stake_world \<Rightarrow>
    (string + stake_session) \<times> stake_world" where
  "stake_processSessionStart cfg s cached found now w =
     (if ss_skipped s then (Inr s, w)
      else if sc_requiredStakeUsd cfg \<le> 0 then (Inr (s\<lparr>ss_refresh := 0, ss_data := None\<rparr>), w)
      else let checked = (\<lambda>info. case info of
          None \<Rightarrow> Inl ''STAKE_CHECK_FAILED''
        | Some i \<Rightarrow> if sc_requiredStakeUsd cfg > 0 \<and> \<not> lookup_failed i \<and> num_less (si_stakedUsd i) (Fin (sc_requiredStakeUsd cfg)) then Inl ''STAKE_REQUIRED''
            else Inr (s\<lparr>ss_refresh := now, ss_data := Some i\<rparr>))
      in (case cached of
          Some i \<Rightarrow> (checked (Some i), w)
        | None \<Rightarrow> (case consumeLiveLookupBudget cfg (ss_remoteIP s) now w of
            (False, w) \<Rightarrow> (checked (handleSessionLookupFailure cfg (ss_target s) False now), w)
          | (True, w) \<Rightarrow> (checked (case found of Inr i \<Rightarrow> Some i | Inl invalidated \<Rightarrow> handleSessionLookupFailure cfg (ss_target s) invalidated now), w))))"

text \<open>\<^verbatim>\<open>processRefreshStakeInfo\<close> up to the lookup, with the cooldown of the address, and after it.\<close>

definition processRefreshStakeInfo :: "stake_config \<Rightarrow> string \<Rightarrow> rat \<Rightarrow> int \<Rightarrow> stake_world \<Rightarrow> stake_world" where
  "processRefreshStakeInfo cfg sessionId addressCooldown now w =
     (case (if sessionId = [] then None else getRunningSession sessionId w) of
        None \<Rightarrow> told (Answer ''INVALID_SESSION'') w
      | Some s \<Rightarrow>
          if \<not> isSessionOwnershipVerified s then told (Answer ''OWNERSHIP_REQUIRED'') w
          else if max (of_int (ss_refresh s) + sc_refreshCooldown cfg - of_int now) addressCooldown > 0 then told (Answer ''REFRESH_COOLDOWN'') w
          else (case consumeLiveLookupBudget cfg (ss_remoteIP s) now w of
              (False, w) \<Rightarrow> told (Answer ''STAKE_CHECK_RATE_LIMITED'') w
            | (True, w) \<Rightarrow> w\<lparr>sw_refreshes := sw_refreshes w @ [(sessionId, now)]\<rparr>))"

definition refresh_settled :: "nat \<Rightarrow> stake_info option \<Rightarrow> stake_world \<Rightarrow> stake_world" where
  "refresh_settled i found w = (if i \<ge> length (sw_refreshes w) then w
     else let (sid, now) = sw_refreshes w ! i; w = w\<lparr>sw_refreshes := take i (sw_refreshes w) @ drop (Suc i) (sw_refreshes w)\<rparr> in
       case found of
         None \<Rightarrow> told (Answer ''STAKE_CHECK_FAILED'') w
       | Some info \<Rightarrow> told (Answer ''refreshed'') (upd_session sid (\<lambda>s. s\<lparr>ss_refresh := now, ss_data := Some info\<rparr>) w))"

subsection \<open>Runs\<close>

text \<open>Sessions start and end, get another target, lookup or task, and are saved for other reasons; the module is
  reloaded; the process restarts from the rows.\<close>

datatype stake_event =
    SessionS string stake_session "stake_info option" "bool + stake_info" int
  | ChangeS string "stake_session \<Rightarrow> stake_session"
  | SaveS string
  | RefreshS string rat int
  | RefreshedS nat "stake_info option"
  | ChallengeS string string int
  | VerifyS string string string "stake_info option" int
  | LookupS nat "stake_info option"
  | TurnS nat bool int
  | SavedS nat bool bool
  | ClearS
  | RestartS

definition restart :: "stake_world \<Rightarrow> stake_world" where
  "restart w = w\<lparr>sw_sessions := sw_rows w, sw_challenges := [], sw_counters := [], sw_verifications := [], sw_refreshes := []\<rparr>"

fun stake_step :: "(int \<Rightarrow> string) \<Rightarrow> (string \<Rightarrow> string \<Rightarrow> string option) \<Rightarrow> stake_config \<Rightarrow> stake_event \<Rightarrow> stake_world \<Rightarrow> stake_world" where
  "stake_step isoText recover cfg (SessionS sid s cached found now) w = (if js_has (sw_sessions w) sid then w
     else case stake_processSessionStart cfg (s\<lparr>ss_ownership := None\<rparr>) cached found now w of
       (Inl code, w) \<Rightarrow> told (Answer code) w
     | (Inr s, w) \<Rightarrow> w\<lparr>sw_sessions := js_set sid s (sw_sessions w)\<rparr>)"
| "stake_step isoText recover cfg (ChangeS sid f) w = upd_session sid (\<lambda>s. (f s)\<lparr>ss_ownership := ss_ownership s\<rparr>) w"
| "stake_step isoText recover cfg (SaveS sid) w = write_row True sid w"
| "stake_step isoText recover cfg (RefreshS sid addressCooldown now) w = processRefreshStakeInfo cfg sid addressCooldown now w"
| "stake_step isoText recover cfg (RefreshedS i found) w = refresh_settled i found w"
| "stake_step isoText recover cfg (ChallengeS sid chid now) w = processGetStakeChallenge isoText cfg sid chid now w"
| "stake_step isoText recover cfg (VerifyS sid chid signature cached now) w = processVerifyStakeOwnership recover cfg sid chid signature cached now w"
| "stake_step isoText recover cfg (LookupS i stake) w = lookup_settled i stake w"
| "stake_step isoText recover cfg (TurnS i admitted now) w = verification_turn i admitted now w"
| "stake_step isoText recover cfg (SavedS i ok written) w = save_settled i ok written w"
| "stake_step isoText recover cfg ClearS w = clear_challenges w"
| "stake_step isoText recover cfg RestartS w = restart w"

definition empty_stake :: stake_world where
  "empty_stake = \<lparr>sw_sessions = [], sw_rows = [], sw_challenges = [], sw_counters = [], sw_verifications = [], sw_refreshes = [], sw_log = []\<rparr>"

definition stake_run :: "(int \<Rightarrow> string) \<Rightarrow> (string \<Rightarrow> string \<Rightarrow> string option) \<Rightarrow> stake_config \<Rightarrow> stake_event list \<Rightarrow> stake_world" where
  "stake_run isoText recover cfg es = fold (stake_step isoText recover cfg) es empty_stake"

subsection \<open>What a marker rests on\<close>

definition challenge_built :: "(int \<Rightarrow> string) \<Rightarrow> stake_challenge \<Rightarrow> bool" where
  "challenge_built isoText c \<longleftrightarrow> (\<exists>address. ch_address c = toLowerCase address \<and>
     ch_message c = buildStakeOwnershipMessage isoText (ch_session c) address (ch_id c) (ch_expiresAt c))"

text \<open>A signature over the text of a challenge that was issued to the session, by the address of the challenge.\<close>

definition proof_of :: "(int \<Rightarrow> string) \<Rightarrow> (string \<Rightarrow> string \<Rightarrow> string option) \<Rightarrow> stake_output list \<Rightarrow> stake_challenge \<Rightarrow> string \<Rightarrow> bool" where
  "proof_of isoText recover outs c signature \<longleftrightarrow> IssuedC c \<in> set outs \<and> ClaimedC c \<in> set outs \<and> challenge_built isoText c \<and>
     recoverStakeOwnershipSigner recover (ch_message c) signature = Some (ch_address c)"

definition marker_ok :: "stake_output list \<Rightarrow> string \<Rightarrow> ownership_marker \<Rightarrow> bool" where
  "marker_ok outs sid m \<longleftrightarrow> (\<exists>c signature. ProvedC c signature \<in> set outs \<and> ch_session c = sid \<and> ch_address c = om_address m \<and> ch_id c = om_challengeId m)"

definition session_ok :: "stake_output list \<Rightarrow> string \<Rightarrow> stake_session \<Rightarrow> bool" where
  "session_ok outs sid s \<longleftrightarrow> (\<forall>m. ss_ownership s = Some m \<longrightarrow> marker_ok outs sid m)"

definition sessions_ok :: "stake_output list \<Rightarrow> (string, stake_session) jsmap \<Rightarrow> bool" where
  "sessions_ok outs ss \<longleftrightarrow> (\<forall>sid s. js_get ss sid = Some s \<longrightarrow> session_ok outs sid s)"

definition verification_ok :: "stake_output list \<Rightarrow> verification \<Rightarrow> bool" where
  "verification_ok outs v \<longleftrightarrow> (\<exists>signature. ProvedC (vf_challenge v) signature \<in> set outs) \<and> vf_session v = ch_session (vf_challenge v) \<and>
     om_address (vf_marker v) = ch_address (vf_challenge v) \<and> om_challengeId (vf_marker v) = ch_id (vf_challenge v)"

definition issued_of :: "stake_output list \<Rightarrow> stake_challenge list" where
  "issued_of outs = concat (map (\<lambda>out. case out of IssuedC c \<Rightarrow> [c] | _ \<Rightarrow> []) outs)"

definition claimed_of :: "stake_output list \<Rightarrow> stake_challenge list" where
  "claimed_of outs = concat (map (\<lambda>out. case out of ClaimedC c \<Rightarrow> [c] | _ \<Rightarrow> []) outs)"

definition challenges_ok :: "(int \<Rightarrow> string) \<Rightarrow> stake_output list \<Rightarrow> (string, stake_challenge) jsmap \<Rightarrow> bool" where
  "challenges_ok isoText outs m \<longleftrightarrow> js_map_ok m \<and> (\<forall>x \<in> set m. challenge_built isoText (snd x)) \<and>
     mset (claimed_of outs) + mset (map snd m) \<subseteq># mset (issued_of outs)"

definition stake_ok :: "(int \<Rightarrow> string) \<Rightarrow> (string \<Rightarrow> string \<Rightarrow> string option) \<Rightarrow> stake_world \<Rightarrow> bool" where
  "stake_ok isoText recover w \<longleftrightarrow> sessions_ok (sw_log w) (sw_sessions w) \<and> sessions_ok (sw_log w) (sw_rows w) \<and>
     (\<forall>v \<in> set (sw_verifications w). verification_ok (sw_log w) v) \<and> challenges_ok isoText (sw_log w) (sw_challenges w) \<and>
     (\<forall>c signature. ProvedC c signature \<in> set (sw_log w) \<longrightarrow> proof_of isoText recover (sw_log w) c signature)"

lemma issued_log [simp]: "issued_of (outs @ [out]) = issued_of outs @ (case out of IssuedC c \<Rightarrow> [c] | _ \<Rightarrow> [])"
  and claimed_log [simp]: "claimed_of (outs @ [out]) = claimed_of outs @ (case out of ClaimedC c \<Rightarrow> [c] | _ \<Rightarrow> [])"
  by (simp_all add: issued_of_def claimed_of_def)

lemma issued_in_log: "c \<in> set (issued_of outs) \<longleftrightarrow> IssuedC c \<in> set outs"
  by (auto simp: issued_of_def split: stake_output.splits)

text \<open>The log only grows, and what rests on it stays.\<close>

lemma sessions_ok_log: "sessions_ok outs ss \<Longrightarrow> sessions_ok (outs @ [out]) ss"
  by (fastforce simp: sessions_ok_def session_ok_def marker_ok_def)

lemma verification_ok_log: "verification_ok outs v \<Longrightarrow> verification_ok (outs @ [out]) v"
  by (auto simp: verification_ok_def)

lemma proof_log: "proof_of isoText recover outs c signature \<Longrightarrow> proof_of isoText recover (outs @ [out]) c signature"
  by (auto simp: proof_of_def)

lemma answer_ok: "stake_ok isoText recover w \<Longrightarrow> stake_ok isoText recover (told (Answer a) w)"
  by (auto simp: stake_ok_def told_def sessions_ok_log verification_ok_log proof_log challenges_ok_def)

lemma sessions_set: "sessions_ok outs ss \<Longrightarrow> session_ok outs sid s \<Longrightarrow> sessions_ok outs (js_set sid s ss)"
  by (simp add: sessions_ok_def)

lemma upd_session_ok:
  assumes "stake_ok isoText recover w" "\<And>s. js_get (sw_sessions w) sid = Some s \<Longrightarrow> session_ok (sw_log w) sid s \<Longrightarrow> session_ok (sw_log w) sid (f s)"
  shows "stake_ok isoText recover (upd_session sid f w)"
proof (cases "js_get (sw_sessions w) sid")
  case (Some s)
  have "session_ok (sw_log w) sid (f s)" using assms Some unfolding stake_ok_def sessions_ok_def by blast
  thus ?thesis using assms(1) Some by (simp add: upd_session_def stake_ok_def sessions_set)
qed (use assms(1) in \<open>simp add: upd_session_def\<close>)

lemma write_row_ok:
  assumes "stake_ok isoText recover w"
  shows "stake_ok isoText recover (write_row b sid w)"
proof (cases "js_get (sw_sessions w) sid")
  case (Some s)
  have "session_ok (sw_log w) sid s" using assms Some unfolding stake_ok_def sessions_ok_def by blast
  thus ?thesis using assms Some by (simp add: write_row_def stake_ok_def sessions_set)
qed (use assms in \<open>simp add: write_row_def\<close>)

text \<open>The world with other verifications, each of them resting on the log.\<close>

lemma verifications_ok:
  assumes "stake_ok isoText recover w" "\<And>v. v \<in> set vs \<Longrightarrow> v \<in> set (sw_verifications w) \<or> verification_ok (sw_log w) v"
  shows "stake_ok isoText recover (w\<lparr>sw_verifications := vs\<rparr>)"
proof -
  have "\<forall>v \<in> set vs. verification_ok (sw_log w) v" using assms unfolding stake_ok_def by blast
  thus ?thesis using assms(1) by (simp add: stake_ok_def)
qed

lemma end_verification_ok:
  assumes "stake_ok isoText recover w"
  shows "stake_ok isoText recover (end_verification i a w)"
  unfolding end_verification_def
  by (intro answer_ok verifications_ok[OF assms]) (auto dest: in_set_takeD in_set_dropD)

lemma upd_verification_ok:
  assumes "stake_ok isoText recover w" "i < length (sw_verifications w) \<Longrightarrow> verification_ok (sw_log w) (sw_verifications w ! i) \<Longrightarrow> verification_ok (sw_log w) (f (sw_verifications w ! i))"
  shows "stake_ok isoText recover (upd_verification i f w)"
proof (cases "i < length (sw_verifications w)")
  case True
  hence "verification_ok (sw_log w) (f (sw_verifications w ! i))" using assms by (simp add: stake_ok_def)
  thus ?thesis unfolding upd_verification_def
    by (intro verifications_ok[OF assms(1)]) (auto dest: set_update_subset_insert[THEN subsetD])
next
  case False
  thus ?thesis using assms(1) by (simp add: upd_verification_def list_update_beyond not_less)
qed

lemma verification_at:
  assumes "stake_ok isoText recover w" "i < length (sw_verifications w)"
  shows "verification_ok (sw_log w) (sw_verifications w ! i)"
  using assms by (simp add: stake_ok_def)

subsection \<open>Every step keeps what a marker rests on\<close>

text \<open>A challenge leaves the store for good: it is claimed once, dropped, or replaced.\<close>

lemma mset_js_delete: "mset (map snd (js_delete k m)) \<subseteq># mset (map snd m)"
  unfolding AList.delete_eq by (metis image_mset_subseteq_mono mset_filter multiset_filter_subset mset_map)

lemma mset_drop_le: "mset (map snd (drop n m)) \<subseteq># mset (map snd m)"
  by (metis append_take_drop_id map_append mset_append mset_subset_eq_add_right)

lemma challenges_less:
  assumes "challenges_ok isoText outs m" "js_map_ok n" "set n \<subseteq> set m" "mset (map snd n) \<subseteq># mset (map snd m)"
  shows "challenges_ok isoText outs n"
proof -
  have "mset (claimed_of outs) + mset (map snd n) \<subseteq># mset (claimed_of outs) + mset (map snd m)"
    by (rule subset_mset.add_left_mono[OF assms(4)])
  hence "mset (claimed_of outs) + mset (map snd n) \<subseteq># mset (issued_of outs)"
    using assms(1) unfolding challenges_ok_def by (meson subset_mset.order_trans)
  thus ?thesis using assms(1,2,3) unfolding challenges_ok_def by blast
qed

lemma challenges_delete: "challenges_ok isoText outs m \<Longrightarrow> challenges_ok isoText outs (js_delete k m)"
  by (rule challenges_less[OF _ _ _ mset_js_delete]) (simp_all add: challenges_ok_def, simp add: AList.delete_eq subset_iff)

lemma challenges_drop: "challenges_ok isoText outs m \<Longrightarrow> challenges_ok isoText outs (drop n m)"
  by (rule challenges_less[OF _ _ set_drop_subset mset_drop_le]) (auto simp: challenges_ok_def drop_map[symmetric])

lemma challenges_answer [simp]: "challenges_ok isoText (outs @ [Answer a]) m = challenges_ok isoText outs m"
  by (simp add: challenges_ok_def)

lemma challenges_issue:
  assumes "challenges_ok isoText outs m" "challenge_built isoText c" "js_get m sid = None"
  shows "challenges_ok isoText (outs @ [IssuedC c]) (js_set sid c m)"
  using assms by (auto simp: challenges_ok_def js_set_absent)

lemma get_mset_delete:
  assumes "js_map_ok m" "js_get m k = Some c"
  shows "mset (map snd m) = add_mset c (mset (map snd (js_delete k m)))"
  using assms
proof (induction m)
  case (Cons x m)
  show ?case
  proof (cases "fst x = k")
    case True
    hence "js_get m k = None" using Cons.prems by (simp add: map_of_eq_None_iff)
    thus ?thesis using True Cons.prems by (cases x) (simp add: js_delete_absent)
  qed (use Cons in \<open>cases x; simp\<close>)
qed simp

lemma challenges_claim:
  assumes "challenges_ok isoText outs m" "js_get m k = Some c"
  shows "challenges_ok isoText (outs @ [ClaimedC c]) (js_delete k m)" "IssuedC c \<in> set outs" "challenge_built isoText c"
proof -
  have e: "mset (map snd m) = add_mset c (mset (map snd (js_delete k m)))"
    by (rule get_mset_delete) (use assms in \<open>auto simp: challenges_ok_def\<close>)
  thus "challenges_ok isoText (outs @ [ClaimedC c]) (js_delete k m)" using challenges_delete[OF assms(1)] assms(1)
    by (simp add: challenges_ok_def)
  have "c \<in># mset (map snd m)" unfolding e by simp
  hence "c \<in># mset (issued_of outs)" using assms(1) unfolding challenges_ok_def
    by (meson mset_subset_eq_add_right mset_subset_eqD)
  thus "IssuedC c \<in> set outs" by (simp add: issued_in_log)
  show "challenge_built isoText c" using assms map_of_SomeD[OF assms(2)] by (auto simp: challenges_ok_def)
qed

lemma challenges_clear:
  assumes "challenges_ok isoText outs m"
  shows "challenges_ok isoText outs []"
  using challenges_drop[OF assms, of "length m"] by simp

lemma log_grown:
  assumes "stake_ok isoText recover w" "challenges_ok isoText (sw_log w @ [out]) m"
    "\<And>c signature. out = ProvedC c signature \<Longrightarrow> proof_of isoText recover (sw_log w) c signature"
  shows "stake_ok isoText recover (told out (w\<lparr>sw_challenges := m\<rparr>))"
  using assms unfolding stake_ok_def told_def
  by (auto simp: sessions_ok_log verification_ok_log proof_log)

lemma challenges_of: "stake_ok isoText recover w \<Longrightarrow> challenges_ok isoText (sw_log w) (sw_challenges w)"
  by (simp add: stake_ok_def)

lemma challenge_step_ok:
  assumes "stake_ok isoText recover w"
  shows "stake_ok isoText recover (processGetStakeChallenge isoText cfg sid chid now w)"
proof -
  let ?m = "js_delete sid (sw_challenges w)"
  let ?d = "drop (length ?m + 1 - MAX_PENDING_CHALLENGES) ?m"
  have d: "challenges_ok isoText (sw_log w) ?d" by (intro challenges_drop challenges_delete challenges_of[OF assms])
  have n: "js_get ?d sid = None"
  proof -
    have "sid \<notin> fst ` set ?m" by (auto simp: AList.delete_eq)
    hence "sid \<notin> fst ` set ?d" using set_drop_subset by fast
    thus ?thesis by (simp add: map_of_eq_None_iff)
  qed
  have i: "stake_ok isoText recover (case issue_challenge isoText chid sid (ss_target s) e (sw_challenges w) of
      (c, m) \<Rightarrow> told (IssuedC c) (w\<lparr>sw_challenges := m\<rparr>))" for s e
    unfolding issue_challenge_def Let_def prod.case
    by (rule log_grown[OF assms], rule challenges_issue[OF d _ n]) (auto simp: challenge_built_def)
  show ?thesis unfolding processGetStakeChallenge_def
    by (auto simp: Let_def i answer_ok[OF assms] simp del: told_def split: option.split)
qed

lemma verification_added:
  assumes "stake_ok isoText recover w" "verification_ok (sw_log w) v"
  shows "stake_ok isoText recover (w\<lparr>sw_verifications := sw_verifications w @ [v]\<rparr>)"
  by (rule verifications_ok[OF assms(1)]) (use assms(2) in auto)

lemma budget_ok:
  "consumeLiveLookupBudget cfg ip now w = (b, w') \<Longrightarrow> stake_ok isoText recover w \<Longrightarrow> stake_ok isoText recover w' \<and> sw_log w' = sw_log w"
  by (auto simp: consumeLiveLookupBudget_def Let_def stake_ok_def split: if_splits option.splits)

lemma begin_stake_check_ok:
  assumes "stake_ok isoText recover w" "ProvedC c signature \<in> set (sw_log w)" "ch_session c = sid"
  shows "stake_ok isoText recover (begin_stake_check cfg sid c ip cached now w)"
proof -
  have v: "verification_ok (sw_log w) \<lparr>vf_session = sid, vf_challenge = c, vf_stake = st, vf_marker = pending_marker c now, vf_phase = p\<rparr>" for st p
    using assms by (auto simp: verification_ok_def pending_marker_def)
  obtain b u where u: "consumeLiveLookupBudget cfg ip now w = (b, u)" by fastforce
  have s: "stake_ok isoText recover u" "sw_log u = sw_log w" using budget_ok[OF u assms(1)] by simp_all
  show ?thesis unfolding begin_stake_check_def Let_def
    by (cases cached; cases b) (simp_all add: u verification_added[OF assms(1) v] verification_added[OF s(1) v[folded s(2)]])
qed

text \<open>A challenge is taken, and its signature found right.\<close>

lemma claimed_ok:
  assumes "stake_ok isoText recover w" "js_get (sw_challenges w) sid = Some c"
  shows "stake_ok isoText recover (told (ClaimedC c) (w\<lparr>sw_challenges := js_delete sid (sw_challenges w)\<rparr>))"
    "IssuedC c \<in> set (sw_log w)" "challenge_built isoText c"
  by (rule log_grown[OF assms(1) challenges_claim(1)[OF challenges_of[OF assms(1)] assms(2)]], simp,
      (rule challenges_claim[OF challenges_of[OF assms(1)] assms(2)])+)

lemma proved_ok:
  assumes "stake_ok isoText recover w" "proof_of isoText recover (sw_log w) c signature"
  shows "stake_ok isoText recover (told (ProvedC c signature) w)"
  using log_grown[OF assms(1), of "ProvedC c signature" "sw_challenges w"] assms(2) challenges_of[OF assms(1)]
  by (simp add: challenges_ok_def)

lemma claim_taken:
  assumes "claim_challenge sid chid now m = (r, m')"
  shows "(r = MissingS \<and> m' = m) \<or> (r = ExpiredS \<and> m' = js_delete sid m) \<or> (\<exists>c. r = ClaimedS c \<and> js_get m sid = Some c \<and> m' = js_delete sid m)"
  using assms by (auto simp: claim_challenge_def split: option.splits if_splits)

lemma other_challenges:
  assumes "stake_ok isoText recover w" "challenges_ok isoText (sw_log w) m"
  shows "stake_ok isoText recover (w\<lparr>sw_challenges := m\<rparr>)"
  using assms by (simp add: stake_ok_def)

lemma verify_step_ok:
  assumes "stake_ok isoText recover w"
  shows "stake_ok isoText recover (processVerifyStakeOwnership recover cfg sid chid signature cached now w)"
proof (cases "(if sid = [] \<or> length sid > 128 \<or> \<not> is_challenge_id chid \<or> \<not> is_signature signature then None else getRunningSession sid w)")
  case None
  thus ?thesis by (auto simp: processVerifyStakeOwnership_def answer_ok[OF assms] split: if_splits)
next
  case (Some s)
  obtain r m where rm: "claim_challenge sid chid now (sw_challenges w) = (r, m)" by fastforce
  have goal: "stake_ok isoText recover (processVerifyStakeOwnership recover cfg sid chid signature cached now w)" if "r = ClaimedS c" for c
  proof -
    have c: "js_get (sw_challenges w) sid = Some c" "m = js_delete sid (sw_challenges w)" using claim_taken[OF rm] that by auto
    let ?u = "told (ClaimedC c) (w\<lparr>sw_challenges := m\<rparr>)"
    have u: "stake_ok isoText recover ?u" unfolding c(2) by (rule claimed_ok(1)[OF assms c(1)])
    have p: "proof_of isoText recover (sw_log ?u) c signature"
      if "recoverStakeOwnershipSigner recover (ch_message c) signature = Some (ch_address c)"
      using that claimed_ok(2,3)[OF assms c(1)] by (simp add: proof_of_def told_def)
    have v: "stake_ok isoText recover (begin_stake_check cfg sid c ip cached now (told (ProvedC c signature) ?u))"
      if "recoverStakeOwnershipSigner recover (ch_message c) signature = Some (ch_address c)" "ch_session c = sid" for ip
      by (rule begin_stake_check_ok[OF proved_ok[OF u p[OF that(1)]], of _ signature]) (simp_all add: told_def that(2))
    show ?thesis using Some that v answer_ok[OF u] answer_ok[OF assms]
      by (auto simp: processVerifyStakeOwnership_def rm Let_def split: if_splits option.split)
  qed
  have del: "stake_ok isoText recover (w\<lparr>sw_challenges := js_delete sid (sw_challenges w)\<rparr>)"
    by (rule other_challenges[OF assms challenges_delete[OF challenges_of[OF assms]]])
  show ?thesis
  proof (cases r)
    case ExpiredS
    thus ?thesis using Some claim_taken[OF rm] answer_ok[OF del] answer_ok[OF assms]
      by (auto simp: processVerifyStakeOwnership_def rm split: if_splits)
  next
    case MissingS
    thus ?thesis using Some claim_taken[OF rm] answer_ok[OF assms]
      by (auto simp: processVerifyStakeOwnership_def rm split: if_splits)
  qed (rule goal)
qed

lemma lookup_step_ok:
  assumes "stake_ok isoText recover w"
  shows "stake_ok isoText recover (lookup_settled i stake w)"
  unfolding lookup_settled_def by (auto intro!: upd_verification_ok assms simp: assms verification_ok_def)

lemma upd_session_simps [simp]:
  "sw_log (upd_session sid f w) = sw_log w" "sw_verifications (upd_session sid f w) = sw_verifications w"
  "sw_log (write_row b sid w) = sw_log w" "sw_verifications (write_row b sid w) = sw_verifications w"
  by (simp_all add: upd_session_def write_row_def split: option.split)

text \<open>A marker of a verification may be put on its session.\<close>

lemma marked_ok:
  assumes "stake_ok isoText recover w" "i < length (sw_verifications w)" "vf_challenge (sw_verifications w ! i) = c"
    "ss_ownership (f (the (js_get (sw_sessions w) (vf_session (sw_verifications w ! i))))) = Some m" "om_address m = ch_address c" "om_challengeId m = ch_id c"
  shows "stake_ok isoText recover (upd_session (vf_session (sw_verifications w ! i)) f w)"
  using verification_at[OF assms(1,2)] assms(3-)
  by (intro upd_session_ok[OF assms(1)]) (auto simp: session_ok_def marker_ok_def verification_ok_def)

lemma turn_step_ok:
  assumes "stake_ok isoText recover w"
  shows "stake_ok isoText recover (verification_turn i admitted now w)"
proof -
  let ?v = "sw_verifications w ! i"
  let ?marker = "pending_marker (vf_challenge ?v) now"
  have m: "stake_ok isoText recover (upd_verification i (\<lambda>v. v\<lparr>vf_marker := ?marker, vf_phase := SavePendingV\<rparr>)
      (upd_session (vf_session ?v) (\<lambda>s. s\<lparr>ss_ownership := Some ?marker, ss_data := d, ss_refresh := r\<rparr>) w))"
    if "i < length (sw_verifications w)" for d r
    by (rule upd_verification_ok[OF marked_ok[OF assms that refl, where m = ?marker]]) (auto simp: pending_marker_def verification_ok_def)
  show ?thesis unfolding verification_turn_def Let_def
    by (auto simp: assms end_verification_ok m at_verify_def split: option.split)
qed

lemma save_step_ok:
  assumes "stake_ok isoText recover w"
  shows "stake_ok isoText recover (save_settled i ok written w)"
proof (cases "i < length (sw_verifications w)")
  case True
  let ?v = "sw_verifications w ! i"
  have r: "stake_ok isoText recover (write_row b (vf_session ?v) w)" for b by (rule write_row_ok[OF assms])
  have v: "verification_ok (sw_log w) ?v" by (rule verification_at[OF assms True])
  have m: "stake_ok isoText recover (upd_verification i (\<lambda>v. v\<lparr>vf_phase := p\<rparr>)
      (upd_session (vf_session ?v) (\<lambda>s. s\<lparr>ss_ownership := Some k\<rparr>) (write_row b (vf_session ?v) w)))"
    if "om_address k = om_address (vf_marker ?v)" "om_challengeId k = om_challengeId (vf_marker ?v)" for p k b
    using marked_ok[OF r, of i b _ "\<lambda>s. s\<lparr>ss_ownership := Some k\<rparr>" k] True v that
    by (intro upd_verification_ok) (auto simp: verification_ok_def)
  show ?thesis using True unfolding save_settled_def Let_def
    by (auto simp: assms m end_verification_ok[OF r] split: verify_phase.split)
qed (use assms in \<open>simp add: save_settled_def\<close>)

lemma cleared_ok: "stake_ok isoText recover w \<Longrightarrow> stake_ok isoText recover (clear_challenges w)"
  using challenges_clear[OF challenges_of] unfolding stake_ok_def clear_challenges_def by simp

lemma restart_ok: "stake_ok isoText recover w \<Longrightarrow> stake_ok isoText recover (restart w)"
  using challenges_clear[OF challenges_of] unfolding stake_ok_def restart_def by simp

lemma stake_start_ok:
  assumes "stake_processSessionStart cfg s cached found now w = (r, w')" "stake_ok isoText recover w"
  shows "stake_ok isoText recover w' \<and> (\<forall>s'. r = Inr s' \<longrightarrow> ss_ownership s' = ss_ownership s)"
  using assms by (auto simp: stake_processSessionStart_def Let_def dest: budget_ok split: if_splits option.splits prod.splits bool.splits)

lemma other_refreshes: "stake_ok isoText recover (w\<lparr>sw_refreshes := rs\<rparr>) \<longleftrightarrow> stake_ok isoText recover w"
  by (simp add: stake_ok_def)

lemma refresh_ok:
  assumes "stake_ok isoText recover w"
  shows "stake_ok isoText recover (processRefreshStakeInfo cfg sid cooldown now w)"
  unfolding processRefreshStakeInfo_def
  by (auto simp: answer_ok assms other_refreshes dest: budget_ok[OF _ assms] split: option.split prod.split bool.split)

lemma refreshed_ok:
  assumes "stake_ok isoText recover w"
  shows "stake_ok isoText recover (refresh_settled i found w)"
  unfolding refresh_settled_def
  by (auto simp: assms Let_def other_refreshes split: option.split prod.split intro!: answer_ok upd_session_ok) (auto simp: session_ok_def)

lemma stake_step_ok:
  assumes "stake_ok isoText recover w"
  shows "stake_ok isoText recover (stake_step isoText recover cfg e w)"
proof (cases e)
  case (SessionS sid s cached found now)
  obtain r w' where r: "stake_processSessionStart cfg (s\<lparr>ss_ownership := None\<rparr>) cached found now w = (r, w')" by fastforce
  note k = stake_start_ok[OF r assms]
  have "stake_ok isoText recover (w'\<lparr>sw_sessions := js_set sid s' (sw_sessions w')\<rparr>)" if "r = Inr s'" for s'
    using k that by (auto simp: stake_ok_def intro!: sessions_set) (auto simp: session_ok_def)
  thus ?thesis using k r assms SessionS by (auto simp: answer_ok split: sum.split)
next
  case (ChangeS sid f)
  thus ?thesis by (auto intro!: upd_session_ok[OF assms] simp: session_ok_def)
qed (simp_all add: assms write_row_ok challenge_step_ok verify_step_ok lookup_step_ok turn_step_ok save_step_ok cleared_ok restart_ok refresh_ok refreshed_ok)

lemma stake_run_ok: "stake_ok isoText recover (stake_run isoText recover cfg es)"
proof -
  have "stake_ok isoText recover w \<Longrightarrow> stake_ok isoText recover (fold (stake_step isoText recover cfg) es w)" for w
    by (induction es arbitrary: w) (simp_all add: stake_step_ok)
  moreover have "stake_ok isoText recover empty_stake"
    by (simp add: empty_stake_def stake_ok_def sessions_ok_def challenges_ok_def issued_of_def claimed_of_def)
  ultimately show ?thesis unfolding stake_run_def by blast
qed

text \<open>A rewarded session has been proved.\<close>

lemma rewarded_verified: "stakeRewardFactor numOf textOf cfg now s = Some f \<Longrightarrow> isSessionOwnershipVerified s"
  by (auto simp: stakeRewardFactor_def split: if_splits)

text \<open>A required stake lets nobody in without it, and no client is shown a factor it does not get.\<close>

lemma stake_required:
  assumes "stake_processSessionStart cfg s cached found now w = (Inr s', w')" "sc_requiredStakeUsd cfg > 0" "\<not> ss_skipped s"
  shows "\<exists>i. ss_data s' = Some i \<and> (cached = Some i \<or> found = Inr i) \<and> (lookup_failed i \<or> \<not> num_less (si_stakedUsd i) (Fin (sc_requiredStakeUsd cfg)))"
  using assms by (auto simp: stake_processSessionStart_def Let_def handleSessionLookupFailure_def split: option.splits if_splits prod.splits bool.splits sum.splits)

lemma no_stake_factor:
  assumes "\<And>e. e \<in> set (sc_boostFactor cfg) \<Longrightarrow> numOf (fst e) > 0"
  shows "sb_factor (getStakeBoost numOf textOf cfg None) = 1"
proof -
  have "\<forall>tier \<in> set ts. 0 < tier \<Longrightarrow> fst (fold (\<lambda>tier (factor, next_tier).
       if 0 \<ge> tier then ((case js_get (sc_boostFactor cfg) (textOf tier) of Some f \<Rightarrow> if f > factor then f else factor | None \<Rightarrow> factor), next_tier)
       else if next_tier = None then (factor, Some (tier, js_get (sc_boostFactor cfg) (textOf tier)))
       else (factor, next_tier)) ts (1, n)) = (1 :: rat)" for ts n
    by (induction ts arbitrary: n) auto
  from this[of "sort (map (numOf \<circ> fst) (sc_boostFactor cfg))" None] show ?thesis
    using assms by (force simp: getStakeBoost_def split: prod.split)
qed

lemma shown_factor:
  assumes "\<And>e. e \<in> set (sc_boostFactor cfg) \<Longrightarrow> numOf (fst e) > 0" "\<not> ss_skipped s"
  shows "sb_factor (sr_boost (getSessionStakeResponse numOf textOf cfg now s)) = (case stakeRewardFactor numOf textOf cfg now s of Some f \<Rightarrow> f | None \<Rightarrow> 1)"
  using assms(2) no_stake_factor[of cfg numOf textOf] assms(1)
  by (auto simp: getSessionStakeResponse_def stakeRewardFactor_def Let_def split: option.split)

text \<open>C16. A stake boost needs a proof of the wallet.  In every run of sessions, challenges, verifications and saves, with
  saves that fail or fail after taking effect, changes of a session between the awaits of a verification, and restarts from
  the stored sessions: a session (in memory or stored) that the module rewards for its stake has a challenge that was
  issued to this session and taken once, for the address it is paid to, and a signature over the text built from this
  session and address which recovers to the address; and no challenge is taken more often than it was issued.\<close>

theorem stake_ownership_proved:
  fixes isoText :: "int \<Rightarrow> string" and recover :: "string \<Rightarrow> string \<Rightarrow> string option" and cfg :: stake_config and es :: "stake_event list"
  defines "w \<equiv> stake_run isoText recover cfg es"
  assumes "js_get (sw_sessions w) sid = Some s \<or> js_get (sw_rows w) sid = Some s"
    and "stakeRewardFactor numOf textOf cfg now s = Some f"
  shows "(\<exists>c signature. ProvedC c signature \<in> set (sw_log w) \<and> proof_of isoText recover (sw_log w) c signature \<and>
      ch_session c = sid \<and> ch_address c = toLowerCase (ss_target s)) \<and>
    mset (claimed_of (sw_log w)) \<subseteq># mset (issued_of (sw_log w))"
proof -
  have w: "stake_ok isoText recover w" unfolding w_def by (rule stake_run_ok)
  hence "session_ok (sw_log w) sid s" using assms(2) unfolding stake_ok_def sessions_ok_def by blast
  then obtain c signature where "ProvedC c signature \<in> set (sw_log w)" "ch_session c = sid" "ch_address c = toLowerCase (ss_target s)"
    using rewarded_verified[OF assms(3)]
    by (auto simp: isSessionOwnershipVerified_def session_ok_def marker_ok_def split: option.splits)
  moreover have "mset (claimed_of (sw_log w)) \<subseteq># mset (issued_of (sw_log w))"
    using w unfolding stake_ok_def challenges_ok_def by (meson mset_subset_eq_add_left subset_mset.order_trans)
  ultimately show ?thesis using w unfolding stake_ok_def by blast
qed

definition sample_recover :: "string \<Rightarrow> string \<Rightarrow> string option" where
  "sample_recover message signature = (if drop 130 signature = ''1b'' then Some ''0xAb'' else None)"

definition sample_stake :: stake_info where
  "sample_stake = \<lparr>si_address = ''0xab'', si_delegated = Fin 10, si_totalDelegated = Fin 10, si_stakedUsd = Fin 500, si_tokenPrice = Fin 50,
     si_time = 1000, si_error = None\<rparr>"

definition sample_session :: stake_session where
  "sample_session = \<lparr>ss_running = True, ss_target = ''0xaB'', ss_startTime = 900, ss_remoteIP = ''1.2.3.4'', ss_skipped = False,
     ss_ownership = None, ss_data = None, ss_refresh = 0\<rparr>"

definition sample_stakes :: stake_config where
  "sample_stakes = \<lparr>sc_timeout = 3600, sc_lookupLimit = 10, sc_stakeCacheTime = 60, sc_refreshCooldown = 30, sc_requiredStakeUsd = 50,
     sc_failOnApiError = False, sc_boostFactor = [(''100'', 2)]\<rparr>"

definition sample_proof :: "stake_event list" where
  "sample_proof = [SessionS ''s'' sample_session (Some sample_stake) (Inl True) 999, ChallengeS ''s'' (replicate 64 CHR ''a'') 1000,
     VerifyS ''s'' (replicate 64 CHR ''a'') (''0x'' @ replicate 128 CHR ''7'' @ ''00'') (Some sample_stake) 1001,
     TurnS 0 True 1002, SavedS 0 True False, SavedS 0 True False, RestartS]"

definition sample_verified :: stake_session where
  "sample_verified = sample_session\<lparr>ss_ownership := Some \<lparr>om_state = ActiveO, om_challengeId = replicate 64 CHR ''a'', om_address = ''0xab'', om_verifiedAt = 1002\<rparr>,
     ss_data := Some sample_stake, ss_refresh := 1002\<rparr>"

lemma sample_row: "js_get (sw_rows (stake_run (\<lambda>_. ''later'') sample_recover sample_stakes sample_proof)) ''s'' = Some sample_verified"
  by code_simp

lemma sample_boosted: "stakeRewardFactor (\<lambda>_. 100) (\<lambda>_. ''100'') sample_stakes 1010 sample_verified = Some 2"
  by code_simp

lemma stake_ownership_proved_witness:
  "js_get (sw_rows (stake_run (\<lambda>_. ''later'') sample_recover sample_stakes sample_proof)) ''s'' = Some sample_verified \<and>
   (\<exists>c signature. ProvedC c signature \<in> set (sw_log (stake_run (\<lambda>_. ''later'') sample_recover sample_stakes sample_proof)) \<and>
      proof_of (\<lambda>_. ''later'') sample_recover (sw_log (stake_run (\<lambda>_. ''later'') sample_recover sample_stakes sample_proof)) c signature \<and>
      ch_session c = ''s'' \<and> ch_address c = toLowerCase (ss_target sample_verified))"
  using stake_ownership_proved[of "\<lambda>_. ''later''" sample_recover sample_stakes sample_proof, OF disjI2[OF sample_row] sample_boosted] sample_row
  by blast

end
