(* ===== verification/Hook_Rounds.thy ===== *)
theory Hook_Rounds
  imports Action_Hooks
begin

text \<open>
  \<^verbatim>\<open>runActionHooks\<close> of \<^verbatim>\<open>src/src/modules/ModuleManager.ts\<close> as it runs: the hooks of one priority are started
  together, in order, and settle in any order; the next priority waits for all of them.  A hook is the pair of its priority
  and its identity; what it does between its start and its end is its own.  \<open>agg\<close> makes one error of several, and the number in its
  text is not modelled.  (\<^theory_text>\<open>Action_Hooks\<close> has the schedule of the same
  loop in which a hook ends before the next one starts, which the models of sessions run.)
\<close>

subsection \<open>The loop\<close>

datatype 'e hook_status = Waiting | Running | Resolved | Rejected 'e

datatype 'e hooks_phase = AtWork | AllRun | Thrown 'e

datatype ('h, 'e) hook_entry = Started 'h | Ended 'h "'e option"

record ('h, 'e) hooks_state =
  hx_locals :: "(int \<times> 'h) list"
  hx_hooks :: "(int \<times> 'h) list"
  hx_round :: "((int \<times> 'h) \<times> 'e hook_status) list"
  hx_phase :: "'e hooks_phase"
  hx_log :: "('h, 'e) hook_entry list"

definition begin_round :: "('h, 'e) hooks_state \<Rightarrow> ('h, 'e) hooks_state" where
  "begin_round s = (case loop_prio (hx_locals s) (hx_hooks s) of
      None \<Rightarrow> s\<lparr>hx_round := [], hx_phase := AllRun\<rparr>
    | Some prio \<Rightarrow> s\<lparr>
        hx_round := map (\<lambda>h. (h, Waiting)) (takeWhile (\<lambda>h. fst h = prio) (hx_locals s) @ takeWhile (\<lambda>h. fst h = prio) (hx_hooks s)),
        hx_locals := dropWhile (\<lambda>h. fst h = prio) (hx_locals s), hx_hooks := dropWhile (\<lambda>h. fst h = prio) (hx_hooks s)\<rparr>)"

definition run_hooks_start :: "(int \<times> 'h) list \<Rightarrow> (int \<times> 'h) list \<Rightarrow> ('h, 'e) hooks_state" where
  "run_hooks_start localfns hooks = begin_round \<lparr>hx_locals = localfns, hx_hooks = hooks, hx_round = [], hx_phase = AtWork, hx_log = []\<rparr>"

text \<open>\<^verbatim>\<open>invokeHook\<close> starts a hook in a task of its own; these tasks run in the order in which they were made.\<close>

fun start_first :: "((int \<times> 'h) \<times> 'e hook_status) list \<Rightarrow> ('h \<times> ((int \<times> 'h) \<times> 'e hook_status) list) option" where
  "start_first [] = None"
| "start_first ((h, st) # r) = (if st = Waiting then Some (snd h, (h, Running) # r)
     else map_option (\<lambda>(x, r). (x, (h, st) # r)) (start_first r))"

fun rejection :: "(int \<times> 'h) \<times> 'e hook_status \<Rightarrow> 'e option" where
  "rejection (h, Rejected e) = Some e"
| "rejection (h, _) = None"

definition round_failures :: "((int \<times> 'h) \<times> 'e hook_status) list \<Rightarrow> 'e list" where
  "round_failures r = List.map_filter rejection r"

definition failure_of :: "('e list \<Rightarrow> 'e) \<Rightarrow> 'e list \<Rightarrow> 'e" where
  "failure_of agg failures = (case failures of [e] \<Rightarrow> e | _ \<Rightarrow> agg failures)"

fun is_settled :: "'e hook_status \<Rightarrow> bool" where
  "is_settled Resolved = True"
| "is_settled (Rejected e) = True"
| "is_settled _ = False"

datatype 'e hook_event = StartH | SettleH nat "'e option" | NextH

fun hooks_step :: "('e list \<Rightarrow> 'e) \<Rightarrow> 'e hook_event \<Rightarrow> ('h, 'e) hooks_state \<Rightarrow> ('h, 'e) hooks_state" where
  "hooks_step agg StartH s = (case start_first (hx_round s) of
      None \<Rightarrow> s
    | Some (h, r) \<Rightarrow> s\<lparr>hx_round := r, hx_log := hx_log s @ [Started h]\<rparr>)"
| "hooks_step agg (SettleH i outcome) s = (if i < length (hx_round s) \<and> snd (hx_round s ! i) = Running
     then s\<lparr>hx_round := (hx_round s)[i := (fst (hx_round s ! i), case outcome of None \<Rightarrow> Resolved | Some e \<Rightarrow> Rejected e)],
       hx_log := hx_log s @ [Ended (snd (fst (hx_round s ! i))) outcome]\<rparr>
     else s)"
| "hooks_step agg NextH s = (if hx_phase s = AtWork \<and> (\<forall>x \<in> set (hx_round s). is_settled (snd x))
     then (if round_failures (hx_round s) = [] then begin_round s
       else s\<lparr>hx_phase := Thrown (failure_of agg (round_failures (hx_round s)))\<rparr>)
     else s)"

definition hooks_run :: "('e list \<Rightarrow> 'e) \<Rightarrow> (int \<times> 'h) list \<Rightarrow> (int \<times> 'h) list \<Rightarrow> 'e hook_event list \<Rightarrow> ('h, 'e) hooks_state" where
  "hooks_run agg localfns hooks es = fold (hooks_step agg) es (run_hooks_start localfns hooks)"

subsection \<open>The order of the hooks\<close>

lemma sort_min:
  fixes hs :: "(int \<times> 'h) list"
  assumes "\<forall>h \<in> set hs. p \<le> fst h"
  shows "sort_key fst hs = filter (\<lambda>h. fst h = p) hs @ sort_key fst (filter (\<lambda>h. fst h \<noteq> p) hs)"
proof (rule properties_for_sort_key)
  show "mset (filter (\<lambda>h. fst h = p) hs @ sort_key fst (filter (\<lambda>h. fst h \<noteq> p) hs)) = mset hs"
    by (simp add: multiset_partition[symmetric])
  show "sorted (map fst (filter (\<lambda>h. fst h = p) hs @ sort_key fst (filter (\<lambda>h. fst h \<noteq> p) hs)))"
  proof -
    have "map fst (filter (\<lambda>h. fst h = p) hs) = replicate (length (filter (\<lambda>h. fst h = p) hs)) p" by (induction hs) auto
    thus ?thesis using assms by (auto simp: sorted_append)
  qed
  have stable: "filter (\<lambda>x. fst k = fst x) (sort_key fst ys) = filter (\<lambda>x. fst k = fst x) ys" for k and ys :: "(int \<times> 'h) list"
    using sort_key_stable[of fst "fst k" ys] by (metis (mono_tags, lifting) filter_cong)
  show "filter (\<lambda>x. fst k = fst x) (filter (\<lambda>h. fst h = p) hs @ sort_key fst (filter (\<lambda>h. fst h \<noteq> p) hs)) = filter (\<lambda>x. fst k = fst x) hs" for k
  proof (cases "fst k = p")
    case True
    have "filter (\<lambda>x. fst x \<noteq> p \<and> fst k = fst x) hs = []" "filter (\<lambda>x. fst x = p \<and> fst k = fst x) hs = filter (\<lambda>x. fst k = fst x) hs"
      using True by (auto simp: filter_empty_conv intro!: filter_cong)
    thus ?thesis by (simp add: stable)
  next
    case False
    have "filter (\<lambda>x. fst x \<noteq> p \<and> fst k = fst x) hs = filter (\<lambda>x. fst k = fst x) hs" "filter (\<lambda>x. fst x = p \<and> fst k = fst x) hs = []"
      using False by (auto simp: filter_empty_conv intro!: filter_cong)
    thus ?thesis by (simp add: stable)
  qed
qed

lemma sorted_drop: "sorted (map fst hs) \<Longrightarrow> sorted (map fst (dropWhile P hs))"
  by (induction hs) auto

lemma order_of_round:
  assumes "sorted (map fst L)" "sorted (map fst H)" "loop_prio L H = Some p"
  shows "sort_key fst (L @ H) = (takeWhile (\<lambda>h. fst h = p) L @ takeWhile (\<lambda>h. fst h = p) H) @
      sort_key fst (dropWhile (\<lambda>h. fst h = p) L @ dropWhile (\<lambda>h. fst h = p) H)"
    "\<forall>h \<in> set (dropWhile (\<lambda>h. fst h = p) L @ dropWhile (\<lambda>h. fst h = p) H). p < fst h"
proof -
  note P = loop_prio_Some[OF assms]
  have l: "\<forall>h \<in> set L. p \<le> fst h" "\<forall>h \<in> set H. p \<le> fst h" using P(2) by auto
  show "sort_key fst (L @ H) = (takeWhile (\<lambda>h. fst h = p) L @ takeWhile (\<lambda>h. fst h = p) H) @
      sort_key fst (dropWhile (\<lambda>h. fst h = p) L @ dropWhile (\<lambda>h. fst h = p) H)"
    using sort_min[OF P(2)] by (simp add: sorted_take assms l)
  show "\<forall>h \<in> set (dropWhile (\<lambda>h. fst h = p) L @ dropWhile (\<lambda>h. fst h = p) H). p < fst h"
    using l by (auto simp: sorted_take assms order_less_le)
qed

subsection \<open>What holds at every moment\<close>

definition started :: "('h, 'e) hook_entry list \<Rightarrow> 'h list" where
  "started l = List.map_filter (\<lambda>x. case x of Started h \<Rightarrow> Some h | Ended _ _ \<Rightarrow> None) l"

definition endings :: "('h, 'e) hook_entry list \<Rightarrow> ('h \<times> 'e option) list" where
  "endings l = List.map_filter (\<lambda>x. case x of Started _ \<Rightarrow> None | Ended h r \<Rightarrow> Some (h, r)) l"

lemma log_snoc [simp]:
  "started [] = []" "endings [] = []"
  "started (l @ [Started h]) = started l @ [h]" "started (l @ [Ended h r]) = started l"
  "endings (l @ [Started h]) = endings l" "endings (l @ [Ended h r]) = endings l @ [(h, r)]"
  by (simp_all add: started_def endings_def List.map_filter_def)

lemma endings_in: "(h, r) \<in> set (endings l) \<longleftrightarrow> Ended h r \<in> set l"
  by (induction l rule: rev_induct) (auto simp: endings_def List.map_filter_def split: hook_entry.splits)

fun outcome_of :: "(int \<times> 'h) \<times> 'e hook_status \<Rightarrow> ('h \<times> 'e option) option" where
  "outcome_of (h, Resolved) = Some (snd h, None)"
| "outcome_of (h, Rejected e) = Some (snd h, Some e)"
| "outcome_of (h, _) = None"

definition outcomes :: "((int \<times> 'h) \<times> 'e hook_status) list \<Rightarrow> ('h \<times> 'e option) set" where
  "outcomes r = {o'. \<exists>x \<in> set r. outcome_of x = Some o'}"

lemma outcomes_simps [simp]: "outcomes [] = {}" "outcomes (x # r) = (case outcome_of x of None \<Rightarrow> {} | Some o' \<Rightarrow> {o'}) \<union> outcomes r"
  "outcomes (r @ r') = outcomes r \<union> outcomes r'"
  by (auto simp: outcomes_def split: option.splits)

lemma outcomes_ids: "fst ` outcomes r \<subseteq> snd ` fst ` set r"
proof (induction r)
  case (Cons x r)
  thus ?case by (cases "outcome_of x"; cases x rule: outcome_of.cases) auto
qed simp

text \<open>A hook starts after every hook of a lower priority has succeeded.\<close>

definition in_turn :: "(int \<times> 'h) list \<Rightarrow> ('h, 'e) hook_entry list \<Rightarrow> bool" where
  "in_turn order l \<longleftrightarrow> (\<forall>pre post h x. l = pre @ Started (snd h) # post \<longrightarrow> h \<in> set order \<longrightarrow> x \<in> set order \<longrightarrow> fst x < fst h \<longrightarrow>
     Ended (snd x) None \<in> set pre)"

lemma in_turn_ended: "in_turn order l \<Longrightarrow> in_turn order (l @ [Ended h r])"
  unfolding in_turn_def by (fastforce simp: append_eq_append_conv2 Cons_eq_append_conv append_eq_Cons_conv)

lemma in_turn_started:
  assumes "in_turn order l" "distinct (map snd order)" "h \<in> set order" "\<And>x. x \<in> set order \<Longrightarrow> fst x < fst h \<Longrightarrow> (snd x, None) \<in> set (endings l)"
  shows "in_turn order (l @ [Started (snd h)])"
  unfolding in_turn_def
proof (intro allI impI)
  fix pre post g x
  assume a: "l @ [Started (snd h)] = pre @ Started (snd g) # post" "g \<in> set order" "x \<in> set order" "fst x < fst g"
  show "Ended (snd x) None \<in> set pre"
  proof (cases post rule: rev_cases)
    case Nil
    hence "snd g = snd h" "pre = l" using a(1) by auto
    moreover have "g = h" using calculation(1) a(2) assms(2,3) by (simp add: distinct_map inj_on_def)
    ultimately show ?thesis using assms(4)[OF a(3)] a(4) by (simp add: endings_in)
  next
    case (snoc post' y)
    hence "l = pre @ Started (snd g) # post'" using a(1) by simp
    thus ?thesis using assms(1) a(2-4) unfolding in_turn_def by blast
  qed
qed

definition one_round :: "(int \<times> 'h) list \<Rightarrow> ('h, 'e) hooks_state \<Rightarrow> bool" where
  "one_round F s \<longleftrightarrow> (\<forall>h \<in> set F. \<forall>x \<in> set (hx_locals s @ hx_hooks s). fst h < fst x) \<and> (\<forall>x \<in> set (hx_round s). (\<forall>h \<in> set F. fst h < fst (fst x)) \<and> (\<forall>y \<in> set (hx_round s). fst (fst y) = fst (fst x)) \<and>
     (\<forall>h \<in> set (hx_locals s @ hx_hooks s). fst (fst x) < fst h))"

definition phase_ok :: "('e list \<Rightarrow> 'e) \<Rightarrow> ('h, 'e) hooks_state \<Rightarrow> bool" where
  "phase_ok agg s \<longleftrightarrow> (case hx_phase s of
      AtWork \<Rightarrow> True
    | AllRun \<Rightarrow> hx_round s = [] \<and> hx_locals s = [] \<and> hx_hooks s = []
    | Thrown e \<Rightarrow> (\<forall>x \<in> set (hx_round s). is_settled (snd x)) \<and> round_failures (hx_round s) \<noteq> [] \<and> e = failure_of agg (round_failures (hx_round s)))"

definition round_started :: "(int \<times> 'h) list \<Rightarrow> ('h, 'e) hooks_state \<Rightarrow> bool" where
  "round_started F s \<longleftrightarrow> (\<exists>A B. hx_round s = A @ B \<and> (\<forall>x \<in> set A. snd x \<noteq> Waiting) \<and> (\<forall>x \<in> set B. snd x = Waiting) \<and>
     started (hx_log s) = map snd (F @ map fst A))"

definition hooks_inv :: "('e list \<Rightarrow> 'e) \<Rightarrow> (int \<times> 'h) list \<Rightarrow> (int \<times> 'h) list \<Rightarrow> ('h, 'e) hooks_state \<Rightarrow> bool" where
  "hooks_inv agg order F s \<longleftrightarrow> sorted (map fst (hx_locals s)) \<and> sorted (map fst (hx_hooks s)) \<and> distinct (map snd order) \<and>
     order = F @ map fst (hx_round s) @ sort_key fst (hx_locals s @ hx_hooks s) \<and> round_started F s \<and> one_round F s \<and>
     set (endings (hx_log s)) = (\<lambda>h. (snd h, None)) ` set F \<union> outcomes (hx_round s) \<and> distinct (map fst (endings (hx_log s))) \<and>
     in_turn order (hx_log s) \<and> phase_ok agg s"

lemma begin_round_inv:
  assumes L: "sorted (map fst (hx_locals s))" "sorted (map fst (hx_hooks s))" and o: "distinct (map snd order)"
    "order = F @ sort_key fst (hx_locals s @ hx_hooks s)" and st: "started (hx_log s) = map snd F"
    and e: "set (endings (hx_log s)) = (\<lambda>h. (snd h, None)) ` set F" "distinct (map fst (endings (hx_log s)))" "in_turn order (hx_log s)"
    and F: "\<forall>h \<in> set F. \<forall>x \<in> set (hx_locals s @ hx_hooks s). fst h < fst x" and ph: "hx_phase s = AtWork"
  shows "hooks_inv agg order F (begin_round s)"
proof (cases "loop_prio (hx_locals s) (hx_hooks s)")
  case None
  hence n: "hx_locals s = []" "hx_hooks s = []" by (simp_all add: loop_prio_None)
  show ?thesis using None n o st e
    by (simp add: begin_round_def hooks_inv_def round_started_def one_round_def phase_ok_def)
next
  case (Some p)
  let ?L = "hx_locals s" and ?H = "hx_hooks s" and ?T = "takeWhile (\<lambda>h. fst h = p)" and ?D = "dropWhile (\<lambda>h. fst h = p)"
  note O = order_of_round[OF L Some]
  have fst_map: "map fst (map (\<lambda>h. (h, Waiting :: 'b hook_status)) hs) = hs" for hs :: "(int \<times> 'a) list" by (induction hs) auto
  have b: "begin_round s = s\<lparr>hx_round := map (\<lambda>h. (h, Waiting)) (?T ?L @ ?T ?H), hx_locals := ?D ?L, hx_hooks := ?D ?H\<rparr>"
    using Some by (simp add: begin_round_def)
  have p: "fst (fst x) = p" if "x \<in> set (map (\<lambda>h. (h, Waiting :: 'b hook_status)) (?T ?L @ ?T ?H))" for x
    using that by (auto dest: set_takeWhileD)
  have low: "fst h < p" if "h \<in> set F" for h using F that loop_prio_Some(1)[OF L Some] by fastforce
  have low': "fst h < fst x" if "h \<in> set F" "x \<in> set (?D ?L @ ?D ?H)" for h x using low[OF that(1)] O(2) that(2) by fastforce
  have "one_round F (begin_round s)"
    using p low O(2) low' unfolding one_round_def b by (auto simp del: set_map)
  moreover have "sorted (map fst (?D ?L))" "sorted (map fst (?D ?H))" using L by (simp_all add: sorted_drop)
  moreover have "outcomes (map (\<lambda>h. (h, Waiting)) hs) = ({} :: ('a \<times> 'b option) set)" for hs :: "(int \<times> 'a) list" by (auto simp: outcomes_def)
  moreover have "round_started F (begin_round s)" unfolding round_started_def b
    by (rule exI[of _ "[]"], rule exI[of _ "map (\<lambda>h. (h, Waiting)) (?T ?L @ ?T ?H)"]) (use st in auto)
  moreover have "order = F @ map fst (hx_round (begin_round s)) @ sort_key fst (hx_locals (begin_round s) @ hx_hooks (begin_round s))"
    by (simp add: b fst_map o(2) O(1) del: map_append map_map)
  ultimately show ?thesis using o(1) e ph unfolding hooks_inv_def by (simp add: b phase_ok_def del: map_append)
qed

lemma start_first_Some:
  "start_first r = Some (h, r') \<Longrightarrow> \<exists>X g Y. r = X @ (g, Waiting) # Y \<and> r' = X @ (g, Running) # Y \<and> h = snd g \<and> (\<forall>x \<in> set X. snd x \<noteq> Waiting)"
proof (induction r arbitrary: r' rule: start_first.induct)
  case (2 g st r)
  show ?case
  proof (cases "st = Waiting")
    case True thus ?thesis using 2(2) by (intro exI[of _ "[]"] exI[of _ g] exI[of _ r]) simp
  next
    case False
    then obtain r1 where r1: "start_first r = Some (h, r1)" "r' = (g, st) # r1" using 2(2) by auto
    then obtain X g' Y where "r = X @ (g', Waiting) # Y" "r1 = X @ (g', Running) # Y" "h = snd g'" "\<forall>x \<in> set X. snd x \<noteq> Waiting"
      using 2(1)[OF False r1(1)] by blast
    thus ?thesis using False r1(2) by (intro exI[of _ "(g, st) # X"] exI[of _ g'] exI[of _ Y]) simp
  qed
qed simp

lemma waiting_split:
  assumes "X @ (g, Waiting) # Y = A @ B" "\<forall>x \<in> set X. snd x \<noteq> Waiting" "\<forall>x \<in> set A. snd x \<noteq> Waiting" "\<forall>x \<in> set B. snd x = Waiting"
  shows "X = A" "B = (g, Waiting) # Y"
proof -
  let ?t = "takeWhile (\<lambda>x. snd x \<noteq> Waiting)"
  have "?t (X @ (g, Waiting) # Y) = X" using assms(2) by (simp add: takeWhile_tail)
  moreover have "?t (A @ B) = A" using assms(3,4) by (cases B) (simp_all add: takeWhile_tail)
  ultimately show "X = A" using assms(1) by simp
  thus "B = (g, Waiting) # Y" using assms(1) by simp
qed

lemma one_round_same:
  fixes s s' :: "('h, 'e) hooks_state"
  assumes "fst ` set (hx_round s') = fst ` set (hx_round s)" "hx_locals s' = hx_locals s" "hx_hooks s' = hx_hooks s" "one_round F s"
  shows "one_round F s'"
proof -
  have eq: "one_round F t \<longleftrightarrow> (\<forall>h \<in> set F. \<forall>x \<in> set (hx_locals t @ hx_hooks t). fst h < fst x) \<and> (\<forall>a \<in> fst ` set (hx_round t). (\<forall>h \<in> set F. fst h < fst a) \<and> (\<forall>y \<in> fst ` set (hx_round t). fst y = fst a) \<and>
      (\<forall>h \<in> set (hx_locals t @ hx_hooks t). fst a < fst h))" for t :: "('h, 'e) hooks_state"
    unfolding one_round_def by blast
  show ?thesis using assms(4) unfolding eq assms(1-3) .
qed

lemma at_work:
  assumes "hooks_inv agg order F s" "x \<in> set (hx_round s)" "\<not> is_settled (snd x)"
  shows "hx_phase s = AtWork"
  using assms unfolding hooks_inv_def phase_ok_def by (cases "hx_phase s") auto

lemma hooks_start_inv:
  assumes inv: "hooks_inv agg order F s"
  shows "hooks_inv agg order F (hooks_step agg StartH s)"
proof (cases "start_first (hx_round s)")
  case None thus ?thesis using inv by simp
next
  case (Some hr)
  obtain h r where hr: "hr = (h, r)" by (cases hr)
  obtain X g Y where R: "hx_round s = X @ (g, Waiting) # Y" "r = X @ (g, Running) # Y" "h = snd g" "\<forall>x \<in> set X. snd x \<noteq> Waiting"
    using start_first_Some[OF Some[unfolded hr]] by blast
  note I = inv[unfolded hooks_inv_def]
  have ord: "order = F @ map fst (hx_round s) @ sort_key fst (hx_locals s @ hx_hooks s)" using I by blast
  have ph: "hx_phase s = AtWork" using at_work[OF inv, of "(g, Waiting)"] R(1) by simp
  have step: "hooks_step agg StartH s = s\<lparr>hx_round := r, hx_log := hx_log s @ [Started h]\<rparr>" using Some hr by simp
  obtain A B where AB: "hx_round s = A @ B" "\<forall>x \<in> set A. snd x \<noteq> Waiting" "\<forall>x \<in> set B. snd x = Waiting" "started (hx_log s) = map snd (F @ map fst A)"
    using I unfolding round_started_def by blast
  have XA: "X = A" "B = (g, Waiting) # Y" using waiting_split[OF trans[OF R(1)[symmetric] AB(1)] R(4) AB(2,3)] by simp_all
  have one: "one_round F s" and gin: "(g, Waiting) \<in> set (hx_round s)" using I R(1) by simp_all
  have "round_started F (hooks_step agg StartH s)" unfolding round_started_def step
    by (rule exI[of _ "A @ [(g, Running)]"], rule exI[of _ Y]) (use AB XA R in auto)
  moreover have "one_round F (hooks_step agg StartH s)" unfolding step by (rule one_round_same[OF _ _ _ one]) (simp_all add: R(1,2))
  moreover have "in_turn order (hx_log s @ [Started (snd g)])"
  proof (rule in_turn_started)
    show "in_turn order (hx_log s)" "distinct (map snd order)" using I by blast+
    show "g \<in> set order" unfolding ord R(1) by simp
    fix x assume x: "x \<in> set order" "fst x < fst g"
    have "x \<in> set F"
    proof -
      have "x \<in> set F \<or> x \<in> fst ` set (hx_round s) \<or> x \<in> set (hx_locals s @ hx_hooks s)" using x(1) I by auto
      moreover have "fst (fst y) = fst g" if "y \<in> set (hx_round s)" for y using one gin that unfolding one_round_def by (metis fst_conv)
      moreover have "fst g < fst y" if "y \<in> set (hx_locals s @ hx_hooks s)" for y using one gin that unfolding one_round_def by (metis fst_conv)
      ultimately show ?thesis using x(2) by fastforce
    qed
    moreover have "set (endings (hx_log s)) = (\<lambda>h. (snd h, None)) ` set F \<union> outcomes (hx_round s)" using I by blast
    ultimately show "(snd x, None) \<in> set (endings (hx_log s))" by simp
  qed
  moreover have "map fst r = map fst (hx_round s)" "outcomes r = outcomes (hx_round s)" by (simp_all add: R(1,2))
  ultimately show ?thesis using I ph R(3) unfolding hooks_inv_def by (elim conjE) (simp add: step phase_ok_def del: map_map hooks_step.simps)
qed

lemma hooks_settle_inv:
  assumes inv: "hooks_inv agg order F s"
  shows "hooks_inv agg order F (hooks_step agg (SettleH i outcome) s)"
proof (cases "i < length (hx_round s) \<and> snd (hx_round s ! i) = Running")
  case False
  hence "hooks_step agg (SettleH i outcome) s = s" unfolding hooks_step.simps by (rule if_not_P)
  thus ?thesis using inv by simp
next
  case True
  let ?st = "case outcome of None \<Rightarrow> Resolved | Some e \<Rightarrow> Rejected e"
  obtain g where g: "hx_round s ! i = (g, Running)" using True by (cases "hx_round s ! i") auto
  note I = inv[unfolded hooks_inv_def]
  have gin: "(g, Running) \<in> set (hx_round s)" using True g by (metis nth_mem)
  have ph: "hx_phase s = AtWork" using at_work[OF inv gin] by simp
  define R' where "R' = (hx_round s)[i := (g, ?st)]"
  have step: "hooks_step agg (SettleH i outcome) s = s\<lparr>hx_round := R', hx_log := hx_log s @ [Ended (snd g) outcome]\<rparr>"
    using True g by (simp add: R'_def)
  have ids: "map fst R' = map fst (hx_round s)" using g by (simp add: R'_def map_update list_update_same_conv True)
  obtain X Y where XY: "hx_round s = X @ (g, Running) # Y" "length X = i" using True g by (metis id_take_nth_drop length_take min.absorb4)
  have R': "R' = X @ (g, ?st) # Y" using XY by (simp add: R'_def list_update_append)
  obtain A B where AB: "hx_round s = A @ B" "\<forall>x \<in> set A. snd x \<noteq> Waiting" "\<forall>x \<in> set B. snd x = Waiting" "started (hx_log s) = map snd (F @ map fst A)"
    using I unfolding round_started_def by blast
  have iA: "i < length A"
  proof (rule ccontr)
    assume n: "\<not> i < length A"
    hence "(g, Running) = B ! (i - length A)" "i - length A < length B" using True g AB(1) by (simp_all add: nth_append)
    thus False using AB(3) by (metis nth_mem snd_conv hook_status.distinct(1))
  qed
  have "round_started F (hooks_step agg (SettleH i outcome) s)" unfolding round_started_def step
  proof (rule exI[of _ "A[i := (g, ?st)]"], rule exI[of _ B], intro conjI)
    show "hx_round (s\<lparr>hx_round := R', hx_log := hx_log s @ [Ended (snd g) outcome]\<rparr>) = A[i := (g, ?st)] @ B"
      using iA AB(1) by (simp add: R'_def list_update_append1)
    show "\<forall>x \<in> set (A[i := (g, ?st)]). snd x \<noteq> Waiting"
      using AB(2) by (auto dest!: set_update_subset_insert[THEN subsetD] split: option.splits)
    have "A ! i = (g, Running)" using g iA AB(1) by (simp add: nth_append)
    hence "map fst (A[i := (g, ?st)]) = map fst A" by (simp add: map_update list_update_same_conv iA)
    thus "started (hx_log (s\<lparr>hx_round := R', hx_log := hx_log s @ [Ended (snd g) outcome]\<rparr>)) = map snd (F @ map fst (A[i := (g, ?st)]))"
      using AB(4) by simp
  qed (use AB(3) in simp)
  moreover have "one_round F (hooks_step agg (SettleH i outcome) s)" unfolding step by (rule one_round_same[of _ s]) (use I in \<open>simp_all add: R' XY(1)\<close>)
  moreover have out: "outcomes R' = outcomes (hx_round s) \<union> {(snd g, outcome)}" unfolding R' XY(1) by (cases outcome) auto
  moreover have "snd g \<notin> fst ` set (endings (hx_log s))"
  proof -
    have "distinct (map snd order)" "order = F @ map fst (hx_round s) @ sort_key fst (hx_locals s @ hx_hooks s)" using I by blast+
    hence "distinct (map snd F @ map snd (map fst (X @ (g, Running) # Y)) @ map snd (sort_key fst (hx_locals s @ hx_hooks s)))"
      unfolding XY(1) by (simp only: map_append)
    hence d: "distinct (map snd F @ map snd (map fst (X @ (g, Running) # Y)))" by (simp only: append_assoc[symmetric] distinct_append)
    have "outcomes (hx_round s) = outcomes X \<union> outcomes Y" unfolding XY(1) by simp
    moreover have "set (endings (hx_log s)) = (\<lambda>h. (snd h, None)) ` set F \<union> outcomes (hx_round s)" using I by blast
    ultimately have "fst ` set (endings (hx_log s)) \<subseteq> snd ` set F \<union> snd ` fst ` set X \<union> snd ` fst ` set Y"
      using outcomes_ids[of X] outcomes_ids[of Y] by (auto simp: image_Un image_image)
    thus ?thesis using d by (auto simp: image_image)
  qed
  ultimately show ?thesis using I ph in_turn_ended[of order "hx_log s" "snd g" outcome] unfolding hooks_inv_def
    by (elim conjE) (simp add: step phase_ok_def ids insert_commute Un_insert_right del: map_map hooks_step.simps)
qed

lemma all_succeeded:
  "\<forall>x \<in> set r. is_settled (snd x) \<Longrightarrow> round_failures r = [] \<Longrightarrow> outcomes r = (\<lambda>h. (snd h, None)) ` fst ` set r"
proof (induction r)
  case (Cons x r)
  thus ?case by (cases x rule: rejection.cases) (auto simp: round_failures_def List.map_filter_def split: option.splits)
qed simp

lemma all_started:
  assumes "round_started F s" "\<forall>x \<in> set (hx_round s). is_settled (snd x)"
  shows "started (hx_log s) = map snd (F @ map fst (hx_round s))"
proof -
  obtain A B where AB: "hx_round s = A @ B" "\<forall>x \<in> set B. snd x = Waiting" "started (hx_log s) = map snd (F @ map fst A)"
    using assms(1) unfolding round_started_def by blast
  have "B = []" using AB(1,2) assms(2) by (cases B) auto
  thus ?thesis using AB(1,3) by simp
qed

lemma hooks_next_inv:
  assumes inv: "hooks_inv agg order F s"
  shows "\<exists>F'. hooks_inv agg order F' (hooks_step agg NextH s)"
proof -
  note I = inv[unfolded hooks_inv_def]
  have one: "one_round F s" and rs: "round_started F s" and
    ord: "order = F @ map fst (hx_round s) @ sort_key fst (hx_locals s @ hx_hooks s)" and
    ends: "set (endings (hx_log s)) = (\<lambda>h. (snd h, None)) ` set F \<union> outcomes (hx_round s)" and
    rest: "sorted (map fst (hx_locals s))" "sorted (map fst (hx_hooks s))" "distinct (map snd order)"
      "distinct (map fst (endings (hx_log s)))" "in_turn order (hx_log s)" using I by blast+
  consider "\<not> (hx_phase s = AtWork \<and> (\<forall>x \<in> set (hx_round s). is_settled (snd x)))"
    | "hx_phase s = AtWork" "\<forall>x \<in> set (hx_round s). is_settled (snd x)" "round_failures (hx_round s) \<noteq> []"
    | "hx_phase s = AtWork" "\<forall>x \<in> set (hx_round s). is_settled (snd x)" "round_failures (hx_round s) = []" by blast
  thus ?thesis
  proof cases
    case 1
    hence "hooks_step agg NextH s = s" unfolding hooks_step.simps by (rule if_not_P)
    thus ?thesis using inv by auto
  next
    case 2
    hence "hooks_step agg NextH s = s\<lparr>hx_phase := Thrown (failure_of agg (round_failures (hx_round s)))\<rparr>" by simp
    moreover have "round_started F (s\<lparr>hx_phase := p\<rparr>) = round_started F s" "one_round F (s\<lparr>hx_phase := p\<rparr>) = one_round F s" for p
      by (simp_all add: round_started_def one_round_def)
    ultimately have "hooks_inv agg order F (hooks_step agg NextH s)"
      using I 2 unfolding hooks_inv_def phase_ok_def by (elim conjE) (simp del: map_map hooks_step.simps)
    thus ?thesis ..
  next
    case 3
    have step: "hooks_step agg NextH s = begin_round s" using 3 by simp
    have rnd: "outcomes (hx_round s) = (\<lambda>h. (snd h, None)) ` fst ` set (hx_round s)" using all_succeeded[OF 3(2,3)] .
    have "hooks_inv agg order (F @ map fst (hx_round s)) (begin_round s)"
    proof (rule begin_round_inv)
      show "order = (F @ map fst (hx_round s)) @ sort_key fst (hx_locals s @ hx_hooks s)" using ord by simp
      show "started (hx_log s) = map snd (F @ map fst (hx_round s))" by (rule all_started[OF rs 3(2)])
      show "set (endings (hx_log s)) = (\<lambda>h. (snd h, None)) ` set (F @ map fst (hx_round s))" using ends rnd by (simp add: image_Un)
      show "\<forall>h \<in> set (F @ map fst (hx_round s)). \<forall>x \<in> set (hx_locals s @ hx_hooks s). fst h < fst x"
        using one unfolding one_round_def set_append ball_Un set_map ball_simps by blast
    qed (fact rest 3(1))+
    thus ?thesis unfolding step ..
  qed
qed

lemma hooks_step_inv: "hooks_inv agg order F s \<Longrightarrow> \<exists>F'. hooks_inv agg order F' (hooks_step agg e s)"
  by (cases e) (use hooks_start_inv hooks_settle_inv hooks_next_inv in blast)+

lemma hooks_run_inv:
  fixes localfns hooks :: "(int \<times> 'h) list" and agg :: "'e list \<Rightarrow> 'e"
  assumes "sorted (map fst localfns)" "sorted (map fst hooks)" "distinct (map snd (localfns @ hooks))"
  shows "\<exists>F. hooks_inv agg (sort_key fst (localfns @ hooks)) F (hooks_run agg localfns hooks es)"
proof -
  have "distinct (map snd (sort_key fst (localfns @ hooks)))" using assms(3) by (simp only: distinct_map distinct_sort set_sort)
  hence "hooks_inv agg (sort_key fst (localfns @ hooks)) [] (run_hooks_start localfns hooks)"
    unfolding run_hooks_start_def by (intro begin_round_inv) (simp_all add: assms in_turn_def)
  hence "\<exists>F. hooks_inv agg (sort_key fst (localfns @ hooks)) F (fold (hooks_step agg) es s)"
    if "s = run_hooks_start localfns hooks" for s :: "('h, 'e) hooks_state"
  proof -
    have "\<exists>F. hooks_inv agg order F s \<Longrightarrow> \<exists>F. hooks_inv agg order F (fold (hooks_step agg) es s)" for order and s :: "('h, 'e) hooks_state"
      by (induction es arbitrary: s) (use hooks_step_inv in \<open>fastforce simp del: hooks_step.simps\<close>)+
    thus ?thesis using that \<open>hooks_inv agg _ [] _\<close> by blast
  qed
  thus ?thesis unfolding hooks_run_def by blast
qed

subsection \<open>How the call ends\<close>

lemma round_reported:
  assumes inv: "hooks_inv agg order F s" and all: "\<forall>x \<in> set (hx_round s). is_settled (snd x)" and x0: "x0 \<in> set (hx_round s)"
  defines "outs \<equiv> map (\<lambda>x. (fst x, rejection x)) (hx_round s)"
  shows "map fst outs = filter (\<lambda>h. fst h = fst (fst x0)) order" "\<forall>(h, r) \<in> set outs. Ended (snd h) r \<in> set (hx_log s)"
    "List.map_filter snd outs = round_failures (hx_round s)" "started (hx_log s) = map snd (filter (\<lambda>h. fst h \<le> fst (fst x0)) order)"
proof -
  let ?p = "fst (fst x0)"
  have one: "one_round F s" and rs: "round_started F s" and
    ord: "order = F @ map fst (hx_round s) @ sort_key fst (hx_locals s @ hx_hooks s)" and
    ends: "set (endings (hx_log s)) = (\<lambda>h. (snd h, None)) ` set F \<union> outcomes (hx_round s)" using inv unfolding hooks_inv_def by blast+
  have B: "(\<forall>h \<in> set F. fst h < ?p) \<and> (\<forall>y \<in> set (hx_round s). fst (fst y) = ?p) \<and> (\<forall>h \<in> set (hx_locals s @ hx_hooks s). ?p < fst h)"
    using one[unfolded one_round_def, THEN conjunct2, THEN bspec, OF x0] .
  have F: "fst h < ?p" if "h \<in> set F" for h using B that by blast
  have R: "fst h = ?p" if "h \<in> set (map fst (hx_round s))" for h using B that by auto
  have T: "?p < fst h" if "h \<in> set (sort_key fst (hx_locals s @ hx_hooks s))" for h using B that unfolding set_sort by blast
  have f: "filter (\<lambda>h. fst h = ?p) F = []" "filter (\<lambda>h. fst h \<le> ?p) F = F" unfolding filter_empty_conv filter_id_conv by (auto dest: F)
  have r: "filter (\<lambda>h. fst h = ?p) (map fst (hx_round s)) = map fst (hx_round s)"
    "filter (\<lambda>h. fst h \<le> ?p) (map fst (hx_round s)) = map fst (hx_round s)" unfolding filter_id_conv using R by simp_all
  have t: "filter (\<lambda>h. fst h = ?p) (sort_key fst (hx_locals s @ hx_hooks s)) = []"
    "filter (\<lambda>h. fst h \<le> ?p) (sort_key fst (hx_locals s @ hx_hooks s)) = []" unfolding filter_empty_conv by (auto simp del: set_sort dest: T)
  thus "map fst outs = filter (\<lambda>h. fst h = ?p) order" "started (hx_log s) = map snd (filter (\<lambda>h. fst h \<le> ?p) order)"
    unfolding ord all_started[OF rs all] filter_append f r t by (simp_all add: outs_def)
  show "List.map_filter snd outs = round_failures (hx_round s)"
    by (simp add: outs_def round_failures_def List.map_filter_def filter_map comp_def)
  have "outcome_of x = Some (snd (fst x), rejection x)" if "x \<in> set (hx_round s)" for x
    using all that by (cases x rule: outcome_of.cases) auto
  hence "(snd (fst x), rejection x) \<in> set (endings (hx_log s))" if "x \<in> set (hx_round s)" for x
    using that unfolding ends outcomes_def by blast
  thus "\<forall>(h, r) \<in> set outs. Ended (snd h) r \<in> set (hx_log s)" by (auto simp: outs_def endings_in)
qed

lemma not_stuck:
  assumes "hooks_inv agg order F s" "hx_phase s = AtWork"
  shows "\<exists>e. hooks_step agg e s \<noteq> s"
proof -
  obtain A B where AB: "hx_round s = A @ B" "\<forall>x \<in> set A. snd x \<noteq> Waiting" "\<forall>x \<in> set B. snd x = Waiting"
    using assms(1) unfolding hooks_inv_def round_started_def by blast
  consider x where "x \<in> set (hx_round s)" "snd x = Waiting" | i where "i < length (hx_round s)" "snd (hx_round s ! i) = Running"
    | "\<forall>x \<in> set (hx_round s). is_settled (snd x)"
    by (metis in_set_conv_nth is_settled.elims(3))
  thus ?thesis
  proof cases
    case 1
    have "x \<in> set r \<Longrightarrow> snd x = Waiting \<Longrightarrow> start_first r \<noteq> None" for r x by (induction r rule: start_first.induct) auto
    then obtain h r where "start_first (hx_round s) = Some (h, r)" using 1 by fastforce
    hence "hx_log (hooks_step agg StartH s) \<noteq> hx_log s" by simp
    thus ?thesis by metis
  next
    case 2
    hence "hx_log (hooks_step agg (SettleH i None) s) \<noteq> hx_log s" by simp
    thus ?thesis by metis
  next
    case 3
    have "begin_round s \<noteq> s"
    proof (cases "loop_prio (hx_locals s) (hx_hooks s)")
      case None
      hence "hx_phase (begin_round s) \<noteq> hx_phase s" using assms(2) by (simp add: begin_round_def)
      thus ?thesis by metis
    next
      case (Some p)
      have "\<exists>h \<in> set (hx_locals s @ hx_hooks s). fst h = p"
        using Some by (auto elim!: loop_prio.elims split: if_splits)
      moreover have "\<forall>h \<in> set (hx_locals (begin_round s) @ hx_hooks (begin_round s)). p < fst h"
        using order_of_round(2)[OF _ _ Some] assms(1) Some unfolding hooks_inv_def begin_round_def by simp
      ultimately show ?thesis by (metis less_irrefl)
    qed
    moreover have "s\<lparr>hx_phase := Thrown e\<rparr> \<noteq> s" for e
    proof
      assume "s\<lparr>hx_phase := Thrown e\<rparr> = s"
      hence "hx_phase s = Thrown e" by (metis hooks_state.select_convs(4) hooks_state.surjective hooks_state.update_convs(4))
      thus False using assms(2) by simp
    qed
    ultimately have "hooks_step agg NextH s \<noteq> s" using 3 assms(2) by simp
    thus ?thesis ..
  qed
qed

text \<open>C26. The hooks of an action, the class's own and the registered ones, each list in the order of its priorities (which
  \<^theory_text>\<open>addActionHook_sorted\<close> shows of the registered ones) and each hook with an identity of its own, start in the order of the priorities, an own hook before a registered one of the same priority, and
  a hook starts only once every hook of a lower priority has ended without a failure, however the hooks of one priority
  overlap and in whatever order they settle.  No hook ends twice, and the call is never stuck.  When it returns, every hook
  has run and none has failed.  When it throws, some hooks of one priority failed, all hooks of that priority ran to their end,
  no hook of a higher one was started, and what is thrown is the failure itself, or, for several, the aggregate of them in
  the order of the hooks.
\<close>

theorem hooks_run_by_priority:
  fixes localfns hooks :: "(int \<times> 'h) list" and agg :: "'e list \<Rightarrow> 'e" and es :: "'e hook_event list"
  assumes "sorted (map fst localfns)" "sorted (map fst hooks)" "distinct (map snd (localfns @ hooks))"
  defines "order \<equiv> sort_key fst (localfns @ hooks)" and "s \<equiv> hooks_run agg localfns hooks es"
  shows "(\<exists>n. started (hx_log s) = map snd (take n order)) \<and>
    (\<forall>pre post h x. hx_log s = pre @ Started (snd h) # post \<longrightarrow> h \<in> set order \<longrightarrow> x \<in> set order \<longrightarrow> fst x < fst h \<longrightarrow>
      Ended (snd x) None \<in> set pre) \<and>
    distinct (map fst (endings (hx_log s))) \<and>
    (hx_phase s = AtWork \<longrightarrow> (\<exists>e. hooks_step agg e s \<noteq> s)) \<and>
    (hx_phase s = AllRun \<longrightarrow> started (hx_log s) = map snd order \<and> (\<forall>h \<in> set order. Ended (snd h) None \<in> set (hx_log s))) \<and>
    (\<forall>err. hx_phase s = Thrown err \<longrightarrow> (\<exists>p outs. map fst outs = filter (\<lambda>h. fst h = p) order \<and>
      (\<forall>(h, r) \<in> set outs. Ended (snd h) r \<in> set (hx_log s)) \<and> List.map_filter snd outs \<noteq> [] \<and>
      err = failure_of agg (List.map_filter snd outs) \<and> started (hx_log s) = map snd (filter (\<lambda>h. fst h \<le> p) order)))"
proof -
  obtain F where inv: "hooks_inv agg order F s" using hooks_run_inv[OF assms(1-3), of agg es] unfolding order_def s_def by blast
  have rs: "round_started F s" and ph: "phase_ok agg s" and
    ord: "order = F @ map fst (hx_round s) @ sort_key fst (hx_locals s @ hx_hooks s)" and
    ends: "set (endings (hx_log s)) = (\<lambda>h. (snd h, None)) ` set F \<union> outcomes (hx_round s)" and
    once: "distinct (map fst (endings (hx_log s)))" and turn: "in_turn order (hx_log s)" using inv unfolding hooks_inv_def by blast+
  obtain A B where AB: "hx_round s = A @ B" "started (hx_log s) = map snd (F @ map fst A)" using rs unfolding round_started_def by blast
  have "started (hx_log s) = map snd (take (length (F @ map fst A)) order)" unfolding ord AB by simp
  moreover have "hx_phase s = AllRun \<longrightarrow> started (hx_log s) = map snd order \<and> (\<forall>h \<in> set order. Ended (snd h) None \<in> set (hx_log s))"
  proof
    assume "hx_phase s = AllRun"
    hence e: "hx_round s = []" "hx_locals s = []" "hx_hooks s = []" using ph unfolding phase_ok_def by simp_all
    show "started (hx_log s) = map snd order \<and> (\<forall>h \<in> set order. Ended (snd h) None \<in> set (hx_log s))"
      using all_started[OF rs] ends by (auto simp: ord e endings_in[symmetric])
  qed
  moreover have "\<exists>p outs. map fst outs = filter (\<lambda>h. fst h = p) order \<and> (\<forall>(h, r) \<in> set outs. Ended (snd h) r \<in> set (hx_log s)) \<and>
      List.map_filter snd outs \<noteq> [] \<and> err = failure_of agg (List.map_filter snd outs) \<and>
      started (hx_log s) = map snd (filter (\<lambda>h. fst h \<le> p) order)" if t: "hx_phase s = Thrown err" for err
  proof -
    have f: "\<forall>x \<in> set (hx_round s). is_settled (snd x)" "round_failures (hx_round s) \<noteq> []"
      "err = failure_of agg (round_failures (hx_round s))" using ph t unfolding phase_ok_def by simp_all
    then obtain x0 where x0: "x0 \<in> set (hx_round s)" by (cases "hx_round s") (auto simp: round_failures_def List.map_filter_def)
    note R = round_reported[OF inv f(1) x0]
    show ?thesis using R(1,2,4) f(2,3) unfolding R(3)[symmetric] by blast
  qed
  ultimately show ?thesis using once turn not_stuck[OF inv] unfolding in_turn_def by blast
qed

text \<open>Two hooks of priority 1 overlap and the second one fails: the third hook never starts.\<close>

definition demo_hooks :: "(string, string) hooks_state" where
  "demo_hooks = hooks_run concat [(1, ''own'')] [(1, ''first''), (5, ''later'')]
     [StartH, NextH, StartH, SettleH 1 (Some ''failed''), NextH, SettleH 0 None, NextH, StartH]"

definition demo_hooks_done :: "(string, string) hooks_state" where
  "demo_hooks_done = hooks_run concat [(1, ''own'')] [(1, ''first''), (5, ''later'')]
     [StartH, StartH, SettleH 1 None, StartH, SettleH 0 None, NextH, StartH, SettleH 0 None, NextH]"

theorem hooks_run_by_priority_witness:
  "hx_phase demo_hooks = Thrown ''failed'' \<and> started (hx_log demo_hooks) = [''own'', ''first''] \<and>
    hx_phase demo_hooks_done = AllRun \<and> started (hx_log demo_hooks_done) = [''own'', ''first'', ''later'']"
proof -
  have p: "hx_phase demo_hooks = Thrown ''failed''" "started (hx_log demo_hooks) = [''own'', ''first'']" by code_simp+
  have d: "hx_phase demo_hooks_done = AllRun" by code_simp
  have "hx_phase demo_hooks_done = AllRun \<longrightarrow>
      started (hx_log demo_hooks_done) = map snd (sort_key fst ([(1, ''own'')] @ [(1, ''first''), (5 :: int, ''later'')]))"
    unfolding demo_hooks_done_def by (intro impI) (rule hooks_run_by_priority[THEN conjunct2, THEN conjunct2, THEN conjunct2, THEN conjunct2,
      THEN conjunct1, THEN mp, THEN conjunct1]; simp)
  thus ?thesis using p d by simp
qed

end
