(* ===== verification/Outflow_Roundtrip.thy ===== *)
theory Outflow_Roundtrip
  imports Claim_Fees
begin

text \<open>
  Which states the faucet outflow module holds, and what becomes of them in the database: a state that was made by its
  operations reads back from its own text, unless the limit of markers was lowered below the markers it carries.
\<close>

subsection \<open>The states of the module\<close>

text \<open>The operations of the module make its states from these steps, with clocks and policies that passed their checks.\<close>

inductive held :: "outflow_state \<Rightarrow> bool" where
  held_empty: "nonneg_safe now \<Longrightarrow> policy_ok p \<Longrightarrow> held (createEmptyState now p)"
| held_read: "parsePersistedState limit now p raw = Inr s \<Longrightarrow> policy_ok p \<Longrightarrow> nonneg_safe now \<Longrightarrow> held s"
| held_settle: "held s \<Longrightarrow> nonneg_safe now \<Longrightarrow> held (settle now s)"
| held_clamp: "held s \<Longrightarrow> held (clampUpperLimit p s)"
| held_floor: "held s \<Longrightarrow> held (setBalance amount s)"
| held_rate: "held s \<Longrightarrow> policy_ok p \<Longrightarrow> held (s\<lparr>os_rateAmount := pol_amount p, os_rateDuration := pol_duration p\<rparr>)"
| held_charge: "held s \<Longrightarrow> held (normalizeBalance (debit amount s))"
| held_fee: "held s \<Longrightarrow> marker_ok (txHash, session) \<Longrightarrow> nonneg_safe now \<Longrightarrow> held (fee_charged now p fee txHash session s)"
| held_prune: "held s \<Longrightarrow> held (s\<lparr>os_fees := js_delete txHash (os_fees s)\<rparr>)"

abbreviation well_formed :: "outflow_state \<Rightarrow> bool" where
  "well_formed s \<equiv> state_ok (length (os_fees s)) s"

lemma fees_ok_own: "fees_ok limit fees \<Longrightarrow> fees_ok (length fees) fees"
  by (simp add: fees_ok_def)

lemma state_ok_own: "state_ok limit s \<Longrightarrow> well_formed s"
  using fees_ok_own by (auto simp: state_ok_def)

lemma normal_whole: "normal (s\<lparr>os_num := n, os_den := 1\<rparr>)"
  by (simp add: normal_def balance_def quotient_of_Fract Rat.normalize_def)

lemma held_well_formed: "held s \<Longrightarrow> well_formed s"
proof (induction rule: held.induct)
  case (held_empty now p)
  thus ?case by (simp add: createEmptyState_def state_ok_def policy_ok_def normal_def balance_def quotient_of_Fract Rat.normalize_def)
next
  case (held_read limit now p raw s)
  thus ?case using parse_state_ok state_ok_own by blast
next
  case (held_settle s now)
  thus ?case using settle_balance(3)[where s = s and now = now] by (auto simp: state_ok_def normal_def nonneg_safe_def max_def)
next
  case (held_clamp s p)
  have "normal (clampUpperLimit p s)" using held_clamp.IH normal_whole[where s = s and n = "pol_upperLimit p"]
    by (simp add: clampUpperLimit_def setBalance_def state_ok_def)
  thus ?case using held_clamp.IH by (simp add: state_ok_def)
next
  case (held_floor s amount)
  thus ?case using normal_whole[where s = s and n = amount] by (simp add: setBalance_def state_ok_def)
next
  case (held_rate s p)
  thus ?case by (simp add: state_ok_def policy_ok_def normal_def balance_def)
next
  case (held_charge s amount)
  hence "os_den (debit amount s) > 0" by (simp add: state_ok_def normal_def debit_def)
  from normalizeBalance_simps(3)[OF this] held_charge.IH show ?case by (simp add: state_ok_def debit_def)
next
  case (held_fee s txHash session now p fee)
  have "state_ok (Suc (length (os_fees s))) s" using held_fee.IH by (auto simp: state_ok_def fees_ok_def)
  from fee_charged_ok(1)[OF this _ held_fee.hyps(2,3)] show ?case by (intro state_ok_own[of "Suc (length (os_fees s))"]) simp
next
  case (held_prune s txHash)
  have "set (js_delete txHash (os_fees s)) \<subseteq> set (os_fees s)" by (auto simp: AList.delete_eq)
  thus ?case using held_prune.IH by (auto simp: state_ok_def fees_ok_def normal_def balance_def)
qed

text \<open>The operations on the state in memory are such steps.\<close>

lemma held_operations:
  assumes "held (ow_state w)" "nonneg_safe now" "policy_ok p"
  shows "held (ow_state (settleBalance now w))" "held (ow_state (clampBalance w))" "held (ow_state (installPolicy now p w))"
    "held (ow_state (enforceBalanceBoundaries now w))" "held (ow_state (charge now amount w))"
    "held (ow_state (snd (getOutflowRestriction rnd now w)))" "held (ow_state (snd (getOutflowBalance now w)))"
proof -
  have settle: "held (ow_state (settleBalance now v))" if "held (ow_state v)" for v
    using that assms(2) by (simp add: settleBalance_def set_state_def held_settle)
  have clamp: "held (ow_state (clampBalance v))" if "held (ow_state v)" for v
    using that by (simp add: clampBalance_def set_state_def held_clamp)
  note base = settle[OF assms(1)] clamp[OF settle[OF assms(1)]]
  show "held (ow_state (settleBalance now w))" "held (ow_state (clampBalance w))" using settle clamp assms(1) by blast+
  show "held (ow_state (installPolicy now p w))"
    using held_rate[OF base(1) assms(3)] by (simp add: installPolicy_def Let_def set_state_def)
  show "held (ow_state (enforceBalanceBoundaries now w))"
    using base(2) held_floor[OF base(2)] by (simp add: enforceBalanceBoundaries_def Let_def set_state_def)
  show "held (ow_state (charge now amount w))"
    using held_charge[OF base(2)] by (simp add: charge_def Let_def set_state_def)
  show "held (ow_state (snd (getOutflowRestriction rnd now w)))" "held (ow_state (snd (getOutflowBalance now w)))"
    using assms(1) base clamp[OF assms(1)] by (simp_all add: getOutflowRestriction_def getOutflowBalance_def Let_def)
qed

subsection \<open>Round trip\<close>

lemma parse_fees_over: "limit < length fees \<Longrightarrow>
    parseClaimFeeMarkers limit (JObj (map (\<lambda>(h, s). (h, JStr s)) (sorted_fees fees))) = Inl ''Persisted faucet outflow claim-fee marker bound exceeded''"
  by (simp add: parseClaimFeeMarkers_def sorted_fees_def)

lemma parse_over:
  assumes "well_formed s" "limit < length (os_fees s)"
  shows "parsePersistedState limit now pol (serializeState s) = Inl ''Persisted faucet outflow claim-fee marker bound exceeded''"
  using assms unfolding parsePersistedState_def serializeState_def
  by (simp add: parseVersionThreeState_def parseVersionTwoStateFields_def is_signed_decimal_def state_ok_def normal_def
      dec_int_signed dec_int_digits big_def parse_fees_over)

text \<open>C24. A stored outflow state reads back: every state the module can hold, made from an empty or a stored one by
  settling, clamping, charging, new policies, claim fees and pruning, is parsed from its own text with the same balance, times
  and rate, and with the same markers in the order of their hashes, whatever the clock and the policy are then.  The one exception
  is a limit of markers that was lowered below the markers of the state: then the text is refused with the error of the bound.\<close>

theorem outflow_state_roundtrip:
  assumes "held s"
  shows "parsePersistedState limit now pol (serializeState s) =
      (if length (os_fees s) \<le> limit then Inr (s\<lparr>os_fees := sorted_fees (os_fees s)\<rparr>)
       else Inl ''Persisted faucet outflow claim-fee marker bound exceeded'')
    \<and> (\<forall>h. js_get (sorted_fees (os_fees s)) h = js_get (os_fees s) h)"
proof -
  note w = held_well_formed[OF assms]
  have "state_ok limit s" if "length (os_fees s) \<le> limit" using w that by (simp add: state_ok_def fees_ok_def)
  moreover have "js_map_ok (os_fees s)" using w by (simp add: state_ok_def fees_ok_def)
  ultimately show ?thesis using outflow_parse_serialize[of limit s now pol] parse_over[OF w, of limit now pol] by (simp add: not_le)
qed

definition demo_outflow_policy :: outflow_policy where
  "demo_outflow_policy = \<lparr>pol_amount = 7, pol_duration = 9, pol_lowerLimit = -5, pol_upperLimit = 100\<rparr>"

definition demo_held :: outflow_state where
  "demo_held = fee_charged 7 demo_outflow_policy 2 (''0x'' @ replicate 64 CHR ''a'') ''s1''
     (normalizeBalance (debit 1 (settle 6 (createEmptyState 5 demo_outflow_policy))))"

theorem outflow_state_roundtrip_witness:
  "parsePersistedState 2 50 demo_outflow_policy (serializeState demo_held) = Inr (demo_held\<lparr>os_fees := sorted_fees (os_fees demo_held)\<rparr>) \<and>
   parsePersistedState 0 50 demo_outflow_policy (serializeState demo_held) = Inl ''Persisted faucet outflow claim-fee marker bound exceeded'' \<and>
   balance demo_held = - 13 / 9"
proof -
  have p: "policy_ok demo_outflow_policy" "nonneg_safe 5" "nonneg_safe 6" "nonneg_safe 7" "marker_ok (''0x'' @ replicate 64 CHR ''a'', ''s1'')"
    by code_simp+
  have "held demo_held" unfolding demo_held_def
    by (intro held_fee held_charge held_settle held_empty p)
  note r = outflow_state_roundtrip[OF this]
  have "length (os_fees demo_held) = 1" "os_num demo_held = -13 \<and> os_den demo_held = 9" by code_simp+
  thus ?thesis using r[of 2 50 demo_outflow_policy] r[of 0 50 demo_outflow_policy] by (simp add: balance_def Fract_of_int_quotient)
qed

end
