(* ===== verification/Ip_Restrictions.thy ===== *)
theory Ip_Restrictions
  imports Ip_Address Limit_Modules
begin

text \<open>
  Restrictions by IP address, country and provider: \<^verbatim>\<open>src/src/modules/ipinfo/IPInfoModule.ts\<close>, with the sharing of lookups of
  \<^verbatim>\<open>IPInfoResolver.ts\<close>.  What a lookup finds is an object that several sessions may hold, and a session with an override
  writes to it; so these objects live in a store, and a session holds the place of its object.  The answers of the provider,
  the files, the YAML parser and the matching of regular expressions are parameters.
\<close>

subsection \<open>What is known of an address\<close>

record ip_info =
  ii_status :: string
  ii_countryCode :: "string option"
  ii_regionCode :: "string option"
  ii_city :: "string option"
  ii_isp :: "string option"
  ii_org :: "string option"
  ii_as :: "string option"
  ii_proxy :: "bool option"
  ii_hosting :: "bool option"

definition status_info :: "string \<Rightarrow> ip_info" where
  "status_info status = \<lparr>ii_status = status, ii_countryCode = None, ii_regionCode = None, ii_city = None, ii_isp = None, ii_org = None,
     ii_as = None, ii_proxy = None, ii_hosting = None\<rparr>"

subsection \<open>Configuration\<close>

datatype block_config = BlockFlag bool | BlockClose | BlockKill

record restriction_config =
  rc_reward :: "rat option"
  rc_msgkey :: "string option"
  rc_message :: "string option"
  rc_notify :: "string option"
  rc_blocked :: "block_config option"

datatype restriction_value = FactorV rat | RestrictV restriction_config

record ipinfo_config =
  ic_required :: bool
  ic_restrictions :: "(string, restriction_value) jsmap option"
  ic_patterns :: "(string, restriction_value) jsmap option"
  ic_file :: "(string option \<times> string list \<times> int) option"

text \<open>\<^verbatim>\<open>wrapFactorRestriction\<close>.\<close>

fun wrapFactorRestriction :: "restriction_value \<Rightarrow> restriction_config" where
  "wrapFactorRestriction (FactorV r) = \<lparr>rc_reward = Some r, rc_msgkey = None, rc_message = None, rc_notify = None, rc_blocked = None\<rparr>"
| "wrapFactorRestriction (RestrictV c) = c"

text \<open>A restriction is looked at under a flag of the provider when its value is true in JavaScript: a factor of 0 is not.\<close>

fun is_truthy :: "restriction_value \<Rightarrow> bool" where
  "is_truthy (FactorV r) = (r \<noteq> 0)"
| "is_truthy (RestrictV c) = True"

subsection \<open>The restriction of a session\<close>

datatype block_state = NotBlocked | CloseB | KillB

record message =
  ms_key :: "string option"
  ms_text :: string
  ms_notify :: "string option"

record session_restriction =
  sn_reward :: rat
  sn_messages :: "message list"
  sn_blocked :: block_state
  sn_hosting :: bool
  sn_proxy :: bool

definition no_restriction :: session_restriction where
  "no_restriction = \<lparr>sn_reward = 100, sn_messages = [], sn_blocked = NotBlocked, sn_hosting = False, sn_proxy = False\<rparr>"

definition apply_block :: "block_config option \<Rightarrow> block_state \<Rightarrow> block_state" where
  "apply_block b s = (case b of
      None \<Rightarrow> s
    | Some (BlockFlag False) \<Rightarrow> s
    | Some (BlockFlag True) \<Rightarrow> if s = NotBlocked then CloseB else s
    | Some BlockClose \<Rightarrow> if s = NotBlocked then CloseB else s
    | Some BlockKill \<Rightarrow> KillB)"

text \<open>A text that is missing or empty is false; a key is told once (\<^verbatim>\<open>__proto__\<close> cannot be a key of the dictionary).\<close>

definition given :: "string option \<Rightarrow> bool" where
  "given t \<longleftrightarrow> (case t of None \<Rightarrow> False | Some s \<Rightarrow> s \<noteq> [])"

definition applyRestriction :: "restriction_value \<Rightarrow> session_restriction \<times> string list \<Rightarrow> session_restriction \<times> string list" where
  "applyRestriction v rd = (case rd of (r, dict) \<Rightarrow> let
     c = wrapFactorRestriction v;
     r = (case rc_reward c of Some q \<Rightarrow> if q < sn_reward r then r\<lparr>sn_reward := q\<rparr> else r | None \<Rightarrow> r);
     r = r\<lparr>sn_blocked := apply_block (rc_blocked c) (sn_blocked r)\<rparr>
   in if given (rc_message c) \<and> (\<not> given (rc_msgkey c) \<or> the (rc_msgkey c) \<notin> set dict)
      then (r\<lparr>sn_messages := sn_messages r @ [\<lparr>ms_key = rc_msgkey c, ms_text = the (rc_message c), ms_notify = rc_notify c\<rparr>]\<rparr>,
            if given (rc_msgkey c) \<and> the (rc_msgkey c) \<noteq> ''__proto__'' then the (rc_msgkey c) # dict else dict)
      else (r, dict))"

definition flag_restriction :: "bool option \<Rightarrow> string \<Rightarrow> (string, restriction_value) jsmap \<Rightarrow> restriction_value option" where
  "flag_restriction flag name m = (if flag = Some True then (case js_get m name of Some v \<Rightarrow> if is_truthy v then Some v else None | None \<Rightarrow> None) else None)"

definition country_restriction :: "ip_info \<Rightarrow> (string, restriction_value) jsmap \<Rightarrow> restriction_value option" where
  "country_restriction i m = (if given (ii_countryCode i) then js_get m (the (ii_countryCode i)) else None)"

text \<open>The text that patterns are matched with.\<close>

definition js_text :: "string option \<Rightarrow> string" where
  "js_text t = (case t of Some s \<Rightarrow> s | None \<Rightarrow> ''undefined'')"

definition getIPInfoString :: "string \<Rightarrow> string \<Rightarrow> string option \<Rightarrow> ip_info option \<Rightarrow> string" where
  "getIPInfoString targetAddr remoteIp ident info = join_with [CHR 0x0A]
     ([''ETH: '' @ targetAddr, ''IP: '' @ remoteIp, ''Ident: '' @ (case ident of Some s \<Rightarrow> s | None \<Rightarrow> '''')] @
      (case info of None \<Rightarrow> [] | Some i \<Rightarrow>
        [''Country: '' @ js_text (ii_countryCode i), ''Region: '' @ js_text (ii_regionCode i), ''City: '' @ js_text (ii_city i),
         ''ISP: '' @ js_text (ii_isp i), ''Org: '' @ js_text (ii_org i), ''AS: '' @ js_text (ii_as i),
         ''Proxy: '' @ (if ii_proxy i = Some True then ''true'' else ''false''),
         ''Hosting: '' @ (if ii_hosting i = Some True then ''true'' else ''false'')]))"

subsection \<open>Patterns from the configuration and files\<close>

text \<open>What the process can read: a path made absolute, the text of a file by lines (\<^verbatim>\<open>None\<close> when there is none), and the entries
  of a YAML file (\<^verbatim>\<open>Inr []\<close> without a list of restrictions, \<^verbatim>\<open>Inl\<close> when it does not parse).\<close>

record ip_files =
  if_resolve :: "string \<Rightarrow> string"
  if_lines :: "string \<Rightarrow> string list option"
  if_yaml :: "string \<Rightarrow> (string + (string \<times> restriction_value) list) option"

text \<open>\<^verbatim>\<open>^([0-9]{1,2}): (.*)$\<close>.\<close>

definition restriction_line :: "string \<Rightarrow> (string \<times> restriction_value) option" where
  "restriction_line line = (let digits = takeWhile is_digit line; rest = dropWhile is_digit line in
     if digits = [] \<or> length digits > 2 \<or> take 2 rest \<noteq> '': '' \<or> CHR 0x0D \<in> set rest \<or> CHR 0x0A \<in> set rest then None
     else Some (drop 2 rest, FactorV (of_int (foldl (\<lambda>n c. 10 * n + (int (of_char c) - 48)) 0 digits))))"

fun yaml_patterns :: "ip_files \<Rightarrow> string list \<Rightarrow> string option \<times> (string \<times> restriction_value) list" where
  "yaml_patterns files [] = (None, [])"
| "yaml_patterns files (f # fs) = (case if_yaml files (if_resolve files f) of
      None \<Rightarrow> yaml_patterns files fs
    | Some (Inl e) \<Rightarrow> (Some e, [])
    | Some (Inr es) \<Rightarrow> (case yaml_patterns files fs of (e, rest) \<Rightarrow> (e, es @ rest)))"

text \<open>The list is read anew when it is older than its refresh time; the time is set first, so a read that throws leaves what has been
  read until then.  The file is looked for under its resolved path and read under the configured one.\<close>

type_synonym pattern_cache = "int option \<times> (string \<times> restriction_value) list"

definition file_patterns :: "ip_files \<Rightarrow> string option \<Rightarrow> string + (string \<times> restriction_value) list" where
  "file_patterns files f = (if \<not> given f \<or> if_lines files (if_resolve files (the f)) = None then Inr []
     else case if_lines files (the f) of
       None \<Rightarrow> Inl ''ENOENT''
     | Some lines \<Rightarrow> Inr (List.map_filter restriction_line lines))"

definition refreshIpInfoMatchRestrictions :: "ip_files \<Rightarrow> ipinfo_config \<Rightarrow> int \<Rightarrow> pattern_cache \<Rightarrow> string option \<times> pattern_cache" where
  "refreshIpInfoMatchRestrictions files cfg now cache = (let refresh = (case ic_file cfg of Some (_, _, r) \<Rightarrow> r | None \<Rightarrow> 30) in
     if (case fst cache of Some t \<Rightarrow> t > now - refresh | None \<Rightarrow> False) then (None, cache)
     else case ic_patterns cfg of
       None \<Rightarrow> (Some ''TypeError'', (Some now, []))
     | Some ps \<Rightarrow> (case ic_file cfg of
         None \<Rightarrow> (None, (Some now, ps))
       | Some (f, yaml, _) \<Rightarrow> (case file_patterns files f of
           Inl e \<Rightarrow> (Some e, (Some now, ps))
         | Inr fs \<Rightarrow> (case yaml_patterns files yaml of (e, ys) \<Rightarrow> (e, (Some now, ps @ fs @ ys))))))"

subsection \<open>\<^verbatim>\<open>getSessionRestriction\<close>\<close>

text \<open>\<open>matches\<close> is whether a pattern matches a text, \<^verbatim>\<open>None\<close> for what is not a regular expression.\<close>

fun apply_patterns :: "(string \<Rightarrow> string \<Rightarrow> bool option) \<Rightarrow> string \<Rightarrow> (string \<times> restriction_value) list \<Rightarrow> session_restriction \<times> string list \<Rightarrow>
    string + session_restriction \<times> string list" where
  "apply_patterns matches infoStr [] rd = Inr rd"
| "apply_patterns matches infoStr ((p, v) # ps) rd = (case matches p infoStr of
      None \<Rightarrow> Inl ''SyntaxError''
    | Some True \<Rightarrow> apply_patterns matches infoStr ps (applyRestriction v rd)
    | Some False \<Rightarrow> apply_patterns matches infoStr ps rd)"

definition apply_flag :: "restriction_value option \<Rightarrow> (session_restriction \<Rightarrow> session_restriction) \<Rightarrow> session_restriction \<times> string list \<Rightarrow>
    session_restriction \<times> string list" where
  "apply_flag v mark rd = (case v of None \<Rightarrow> rd | Some v \<Rightarrow> (case applyRestriction v rd of (r, dict) \<Rightarrow> (mark r, dict)))"

definition provider_restriction :: "ipinfo_config \<Rightarrow> ip_info option \<Rightarrow> session_restriction \<times> string list" where
  "provider_restriction cfg info = (case (info, ic_restrictions cfg) of
      (Some i, Some m) \<Rightarrow> apply_flag (country_restriction i m) id
        (apply_flag (flag_restriction (ii_proxy i) ''proxy'' m) (sn_proxy_update (\<lambda>_. True))
        (apply_flag (flag_restriction (ii_hosting i) ''hosting'' m) (sn_hosting_update (\<lambda>_. True)) (no_restriction, [])))
    | _ \<Rightarrow> (no_restriction, []))"

definition getSessionRestriction :: "ip_files \<Rightarrow> (string \<Rightarrow> string \<Rightarrow> bool option) \<Rightarrow> ipinfo_config \<Rightarrow> int \<Rightarrow> string \<Rightarrow> string \<Rightarrow> string option \<Rightarrow>
    ip_info option \<Rightarrow> pattern_cache \<Rightarrow> (string + session_restriction) \<times> pattern_cache" where
  "getSessionRestriction files matches cfg now targetAddr remoteIp ident info cache =
     (if ic_patterns cfg = None \<and> ic_file cfg = None then (Inr (fst (provider_restriction cfg info)), cache)
      else case refreshIpInfoMatchRestrictions files cfg now cache of
        (Some e, cache) \<Rightarrow> (Inl e, cache)
      | (None, cache) \<Rightarrow>
          (try_bind (apply_patterns matches (getIPInfoString targetAddr remoteIp ident info) (snd cache) (provider_restriction cfg info)) (\<lambda>(r, dict). Inr r), cache))"

subsection \<open>Sessions and lookups\<close>

record ip_session =
  is_target :: string
  is_ip :: string
  is_ident :: "string option"
  is_skipped :: bool
  is_overrideHosting :: "bool option"
  is_overrideProxy :: "bool option"
  is_data :: "nat option"
  is_restriction :: "(int \<times> session_restriction) option"

datatype ip_outcome =
    PassedI string
  | RefusedI string string
  | RestrictedI string session_restriction
  | FactorI string rat
  | FailedI string
  | CompletedI string
  | ThrownI string string

text \<open>A lookup in flight: its address, whether it can be joined, and the sessions that wait for it.\<close>

record ip_lookup =
  il_ip :: string
  il_current :: bool
  il_waiting :: "string list"

record ip_world =
  iw_store :: "ip_info list"
  iw_sessions :: "(string, ip_session) jsmap"
  iw_lookups :: "ip_lookup list"
  iw_cache :: pattern_cache
  iw_log :: "ip_outcome list"

definition noted :: "ip_outcome \<Rightarrow> ip_world \<Rightarrow> ip_world" where
  "noted out w = w\<lparr>iw_log := iw_log w @ [out]\<rparr>"

definition allocate :: "ip_info \<Rightarrow> ip_world \<Rightarrow> nat \<times> ip_world" where
  "allocate info w = (length (iw_store w), w\<lparr>iw_store := iw_store w @ [info]\<rparr>)"

definition override :: "ip_session \<Rightarrow> ip_info \<Rightarrow> ip_info" where
  "override s i = i\<lparr>ii_hosting := (case is_overrideHosting s of Some b \<Rightarrow> Some b | None \<Rightarrow> ii_hosting i),
     ii_proxy := (case is_overrideProxy s of Some b \<Rightarrow> Some b | None \<Rightarrow> ii_proxy i)\<rparr>"

text \<open>\<^verbatim>\<open>processSessionStart\<close> after its lookup, which found the object at a place of the store or was invalidated.\<close>

definition restrict_session :: "ip_files \<Rightarrow> (string \<Rightarrow> string \<Rightarrow> bool option) \<Rightarrow> ipinfo_config \<Rightarrow> int \<Rightarrow> string \<Rightarrow> ip_session \<Rightarrow> nat \<Rightarrow> ip_world \<Rightarrow> ip_world" where
  "restrict_session files matches cfg now sid s ref w = (let
      w = w\<lparr>iw_store := (iw_store w)[ref := override s (iw_store w ! ref)]\<rparr>;
      s = s\<lparr>is_data := Some ref\<rparr>;
      (r, cache) = getSessionRestriction files matches cfg now (is_target s) (is_ip s) (is_ident s) (Some (iw_store w ! ref)) (iw_cache w);
      w = w\<lparr>iw_cache := cache, iw_sessions := js_set sid s (iw_sessions w)\<rparr>
    in case r of
        Inl e \<Rightarrow> noted (ThrownI sid e) w
      | Inr r \<Rightarrow> if sn_blocked r \<noteq> NotBlocked then noted (RefusedI sid ''IPINFO_RESTRICTION'') (noted (RestrictedI sid r) w)
          else noted (PassedI sid) (noted (RestrictedI sid r) (w\<lparr>iw_sessions := js_set sid (s\<lparr>is_restriction := Some (now, r)\<rparr>) (iw_sessions w)\<rparr>)))"

definition session_checked :: "ip_files \<Rightarrow> (string \<Rightarrow> string \<Rightarrow> bool option) \<Rightarrow> ipinfo_config \<Rightarrow> int \<Rightarrow> nat option \<Rightarrow> string \<Rightarrow> ip_world \<Rightarrow> ip_world" where
  "session_checked files matches cfg now found sid w = (case js_get (iw_sessions w) sid of
      None \<Rightarrow> w
    | Some s \<Rightarrow> (case found of
        Some ref \<Rightarrow> if ii_status (iw_store w ! ref) \<noteq> ''success'' \<and> ic_required cfg then noted (RefusedI sid ''INVALID_IPINFO'') w
          else restrict_session files matches cfg now sid s ref w
      | None \<Rightarrow> if ic_required cfg then noted (RefusedI sid ''INVALID_IPINFO'') w
          else (case allocate (status_info ''error: IP info lookup unavailable'') w of
            (ref, w) \<Rightarrow> restrict_session files matches cfg now sid s ref w)))"

definition MAX_CONCURRENT_IP_INFO_LOOKUPS :: nat where
  "MAX_CONCURRENT_IP_INFO_LOOKUPS = 64"

text \<open>\<^verbatim>\<open>processSessionStart\<close> up to its lookup and \<^verbatim>\<open>getIpInfo\<close>: a lookup of the same address is shared.\<close>

fun join_lookup :: "string \<Rightarrow> string \<Rightarrow> ip_lookup list \<Rightarrow> ip_lookup list option" where
  "join_lookup ip sid [] = None"
| "join_lookup ip sid (l # ls) = (if il_current l \<and> il_ip l = ip then Some (l\<lparr>il_waiting := il_waiting l @ [sid]\<rparr> # ls)
     else map_option ((#) l) (join_lookup ip sid ls))"

definition ipinfo_processSessionStart :: "ip_files \<Rightarrow> (string \<Rightarrow> string \<Rightarrow> bool option) \<Rightarrow> ipinfo_config \<Rightarrow> bool \<Rightarrow> int \<Rightarrow> string \<Rightarrow> ip_world \<Rightarrow> ip_world" where
  "ipinfo_processSessionStart files matches cfg accepting now sid w = (case js_get (iw_sessions w) sid of
      None \<Rightarrow> w
    | Some s \<Rightarrow> if is_skipped s then noted (PassedI sid) w
        else let at_once = (\<lambda>status. case allocate (status_info status) w of (ref, w) \<Rightarrow> session_checked files matches cfg now (Some ref) sid w) in
        (case normalizeIpAddress (is_ip s) of
          None \<Rightarrow> at_once ''error: invalid IP address''
        | Some ip \<Rightarrow> (case join_lookup ip sid (iw_lookups w) of
            Some ls \<Rightarrow> w\<lparr>iw_lookups := ls\<rparr>
          | None \<Rightarrow> if length (filter il_current (iw_lookups w)) \<ge> MAX_CONCURRENT_IP_INFO_LOOKUPS then at_once ''error: IP info lookup capacity reached''
              else if \<not> accepting then session_checked files matches cfg now None sid w
              else w\<lparr>iw_lookups := iw_lookups w @ [\<lparr>il_ip = ip, il_current = True, il_waiting = [sid]\<rparr>]\<rparr>)))"

text \<open>A lookup settles: one object for all that wait for it.\<close>

definition lookup_answered :: "ip_files \<Rightarrow> (string \<Rightarrow> string \<Rightarrow> bool option) \<Rightarrow> ipinfo_config \<Rightarrow> nat \<Rightarrow> ip_info \<Rightarrow> int \<Rightarrow> ip_world \<Rightarrow> ip_world" where
  "lookup_answered files matches cfg i info now w = (if i \<ge> length (iw_lookups w) then w
     else let l = iw_lookups w ! i; w = w\<lparr>iw_lookups := take i (iw_lookups w) @ drop (Suc i) (iw_lookups w)\<rparr> in
       if il_current l then (case allocate info w of (ref, w) \<Rightarrow> fold (session_checked files matches cfg now (Some ref)) (il_waiting l) w)
       else fold (session_checked files matches cfg now None) (il_waiting l) w)"

definition invalidate_lookups :: "ip_world \<Rightarrow> ip_world" where
  "invalidate_lookups w = w\<lparr>iw_lookups := map (\<lambda>l. l\<lparr>il_current := False\<rparr>) (iw_lookups w)\<rparr>"

text \<open>\<^verbatim>\<open>processSessionRewardFactor\<close>: the restriction is computed again when it is older than half a minute, and ends the session when
  it blocks it now.\<close>

definition add_factor :: "string \<Rightarrow> session_restriction \<Rightarrow> ip_world \<Rightarrow> ip_world" where
  "add_factor sid r w = (if sn_reward r \<noteq> 100 then noted (FactorI sid (sn_reward r / 100)) w else w)"

definition renew_restriction :: "ip_files \<Rightarrow> (string \<Rightarrow> string \<Rightarrow> bool option) \<Rightarrow> ipinfo_config \<Rightarrow> int \<Rightarrow> string \<Rightarrow> ip_session \<Rightarrow> ip_world \<Rightarrow> ip_world" where
  "renew_restriction files matches cfg now sid s w = (let
      (r, cache) = getSessionRestriction files matches cfg now (is_target s) (is_ip s) (is_ident s)
        (case is_data s of Some ref \<Rightarrow> Some (iw_store w ! ref) | None \<Rightarrow> None) (iw_cache w);
      w = w\<lparr>iw_cache := cache\<rparr>
    in case r of
        Inl e \<Rightarrow> noted (ThrownI sid e) w
      | Inr r \<Rightarrow> let w = noted (RestrictedI sid r) (w\<lparr>iw_sessions := js_set sid (s\<lparr>is_restriction := Some (now, r)\<rparr>) (iw_sessions w)\<rparr>) in
          (case sn_blocked r of
            KillB \<Rightarrow> noted (FailedI sid) w
          | CloseB \<Rightarrow> noted (CompletedI sid) w
          | NotBlocked \<Rightarrow> add_factor sid r w))"

definition ipinfo_processRewardFactor :: "ip_files \<Rightarrow> (string \<Rightarrow> string \<Rightarrow> bool option) \<Rightarrow> ipinfo_config \<Rightarrow> int \<Rightarrow> string \<Rightarrow> ip_world \<Rightarrow> ip_world" where
  "ipinfo_processRewardFactor files matches cfg now sid w = (case js_get (iw_sessions w) sid of
      None \<Rightarrow> w
    | Some s \<Rightarrow> if is_skipped s then w
        else (case is_restriction s of
          Some (time, r) \<Rightarrow> if now - time \<le> 30 then add_factor sid r w else renew_restriction files matches cfg now sid s w
        | None \<Rightarrow> renew_restriction files matches cfg now sid s w))"

text \<open>After a restart every session has an object of its own.\<close>

definition restore_session :: "ip_info list \<Rightarrow> string \<times> ip_session \<Rightarrow> ip_world \<Rightarrow> ip_world" where
  "restore_session old e w = (case e of (sid, s) \<Rightarrow> (case is_data s of
      None \<Rightarrow> w\<lparr>iw_sessions := iw_sessions w @ [(sid, s\<lparr>is_restriction := None\<rparr>)]\<rparr>
    | Some ref \<Rightarrow> (case allocate (old ! ref) w of (new, w) \<Rightarrow>
        w\<lparr>iw_sessions := iw_sessions w @ [(sid, s\<lparr>is_restriction := None, is_data := Some new\<rparr>)]\<rparr>)))"

definition restart_ipinfo :: "ip_world \<Rightarrow> ip_world" where
  "restart_ipinfo w = fold (restore_session (iw_store w)) (iw_sessions w)
     (w\<lparr>iw_store := [], iw_sessions := [], iw_lookups := [], iw_cache := (None, [])\<rparr>)"

subsection \<open>Runs\<close>

datatype ip_event =
    OpenI string ip_session
  | ChangeI string "ip_session \<Rightarrow> ip_session"
  | AskI bool int string
  | AnsweredI nat ip_info int
  | InvalidateI
  | RewardI int string
  | RestartI

fun ip_step :: "ip_files \<Rightarrow> (string \<Rightarrow> string \<Rightarrow> bool option) \<Rightarrow> ipinfo_config \<Rightarrow> ip_event \<Rightarrow> ip_world \<Rightarrow> ip_world" where
  "ip_step files matches cfg (OpenI sid s) w = (if js_has (iw_sessions w) sid then w
     else w\<lparr>iw_sessions := js_set sid (s\<lparr>is_data := None, is_restriction := None\<rparr>) (iw_sessions w)\<rparr>)"
| "ip_step files matches cfg (ChangeI sid f) w = (case js_get (iw_sessions w) sid of
      None \<Rightarrow> w
    | Some s \<Rightarrow> w\<lparr>iw_sessions := js_set sid ((f s)\<lparr>is_data := is_data s, is_restriction := is_restriction s\<rparr>) (iw_sessions w)\<rparr>)"
| "ip_step files matches cfg (AskI accepting now sid) w = ipinfo_processSessionStart files matches cfg accepting now sid w"
| "ip_step files matches cfg (AnsweredI i info now) w = lookup_answered files matches cfg i info now w"
| "ip_step files matches cfg InvalidateI w = invalidate_lookups w"
| "ip_step files matches cfg (RewardI now sid) w = ipinfo_processRewardFactor files matches cfg now sid w"
| "ip_step files matches cfg RestartI w = restart_ipinfo w"

definition empty_ipinfo :: ip_world where
  "empty_ipinfo = \<lparr>iw_store = [], iw_sessions = [], iw_lookups = [], iw_cache = (None, []), iw_log = []\<rparr>"

definition ip_run :: "ip_files \<Rightarrow> (string \<Rightarrow> string \<Rightarrow> bool option) \<Rightarrow> ipinfo_config \<Rightarrow> ip_event list \<Rightarrow> ip_world" where
  "ip_run files matches cfg es = fold (ip_step files matches cfg) es empty_ipinfo"

subsection \<open>The restriction is the least of all that apply\<close>

text \<open>What applies to a session, without the order in which it is looked at.\<close>

definition applicable :: "(string \<Rightarrow> string \<Rightarrow> bool option) \<Rightarrow> ipinfo_config \<Rightarrow> string \<Rightarrow> ip_info option \<Rightarrow> (string \<times> restriction_value) list \<Rightarrow>
    restriction_config list" where
  "applicable matches cfg infoStr info patterns = map wrapFactorRestriction
     ((case (info, ic_restrictions cfg) of
         (Some i, Some m) \<Rightarrow> List.map_filter id [flag_restriction (ii_hosting i) ''hosting'' m, flag_restriction (ii_proxy i) ''proxy'' m, country_restriction i m]
       | _ \<Rightarrow> []) @ map snd (filter (\<lambda>p. matches (fst p) infoStr = Some True) patterns))"

definition rewards_of :: "restriction_config list \<Rightarrow> rat set" where
  "rewards_of cs = {q. \<exists>c \<in> set cs. rc_reward c = Some q}"

lemma rewards_simps [simp]: "rewards_of [] = {}" "rewards_of (c # cs) = (case rc_reward c of Some q \<Rightarrow> {q} | None \<Rightarrow> {}) \<union> rewards_of cs"
  "rewards_of (cs @ ds) = rewards_of cs \<union> rewards_of ds"
  by (auto simp: rewards_of_def split: option.splits)

lemma rewards_finite [simp]: "finite (rewards_of cs)"
  by (induction cs) (auto split: option.split)

definition message_told :: "message list \<Rightarrow> restriction_config \<Rightarrow> bool" where
  "message_told ms c \<longleftrightarrow> (\<exists>m \<in> set ms. ms_key m = rc_msgkey c \<and> (given (rc_msgkey c) \<or> ms_text m = the (rc_message c)))"

definition dict_ok :: "session_restriction \<times> string list \<Rightarrow> bool" where
  "dict_ok rd \<longleftrightarrow> (\<forall>k \<in> set (snd rd). \<exists>m \<in> set (sn_messages (fst rd)). ms_key m = Some k)"

definition applied :: "restriction_config list \<Rightarrow> session_restriction \<times> string list \<Rightarrow> session_restriction \<times> string list \<Rightarrow> bool" where
  "applied cs rd rd' \<longleftrightarrow> dict_ok rd \<longrightarrow> dict_ok rd' \<and> set (sn_messages (fst rd)) \<subseteq> set (sn_messages (fst rd')) \<and>
     sn_reward (fst rd') = Min (insert (sn_reward (fst rd)) (rewards_of cs)) \<and>
     sn_blocked (fst rd') = fold apply_block (map rc_blocked cs) (sn_blocked (fst rd)) \<and>
     (\<forall>c \<in> set cs. given (rc_message c) \<longrightarrow> message_told (sn_messages (fst rd')) c)"

lemma message_told_mono: "message_told ms c \<Longrightarrow> set ms \<subseteq> set ms' \<Longrightarrow> message_told ms' c"
  by (auto simp: message_told_def)

lemma applied_none: "applied [] rd rd"
  by (simp add: applied_def)

lemma applied_append:
  assumes "applied cs a b" "applied ds b c"
  shows "applied (cs @ ds) a c"
proof -
  have "Min (insert (Min (insert q A)) B) = Min (insert q (A \<union> B))" if "finite A" "finite B" for q :: rat and A B
    using that by (cases "A = {}"; cases "B = {}") (auto simp: Min_Un min.assoc)
  thus ?thesis using assms unfolding applied_def by (auto intro: message_told_mono)
qed

lemma applied_one: "applied [wrapFactorRestriction v] rd (applyRestriction v rd)"
proof (cases rd)
  case (Pair r dict)
  show ?thesis unfolding Pair
    by (auto simp: applied_def applyRestriction_def Let_def dict_ok_def message_told_def given_def split: option.split)
qed

lemma applied_mark:
  assumes "applied cs a (r, dict)" "sn_reward (f r) = sn_reward r" "sn_messages (f r) = sn_messages r" "sn_blocked (f r) = sn_blocked r"
  shows "applied cs a (f r, dict)"
  using assms by (simp add: applied_def dict_ok_def)

lemma flag_applied:
  assumes "\<And>r. sn_reward (mark r) = sn_reward r" "\<And>r. sn_messages (mark r) = sn_messages r" "\<And>r. sn_blocked (mark r) = sn_blocked r"
  shows "applied (map wrapFactorRestriction (List.map_filter id [v])) rd (apply_flag v mark rd)"
proof (cases v)
  case (Some x)
  show ?thesis using applied_one[of x rd] assms by (cases "applyRestriction x rd") (simp add: Some apply_flag_def List.map_filter_simps applied_mark)
qed (simp add: apply_flag_def List.map_filter_simps applied_none)

lemma patterns_applied:
  "apply_patterns matches infoStr ps rd = Inr rd' \<Longrightarrow>
     applied (map (\<lambda>p. wrapFactorRestriction (snd p)) (filter (\<lambda>p. matches (fst p) infoStr = Some True) ps)) rd rd'"
proof (induction matches infoStr ps rd rule: apply_patterns.induct)
  case (2 matches infoStr p v ps rd)
  show ?case
  proof (cases "matches p infoStr = Some True")
    case True
    hence "applied (map (\<lambda>p. wrapFactorRestriction (snd p)) (filter (\<lambda>p. matches (fst p) infoStr = Some True) ps)) (applyRestriction v rd) rd'"
      using "2.IH"(1)[of True] "2.prems" by simp
    from applied_append[OF applied_one this] show ?thesis using True by simp
  qed (use "2.IH"(2)[of False] "2.prems" in \<open>auto split: option.splits bool.splits\<close>)
qed (simp add: applied_none)

lemma provider_applied:
  "applied (map wrapFactorRestriction (case (info, ic_restrictions cfg) of
       (Some i, Some m) \<Rightarrow> List.map_filter id [flag_restriction (ii_hosting i) ''hosting'' m, flag_restriction (ii_proxy i) ''proxy'' m, country_restriction i m]
     | _ \<Rightarrow> [])) (no_restriction, []) (provider_restriction cfg info)"
proof (cases "info = None \<or> ic_restrictions cfg = None")
  case False
  then obtain i m where im: "info = Some i" "ic_restrictions cfg = Some m" by auto
  have three: "List.map_filter id [a, b, c] = List.map_filter id [a] @ List.map_filter id [b] @ List.map_filter id [c]" for a b c :: "restriction_value option"
    by (simp add: List.map_filter_simps split: option.split)
  show ?thesis unfolding im provider_restriction_def prod.case option.case three map_append
    by (rule applied_append[OF flag_applied applied_append[OF flag_applied flag_applied]]) simp_all
qed (auto simp: provider_restriction_def applied_none split: option.split)

lemma flags_kept: "sn_hosting (fst (applyRestriction v rd)) = sn_hosting (fst rd)" "sn_proxy (fst (applyRestriction v rd)) = sn_proxy (fst rd)"
  by (cases rd; simp add: applyRestriction_def Let_def split: option.split)+

lemma patterns_flags: "apply_patterns matches infoStr ps rd = Inr rd' \<Longrightarrow> sn_hosting (fst rd') = sn_hosting (fst rd) \<and> sn_proxy (fst rd') = sn_proxy (fst rd)"
  by (induction matches infoStr ps rd rule: apply_patterns.induct) (auto simp: flags_kept split: option.splits bool.splits)

definition flagged :: "bool option \<Rightarrow> string \<Rightarrow> ipinfo_config \<Rightarrow> bool" where
  "flagged flag name cfg \<longleftrightarrow> (case ic_restrictions cfg of None \<Rightarrow> False | Some m \<Rightarrow> flag_restriction flag name m \<noteq> None)"

lemma apply_flag_flags:
  "sn_hosting (fst (apply_flag v (sn_hosting_update (\<lambda>_. True)) rd)) = (v \<noteq> None \<or> sn_hosting (fst rd))"
  "sn_proxy (fst (apply_flag v (sn_hosting_update (\<lambda>_. True)) rd)) = sn_proxy (fst rd)"
  "sn_hosting (fst (apply_flag v (sn_proxy_update (\<lambda>_. True)) rd)) = sn_hosting (fst rd)"
  "sn_proxy (fst (apply_flag v (sn_proxy_update (\<lambda>_. True)) rd)) = (v \<noteq> None \<or> sn_proxy (fst rd))"
  "sn_hosting (fst (apply_flag v id rd)) = sn_hosting (fst rd)" "sn_proxy (fst (apply_flag v id rd)) = sn_proxy (fst rd)"
  using flags_kept[of "the v" rd] by (auto simp: apply_flag_def split: option.split prod.splits)

lemma provider_flags:
  "sn_hosting (fst (provider_restriction cfg info)) = (case info of None \<Rightarrow> False | Some i \<Rightarrow> flagged (ii_hosting i) ''hosting'' cfg)"
  "sn_proxy (fst (provider_restriction cfg info)) = (case info of None \<Rightarrow> False | Some i \<Rightarrow> flagged (ii_proxy i) ''proxy'' cfg)"
  by (auto simp: provider_restriction_def flagged_def apply_flag_flags no_restriction_def split: option.split)

definition strictest :: "restriction_config list \<Rightarrow> block_state" where
  "strictest cs = (if \<exists>c \<in> set cs. rc_blocked c = Some BlockKill then KillB
     else if \<exists>c \<in> set cs. rc_blocked c \<in> {Some BlockClose, Some (BlockFlag True)} then CloseB else NotBlocked)"

lemma block_other: "b \<noteq> CloseB \<Longrightarrow> b \<noteq> KillB \<Longrightarrow> b = NotBlocked"
  by (cases b) auto

lemma blocks_fold: "fold apply_block (map rc_blocked cs) b = (if strictest cs = KillB \<or> b = KillB then KillB else if strictest cs = CloseB \<or> b = CloseB then CloseB else NotBlocked)"
proof (induction cs arbitrary: b)
  case (Cons c cs)
  show ?case using Cons
    by (cases b) (auto simp: apply_block_def strictest_def split: option.split block_config.split bool.split)
qed (simp add: strictest_def block_other)

text \<open>The steps of \<^verbatim>\<open>getSessionRestriction\<close> put together.\<close>

lemma restriction_applied:
  assumes "getSessionRestriction files matches cfg now targetAddr remoteIp ident info cache = (Inr r, cache')"
  shows "\<exists>dict. applied (applicable matches cfg (getIPInfoString targetAddr remoteIp ident info) info
      (if ic_patterns cfg = None \<and> ic_file cfg = None then [] else snd cache')) (no_restriction, []) (r, dict)"
    "sn_hosting r = sn_hosting (fst (provider_restriction cfg info))" "sn_proxy r = sn_proxy (fst (provider_restriction cfg info))"
proof -
  note prov = provider_applied[of info cfg]
  have "(\<exists>dict. applied (applicable matches cfg (getIPInfoString targetAddr remoteIp ident info) info
      (if ic_patterns cfg = None \<and> ic_file cfg = None then [] else snd cache')) (no_restriction, []) (r, dict)) \<and>
    sn_hosting r = sn_hosting (fst (provider_restriction cfg info)) \<and> sn_proxy r = sn_proxy (fst (provider_restriction cfg info))"
  proof (cases "ic_patterns cfg = None \<and> ic_file cfg = None")
    case True
    thus ?thesis using assms prov
      by (auto simp: getSessionRestriction_def applicable_def intro: exI[of _ "snd (provider_restriction cfg info)"])
  next
    case False
    then obtain dict where d: "apply_patterns matches (getIPInfoString targetAddr remoteIp ident info) (snd cache') (provider_restriction cfg info) = Inr (r, dict)"
      using assms by (auto simp: getSessionRestriction_def try_bind_Inr_iff split: prod.splits option.splits if_splits)
    show ?thesis using applied_append[OF prov patterns_applied[OF d]] patterns_flags[OF d] False
      by (auto simp: applicable_def comp_def)
  qed
  thus "\<exists>dict. applied (applicable matches cfg (getIPInfoString targetAddr remoteIp ident info) info
      (if ic_patterns cfg = None \<and> ic_file cfg = None then [] else snd cache')) (no_restriction, []) (r, dict)"
    "sn_hosting r = sn_hosting (fst (provider_restriction cfg info))" "sn_proxy r = sn_proxy (fst (provider_restriction cfg info))" by blast+
qed

text \<open>The restriction of a session is the strictest of all that apply to it.  When \<^verbatim>\<open>getSessionRestriction\<close> returns, the reward is
  the least of 100 and the rewards of the restrictions for a flag of the provider, for the country and for the patterns that match;
  the session is killed when one of them kills, closed when one closes and none kills, and let in otherwise; every message is told,
  or another one under the same key; and the flags say on which of hosting and proxy the restriction is based.\<close>

lemma ip_restriction_exact:
  fixes matches :: "string \<Rightarrow> string \<Rightarrow> bool option" and cfg :: ipinfo_config and info :: "ip_info option" and cache' :: pattern_cache
    and targetAddr remoteIp :: string and ident :: "string option"
  defines "cs \<equiv> applicable matches cfg (getIPInfoString targetAddr remoteIp ident info) info
      (if ic_patterns cfg = None \<and> ic_file cfg = None then [] else snd cache')"
  assumes "getSessionRestriction files matches cfg now targetAddr remoteIp ident info cache = (Inr r, cache')"
  shows "sn_reward r = Min (insert 100 (rewards_of cs)) \<and> sn_blocked r = strictest cs \<and>
    (\<forall>c \<in> set cs. given (rc_message c) \<longrightarrow> message_told (sn_messages r) c) \<and>
    sn_hosting r = (case info of None \<Rightarrow> False | Some i \<Rightarrow> flagged (ii_hosting i) ''hosting'' cfg) \<and>
    sn_proxy r = (case info of None \<Rightarrow> False | Some i \<Rightarrow> flagged (ii_proxy i) ''proxy'' cfg)"
proof -
  obtain dict where a: "applied cs (no_restriction, []) (r, dict)" using restriction_applied(1)[OF assms(2)] unfolding cs_def by blast
  have "strictest cs = KillB \<or> strictest cs = CloseB \<or> strictest cs = NotBlocked" by (metis block_state.exhaust)
  thus ?thesis using a restriction_applied(2,3)[OF assms(2)]
    by (auto simp: applied_def dict_ok_def no_restriction_def blocks_fold provider_flags)
qed

subsection \<open>An override of one session reaches another one\<close>

text \<open>Two sessions of one address share a lookup.  The first one has an override of the hosting flag (a passport of its user), and
  writes it to the object that the second one then reads: the second session is let in, though hosting addresses are blocked.  Alone,
  it is refused.\<close>

definition hosting_blocked :: ipinfo_config where
  "hosting_blocked = \<lparr>ic_required = True, ic_restrictions = Some [(''hosting'', RestrictV \<lparr>rc_reward = None, rc_msgkey = None,
     rc_message = Some ''no hosting'', rc_notify = None, rc_blocked = Some BlockKill\<rparr>)], ic_patterns = None, ic_file = None\<rparr>"

definition no_files :: ip_files where
  "no_files = \<lparr>if_resolve = id, if_lines = (\<lambda>_. None), if_yaml = (\<lambda>_. None)\<rparr>"

definition hosted_session :: "bool option \<Rightarrow> ip_session" where
  "hosted_session overriding = \<lparr>is_target = ''0x1'', is_ip = ''192.0.2.1'', is_ident = None, is_skipped = False,
     is_overrideHosting = overriding, is_overrideProxy = None, is_data = None, is_restriction = None\<rparr>"

definition hosting_info :: ip_info where
  "hosting_info = (status_info ''success'')\<lparr>ii_hosting := Some True, ii_proxy := Some False\<rparr>"

definition outcome_of_second :: "ip_world \<Rightarrow> ip_outcome list" where
  "outcome_of_second w = filter (\<lambda>out. out \<in> {PassedI ''s2'', RefusedI ''s2'' ''IPINFO_RESTRICTION''}) (iw_log w)"

lemma override_shared:
  "outcome_of_second (ip_run no_files (\<lambda>_ _. Some False) hosting_blocked
     [OpenI ''s1'' (hosted_session (Some False)), OpenI ''s2'' (hosted_session None), AskI True 1 ''s1'', AskI True 1 ''s2'', AnsweredI 0 hosting_info 2])
   = [PassedI ''s2'']"
  by code_simp

lemma override_alone:
  "outcome_of_second (ip_run no_files (\<lambda>_ _. Some False) hosting_blocked
     [OpenI ''s2'' (hosted_session None), AskI True 1 ''s2'', AnsweredI 0 hosting_info 2])
   = [RefusedI ''s2'' ''IPINFO_RESTRICTION'']"
  by code_simp

end
