(* ===== verification/Spec2Isabelle.thy ===== *)
theory Spec2Isabelle
  imports Limit_Modules Reward_Modules Claim_Fees Session_Rewards Claim_Accounting Voucher_Reserve
    Http_Server Pow_Closing Github_Auth Async_Work Process_Shutdown
    Module_Loading Wallet_Refill Stake_Ownership Hook_Rounds Outflow_Roundtrip Ip_Restrictions
begin

text \<open>
  A verification development for hyperfaucet, a faucet for test networks (TypeScript, under
  \<^verbatim>\<open>src/src\<close>).

  \<^bold>\<open>The program.\<close>  A client starts a session at the web API; modules hook into the session to refuse
  it, to lower its rewards or to bind it to a voucher; the session earns rewards (in one go, or by
  shares of proof of work), is completed and becomes claimable; claiming it queues a transaction,
  which the claim manager signs, sends and follows through the wallet manager until it is
  confirmed; confirmation runs the accounting hooks of the modules and finishes the session.  All
  of it is kept in one database, whose statements may fail, or take effect and still report an
  error.  The code's hard part is therefore the same everywhere: what is true when any call can
  fail at any moment, and when handlers interleave at every await.

  \<^bold>\<open>How the code is read.\<close>  A class is a record and its methods are definitions on it.  A method with
  no await is a function.  A method that awaits is, for the sessions and modules, a function in
  the state and failure monad of \<^theory_text>\<open>Effects\<close>, run against a list of faults that says for each
  database statement whether it works, fails, or works and reports an error; where several handlers
  run at once (claims, vouchers, validations, requests) it is cut at its awaits into steps, and the
  theorems are about every sequence of steps.  Errors are values.  Numbers are exact integers and
  rationals where the source uses bigint or checks safe integers; where it divides in floating
  point the rounding is a parameter.  Objects used as maps are association lists in the order of
  insertion (\<^theory_text>\<open>js_get\<close>, \<^theory_text>\<open>js_set\<close>, \<^theory_text>\<open>js_delete\<close> in \<^theory_text>\<open>Faucet_Prelude\<close>).

  \<^bold>\<open>Theories.\<close>
  \<^item> \<^theory_text>\<open>Faucet_Prelude\<close>: lists, maps, decimal text and JSON values, with the hint collections;
    \<^theory_text>\<open>Effects\<close>: the monad of fallible state operations.
  \<^item> \<^theory_text>\<open>Admission_Interface\<close>, \<^theory_text>\<open>Admission_Ledger\<close> (\<^verbatim>\<open>session/AdmissionLedger.ts\<close>): who may be admitted, as
    a contract, and the ledger that meets it; its two indices agree and moving a subject aborts or
    commits.
  \<^item> \<^theory_text>\<open>Limit_Modules\<close> (\<^verbatim>\<open>modules/concurrency-limit\<close>, \<^verbatim>\<open>modules/recurring-limits\<close>): the limits hold for
    every interleaving of starting sessions.
  \<^item> \<^theory_text>\<open>Reward_Modules\<close> (\<^verbatim>\<open>modules/faucet-balance\<close>, \<^verbatim>\<open>modules/whitelist\<close>): reward factors.
  \<^item> \<^theory_text>\<open>Hook_Rounds\<close>, \<^theory_text>\<open>Action_Hooks\<close> (\<^verbatim>\<open>modules/ModuleManager.ts\<close>): the invocation of hooks.  \<^theory_text>\<open>Hook_Rounds\<close> is the
    loop as it runs, the hooks of one priority overlapping: the next priority waits for all of them and
    starts only when none failed.  \<^theory_text>\<open>Action_Hooks\<close> is registration, and the schedule of that loop in which
    one hook ends before the next starts, which the sessions below run their hooks with.
  \<^item> \<^theory_text>\<open>Eth_Claim\<close> (\<^verbatim>\<open>eth/EthClaim.ts\<close>): claim data and its stored form.
  \<^item> \<^theory_text>\<open>Faucet_Database\<close>, \<^theory_text>\<open>Session_Rows\<close> (\<^verbatim>\<open>db/FaucetDatabase.ts\<close>): the statements on sessions and
    stored values, the bounded cleanup; a session row only moves forward.
  \<^item> \<^theory_text>\<open>Durable_Cell\<close>, \<^theory_text>\<open>Outflow_State\<close>, \<^theory_text>\<open>Dynamic_Outflow\<close>, \<^theory_text>\<open>Faucet_Outflow\<close>, \<^theory_text>\<open>Claim_Fees\<close>
    (\<^verbatim>\<open>modules/dynamic-outflow\<close>, \<^verbatim>\<open>modules/faucet-outflow\<close>): budgets kept in one stored text each,
    written by compare-and-set; a debit happens completely or not at all, a claim fee once at most.
    \<^theory_text>\<open>Outflow_Roundtrip\<close> describes the states such a module can hold and what is read back of them.
    The contract of such a cell is a locale, which both modules interpret.
  \<^item> \<^theory_text>\<open>Faucet_Session\<close> (\<^verbatim>\<open>session/FaucetSession.ts\<close>) with \<^theory_text>\<open>Session_Safety\<close>, \<^theory_text>\<open>Session_Steps\<close>,
    \<^theory_text>\<open>Session_Failure\<close>, \<^theory_text>\<open>Session_Completion\<close>, \<^theory_text>\<open>Session_Durable\<close>, \<^theory_text>\<open>Session_Modules\<close>,
    \<^theory_text>\<open>Session_Rewards\<close>: a session and its row agree after every call, whatever the faults; what
    modules may do to it is a locale, met by the limit and outflow modules.
  \<^item> \<^theory_text>\<open>Ip_Restrictions\<close> (\<^verbatim>\<open>modules/ipinfo/IPInfoModule.ts\<close>): the restriction of a session by what is known of its
    address is the strictest of all that apply; objects shared by concurrent lookups are in a store, as
    sessions write to them.
  \<^item> \<^theory_text>\<open>Ip_Address\<close> (\<^verbatim>\<open>utils/IPAddress.ts\<close>), \<^theory_text>\<open>Faucet_Status\<close> (\<^verbatim>\<open>services/FaucetStatus.ts\<close>,
    \<^verbatim>\<open>utils/StringUtils.ts\<close>).
  \<^item> \<^theory_text>\<open>Wallet_Manager\<close> (\<^verbatim>\<open>eth/EthWalletManager.ts\<close>): balances, nonces and reservations.
  \<^item> \<^theory_text>\<open>Claim_Manager\<close> (\<^verbatim>\<open>eth/EthClaimManager.ts\<close>) with \<^theory_text>\<open>Claim_Rows\<close>, \<^theory_text>\<open>Claim_Safety\<close>,
    \<^theory_text>\<open>Claim_Schedule\<close>, \<^theory_text>\<open>Claim_Payout\<close>, \<^theory_text>\<open>Claim_Accounting\<close>: the payout engine as tasks under an
    arbitrary scheduler with restarts; a session is paid with one transaction and finished only
    after its accounting.
  \<^item> \<^theory_text>\<open>Voucher_DB\<close> (\<^verbatim>\<open>modules/voucher/VoucherDB.ts\<close>) with \<^theory_text>\<open>Voucher_Rules\<close>, \<^theory_text>\<open>Voucher_Safety\<close>,
    \<^theory_text>\<open>Voucher_Reserve\<close>: leases and receipts, statement by statement, interleaved with the failure
    and deletion of sessions.
  \<^item> \<^theory_text>\<open>Public_Errors\<close> (\<^verbatim>\<open>webserv/PublicErrors.ts\<close>, \<^verbatim>\<open>common/FaucetError.ts\<close>), \<^theory_text>\<open>Web_Api\<close>
    (\<^verbatim>\<open>webserv/FaucetWebApi.ts\<close>), \<^theory_text>\<open>Http_Server\<close> (\<^verbatim>\<open>webserv/FaucetHttpServer.ts\<close>): what a client is
    told, and how a request is read and answered.
  \<^item> \<^theory_text>\<open>Pow_Validator\<close> (\<^verbatim>\<open>modules/pow/validator/PoWValidator.ts\<close>) with \<^theory_text>\<open>Pow_Scheduling\<close> and
    \<^theory_text>\<open>Pow_Queue\<close>: the queue of shares to validate; none is stranded, each is settled once, with the
    answer of the worker that was asked.
  \<^item> \<^theory_text>\<open>Pow_Session\<close> (\<^verbatim>\<open>modules/pow/PoWSession.ts\<close>, \<^verbatim>\<open>PoWConfig.ts\<close>), \<^theory_text>\<open>Pow_Share\<close>
    (\<^verbatim>\<open>PoWShareVerification.ts\<close>, \<^verbatim>\<open>PoWClient.ts\<close>), \<^theory_text>\<open>Pow_Worker\<close> (\<^verbatim>\<open>PoWServerWorker.ts\<close>): the mining
    worker process around that queue, objects referred to by number and promises by their
    continuations.  \<^theory_text>\<open>Pow_Rules\<close> states as a locale what a write may be; \<^theory_text>\<open>Pow_Earned\<close> and
    \<^theory_text>\<open>Pow_Closing\<close> interpret it: rewards are asked for shares found valid only, once each, and a
    session is not closed in a benign way while a share of it is undecided.
  \<^item> \<^theory_text>\<open>Github_Auth\<close> (\<^verbatim>\<open>modules/github/GithubAuthState.ts\<close>): the states of logins with GitHub; each is
    used once, by the browser and for the origins it was issued to, and their number is bounded.
  \<^item> \<^theory_text>\<open>Async_Work\<close> (\<^verbatim>\<open>utils/BoundedAsyncWork.ts\<close>): operations on a runtime that can be replaced; one
    runtime at a time is at work, none is lost, and nobody is told a result of one that was replaced.
  \<^item> \<^theory_text>\<open>Process_Shutdown\<close> (\<^verbatim>\<open>common/FaucetProcess.ts\<close> with the gates of \<^verbatim>\<open>session/SessionManager.ts\<close> and
    \<^verbatim>\<open>modules/ModuleManager.ts\<close>): the order of a shutdown; when the sessions are saved nothing is in flight
    that could change them.  Reward operations run one after the other, which is why the models of
    sessions and modules take each of them as one step.
  \<^item> \<^theory_text>\<open>Module_Loading\<close> (\<^verbatim>\<open>modules/BaseModule.ts\<close>, \<^verbatim>\<open>modules/ModuleManager.ts\<close>): the life of a module and the
    loads; each configured module ends as configured or its failure is reported, and hooks belong to
    enabled modules only.
  \<^item> \<^theory_text>\<open>Wallet_Refill\<close> (\<^verbatim>\<open>eth/EthWalletRefill.ts\<close>): transactions with the vault contract, their spacing and
    amounts.
  \<^item> \<^theory_text>\<open>Stake_Ownership\<close> (\<^verbatim>\<open>modules/hyperliquid-stake/HyperliquidStakeModule.ts\<close>, \<^verbatim>\<open>HyperliquidStakeOwnership.ts\<close>):
    stakes of a session, the challenge that proves its wallet, with the saves and restarts in between; no
    session gets a boost without a proof of the wallet it pays.

  \<^bold>\<open>Bounds and fuel.\<close>  Loops of the source are recursion on the list they run over or on a measure.
  Where a recursion goes through the database it carries fuel: \<^theory_text>\<open>reserve_from\<close> (the voucher code
  calls itself again after a reconciliation) needs two units,
  \<^theory_text>\<open>FINISH_FUEL\<close> (finishing a session may complete it) more than two calls, and
  \<^theory_text>\<open>cleanStoreBounded\<close> gets one unit per row and batch; each of these is proved.
  \<^theory_text>\<open>dispatch_loop\<close> takes one turn per scheduled session, which is the loop's own bound.

  \<^bold>\<open>Not modelled.\<close>  Log output, timers as such (a timer is a step that may come at any moment while it
  is armed), metrics, and what \<^verbatim>\<open>PROJECT.json\<close> lists as not modelled: the modules that ask outside
  services (passport, Zupass, GitHub, authenticatoor, captcha, ENS, the provider of IP information,
  mainnet wallets), the database drivers (any statement may fail or report a false failure),
  process and worker wiring, configuration files, the web client and the build scripts.  An operation on the
  state of one outflow module, and the sending of a custom transaction, is one step: what other handlers read, and
  so settle in memory, between its awaits is not interleaved with it.
  Session hooks of modules without a model are arguments or are left out of the environment the
  session theorems fix, as each of them says.  Within a
  handler that does not await, \<^verbatim>\<open>performance.now()\<close> is one value.  The engine of payouts never deletes
  rows; the cleanup that does is in \<^theory_text>\<open>Faucet_Database\<close> and touches settled sessions only.
\<close>

end
